(* ===== verification/Prelude.thy ===== *)
theory Prelude
  imports Main "HOL-Library.Word" "HOL-Library.Multiset" "HOL-Library.Sublist" "HOL-Library.AList"
begin

text \<open>
  The shared ground of the development: names for the machine integers of the Go code, the way a
  Go run-time panic is represented, and the generic facts on slices and maps that the component
  theories use. A Go slice is a list; a Go map that is only looked up is a HOL map, and a Go map
  that the code also ranges over or counts is an association list with distinct keys.
\<close>

named_theorems slice_simps \<open>facts on slice operations: indexing, deletion, swapping\<close>
named_theorems gomap_simps \<open>facts on Go maps kept as association lists\<close>

type_synonym u8 = "8 word"
type_synonym u16 = "16 word"
type_synonym u32 = "32 word"
type_synonym u64 = "64 word"
type_synonym bytes = "u8 list"

text \<open>
  A run-time panic of the Go program, as the error of a result; \<open>FatalExit\<close> is the end of the process
  by a fatal log message. Two of them are not panics: \<open>RandExhausted\<close> marks a run whose finite tape of
  random numbers was too short for the loop that draws a fresh PIT token, and \<open>NoReturn\<close> a call of a
  loop that does not end.
\<close>

datatype go_error =
  NilDereference | IndexOutOfRange | NilMapWrite | DivideByZero | MakeSliceLen | TypeAssertion | FatalExit | RandExhausted | NoReturn

type_synonym 'a result = "go_error + 'a"

text \<open>Running one step after another: a panic ends the run.\<close>

definition rbind :: "'a result \<Rightarrow> ('a \<Rightarrow> 'b result) \<Rightarrow> 'b result" where
  "rbind x f = (case x of Inl e \<Rightarrow> Inl e | Inr v \<Rightarrow> f v)"

lemma rbind_simps [simp]: "rbind (Inl e) f = Inl e" "rbind (Inr v) f = f v"
  by (simp_all add: rbind_def)

lemma rbind_Inr: "rbind x f = Inr w \<longleftrightarrow> (\<exists>v. x = Inr v \<and> f v = Inr w)"
  by (cases x) auto

lemma rbind_cong [fundef_cong]: "x = y \<Longrightarrow> (\<And>v. y = Inr v \<Longrightarrow> f v = g v) \<Longrightarrow> rbind x f = rbind y g"
  by (cases y) auto

text \<open>A loop over a slice whose body may panic.\<close>

fun rfold :: "('a \<Rightarrow> 'b \<Rightarrow> 'b result) \<Rightarrow> 'a list \<Rightarrow> 'b \<Rightarrow> 'b result" where
  "rfold f [] s = Inr s"
| "rfold f (x # xs) s = rbind (f x s) (rfold f xs)"

lemma rfold_append [simp]: "rfold f (xs @ ys) s = rbind (rfold f xs s) (rfold f ys)"
  by (induction xs arbitrary: s) (auto simp: rbind_def split: sum.split)

lemma rfold_inv:
  assumes "rfold f xs s = Inr t" "P s" "\<And>x s s'. x \<in> set xs \<Longrightarrow> P s \<Longrightarrow> f x s = Inr s' \<Longrightarrow> P s'"
  shows "P t"
  using assms by (induction xs arbitrary: s) (auto simp: rbind_Inr)

section \<open>Slices\<close>

text \<open>
  \<open>del_at i xs\<close> is the effect of \<^verbatim>\<open>copy(xs[i:], xs[i+1:]); xs = xs[:len(xs)-1]\<close>, and
  \<open>del_swap i xs\<close> that of \<^verbatim>\<open>xs[i] = xs[len(xs)-1]; xs = xs[:len(xs)-1]\<close>.
\<close>

definition del_at :: "nat \<Rightarrow> 'a list \<Rightarrow> 'a list" where
  "del_at i xs = take i xs @ drop (Suc i) xs"

definition del_swap :: "nat \<Rightarrow> 'a list \<Rightarrow> 'a list" where
  "del_swap i xs = butlast (xs[i := last xs])"

text \<open>The index of the first element that satisfies a predicate, as a range loop with a break finds it.\<close>

fun find_index :: "('a \<Rightarrow> bool) \<Rightarrow> 'a list \<Rightarrow> nat option" where
  "find_index P [] = None"
| "find_index P (x # xs) = (if P x then Some 0 else map_option Suc (find_index P xs))"

lemma find_index_None [slice_simps]: "find_index P xs = None \<longleftrightarrow> (\<forall>x\<in>set xs. \<not> P x)"
  by (induction xs) auto

lemma find_index_SomeD:
  "find_index P xs = Some i \<Longrightarrow> i < length xs \<and> P (xs ! i) \<and> (\<forall>j<i. \<not> P (xs ! j))"
proof (induction xs arbitrary: i)
  case (Cons x xs)
  then show ?case
    by (auto split: if_splits simp: nth_Cons split: nat.splits)
qed simp

lemma length_filter_full [slice_simps]: "length (filter P xs) = length xs \<longleftrightarrow> (\<forall>x\<in>set xs. P x)"
proof (induction xs)
  case (Cons x xs)
  have "length (filter P xs) \<noteq> Suc (length xs)" using length_filter_le[of P xs] by linarith
  then show ?case using Cons by auto
qed simp

lemma del_at_length [slice_simps]: "i < length xs \<Longrightarrow> length (del_at i xs) = length xs - 1"
  by (simp add: del_at_def)

lemma set_del_at_subset: "set (del_at i xs) \<subseteq> set xs"
  by (auto simp: del_at_def dest: in_set_takeD in_set_dropD)

lemma mset_del_at: "i < length xs \<Longrightarrow> mset (del_at i xs) = mset xs - {#xs ! i#}"
proof -
  assume i: "i < length xs"
  then have "mset xs = mset (take i xs @ xs ! i # drop (Suc i) xs)"
    using id_take_nth_drop by metis
  then show ?thesis by (simp add: del_at_def)
qed

lemma mset_del_swap: "i < length xs \<Longrightarrow> mset (del_swap i xs) = mset xs - {#xs ! i#}"
proof -
  assume i: "i < length xs"
  then have ne: "xs \<noteq> []" by auto
  let ?ys = "xs[i := last xs]"
  have l: "last ?ys = last xs"
    using i ne by (simp add: last_list_update)
  have "mset ?ys = mset (butlast ?ys) + {#last ?ys#}"
    using ne by (metis append_butlast_last_id list_update_nonempty mset_append mset_single_iff_right mset.simps)
  then have "mset (butlast ?ys) = mset ?ys - {#last xs#}"
    using l by simp
  moreover have "mset ?ys = add_mset (last xs) (mset xs - {#xs ! i#})"
    using i by (simp add: mset_update)
  ultimately show ?thesis by (simp add: del_swap_def)
qed

end
