(* ===== verification/Go_Ndn.thy ===== *)
theory Go_Ndn
  imports Prelude
begin

text \<open>
  The part of the third-party package \<^verbatim>\<open>github.com/zjkmxy/go-ndn/pkg/encoding\<close> (imported as
  \<^verbatim>\<open>enc\<close>) that the forwarder calls. Its source is not part of the repository, so its functions
  are the fields of a record \<open>enc_api\<close> that every definition using them takes as an argument.
  A component is the struct \<^verbatim>\<open>enc.Component{Typ, Val}\<close> and a name is the slice
  \<^verbatim>\<open>enc.Name\<close> of its components; the nil name is \<open>None\<close> where the code tells it apart from
  the empty name.
\<close>

record component =
  Typ :: u64
  Val :: bytes

type_synonym name = "component list"

record enc_api =
  comp_Equal :: "component \<Rightarrow> component \<Rightarrow> bool"
  comp_Hash :: "component \<Rightarrow> u64"
  name_Equal :: "name \<Rightarrow> name \<Rightarrow> bool"
  name_IsPrefix :: "name \<Rightarrow> name \<Rightarrow> bool"
  name_Hash :: "name \<Rightarrow> u64"
  name_PrefixHash :: "name \<Rightarrow> u64 list"
  name_Bytes :: "name \<Rightarrow> bytes"
  NameFromStr :: "string \<Rightarrow> name option"

text \<open>A nil name behaves as the empty name wherever the package's methods are called on it.\<close>

definition nil_to_empty :: "name option \<Rightarrow> name" where
  "nil_to_empty on = (case on of None \<Rightarrow> [] | Some n \<Rightarrow> n)"

text \<open>
  The documented behaviour of these functions: \<open>Equal\<close> is equality, \<open>IsPrefix\<close> the prefix
  order on component lists, and \<open>PrefixHash\<close> the list of the hashes of all prefixes, shortest
  first. Hashes are not assumed to be injective; where the code relies on the absence of
  collisions, the theorem says for which names.
\<close>

definition enc_laws :: "enc_api \<Rightarrow> bool" where
  "enc_laws E \<longleftrightarrow>
     (\<forall>a b. comp_Equal E a b \<longleftrightarrow> a = b) \<and>
     (\<forall>a b. name_Equal E a b \<longleftrightarrow> a = b) \<and>
     (\<forall>a b. name_IsPrefix E a b \<longleftrightarrow> prefix a b) \<and>
     (\<forall>n. name_PrefixHash E n = map (\<lambda>i. name_Hash E (take i n)) [0..<Suc (length n)])"

lemma enc_lawsD:
  assumes "enc_laws E"
  shows "comp_Equal E a b \<longleftrightarrow> a = b" "name_Equal E m n \<longleftrightarrow> m = n" "name_IsPrefix E m n \<longleftrightarrow> prefix m n"
    "name_PrefixHash E n = map (\<lambda>i. name_Hash E (take i n)) [0..<Suc (length n)]"
  using assms by (simp_all add: enc_laws_def)

lemma PrefixHash_nth [simp]:
  "enc_laws E \<Longrightarrow> i \<le> length n \<Longrightarrow> name_PrefixHash E n ! i = name_Hash E (take i n)"
  by (simp add: enc_lawsD(4) del: upt_Suc)

lemma PrefixHash_length [simp]: "enc_laws E \<Longrightarrow> length (name_PrefixHash E n) = Suc (length n)"
  by (simp add: enc_lawsD(4))

text \<open>
  A concrete instance of the interface, on which the theorems that assume \<open>enc_laws\<close> are
  instantiated: hashes and bytes are those of a positional reading of a name, which tells short
  names of one-byte components apart.
\<close>

definition toy_comp_Hash :: "component \<Rightarrow> u64" where
  "toy_comp_Hash c = foldl (\<lambda>h b. h * 257 + ucast b + 1) (Typ c) (Val c)"

definition toy_name_Hash :: "name \<Rightarrow> u64" where
  "toy_name_Hash n = foldl (\<lambda>h c. h * 65537 + toy_comp_Hash c + 1) 0 n"

definition toy_enc :: enc_api where
  "toy_enc =
     \<lparr>comp_Equal = (=), comp_Hash = toy_comp_Hash, name_Equal = (=), name_IsPrefix = prefix,
      name_Hash = toy_name_Hash,
      name_PrefixHash = (\<lambda>n. map (\<lambda>i. toy_name_Hash (take i n)) [0..<Suc (length n)]),
      name_Bytes = (\<lambda>n. concat (map (\<lambda>c. ucast (Typ c) # of_nat (length (Val c)) # Val c) n)),
      NameFromStr = (\<lambda>s. Some (map (\<lambda>ch. \<lparr>Typ = 8, Val = [of_char ch]\<rparr>) (filter (\<lambda>ch. ch \<noteq> CHR ''/'') s)))\<rparr>"

lemma toy_enc_laws: "enc_laws toy_enc"
  by (simp add: enc_laws_def toy_enc_def)

lemma toy_enc_simps [simp]:
  "comp_Equal toy_enc = (=)" "comp_Hash toy_enc = toy_comp_Hash" "name_Equal toy_enc = (=)"
  "name_IsPrefix toy_enc = prefix" "name_Hash toy_enc = toy_name_Hash"
  "name_PrefixHash toy_enc n = map (\<lambda>i. toy_name_Hash (take i n)) [0..<Suc (length n)]"
  by (simp_all add: toy_enc_def del: upt_Suc)

end
