(* ===== verification/Heap_Queue.thy ===== *)
theory Heap_Queue
  imports Prelude
begin

text \<open>
  The binary heap of \<^verbatim>\<open>src/utils/heap/heap.go\<close> and the priority queue that
  \<^verbatim>\<open>src/utils/priority_queue/priority-queue.go\<close> builds on it. A queue is the slice of its items;
  an item carries its object, its priority and its own position. The loops \<open>up\<close> and \<open>down\<close>
  are recursive functions on the slice, and the heap's \<open>Interface\<close> methods are the operations
  \<open>pq_Less\<close>, \<open>pq_Swap\<close>, \<open>wrapper_Push\<close> and \<open>wrapper_Pop\<close> of the queue's wrapper type.
\<close>

record ('v, 'p) item =
  object :: 'v
  priority :: 'p
  index :: int

type_synonym ('v, 'p) wrapper = "('v, 'p) item list"

section \<open>The wrapper's methods\<close>

definition pq_Less :: "('v, 'p::linorder) wrapper \<Rightarrow> nat \<Rightarrow> nat \<Rightarrow> bool" where
  "pq_Less pq i j = (priority (pq ! i) < priority (pq ! j))"

definition pq_Swap :: "('v, 'p) wrapper \<Rightarrow> nat \<Rightarrow> nat \<Rightarrow> ('v, 'p) wrapper" where
  "pq_Swap pq i j =
     (let pq1 = (pq[i := pq ! j])[j := pq ! i];
          pq2 = pq1[i := (pq1 ! i)\<lparr>index := int i\<rparr>]
      in pq2[j := (pq2 ! j)\<lparr>index := int j\<rparr>])"

definition wrapper_Push :: "('v, 'p) wrapper \<Rightarrow> ('v, 'p) item \<Rightarrow> ('v, 'p) wrapper" where
  "wrapper_Push pq x = pq @ [x\<lparr>index := int (length pq)\<rparr>]"

definition wrapper_Pop :: "('v, 'p) wrapper \<Rightarrow> ('v, 'p) item \<times> ('v, 'p) wrapper" where
  "wrapper_Pop pq = ((pq ! (length pq - 1))\<lparr>index := - 1\<rparr>, take (length pq - 1) pq)"

section \<open>The heap's loops\<close>

text \<open>
  \<open>up\<close>: Go computes the parent of 0 as \<open>(0 - 1) / 2 = 0\<close> (division truncates), which is also
  what truncating subtraction on \<open>nat\<close> gives, so the test \<open>i = j\<close> stops the loop at the root.
\<close>

fun up :: "('v, 'p::linorder) wrapper \<Rightarrow> nat \<Rightarrow> ('v, 'p) wrapper" where
  "up h j =
     (let i = (j - 1) div 2
      in if i = j \<or> \<not> pq_Less h j i then h else up (pq_Swap h i j) i)"

declare up.simps [simp del]

text \<open>
  \<open>down\<close> returns the slice and whether the element moved. Slices are shorter than the largest
  machine integer, so the guard on an overflowing child index is never taken.
\<close>

function down_from :: "('v, 'p::linorder) wrapper \<Rightarrow> nat \<Rightarrow> nat \<Rightarrow> ('v, 'p) wrapper \<times> nat" where
  "down_from h i n =
     (let j1 = 2 * i + 1
      in if j1 \<ge> n then (h, i)
         else let j2 = j1 + 1; j = (if j2 < n \<and> pq_Less h j2 j1 then j2 else j1)
              in if \<not> pq_Less h j i then (h, i) else down_from (pq_Swap h i j) j n)"
  by pat_completeness auto
termination
  by (relation "measure (\<lambda>(h, i, n). n - i)") (auto simp: Let_def split: if_splits)

declare down_from.simps [simp del]

definition down :: "('v, 'p::linorder) wrapper \<Rightarrow> nat \<Rightarrow> nat \<Rightarrow> ('v, 'p) wrapper \<times> bool" where
  "down h i0 n = (let (h', i) = down_from h i0 n in (h', i0 < i))"

section \<open>The heap's operations\<close>

fun heap_Init_from :: "('v, 'p::linorder) wrapper \<Rightarrow> nat \<Rightarrow> ('v, 'p) wrapper" where
  "heap_Init_from h 0 = h"
| "heap_Init_from h (Suc i) = heap_Init_from (fst (down h i (length h))) i"

definition heap_Init :: "('v, 'p::linorder) wrapper \<Rightarrow> ('v, 'p) wrapper" where
  "heap_Init h = heap_Init_from h (length h div 2)"

definition heap_Push :: "('v, 'p::linorder) wrapper \<Rightarrow> ('v, 'p) item \<Rightarrow> ('v, 'p) wrapper" where
  "heap_Push h x = (let h1 = wrapper_Push h x in up h1 (length h1 - 1))"

definition heap_Pop :: "('v, 'p::linorder) wrapper \<Rightarrow> ('v, 'p) item \<times> ('v, 'p) wrapper" where
  "heap_Pop h = (let n = length h - 1 in wrapper_Pop (fst (down (pq_Swap h 0 n) 0 n)))"

definition heap_Fix :: "('v, 'p::linorder) wrapper \<Rightarrow> nat \<Rightarrow> ('v, 'p) wrapper" where
  "heap_Fix h i = (let (h', moved) = down h i (length h) in if moved then h' else up h' i)"

definition heap_Remove :: "('v, 'p::linorder) wrapper \<Rightarrow> nat \<Rightarrow> ('v, 'p) item \<times> ('v, 'p) wrapper" where
  "heap_Remove h i =
     (let n = length h - 1
      in if n \<noteq> i
         then let (h', moved) = down (pq_Swap h i n) i n
              in wrapper_Pop (if moved then h' else up h' i)
         else wrapper_Pop h)"

section \<open>The priority queue\<close>

definition pq_New :: "('v, 'p) wrapper" where
  "pq_New = []"

definition pq_Len :: "('v, 'p) wrapper \<Rightarrow> nat" where
  "pq_Len pq = length pq"

text \<open>
  \<open>Push\<close> returns the position of the pushed item, which it reads from the item after the heap
  has moved it. The item is the one whose \<open>index\<close> the heap maintains: it is found in the
  result as the position the item was moved to.
\<close>

fun up_pos :: "('v, 'p::linorder) wrapper \<Rightarrow> nat \<Rightarrow> nat" where
  "up_pos h j =
     (let i = (j - 1) div 2
      in if i = j \<or> \<not> pq_Less h j i then j else up_pos (pq_Swap h i j) i)"

declare up_pos.simps [simp del]

definition pq_Push :: "('v, 'p::linorder) wrapper \<Rightarrow> 'v \<Rightarrow> 'p \<Rightarrow> ('v, 'p) wrapper \<times> int" where
  "pq_Push pq v p =
     (let x = \<lparr>object = v, priority = p, index = 0\<rparr>;
          pq' = heap_Push pq x
      in (pq', index (pq' ! up_pos (wrapper_Push pq x) (length pq))))"

definition pq_Peek :: "('v, 'p) wrapper \<Rightarrow> 'v result" where
  "pq_Peek pq = (case pq of [] \<Rightarrow> Inl IndexOutOfRange | x # _ \<Rightarrow> Inr (object x))"

definition pq_PeekPriority :: "('v, 'p) wrapper \<Rightarrow> 'p result" where
  "pq_PeekPriority pq = (case pq of [] \<Rightarrow> Inl IndexOutOfRange | x # _ \<Rightarrow> Inr (priority x))"

definition pq_Pop :: "('v, 'p::linorder) wrapper \<Rightarrow> ('v \<times> ('v, 'p) wrapper) result" where
  "pq_Pop pq =
     (if pq = [] then Inl IndexOutOfRange
      else let (x, pq') = heap_Pop pq in Inr (object x, pq'))"

text \<open>
  \<open>Update\<close> overwrites whatever item stands at the given position; the returned index is that of
  the item after the heap has been fixed.
\<close>

definition fix_pos :: "('v, 'p::linorder) wrapper \<Rightarrow> nat \<Rightarrow> nat" where
  "fix_pos h i =
     (let (h', i') = down_from h i (length h) in if i < i' then i' else up_pos h' i)"

definition pq_Update :: "('v, 'p::linorder) wrapper \<Rightarrow> int \<Rightarrow> 'v \<Rightarrow> 'p \<Rightarrow> ('v, 'p) wrapper \<times> int" where
  "pq_Update pq idx v p =
     (if idx < 0 \<or> idx \<ge> int (length pq) then (pq, - 1)
      else let i = nat idx;
               pq1 = pq[i := (pq ! i)\<lparr>object := v, priority := p\<rparr>];
               j = nat (index (pq1 ! i));
               pq2 = heap_Fix pq1 j
           in (pq2, index (pq2 ! fix_pos pq1 j)))"


section \<open>Swapping\<close>

abbreviation prio :: "('v, 'p) wrapper \<Rightarrow> nat \<Rightarrow> 'p" where
  "prio h k \<equiv> priority (h ! k)"

definition contents :: "('v, 'p) wrapper \<Rightarrow> ('v \<times> 'p) multiset" where
  "contents h = mset (map (\<lambda>x. (object x, priority x)) h)"

definition indexed :: "('v, 'p) wrapper \<Rightarrow> bool" where
  "indexed h = (\<forall>i<length h. index (h ! i) = int i)"

lemma pq_Swap_length [simp]: "length (pq_Swap h i j) = length h"
  by (simp add: pq_Swap_def Let_def)

lemma pq_Swap_nth:
  assumes "i < length h" "j < length h" "k < length h"
  shows "pq_Swap h i j ! k =
    (if k = j then (h ! i)\<lparr>index := int j\<rparr> else if k = i then (h ! j)\<lparr>index := int i\<rparr> else h ! k)"
  using assms by (auto simp: pq_Swap_def Let_def nth_list_update)

lemma prio_pq_Swap:
  "i < length h \<Longrightarrow> j < length h \<Longrightarrow> k < length h \<Longrightarrow>
   prio (pq_Swap h i j) k = (if k = j then prio h i else if k = i then prio h j else prio h k)"
  by (simp add: pq_Swap_nth)

lemma indexed_pq_Swap:
  "indexed h \<Longrightarrow> i < length h \<Longrightarrow> j < length h \<Longrightarrow> indexed (pq_Swap h i j)"
  by (auto simp: indexed_def pq_Swap_nth)

lemma contents_pq_Swap:
  assumes "i < length h" "j < length h"
  shows "contents (pq_Swap h i j) = contents h"
proof -
  let ?f = "\<lambda>x. (object x, priority x)"
  have "map ?f (pq_Swap h i j) = (map ?f h)[i := map ?f h ! j, j := map ?f h ! i]"
    using assms by (intro nth_equalityI) (auto simp: pq_Swap_nth nth_list_update)
  then show ?thesis
    using mset_swap[of j "map ?f h" i] assms by (simp only: contents_def length_map)
qed

section \<open>The loops establish the heap order\<close>

definition parent :: "nat \<Rightarrow> nat" where
  "parent k = (k - 1) div 2"

lemma parent_less: "0 < k \<Longrightarrow> parent k < k"
  by (auto simp: parent_def)

lemma parent_eq_iff: "0 < k \<Longrightarrow> parent k = i \<longleftrightarrow> k = 2 * i + 1 \<or> k = 2 * i + 2"
  by (auto simp: parent_def)

lemma parent_children [simp]: "parent (Suc (2 * i)) = i" "parent (Suc (Suc (2 * i))) = i"
  by (auto simp: parent_def)

text \<open>
  \<open>heap_from h b n\<close> is the order of the heap package's documentation among the first \<open>n\<close>
  elements, for the parents from position \<open>b\<close> on; \<open>heap_hole h b i n\<close> is the same order with
  the element at \<open>i\<close> left out.
\<close>

definition heap_from :: "('v, 'p::linorder) wrapper \<Rightarrow> nat \<Rightarrow> nat \<Rightarrow> bool" where
  "heap_from h b n = (\<forall>k<n. 0 < k \<longrightarrow> b \<le> parent k \<longrightarrow> prio h (parent k) \<le> prio h k)"

abbreviation heap_upto :: "('v, 'p::linorder) wrapper \<Rightarrow> nat \<Rightarrow> bool" where
  "heap_upto h n \<equiv> heap_from h 0 n"

definition heap_hole :: "('v, 'p::linorder) wrapper \<Rightarrow> nat \<Rightarrow> nat \<Rightarrow> nat \<Rightarrow> bool" where
  "heap_hole h b i n =
     ((\<forall>k<n. 0 < k \<longrightarrow> b \<le> parent k \<longrightarrow> k \<noteq> i \<longrightarrow> parent k \<noteq> i \<longrightarrow> prio h (parent k) \<le> prio h k) \<and>
      (\<forall>k<n. 0 < k \<longrightarrow> parent k = i \<longrightarrow> 0 < i \<longrightarrow> b \<le> parent i \<longrightarrow> prio h (parent i) \<le> prio h k))"

lemma heap_fromD: "heap_from h b n \<Longrightarrow> k < n \<Longrightarrow> 0 < k \<Longrightarrow> b \<le> parent k \<Longrightarrow> prio h (parent k) \<le> prio h k"
  by (simp add: heap_from_def)

lemma heap_hole_order:
  "heap_hole h b i n \<Longrightarrow> k < n \<Longrightarrow> 0 < k \<Longrightarrow> k \<noteq> i \<Longrightarrow> parent k \<noteq> i \<Longrightarrow> b \<le> parent k \<Longrightarrow>
   prio h (parent k) \<le> prio h k"
  by (simp add: heap_hole_def)

lemma heap_hole_grand:
  "heap_hole h b i n \<Longrightarrow> k < n \<Longrightarrow> 0 < k \<Longrightarrow> parent k = i \<Longrightarrow> 0 < i \<Longrightarrow> b \<le> parent i \<Longrightarrow>
   prio h (parent i) \<le> prio h k"
  by (simp add: heap_hole_def)

lemma heap_from_hole: "heap_from h b n \<Longrightarrow> i < n \<Longrightarrow> heap_hole h b i n"
proof -
  assume h: "heap_from h b n" and i: "i < n"
  have "prio h (parent i) \<le> prio h k" if k: "k < n" "0 < k" "parent k = i" "0 < i" "b \<le> parent i" for k
  proof -
    have "prio h (parent i) \<le> prio h i" by (rule heap_fromD[OF h i k(4,5)])
    also have "\<dots> \<le> prio h k" using heap_fromD[OF h k(1,2)] k parent_less[OF k(4)] by simp
    finally show ?thesis .
  qed
  with h show ?thesis by (simp add: heap_hole_def heap_from_def)
qed

lemma heap_upto_root: "heap_upto h n \<Longrightarrow> k < n \<Longrightarrow> prio h 0 \<le> prio h k"
proof (induction k rule: less_induct)
  case (less k)
  show ?case
  proof (cases "k = 0")
    case False
    then have "parent k < k" by (simp add: parent_less)
    with less have "prio h 0 \<le> prio h (parent k)" by simp
    with less.prems False show ?thesis by (meson heap_fromD gr0I order.trans le0)
  qed simp
qed

definition lower_ok :: "('v, 'p::linorder) wrapper \<Rightarrow> nat \<Rightarrow> nat \<Rightarrow> bool" where
  "lower_ok h i n = (\<forall>k<n. 0 < k \<longrightarrow> parent k = i \<longrightarrow> prio h i \<le> prio h k)"

definition upper_ok :: "('v, 'p::linorder) wrapper \<Rightarrow> nat \<Rightarrow> nat \<Rightarrow> bool" where
  "upper_ok h b i = (0 < i \<longrightarrow> b \<le> parent i \<longrightarrow> prio h (parent i) \<le> prio h i)"

lemma heap_from_split:
  "heap_hole h b i n \<Longrightarrow> lower_ok h i n \<Longrightarrow> upper_ok h b i \<Longrightarrow> heap_from h b n"
  unfolding heap_from_def heap_hole_def lower_ok_def upper_ok_def by metis

lemma up_swap_hole:
  assumes h: "heap_hole h 0 j n" "lower_ok h j n" and j: "0 < j" "j < n" "n \<le> length h"
    and less: "prio h j < prio h (parent j)"
  shows "heap_hole (pq_Swap h (parent j) j) 0 (parent j) n \<and> lower_ok (pq_Swap h (parent j) j) (parent j) n"
proof -
  let ?i = "parent j" and ?s = "pq_Swap h (parent j) j"
  have i: "?i < j" using j by (simp add: parent_less)
  have Pj: "prio ?s j = prio h ?i" and Pi: "prio ?s ?i = prio h j"
    and P: "\<And>k. k < n \<Longrightarrow> k \<noteq> j \<Longrightarrow> k \<noteq> ?i \<Longrightarrow> prio ?s k = prio h k"
    using i j by (simp_all add: prio_pq_Swap)
  have "prio ?s (parent k) \<le> prio ?s k" if k: "k < n" "0 < k" "k \<noteq> ?i" "parent k \<noteq> ?i" for k
  proof (cases "parent k = j")
    case True
    then have "prio h ?i \<le> prio h k" and "k \<noteq> j"
      using heap_hole_grand[OF h(1)] k j parent_less[OF k(2)] by simp_all
    then show ?thesis unfolding True Pj P[OF k(1) \<open>k \<noteq> j\<close> k(3)] by simp
  next
    case False
    have "k \<noteq> j" using k by auto
    have pk: "parent k < n" using parent_less[OF k(2)] k by simp
    show ?thesis unfolding P[OF k(1) \<open>k \<noteq> j\<close> k(3)] P[OF pk False k(4)]
      by (rule heap_hole_order[OF h(1) k(1,2) \<open>k \<noteq> j\<close> False le0])
  qed
  moreover have sib: "prio ?s ?i \<le> prio ?s k \<and> prio h ?i \<le> prio ?s k"
    if k: "k < n" "0 < k" "parent k = ?i" for k
  proof (cases "k = j")
    case True
    with less show ?thesis unfolding True Pj Pi by simp
  next
    case False
    have ki: "k \<noteq> ?i" using k parent_less[OF k(2)] by simp
    have "prio h ?i \<le> prio h k" using heap_hole_order[OF h(1) k(1,2) False] k i by auto
    with less show ?thesis unfolding P[OF k(1) False ki] Pi by simp
  qed
  moreover have "prio ?s (parent ?i) \<le> prio ?s k" if k: "k < n" "0 < k" "parent k = ?i" "0 < ?i" for k
  proof -
    have gi: "parent ?i < ?i" using k by (simp add: parent_less)
    have "prio ?s (parent ?i) = prio h (parent ?i)" by (rule P) (use gi i j in auto)
    also have "\<dots> \<le> prio h ?i" using heap_hole_order[OF h(1), of ?i] k i j gi by auto
    also have "\<dots> \<le> prio ?s k" using sib[OF k(1-3)] by simp
    finally show ?thesis .
  qed
  ultimately show ?thesis by (simp add: heap_hole_def lower_ok_def)
qed

lemma up_heap:
  "heap_hole h 0 j n \<Longrightarrow> lower_ok h j n \<Longrightarrow> j < n \<Longrightarrow> n \<le> length h \<Longrightarrow> heap_upto (up h j) n"
proof (induction h j rule: up.induct)
  case (1 h j)
  let ?i = "(j - 1) div 2"
  show ?case
  proof (cases "?i = j \<or> \<not> pq_Less h j ?i")
    case True
    then have "up h j = h" by (subst up.simps) (simp add: Let_def)
    moreover have "upper_ok h 0 j"
      using True by (auto simp: pq_Less_def parent_def upper_ok_def)
    ultimately show ?thesis using heap_from_split[OF "1.prems"(1,2)] by simp
  next
    case False
    then have j: "0 < j" by auto
    from False have "up h j = up (pq_Swap h ?i j) ?i" by (subst up.simps) (auto simp: Let_def)
    moreover have "heap_hole (pq_Swap h ?i j) 0 ?i n \<and> lower_ok (pq_Swap h ?i j) ?i n"
      using up_swap_hole[OF "1.prems"(1,2) j "1.prems"(3,4)] False by (simp add: pq_Less_def parent_def)
    moreover have "?i < n" using "1.prems"(3) by simp
    ultimately show ?thesis using "1.IH"[OF refl False] "1.prems"(4) by simp
  qed
qed


lemma down_swap_hole:
  assumes h: "heap_hole h b i n" and i: "b \<le> i"
    and j: "j < n" "0 < j" "parent j = i" "n \<le> length h"
    and min: "\<And>k. k < n \<Longrightarrow> 0 < k \<Longrightarrow> parent k = i \<Longrightarrow> prio h j \<le> prio h k"
    and less: "prio h j < prio h i"
  shows "heap_hole (pq_Swap h i j) b j n \<and> upper_ok (pq_Swap h i j) b j"
proof -
  let ?s = "pq_Swap h i j"
  have ij: "i < j" using j parent_less by fastforce
  have Pj: "prio ?s j = prio h i" and Pi: "prio ?s i = prio h j"
    and P: "\<And>k. k < n \<Longrightarrow> k \<noteq> j \<Longrightarrow> k \<noteq> i \<Longrightarrow> prio ?s k = prio h k"
    using ij j by (simp_all add: prio_pq_Swap)
  have "prio ?s (parent k) \<le> prio ?s k"
    if k: "k < n" "0 < k" "b \<le> parent k" "k \<noteq> j" "parent k \<noteq> j" for k
  proof -
    have pk: "parent k < k" using k by (simp add: parent_less)
    consider "k = i" | "k \<noteq> i" "parent k = i" | "k \<noteq> i" "parent k \<noteq> i" by blast
    then show ?thesis
    proof cases
      case 1
      with k j pk heap_hole_grand[OF h j(1-3)] show ?thesis by (simp add: P Pi)
    next
      case 2
      with min[OF k(1,2)] k show ?thesis by (simp add: P Pi)
    next
      case 3
      with heap_hole_order[OF h k(1,2)] k pk show ?thesis by (simp add: P)
    qed
  qed
  moreover have "prio ?s (parent j) \<le> prio ?s k" if k: "k < n" "0 < k" "parent k = j" for k
  proof -
    have "prio h j \<le> prio h k" using heap_hole_order[OF h k(1,2)] k j ij i parent_less[OF k(2)] by auto
    with k j ij parent_less[OF k(2)] show ?thesis by (simp add: P Pi)
  qed
  ultimately show ?thesis
    using less_imp_le[OF less] j by (simp add: heap_hole_def upper_ok_def Pi Pj)
qed

text \<open>The child that \<open>down\<close> compares with: the smaller of the two.\<close>

definition least_child :: "('v, 'p::linorder) wrapper \<Rightarrow> nat \<Rightarrow> nat \<Rightarrow> nat" where
  "least_child h i n =
     (if 2 * i + 2 < n \<and> pq_Less h (2 * i + 2) (2 * i + 1) then 2 * i + 2 else 2 * i + 1)"

lemma down_from_step:
  "down_from h i n =
     (if 2 * i + 1 < n \<and> pq_Less h (least_child h i n) i
      then down_from (pq_Swap h i (least_child h i n)) (least_child h i n) n else (h, i))"
  by (subst down_from.simps) (auto simp: Let_def least_child_def)

lemma least_child_props:
  assumes "2 * i + 1 < n"
  shows "least_child h i n < n" "0 < least_child h i n" "parent (least_child h i n) = i" "i < least_child h i n"
    and "\<And>k. k < n \<Longrightarrow> 0 < k \<Longrightarrow> parent k = i \<Longrightarrow> prio h (least_child h i n) \<le> prio h k"
  using assms by (auto simp: least_child_def pq_Less_def parent_eq_iff)

lemma down_stop_lower_ok:
  "\<not> (2 * i + 1 < n \<and> pq_Less h (least_child h i n) i) \<Longrightarrow> lower_ok h i n"
  unfolding lower_ok_def using least_child_props(5)[where h=h and i=i and n=n]
  by (auto simp: pq_Less_def parent_eq_iff) fastforce+

lemma down_from_induct [consumes 1, case_names step]:
  assumes "i < n"
    and "\<And>h i. i < n \<Longrightarrow> (2 * i + 1 < n \<Longrightarrow> pq_Less h (least_child h i n) i \<Longrightarrow>
           P (pq_Swap h i (least_child h i n)) (least_child h i n)) \<Longrightarrow> P h i"
  shows "P h i"
  using assms(1)
proof (induction "n - i" arbitrary: h i rule: less_induct)
  case less
  show ?case
  proof (rule assms(2)[OF less.prems])
    assume "2 * i + 1 < n"
    note c = least_child_props[OF this, where h=h]
    show "P (pq_Swap h i (least_child h i n)) (least_child h i n)"
      using less(1)[of "least_child h i n"] less.prems c by (simp add: diff_less_mono2)
  qed
qed

lemma down_from_heap:
  "i < n \<Longrightarrow> heap_hole h b i n \<Longrightarrow> upper_ok h b i \<Longrightarrow> b \<le> i \<Longrightarrow> n \<le> length h \<Longrightarrow>
   heap_from (fst (down_from h i n)) b n"
proof (induction h i rule: down_from_induct)
  case (step h i)
  let ?j = "least_child h i n"
  show ?case
  proof (cases "2 * i + 1 < n \<and> pq_Less h ?j i")
    case True
    note c = least_child_props[where h=h and i=i and n=n]
    have "heap_hole (pq_Swap h i ?j) b ?j n \<and> upper_ok (pq_Swap h i ?j) b ?j"
      using down_swap_hole[OF step.prems(1,3)] c True step.prems by (simp add: pq_Less_def)
    then show ?thesis
      using step c True by (simp add: down_from_step[of h i])
  next
    case False
    then show ?thesis
      using heap_from_split[OF step.prems(1) down_stop_lower_ok step.prems(2)]
      by (auto simp: down_from_step[of h i])
  qed
qed

section \<open>What the loops leave unchanged\<close>

lemma up_step:
  "up h j = (if 0 < j \<and> pq_Less h j (parent j) then up (pq_Swap h (parent j) j) (parent j) else h)"
  "up_pos h j = (if 0 < j \<and> pq_Less h j (parent j) then up_pos (pq_Swap h (parent j) j) (parent j) else j)"
  by (subst up.simps up_pos.simps, auto simp: Let_def parent_def)+

lemma up_frame:
  "j < length h \<Longrightarrow> length (up h j) = length h \<and> contents (up h j) = contents h \<and>
    (indexed h \<longrightarrow> indexed (up h j))"
proof (induction j arbitrary: h rule: less_induct)
  case (less j)
  show ?case
  proof (cases "0 < j \<and> pq_Less h j (parent j)")
    case True
    then have p: "parent j < j" by (simp add: parent_less)
    with less.IH[OF p, of "pq_Swap h (parent j) j"] less.prems True show ?thesis
      by (simp add: up_step(1)[of h j] contents_pq_Swap indexed_pq_Swap)
  qed (auto simp: up_step(1)[of h j])
qed

lemma up_track:
  "j < length h \<Longrightarrow> indexed h \<Longrightarrow> up_pos h j < length h \<and>
    up h j ! up_pos h j = (h ! j)\<lparr>index := int (up_pos h j)\<rparr>"
proof (induction j arbitrary: h rule: less_induct)
  case (less j)
  show ?case
  proof (cases "0 < j \<and> pq_Less h j (parent j)")
    case True
    then have p: "parent j < j" by (simp add: parent_less)
    with less.IH[OF p, of "pq_Swap h (parent j) j"] less.prems True show ?thesis
      by (simp add: up_step[of h j] indexed_pq_Swap pq_Swap_nth)
  next
    case False
    with less.prems show ?thesis by (auto simp: up_step[of h j] indexed_def)
  qed
qed

lemma down_from_frame:
  "i < n \<Longrightarrow> n \<le> length h \<Longrightarrow> length (fst (down_from h i n)) = length h \<and>
    contents (fst (down_from h i n)) = contents h \<and> (indexed h \<longrightarrow> indexed (fst (down_from h i n))) \<and>
    i \<le> snd (down_from h i n) \<and> snd (down_from h i n) < n \<and>
    (\<forall>k. n \<le> k \<longrightarrow> k < length h \<longrightarrow> fst (down_from h i n) ! k = h ! k)"
proof (induction h i rule: down_from_induct)
  case (step h i)
  let ?j = "least_child h i n"
  show ?case
  proof (cases "2 * i + 1 < n \<and> pq_Less h ?j i")
    case True
    note c = least_child_props[where h=h and i=i and n=n]
    from True step c show ?thesis
      by (auto simp: down_from_step[of h i] contents_pq_Swap indexed_pq_Swap pq_Swap_nth)
  qed (use step.hyps in \<open>auto simp: down_from_step[of h i]\<close>)
qed

lemma down_from_stay:
  assumes "snd (down_from h i n) = i" "i < n" "n \<le> length h"
  shows "fst (down_from h i n) = h" "lower_ok h i n"
proof -
  let ?j = "least_child h i n"
  have "\<not> (2 * i + 1 < n \<and> pq_Less h ?j i)"
  proof
    assume T: "2 * i + 1 < n \<and> pq_Less h ?j i"
    note c = least_child_props[where h=h and i=i and n=n]
    have "?j \<le> snd (down_from (pq_Swap h i ?j) ?j n)"
      using down_from_frame[of ?j n "pq_Swap h i ?j"] c T assms(3) by simp
    with T assms c show False by (auto simp: down_from_step[of h i])
  qed
  then show "fst (down_from h i n) = h" "lower_ok h i n"
    by (auto simp: down_from_step[of h i] intro: down_stop_lower_ok)
qed

lemma down_from_track:
  "i < n \<Longrightarrow> n \<le> length h \<Longrightarrow> indexed h \<Longrightarrow>
    fst (down_from h i n) ! snd (down_from h i n) = (h ! i)\<lparr>index := int (snd (down_from h i n))\<rparr>"
proof (induction h i rule: down_from_induct)
  case (step h i)
  let ?j = "least_child h i n"
  show ?case
  proof (cases "2 * i + 1 < n \<and> pq_Less h ?j i")
    case True
    note c = least_child_props[where h=h and i=i and n=n]
    from True step c show ?thesis
      by (auto simp: down_from_step[of h i] indexed_pq_Swap pq_Swap_nth)
  next
    case False
    with step show ?thesis by (auto simp: down_from_step[of h i] indexed_def)
  qed
qed

section \<open>The operations keep the heap order, the items and their positions\<close>

definition pq_inv :: "('v, 'p::linorder) wrapper \<Rightarrow> bool" where
  "pq_inv h = (heap_upto h (length h) \<and> indexed h)"

lemma contents_simps [simp]:
  "contents [] = {#}" "contents (x # h) = add_mset (object x, priority x) (contents h)"
  "contents (h @ g) = contents h + contents g"
  by (simp_all add: contents_def)

lemma size_contents [simp]: "size (contents h) = length h"
  by (simp add: contents_def)

lemma contents_eq_empty [simp]: "contents h = {#} \<longleftrightarrow> h = []"
  by (simp add: contents_def)

lemma in_contents: "x \<in># contents h \<longleftrightarrow> (\<exists>k<length h. x = (object (h ! k), prio h k))"
  by (force simp: contents_def set_conv_nth)

lemma heap_Fix_correct:
  assumes "i < length h" "heap_hole h 0 i (length h)"
  shows "heap_upto (heap_Fix h i) (length h)" "length (heap_Fix h i) = length h"
    "contents (heap_Fix h i) = contents h" "indexed h \<Longrightarrow> indexed (heap_Fix h i)"
proof -
  let ?n = "length h" and ?d = "down_from h i (length h)"
  note fr = down_from_frame[OF assms(1) order_refl]
  have "heap_upto (heap_Fix h i) ?n \<and> length (heap_Fix h i) = ?n \<and> contents (heap_Fix h i) = contents h \<and>
    (indexed h \<longrightarrow> indexed (heap_Fix h i))"
  proof (cases "snd ?d = i")
    case True
    note st = down_from_stay[OF True assms(1) order_refl]
    have "heap_Fix h i = up h i"
      using True st by (simp add: heap_Fix_def down_def split_beta Let_def)
    then show ?thesis using up_heap[OF assms(2) st(2) assms(1)] up_frame[OF assms(1)] by simp
  next
    case False
    then have e: "heap_Fix h i = fst ?d"
      using fr by (auto simp: heap_Fix_def down_def split_beta Let_def)
    have "upper_ok h 0 i"
    proof (rule ccontr)
      assume n: "\<not> upper_ok h 0 i"
      then have i: "0 < i" "prio h i < prio h (parent i)" by (auto simp: upper_ok_def)
      from False have T: "2 * i + 1 < ?n" "pq_Less h (least_child h i ?n) i"
        by (auto simp: down_from_step[of h i] split: if_splits)
      note c = least_child_props[OF T(1), where h=h]
      have "prio h (parent i) \<le> prio h (least_child h i ?n)"
        by (rule heap_hole_grand[OF assms(2) c(1-3) i(1) le0])
      with i T(2) show False by (simp add: pq_Less_def)
    qed
    with e fr show ?thesis
      using down_from_heap[OF assms(1,2)] by simp
  qed
  then show "heap_upto (heap_Fix h i) (length h)" "length (heap_Fix h i) = length h"
    "contents (heap_Fix h i) = contents h" "indexed h \<Longrightarrow> indexed (heap_Fix h i)" by simp_all
qed


lemma heap_hole_update:
  assumes "heap_upto h (length h)" "i < length h" "\<And>k. k \<noteq> i \<Longrightarrow> k < length h \<Longrightarrow> prio g k = prio h k"
  shows "heap_hole g 0 i (length h)"
proof -
  have h: "heap_hole h 0 i (length h)" using assms heap_from_hole by blast
  have P: "prio g k = prio h k" "prio g (parent k) = prio h (parent k)"
    if "k < length h" "k \<noteq> i" "parent k \<noteq> i" "0 < k" for k
    using that assms(3)[of k] assms(3)[of "parent k"] parent_less[of k] by auto
  have "prio g (parent i) \<le> prio g k" if k: "k < length h" "0 < k" "parent k = i" "0 < i" for k
    using heap_hole_grand[OF h k le0] assms(2) assms(3)[of k] assms(3)[of "parent i"] k
      parent_less[of k] parent_less[of i] by auto
  then show ?thesis
    using heap_hole_order[OF h] by (auto simp: heap_hole_def P)
qed

lemma pq_Push_correct:
  assumes "pq_inv h" and "pq_Push h v p = (h', idx)"
  shows "pq_inv h'" "contents h' = add_mset (v, p) (contents h)"
    "0 \<le> idx \<and> nat idx < length h' \<and> h' ! nat idx = \<lparr>object = v, priority = p, index = idx\<rparr>"
proof -
  let ?x = "\<lparr>object = v, priority = p, index = 0\<rparr>" and ?n = "length h"
  let ?g = "wrapper_Push h ?x"
  have g: "length ?g = Suc ?n" "contents ?g = add_mset (v, p) (contents h)" "indexed ?g"
    using assms(1) by (auto simp: wrapper_Push_def pq_inv_def indexed_def nth_append)
  have nth: "?g ! k = h ! k" if "k < ?n" for k using that by (simp add: wrapper_Push_def nth_append)
  have hole: "heap_hole ?g 0 ?n (Suc ?n)"
    unfolding heap_hole_def
  proof (intro conjI allI impI)
    fix k assume k: "k < Suc ?n" "0 < k" "k \<noteq> ?n"
    then show "prio ?g (parent k) \<le> prio ?g k"
      using assms(1) parent_less[of k] by (simp add: pq_inv_def heap_from_def nth)
  next
    fix k assume k: "k < Suc ?n" "0 < k" "parent k = ?n"
    then show "prio ?g (parent ?n) \<le> prio ?g k" using parent_less[of k] by simp
  qed
  have low: "lower_ok ?g ?n (Suc ?n)"
    unfolding lower_ok_def by (metis less_Suc_eq_le leD parent_less)
  have e: "h' = up ?g ?n" "idx = index (h' ! up_pos ?g ?n)"
    using assms(2) g(1) by (auto simp: pq_Push_def heap_Push_def Let_def)
  show "pq_inv h'" "contents h' = add_mset (v, p) (contents h)"
    using up_heap[OF hole low] up_frame[of ?n ?g] g e by (simp_all add: pq_inv_def)
  have "?g ! ?n = ?x\<lparr>index := int ?n\<rparr>" by (simp add: wrapper_Push_def)
  then show "0 \<le> idx \<and> nat idx < length h' \<and> h' ! nat idx = \<lparr>object = v, priority = p, index = idx\<rparr>"
    using up_track[of ?n ?g] up_frame[of ?n ?g] g e by simp
qed

lemma heap_upto_take: "heap_upto d n \<Longrightarrow> heap_upto (take n d) n"
  unfolding heap_from_def by (metis nth_take order.strict_trans parent_less)

lemma pq_Pop_correct:
  assumes "pq_inv h" "h \<noteq> []"
  obtains h' where "pq_Pop h = Inr (object (h ! 0), h')" "pq_inv h'"
    "contents h = add_mset (object (h ! 0), prio h 0) (contents h')"
proof -
  obtain n where len: "length h = Suc n" using assms(2) by (cases h) auto
  let ?s = "pq_Swap h 0 n"
  let ?d = "fst (down_from ?s 0 n)"
  have S: "?s ! k = (if k = n then (h ! 0)\<lparr>index := int n\<rparr> else if k = 0 then (h ! n)\<lparr>index := 0\<rparr> else h ! k)"
    if "k < Suc n" for k using that len pq_Swap_nth[of 0 h n k] by simp
  have ix: "indexed ?s" using assms len by (auto simp: pq_inv_def intro: indexed_pq_Swap)
  have D: "length ?d = length h \<and> contents ?d = contents h \<and> indexed ?d \<and> heap_upto ?d n \<and> ?d ! n = ?s ! n"
  proof (cases "n = 0")
    case True
    then have "?d = ?s" using down_from_step[of ?s 0 n] by simp
    with True len ix show ?thesis by (simp add: contents_pq_Swap heap_from_def)
  next
    case False
    have "prio ?s (parent k) \<le> prio ?s k" if "k < n" "0 < k" "parent k \<noteq> 0" for k
      using that assms(1) len parent_less[of k] by (simp add: S pq_inv_def heap_from_def)
    then have "heap_hole ?s 0 0 n" by (simp add: heap_hole_def)
    then show ?thesis
      using down_from_frame[of 0 n ?s] down_from_heap[of 0 n ?s 0] False len ix
      by (simp add: contents_pq_Swap upper_ok_def)
  qed
  have p: "pq_Pop h = Inr (object (?d ! n), take n ?d)"
    using D len assms(2) by (simp add: pq_Pop_def heap_Pop_def wrapper_Pop_def down_def Let_def split_beta)
  have dn: "?d = take n ?d @ [?d ! n]"
    using D len take_Suc_conv_app_nth[of n ?d] by simp
  have "contents h = contents (take n ?d @ [?d ! n])" using D dn by simp
  then have "contents h = add_mset (object (h ! 0), prio h 0) (contents (take n ?d))"
    using D S[of n] by simp
  moreover have "pq_inv (take n ?d)"
    using D len heap_upto_take[of ?d n] by (simp add: pq_inv_def indexed_def)
  ultimately show ?thesis using that p D S[of n] by simp
qed

lemma pq_Update_correct:
  assumes "pq_inv h" "0 \<le> idx" "nat idx < length h" "pq_Update h idx v p = (h', idx')"
  shows "pq_inv h'" "length h' = length h"
    "add_mset (object (h ! nat idx), prio h (nat idx)) (contents h') = add_mset (v, p) (contents h)"
proof -
  let ?i = "nat idx"
  let ?g = "h[?i := (h ! ?i)\<lparr>object := v, priority := p\<rparr>]"
  have ix: "indexed ?g" "index (?g ! ?i) = idx"
    using assms(1-3) by (auto simp: pq_inv_def indexed_def nth_list_update)
  have "\<not> int (length h) \<le> idx" using assms(2,3) by linarith
  then have e: "h' = heap_Fix ?g ?i"
    using assms(2-4) ix(2) by (auto simp: pq_Update_def Let_def)
  have "heap_hole ?g 0 ?i (length ?g)"
    using heap_hole_update[of h ?i ?g] assms(1,3) by (simp add: pq_inv_def)
  note F = heap_Fix_correct[OF _ this]
  then show "pq_inv h'" "length h' = length h" using e ix assms(3) by (simp_all add: pq_inv_def)
  have "contents ?g = contents h - {#(object (h ! ?i), prio h ?i)#} + {#(v, p)#}"
    using assms(3) by (simp add: contents_def map_update mset_update)
  moreover have "(object (h ! ?i), prio h ?i) \<in># contents h"
    using assms(3) by (auto simp: in_contents)
  ultimately show "add_mset (object (h ! ?i), prio h ?i) (contents h') = add_mset (v, p) (contents h)"
    using F(3) e assms(3) by simp
qed

lemma heap_Init_heap: "heap_upto (heap_Init h) (length h) \<and> contents (heap_Init h) = contents h"
proof -
  have "i \<le> length h div 2 \<Longrightarrow> heap_from h i (length h) \<Longrightarrow>
    heap_upto (heap_Init_from h i) (length h) \<and> contents (heap_Init_from h i) = contents h" for i
  proof (induction i arbitrary: h)
    case (Suc i)
    let ?d = "fst (down_from h i (length h))"
    have i: "i < length h" using Suc.prems by linarith
    have "heap_hole h i i (length h)"
      using Suc.prems(2) parent_less[of i] by (auto simp: heap_hole_def heap_from_def)
    moreover have "upper_ok h i i" using parent_less[of i] by (auto simp: upper_ok_def)
    ultimately have "heap_from ?d i (length h)" using down_from_heap[OF i, of h i] by simp
    with Suc.IH[of ?d] Suc.prems(1) down_from_frame[OF i order_refl] show ?case
      by (simp add: down_def split_beta)
  qed simp
  moreover have "heap_from h (length h div 2) (length h)"
    by (auto simp: heap_from_def parent_def)
  ultimately show ?thesis by (simp add: heap_Init_def)
qed


section \<open>The interface the tables rely on\<close>

text \<open>
  The dead nonce list and the PIT use the queue through its contract only: a bag of (object,
  priority) pairs, of which \<open>PeekPriority\<close> reads the least priority and \<open>Pop\<close> takes an element
  that has it.
\<close>

locale min_queue =
  fixes qinv :: "'q \<Rightarrow> bool"
    and bag :: "'q \<Rightarrow> ('v \<times> 'p::linorder) multiset"
    and qnew :: 'q
    and qlen :: "'q \<Rightarrow> nat"
    and qpush :: "'q \<Rightarrow> 'v \<Rightarrow> 'p \<Rightarrow> 'q \<times> int"
    and qpeek :: "'q \<Rightarrow> 'p result"
    and qpop :: "'q \<Rightarrow> ('v \<times> 'q) result"
  assumes new_inv: "qinv qnew" "bag qnew = {#}"
    and len_bag: "qinv q \<Longrightarrow> qlen q = size (bag q)"
    and push_inv: "qinv q \<Longrightarrow> qinv (fst (qpush q v p))"
    and push_bag: "qinv q \<Longrightarrow> bag (fst (qpush q v p)) = add_mset (v, p) (bag q)"
    and peek_min: "qinv q \<Longrightarrow> bag q \<noteq> {#} \<Longrightarrow> \<exists>m. qpeek q = Inr m \<and> (\<forall>x\<in>#bag q. m \<le> snd x)"
    and pop_min: "qinv q \<Longrightarrow> bag q \<noteq> {#} \<Longrightarrow> qpeek q = Inr m \<Longrightarrow>
      \<exists>v q'. qpop q = Inr (v, q') \<and> qinv q' \<and> bag q = add_mset (v, m) (bag q')"
begin

text \<open>When the least priority is not due, nothing in the queue is.\<close>

lemma none_due: "qinv q \<Longrightarrow> bag q \<noteq> {#} \<Longrightarrow> qpeek q = Inr m \<Longrightarrow> \<not> m < t \<Longrightarrow> x \<in># bag q \<Longrightarrow> \<not> snd x < t"
  using peek_min[of q] by fastforce

lemma none_due_le: "qinv q \<Longrightarrow> bag q \<noteq> {#} \<Longrightarrow> qpeek q = Inr m \<Longrightarrow> \<not> m \<le> t \<Longrightarrow> x \<in># bag q \<Longrightarrow> \<not> snd x \<le> t"
  using peek_min[of q] by fastforce

text \<open>One round of an expiry loop: the queue is empty, or a least element can be taken from it.\<close>

lemma next_cases [consumes 1, case_names empty least]:
  assumes "qinv q"
  obtains (empty) "bag q = {#}" "qlen q = 0"
    | (least) m v q' where "0 < qlen q" "qpeek q = Inr m" "qpop q = Inr (v, q')" "qinv q'"
        "bag q = add_mset (v, m) (bag q')" "\<forall>x\<in>#bag q'. m \<le> snd x"
proof (cases "bag q = {#}")
  case True
  then show ?thesis using empty len_bag[OF assms] by simp
next
  case False
  obtain m where m: "qpeek q = Inr m" "\<forall>x\<in>#bag q. m \<le> snd x"
    using peek_min[OF assms False] by blast
  obtain v q' where "qpop q = Inr (v, q')" "qinv q'" "bag q = add_mset (v, m) (bag q')"
    using pop_min[OF assms False m(1)] by blast
  then show ?thesis
    using least[of m v q'] m len_bag[OF assms] by simp
qed

end

lemma pq_peek_pop:
  assumes "pq_inv h" "h \<noteq> []"
  shows "\<exists>m. pq_PeekPriority h = Inr m \<and> (\<forall>x\<in>#contents h. m \<le> snd x)"
    and "pq_PeekPriority h = Inr m \<Longrightarrow>
      \<exists>v h'. pq_Pop h = Inr (v, h') \<and> pq_inv h' \<and> contents h = add_mset (v, m) (contents h')"
proof -
  have pk: "pq_PeekPriority h = Inr (prio h 0)" using assms(2) by (cases h) (auto simp: pq_PeekPriority_def)
  then show "\<exists>m. pq_PeekPriority h = Inr m \<and> (\<forall>x\<in>#contents h. m \<le> snd x)"
    using assms heap_upto_root[of h "length h"] by (auto simp: pq_inv_def in_contents)
  show "\<exists>v h'. pq_Pop h = Inr (v, h') \<and> pq_inv h' \<and> contents h = add_mset (v, m) (contents h')"
    if "pq_PeekPriority h = Inr m"
    using pq_Pop_correct[OF assms] pk that by (metis sum.inject(2))
qed

interpretation pq: min_queue "pq_inv :: ('v, 'p::linorder) wrapper \<Rightarrow> bool" contents pq_New pq_Len
  pq_Push pq_PeekPriority pq_Pop
proof
  show "pq_inv (pq_New :: ('v, 'p) wrapper)" "contents (pq_New :: ('v, 'p) wrapper) = {#}"
    by (simp_all add: pq_inv_def pq_New_def heap_from_def indexed_def)
next
  fix q :: "('v, 'p) wrapper" and v p
  assume q: "pq_inv q"
  show "pq_Len q = size (contents q)" by (simp add: pq_Len_def)
  show "pq_inv (fst (pq_Push q v p))" "contents (fst (pq_Push q v p)) = add_mset (v, p) (contents q)"
    using pq_Push_correct[OF q, of v p] by (metis prod.collapse)+
next
  fix q :: "('v, 'p) wrapper" and m :: 'p
  assume "pq_inv q" "contents q \<noteq> {#}"
  then show "\<exists>m. pq_PeekPriority q = Inr m \<and> (\<forall>x\<in>#contents q. m \<le> snd x)"
    and "pq_PeekPriority q = Inr m \<Longrightarrow>
      \<exists>v q'. pq_Pop q = Inr (v, q') \<and> pq_inv q' \<and> contents q = add_mset (v, m) (contents q')"
    using pq_peek_pop[of q] by simp_all
qed

section \<open>Properties\<close>

definition items_1_2 :: "(nat, int) wrapper" where
  "items_1_2 = [\<lparr>object = 7, priority = 1, index = 0\<rparr>, \<lparr>object = 8, priority = 2, index = 1\<rparr>]"

lemma items_1_2_inv: "pq_inv items_1_2"
  by (auto simp: items_1_2_def pq_inv_def heap_from_def parent_def indexed_def less_Suc_eq)

text \<open>Popping a non-empty queue never panics: it returns an object whose priority is the one that
  \<open>PeekPriority\<close> reads, no other priority in the queue is smaller, and the rest of the queue keeps
  exactly the other items, in heap order and with correct positions.\<close>

theorem pq_Pop_least:
  assumes "pq_inv h" "h \<noteq> []"
  shows "\<exists>p v h'. pq_PeekPriority h = Inr p \<and> pq_Peek h = Inr v \<and> pq_Pop h = Inr (v, h') \<and> pq_inv h' \<and>
    contents h = add_mset (v, p) (contents h') \<and> (\<forall>x\<in>#contents h. p \<le> snd x)"
proof -
  obtain h' where "pq_Pop h = Inr (object (h ! 0), h')" "pq_inv h'"
    "contents h = add_mset (object (h ! 0), prio h 0) (contents h')"
    using pq_Pop_correct[OF assms] .
  moreover have "pq_PeekPriority h = Inr (prio h 0)" "pq_Peek h = Inr (object (h ! 0))"
    using assms(2) by (cases h; simp add: pq_PeekPriority_def pq_Peek_def)+
  ultimately show ?thesis using pq_peek_pop(1)[OF assms] by auto
qed

theorem pq_Pop_least_witness:
  "pq_inv items_1_2 \<and> (\<exists>p v h'. pq_PeekPriority items_1_2 = Inr p \<and> pq_Peek items_1_2 = Inr v \<and>
    pq_Pop items_1_2 = Inr (v, h') \<and> pq_inv h' \<and> contents items_1_2 = add_mset (v, p) (contents h') \<and>
    (\<forall>x\<in>#contents items_1_2. p \<le> snd x))"
  using pq_Pop_least[OF items_1_2_inv] items_1_2_inv by (simp add: items_1_2_def)

text \<open>\<open>Push\<close> adds exactly the pushed pair, keeps the queue well formed, and returns the position at
  which the pushed item then stands.\<close>

theorem pq_Push_adds:
  assumes "pq_inv h" "pq_Push h v p = (h', idx)"
  shows "pq_inv h' \<and> contents h' = add_mset (v, p) (contents h) \<and> 0 \<le> idx \<and> nat idx < length h' \<and>
    h' ! nat idx = \<lparr>object = v, priority = p, index = idx\<rparr>"
  using pq_Push_correct[OF assms] by simp

theorem pq_Push_adds_witness:
  "\<exists>h' idx. pq_Push items_1_2 9 0 = (h', idx) \<and> pq_inv h' \<and>
    contents h' = add_mset (9, 0) (contents items_1_2) \<and> 0 \<le> idx \<and> nat idx < length h' \<and>
    h' ! nat idx = \<lparr>object = 9, priority = 0, index = idx\<rparr>"
  using pq_Push_adds[OF items_1_2_inv, of 9 0] by (metis prod.exhaust)

text \<open>\<open>Update\<close> at a valid position replaces exactly the item standing there by the given object and
  priority and re-establishes the heap order; at an invalid position it changes nothing and returns -1.\<close>

theorem pq_Update_replaces:
  assumes "pq_inv h" "pq_Update h idx v p = (h', idx')"
  shows "if 0 \<le> idx \<and> idx < int (length h)
    then pq_inv h' \<and> length h' = length h \<and>
      add_mset (object (h ! nat idx), prio h (nat idx)) (contents h') = add_mset (v, p) (contents h)
    else h' = h \<and> idx' = - 1"
proof (cases "0 \<le> idx \<and> idx < int (length h)")
  case True
  then have "0 \<le> idx" "nat idx < length h" by linarith+
  from pq_Update_correct[OF assms(1) this assms(2)] True show ?thesis by simp
next
  case False
  then show ?thesis using assms(2) by (auto simp: pq_Update_def split: if_splits)
qed

theorem pq_Update_replaces_witness:
  "\<exists>h' idx'. pq_Update items_1_2 1 8 0 = (h', idx') \<and> pq_inv h' \<and>
    add_mset (8, 2) (contents h') = add_mset (8, 0) (contents items_1_2)"
proof -
  obtain h' idx' where e: "pq_Update items_1_2 1 8 0 = (h', idx')" by fastforce
  from pq_Update_replaces[OF items_1_2_inv e] e show ?thesis by (simp add: items_1_2_def)
qed

end
