(* ===== verification/Dead_Nonce.thy ===== *)
theory Dead_Nonce
  imports Go_Ndn Heap_Queue
begin

text \<open>
  The dead nonce list of \<^verbatim>\<open>src/table/dead-nonce-list.go\<close>: the set of (name, nonce) hashes that a
  forwarding thread remembers after an Interest is gone, with the queue of their expiration times.
  Times are nanoseconds (\<^verbatim>\<open>UnixNano\<close>). The ticker that triggers the removal is a channel of the
  thread's event loop and is not part of the state.
\<close>

record DeadNonceList =
  dnl_list :: "u64 \<rightharpoonup> bool"
  expirationQueue :: "(u64, int) wrapper"

definition NewDeadNonceList :: DeadNonceList where
  "NewDeadNonceList = \<lparr>dnl_list = Map.empty, expirationQueue = pq_New\<rparr>"

definition dnl_hash :: "enc_api \<Rightarrow> name \<Rightarrow> u32 \<Rightarrow> u64" where
  "dnl_hash E name nonce = name_Hash E name + ucast nonce"

definition dnl_Find :: "enc_api \<Rightarrow> DeadNonceList \<Rightarrow> name \<Rightarrow> u32 \<Rightarrow> bool" where
  "dnl_Find E d name nonce = (dnl_list d (dnl_hash E name nonce) \<noteq> None)"

definition dnl_Insert :: "enc_api \<Rightarrow> int \<Rightarrow> int \<Rightarrow> DeadNonceList \<Rightarrow> name \<Rightarrow> u32 \<Rightarrow> DeadNonceList \<times> bool" where
  "dnl_Insert E lifetime now d name nonce =
     (let hash = dnl_hash E name nonce;
          exists = (dnl_list d hash \<noteq> None)
      in if \<not> exists
         then (d\<lparr>dnl_list := (dnl_list d)(hash \<mapsto> True),
                 expirationQueue := fst (pq_Push (expirationQueue d) hash (now + lifetime))\<rparr>, exists)
         else (d, exists))"

text \<open>
  The removal loop reads the clock before each round; \<open>clock i\<close> is its \<open>i\<close>-th reading. It
  stops after 100 evictions, so it makes at most 100 rounds: \<open>evicted\<close> counts up to that bound.
\<close>

function dnl_remove_loop :: "(nat \<Rightarrow> int) \<Rightarrow> nat \<Rightarrow> DeadNonceList \<Rightarrow> DeadNonceList result" where
  "dnl_remove_loop clock evicted d =
     (if pq_Len (expirationQueue d) = 0 then Inr d
      else case pq_PeekPriority (expirationQueue d) of
        Inl e \<Rightarrow> Inl e
      | Inr p \<Rightarrow>
          if \<not> p < clock evicted then Inr d
          else (case pq_Pop (expirationQueue d) of
              Inl e \<Rightarrow> Inl e
            | Inr (hash, q) \<Rightarrow>
                let d' = d\<lparr>expirationQueue := q, dnl_list := (dnl_list d)(hash := None)\<rparr>
                in if evicted + 1 \<ge> 100 then Inr d' else dnl_remove_loop clock (evicted + 1) d'))"
  by pat_completeness auto
termination
  by (relation "measure (\<lambda>(clock, evicted, d). 100 - evicted)") auto

declare dnl_remove_loop.simps [simp del]

definition RemoveExpiredEntries :: "(nat \<Rightarrow> int) \<Rightarrow> DeadNonceList \<Rightarrow> DeadNonceList result" where
  "RemoveExpiredEntries clock d = dnl_remove_loop clock 0 d"

section \<open>Invariant\<close>

text \<open>The queue holds exactly one expiration time for every remembered hash.\<close>

definition dnl_inv :: "DeadNonceList \<Rightarrow> bool" where
  "dnl_inv d =
     (pq_inv (expirationQueue d) \<and>
      image_mset fst (contents (expirationQueue d)) = mset_set (dom (dnl_list d)))"

definition expires_at :: "DeadNonceList \<Rightarrow> u64 \<Rightarrow> int \<Rightarrow> bool" where
  "expires_at d hash t = ((hash, t) \<in># contents (expirationQueue d))"

lemma dnl_inv_dom: "dnl_inv d \<Longrightarrow> fst ` set_mset (contents (expirationQueue d)) = dom (dnl_list d)"
  by (metis dnl_inv_def finite finite_set_mset_mset_set set_image_mset)

lemma expires_at_dom: "dnl_inv d \<Longrightarrow> dnl_list d hash \<noteq> None \<longleftrightarrow> (\<exists>t. expires_at d hash t)"
  using dnl_inv_dom[of d] by (force simp: expires_at_def domIff)

lemma new_dnl_inv: "dnl_inv NewDeadNonceList"
  using pq.new_inv by (simp add: dnl_inv_def NewDeadNonceList_def)

lemma dnl_Insert_inv:
  assumes "dnl_inv d"
  shows "dnl_inv (fst (dnl_Insert E lifetime now d name nonce))"
proof (cases "dnl_list d (dnl_hash E name nonce)")
  case None
  then have "mset_set (insert (dnl_hash E name nonce) (dom (dnl_list d))) =
      add_mset (dnl_hash E name nonce) (mset_set (dom (dnl_list d)))"
    by (intro mset_set.insert) auto
  with None assms show ?thesis
    by (simp add: dnl_inv_def dnl_Insert_def Let_def pq.push_inv pq.push_bag)
qed (use assms in \<open>simp add: dnl_Insert_def\<close>)

text \<open>Each hash has one expiration time, so a removal forgets exactly the popped hash.\<close>

lemma dnl_inv_pop:
  assumes "dnl_inv d" "contents (expirationQueue d) = add_mset (hash, t) (contents q)" "pq_inv q"
  shows "dnl_inv (d\<lparr>expirationQueue := q, dnl_list := (dnl_list d)(hash := None)\<rparr>)"
proof -
  have eq: "add_mset hash (image_mset fst (contents q)) = mset_set (dom (dnl_list d))"
    using assms by (simp add: dnl_inv_def)
  have "fst ` set_mset (add_mset (hash, t) (contents q)) = dom (dnl_list d)"
    using dnl_inv_dom[OF assms(1)] unfolding assms(2) .
  then have "hash \<in> dom (dnl_list d)" by (metis fst_conv image_eqI union_single_eq_member)
  then have "mset_set (dom (dnl_list d)) = add_mset hash (mset_set (dom (dnl_list d) - {hash}))"
    by (intro mset_set.remove) auto
  with eq assms(3) show ?thesis by (simp add: dnl_inv_def)
qed

lemma expires_at_unique: "dnl_inv d \<Longrightarrow> expires_at d hash t \<Longrightarrow> expires_at d hash t' \<Longrightarrow> t = t'"
proof (rule ccontr)
  assume d: "dnl_inv d" and t: "expires_at d hash t" "expires_at d hash t'" "t \<noteq> t'"
  then obtain M where "contents (expirationQueue d) = add_mset (hash, t) (add_mset (hash, t') M)"
    unfolding expires_at_def by (metis insert_DiffM insert_noteq_member prod.inject)
  then have "mset_set (dom (dnl_list d)) = add_mset hash (add_mset hash (image_mset fst M))"
    using d by (simp add: dnl_inv_def)
  then have "count (mset_set (dom (dnl_list d))) hash \<ge> 2" by simp
  then show False by (simp add: count_mset_set' split: if_splits)
qed

section \<open>The removal loop\<close>

text \<open>
  What a run of the loop from \<open>evicted\<close> on removes: only elements that were due at some reading
  of the clock, at most as many as the bound leaves, and all that were due at the first reading
  unless the bound was reached.
\<close>

definition drained :: "(nat \<Rightarrow> int) \<Rightarrow> nat \<Rightarrow> DeadNonceList \<Rightarrow> DeadNonceList \<Rightarrow> bool" where
  "drained clock k d d' =
     (\<exists>R. contents (expirationQueue d) = R + contents (expirationQueue d') \<and>
          dnl_list d' = dnl_list d |` (- fst ` set_mset R) \<and>
          (\<forall>x\<in>#R. \<exists>i. snd x < clock i) \<and> size R \<le> 100 - k \<and>
          (size R = 100 - k \<or> (\<forall>x\<in>#contents (expirationQueue d'). \<not> snd x < clock k)))"

lemma drained_refl:
  "(\<forall>x\<in>#contents (expirationQueue d). \<not> snd x < clock k) \<Longrightarrow> drained clock k d d"
  unfolding drained_def by (rule exI[of _ "{#}"]) auto

lemma drained_step:
  assumes "drained clock (Suc k) (d\<lparr>expirationQueue := q, dnl_list := (dnl_list d)(h := None)\<rparr>) d'"
    and "contents (expirationQueue d) = add_mset (h, p) (contents q)" "p < clock k" "k < 100" "mono clock"
  shows "drained clock k d d'"
proof -
  obtain R where R: "contents q = R + contents (expirationQueue d')"
    "dnl_list d' = (dnl_list d)(h := None) |` (- fst ` set_mset R)"
    "\<forall>x\<in>#R. \<exists>i. snd x < clock i" "size R \<le> 100 - Suc k"
    "size R = 100 - Suc k \<or> (\<forall>x\<in>#contents (expirationQueue d'). \<not> snd x < clock (Suc k))"
    using assms(1) by (auto simp: drained_def)
  have "clock k \<le> clock (Suc k)" using assms(5) by (simp add: monoD)
  then have "size (add_mset (h, p) R) = 100 - k \<or> (\<forall>x\<in>#contents (expirationQueue d'). \<not> snd x < clock k)"
    using R(5) assms(4) by fastforce
  moreover have "dnl_list d' = dnl_list d |` (- fst ` set_mset (add_mset (h, p) R))"
    using R(2) by (auto simp: restrict_map_def fun_eq_iff)
  ultimately show ?thesis
    unfolding drained_def using R(1,3,4) assms(2-4) by (intro exI[of _ "add_mset (h, p) R"]) auto
qed

lemma dnl_remove_loop_drained:
  "dnl_inv d \<Longrightarrow> mono clock \<Longrightarrow> k < 100 \<Longrightarrow>
   \<exists>d'. dnl_remove_loop clock k d = Inr d' \<and> dnl_inv d' \<and> drained clock k d d'"
proof (induction clock k d rule: dnl_remove_loop.induct)
  case (1 clock k d)
  have q: "pq_inv (expirationQueue d)" using "1.prems"(1) by (simp add: dnl_inv_def)
  from q show ?case
  proof (cases rule: pq.next_cases)
    case empty
    then show ?thesis
      using "1.prems" drained_refl[of d clock k] by (simp add: dnl_remove_loop.simps)
  next
    case (least p h q')
    let ?d = "d\<lparr>expirationQueue := q', dnl_list := (dnl_list d)(h := None)\<rparr>"
    have inv: "dnl_inv ?d" using dnl_inv_pop[OF "1.prems"(1) least(5,4)] .
    consider "\<not> p < clock k" | "p < clock k" "k + 1 \<ge> 100" | "p < clock k" "k + 1 < 100" by linarith
    then show ?thesis
    proof cases
      case 1
      then have "dnl_remove_loop clock k d = Inr d"
        using least by (simp add: dnl_remove_loop.simps)
      moreover have "\<forall>x\<in>#contents (expirationQueue d). \<not> snd x < clock k"
        using 1 least(5,6) by auto
      ultimately show ?thesis using "1.prems"(1) drained_refl by blast
    next
      case 2
      then have "dnl_remove_loop clock k d = Inr ?d"
        using least by (simp add: dnl_remove_loop.simps)
      moreover have "drained clock (Suc k) ?d ?d"
        using 2(2) unfolding drained_def by (intro exI[of _ "{#}"]) auto
      ultimately show ?thesis
        using drained_step[OF _ least(5) 2(1) "1.prems"(3,2)] inv by blast
    next
      case 3
      then have e: "dnl_remove_loop clock k d = dnl_remove_loop clock (k + 1) ?d"
        using least by (simp add: dnl_remove_loop.simps[of clock k])
      have "\<exists>d'. dnl_remove_loop clock (k + 1) ?d = Inr d' \<and> dnl_inv d' \<and> drained clock (k + 1) ?d d'"
        using "1.IH"[OF _ least(2) _ least(3) refl refl] 3 least(1) inv "1.prems"(2) by simp
      then show ?thesis
        using drained_step[OF _ least(5) 3(1) "1.prems"(3,2)] e by auto
    qed
  qed
qed

section \<open>Properties\<close>

text \<open>Inserting a nonce for a name makes \<open>Find\<close> report it and leaves every other hash as it was;
  the result tells whether it was already there. A new hash expires \<open>lifetime\<close> after the insertion,
  a known one keeps its expiration time, and the queue and the set stay in step.\<close>

theorem dnl_Insert_spec:
  assumes "dnl_inv d" "dnl_Insert E lifetime now d name nonce = (d', known)"
  shows "dnl_inv d' \<and> dnl_Find E d' name nonce \<and> known = dnl_Find E d name nonce \<and>
    (\<forall>n k. dnl_hash E n k \<noteq> dnl_hash E name nonce \<longrightarrow> dnl_Find E d' n k = dnl_Find E d n k) \<and>
    (\<forall>h t. expires_at d' h t \<longleftrightarrow> expires_at d h t \<or> \<not> known \<and> h = dnl_hash E name nonce \<and> t = now + lifetime)"
proof -
  have inv: "dnl_inv d'" using dnl_Insert_inv[OF assms(1), of E lifetime now name nonce] assms(2) by simp
  have q: "pq_inv (expirationQueue d)" using assms(1) by (simp add: dnl_inv_def)
  show ?thesis
    using assms(2) inv by (auto simp: dnl_Insert_def Let_def dnl_Find_def expires_at_def pq.push_bag[OF q] split: if_splits)
qed

theorem dnl_Insert_spec_witness:
  "\<exists>d' known. dnl_Insert toy_enc 6000 10 NewDeadNonceList [] 5 = (d', known) \<and> dnl_inv d' \<and>
    dnl_Find toy_enc d' [] 5 \<and> expires_at d' (dnl_hash toy_enc [] 5) 6010"
proof -
  obtain d' known where e: "dnl_Insert toy_enc 6000 10 NewDeadNonceList [] 5 = (d', known)" by fastforce
  have "known = False" using e by (simp add: dnl_Insert_def NewDeadNonceList_def Let_def)
  with dnl_Insert_spec[OF new_dnl_inv e] e show ?thesis by auto
qed

text \<open>The removal of expired entries never panics and terminates: it forgets only hashes whose time
  has passed, at most 100 of them, and unless it stopped at that bound no hash that was due when it
  started is left; every hash that is not forgotten keeps its entry.\<close>

theorem RemoveExpiredEntries_spec:
  assumes "dnl_inv d" "mono clock"
  shows "\<exists>d' R. RemoveExpiredEntries clock d = Inr d' \<and> dnl_inv d' \<and>
    contents (expirationQueue d) = R + contents (expirationQueue d') \<and>
    dnl_list d' = dnl_list d |` (- fst ` set_mset R) \<and>
    (\<forall>x\<in>#R. \<exists>i. snd x < clock i) \<and> size R \<le> 100 \<and>
    (size R = 100 \<or> (\<forall>h t. expires_at d' h t \<longrightarrow> clock 0 \<le> t))"
proof -
  obtain d' where d': "RemoveExpiredEntries clock d = Inr d'" "dnl_inv d'" "drained clock 0 d d'"
    using dnl_remove_loop_drained[OF assms, of 0] by (auto simp: RemoveExpiredEntries_def)
  then show ?thesis by (fastforce simp: drained_def expires_at_def not_less)
qed

theorem RemoveExpiredEntries_spec_witness:
  "\<exists>d' R. RemoveExpiredEntries (\<lambda>i. 7000 + int i) (fst (dnl_Insert toy_enc 6000 10 NewDeadNonceList [] 5)) = Inr d' \<and>
    dnl_inv d' \<and> dnl_list d' = dnl_list (fst (dnl_Insert toy_enc 6000 10 NewDeadNonceList [] 5)) |` (- fst ` set_mset R) \<and>
    (\<forall>x\<in>#R. \<exists>i. snd x < 7000 + int i) \<and> (size R = 100 \<or> (\<forall>h t. expires_at d' h t \<longrightarrow> 7000 + int 0 \<le> t))"
proof -
  have "mono (\<lambda>i. 7000 + int i)" by (simp add: mono_def)
  from RemoveExpiredEntries_spec[OF dnl_Insert_inv[OF new_dnl_inv] this, of toy_enc 6000 10 "[]" 5]
  show ?thesis by blast
qed

end
