(* ===== verification/Name_Tree.thy ===== *)
theory Name_Tree
  imports Prelude
begin

text \<open>
  The name trees of the forwarder. The PIT-CS, the FIB and the RIB each keep a tree of nodes with a
  parent pointer, the depth of the node and its children. Here a node is its value and the list of its
  children with their keys (the hash of the component in the PIT-CS tree, the component itself in the
  FIB and the RIB), and a pointer to a node is the path of keys that leads to it from the root: the
  parent of a node is the path without its last key, and the depth is the length of the path. A child
  is looked up with the key comparison \<open>eq\<close> of the code. The view \<open>flat\<close> of a tree as a map from
  paths to values is what the lemmas on the operations are stated with.
\<close>

named_theorems flat_simps \<open>the effect of tree operations on the flat view\<close>

datatype ('k, 'v) ntree = Node (nval: 'v) (nkids: "('k \<times> ('k, 'v) ntree) list")

section \<open>Operations\<close>

text \<open>The node a pointer refers to, and an assignment through a pointer.\<close>

primrec nt_get :: "('k, 'v) ntree \<Rightarrow> 'k list \<Rightarrow> ('k, 'v) ntree option" where
  "nt_get t [] = Some t"
| "nt_get t (k # ks) = (case map_of (nkids t) k of None \<Rightarrow> None | Some c \<Rightarrow> nt_get c ks)"

primrec nt_upd :: "'k list \<Rightarrow> (('k, 'v) ntree \<Rightarrow> ('k, 'v) ntree) \<Rightarrow> ('k, 'v) ntree \<Rightarrow> ('k, 'v) ntree" where
  "nt_upd [] f t = f t"
| "nt_upd (k # ks) f t =
     Node (nval t) (map (\<lambda>(k', c). (k', if k' = k then nt_upd ks f c else c)) (nkids t))"

definition nt_set :: "'k list \<Rightarrow> ('v \<Rightarrow> 'v) \<Rightarrow> ('k, 'v) ntree \<Rightarrow> ('k, 'v) ntree" where
  "nt_set p g = nt_upd p (\<lambda>n. Node (g (nval n)) (nkids n))"

definition nt_add :: "'k list \<Rightarrow> 'k \<Rightarrow> 'v \<Rightarrow> ('k, 'v) ntree \<Rightarrow> ('k, 'v) ntree" where
  "nt_add p k v = nt_upd p (\<lambda>n. Node (nval n) (nkids n @ [(k, Node v [])]))"

definition nt_del :: "'k list \<Rightarrow> 'k \<Rightarrow> ('k, 'v) ntree \<Rightarrow> ('k, 'v) ntree" where
  "nt_del p k = nt_upd p (\<lambda>n. Node (nval n) (filter (\<lambda>c. fst c \<noteq> k) (nkids n)))"

text \<open>
  \<open>findExactMatchEntryEnc\<close> and \<open>findLongestPrefixEntryEnc\<close>: descend while a child matches the
  next key. The first child in the list that matches is taken, as the range loops do.
\<close>

primrec nt_exact :: "('k \<Rightarrow> 'k \<Rightarrow> bool) \<Rightarrow> ('k, 'v) ntree \<Rightarrow> 'k list \<Rightarrow> 'k list option" where
  "nt_exact eq t [] = Some []"
| "nt_exact eq t (q # qs) =
     (case List.find (\<lambda>(k, c). eq q k) (nkids t) of
        None \<Rightarrow> None
      | Some (k, c) \<Rightarrow> map_option ((#) k) (nt_exact eq c qs))"

primrec nt_longest_at :: "('k \<Rightarrow> 'k \<Rightarrow> bool) \<Rightarrow> 'k list \<Rightarrow> ('k, 'v) ntree \<Rightarrow> 'k list" where
  "nt_longest_at eq [] t = []"
| "nt_longest_at eq (q # qs) t =
     (case List.find (\<lambda>(k, c). eq q k) (nkids t) of
        None \<Rightarrow> []
      | Some (k, c) \<Rightarrow> k # nt_longest_at eq qs c)"

abbreviation nt_longest :: "('k \<Rightarrow> 'k \<Rightarrow> bool) \<Rightarrow> ('k, 'v) ntree \<Rightarrow> 'k list \<Rightarrow> 'k list" where
  "nt_longest eq t q \<equiv> nt_longest_at eq q t"

text \<open>
  \<open>fillTreeToPrefixEnc\<close>: from the longest match, add one node per missing key, each a child of
  the one before. \<open>mk\<close> makes the value of a new node from its key.
\<close>

primrec nt_chain :: "('k \<Rightarrow> 'v) \<Rightarrow> 'k list \<Rightarrow> 'k list \<Rightarrow> ('k, 'v) ntree \<Rightarrow> ('k, 'v) ntree \<times> 'k list" where
  "nt_chain mk cur [] t = (t, cur)"
| "nt_chain mk cur (k # ks) t = nt_chain mk (cur @ [k]) ks (nt_add cur k (mk k) t)"

definition nt_fill :: "('k \<Rightarrow> 'k \<Rightarrow> bool) \<Rightarrow> ('k \<Rightarrow> 'v) \<Rightarrow> ('k, 'v) ntree \<Rightarrow> 'k list \<Rightarrow> ('k, 'v) ntree \<times> 'k list" where
  "nt_fill eq mk t q = (let cur = nt_longest eq t q in nt_chain mk cur (drop (length cur) q) t)"

text \<open>The nodes of a tree, parents before children.\<close>

fun nt_nodes :: "('k, 'v) ntree \<Rightarrow> ('k list \<times> 'v) list" where
  "nt_nodes (Node v cs) = ([], v) # concat (map (\<lambda>(k, c). map (\<lambda>(p, w). (k # p, w)) (nt_nodes c)) cs)"

fun nt_wf :: "('k, 'v) ntree \<Rightarrow> bool" where
  "nt_wf (Node v cs) = (distinct (map fst cs) \<and> (\<forall>(k, c) \<in> set cs. nt_wf c))"

definition flat :: "('k, 'v) ntree \<Rightarrow> 'k list \<rightharpoonup> 'v" where
  "flat t p = map_option nval (nt_get t p)"

section \<open>The flat view\<close>

lemma flat_Nil [simp]: "flat t [] = Some (nval t)"
  by (simp add: flat_def)

lemma flat_Cons: "flat t (k # p) = (case map_of (nkids t) k of None \<Rightarrow> None | Some c \<Rightarrow> flat c p)"
  by (simp add: flat_def split: option.splits)

lemma nt_get_append: "nt_get t (p @ q) = (case nt_get t p of None \<Rightarrow> None | Some c \<Rightarrow> nt_get c q)"
  by (induction p arbitrary: t) (auto split: option.splits)

lemma flat_append: "flat t (p @ q) = (case nt_get t p of None \<Rightarrow> None | Some c \<Rightarrow> flat c q)"
  by (simp add: flat_def nt_get_append split: option.splits)

lemma flat_eq_None: "flat t p = None \<longleftrightarrow> nt_get t p = None"
  by (simp add: flat_def)

lemma flat_prefix: "flat t p \<noteq> None \<Longrightarrow> prefix q p \<Longrightarrow> flat t q \<noteq> None"
  unfolding prefix_def flat_eq_None by (auto simp: nt_get_append split: option.splits)

lemma nt_wfD: "nt_wf t \<Longrightarrow> distinct (map fst (nkids t))" "nt_wf t \<Longrightarrow> (k, c) \<in> set (nkids t) \<Longrightarrow> nt_wf c"
  by (cases t; auto)+

lemma nt_wf_kid: "nt_wf t \<Longrightarrow> map_of (nkids t) k = Some c \<Longrightarrow> nt_wf c"
  by (rule nt_wfD(2)) (auto dest: map_of_SomeD)

lemma nt_get_wf: "nt_wf t \<Longrightarrow> nt_get t p = Some n \<Longrightarrow> nt_wf n"
  by (induction p arbitrary: t) (auto split: option.splits dest: nt_wf_kid)

lemma map_of_map_kid:
  "map_of (map (\<lambda>(k', c). (k', if k' = k then f c else c)) cs) =
     (map_of cs)(k := map_option f (map_of cs k))"
  by (induction cs) (auto simp: fun_eq_iff)

lemma flat_upd:
  "flat (nt_upd p f t) q =
    (if prefix p q then (case nt_get t p of None \<Rightarrow> None | Some n \<Rightarrow> flat (f n) (drop (length p) q)) else flat t q)"
proof (induction p arbitrary: t q)
  case (Cons k p)
  show ?case
  proof (cases q)
    case (Cons l q')
    with Cons.IH show ?thesis
      by (auto simp: flat_Cons map_of_map_kid split: option.splits)
  qed simp
qed simp

lemma flat_upd_at: "flat (nt_upd p f t) (p @ r) = (case nt_get t p of None \<Rightarrow> None | Some n \<Rightarrow> flat (f n) r)"
  by (simp add: flat_upd split: option.split)

lemma flat_leaf [simp]: "flat (Node v []) s = (if s = [] then Some v else None)"
  by (cases s) (auto simp: flat_Cons)

lemma nt_upd_wf:
  "nt_wf t \<Longrightarrow> (\<And>n. nt_get t p = Some n \<Longrightarrow> nt_wf n \<Longrightarrow> nt_wf (f n)) \<Longrightarrow> nt_wf (nt_upd p f t)"
proof (induction p arbitrary: t)
  case (Cons k p)
  have "nt_wf (nt_upd p f c)" if c: "(k, c) \<in> set (nkids t)" for c
  proof (rule Cons.IH)
    have m: "map_of (nkids t) k = Some c" using c nt_wfD(1)[OF Cons.prems(1)] by simp
    show "nt_wf c" by (rule nt_wfD(2)[OF Cons.prems(1) c])
    fix n assume "nt_get c p = Some n" "nt_wf n"
    then show "nt_wf (f n)" using Cons.prems(2)[of n] m by simp
  qed
  moreover have "map fst (map (\<lambda>(k', c). (k', if k' = k then nt_upd p f c else c)) (nkids t)) = map fst (nkids t)"
    by auto
  ultimately show ?case
    using nt_wfD[OF Cons.prems(1)] by (auto simp: o_def case_prod_unfold)
qed simp

text \<open>The effect of an assignment, of adding a child and of deleting one.\<close>

lemma flat_nt_set [flat_simps]: "flat (nt_set p g t) = (flat t)(p := map_option g (flat t p))"
proof (rule ext)
  fix q
  show "flat (nt_set p g t) q = ((flat t)(p := map_option g (flat t p))) q"
  proof (cases "prefix p q")
    case True
    then obtain r where r: "q = p @ r" by (auto simp: prefix_def)
    then show ?thesis
      unfolding nt_set_def r flat_upd_at using flat_append[of t p r]
      by (cases r) (auto simp: flat_Cons split: option.splits)
  qed (auto simp: nt_set_def flat_upd)
qed

lemma flat_nt_add [flat_simps]:
  assumes "flat t p \<noteq> None" "flat t (p @ [k]) = None"
  shows "flat (nt_add p k v t) = (flat t)(p @ [k] \<mapsto> v)"
proof (rule ext)
  fix q
  obtain n where n: "nt_get t p = Some n" "map_of (nkids n) k = None"
    using assms flat_append[of t p "[k]"] by (auto simp: flat_eq_None[of t p] flat_Cons split: option.splits)
  show "flat (nt_add p k v t) q = ((flat t)(p @ [k] \<mapsto> v)) q"
  proof (cases "prefix p q")
    case True
    then obtain r where r: "q = p @ r" by (auto simp: prefix_def)
    with n show ?thesis
      unfolding nt_add_def r flat_upd_at using flat_append[of t p r]
      by (cases r) (auto simp: flat_Cons map_add_def split: option.splits)
  qed (auto simp: nt_add_def flat_upd)
qed

lemma map_of_filter_key: "map_of (filter (\<lambda>c. fst c \<noteq> k) cs) = (map_of cs)(k := None)"
  by (induction cs) (auto simp: fun_eq_iff)

lemma flat_nt_del [flat_simps]: "flat (nt_del p k t) = (\<lambda>q. if prefix (p @ [k]) q then None else flat t q)"
proof (rule ext)
  fix q
  show "flat (nt_del p k t) q = (if prefix (p @ [k]) q then None else flat t q)"
  proof (cases "prefix p q")
    case True
    then obtain r where r: "q = p @ r" by (auto simp: prefix_def)
    then show ?thesis
      unfolding nt_del_def r flat_upd_at using flat_append[of t p r]
      by (cases r) (auto simp: flat_Cons map_of_filter_key split: option.splits)
  next
    case False
    moreover from False have "\<not> prefix (p @ [k]) q" by (auto simp: prefix_def)
    ultimately show ?thesis by (simp add: nt_del_def flat_upd)
  qed
qed

lemma nt_set_wf [simp]: "nt_wf t \<Longrightarrow> nt_wf (nt_set p g t)"
  unfolding nt_set_def by (rule nt_upd_wf) (auto dest: nt_wfD)

lemma nt_del_wf [simp]: "nt_wf t \<Longrightarrow> nt_wf (nt_del p k t)"
  unfolding nt_del_def by (rule nt_upd_wf) (auto dest: nt_wfD simp: distinct_map_filter)

lemma nt_add_wf:
  assumes "nt_wf t" "flat t (p @ [k]) = None"
  shows "nt_wf (nt_add p k v t)"
  unfolding nt_add_def
proof (rule nt_upd_wf[OF assms(1)])
  fix n assume n: "nt_get t p = Some n" "nt_wf n"
  with assms(2) have "map_of (nkids n) k = None" by (auto simp: flat_append flat_Cons split: option.splits)
  then have "k \<notin> fst ` set (nkids n)" by (simp add: map_of_eq_None_iff)
  with n(2) show "nt_wf (Node (nval n) (nkids n @ [(k, Node v [])]))" by (auto dest: nt_wfD)
qed


section \<open>Searching and filling\<close>

text \<open>With equality as the key comparison, the range loops look a child up by its key.\<close>

lemma find_kid: "List.find (\<lambda>(k, c). q = k) cs = map_option (Pair q) (map_of cs q)"
  by (induction cs) (auto simp: case_prod_unfold)

lemma nt_exact_eq [flat_simps]: "nt_exact (=) t q = (if flat t q = None then None else Some q)"
  by (induction q arbitrary: t) (auto simp: find_kid flat_Cons split: option.splits)

lemma nt_longest_take: "nt_longest (=) t q = take (length (nt_longest (=) t q)) q"
proof (induction q arbitrary: t)
  case (Cons k q)
  then show ?case by (auto simp: find_kid split: option.splits)
qed simp

lemma nt_longest_prefix: "prefix (nt_longest (=) t q) q"
  by (metis nt_longest_take take_is_prefix)

lemma nt_longest_flat: "flat t (nt_longest (=) t q) \<noteq> None"
  by (induction q arbitrary: t) (auto simp: find_kid flat_Cons split: option.splits)

lemma nt_longest_max: "prefix p q \<Longrightarrow> flat t p \<noteq> None \<Longrightarrow> prefix p (nt_longest (=) t q)"
proof (induction q arbitrary: t p)
  case (Cons k q)
  then show ?case by (cases p) (auto simp: find_kid flat_Cons split: option.splits)
qed simp

lemma nt_chain_flat:
  assumes "nt_wf t" "flat t cur \<noteq> None" "\<And>k ks'. ks = k # ks' \<Longrightarrow> flat t (cur @ [k]) = None"
  shows "nt_wf (fst (nt_chain mk cur ks t)) \<and> snd (nt_chain mk cur ks t) = cur @ ks \<and>
    flat (fst (nt_chain mk cur ks t)) =
      (\<lambda>p. if prefix cur p \<and> p \<noteq> cur \<and> prefix p (cur @ ks) then Some (mk (last p)) else flat t p)"
  using assms
proof (induction ks arbitrary: cur t)
  case Nil
  then show ?case by (auto simp: fun_eq_iff dest: prefix_order.antisym)
next
  case (Cons k ks)
  let ?t = "nt_add cur k (mk k) t"
  have f: "flat ?t = (flat t)(cur @ [k] \<mapsto> mk k)" and w: "nt_wf ?t"
    using Cons.prems by (auto simp: flat_nt_add intro: nt_add_wf)
  have n: "flat ?t (cur @ [k, l]) = None" for l
    using flat_prefix[of t "cur @ [k, l]" "cur @ [k]"] Cons.prems(3)[of k ks] by (cases "flat t (cur @ [k, l])") (auto simp: f)
  have IH: "nt_wf (fst (nt_chain mk (cur @ [k]) ks ?t)) \<and> snd (nt_chain mk (cur @ [k]) ks ?t) = cur @ k # ks \<and>
    flat (fst (nt_chain mk (cur @ [k]) ks ?t)) = (\<lambda>p. if prefix (cur @ [k]) p \<and> p \<noteq> cur @ [k] \<and>
      prefix p (cur @ k # ks) then Some (mk (last p)) else flat ?t p)"
    using Cons.IH[of ?t "cur @ [k]"] f w n by simp
  have "prefix cur p \<and> p \<noteq> cur \<and> prefix p (cur @ k # ks) \<longleftrightarrow>
      p = cur @ [k] \<or> prefix (cur @ [k]) p \<and> p \<noteq> cur @ [k] \<and> prefix p (cur @ k # ks)" for p
    by (auto simp: prefix_def Cons_eq_append_conv append_eq_Cons_conv)
  then show ?case using IH f by (auto simp: fun_eq_iff)
qed

lemma prefix_snocI: "c @ r = q \<Longrightarrow> r = k # ks \<Longrightarrow> prefix (c @ [k]) q"
  by auto

text \<open>Filling the tree adds exactly the missing prefixes and returns the node of the name.\<close>

lemma nt_fill_flat [flat_simps]:
  assumes "nt_wf t"
  shows "snd (nt_fill (=) mk t q) = q"
    and "flat (fst (nt_fill (=) mk t q)) =
      (\<lambda>p. if flat t p = None \<and> prefix p q then Some (mk (last p)) else flat t p)"
    and "nt_wf (fst (nt_fill (=) mk t q))"
proof -
  let ?c = "nt_longest (=) t q"
  let ?r = "drop (length ?c) q"
  have q: "?c @ ?r = q" using nt_longest_take[of q t] append_take_drop_id by metis
  have new: "flat t (?c @ [k]) = None" if "?r = k # ks'" for k ks'
  proof (rule ccontr)
    assume a: "flat t (?c @ [k]) \<noteq> None"
    have "prefix (?c @ [k]) q" by (rule prefix_snocI[OF q that])
    from prefix_length_le[OF nt_longest_max[OF this a]] show False by simp
  qed
  have ch: "nt_wf (fst (nt_chain mk ?c ?r t)) \<and> snd (nt_chain mk ?c ?r t) = ?c @ ?r \<and>
    flat (fst (nt_chain mk ?c ?r t)) =
      (\<lambda>p. if prefix ?c p \<and> p \<noteq> ?c \<and> prefix p (?c @ ?r) then Some (mk (last p)) else flat t p)"
    by (rule nt_chain_flat[OF assms nt_longest_flat]) (rule new)
  have "prefix ?c p \<and> p \<noteq> ?c \<and> prefix p q \<longleftrightarrow> flat t p = None \<and> prefix p q" for p
    using nt_longest_max[of p q t] nt_longest_flat[of t q] flat_prefix[of t ?c p]
      prefix_same_cases[OF nt_longest_prefix[of q t], of p] prefix_order.antisym[of p ?c] by blast
  with ch q show "snd (nt_fill (=) mk t q) = q" "nt_wf (fst (nt_fill (=) mk t q))"
    "flat (fst (nt_fill (=) mk t q)) =
      (\<lambda>p. if flat t p = None \<and> prefix p q then Some (mk (last p)) else flat t p)"
    by (simp_all add: nt_fill_def Let_def)
qed

text \<open>The list of nodes is the flat view.\<close>

lemma nt_nodes_flat: "nt_wf t \<Longrightarrow> (p, v) \<in> set (nt_nodes t) \<longleftrightarrow> flat t p = Some v"
proof (induction t arbitrary: p v rule: nt_nodes.induct)
  case (1 w cs)
  have IH: "(p, v) \<in> set (nt_nodes c) \<longleftrightarrow> flat c p = Some v" if "(k, c) \<in> set cs" for k c p v
    using "1.IH"[OF that refl] "1.prems" that by auto
  show ?case
  proof (cases p)
    case (Cons k q)
    have "(p, v) \<in> set (nt_nodes (Node w cs)) \<longleftrightarrow> (\<exists>c. (k, c) \<in> set cs \<and> (q, v) \<in> set (nt_nodes c))"
      using Cons by force
    also have "\<dots> \<longleftrightarrow> (\<exists>c. (k, c) \<in> set cs \<and> flat c q = Some v)" using IH by blast
    also have "\<dots> \<longleftrightarrow> (\<exists>c. map_of cs k = Some c \<and> flat c q = Some v)" using "1.prems" by simp
    also have "\<dots> \<longleftrightarrow> flat (Node w cs) p = Some v" using Cons by (simp add: flat_Cons split: option.splits)
    finally show ?thesis .
  qed auto
qed

section \<open>Listings\<close>

text \<open>
  The listings of the FIB and the RIB walk the tree with a list used as a stack: a node is taken from
  the front and its children are pushed to the front one by one.
\<close>

function nt_walk :: "('v \<Rightarrow> bool) \<Rightarrow> ('k, 'v) ntree list \<Rightarrow> 'v list" where
  "nt_walk keep [] = []"
| "nt_walk keep (n # queue) =
     (if keep (nval n) then [nval n] else []) @ nt_walk keep (rev (map snd (nkids n)) @ queue)"
  by pat_completeness auto
termination
proof (relation "measure (\<lambda>(keep, queue). sum_list (map size queue))")
  fix keep :: "'v \<Rightarrow> bool" and n :: "('k, 'v) ntree" and queue
  have "sum_list (map size (map snd cs)) \<le> size_list (size_prod (\<lambda>_. 0) size) cs" for cs :: "('k \<times> ('k, 'v) ntree) list"
    by (induction cs) auto
  then have "sum_list (map size (map snd (nkids n))) < size n" by (cases n) (simp add: le_imp_less_Suc)
  then show "((keep, rev (map snd (nkids n)) @ queue), keep, n # queue) \<in> measure (\<lambda>(keep, queue). sum_list (map size queue))"
    by (simp add: rev_map sum_list_rev flip: rev_map)
qed simp

declare nt_walk.simps [simp del]

lemma set_nt_walk: "set (nt_walk keep queue) = {e. keep e \<and> (\<exists>n\<in>set queue. e \<in> snd ` set (nt_nodes n))}"
proof (induction keep queue rule: nt_walk.induct)
  case (2 keep n queue)
  have "snd ` set (nt_nodes n) = insert (nval n) (\<Union>c\<in>snd ` set (nkids n). snd ` set (nt_nodes c))"
    by (cases n) (force simp: image_iff)
  with 2 show ?case by (auto simp: nt_walk.simps)
qed (simp add: nt_walk.simps)

lemma set_nt_nodes: "nt_wf root \<Longrightarrow> snd ` set (nt_nodes root) = ran (flat root)"
  using nt_nodes_flat by (force simp: ran_def image_iff)

end
