(* ===== verification/Fib_Spec.thy ===== *)
theory Fib_Spec
  imports Go_Ndn Name_Tree
begin

text \<open>
  The FIB-strategy table of \<^verbatim>\<open>src/table/fib-strategy.go\<close>: the entries, the Go interface
  \<^verbatim>\<open>FibStrategy\<close> as a record of its methods, the longest-prefix-match specification that both
  implementations (\<open>Fib_Tree\<close>, \<open>Fib_Hash\<close>) meet, and the contract the clients rely on as the locale
  \<open>fib_table\<close>.
\<close>

record FibNextHopEntry =
  Nexthop :: u64
  Cost :: u64

record baseFibStrategyEntry =
  fse_component :: component
  fse_name :: "name option"
  fse_nexthops :: "FibNextHopEntry list"
  fse_strategy :: "name option"

text \<open>
  The methods of the interface. The two lookups may panic (\<open>Inl\<close>); the argument of
  \<open>ClearNextHopsEnc\<close> may be the nil name, which the RIB passes for a node without a name of its own.
\<close>

record 's FibStrategy =
  FindNextHopsEnc :: "'s \<Rightarrow> name \<Rightarrow> FibNextHopEntry list result"
  FindStrategyEnc :: "'s \<Rightarrow> name \<Rightarrow> name option result"
  InsertNextHopEnc :: "'s \<Rightarrow> name \<Rightarrow> u64 \<Rightarrow> u64 \<Rightarrow> 's"
  ClearNextHopsEnc :: "'s \<Rightarrow> name option \<Rightarrow> 's"
  RemoveNextHopEnc :: "'s \<Rightarrow> name \<Rightarrow> u64 \<Rightarrow> 's"
  GetAllFIBEntries :: "'s \<Rightarrow> baseFibStrategyEntry list"
  SetStrategyEnc :: "'s \<Rightarrow> name \<Rightarrow> name \<Rightarrow> 's"
  UnSetStrategyEnc :: "'s \<Rightarrow> name \<Rightarrow> 's"
  GetAllForwardingStrategies :: "'s \<Rightarrow> baseFibStrategyEntry list"

section \<open>Nexthop lists\<close>

text \<open>
  The loop of \<open>InsertNextHopEnc\<close>, the same in both tables: update the cost of the first entry
  of the face, or append a new entry.
\<close>

fun upsert_nexthop :: "u64 \<Rightarrow> u64 \<Rightarrow> FibNextHopEntry list \<Rightarrow> FibNextHopEntry list" where
  "upsert_nexthop f c [] = [\<lparr>Nexthop = f, Cost = c\<rparr>]"
| "upsert_nexthop f c (e # es) =
     (if Nexthop e = f then e\<lparr>Cost := c\<rparr> # es else e # upsert_nexthop f c es)"

definition nh_map :: "FibNextHopEntry list \<Rightarrow> u64 \<rightharpoonup> u64" where
  "nh_map es = map_of (map (\<lambda>e. (Nexthop e, Cost e)) es)"

abbreviation nh_distinct :: "FibNextHopEntry list \<Rightarrow> bool" where
  "nh_distinct es \<equiv> distinct (map Nexthop es)"

lemma nh_map_simps [simp]:
  "nh_map [] = Map.empty" "nh_map (e # es) = (nh_map es)(Nexthop e \<mapsto> Cost e)"
  by (simp_all add: nh_map_def)

lemma nh_map_eq_empty [simp]: "nh_map es = Map.empty \<longleftrightarrow> es = []"
  by (cases es) auto

lemma dom_nh_map: "dom (nh_map es) = Nexthop ` set es"
  by (auto simp: nh_map_def dom_map_of_conv_image_fst image_image)

lemma nh_map_upsert [simp]: "nh_map (upsert_nexthop f c es) = (nh_map es)(f \<mapsto> c)"
  by (induction es) auto

lemma set_upsert: "Nexthop ` set (upsert_nexthop f c es) = insert f (Nexthop ` set es)"
  by (induction es) auto

lemma nh_distinct_upsert [simp]: "nh_distinct es \<Longrightarrow> nh_distinct (upsert_nexthop f c es)"
  by (induction es) (auto simp: set_upsert)

lemma nh_map_iff: "nh_distinct es \<Longrightarrow> nh_map es f = Some c \<longleftrightarrow> (\<exists>e\<in>set es. Nexthop e = f \<and> Cost e = c)"
  unfolding nh_map_def by (subst map_of_eq_Some_iff) (auto simp: comp_def)

text \<open>Taking the entry of a face out of the list, in whichever order the rest is left.\<close>

lemma nh_map_cong_mset:
  assumes "nh_distinct es" "mset es' = mset es - {#es ! i#}" "i < length es"
  shows "nh_distinct es'" "nh_map es' = (nh_map es)(Nexthop (es ! i) := None)"
proof -
  have m: "mset (es ! i # es') = mset es" using assms(2,3) by simp
  then have d: "nh_distinct (es ! i # es')"
    using assms(1) mset_eq_imp_distinct_iff[of "map Nexthop (es ! i # es')" "map Nexthop es"] by (metis mset_map)
  then show d': "nh_distinct es'" by simp
  have s: "set es = insert (es ! i) (set es')" using mset_eq_setD[OF m] by auto
  show "nh_map es' = (nh_map es)(Nexthop (es ! i) := None)"
  proof (rule ext)
    fix f
    have "nh_map es' f = Some c \<longleftrightarrow> ((nh_map es)(Nexthop (es ! i) := None)) f = Some c" for c
      using d s by (auto simp: nh_map_iff[OF assms(1)] nh_map_iff[OF d']) (metis image_eqI)
    then show "nh_map es' f = ((nh_map es)(Nexthop (es ! i) := None)) f"
      by (metis option.exhaust)
  qed
qed

section \<open>Longest prefix match\<close>

primrec lpm_upto :: "('k list \<Rightarrow> 'a option) \<Rightarrow> 'k list \<Rightarrow> nat \<Rightarrow> 'a option" where
  "lpm_upto f q 0 = f []"
| "lpm_upto f q (Suc n) = (case f (take (Suc n) q) of Some v \<Rightarrow> Some v | None \<Rightarrow> lpm_upto f q n)"

definition lpm :: "('k list \<Rightarrow> 'a option) \<Rightarrow> 'k list \<Rightarrow> 'a option" where
  "lpm f q = lpm_upto f q (length q)"

lemma lpm_upto_None: "n \<le> length q \<Longrightarrow> lpm_upto f q n = None \<longleftrightarrow> (\<forall>i\<le>n. f (take i q) = None)"
  by (induction n) (auto split: option.splits simp: le_Suc_eq)

lemma lpm_upto_Some:
  "n \<le> length q \<Longrightarrow> lpm_upto f q n = Some v \<longleftrightarrow>
     (\<exists>i\<le>n. f (take i q) = Some v \<and> (\<forall>j. i < j \<and> j \<le> n \<longrightarrow> f (take j q) = None))"
proof (induction n)
  case (Suc n)
  show ?case
  proof (cases "f (take (Suc n) q)")
    case None
    with Suc show ?thesis by (auto simp: le_Suc_eq)
  next
    case (Some w)
    have "(\<exists>i\<le>Suc n. f (take i q) = Some v \<and> (\<forall>j. i < j \<and> j \<le> Suc n \<longrightarrow> f (take j q) = None)) \<longleftrightarrow> w = v"
      using Some by (auto simp: le_Suc_eq)
    with Some show ?thesis by simp
  qed
qed auto

lemma lpm_upto_skip: "m \<le> n \<Longrightarrow> (\<And>i. m < i \<Longrightarrow> i \<le> n \<Longrightarrow> f (take i q) = None) \<Longrightarrow> lpm_upto f q n = lpm_upto f q m"
proof (induction n)
  case (Suc n)
  then show ?case by (cases "m = Suc n") auto
qed simp

lemma lpm_upto_cong: "(\<And>i. i \<le> n \<Longrightarrow> f (take i q) = g (take i q)) \<Longrightarrow> lpm_upto f q n = lpm_upto g q n"
  by (induction n) (auto split: option.split)

lemma lpm_map_option: "lpm (\<lambda>p. map_option g (f p)) q = map_option g (lpm f q)"
proof -
  have "lpm_upto (\<lambda>p. map_option g (f p)) q n = map_option g (lpm_upto f q n)" for n
    by (induction n) (auto split: option.split)
  then show ?thesis by (simp add: lpm_def)
qed

text \<open>The specification: the value at the longest prefix that has one.\<close>

lemma lpm_spec:
  "lpm f q = Some v \<longleftrightarrow>
     (\<exists>p. prefix p q \<and> f p = Some v \<and> (\<forall>p'. prefix p' q \<and> f p' \<noteq> None \<longrightarrow> length p' \<le> length p))"
proof
  assume "lpm f q = Some v"
  then obtain i where i: "i \<le> length q" "f (take i q) = Some v"
    "\<forall>j. i < j \<and> j \<le> length q \<longrightarrow> f (take j q) = None"
    unfolding lpm_def lpm_upto_Some[OF order_refl] by blast
  have "length p' \<le> i" if "prefix p' q" "f p' \<noteq> None" for p'
    using that i(3) by (metis append_eq_conv_conj linorder_not_le prefix_def prefix_length_le)
  with i show "\<exists>p. prefix p q \<and> f p = Some v \<and> (\<forall>p'. prefix p' q \<and> f p' \<noteq> None \<longrightarrow> length p' \<le> length p)"
    by (intro exI[of _ "take i q"]) (auto simp: take_is_prefix)
next
  assume "\<exists>p. prefix p q \<and> f p = Some v \<and> (\<forall>p'. prefix p' q \<and> f p' \<noteq> None \<longrightarrow> length p' \<le> length p)"
  then obtain p where p: "prefix p q" "f p = Some v" "\<And>p'. prefix p' q \<Longrightarrow> f p' \<noteq> None \<Longrightarrow> length p' \<le> length p"
    by blast
  have "f (take j q) = None" if "length p < j" "j \<le> length q" for j
    using p(3)[OF take_is_prefix, of j] that by fastforce
  moreover have "take (length p) q = p" "length p \<le> length q"
    using p(1) by (auto simp: prefix_def)
  ultimately show "lpm f q = Some v"
    unfolding lpm_def lpm_upto_Some[OF order_refl] using p(2) by (intro exI[of _ "length p"]) auto
qed

lemma lpm_None: "lpm f q = None \<longleftrightarrow> (\<forall>p. prefix p q \<longrightarrow> f p = None)"
proof -
  have "prefix p q \<Longrightarrow> p = take (length p) q \<and> length p \<le> length q" for p by (auto simp: prefix_def)
  then show ?thesis unfolding lpm_def lpm_upto_None[OF order_refl] by (metis take_is_prefix)
qed

section \<open>The contract of the table\<close>

text \<open>
  The abstract state of a table assigns each name its nexthops (a map from face to cost) and its
  strategy. \<open>S\<close> is the set of names for which the table keeps its promise: every name for the name
  tree, a set of names without hash collisions for the hash table.
\<close>

definition nonempty_nh :: "(name \<Rightarrow> u64 \<rightharpoonup> u64) \<Rightarrow> name \<Rightarrow> (u64 \<rightharpoonup> u64) option" where
  "nonempty_nh nh n = (if nh n = Map.empty then None else Some (nh n))"

definition lpm_nexthops :: "(name \<Rightarrow> u64 \<rightharpoonup> u64) \<Rightarrow> name \<Rightarrow> u64 \<rightharpoonup> u64" where
  "lpm_nexthops nh n = (case lpm (nonempty_nh nh) n of None \<Rightarrow> Map.empty | Some m \<Rightarrow> m)"

locale fib_table =
  fixes ops :: "'s FibStrategy"
    and inv :: "'s \<Rightarrow> bool"
    and S :: "name set"
    and nh :: "'s \<Rightarrow> name \<Rightarrow> u64 \<rightharpoonup> u64"
    and strat :: "'s \<Rightarrow> name \<Rightarrow> name option"
  assumes find_nexthops: "inv s \<Longrightarrow> n \<in> S \<Longrightarrow>
      \<exists>l. FindNextHopsEnc ops s n = Inr l \<and> nh_distinct l \<and> nh_map l = lpm_nexthops (nh s) n"
    and find_strategy: "inv s \<Longrightarrow> n \<in> S \<Longrightarrow> FindStrategyEnc ops s n = Inr (lpm (strat s) n)"
    and insert_nexthop: "inv s \<Longrightarrow> n \<in> S \<Longrightarrow> inv (InsertNextHopEnc ops s n f c)"
      "inv s \<Longrightarrow> n \<in> S \<Longrightarrow> nh (InsertNextHopEnc ops s n f c) = (nh s)(n := (nh s n)(f \<mapsto> c))"
      "inv s \<Longrightarrow> n \<in> S \<Longrightarrow> strat (InsertNextHopEnc ops s n f c) = strat s"
    and clear_nexthops: "inv s \<Longrightarrow> n \<in> S \<Longrightarrow> inv (ClearNextHopsEnc ops s (Some n))"
      "inv s \<Longrightarrow> n \<in> S \<Longrightarrow> nh (ClearNextHopsEnc ops s (Some n)) = (nh s)(n := Map.empty)"
      "inv s \<Longrightarrow> n \<in> S \<Longrightarrow> strat (ClearNextHopsEnc ops s (Some n)) = strat s"
    and remove_nexthop: "inv s \<Longrightarrow> n \<in> S \<Longrightarrow> inv (RemoveNextHopEnc ops s n f)"
      "inv s \<Longrightarrow> n \<in> S \<Longrightarrow> nh (RemoveNextHopEnc ops s n f) = (nh s)(n := (nh s n)(f := None))"
      "inv s \<Longrightarrow> n \<in> S \<Longrightarrow> strat (RemoveNextHopEnc ops s n f) = strat s"
    and set_strategy: "inv s \<Longrightarrow> n \<in> S \<Longrightarrow> inv (SetStrategyEnc ops s n x)"
      "inv s \<Longrightarrow> n \<in> S \<Longrightarrow> strat (SetStrategyEnc ops s n x) = (strat s)(n := Some x)"
      "inv s \<Longrightarrow> n \<in> S \<Longrightarrow> nh (SetStrategyEnc ops s n x) = nh s"
    and unset_strategy: "inv s \<Longrightarrow> n \<in> S \<Longrightarrow> inv (UnSetStrategyEnc ops s n)"
      "inv s \<Longrightarrow> n \<in> S \<Longrightarrow> strat (UnSetStrategyEnc ops s n) = (strat s)(n := None)"
      "inv s \<Longrightarrow> n \<in> S \<Longrightarrow> nh (UnSetStrategyEnc ops s n) = nh s"
begin

text \<open>A nexthop that was just inserted for a name is found for that name.\<close>

lemma insert_then_find:
  assumes "inv s" "n \<in> S"
  shows "\<exists>l. FindNextHopsEnc ops (InsertNextHopEnc ops s n f c) n = Inr l \<and>
    nh_map l = (nh s n)(f \<mapsto> c)"
proof -
  let ?s = "InsertNextHopEnc ops s n f c"
  have "lpm (nonempty_nh (nh ?s)) n = Some ((nh s n)(f \<mapsto> c))"
    unfolding lpm_spec using assms
    by (intro exI[of _ n]) (auto simp: insert_nexthop nonempty_nh_def prefix_length_le)
  then have "lpm_nexthops (nh ?s) n = (nh s n)(f \<mapsto> c)" by (simp add: lpm_nexthops_def)
  then show ?thesis using find_nexthops[OF insert_nexthop(1)[OF assms] assms(2), of f c] by auto
qed

text \<open>A table with a strategy at the root answers every strategy lookup.\<close>

lemma root_strategy_total:
  assumes "inv s" "n \<in> S" "strat s [] \<noteq> None"
  shows "\<exists>x. FindStrategyEnc ops s n = Inr (Some x)"
proof -
  have "lpm (strat s) n \<noteq> None" using assms(3) lpm_None[of "strat s" n] by auto
  then show ?thesis using find_strategy[OF assms(1,2)] by auto
qed

end

text \<open>
  A table for which clearing the nil name is a no-op. The RIB calls \<open>ClearNextHopsEnc\<close> with the nil name
  when a route is removed from a node that never had one; the name tree ignores the call, the hash
  table takes it for the root name.
\<close>

locale fib_table_nil = fib_table +
  assumes clear_nil: "inv s \<Longrightarrow> ClearNextHopsEnc ops s None = s"
begin

lemma clear_keeps:
  assumes "inv s" "\<And>n. on = Some n \<Longrightarrow> n \<in> S"
  shows "inv (ClearNextHopsEnc ops s on)" "strat (ClearNextHopsEnc ops s on) = strat s"
  using assms clear_nil clear_nexthops by (cases on; simp)+

end

end
