(* ===== verification/Fib_Tree.thy ===== *)
theory Fib_Tree
  imports Fib_Spec
begin

text \<open>
  The name-tree FIB of \<^verbatim>\<open>src/table/fib-strategy-tree.go\<close>. The children of a node are a slice that is
  searched with \<^verbatim>\<open>Component.Equal\<close>; the map \<open>fibPrefixes\<close> is kept as the code keeps it (it is written
  but never read). The read-write mutex makes every method atomic and is not part of the state.
\<close>

type_synonym fib_node = "(component, baseFibStrategyEntry) ntree"

record FibStrategyTree =
  fib_root :: fib_node
  fibPrefixes :: "u64 \<rightharpoonup> name"

definition new_entry :: "component \<Rightarrow> baseFibStrategyEntry" where
  "new_entry c = \<lparr>fse_component = c, fse_name = None, fse_nexthops = [], fse_strategy = None\<rparr>"

definition best_route_v1 :: string where
  "best_route_v1 = ''/localhost/nfd/strategy/best-route/v=1''"

definition newFibStrategyTableTree :: "enc_api \<Rightarrow> FibStrategyTree" where
  "newFibStrategyTableTree E =
     \<lparr>fib_root = Node \<lparr>fse_component = \<lparr>Typ = 0, Val = []\<rparr>, fse_name = Some [], fse_nexthops = [],
                        fse_strategy = NameFromStr E best_route_v1\<rparr> [],
      fibPrefixes = Map.empty\<rparr>"

definition fib_findExactMatchEntryEnc :: "enc_api \<Rightarrow> fib_node \<Rightarrow> name \<Rightarrow> name option" where
  "fib_findExactMatchEntryEnc E root name = nt_exact (comp_Equal E) root name"

definition fib_findLongestPrefixEntryEnc :: "enc_api \<Rightarrow> fib_node \<Rightarrow> name \<Rightarrow> name" where
  "fib_findLongestPrefixEntryEnc E root name = nt_longest (comp_Equal E) root name"

definition fib_fillTreeToPrefixEnc :: "enc_api \<Rightarrow> fib_node \<Rightarrow> name \<Rightarrow> fib_node \<times> name" where
  "fib_fillTreeToPrefixEnc E root name = nt_fill (comp_Equal E) new_entry root name"

text \<open>The entry a node pointer refers to.\<close>

definition entry_at :: "fib_node \<Rightarrow> name \<Rightarrow> baseFibStrategyEntry" where
  "entry_at root p = (case flat root p of Some e \<Rightarrow> e | None \<Rightarrow> new_entry \<lparr>Typ = 0, Val = []\<rparr>)"

text \<open>
  \<open>pruneIfEmpty\<close> walks from the node \<open>f\<close> towards the root while the current node carries no
  information. In each step it searches the children of the current node's parent for \<^emph>\<open>f\<close> (not for the
  current node) and deletes the first match. A child of \<open>parent\<close> is the node \<open>f\<close> when its path is.
\<close>

definition prune_child :: "name \<Rightarrow> name \<Rightarrow> fib_node \<Rightarrow> fib_node" where
  "prune_child f parent root =
     (if f \<noteq> [] \<and> butlast f = parent then nt_del parent (last f) root else root)"

definition node_empty :: "fib_node \<Rightarrow> name \<Rightarrow> bool" where
  "node_empty root p =
     (case nt_get root p of
        None \<Rightarrow> True
      | Some n \<Rightarrow> nkids n = [] \<and> fse_nexthops (nval n) = [] \<and> fse_strategy (nval n) = None)"

function fib_prune_loop :: "name \<Rightarrow> name \<Rightarrow> fib_node \<Rightarrow> fib_node" where
  "fib_prune_loop f cur root =
     (if cur \<noteq> [] \<and> node_empty root cur
      then fib_prune_loop f (butlast cur) (prune_child f (butlast cur) root)
      else root)"
  by pat_completeness auto
termination
  by (relation "measure (\<lambda>(f, cur, root). length cur)") auto

declare fib_prune_loop.simps [simp del]

definition fib_pruneIfEmpty :: "name \<Rightarrow> fib_node \<Rightarrow> fib_node" where
  "fib_pruneIfEmpty f root = fib_prune_loop f f root"

text \<open>From the longest match, step back up to the first node with nexthops, or with a strategy.\<close>

function fib_up_nexthops :: "fib_node \<Rightarrow> name \<Rightarrow> FibNextHopEntry list" where
  "fib_up_nexthops root cur =
     (if fse_nexthops (entry_at root cur) \<noteq> [] then fse_nexthops (entry_at root cur)
      else if cur = [] then [] else fib_up_nexthops root (butlast cur))"
  by pat_completeness auto
termination
  by (relation "measure (\<lambda>(root, cur). length cur)") auto

function fib_up_strategy :: "fib_node \<Rightarrow> name \<Rightarrow> name option" where
  "fib_up_strategy root cur =
     (if fse_strategy (entry_at root cur) \<noteq> None then fse_strategy (entry_at root cur)
      else if cur = [] then None else fib_up_strategy root (butlast cur))"
  by pat_completeness auto
termination
  by (relation "measure (\<lambda>(root, cur). length cur)") auto

declare fib_up_nexthops.simps [simp del] fib_up_strategy.simps [simp del]

definition tree_FindNextHopsEnc :: "enc_api \<Rightarrow> FibStrategyTree \<Rightarrow> name \<Rightarrow> FibNextHopEntry list" where
  "tree_FindNextHopsEnc E f name =
     fib_up_nexthops (fib_root f) (fib_findLongestPrefixEntryEnc E (fib_root f) name)"

definition tree_FindStrategyEnc :: "enc_api \<Rightarrow> FibStrategyTree \<Rightarrow> name \<Rightarrow> name option" where
  "tree_FindStrategyEnc E f name =
     fib_up_strategy (fib_root f) (fib_findLongestPrefixEntryEnc E (fib_root f) name)"

definition set_name_if_nil :: "name \<Rightarrow> baseFibStrategyEntry \<Rightarrow> baseFibStrategyEntry" where
  "set_name_if_nil name e = (if fse_name e = None then e\<lparr>fse_name := Some name\<rparr> else e)"

definition tree_InsertNextHopEnc :: "enc_api \<Rightarrow> FibStrategyTree \<Rightarrow> name \<Rightarrow> u64 \<Rightarrow> u64 \<Rightarrow> FibStrategyTree" where
  "tree_InsertNextHopEnc E f name nexthop cost =
     (let (root1, p) = fib_fillTreeToPrefixEnc E (fib_root f) name;
          root2 = nt_set p (set_name_if_nil name) root1;
          known = (\<exists>e\<in>set (fse_nexthops (entry_at root2 p)). Nexthop e = nexthop);
          root3 = nt_set p (\<lambda>e. e\<lparr>fse_nexthops := upsert_nexthop nexthop cost (fse_nexthops e)\<rparr>) root2
      in f\<lparr>fib_root := root3,
           fibPrefixes := (if known then fibPrefixes f else (fibPrefixes f)(name_Hash E name \<mapsto> p))\<rparr>)"

definition tree_ClearNextHopsEnc :: "enc_api \<Rightarrow> FibStrategyTree \<Rightarrow> name option \<Rightarrow> FibStrategyTree" where
  "tree_ClearNextHopsEnc E f oname =
     (case oname of
        None \<Rightarrow> f
      | Some name \<Rightarrow>
          (case fib_findExactMatchEntryEnc E (fib_root f) name of
             None \<Rightarrow> f
           | Some p \<Rightarrow> f\<lparr>fib_root := nt_set p (\<lambda>e. e\<lparr>fse_nexthops := []\<rparr>) (fib_root f)\<rparr>))"

definition remove_nexthop_shift :: "u64 \<Rightarrow> FibNextHopEntry list \<Rightarrow> FibNextHopEntry list" where
  "remove_nexthop_shift nexthop es =
     (case find_index (\<lambda>e. Nexthop e = nexthop) es of None \<Rightarrow> es | Some i \<Rightarrow> del_at i es)"

definition tree_RemoveNextHopEnc :: "enc_api \<Rightarrow> FibStrategyTree \<Rightarrow> name \<Rightarrow> u64 \<Rightarrow> FibStrategyTree" where
  "tree_RemoveNextHopEnc E f name nexthop =
     (case fib_findExactMatchEntryEnc E (fib_root f) name of
        None \<Rightarrow> f
      | Some p \<Rightarrow>
          let root1 = nt_set p (\<lambda>e. e\<lparr>fse_nexthops := remove_nexthop_shift nexthop (fse_nexthops e)\<rparr>) (fib_root f);
              prefixes = (if fse_nexthops (entry_at root1 p) = []
                          then (fibPrefixes f)(name_Hash E name := None) else fibPrefixes f)
          in f\<lparr>fib_root := fib_pruneIfEmpty p root1, fibPrefixes := prefixes\<rparr>)"

definition tree_SetStrategyEnc :: "enc_api \<Rightarrow> FibStrategyTree \<Rightarrow> name \<Rightarrow> name \<Rightarrow> FibStrategyTree" where
  "tree_SetStrategyEnc E f name strategy =
     (let (root1, p) = fib_fillTreeToPrefixEnc E (fib_root f) name;
          root2 = nt_set p (set_name_if_nil name) root1
      in f\<lparr>fib_root := nt_set p (\<lambda>e. e\<lparr>fse_strategy := Some strategy\<rparr>) root2\<rparr>)"

definition tree_UnSetStrategyEnc :: "enc_api \<Rightarrow> FibStrategyTree \<Rightarrow> name \<Rightarrow> FibStrategyTree" where
  "tree_UnSetStrategyEnc E f name =
     (case fib_findExactMatchEntryEnc E (fib_root f) name of
        None \<Rightarrow> f
      | Some p \<Rightarrow>
          f\<lparr>fib_root := fib_pruneIfEmpty p (nt_set p (\<lambda>e. e\<lparr>fse_strategy := None\<rparr>) (fib_root f))\<rparr>)"

definition tree_GetAllFIBEntries :: "FibStrategyTree \<Rightarrow> baseFibStrategyEntry list" where
  "tree_GetAllFIBEntries f = nt_walk (\<lambda>e. fse_nexthops e \<noteq> []) [fib_root f]"

definition tree_GetAllForwardingStrategies :: "FibStrategyTree \<Rightarrow> baseFibStrategyEntry list" where
  "tree_GetAllForwardingStrategies f = nt_walk (\<lambda>e. fse_strategy e \<noteq> None) [fib_root f]"

definition tree_ops :: "enc_api \<Rightarrow> FibStrategyTree FibStrategy" where
  "tree_ops E =
     \<lparr>FindNextHopsEnc = (\<lambda>f n. Inr (tree_FindNextHopsEnc E f n)),
      FindStrategyEnc = (\<lambda>f n. Inr (tree_FindStrategyEnc E f n)),
      InsertNextHopEnc = tree_InsertNextHopEnc E,
      ClearNextHopsEnc = tree_ClearNextHopsEnc E,
      RemoveNextHopEnc = tree_RemoveNextHopEnc E,
      GetAllFIBEntries = tree_GetAllFIBEntries,
      SetStrategyEnc = tree_SetStrategyEnc E,
      UnSetStrategyEnc = tree_UnSetStrategyEnc E,
      GetAllForwardingStrategies = tree_GetAllForwardingStrategies\<rparr>"

section \<open>What pruning does\<close>

lemma prune_loop_above: "length cur < length f \<Longrightarrow> fib_prune_loop f cur root = root"
proof (induction "length cur" arbitrary: cur rule: less_induct)
  case less
  show ?case
  proof (cases "cur \<noteq> [] \<and> node_empty root cur")
    case True
    then have "length (butlast cur) < length cur" by (cases cur) auto
    moreover have "length (butlast f) \<noteq> length (butlast cur)"
      using less.prems True by (cases cur; cases f) auto
    then have "butlast f \<noteq> butlast cur" by metis
    then have "prune_child f (butlast cur) root = root"
      by (simp add: prune_child_def)
    ultimately show ?thesis using less True by (simp add: fib_prune_loop.simps[of f cur])
  qed (auto simp: fib_prune_loop.simps[of f cur])
qed

lemma fib_pruneIfEmpty_eq:
  "fib_pruneIfEmpty f root =
     (if f \<noteq> [] \<and> node_empty root f then nt_del (butlast f) (last f) root else root)"
  by (auto simp: fib_pruneIfEmpty_def fib_prune_loop.simps[of f f] prune_child_def prune_loop_above)

lemma nt_wf_pruneIfEmpty [simp]: "nt_wf root \<Longrightarrow> nt_wf (fib_pruneIfEmpty f root)"
  by (simp add: fib_pruneIfEmpty_eq)

lemma flat_pruneIfEmpty:
  "flat (fib_pruneIfEmpty f root) =
     (if f \<noteq> [] \<and> node_empty root f then (flat root)(f := None) else flat root)"
proof (cases "f \<noteq> [] \<and> node_empty root f")
  case True
  have "flat root q = None" if pre: "prefix f q" "q \<noteq> f" for q
  proof -
    obtain k r where q: "q = f @ k # r" using pre by (metis append_Nil2 neq_Nil_conv prefix_def)
    show ?thesis
      using True by (auto simp: q flat_append flat_Cons node_empty_def split: option.splits)
  qed
  with True show ?thesis
    by (auto simp: fib_pruneIfEmpty_eq flat_nt_del fun_eq_iff)
qed (auto simp: fib_pruneIfEmpty_eq)

section \<open>The table meets its contract\<close>

definition entry_ok :: "name \<Rightarrow> baseFibStrategyEntry \<Rightarrow> bool" where
  "entry_ok p e =
     (nh_distinct (fse_nexthops e) \<and> (fse_name e = None \<or> fse_name e = Some p) \<and>
      (fse_nexthops e \<noteq> [] \<or> fse_strategy e \<noteq> None \<longrightarrow> fse_name e = Some p))"

definition tree_inv :: "enc_api \<Rightarrow> FibStrategyTree \<Rightarrow> bool" where
  "tree_inv E f = (enc_laws E \<and> nt_wf (fib_root f) \<and> (\<forall>p e. flat (fib_root f) p = Some e \<longrightarrow> entry_ok p e))"

definition tree_nh :: "FibStrategyTree \<Rightarrow> name \<Rightarrow> u64 \<rightharpoonup> u64" where
  "tree_nh f n = nh_map (fse_nexthops (entry_at (fib_root f) n))"

definition tree_strat :: "FibStrategyTree \<Rightarrow> name \<Rightarrow> name option" where
  "tree_strat f n = fse_strategy (entry_at (fib_root f) n)"

lemma tree_prefixes_irrelevant [simp]:
  "tree_inv E (f\<lparr>fibPrefixes := x\<rparr>) = tree_inv E f"
  by (simp add: tree_inv_def)

lemma tree_inv_laws: "tree_inv E f \<Longrightarrow> enc_laws E"
  by (simp add: tree_inv_def)

lemma comp_Equal_eq: "enc_laws E \<Longrightarrow> comp_Equal E = (=)"
  by (simp add: fun_eq_iff enc_lawsD)

lemmas fib_find_defs = fib_findExactMatchEntryEnc_def fib_findLongestPrefixEntryEnc_def fib_fillTreeToPrefixEnc_def

lemma entry_at_simps [simp]:
  "fse_nexthops (new_entry c) = []" "fse_strategy (new_entry c) = None" "fse_name (new_entry c) = None"
  by (simp_all add: new_entry_def)

lemma entry_at_flat: "flat root p = Some e \<Longrightarrow> entry_at root p = e"
  by (simp add: entry_at_def)

lemma set_name_if_nil_simps [simp]:
  "fse_nexthops (set_name_if_nil n e) = fse_nexthops e" "fse_strategy (set_name_if_nil n e) = fse_strategy e"
  by (simp_all add: set_name_if_nil_def)

lemma up_nexthops_lpm:
  "k \<le> length q \<Longrightarrow> fib_up_nexthops root (take k q) =
     (case lpm_upto (\<lambda>p. if fse_nexthops (entry_at root p) = [] then None else Some (fse_nexthops (entry_at root p))) q k
      of None \<Rightarrow> [] | Some l \<Rightarrow> l)"
proof (induction k)
  case (Suc k)
  then have "butlast (take (Suc k) q) = take k q" "take (Suc k) q \<noteq> []"
    by (auto simp: butlast_take)
  with Suc show ?case by (auto simp: fib_up_nexthops.simps[of root "take (Suc k) q"])
qed (simp add: fib_up_nexthops.simps)

lemma up_strategy_lpm:
  "k \<le> length q \<Longrightarrow> fib_up_strategy root (take k q) = lpm_upto (\<lambda>p. fse_strategy (entry_at root p)) q k"
proof (induction k)
  case (Suc k)
  then have "butlast (take (Suc k) q) = take k q" "take (Suc k) q \<noteq> []"
    by (auto simp: butlast_take)
  with Suc show ?case by (auto simp: fib_up_strategy.simps[of root "take (Suc k) q"])
qed (simp add: fib_up_strategy.simps)

text \<open>Nodes below the longest match do not exist, so stepping up from it searches all prefixes.\<close>

lemma beyond_longest:
  assumes "length (nt_longest (=) root q) < i" "i \<le> length q"
  shows "flat root (take i q) = None"
proof (rule ccontr)
  assume "flat root (take i q) \<noteq> None"
  then have "prefix (take i q) (nt_longest (=) root q)" by (intro nt_longest_max) (auto simp: take_is_prefix)
  with assms show False using prefix_length_le by fastforce
qed

lemma tree_FindNextHops_lpm:
  assumes "enc_laws E"
  shows "tree_FindNextHopsEnc E f q =
    (case lpm (\<lambda>p. if fse_nexthops (entry_at (fib_root f) p) = [] then None else Some (fse_nexthops (entry_at (fib_root f) p))) q
     of None \<Rightarrow> [] | Some l \<Rightarrow> l)"
proof -
  let ?l = "length (nt_longest (=) (fib_root f) q)"
  have l: "?l \<le> length q" using nt_longest_prefix prefix_length_le by blast
  have "tree_FindNextHopsEnc E f q = fib_up_nexthops (fib_root f) (take ?l q)"
    using assms nt_longest_take[of q "fib_root f"]
    by (simp add: tree_FindNextHopsEnc_def fib_find_defs comp_Equal_eq)
  then show ?thesis
    unfolding lpm_def up_nexthops_lpm[OF l]
    by (subst lpm_upto_skip[OF l]) (auto simp: entry_at_def beyond_longest)
qed

lemma tree_FindStrategy_lpm:
  assumes "enc_laws E"
  shows "tree_FindStrategyEnc E f q = lpm (tree_strat f) q"
proof -
  let ?l = "length (nt_longest (=) (fib_root f) q)"
  have l: "?l \<le> length q" using nt_longest_prefix prefix_length_le by blast
  have "tree_FindStrategyEnc E f q = fib_up_strategy (fib_root f) (take ?l q)"
    using assms nt_longest_take[of q "fib_root f"]
    by (simp add: tree_FindStrategyEnc_def fib_find_defs comp_Equal_eq)
  then show ?thesis
    unfolding lpm_def up_strategy_lpm[OF l] tree_strat_def
    by (subst lpm_upto_skip[OF l]) (auto simp: entry_at_def beyond_longest)
qed

text \<open>
  Every update changes the entry of one name. The lemmas below say how, on the flat view, and the
  contract follows from them.
\<close>

definition entry_map :: "FibStrategyTree \<Rightarrow> name \<Rightarrow> baseFibStrategyEntry" where
  "entry_map f = entry_at (fib_root f)"

lemma tree_abs_entry_map: "tree_nh f n = nh_map (fse_nexthops (entry_map f n))" "tree_strat f n = fse_strategy (entry_map f n)"
  by (simp_all add: tree_nh_def tree_strat_def entry_map_def)

text \<open>The fill-then-assign shape of the insertions.\<close>

lemma fill_set:
  assumes "tree_inv E f" "fib_fillTreeToPrefixEnc E (fib_root f) n = (ra, p)"
    and "rb = nt_set p g (nt_set p (set_name_if_nil n) ra)"
    and ok: "\<And>e. entry_ok n e \<Longrightarrow> fse_name e = Some n \<Longrightarrow> entry_ok n (g e)"
  shows "p = n" "tree_inv E (f\<lparr>fib_root := rb\<rparr>)"
    and "fse_nexthops (entry_at rb m) = (if m = n then fse_nexthops (g (set_name_if_nil n (entry_at ra n))) else fse_nexthops (entry_at (fib_root f) m))"
    and "fse_strategy (entry_at rb m) = (if m = n then fse_strategy (g (set_name_if_nil n (entry_at ra n))) else fse_strategy (entry_at (fib_root f) m))"
    and "fse_nexthops (entry_at ra n) = fse_nexthops (entry_at (fib_root f) n)"
    and "fse_strategy (entry_at ra n) = fse_strategy (entry_at (fib_root f) n)"
proof -
  have E: "enc_laws E" and wf: "nt_wf (fib_root f)" and en: "\<And>p e. flat (fib_root f) p = Some e \<Longrightarrow> entry_ok p e"
    using assms(1) by (auto simp: tree_inv_def)
  have F: "p = n" "nt_wf ra" "flat ra = (\<lambda>p. if flat (fib_root f) p = None \<and> prefix p n then Some (new_entry (last p)) else flat (fib_root f) p)"
    using assms(2) nt_fill_flat[OF wf, of new_entry n] by (auto simp: fib_find_defs comp_Equal_eq[OF E])
  then show "p = n" by simp
  obtain e1 where e1: "flat ra n = Some e1" using F(3) by (cases "flat (fib_root f) n") auto
  have R: "flat rb = (flat ra)(n \<mapsto> g (set_name_if_nil n e1))"
    using e1 F(1) by (simp add: assms(3) flat_nt_set)
  have new: "entry_ok p (new_entry c)" for p c by (simp add: entry_ok_def)
  have en1: "entry_ok p e" if "flat ra p = Some e" for p e
    using that en new by (auto simp: F(3) split: if_splits)
  have "entry_ok n (set_name_if_nil n e1) \<and> fse_name (set_name_if_nil n e1) = Some n"
    using en1[OF e1] by (auto simp: entry_ok_def set_name_if_nil_def)
  then have "entry_ok p e" if "flat rb p = Some e" for p e
    using that ok en1 by (auto simp: R split: if_splits)
  then show "tree_inv E (f\<lparr>fib_root := rb\<rparr>)"
    using E F(2) by (simp add: tree_inv_def assms(3))
  show "fse_nexthops (entry_at rb m) = (if m = n then fse_nexthops (g (set_name_if_nil n (entry_at ra n))) else fse_nexthops (entry_at (fib_root f) m))"
    "fse_strategy (entry_at rb m) = (if m = n then fse_strategy (g (set_name_if_nil n (entry_at ra n))) else fse_strategy (entry_at (fib_root f) m))"
    "fse_nexthops (entry_at ra n) = fse_nexthops (entry_at (fib_root f) n)"
    "fse_strategy (entry_at ra n) = fse_strategy (entry_at (fib_root f) n)"
    using e1 by (auto simp: entry_at_def R F(3) split: option.split)
qed

text \<open>The find-assign-prune shape of the deletions.\<close>

lemma set_prune:
  assumes "tree_inv E f" "flat (fib_root f) n = Some e"
    and "ra = nt_set n g (fib_root f)" "rb = ra \<or> rb = fib_pruneIfEmpty n ra"
    and ok: "entry_ok n (g e)"
  shows "tree_inv E (f\<lparr>fib_root := rb\<rparr>)"
    and "fse_nexthops (entry_at rb m) = (if m = n then fse_nexthops (g e) else fse_nexthops (entry_at (fib_root f) m))"
    and "fse_strategy (entry_at rb m) = (if m = n then fse_strategy (g e) else fse_strategy (entry_at (fib_root f) m))"
proof -
  have E: "enc_laws E" and wf: "nt_wf (fib_root f)" and en: "\<And>p e. flat (fib_root f) p = Some e \<Longrightarrow> entry_ok p e"
    using assms(1) by (auto simp: tree_inv_def)
  have R1: "flat ra = (flat (fib_root f))(n \<mapsto> g e)" using assms(2) by (simp add: assms(3) flat_nt_set)
  have "node_empty ra n \<Longrightarrow> fse_nexthops (g e) = [] \<and> fse_strategy (g e) = None"
    using fun_cong[OF R1, of n] by (auto simp: node_empty_def flat_def split: option.splits)
  then have R: "flat rb = flat ra \<or> flat rb = (flat ra)(n := None) \<and> fse_nexthops (g e) = [] \<and> fse_strategy (g e) = None"
    using assms(4) by (auto simp: flat_pruneIfEmpty split: if_splits)
  have "entry_ok p e'" if "flat rb p = Some e'" for p e'
    using that R en ok by (auto simp: R1 split: if_splits)
  moreover have "nt_wf rb" using assms(3,4) wf by auto
  ultimately show "tree_inv E (f\<lparr>fib_root := rb\<rparr>)"
    using E by (simp add: tree_inv_def)
  show "fse_nexthops (entry_at rb m) = (if m = n then fse_nexthops (g e) else fse_nexthops (entry_at (fib_root f) m))"
    "fse_strategy (entry_at rb m) = (if m = n then fse_strategy (g e) else fse_strategy (entry_at (fib_root f) m))"
    using R by (auto simp: entry_at_def R1)
qed

lemma remove_shift_correct:
  assumes "nh_distinct es"
  shows "nh_distinct (remove_nexthop_shift f es)" "nh_map (remove_nexthop_shift f es) = (nh_map es)(f := None)"
proof -
  have "nh_distinct (remove_nexthop_shift f es) \<and> nh_map (remove_nexthop_shift f es) = (nh_map es)(f := None)"
  proof (cases "find_index (\<lambda>e. Nexthop e = f) es")
    case None
    then have "f \<notin> dom (nh_map es)" by (auto simp: dom_nh_map find_index_None)
    with None assms show ?thesis by (auto simp: remove_nexthop_shift_def fun_upd_idem_iff)
  next
    case (Some i)
    from find_index_SomeD[OF this] Some show ?thesis
      using nh_map_cong_mset[OF assms mset_del_at] by (auto simp: remove_nexthop_shift_def)
  qed
  then show "nh_distinct (remove_nexthop_shift f es)" "nh_map (remove_nexthop_shift f es) = (nh_map es)(f := None)" by simp_all
qed

lemma tree_insert_contract:
  assumes "tree_inv E s"
  shows "tree_inv E (tree_InsertNextHopEnc E s n f c)"
    "tree_nh (tree_InsertNextHopEnc E s n f c) = (tree_nh s)(n := (tree_nh s n)(f \<mapsto> c))"
    "tree_strat (tree_InsertNextHopEnc E s n f c) = tree_strat s"
proof -
  let ?g = "\<lambda>e. e\<lparr>fse_nexthops := upsert_nexthop f c (fse_nexthops e)\<rparr>"
  obtain ra p where F: "fib_fillTreeToPrefixEnc E (fib_root s) n = (ra, p)" by fastforce
  have ok: "entry_ok n e \<Longrightarrow> fse_name e = Some n \<Longrightarrow> entry_ok n (?g e)" for e by (simp add: entry_ok_def)
  obtain x where T: "tree_InsertNextHopEnc E s n f c =
      s\<lparr>fib_root := nt_set p ?g (nt_set p (set_name_if_nil n) ra), fibPrefixes := x\<rparr>"
    using F by (simp add: tree_InsertNextHopEnc_def Let_def)
  note fs = fill_set[where g = ?g, OF assms F refl ok]
  show "tree_inv E (tree_InsertNextHopEnc E s n f c)" using fs(2) T by simp
  show "tree_nh (tree_InsertNextHopEnc E s n f c) = (tree_nh s)(n := (tree_nh s n)(f \<mapsto> c))"
    "tree_strat (tree_InsertNextHopEnc E s n f c) = tree_strat s"
    using fs T by (auto simp: tree_nh_def tree_strat_def fun_eq_iff)
qed

lemma tree_set_contract:
  assumes "tree_inv E s"
  shows "tree_inv E (tree_SetStrategyEnc E s n x)"
    "tree_strat (tree_SetStrategyEnc E s n x) = (tree_strat s)(n := Some x)"
    "tree_nh (tree_SetStrategyEnc E s n x) = tree_nh s"
proof -
  let ?g = "\<lambda>e. e\<lparr>fse_strategy := Some x\<rparr>"
  obtain ra p where F: "fib_fillTreeToPrefixEnc E (fib_root s) n = (ra, p)" by fastforce
  have ok: "entry_ok n e \<Longrightarrow> fse_name e = Some n \<Longrightarrow> entry_ok n (?g e)" for e by (simp add: entry_ok_def)
  have T: "tree_SetStrategyEnc E s n x =
      s\<lparr>fib_root := nt_set p ?g (nt_set p (set_name_if_nil n) ra)\<rparr>"
    using F by (simp add: tree_SetStrategyEnc_def)
  note fs = fill_set[where g = ?g, OF assms F refl ok]
  show "tree_inv E (tree_SetStrategyEnc E s n x)" using fs(2) T by simp
  show "tree_strat (tree_SetStrategyEnc E s n x) = (tree_strat s)(n := Some x)"
    "tree_nh (tree_SetStrategyEnc E s n x) = tree_nh s"
    using fs T by (auto simp: tree_nh_def tree_strat_def fun_eq_iff)
qed

text \<open>The three deletions, each on a name with and without a node.\<close>

lemma tree_find_cases:
  assumes "tree_inv E s"
  obtains (absent) "fib_findExactMatchEntryEnc E (fib_root s) n = None" "tree_nh s n = Map.empty" "tree_strat s n = None"
    | (present) e where "fib_findExactMatchEntryEnc E (fib_root s) n = Some n" "flat (fib_root s) n = Some e" "entry_ok n e"
proof (cases "flat (fib_root s) n")
  case None
  with assms absent show ?thesis
    by (auto simp: fib_find_defs comp_Equal_eq nt_exact_eq tree_inv_def tree_nh_def tree_strat_def entry_at_def)
next
  case (Some e)
  with assms present show ?thesis
    by (auto simp: fib_find_defs comp_Equal_eq nt_exact_eq tree_inv_def)
qed

lemma tree_remove_contract:
  assumes "tree_inv E s"
  shows "tree_inv E (tree_RemoveNextHopEnc E s n f) \<and>
    tree_nh (tree_RemoveNextHopEnc E s n f) = (tree_nh s)(n := (tree_nh s n)(f := None)) \<and>
    tree_strat (tree_RemoveNextHopEnc E s n f) = tree_strat s"
proof (rule tree_find_cases[OF assms, of n])
  assume "fib_findExactMatchEntryEnc E (fib_root s) n = None" "tree_nh s n = Map.empty"
  with assms show ?thesis by (auto simp: tree_RemoveNextHopEnc_def)
next
  fix e assume e: "fib_findExactMatchEntryEnc E (fib_root s) n = Some n" "flat (fib_root s) n = Some e" "entry_ok n e"
  let ?g = "\<lambda>e. e\<lparr>fse_nexthops := remove_nexthop_shift f (fse_nexthops e)\<rparr>"
  have d: "nh_distinct (fse_nexthops e)" using e(3) by (simp add: entry_ok_def)
  have ok: "entry_ok n (?g e)"
    using e(3) remove_shift_correct[OF d, of f] by (auto simp: entry_ok_def remove_nexthop_shift_def split: option.splits)
  obtain x where T: "tree_RemoveNextHopEnc E s n f =
      s\<lparr>fib_root := fib_pruneIfEmpty n (nt_set n ?g (fib_root s)), fibPrefixes := x\<rparr>"
    using e by (simp add: tree_RemoveNextHopEnc_def Let_def)
  note sp = set_prune[where g = ?g and rb = "fib_pruneIfEmpty n (nt_set n ?g (fib_root s))", OF assms e(2) refl disjI2[OF refl] ok]
  show ?thesis
    unfolding T using sp e(2) remove_shift_correct[OF d, of f]
    by (auto simp: tree_nh_def tree_strat_def fun_eq_iff entry_at_flat)
qed

lemma tree_clear_contract:
  assumes "tree_inv E s"
  shows "tree_inv E (tree_ClearNextHopsEnc E s (Some n)) \<and>
    tree_nh (tree_ClearNextHopsEnc E s (Some n)) = (tree_nh s)(n := Map.empty) \<and>
    tree_strat (tree_ClearNextHopsEnc E s (Some n)) = tree_strat s"
proof (rule tree_find_cases[OF assms, of n])
  assume "fib_findExactMatchEntryEnc E (fib_root s) n = None" "tree_nh s n = Map.empty"
  with assms show ?thesis by (auto simp: tree_ClearNextHopsEnc_def)
next
  fix e assume e: "fib_findExactMatchEntryEnc E (fib_root s) n = Some n" "flat (fib_root s) n = Some e" "entry_ok n e"
  let ?g = "\<lambda>e. e\<lparr>fse_nexthops := []\<rparr>"
  have ok: "entry_ok n (?g e)" using e(3) by (auto simp: entry_ok_def)
  have T: "tree_ClearNextHopsEnc E s (Some n) =
      s\<lparr>fib_root := nt_set n ?g (fib_root s)\<rparr>"
    using e by (simp add: tree_ClearNextHopsEnc_def)
  note sp = set_prune[where g = ?g and rb = "nt_set n ?g (fib_root s)", OF assms e(2) refl disjI1[OF refl] ok]
  show ?thesis
    unfolding T using sp e(2) by (auto simp: tree_nh_def tree_strat_def fun_eq_iff entry_at_flat)
qed

lemma tree_unset_contract:
  assumes "tree_inv E s"
  shows "tree_inv E (tree_UnSetStrategyEnc E s n) \<and>
    tree_strat (tree_UnSetStrategyEnc E s n) = (tree_strat s)(n := None) \<and>
    tree_nh (tree_UnSetStrategyEnc E s n) = tree_nh s"
proof (rule tree_find_cases[OF assms, of n])
  assume "fib_findExactMatchEntryEnc E (fib_root s) n = None" "tree_strat s n = None"
  with assms show ?thesis by (auto simp: tree_UnSetStrategyEnc_def)
next
  fix e assume e: "fib_findExactMatchEntryEnc E (fib_root s) n = Some n" "flat (fib_root s) n = Some e" "entry_ok n e"
  let ?g = "\<lambda>e. e\<lparr>fse_strategy := None\<rparr>"
  have ok: "entry_ok n (?g e)" using e(3) by (auto simp: entry_ok_def)
  have T: "tree_UnSetStrategyEnc E s n =
      s\<lparr>fib_root := fib_pruneIfEmpty n (nt_set n ?g (fib_root s))\<rparr>"
    using e by (simp add: tree_UnSetStrategyEnc_def)
  note sp = set_prune[where g = ?g and rb = "fib_pruneIfEmpty n (nt_set n ?g (fib_root s))", OF assms e(2) refl disjI2[OF refl] ok]
  show ?thesis
    unfolding T using sp e(2) by (auto simp: tree_nh_def tree_strat_def fun_eq_iff entry_at_flat)
qed

lemma tree_find_contract:
  assumes "tree_inv E s"
  shows "nh_distinct (tree_FindNextHopsEnc E s n)" "nh_map (tree_FindNextHopsEnc E s n) = lpm_nexthops (tree_nh s) n"
proof -
  let ?f = "\<lambda>p. if fse_nexthops (entry_at (fib_root s) p) = [] then None else Some (fse_nexthops (entry_at (fib_root s) p))"
  have E: "enc_laws E" using assms by (simp add: tree_inv_def)
  have m: "nonempty_nh (tree_nh s) = (\<lambda>p. map_option nh_map (?f p))"
    by (rule ext) (simp add: nonempty_nh_def tree_nh_def)
  show "nh_map (tree_FindNextHopsEnc E s n) = lpm_nexthops (tree_nh s) n"
    by (simp only: lpm_nexthops_def m lpm_map_option tree_FindNextHops_lpm[OF E]) (simp split: option.split)
  show "nh_distinct (tree_FindNextHopsEnc E s n)"
  proof (cases "lpm ?f n")
    case (Some l)
    then obtain p where "?f p = Some l" by (auto simp only: lpm_spec)
    with assms have "nh_distinct l"
      by (auto simp: entry_at_def tree_inv_def entry_ok_def split: if_splits option.splits)
    with Some show ?thesis by (simp add: tree_FindNextHops_lpm[OF E])
  qed (simp add: tree_FindNextHops_lpm[OF E])
qed

interpretation ft: fib_table "tree_ops E" "tree_inv E" UNIV tree_nh tree_strat for E
  by unfold_locales
    (auto simp: tree_ops_def tree_insert_contract tree_set_contract tree_remove_contract
      tree_clear_contract tree_unset_contract tree_find_contract tree_FindStrategy_lpm[OF tree_inv_laws])

interpretation ftn: fib_table_nil "tree_ops E" "tree_inv E" UNIV tree_nh tree_strat for E
  by unfold_locales (simp add: tree_ops_def tree_ClearNextHopsEnc_def)

lemma newFibStrategyTableTree_inv: "enc_laws E \<Longrightarrow> tree_inv E (newFibStrategyTableTree E)"
  by (auto simp: tree_inv_def newFibStrategyTableTree_def entry_ok_def split: if_splits)

section \<open>Properties\<close>

text \<open>C8. The name-tree FIB answers a nexthop lookup with the nexthops of the longest prefix of the name
  that has any (each face once, with its cost), and a strategy lookup with the strategy of the longest
  prefix that has one.\<close>

theorem tree_lookup_lpm:
  assumes "tree_inv E f"
  shows "nh_distinct (tree_FindNextHopsEnc E f n) \<and>
    nh_map (tree_FindNextHopsEnc E f n) = lpm_nexthops (tree_nh f) n \<and>
    tree_FindStrategyEnc E f n = lpm (tree_strat f) n"
  using tree_find_contract[OF assms] tree_FindStrategy_lpm[OF tree_inv_laws[OF assms]] by simp

theorem tree_lookup_lpm_witness:
  "nh_map (tree_FindNextHopsEnc toy_enc (newFibStrategyTableTree toy_enc) []) = lpm_nexthops (tree_nh (newFibStrategyTableTree toy_enc)) [] \<and>
   tree_FindStrategyEnc toy_enc (newFibStrategyTableTree toy_enc) [] = lpm (tree_strat (newFibStrategyTableTree toy_enc)) []"
  using tree_lookup_lpm[OF newFibStrategyTableTree_inv[OF toy_enc_laws]] by blast

text \<open>C10. Each update of the name-tree FIB changes the abstract table at exactly one name and keeps the tree
  well formed: inserting, removing and clearing nexthops change only the nexthops, setting and unsetting
  a strategy only the strategy, and pruning of emptied nodes is never visible.\<close>

theorem tree_updates:
  assumes "tree_inv E f"
  shows "tree_inv E (tree_InsertNextHopEnc E f n face cost) \<and>
      tree_nh (tree_InsertNextHopEnc E f n face cost) = (tree_nh f)(n := (tree_nh f n)(face \<mapsto> cost)) \<and>
      tree_strat (tree_InsertNextHopEnc E f n face cost) = tree_strat f \<and>
      tree_inv E (tree_RemoveNextHopEnc E f n face) \<and>
      tree_nh (tree_RemoveNextHopEnc E f n face) = (tree_nh f)(n := (tree_nh f n)(face := None)) \<and>
      tree_strat (tree_RemoveNextHopEnc E f n face) = tree_strat f \<and>
      tree_inv E (tree_ClearNextHopsEnc E f (Some n)) \<and>
      tree_nh (tree_ClearNextHopsEnc E f (Some n)) = (tree_nh f)(n := Map.empty) \<and>
      tree_strat (tree_ClearNextHopsEnc E f (Some n)) = tree_strat f \<and>
      tree_inv E (tree_SetStrategyEnc E f n x) \<and>
      tree_strat (tree_SetStrategyEnc E f n x) = (tree_strat f)(n := Some x) \<and>
      tree_nh (tree_SetStrategyEnc E f n x) = tree_nh f \<and>
      tree_inv E (tree_UnSetStrategyEnc E f n) \<and>
      tree_strat (tree_UnSetStrategyEnc E f n) = (tree_strat f)(n := None) \<and>
      tree_nh (tree_UnSetStrategyEnc E f n) = tree_nh f"
  using assms by (simp add: tree_insert_contract tree_remove_contract tree_clear_contract tree_set_contract tree_unset_contract)

theorem tree_updates_witness:
  "tree_nh (tree_InsertNextHopEnc toy_enc (newFibStrategyTableTree toy_enc) [\<lparr>Typ = 8, Val = [1]\<rparr>] 7 10) [\<lparr>Typ = 8, Val = [1]\<rparr>] 7 = Some 10"
  by (simp add: tree_updates[OF newFibStrategyTableTree_inv[OF toy_enc_laws]])

text \<open>\<open>pruneIfEmpty\<close> deletes the node it is called on when that node carries nothing and has no children,
  and no other node: an ancestor that the deletion leaves empty stays in the tree.\<close>

theorem pruneIfEmpty_only_self:
  "flat (fib_pruneIfEmpty f root) p =
     (if p = f \<and> f \<noteq> [] \<and> node_empty root f then None else flat root p)"
  by (simp add: flat_pruneIfEmpty)

text \<open>The listings of the name-tree FIB return exactly the entries that have nexthops, and exactly the
  entries that have a strategy, of all the entries in the tree.\<close>

theorem tree_listings:
  assumes "tree_inv E f"
  shows "set (tree_GetAllFIBEntries f) = {e \<in> ran (flat (fib_root f)). fse_nexthops e \<noteq> []} \<and>
    set (tree_GetAllForwardingStrategies f) = {e \<in> ran (flat (fib_root f)). fse_strategy e \<noteq> None}"
  using assms set_nt_nodes[of "fib_root f"]
  by (auto simp: tree_GetAllFIBEntries_def tree_GetAllForwardingStrategies_def set_nt_walk tree_inv_def)

theorem tree_listings_witness:
  "set (tree_GetAllForwardingStrategies (newFibStrategyTableTree toy_enc)) =
     {e \<in> ran (flat (fib_root (newFibStrategyTableTree toy_enc))). fse_strategy e \<noteq> None}"
  using tree_listings[OF newFibStrategyTableTree_inv[OF toy_enc_laws]] by blast

end
