(* ===== verification/Fib_Hash.thy ===== *)
theory Fib_Hash
  imports Fib_Spec
begin

text \<open>
  The hash-table FIB of \<^verbatim>\<open>src/table/fib-strategy-hashtable.go\<close>. \<open>realTable\<close> maps the hash of a name
  to its entry; \<open>virtTable\<close> maps the hash of a name of length \<open>m\<close> (a virtual node) to the greatest
  length of the real names below it, and \<open>virtTableNames\<close> to the set of those names. An entry is only
  reachable through \<open>realTable\<close>, so a pointer to an entry is its key.
\<close>

section \<open>Data and operations\<close>

definition go_Min :: "'a::linorder \<Rightarrow> 'a \<Rightarrow> 'a" where
  "go_Min a b = (if a < b then a else b)"

definition go_Max :: "'a::linorder \<Rightarrow> 'a \<Rightarrow> 'a" where
  "go_Max a b = (if a > b then a else b)"

lemma go_Min_Max [simp]: "go_Min = min" "go_Max = max"
  by (auto simp: fun_eq_iff go_Min_def go_Max_def min_def max_def)

record FibStrategyHashTable =
  ht_m :: nat
  realTable :: "(u64 \<times> baseFibStrategyEntry) list"
  virtTable :: "u64 \<rightharpoonup> nat"
  virtTableNames :: "u64 \<rightharpoonup> (bytes \<times> nat) list"

definition ht_entry :: "name \<Rightarrow> baseFibStrategyEntry" where
  "ht_entry n = \<lparr>fse_component = \<lparr>Typ = 0, Val = []\<rparr>, fse_name = Some n, fse_nexthops = [], fse_strategy = None\<rparr>"

definition newFibStrategyTableHashTable :: "enc_api \<Rightarrow> u16 \<Rightarrow> FibStrategyHashTable" where
  "newFibStrategyTableHashTable E m =
     (let rootName = nil_to_empty (NameFromStr E ''/'');
          defaultStrategy = NameFromStr E ''/localhost/nfd/strategy/best-route/v=1''
      in \<lparr>ht_m = unat m,
          realTable = [(name_Hash E rootName, (ht_entry rootName)\<lparr>fse_strategy := defaultStrategy\<rparr>)],
          virtTable = Map.empty, virtTableNames = Map.empty\<rparr>)"

text \<open>The counting-down loops over the prefix lengths: \<open>n \<ge> pfx \<ge> 0\<close>, and \<open>n \<ge> pfx > m\<close>.\<close>

primrec ht_scan :: "(u64 \<times> baseFibStrategyEntry) list \<Rightarrow> u64 list \<Rightarrow> nat \<Rightarrow> baseFibStrategyEntry option" where
  "ht_scan real ph 0 = map_of real (ph ! 0)"
| "ht_scan real ph (Suc n) =
     (case map_of real (ph ! Suc n) of Some val \<Rightarrow> Some val | None \<Rightarrow> ht_scan real ph n)"

primrec ht_scan_above :: "nat \<Rightarrow> (u64 \<times> baseFibStrategyEntry) list \<Rightarrow> u64 list \<Rightarrow> nat \<Rightarrow> baseFibStrategyEntry option" where
  "ht_scan_above m real ph 0 = None"
| "ht_scan_above m real ph (Suc n) =
     (if Suc n > m
      then (case map_of real (ph ! Suc n) of Some val \<Rightarrow> Some val | None \<Rightarrow> ht_scan_above m real ph n)
      else None)"

definition ht_findLongestPrefixMatchEnc :: "enc_api \<Rightarrow> FibStrategyHashTable \<Rightarrow> name \<Rightarrow> baseFibStrategyEntry option" where
  "ht_findLongestPrefixMatchEnc E f name =
     (let ph = name_PrefixHash E name; m = ht_m f; real = realTable f
      in if length name \<le> m then ht_scan real ph (length name)
         else (case (case virtTable f (ph ! m) of
                       Some md \<Rightarrow> ht_scan_above m real ph (go_Min md (length name))
                     | None \<Rightarrow> None)
               of Some val \<Rightarrow> Some val | None \<Rightarrow> ht_scan real ph m))"

definition ht_add_virtual :: "u64 \<Rightarrow> bytes \<Rightarrow> nat \<Rightarrow> FibStrategyHashTable \<Rightarrow> FibStrategyHashTable" where
  "ht_add_virtual h nameBytes len f =
     (let virt1 = (case virtTable f h of None \<Rightarrow> (virtTable f)(h \<mapsto> len) | Some _ \<Rightarrow> virtTable f);
          names1 = (case virtTableNames f h of None \<Rightarrow> (virtTableNames f)(h \<mapsto> []) | Some _ \<Rightarrow> virtTableNames f)
      in f\<lparr>virtTable := virt1(h \<mapsto> go_Max (the (virt1 h)) len),
           virtTableNames := names1(h \<mapsto> AList.update nameBytes len (the (names1 h)))\<rparr>)"

definition ht_insertEntryEnc :: "enc_api \<Rightarrow> FibStrategyHashTable \<Rightarrow> name \<Rightarrow> FibStrategyHashTable \<times> u64" where
  "ht_insertEntryEnc E f name =
     (let ph = name_PrefixHash E name;
          nameHash = ph ! length name;
          nameBytes = name_Bytes E name;
          f1 = (if map_of (realTable f) nameHash = None
                then f\<lparr>realTable := AList.update nameHash (ht_entry name) (realTable f)\<rparr> else f);
          f2 = (if length name = ht_m f then ht_add_virtual nameHash nameBytes (length name) f1
                else if length name > ht_m f then ht_add_virtual (ph ! ht_m f) nameBytes (length name) f1
                else f1)
      in (f2, nameHash))"

definition ht_pruneTables :: "enc_api \<Rightarrow> FibStrategyHashTable \<Rightarrow> baseFibStrategyEntry \<Rightarrow> FibStrategyHashTable" where
  "ht_pruneTables E f entry =
     (let name = nil_to_empty (fse_name entry);
          ph = name_PrefixHash E name;
          nameBytes = name_Bytes E name
      in if \<not> (fse_nexthops entry = [] \<and> fse_strategy entry = None) then f
         else
           let f1 = f\<lparr>realTable := AList.delete (ph ! length name) (realTable f)\<rparr>
           in if length name < ht_m f then f1
              else
                let h = ph ! ht_m f;
                    virtEntry = virtTable f1 h;
                    namesEntry = virtTableNames f1 h;
                    namePresent = (case namesEntry of None \<Rightarrow> False | Some es \<Rightarrow> map_of es nameBytes \<noteq> None);
                    f2 = (if virtEntry \<noteq> None \<and> namePresent
                          then let es = AList.delete nameBytes (the namesEntry)
                               in f1\<lparr>virtTableNames := (virtTableNames f1)(h := if es = [] then None else Some es)\<rparr>
                          else f1)
                in (case virtEntry of
                      None \<Rightarrow> f2
                    | Some md \<Rightarrow>
                        if length name = md
                        then (case virtTableNames f2 h of
                                None \<Rightarrow> f2\<lparr>virtTable := (virtTable f2)(h := None)\<rparr>
                              | Some es \<Rightarrow> f2\<lparr>virtTable := (virtTable f2)(h \<mapsto> fold (\<lambda>(b, l) d. go_Max d l) es md)\<rparr>)
                        else f2))"

text \<open>
  The lookups go down from the length of the matched entry's name; an entry name longer than the
  looked-up name (possible only when hashes collide) indexes out of range.
\<close>

primrec ht_back :: "(baseFibStrategyEntry \<Rightarrow> bool) \<Rightarrow> (u64 \<times> baseFibStrategyEntry) list \<Rightarrow> u64 list \<Rightarrow> nat \<Rightarrow> baseFibStrategyEntry option" where
  "ht_back ok real ph 0 = (case map_of real (ph ! 0) of Some v \<Rightarrow> if ok v then Some v else None | None \<Rightarrow> None)"
| "ht_back ok real ph (Suc n) =
     (case map_of real (ph ! Suc n) of
        Some v \<Rightarrow> if ok v then Some v else ht_back ok real ph n
      | None \<Rightarrow> ht_back ok real ph n)"

definition ht_find_back :: "(baseFibStrategyEntry \<Rightarrow> bool) \<Rightarrow> enc_api \<Rightarrow> FibStrategyHashTable \<Rightarrow> name \<Rightarrow> baseFibStrategyEntry option result" where
  "ht_find_back ok E f name =
     (case ht_findLongestPrefixMatchEnc E f name of
        None \<Rightarrow> Inr None
      | Some entry \<Rightarrow>
          if length (nil_to_empty (fse_name entry)) > length name then Inl IndexOutOfRange
          else Inr (ht_back ok (realTable f) (name_PrefixHash E name) (length (nil_to_empty (fse_name entry)))))"

definition ht_FindNextHopsEnc :: "enc_api \<Rightarrow> FibStrategyHashTable \<Rightarrow> name \<Rightarrow> FibNextHopEntry list result" where
  "ht_FindNextHopsEnc E f name =
     map_sum id (\<lambda>oe. case oe of None \<Rightarrow> [] | Some e \<Rightarrow> fse_nexthops e)
       (ht_find_back (\<lambda>e. fse_nexthops e \<noteq> []) E f name)"

definition ht_FindStrategyEnc :: "enc_api \<Rightarrow> FibStrategyHashTable \<Rightarrow> name \<Rightarrow> name option result" where
  "ht_FindStrategyEnc E f name =
     map_sum id (\<lambda>oe. case oe of None \<Rightarrow> None | Some e \<Rightarrow> fse_strategy e)
       (ht_find_back (\<lambda>e. fse_strategy e \<noteq> None) E f name)"

definition ht_set_entry :: "u64 \<Rightarrow> baseFibStrategyEntry \<Rightarrow> FibStrategyHashTable \<Rightarrow> FibStrategyHashTable" where
  "ht_set_entry h e f = f\<lparr>realTable := AList.update h e (realTable f)\<rparr>"

definition ht_InsertNextHopEnc :: "enc_api \<Rightarrow> FibStrategyHashTable \<Rightarrow> name \<Rightarrow> u64 \<Rightarrow> u64 \<Rightarrow> FibStrategyHashTable" where
  "ht_InsertNextHopEnc E f name nexthop cost =
     (let (f1, h) = ht_insertEntryEnc E f name;
          e = the (map_of (realTable f1) h)
      in ht_set_entry h (e\<lparr>fse_nexthops := upsert_nexthop nexthop cost (fse_nexthops e)\<rparr>) f1)"

definition ht_ClearNextHopsEnc :: "enc_api \<Rightarrow> FibStrategyHashTable \<Rightarrow> name option \<Rightarrow> FibStrategyHashTable" where
  "ht_ClearNextHopsEnc E f oname =
     (let h = name_Hash E (nil_to_empty oname)
      in case map_of (realTable f) h of
           None \<Rightarrow> f
         | Some entry \<Rightarrow> let e = entry\<lparr>fse_nexthops := []\<rparr> in ht_pruneTables E (ht_set_entry h e f) e)"

definition ht_RemoveNextHopEnc :: "enc_api \<Rightarrow> FibStrategyHashTable \<Rightarrow> name \<Rightarrow> u64 \<Rightarrow> FibStrategyHashTable" where
  "ht_RemoveNextHopEnc E f name nexthop =
     (let h = name_Hash E name
      in case map_of (realTable f) h of
           None \<Rightarrow> f
         | Some entry \<Rightarrow>
             (case find_index (\<lambda>nh. Nexthop nh = nexthop) (fse_nexthops entry) of
                None \<Rightarrow> f
              | Some i \<Rightarrow>
                  let e = entry\<lparr>fse_nexthops := del_swap i (fse_nexthops entry)\<rparr>
                  in ht_pruneTables E (ht_set_entry h e f) e))"

definition ht_GetAllFIBEntries :: "FibStrategyHashTable \<Rightarrow> baseFibStrategyEntry list" where
  "ht_GetAllFIBEntries f = filter (\<lambda>v. fse_nexthops v \<noteq> []) (map snd (realTable f))"

definition ht_SetStrategyEnc :: "enc_api \<Rightarrow> FibStrategyHashTable \<Rightarrow> name \<Rightarrow> name \<Rightarrow> FibStrategyHashTable" where
  "ht_SetStrategyEnc E f name strategy =
     (let (f1, h) = ht_insertEntryEnc E f name;
          e = the (map_of (realTable f1) h)
      in ht_set_entry h (e\<lparr>fse_strategy := Some strategy\<rparr>) f1)"

definition ht_UnSetStrategyEnc :: "enc_api \<Rightarrow> FibStrategyHashTable \<Rightarrow> name \<Rightarrow> FibStrategyHashTable" where
  "ht_UnSetStrategyEnc E f name =
     (let h = name_Hash E name
      in case map_of (realTable f) h of
           None \<Rightarrow> f
         | Some entry \<Rightarrow> let e = entry\<lparr>fse_strategy := None\<rparr> in ht_pruneTables E (ht_set_entry h e f) e)"

definition ht_GetAllForwardingStrategies :: "FibStrategyHashTable \<Rightarrow> baseFibStrategyEntry list" where
  "ht_GetAllForwardingStrategies f = filter (\<lambda>v. fse_strategy v \<noteq> None) (map snd (realTable f))"

definition ht_ops :: "enc_api \<Rightarrow> FibStrategyHashTable FibStrategy" where
  "ht_ops E =
     \<lparr>FindNextHopsEnc = ht_FindNextHopsEnc E,
      FindStrategyEnc = ht_FindStrategyEnc E,
      InsertNextHopEnc = ht_InsertNextHopEnc E,
      ClearNextHopsEnc = ht_ClearNextHopsEnc E,
      RemoveNextHopEnc = ht_RemoveNextHopEnc E,
      GetAllFIBEntries = ht_GetAllFIBEntries,
      SetStrategyEnc = ht_SetStrategyEnc E,
      UnSetStrategyEnc = ht_UnSetStrategyEnc E,
      GetAllForwardingStrategies = ht_GetAllForwardingStrategies\<rparr>"

section \<open>Invariant\<close>

text \<open>
  \<open>collision_free E S\<close>: on the names of \<open>S\<close> (closed under prefixes), hashes and encodings do not
  collide. This is what the table relies on; it cannot hold for all names, since there are more names
  than hashes. \<open>virt_ok\<close> is the link between the real and the virtual table: the recorded depth of a
  virtual node is at least the length of every real name below it.
\<close>

definition collision_free :: "enc_api \<Rightarrow> name set \<Rightarrow> bool" where
  "collision_free E S =
     (inj_on (name_Hash E) S \<and> inj_on (name_Bytes E) S \<and> [] \<in> S \<and> (\<forall>n\<in>S. \<forall>k. take k n \<in> S))"

definition real_ok :: "enc_api \<Rightarrow> name set \<Rightarrow> FibStrategyHashTable \<Rightarrow> bool" where
  "real_ok E S f =
     (distinct (map fst (realTable f)) \<and>
      (\<forall>h e. map_of (realTable f) h = Some e \<longrightarrow>
        (\<exists>n\<in>S. fse_name e = Some n \<and> h = name_Hash E n) \<and> nh_distinct (fse_nexthops e)))"

definition virt_ok :: "enc_api \<Rightarrow> name set \<Rightarrow> FibStrategyHashTable \<Rightarrow> bool" where
  "virt_ok E S f =
     (\<forall>n\<in>S. ht_m f < length n \<longrightarrow> map_of (realTable f) (name_Hash E n) \<noteq> None \<longrightarrow>
        (\<exists>md es. virtTable f (name_Hash E (take (ht_m f) n)) = Some md \<and> length n \<le> md \<and>
           virtTableNames f (name_Hash E (take (ht_m f) n)) = Some es \<and> map_of es (name_Bytes E n) \<noteq> None))"

definition ht_inv :: "enc_api \<Rightarrow> name set \<Rightarrow> FibStrategyHashTable \<Rightarrow> bool" where
  "ht_inv E S f = (enc_laws E \<and> collision_free E S \<and> real_ok E S f \<and> virt_ok E S f)"

definition ht_at :: "enc_api \<Rightarrow> name set \<Rightarrow> FibStrategyHashTable \<Rightarrow> name \<Rightarrow> baseFibStrategyEntry option" where
  "ht_at E S f n = (if n \<in> S then map_of (realTable f) (name_Hash E n) else None)"

definition ht_nh :: "enc_api \<Rightarrow> name set \<Rightarrow> FibStrategyHashTable \<Rightarrow> name \<Rightarrow> u64 \<rightharpoonup> u64" where
  "ht_nh E S f n = (case ht_at E S f n of None \<Rightarrow> Map.empty | Some e \<Rightarrow> nh_map (fse_nexthops e))"

definition ht_strat :: "enc_api \<Rightarrow> name set \<Rightarrow> FibStrategyHashTable \<Rightarrow> name \<Rightarrow> name option" where
  "ht_strat E S f n = (case ht_at E S f n of None \<Rightarrow> None | Some e \<Rightarrow> fse_strategy e)"

lemma hash_eq_iff: "collision_free E S \<Longrightarrow> n \<in> S \<Longrightarrow> n' \<in> S \<Longrightarrow> name_Hash E n = name_Hash E n' \<longleftrightarrow> n = n'"
  by (auto simp: collision_free_def dest: inj_onD)

lemma bytes_eq_iff: "collision_free E S \<Longrightarrow> n \<in> S \<Longrightarrow> n' \<in> S \<Longrightarrow> name_Bytes E n = name_Bytes E n' \<longleftrightarrow> n = n'"
  by (auto simp: collision_free_def dest: inj_onD)

lemma take_in_S: "collision_free E S \<Longrightarrow> n \<in> S \<Longrightarrow> take k n \<in> S"
  by (simp add: collision_free_def)

lemma real_okD:
  assumes "real_ok E S f" "collision_free E S" "n \<in> S" "map_of (realTable f) (name_Hash E n) = Some e"
  shows "fse_name e = Some n" "nh_distinct (fse_nexthops e)"
  using assms hash_eq_iff[OF assms(2)] unfolding real_ok_def by metis+

lemma ht_at_upd:
  assumes "collision_free E S" "n \<in> S" "map_of (realTable f') = (map_of (realTable f))(name_Hash E n := x)"
  shows "ht_at E S f' = (ht_at E S f)(n := x)"
  using assms hash_eq_iff[OF assms(1)] by (auto simp: ht_at_def fun_eq_iff)

section \<open>Steps of the updates\<close>

lemma ht_insertEntry_step:
  assumes inv: "ht_inv E S f" and n: "n \<in> S" and eq: "ht_insertEntryEnc E f n = (f', h)"
  shows "h = name_Hash E n" "ht_inv E S f'"
    "ht_at E S f' = (case ht_at E S f n of None \<Rightarrow> (ht_at E S f)(n \<mapsto> ht_entry n) | Some _ \<Rightarrow> ht_at E S f)"
proof -
  have E: "enc_laws E" "collision_free E S" and R: "real_ok E S f" and V: "virt_ok E S f"
    using inv by (auto simp: ht_inv_def)
  let ?h = "name_Hash E n" and ?v = "name_Hash E (take (ht_m f) n)"
  have h: "h = ?h" using eq E by (auto simp: ht_insertEntryEnc_def Let_def)
  have m: "ht_m f' = ht_m f" "map_of (realTable f') = (case map_of (realTable f) ?h of None \<Rightarrow> (map_of (realTable f))(?h \<mapsto> ht_entry n) | Some _ \<Rightarrow> map_of (realTable f))"
    "distinct (map fst (realTable f'))"
    using eq E R by (auto simp: ht_insertEntryEnc_def Let_def ht_add_virtual_def update_conv' distinct_update real_ok_def split: if_splits option.splits)
  show "h = name_Hash E n" by (rule h)
  show at: "ht_at E S f' = (case ht_at E S f n of None \<Rightarrow> (ht_at E S f)(n \<mapsto> ht_entry n) | Some _ \<Rightarrow> ht_at E S f)"
    using m(2) n ht_at_upd[OF E(2) n, of f' f "Some (ht_entry n)"]
    by (cases "map_of (realTable f) ?h") (auto simp: ht_at_def fun_eq_iff)
  have R': "real_ok E S f'"
    using R m(2,3) n by (auto simp: real_ok_def ht_entry_def split: option.splits if_splits)
  have vt: "virtTable f' = (if ht_m f \<le> length n then (virtTable f)(?v \<mapsto> (case virtTable f ?v of None \<Rightarrow> length n | Some md \<Rightarrow> max md (length n))) else virtTable f)"
    "virtTableNames f' = (if ht_m f \<le> length n then (virtTableNames f)(?v \<mapsto> AList.update (name_Bytes E n) (length n) (case virtTableNames f ?v of None \<Rightarrow> [] | Some es \<Rightarrow> es)) else virtTableNames f)"
    using eq E by (auto simp: ht_insertEntryEnc_def Let_def ht_add_virtual_def split: if_splits option.splits)
  have "\<exists>md es. virtTable f' (name_Hash E (take (ht_m f) n')) = Some md \<and> length n' \<le> md \<and>
      virtTableNames f' (name_Hash E (take (ht_m f) n')) = Some es \<and> map_of es (name_Bytes E n') \<noteq> None"
    if n': "n' \<in> S" "ht_m f < length n'" "map_of (realTable f') (name_Hash E n') \<noteq> None" for n'
  proof (cases "n' = n")
    case True
    then show ?thesis using n' by (auto simp: vt update_conv' split: option.split)
  next
    case False
    then have "map_of (realTable f) (name_Hash E n') \<noteq> None"
      using n' m(2) hash_eq_iff[OF E(2) n' (1) n] by (auto split: option.splits if_splits)
    then obtain md es where "virtTable f (name_Hash E (take (ht_m f) n')) = Some md" "length n' \<le> md"
      "virtTableNames f (name_Hash E (take (ht_m f) n')) = Some es" "map_of es (name_Bytes E n') \<noteq> None"
      using V n' unfolding virt_ok_def by blast
    then show ?thesis by (auto simp: vt update_conv')
  qed
  then show "ht_inv E S f'" using E R' m(1) by (simp add: ht_inv_def virt_ok_def)
qed

lemma ht_set_entry_step:
  assumes inv: "ht_inv E S f" and n: "n \<in> S" and e: "ht_at E S f n \<noteq> None" "fse_name e = Some n" "nh_distinct (fse_nexthops e)"
  shows "ht_inv E S (ht_set_entry (name_Hash E n) e f)"
    "ht_at E S (ht_set_entry (name_Hash E n) e f) = (ht_at E S f)(n \<mapsto> e)"
proof -
  have E: "enc_laws E" "collision_free E S" and R: "real_ok E S f" and V: "virt_ok E S f"
    using inv by (auto simp: ht_inv_def)
  have "map_of (realTable f) (name_Hash E n) \<noteq> None" using e(1) n by (simp add: ht_at_def)
  with V have "virt_ok E S (ht_set_entry (name_Hash E n) e f)"
    by (auto simp: virt_ok_def ht_set_entry_def update_conv' split: if_splits)
  moreover have "real_ok E S (ht_set_entry (name_Hash E n) e f)"
    using R n e by (auto simp: real_ok_def ht_set_entry_def update_conv' distinct_update split: if_splits)
  ultimately show "ht_inv E S (ht_set_entry (name_Hash E n) e f)" using E by (simp add: ht_inv_def)
  show "ht_at E S (ht_set_entry (name_Hash E n) e f) = (ht_at E S f)(n \<mapsto> e)"
    by (rule ht_at_upd[OF E(2) n]) (simp add: ht_set_entry_def update_conv')
qed

lemma fold_max_ge: "md \<le> fold (\<lambda>(b, l) d. max d l) es (md::nat)"
proof (induction es arbitrary: md)
  case (Cons x es)
  have "md \<le> max md (snd x)" by simp
  also have "\<dots> \<le> fold (\<lambda>(b, l) d. max d l) es (max md (snd x))" by (rule Cons)
  finally show ?case by (simp add: case_prod_unfold)
qed simp

text \<open>
  Deleting a real name keeps every other name below the same virtual node covered: the depth of the
  virtual node never decreases, and the node is only deleted with its last name.
\<close>

lemma ht_pruneTables_step:
  assumes inv: "ht_inv E S f" and n: "n \<in> S" and e: "ht_at E S f n = Some e"
  shows "ht_inv E S (ht_pruneTables E f e)"
    "ht_at E S (ht_pruneTables E f e) =
       (if fse_nexthops e = [] \<and> fse_strategy e = None then (ht_at E S f)(n := None) else ht_at E S f)"
proof -
  have E: "enc_laws E" "collision_free E S" and R: "real_ok E S f" and V: "virt_ok E S f"
    using inv by (auto simp: ht_inv_def)
  let ?f = "ht_pruneTables E f e" and ?v = "name_Hash E (take (ht_m f) n)"
  have nm: "nil_to_empty (fse_name e) = n"
    using real_okD[OF R E(2) n] e n by (simp add: ht_at_def nil_to_empty_def)
  have "ht_inv E S ?f \<and> ht_at E S ?f =
       (if fse_nexthops e = [] \<and> fse_strategy e = None then (ht_at E S f)(n := None) else ht_at E S f)"
  proof (cases "fse_nexthops e = [] \<and> fse_strategy e = None")
    case False
    then have "?f = f" by (auto simp: ht_pruneTables_def Let_def)
    with False inv show ?thesis by auto
  next
    case True
    have m: "ht_m ?f = ht_m f" "realTable ?f = AList.delete (name_Hash E n) (realTable f)"
      using True E(1) by (simp_all add: ht_pruneTables_def Let_def nm split: option.split)
    have real': "map_of (realTable ?f) = (map_of (realTable f))(name_Hash E n := None)"
      by (simp add: m(2) delete_conv')
    have at: "ht_at E S ?f = (ht_at E S f)(n := None)" by (rule ht_at_upd[OF E(2) n real'])
    have "real_ok E S ?f" using R real' by (auto simp: real_ok_def m(2) distinct_delete split: if_splits)
    moreover have "\<exists>md es. virtTable ?f (name_Hash E (take (ht_m f) n')) = Some md \<and> length n' \<le> md \<and>
        virtTableNames ?f (name_Hash E (take (ht_m f) n')) = Some es \<and> map_of es (name_Bytes E n') \<noteq> None"
      if n': "n' \<in> S" "ht_m f < length n'" "map_of (realTable ?f) (name_Hash E n') \<noteq> None" for n'
    proof -
      let ?w = "name_Hash E (take (ht_m f) n')"
      have ne: "n' \<noteq> n" using n'(3) real' by auto
      obtain md es where w: "virtTable f ?w = Some md" "length n' \<le> md" "virtTableNames f ?w = Some es" "map_of es (name_Bytes E n') \<noteq> None"
        using V n' real' unfolding virt_ok_def by (metis fun_upd_apply)
      show ?thesis
      proof (cases "ht_m f \<le> length n \<and> ?v = ?w")
        case False
        then have "virtTable ?f ?w = virtTable f ?w" "virtTableNames ?f ?w = virtTableNames f ?w"
          using True E(1) by (auto simp: ht_pruneTables_def Let_def nm split: option.split)
        with w show ?thesis by simp
      next
        case same: True
        let ?es = "AList.delete (name_Bytes E n) es"
        have d: "map_of ?es (name_Bytes E n') \<noteq> None"
          using w(4) ne bytes_eq_iff[OF E(2) n'(1) n] by (simp add: delete_conv')
        then have "?es \<noteq> []" by auto
        then have "virtTableNames ?f ?w = Some ?es \<or> virtTableNames ?f ?w = Some es" "\<exists>md'. virtTable ?f ?w = Some md' \<and> md \<le> md'"
          using True E(1) same w(1,3) fold_max_ge[of md] by (auto simp: ht_pruneTables_def Let_def nm split: option.split)
        with w d show ?thesis by fastforce
      qed
    qed
    ultimately have "ht_inv E S ?f" using E m(1) by (simp add: ht_inv_def virt_ok_def)
    with at True show ?thesis by simp
  qed
  then show "ht_inv E S ?f" "ht_at E S ?f =
       (if fse_nexthops e = [] \<and> fse_strategy e = None then (ht_at E S f)(n := None) else ht_at E S f)" by simp_all
qed

section \<open>The lookups\<close>

lemma ht_at_take:
  "collision_free E S \<Longrightarrow> n \<in> S \<Longrightarrow> ht_at E S f (take k n) = map_of (realTable f) (name_Hash E (take k n))"
  by (simp add: ht_at_def take_in_S)

lemma ht_at_Nil: "collision_free E S \<Longrightarrow> ht_at E S f [] = map_of (realTable f) (name_Hash E [])"
  by (simp add: ht_at_def collision_free_def)

lemma ht_scan_lpm:
  assumes "enc_laws E" "collision_free E S" "n \<in> S" "k \<le> length n"
  shows "ht_scan (realTable f) (name_PrefixHash E n) k = lpm_upto (ht_at E S f) n k"
  using assms(4)
proof (induction k)
  case 0
  then show ?case using assms by (simp add: ht_at_Nil)
next
  case (Suc k)
  then show ?case using assms by (simp add: ht_at_take split: option.split)
qed

lemma ht_scan_above_lpm:
  assumes "enc_laws E" "collision_free E S" "n \<in> S" "k \<le> length n" "m \<le> length n"
  shows "(case ht_scan_above m (realTable f) (name_PrefixHash E n) k of Some v \<Rightarrow> Some v | None \<Rightarrow> lpm_upto (ht_at E S f) n m)
    = lpm_upto (ht_at E S f) n (max m k)"
  using assms(4)
proof (induction k)
  case (Suc k)
  then show ?case
    using assms
    by (cases "m < Suc k") (auto simp: ht_at_take max_def not_less le_Suc_eq split: option.splits)
qed simp

text \<open>No real name is longer than the depth recorded for its virtual node.\<close>

lemma ht_longest:
  assumes "ht_inv E S f" "n \<in> S"
  shows "ht_findLongestPrefixMatchEnc E f n = lpm (ht_at E S f) n"
proof (cases "length n \<le> ht_m f")
  case True
  then show ?thesis
    using assms ht_scan_lpm[of E S n "length n" f] by (simp add: ht_findLongestPrefixMatchEnc_def Let_def lpm_def ht_inv_def)
next
  case False
  have E: "enc_laws E" "collision_free E S" and V: "virt_ok E S f" using assms by (auto simp: ht_inv_def)
  let ?m = "ht_m f" and ?h = "name_Hash E (take (ht_m f) n)"
  let ?top = "case virtTable f ?h of None \<Rightarrow> ?m | Some md \<Rightarrow> max ?m (min md (length n))"
  have none: "ht_at E S f (take i n) = None" if "?top < i" "i \<le> length n" for i
  proof (rule ccontr)
    assume a: "ht_at E S f (take i n) \<noteq> None"
    have "?m < i" "take i n \<in> S" using that take_in_S[OF E(2) assms(2)] by (auto split: option.splits)
    with a V that obtain md where "virtTable f (name_Hash E (take ?m (take i n))) = Some md" "i \<le> md"
      unfolding virt_ok_def ht_at_def by fastforce
    then show False using that \<open>?m < i\<close> by (auto simp: min_def split: if_splits)
  qed
  have "ht_findLongestPrefixMatchEnc E f n = lpm_upto (ht_at E S f) n ?top"
  proof (cases "virtTable f ?h")
    case None
    with False E assms(2) ht_scan_lpm[OF E assms(2), of ?m f] show ?thesis
      by (simp add: ht_findLongestPrefixMatchEnc_def Let_def)
  next
    case (Some md)
    with False E assms(2) ht_scan_above_lpm[OF E assms(2), of "min md (length n)" ?m f]
      ht_scan_lpm[OF E assms(2), of ?m f] show ?thesis
      by (simp add: ht_findLongestPrefixMatchEnc_def Let_def cong: option.case_cong)
  qed
  also have "\<dots> = lpm_upto (ht_at E S f) n (length n)"
    using False by (intro lpm_upto_skip[symmetric] none) (auto split: option.split)
  finally show ?thesis by (simp add: lpm_def)
qed

lemma ht_back_lpm:
  assumes "enc_laws E" "collision_free E S" "n \<in> S" "k \<le> length n"
  shows "ht_back ok (realTable f) (name_PrefixHash E n) k =
    lpm_upto (\<lambda>p. case ht_at E S f p of Some v \<Rightarrow> if ok v then Some v else None | None \<Rightarrow> None) n k"
  using assms(4)
proof (induction k)
  case 0
  then show ?case using assms by (simp add: ht_at_Nil)
next
  case (Suc k)
  then show ?case using assms by (simp add: ht_at_take split: option.split)
qed

lemma ht_find_back_lpm:
  assumes "ht_inv E S f" "n \<in> S"
  shows "ht_find_back ok E f n =
    Inr (lpm (\<lambda>p. case ht_at E S f p of Some v \<Rightarrow> if ok v then Some v else None | None \<Rightarrow> None) n)"
proof -
  have E: "enc_laws E" "collision_free E S" "real_ok E S f" using assms by (auto simp: ht_inv_def)
  let ?g = "\<lambda>p. case ht_at E S f p of Some v \<Rightarrow> if ok v then Some v else None | None \<Rightarrow> None"
  show ?thesis
  proof (cases "lpm (ht_at E S f) n")
    case None
    then have "lpm ?g n = None" unfolding lpm_None by auto
    with None show ?thesis by (simp add: ht_find_back_def ht_longest[OF assms])
  next
    case (Some e)
    then obtain i where i: "i \<le> length n" "ht_at E S f (take i n) = Some e" "\<And>j. i < j \<Longrightarrow> j \<le> length n \<Longrightarrow> ht_at E S f (take j n) = None"
      unfolding lpm_def lpm_upto_Some[OF order_refl] by blast
    have "fse_name e = Some (take i n)"
      using i(2) real_okD(1)[OF E(3,2), of "take i n"] by (simp add: ht_at_def split: if_splits)
    then have "ht_find_back ok E f n = Inr (lpm_upto ?g n i)"
      using Some i(1) ht_back_lpm[OF E(1,2) assms(2), of i ok f]
      by (simp add: ht_find_back_def ht_longest[OF assms] nil_to_empty_def min_absorb2)
    also have "lpm_upto ?g n i = lpm ?g n"
      unfolding lpm_def using i by (intro lpm_upto_skip[symmetric]) auto
    finally show ?thesis .
  qed
qed

section \<open>The table meets its contract\<close>

lemma ht_nh_upd: "ht_at E S f' = (ht_at E S f)(n := x) \<Longrightarrow>
    ht_nh E S f' = (ht_nh E S f)(n := (case x of None \<Rightarrow> Map.empty | Some e \<Rightarrow> nh_map (fse_nexthops e))) \<and>
    ht_strat E S f' = (ht_strat E S f)(n := (case x of None \<Rightarrow> None | Some e \<Rightarrow> fse_strategy e))"
  by (auto simp: ht_nh_def ht_strat_def fun_eq_iff)

text \<open>Insert-then-assign, the shape of \<open>InsertNextHopEnc\<close> and \<open>SetStrategyEnc\<close>.\<close>

lemma ht_insert_set:
  assumes inv: "ht_inv E S f" and n: "n \<in> S" and eq: "ht_insertEntryEnc E f n = (f1, h)"
    and e: "e = the (map_of (realTable f1) h)" and g: "\<And>e. fse_name (g e) = fse_name e" "\<And>e. nh_distinct (fse_nexthops e) \<Longrightarrow> nh_distinct (fse_nexthops (g e))"
  shows "ht_inv E S (ht_set_entry h (g e) f1)"
    "ht_nh E S (ht_set_entry h (g e) f1) = (ht_nh E S f)(n := nh_map (fse_nexthops (g e)))"
    "ht_strat E S (ht_set_entry h (g e) f1) = (ht_strat E S f)(n := fse_strategy (g e))"
    "ht_nh E S f n = nh_map (fse_nexthops e)" "ht_strat E S f n = fse_strategy e"
proof -
  note st = ht_insertEntry_step[OF inv n eq]
  have E: "collision_free E S" and R: "real_ok E S f1" using st(2) by (auto simp: ht_inv_def)
  have "ht_at E S f1 n \<noteq> None" using st(3) by (cases "ht_at E S f n") auto
  then have at: "ht_at E S f1 n = Some e" using n e st(1) by (auto simp: ht_at_def)
  then have "map_of (realTable f1) (name_Hash E n) = Some e" using n by (simp add: ht_at_def)
  note ok = real_okD[OF R E n this]
  note up = ht_set_entry_step[OF st(2) n, of "g e"]
  show "ht_inv E S (ht_set_entry h (g e) f1)" using up(1) at ok g st(1) by simp
  have "ht_at E S (ht_set_entry h (g e) f1) = (ht_at E S f)(n \<mapsto> g e)"
    using up(2) at ok g st(1,3) by (auto split: option.splits)
  from ht_nh_upd[OF this]
  show "ht_nh E S (ht_set_entry h (g e) f1) = (ht_nh E S f)(n := nh_map (fse_nexthops (g e)))"
    "ht_strat E S (ht_set_entry h (g e) f1) = (ht_strat E S f)(n := fse_strategy (g e))" by simp_all
  show "ht_nh E S f n = nh_map (fse_nexthops e)" "ht_strat E S f n = fse_strategy e"
    using st(3) at by (auto simp: ht_nh_def ht_strat_def ht_entry_def split: option.splits)
qed

text \<open>Assign-then-prune, the shape of the deletions.\<close>

lemma ht_set_prune:
  assumes inv: "ht_inv E S f" and n: "n \<in> S" and e: "map_of (realTable f) (name_Hash E n) = Some e"
    and g: "fse_name (g e) = fse_name e" "nh_distinct (fse_nexthops e) \<Longrightarrow> nh_distinct (fse_nexthops (g e))"
  shows "ht_inv E S (ht_pruneTables E (ht_set_entry (name_Hash E n) (g e) f) (g e))"
    "ht_nh E S (ht_pruneTables E (ht_set_entry (name_Hash E n) (g e) f) (g e)) = (ht_nh E S f)(n := nh_map (fse_nexthops (g e)))"
    "ht_strat E S (ht_pruneTables E (ht_set_entry (name_Hash E n) (g e) f) (g e)) = (ht_strat E S f)(n := fse_strategy (g e))"
    "ht_nh E S f n = nh_map (fse_nexthops e)" "ht_strat E S f n = fse_strategy e" "nh_distinct (fse_nexthops e)"
proof -
  let ?f1 = "ht_set_entry (name_Hash E n) (g e) f"
  have E: "collision_free E S" and R: "real_ok E S f" using inv by (auto simp: ht_inv_def)
  note ok = real_okD[OF R E n e]
  have at: "ht_at E S f n = Some e" using e n by (simp add: ht_at_def)
  note up = ht_set_entry_step[OF inv n, of "g e"]
  have 1: "ht_inv E S ?f1" "ht_at E S ?f1 = (ht_at E S f)(n \<mapsto> g e)" using up at ok g by auto
  note pr = ht_pruneTables_step[OF 1(1) n, of "g e"]
  show "ht_inv E S (ht_pruneTables E ?f1 (g e))" using pr 1 by simp
  have "ht_at E S (ht_pruneTables E ?f1 (g e)) = (ht_at E S f)(n :=
      (if fse_nexthops (g e) = [] \<and> fse_strategy (g e) = None then None else Some (g e)))"
    using pr 1 by (auto split: if_splits)
  from ht_nh_upd[OF this]
  show "ht_nh E S (ht_pruneTables E ?f1 (g e)) = (ht_nh E S f)(n := nh_map (fse_nexthops (g e)))"
    "ht_strat E S (ht_pruneTables E ?f1 (g e)) = (ht_strat E S f)(n := fse_strategy (g e))"
    by (auto split: if_splits)
  show "ht_nh E S f n = nh_map (fse_nexthops e)" "ht_strat E S f n = fse_strategy e" "nh_distinct (fse_nexthops e)"
    using at ok by (simp_all add: ht_nh_def ht_strat_def)
qed

lemma ht_insert_contract:
  assumes "ht_inv E S s" "n \<in> S"
  shows "ht_inv E S (ht_InsertNextHopEnc E s n f c) \<and>
    ht_nh E S (ht_InsertNextHopEnc E s n f c) = (ht_nh E S s)(n := (ht_nh E S s n)(f \<mapsto> c)) \<and>
    ht_strat E S (ht_InsertNextHopEnc E s n f c) = ht_strat E S s"
proof -
  let ?g = "\<lambda>e. e\<lparr>fse_nexthops := upsert_nexthop f c (fse_nexthops e)\<rparr>"
  obtain f1 h where eq: "ht_insertEntryEnc E s n = (f1, h)" by fastforce
  note ins = ht_insert_set[where g = ?g, OF assms eq refl]
  have "(ht_strat E S s)(n := ht_strat E S s n) = ht_strat E S s" by simp
  with ins show ?thesis by (simp add: ht_InsertNextHopEnc_def eq Let_def)
qed

lemma ht_set_contract:
  assumes "ht_inv E S s" "n \<in> S"
  shows "ht_inv E S (ht_SetStrategyEnc E s n x) \<and>
    ht_strat E S (ht_SetStrategyEnc E s n x) = (ht_strat E S s)(n := Some x) \<and>
    ht_nh E S (ht_SetStrategyEnc E s n x) = ht_nh E S s"
proof -
  let ?g = "\<lambda>e. e\<lparr>fse_strategy := Some x\<rparr>"
  obtain f1 h where eq: "ht_insertEntryEnc E s n = (f1, h)" by fastforce
  note ins = ht_insert_set[where g = ?g, OF assms eq refl]
  have "(ht_nh E S s)(n := ht_nh E S s n) = ht_nh E S s" by simp
  with ins show ?thesis by (simp add: ht_SetStrategyEnc_def eq Let_def)
qed

lemma ht_absent:
  "map_of (realTable s) (name_Hash E n) = None \<Longrightarrow> ht_nh E S s n = Map.empty \<and> ht_strat E S s n = None"
  by (simp add: ht_nh_def ht_strat_def ht_at_def)

lemma ht_clear_contract:
  assumes "ht_inv E S s" "n \<in> S"
  shows "ht_inv E S (ht_ClearNextHopsEnc E s (Some n)) \<and>
    ht_nh E S (ht_ClearNextHopsEnc E s (Some n)) = (ht_nh E S s)(n := Map.empty) \<and>
    ht_strat E S (ht_ClearNextHopsEnc E s (Some n)) = ht_strat E S s"
proof (cases "map_of (realTable s) (name_Hash E n)")
  case None
  then show ?thesis using assms ht_absent[OF None, of S] by (auto simp: ht_ClearNextHopsEnc_def nil_to_empty_def)
next
  case (Some e)
  note sp = ht_set_prune[where g = "\<lambda>e. e\<lparr>fse_nexthops := []\<rparr>", OF assms Some]
  have "(ht_strat E S s)(n := ht_strat E S s n) = ht_strat E S s" by simp
  with sp Some show ?thesis by (simp add: ht_ClearNextHopsEnc_def nil_to_empty_def Let_def)
qed

lemma ht_unset_contract:
  assumes "ht_inv E S s" "n \<in> S"
  shows "ht_inv E S (ht_UnSetStrategyEnc E s n) \<and>
    ht_strat E S (ht_UnSetStrategyEnc E s n) = (ht_strat E S s)(n := None) \<and>
    ht_nh E S (ht_UnSetStrategyEnc E s n) = ht_nh E S s"
proof (cases "map_of (realTable s) (name_Hash E n)")
  case None
  then show ?thesis using assms ht_absent[OF None, of S] by (auto simp: ht_UnSetStrategyEnc_def)
next
  case (Some e)
  note sp = ht_set_prune[where g = "\<lambda>e. e\<lparr>fse_strategy := None\<rparr>", OF assms Some]
  have "(ht_nh E S s)(n := ht_nh E S s n) = ht_nh E S s" by simp
  with sp Some show ?thesis by (simp add: ht_UnSetStrategyEnc_def Let_def)
qed

lemma ht_remove_contract:
  assumes "ht_inv E S s" "n \<in> S"
  shows "ht_inv E S (ht_RemoveNextHopEnc E s n f) \<and>
    ht_nh E S (ht_RemoveNextHopEnc E s n f) = (ht_nh E S s)(n := (ht_nh E S s n)(f := None)) \<and>
    ht_strat E S (ht_RemoveNextHopEnc E s n f) = ht_strat E S s"
proof (cases "map_of (realTable s) (name_Hash E n)")
  case None
  then show ?thesis using assms ht_absent[OF None, of S] by (auto simp: ht_RemoveNextHopEnc_def)
next
  case (Some e)
  show ?thesis
  proof (cases "find_index (\<lambda>nh. Nexthop nh = f) (fse_nexthops e)")
    case None
    then have "f \<notin> dom (ht_nh E S s n)"
      using Some assms(2) by (auto simp: ht_nh_def ht_at_def dom_nh_map find_index_None)
    then have "(ht_nh E S s n)(f := None) = ht_nh E S s n" by (auto simp: fun_upd_idem_iff)
    with None Some assms show ?thesis by (simp add: ht_RemoveNextHopEnc_def)
  next
    case i: (Some i)
    note I = find_index_SomeD[OF i]
    let ?g = "\<lambda>e. e\<lparr>fse_nexthops := del_swap i (fse_nexthops e)\<rparr>"
    have del: "nh_distinct (fse_nexthops e) \<Longrightarrow> nh_distinct (del_swap i (fse_nexthops e)) \<and>
        nh_map (del_swap i (fse_nexthops e)) = (nh_map (fse_nexthops e))(f := None)"
      using nh_map_cong_mset[OF _ mset_del_swap] I by metis
    note sp = ht_set_prune[where g = ?g, OF assms Some]
    have "(ht_strat E S s)(n := ht_strat E S s n) = ht_strat E S s" by simp
    with sp del Some i show ?thesis by (simp add: ht_RemoveNextHopEnc_def Let_def)
  qed
qed

lemma ht_find_contract:
  assumes "ht_inv E S s" "n \<in> S"
  shows "\<exists>l. ht_FindNextHopsEnc E s n = Inr l \<and> nh_distinct l \<and> nh_map l = lpm_nexthops (ht_nh E S s) n"
    and "ht_FindStrategyEnc E s n = Inr (lpm (ht_strat E S s) n)"
proof -
  let ?g = "\<lambda>ok p. case ht_at E S s p of Some v \<Rightarrow> if ok v then Some v else None | None \<Rightarrow> None"
  let ?hops = "?g (\<lambda>e. fse_nexthops e \<noteq> [])"
  have h: "nonempty_nh (ht_nh E S s) = (\<lambda>p. map_option (\<lambda>e. nh_map (fse_nexthops e)) (?hops p))"
    by (rule ext) (simp add: nonempty_nh_def ht_nh_def split: option.split)
  have "nh_distinct (fse_nexthops e)" if "lpm ?hops n = Some e" for e
    using that assms(1) by (auto simp: lpm_spec ht_at_def ht_inv_def real_ok_def split: option.splits if_splits)
  then show "\<exists>l. ht_FindNextHopsEnc E s n = Inr l \<and> nh_distinct l \<and> nh_map l = lpm_nexthops (ht_nh E S s) n"
    by (simp add: ht_FindNextHopsEnc_def ht_find_back_lpm[OF assms] lpm_nexthops_def h lpm_map_option split: option.split)
  have s: "ht_strat E S s = (\<lambda>p. Option.bind (?g (\<lambda>e. fse_strategy e \<noteq> None) p) fse_strategy)"
    by (rule ext) (simp add: ht_strat_def del: not_None_eq split: option.split)
  have "lpm_upto (ht_strat E S s) n k = Option.bind (lpm_upto (?g (\<lambda>e. fse_strategy e \<noteq> None)) n k) fse_strategy" for k
    by (induction k) (auto simp: ht_strat_def simp del: not_None_eq split: option.split)
  then show "ht_FindStrategyEnc E s n = Inr (lpm (ht_strat E S s) n)"
    by (simp add: ht_FindStrategyEnc_def ht_find_back_lpm[OF assms] lpm_def del: not_None_eq split: option.split)
qed

interpretation fh: fib_table "ht_ops E" "ht_inv E S" S "ht_nh E S" "ht_strat E S" for E S
  by unfold_locales
    (simp_all add: ht_ops_def ht_insert_contract ht_set_contract ht_remove_contract ht_clear_contract
      ht_unset_contract ht_find_contract)

section \<open>The empty table\<close>

lemma newFibStrategyTableHashTable_inv:
  assumes "enc_laws E" "collision_free E S" "NameFromStr E ''/'' = Some []"
  shows "ht_inv E S (newFibStrategyTableHashTable E m)"
  using assms
  by (auto simp: ht_inv_def real_ok_def virt_ok_def newFibStrategyTableHashTable_def nil_to_empty_def
      ht_entry_def collision_free_def dest: inj_onD split: if_splits)

definition toy_names :: "name set" where
  "toy_names = {[], [\<lparr>Typ = 8, Val = [1]\<rparr>], [\<lparr>Typ = 8, Val = [1]\<rparr>, \<lparr>Typ = 8, Val = [2]\<rparr>]}"

lemma toy_names_collision_free: "collision_free toy_enc toy_names"
proof -
  have "take k n \<in> toy_names" if "n \<in> toy_names" for k n
    using that by (cases k; cases "k - 1") (auto simp: toy_names_def take_Cons split: nat.splits)
  moreover have "inj_on (name_Hash toy_enc) toy_names" "inj_on (name_Bytes toy_enc) toy_names"
    by (simp_all add: toy_names_def toy_name_Hash_def toy_comp_Hash_def toy_enc_def)
  ultimately show ?thesis by (simp add: collision_free_def toy_names_def)
qed

lemma toy_hash_inv: "ht_inv toy_enc toy_names (newFibStrategyTableHashTable toy_enc 1)"
  by (rule newFibStrategyTableHashTable_inv[OF toy_enc_laws toy_names_collision_free]) (simp add: toy_enc_def)

section \<open>Properties\<close>

text \<open>C9. On names without hash collisions the two-stage hash-table lookup (probe the virtual node at depth
  \<open>m\<close>, then search below the recorded maximum depth) finds the entry of the longest prefix that has one:
  the virtual depth never hides a longer match.\<close>

theorem ht_two_stage_lookup:
  assumes "ht_inv E S f" "n \<in> S"
  shows "ht_findLongestPrefixMatchEnc E f n = lpm (ht_at E S f) n"
  using ht_longest[OF assms] .

theorem ht_two_stage_lookup_witness:
  "ht_findLongestPrefixMatchEnc toy_enc (newFibStrategyTableHashTable toy_enc 1) [\<lparr>Typ = 8, Val = [1]\<rparr>] =
   lpm (ht_at toy_enc toy_names (newFibStrategyTableHashTable toy_enc 1)) [\<lparr>Typ = 8, Val = [1]\<rparr>]"
  by (rule ht_two_stage_lookup[OF toy_hash_inv]) (simp add: toy_names_def)

text \<open>The hash-table FIB never indexes out of range and answers lookups with the nexthops and the
  strategy of the longest prefix that has any.\<close>

theorem ht_lookup_lpm:
  assumes "ht_inv E S f" "n \<in> S"
  shows "(\<exists>l. ht_FindNextHopsEnc E f n = Inr l \<and> nh_distinct l \<and> nh_map l = lpm_nexthops (ht_nh E S f) n) \<and>
    ht_FindStrategyEnc E f n = Inr (lpm (ht_strat E S f) n)"
  using ht_find_contract[OF assms] by simp

theorem ht_lookup_lpm_witness:
  "ht_FindStrategyEnc toy_enc (newFibStrategyTableHashTable toy_enc 1) [\<lparr>Typ = 8, Val = [1]\<rparr>] =
   Inr (lpm (ht_strat toy_enc toy_names (newFibStrategyTableHashTable toy_enc 1)) [\<lparr>Typ = 8, Val = [1]\<rparr>])"
  using ht_lookup_lpm[OF toy_hash_inv, of "[\<lparr>Typ = 8, Val = [1]\<rparr>]"] by (simp add: toy_names_def)

text \<open>Pruning an emptied entry of the hash table removes that name and no other, and keeps the virtual
  tables covering every remaining name; the depth recorded for a virtual node never decreases while the
  node exists.\<close>

theorem ht_prune_spec:
  assumes "ht_inv E S f" "n \<in> S" "ht_at E S f n = Some e"
  shows "ht_inv E S (ht_pruneTables E f e) \<and>
    ht_at E S (ht_pruneTables E f e) =
      (if fse_nexthops e = [] \<and> fse_strategy e = None then (ht_at E S f)(n := None) else ht_at E S f) \<and>
    (\<forall>h md md'. virtTable f h = Some md \<and> virtTable (ht_pruneTables E f e) h = Some md' \<longrightarrow> md \<le> md')"
proof -
  have "\<forall>h md md'. virtTable f h = Some md \<and> virtTable (ht_pruneTables E f e) h = Some md' \<longrightarrow> md \<le> md'"
    using fold_max_ge by (auto simp: ht_pruneTables_def Let_def split: option.splits if_splits)
  then show ?thesis using ht_pruneTables_step[OF assms] by simp
qed

theorem ht_prune_spec_witness:
  "\<exists>e. ht_at toy_enc toy_names (newFibStrategyTableHashTable toy_enc 1) [] = Some e \<and>
    ht_inv toy_enc toy_names (ht_pruneTables toy_enc (newFibStrategyTableHashTable toy_enc 1) e)"
proof -
  have "[] \<in> toy_names" by (simp add: toy_names_def)
  moreover obtain e where "ht_at toy_enc toy_names (newFibStrategyTableHashTable toy_enc 1) [] = Some e"
    by (simp add: ht_at_def toy_names_def newFibStrategyTableHashTable_def nil_to_empty_def toy_enc_def)
  ultimately show ?thesis using ht_prune_spec[OF toy_hash_inv] by blast
qed

end
