(* ===== verification/Rib.thy ===== *)
theory Rib
  imports Fib_Tree Fib_Hash
begin

text \<open>
  The routing information base of \<^verbatim>\<open>src/table/rib.go\<close>: a name tree of entries with their routes, which
  it flattens into the FIB. The children of a node are the key set of a Go map; here they are a list, so
  the (unspecified) order in which the code ranges over them is fixed to the order of insertion. The
  operations take the methods \<open>ops\<close> of the FIB in use and return the new tree and the new FIB.
\<close>

section \<open>Data and operations\<close>

record Route =
  FaceID :: u64
  Origin :: u64
  route_Cost :: u64
  Flags :: u64
  ExpirationPeriod :: "int option"

record RibEntry =
  rib_component :: component
  rib_Name :: "name option"
  routes :: "Route list"

type_synonym rib_node = "(component, RibEntry) ntree"

definition new_rib_entry :: "component \<Rightarrow> RibEntry" where
  "new_rib_entry c = \<lparr>rib_component = c, rib_Name = None, routes = []\<rparr>"

definition Rib_init :: rib_node where
  "Rib_init = Node (new_rib_entry \<lparr>Typ = 0, Val = []\<rparr>) []"

definition rib_findExactMatchEntryEnc :: "enc_api \<Rightarrow> rib_node \<Rightarrow> name \<Rightarrow> name option" where
  "rib_findExactMatchEntryEnc E r name = nt_exact (comp_Equal E) r name"

definition rib_findLongestPrefixEntryEnc :: "enc_api \<Rightarrow> rib_node \<Rightarrow> name \<Rightarrow> name" where
  "rib_findLongestPrefixEntryEnc E r name = nt_longest (comp_Equal E) r name"

definition rib_fillTreeToPrefixEnc :: "enc_api \<Rightarrow> rib_node \<Rightarrow> name \<Rightarrow> rib_node \<times> name" where
  "rib_fillTreeToPrefixEnc E r name =
     (let entry = rib_findLongestPrefixEntryEnc E r name
      in nt_chain new_rib_entry entry (drop (length entry) name) r)"

text \<open>
  \<open>pruneIfEmpty\<close>. A node that is no longer in the tree was pruned before, so it has no children and no
  routes; deleting it again has no effect, and the loop goes on with its parent.
\<close>

definition rib_node_empty :: "rib_node \<Rightarrow> name \<Rightarrow> bool" where
  "rib_node_empty r p = (case nt_get r p of None \<Rightarrow> True | Some n \<Rightarrow> nkids n = [] \<and> routes (nval n) = [])"

function rib_pruneIfEmpty :: "name \<Rightarrow> rib_node \<Rightarrow> rib_node" where
  "rib_pruneIfEmpty entry r =
     (if entry \<noteq> [] \<and> rib_node_empty r entry
      then rib_pruneIfEmpty (butlast entry) (nt_del (butlast entry) (last entry) r)
      else r)"
  by pat_completeness auto
termination
  by (relation "measure (\<lambda>(entry, r). length entry)") auto

declare rib_pruneIfEmpty.simps [simp del]

definition routes_of :: "rib_node \<Rightarrow> name \<Rightarrow> Route list" where
  "routes_of r p = (case flat r p of None \<Rightarrow> [] | Some e \<Rightarrow> routes e)"

fun minCostRoutes :: "Route list \<Rightarrow> (u64 \<times> u64) list \<Rightarrow> (u64 \<times> u64) list" where
  "minCostRoutes [] m = m"
| "minCostRoutes (rt # rts) m =
     minCostRoutes rts
       (case map_of m (FaceID rt) of
          None \<Rightarrow> AList.update (FaceID rt) (route_Cost rt) m
        | Some cost \<Rightarrow> if route_Cost rt < cost then AList.update (FaceID rt) (route_Cost rt) m else m)"

definition rib_updateNexthopsEnc :: "'s FibStrategy \<Rightarrow> name option \<Rightarrow> Route list \<Rightarrow> 's \<Rightarrow> 's" where
  "rib_updateNexthopsEnc ops oname rts fib =
     fold (\<lambda>(nexthop, cost) f. InsertNextHopEnc ops f (case oname of None \<Rightarrow> [] | Some n \<Rightarrow> n) nexthop cost)
       (minCostRoutes rts []) (ClearNextHopsEnc ops fib oname)"

definition same_route :: "u64 \<Rightarrow> u64 \<Rightarrow> Route \<Rightarrow> bool" where
  "same_route faceID origin rt = (FaceID rt = faceID \<and> Origin rt = origin)"

fun upsert_route :: "Route \<Rightarrow> Route list \<Rightarrow> Route list" where
  "upsert_route new [] = [new]"
| "upsert_route new (rt # rts) =
     (if same_route (FaceID new) (Origin new) rt
      then rt\<lparr>route_Cost := route_Cost new, Flags := Flags new, ExpirationPeriod := ExpirationPeriod new\<rparr> # rts
      else rt # upsert_route new rts)"

definition set_rib_name :: "name \<Rightarrow> RibEntry \<Rightarrow> RibEntry" where
  "set_rib_name name e = (if rib_Name e = None then e\<lparr>rib_Name := Some name\<rparr> else e)"

definition AddEncRoute ::
  "enc_api \<Rightarrow> 's FibStrategy \<Rightarrow> rib_node \<times> 's \<Rightarrow> name \<Rightarrow> u64 \<Rightarrow> u64 \<Rightarrow> u64 \<Rightarrow> u64 \<Rightarrow> int option \<Rightarrow> rib_node \<times> 's" where
  "AddEncRoute E ops st name faceID origin cost flags expirationPeriod =
     (let (r1, p) = rib_fillTreeToPrefixEnc E (fst st) name;
          r2 = nt_set p (set_rib_name name) r1;
          new = \<lparr>FaceID = faceID, Origin = origin, route_Cost = cost, Flags = flags, ExpirationPeriod = expirationPeriod\<rparr>;
          r3 = nt_set p (\<lambda>e. e\<lparr>routes := upsert_route new (routes e)\<rparr>) r2;
          nodeName = (case flat r3 p of None \<Rightarrow> None | Some e \<Rightarrow> rib_Name e)
      in (r3, rib_updateNexthopsEnc ops nodeName (routes_of r3 p) (snd st)))"

definition rib_GetAllEntries :: "rib_node \<Rightarrow> RibEntry list" where
  "rib_GetAllEntries r = nt_walk (\<lambda>e. routes e \<noteq> []) [r]"

text \<open>The loop of both removals: delete the first route that matches, keeping the order of the others.\<close>

definition remove_first_route :: "(Route \<Rightarrow> bool) \<Rightarrow> Route list \<Rightarrow> Route list" where
  "remove_first_route P rts = (case find_index P rts of None \<Rightarrow> rts | Some i \<Rightarrow> del_at i rts)"

definition RemoveRouteEnc :: "enc_api \<Rightarrow> 's FibStrategy \<Rightarrow> rib_node \<times> 's \<Rightarrow> name \<Rightarrow> u64 \<Rightarrow> u64 \<Rightarrow> rib_node \<times> 's" where
  "RemoveRouteEnc E ops st name faceID origin =
     (case rib_findExactMatchEntryEnc E (fst st) name of
        None \<Rightarrow> st
      | Some p \<Rightarrow>
          let r1 = nt_set p (\<lambda>e. e\<lparr>routes := remove_first_route (same_route faceID origin) (routes e)\<rparr>) (fst st);
              nodeName = (case flat r1 p of None \<Rightarrow> None | Some e \<Rightarrow> rib_Name e);
              fib1 = rib_updateNexthopsEnc ops nodeName (routes_of r1 p) (snd st)
          in (rib_pruneIfEmpty p r1, fib1))"

text \<open>
  \<open>CleanUpFace\<close> recurses over the children a node has when the loop over them starts (its third
  argument is that snapshot), while the calls prune nodes from the tree in the state. The name of a
  node does not change on the way.
\<close>

fun rib_CleanUpFace :: "'s FibStrategy \<Rightarrow> u64 \<Rightarrow> name \<Rightarrow> rib_node \<Rightarrow> rib_node \<times> 's \<Rightarrow> rib_node \<times> 's" where
  "rib_CleanUpFace ops faceId p (Node e children) st =
     (let st1 = fold (\<lambda>(k, child) s. rib_CleanUpFace ops faceId (p @ [k]) child s) children st
      in if rib_Name e = None then st1
         else let r1 = nt_set p (\<lambda>e. e\<lparr>routes := remove_first_route (\<lambda>rt. FaceID rt = faceId) (routes e)\<rparr>) (fst st1);
                  fib1 = rib_updateNexthopsEnc ops (rib_Name e) (routes_of r1 p) (snd st1)
              in (rib_pruneIfEmpty p r1, fib1))"

definition CleanUpFace :: "'s FibStrategy \<Rightarrow> rib_node \<times> 's \<Rightarrow> u64 \<Rightarrow> rib_node \<times> 's" where
  "CleanUpFace ops st faceId = rib_CleanUpFace ops faceId [] (fst st) st"

section \<open>Invariant and the view of the routes\<close>

definition rib_ok :: "name set \<Rightarrow> rib_node \<Rightarrow> bool" where
  "rib_ok S r =
     (nt_wf r \<and>
      (\<forall>p e. flat r p = Some e \<longrightarrow>
        (rib_Name e = None \<and> routes e = []) \<or> (rib_Name e = Some p \<and> p \<in> S)))"

text \<open>The cost at which the FIB should reach each face: the least cost of the routes through it.\<close>

definition min_costs :: "Route list \<Rightarrow> u64 \<rightharpoonup> u64" where
  "min_costs rts = map_of (minCostRoutes rts [])"

definition coherent :: "name set \<Rightarrow> (name \<Rightarrow> u64 \<rightharpoonup> u64) \<Rightarrow> rib_node \<Rightarrow> bool" where
  "coherent S nh r = (\<forall>n\<in>S. nh n = min_costs (routes_of r n))"

lemma rib_okD:
  "rib_ok S r \<Longrightarrow> flat r p = Some e \<Longrightarrow> (rib_Name e = None \<and> routes e = []) \<or> (rib_Name e = Some p \<and> p \<in> S)"
  by (simp add: rib_ok_def)

lemma rib_ok_upd:
  "rib_ok S r \<Longrightarrow> (\<And>e. flat r p = Some e \<Longrightarrow> (rib_Name (g e) = None \<and> routes (g e) = []) \<or> (rib_Name (g e) = Some p \<and> p \<in> S)) \<Longrightarrow>
   rib_ok S (nt_set p g r)"
  by (auto simp: rib_ok_def flat_nt_set split: if_splits)

lemma set_rib_name_simps [simp]: "routes (set_rib_name n e) = routes e"
  by (simp add: set_rib_name_def)

lemma min_costs_Nil [simp]: "min_costs [] = Map.empty"
  by (simp add: min_costs_def)

lemma distinct_minCostRoutes: "distinct (map fst m) \<Longrightarrow> distinct (map fst (minCostRoutes rts m))"
  by (induction rts m rule: minCostRoutes.induct) (auto simp: distinct_update split: option.splits)

lemma minCostRoutes_spec:
  "map_of (minCostRoutes rts m) f = Some c \<longleftrightarrow>
     (c \<in> route_Cost ` {rt \<in> set rts. FaceID rt = f} \<union> set_option (map_of m f)) \<and>
     (\<forall>c' \<in> route_Cost ` {rt \<in> set rts. FaceID rt = f} \<union> set_option (map_of m f). c \<le> c')"
proof (induction rts m rule: minCostRoutes.induct)
  case (1 m)
  then show ?case by (cases "map_of m f") auto
next
  case (2 rt rts m)
  let ?C = "route_Cost ` {rt \<in> set rts. FaceID rt = f}"
  let ?m = "case map_of m (FaceID rt) of None \<Rightarrow> AList.update (FaceID rt) (route_Cost rt) m
        | Some cost \<Rightarrow> if route_Cost rt < cost then AList.update (FaceID rt) (route_Cost rt) m else m"
  show ?case
  proof (cases "FaceID rt = f")
    case False
    then have "map_of ?m f = map_of m f" by (auto simp: update_conv' split: option.split)
    moreover have "{rt' \<in> set (rt # rts). FaceID rt' = f} = {rt \<in> set rts. FaceID rt = f}" using False by auto
    ultimately show ?thesis using 2 by simp
  next
    case True
    have C: "route_Cost ` {rt' \<in> set (rt # rts). FaceID rt' = f} = insert (route_Cost rt) ?C" using True by auto
    show ?thesis
    proof (cases "map_of m f")
      case None
      then show ?thesis using 2 True unfolding C by (auto simp: update_conv')
    next
      case (Some d)
      then have "map_of ?m f = Some (min (route_Cost rt) d)" using True by (auto simp: update_conv' min_def)
      then show ?thesis unfolding minCostRoutes.simps 2 C using Some by (auto simp: min_def)
    qed
  qed
qed

lemma min_costs_iff:
  "min_costs rts f = Some c \<longleftrightarrow>
     (\<exists>rt\<in>set rts. FaceID rt = f \<and> route_Cost rt = c) \<and> (\<forall>rt\<in>set rts. FaceID rt = f \<longrightarrow> c \<le> route_Cost rt)"
  unfolding min_costs_def minCostRoutes_spec by auto

lemma min_costs_None: "min_costs rts f = None \<longleftrightarrow> (\<forall>rt\<in>set rts. FaceID rt \<noteq> f)"
proof -
  have "min_costs rts f \<noteq> None" if rt: "rt \<in> set rts" "FaceID rt = f" for rt
  proof -
    let ?C = "route_Cost ` {rt \<in> set rts. FaceID rt = f}"
    have "finite ?C" "?C \<noteq> {}" using rt by auto
    then have "Min ?C \<in> ?C" "\<forall>c\<in>?C. Min ?C \<le> c" using Min_in[of ?C] Min_le[of ?C] by blast+
    then have "min_costs rts f = Some (Min ?C)" unfolding min_costs_iff by auto
    then show ?thesis by simp
  qed
  moreover have "min_costs rts f = None" if "\<forall>rt\<in>set rts. FaceID rt \<noteq> f"
    using that min_costs_iff[of rts f] by (cases "min_costs rts f") auto
  ultimately show ?thesis by blast
qed

subsection \<open>Tree steps on the route view\<close>

lemma routes_of_set: "routes_of (nt_set p (\<lambda>e. e\<lparr>routes := g (routes e)\<rparr>) r) =
    (if flat r p = None then routes_of r else (routes_of r)(p := g (routes_of r p)))"
  by (auto simp: routes_of_def flat_nt_set fun_eq_iff)

lemma prune_step:
  assumes "rib_ok S r" "p \<noteq> []" "rib_node_empty r p"
  shows "rib_ok S (nt_del (butlast p) (last p) r)" "routes_of (nt_del (butlast p) (last p) r) = routes_of r"
proof -
  have below: "flat r q = None" if pre: "prefix p q" "q \<noteq> p" for q
  proof -
    obtain k s where q: "q = p @ k # s" using pre by (metis append_Nil2 neq_Nil_conv prefix_def)
    show ?thesis using assms(3) by (auto simp: q flat_append flat_Cons rib_node_empty_def split: option.splits)
  qed
  have here: "flat r p = None \<or> (\<exists>e. flat r p = Some e \<and> routes e = [])"
    using assms(3) by (auto simp: rib_node_empty_def flat_def split: option.splits)
  have f: "flat (nt_del (butlast p) (last p) r) = (flat r)(p := None)"
    using assms(2) below by (auto simp: flat_nt_del fun_eq_iff)
  show "rib_ok S (nt_del (butlast p) (last p) r)" using assms(1) by (auto simp: rib_ok_def f split: if_splits)
  show "routes_of (nt_del (butlast p) (last p) r) = routes_of r"
    using here by (auto simp: routes_of_def f fun_eq_iff)
qed

lemma rib_pruneIfEmpty_keeps:
  "rib_ok S r \<Longrightarrow> rib_ok S (rib_pruneIfEmpty p r) \<and> routes_of (rib_pruneIfEmpty p r) = routes_of r"
proof (induction p r rule: rib_pruneIfEmpty.induct)
  case (1 p r)
  then show ?case
    using prune_step[of S r p] by (cases "p \<noteq> [] \<and> rib_node_empty r p") (auto simp: rib_pruneIfEmpty.simps[of p r])
qed

lemma remove_first_Nil [simp]: "remove_first_route P [] = []"
  by (simp add: remove_first_route_def)

section \<open>The RIB keeps the FIB coherent with its routes\<close>

text \<open>
  The effect of one RIB operation, whatever FIB it writes to: \<open>rib_effect\<close> relates the states before
  and after when the operation changes the routes of each name by \<open>g\<close>.
\<close>

definition rib_effect ::
  "('s \<Rightarrow> bool) \<Rightarrow> name set \<Rightarrow> ('s \<Rightarrow> name \<Rightarrow> u64 \<rightharpoonup> u64) \<Rightarrow> ('s \<Rightarrow> name \<Rightarrow> name option) \<Rightarrow>
   (name \<Rightarrow> Route list \<Rightarrow> Route list) \<Rightarrow> rib_node \<times> 's \<Rightarrow> rib_node \<times> 's \<Rightarrow> bool" where
  "rib_effect I S nh strat g st st' =
     (rib_ok S (fst st') \<and> I (snd st') \<and> strat (snd st') = strat (snd st) \<and>
      (\<forall>n. routes_of (fst st') n = g n (routes_of (fst st) n)) \<and>
      (coherent S (nh (snd st)) (fst st) \<longrightarrow> coherent S (nh (snd st')) (fst st')))"

lemma rib_effect_trans:
  "rib_effect I S nh strat g s t \<Longrightarrow> rib_effect I S nh strat h t u \<Longrightarrow>
   (\<And>n rs. h n (g n rs) = k n rs) \<Longrightarrow> rib_effect I S nh strat k s u"
  by (auto simp: rib_effect_def)

lemma rib_effect_refl: "rib_ok S (fst s) \<Longrightarrow> I (snd s) \<Longrightarrow> (\<And>n. g n (routes_of (fst s) n) = routes_of (fst s) n) \<Longrightarrow> rib_effect I S nh strat g s s"
  by (auto simp: rib_effect_def)

lemma rib_effect_cong:
  "rib_effect I S nh strat g s t \<Longrightarrow> (\<And>n. h n (routes_of (fst s) n) = g n (routes_of (fst s) n)) \<Longrightarrow> rib_effect I S nh strat h s t"
  by (auto simp: rib_effect_def)

context fib_table
begin

lemma insert_all:
  assumes "inv f" "n \<in> S" "distinct (map fst m)"
  shows "inv (fold (\<lambda>(x, c) f. InsertNextHopEnc ops f n x c) m f) \<and>
    nh (fold (\<lambda>(x, c) f. InsertNextHopEnc ops f n x c) m f) = (nh f)(n := nh f n ++ map_of m) \<and>
    strat (fold (\<lambda>(x, c) f. InsertNextHopEnc ops f n x c) m f) = strat f"
  using assms(1,3)
proof (induction m arbitrary: f)
  case (Cons a m)
  obtain x c where a: "a = (x, c)" by fastforce
  let ?f = "InsertNextHopEnc ops f n x c"
  have "map_of m x = None" using Cons.prems(2) a by (simp add: map_of_eq_None_iff)
  then have "(nh f n)(x \<mapsto> c) ++ map_of m = nh f n ++ (map_of m)(x \<mapsto> c)"
    by (auto simp: map_add_def fun_eq_iff split: option.split)
  then have m: "(nh f n)(x \<mapsto> c) ++ map_of m = nh f n ++ map_of (a # m)" using a by simp
  note i = insert_nexthop[OF Cons.prems(1) assms(2), of x c]
  have "distinct (map fst m)" using Cons.prems(2) by simp
  note IH = Cons.IH[OF i(1) this]
  have "nh (fold (\<lambda>(x, c) f. InsertNextHopEnc ops f n x c) m ?f) = (nh f)(n := nh f n ++ map_of (a # m))"
    unfolding conjunct1[OF conjunct2[OF IH]] i(2) fun_upd_same fun_upd_upd m ..
  with IH i(3) show ?case by (simp only: a fold.simps o_apply split_conv)
qed simp

lemma update_nexthops:
  assumes "inv f" "n \<in> S"
  shows "inv (rib_updateNexthopsEnc ops (Some n) rts f) \<and>
    nh (rib_updateNexthopsEnc ops (Some n) rts f) = (nh f)(n := min_costs rts) \<and>
    strat (rib_updateNexthopsEnc ops (Some n) rts f) = strat f"
  using insert_all[OF clear_nexthops(1)[OF assms] assms(2) distinct_minCostRoutes[of "[]" rts]] clear_nexthops[OF assms]
  by (simp add: rib_updateNexthopsEnc_def min_costs_def)

text \<open>Assigning the routes of a node and flattening them into the FIB.\<close>

lemma assign_routes:
  assumes "rib_ok S r'" "inv f" "n \<in> S" "routes_of r' = (routes_of r)(n := rts)"
  shows "rib_effect inv S nh strat (\<lambda>m rs. if m = n then rts else rs) (r, f)
    (r', rib_updateNexthopsEnc ops (Some n) (routes_of r' n) f)"
  using assms update_nexthops[OF assms(2,3), of rts] by (simp add: rib_effect_def coherent_def)

lemma prune_effect:
  "rib_effect inv S nh strat g st (r, f) \<Longrightarrow> rib_effect inv S nh strat g st (rib_pruneIfEmpty p r, f)"
  using rib_pruneIfEmpty_keeps[of S r p] by (auto simp: rib_effect_def coherent_def)

end

lemma rib_fill_eq: "enc_laws E \<Longrightarrow> rib_fillTreeToPrefixEnc E r n = nt_fill (=) new_rib_entry r n"
proof -
  assume "enc_laws E"
  then have "comp_Equal E = (=)" by (simp add: fun_eq_iff enc_lawsD)
  then show ?thesis by (simp add: rib_fillTreeToPrefixEnc_def rib_findLongestPrefixEntryEnc_def nt_fill_def)
qed

lemma rib_find_eq: "enc_laws E \<Longrightarrow> rib_findExactMatchEntryEnc E r n = (if flat r n = None then None else Some n)"
proof -
  assume "enc_laws E"
  then have "comp_Equal E = (=)" by (simp add: fun_eq_iff enc_lawsD)
  then show ?thesis by (simp add: rib_findExactMatchEntryEnc_def nt_exact_eq)
qed

lemma rib_fill_keeps:
  assumes "rib_ok S r"
  shows "rib_ok S (fst (nt_fill (=) new_rib_entry r n))"
    "routes_of (fst (nt_fill (=) new_rib_entry r n)) = routes_of r"
    "flat (fst (nt_fill (=) new_rib_entry r n)) n \<noteq> None"
proof -
  have w: "nt_wf r" using assms by (simp add: rib_ok_def)
  note f = nt_fill_flat[OF w, of new_rib_entry n]
  show "rib_ok S (fst (nt_fill (=) new_rib_entry r n))"
    using assms f(3) by (auto simp: rib_ok_def f(2) new_rib_entry_def split: if_splits)
  show "routes_of (fst (nt_fill (=) new_rib_entry r n)) = routes_of r"
    by (auto simp: routes_of_def f(2) new_rib_entry_def fun_eq_iff)
  show "flat (fst (nt_fill (=) new_rib_entry r n)) n \<noteq> None" by (simp add: f(2))
qed

definition mk_route :: "u64 \<Rightarrow> u64 \<Rightarrow> u64 \<Rightarrow> u64 \<Rightarrow> int option \<Rightarrow> Route" where
  "mk_route faceID origin cost flags exp = \<lparr>FaceID = faceID, Origin = origin, route_Cost = cost, Flags = flags, ExpirationPeriod = exp\<rparr>"

lemma rib_ok_set_routes:
  assumes "rib_ok S r" "\<And>e. flat r p = Some e \<Longrightarrow> rib_Name e = None \<Longrightarrow> g (routes e) = []"
  shows "rib_ok S (nt_set p (\<lambda>e. e\<lparr>routes := g (routes e)\<rparr>) r)"
  using rib_okD[OF assms(1), of p] assms(2) by (intro rib_ok_upd[OF assms(1)]) auto

lemma rib_ok_set_name:
  assumes "rib_ok S r" "n \<in> S"
  shows "rib_ok S (nt_set n (set_rib_name n) r)"
    "routes_of (nt_set n (set_rib_name n) r) = routes_of r"
    "flat r n \<noteq> None \<Longrightarrow> \<exists>e. flat (nt_set n (set_rib_name n) r) n = Some e \<and> rib_Name e = Some n"
proof -
  have nm: "rib_Name (set_rib_name n e) = Some n" if "flat r n = Some e" for e
    using rib_okD[OF assms(1) that] by (auto simp: set_rib_name_def)
  then show "rib_ok S (nt_set n (set_rib_name n) r)" using assms by (intro rib_ok_upd) auto
  show "routes_of (nt_set n (set_rib_name n) r) = routes_of r"
    by (auto simp: routes_of_def flat_nt_set fun_eq_iff split: option.split)
  show "flat r n \<noteq> None \<Longrightarrow> \<exists>e. flat (nt_set n (set_rib_name n) r) n = Some e \<and> rib_Name e = Some n"
    using nm by (auto simp: flat_nt_set)
qed

context fib_table
begin

lemma AddEncRoute_effect:
  assumes "enc_laws E" "rib_ok S (fst st)" "inv (snd st)" "n \<in> S"
  shows "rib_effect inv S nh strat
    (\<lambda>m rs. if m = n then upsert_route (mk_route f orig c fl ex) rs else rs) st (AddEncRoute E ops st n f orig c fl ex)"
proof -
  let ?r1 = "fst (nt_fill (=) new_rib_entry (fst st) n)"
  let ?r2 = "nt_set n (set_rib_name n) ?r1"
  let ?g = "upsert_route (mk_route f orig c fl ex)"
  let ?r3 = "nt_set n (\<lambda>e. e\<lparr>routes := ?g (routes e)\<rparr>) ?r2"
  have p: "snd (nt_fill (=) new_rib_entry (fst st) n) = n"
    using assms(2) by (simp add: rib_ok_def nt_fill_flat)
  note f1 = rib_fill_keeps[OF assms(2), of n] and f2 = rib_ok_set_name[OF rib_fill_keeps(1)[OF assms(2), of n] assms(4)]
  obtain e where e: "flat ?r2 n = Some e" "rib_Name e = Some n" using f2(3) f1(3) by blast
  have ok: "rib_ok S ?r3" using e by (intro rib_ok_set_routes f2(1)) auto
  have r3: "flat ?r3 n = Some (e\<lparr>routes := ?g (routes e)\<rparr>)" using e(1) by (simp only: flat_nt_set[of n _ ?r2]) simp
  have v: "routes_of ?r3 = (routes_of (fst st))(n := ?g (routes_of (fst st) n))"
    using e(1) f1(2) f2(2) by (simp add: routes_of_set)
  have "AddEncRoute E ops st n f orig c fl ex = (?r3, rib_updateNexthopsEnc ops (Some n) (routes_of ?r3 n) (snd st))"
    using p r3 e(2) by (simp add: AddEncRoute_def rib_fill_eq[OF assms(1)] split_beta Let_def mk_route_def)
  with assign_routes[OF ok assms(3,4) v] show ?thesis by (auto elim: rib_effect_cong)
qed

lemma RemoveRouteEnc_effect:
  assumes "enc_laws E" "rib_ok S (fst st)" "inv (snd st)"
    and named: "\<And>e. flat (fst st) n = Some e \<Longrightarrow> rib_Name e = None \<Longrightarrow> ClearNextHopsEnc ops (snd st) None = snd st"
  shows "rib_effect inv S nh strat
    (\<lambda>m rs. if m = n then remove_first_route (same_route f orig) rs else rs) st (RemoveRouteEnc E ops st n f orig)"
proof (cases "flat (fst st) n")
  case None
  then show ?thesis
    using assms by (auto simp: RemoveRouteEnc_def rib_find_eq routes_of_def intro!: rib_effect_refl)
next
  case (Some e)
  let ?g = "remove_first_route (same_route f orig)"
  let ?r1 = "nt_set n (\<lambda>e. e\<lparr>routes := ?g (routes e)\<rparr>) (fst st)"
  have ok: "rib_ok S ?r1"
    using rib_okD[OF assms(2) Some] Some by (intro rib_ok_set_routes assms(2)) auto
  have v: "routes_of ?r1 = (routes_of (fst st))(n := ?g (routes_of (fst st) n))" using Some by (simp add: routes_of_set)
  have R: "RemoveRouteEnc E ops st n f orig =
      (rib_pruneIfEmpty n ?r1, rib_updateNexthopsEnc ops (rib_Name e) (routes_of ?r1 n) (snd st))"
    using Some by (simp add: RemoveRouteEnc_def rib_find_eq[OF assms(1)] flat_nt_set Let_def)
  show ?thesis
  proof (cases "rib_Name e")
    case (Some n')
    then have n: "n' = n" "n \<in> S" using rib_okD[OF assms(2) \<open>flat (fst st) n = Some e\<close>] by auto
    from assign_routes[OF ok assms(3) n(2) v]
    have "rib_effect inv S nh strat (\<lambda>m rs. if m = n then ?g rs else rs) st (?r1, rib_updateNexthopsEnc ops (Some n) (routes_of ?r1 n) (snd st))"
      by (auto elim: rib_effect_cong)
    from prune_effect[OF this] Some n show ?thesis unfolding R by simp
  next
    case None
    then have "routes_of (fst st) n = []" using rib_okD[OF assms(2) Some] Some by (auto simp: routes_of_def)
    then have "routes_of ?r1 = routes_of (fst st)" by (auto simp: v fun_eq_iff)
    then have "rib_effect inv S nh strat (\<lambda>m rs. if m = n then ?g rs else rs) st (?r1, rib_updateNexthopsEnc ops None (routes_of ?r1 n) (snd st))"
      using ok assms(3) named[OF Some None] \<open>routes_of (fst st) n = []\<close>
      by (auto simp: rib_effect_def coherent_def rib_updateNexthopsEnc_def)
    from prune_effect[OF this] None show ?thesis unfolding R by simp
  qed
qed

end

subsection \<open>Cleaning up a face\<close>

abbreviation rm_face :: "u64 \<Rightarrow> Route list \<Rightarrow> Route list" where
  "rm_face faceId \<equiv> remove_first_route (\<lambda>rt. FaceID rt = faceId)"

text \<open>The names of the nodes of a snapshot \<open>c\<close> that hangs below the path \<open>p\<close>.\<close>

definition under :: "name \<Rightarrow> rib_node \<Rightarrow> name \<Rightarrow> bool" where
  "under p c n = (\<exists>q. n = p @ q \<and> flat c q \<noteq> None)"

definition snap_ok :: "name set \<Rightarrow> name \<Rightarrow> rib_node \<Rightarrow> rib_node \<Rightarrow> bool" where
  "snap_ok S p c r = (\<forall>q e. flat c q = Some e \<longrightarrow>
     (rib_Name e = None \<and> routes_of r (p @ q) = []) \<or> (rib_Name e = Some (p @ q) \<and> p @ q \<in> S))"

lemma under_Node:
  assumes "distinct (map fst cs)"
  shows "under p (Node e cs) n \<longleftrightarrow> n = p \<or> (\<exists>(k, c)\<in>set cs. under (p @ [k]) c n)"
proof
  assume "under p (Node e cs) n"
  then obtain q where q: "n = p @ q" "flat (Node e cs) q \<noteq> None" by (auto simp: under_def)
  show "n = p \<or> (\<exists>(k, c)\<in>set cs. under (p @ [k]) c n)"
  proof (cases q)
    case (Cons k q')
    then obtain c where "(k, c) \<in> set cs" "flat c q' \<noteq> None"
      using q(2) by (auto simp: flat_Cons dest: map_of_SomeD split: option.splits)
    then show ?thesis using q(1) Cons by (force simp: under_def)
  qed (use q in simp)
next
  assume "n = p \<or> (\<exists>(k, c)\<in>set cs. under (p @ [k]) c n)"
  then show "under p (Node e cs) n"
  proof
    assume "\<exists>(k, c)\<in>set cs. under (p @ [k]) c n"
    then obtain k c q where "(k, c) \<in> set cs" "n = p @ k # q" "flat c q \<noteq> None" by (auto simp: under_def)
    then show ?thesis using assms by (auto simp: under_def flat_Cons intro!: exI[of _ "k # q"])
  qed (auto simp: under_def)
qed

lemma under_disjoint: "under (p @ [k]) c n \<Longrightarrow> under (p @ [k']) c' n \<Longrightarrow> k = k'"
  by (auto simp: under_def)

lemma snap_ok_kid:
  assumes "snap_ok S p (Node e cs) r" "(k, c) \<in> set cs" "distinct (map fst cs)"
  shows "snap_ok S (p @ [k]) c r"
  unfolding snap_ok_def
proof (intro allI impI)
  fix q e' assume "flat c q = Some e'"
  then have "flat (Node e cs) (k # q) = Some e'" using assms(2,3) by (simp add: flat_Cons)
  then show "(rib_Name e' = None \<and> routes_of r ((p @ [k]) @ q) = []) \<or> (rib_Name e' = Some ((p @ [k]) @ q) \<and> (p @ [k]) @ q \<in> S)"
    using assms(1) unfolding snap_ok_def by force
qed

lemma snap_ok_other:
  assumes "snap_ok S (p @ [k]) c r" "\<And>q. routes_of r' (p @ k # q) = routes_of r (p @ k # q)"
  shows "snap_ok S (p @ [k]) c r'"
  using assms by (simp add: snap_ok_def)

context fib_table
begin

abbreviation cleaned :: "u64 \<Rightarrow> (name \<Rightarrow> bool) \<Rightarrow> rib_node \<times> 's \<Rightarrow> rib_node \<times> 's \<Rightarrow> bool" where
  "cleaned f U \<equiv> rib_effect inv S nh strat (\<lambda>n rs. if U n then rm_face f rs else rs)"

lemma cleanup_kids:
  assumes "\<And>k c st. (k, c) \<in> set ds \<Longrightarrow> rib_ok S (fst st) \<Longrightarrow> inv (snd st) \<Longrightarrow> snap_ok S (p @ [k]) c (fst st) \<Longrightarrow>
      cleaned f (under (p @ [k]) c) st (rib_CleanUpFace ops f (p @ [k]) c st)"
    and "distinct (map fst ds)" "rib_ok S (fst st)" "inv (snd st)"
    and "\<And>k c. (k, c) \<in> set ds \<Longrightarrow> snap_ok S (p @ [k]) c (fst st)"
  shows "cleaned f (\<lambda>n. \<exists>(k, c)\<in>set ds. under (p @ [k]) c n) st
    (fold (\<lambda>(k, c) s. rib_CleanUpFace ops f (p @ [k]) c s) ds st)"
  using assms
proof (induction ds arbitrary: st)
  case Nil
  then show ?case by (auto intro: rib_effect_refl)
next
  case (Cons d ds)
  obtain k c where d: "d = (k, c)" by fastforce
  let ?st = "rib_CleanUpFace ops f (p @ [k]) c st"
  have 1: "cleaned f (under (p @ [k]) c) st ?st" using Cons.prems d by auto
  then have st: "rib_ok S (fst ?st)" "inv (snd ?st)"
    "\<And>n. routes_of (fst ?st) n = (if under (p @ [k]) c n then rm_face f (routes_of (fst st) n) else routes_of (fst st) n)"
    by (auto simp: rib_effect_def)
  have "snap_ok S (p @ [k']) c' (fst ?st)" if "(k', c') \<in> set ds" for k' c'
  proof (rule snap_ok_other)
    show "snap_ok S (p @ [k']) c' (fst st)" using Cons.prems(5) that by auto
    have "k' \<noteq> k" using that Cons.prems(2) d by force
    then show "routes_of (fst ?st) (p @ k' # q) = routes_of (fst st) (p @ k' # q)" for q
      unfolding st(3) by (auto simp: under_def)
  qed
  then have 2: "cleaned f (\<lambda>n. \<exists>(k, c)\<in>set ds. under (p @ [k]) c n) ?st (fold (\<lambda>(k, c) s. rib_CleanUpFace ops f (p @ [k]) c s) ds ?st)"
    using Cons.IH[of ?st] Cons.prems(1,2) st by simp
  have "\<not> (\<exists>(k', c')\<in>set ds. under (p @ [k']) c' n)" if "under (p @ [k]) c n" for n
    using under_disjoint[OF that] Cons.prems(2) d by force
  then show ?case using rib_effect_trans[OF 1 2] d by simp
qed

lemma rib_CleanUpFace_effect:
  "nt_wf c \<Longrightarrow> rib_ok S (fst st) \<Longrightarrow> inv (snd st) \<Longrightarrow> snap_ok S p c (fst st) \<Longrightarrow>
   cleaned f (under p c) st (rib_CleanUpFace ops f p c st)"
proof (induction c arbitrary: p st)
  case (Node e cs)
  let ?K = "\<lambda>n. \<exists>(k, c)\<in>set cs. under (p @ [k]) c n"
  let ?st = "fold (\<lambda>(k, c) s. rib_CleanUpFace ops f (p @ [k]) c s) cs st"
  have dist: "distinct (map fst cs)" using Node.prems(1) by simp
  have kids: "cleaned f ?K st ?st"
  proof (rule cleanup_kids[OF _ dist Node.prems(2,3)])
    fix k c st assume "(k, c) \<in> set cs" "rib_ok S (fst st)" "inv (snd st)" "snap_ok S (p @ [k]) c (fst st)"
    then show "cleaned f (under (p @ [k]) c) st (rib_CleanUpFace ops f (p @ [k]) c st)"
      using Node.IH[of "(k, c)" c st "p @ [k]"] Node.prems(1) by auto
  qed (use snap_ok_kid[OF Node.prems(4) _ dist] in blast)
  have here: "(rib_Name e = None \<and> routes_of (fst st) p = []) \<or> (rib_Name e = Some p \<and> p \<in> S)"
    using Node.prems(4) unfolding snap_ok_def by (metis append_Nil2 flat_Nil ntree.sel(1))
  have notK: "\<not> ?K p" by (auto simp: under_def)
  show ?case
  proof (cases "rib_Name e")
    case None
    with here have "routes_of (fst st) p = []" by simp
    then show ?thesis
      using None kids by (auto simp: under_Node[OF dist] elim!: rib_effect_cong)
  next
    case (Some n)
    with here have p: "rib_Name e = Some p" "p \<in> S" by auto
    let ?r = "nt_set p (\<lambda>e. e\<lparr>routes := rm_face f (routes e)\<rparr>) (fst ?st)"
    have st: "rib_ok S (fst ?st)" "inv (snd ?st)" using kids by (auto simp: rib_effect_def)
    have ok: "rib_ok S ?r" using rib_okD[OF st(1), of p] by (intro rib_ok_set_routes st(1)) auto
    have v: "routes_of ?r = (routes_of (fst ?st))(p := rm_face f (routes_of (fst ?st) p))"
      unfolding routes_of_set by (auto simp: routes_of_def fun_eq_iff)
    have 2: "rib_effect inv S nh strat (\<lambda>m rs. if m = p then rm_face f rs else rs) ?st
        (?r, rib_updateNexthopsEnc ops (Some p) (routes_of ?r p) (snd ?st))"
      using assign_routes[OF ok st(2) p(2) v] by (auto elim!: rib_effect_cong)
    have "cleaned f (under p (Node e cs)) st (?r, rib_updateNexthopsEnc ops (Some p) (routes_of ?r p) (snd ?st))"
      by (rule rib_effect_trans[OF kids 2]) (use notK under_Node[OF dist, of p e] in auto)
    from prune_effect[OF this] p show ?thesis by (simp add: Let_def)
  qed
qed

text \<open>\<open>CleanUpFace\<close> on the whole table removes one route of the face from every entry.\<close>

lemma CleanUpFace_effect:
  assumes "rib_ok S (fst st)" "inv (snd st)"
  shows "rib_effect inv S nh strat (\<lambda>n. rm_face f) st (CleanUpFace ops st f)"
proof -
  have "snap_ok S [] (fst st) (fst st)"
    using rib_okD[OF assms(1)] by (fastforce simp: snap_ok_def routes_of_def)
  moreover have "nt_wf (fst st)" using assms(1) by (simp add: rib_ok_def)
  ultimately have "cleaned f (under [] (fst st)) st (CleanUpFace ops st f)"
    unfolding CleanUpFace_def using rib_CleanUpFace_effect assms by blast
  then show ?thesis by (rule rib_effect_cong) (auto simp: under_def routes_of_def)
qed

end

section \<open>Sequences of operations\<close>

datatype rib_op =
    AddOp name u64 u64 u64 u64 "int option"
  | RemoveOp name u64 u64
  | CleanUpOp u64

fun rib_step :: "enc_api \<Rightarrow> 's FibStrategy \<Rightarrow> rib_op \<Rightarrow> rib_node \<times> 's \<Rightarrow> rib_node \<times> 's" where
  "rib_step E ops (AddOp n f orig c fl ex) st = AddEncRoute E ops st n f orig c fl ex"
| "rib_step E ops (RemoveOp n f orig) st = RemoveRouteEnc E ops st n f orig"
| "rib_step E ops (CleanUpOp f) st = CleanUpFace ops st f"

text \<open>What an operation does to the routes of a name.\<close>

fun op_routes :: "rib_op \<Rightarrow> name \<Rightarrow> Route list \<Rightarrow> Route list" where
  "op_routes (AddOp n f orig c fl ex) m rs = (if m = n then upsert_route (mk_route f orig c fl ex) rs else rs)"
| "op_routes (RemoveOp n f orig) m rs = (if m = n then remove_first_route (same_route f orig) rs else rs)"
| "op_routes (CleanUpOp f) m rs = rm_face f rs"

lemma op_routes_fun:
  "op_routes (AddOp n f orig c fl ex) = (\<lambda>m rs. if m = n then upsert_route (mk_route f orig c fl ex) rs else rs)"
  "op_routes (RemoveOp n f orig) = (\<lambda>m rs. if m = n then remove_first_route (same_route f orig) rs else rs)"
  "op_routes (CleanUpOp f) = (\<lambda>m. rm_face f)"
  by (auto simp: fun_eq_iff)

text \<open>The operations for which every FIB stays coherent: routes are removed from nodes that had some.\<close>

fun op_ok :: "name set \<Rightarrow> rib_node \<Rightarrow> rib_op \<Rightarrow> bool" where
  "op_ok S r (AddOp n f orig c fl ex) = (n \<in> S)"
| "op_ok S r (RemoveOp n f orig) = (case flat r n of None \<Rightarrow> True | Some e \<Rightarrow> rib_Name e \<noteq> None)"
| "op_ok S r (CleanUpOp f) = True"

fun ops_ok :: "enc_api \<Rightarrow> 's FibStrategy \<Rightarrow> name set \<Rightarrow> rib_node \<times> 's \<Rightarrow> rib_op list \<Rightarrow> bool" where
  "ops_ok E ops S st [] = True"
| "ops_ok E ops S st (x # xs) = (op_ok S (fst st) x \<and> ops_ok E ops S (rib_step E ops x st) xs)"

definition rib_inv :: "name set \<Rightarrow> ('s \<Rightarrow> bool) \<Rightarrow> ('s \<Rightarrow> name \<Rightarrow> u64 \<rightharpoonup> u64) \<Rightarrow> rib_node \<times> 's \<Rightarrow> bool" where
  "rib_inv S I nh st = (rib_ok S (fst st) \<and> I (snd st) \<and> coherent S (nh (snd st)) (fst st))"

lemma Rib_init_ok: "rib_ok S Rib_init" "routes_of Rib_init n = []"
  by (auto simp: rib_ok_def Rib_init_def new_rib_entry_def routes_of_def split: if_splits)

lemma lpm_cong: "(\<And>p. prefix p n \<Longrightarrow> f p = g p) \<Longrightarrow> lpm f n = lpm g n"
  unfolding lpm_def by (intro lpm_upto_cong) (auto simp: take_is_prefix)

context fib_table
begin

lemma rib_step_effect:
  assumes "enc_laws E" "rib_ok S (fst st)" "inv (snd st)" "op_ok S (fst st) x"
  shows "rib_effect inv S nh strat (op_routes x) st (rib_step E ops x st)"
  using assms by (cases x) (auto simp: op_routes_fun simp del: op_routes.simps intro!: AddEncRoute_effect RemoveRouteEnc_effect CleanUpFace_effect)

lemma rib_run_inv:
  assumes "enc_laws E"
  shows "rib_inv S inv nh st \<Longrightarrow> ops_ok E ops S st xs \<Longrightarrow> rib_inv S inv nh (fold (rib_step E ops) xs st)"
proof (induction xs arbitrary: st)
  case (Cons x xs)
  then have "rib_effect inv S nh strat (op_routes x) st (rib_step E ops x st)"
    using rib_step_effect[OF assms] by (simp add: rib_inv_def)
  with Cons show ?case by (simp add: rib_inv_def rib_effect_def)
qed simp

lemma coherent_lookup:
  assumes "rib_inv S inv nh (r, f)" "n \<in> S" "\<And>p. prefix p n \<Longrightarrow> p \<in> S"
  shows "\<exists>l. FindNextHopsEnc ops f n = Inr l \<and> nh_map l = lpm_nexthops (\<lambda>m. min_costs (routes_of r m)) n"
proof -
  have "lpm (nonempty_nh (nh f)) n = lpm (nonempty_nh (\<lambda>m. min_costs (routes_of r m))) n"
    using assms by (intro lpm_cong) (auto simp: nonempty_nh_def rib_inv_def coherent_def)
  then show ?thesis using find_nexthops[of f n] assms by (auto simp: rib_inv_def lpm_nexthops_def)
qed

end

context fib_table_nil
begin

lemma rib_step_effect_nil:
  assumes "enc_laws E" "rib_ok S (fst st)" "inv (snd st)" "case x of AddOp n f orig c fl ex \<Rightarrow> n \<in> S | _ \<Rightarrow> True"
  shows "rib_effect inv S nh strat (op_routes x) st (rib_step E ops x st)"
  using assms clear_nil[OF assms(3)]
  by (cases x) (auto simp: op_routes_fun simp del: op_routes.simps intro!: AddEncRoute_effect RemoveRouteEnc_effect CleanUpFace_effect)

end

context fib_table_nil
begin

lemma rib_run_inv_nil:
  assumes "enc_laws E" "S = UNIV"
  shows "rib_inv S inv nh st \<Longrightarrow> rib_inv S inv nh (fold (rib_step E ops) xs st)"
proof (induction xs arbitrary: st)
  case (Cons x xs)
  have "rib_effect inv S nh strat (op_routes x) st (rib_step E ops x st)"
    using rib_step_effect_nil[OF assms(1), of st x] Cons.prems assms(2) by (simp add: rib_inv_def split: rib_op.split)
  with Cons show ?case by (simp add: rib_inv_def rib_effect_def)
qed simp

end

lemma tree_start: "enc_laws E \<Longrightarrow> rib_inv UNIV (tree_inv E) tree_nh (Rib_init, newFibStrategyTableTree E)"
proof -
  assume E: "enc_laws E"
  have "tree_nh (newFibStrategyTableTree E) n = Map.empty" for n
    by (simp add: tree_nh_def entry_at_def newFibStrategyTableTree_def new_entry_def)
  then show ?thesis
    using newFibStrategyTableTree_inv[OF E] by (simp add: rib_inv_def coherent_def Rib_init_ok)
qed

lemma hash_start:
  assumes "enc_laws E" "collision_free E S" "NameFromStr E ''/'' = Some []"
  shows "rib_inv S (ht_inv E S) (ht_nh E S) (Rib_init, newFibStrategyTableHashTable E m)"
proof -
  have "ht_nh E S (newFibStrategyTableHashTable E m) n = Map.empty" for n
    using assms(3) by (auto simp: ht_nh_def ht_at_def newFibStrategyTableHashTable_def nil_to_empty_def ht_entry_def split: option.splits if_splits)
  then show ?thesis
    using newFibStrategyTableHashTable_inv[OF assms] by (simp add: rib_inv_def coherent_def Rib_init_ok)
qed

lemma filter_rm_first: "length (filter P (remove_first_route P rs)) = length (filter P rs) - 1"
proof (induction rs)
  case (Cons a rs)
  then show ?case
    by (cases "find_index P rs") (auto simp: remove_first_route_def del_at_def)
qed simp

section \<open>Properties\<close>

text \<open>Flattening a set of routes into the name-tree FIB: after \<open>updateNexthops\<close> the entry of the name reaches a
  face at cost \<open>c\<close> exactly when some route of the set goes through the face at cost \<open>c\<close> and none is
  cheaper; no other name and no strategy changes.\<close>

theorem updateNexthops_min_cost:
  assumes "tree_inv E f"
  shows "(tree_nh (rib_updateNexthopsEnc (tree_ops E) (Some n) rts f) n face = Some c \<longleftrightarrow>
      (\<exists>rt\<in>set rts. FaceID rt = face \<and> route_Cost rt = c) \<and> (\<forall>rt\<in>set rts. FaceID rt = face \<longrightarrow> c \<le> route_Cost rt)) \<and>
    (m \<noteq> n \<longrightarrow> tree_nh (rib_updateNexthopsEnc (tree_ops E) (Some n) rts f) m = tree_nh f m) \<and>
    tree_strat (rib_updateNexthopsEnc (tree_ops E) (Some n) rts f) = tree_strat f"
  using ft.update_nexthops[OF assms, of n rts] by (simp add: min_costs_iff)

theorem updateNexthops_min_cost_witness:
  "tree_nh (rib_updateNexthopsEnc (tree_ops toy_enc) (Some []) [mk_route 3 0 9 0 None, mk_route 3 255 4 0 None]
     (newFibStrategyTableTree toy_enc)) [] 3 = Some 4"
  using updateNexthops_min_cost[OF newFibStrategyTableTree_inv[OF toy_enc_laws], of "[]" "[mk_route 3 0 9 0 None, mk_route 3 255 4 0 None]" 3 4]
  by (simp add: mk_route_def)

text \<open>C5. After any sequence of route additions, removals and face clean-ups on an empty RIB with the name-tree
  FIB, a nexthop lookup for any name returns exactly the faces of the routes of the longest prefix that has
  routes, each at its least cost.\<close>

theorem rib_tree_refines:
  assumes "enc_laws E" "fold (rib_step E (tree_ops E)) xs (Rib_init, newFibStrategyTableTree E) = (r, f)"
  shows "nh_map (tree_FindNextHopsEnc E f n) = lpm_nexthops (\<lambda>m. min_costs (routes_of r m)) n"
proof -
  have "rib_inv UNIV (tree_inv E) tree_nh (r, f)"
    using ftn.rib_run_inv_nil[OF assms(1) refl tree_start[OF assms(1)], of xs] assms(2) by simp
  from ft.coherent_lookup[OF this, of n] show ?thesis by (simp add: tree_ops_def)
qed

theorem rib_tree_refines_witness:
  "\<exists>r f. fold (rib_step toy_enc (tree_ops toy_enc)) [AddOp [] 3 0 9 0 None, AddOp [] 3 255 4 0 None, CleanUpOp 5]
      (Rib_init, newFibStrategyTableTree toy_enc) = (r, f) \<and>
    nh_map (tree_FindNextHopsEnc toy_enc f []) = lpm_nexthops (\<lambda>m. min_costs (routes_of r m)) []"
  using rib_tree_refines[OF toy_enc_laws] by (metis prod.exhaust)

text \<open>C6. The same for the hash-table FIB, on names whose hashes do not collide, as long as routes are only removed
  from names that have or had routes.\<close>

theorem rib_hash_refines:
  assumes "enc_laws E" "collision_free E S" "NameFromStr E ''/'' = Some []" "n \<in> S"
    and "ops_ok E (ht_ops E) S (Rib_init, newFibStrategyTableHashTable E m) xs"
    and "fold (rib_step E (ht_ops E)) xs (Rib_init, newFibStrategyTableHashTable E m) = (r, f)"
  shows "\<exists>l. ht_FindNextHopsEnc E f n = Inr l \<and> nh_map l = lpm_nexthops (\<lambda>m. min_costs (routes_of r m)) n"
proof -
  have "rib_inv S (ht_inv E S) (ht_nh E S) (r, f)"
    using fh.rib_run_inv[OF assms(1) hash_start[OF assms(1-3)] assms(5)] assms(6) by simp
  moreover have "p \<in> S" if "prefix p n" for p
    using assms(2,4) that unfolding collision_free_def prefix_def by (metis append_eq_conv_conj)
  ultimately show ?thesis using fh.coherent_lookup[of S E r f n] assms(4) by (simp add: ht_ops_def)
qed

theorem rib_hash_refines_witness:
  "\<exists>r f l. fold (rib_step toy_enc (ht_ops toy_enc)) [AddOp [] 3 0 9 0 None, CleanUpOp 5] (Rib_init, newFibStrategyTableHashTable toy_enc 1) = (r, f) \<and>
    ht_FindNextHopsEnc toy_enc f [] = Inr l \<and> nh_map l = lpm_nexthops (\<lambda>m. min_costs (routes_of r m)) []"
proof -
  obtain r f where e: "fold (rib_step toy_enc (ht_ops toy_enc)) [AddOp [] 3 0 9 0 None, CleanUpOp 5] (Rib_init, newFibStrategyTableHashTable toy_enc 1) = (r, f)"
    by (metis prod.exhaust)
  from rib_hash_refines[OF toy_enc_laws toy_names_collision_free _ _ _ e, of "[]"] e show ?thesis
    by (auto simp: toy_names_def toy_enc_def)
qed

text \<open>What each operation does to the routes of every name, with the name-tree FIB: adding replaces the route with
  the same face and origin or appends one, removing deletes the route with the given face and origin, and cleaning up
  a face deletes the first route through it from every name. Each keeps the RIB well formed and the FIB coherent.\<close>

theorem rib_step_spec:
  assumes "rib_inv UNIV (tree_inv E) tree_nh (r, f)" "rib_step E (tree_ops E) x (r, f) = (r', f')"
  shows "rib_inv UNIV (tree_inv E) tree_nh (r', f') \<and> tree_strat f' = tree_strat f \<and>
    (\<forall>n. routes_of r' n = op_routes x n (routes_of r n))"
proof -
  have i: "tree_inv E f" using assms(1) by (simp add: rib_inv_def)
  have "case x of AddOp n f orig c fl ex \<Rightarrow> n \<in> UNIV | _ \<Rightarrow> True" by (simp split: rib_op.split)
  from ftn.rib_step_effect_nil[OF tree_inv_laws[OF i] _ _ this, of "(r, f)" E] i
  have "rib_effect (tree_inv E) UNIV tree_nh tree_strat (op_routes x) (r, f) (r', f')"
    using assms by (simp add: rib_inv_def)
  with assms(1) show ?thesis by (simp add: rib_effect_def rib_inv_def)
qed

theorem rib_step_spec_witness:
  "\<exists>r' f'. rib_step toy_enc (tree_ops toy_enc) (AddOp [] 3 0 9 0 None) (Rib_init, newFibStrategyTableTree toy_enc) = (r', f') \<and>
    routes_of r' [] = [mk_route 3 0 9 0 None]"
proof -
  obtain r' f' where e: "rib_step toy_enc (tree_ops toy_enc) (AddOp [] 3 0 9 0 None) (Rib_init, newFibStrategyTableTree toy_enc) = (r', f')"
    by fastforce
  from rib_step_spec[OF tree_start[OF toy_enc_laws] e] e show ?thesis by (simp add: Rib_init_ok)
qed

text \<open>Cleaning up a face removes it from the FIB entry of a name exactly when the name had at most one route
  through it: with routes of two origins through the face, the destroyed face stays a nexthop.\<close>

theorem CleanUpFace_remaining:
  assumes "rib_inv UNIV (tree_inv E) tree_nh (r, f)" "CleanUpFace (tree_ops E) (r, f) face = (r', f')"
  shows "tree_nh f' n face \<noteq> None \<longleftrightarrow> 2 \<le> length (filter (\<lambda>rt. FaceID rt = face) (routes_of r n))"
proof -
  have "rib_effect (tree_inv E) UNIV tree_nh tree_strat (\<lambda>n. rm_face face) (r, f) (r', f')"
    using ft.CleanUpFace_effect[of "(r, f)" E face] assms by (simp add: rib_inv_def)
  then have "tree_nh f' n = min_costs (rm_face face (routes_of r n))"
    using assms(1) by (simp add: rib_effect_def rib_inv_def coherent_def)
  then have "tree_nh f' n face \<noteq> None \<longleftrightarrow> filter (\<lambda>rt. FaceID rt = face) (rm_face face (routes_of r n)) \<noteq> []"
    using min_costs_None[of "rm_face face (routes_of r n)" face] by (auto simp: filter_empty_conv)
  then show ?thesis
    using filter_rm_first[of "\<lambda>rt. FaceID rt = face" "routes_of r n"] unfolding length_greater_0_conv[symmetric] by linarith
qed

theorem CleanUpFace_remaining_witness:
  "\<exists>r f r' f'. fold (rib_step toy_enc (tree_ops toy_enc)) [AddOp [] 3 0 9 0 None, AddOp [] 3 255 4 0 None] (Rib_init, newFibStrategyTableTree toy_enc) = (r, f) \<and>
    CleanUpFace (tree_ops toy_enc) (r, f) 3 = (r', f') \<and>
    (tree_nh f' [] 3 \<noteq> None \<longleftrightarrow> 2 \<le> length (filter (\<lambda>rt. FaceID rt = 3) (routes_of r [])))"
proof -
  obtain r f where e: "fold (rib_step toy_enc (tree_ops toy_enc)) [AddOp [] 3 0 9 0 None, AddOp [] 3 255 4 0 None] (Rib_init, newFibStrategyTableTree toy_enc) = (r, f)"
    by (metis prod.exhaust)
  obtain r' f' where c: "CleanUpFace (tree_ops toy_enc) (r, f) 3 = (r', f')" by fastforce
  have "rib_inv UNIV (tree_inv toy_enc) tree_nh (r, f)"
    using ftn.rib_run_inv_nil[OF toy_enc_laws refl tree_start[OF toy_enc_laws]] e by metis
  from CleanUpFace_remaining[OF this c, of "[]"] e c show ?thesis by blast
qed

text \<open>Removing a route from a node that only exists as an inner node clears, with the hash-table FIB, the nexthops
  of the root name, whatever routes the RIB holds for it.\<close>

theorem RemoveRouteEnc_inner_clears_root:
  assumes "enc_laws E" "flat r n = Some e" "rib_Name e = None" "routes e = []"
  shows "snd (RemoveRouteEnc E (ht_ops E) (r, f) n face orig) = ht_ClearNextHopsEnc E f (Some [])"
proof -
  have "snd (RemoveRouteEnc E (ht_ops E) (r, f) n face orig) = rib_updateNexthopsEnc (ht_ops E) None [] f"
    using assms by (simp add: RemoveRouteEnc_def rib_find_eq flat_nt_set routes_of_def Let_def)
  then show ?thesis
    by (simp add: rib_updateNexthopsEnc_def ht_ops_def ht_ClearNextHopsEnc_def nil_to_empty_def)
qed

theorem RemoveRouteEnc_inner_clears_root_witness:
  "snd (RemoveRouteEnc toy_enc (ht_ops toy_enc) (Rib_init, newFibStrategyTableHashTable toy_enc 1) [] 3 0) =
   ht_ClearNextHopsEnc toy_enc (newFibStrategyTableHashTable toy_enc 1) (Some [])"
  by (rule RemoveRouteEnc_inner_clears_root[OF toy_enc_laws]) (simp add: Rib_init_def new_rib_entry_def, simp+)

end
