(* ===== verification/Packets.thy ===== *)
theory Packets
  imports Go_Ndn
begin

text \<open>
  Packets as the forwarder handles them: \<^verbatim>\<open>ndn.PendingPacket\<close> (\<^verbatim>\<open>src/ndn/pending-packet.go\<close>) around the
  decoded packet, of which only the fields that the forwarder reads or writes are kept; the decoding
  itself is in the third-party package \<^verbatim>\<open>spec_2022\<close>. A pointer field is an option. Pending packets are shared
  by reference between the PIT, the Content Store and the faces, so they live in a store and are
  referred to by their address.
\<close>

record Interest =
  int_NameV :: name
  CanBePrefixV :: bool
  MustBeFreshV :: bool
  ForwardingHintV :: "name list option"
  NonceV :: "u32 option"
  HopLimitV :: "u8 option"

record MetaInfo =
  FreshnessPeriod :: "int option"

record Data =
  data_NameV :: name
  data_MetaInfo :: "MetaInfo option"

record PendingPacket =
  PitToken :: bytes
  CongestionMark :: "u64 option"
  IncomingFaceID :: "u64 option"
  NextHopFaceID :: "u64 option"
  CachePolicy :: "u64 option"
  pkt_Interest :: "Interest option"
  pkt_Data :: "Data option"
  RawBytes :: bytes
  NameCache :: string

type_synonym addr = nat
type_synonym store = "addr \<rightharpoonup> PendingPacket"

text \<open>Times are nanoseconds; \<^verbatim>\<open>time.Millisecond\<close> is a million of them.\<close>

definition Millisecond :: int where
  "Millisecond = 1000000"

end
