(* ===== verification/Cs_Lru.thy ===== *)
theory Cs_Lru
  imports Prelude
begin

text \<open>
  The least-recently-used replacement policy of \<^verbatim>\<open>src/table/cs-lru.go\<close>, behind the interface
  \<^verbatim>\<open>CsReplacementPolicy\<close> of \<^verbatim>\<open>src/table/cs-replacement.go\<close>. The queue is a
  \<^verbatim>\<open>container/list\<close> whose elements the map \<open>locations\<close> points to; an element is a pair of its identity
  (a number that \<open>PushBack\<close> never reuses) and its value, so that removing an element that is no longer
  in the list has no effect, as in Go.
\<close>

record CsLRU =
  lru_queue :: "(nat \<times> u64) list"
  lru_next :: nat
  locations :: "u64 \<rightharpoonup> nat"

definition NewCsLRU :: CsLRU where
  "NewCsLRU = \<lparr>lru_queue = [], lru_next = 0, locations = Map.empty\<rparr>"

definition list_PushBack :: "u64 \<Rightarrow> CsLRU \<Rightarrow> CsLRU \<times> nat" where
  "list_PushBack index l = (l\<lparr>lru_queue := lru_queue l @ [(lru_next l, index)], lru_next := Suc (lru_next l)\<rparr>, lru_next l)"

definition list_Remove :: "nat \<Rightarrow> CsLRU \<Rightarrow> CsLRU" where
  "list_Remove location l = l\<lparr>lru_queue := filter (\<lambda>x. fst x \<noteq> location) (lru_queue l)\<rparr>"

definition lru_AfterInsert :: "CsLRU \<Rightarrow> u64 \<Rightarrow> CsLRU" where
  "lru_AfterInsert l index =
     (let (l1, e) = list_PushBack index l in l1\<lparr>locations := (locations l1)(index \<mapsto> e)\<rparr>)"

definition lru_AfterRefresh :: "CsLRU \<Rightarrow> u64 \<Rightarrow> CsLRU" where
  "lru_AfterRefresh l index =
     (let l1 = (case locations l index of Some location \<Rightarrow> list_Remove location l | None \<Rightarrow> l);
          (l2, e) = list_PushBack index l1
      in l2\<lparr>locations := (locations l2)(index \<mapsto> e)\<rparr>)"

definition lru_BeforeErase :: "CsLRU \<Rightarrow> u64 \<Rightarrow> CsLRU" where
  "lru_BeforeErase l index =
     (case locations l index of
        Some location \<Rightarrow> let l1 = list_Remove location l in l1\<lparr>locations := (locations l1)(index := None)\<rparr>
      | None \<Rightarrow> l)"

definition lru_BeforeUse :: "CsLRU \<Rightarrow> u64 \<Rightarrow> CsLRU" where
  "lru_BeforeUse l index =
     (let l1 = (case locations l index of Some location \<Rightarrow> list_Remove location l | None \<Rightarrow> l);
          (l2, e) = list_PushBack index l1
      in l2\<lparr>locations := (locations l2)(index \<mapsto> e)\<rparr>)"

text \<open>
  \<open>EvictEntries\<close> calls back into the Content Store (\<open>erase\<close>). The front of an empty list is nil, so a
  negative capacity makes the loop dereference nil.
\<close>

function lru_EvictEntries :: "int \<Rightarrow> (u64 \<Rightarrow> 'cs \<Rightarrow> 'cs) \<Rightarrow> CsLRU \<Rightarrow> 'cs \<Rightarrow> (CsLRU \<times> 'cs) result" where
  "lru_EvictEntries csCapacity erase l cs =
     (if int (length (lru_queue l)) > csCapacity
      then (case lru_queue l of
              [] \<Rightarrow> Inl NilDereference
            | (e, indexToErase) # rest \<Rightarrow>
                lru_EvictEntries csCapacity erase (l\<lparr>lru_queue := rest\<rparr>) (erase indexToErase cs))
      else Inr (l, cs))"
  by pat_completeness auto
termination
  by (relation "measure (\<lambda>(c, e, l, cs). length (lru_queue l))") auto

declare lru_EvictEntries.simps [simp del]

section \<open>The contract of a replacement policy\<close>

text \<open>
  \<open>tracked\<close> lists the indices the policy keeps, next victim first. The Content Store relies on three laws:
  an inserted, refreshed or used index is tracked, an erased one is not, and eviction erases a
  prefix of the list until the capacity is met.
\<close>

locale cs_replacement =
  fixes pinv :: "'l \<Rightarrow> bool"
    and tracked :: "'l \<Rightarrow> u64 list"
    and AfterInsert :: "'l \<Rightarrow> u64 \<Rightarrow> 'l"
    and AfterRefresh :: "'l \<Rightarrow> u64 \<Rightarrow> 'l"
    and BeforeErase :: "'l \<Rightarrow> u64 \<Rightarrow> 'l"
    and BeforeUse :: "'l \<Rightarrow> u64 \<Rightarrow> 'l"
    and EvictEntries :: "int \<Rightarrow> (u64 \<Rightarrow> 'cs \<Rightarrow> 'cs) \<Rightarrow> 'l \<Rightarrow> 'cs \<Rightarrow> ('l \<times> 'cs) result"
  assumes tracked_distinct: "pinv l \<Longrightarrow> distinct (tracked l)"
    and insert_pol: "pinv l \<Longrightarrow> i \<notin> set (tracked l) \<Longrightarrow> pinv (AfterInsert l i)"
      "pinv l \<Longrightarrow> i \<notin> set (tracked l) \<Longrightarrow> set (tracked (AfterInsert l i)) = insert i (set (tracked l))"
    and refresh_pol: "pinv l \<Longrightarrow> pinv (AfterRefresh l i)"
      "pinv l \<Longrightarrow> i \<in> set (tracked l) \<Longrightarrow> set (tracked (AfterRefresh l i)) = set (tracked l)"
    and use_pol: "pinv l \<Longrightarrow> pinv (BeforeUse l i)"
      "pinv l \<Longrightarrow> i \<in> set (tracked l) \<Longrightarrow> set (tracked (BeforeUse l i)) = set (tracked l)"
    and erase_pol: "pinv l \<Longrightarrow> pinv (BeforeErase l i)"
      "pinv l \<Longrightarrow> set (tracked (BeforeErase l i)) = set (tracked l) - {i}"
    and evict_pol: "pinv l \<Longrightarrow> 0 \<le> c \<Longrightarrow>
      \<exists>l'. EvictEntries c er l cs = Inr (l', fold er (take (length (tracked l) - nat c) (tracked l)) cs) \<and>
        pinv l' \<and> tracked l' = drop (length (tracked l) - nat c) (tracked l)"
begin

text \<open>
  Eviction keeps a store in step with its policy: when the store holds exactly the tracked indices
  before, it does so after, and then it is within its capacity.
\<close>

lemma evict_in_step:
  assumes "pinv l" "0 \<le> c" "set (tracked l) = stored cs" "\<And>i s. stored (er i s) = stored s - {i}"
  shows "\<exists>l' cs' victims. EvictEntries c er l cs = Inr (l', cs') \<and> cs' = fold er victims cs \<and> pinv l' \<and>
    tracked l = victims @ tracked l' \<and> set (tracked l') = stored cs' \<and> length (tracked l') \<le> nat c"
proof -
  let ?k = "length (tracked l) - nat c"
  obtain l' where l': "EvictEntries c er l cs = Inr (l', fold er (take ?k (tracked l)) cs)"
    "pinv l'" "tracked l' = drop ?k (tracked l)" using evict_pol[OF assms(1,2)] by blast
  have "stored (fold er xs s) = stored s - set xs" for xs s
    by (induction xs arbitrary: s) (auto simp: assms(4))
  then have "stored (fold er (take ?k (tracked l)) cs) = set (tracked l) - set (take ?k (tracked l))"
    by (simp add: assms(3))
  also have "\<dots> = set (drop ?k (tracked l))"
    using tracked_distinct[OF assms(1)] set_take_disj_set_drop_if_distinct[of "tracked l" ?k ?k]
    by (subst append_take_drop_id[of ?k "tracked l", symmetric]) (auto simp del: append_take_drop_id)
  finally have "set (tracked l') = stored (fold er (take ?k (tracked l)) cs)" using l'(3) by simp
  moreover have "length (tracked l') \<le> nat c" using l'(3) by simp
  ultimately show ?thesis using l' by (metis append_take_drop_id)
qed

end

section \<open>The LRU policy meets it\<close>

text \<open>
  Every element of the queue is the one its index is located at; locations of evicted indices stay
  behind, pointing to elements that are in no list.
\<close>

definition lru_inv :: "CsLRU \<Rightarrow> bool" where
  "lru_inv l =
     (distinct (map fst (lru_queue l)) \<and>
      (\<forall>(e, i) \<in> set (lru_queue l). locations l i = Some e) \<and>
      (\<forall>i e. locations l i = Some e \<longrightarrow> e < lru_next l) \<and>
      (\<forall>i j e. locations l i = Some e \<longrightarrow> locations l j = Some e \<longrightarrow> i = j))"

definition lru_tracked :: "CsLRU \<Rightarrow> u64 list" where
  "lru_tracked l = map snd (lru_queue l)"

lemma lru_invD:
  assumes "lru_inv l"
  shows "(e, i) \<in> set (lru_queue l) \<Longrightarrow> locations l i = Some e" "locations l i = Some e \<Longrightarrow> e < lru_next l"
    "locations l i = Some e \<Longrightarrow> locations l j = Some e \<Longrightarrow> i = j" "distinct (map fst (lru_queue l))"
  using assms unfolding lru_inv_def by blast+

lemma lru_tracked_distinct: "lru_inv l \<Longrightarrow> distinct (lru_tracked l)"
proof -
  assume l: "lru_inv l"
  have "inj_on snd (set (lru_queue l))"
    using lru_invD(1)[OF l] by (intro inj_onI) (metis option.inject prod.collapse)
  moreover have "distinct (lru_queue l)" using lru_invD(4)[OF l] by (auto simp: distinct_map)
  ultimately show ?thesis by (simp add: lru_tracked_def distinct_map)
qed

lemma lru_push:
  assumes "lru_inv l" "i \<notin> set (lru_tracked l)"
  defines "l' \<equiv> l\<lparr>lru_queue := lru_queue l @ [(lru_next l, i)], lru_next := Suc (lru_next l), locations := (locations l)(i \<mapsto> lru_next l)\<rparr>"
  shows "lru_inv l'" "lru_tracked l' = lru_tracked l @ [i]"
proof -
  note D = lru_invD[OF assms(1)]
  have "lru_next l \<notin> fst ` set (lru_queue l)" using D(1,2) by (metis (no_types) imageE less_irrefl prod.collapse)
  moreover have "j \<noteq> i" if "(e, j) \<in> set (lru_queue l)" for e j
    using that assms(2) by (force simp: lru_tracked_def)
  moreover have "locations l j \<noteq> Some (lru_next l)" for j using D(2)[of j "lru_next l"] by auto
  ultimately show "lru_inv l'"
    unfolding lru_inv_def l'_def using D by (auto simp: less_Suc_eq)
  show "lru_tracked l' = lru_tracked l @ [i]" by (simp add: l'_def lru_tracked_def)
qed

lemma lru_remove:
  assumes "lru_inv l" "locations l i = Some e"
  shows "lru_inv (list_Remove e l)" "lru_tracked (list_Remove e l) = filter (\<lambda>j. j \<noteq> i) (lru_tracked l)"
proof -
  note D = lru_invD[OF assms(1)]
  show "lru_inv (list_Remove e l)"
    using assms(1) unfolding lru_inv_def list_Remove_def by (auto simp: distinct_map inj_on_def)
  have "fst x \<noteq> e \<longleftrightarrow> snd x \<noteq> i" if "x \<in> set (lru_queue l)" for x
    using D(1)[of "fst x" "snd x"] D(3)[of i e "snd x"] assms(2) that by auto
  then show "lru_tracked (list_Remove e l) = filter (\<lambda>j. j \<noteq> i) (lru_tracked l)"
    by (simp add: lru_tracked_def list_Remove_def filter_map o_def cong: filter_cong)
qed

lemma list_Remove_simps [simp]: "locations (list_Remove e l) = locations l" "lru_next (list_Remove e l) = lru_next l"
  by (simp_all add: list_Remove_def)

text \<open>Moving an index to the back of the queue, the effect of \<open>AfterRefresh\<close> and of \<open>BeforeUse\<close>.\<close>

lemma lru_move_to_back:
  assumes "lru_inv l"
  shows "lru_inv (lru_BeforeUse l i)" "lru_tracked (lru_BeforeUse l i) = filter (\<lambda>j. j \<noteq> i) (lru_tracked l) @ [i]"
    "lru_AfterRefresh l i = lru_BeforeUse l i"
proof -
  have "lru_inv (lru_BeforeUse l i) \<and> lru_tracked (lru_BeforeUse l i) = filter (\<lambda>j. j \<noteq> i) (lru_tracked l) @ [i]"
  proof (cases "locations l i")
    case None
    then have n: "i \<notin> set (lru_tracked l)" using lru_invD(1)[OF assms] by (force simp: lru_tracked_def)
    then have "filter (\<lambda>j. j \<noteq> i) (lru_tracked l) = lru_tracked l" by (auto simp: filter_id_conv)
    with None lru_push[OF assms n] show ?thesis by (simp add: lru_BeforeUse_def list_PushBack_def)
  next
    case (Some e)
    note r = lru_remove[OF assms Some]
    from lru_push[OF r(1), of i] r(2) Some show ?thesis by (simp add: lru_BeforeUse_def list_PushBack_def Let_def)
  qed
  then show "lru_inv (lru_BeforeUse l i)" "lru_tracked (lru_BeforeUse l i) = filter (\<lambda>j. j \<noteq> i) (lru_tracked l) @ [i]" by simp_all
  show "lru_AfterRefresh l i = lru_BeforeUse l i" by (simp add: lru_AfterRefresh_def lru_BeforeUse_def)
qed

lemma lru_BeforeErase_spec:
  assumes "lru_inv l"
  shows "lru_inv (lru_BeforeErase l i)" "lru_tracked (lru_BeforeErase l i) = filter (\<lambda>j. j \<noteq> i) (lru_tracked l)"
proof -
  have "lru_inv (lru_BeforeErase l i) \<and> lru_tracked (lru_BeforeErase l i) = filter (\<lambda>j. j \<noteq> i) (lru_tracked l)"
  proof (cases "locations l i")
    case None
    then have "i \<notin> set (lru_tracked l)" using lru_invD(1)[OF assms] by (force simp: lru_tracked_def)
    then have "filter (\<lambda>j. j \<noteq> i) (lru_tracked l) = lru_tracked l" by (auto simp: filter_id_conv)
    with None assms show ?thesis by (simp add: lru_BeforeErase_def)
  next
    case (Some e)
    note r = lru_remove[OF assms Some]
    have "j \<noteq> i" if "(e', j) \<in> set (lru_queue (list_Remove e l))" for e' j
    proof -
      have "j \<in> set (lru_tracked (list_Remove e l))" using that by (force simp: lru_tracked_def)
      then show ?thesis unfolding r(2) by simp
    qed
    then have "lru_inv ((list_Remove e l)\<lparr>locations := (locations l)(i := None)\<rparr>)"
      using lru_invD[OF r(1)] unfolding lru_inv_def by auto
    with r Some show ?thesis by (simp add: lru_BeforeErase_def Let_def lru_tracked_def)
  qed
  then show "lru_inv (lru_BeforeErase l i)" "lru_tracked (lru_BeforeErase l i) = filter (\<lambda>j. j \<noteq> i) (lru_tracked l)" by simp_all
qed

lemma lru_Evict_spec:
  assumes "lru_inv l" "0 \<le> c"
  shows "\<exists>l'. lru_EvictEntries c er l cs = Inr (l', fold er (take (length (lru_tracked l) - nat c) (lru_tracked l)) cs) \<and>
    lru_inv l' \<and> lru_tracked l' = drop (length (lru_tracked l) - nat c) (lru_tracked l)"
  using assms
proof (induction c er l cs rule: lru_EvictEntries.induct)
  case (1 c er l cs)
  show ?case
  proof (cases "int (length (lru_queue l)) > c")
    case False
    then have "length (lru_tracked l) - nat c = 0" by (simp add: lru_tracked_def)
    with False "1.prems" show ?thesis by (simp add: lru_EvictEntries.simps[of c])
  next
    case True
    with "1.prems"(2) obtain e i rest where q: "lru_queue l = (e, i) # rest" by (cases "lru_queue l") auto
    let ?l = "l\<lparr>lru_queue := rest\<rparr>"
    have inv: "lru_inv ?l" using "1.prems"(1) q unfolding lru_inv_def by auto
    have k: "length (lru_tracked l) - nat c = Suc (length (lru_tracked ?l) - nat c)"
      using True "1.prems"(2) q by (simp add: lru_tracked_def nat_less_iff Suc_diff_le)
    have t: "lru_tracked l = i # lru_tracked ?l" using q by (simp add: lru_tracked_def)
    have "lru_EvictEntries c er l cs = lru_EvictEntries c er ?l (er i cs)"
      using True q by (simp add: lru_EvictEntries.simps[of c er l])
    with "1.IH"[OF True q refl inv "1.prems"(2)] show ?thesis unfolding k by (simp add: t)
  qed
qed

interpretation lru: cs_replacement lru_inv lru_tracked lru_AfterInsert lru_AfterRefresh lru_BeforeErase lru_BeforeUse lru_EvictEntries
proof
  fix l i assume l: "lru_inv l"
  show "distinct (lru_tracked l)" by (rule lru_tracked_distinct[OF l])
  show "lru_inv (lru_AfterInsert l i)" if "i \<notin> set (lru_tracked l)"
    using lru_push(1)[OF l that] by (simp add: lru_AfterInsert_def list_PushBack_def)
  show "set (lru_tracked (lru_AfterInsert l i)) = insert i (set (lru_tracked l))" if "i \<notin> set (lru_tracked l)"
    using lru_push(2)[OF l that] by (simp add: lru_AfterInsert_def list_PushBack_def)
  show "lru_inv (lru_AfterRefresh l i)" "lru_inv (lru_BeforeUse l i)" "lru_inv (lru_BeforeErase l i)"
    by (simp_all add: lru_move_to_back[OF l] lru_BeforeErase_spec[OF l])
  show "set (lru_tracked (lru_AfterRefresh l i)) = set (lru_tracked l)"
    "set (lru_tracked (lru_BeforeUse l i)) = set (lru_tracked l)" if "i \<in> set (lru_tracked l)"
    using that by (auto simp: lru_move_to_back[OF l])
  show "set (lru_tracked (lru_BeforeErase l i)) = set (lru_tracked l) - {i}"
    by (auto simp: lru_BeforeErase_spec[OF l])
qed (rule lru_Evict_spec)

lemma NewCsLRU_inv: "lru_inv NewCsLRU" "lru_tracked NewCsLRU = []"
  by (simp_all add: lru_inv_def lru_tracked_def NewCsLRU_def)

section \<open>Properties\<close>

text \<open>The policy is least-recently-used: inserting, refreshing and using an index move it behind all others and
  keep the order of the others, and erasing one drops it; the map of locations never loses track of an element.\<close>

theorem lru_order:
  assumes "lru_inv l"
  shows "lru_inv (lru_AfterRefresh l i) \<and> lru_tracked (lru_AfterRefresh l i) = filter (\<lambda>j. j \<noteq> i) (lru_tracked l) @ [i] \<and>
    lru_inv (lru_BeforeUse l i) \<and> lru_tracked (lru_BeforeUse l i) = filter (\<lambda>j. j \<noteq> i) (lru_tracked l) @ [i] \<and>
    lru_inv (lru_BeforeErase l i) \<and> lru_tracked (lru_BeforeErase l i) = filter (\<lambda>j. j \<noteq> i) (lru_tracked l) \<and>
    (i \<notin> set (lru_tracked l) \<longrightarrow> lru_inv (lru_AfterInsert l i) \<and> lru_tracked (lru_AfterInsert l i) = lru_tracked l @ [i])"
  using lru_move_to_back[OF assms] lru_BeforeErase_spec[OF assms] lru_push[OF assms]
  by (simp add: lru_AfterInsert_def list_PushBack_def)

theorem lru_order_witness:
  "lru_tracked (lru_AfterInsert (lru_AfterInsert NewCsLRU 4) 5) = [4, 5] \<and>
   lru_tracked (lru_BeforeUse (lru_AfterInsert (lru_AfterInsert NewCsLRU 4) 5) 4) = [5, 4]"
proof -
  have 1: "lru_inv (lru_AfterInsert NewCsLRU 4)" "lru_tracked (lru_AfterInsert NewCsLRU 4) = [4]"
    using lru_order[OF NewCsLRU_inv(1), of 4] by (simp_all add: NewCsLRU_inv)
  have 2: "lru_inv (lru_AfterInsert (lru_AfterInsert NewCsLRU 4) 5)" "lru_tracked (lru_AfterInsert (lru_AfterInsert NewCsLRU 4) 5) = [4, 5]"
    using lru_order[OF 1(1), of 5] 1(2) by simp_all
  then show ?thesis using lru_order[OF 2(1), of 4] by simp
qed

text \<open>Eviction with a non-negative capacity terminates without panic and erases exactly the least recently used
  indices that exceed the capacity, oldest first; with a negative capacity it dereferences the front of an empty
  list.\<close>

theorem lru_evicts_oldest:
  assumes "lru_inv l"
  shows "(0 \<le> c \<longrightarrow> (\<exists>l'. lru_EvictEntries c er l cs = Inr (l', fold er (take (length (lru_tracked l) - nat c) (lru_tracked l)) cs) \<and>
      lru_inv l' \<and> lru_tracked l' = drop (length (lru_tracked l) - nat c) (lru_tracked l))) \<and>
    (c < 0 \<longrightarrow> lru_EvictEntries c er l cs = Inl NilDereference)"
proof -
  have "c < 0 \<Longrightarrow> lru_EvictEntries c er l cs = Inl NilDereference"
    by (induction c er l cs rule: lru_EvictEntries.induct)
      (auto simp: lru_EvictEntries.simps[of c] lru_EvictEntries.simps split: list.split)
  then show ?thesis using lru_Evict_spec[OF assms, of c er cs] by blast
qed

theorem lru_evicts_oldest_witness:
  "\<exists>l'. lru_EvictEntries 1 (\<lambda>i s. s - {i}) (lru_AfterInsert (lru_AfterInsert NewCsLRU 4) 5) {4, 5} = Inr (l', {5}) \<and> lru_tracked l' = [5]"
proof -
  have 1: "lru_inv (lru_AfterInsert (lru_AfterInsert NewCsLRU 4) 5)" "lru_tracked (lru_AfterInsert (lru_AfterInsert NewCsLRU 4) 5) = [4, 5]"
    using lru_push[OF NewCsLRU_inv(1), of 4] lru_push[of "lru_AfterInsert NewCsLRU 4" 5]
    by (simp_all add: NewCsLRU_inv lru_AfterInsert_def list_PushBack_def)
  show ?thesis using lru_evicts_oldest[OF 1(1), of 1 "\<lambda>i s. s - {i}" "{4, 5}"] 1(2) by (auto simp: insert_Diff_if)
qed

end
