(* ===== verification/Pit_Cs.thy ===== *)
theory Pit_Cs
  imports Packets Heap_Queue Name_Tree Cs_Lru
begin

text \<open>
  The combined Pending Interest Table and Content Store of \<^verbatim>\<open>src/table/pit-cs.go\<close> and
  \<^verbatim>\<open>src/table/pit-cs-tree.go\<close>. A node of the tree is reached by the hashes of its components (the keys of
  the maps of children) and holds the addresses of its PIT entries and of its CS entry; the entries
  themselves are in two heaps, because the tree, the token map, the expiry queue and the caller share
  them by pointer. \<open>now\<close> is the reading of the clock in a straight-line operation.
\<close>

section \<open>Data\<close>

record PitInRecord =
  in_Face :: u64
  in_LatestTimestamp :: int
  in_LatestEncInterest :: addr
  in_LatestEncNonce :: u32
  in_ExpirationTime :: int
  in_PitToken :: bytes

record PitOutRecord =
  out_Face :: u64
  out_LatestTimestamp :: int
  out_LatestEncInterest :: addr
  out_LatestEncNonce :: u32
  out_ExpirationTime :: int

record nameTreePitEntry =
  encname :: name
  canBePrefix :: bool
  mustBeFresh :: bool
  forwardingHintNew :: "name option"
  inRecords :: "(u64 \<times> PitInRecord) list"
  outRecords :: "(u64 \<times> PitOutRecord) list"
  expirationTime :: int
  satisfied :: bool
  pit_token :: u32
  pe_node :: "u64 list"
  queueIndex :: int

record nameTreeCsEntry =
  cs_index :: u64
  staleTime :: int
  encData :: addr
  ce_node :: "u64 list"

record pitCsTreeNode =
  pitEntries :: "addr list"
  csEntry :: "addr option"

type_synonym pc_tree = "(u64, pitCsTreeNode) ntree"

record PitCsTree =
  pc_root :: pc_tree
  nPitEntries :: int
  pitTokenMap :: "u32 \<rightharpoonup> addr"
  nCsEntries :: int
  csReplacement :: CsLRU
  csMap :: "u64 \<rightharpoonup> addr"
  pitExpiryQueue :: "(addr, int) wrapper"
  pit_heap :: "addr \<rightharpoonup> nameTreePitEntry"
  cs_heap :: "addr \<rightharpoonup> nameTreeCsEntry"
  next_addr :: addr

definition empty_node :: pitCsTreeNode where
  "empty_node = \<lparr>pitEntries = [], csEntry = None\<rparr>"

definition NewPitCS :: PitCsTree where
  "NewPitCS =
     \<lparr>pc_root = Node empty_node [], nPitEntries = 0, pitTokenMap = Map.empty, nCsEntries = 0,
      csReplacement = NewCsLRU, csMap = Map.empty, pitExpiryQueue = pq_New,
      pit_heap = Map.empty, cs_heap = Map.empty, next_addr = 0\<rparr>"

section \<open>The tree\<close>

definition pc_key :: "enc_api \<Rightarrow> name \<Rightarrow> u64 list" where
  "pc_key E name = map (comp_Hash E) name"

definition pc_findExactMatchEntryEnc :: "enc_api \<Rightarrow> pc_tree \<Rightarrow> name \<Rightarrow> u64 list option" where
  "pc_findExactMatchEntryEnc E root name = nt_exact (=) root (pc_key E name)"

definition pc_findLongestPrefixEntryEnc :: "enc_api \<Rightarrow> pc_tree \<Rightarrow> name \<Rightarrow> u64 list" where
  "pc_findLongestPrefixEntryEnc E root name = nt_longest (=) root (pc_key E name)"

definition pc_fillTreeToPrefixEnc :: "enc_api \<Rightarrow> pc_tree \<Rightarrow> name \<Rightarrow> pc_tree \<times> u64 list" where
  "pc_fillTreeToPrefixEnc E root name =
     (let cur = pc_findLongestPrefixEntryEnc E root name
      in nt_chain (\<lambda>_. empty_node) cur (drop (length cur) (pc_key E name)) root)"

text \<open>A node that is no longer in the tree was pruned before: it has no entries and no children.\<close>

definition pc_node_empty :: "pc_tree \<Rightarrow> u64 list \<Rightarrow> bool" where
  "pc_node_empty root p =
     (case nt_get root p of
        None \<Rightarrow> True
      | Some n \<Rightarrow> nkids n = [] \<and> pitEntries (nval n) = [] \<and> csEntry (nval n) = None)"

function pc_pruneIfEmpty :: "u64 list \<Rightarrow> pc_tree \<Rightarrow> pc_tree" where
  "pc_pruneIfEmpty cur root =
     (if cur \<noteq> [] \<and> pc_node_empty root cur
      then pc_pruneIfEmpty (butlast cur) (nt_del (butlast cur) (last cur) root)
      else root)"
  by pat_completeness auto
termination
  by (relation "measure (\<lambda>(cur, root). length cur)") auto

declare pc_pruneIfEmpty.simps [simp del]

definition node_at :: "pc_tree \<Rightarrow> u64 list \<Rightarrow> pitCsTreeNode" where
  "node_at root path = (case flat root path of None \<Rightarrow> empty_node | Some n \<Rightarrow> n)"

abbreviation pc_node :: "PitCsTree \<Rightarrow> u64 list \<Rightarrow> pitCsTreeNode" where
  "pc_node p \<equiv> node_at (pc_root p)"

section \<open>PIT entries\<close>

definition upd_entry :: "addr \<Rightarrow> (nameTreePitEntry \<Rightarrow> nameTreePitEntry) \<Rightarrow> PitCsTree \<Rightarrow> PitCsTree" where
  "upd_entry a f p = p\<lparr>pit_heap := (pit_heap p)(a := map_option f (pit_heap p a))\<rparr>"

text \<open>The loop draws random tokens until one is free; the tape holds the numbers it draws.\<close>

fun generateNewPitToken :: "(u32 \<rightharpoonup> addr) \<Rightarrow> u32 list \<Rightarrow> (u32 \<times> u32 list) result" where
  "generateNewPitToken m [] = Inl RandExhausted"
| "generateNewPitToken m (token # tape) =
     (if m token = None then Inr (token, tape) else generateNewPitToken m tape)"

definition same_interest :: "enc_api \<Rightarrow> Interest \<Rightarrow> name option \<Rightarrow> nameTreePitEntry \<Rightarrow> bool" where
  "same_interest E interest hint e =
     (canBePrefix e = CanBePrefixV interest \<and> mustBeFresh e = MustBeFreshV interest \<and>
      ((hint = None \<and> forwardingHintNew e = None) \<or>
       name_Equal E (nil_to_empty hint) (nil_to_empty (forwardingHintNew e))))"

definition new_pit_entry :: "Interest \<Rightarrow> name option \<Rightarrow> u64 list \<Rightarrow> u32 \<Rightarrow> nameTreePitEntry" where
  "new_pit_entry interest hint node token =
     \<lparr>encname = int_NameV interest, canBePrefix = CanBePrefixV interest, mustBeFresh = MustBeFreshV interest,
      forwardingHintNew = hint, inRecords = [], outRecords = [], expirationTime = 0, satisfied = False,
      pit_token = token, pe_node = node, queueIndex = - 1\<rparr>"

text \<open>
  The search for a looping nonce, and then the cancelling of the expiration time. The nonce of the
  Interest is only dereferenced when another face has an in-record.
\<close>

definition nonce_loop :: "Interest \<Rightarrow> u64 \<Rightarrow> nameTreePitEntry \<Rightarrow> bool result" where
  "nonce_loop interest inFace e =
     (let others = filter (\<lambda>r. fst r \<noteq> inFace) (inRecords e)
      in if others = [] then Inr False
         else case NonceV interest of
                None \<Rightarrow> Inl NilDereference
              | Some nonce \<Rightarrow> Inr (\<exists>r\<in>set others. in_LatestEncNonce (snd r) = nonce))"

definition insert_finish :: "Interest \<Rightarrow> u64 \<Rightarrow> u32 list \<Rightarrow> PitCsTree \<Rightarrow> addr \<Rightarrow> (PitCsTree \<times> addr \<times> bool \<times> u32 list) result" where
  "insert_finish interest inFace tape p a =
     (case nonce_loop interest inFace (the (pit_heap p a)) of
        Inl err \<Rightarrow> Inl err
      | Inr True \<Rightarrow> Inr (p, a, True, tape)
      | Inr False \<Rightarrow> Inr (upd_entry a (\<lambda>e. e\<lparr>expirationTime := 0\<rparr>) p, a, False, tape))"

definition InsertInterest ::
  "enc_api \<Rightarrow> u32 list \<Rightarrow> PitCsTree \<Rightarrow> Interest \<Rightarrow> name option \<Rightarrow> u64 \<Rightarrow> (PitCsTree \<times> addr \<times> bool \<times> u32 list) result" where
  "InsertInterest E tape p interest hint inFace =
     (let (root1, node) = pc_fillTreeToPrefixEnc E (pc_root p) (int_NameV interest);
          p1 = p\<lparr>pc_root := root1\<rparr>
      in case List.find (\<lambda>a. same_interest E interest hint (the (pit_heap p1 a))) (pitEntries (pc_node p1 node)) of
           Some a \<Rightarrow> insert_finish interest inFace tape p1 a
         | None \<Rightarrow>
             (case generateNewPitToken (pitTokenMap p1) tape of
                Inl err \<Rightarrow> Inl err
              | Inr (token, tape1) \<Rightarrow>
                  let a = next_addr p1;
                      p2 = p1\<lparr>nPitEntries := nPitEntries p1 + 1,
                              pc_root := nt_set node (\<lambda>n. n\<lparr>pitEntries := pitEntries n @ [a]\<rparr>) root1,
                              pit_heap := (pit_heap p1)(a \<mapsto> new_pit_entry interest hint node token),
                              next_addr := a + 1,
                              pitTokenMap := (pitTokenMap p1)(token \<mapsto> a)\<rparr>
                  in insert_finish interest inFace tape1 p2 a))"

definition RemoveInterest :: "PitCsTree \<Rightarrow> addr \<Rightarrow> PitCsTree \<times> bool" where
  "RemoveInterest p a =
     (let e = the (pit_heap p a); node = pe_node e
      in case find_index (\<lambda>entry. entry = a) (pitEntries (pc_node p node)) of
           None \<Rightarrow> (p, False)
         | Some i \<Rightarrow>
             let root1 = nt_set node (\<lambda>n. n\<lparr>pitEntries := del_swap i (pitEntries n)\<rparr>) (pc_root p);
                 p1 = p\<lparr>pc_root := root1\<rparr>;
                 root2 = (if pitEntries (pc_node p1 node) = [] then pc_pruneIfEmpty node root1 else root1)
             in (p\<lparr>pc_root := root2, nPitEntries := nPitEntries p - 1,
                   pitTokenMap := (pitTokenMap p)(pit_token e := None)\<rparr>, True))"

definition FindInterestExactMatchEnc :: "enc_api \<Rightarrow> PitCsTree \<Rightarrow> Interest \<Rightarrow> addr option" where
  "FindInterestExactMatchEnc E p interest =
     (case pc_findExactMatchEntryEnc E (pc_root p) (int_NameV interest) of
        None \<Rightarrow> None
      | Some node \<Rightarrow>
          List.find (\<lambda>a. canBePrefix (the (pit_heap p a)) = CanBePrefixV interest \<and>
                         mustBeFresh (the (pit_heap p a)) = MustBeFreshV interest)
            (pitEntries (pc_node p node)))"

function pc_match_up :: "PitCsTree \<Rightarrow> nat \<Rightarrow> u64 list \<Rightarrow> addr list" where
  "pc_match_up p dataNameLen cur =
     filter (\<lambda>a. canBePrefix (the (pit_heap p a)) \<or> length cur = dataNameLen) (pitEntries (pc_node p cur)) @
     (if cur = [] then [] else pc_match_up p dataNameLen (butlast cur))"
  by pat_completeness auto
termination
  by (relation "measure (\<lambda>(p, l, cur). length cur)") auto

declare pc_match_up.simps [simp del]

definition findInterestPrefixMatchByNameEnc :: "enc_api \<Rightarrow> PitCsTree \<Rightarrow> name \<Rightarrow> addr list" where
  "findInterestPrefixMatchByNameEnc E p name =
     pc_match_up p (length name) (pc_findLongestPrefixEntryEnc E (pc_root p) name)"

definition FindInterestPrefixMatchByDataEnc :: "enc_api \<Rightarrow> PitCsTree \<Rightarrow> name \<Rightarrow> u32 option \<Rightarrow> addr list" where
  "FindInterestPrefixMatchByDataEnc E p dataName token =
     (case token of
        Some t \<Rightarrow>
          (case pitTokenMap p t of
             Some a \<Rightarrow> if pit_token (the (pit_heap p a)) = t then [a] else []
           | None \<Rightarrow> [])
      | None \<Rightarrow> findInterestPrefixMatchByNameEnc E p dataName)"

definition PitSize :: "PitCsTree \<Rightarrow> int" where
  "PitSize p = nPitEntries p"

definition CsSize :: "PitCsTree \<Rightarrow> int" where
  "CsSize p = nCsEntries p"

section \<open>In- and out-records\<close>

definition InsertInRecord ::
  "int \<Rightarrow> nameTreePitEntry \<Rightarrow> addr \<Rightarrow> u32 \<Rightarrow> u64 \<Rightarrow> bytes \<Rightarrow> nameTreePitEntry \<times> bool" where
  "InsertInRecord now e pkt nonce face incomingPitToken =
     (case map_of (inRecords e) face of
        None \<Rightarrow>
          (e\<lparr>inRecords := AList.update face
               \<lparr>in_Face = face, in_LatestTimestamp = now, in_LatestEncInterest = pkt, in_LatestEncNonce = nonce,
                in_ExpirationTime = now + 4000 * Millisecond, in_PitToken = incomingPitToken\<rparr> (inRecords e)\<rparr>, False)
      | Some record \<Rightarrow>
          (e\<lparr>inRecords := AList.update face
               (record\<lparr>in_LatestEncNonce := nonce, in_LatestTimestamp := now, in_LatestEncInterest := pkt,
                       in_ExpirationTime := now + 4000 * Millisecond\<rparr>) (inRecords e)\<rparr>, True))"

definition InsertOutRecord :: "int \<Rightarrow> nameTreePitEntry \<Rightarrow> addr \<Rightarrow> u32 \<Rightarrow> u64 \<Rightarrow> nameTreePitEntry" where
  "InsertOutRecord now e pkt nonce face =
     (case map_of (outRecords e) face of
        None \<Rightarrow>
          e\<lparr>outRecords := AList.update face
              \<lparr>out_Face = face, out_LatestTimestamp = now, out_LatestEncInterest = pkt, out_LatestEncNonce = nonce,
               out_ExpirationTime = now + 4000 * Millisecond\<rparr> (outRecords e)\<rparr>
      | Some record \<Rightarrow>
          e\<lparr>outRecords := AList.update face
              (record\<lparr>out_LatestEncNonce := nonce, out_LatestTimestamp := now, out_LatestEncInterest := pkt,
                      out_ExpirationTime := now + 4000 * Millisecond\<rparr>) (outRecords e)\<rparr>)"

definition GetOutRecords :: "nameTreePitEntry \<Rightarrow> PitOutRecord list" where
  "GetOutRecords e = map snd (outRecords e)"

section \<open>Expiration\<close>

definition updatePitExpiry :: "PitCsTree \<Rightarrow> addr \<Rightarrow> PitCsTree" where
  "updatePitExpiry p a =
     (let e = the (pit_heap p a)
      in if queueIndex e < 0
         then let (q, idx) = pq_Push (pitExpiryQueue p) a (expirationTime e)
              in upd_entry a (\<lambda>e. e\<lparr>queueIndex := idx\<rparr>) (p\<lparr>pitExpiryQueue := q\<rparr>)
         else p\<lparr>pitExpiryQueue := fst (pq_Update (pitExpiryQueue p) (queueIndex e) a (expirationTime e))\<rparr>)"

definition SetExpirationTimerToNow :: "int \<Rightarrow> PitCsTree \<Rightarrow> addr \<Rightarrow> PitCsTree" where
  "SetExpirationTimerToNow now p a = updatePitExpiry (upd_entry a (\<lambda>e. e\<lparr>expirationTime := now\<rparr>) p) a"

definition latest_expiration :: "int \<Rightarrow> nameTreePitEntry \<Rightarrow> int" where
  "latest_expiration now e =
     fold (\<lambda>r t. if out_ExpirationTime (snd r) > t then out_ExpirationTime (snd r) else t) (outRecords e)
       (fold (\<lambda>r t. if in_ExpirationTime (snd r) > t then in_ExpirationTime (snd r) else t) (inRecords e) now)"

definition UpdateExpirationTimer :: "int \<Rightarrow> PitCsTree \<Rightarrow> addr \<Rightarrow> PitCsTree" where
  "UpdateExpirationTimer now p a =
     updatePitExpiry (upd_entry a (\<lambda>e. e\<lparr>expirationTime := latest_expiration now e\<rparr>) p) a"

lemma down_from_length: "length (fst (down_from h i n)) = length h"
proof (induction h i n rule: down_from.induct)
  case (1 h i n)
  then show ?case by (subst down_from.simps) (auto simp: Let_def)
qed

lemma pq_Pop_length: "pq_Pop h = Inr (v, h') \<Longrightarrow> length h' < length h"
  by (auto simp: pq_Pop_def heap_Pop_def wrapper_Pop_def down_def Let_def split_beta down_from_length split: if_splits)

lemma RemoveInterest_queue [simp]: "pitExpiryQueue (fst (RemoveInterest p a)) = pitExpiryQueue p"
  by (simp add: RemoveInterest_def Let_def split: option.split)

text \<open>
  \<open>Update\<close> removes the entries that are due. \<open>onExpiration\<close> is the callback of the forwarding thread,
  whose state is \<open>'x\<close>; \<open>clock i\<close> is the \<open>i\<close>-th reading of the clock. Besides the state it returns the
  time until the next update.
\<close>

function pit_expire_loop ::
  "(nat \<Rightarrow> int) \<Rightarrow> nat \<Rightarrow> (nameTreePitEntry \<Rightarrow> 'x \<Rightarrow> 'x) \<Rightarrow> PitCsTree \<Rightarrow> 'x \<Rightarrow> (nat \<times> PitCsTree \<times> 'x) result" where
  "pit_expire_loop clock i onExpiration p x =
     (if pq_Len (pitExpiryQueue p) = 0 then Inr (i, p, x)
      else case pq_PeekPriority (pitExpiryQueue p) of
        Inl err \<Rightarrow> Inl err
      | Inr t \<Rightarrow>
          if \<not> t \<le> clock i then Inr (Suc i, p, x)
          else (case pq_Pop (pitExpiryQueue p) of
              Inl err \<Rightarrow> Inl err
            | Inr (a, q) \<Rightarrow>
                let p1 = upd_entry a (\<lambda>e. e\<lparr>queueIndex := - 1\<rparr>) (p\<lparr>pitExpiryQueue := q\<rparr>);
                    x1 = onExpiration (the (pit_heap p1 a)) x
                in pit_expire_loop clock (Suc i) onExpiration (fst (RemoveInterest p1 a)) x1))"
  by pat_completeness auto
termination
  by (relation "measure (\<lambda>(c, i, f, p, x). length (pitExpiryQueue p))") (auto simp: upd_entry_def pq_Pop_length)

declare pit_expire_loop.simps [simp del]

definition expiredPitTickerInterval :: int where
  "expiredPitTickerInterval = 100 * Millisecond"

definition next_update :: "int \<Rightarrow> PitCsTree \<Rightarrow> int result" where
  "next_update now p =
     (if pq_Len (pitExpiryQueue p) > 0
      then (case pq_PeekPriority (pitExpiryQueue p) of
              Inl err \<Rightarrow> Inl err
            | Inr t \<Rightarrow>
                let sleepTime = t - now
                in Inr (if sleepTime > 0
                        then (if sleepTime > expiredPitTickerInterval then expiredPitTickerInterval else sleepTime)
                        else expiredPitTickerInterval))
      else Inr expiredPitTickerInterval)"

definition pit_Update ::
  "(nat \<Rightarrow> int) \<Rightarrow> (nameTreePitEntry \<Rightarrow> 'x \<Rightarrow> 'x) \<Rightarrow> PitCsTree \<Rightarrow> 'x \<Rightarrow> (PitCsTree \<times> 'x \<times> int) result" where
  "pit_Update clock onExpiration p x =
     (case pit_expire_loop clock 0 onExpiration p x of
        Inl err \<Rightarrow> Inl err
      | Inr (i, p1, x1) \<Rightarrow>
          (case next_update (clock i) p1 of Inl err \<Rightarrow> Inl err | Inr d \<Rightarrow> Inr (p1, x1, d)))"

section \<open>The Content Store\<close>

definition cs_usable :: "int \<Rightarrow> PitCsTree \<Rightarrow> bool \<Rightarrow> addr \<Rightarrow> bool" where
  "cs_usable now p fresh a = (\<not> fresh \<or> now < staleTime (the (cs_heap p a)))"

fun first_some :: "'a option list \<Rightarrow> 'a option" where
  "first_some [] = None"
| "first_some (x # xs) = (case x of Some a \<Rightarrow> Some a | None \<Rightarrow> first_some xs)"

fun findMatchingDataCSPrefix :: "(addr \<Rightarrow> bool) \<Rightarrow> nat \<Rightarrow> nat \<Rightarrow> pc_tree \<Rightarrow> addr option" where
  "findMatchingDataCSPrefix ok nameLen depth (Node n children) =
     (if csEntry n \<noteq> None \<and> ok (the (csEntry n)) then csEntry n
      else if depth \<ge> nameLen
           then first_some (map (\<lambda>(k, child). findMatchingDataCSPrefix ok nameLen (Suc depth) child) children)
           else None)"

definition FindMatchingDataFromCS :: "enc_api \<Rightarrow> int \<Rightarrow> PitCsTree \<Rightarrow> Interest \<Rightarrow> PitCsTree \<times> addr option" where
  "FindMatchingDataFromCS E now p interest =
     (case pc_findExactMatchEntryEnc E (pc_root p) (int_NameV interest) of
        None \<Rightarrow> (p, None)
      | Some node \<Rightarrow>
          if \<not> CanBePrefixV interest
          then (case csEntry (pc_node p node) of
                  None \<Rightarrow> (p, None)
                | Some a \<Rightarrow>
                    if cs_usable now p (MustBeFreshV interest) a
                    then (p\<lparr>csReplacement := lru_BeforeUse (csReplacement p) (cs_index (the (cs_heap p a)))\<rparr>, Some a)
                    else (p, None))
          else (p, (case nt_get (pc_root p) node of
                      None \<Rightarrow> None
                    | Some t \<Rightarrow>
                        findMatchingDataCSPrefix (cs_usable now p (MustBeFreshV interest))
                          (length (int_NameV interest)) (length node) t)))"

definition eraseCsDataFromReplacementStrategy :: "u64 \<Rightarrow> PitCsTree \<Rightarrow> PitCsTree" where
  "eraseCsDataFromReplacementStrategy idx p =
     (case csMap p idx of
        None \<Rightarrow> p
      | Some a \<Rightarrow>
          p\<lparr>pc_root := nt_set (ce_node (the (cs_heap p a))) (\<lambda>n. n\<lparr>csEntry := None\<rparr>) (pc_root p),
            csMap := (csMap p)(idx := None), nCsEntries := nCsEntries p - 1\<rparr>)"

definition InsertData :: "enc_api \<Rightarrow> int \<Rightarrow> int \<Rightarrow> PitCsTree \<Rightarrow> addr \<Rightarrow> Data \<Rightarrow> PitCsTree result" where
  "InsertData E csCapacity now p pkt data =
     (let idx = name_Hash E (data_NameV data);
          stale = (case data_MetaInfo data of
                     Some mi \<Rightarrow> (case FreshnessPeriod mi of Some fp \<Rightarrow> now + fp | None \<Rightarrow> now)
                   | None \<Rightarrow> now)
      in case csMap p idx of
           Some a \<Rightarrow>
             Inr (p\<lparr>cs_heap := (cs_heap p)(a := map_option (\<lambda>c. c\<lparr>encData := pkt, staleTime := stale\<rparr>) (cs_heap p a)),
                    csReplacement := lru_AfterRefresh (csReplacement p) idx\<rparr>)
         | None \<Rightarrow>
             let (root1, node) = pc_fillTreeToPrefixEnc E (pc_root p) (data_NameV data);
                 a = next_addr p;
                 p1 = p\<lparr>nCsEntries := nCsEntries p + 1,
                        pc_root := nt_set node (\<lambda>n. n\<lparr>csEntry := Some a\<rparr>) root1,
                        cs_heap := (cs_heap p)(a \<mapsto> \<lparr>cs_index = idx, staleTime = stale, encData = pkt, ce_node = node\<rparr>),
                        next_addr := a + 1,
                        csMap := (csMap p)(idx \<mapsto> a),
                        csReplacement := lru_AfterInsert (csReplacement p) idx\<rparr>
             in case lru_EvictEntries csCapacity eraseCsDataFromReplacementStrategy (csReplacement p1) p1 of
                  Inl err \<Rightarrow> Inl err
                | Inr (l, p2) \<Rightarrow> Inr (p2\<lparr>csReplacement := l\<rparr>))"

section \<open>The tree steps on the view of the nodes\<close>

text \<open>\<open>node_at\<close> does not see nodes that carry nothing, so filling and pruning are invisible in it.\<close>

named_theorems node_steps \<open>tree operations on the view \<open>node_at\<close>\<close>

lemma pc_fill_eq: "pc_fillTreeToPrefixEnc E root n = nt_fill (=) (\<lambda>_. empty_node) root (pc_key E n)"
  by (simp add: pc_fillTreeToPrefixEnc_def pc_findLongestPrefixEntryEnc_def nt_fill_def)

lemma pc_fill_steps:
  assumes "nt_wf root" "pc_fillTreeToPrefixEnc E root n = (root1, path)"
  shows "path = pc_key E n" "node_at root1 = node_at root" "nt_wf root1" "flat root1 path \<noteq> None"
proof -
  note f = nt_fill_flat[OF assms(1), of "\<lambda>_. empty_node" "pc_key E n"]
  have e: "root1 = fst (nt_fill (=) (\<lambda>_. empty_node) root (pc_key E n))" "path = snd (nt_fill (=) (\<lambda>_. empty_node) root (pc_key E n))"
    using assms(2) by (simp_all add: pc_fill_eq)
  show p: "path = pc_key E n" by (simp add: e f(1))
  show "nt_wf root1" by (simp add: e f(3))
  show "node_at root1 = node_at root" by (auto simp: node_at_def e f(2) fun_eq_iff)
  show "flat root1 path \<noteq> None" by (simp add: p) (simp add: e f(2))
qed

lemma node_at_set [node_steps]:
  "node_at (nt_set path g root) = (if flat root path = None then node_at root else (node_at root)(path := g (node_at root path)))"
  by (auto simp: node_at_def flat_nt_set fun_eq_iff)

lemma node_at_present: "node_at root path \<noteq> empty_node \<Longrightarrow> flat root path \<noteq> None"
  by (auto simp: node_at_def split: option.splits)

lemma pc_prune_steps: "nt_wf root \<Longrightarrow> nt_wf (pc_pruneIfEmpty cur root) \<and> node_at (pc_pruneIfEmpty cur root) = node_at root"
proof (induction cur root rule: pc_pruneIfEmpty.induct)
  case (1 cur root)
  show ?case
  proof (cases "cur \<noteq> [] \<and> pc_node_empty root cur")
    case True
    have below: "flat root q = None" if pre: "prefix cur q" "q \<noteq> cur" for q
    proof -
      obtain k s where q: "q = cur @ k # s" using pre by (metis append_Nil2 neq_Nil_conv prefix_def)
      show ?thesis using True by (auto simp: q flat_append flat_Cons pc_node_empty_def split: option.splits)
    qed
    have "flat root cur = None \<or> flat root cur = Some empty_node"
      using True by (auto simp: pc_node_empty_def flat_def empty_node_def split: option.splits)
    moreover have "flat (nt_del (butlast cur) (last cur) root) = (flat root)(cur := None)"
      using True below by (auto simp: flat_nt_del fun_eq_iff)
    ultimately have "node_at (nt_del (butlast cur) (last cur) root) = node_at root"
      by (auto simp: node_at_def fun_eq_iff)
    with 1 True show ?thesis by (simp add: pc_pruneIfEmpty.simps[of cur root])
  next
    case False
    with 1 show ?thesis by (auto simp: pc_pruneIfEmpty.simps[of cur root])
  qed
qed

lemma pc_find_exact: "pc_findExactMatchEntryEnc E root n = (if flat root (pc_key E n) = None then None else Some (pc_key E n))"
  by (simp add: pc_findExactMatchEntryEnc_def nt_exact_eq)

lemma node_at_absent: "flat root path = None \<Longrightarrow> node_at root path = empty_node"
  by (simp add: node_at_def)

lemma empty_node_simps [simp]: "pitEntries empty_node = []" "csEntry empty_node = None"
  by (simp_all add: empty_node_def)

section \<open>Invariant of the PIT\<close>

text \<open>
  \<open>live p a\<close>: the entry at \<open>a\<close> hangs in the tree, at the node of its name. The token map holds exactly
  the live entries, each under its own token, and a node never has two entries that would aggregate.
\<close>

definition kind :: "nameTreePitEntry \<Rightarrow> bool \<times> bool \<times> name" where
  "kind e = (canBePrefix e, mustBeFresh e, nil_to_empty (forwardingHintNew e))"

definition interest_kind :: "Interest \<Rightarrow> name option \<Rightarrow> bool \<times> bool \<times> name" where
  "interest_kind i hint = (CanBePrefixV i, MustBeFreshV i, nil_to_empty hint)"

definition entry_of :: "PitCsTree \<Rightarrow> addr \<Rightarrow> nameTreePitEntry" where
  "entry_of p a = the (pit_heap p a)"

definition live :: "PitCsTree \<Rightarrow> addr \<Rightarrow> bool" where
  "live p a = (\<exists>path. a \<in> set (pitEntries (pc_node p path)))"

definition entry_at_node :: "enc_api \<Rightarrow> PitCsTree \<Rightarrow> u64 list \<Rightarrow> addr \<Rightarrow> bool" where
  "entry_at_node E p path a =
     (\<exists>e. pit_heap p a = Some e \<and> pe_node e = path \<and> path = pc_key E (encname e) \<and> pitTokenMap p (pit_token e) = Some a)"

definition pit_ok :: "enc_api \<Rightarrow> PitCsTree \<Rightarrow> bool" where
  "pit_ok E p =
     (enc_laws E \<and> nt_wf (pc_root p) \<and>
      (\<forall>path. distinct (pitEntries (pc_node p path)) \<and> inj_on (\<lambda>a. kind (entry_of p a)) (set (pitEntries (pc_node p path))) \<and>
        (\<forall>a\<in>set (pitEntries (pc_node p path)). entry_at_node E p path a)) \<and>
      (\<forall>t a. pitTokenMap p t = Some a \<longrightarrow> live p a \<and> pit_token (entry_of p a) = t) \<and>
      nPitEntries p = int (card (dom (pitTokenMap p))) \<and>
      (\<forall>a\<ge>next_addr p. pit_heap p a = None) \<and>
      pq_inv (pitExpiryQueue p))"

lemma pit_okD:
  assumes "pit_ok E p"
  shows "enc_laws E" "nt_wf (pc_root p)" "distinct (pitEntries (pc_node p path))"
    "inj_on (\<lambda>a. kind (entry_of p a)) (set (pitEntries (pc_node p path)))"
    "a \<in> set (pitEntries (pc_node p path)) \<Longrightarrow> entry_at_node E p path a"
    "pitTokenMap p t = Some a \<Longrightarrow> live p a \<and> pit_token (entry_of p a) = t"
    "nPitEntries p = int (card (dom (pitTokenMap p)))" "next_addr p \<le> a \<Longrightarrow> pit_heap p a = None" "pq_inv (pitExpiryQueue p)"
  using assms unfolding pit_ok_def by blast+

lemma live_entry:
  assumes "pit_ok E p" "live p a"
  shows "\<exists>e. pit_heap p a = Some e \<and> entry_of p a = e \<and> a \<in> set (pitEntries (pc_node p (pe_node e))) \<and>
    pe_node e = pc_key E (encname e) \<and> pitTokenMap p (pit_token e) = Some a"
  using assms pit_okD(5)[OF assms(1)] unfolding live_def entry_at_node_def entry_of_def by fastforce

lemma same_interest_kind: "enc_laws E \<Longrightarrow> same_interest E i hint e \<longleftrightarrow> kind e = interest_kind i hint"
  by (auto simp: same_interest_def kind_def interest_kind_def enc_lawsD nil_to_empty_def split: option.splits)

text \<open>An assignment to the mutable fields of an entry.\<close>

definition same_id :: "(nameTreePitEntry \<Rightarrow> nameTreePitEntry) \<Rightarrow> bool" where
  "same_id f = (\<forall>e. pe_node (f e) = pe_node e \<and> encname (f e) = encname e \<and> pit_token (f e) = pit_token e \<and> kind (f e) = kind e)"

lemma upd_entry_simps [simp]:
  "pc_root (upd_entry a f p) = pc_root p" "pitTokenMap (upd_entry a f p) = pitTokenMap p"
  "nPitEntries (upd_entry a f p) = nPitEntries p" "next_addr (upd_entry a f p) = next_addr p"
  "pitExpiryQueue (upd_entry a f p) = pitExpiryQueue p" "csMap (upd_entry a f p) = csMap p"
  "cs_heap (upd_entry a f p) = cs_heap p" "csReplacement (upd_entry a f p) = csReplacement p"
  "nCsEntries (upd_entry a f p) = nCsEntries p"
  "pit_heap (upd_entry a f p) = (pit_heap p)(a := map_option f (pit_heap p a))"
  by (simp_all add: upd_entry_def)

lemma pit_ok_upd:
  assumes "pit_ok E p" "same_id f"
  shows "pit_ok E (upd_entry a f p)"
proof -
  let ?p = "upd_entry a f p"
  note D = pit_okD[OF assms(1)]
  have e: "entry_at_node E ?p path b" if "entry_at_node E p path b" for path b
    using that assms(2) by (auto simp: entry_at_node_def same_id_def)
  have k: "kind (entry_of ?p b) = kind (entry_of p b) \<and> pit_token (entry_of ?p b) = pit_token (entry_of p b)" if "b \<in> set (pitEntries (pc_node p path))" for b path
    using D(5)[OF that] assms(2) by (auto simp: entry_of_def same_id_def entry_at_node_def)
  have "inj_on (\<lambda>b. kind (entry_of ?p b)) (set (pitEntries (pc_node p path)))" for path
    using D(4)[of path] k by (auto simp: inj_on_def)
  moreover have "live ?p b \<and> pit_token (entry_of ?p b) = t" if "pitTokenMap p t = Some b" for t b
    using D(6)[OF that] k by (auto simp: live_def)
  moreover have "pit_heap ?p b = None" if "next_addr p \<le> b" for b using D(8)[OF that] by auto
  ultimately show ?thesis unfolding pit_ok_def using D e by auto
qed

text \<open>A step that leaves the PIT part of the state alone.\<close>

lemma pit_ok_cong:
  assumes "pit_ok E p" "nt_wf (pc_root p')" "\<And>path. pitEntries (pc_node p' path) = pitEntries (pc_node p path)"
    "pitTokenMap p' = pitTokenMap p" "pit_heap p' = pit_heap p" "nPitEntries p' = nPitEntries p"
    "pq_inv (pitExpiryQueue p')" "next_addr p \<le> next_addr p'"
  shows "pit_ok E p'"
  using assms unfolding pit_ok_def live_def entry_at_node_def entry_of_def by auto

lemma live_cong: "(\<And>path. pitEntries (pc_node p' path) = pitEntries (pc_node p path)) \<Longrightarrow> live p' = live p"
  by (auto simp: live_def fun_eq_iff)

lemma pit_ok_insert:
  assumes ok: "pit_ok E p" and flat: "flat (pc_root p) path \<noteq> None" and e: "pe_node e = path" "path = pc_key E (encname e)"
    and tok: "pitTokenMap p (pit_token e) = None"
    and fresh: "\<And>b. b \<in> set (pitEntries (pc_node p path)) \<Longrightarrow> kind (entry_of p b) \<noteq> kind e"
  defines "a \<equiv> next_addr p"
  defines "p' \<equiv> p\<lparr>nPitEntries := nPitEntries p + 1,
      pc_root := nt_set path (\<lambda>n. n\<lparr>pitEntries := pitEntries n @ [a]\<rparr>) (pc_root p),
      pit_heap := (pit_heap p)(a \<mapsto> e), next_addr := a + 1, pitTokenMap := (pitTokenMap p)(pit_token e \<mapsto> a)\<rparr>"
  shows "pit_ok E p'" "live p' = (\<lambda>b. live p b \<or> b = a)" "\<not> live p a"
    "\<And>q. pitEntries (pc_node p' q) = pitEntries (pc_node p q) @ (if q = path then [a] else [])"
    "\<And>q. csEntry (pc_node p' q) = csEntry (pc_node p q)"
proof -
  note D = pit_okD[OF ok]
  have nodes: "pitEntries (pc_node p' q) = pitEntries (pc_node p q) @ (if q = path then [a] else [])"
    "csEntry (pc_node p' q) = csEntry (pc_node p q)" for q
    using flat by (auto simp: p'_def node_at_set)
  then show "\<And>q. pitEntries (pc_node p' q) = pitEntries (pc_node p q) @ (if q = path then [a] else [])"
    "\<And>q. csEntry (pc_node p' q) = csEntry (pc_node p q)" by simp_all
  have old: "b \<noteq> a \<and> entry_of p' b = entry_of p b" if b: "b \<in> set (pitEntries (pc_node p q))" for b q
    using D(5)[OF b] D(8)[of a] by (auto simp: entry_at_node_def a_def p'_def entry_of_def)
  show nl: "\<not> live p a" using old by (auto simp: live_def)
  show lv: "live p' = (\<lambda>b. live p b \<or> b = a)" by (auto simp: live_def nodes fun_eq_iff)
  have new: "entry_of p' a = e" by (simp add: entry_of_def p'_def)
  have "distinct (pitEntries (pc_node p' q))" for q using D(3)[of q] old[of a q] by (auto simp: nodes)
  moreover have "inj_on (\<lambda>b. kind (entry_of p' b)) (set (pitEntries (pc_node p' q)))" for q
  proof -
    have "inj_on (\<lambda>b. kind (entry_of p' b)) (set (pitEntries (pc_node p q)))"
      using D(4)[of q] old[of _ q] by (simp cong: inj_on_cong)
    moreover have "kind (entry_of p' a) \<noteq> kind (entry_of p' b)" if "b \<in> set (pitEntries (pc_node p path))" for b
      using fresh[OF that] old[OF that] new by metis
    ultimately show ?thesis by (cases "q = path") (auto simp: nodes)
  qed
  moreover have "entry_at_node E p' q b" if b: "b \<in> set (pitEntries (pc_node p' q))" for b q
  proof (cases "b = a")
    case True
    then have "q = path" using b old[of a q] by (auto simp: nodes split: if_splits)
    with True e show ?thesis by (simp add: entry_at_node_def p'_def)
  next
    case False
    then have "entry_at_node E p q b" using b D(5) by (auto simp: nodes split: if_splits)
    then obtain x where x: "pit_heap p b = Some x" "pe_node x = q" "q = pc_key E (encname x)" "pitTokenMap p (pit_token x) = Some b"
      unfolding entry_at_node_def by blast
    have "pit_heap p' b = Some x" using x(1) False by (simp add: p'_def)
    moreover have "pitTokenMap p' (pit_token x) = Some b" using x(4) tok by (auto simp: p'_def)
    ultimately show ?thesis unfolding entry_at_node_def using x(2,3) by blast
  qed
  moreover have "live p' b \<and> pit_token (entry_of p' b) = t" if t: "pitTokenMap p' t = Some b" for t b
  proof (cases "t = pit_token e")
    case True
    then have "b = a" using t by (simp add: p'_def)
    with True lv new show ?thesis by simp
  next
    case False
    then have b: "live p b" "pit_token (entry_of p b) = t" using t D(6) by (simp_all add: p'_def)
    then have "entry_of p' b = entry_of p b" using old by (auto simp: live_def)
    with b lv show ?thesis by simp
  qed
  moreover have "nPitEntries p' = int (card (dom (pitTokenMap p')))"
    using D(7) tok by (simp add: p'_def card_insert_if domIff)
  moreover have "pit_heap p' b = None" if "next_addr p' \<le> b" for b
    using that D(8)[of b] by (auto simp: p'_def a_def)
  ultimately show "pit_ok E p'" unfolding pit_ok_def using D(1,2,9) by (simp add: p'_def)
qed

lemma pit_ok_remove:
  assumes ok: "pit_ok E p" and i: "find_index (\<lambda>x. x = a) (pitEntries (pc_node p (pe_node (entry_of p a)))) = Some i"
  defines "path \<equiv> pe_node (entry_of p a)"
  defines "root1 \<equiv> nt_set path (\<lambda>n. n\<lparr>pitEntries := del_swap i (pitEntries n)\<rparr>) (pc_root p)"
  assumes r: "nt_wf root2" "node_at root2 = node_at root1"
  defines "p' \<equiv> p\<lparr>pc_root := root2, nPitEntries := nPitEntries p - 1, pitTokenMap := (pitTokenMap p)(pit_token (entry_of p a) := None)\<rparr>"
  shows "pit_ok E p'" "live p a" "live p' = (\<lambda>b. live p b \<and> b \<noteq> a)"
    "\<And>q. set (pitEntries (pc_node p' q)) = set (pitEntries (pc_node p q)) - {a}"
    "\<And>q. csEntry (pc_node p' q) = csEntry (pc_node p q)"
proof -
  note D = pit_okD[OF ok]
  let ?es = "pitEntries (pc_node p path)"
  have i': "i < length ?es" "?es ! i = a" using find_index_SomeD[OF i] by (simp_all add: path_def)
  then have mem: "a \<in> set ?es" using nth_mem by blast
  then have flat: "flat (pc_root p) path \<noteq> None" by (auto simp: node_at_def split: option.splits)
  have node: "pc_node p' = (pc_node p)(path := (pc_node p path)\<lparr>pitEntries := del_swap i ?es\<rparr>)"
    using flat by (auto simp: p'_def r root1_def node_at_set)
  have del: "mset (del_swap i ?es) = mset ?es - {#a#}" using mset_del_swap[OF i'(1)] i'(2) by simp
  have dd: "distinct (del_swap i ?es) \<and> set (del_swap i ?es) = set ?es - {a}"
  proof -
    have m: "mset (a # del_swap i ?es) = mset ?es" using del mem by simp
    then have "distinct (a # del_swap i ?es)" using D(3)[of path] mset_eq_imp_distinct_iff by blast
    moreover have "insert a (set (del_swap i ?es)) = set ?es" using mset_eq_setD[OF m] by simp
    ultimately show ?thesis by auto
  qed
  have at: "entry_at_node E p path a" using D(5)[OF mem] .
  have only: "q = path" if "a \<in> set (pitEntries (pc_node p q))" for q
    using D(5)[OF that] at by (auto simp: entry_at_node_def)
  show nodes: "set (pitEntries (pc_node p' q)) = set (pitEntries (pc_node p q)) - {a}" for q
    using dd only[of q] by (auto simp: node)
  show "csEntry (pc_node p' q) = csEntry (pc_node p q)" for q by (simp add: node)
  show "live p a" using mem by (auto simp: live_def)
  show lv: "live p' = (\<lambda>b. live p b \<and> b \<noteq> a)" by (auto simp: live_def nodes fun_eq_iff)
  have heap: "pit_heap p' = pit_heap p" "entry_of p' = entry_of p" by (simp_all add: p'_def entry_of_def fun_eq_iff)
  have tok: "pitTokenMap p (pit_token (entry_of p a)) = Some a" using at by (auto simp: entry_at_node_def entry_of_def)
  have inj: "inj_on (\<lambda>b. kind (entry_of p' b)) (set (pitEntries (pc_node p' q)))" for q
    using D(4)[of q] unfolding heap nodes by (rule inj_on_subset) auto
  have "entry_at_node E p' q b" if b: "b \<in> set (pitEntries (pc_node p' q))" for b q
  proof -
    have b': "b \<in> set (pitEntries (pc_node p q))" "b \<noteq> a" using b unfolding nodes by simp_all
    obtain e where e: "pit_heap p b = Some e" "pe_node e = q" "q = pc_key E (encname e)" "pitTokenMap p (pit_token e) = Some b"
      using D(5)[OF b'(1)] unfolding entry_at_node_def by blast
    have "pit_token e \<noteq> pit_token (entry_of p a)" using e(4) tok b'(2) by auto
    then have "pitTokenMap p' (pit_token e) = Some b" using e(4) by (simp add: p'_def)
    then show ?thesis unfolding entry_at_node_def using e heap(1) by metis
  qed
  moreover have "live p' b \<and> pit_token (entry_of p' b) = t" if t: "pitTokenMap p' t = Some b" for t b
  proof -
    have "live p b \<and> pit_token (entry_of p b) = t" "t \<noteq> pit_token (entry_of p a)"
      using t D(6) by (auto simp: p'_def split: if_splits)
    then show ?thesis unfolding heap lv by auto
  qed
  moreover have "nPitEntries p' = int (card (dom (pitTokenMap p')))"
  proof -
    let ?d = "dom (pitTokenMap p)" and ?t = "pit_token (entry_of p a)"
    have t: "?t \<in> ?d" using tok by blast
    then have "card ?d = Suc (card (?d - {?t}))" by (intro card.remove) simp
    moreover have "dom (pitTokenMap p') = ?d - {?t}" "nPitEntries p' = nPitEntries p - 1" by (simp_all add: p'_def)
    ultimately show ?thesis using D(7) by simp
  qed
  moreover have "distinct (pitEntries (pc_node p' q))" for q using D(3)[of q] dd by (auto simp: node)
  moreover have "nt_wf (pc_root p')" "\<forall>b\<ge>next_addr p'. pit_heap p' b = None" "pq_inv (pitExpiryQueue p')"
    using r(1) D(8,9) by (simp_all add: p'_def)
  ultimately show "pit_ok E p'" unfolding pit_ok_def using D(1) inj by blast
qed

section \<open>The operations of the PIT\<close>

lemma generateNewPitToken_fresh: "generateNewPitToken m tape = Inr (t, tape') \<Longrightarrow> m t = None \<and> t \<in> set tape"
  by (induction m tape rule: generateNewPitToken.induct) (auto split: if_splits)

lemma generateNewPitToken_total: "\<exists>t\<in>set tape. m t = None \<Longrightarrow> \<exists>t tape'. generateNewPitToken m tape = Inr (t, tape')"
  by (induction m tape rule: generateNewPitToken.induct) auto

lemma insert_finish_spec:
  assumes "insert_finish i f tape p a = Inr (p', a', dup, tape')"
  shows "a' = a" "tape' = tape" "nonce_loop i f (entry_of p a) = Inr dup"
    "p' = (if dup then p else upd_entry a (\<lambda>e. e\<lparr>expirationTime := 0\<rparr>) p)"
  using assms by (auto simp: insert_finish_def entry_of_def split: sum.splits bool.splits)

lemma insert_finish_total: "NonceV i \<noteq> None \<Longrightarrow> \<exists>r. insert_finish i f tape p a = Inr r"
  by (auto simp: insert_finish_def nonce_loop_def Let_def split: sum.split bool.split)

lemma same_id_expiration: "same_id (\<lambda>e. e\<lparr>expirationTime := t\<rparr>)" "same_id (\<lambda>e. e\<lparr>queueIndex := j\<rparr>)"
  "same_id (\<lambda>e. e\<lparr>satisfied := b\<rparr>)" "same_id (\<lambda>e. e\<lparr>inRecords := rs\<rparr>)" "same_id (\<lambda>e. e\<lparr>outRecords := os\<rparr>)"
  by (simp_all add: same_id_def kind_def)

lemma live_upd [simp]: "live (upd_entry a f p) = live p"
  by (simp add: live_def fun_eq_iff)

lemma entry_of_upd: "pit_heap p a \<noteq> None \<Longrightarrow> entry_of (upd_entry a f p) b = (if b = a then f (entry_of p a) else entry_of p b)"
  by (auto simp: entry_of_def)

text \<open>Everything but the expiration time is as it was when the entry was found or made.\<close>

definition pit_same :: "PitCsTree \<Rightarrow> PitCsTree \<Rightarrow> bool" where
  "pit_same p p' = (\<exists>a t. p' = p \<or> p' = upd_entry a (\<lambda>e. e\<lparr>expirationTime := t\<rparr>) p)"

lemma finish_keeps:
  assumes "pit_ok E p" "insert_finish i f tape p a = Inr (p', a', dup, tape')" "live p a"
  shows "pit_ok E p'" "live p' = live p" "a' = a" "pc_root p' = pc_root p" "nPitEntries p' = nPitEntries p"
    "pit_heap p' b = (if b = a \<and> \<not> dup then Some ((entry_of p a)\<lparr>expirationTime := 0\<rparr>) else pit_heap p b)"
    "nonce_loop i f (entry_of p a) = Inr dup" "pitTokenMap p' = pitTokenMap p"
  using insert_finish_spec[OF assms(2)] pit_ok_upd[OF assms(1) same_id_expiration(1)[of 0]] assms(1) live_entry[OF assms(1,3)]
  by (auto simp: entry_of_def)

definition find_entry :: "enc_api \<Rightarrow> PitCsTree \<Rightarrow> Interest \<Rightarrow> name option \<Rightarrow> addr option" where
  "find_entry E p i hint =
     List.find (\<lambda>a. same_interest E i hint (entry_of p a)) (pitEntries (pc_node p (pc_key E (int_NameV i))))"

lemma InsertInterest_cases:
  assumes ok: "pit_ok E p" and ins: "InsertInterest E tape p i hint f = Inr (p', a, dup, tape')"
  obtains (old) "find_entry E p i hint = Some a" "live p a" "pit_ok E p'" "live p' = live p" "nPitEntries p' = nPitEntries p"
      "node_at (pc_root p') = node_at (pc_root p)" "nonce_loop i f (entry_of p a) = Inr dup"
      "\<And>b. pit_heap p' b = (if b = a \<and> \<not> dup then Some ((entry_of p a)\<lparr>expirationTime := 0\<rparr>) else pit_heap p b)"
      "pitTokenMap p' = pitTokenMap p"
  | (new) token where "find_entry E p i hint = None" "\<not> live p a" "pit_ok E p'" "live p' = (\<lambda>b. live p b \<or> b = a)"
      "nPitEntries p' = nPitEntries p + 1" "\<And>q. csEntry (pc_node p' q) = csEntry (pc_node p q)" "dup = False"
      "entry_of p' a = new_pit_entry i hint (pc_key E (int_NameV i)) token" "\<And>b. b \<noteq> a \<Longrightarrow> pit_heap p' b = pit_heap p b"
      "pitTokenMap p token = None" "pitTokenMap p' = (pitTokenMap p)(token \<mapsto> a)"
proof -
  obtain root1 node where fl: "pc_fillTreeToPrefixEnc E (pc_root p) (int_NameV i) = (root1, node)" by fastforce
  note st = pc_fill_steps[OF pit_okD(2)[OF ok] fl]
  let ?p1 = "p\<lparr>pc_root := root1\<rparr>"
  have ok1: "pit_ok E ?p1" using st pit_okD(9)[OF ok] by (intro pit_ok_cong[OF ok]) simp_all
  have lv1: "live ?p1 = live p" by (rule live_cong) (simp add: st(2))
  have ent: "entry_of ?p1 = entry_of p" by (simp add: entry_of_def fun_eq_iff)
  have fe: "List.find (\<lambda>a. same_interest E i hint (the (pit_heap ?p1 a))) (pitEntries (pc_node ?p1 node)) = find_entry E p i hint"
    by (simp add: find_entry_def st(1,2) entry_of_def)
  show ?thesis
  proof (cases "find_entry E p i hint")
    case (Some b)
    then have fin: "insert_finish i f tape ?p1 b = Inr (p', a, dup, tape')"
      using ins unfolding InsertInterest_def fl fe Let_def split_conv by (simp add: fe[simplified])
    have "b \<in> set (pitEntries (pc_node p (pc_key E (int_NameV i))))"
      using Some unfolding find_entry_def find_Some_iff by auto
    then have "live ?p1 b" unfolding lv1 by (auto simp: live_def)
    note k = finish_keeps[OF ok1 fin this]
    show ?thesis
      by (rule old) (use k Some \<open>live ?p1 b\<close> in \<open>simp_all add: lv1 ent st(2)\<close>)
  next
    case None
    then obtain token tape1 where g: "generateNewPitToken (pitTokenMap p) tape = Inr (token, tape1)"
      using ins unfolding InsertInterest_def fl Let_def split_conv fe by (auto split: sum.splits)
    let ?e = "new_pit_entry i hint node token"
    let ?p2 = "?p1\<lparr>nPitEntries := nPitEntries ?p1 + 1,
        pc_root := nt_set node (\<lambda>n. n\<lparr>pitEntries := pitEntries n @ [next_addr ?p1]\<rparr>) (pc_root ?p1),
        pit_heap := (pit_heap ?p1)(next_addr ?p1 \<mapsto> ?e), next_addr := next_addr ?p1 + 1, pitTokenMap := (pitTokenMap ?p1)(pit_token ?e \<mapsto> next_addr ?p1)\<rparr>"
    have tok: "pitTokenMap p token = None" using generateNewPitToken_fresh[OF g] by simp
    have kd: "kind (entry_of ?p1 b) \<noteq> kind ?e" if "b \<in> set (pitEntries (pc_node ?p1 node))" for b
      using None that same_interest_kind[OF pit_okD(1)[OF ok], of i hint "entry_of p b"] unfolding find_entry_def find_None_iff
      by (auto simp: st(1,2) ent new_pit_entry_def kind_def interest_kind_def)
    note nw = pit_ok_insert[where p = ?p1 and path = node and e = ?e, OF ok1 _ _ _ _ kd]
    have pre: "flat (pc_root ?p1) node \<noteq> None" "pe_node ?e = node" "node = pc_key E (encname ?e)" "pitTokenMap ?p1 (pit_token ?e) = None"
      using st tok by (simp_all add: new_pit_entry_def)
    have fin: "insert_finish i f tape1 ?p2 (next_addr p) = Inr (p', a, dup, tape')"
      using ins None g unfolding InsertInterest_def fl Let_def split_conv fe by (simp add: new_pit_entry_def)
    note n2 = nw[OF pre]
    have "live ?p2 (next_addr p)" using n2(2) by simp
    note k = finish_keeps[OF n2(1) fin this]
    have e2: "entry_of ?p2 (next_addr p) = ?e" by (simp add: entry_of_def)
    have dup: "dup = False" using k(7) unfolding e2 by (simp add: nonce_loop_def new_pit_entry_def)
    show ?thesis
    proof (rule new[of token])
      show "\<not> live p a" using n2(3) k(3) by (simp add: lv1)
      show "live p' = (\<lambda>b. live p b \<or> b = a)" using n2(2) k(2,3) by (simp add: lv1)
      show "entry_of p' a = new_pit_entry i hint (pc_key E (int_NameV i)) token"
        using k(3) k(6)[of a] dup e2 st(1) by (simp add: entry_of_def[of p'] new_pit_entry_def)
      show "csEntry (pc_node p' q) = csEntry (pc_node p q)" for q using n2(5)[of q] k(4) by (simp add: st(2))
      show "pitTokenMap p' = (pitTokenMap p)(token \<mapsto> a)" using k(8,3) by (simp add: new_pit_entry_def)
    qed (use None k n2 dup tok in auto)
  qed
qed

lemma InsertInterest_total:
  assumes "NonceV i \<noteq> None" "\<exists>t\<in>set tape. pitTokenMap p t = None"
  shows "\<exists>r. InsertInterest E tape p i hint f = Inr r"
proof -
  obtain root1 node where fl: "pc_fillTreeToPrefixEnc E (pc_root p) (int_NameV i) = (root1, node)" by fastforce
  obtain token tape1 where g: "generateNewPitToken (pitTokenMap p) tape = Inr (token, tape1)"
    using generateNewPitToken_total[OF assms(2)] by blast
  have fin: "\<exists>p' a' d t. insert_finish i f tape p a = Inr (p', a', d, t)" for tape p a
    using insert_finish_total[OF assms(1), of f tape p a] by (metis prod.exhaust)
  show ?thesis
    by (cases "List.find (\<lambda>a. same_interest E i hint (the (pit_heap p a))) (pitEntries (node_at root1 node))")
      (simp_all add: InsertInterest_def fl Let_def g fin)
qed

lemma RemoveInterest_cases:
  assumes ok: "pit_ok E p" and rm: "RemoveInterest p a = (p', found)"
  obtains (absent) "\<not> found" "p' = p" "a \<notin> set (pitEntries (pc_node p (pe_node (entry_of p a))))"
  | (removed) "found" "pit_ok E p'" "live p a" "live p' = (\<lambda>b. live p b \<and> b \<noteq> a)" "nPitEntries p' = nPitEntries p - 1"
      "pit_heap p' = pit_heap p" "pitTokenMap p' = (pitTokenMap p)(pit_token (entry_of p a) := None)"
      "\<And>q. csEntry (pc_node p' q) = csEntry (pc_node p q)"
proof -
  let ?node = "pe_node (entry_of p a)"
  show ?thesis
  proof (cases "find_index (\<lambda>entry. entry = a) (pitEntries (pc_node p ?node))")
    case None
    then have "RemoveInterest p a = (p, False)" by (simp add: RemoveInterest_def entry_of_def Let_def)
    moreover have "a \<notin> set (pitEntries (pc_node p ?node))" using None by (auto simp: find_index_None)
    ultimately show ?thesis using rm absent by simp
  next
    case (Some i)
    let ?r1 = "nt_set ?node (\<lambda>n. n\<lparr>pitEntries := del_swap i (pitEntries n)\<rparr>) (pc_root p)"
    let ?r2 = "if pitEntries (node_at ?r1 ?node) = [] then pc_pruneIfEmpty ?node ?r1 else ?r1"
    have wf: "nt_wf ?r1" using pit_okD(2)[OF ok] by simp
    have r2: "nt_wf ?r2" "node_at ?r2 = node_at ?r1" using pc_prune_steps[OF wf] wf by simp_all
    have p': "found" "p' = p\<lparr>pc_root := ?r2, nPitEntries := nPitEntries p - 1, pitTokenMap := (pitTokenMap p)(pit_token (entry_of p a) := None)\<rparr>"
      using rm Some by (auto simp: RemoveInterest_def entry_of_def Let_def)
    note rr = pit_ok_remove[OF ok Some r2]
    show ?thesis by (rule removed) (use rr p' in simp_all)
  qed
qed

lemma live_node: "pit_ok E p \<Longrightarrow> a \<in> set (pitEntries (pc_node p path)) \<longleftrightarrow> live p a \<and> pe_node (entry_of p a) = path"
  using pit_okD(5)[of E p a path] live_entry[of E p a] by (auto simp: live_def entry_at_node_def entry_of_def)

lemma RemoveInterest_found: "pit_ok E p \<Longrightarrow> snd (RemoveInterest p a) = live p a"
proof -
  assume ok: "pit_ok E p"
  obtain p' found where r: "RemoveInterest p a = (p', found)" by fastforce
  from ok r show ?thesis
    by (cases rule: RemoveInterest_cases) (use r live_node[OF ok, of a "pe_node (entry_of p a)"] in simp_all)
qed

lemma pc_match_up_set:
  "k \<le> length q \<Longrightarrow> set (pc_match_up p len (take k q)) =
     {a. \<exists>j\<le>k. a \<in> set (pitEntries (pc_node p (take j q))) \<and> (canBePrefix (entry_of p a) \<or> j = len)}"
proof (induction k)
  case 0
  then show ?case by (auto simp: pc_match_up.simps entry_of_def)
next
  case (Suc k)
  then have "butlast (take (Suc k) q) = take k q" "take (Suc k) q \<noteq> []" "length (take (Suc k) q) = Suc k"
    by (auto simp: butlast_take)
  then have "set (pc_match_up p len (take (Suc k) q)) =
      {a \<in> set (pitEntries (pc_node p (take (Suc k) q))). canBePrefix (entry_of p a) \<or> Suc k = len} \<union> set (pc_match_up p len (take k q))"
    by (subst pc_match_up.simps) (simp add: entry_of_def)
  with Suc show ?case by (auto simp: le_Suc_eq)
qed

lemma node_beyond_longest:
  assumes "length (nt_longest (=) root q) < j" "j \<le> length q"
  shows "node_at root (take j q) = empty_node"
proof (rule node_at_absent, rule ccontr)
  assume "flat root (take j q) \<noteq> None"
  then have "prefix (take j q) (nt_longest (=) root q)" by (intro nt_longest_max) (auto simp: take_is_prefix)
  with assms show False using prefix_length_le by fastforce
qed

text \<open>Data by name: the pending entries at the prefixes of the name that may be satisfied by it.\<close>

lemma findInterestPrefixMatchByName_set:
  assumes ok: "pit_ok E p"
  shows "set (findInterestPrefixMatchByNameEnc E p n) =
    {a. live p a \<and> prefix (pe_node (entry_of p a)) (pc_key E n) \<and>
      (canBePrefix (entry_of p a) \<or> length (pe_node (entry_of p a)) = length n)}" (is "_ = ?R")
proof -
  let ?q = "pc_key E n" and ?l = "length (nt_longest (=) (pc_root p) (pc_key E n))"
  have l: "?l \<le> length ?q" using nt_longest_prefix prefix_length_le by blast
  have len: "length ?q = length n" by (simp add: pc_key_def)
  have "set (findInterestPrefixMatchByNameEnc E p n) =
      {a. \<exists>j\<le>?l. a \<in> set (pitEntries (pc_node p (take j ?q))) \<and> (canBePrefix (entry_of p a) \<or> j = length n)}"
    unfolding findInterestPrefixMatchByNameEnc_def pc_findLongestPrefixEntryEnc_def
    by (subst nt_longest_take) (rule pc_match_up_set[OF l])
  also have "\<dots> = ?R"
  proof (intro set_eqI iffI)
    fix a assume "a \<in> {a. \<exists>j\<le>?l. a \<in> set (pitEntries (pc_node p (take j ?q))) \<and> (canBePrefix (entry_of p a) \<or> j = length n)}"
    then obtain j where j: "j \<le> ?l" "live p a" "pe_node (entry_of p a) = take j ?q" "canBePrefix (entry_of p a) \<or> j = length n"
      using live_node[OF ok] by auto
    then show "a \<in> ?R" using l len by (auto simp: take_is_prefix)
  next
    fix a assume a: "a \<in> ?R"
    let ?j = "length (pe_node (entry_of p a))"
    have t: "take ?j ?q = pe_node (entry_of p a)" "?j \<le> length ?q" using a by (auto simp: prefix_def)
    have m: "a \<in> set (pitEntries (pc_node p (take ?j ?q)))" using a t live_node[OF ok] by simp
    then have "?j \<le> ?l" using node_beyond_longest[where root = "pc_root p" and q = ?q and j = ?j] t(2) by (force simp: not_le[symmetric])
    with m a show "a \<in> {a. \<exists>j\<le>?l. a \<in> set (pitEntries (pc_node p (take j ?q))) \<and> (canBePrefix (entry_of p a) \<or> j = length n)}"
      by auto
  qed
  finally show ?thesis .
qed

lemma FindByToken:
  assumes ok: "pit_ok E p"
  shows "FindInterestPrefixMatchByDataEnc E p n (Some t) = [a] \<longleftrightarrow> live p a \<and> pit_token (entry_of p a) = t"
    "FindInterestPrefixMatchByDataEnc E p n (Some t) = [] \<longleftrightarrow> (\<forall>a. live p a \<longrightarrow> pit_token (entry_of p a) \<noteq> t)"
proof -
  have iff: "pitTokenMap p t = Some b \<longleftrightarrow> live p b \<and> pit_token (entry_of p b) = t" for b
    using pit_okD(6)[OF ok, of t b] live_entry[OF ok, of b] by auto
  have f: "FindInterestPrefixMatchByDataEnc E p n (Some t) = (case pitTokenMap p t of None \<Rightarrow> [] | Some b \<Rightarrow> [b])"
    using pit_okD(6)[OF ok, of t] by (simp add: FindInterestPrefixMatchByDataEnc_def entry_of_def[symmetric] split: option.split)
  show "FindInterestPrefixMatchByDataEnc E p n (Some t) = [a] \<longleftrightarrow> live p a \<and> pit_token (entry_of p a) = t"
    unfolding f iff[of a, symmetric] by (simp split: option.split)
  show "FindInterestPrefixMatchByDataEnc E p n (Some t) = [] \<longleftrightarrow> (\<forall>a. live p a \<longrightarrow> pit_token (entry_of p a) \<noteq> t)"
  proof (cases "pitTokenMap p t")
    case None
    then show ?thesis using iff unfolding f by force
  next
    case (Some b)
    then show ?thesis using iff[of b] unfolding f by auto
  qed
qed

section \<open>Expiration\<close>

lemma queue_step:
  assumes "pq_inv q"
  shows "pq_inv (fst (pq_Push q a t))" "pq_inv (fst (pq_Update q idx a t))"
proof -
  show "pq_inv (fst (pq_Push q a t))" by (rule pq.push_inv[OF assms])
  show "pq_inv (fst (pq_Update q idx a t))"
  proof (cases "0 \<le> idx \<and> nat idx < length q")
    case True
    then show ?thesis using pq_Update_correct(1)[OF assms, of idx a t] by (metis prod.collapse)
  next
    case False
    then have "pq_Update q idx a t = (q, - 1)" by (auto simp: pq_Update_def)
    then show ?thesis using assms by simp
  qed
qed

lemma updatePitExpiry_ok:
  assumes "pit_ok E p"
  shows "pit_ok E (updatePitExpiry p a)" "live (updatePitExpiry p a) = live p" "pc_root (updatePitExpiry p a) = pc_root p"
proof -
  have q: "pit_ok E (p\<lparr>pitExpiryQueue := q\<rparr>)" if "pq_inv q" for q
    by (rule pit_ok_cong[OF assms]) (use that pit_okD(2)[OF assms] in simp_all)
  note iq = queue_step[OF pit_okD(9)[OF assms]]
  show "pit_ok E (updatePitExpiry p a)"
    using q[OF iq(1)] q[OF iq(2)] by (auto simp: updatePitExpiry_def Let_def split_beta intro!: pit_ok_upd same_id_expiration)
  show "pc_root (updatePitExpiry p a) = pc_root p"
    by (simp add: updatePitExpiry_def Let_def split_beta)
  then show "live (updatePitExpiry p a) = live p" by (simp add: live_def fun_eq_iff)
qed

lemma SetExpiration_ok:
  assumes "pit_ok E p"
  shows "pit_ok E (SetExpirationTimerToNow now p a)" "live (SetExpirationTimerToNow now p a) = live p"
    "pit_ok E (UpdateExpirationTimer now p a)" "live (UpdateExpirationTimer now p a) = live p"
proof -
  have 1: "pit_ok E (upd_entry a (\<lambda>e. e\<lparr>expirationTime := now\<rparr>) p)" by (intro pit_ok_upd assms same_id_expiration)
  have "same_id (\<lambda>e. e\<lparr>expirationTime := latest_expiration now e\<rparr>)" by (simp add: same_id_def kind_def)
  then have 2: "pit_ok E (upd_entry a (\<lambda>e. e\<lparr>expirationTime := latest_expiration now e\<rparr>) p)" by (intro pit_ok_upd assms)
  show "pit_ok E (SetExpirationTimerToNow now p a)" "live (SetExpirationTimerToNow now p a) = live p"
    "pit_ok E (UpdateExpirationTimer now p a)" "live (UpdateExpirationTimer now p a) = live p"
    using updatePitExpiry_ok[OF 1] updatePitExpiry_ok[OF 2] by (simp_all add: SetExpirationTimerToNow_def UpdateExpirationTimer_def)
qed

text \<open>The latest expiration is that of the latest record, and never in the past.\<close>

lemma fold_max: "fold (\<lambda>r t. if g r > t then g r else t) xs (t::int) = Max (insert t (g ` set xs))"
proof (induction xs arbitrary: t)
  case (Cons x xs)
  have "(if g x > t then g x else t) = max t (g x)" by (simp add: max_def)
  then have "fold (\<lambda>r t. if g r > t then g r else t) (x # xs) t = Max (insert (max t (g x)) (g ` set xs))"
    using Cons[of "max t (g x)"] by simp
  also have "\<dots> = max (max t (g x)) (Max (insert t (g ` set xs)))"
    by (cases "xs = []") (auto simp: max.assoc max.left_commute)
  also have "\<dots> = Max (insert t (g ` set (x # xs)))"
    by (cases "xs = []") (auto simp: max.assoc max.left_commute max.commute)
  finally show ?case .
qed simp

lemma latest_expiration_Max:
  "latest_expiration now e = Max (insert now ((\<lambda>r. in_ExpirationTime (snd r)) ` set (inRecords e) \<union> (\<lambda>r. out_ExpirationTime (snd r)) ` set (outRecords e)))"
proof -
  let ?I = "(\<lambda>r. in_ExpirationTime (snd r)) ` set (inRecords e)" and ?O = "(\<lambda>r. out_ExpirationTime (snd r)) ` set (outRecords e)"
  have "latest_expiration now e = Max (insert (Max (insert now ?I)) ?O)" by (simp add: latest_expiration_def fold_max)
  also have "\<dots> = max (Max (insert now ?I)) (Max (insert now ?O))"
    by (cases "outRecords e = []"; cases "inRecords e = []") (auto simp: max.assoc max.left_commute max.commute)
  also have "\<dots> = Max (insert now ?I \<union> insert now ?O)" by (subst Max_Un) auto
  also have "insert now ?I \<union> insert now ?O = insert now (?I \<union> ?O)" by blast
  finally show ?thesis .
qed

lemma RemoveInterest_live:
  assumes "pit_ok E p"
  shows "pit_ok E (fst (RemoveInterest p a))" "live (fst (RemoveInterest p a)) = (\<lambda>b. live p b \<and> b \<noteq> a)"
proof -
  obtain p' found where r: "RemoveInterest p a = (p', found)" by fastforce
  from assms r have "pit_ok E p' \<and> live p' = (\<lambda>b. live p b \<and> b \<noteq> a)"
  proof (cases rule: RemoveInterest_cases)
    case absent
    then have "\<not> live p a" using live_node[OF assms, of a "pe_node (entry_of p a)"] by simp
    then show ?thesis using absent assms by auto
  qed simp
  then show "pit_ok E (fst (RemoveInterest p a))" "live (fst (RemoveInterest p a)) = (\<lambda>b. live p b \<and> b \<noteq> a)"
    using r by simp_all
qed

text \<open>
  What a run of the expiry loop removes: the elements \<open>R\<close> of the queue, each due at some reading of the
  clock, and exactly their entries from the PIT; what is left was not due at some reading.
\<close>

definition expired :: "(nat \<Rightarrow> int) \<Rightarrow> PitCsTree \<Rightarrow> PitCsTree \<Rightarrow> (addr \<times> int) multiset \<Rightarrow> bool" where
  "expired clock p p' R =
     (contents (pitExpiryQueue p) = R + contents (pitExpiryQueue p') \<and>
      (\<forall>a. live p' a \<longleftrightarrow> live p a \<and> a \<notin> fst ` set_mset R) \<and>
      (\<forall>y\<in>#R. \<exists>j. snd y \<le> clock j) \<and>
      (\<exists>j. \<forall>y\<in>#contents (pitExpiryQueue p'). clock j < snd y))"

lemma pit_expire_loop_ok:
  "pit_ok E p \<Longrightarrow> \<exists>i' p' x' R. pit_expire_loop clock i f p x = Inr (i', p', x') \<and> pit_ok E p' \<and> expired clock p p' R"
proof (induction clock i f p x rule: pit_expire_loop.induct)
  case (1 clock i f p x)
  have q: "pq_inv (pitExpiryQueue p)" by (rule pit_okD(9)[OF "1.prems"])
  from q show ?case
  proof (cases rule: pq.next_cases)
    case empty
    then have "pit_expire_loop clock i f p x = Inr (i, p, x)" by (simp add: pit_expire_loop.simps)
    moreover have "expired clock p p {#}" using empty by (simp add: expired_def)
    ultimately show ?thesis using "1.prems" by blast
  next
    case (least m a q')
    show ?thesis
    proof (cases "m \<le> clock i")
      case False
      then have "pit_expire_loop clock i f p x = Inr (Suc i, p, x)" using least by (simp add: pit_expire_loop.simps)
      moreover have "\<forall>y\<in>#contents (pitExpiryQueue p). clock i < snd y" using False least by auto
      then have "expired clock p p {#}" by (auto simp: expired_def)
      ultimately show ?thesis using "1.prems" by blast
    next
      case True
      let ?p1 = "upd_entry a (\<lambda>e. e\<lparr>queueIndex := - 1\<rparr>) (p\<lparr>pitExpiryQueue := q'\<rparr>)"
      let ?p2 = "fst (RemoveInterest ?p1 a)" and ?x = "f (the (pit_heap ?p1 a)) x"
      have "pit_ok E (p\<lparr>pitExpiryQueue := q'\<rparr>)"
        by (rule pit_ok_cong[OF "1.prems"]) (use least(4) pit_okD(2)[OF "1.prems"] in simp_all)
      then have ok1: "pit_ok E ?p1" by (intro pit_ok_upd same_id_expiration)
      have lv1: "live ?p1 = live p" by (simp add: live_def fun_eq_iff)
      note p2 = RemoveInterest_live[OF ok1, of a, unfolded lv1]
      have step: "pit_expire_loop clock i f p x = pit_expire_loop clock (Suc i) f ?p2 ?x"
        using least True by (simp add: pit_expire_loop.simps[of clock i] Let_def)
      obtain i' p' x' R where R: "pit_expire_loop clock (Suc i) f ?p2 ?x = Inr (i', p', x')" "pit_ok E p'" "expired clock ?p2 p' R"
        using "1.IH"[OF _ least(2) _ least(3) refl refl refl p2(1)] least(1) True by auto
      have "contents (pitExpiryQueue p) = add_mset (a, m) R + contents (pitExpiryQueue p')"
        using R(3) least(5) by (simp add: expired_def)
      moreover have "live p' b \<longleftrightarrow> live p b \<and> b \<notin> fst ` set_mset (add_mset (a, m) R)" for b
        using R(3) unfolding expired_def p2(2) by auto
      ultimately have "expired clock p p' (add_mset (a, m) R)" using R(3) True unfolding expired_def by auto
      with R step show ?thesis by metis
    qed
  qed
qed

lemma find_entry_spec:
  assumes "pit_ok E p"
  shows "find_entry E p i hint = Some a \<Longrightarrow> live p a \<and> pe_node (entry_of p a) = pc_key E (int_NameV i) \<and> kind (entry_of p a) = interest_kind i hint"
    "find_entry E p i hint = None \<Longrightarrow> live p b \<Longrightarrow> pe_node (entry_of p b) = pc_key E (int_NameV i) \<Longrightarrow> kind (entry_of p b) \<noteq> interest_kind i hint"
proof -
  note sk = same_interest_kind[OF pit_okD(1)[OF assms]]
  show "live p a \<and> pe_node (entry_of p a) = pc_key E (int_NameV i) \<and> kind (entry_of p a) = interest_kind i hint"
    if "find_entry E p i hint = Some a"
  proof -
    from that obtain k where k: "k < length (pitEntries (pc_node p (pc_key E (int_NameV i))))"
      "same_interest E i hint (entry_of p a)" "a = pitEntries (pc_node p (pc_key E (int_NameV i))) ! k"
      unfolding find_entry_def find_Some_iff by auto
    then have "a \<in> set (pitEntries (pc_node p (pc_key E (int_NameV i))))" by simp
    then show ?thesis using k(2) sk live_node[OF assms] by simp
  qed
  show "kind (entry_of p b) \<noteq> interest_kind i hint"
    if "find_entry E p i hint = None" "live p b" "pe_node (entry_of p b) = pc_key E (int_NameV i)"
    using that live_node[OF assms, of b "pc_key E (int_NameV i)"] sk unfolding find_entry_def find_None_iff by auto
qed

lemma NewPitCS_pit_ok: "enc_laws E \<Longrightarrow> pit_ok E NewPitCS" "\<not> live NewPitCS a"
proof -
  have nodes: "pc_node NewPitCS q = empty_node" for q
    by (auto simp: node_at_def NewPitCS_def split: option.split)
  show "enc_laws E \<Longrightarrow> pit_ok E NewPitCS"
    using pq.new_inv(1) by (simp add: pit_ok_def nodes) (simp add: NewPitCS_def)
  show "\<not> live NewPitCS a" by (simp add: live_def nodes)
qed

lemma nonce_loop_iff:
  assumes "NonceV i = Some nonce"
  shows "nonce_loop i f e = Inr (\<exists>r\<in>set (inRecords e). fst r \<noteq> f \<and> in_LatestEncNonce (snd r) = nonce)"
proof (cases "filter (\<lambda>r. fst r \<noteq> f) (inRecords e) = []")
  case True
  then show ?thesis by (simp add: nonce_loop_def filter_empty_conv)
next
  case False
  have "(\<exists>r\<in>set (filter (\<lambda>r. fst r \<noteq> f) (inRecords e)). in_LatestEncNonce (snd r) = nonce) \<longleftrightarrow>
      (\<exists>r\<in>set (inRecords e). fst r \<noteq> f \<and> in_LatestEncNonce (snd r) = nonce)" by (simp only: set_filter) blast
  with False assms show ?thesis by (simp add: nonce_loop_def Let_def del: set_filter)
qed

section \<open>Properties of the PIT\<close>

definition toy_interest :: Interest where
  "toy_interest = \<lparr>int_NameV = [\<lparr>Typ = 8, Val = [1]\<rparr>], CanBePrefixV = False, MustBeFreshV = False, ForwardingHintV = None, NonceV = Some 77, HopLimitV = None\<rparr>"

lemma toy_insert: "\<exists>p' a dup tape'. InsertInterest toy_enc [42] NewPitCS toy_interest None 3 = Inr (p', a, dup, tape')"
  using InsertInterest_total[of toy_interest "[42]" NewPitCS toy_enc None 3]
  by (auto simp: toy_interest_def NewPitCS_def)

text \<open>C13. Inserting an Interest finds the pending entry of the same name, selectors and forwarding hint, or makes a new
  one; no other entry appears or disappears, the size counts it, entries never aggregate twice, and the entry is
  found again by its PIT token.\<close>

theorem InsertInterest_aggregates:
  assumes "pit_ok E p" "InsertInterest E tape p i hint f = Inr (p', a, dup, tape')"
  shows "pit_ok E p' \<and> (\<forall>b. live p' b \<longleftrightarrow> live p b \<or> b = a) \<and>
    pe_node (entry_of p' a) = pc_key E (int_NameV i) \<and> kind (entry_of p' a) = interest_kind i hint \<and>
    PitSize p' = PitSize p + (if live p a then 0 else 1) \<and>
    (live p a \<longleftrightarrow> (\<exists>b. live p b \<and> pe_node (entry_of p b) = pc_key E (int_NameV i) \<and> kind (entry_of p b) = interest_kind i hint)) \<and>
    FindInterestPrefixMatchByDataEnc E p' n (Some (pit_token (entry_of p' a))) = [a]"
  using assms
proof (cases rule: InsertInterest_cases)
  case old
  have "entry_of p' a = (if dup then entry_of p a else (entry_of p a)\<lparr>expirationTime := 0\<rparr>)"
    using old(8)[of a] by (simp add: entry_of_def[of p'] entry_of_def[of p])
  then have k: "kind (entry_of p' a) = kind (entry_of p a)" "pe_node (entry_of p' a) = pe_node (entry_of p a)" by (simp_all add: kind_def)
  show ?thesis using old find_entry_spec(1)[OF assms(1) old(1)] k FindByToken(1)[OF old(3)] by (auto simp: PitSize_def)
next
  case (new token)
  have k: "kind (entry_of p' a) = interest_kind i hint" "pe_node (entry_of p' a) = pc_key E (int_NameV i)"
    by (simp_all add: new(8) new_pit_entry_def kind_def interest_kind_def)
  show ?thesis using new find_entry_spec(2)[OF assms(1) new(1)] k FindByToken(1)[OF new(3)] by (auto simp: PitSize_def)
qed

theorem InsertInterest_aggregates_witness:
  "\<exists>p' a dup tape'. InsertInterest toy_enc [42] NewPitCS toy_interest None 3 = Inr (p', a, dup, tape') \<and> PitSize p' = 1 \<and>
    FindInterestPrefixMatchByDataEnc toy_enc p' [] (Some (pit_token (entry_of p' a))) = [a]"
proof -
  obtain p' a dup tape' where i: "InsertInterest toy_enc [42] NewPitCS toy_interest None 3 = Inr (p', a, dup, tape')"
    using toy_insert by blast
  have "PitSize NewPitCS = 0" by (simp add: PitSize_def NewPitCS_def)
  with InsertInterest_aggregates[OF NewPitCS_pit_ok(1)[OF toy_enc_laws] i, of "[]"] i show ?thesis
    by (auto simp: NewPitCS_pit_ok(2))
qed

text \<open>An Interest is reported as looping exactly when its entry was pending and has an in-record of another face
  with the same nonce; a new entry and a retransmission on the same face are never loops. The insertion
  does not panic when the nonce is present and a free token is drawn.\<close>

theorem InsertInterest_loop:
  assumes "pit_ok E p" "NonceV i = Some nonce" "\<exists>t\<in>set tape. pitTokenMap p t = None"
  shows "\<exists>p' a dup tape'. InsertInterest E tape p i hint f = Inr (p', a, dup, tape') \<and>
    (dup \<longleftrightarrow> live p a \<and> (\<exists>r\<in>set (inRecords (entry_of p a)). fst r \<noteq> f \<and> in_LatestEncNonce (snd r) = nonce))"
proof -
  obtain p' a dup tape' where r: "InsertInterest E tape p i hint f = Inr (p', a, dup, tape')"
    using InsertInterest_total[of i tape p E hint f] assms(2,3) by (metis option.distinct(1) prod.exhaust)
  from assms(1) r have "dup \<longleftrightarrow> live p a \<and> (\<exists>r\<in>set (inRecords (entry_of p a)). fst r \<noteq> f \<and> in_LatestEncNonce (snd r) = nonce)"
  proof (cases rule: InsertInterest_cases)
    case old
    then show ?thesis using nonce_loop_iff[OF assms(2)] by simp
  qed simp
  with r show ?thesis by blast
qed

theorem InsertInterest_loop_witness:
  "\<exists>p' a dup tape'. InsertInterest toy_enc [42] NewPitCS toy_interest None 3 = Inr (p', a, dup, tape') \<and> \<not> dup"
  using InsertInterest_loop[OF NewPitCS_pit_ok(1)[OF toy_enc_laws], of toy_interest 77 "[42]" None 3]
  by (auto simp: toy_interest_def NewPitCS_pit_ok(2)) (simp add: NewPitCS_def)

text \<open>Removing an entry succeeds exactly when it is pending; then it, and only it, is gone from the tree and from
  the token map, and the size drops by one. Removing it again changes nothing.\<close>

theorem RemoveInterest_spec:
  assumes "pit_ok E p" "RemoveInterest p a = (p', found)"
  shows "pit_ok E p' \<and> found = live p a \<and> (\<forall>b. live p' b \<longleftrightarrow> live p b \<and> b \<noteq> a) \<and>
    PitSize p' = PitSize p - (if found then 1 else 0) \<and> (\<not> found \<longrightarrow> p' = p) \<and>
    (found \<longrightarrow> FindInterestPrefixMatchByDataEnc E p' n (Some (pit_token (entry_of p a))) = [] \<and> RemoveInterest p' a = (p', False))"
  using assms
proof (cases rule: RemoveInterest_cases)
  case absent
  then show ?thesis using assms(1) live_node[OF assms(1), of a "pe_node (entry_of p a)"] by (auto simp: PitSize_def)
next
  case removed
  have e: "entry_of p' = entry_of p" by (simp add: entry_of_def fun_eq_iff removed(6))
  have nf: "\<not> snd (RemoveInterest p' a)" using RemoveInterest_found[OF removed(2), of a] removed(4) by simp
  obtain q b where qb: "RemoveInterest p' a = (q, b)" by fastforce
  from removed(2) qb have "q = p'" by (cases rule: RemoveInterest_cases) (use nf qb in simp_all)
  then have "RemoveInterest p' a = (p', False)" using nf qb by simp
  moreover have "FindInterestPrefixMatchByDataEnc E p' n (Some (pit_token (entry_of p a))) = []"
    by (simp add: FindInterestPrefixMatchByDataEnc_def removed(7))
  ultimately show ?thesis using removed by (simp add: PitSize_def)
qed

theorem RemoveInterest_spec_witness:
  "\<exists>p' a dup tape' p''. InsertInterest toy_enc [42] NewPitCS toy_interest None 3 = Inr (p', a, dup, tape') \<and>
    RemoveInterest p' a = (p'', True) \<and> PitSize p'' = PitSize p' - 1"
proof -
  obtain p' a dup tape' where i: "InsertInterest toy_enc [42] NewPitCS toy_interest None 3 = Inr (p', a, dup, tape')"
    using toy_insert by blast
  have ok: "pit_ok toy_enc p' \<and> live p' a"
    using NewPitCS_pit_ok(1)[OF toy_enc_laws] i by (cases rule: InsertInterest_cases) (auto simp: NewPitCS_pit_ok(2))
  obtain p'' found where r: "RemoveInterest p' a = (p'', found)" by fastforce
  from RemoveInterest_spec[OF conjunct1[OF ok] r] ok i r show ?thesis by auto
qed

text \<open>C14. Data without a token is matched with exactly the pending entries whose name is a prefix of the Data's name
  and that either can be a prefix or have the full length.\<close>

theorem prefix_match_complete:
  assumes "pit_ok E p"
  shows "a \<in> set (FindInterestPrefixMatchByDataEnc E p n None) \<longleftrightarrow>
    live p a \<and> prefix (pc_key E (encname (entry_of p a))) (pc_key E n) \<and>
    (canBePrefix (entry_of p a) \<or> length (encname (entry_of p a)) = length n)"
proof (cases "live p a")
  case True
  then have "pe_node (entry_of p a) = pc_key E (encname (entry_of p a))" using live_entry[OF assms] by blast
  then show ?thesis
    using True by (simp add: FindInterestPrefixMatchByDataEnc_def findInterestPrefixMatchByName_set[OF assms]) (simp add: pc_key_def)
qed (simp add: FindInterestPrefixMatchByDataEnc_def findInterestPrefixMatchByName_set[OF assms])

theorem prefix_match_complete_witness:
  "0 \<notin> set (FindInterestPrefixMatchByDataEnc toy_enc NewPitCS [] None)"
  using prefix_match_complete[OF NewPitCS_pit_ok(1)[OF toy_enc_laws], of 0 "[]"] by (simp add: NewPitCS_pit_ok(2))

text \<open>C15. The periodic update terminates without panic: it takes from the queue only elements that are due, removes
  exactly their entries from the PIT, and leaves no element that was due when the loop last read the clock.\<close>

theorem Update_expires:
  assumes "pit_ok E p"
  shows "\<exists>p' x' d R. pit_Update clock onExp p x = Inr (p', x', d) \<and> pit_ok E p' \<and>
    contents (pitExpiryQueue p) = R + contents (pitExpiryQueue p') \<and>
    (\<forall>a. live p' a \<longleftrightarrow> live p a \<and> a \<notin> fst ` set_mset R) \<and>
    (\<forall>y\<in>#R. \<exists>j. snd y \<le> clock j) \<and> (\<exists>j. \<forall>y\<in>#contents (pitExpiryQueue p'). clock j < snd y) \<and>
    0 < d \<and> d \<le> expiredPitTickerInterval"
proof -
  obtain i p' x' R where l: "pit_expire_loop clock 0 onExp p x = Inr (i, p', x')" "pit_ok E p'" "expired clock p p' R"
    using pit_expire_loop_ok[OF assms, of clock 0 onExp x] by blast
  have "\<exists>d. next_update (clock i) p' = Inr d \<and> 0 < d \<and> d \<le> expiredPitTickerInterval"
    using pq_peek_pop(1)[OF pit_okD(9)[OF l(2)]]
    by (cases "pitExpiryQueue p' = []") (auto simp: next_update_def pq_Len_def Let_def expiredPitTickerInterval_def Millisecond_def)
  then obtain d where d: "next_update (clock i) p' = Inr d" "0 < d" "d \<le> expiredPitTickerInterval" by blast
  then have "pit_Update clock onExp p x = Inr (p', x', d)" using l(1) by (simp add: pit_Update_def)
  then show ?thesis using l(2) l(3)[unfolded expired_def] d(2,3) by blast
qed

theorem Update_expires_witness:
  "\<exists>p' x' d. pit_Update (\<lambda>i. int i) (\<lambda>e x. x + 1) (updatePitExpiry NewPitCS 0) (0::nat) = Inr (p', x', d) \<and> 0 < d"
  using Update_expires[OF updatePitExpiry_ok(1)[OF NewPitCS_pit_ok(1)[OF toy_enc_laws]], of "\<lambda>i. int i" "\<lambda>e x. x + 1" 0 "0::nat"] by blast

text \<open>\<open>UpdateExpirationTimer\<close> sets the expiration of an entry to the latest expiration of its in- and out-records,
  and to now when all of them are past.\<close>

theorem UpdateExpirationTimer_latest:
  assumes "pit_heap p a = Some e"
  shows "expirationTime (entry_of (UpdateExpirationTimer now p a) a) =
    Max (insert now ((\<lambda>r. in_ExpirationTime (snd r)) ` set (inRecords e) \<union> (\<lambda>r. out_ExpirationTime (snd r)) ` set (outRecords e)))"
  unfolding latest_expiration_Max[symmetric] using assms
  by (simp add: UpdateExpirationTimer_def updatePitExpiry_def entry_of_def Let_def split_beta)

theorem UpdateExpirationTimer_latest_witness:
  "expirationTime (entry_of (UpdateExpirationTimer 9 (NewPitCS\<lparr>pit_heap := [0 \<mapsto> new_pit_entry toy_interest None [] 5]\<rparr>) 0) 0) = 9"
  using UpdateExpirationTimer_latest[of "NewPitCS\<lparr>pit_heap := [0 \<mapsto> new_pit_entry toy_interest None [] 5]\<rparr>" 0 "new_pit_entry toy_interest None [] 5" 9]
  by (simp add: new_pit_entry_def)

definition two_entries :: PitCsTree where
  "two_entries = NewPitCS\<lparr>pit_heap := [0 \<mapsto> (new_pit_entry toy_interest None [] 5)\<lparr>expirationTime := 10\<rparr>,
                                         1 \<mapsto> (new_pit_entry toy_interest None [] 6)\<lparr>expirationTime := 5\<rparr>]\<rparr>"

text \<open>The position an entry remembers goes stale when the queue moves it: after a second, earlier entry is
  queued, rescheduling the first one overwrites the item of the second, which is then never expired.\<close>

theorem stale_queue_position:
  "map object (pitExpiryQueue (updatePitExpiry (updatePitExpiry two_entries 0) 1)) = [1, 0] \<and>
   queueIndex (entry_of (updatePitExpiry (updatePitExpiry two_entries 0) 1) 0) = 0 \<and>
   map object (pitExpiryQueue (SetExpirationTimerToNow 7 (updatePitExpiry (updatePitExpiry two_entries 0) 1) 0)) = [0, 0]"
  by code_simp

text \<open>An in-record that already exists keeps its PIT token when the same face asks again with another one, while
  its nonce, packet and expiration are renewed; a new face gets a record with its token.\<close>

theorem InsertInRecord_spec:
  assumes "InsertInRecord now e pkt nonce face token = (e', pending)"
  shows "pending = (map_of (inRecords e) face \<noteq> None) \<and>
    map_of (inRecords e') face = Some \<lparr>in_Face = (case map_of (inRecords e) face of None \<Rightarrow> face | Some r \<Rightarrow> in_Face r),
      in_LatestTimestamp = now, in_LatestEncInterest = pkt, in_LatestEncNonce = nonce,
      in_ExpirationTime = now + 4000 * Millisecond,
      in_PitToken = (case map_of (inRecords e) face of None \<Rightarrow> token | Some r \<Rightarrow> in_PitToken r)\<rparr> \<and>
    (\<forall>g. g \<noteq> face \<longrightarrow> map_of (inRecords e') g = map_of (inRecords e) g)"
  using assms by (auto simp: InsertInRecord_def update_conv' split: option.splits)

theorem InsertInRecord_spec_witness:
  "\<exists>e'. InsertInRecord 9 (new_pit_entry toy_interest None [] 5) 0 77 3 [1, 2] = (e', False) \<and>
    map_option in_PitToken (map_of (inRecords e') 3) = Some [1, 2]"
proof -
  obtain e' b where i: "InsertInRecord 9 (new_pit_entry toy_interest None [] 5) 0 77 3 [1, 2] = (e', b)" by fastforce
  from InsertInRecord_spec[OF i] i show ?thesis by (simp add: new_pit_entry_def)
qed

end
