(* ===== verification/Content_Store.thy ===== *)
theory Content_Store
  imports Pit_Cs
begin

text \<open>
  The Content Store half of the PIT-CS: its invariant, what inserting, refreshing, erasing and evicting
  Data does to it, and that none of it touches the PIT half. The operations are those of \<open>Pit_Cs\<close>.
\<close>

section \<open>Invariant of the Content Store\<close>

text \<open>
  \<open>S\<close> is a set of names, closed under prefixes, on which neither the name hashes nor the sequences of component hashes collide.
  \<open>cs_core\<close> ties the map of the Content Store to the entries in the tree; \<open>cs_ok\<close> adds that the policy
  tracks exactly the stored entries.
\<close>

definition no_collision :: "enc_api \<Rightarrow> name set \<Rightarrow> bool" where
  "no_collision E S = (inj_on (name_Hash E) S \<and> inj_on (pc_key E) S \<and> (\<forall>n\<in>S. \<forall>k. take k n \<in> S))"

definition cs_at :: "enc_api \<Rightarrow> name set \<Rightarrow> PitCsTree \<Rightarrow> u64 \<Rightarrow> addr \<Rightarrow> bool" where
  "cs_at E S p i a =
     (\<exists>c n. cs_heap p a = Some c \<and> cs_index c = i \<and> n \<in> S \<and> i = name_Hash E n \<and> ce_node c = pc_key E n \<and>
        csEntry (pc_node p (pc_key E n)) = Some a)"

definition cs_core :: "enc_api \<Rightarrow> name set \<Rightarrow> PitCsTree \<Rightarrow> bool" where
  "cs_core E S p =
     (no_collision E S \<and>
      (\<forall>i a. csMap p i = Some a \<longrightarrow> cs_at E S p i a) \<and>
      (\<forall>path a. csEntry (pc_node p path) = Some a \<longrightarrow>
        (\<exists>i c. csMap p i = Some a \<and> cs_heap p a = Some c \<and> ce_node c = path)) \<and>
      nCsEntries p = int (card (dom (csMap p))) \<and>
      (\<forall>a\<ge>next_addr p. cs_heap p a = None))"

definition cs_ok :: "enc_api \<Rightarrow> name set \<Rightarrow> PitCsTree \<Rightarrow> bool" where
  "cs_ok E S p = (cs_core E S p \<and> lru_inv (csReplacement p) \<and> set (lru_tracked (csReplacement p)) = dom (csMap p))"

lemma cs_coreD:
  assumes "cs_core E S p"
  shows "no_collision E S" "csMap p i = Some a \<Longrightarrow> cs_at E S p i a"
    "csEntry (pc_node p path) = Some a \<Longrightarrow> \<exists>i c. csMap p i = Some a \<and> cs_heap p a = Some c \<and> ce_node c = path"
    "nCsEntries p = int (card (dom (csMap p)))" "next_addr p \<le> a \<Longrightarrow> cs_heap p a = None"
  using assms unfolding cs_core_def by blast+

text \<open>Steps of the PIT keep the Content Store part.\<close>

lemma cs_core_cong:
  assumes "cs_core E S p" "\<And>q. csEntry (pc_node p' q) = csEntry (pc_node p q)" "csMap p' = csMap p" "cs_heap p' = cs_heap p"
    "nCsEntries p' = nCsEntries p" "next_addr p \<le> next_addr p'"
  shows "cs_core E S p'"
  using assms unfolding cs_core_def cs_at_def by auto

lemma cs_erase_core:
  assumes "cs_core E S p"
  shows "cs_core E S (eraseCsDataFromReplacementStrategy i p)"
proof (cases "csMap p i")
  case None
  then show ?thesis using assms by (simp add: eraseCsDataFromReplacementStrategy_def)
next
  case (Some a)
  note D = cs_coreD[OF assms]
  obtain c n where c: "cs_heap p a = Some c" "cs_index c = i" "n \<in> S" "i = name_Hash E n" "ce_node c = pc_key E n"
    "csEntry (pc_node p (pc_key E n)) = Some a" using D(2)[OF Some] unfolding cs_at_def by blast
  let ?p = "eraseCsDataFromReplacementStrategy i p" and ?k = "pc_key E n"
  have flat: "flat (pc_root p) ?k \<noteq> None" using c(6) by (auto simp: node_at_def split: option.splits)
  have p': "?p = p\<lparr>pc_root := nt_set ?k (\<lambda>n. n\<lparr>csEntry := None\<rparr>) (pc_root p), csMap := (csMap p)(i := None), nCsEntries := nCsEntries p - 1\<rparr>"
    using Some c by (simp add: eraseCsDataFromReplacementStrategy_def)
  have nodes: "csEntry (pc_node ?p q) = (if q = ?k then None else csEntry (pc_node p q))" for q
    using flat by (auto simp: p' node_at_set)
  have at: "cs_at E S ?p j b" if j: "csMap ?p j = Some b" for j b
  proof -
    have jb: "csMap p j = Some b" "j \<noteq> i" using j by (auto simp: p' split: if_splits)
    obtain c' n' where c': "cs_heap p b = Some c'" "cs_index c' = j" "n' \<in> S" "j = name_Hash E n'" "ce_node c' = pc_key E n'"
      "csEntry (pc_node p (pc_key E n')) = Some b" using D(2)[OF jb(1)] unfolding cs_at_def by blast
    have "n' \<noteq> n" using c' c jb by auto
    then have "pc_key E n' \<noteq> ?k" using D(1) c c' by (auto simp: no_collision_def dest: inj_onD)
    then have "csEntry (pc_node ?p (pc_key E n')) = Some b" using c'(6) by (simp add: nodes)
    moreover have "cs_heap ?p b = Some c'" using c'(1) by (simp add: p')
    ultimately show ?thesis unfolding cs_at_def using c' by blast
  qed
  have conv: "\<exists>j c. csMap ?p j = Some b \<and> cs_heap ?p b = Some c \<and> ce_node c = q" if b: "csEntry (pc_node ?p q) = Some b" for q b
  proof -
    have qb: "q \<noteq> ?k" "csEntry (pc_node p q) = Some b" using b by (auto simp: nodes split: if_splits)
    obtain j d where j: "csMap p j = Some b" "cs_heap p b = Some d" "ce_node d = q" using D(3)[OF qb(2)] by blast
    then have "b \<noteq> a" using c(1,5) qb(1) by auto
    then have "j \<noteq> i" using Some j by auto
    then show ?thesis using j by (auto simp: p')
  qed
  have "nCsEntries ?p = int (card (dom (csMap ?p)))"
  proof -
    have "i \<in> dom (csMap p)" using Some by blast
    then have "card (dom (csMap p)) = Suc (card (dom (csMap p) - {i}))" by (intro card.remove) simp
    then show ?thesis using D(4) by (simp add: p')
  qed
  then show ?thesis unfolding cs_core_def using D(1,5) at conv by (simp add: p')
qed

section \<open>The operations of the Content Store\<close>

lemma erase_simps [simp]:
  "dom (csMap (eraseCsDataFromReplacementStrategy i p)) = dom (csMap p) - {i}"
  "csReplacement (eraseCsDataFromReplacementStrategy i p) = csReplacement p"
  "cs_heap (eraseCsDataFromReplacementStrategy i p) = cs_heap p"
  by (auto simp: eraseCsDataFromReplacementStrategy_def split: option.splits)

lemma erase_map: "csMap (eraseCsDataFromReplacementStrategy i p) = (csMap p)(i := None)"
  by (auto simp: eraseCsDataFromReplacementStrategy_def fun_eq_iff split: option.splits)

lemma fold_erase:
  "cs_core E S p \<Longrightarrow> cs_core E S (fold eraseCsDataFromReplacementStrategy xs p)"
  "csMap (fold eraseCsDataFromReplacementStrategy xs p) = csMap p |` (- set xs)"
  "cs_heap (fold eraseCsDataFromReplacementStrategy xs p) = cs_heap p"
proof (induction xs arbitrary: p)
  case (Cons i xs)
  { case 1 then show ?case using Cons.IH(1) cs_erase_core by simp }
  { case 2 show ?case using Cons.IH(2) by (auto simp: erase_map restrict_map_def fun_eq_iff) }
  { case 3 show ?case using Cons.IH(3) by simp }
qed (simp_all add: restrict_map_def)

lemma cs_core_insert:
  fixes l :: CsLRU
  assumes "cs_core E S p" "n \<in> S" "csMap p (name_Hash E n) = None" "flat (pc_root p) (pc_key E n) \<noteq> None"
    and c: "cs_index c = name_Hash E n" "ce_node c = pc_key E n"
  defines "a \<equiv> next_addr p"
  defines "p' \<equiv> p\<lparr>nCsEntries := nCsEntries p + 1, pc_root := nt_set (pc_key E n) (\<lambda>n. n\<lparr>csEntry := Some a\<rparr>) (pc_root p),
      cs_heap := (cs_heap p)(a \<mapsto> c), next_addr := a + 1, csMap := (csMap p)(name_Hash E n \<mapsto> a), csReplacement := l\<rparr>"
  shows "cs_core E S p'" "pitEntries (pc_node p' q) = pitEntries (pc_node p q)"
proof -
  note D = cs_coreD[OF assms(1)]
  have nodes: "csEntry (pc_node p' q) = (if q = pc_key E n then Some a else csEntry (pc_node p q))"
    "pitEntries (pc_node p' q) = pitEntries (pc_node p q)" for q
    using assms(4) by (auto simp: p'_def node_at_set)
  show "pitEntries (pc_node p' q) = pitEntries (pc_node p q)" by (rule nodes)
  have heap: "cs_heap p a = None" using D(5) by (simp add: a_def)
  have at: "cs_at E S p' i b" if i: "csMap p' i = Some b" for i b
  proof (cases "i = name_Hash E n")
    case True
    then have "b = a" using i by (simp add: p'_def)
    with True c assms(2) nodes(1)[of "pc_key E n"] show ?thesis unfolding cs_at_def by (auto simp: p'_def)
  next
    case False
    then have ib: "csMap p i = Some b" using i by (simp add: p'_def)
    obtain d m where d: "cs_heap p b = Some d" "cs_index d = i" "m \<in> S" "i = name_Hash E m" "ce_node d = pc_key E m"
      "csEntry (pc_node p (pc_key E m)) = Some b" using D(2)[OF ib] unfolding cs_at_def by blast
    have "m \<noteq> n" using d(4) False by auto
    then have "pc_key E m \<noteq> pc_key E n" using D(1) d(3) assms(2) by (auto simp: no_collision_def dest: inj_onD)
    then have "csEntry (pc_node p' (pc_key E m)) = Some b" using d(6) by (simp add: nodes)
    moreover have "cs_heap p' b = Some d" using d(1) heap by (auto simp: p'_def)
    ultimately show ?thesis unfolding cs_at_def using d by blast
  qed
  have conv: "\<exists>i d. csMap p' i = Some b \<and> cs_heap p' b = Some d \<and> ce_node d = q" if b: "csEntry (pc_node p' q) = Some b" for q b
  proof (cases "q = pc_key E n")
    case True
    then have "b = a" using b by (simp add: nodes)
    then show ?thesis using True c by (auto simp: p'_def)
  next
    case False
    then obtain i d where i: "csMap p i = Some b" "cs_heap p b = Some d" "ce_node d = q" using b D(3)[of q b] by (auto simp: nodes)
    then have "csMap p' i = Some b" "cs_heap p' b = Some d" using assms(3) heap by (auto simp: p'_def)
    with i(3) show ?thesis by blast
  qed
  have "card (insert (name_Hash E n) (dom (csMap p))) = Suc (card (dom (csMap p)))"
    using assms(3) by (intro card_insert_disjoint) auto
  then have "nCsEntries p' = int (card (dom (csMap p')))" using D(4) by (simp add: p'_def)
  moreover have "\<forall>b\<ge>next_addr p'. cs_heap p' b = None" using D(5) by (auto simp: p'_def a_def)
  ultimately show "cs_core E S p'" unfolding cs_core_def using D(1) at conv by blast
qed

definition stale_time :: "int \<Rightarrow> Data \<Rightarrow> int" where
  "stale_time now d =
     (case data_MetaInfo d of Some mi \<Rightarrow> (case FreshnessPeriod mi of Some fp \<Rightarrow> now + fp | None \<Rightarrow> now) | None \<Rightarrow> now)"

definition stored :: "enc_api \<Rightarrow> PitCsTree \<Rightarrow> name \<Rightarrow> nameTreeCsEntry option" where
  "stored E p n = (case csMap p (name_Hash E n) of None \<Rightarrow> None | Some a \<Rightarrow> cs_heap p a)"

lemma erase_pit: "pitEntries (pc_node (eraseCsDataFromReplacementStrategy i p) q) = pitEntries (pc_node p q)"
  "nt_wf (pc_root p) \<Longrightarrow> nt_wf (pc_root (eraseCsDataFromReplacementStrategy i p))"
  "pitTokenMap (eraseCsDataFromReplacementStrategy i p) = pitTokenMap p" "pit_heap (eraseCsDataFromReplacementStrategy i p) = pit_heap p"
  "nPitEntries (eraseCsDataFromReplacementStrategy i p) = nPitEntries p" "pitExpiryQueue (eraseCsDataFromReplacementStrategy i p) = pitExpiryQueue p"
  "next_addr (eraseCsDataFromReplacementStrategy i p) = next_addr p"
  by (auto simp: eraseCsDataFromReplacementStrategy_def node_at_set split: option.split)

lemma erase_pit_ok:
  assumes "pit_ok E p"
  shows "pit_ok E (eraseCsDataFromReplacementStrategy i p)"
  using pit_okD(2,9)[OF assms] by (intro pit_ok_cong[OF assms]) (simp_all add: erase_pit)

lemma fold_erase_pit:
  "pit_ok E p \<Longrightarrow> pit_ok E (fold eraseCsDataFromReplacementStrategy xs p) \<and> live (fold eraseCsDataFromReplacementStrategy xs p) = live p"
proof (induction xs arbitrary: p)
  case (Cons i xs)
  have "live (eraseCsDataFromReplacementStrategy i p) = live p" by (rule live_cong) (simp add: erase_pit)
  with Cons.IH[OF erase_pit_ok[OF Cons.prems]] show ?case by simp
qed simp

lemma InsertData_refresh:
  assumes ok: "cs_ok E S p" "pit_ok E p" and a: "csMap p (name_Hash E (data_NameV d)) = Some a"
  shows "\<exists>p'. InsertData E cap now p pkt d = Inr p' \<and> cs_ok E S p' \<and> pit_ok E p' \<and> live p' = live p \<and> csMap p' = csMap p \<and>
    stored E p' (data_NameV d) = Some \<lparr>cs_index = name_Hash E (data_NameV d), staleTime = stale_time now d, encData = pkt, ce_node = ce_node (the (cs_heap p a))\<rparr> \<and>
    (\<forall>b. b \<noteq> a \<longrightarrow> cs_heap p' b = cs_heap p b)"
proof -
  let ?i = "name_Hash E (data_NameV d)"
  let ?p = "p\<lparr>cs_heap := (cs_heap p)(a := map_option (\<lambda>c. c\<lparr>encData := pkt, staleTime := stale_time now d\<rparr>) (cs_heap p a)),
              csReplacement := lru_AfterRefresh (csReplacement p) ?i\<rparr>"
  have e: "InsertData E cap now p pkt d = Inr ?p" using a by (simp add: InsertData_def Let_def stale_time_def)
  have core: "cs_core E S p" and L: "lru_inv (csReplacement p)" "set (lru_tracked (csReplacement p)) = dom (csMap p)"
    using ok(1) by (simp_all add: cs_ok_def)
  note D = cs_coreD[OF core]
  obtain c where c: "cs_heap p a = Some c" "cs_index c = ?i" using D(2)[OF a] by (auto simp: cs_at_def)
  have "cs_at E S ?p j b" if "csMap p j = Some b" for j b
    using D(2)[OF that] by (auto simp: cs_at_def)
  moreover have "\<exists>i d. csMap p i = Some b \<and> cs_heap ?p b = Some d \<and> ce_node d = q" if "csEntry (pc_node p q) = Some b" for q b
    using D(3)[OF that] by auto
  moreover have "\<forall>b\<ge>next_addr p. cs_heap ?p b = None" using D(5) by auto
  ultimately have "cs_core E S ?p" unfolding cs_core_def using D(1,4) by simp
  moreover have "?i \<in> set (lru_tracked (csReplacement p))" using a L(2) by auto
  ultimately have "cs_ok E S ?p" using L lru.refresh_pol[OF L(1), of ?i] by (simp add: cs_ok_def)
  moreover have "pit_ok E ?p" using pit_okD(2,9)[OF ok(2)] by (intro pit_ok_cong[OF ok(2)]) simp_all
  moreover have "live ?p = live p" by (simp add: live_def fun_eq_iff)
  ultimately show ?thesis using e a c by (intro exI[of _ ?p]) (auto simp: stored_def)
qed

lemma InsertData_new:
  assumes ok: "cs_ok E S p" "pit_ok E p" and n: "data_NameV d \<in> S" and new: "csMap p (name_Hash E (data_NameV d)) = None" and cap: "0 \<le> cap"
  shows "\<exists>p'. InsertData E cap now p pkt d = Inr p' \<and> cs_ok E S p' \<and> pit_ok E p' \<and> live p' = live p \<and>
    card (dom (csMap p')) \<le> nat cap \<and>
    dom (csMap p') = set (drop (Suc (length (lru_tracked (csReplacement p))) - nat cap) (lru_tracked (csReplacement p) @ [name_Hash E (data_NameV d)])) \<and>
    (0 < cap \<longrightarrow> stored E p' (data_NameV d) = Some \<lparr>cs_index = name_Hash E (data_NameV d), staleTime = stale_time now d, encData = pkt, ce_node = pc_key E (data_NameV d)\<rparr>)"
proof -
  let ?n = "data_NameV d" and ?i = "name_Hash E (data_NameV d)" and ?l = "lru_AfterInsert (csReplacement p) (name_Hash E (data_NameV d))"
  have core: "cs_core E S p" and L: "lru_inv (csReplacement p)" "set (lru_tracked (csReplacement p)) = dom (csMap p)"
    using ok(1) by (simp_all add: cs_ok_def)
  obtain root1 node where fl: "pc_fillTreeToPrefixEnc E (pc_root p) ?n = (root1, node)" by fastforce
  note st = pc_fill_steps[OF pit_okD(2)[OF ok(2)] fl]
  let ?p0 = "p\<lparr>pc_root := root1\<rparr>" and ?c = "\<lparr>cs_index = ?i, staleTime = stale_time now d, encData = pkt, ce_node = pc_key E ?n\<rparr>"
  have core0: "cs_core E S ?p0" by (rule cs_core_cong[OF core]) (simp_all add: st(2))
  have pit0: "pit_ok E ?p0" using st pit_okD(9)[OF ok(2)] by (intro pit_ok_cong[OF ok(2)]) simp_all
  let ?p1 = "?p0\<lparr>nCsEntries := nCsEntries ?p0 + 1, pc_root := nt_set (pc_key E ?n) (\<lambda>n. n\<lparr>csEntry := Some (next_addr ?p0)\<rparr>) (pc_root ?p0),
      cs_heap := (cs_heap ?p0)(next_addr ?p0 \<mapsto> ?c), next_addr := next_addr ?p0 + 1, csMap := (csMap ?p0)(?i \<mapsto> next_addr ?p0), csReplacement := ?l\<rparr>"
  have core1: "cs_core E S ?p1" and pe1: "\<And>q. pitEntries (pc_node ?p1 q) = pitEntries (pc_node ?p0 q)"
    using cs_core_insert[OF core0 n, of ?c ?l] new st(1,4) by simp_all
  have wf1: "nt_wf (pc_root ?p1)" using st(3) by simp
  have pit1: "pit_ok E ?p1"
    by (rule pit_ok_cong[OF pit0 wf1 pe1]) (use pit_okD(9)[OF pit0] in simp_all)
  have lv1: "live ?p1 = live p"
    using live_cong[of ?p1 ?p0, OF pe1] live_cong[of ?p0 p] by (simp add: st(2))
  have ni: "?i \<notin> set (lru_tracked (csReplacement p))" using new L(2) by (auto simp: domIff)
  have l1: "lru_inv ?l" "lru_tracked ?l = lru_tracked (csReplacement p) @ [?i]"
    using lru_push[OF L(1) ni] by (simp_all add: lru_AfterInsert_def list_PushBack_def)
  have set1: "set (lru_tracked ?l) = dom (csMap ?p1)" using L(2) by (simp add: l1(2))
  obtain l' p2 vs where ev: "lru_EvictEntries cap eraseCsDataFromReplacementStrategy ?l ?p1 = Inr (l', p2)"
    "p2 = fold eraseCsDataFromReplacementStrategy vs ?p1" "lru_inv l'" "lru_tracked ?l = vs @ lru_tracked l'"
    "set (lru_tracked l') = dom (csMap p2)" "length (lru_tracked l') \<le> nat cap"
    using lru.evict_in_step[OF l1(1) cap, of "\<lambda>p. dom (csMap p)" ?p1 eraseCsDataFromReplacementStrategy] set1 by auto
  have vs: "lru_tracked l' = drop (length (lru_tracked ?l) - nat cap) (lru_tracked ?l)"
    using lru_Evict_spec[OF l1(1) cap, of eraseCsDataFromReplacementStrategy ?p1] ev(1) by auto
  let ?p3 = "p2\<lparr>csReplacement := l'\<rparr>"
  have "cs_core E S p2" using fold_erase(1)[OF core1] ev(2) by simp
  then have "cs_core E S ?p3" by (rule cs_core_cong) simp_all
  then have cs3: "cs_ok E S ?p3" using ev(3,5) by (simp add: cs_ok_def)
  have pit2: "pit_ok E p2" "live p2 = live p" using fold_erase_pit[OF pit1] ev(2) lv1 by simp_all
  have pit3: "pit_ok E ?p3" using pit_okD(2,9)[OF pit2(1)] by (intro pit_ok_cong[OF pit2(1)]) simp_all
  have lv3: "live ?p3 = live p" using pit2(2) by (simp add: live_def fun_eq_iff)
  have I: "InsertData E cap now p pkt d = Inr ?p3"
    using ev(1) new by (simp add: InsertData_def fl stale_time_def[symmetric] st(1)[symmetric] Let_def)
  have "card (dom (csMap ?p3)) \<le> nat cap"
    using ev(5,6) card_length[of "lru_tracked l'"] by simp
  moreover have "dom (csMap ?p3) = set (drop (Suc (length (lru_tracked (csReplacement p))) - nat cap) (lru_tracked (csReplacement p) @ [?i]))"
    using ev(5) vs by (simp add: l1(2))
  moreover have "stored E ?p3 ?n = Some ?c" if "0 < cap"
  proof -
    have "?i \<in> set (lru_tracked l')" using that by (simp add: vs l1(2))
    then have "csMap p2 ?i \<noteq> None" using ev(5) by (auto simp: domIff)
    moreover have "csMap p2 = csMap ?p1 |` (- set vs)" "cs_heap p2 = cs_heap ?p1" unfolding ev(2) by (rule fold_erase)+
    ultimately show ?thesis by (auto simp: stored_def restrict_map_def split: if_splits)
  qed
  ultimately show ?thesis using I cs3 pit3 lv3 by blast
qed

section \<open>Lookups\<close>

lemma first_some_iff:
  "first_some xs = Some a \<Longrightarrow> Some a \<in> set xs" "first_some xs = None \<longleftrightarrow> set xs \<subseteq> {None}"
  by (induction xs rule: first_some.induct) (auto split: option.splits)

lemma prefix_search:
  "nt_wf t \<Longrightarrow> len \<le> depth \<Longrightarrow>
   (case findMatchingDataCSPrefix ok len depth t of
      Some a \<Rightarrow> \<exists>q n. flat t q = Some n \<and> csEntry n = Some a \<and> ok a
    | None \<Rightarrow> \<forall>q n a. flat t q = Some n \<longrightarrow> csEntry n = Some a \<longrightarrow> \<not> ok a)"
proof (induction t arbitrary: depth)
  case (Node v cs)
  let ?f = "\<lambda>(k, c). findMatchingDataCSPrefix ok len (Suc depth) c"
  have dist: "distinct (map fst cs)" using Node.prems(1) by simp
  have kid: "nt_wf c" "flat (Node v cs) (k # q) = flat c q" if "(k, c) \<in> set cs" for k c q
    using that Node.prems(1) dist by (auto simp: flat_Cons)
  have IH: "case findMatchingDataCSPrefix ok len (Suc depth) c of
      Some a \<Rightarrow> \<exists>q n. flat c q = Some n \<and> csEntry n = Some a \<and> ok a
    | None \<Rightarrow> \<forall>q n a. flat c q = Some n \<longrightarrow> csEntry n = Some a \<longrightarrow> \<not> ok a" if "(k, c) \<in> set cs" for k c
    using Node.IH[OF that, of c "Suc depth"] kid(1)[OF that] Node.prems(2) by simp
  show ?case
  proof (cases "csEntry v \<noteq> None \<and> ok (the (csEntry v))")
    case True
    then show ?thesis by (auto intro!: exI[of _ "[]"])
  next
    case False
    then have e: "findMatchingDataCSPrefix ok len depth (Node v cs) = first_some (map ?f cs)"
      using Node.prems(2) by auto
    show ?thesis
    proof (cases "first_some (map ?f cs)")
      case None
      have "\<not> ok a" if a: "flat (Node v cs) q = Some n" "csEntry n = Some a" for q n a
      proof (cases q)
        case Nil
        then show ?thesis using a False by auto
      next
        case (Cons k q')
        then obtain c where c: "(k, c) \<in> set cs" "flat c q' = Some n"
          using a(1) by (auto simp: flat_Cons dest: map_of_SomeD split: option.splits)
        have "findMatchingDataCSPrefix ok len (Suc depth) c = None"
          using None c(1) unfolding first_some_iff(2) by force
        then show ?thesis using IH[OF c(1)] c(2) a(2) by auto
      qed
      then show ?thesis unfolding e None by simp
    next
      case (Some a)
      then obtain k c where c: "(k, c) \<in> set cs" "findMatchingDataCSPrefix ok len (Suc depth) c = Some a"
        using first_some_iff(1)[OF Some] by auto
      obtain q n where "flat c q = Some n" "csEntry n = Some a" "ok a" using IH[OF c(1)] c(2) by auto
      then have "flat (Node v cs) (k # q) = Some n" using kid(2)[OF c(1)] by simp
      then show ?thesis unfolding e Some using \<open>csEntry n = Some a\<close> \<open>ok a\<close> by auto
    qed
  qed
qed

lemma stored_node:
  assumes "cs_core E S p" "n \<in> S"
  shows "csEntry (pc_node p (pc_key E n)) = Some a \<longleftrightarrow> csMap p (name_Hash E n) = Some a"
proof -
  note D = cs_coreD[OF assms(1)]
  have N: "inj_on (name_Hash E) S" "inj_on (pc_key E) S" using D(1) by (simp_all add: no_collision_def)
  show ?thesis
  proof
    assume "csMap p (name_Hash E n) = Some a"
    from D(2)[OF this] obtain m where m: "m \<in> S" "name_Hash E n = name_Hash E m" "csEntry (pc_node p (pc_key E m)) = Some a"
      unfolding cs_at_def by blast
    then have "m = n" using N(1) assms(2) by (simp add: inj_on_eq_iff)
    with m show "csEntry (pc_node p (pc_key E n)) = Some a" by simp
  next
    assume "csEntry (pc_node p (pc_key E n)) = Some a"
    then obtain i c where i: "csMap p i = Some a" "cs_heap p a = Some c" "ce_node c = pc_key E n" using D(3) by blast
    obtain m where m: "m \<in> S" "i = name_Hash E m" "ce_node c = pc_key E m" using D(2)[OF i(1)] i(2) unfolding cs_at_def by auto
    then have "m = n" using N(2) assms(2) i(3) by (simp add: inj_on_eq_iff)
    with m i show "csMap p (name_Hash E n) = Some a" by simp
  qed
qed

lemma key_prefix:
  assumes "no_collision E S" "n \<in> S" "m \<in> S"
  shows "prefix (pc_key E n) (pc_key E m) \<longleftrightarrow> prefix n m"
proof
  assume p: "prefix (pc_key E n) (pc_key E m)"
  then have "pc_key E n = take (length n) (pc_key E m)" by (auto simp: prefix_def pc_key_def append_eq_conv_conj)
  then have "pc_key E n = pc_key E (take (length n) m)" by (simp add: pc_key_def take_map)
  moreover have "take (length n) m \<in> S" using assms by (simp add: no_collision_def)
  moreover have "inj_on (pc_key E) S" using assms(1) by (simp add: no_collision_def)
  ultimately have "n = take (length n) m" using assms(2) by (auto dest: inj_onD)
  then show "prefix n m" by (metis take_is_prefix)
qed (auto simp: prefix_def pc_key_def)

lemma usable_BeforeUse [simp]: "cs_usable now (p\<lparr>csReplacement := l\<rparr>) = cs_usable now p"
  by (simp add: cs_usable_def fun_eq_iff)

lemma FindMatching_keeps:
  assumes "cs_ok E S p" "pit_ok E p" "FindMatchingDataFromCS E now p i = (p', r)" "int_NameV i \<in> S"
  shows "cs_ok E S p'" "pit_ok E p'" "live p' = live p" "csMap p' = csMap p" "cs_heap p' = cs_heap p"
    "pit_heap p' = pit_heap p" "pitExpiryQueue p' = pitExpiryQueue p"
    "csReplacement p' = (case r of Some a \<Rightarrow> if CanBePrefixV i then csReplacement p else lru_BeforeUse (csReplacement p) (name_Hash E (int_NameV i)) | None \<Rightarrow> csReplacement p)"
proof -
  have core: "cs_core E S p" and L: "lru_inv (csReplacement p)" "set (lru_tracked (csReplacement p)) = dom (csMap p)"
    using assms(1) by (simp_all add: cs_ok_def)
  let ?p = "\<lambda>l. p\<lparr>csReplacement := l\<rparr>"
  have idx: "csMap p (name_Hash E (int_NameV i)) = Some a \<and> cs_index (the (cs_heap p a)) = name_Hash E (int_NameV i)"
    if "csEntry (pc_node p (pc_key E (int_NameV i))) = Some a" for a
    using stored_node[OF core assms(4)] that cs_coreD(2)[OF core] by (fastforce simp: cs_at_def)
  have p': "p' = p \<or> (\<exists>a. csEntry (pc_node p (pc_key E (int_NameV i))) = Some a \<and> r = Some a \<and> \<not> CanBePrefixV i \<and> p' = ?p (lru_BeforeUse (csReplacement p) (name_Hash E (int_NameV i))))"
    using assms(3) idx by (auto simp: FindMatchingDataFromCS_def pc_find_exact split: if_splits option.splits)
  show R: "csReplacement p' = (case r of Some a \<Rightarrow> if CanBePrefixV i then csReplacement p else lru_BeforeUse (csReplacement p) (name_Hash E (int_NameV i)) | None \<Rightarrow> csReplacement p)"
    using assms(3) idx by (auto simp: FindMatchingDataFromCS_def pc_find_exact split: if_splits option.splits)
  have ok: "cs_ok E S (?p l)" if "lru_inv l" "set (lru_tracked l) = dom (csMap p)" for l
    using that cs_core_cong[OF core, of "?p l"] by (simp add: cs_ok_def)
  have pit: "pit_ok E (?p l)" for l
    using pit_okD(2,9)[OF assms(2)] by (intro pit_ok_cong[OF assms(2)]) simp_all
  have "cs_ok E S (?p (lru_BeforeUse (csReplacement p) (name_Hash E (int_NameV i))))" if "csEntry (pc_node p (pc_key E (int_NameV i))) = Some a" for a
    using idx[OF that] L lru.use_pol[OF L(1), of "name_Hash E (int_NameV i)"] by (intro ok) auto
  with p' assms(1) show "cs_ok E S p'" by auto
  show "pit_ok E p'" "live p' = live p" "csMap p' = csMap p" "cs_heap p' = cs_heap p" "pit_heap p' = pit_heap p" "pitExpiryQueue p' = pitExpiryQueue p"
    using p' pit assms(2) by (auto simp: live_def fun_eq_iff)
qed

lemma FindMatching_exact:
  assumes "cs_ok E S p" "FindMatchingDataFromCS E now p i = (p', r)" "int_NameV i \<in> S" "\<not> CanBePrefixV i"
  shows "r = Some a \<longleftrightarrow> csMap p (name_Hash E (int_NameV i)) = Some a \<and> cs_usable now p (MustBeFreshV i) a"
proof -
  have core: "cs_core E S p" using assms(1) by (simp add: cs_ok_def)
  show ?thesis
    using assms(2,4) unfolding stored_node[OF core assms(3), symmetric]
    by (auto simp: FindMatchingDataFromCS_def pc_find_exact node_at_absent split: if_splits option.splits)
qed

lemma FindMatching_prefix:
  assumes "cs_ok E S p" "pit_ok E p" "FindMatchingDataFromCS E now p i = (p', r)" "int_NameV i \<in> S" "CanBePrefixV i"
  shows "case r of
      Some a \<Rightarrow> \<exists>m\<in>S. prefix (int_NameV i) m \<and> csMap p (name_Hash E m) = Some a \<and> cs_usable now p (MustBeFreshV i) a
    | None \<Rightarrow> \<forall>m\<in>S. \<forall>a. prefix (int_NameV i) m \<longrightarrow> csMap p (name_Hash E m) = Some a \<longrightarrow> \<not> cs_usable now p (MustBeFreshV i) a"
proof -
  let ?n = "int_NameV i" and ?k = "pc_key E (int_NameV i)" and ?ok = "cs_usable now p (MustBeFreshV i)"
  have core: "cs_core E S p" using assms(1) by (simp add: cs_ok_def)
  note D = cs_coreD[OF core]
  have named: "\<exists>m\<in>S. csMap p (name_Hash E m) = Some a \<and> path = pc_key E m" if "csEntry (pc_node p path) = Some a" for path a
    using D(3)[OF that] D(2) unfolding cs_at_def by (metis option.inject)
  show ?thesis
  proof (cases "nt_get (pc_root p) ?k")
    case None
    have r: "r = None" using assms(3) None by (simp add: FindMatchingDataFromCS_def pc_find_exact flat_def)
    have "csMap p (name_Hash E m) = None" if m: "m \<in> S" "prefix ?n m" for m
    proof (rule ccontr)
      assume "csMap p (name_Hash E m) \<noteq> None"
      then have "csEntry (pc_node p (pc_key E m)) \<noteq> None" using stored_node[OF core m(1)] by auto
      then have "flat (pc_root p) (pc_key E m) \<noteq> None" by (auto simp: node_at_def split: option.splits)
      moreover have "prefix ?k (pc_key E m)" using m(2) by (auto simp: prefix_def pc_key_def)
      ultimately have "flat (pc_root p) ?k \<noteq> None" by (rule flat_prefix)
      then show False using None by (simp add: flat_def)
    qed
    then show ?thesis by (simp add: r)
  next
    case (Some t)
    have sub: "flat (pc_root p) (?k @ q) = flat t q" for q using Some by (simp add: flat_append)
    have wf: "nt_wf t" using nt_get_wf[OF pit_okD(2)[OF assms(2)] Some] .
    have r: "r = findMatchingDataCSPrefix ?ok (length ?n) (length ?k) t"
      using assms(3,5) Some by (auto simp: FindMatchingDataFromCS_def pc_find_exact flat_def)
    have "length ?n \<le> length ?k" by (simp add: pc_key_def)
    note ps = prefix_search[OF wf this, of ?ok, folded r]
    show ?thesis
    proof (cases r)
      case None
      have "\<not> ?ok a" if m: "m \<in> S" "prefix ?n m" "csMap p (name_Hash E m) = Some a" for m a
      proof -
        obtain q where q: "pc_key E m = ?k @ q" using m(2) by (auto simp: prefix_def pc_key_def)
        have "csEntry (pc_node p (?k @ q)) = Some a" using stored_node[OF core m(1)] m(3) q by simp
        then obtain nd where "flat t q = Some nd" "csEntry nd = Some a" by (auto simp: node_at_def sub split: option.splits)
        then show ?thesis using ps None by simp
      qed
      then show ?thesis using None by simp
    next
      case (Some a)
      obtain q nd where q: "flat t q = Some nd" "csEntry nd = Some a" "?ok a" using ps Some by auto
      then have "csEntry (pc_node p (?k @ q)) = Some a" by (simp add: node_at_def sub)
      then obtain m where m: "m \<in> S" "csMap p (name_Hash E m) = Some a" "?k @ q = pc_key E m" using named by blast
      have "prefix ?k (pc_key E m)" using m(3) by (metis prefixI)
      then have "prefix ?n m" using key_prefix[OF D(1) assms(4) m(1)] by simp
      with m q(3) Some show ?thesis by auto
    qed
  qed
qed

lemma NewPitCS_cs_ok: "no_collision E S \<Longrightarrow> cs_ok E S NewPitCS"
proof -
  have nodes: "pc_node NewPitCS q = empty_node" for q
    by (auto simp: node_at_def NewPitCS_def split: option.split)
  show "no_collision E S \<Longrightarrow> cs_ok E S NewPitCS"
    by (simp add: cs_ok_def cs_core_def nodes) (simp add: NewPitCS_def NewCsLRU_inv)
qed

definition toy_data :: Data where
  "toy_data = \<lparr>data_NameV = [\<lparr>Typ = 8, Val = [1]\<rparr>], data_MetaInfo = Some \<lparr>FreshnessPeriod = Some 100\<rparr>\<rparr>"

definition toy_S :: "name set" where
  "toy_S = {[], [\<lparr>Typ = 8, Val = [1]\<rparr>]}"

lemma toy_S_ok: "no_collision toy_enc toy_S" "data_NameV toy_data \<in> toy_S" "int_NameV toy_interest \<in> toy_S"
proof -
  have "take k n \<in> toy_S" if "n \<in> toy_S" for k n
    using that by (cases k) (auto simp: toy_S_def)
  moreover have "inj_on (name_Hash toy_enc) toy_S" "inj_on (pc_key toy_enc) toy_S"
    by (simp_all add: toy_S_def toy_name_Hash_def toy_comp_Hash_def pc_key_def)
  ultimately show "no_collision toy_enc toy_S" by (simp add: no_collision_def)
qed (simp_all add: toy_S_def toy_data_def toy_interest_def)

section \<open>Properties\<close>

text \<open>Inserting Data with a non-negative capacity does not panic and keeps the tree, the map, the size counter and
  the replacement policy in step; a new Data leaves at most \<open>cap\<close> entries, a refresh changes no other entry, the
  inserted packet is stored with its staleness time (unless the capacity is zero), and the PIT is untouched.\<close>

theorem InsertData_spec:
  assumes "cs_ok E S p" "pit_ok E p" "data_NameV d \<in> S" "0 \<le> cap"
  shows "\<exists>p'. InsertData E cap now p pkt d = Inr p' \<and> cs_ok E S p' \<and> pit_ok E p' \<and> live p' = live p \<and>
    (csMap p (name_Hash E (data_NameV d)) = None \<longrightarrow> CsSize p' \<le> cap) \<and>
    (csMap p (name_Hash E (data_NameV d)) \<noteq> None \<longrightarrow> csMap p' = csMap p \<and> CsSize p' = CsSize p) \<and>
    (0 < cap \<or> csMap p (name_Hash E (data_NameV d)) \<noteq> None \<longrightarrow>
      (\<exists>c. stored E p' (data_NameV d) = Some c \<and> encData c = pkt \<and> staleTime c = stale_time now d))"
proof (cases "csMap p (name_Hash E (data_NameV d))")
  case None
  obtain p' where p': "InsertData E cap now p pkt d = Inr p'" "cs_ok E S p'" "pit_ok E p'" "live p' = live p" "card (dom (csMap p')) \<le> nat cap"
    "0 < cap \<longrightarrow> (\<exists>c. stored E p' (data_NameV d) = Some c \<and> encData c = pkt \<and> staleTime c = stale_time now d)"
    using InsertData_new[OF assms(1-3) None assms(4), of now pkt] by auto
  have "CsSize p' \<le> cap" using p'(2,5) assms(4) by (simp add: CsSize_def cs_ok_def cs_core_def)
  with p' None show ?thesis by auto
next
  case (Some a)
  obtain p' where p': "InsertData E cap now p pkt d = Inr p'" "cs_ok E S p'" "pit_ok E p'" "live p' = live p" "csMap p' = csMap p"
    "\<exists>c. stored E p' (data_NameV d) = Some c \<and> encData c = pkt \<and> staleTime c = stale_time now d"
    using InsertData_refresh[OF assms(1,2) Some, of cap now pkt] by auto
  have "CsSize p' = CsSize p" using p'(2,5) assms(1) by (simp add: CsSize_def cs_ok_def cs_core_def)
  with p' Some show ?thesis by auto
qed

theorem InsertData_spec_witness:
  "\<exists>p'. InsertData toy_enc 1 50 NewPitCS 9 toy_data = Inr p' \<and> CsSize p' \<le> 1 \<and>
    (\<exists>c. stored toy_enc p' (data_NameV toy_data) = Some c \<and> encData c = 9 \<and> staleTime c = 150)"
proof -
  have "csMap NewPitCS i = None" for i by (simp add: NewPitCS_def)
  moreover have "stale_time 50 toy_data = 150" by (simp add: stale_time_def toy_data_def)
  ultimately show ?thesis
    using InsertData_spec[OF NewPitCS_cs_ok[OF toy_S_ok(1)] NewPitCS_pit_ok(1)[OF toy_enc_laws] toy_S_ok(2), of 1 50 9] by fastforce
qed

text \<open>Data that was just inserted is found by an Interest for its exact name, with the inserted packet, as long as
  the Interest accepts stale Data or the Data is still fresh.\<close>

theorem cs_insert_then_find:
  assumes "cs_ok E S p" "pit_ok E p" "data_NameV d \<in> S" "0 < cap" "InsertData E cap now p pkt d = Inr p'"
    and "int_NameV i = data_NameV d" "\<not> CanBePrefixV i" "\<not> MustBeFreshV i \<or> now' < stale_time now d"
  shows "\<exists>p'' a. FindMatchingDataFromCS E now' p' i = (p'', Some a) \<and> encData (the (cs_heap p'' a)) = pkt"
proof -
  have "0 \<le> cap" using assms(4) by simp
  with InsertData_spec[OF assms(1-3) this, of now pkt] assms(4,5)
  obtain c where c: "cs_ok E S p'" "pit_ok E p'" "stored E p' (data_NameV d) = Some c" "encData c = pkt" "staleTime c = stale_time now d" by auto
  then obtain a where a: "csMap p' (name_Hash E (int_NameV i)) = Some a" "cs_heap p' a = Some c"
    using assms(6) by (auto simp: stored_def split: option.splits)
  have u: "cs_usable now' p' (MustBeFreshV i) a" using a(2) c(5) assms(8) by (auto simp: cs_usable_def)
  obtain p'' r where f: "FindMatchingDataFromCS E now' p' i = (p'', r)" by fastforce
  have S: "int_NameV i \<in> S" using assms(3,6) by simp
  have "r = Some a" using FindMatching_exact[OF c(1) f S assms(7)] a(1) u by simp
  moreover have "cs_heap p'' = cs_heap p'" by (rule FindMatching_keeps(5)[OF c(1,2) f S])
  ultimately show ?thesis using f a(2) c(4) by simp
qed

theorem cs_insert_then_find_witness:
  "\<exists>p' p'' a. InsertData toy_enc 1 50 NewPitCS 9 toy_data = Inr p' \<and>
    FindMatchingDataFromCS toy_enc 60 p' toy_interest = (p'', Some a) \<and> encData (the (cs_heap p'' a)) = 9"
proof -
  obtain p' where p': "InsertData toy_enc 1 50 NewPitCS 9 toy_data = Inr p'"
    using InsertData_new[OF NewPitCS_cs_ok[OF toy_S_ok(1)] NewPitCS_pit_ok(1)[OF toy_enc_laws] toy_S_ok(2), of 1 50 9]
    by (auto simp: NewPitCS_def)
  from cs_insert_then_find[OF NewPitCS_cs_ok[OF toy_S_ok(1)] NewPitCS_pit_ok(1)[OF toy_enc_laws] toy_S_ok(2) _ p', of toy_interest 60] p'
  show ?thesis by (auto simp: toy_interest_def toy_data_def)
qed

text \<open>C16. A lookup that may match by prefix returns a usable stored Data at or below the Interest's name, and finds
  nothing only when there is none; an exact lookup returns exactly the usable Data of that name.\<close>

theorem FindMatching_complete:
  assumes "cs_ok E S p" "pit_ok E p" "FindMatchingDataFromCS E now p i = (p', r)" "int_NameV i \<in> S"
  shows "case r of
      Some a \<Rightarrow> \<exists>m\<in>S. (if CanBePrefixV i then prefix (int_NameV i) m else m = int_NameV i) \<and>
        csMap p (name_Hash E m) = Some a \<and> cs_usable now p (MustBeFreshV i) a
    | None \<Rightarrow> \<forall>m\<in>S. \<forall>a. (if CanBePrefixV i then prefix (int_NameV i) m else m = int_NameV i) \<longrightarrow>
        csMap p (name_Hash E m) = Some a \<longrightarrow> \<not> cs_usable now p (MustBeFreshV i) a"
proof (cases "CanBePrefixV i")
  case True
  then show ?thesis using FindMatching_prefix[OF assms True] by (cases r) auto
next
  case False
  then show ?thesis using FindMatching_exact[OF assms(1,3,4) False] assms(4) by (cases r) auto
qed

theorem FindMatching_complete_witness:
  "\<exists>p'. FindMatchingDataFromCS toy_enc 60 NewPitCS toy_interest = (p', None) \<or>
    (\<exists>a. FindMatchingDataFromCS toy_enc 60 NewPitCS toy_interest = (p', Some a) \<and> (\<exists>m\<in>toy_S. csMap NewPitCS (name_Hash toy_enc m) = Some a))"
proof -
  obtain p' r where f: "FindMatchingDataFromCS toy_enc 60 NewPitCS toy_interest = (p', r)" by fastforce
  from FindMatching_complete[OF NewPitCS_cs_ok[OF toy_S_ok(1)] NewPitCS_pit_ok(1)[OF toy_enc_laws] f toy_S_ok(3)] f
  show ?thesis by (cases r) auto
qed

text \<open>Only a hit of an exact lookup counts as a use for the replacement policy: it moves the entry behind all others,
  while a hit of a prefix lookup leaves the eviction order as it is.\<close>

theorem hit_recency:
  assumes "cs_ok E S p" "pit_ok E p" "FindMatchingDataFromCS E now p i = (p', r)" "int_NameV i \<in> S"
  shows "cs_ok E S p' \<and> pit_ok E p' \<and> lru_tracked (csReplacement p') =
    (if r \<noteq> None \<and> \<not> CanBePrefixV i
     then filter (\<lambda>j. j \<noteq> name_Hash E (int_NameV i)) (lru_tracked (csReplacement p)) @ [name_Hash E (int_NameV i)]
     else lru_tracked (csReplacement p))"
proof -
  have L: "lru_inv (csReplacement p)" using assms(1) by (simp add: cs_ok_def)
  show ?thesis
    using FindMatching_keeps[OF assms] lru_move_to_back(2)[OF L, of "name_Hash E (int_NameV i)"]
    by (auto split: option.splits)
qed

theorem hit_recency_witness:
  "\<exists>p' r. FindMatchingDataFromCS toy_enc 60 NewPitCS toy_interest = (p', r) \<and> cs_ok toy_enc toy_S p'"
proof -
  obtain p' r where f: "FindMatchingDataFromCS toy_enc 60 NewPitCS toy_interest = (p', r)" by fastforce
  from hit_recency[OF NewPitCS_cs_ok[OF toy_S_ok(1)] NewPitCS_pit_ok(1)[OF toy_enc_laws] f toy_S_ok(3)] f show ?thesis by blast
qed

end
