(* ===== verification/Go_Binary.thy ===== *)
theory Go_Binary
  imports Prelude
begin

text \<open>
  \<^verbatim>\<open>binary.BigEndian\<close> of the Go standard library: writing and reading 16-, 32- and 64-bit integers as
  bytes, most significant first.
\<close>

unbundle bit_operations_syntax

definition PutUint16 :: "u16 \<Rightarrow> bytes" where
  "PutUint16 w = [ucast (drop_bit 8 w), ucast w]"

definition PutUint32 :: "u32 \<Rightarrow> bytes" where
  "PutUint32 w = [ucast (drop_bit 24 w), ucast (drop_bit 16 w), ucast (drop_bit 8 w), ucast w]"

definition PutUint64 :: "u64 \<Rightarrow> bytes" where
  "PutUint64 w =
     [ucast (drop_bit 56 w), ucast (drop_bit 48 w), ucast (drop_bit 40 w), ucast (drop_bit 32 w),
      ucast (drop_bit 24 w), ucast (drop_bit 16 w), ucast (drop_bit 8 w), ucast w]"

definition Uint16 :: "bytes \<Rightarrow> u16" where
  "Uint16 bs = push_bit 8 (ucast (bs ! 0)) OR ucast (bs ! 1)"

definition Uint32 :: "bytes \<Rightarrow> u32" where
  "Uint32 bs = push_bit 24 (ucast (bs ! 0)) OR push_bit 16 (ucast (bs ! 1)) OR push_bit 8 (ucast (bs ! 2)) OR ucast (bs ! 3)"

definition Uint64 :: "bytes \<Rightarrow> u64" where
  "Uint64 bs =
     push_bit 56 (ucast (bs ! 0)) OR push_bit 48 (ucast (bs ! 1)) OR push_bit 40 (ucast (bs ! 2)) OR push_bit 32 (ucast (bs ! 3)) OR
     push_bit 24 (ucast (bs ! 4)) OR push_bit 16 (ucast (bs ! 5)) OR push_bit 8 (ucast (bs ! 6)) OR ucast (bs ! 7)"

lemma Put_length [simp]: "length (PutUint16 v) = 2" "length (PutUint32 w) = 4" "length (PutUint64 x) = 8"
  by (simp_all add: PutUint16_def PutUint32_def PutUint64_def)

text \<open>The byte of a word at a bit position, put back in its place.\<close>

lemma bit_byte_at:
  "bit (push_bit k (ucast (ucast (drop_bit k (w :: 'a::len word)) :: u8)) :: 'a word) n \<longleftrightarrow> k \<le> n \<and> n < k + 8 \<and> bit w n"
  "bit (ucast (ucast w :: u8) :: 'a word) n \<longleftrightarrow> n < 8 \<and> bit w n"
  using bit_imp_le_length[of w n] by (auto simp: bit_simps)

lemma Uint16_Put [simp]: "Uint16 (PutUint16 w @ r) = w"
proof -
  have "Uint16 (PutUint16 w @ r) = push_bit 8 (ucast (ucast (drop_bit 8 w) :: u8)) OR ucast (ucast w :: u8)"
    by (simp add: Uint16_def PutUint16_def)
  also have "\<dots> = w" by (rule bit_word_eqI) (unfold bit_or_iff bit_byte_at, (rule iffI, blast, simp), arith)
  finally show ?thesis .
qed

lemma Uint32_Put [simp]: "Uint32 (PutUint32 w @ r) = w"
proof -
  have "Uint32 (PutUint32 w @ r) = push_bit 24 (ucast (ucast (drop_bit 24 w) :: u8)) OR push_bit 16 (ucast (ucast (drop_bit 16 w) :: u8)) OR
      push_bit 8 (ucast (ucast (drop_bit 8 w) :: u8)) OR ucast (ucast w :: u8)"
    by (simp add: Uint32_def PutUint32_def)
  also have "\<dots> = w" by (rule bit_word_eqI) (unfold bit_or_iff bit_byte_at, (rule iffI, blast, simp), arith)
  finally show ?thesis .
qed

lemma Uint64_Put [simp]: "Uint64 (PutUint64 w @ r) = w"
proof -
  have "Uint64 (PutUint64 w @ r) =
      push_bit 56 (ucast (ucast (drop_bit 56 w) :: u8)) OR push_bit 48 (ucast (ucast (drop_bit 48 w) :: u8)) OR
      push_bit 40 (ucast (ucast (drop_bit 40 w) :: u8)) OR push_bit 32 (ucast (ucast (drop_bit 32 w) :: u8)) OR
      push_bit 24 (ucast (ucast (drop_bit 24 w) :: u8)) OR push_bit 16 (ucast (ucast (drop_bit 16 w) :: u8)) OR
      push_bit 8 (ucast (ucast (drop_bit 8 w) :: u8)) OR ucast (ucast w :: u8)"
    by (simp add: Uint64_def PutUint64_def)
  also have "\<dots> = w" by (rule bit_word_eqI) (unfold bit_or_iff bit_byte_at, (rule iffI, blast, simp), arith)
  finally show ?thesis .
qed

lemmas Uint_Put [simp] = Uint16_Put[where r = "[]", simplified] Uint32_Put[where r = "[]", simplified] Uint64_Put[where r = "[]", simplified]

end
