(* ===== verification/Fw_Thread.thy ===== *)
theory Fw_Thread
  imports Content_Store Dead_Nonce Fib_Spec Go_Binary
begin

text \<open>
  The forwarding thread of \<^verbatim>\<open>src/fw/thread.go\<close> with the strategies of \<^verbatim>\<open>src/fw/bestroute.go\<close>,
  \<^verbatim>\<open>src/fw/multicast.go\<close> and \<^verbatim>\<open>src/fw/strategy.go\<close>, the dispatch tables of \<^verbatim>\<open>src/dispatch\<close> it uses and
  the network region table of \<^verbatim>\<open>src/table/network-region.go\<close>. A step handles one event of the thread's
  loop. What it reads from outside (the FIB, the faces, the configuration) is the environment; packets
  are in a store, because the PIT, the Content Store and the faces share them by reference; and
  \<open>SendPacket\<close> on a face appends to the list \<open>sent\<close> the address of the packet and its value at that time.
  Logging is left out.
\<close>

section \<open>Data\<close>

datatype Scope = Unknown | NonLocal | Local

datatype LinkType = PointToPoint | MultiAccess | AdHoc

record Face =
  face_FaceID :: u64
  face_Scope :: Scope
  face_LinkType :: LinkType

datatype Strategy = BestRoute | Multicast

record send_event =
  ev_face :: u64
  ev_addr :: addr
  ev_packet :: PendingPacket

record 's fw_env =
  env_enc :: enc_api
  env_fib_ops :: "'s FibStrategy"
  env_fib :: 's
  FaceDispatch :: "u64 \<rightharpoonup> Face"
  NetworkRegion :: "name list"
  csCapacity :: int
  csAdmit :: bool
  csServe :: bool
  deadNonceListLifetime :: int

record Thread =
  threadID :: int
  pitCS :: PitCsTree
  strategies :: "u64 \<rightharpoonup> Strategy"
  deadNonceList :: DeadNonceList
  NInInterests :: u64
  NInData :: u64
  NOutInterests :: u64
  NOutData :: u64
  NSatisfiedInterests :: u64
  NUnsatisfiedInterests :: u64
  packets :: store
  rand_tape :: "u32 list"
  sent :: "send_event list"

section \<open>Helpers\<close>

definition LOCALHOST :: bytes where
  "LOCALHOST = [0x6c, 0x6f, 0x63, 0x61, 0x6c, 0x68, 0x6f, 0x73, 0x74]"

definition is_localhost :: "name \<Rightarrow> bool" where
  "is_localhost n = (case n of [] \<Rightarrow> False | c # _ \<Rightarrow> Val c = LOCALHOST)"

definition HashNameToFwThread :: "enc_api \<Rightarrow> nat \<Rightarrow> name \<Rightarrow> nat result" where
  "HashNameToFwThread E nThreads name =
     (if name \<noteq> [] \<and> Val (hd name) = LOCALHOST then Inr 0
      else if nThreads = 0 then Inl DivideByZero
      else Inr (unat (name_Hash E name mod of_nat nThreads)))"

definition HashNameToAllPrefixFwThreads :: "enc_api \<Rightarrow> nat \<Rightarrow> name \<Rightarrow> nat list result" where
  "HashNameToAllPrefixFwThreads E nThreads name =
     (if name \<noteq> [] \<and> Val (hd name) = LOCALHOST then Inr [0]
      else if nThreads = 0 \<and> length (name_PrefixHash E name) > 1 then Inl DivideByZero
      else Inr (map (\<lambda>h. unat (h mod of_nat nThreads)) (tl (name_PrefixHash E name))))"

definition GetFWThread :: "'t list \<Rightarrow> int \<Rightarrow> 't option result" where
  "GetFWThread FWDispatch i =
     (if i < 0 \<or> i > int (length FWDispatch) then Inr None
      else if i = int (length FWDispatch) then Inl IndexOutOfRange
      else Inr (Some (FWDispatch ! nat i)))"

definition NetworkRegion_Add :: "enc_api \<Rightarrow> name list \<Rightarrow> name \<Rightarrow> name list" where
  "NetworkRegion_Add E table name = (if \<exists>region\<in>set table. name_Equal E region name then table else table @ [name])"

definition IsProducer :: "enc_api \<Rightarrow> name list \<Rightarrow> name \<Rightarrow> bool" where
  "IsProducer E table name = (\<exists>region\<in>set table. name_IsPrefix E region name)"

definition AddFace :: "(u64 \<rightharpoonup> Face) \<Rightarrow> u64 \<Rightarrow> Face \<Rightarrow> (u64 \<rightharpoonup> Face)" where
  "AddFace d i f = d(i \<mapsto> f)"

definition GetFace :: "(u64 \<rightharpoonup> Face) \<Rightarrow> u64 \<Rightarrow> Face option" where
  "GetFace d i = d i"

definition RemoveFace :: "(u64 \<rightharpoonup> Face) \<Rightarrow> u64 \<Rightarrow> (u64 \<rightharpoonup> Face)" where
  "RemoveFace d i = d(i := None)"

definition packet :: "Thread \<Rightarrow> addr \<Rightarrow> PendingPacket" where
  "packet t a = the (packets t a)"

definition upd_packet :: "addr \<Rightarrow> (PendingPacket \<Rightarrow> PendingPacket) \<Rightarrow> Thread \<Rightarrow> Thread" where
  "upd_packet a f t = t\<lparr>packets := (packets t)(a := map_option f (packets t a))\<rparr>"

definition upd_pit :: "addr \<Rightarrow> (nameTreePitEntry \<Rightarrow> nameTreePitEntry) \<Rightarrow> Thread \<Rightarrow> Thread" where
  "upd_pit a f t = t\<lparr>pitCS := upd_entry a f (pitCS t)\<rparr>"

abbreviation pit_entry :: "Thread \<Rightarrow> addr \<Rightarrow> nameTreePitEntry" where
  "pit_entry t \<equiv> entry_of (pitCS t)"

definition SendPacket :: "Face \<Rightarrow> addr \<Rightarrow> Thread \<Rightarrow> Thread" where
  "SendPacket face a t =
     t\<lparr>sent := sent t @ [\<lparr>ev_face = face_FaceID face, ev_addr = a, ev_packet = packet t a\<rparr>]\<rparr>"

section \<open>The outgoing pipelines\<close>

definition fw_pit_token :: "int \<Rightarrow> u32 \<Rightarrow> bytes" where
  "fw_pit_token tid token = PutUint16 (of_int tid) @ PutUint32 token"

definition processOutgoingInterest ::
  "'s fw_env \<Rightarrow> int \<Rightarrow> addr \<Rightarrow> addr \<Rightarrow> u64 \<Rightarrow> u64 \<Rightarrow> Thread \<Rightarrow> (bool \<times> Thread) result" where
  "processOutgoingInterest env now pkt pitEntry nexthop inFace t =
     (case GetFace (FaceDispatch env) nexthop of
        None \<Rightarrow> Inr (False, t)
      | Some outgoingFace \<Rightarrow>
          if face_FaceID outgoingFace = inFace \<and> face_LinkType outgoingFace \<noteq> AdHoc then Inr (False, t)
          else (case pkt_Interest (packet t pkt) of
            None \<Rightarrow> Inl NilDereference
          | Some i \<Rightarrow>
              if HopLimitV i = Some 0 \<and> face_Scope outgoingFace = NonLocal then Inr (False, t)
              else (case NonceV i of
                None \<Rightarrow> Inl NilDereference
              | Some nonce \<Rightarrow>
                  let t1 = upd_pit pitEntry (\<lambda>e. InsertOutRecord now e pkt nonce nexthop) t;
                      t2 = t1\<lparr>NOutInterests := NOutInterests t1 + 1\<rparr>;
                      t3 = upd_packet pkt (\<lambda>p. p\<lparr>IncomingFaceID := Some inFace,
                             PitToken := fw_pit_token (threadID t) (pit_token (pit_entry t pitEntry))\<rparr>) t2
                  in Inr (True, SendPacket outgoingFace pkt t3))))"

definition processOutgoingData :: "'s fw_env \<Rightarrow> addr \<Rightarrow> u64 \<Rightarrow> bytes \<Rightarrow> u64 \<Rightarrow> Thread \<Rightarrow> Thread result" where
  "processOutgoingData env pkt nexthop pitToken inFace t =
     (case GetFace (FaceDispatch env) nexthop of
        None \<Rightarrow> Inr t
      | Some outgoingFace \<Rightarrow>
          if face_Scope outgoingFace = NonLocal \<and> pkt_Data (packet t pkt) = None then Inl NilDereference
          else if face_Scope outgoingFace = NonLocal \<and> is_localhost (data_NameV (the (pkt_Data (packet t pkt)))) then Inr t
          else
            let t1 = t\<lparr>NOutData := NOutData t + 1, NSatisfiedInterests := NSatisfiedInterests t + 1\<rparr>;
                t2 = upd_packet pkt (\<lambda>p. (if length pitToken > 0 then p\<lparr>PitToken := pitToken\<rparr> else p)
                                            \<lparr>IncomingFaceID := Some inFace\<rparr>) t1
            in Inr (SendPacket outgoingFace pkt t2))"

section \<open>The strategies\<close>

definition SendData :: "'s fw_env \<Rightarrow> addr \<Rightarrow> addr \<Rightarrow> u64 \<Rightarrow> u64 \<Rightarrow> Thread \<Rightarrow> Thread result" where
  "SendData env pkt pitEntry nexthop inFace t =
     (case map_of (inRecords (pit_entry t pitEntry)) nexthop of
        Some inRecord \<Rightarrow>
          processOutgoingData env pkt nexthop (in_PitToken inRecord) inFace
            (upd_pit pitEntry (\<lambda>e. e\<lparr>inRecords := AList.delete nexthop (inRecords e)\<rparr>) t)
      | None \<Rightarrow> processOutgoingData env pkt nexthop [] inFace t)"

definition AfterContentStoreHit :: "'s fw_env \<Rightarrow> Strategy \<Rightarrow> addr \<Rightarrow> addr \<Rightarrow> u64 \<Rightarrow> Thread \<Rightarrow> Thread result" where
  "AfterContentStoreHit env s pkt pitEntry inFace t = SendData env pkt pitEntry inFace 0 t"

text \<open>The loop ranges over the faces that have an in-record when it starts; each call deletes its own.\<close>

definition AfterReceiveData :: "'s fw_env \<Rightarrow> Strategy \<Rightarrow> addr \<Rightarrow> addr \<Rightarrow> u64 \<Rightarrow> Thread \<Rightarrow> Thread result" where
  "AfterReceiveData env s pkt pitEntry inFace t =
     rfold (\<lambda>faceID. SendData env pkt pitEntry faceID inFace) (map fst (inRecords (pit_entry t pitEntry))) t"

fun try_nexthops :: "'s fw_env \<Rightarrow> int \<Rightarrow> addr \<Rightarrow> addr \<Rightarrow> u64 \<Rightarrow> FibNextHopEntry list \<Rightarrow> Thread \<Rightarrow> Thread result" where
  "try_nexthops env now pkt pitEntry inFace [] t = Inr t"
| "try_nexthops env now pkt pitEntry inFace (nh # nhs) t =
     rbind (processOutgoingInterest env now pkt pitEntry (Nexthop nh) inFace t)
       (\<lambda>(isSent, t1). if isSent then Inr t1 else try_nexthops env now pkt pitEntry inFace nhs t1)"

text \<open>
  \<^verbatim>\<open>sort.Slice\<close> is an insertion sort, hence stable, on the short lists of nexthops; for longer ones the
  order of nexthops with the same cost is unspecified.
\<close>

definition AfterReceiveInterest ::
  "'s fw_env \<Rightarrow> int \<Rightarrow> Strategy \<Rightarrow> addr \<Rightarrow> addr \<Rightarrow> u64 \<Rightarrow> FibNextHopEntry list \<Rightarrow> Thread \<Rightarrow> Thread result" where
  "AfterReceiveInterest env now s pkt pitEntry inFace nexthops t =
     (case s of
        BestRoute \<Rightarrow> try_nexthops env now pkt pitEntry inFace (sort_key Cost nexthops) t
      | Multicast \<Rightarrow>
          rfold (\<lambda>nh t. map_sum id snd (processOutgoingInterest env now pkt pitEntry (Nexthop nh) inFace t)) nexthops t)"

definition BeforeSatisfyInterest :: "Strategy \<Rightarrow> addr \<Rightarrow> u64 \<Rightarrow> Thread \<Rightarrow> Thread" where
  "BeforeSatisfyInterest s pitEntry inFace t = t"

section \<open>The incoming pipelines\<close>

text \<open>
  The forwarding hint: when one of its names is in a producer region the hint is ignored, otherwise its
  first name is used for the FIB lookup.
\<close>

fun hint_scan :: "enc_api \<Rightarrow> name list \<Rightarrow> name list \<Rightarrow> name option \<Rightarrow> bool \<times> name option" where
  "hint_scan E regions [] fhName = (False, fhName)"
| "hint_scan E regions (fh # fhs) fhName =
     (if IsProducer E regions fh then (True, fhName)
      else hint_scan E regions fhs (if fhName = None then Some fh else fhName))"

definition hint_name :: "enc_api \<Rightarrow> name list \<Rightarrow> Interest \<Rightarrow> name option" where
  "hint_name E regions i =
     (case ForwardingHintV i of
        Some names \<Rightarrow>
          if length names > 0
          then let (reaching, fhName) = hint_scan E regions names None in if reaching then None else fhName
          else None
      | None \<Rightarrow> None)"

definition strategy_for :: "'s fw_env \<Rightarrow> name \<Rightarrow> Thread \<Rightarrow> Strategy option result" where
  "strategy_for env name t =
     map_sum id (\<lambda>s. strategies t (name_Hash (env_enc env) (nil_to_empty s)))
       (FindStrategyEnc (env_fib_ops env) (env_fib env) name)"

text \<open>The part of \<open>processIncomingInterest\<close> after the Content Store has been asked without success.\<close>

definition forward_interest ::
  "'s fw_env \<Rightarrow> int \<Rightarrow> addr \<Rightarrow> Interest \<Rightarrow> name option \<Rightarrow> Strategy option \<Rightarrow> addr \<Rightarrow> u64 \<Rightarrow> Thread \<Rightarrow> Thread result" where
  "forward_interest env now pkt i fhName strategy pitEntry inFace t =
     (let t1 = t\<lparr>pitCS := UpdateExpirationTimer now (pitCS t) pitEntry\<rparr>
      in case NextHopFaceID (packet t1 pkt) of
           Some nh \<Rightarrow> (case GetFace (FaceDispatch env) nh of Some face \<Rightarrow> Inr (SendPacket face pkt t1) | None \<Rightarrow> Inr t1)
         | None \<Rightarrow>
             rbind (FindNextHopsEnc (env_fib_ops env) (env_fib env) (case fhName of None \<Rightarrow> int_NameV i | Some n \<Rightarrow> n))
               (\<lambda>nexthops. case strategy of
                  None \<Rightarrow> Inl NilDereference
                | Some s \<Rightarrow> AfterReceiveInterest env now s pkt pitEntry inFace nexthops t1))"

text \<open>From the dead nonce list on; \<open>i\<close> is the Interest with its hop limit already decremented.\<close>

definition admit_interest :: "'s fw_env \<Rightarrow> int \<Rightarrow> addr \<Rightarrow> Interest \<Rightarrow> u64 \<Rightarrow> bytes \<Rightarrow> Thread \<Rightarrow> Thread result" where
  "admit_interest env now pkt i inFace incomingPitToken t =
     (let E = env_enc env; fhName = hint_name E (NetworkRegion env) i
      in case NonceV i of
        None \<Rightarrow> Inl NilDereference
      | Some nonce \<Rightarrow>
          if dnl_Find E (deadNonceList t) (int_NameV i) nonce then Inr t
          else rbind (InsertInterest E (rand_tape t) (pitCS t) i fhName inFace)
            (\<lambda>(pit1, pitEntry, isDuplicate, tape).
              let t1 = t\<lparr>pitCS := pit1, rand_tape := tape\<rparr>
              in if isDuplicate then Inr t1
                 else rbind (strategy_for env (int_NameV i) t1)
                   (\<lambda>strategy.
                     let isAlreadyPending = snd (InsertInRecord now (pit_entry t1 pitEntry) pkt nonce inFace incomingPitToken);
                         t2 = upd_pit pitEntry (\<lambda>e. fst (InsertInRecord now e pkt nonce inFace incomingPitToken)) t1
                     in if \<not> isAlreadyPending \<and> csServe env
                        then let (pit3, hit) = FindMatchingDataFromCS E now (pitCS t2) i; t3 = t2\<lparr>pitCS := pit3\<rparr>
                             in (case hit of
                                   Some hitEntry \<Rightarrow>
                                     (case strategy of
                                        None \<Rightarrow> Inl NilDereference
                                      | Some s \<Rightarrow> AfterContentStoreHit env s (encData (the (cs_heap pit3 hitEntry))) pitEntry inFace t3)
                                 | None \<Rightarrow> forward_interest env now pkt i fhName strategy pitEntry inFace t3)
                        else forward_interest env now pkt i fhName strategy pitEntry inFace t2)))"

definition dec_hop :: "Interest \<Rightarrow> Interest" where
  "dec_hop i = (case HopLimitV i of None \<Rightarrow> i | Some h \<Rightarrow> i\<lparr>HopLimitV := Some (h - 1)\<rparr>)"

definition processIncomingInterest :: "'s fw_env \<Rightarrow> int \<Rightarrow> addr \<Rightarrow> Thread \<Rightarrow> Thread result" where
  "processIncomingInterest env now pkt t =
     (case IncomingFaceID (packet t pkt) of
        None \<Rightarrow> Inr t
      | Some fid \<Rightarrow>
          (case GetFace (FaceDispatch env) fid of
             None \<Rightarrow> Inr t
           | Some incomingFace \<Rightarrow>
               (case pkt_Interest (packet t pkt) of
                  None \<Rightarrow> Inl NilDereference
                | Some i \<Rightarrow>
                    if HopLimitV i = Some 0 then Inr t
                    else
                      let i1 = dec_hop i;
                          t1 = upd_packet pkt (\<lambda>p. p\<lparr>pkt_Interest := Some i1\<rparr>) t
                      in if face_Scope incomingFace = NonLocal \<and> is_localhost (int_NameV i1) then Inr t1
                         else admit_interest env now pkt i1 (face_FaceID incomingFace) (PitToken (packet t pkt))
                                (t1\<lparr>NInInterests := NInInterests t1 + 1\<rparr>))))"

definition insert_dead_nonces :: "'s fw_env \<Rightarrow> int \<Rightarrow> name \<Rightarrow> PitOutRecord list \<Rightarrow> Thread \<Rightarrow> Thread" where
  "insert_dead_nonces env now name rs t =
     t\<lparr>deadNonceList := fold (\<lambda>r d. fst (dnl_Insert (env_enc env) (deadNonceListLifetime env) now d name (out_LatestEncNonce r)))
          rs (deadNonceList t)\<rparr>"

definition satisfy_single :: "'s fw_env \<Rightarrow> int \<Rightarrow> addr \<Rightarrow> name \<Rightarrow> u64 \<Rightarrow> Strategy option \<Rightarrow> addr \<Rightarrow> Thread \<Rightarrow> Thread result" where
  "satisfy_single env now pkt name inFace strategy pitEntry t =
     (let t1 = t\<lparr>pitCS := SetExpirationTimerToNow now (pitCS t) pitEntry\<rparr>
      in case strategy of
           None \<Rightarrow> Inl NilDereference
         | Some s \<Rightarrow>
             rbind (AfterReceiveData env s pkt pitEntry inFace t1)
               (\<lambda>t2.
                 let t3 = upd_pit pitEntry (\<lambda>e. e\<lparr>satisfied := True\<rparr>) t2;
                     t4 = insert_dead_nonces env now name (map snd (outRecords (pit_entry t3 pitEntry))) t3
                 in Inr (upd_pit pitEntry (\<lambda>e. e\<lparr>outRecords := []\<rparr>) t4)))"

text \<open>One round of the loop over several matching entries; \<open>first\<close> is \<open>pitEntries[0]\<close>, whose nonces are inserted.\<close>

definition satisfy_one ::
  "'s fw_env \<Rightarrow> int \<Rightarrow> addr \<Rightarrow> name \<Rightarrow> u64 \<Rightarrow> Strategy option \<Rightarrow> addr \<Rightarrow> addr \<Rightarrow> Thread \<Rightarrow> Thread result" where
  "satisfy_one env now pkt name inFace strategy first pitEntry t =
     (let downstreams = map (\<lambda>(f, r). (f, in_PitToken r)) (filter (\<lambda>(f, r). f \<noteq> inFace) (inRecords (pit_entry t pitEntry)));
          t1 = t\<lparr>pitCS := SetExpirationTimerToNow now (pitCS t) pitEntry\<rparr>
      in case strategy of
           None \<Rightarrow> Inl NilDereference
         | Some s \<Rightarrow>
             let t2 = upd_pit pitEntry (\<lambda>e. e\<lparr>satisfied := True\<rparr>) (BeforeSatisfyInterest s pitEntry inFace t1);
                 t3 = insert_dead_nonces env now name (GetOutRecords (pit_entry t2 first)) t2;
                 t4 = upd_pit pitEntry (\<lambda>e. e\<lparr>inRecords := [], outRecords := []\<rparr>) t3
             in rfold (\<lambda>(f, token). processOutgoingData env pkt f token inFace) downstreams t4)"

definition satisfy_all :: "'s fw_env \<Rightarrow> int \<Rightarrow> addr \<Rightarrow> Data \<Rightarrow> u64 \<Rightarrow> u32 option \<Rightarrow> Thread \<Rightarrow> Thread result" where
  "satisfy_all env now pkt d inFace token t =
     (case FindInterestPrefixMatchByDataEnc (env_enc env) (pitCS t) (data_NameV d) token of
        [] \<Rightarrow> Inr t
      | first # others \<Rightarrow>
          rbind (strategy_for env (data_NameV d) t)
            (\<lambda>strategy.
              if others = [] then satisfy_single env now pkt (data_NameV d) inFace strategy first t
              else rfold (satisfy_one env now pkt (data_NameV d) inFace strategy first) (first # others) t))"

definition incoming_token :: "bytes \<Rightarrow> u32 option result" where
  "incoming_token tok =
     (if length tok > 0
      then if length tok < 6 then Inl IndexOutOfRange else Inr (Some (Uint32 (take 4 (drop 2 tok))))
      else Inr None)"

definition processIncomingData :: "'s fw_env \<Rightarrow> int \<Rightarrow> addr \<Rightarrow> Thread \<Rightarrow> Thread result" where
  "processIncomingData env now pkt t =
     (case IncomingFaceID (packet t pkt) of
        None \<Rightarrow> Inr t
      | Some fid \<Rightarrow>
          rbind (incoming_token (PitToken (packet t pkt)))
            (\<lambda>token. case GetFace (FaceDispatch env) fid of
               None \<Rightarrow> Inr t
             | Some incomingFace \<Rightarrow>
                 let t1 = t\<lparr>NInData := NInData t + 1\<rparr>;
                     scoped = (face_Scope incomingFace = NonLocal \<and> NameCache (packet t pkt) \<noteq> [])
                 in case pkt_Data (packet t pkt) of
                      None \<Rightarrow> if scoped \<or> csAdmit env \<or> token = None then Inl NilDereference
                              else (if FindInterestPrefixMatchByDataEnc (env_enc env) (pitCS t1) [] token = [] then Inr t1 else Inl NilDereference)
                    | Some d \<Rightarrow>
                        if scoped \<and> data_NameV d = [] then Inl IndexOutOfRange
                        else if scoped \<and> is_localhost (data_NameV d) then Inr t1
                        else rbind (if csAdmit env then InsertData (env_enc env) (csCapacity env) now (pitCS t1) pkt d else Inr (pitCS t1))
                          (\<lambda>pit. satisfy_all env now pkt d fid token (t1\<lparr>pitCS := pit\<rparr>))))"

section \<open>The other events of the thread's loop\<close>

text \<open>
  \<open>finalizeInterest\<close> is the callback of the PIT; it reads the Interest of each out-record through its
  packet. A panic in it ends the update.
\<close>

definition finalizeInterest :: "'s fw_env \<Rightarrow> int \<Rightarrow> store \<Rightarrow> nameTreePitEntry \<Rightarrow> (DeadNonceList \<times> u64) result \<Rightarrow> (DeadNonceList \<times> u64) result" where
  "finalizeInterest env now pkts e x =
     rbind x (\<lambda>(d, n).
       rbind (rfold (\<lambda>r d. case pkts (out_LatestEncInterest r) of
                  None \<Rightarrow> Inl NilDereference
                | Some p \<Rightarrow>
                    (case pkt_Interest p of
                       None \<Rightarrow> Inl NilDereference
                     | Some i \<Rightarrow> Inr (fst (dnl_Insert (env_enc env) (deadNonceListLifetime env) now d (int_NameV i) (out_LatestEncNonce r)))))
              (map snd (outRecords e)) d)
         (\<lambda>d1. Inr (d1, if satisfied e then n else n + of_nat (length (inRecords e)))))"

datatype fw_event = GotInterest addr | GotData addr | DeadNonceTick | PitUpdate

definition fw_step :: "'s fw_env \<Rightarrow> (nat \<Rightarrow> int) \<Rightarrow> fw_event \<Rightarrow> Thread \<Rightarrow> Thread result" where
  "fw_step env clock ev t =
     (case ev of
        GotInterest pkt \<Rightarrow> processIncomingInterest env (clock 0) pkt t
      | GotData pkt \<Rightarrow> processIncomingData env (clock 0) pkt t
      | DeadNonceTick \<Rightarrow> map_sum id (\<lambda>d. t\<lparr>deadNonceList := d\<rparr>) (RemoveExpiredEntries clock (deadNonceList t))
      | PitUpdate \<Rightarrow>
          rbind (pit_Update clock (finalizeInterest env (clock 0) (packets t)) (pitCS t) (Inr (deadNonceList t, NUnsatisfiedInterests t)))
            (\<lambda>(pit, x, _). map_sum id (\<lambda>(d, n). t\<lparr>pitCS := pit, deadNonceList := d, NUnsatisfiedInterests := n\<rparr>) x))"

end
