(* ===== verification/Fw_Invariant.thy ===== *)
theory Fw_Invariant
  imports Fw_Thread
begin

text \<open>
  The invariant of the forwarding thread: the PIT, the Content Store and the dead nonce list keep their
  invariants through every event of the loop, and names of packets never change. From it follow the
  reachable states of a thread.
\<close>

definition names_in :: "name set \<Rightarrow> store \<Rightarrow> bool" where
  "names_in S pkts = (\<forall>a p. pkts a = Some p \<longrightarrow>
     (\<forall>i. pkt_Interest p = Some i \<longrightarrow> int_NameV i \<in> S) \<and> (\<forall>d. pkt_Data p = Some d \<longrightarrow> data_NameV d \<in> S))"

definition fw_inv :: "enc_api \<Rightarrow> name set \<Rightarrow> Thread \<Rightarrow> bool" where
  "fw_inv E S t = (pit_ok E (pitCS t) \<and> cs_ok E S (pitCS t) \<and> dnl_inv (deadNonceList t) \<and> names_in S (packets t))"

lemma fw_invD:
  assumes "fw_inv E S t"
  shows "pit_ok E (pitCS t)" "cs_ok E S (pitCS t)" "dnl_inv (deadNonceList t)" "names_in S (packets t)"
  using assms by (simp_all add: fw_inv_def)

lemma cs_ok_cong:
  assumes "cs_ok E S p" "\<And>q. csEntry (pc_node p' q) = csEntry (pc_node p q)" "csMap p' = csMap p" "cs_heap p' = cs_heap p"
    "nCsEntries p' = nCsEntries p" "next_addr p \<le> next_addr p'" "csReplacement p' = csReplacement p"
  shows "cs_ok E S p'"
  using assms cs_core_cong[of E S p p'] by (simp add: cs_ok_def)

lemma fw_inv_simps [simp]:
  "fw_inv E S (t\<lparr>NInInterests := n\<rparr>) = fw_inv E S t" "fw_inv E S (t\<lparr>NInData := n\<rparr>) = fw_inv E S t"
  "fw_inv E S (t\<lparr>NOutInterests := n\<rparr>) = fw_inv E S t" "fw_inv E S (t\<lparr>NOutData := n\<rparr>) = fw_inv E S t"
  "fw_inv E S (t\<lparr>NSatisfiedInterests := n\<rparr>) = fw_inv E S t" "fw_inv E S (t\<lparr>sent := ev\<rparr>) = fw_inv E S t"
  "fw_inv E S (t\<lparr>NUnsatisfiedInterests := n\<rparr>) = fw_inv E S t" "fw_inv E S (t\<lparr>rand_tape := r\<rparr>) = fw_inv E S t"
  "fw_inv E S (SendPacket f a t) = fw_inv E S t"
  by (simp_all add: fw_inv_def SendPacket_def)

lemma fw_inv_pit:
  "fw_inv E S t \<Longrightarrow> pit_ok E p \<Longrightarrow> cs_ok E S p \<Longrightarrow> fw_inv E S (t\<lparr>pitCS := p\<rparr>)"
  by (simp add: fw_inv_def)

lemma fw_inv_upd_pit:
  assumes "fw_inv E S t" "same_id f"
  shows "fw_inv E S (upd_pit a f t)"
  using pit_ok_upd[OF fw_invD(1)[OF assms(1)] assms(2)] assms(1) cs_ok_cong[OF fw_invD(2)[OF assms(1)], of "upd_entry a f (pitCS t)"]
  by (simp add: fw_inv_def upd_pit_def)

lemma fw_inv_upd_packet:
  assumes "fw_inv E S t" "\<And>p. map_option int_NameV (pkt_Interest (f p)) = map_option int_NameV (pkt_Interest p)"
    "\<And>p. pkt_Data (f p) = pkt_Data p"
  shows "fw_inv E S (upd_packet a f t)"
proof -
  have "int_NameV i \<in> S" if "packets t a = Some p" "pkt_Interest (f p) = Some i" for p i
  proof -
    from assms(2)[of p] that(2) obtain j where "pkt_Interest p = Some j" "int_NameV j = int_NameV i"
      by (cases "pkt_Interest p") auto
    then show ?thesis using fw_invD(4)[OF assms(1)] that(1) unfolding names_in_def by metis
  qed
  then have "names_in S (packets (upd_packet a f t))"
    using fw_invD(4)[OF assms(1)] assms(3) unfolding names_in_def upd_packet_def by auto
  then show ?thesis using assms(1) by (simp add: fw_inv_def upd_packet_def)
qed

lemma same_id_records:
  "same_id (\<lambda>e. InsertOutRecord now e pkt nonce face)" "same_id (\<lambda>e. fst (InsertInRecord now e pkt nonce face tok))"
  "same_id (\<lambda>e. e\<lparr>inRecords := g e\<rparr>)" "same_id (\<lambda>e. e\<lparr>inRecords := [], outRecords := []\<rparr>)"
  by (auto simp: same_id_def kind_def InsertOutRecord_def InsertInRecord_def split: option.split)

section \<open>The pipelines keep the invariant\<close>

lemma outgoing_interest_inv:
  "fw_inv E S t \<Longrightarrow> processOutgoingInterest env now pkt a nh inFace t = Inr (b, t') \<Longrightarrow> fw_inv E S t'"
  by (auto simp: processOutgoingInterest_def Let_def same_id_records intro!: fw_inv_upd_packet fw_inv_upd_pit
      split: option.splits if_splits)

lemma outgoing_data_inv:
  "fw_inv E S t \<Longrightarrow> processOutgoingData env pkt nh tok inFace t = Inr t' \<Longrightarrow> fw_inv E S t'"
  by (auto simp: processOutgoingData_def Let_def intro!: fw_inv_upd_packet split: option.splits if_splits)

lemma SendData_inv: "fw_inv E S t \<Longrightarrow> SendData env pkt a nh inFace t = Inr t' \<Longrightarrow> fw_inv E S t'"
  unfolding SendData_def
  by (auto simp: same_id_records dest!: outgoing_data_inv[rotated] intro!: fw_inv_upd_pit split: option.splits)

lemma AfterReceiveData_inv: "fw_inv E S t \<Longrightarrow> AfterReceiveData env s pkt a inFace t = Inr t' \<Longrightarrow> fw_inv E S t'"
  unfolding AfterReceiveData_def by (erule rfold_inv) (auto intro: SendData_inv)

lemma try_nexthops_inv:
  "fw_inv E S t \<Longrightarrow> try_nexthops env now pkt a inFace nhs t = Inr t' \<Longrightarrow> fw_inv E S t'"
proof (induction nhs arbitrary: t)
  case (Cons nh nhs)
  then show ?case by (auto simp: rbind_Inr split: if_splits dest: outgoing_interest_inv)
qed simp

lemma AfterReceiveInterest_inv:
  assumes "fw_inv E S t" "AfterReceiveInterest env now s pkt a inFace nhs t = Inr t'"
  shows "fw_inv E S t'"
proof (cases s)
  case BestRoute
  then show ?thesis using assms try_nexthops_inv[OF assms(1)] by (simp add: AfterReceiveInterest_def)
next
  case Multicast
  then have "rfold (\<lambda>nh t. map_sum id snd (processOutgoingInterest env now pkt a (Nexthop nh) inFace t)) nhs t = Inr t'"
    using assms(2) by (simp add: AfterReceiveInterest_def)
  then show ?thesis
  proof (rule rfold_inv[where P = "fw_inv E S"])
    fix nh s s' assume "fw_inv E S s" "map_sum id snd (processOutgoingInterest env now pkt a (Nexthop nh) inFace s) = Inr s'"
    then show "fw_inv E S s'"
      by (cases "processOutgoingInterest env now pkt a (Nexthop nh) inFace s") (auto dest: outgoing_interest_inv)
  qed (rule assms(1))
qed

lemma expiry_cs_ok:
  assumes "cs_ok E S p"
  shows "cs_ok E S (UpdateExpirationTimer now p a)" "cs_ok E S (SetExpirationTimerToNow now p a)"
  by (rule cs_ok_cong[OF assms]; simp add: UpdateExpirationTimer_def SetExpirationTimerToNow_def updatePitExpiry_def Let_def split_beta)+

lemma forward_interest_inv:
  assumes "fw_inv E S t" "forward_interest env now pkt i fh strategy a inFace t = Inr t'"
  shows "fw_inv E S t'"
proof -
  let ?t = "t\<lparr>pitCS := UpdateExpirationTimer now (pitCS t) a\<rparr>"
  have "fw_inv E S ?t" using fw_invD[OF assms(1)] by (intro fw_inv_pit assms(1) SetExpiration_ok expiry_cs_ok)
  then show ?thesis
    using assms(2) by (auto simp: forward_interest_def Let_def rbind_Inr split: option.splits dest: AfterReceiveInterest_inv)
qed

lemma insert_interest_cs_ok:
  assumes "pit_ok E p" "cs_ok E S p" "InsertInterest E tape p i hint f = Inr (p', a, dup, tape')"
  shows "cs_ok E S p'"
proof -
  obtain root1 node where fl: "pc_fillTreeToPrefixEnc E (pc_root p) (int_NameV i) = (root1, node)" by fastforce
  note st = pc_fill_steps[OF pit_okD(2)[OF assms(1)] fl]
  have "csEntry (pc_node p' q) = csEntry (pc_node p q) \<and> csMap p' = csMap p \<and> cs_heap p' = cs_heap p \<and>
      nCsEntries p' = nCsEntries p \<and> next_addr p \<le> next_addr p' \<and> csReplacement p' = csReplacement p" for q
    using assms(3) st(2,4)
    by (auto simp: InsertInterest_def fl Let_def node_at_set split: option.splits sum.splits dest!: insert_finish_spec(4))
  then show ?thesis by (intro cs_ok_cong[OF assms(2)]) auto
qed

lemma SendPacket_simps [simp]:
  "pitCS (SendPacket f a t) = pitCS t" "packets (SendPacket f a t) = packets t" "deadNonceList (SendPacket f a t) = deadNonceList t"
  "rand_tape (SendPacket f a t) = rand_tape t" "threadID (SendPacket f a t) = threadID t" "strategies (SendPacket f a t) = strategies t"
  by (simp_all add: SendPacket_def)

lemma upd_simps [simp]:
  "packets (upd_pit a f t) = packets t" "deadNonceList (upd_pit a f t) = deadNonceList t" "sent (upd_pit a f t) = sent t"
  "pitCS (upd_pit a f t) = upd_entry a f (pitCS t)" "strategies (upd_pit a f t) = strategies t" "threadID (upd_pit a f t) = threadID t"
  "pitCS (upd_packet a g t) = pitCS t" "deadNonceList (upd_packet a g t) = deadNonceList t" "sent (upd_packet a g t) = sent t"
  "strategies (upd_packet a g t) = strategies t" "threadID (upd_packet a g t) = threadID t" "rand_tape (upd_packet a g t) = rand_tape t"
  "rand_tape (upd_pit a f t) = rand_tape t"
  by (simp_all add: upd_pit_def upd_packet_def)

lemma insert_interest_inv:
  assumes "fw_inv E S t" "InsertInterest E tape (pitCS t) i hint f = Inr (p', a, dup, tape')"
  shows "fw_inv E S (t\<lparr>pitCS := p', rand_tape := tape'\<rparr>)"
proof -
  have "pit_ok E p'" using fw_invD(1)[OF assms(1)] assms(2) by (cases rule: InsertInterest_cases)
  then show ?thesis using assms(1) insert_interest_cs_ok[OF fw_invD(1,2)[OF assms(1)] assms(2)] by (simp add: fw_inv_def)
qed

lemma find_data_inv:
  assumes "fw_inv E S t" "FindMatchingDataFromCS E now (pitCS t) i = (p', hit)" "int_NameV i \<in> S"
  shows "fw_inv E S (t\<lparr>pitCS := p'\<rparr>)"
  using FindMatching_keeps(1,2)[OF fw_invD(2,1)[OF assms(1)] assms(2,3)] assms(1) by (simp add: fw_inv_def)

text \<open>What \<open>admit_interest\<close> comes to, by the branch it takes: a dead nonce, a looping nonce, a Content Store hit, or forwarding.\<close>

definition record_interest :: "int \<Rightarrow> addr \<Rightarrow> u32 \<Rightarrow> u64 \<Rightarrow> bytes \<Rightarrow> addr \<Rightarrow> Thread \<Rightarrow> Thread" where
  "record_interest now pkt nonce inFace tok a t = upd_pit a (\<lambda>e. fst (InsertInRecord now e pkt nonce inFace tok)) t"

lemma admit_interest_cases:
  assumes adm: "admit_interest env now pkt i inFace tok t = Inr t'"
  obtains (dead) nonce where "NonceV i = Some nonce" "dnl_Find (env_enc env) (deadNonceList t) (int_NameV i) nonce" "t' = t"
  | (loop) nonce p1 a tape where "NonceV i = Some nonce" "\<not> dnl_Find (env_enc env) (deadNonceList t) (int_NameV i) nonce"
      "InsertInterest (env_enc env) (rand_tape t) (pitCS t) i (hint_name (env_enc env) (NetworkRegion env) i) inFace = Inr (p1, a, True, tape)"
      "t' = t\<lparr>pitCS := p1, rand_tape := tape\<rparr>"
  | (hit) nonce p1 a tape p3 c s t2 where "NonceV i = Some nonce" "\<not> dnl_Find (env_enc env) (deadNonceList t) (int_NameV i) nonce"
      "InsertInterest (env_enc env) (rand_tape t) (pitCS t) i (hint_name (env_enc env) (NetworkRegion env) i) inFace = Inr (p1, a, False, tape)"
      "strategy_for env (int_NameV i) (t\<lparr>pitCS := p1, rand_tape := tape\<rparr>) = Inr (Some s)" "csServe env"
      "map_of (inRecords (entry_of p1 a)) inFace = None"
      "t2 = record_interest now pkt nonce inFace tok a (t\<lparr>pitCS := p1, rand_tape := tape\<rparr>)"
      "FindMatchingDataFromCS (env_enc env) now (pitCS t2) i = (p3, Some c)"
      "SendData env (encData (the (cs_heap p3 c))) a inFace 0 (t2\<lparr>pitCS := p3\<rparr>) = Inr t'"
  | (forward) nonce p1 a tape p3 strategy t2 where "NonceV i = Some nonce" "\<not> dnl_Find (env_enc env) (deadNonceList t) (int_NameV i) nonce"
      "InsertInterest (env_enc env) (rand_tape t) (pitCS t) i (hint_name (env_enc env) (NetworkRegion env) i) inFace = Inr (p1, a, False, tape)"
      "strategy_for env (int_NameV i) (t\<lparr>pitCS := p1, rand_tape := tape\<rparr>) = Inr strategy"
      "t2 = record_interest now pkt nonce inFace tok a (t\<lparr>pitCS := p1, rand_tape := tape\<rparr>)"
      "p3 = pitCS t2 \<or> FindMatchingDataFromCS (env_enc env) now (pitCS t2) i = (p3, None)"
      "forward_interest env now pkt i (hint_name (env_enc env) (NetworkRegion env) i) strategy a inFace (t2\<lparr>pitCS := p3\<rparr>) = Inr t'"
proof -
  let ?E = "env_enc env" and ?hint = "hint_name (env_enc env) (NetworkRegion env) i"
  obtain nonce where nonce: "NonceV i = Some nonce" using adm by (auto simp: admit_interest_def Let_def split: option.splits)
  show ?thesis
  proof (cases "dnl_Find ?E (deadNonceList t) (int_NameV i) nonce")
    case True
    then show ?thesis by (intro dead[OF nonce]) (use adm nonce in \<open>simp_all add: admit_interest_def\<close>)
  next
    case False
    obtain p1 a dup tape where ins: "InsertInterest ?E (rand_tape t) (pitCS t) i ?hint inFace = Inr (p1, a, dup, tape)"
    proof -
      have "InsertInterest ?E (rand_tape t) (pitCS t) i ?hint inFace \<noteq> Inl e" for e
        using adm nonce False by (auto simp: admit_interest_def)
      then obtain r where r: "InsertInterest ?E (rand_tape t) (pitCS t) i ?hint inFace = Inr r" by (meson sum.exhaust)
      obtain p1 a dup tape where "r = (p1, a, dup, tape)" by (cases r)
      with r show ?thesis by (intro that) simp
    qed
    let ?t1 = "t\<lparr>pitCS := p1, rand_tape := tape\<rparr>"
    let ?t2 = "record_interest now pkt nonce inFace tok a ?t1"
    show ?thesis
    proof (cases dup)
      case True
      then show ?thesis by (intro loop[OF nonce False]) (use adm nonce False ins in \<open>auto simp: admit_interest_def\<close>)
    next
      case nodup: False
      have ins': "InsertInterest ?E (rand_tape t) (pitCS t) i ?hint inFace = Inr (p1, a, False, tape)" using ins nodup by simp
      have "\<exists>strategy. strategy_for env (int_NameV i) ?t1 = Inr strategy"
        using adm nonce False ins nodup by (cases "strategy_for env (int_NameV i) ?t1") (simp_all add: admit_interest_def Let_def)
      then obtain strategy where st: "strategy_for env (int_NameV i) ?t1 = Inr strategy" ..
      obtain p3 found where fnd: "FindMatchingDataFromCS ?E now (pitCS ?t2) i = (p3, found)" by fastforce
      have sel: "snd (InsertInRecord now e pkt nonce inFace tok) \<longleftrightarrow> map_of (inRecords e) inFace \<noteq> None" for e
        by (simp add: InsertInRecord_def split: option.split)
      let ?pend = "map_of (inRecords (entry_of p1 a)) inFace \<noteq> None"
      have run: "(if \<not> ?pend \<and> csServe env
           then case found of
                  Some c \<Rightarrow> (case strategy of None \<Rightarrow> Inl NilDereference
                            | Some s \<Rightarrow> SendData env (encData (the (cs_heap p3 c))) a inFace 0 (?t2\<lparr>pitCS := p3\<rparr>))
                | None \<Rightarrow> forward_interest env now pkt i ?hint strategy a inFace (?t2\<lparr>pitCS := p3\<rparr>)
           else forward_interest env now pkt i ?hint strategy a inFace ?t2) = Inr t'"
        using adm nonce False ins nodup st fnd
        by (cases "map_of (inRecords (entry_of p1 a)) inFace"; cases "csServe env")
          (simp_all add: admit_interest_def Let_def record_interest_def[symmetric] sel AfterContentStoreHit_def cong: option.case_cong)
      show ?thesis
      proof (cases "\<not> ?pend \<and> csServe env \<and> found \<noteq> None")
        case True
        then obtain c s where "found = Some c" "strategy = Some s" using run by (auto split: option.splits)
        with True run show ?thesis by (intro hit[OF nonce False ins' _ _ _ refl]) (use st fnd in auto)
      next
        case miss: False
        show ?thesis
        proof (cases "\<not> ?pend \<and> csServe env")
          case True
          with miss have "found = None" by blast
          with True run fnd show ?thesis by (intro forward[OF nonce False ins' st refl]) auto
        next
          case False
          have "?t2\<lparr>pitCS := pitCS ?t2\<rparr> = ?t2" by simp
          with False run show ?thesis by (intro forward[OF nonce \<open>\<not> dnl_Find _ _ _ _\<close> ins' st refl, of "pitCS ?t2"]) auto
        qed
      qed
    qed
  qed
qed

lemma admit_interest_inv:
  assumes inv: "fw_inv (env_enc env) S t" and n: "int_NameV i \<in> S"
    and adm: "admit_interest env now pkt i inFace tok t = Inr t'"
  shows "fw_inv (env_enc env) S t'"
proof -
  have rec: "fw_inv (env_enc env) S (record_interest now pkt nonce inFace tok a t)" if "fw_inv (env_enc env) S t" for nonce a t
    unfolding record_interest_def by (intro fw_inv_upd_pit that same_id_records)
  from adm show ?thesis
  proof (cases rule: admit_interest_cases)
    case dead
    then show ?thesis using inv by simp
  next
    case loop
    then show ?thesis using insert_interest_inv[OF inv] by simp
  next
    case (hit nonce p1 a tape p3 c s t2)
    have "fw_inv (env_enc env) S t2" unfolding hit(7) by (intro rec insert_interest_inv[OF inv hit(3)])
    then show ?thesis using find_data_inv[OF _ hit(8) n] SendData_inv hit(9) by blast
  next
    case (forward nonce p1 a tape p3 strategy t2)
    have 2: "fw_inv (env_enc env) S t2" unfolding forward(5) by (intro rec insert_interest_inv[OF inv forward(3)])
    then have "fw_inv (env_enc env) S (t2\<lparr>pitCS := p3\<rparr>)" using forward(6) find_data_inv[OF _ _ n] by auto
    then show ?thesis using forward_interest_inv forward(7) by blast
  qed
qed

lemma dec_hop_simps [simp]: "int_NameV (dec_hop i) = int_NameV i" "NonceV (dec_hop i) = NonceV i"
  "CanBePrefixV (dec_hop i) = CanBePrefixV i" "MustBeFreshV (dec_hop i) = MustBeFreshV i" "ForwardingHintV (dec_hop i) = ForwardingHintV i"
  by (simp_all add: dec_hop_def split: option.split)

lemma processIncomingInterest_inv:
  assumes inv: "fw_inv (env_enc env) S t" and run: "processIncomingInterest env now pkt t = Inr t'" and pres: "packets t pkt \<noteq> None"
  shows "fw_inv (env_enc env) S t'"
proof (cases "pkt_Interest (packet t pkt)")
  case None
  then have "t' = t" using run by (auto simp: processIncomingInterest_def split: option.splits)
  then show ?thesis using inv by simp
next
  case (Some i)
  let ?t1 = "upd_packet pkt (\<lambda>p. p\<lparr>pkt_Interest := Some (dec_hop i)\<rparr>) t"
  have n: "int_NameV i \<in> S"
    using fw_invD(4)[OF inv] pres Some unfolding names_in_def packet_def by fastforce
  then have "names_in S (packets ?t1)" using fw_invD(4)[OF inv] by (auto simp: names_in_def upd_packet_def)
  then have inv1: "fw_inv (env_enc env) S ?t1" using inv by (simp add: fw_inv_def)
  then show ?thesis
    using run Some inv n by (auto simp: processIncomingInterest_def Let_def split: option.splits if_splits intro: admit_interest_inv[rotated 2])
qed

lemma dead_nonces_inv: "fw_inv E S t \<Longrightarrow> fw_inv E S (insert_dead_nonces env now n rs t)"
proof -
  have "dnl_inv d \<Longrightarrow> dnl_inv (fold (\<lambda>r d. fst (dnl_Insert (env_enc env) (deadNonceListLifetime env) now d n (out_LatestEncNonce r))) rs d)" for d
    by (induction rs arbitrary: d) (simp_all add: dnl_Insert_inv)
  then show "fw_inv E S t \<Longrightarrow> fw_inv E S (insert_dead_nonces env now n rs t)"
    by (simp add: fw_inv_def insert_dead_nonces_def)
qed

lemma timer_inv:
  assumes "fw_inv E S t"
  shows "fw_inv E S (t\<lparr>pitCS := SetExpirationTimerToNow now (pitCS t) a\<rparr>)"
  using SetExpiration_ok(1)[OF fw_invD(1)[OF assms]] expiry_cs_ok(2)[OF fw_invD(2)[OF assms]] by (intro fw_inv_pit assms)

lemma satisfy_single_inv:
  assumes "fw_inv E S t" "satisfy_single env now pkt n inFace strategy a t = Inr t'"
  shows "fw_inv E S t'"
  using assms(2) AfterReceiveData_inv[OF timer_inv[OF assms(1), of now a]]
  by (auto simp: satisfy_single_def rbind_Inr Let_def split: option.splits intro!: fw_inv_upd_pit dead_nonces_inv same_id_expiration)

lemma satisfy_one_inv:
  assumes "fw_inv E S t" "satisfy_one env now pkt n inFace strategy first a t = Inr t'"
  shows "fw_inv E S t'"
proof -
  let ?t1 = "t\<lparr>pitCS := SetExpirationTimerToNow now (pitCS t) a\<rparr>"
  let ?t2 = "upd_pit a (\<lambda>e. e\<lparr>satisfied := True\<rparr>) ?t1"
  let ?t4 = "upd_pit a (\<lambda>e. e\<lparr>inRecords := [], outRecords := []\<rparr>) (insert_dead_nonces env now n (GetOutRecords (pit_entry ?t2 first)) ?t2)"
  have "fw_inv E S ?t4" by (intro fw_inv_upd_pit dead_nonces_inv same_id_expiration same_id_records timer_inv assms(1))
  moreover obtain ds where "rfold (\<lambda>(f, token). processOutgoingData env pkt f token inFace) ds ?t4 = Inr t'"
    using assms(2) by (auto simp: satisfy_one_def Let_def BeforeSatisfyInterest_def split: option.splits)
  ultimately show ?thesis by (elim rfold_inv) (auto intro: outgoing_data_inv)
qed

lemma satisfy_all_inv:
  assumes "fw_inv E S t" "satisfy_all env now pkt d inFace token t = Inr t'"
  shows "fw_inv E S t'"
proof -
  have many: "fw_inv E S t'" if "rfold (satisfy_one env now pkt n inFace s first) as t = Inr t'" for n s first as
    using that assms(1) by (rule rfold_inv) (rule satisfy_one_inv)
  show ?thesis
  proof (cases "FindInterestPrefixMatchByDataEnc (env_enc env) (pitCS t) (data_NameV d) token")
    case Nil
    then show ?thesis using assms by (simp add: satisfy_all_def)
  next
    case (Cons first others)
    then obtain strategy where "(if others = [] then satisfy_single env now pkt (data_NameV d) inFace strategy first t
        else rfold (satisfy_one env now pkt (data_NameV d) inFace strategy first) (first # others) t) = Inr t'"
      using assms(2) by (auto simp: satisfy_all_def rbind_Inr simp del: rfold.simps)
    then show ?thesis using satisfy_single_inv[OF assms(1)] many by (cases "others = []") (simp_all del: rfold.simps)
  qed
qed

lemma processIncomingData_cases:
  assumes run: "processIncomingData env now pkt t = Inr t'"
  obtains (drop) "t' = t" | (ignored) "t' = t\<lparr>NInData := NInData t + 1\<rparr>"
  | (admitted) fid token face d p where "IncomingFaceID (packet t pkt) = Some fid" "incoming_token (PitToken (packet t pkt)) = Inr token"
      "GetFace (FaceDispatch env) fid = Some face" "pkt_Data (packet t pkt) = Some d"
      "\<not> (face_Scope face = NonLocal \<and> NameCache (packet t pkt) \<noteq> [] \<and> is_localhost (data_NameV d))"
      "(if csAdmit env then InsertData (env_enc env) (csCapacity env) now (pitCS t) pkt d else Inr (pitCS t)) = Inr p"
      "satisfy_all env now pkt d fid token (t\<lparr>NInData := NInData t + 1, pitCS := p\<rparr>) = Inr t'"
proof (cases "IncomingFaceID (packet t pkt)")
  case None
  then show ?thesis using run by (intro drop) (simp add: processIncomingData_def)
next
  case fid: (Some fid)
  obtain token where token: "incoming_token (PitToken (packet t pkt)) = Inr token"
    using run fid by (cases "incoming_token (PitToken (packet t pkt))") (simp_all add: processIncomingData_def)
  show ?thesis
  proof (cases "GetFace (FaceDispatch env) fid")
    case None
    then show ?thesis using run fid token by (intro drop) (simp add: processIncomingData_def)
  next
    case face: (Some face)
    show ?thesis
    proof (cases "pkt_Data (packet t pkt)")
      case None
      then show ?thesis using run fid token face
        by (intro ignored) (auto simp: processIncomingData_def Let_def split: if_splits)
    next
      case d: (Some d)
      let ?scoped = "face_Scope face = NonLocal \<and> NameCache (packet t pkt) \<noteq> []"
      let ?ins = "if csAdmit env then InsertData (env_enc env) (csCapacity env) now (pitCS t) pkt d else Inr (pitCS t)"
      have run': "(if ?scoped \<and> data_NameV d = [] then Inl IndexOutOfRange
          else if ?scoped \<and> is_localhost (data_NameV d) then Inr (t\<lparr>NInData := NInData t + 1\<rparr>)
          else rbind ?ins (\<lambda>p. satisfy_all env now pkt d fid token (t\<lparr>NInData := NInData t + 1, pitCS := p\<rparr>))) = Inr t'"
        using run by (simp add: processIncomingData_def fid token face d Let_def cong: if_cong)
      show ?thesis
      proof (cases "?scoped \<and> is_localhost (data_NameV d)")
        case True
        then show ?thesis using run' by (intro ignored) (auto split: if_splits)
      next
        case False
        then obtain p where "?ins = Inr p" "satisfy_all env now pkt d fid token (t\<lparr>NInData := NInData t + 1, pitCS := p\<rparr>) = Inr t'"
          using run' unfolding if_not_P[OF False] by (simp only: rbind_Inr split: if_splits) auto
        with False show ?thesis by (intro admitted[OF fid token face d]) auto
      qed
    qed
  qed
qed

lemma processIncomingData_inv:
  assumes inv: "fw_inv (env_enc env) S t" and cap: "0 \<le> csCapacity env"
    and run: "processIncomingData env now pkt t = Inr t'" and pres: "packets t pkt \<noteq> None"
  shows "fw_inv (env_enc env) S t'"
proof -
  let ?t1 = "t\<lparr>NInData := NInData t + 1\<rparr>"
  have ins: "fw_inv (env_enc env) S (?t1\<lparr>pitCS := p\<rparr>)"
    if "(if csAdmit env then InsertData (env_enc env) (csCapacity env) now (pitCS ?t1) pkt d else Inr (pitCS ?t1)) = Inr p"
      "pkt_Data (packet t pkt) = Some d" for p d
  proof -
    have n: "data_NameV d \<in> S"
      using fw_invD(4)[OF inv] pres that(2) unfolding names_in_def packet_def by fastforce
    have "pit_ok (env_enc env) p \<and> cs_ok (env_enc env) S p"
    proof (cases "csAdmit env")
      case True
      then have i: "InsertData (env_enc env) (csCapacity env) now (pitCS t) pkt d = Inr p" using that(1) by simp
      show ?thesis
      proof (cases "csMap (pitCS t) (name_Hash (env_enc env) (data_NameV d))")
        case None
        from InsertData_new[OF fw_invD(2,1)[OF inv] n None cap, of now pkt] i show ?thesis by (elim exE conjE) simp
      next
        case (Some a)
        from InsertData_refresh[OF fw_invD(2,1)[OF inv] Some, of "csCapacity env" now pkt] i show ?thesis by (elim exE conjE) simp
      qed
    qed (use that inv in \<open>auto simp: fw_inv_def\<close>)
    then show ?thesis using inv by (intro fw_inv_pit) simp_all
  qed
  from run show ?thesis
  proof (cases rule: processIncomingData_cases)
    case (admitted fid token face d p)
    have "fw_inv (env_enc env) S (?t1\<lparr>pitCS := p\<rparr>)" using admitted(6) by (intro ins[OF _ admitted(4)]) (simp split: if_splits)
    then show ?thesis using satisfy_all_inv admitted(7) by blast
  qed (use inv in simp_all)
qed

section \<open>The timers\<close>

lemma RemoveInterest_cs_ok: "pit_ok E p \<Longrightarrow> cs_ok E S p \<Longrightarrow> cs_ok E S (fst (RemoveInterest p a))"
proof -
  assume ok: "pit_ok E p" "cs_ok E S p"
  obtain p' found where r: "RemoveInterest p a = (p', found)" by fastforce
  have keep: "csMap p' = csMap p" "cs_heap p' = cs_heap p" "nCsEntries p' = nCsEntries p" "next_addr p' = next_addr p" "csReplacement p' = csReplacement p"
    using r by (auto simp: RemoveInterest_def Let_def split: option.splits)
  from ok(1) r have "csEntry (pc_node p' q) = csEntry (pc_node p q)" for q
    by (cases rule: RemoveInterest_cases) auto
  then have "cs_ok E S p'" by (intro cs_ok_cong[OF ok(2)]) (simp_all add: keep)
  then show ?thesis by (simp add: r)
qed

lemma pit_expire_loop_keeps:
  assumes "\<And>e x. P x \<Longrightarrow> P (f e x)"
  shows "pit_expire_loop clock i f p x = Inr (i', p', x') \<Longrightarrow> pit_ok E p \<Longrightarrow> cs_ok E S p \<Longrightarrow> P x \<Longrightarrow> cs_ok E S p' \<and> P x'"
  using assms
proof (induction clock i f p x rule: pit_expire_loop.induct)
  case (1 clock i f p x)
  have q: "pq_inv (pitExpiryQueue p)" by (rule pit_okD(9)[OF "1.prems"(2)])
  from q show ?case
  proof (cases rule: pq.next_cases)
    case empty
    then show ?thesis using "1.prems" by (simp add: pit_expire_loop.simps)
  next
    case (least m a q')
    show ?thesis
    proof (cases "m \<le> clock i")
      case False
      then show ?thesis using least "1.prems" by (simp add: pit_expire_loop.simps)
    next
      case True
      let ?p1 = "upd_entry a (\<lambda>e. e\<lparr>queueIndex := - 1\<rparr>) (p\<lparr>pitExpiryQueue := q'\<rparr>)"
      let ?p2 = "fst (RemoveInterest ?p1 a)" and ?x = "f (the (pit_heap ?p1 a)) x"
      have "pit_ok E (p\<lparr>pitExpiryQueue := q'\<rparr>)"
        by (rule pit_ok_cong[OF "1.prems"(2)]) (use least(4) pit_okD(2)[OF "1.prems"(2)] in simp_all)
      then have ok1: "pit_ok E ?p1" by (intro pit_ok_upd same_id_expiration)
      have cs1: "cs_ok E S ?p1" by (rule cs_ok_cong[OF "1.prems"(3)]) simp_all
      have step: "pit_expire_loop clock (Suc i) f ?p2 ?x = Inr (i', p', x')"
        using least True "1.prems"(1) by (simp add: pit_expire_loop.simps[of clock i] Let_def)
      show ?thesis
        using "1.IH"[OF _ least(2) _ least(3) refl refl refl step RemoveInterest_live(1)[OF ok1] RemoveInterest_cs_ok[OF ok1 cs1]
            "1.prems"(5)[OF "1.prems"(4)] "1.prems"(5)] least(1) True by auto
    qed
  qed
qed

lemma finalize_inv:
  "(case x of Inr (d, n) \<Rightarrow> dnl_inv d | Inl e \<Rightarrow> True) \<Longrightarrow>
   (case finalizeInterest env now pkts e x of Inr (d, n) \<Rightarrow> dnl_inv d | Inl e \<Rightarrow> True)"
proof (cases x)
  case (Inr y)
  obtain d n where y: "y = (d, n)" by fastforce
  assume "case x of Inr (d, n) \<Rightarrow> dnl_inv d | Inl e \<Rightarrow> True"
  then have d: "dnl_inv d" by (simp add: Inr y)
  let ?f = "\<lambda>r d. case pkts (out_LatestEncInterest r) of None \<Rightarrow> Inl NilDereference | Some p \<Rightarrow>
      (case pkt_Interest p of None \<Rightarrow> Inl NilDereference
       | Some i \<Rightarrow> Inr (fst (dnl_Insert (env_enc env) (deadNonceListLifetime env) now d (int_NameV i) (out_LatestEncNonce r))))"
  have "dnl_inv d'" if "rfold ?f rs d = Inr d'" for rs d'
    using that d by (rule rfold_inv) (auto split: option.splits intro: dnl_Insert_inv)
  then show ?thesis by (cases "rfold ?f (map snd (outRecords e)) d") (auto simp: finalizeInterest_def Inr y)
qed (simp add: finalizeInterest_def)

lemma pit_update_inv:
  assumes inv: "fw_inv (env_enc env) S t" and run: "fw_step env clock PitUpdate t = Inr t'"
  shows "fw_inv (env_enc env) S t'"
proof -
  let ?P = "\<lambda>x. case x of Inr (d, n) \<Rightarrow> dnl_inv d | Inl e \<Rightarrow> True"
  let ?x = "Inr (deadNonceList t, NUnsatisfiedInterests t)" and ?f = "finalizeInterest env (clock 0) (packets t)"
  obtain i p' x' R where loop: "pit_expire_loop clock 0 ?f (pitCS t) ?x = Inr (i, p', x')" "pit_ok (env_enc env) p'"
    using pit_expire_loop_ok[OF fw_invD(1)[OF inv], where clock = clock and i = 0 and f = ?f and x = ?x] by blast
  have "?P ?x" using fw_invD(3)[OF inv] by simp
  with loop(1) fw_invD(1,2)[OF inv] have k: "cs_ok (env_enc env) S p' \<and> ?P x'"
    by (intro pit_expire_loop_keeps[where P = ?P, OF finalize_inv]) auto
  obtain d n where "x' = Inr (d, n)" "t' = t\<lparr>pitCS := p', deadNonceList := d, NUnsatisfiedInterests := n\<rparr>"
    using run loop(1) by (cases x') (auto simp: fw_step_def pit_Update_def split: sum.splits)
  with k loop(2) inv show ?thesis by (simp add: fw_inv_def)
qed

lemma fw_step_inv:
  assumes inv: "fw_inv (env_enc env) S t" and cap: "0 \<le> csCapacity env" and run: "fw_step env clock ev t = Inr t'"
    and pres: "\<And>a. ev = GotInterest a \<or> ev = GotData a \<Longrightarrow> packets t a \<noteq> None" and clock: "mono clock"
  shows "fw_inv (env_enc env) S t'"
proof (cases ev)
  case (GotInterest a)
  then show ?thesis using processIncomingInterest_inv[OF inv] run pres by (simp add: fw_step_def)
next
  case (GotData a)
  then show ?thesis using processIncomingData_inv[OF inv cap] run pres by (simp add: fw_step_def)
next
  case DeadNonceTick
  have d: "dnl_inv (deadNonceList t)" by (rule fw_invD(3)[OF inv])
  then obtain d' where "RemoveExpiredEntries clock (deadNonceList t) = Inr d'" "dnl_inv d'"
    using dnl_remove_loop_drained[OF d clock, of 0] by (auto simp: RemoveExpiredEntries_def)
  then show ?thesis using run inv DeadNonceTick by (auto simp: fw_step_def fw_inv_def)
next
  case PitUpdate
  then show ?thesis using pit_update_inv[OF inv] run by simp
qed

end
