(* ===== verification/Fw_Total.thy ===== *)
theory Fw_Total
  imports Fw_Invariant
begin

text \<open>
  When the forwarding thread does not panic. The records of the PIT and the entries of the Content Store
  refer to packets by address; \<open>refs_ok\<close> says that these addresses hold packets of the right kind. Every
  operation of the pipelines then returns, keeps \<open>refs_ok\<close>, and changes no packet beyond its hop limit and
  its link-service fields.
\<close>

section \<open>Packets\<close>

definition shape :: "PendingPacket \<Rightarrow> Interest option \<times> Data option" where
  "shape p = (map_option (\<lambda>i. i\<lparr>HopLimitV := None\<rparr>) (pkt_Interest p), pkt_Data p)"

definition same_shapes :: "Thread \<Rightarrow> Thread \<Rightarrow> bool" where
  "same_shapes t t' = (\<forall>a. map_option shape (packets t' a) = map_option shape (packets t a))"

definition is_interest :: "Thread \<Rightarrow> addr \<Rightarrow> bool" where
  "is_interest t a = (\<exists>p i. packets t a = Some p \<and> pkt_Interest p = Some i \<and> NonceV i \<noteq> None)"

definition is_data :: "Thread \<Rightarrow> addr \<Rightarrow> bool" where
  "is_data t a = (\<exists>p d. packets t a = Some p \<and> pkt_Data p = Some d)"

lemma same_shapes_refl [simp]: "same_shapes t t"
  by (simp add: same_shapes_def)

lemma same_shapes_trans: "same_shapes t t' \<Longrightarrow> same_shapes t' t'' \<Longrightarrow> same_shapes t t''"
  by (simp add: same_shapes_def)

lemma same_shapes_kind:
  assumes "same_shapes t t'"
  shows "is_interest t a \<Longrightarrow> is_interest t' a" "is_data t a \<Longrightarrow> is_data t' a"
proof -
  have s: "map_option shape (packets t' a) = map_option shape (packets t a)" using assms by (simp add: same_shapes_def)
  show "is_interest t' a" if kind: "is_interest t a"
  proof -
    obtain p i where p: "packets t a = Some p" "pkt_Interest p = Some i" "NonceV i \<noteq> None"
      using kind unfolding is_interest_def by blast
    then obtain q where q: "packets t' a = Some q" "shape q = shape p" using s by auto
    then obtain j where j: "pkt_Interest q = Some j" "j\<lparr>HopLimitV := None\<rparr> = i\<lparr>HopLimitV := None\<rparr>" using p by (auto simp: shape_def)
    then have "NonceV j = NonceV i" by (cases i; cases j) simp
    with p q j show ?thesis by (simp add: is_interest_def)
  qed
  show "is_data t' a" if "is_data t a"
    using that s by (fastforce simp: is_data_def shape_def)
qed

lemma same_shapes_upd:
  "(\<And>p. shape (f p) = shape p) \<Longrightarrow> same_shapes t (upd_packet a f t)"
  by (simp add: same_shapes_def upd_packet_def option.map_comp comp_def)

lemma same_shapes_frame [simp]:
  "same_shapes t (t'\<lparr>pitCS := p\<rparr>) = same_shapes t t'" "same_shapes t (t'\<lparr>deadNonceList := d\<rparr>) = same_shapes t t'"
  "same_shapes t (t'\<lparr>NOutInterests := n\<rparr>) = same_shapes t t'" "same_shapes t (t'\<lparr>NOutData := n\<rparr>) = same_shapes t t'"
  "same_shapes t (t'\<lparr>NInInterests := n\<rparr>) = same_shapes t t'" "same_shapes t (t'\<lparr>NInData := n\<rparr>) = same_shapes t t'"
  "same_shapes t (t'\<lparr>NSatisfiedInterests := n\<rparr>) = same_shapes t t'" "same_shapes t (t'\<lparr>NUnsatisfiedInterests := n\<rparr>) = same_shapes t t'"
  "same_shapes t (t'\<lparr>rand_tape := r\<rparr>) = same_shapes t t'" "same_shapes t (t'\<lparr>sent := ev\<rparr>) = same_shapes t t'"
  "same_shapes t (SendPacket f a t') = same_shapes t t'" "same_shapes t (upd_pit a g t') = same_shapes t t'"
  by (simp_all add: same_shapes_def SendPacket_def upd_pit_def)

section \<open>References\<close>

text \<open>
  \<open>refs_ok\<close>: out-records refer to Interests, the Content Store to Data, and the expiry queue to PIT
  entries. \<open>frames t t'\<close>: the packets keep their shapes, PIT entries stay allocated and the strategies are the same.
\<close>

definition refs_ok :: "Thread \<Rightarrow> bool" where
  "refs_ok t =
     ((\<forall>a e r. pit_heap (pitCS t) a = Some e \<longrightarrow> r \<in> set (outRecords e) \<longrightarrow> is_interest t (out_LatestEncInterest (snd r))) \<and>
      (\<forall>a c. cs_heap (pitCS t) a = Some c \<longrightarrow> is_data t (encData c)) \<and>
      (\<forall>y\<in>#contents (pitExpiryQueue (pitCS t)). pit_heap (pitCS t) (fst y) \<noteq> None))"

definition frames :: "Thread \<Rightarrow> Thread \<Rightarrow> bool" where
  "frames t t' = (same_shapes t t' \<and> strategies t' = strategies t \<and> dom (pit_heap (pitCS t)) \<subseteq> dom (pit_heap (pitCS t')))"

lemma framesD:
  assumes "frames t t'"
  shows "same_shapes t t'" "strategies t' = strategies t" "pit_heap (pitCS t) a \<noteq> None \<Longrightarrow> pit_heap (pitCS t') a \<noteq> None"
  using assms by (auto simp: frames_def)

lemma frames_refl [simp]: "frames t t"
  by (simp add: frames_def)

lemma frames_trans: "frames t t' \<Longrightarrow> frames t' t'' \<Longrightarrow> frames t t''"
  by (auto simp: frames_def intro: same_shapes_trans)

lemma refs_okD:
  assumes "refs_ok t"
  shows "pit_heap (pitCS t) a = Some e \<Longrightarrow> r \<in> set (outRecords e) \<Longrightarrow> is_interest t (out_LatestEncInterest (snd r))"
    "cs_heap (pitCS t) a = Some c \<Longrightarrow> is_data t (encData c)"
    "y \<in># contents (pitExpiryQueue (pitCS t)) \<Longrightarrow> pit_heap (pitCS t) (fst y) \<noteq> None"
  using assms unfolding refs_ok_def by blast+

text \<open>A step whose new records refer to packets of the right kind keeps \<open>refs_ok\<close>.\<close>

lemma refs_ok_step:
  assumes "refs_ok t" "frames t t'"
    and out: "\<And>a e r. pit_heap (pitCS t') a = Some e \<Longrightarrow> r \<in> set (outRecords e) \<Longrightarrow>
      is_interest t (out_LatestEncInterest (snd r)) \<or> (\<exists>b e0. pit_heap (pitCS t) b = Some e0 \<and> r \<in> set (outRecords e0))"
    and cs: "\<And>a c. cs_heap (pitCS t') a = Some c \<Longrightarrow> is_data t (encData c) \<or> (\<exists>b c0. cs_heap (pitCS t) b = Some c0 \<and> encData c = encData c0)"
    and q: "\<And>y. y \<in># contents (pitExpiryQueue (pitCS t')) \<Longrightarrow> y \<in># contents (pitExpiryQueue (pitCS t)) \<or> pit_heap (pitCS t) (fst y) \<noteq> None"
  shows "refs_ok t'"
proof -
  note k = same_shapes_kind[OF framesD(1)[OF assms(2)]]
  have "is_interest t' (out_LatestEncInterest (snd r))" if "pit_heap (pitCS t') a = Some e" "r \<in> set (outRecords e)" for a e r
    using out[OF that] refs_okD(1)[OF assms(1)] k(1) by blast
  moreover have "is_data t' (encData c)" if "cs_heap (pitCS t') a = Some c" for a c
    using cs[OF that] refs_okD(2)[OF assms(1)] k(2) by metis
  moreover have "pit_heap (pitCS t') (fst y) \<noteq> None" if "y \<in># contents (pitExpiryQueue (pitCS t'))" for y
    using q[OF that] refs_okD(3)[OF assms(1)] framesD(3)[OF assms(2)] by blast
  ultimately show ?thesis by (simp add: refs_ok_def)
qed

lemma refs_ok_frame:
  assumes "refs_ok t" "frames t t'" "pit_heap (pitCS t') = pit_heap (pitCS t)" "cs_heap (pitCS t') = cs_heap (pitCS t)"
    "pitExpiryQueue (pitCS t') = pitExpiryQueue (pitCS t)"
  shows "refs_ok t'"
  using assms(3-5) by (intro refs_ok_step[OF assms(1,2)]) auto

lemma frames_upd_pit [simp]: "frames t (upd_pit a f t)"
  by (auto simp: frames_def)

lemma refs_ok_upd_pit:
  assumes "refs_ok t" "\<And>e r. pit_heap (pitCS t) a = Some e \<Longrightarrow> r \<in> set (outRecords (f e)) \<Longrightarrow> is_interest t (out_LatestEncInterest (snd r)) \<or> r \<in> set (outRecords e)"
  shows "refs_ok (upd_pit a f t)"
proof (rule refs_ok_step[OF assms(1)])
  fix b e r assume "pit_heap (pitCS (upd_pit a f t)) b = Some e" "r \<in> set (outRecords e)"
  then show "is_interest t (out_LatestEncInterest (snd r)) \<or> (\<exists>b e0. pit_heap (pitCS t) b = Some e0 \<and> r \<in> set (outRecords e0))"
  proof (cases "b = a")
    case True
    then obtain e0 where "pit_heap (pitCS t) a = Some e0" "e = f e0" using \<open>pit_heap _ b = Some e\<close> by auto
    then show ?thesis using assms(2) \<open>r \<in> _\<close> by blast
  qed (use \<open>pit_heap _ b = Some e\<close> \<open>r \<in> _\<close> in auto)
qed auto

lemma updatePitExpiry_queue:
  assumes "pq_inv (pitExpiryQueue p)" "y \<in># contents (pitExpiryQueue (updatePitExpiry p a))"
  shows "fst y = a \<or> y \<in># contents (pitExpiryQueue p)"
proof (cases "queueIndex (the (pit_heap p a)) < 0")
  case True
  then show ?thesis using assms(2) pq.push_bag[OF assms(1)] by (auto simp: updatePitExpiry_def Let_def split_beta)
next
  case False
  let ?i = "queueIndex (the (pit_heap p a))" and ?t = "expirationTime (the (pit_heap p a))"
  show ?thesis
  proof (cases "nat ?i < length (pitExpiryQueue p)")
    case True
    obtain h i where h: "pq_Update (pitExpiryQueue p) ?i a ?t = (h, i)" by fastforce
    have eq: "add_mset (object (pitExpiryQueue p ! nat ?i), prio (pitExpiryQueue p) (nat ?i)) (contents h) = add_mset (a, ?t) (contents (pitExpiryQueue p))"
      using True False by (intro pq_Update_correct(3)[OF assms(1) _ _ h]) simp_all
    have "pitExpiryQueue (updatePitExpiry p a) = h" using False h by (simp add: updatePitExpiry_def Let_def)
    then have "y \<in># add_mset (object (pitExpiryQueue p ! nat ?i), prio (pitExpiryQueue p) (nat ?i)) (contents h)" using assms(2) by simp
    then show ?thesis unfolding eq by auto
  next
    case beyond: False
    then have "\<not> ?i < int (length (pitExpiryQueue p))" using False by linarith
    then have "fst (pq_Update (pitExpiryQueue p) ?i a ?t) = pitExpiryQueue p" by (simp add: pq_Update_def)
    then show ?thesis using assms(2) False by (simp add: updatePitExpiry_def Let_def)
  qed
qed

lemma expiry_refs_ok:
  assumes "refs_ok t" "pq_inv (pitExpiryQueue (pitCS t))" "pit_heap (pitCS t) a \<noteq> None"
    "p = SetExpirationTimerToNow now (pitCS t) a \<or> p = UpdateExpirationTimer now (pitCS t) a"
  shows "refs_ok (t\<lparr>pitCS := p\<rparr>) \<and> frames t (t\<lparr>pitCS := p\<rparr>)"
proof -
  have h: "cs_heap p = cs_heap (pitCS t)" "\<And>b e. pit_heap p b = Some e \<Longrightarrow> \<exists>e0. pit_heap (pitCS t) b = Some e0 \<and> outRecords e = outRecords e0"
    "dom (pit_heap p) = dom (pit_heap (pitCS t))"
    using assms(4) by (auto simp: SetExpirationTimerToNow_def UpdateExpirationTimer_def updatePitExpiry_def Let_def split_beta split: if_splits)
  have "fst y = a \<or> y \<in># contents (pitExpiryQueue (pitCS t))" if "y \<in># contents (pitExpiryQueue p)" for y
    using assms(4) updatePitExpiry_queue[of "upd_entry a _ (pitCS t)" y a] assms(2) that
    by (auto simp: SetExpirationTimerToNow_def UpdateExpirationTimer_def)
  moreover have f: "frames t (t\<lparr>pitCS := p\<rparr>)" using h(3) by (simp add: frames_def)
  ultimately have "refs_ok (t\<lparr>pitCS := p\<rparr>)" by (intro refs_ok_step[OF assms(1) f]) (use h assms(3) in fastforce)+
  with f show ?thesis by simp
qed

section \<open>The outgoing pipelines return\<close>

text \<open>\<open>returns E S r t\<close>: from \<open>t\<close> the operation ends without a panic in a state that is again as it should be.\<close>

definition good :: "enc_api \<Rightarrow> name set \<Rightarrow> Thread \<Rightarrow> bool" where
  "good E S t = (fw_inv E S t \<and> refs_ok t)"

definition returns :: "enc_api \<Rightarrow> name set \<Rightarrow> Thread result \<Rightarrow> Thread \<Rightarrow> bool" where
  "returns E S r t = (\<exists>t'. r = Inr t' \<and> good E S t' \<and> frames t t')"

lemma goodD: "good E S t \<Longrightarrow> fw_inv E S t" "good E S t \<Longrightarrow> refs_ok t"
  by (simp_all add: good_def)

lemma returnsI: "r = Inr t' \<Longrightarrow> good E S t' \<Longrightarrow> frames t t' \<Longrightarrow> returns E S r t"
  by (auto simp: returns_def)

lemma returnsE:
  assumes "returns E S r t"
  obtains t' where "r = Inr t'" "good E S t'" "frames t t'"
  using assms by (auto simp: returns_def)

lemma returns_after: "returns E S r t1 \<Longrightarrow> frames t t1 \<Longrightarrow> returns E S r t"
  by (auto simp: returns_def intro: frames_trans)

lemma returns_rfold:
  assumes "good E S t" "\<And>x s. x \<in> set xs \<Longrightarrow> good E S s \<Longrightarrow> frames t s \<Longrightarrow> returns E S (f x s) s"
  shows "returns E S (rfold f xs t) t"
  using assms
proof (induction xs arbitrary: t)
  case Nil
  then show ?case by (auto intro: returnsI)
next
  case (Cons x xs)
  have "returns E S (f x t) t" using Cons.prems(1) by (intro Cons.prems(2)) simp_all
  then obtain t1 where t1: "f x t = Inr t1" "good E S t1" "frames t t1" by (rule returnsE)
  have "returns E S (rfold f xs t1) t1"
    by (rule Cons.IH[OF t1(2)]) (use Cons.prems(2) t1 frames_trans in auto)
  then show ?case using t1 by (auto intro: returns_after)
qed

lemma InsertOutRecord_set:
  "r \<in> set (outRecords (InsertOutRecord now e pkt nonce face)) \<Longrightarrow> out_LatestEncInterest (snd r) = pkt \<or> r \<in> set (outRecords e)"
proof -
  have u: "r \<in> set (AList.update k v al) \<Longrightarrow> r = (k, v) \<or> r \<in> set al" for k and v :: PitOutRecord and al
    by (induction al) (auto split: if_splits)
  show "r \<in> set (outRecords (InsertOutRecord now e pkt nonce face)) \<Longrightarrow> out_LatestEncInterest (snd r) = pkt \<or> r \<in> set (outRecords e)"
    by (auto simp: InsertOutRecord_def split: option.splits dest!: u)
qed

lemma is_interestE:
  assumes "is_interest t a"
  obtains p i n where "packets t a = Some p" "packet t a = p" "pkt_Interest p = Some i" "NonceV i = Some n"
  using assms by (auto simp: is_interest_def packet_def)

lemma is_dataE:
  assumes "is_data t a"
  obtains p d where "packets t a = Some p" "packet t a = p" "pkt_Data p = Some d"
  using assms by (auto simp: is_data_def packet_def)

lemma frames_packets: "same_shapes t t' \<Longrightarrow> pitCS t' = pitCS t \<Longrightarrow> strategies t' = strategies t \<Longrightarrow> frames t t'"
  by (simp add: frames_def)

lemma outgoing_interest_returns:
  assumes "good E S t" "is_interest t pkt"
  shows "\<exists>b t'. processOutgoingInterest env now pkt a nh inFace t = Inr (b, t') \<and> good E S t' \<and> frames t t'"
proof -
  obtain p i n where p: "packets t pkt = Some p" "packet t pkt = p" "pkt_Interest p = Some i" "NonceV i = Some n"
    using assms(2) by (rule is_interestE)
  let ?t1 = "upd_pit a (\<lambda>e. InsertOutRecord now e pkt n nh) t"
  let ?t2 = "?t1\<lparr>NOutInterests := NOutInterests ?t1 + 1\<rparr>"
  let ?t3 = "upd_packet pkt (\<lambda>p. p\<lparr>IncomingFaceID := Some inFace, PitToken := fw_pit_token (threadID t) (pit_token (pit_entry t a))\<rparr>) ?t2"
  have r1: "refs_ok ?t1" using assms by (intro refs_ok_upd_pit) (auto simp: good_def dest: InsertOutRecord_set)
  have s3: "same_shapes ?t2 ?t3" by (intro same_shapes_upd) (simp add: shape_def)
  then have f1: "frames ?t1 ?t3" by (simp add: frames_def same_shapes_def)
  have r4: "refs_ok (SendPacket f pkt ?t3)" "frames t (SendPacket f pkt ?t3)" for f
  proof -
    have f: "frames ?t1 (SendPacket f pkt ?t3)" using f1 by (simp add: frames_def)
    show "refs_ok (SendPacket f pkt ?t3)" by (rule refs_ok_frame[OF r1 f]) simp_all
    show "frames t (SendPacket f pkt ?t3)" by (rule frames_trans[OF frames_upd_pit f])
  qed
  have "\<exists>b t'. processOutgoingInterest env now pkt a nh inFace t = Inr (b, t') \<and> refs_ok t' \<and> frames t t'"
    using goodD(2)[OF assms(1)] p r4 by (auto simp: processOutgoingInterest_def Let_def split: option.split)
  then show ?thesis using outgoing_interest_inv[OF goodD(1)[OF assms(1)]] unfolding good_def by blast
qed

lemma outgoing_data_returns:
  assumes "good E S t" "is_data t pkt"
  shows "returns E S (processOutgoingData env pkt nh tok inFace t) t"
proof -
  obtain p d where p: "packets t pkt = Some p" "packet t pkt = p" "pkt_Data p = Some d" using assms(2) by (rule is_dataE)
  let ?t1 = "t\<lparr>NOutData := NOutData t + 1, NSatisfiedInterests := NSatisfiedInterests t + 1\<rparr>"
  let ?t2 = "upd_packet pkt (\<lambda>p. (if length tok > 0 then p\<lparr>PitToken := tok\<rparr> else p)\<lparr>IncomingFaceID := Some inFace\<rparr>) ?t1"
  have s2: "same_shapes ?t1 ?t2" by (intro same_shapes_upd) (simp add: shape_def)
  have f: "frames t (SendPacket f pkt ?t2)" for f using s2 by (simp add: frames_def same_shapes_def)
  have "refs_ok (SendPacket f pkt ?t2)" for f by (rule refs_ok_frame[OF goodD(2)[OF assms(1)] f]) simp_all
  then have "\<exists>t'. processOutgoingData env pkt nh tok inFace t = Inr t' \<and> refs_ok t' \<and> frames t t'"
    using goodD(2)[OF assms(1)] p f by (auto simp: processOutgoingData_def Let_def split: option.split)
  then show ?thesis using outgoing_data_inv[OF goodD(1)[OF assms(1)]] unfolding good_def returns_def by blast
qed

lemma good_upd_pit:
  assumes "good E S t" "same_id f" "\<And>e. set (outRecords (f e)) \<subseteq> set (outRecords e)"
  shows "good E S (upd_pit a f t)"
  unfolding good_def
  by (intro conjI fw_inv_upd_pit refs_ok_upd_pit goodD(1)[OF assms(1)] goodD(2)[OF assms(1)] assms(2)) (use assms(3) in blast)

lemma SendData_returns:
  assumes "good E S t" "is_data t pkt"
  shows "returns E S (SendData env pkt a nh inFace t) t"
proof (cases "map_of (inRecords (pit_entry t a)) nh")
  case None
  then show ?thesis using outgoing_data_returns[OF assms] by (simp add: SendData_def)
next
  case (Some r)
  let ?t = "upd_pit a (\<lambda>e. e\<lparr>inRecords := AList.delete nh (inRecords e)\<rparr>) t"
  have "good E S ?t" by (intro good_upd_pit assms(1) same_id_records) simp
  then have "returns E S (processOutgoingData env pkt nh (in_PitToken r) inFace ?t) ?t"
    using assms(2) by (intro outgoing_data_returns) (simp_all add: is_data_def)
  then show ?thesis using Some by (simp add: SendData_def returns_after)
qed

lemma AfterReceiveData_returns:
  assumes "good E S t" "is_data t pkt"
  shows "returns E S (AfterReceiveData env s pkt a inFace t) t"
  unfolding AfterReceiveData_def
  by (intro returns_rfold assms(1) SendData_returns) (auto intro: same_shapes_kind(2)[OF framesD(1)] assms(2))

lemma try_nexthops_returns:
  "good E S t \<Longrightarrow> is_interest t pkt \<Longrightarrow> returns E S (try_nexthops env now pkt a inFace nhs t) t"
proof (induction nhs arbitrary: t)
  case Nil
  then show ?case by (auto intro: returnsI)
next
  case (Cons nh nhs)
  obtain b t1 where t1: "processOutgoingInterest env now pkt a (Nexthop nh) inFace t = Inr (b, t1)" "good E S t1" "frames t t1"
    using outgoing_interest_returns[OF Cons.prems] by blast
  have "returns E S (try_nexthops env now pkt a inFace nhs t1) t1"
    by (intro Cons.IH t1 same_shapes_kind(1)[OF framesD(1)[OF t1(3)]] Cons.prems)
  then show ?case using t1 by (auto intro: returnsI returns_after)
qed

lemma AfterReceiveInterest_returns:
  assumes "good E S t" "is_interest t pkt"
  shows "returns E S (AfterReceiveInterest env now s pkt a inFace nhs t) t"
proof (cases s)
  case BestRoute
  then show ?thesis using try_nexthops_returns[OF assms] by (simp add: AfterReceiveInterest_def)
next
  case Multicast
  have "returns E S (rfold (\<lambda>nh t. map_sum id snd (processOutgoingInterest env now pkt a (Nexthop nh) inFace t)) nhs t) t"
  proof (rule returns_rfold[OF assms(1)])
    fix nh s assume s: "good E S s" "frames t s"
    obtain b s' where "processOutgoingInterest env now pkt a (Nexthop nh) inFace s = Inr (b, s')" "good E S s'" "frames s s'"
      using outgoing_interest_returns[OF s(1)] same_shapes_kind(1)[OF framesD(1)[OF s(2)] assms(2)] by blast
    then show "returns E S (map_sum id snd (processOutgoingInterest env now pkt a (Nexthop nh) inFace s)) s" by (intro returnsI[of _ s']) auto
  qed
  then show ?thesis using Multicast by (simp add: AfterReceiveInterest_def)
qed

section \<open>The Interest pipeline returns\<close>

text \<open>What the thread relies on in its environment: lookups answer, and with a strategy that the thread has.\<close>

definition env_ok :: "'s fw_env \<Rightarrow> Thread \<Rightarrow> bool" where
  "env_ok env t =
     ((\<forall>n. \<exists>nhs. FindNextHopsEnc (env_fib_ops env) (env_fib env) n = Inr nhs) \<and>
      (\<forall>n. \<exists>s. FindStrategyEnc (env_fib_ops env) (env_fib env) n = Inr s \<and>
         strategies t (name_Hash (env_enc env) (nil_to_empty s)) \<noteq> None) \<and>
      0 \<le> csCapacity env)"

lemma env_ok_frames: "env_ok env t \<Longrightarrow> strategies t' = strategies t \<Longrightarrow> env_ok env t'"
  by (simp add: env_ok_def)

lemma strategy_known: "env_ok env t \<Longrightarrow> strategies t' = strategies t \<Longrightarrow> \<exists>s. strategy_for env n t' = Inr (Some s)"
  unfolding env_ok_def strategy_for_def by (metis (no_types, lifting) map_sum.simps(2) not_None_eq)

lemma forward_interest_returns:
  assumes "good E S t" "is_interest t pkt" "pit_heap (pitCS t) a \<noteq> None" "env_ok env t"
  shows "returns E S (forward_interest env now pkt i fh (Some s) a inFace t) t"
proof -
  let ?t = "t\<lparr>pitCS := UpdateExpirationTimer now (pitCS t) a\<rparr>"
  have r: "refs_ok ?t \<and> frames t ?t"
    using goodD[OF assms(1)] assms(3) by (intro expiry_refs_ok) (auto dest: fw_invD(1) pit_okD(9))
  have "fw_inv E S ?t" using fw_invD[OF goodD(1)[OF assms(1)]] by (intro fw_inv_pit goodD(1)[OF assms(1)] SetExpiration_ok expiry_cs_ok)
  then have g: "good E S ?t" using r by (simp add: good_def)
  have int: "is_interest ?t pkt" using assms(2) by (simp add: is_interest_def)
  have sent: "returns E S (Inr (SendPacket f pkt ?t)) ?t" for f
  proof (rule returnsI[OF refl])
    show fr: "frames ?t (SendPacket f pkt ?t)" by (simp add: frames_def)
    show "good E S (SendPacket f pkt ?t)" using g refs_ok_frame[OF _ fr] by (simp add: good_def)
  qed
  have stay: "returns E S (Inr ?t) ?t" by (rule returnsI[OF refl g]) simp
  obtain nhs where nhs: "FindNextHopsEnc (env_fib_ops env) (env_fib env) (case fh of None \<Rightarrow> int_NameV i | Some n \<Rightarrow> n) = Inr nhs"
    using assms(4) unfolding env_ok_def by blast
  have "returns E S (forward_interest env now pkt i fh (Some s) a inFace t) ?t"
    using sent stay AfterReceiveInterest_returns[OF g int, of env now s a inFace nhs] nhs by (simp add: forward_interest_def Let_def split: option.split)
  then show ?thesis using r by (auto intro: returns_after)
qed

lemma InsertInterest_rest:
  assumes "pit_ok E p" "InsertInterest E tape p i hint f = Inr (p', a, dup, tape')"
  shows "cs_heap p' = cs_heap p" "pitExpiryQueue p' = pitExpiryQueue p" "pit_heap p' a \<noteq> None"
    "pit_heap p' b = Some e \<Longrightarrow> r \<in> set (outRecords e) \<Longrightarrow> \<exists>e0. pit_heap p b = Some e0 \<and> r \<in> set (outRecords e0)"
    "dom (pit_heap p) \<subseteq> dom (pit_heap p')"
proof -
  obtain root1 node where fl: "pc_fillTreeToPrefixEnc E (pc_root p) (int_NameV i) = (root1, node)" by fastforce
  show "cs_heap p' = cs_heap p" "pitExpiryQueue p' = pitExpiryQueue p"
    using assms(2) by (auto simp: InsertInterest_def fl Let_def split: option.splits sum.splits dest!: insert_finish_spec(4))
  show "pit_heap p' a \<noteq> None"
    using assms by (cases rule: InsertInterest_cases) (auto dest: live_entry)
  have "pit_heap p' b = pit_heap p b \<or> b = a \<and> (pit_heap p a \<noteq> None \<and> outRecords (entry_of p' a) = outRecords (entry_of p a) \<or> outRecords (entry_of p' a) = [])" for b
    using assms
  proof (cases rule: InsertInterest_cases)
    case old
    note h = old(8)
    obtain e where "pit_heap p a = Some e" using live_entry[OF assms(1) old(2)] by blast
    then show ?thesis by (simp add: h entry_of_def)
  next
    case (new token)
    then show ?thesis by (cases "b = a") (simp_all add: new_pit_entry_def)
  qed
  note h = this
  show "\<exists>e0. pit_heap p b = Some e0 \<and> r \<in> set (outRecords e0)" if "pit_heap p' b = Some e" "r \<in> set (outRecords e)"
    using h[of b] that by (auto simp: entry_of_def intro: exI[of _ e])
  show "dom (pit_heap p) \<subseteq> dom (pit_heap p')"
    using h \<open>pit_heap p' a \<noteq> None\<close> by (metis domIff subsetI)
qed

lemma insert_interest_good:
  assumes "good E S t" "InsertInterest E tape (pitCS t) i hint f = Inr (p', a, dup, tape')"
  shows "good E S (t\<lparr>pitCS := p', rand_tape := tape'\<rparr>) \<and> frames t (t\<lparr>pitCS := p', rand_tape := tape'\<rparr>)"
proof -
  note r = InsertInterest_rest[OF fw_invD(1)[OF goodD(1)[OF assms(1)]] assms(2)]
  have f: "frames t (t\<lparr>pitCS := p', rand_tape := tape'\<rparr>)" using r(5) by (simp add: frames_def)
  have "refs_ok (t\<lparr>pitCS := p', rand_tape := tape'\<rparr>)"
  proof (rule refs_ok_step[OF goodD(2)[OF assms(1)] f])
    fix b e x assume "pit_heap (pitCS (t\<lparr>pitCS := p', rand_tape := tape'\<rparr>)) b = Some e" "x \<in> set (outRecords e)"
    then show "is_interest t (out_LatestEncInterest (snd x)) \<or> (\<exists>b e0. pit_heap (pitCS t) b = Some e0 \<and> x \<in> set (outRecords e0))"
      using r(4)[of b e x] by simp blast
  qed (auto simp: r(1,2))
  then show ?thesis using f insert_interest_inv[OF goodD(1)[OF assms(1)] assms(2)] by (simp add: good_def)
qed

lemma find_data_good:
  assumes "good E S t" "FindMatchingDataFromCS E now (pitCS t) i = (p', hit)" "int_NameV i \<in> S"
  shows "good E S (t\<lparr>pitCS := p'\<rparr>) \<and> frames t (t\<lparr>pitCS := p'\<rparr>)"
proof -
  note k = FindMatching_keeps[OF fw_invD(2,1)[OF goodD(1)[OF assms(1)]] assms(2,3)]
  have f: "frames t (t\<lparr>pitCS := p'\<rparr>)" using k(6) by (simp add: frames_def)
  have "refs_ok (t\<lparr>pitCS := p'\<rparr>)" by (rule refs_ok_frame[OF goodD(2)[OF assms(1)] f]) (simp_all add: k)
  then show ?thesis using f find_data_inv[OF goodD(1)[OF assms(1)] assms(2,3)] by (simp add: good_def)
qed

text \<open>A Content Store hit is a stored entry.\<close>

lemma hit_allocated:
  assumes "cs_ok E S p" "pit_ok E p" "FindMatchingDataFromCS E now p i = (p', Some c)" "int_NameV i \<in> S"
  shows "cs_heap p c \<noteq> None"
proof -
  have core: "cs_core E S p" using assms(1) by (simp add: cs_ok_def)
  have at: "cs_heap p c \<noteq> None" if "csMap p (name_Hash E m) = Some c" for m
    using cs_coreD(2)[OF core that] by (auto simp: cs_at_def)
  show ?thesis
  proof (cases "CanBePrefixV i")
    case False
    then show ?thesis using FindMatching_exact[OF assms(1,3,4), of c] at by auto
  next
    case True
    then show ?thesis using FindMatching_prefix[OF assms(1,2,3,4)] at by auto
  qed
qed

lemma admit_interest_returns:
  assumes good: "good (env_enc env) S t" and env: "env_ok env t" and pkt: "is_interest t pkt" and n: "int_NameV i \<in> S" "NonceV i \<noteq> None"
    and tape: "\<exists>x\<in>set (rand_tape t). pitTokenMap (pitCS t) x = None"
  shows "returns (env_enc env) S (admit_interest env now pkt i inFace tok t) t"
proof -
  let ?E = "env_enc env" and ?hint = "hint_name (env_enc env) (NetworkRegion env) i"
  obtain nonce where nonce: "NonceV i = Some nonce" using n(2) by blast
  show ?thesis
  proof (cases "dnl_Find ?E (deadNonceList t) (int_NameV i) nonce")
    case True
    then show ?thesis using nonce by (intro returnsI[OF _ good frames_refl]) (simp add: admit_interest_def)
  next
    case False
    obtain r where "InsertInterest ?E (rand_tape t) (pitCS t) i ?hint inFace = Inr r"
      using InsertInterest_total[OF n(2) tape] by blast
    then obtain p1 a dup tape1 where ins: "InsertInterest ?E (rand_tape t) (pitCS t) i ?hint inFace = Inr (p1, a, dup, tape1)"
      by (cases r) blast
    let ?t1 = "t\<lparr>pitCS := p1, rand_tape := tape1\<rparr>"
    let ?t2 = "record_interest now pkt nonce inFace tok a ?t1"
    have 1: "good ?E S ?t1" "frames t ?t1" using insert_interest_good[OF good ins] by simp_all
    have a1: "pit_heap p1 a \<noteq> None" by (rule InsertInterest_rest(3)[OF fw_invD(1)[OF goodD(1)[OF good]] ins])
    have "good ?E S ?t2" unfolding record_interest_def
      by (intro good_upd_pit 1 same_id_records) (simp add: InsertInRecord_def split: option.split)
    then have 2: "good ?E S ?t2" "frames t ?t2" using frames_trans[OF 1(2)] by (simp_all add: record_interest_def)
    obtain s where s: "strategy_for env (int_NameV i) ?t1 = Inr (Some s)" using strategy_known[OF env] by fastforce
    obtain p3 hit where hit: "FindMatchingDataFromCS ?E now (pitCS ?t2) i = (p3, hit)" by fastforce
    have 3: "good ?E S (?t2\<lparr>pitCS := p3\<rparr>)" "frames ?t2 (?t2\<lparr>pitCS := p3\<rparr>)" using find_data_good[OF 2(1) hit n(1)] by simp_all
    have fwd: "returns ?E S (forward_interest env now pkt i ?hint (Some s) a inFace t') t" if "good ?E S t'" "frames ?t2 t'" for t'
    proof -
      have f: "frames t t'" by (rule frames_trans[OF 2(2) that(2)])
      have "pit_heap (pitCS ?t2) a \<noteq> None" using a1 by (simp add: record_interest_def)
      then have "returns ?E S (forward_interest env now pkt i ?hint (Some s) a inFace t') t'"
        by (intro forward_interest_returns that same_shapes_kind(1)[OF framesD(1)[OF f] pkt] env_ok_frames[OF env framesD(2)[OF f]] framesD(3)[OF that(2)])
      then show ?thesis by (rule returns_after) (rule f)
    qed
    have send: "returns ?E S (SendData env (encData (the (cs_heap p3 c))) a inFace 0 (?t2\<lparr>pitCS := p3\<rparr>)) t" if "hit = Some c" for c
    proof -
      have inv2: "cs_ok ?E S (pitCS ?t2)" "pit_ok ?E (pitCS ?t2)" using fw_invD(1,2)[OF goodD(1)[OF 2(1)]] by simp_all
      have "cs_heap (pitCS ?t2) c \<noteq> None" using hit_allocated[OF inv2 hit[unfolded that] n(1)] .
      then obtain ce where "cs_heap p3 c = Some ce" using FindMatching_keeps(5)[OF inv2 hit n(1)] by auto
      then have "is_data (?t2\<lparr>pitCS := p3\<rparr>) (encData ce)" using refs_okD(2)[OF goodD(2)[OF 3(1)], of c ce] by simp
      then show ?thesis using \<open>cs_heap p3 c = Some ce\<close> 3 by (auto intro!: returns_after[OF SendData_returns] frames_trans[OF 2(2)])
    qed
    have f2: "returns ?E S (forward_interest env now pkt i ?hint (Some s) a inFace ?t2) t" by (intro fwd 2) simp
    have f3: "returns ?E S (forward_interest env now pkt i ?hint (Some s) a inFace (?t2\<lparr>pitCS := p3\<rparr>)) t" by (intro fwd 3)
    have dup: "returns ?E S (Inr ?t1) t" by (rule returnsI[OF refl 1])
    show ?thesis
      using dup f2 f3 send nonce False ins s hit
      by (cases "snd (InsertInRecord now (entry_of p1 a) pkt nonce inFace tok)"; cases "csServe env"; cases dup; cases hit)
        (simp_all add: admit_interest_def Let_def record_interest_def[symmetric] AfterContentStoreHit_def)
  qed
qed

lemma names_of:
  assumes "fw_inv E S t" "packets t a = Some p"
  shows "pkt_Interest p = Some i \<Longrightarrow> int_NameV i \<in> S" "pkt_Data p = Some d \<Longrightarrow> data_NameV d \<in> S"
  using fw_invD(4)[OF assms(1)] assms(2) unfolding names_in_def by blast+

lemma processIncomingInterest_returns:
  assumes good: "good (env_enc env) S t" and env: "env_ok env t" and pkt: "is_interest t pkt"
    and tape: "\<exists>x\<in>set (rand_tape t). pitTokenMap (pitCS t) x = None"
  shows "returns (env_enc env) S (processIncomingInterest env now pkt t) t"
proof -
  obtain p i n where p: "packets t pkt = Some p" "packet t pkt = p" "pkt_Interest p = Some i" "NonceV i = Some n"
    using pkt by (rule is_interestE)
  let ?t1 = "upd_packet pkt (\<lambda>p. p\<lparr>pkt_Interest := Some (dec_hop i)\<rparr>) t"
  have n: "int_NameV i \<in> S" by (rule names_of(1)[OF goodD(1)[OF good] p(1,3)])
  have d: "(dec_hop i)\<lparr>HopLimitV := None\<rparr> = i\<lparr>HopLimitV := None\<rparr>" by (simp add: dec_hop_def split: option.split)
  have sh: "same_shapes t ?t1" using p d by (simp add: same_shapes_def upd_packet_def shape_def)
  then have f: "frames t ?t1" by (simp add: frames_def)
  have "names_in S (packets ?t1)" using fw_invD(4)[OF goodD(1)[OF good]] n by (auto simp: names_in_def upd_packet_def)
  then have "fw_inv (env_enc env) S ?t1" using goodD(1)[OF good] by (simp add: fw_inv_def)
  moreover have r: "refs_ok ?t1" by (rule refs_ok_frame[OF goodD(2)[OF good] f]) simp_all
  ultimately have g1: "good (env_enc env) S ?t1" by (simp add: good_def)
  let ?t2 = "?t1\<lparr>NInInterests := NInInterests ?t1 + 1\<rparr>"
  have f2: "frames t ?t2" using f by (simp add: frames_def)
  have "refs_ok ?t2" by (rule refs_ok_frame[OF goodD(2)[OF good] f2]) simp_all
  then have g2: "good (env_enc env) S ?t2" using g1 by (simp add: good_def)
  have adm: "returns (env_enc env) S (admit_interest env now pkt (dec_hop i) inFace tok ?t2) t" for inFace tok
  proof (rule returns_after[OF admit_interest_returns[OF g2] f2])
    show "env_ok env ?t2" by (rule env_ok_frames[OF env]) simp
    show "is_interest ?t2 pkt" by (rule same_shapes_kind(1)[OF framesD(1)[OF f2] pkt])
  qed (use n p(4) tape in simp_all)
  have same: "returns (env_enc env) S (Inr t) t" by (rule returnsI[OF refl good]) simp
  have scope: "returns (env_enc env) S (Inr ?t1) t" by (rule returnsI[OF refl g1 f])
  show ?thesis
    using same scope adm p by (auto simp: processIncomingInterest_def Let_def split: option.split)
qed

section \<open>The Data pipeline returns\<close>

lemma erase_heaps [simp]:
  "pit_heap (eraseCsDataFromReplacementStrategy i p) = pit_heap p"
  "pitExpiryQueue (eraseCsDataFromReplacementStrategy i p) = pitExpiryQueue p"
  by (simp_all add: eraseCsDataFromReplacementStrategy_def split: option.split)

definition same_heaps :: "PitCsTree \<Rightarrow> PitCsTree \<Rightarrow> bool" where
  "same_heaps p p' = (cs_heap p' = cs_heap p \<and> pit_heap p' = pit_heap p \<and> pitExpiryQueue p' = pitExpiryQueue p)"

lemma evict_heaps:
  "lru_EvictEntries cap eraseCsDataFromReplacementStrategy l p = Inr (l', p') \<Longrightarrow> same_heaps p p'"
proof (induction cap "eraseCsDataFromReplacementStrategy" l p rule: lru_EvictEntries.induct)
  case (1 cap l p)
  then show ?case
    by (subst (asm) (2) lru_EvictEntries.simps) (auto simp: same_heaps_def split: if_splits list.splits)
qed

lemma InsertData_heaps:
  assumes "InsertData E cap now p pkt d = Inr p'"
  shows "pit_heap p' = pit_heap p" "pitExpiryQueue p' = pitExpiryQueue p"
    "cs_heap p' a = Some c \<Longrightarrow> encData c = pkt \<or> cs_heap p a = Some c"
proof -
  obtain root1 node where fl: "pc_fillTreeToPrefixEnc E (pc_root p) (data_NameV d) = (root1, node)" by fastforce
  have "pit_heap p' = pit_heap p \<and> pitExpiryQueue p' = pitExpiryQueue p \<and> (cs_heap p' a = Some c \<longrightarrow> encData c = pkt \<or> cs_heap p a = Some c)"
  proof (cases "csMap p (name_Hash E (data_NameV d))")
    case None
    then show ?thesis
      using assms by (auto simp: InsertData_def fl Let_def same_heaps_def dest!: evict_heaps split: sum.splits if_splits)
  next
    case (Some b)
    then show ?thesis using assms by (auto simp: InsertData_def Let_def split: if_splits)
  qed
  then show "pit_heap p' = pit_heap p" "pitExpiryQueue p' = pitExpiryQueue p"
    "cs_heap p' a = Some c \<Longrightarrow> encData c = pkt \<or> cs_heap p a = Some c" by blast+
qed

lemma dead_nonces_good: "good E S t \<Longrightarrow> good E S (insert_dead_nonces env now n rs t) \<and> frames t (insert_dead_nonces env now n rs t)"
proof -
  assume g: "good E S t"
  have f: "frames t (insert_dead_nonces env now n rs t)" by (simp add: frames_def insert_dead_nonces_def)
  have "refs_ok (insert_dead_nonces env now n rs t)"
    by (rule refs_ok_frame[OF goodD(2)[OF g] f]) (simp_all add: insert_dead_nonces_def)
  then show ?thesis using f dead_nonces_inv[OF goodD(1)[OF g]] by (simp add: good_def)
qed

lemma timer_good:
  assumes "good E S t" "pit_heap (pitCS t) a \<noteq> None"
  shows "good E S (t\<lparr>pitCS := SetExpirationTimerToNow now (pitCS t) a\<rparr>) \<and> frames t (t\<lparr>pitCS := SetExpirationTimerToNow now (pitCS t) a\<rparr>)"
  using timer_inv[OF goodD(1)[OF assms(1)], of now a] goodD(2)[OF assms(1)] pit_okD(9)[OF fw_invD(1)[OF goodD(1)[OF assms(1)]]] assms(2)
    expiry_refs_ok[of t a] by (auto simp: good_def)

lemma satisfy_single_returns:
  assumes "good E S t" "is_data t pkt" "pit_heap (pitCS t) a \<noteq> None"
  shows "returns E S (satisfy_single env now pkt n inFace (Some s) a t) t"
proof -
  let ?t1 = "t\<lparr>pitCS := SetExpirationTimerToNow now (pitCS t) a\<rparr>"
  have 1: "good E S ?t1" "frames t ?t1" using timer_good[OF assms(1,3)] by simp_all
  have "returns E S (AfterReceiveData env s pkt a inFace ?t1) ?t1"
    by (intro AfterReceiveData_returns 1 same_shapes_kind(2)[OF framesD(1)[OF 1(2)] assms(2)])
  then obtain t2 where 2: "AfterReceiveData env s pkt a inFace ?t1 = Inr t2" "good E S t2" "frames ?t1 t2" by (rule returnsE)
  let ?t3 = "upd_pit a (\<lambda>e. e\<lparr>satisfied := True\<rparr>) t2"
  let ?t4 = "insert_dead_nonces env now n (map snd (outRecords (pit_entry ?t3 a))) ?t3"
  let ?t5 = "upd_pit a (\<lambda>e. e\<lparr>outRecords := []\<rparr>) ?t4"
  have 3: "good E S ?t3" by (intro good_upd_pit 2 same_id_expiration) simp
  note 4 = dead_nonces_good[OF 3, of env now n "map snd (outRecords (pit_entry ?t3 a))"]
  have 5: "good E S ?t5" by (intro good_upd_pit conjunct1[OF 4] same_id_expiration) simp
  have "frames t ?t5" by (rule frames_trans[OF 1(2) frames_trans[OF 2(3) frames_trans[OF frames_upd_pit frames_trans[OF conjunct2[OF 4] frames_upd_pit]]]])
  with 5 show ?thesis by (intro returnsI[of _ ?t5]) (simp_all add: satisfy_single_def 2(1))
qed

lemma satisfy_one_returns:
  assumes "good E S t" "is_data t pkt" "pit_heap (pitCS t) a \<noteq> None"
  shows "returns E S (satisfy_one env now pkt n inFace (Some s) first a t) t"
proof -
  let ?t1 = "t\<lparr>pitCS := SetExpirationTimerToNow now (pitCS t) a\<rparr>"
  let ?t2 = "upd_pit a (\<lambda>e. e\<lparr>satisfied := True\<rparr>) ?t1"
  let ?rs = "GetOutRecords (pit_entry ?t2 first)"
  let ?t3 = "insert_dead_nonces env now n ?rs ?t2"
  let ?t4 = "upd_pit a (\<lambda>e. e\<lparr>inRecords := [], outRecords := []\<rparr>) ?t3"
  have 1: "good E S ?t1" "frames t ?t1" using timer_good[OF assms(1,3)] by simp_all
  have 2: "good E S ?t2" by (intro good_upd_pit 1 same_id_expiration) simp
  note 3 = dead_nonces_good[OF 2, of env now n ?rs]
  have 4: "good E S ?t4" by (intro good_upd_pit conjunct1[OF 3] same_id_records) simp
  have f: "frames t ?t4" by (rule frames_trans[OF 1(2) frames_trans[OF frames_upd_pit frames_trans[OF conjunct2[OF 3] frames_upd_pit]]])
  let ?ds = "map (\<lambda>(f, r). (f, in_PitToken r)) (filter (\<lambda>(f, r). f \<noteq> inFace) (inRecords (pit_entry t a)))"
  have "returns E S (rfold (\<lambda>(f, token). processOutgoingData env pkt f token inFace) ?ds ?t4) ?t4"
  proof (rule returns_rfold[OF 4])
    fix x and u assume u: "good E S u" "frames ?t4 u"
    have "is_data u pkt" by (rule same_shapes_kind(2)[OF framesD(1)[OF frames_trans[OF f u(2)]] assms(2)])
    then show "returns E S ((case x of (f, token) \<Rightarrow> processOutgoingData env pkt f token inFace) u) u"
      by (cases x) (simp add: outgoing_data_returns u)
  qed
  then have "returns E S (satisfy_one env now pkt n inFace (Some s) first a t) ?t4"
    by (simp add: satisfy_one_def Let_def BeforeSatisfyInterest_def)
  then show ?thesis by (rule returns_after) (rule f)
qed

lemma match_allocated:
  assumes "pit_ok E p" "a \<in> set (FindInterestPrefixMatchByDataEnc E p n token)"
  shows "live p a" "pit_heap p a \<noteq> None"
proof -
  show "live p a"
  proof (cases token)
    case None
    then show ?thesis using assms(2) findInterestPrefixMatchByName_set[OF assms(1), of n] by (simp add: FindInterestPrefixMatchByDataEnc_def)
  next
    case (Some t)
    then show ?thesis using assms(2) pit_okD(6)[OF assms(1), of t] by (auto simp: FindInterestPrefixMatchByDataEnc_def split: option.splits if_splits)
  qed
  then show "pit_heap p a \<noteq> None" using live_entry[OF assms(1)] by blast
qed

lemma satisfy_all_returns:
  assumes "good (env_enc env) S t" "env_ok env t" "is_data t pkt"
  shows "returns (env_enc env) S (satisfy_all env now pkt d inFace token t) t"
proof (cases "FindInterestPrefixMatchByDataEnc (env_enc env) (pitCS t) (data_NameV d) token")
  case Nil
  then show ?thesis by (intro returnsI[OF _ assms(1) frames_refl]) (simp add: satisfy_all_def)
next
  case (Cons first others)
  obtain s where s: "strategy_for env (data_NameV d) t = Inr (Some s)" using strategy_known[OF assms(2)] by blast
  have heap: "pit_heap (pitCS t) a \<noteq> None" if "a \<in> set (first # others)" for a
    using match_allocated(2)[OF fw_invD(1)[OF goodD(1)[OF assms(1)]]] that Cons by metis
  have one: "returns (env_enc env) S (satisfy_single env now pkt (data_NameV d) inFace (Some s) first t) t"
    by (rule satisfy_single_returns[OF assms(1,3) heap]) simp
  have "returns (env_enc env) S (rfold (satisfy_one env now pkt (data_NameV d) inFace (Some s) first) (first # others) t) t"
  proof (rule returns_rfold[OF assms(1)])
    fix a u assume a: "a \<in> set (first # others)" and u: "good (env_enc env) S u" "frames t u"
    show "returns (env_enc env) S (satisfy_one env now pkt (data_NameV d) inFace (Some s) first a u) u"
      by (intro satisfy_one_returns u(1) same_shapes_kind(2)[OF framesD(1)[OF u(2)] assms(3)] framesD(3)[OF u(2) heap[OF a]])
  qed
  with one show ?thesis using Cons s by (cases "others = []") (simp_all add: satisfy_all_def del: rfold.simps)
qed

text \<open>The Data packets that \<open>processIncomingData\<close> can handle.\<close>

definition data_packet_ok :: "PendingPacket \<Rightarrow> bool" where
  "data_packet_ok p =
     ((\<exists>d. pkt_Data p = Some d \<and> (NameCache p \<noteq> [] \<longrightarrow> data_NameV d \<noteq> [])) \<and>
      (length (PitToken p) = 0 \<or> 6 \<le> length (PitToken p)))"

lemma processIncomingData_returns:
  assumes good: "good (env_enc env) S t" and env: "env_ok env t" and pkt: "packets t pkt = Some p" "data_packet_ok p"
  shows "returns (env_enc env) S (processIncomingData env now pkt t) t"
proof -
  obtain d where d: "pkt_Data p = Some d" "NameCache p \<noteq> [] \<longrightarrow> data_NameV d \<noteq> []" using pkt(2) by (auto simp: data_packet_ok_def)
  have p: "packet t pkt = p" using pkt(1) by (simp add: packet_def)
  have isd: "is_data t pkt" using pkt(1) d by (simp add: is_data_def)
  have n: "data_NameV d \<in> S" by (rule names_of(2)[OF goodD(1)[OF good] pkt(1) d(1)])
  have "\<exists>token. incoming_token (PitToken p) = Inr token" using pkt(2)
    by (cases "PitToken p = []") (auto simp: incoming_token_def data_packet_ok_def)
  then obtain token where token: "incoming_token (PitToken p) = Inr token" ..
  let ?t1 = "t\<lparr>NInData := NInData t + 1\<rparr>"
  have same: "returns (env_enc env) S (Inr t) t" by (rule returnsI[OF refl good frames_refl])
  have f1: "frames t ?t1" by (simp add: frames_def)
  have "refs_ok ?t1" by (rule refs_ok_frame[OF goodD(2)[OF good] f1]) simp_all
  then have g1: "good (env_enc env) S ?t1" using goodD(1)[OF good] by (simp add: good_def)
  have count: "returns (env_enc env) S (Inr ?t1) t" by (rule returnsI[OF refl g1 f1])
  have sat: "returns (env_enc env) S (satisfy_all env now pkt d fid token (?t1\<lparr>pitCS := q\<rparr>)) t"
    if q: "pit_ok (env_enc env) q" "cs_ok (env_enc env) S q" "pit_heap q = pit_heap (pitCS t)" "pitExpiryQueue q = pitExpiryQueue (pitCS t)"
      "\<And>a c. cs_heap q a = Some c \<Longrightarrow> encData c = pkt \<or> cs_heap (pitCS t) a = Some c" for q fid
  proof -
    have f: "frames t (?t1\<lparr>pitCS := q\<rparr>)" using q(3) by (simp add: frames_def)
    have "refs_ok (?t1\<lparr>pitCS := q\<rparr>)"
    proof (rule refs_ok_step[OF goodD(2)[OF good] f])
      show "is_data t (encData c) \<or> (\<exists>b c0. cs_heap (pitCS t) b = Some c0 \<and> encData c = encData c0)"
        if "cs_heap (pitCS (?t1\<lparr>pitCS := q\<rparr>)) a = Some c" for a c
        using q(5)[of a c] that isd by auto
    qed (use q(3,4) in auto)
    moreover have "fw_inv (env_enc env) S (?t1\<lparr>pitCS := q\<rparr>)" using q(1,2) goodD(1)[OF good] by (simp add: fw_inv_def)
    ultimately have "good (env_enc env) S (?t1\<lparr>pitCS := q\<rparr>)" by (simp add: good_def)
    then show ?thesis
      by (intro returns_after[OF satisfy_all_returns f] env_ok_frames[OF env framesD(2)[OF f]] same_shapes_kind(2)[OF framesD(1)[OF f] isd])
  qed
  have ins: "\<exists>q. InsertData (env_enc env) (csCapacity env) now (pitCS t) pkt d = Inr q \<and> pit_ok (env_enc env) q \<and> cs_ok (env_enc env) S q"
  proof -
    note inv = fw_invD(2,1)[OF goodD(1)[OF good]]
    show ?thesis
    proof (cases "csMap (pitCS t) (name_Hash (env_enc env) (data_NameV d))")
      case None
      then show ?thesis using InsertData_new[OF inv n None] env unfolding env_ok_def by blast
    next
      case (Some a)
      then show ?thesis using InsertData_refresh[OF inv Some] by blast
    qed
  qed
  then obtain q where q: "InsertData (env_enc env) (csCapacity env) now (pitCS t) pkt d = Inr q" "pit_ok (env_enc env) q" "cs_ok (env_enc env) S q"
    by blast
  have admit: "returns (env_enc env) S (satisfy_all env now pkt d fid token (?t1\<lparr>pitCS := q\<rparr>)) t" for fid
    by (rule sat[OF q(2,3)]) (use InsertData_heaps[OF q(1)] in blast)+
  have skip: "returns (env_enc env) S (satisfy_all env now pkt d fid token (?t1\<lparr>pitCS := pitCS t\<rparr>)) t" for fid
    using fw_invD(1,2)[OF goodD(1)[OF good]] by (intro sat) simp_all
  show ?thesis
    using same count admit skip d token q(1)
    by (cases "csAdmit env") (auto simp: processIncomingData_def p Let_def split: option.split)
qed

section \<open>The timers return\<close>

lemma RemoveInterest_heaps [simp]:
  "pit_heap (fst (RemoveInterest p a)) = pit_heap p" "cs_heap (fst (RemoveInterest p a)) = cs_heap p"
  by (simp_all add: RemoveInterest_def Let_def split: option.split)

definition pit_valid :: "(nameTreePitEntry \<Rightarrow> bool) \<Rightarrow> PitCsTree \<Rightarrow> bool" where
  "pit_valid Q p = ((\<forall>a e. pit_heap p a = Some e \<longrightarrow> Q e) \<and> (\<forall>y\<in>#contents (pitExpiryQueue p). pit_heap p (fst y) \<noteq> None))"

lemma pit_expire_loop_valid:
  assumes "\<And>e j. Q (e\<lparr>queueIndex := j\<rparr>) = Q e" "\<And>e v. Q e \<Longrightarrow> \<exists>w. f e (Inr v) = Inr w"
  shows "pit_expire_loop clock i f p x = Inr (i', p', x') \<Longrightarrow> pit_ok E p \<Longrightarrow> pit_valid Q p \<Longrightarrow> \<exists>v. x = Inr v \<Longrightarrow>
    pit_valid Q p' \<and> (\<exists>v. x' = Inr v) \<and> cs_heap p' = cs_heap p \<and> dom (pit_heap p') = dom (pit_heap p)"
  using assms
proof (induction clock i f p x rule: pit_expire_loop.induct)
  case (1 clock i f p x)
  have q: "pq_inv (pitExpiryQueue p)" by (rule pit_okD(9)[OF "1.prems"(2)])
  from q show ?case
  proof (cases rule: pq.next_cases)
    case empty
    then show ?thesis using "1.prems" by (simp add: pit_expire_loop.simps)
  next
    case (least m a q')
    show ?thesis
    proof (cases "m \<le> clock i")
      case False
      then show ?thesis using least "1.prems" by (simp add: pit_expire_loop.simps)
    next
      case True
      let ?p0 = "p\<lparr>pitExpiryQueue := q'\<rparr>"
      let ?p1 = "upd_entry a (\<lambda>e. e\<lparr>queueIndex := - 1\<rparr>) ?p0"
      let ?p2 = "fst (RemoveInterest ?p1 a)" and ?x = "f (the (pit_heap ?p1 a)) x"
      have "pit_ok E ?p0"
        by (rule pit_ok_cong[OF "1.prems"(2)]) (use least(4) pit_okD(2)[OF "1.prems"(2)] in simp_all)
      then have ok1: "pit_ok E ?p1" by (intro pit_ok_upd same_id_expiration)
      have "pit_heap p a \<noteq> None" using "1.prems"(3) least(5) by (auto simp: pit_valid_def)
      then obtain e where e: "pit_heap p a = Some e" by blast
      have v1: "pit_valid Q ?p2" using "1.prems"(3,5) least(5) by (auto simp: pit_valid_def)
      have x1: "\<exists>v. ?x = Inr v"
        using "1.prems"(3,4,5,6) e unfolding pit_valid_def by auto
      have step: "pit_expire_loop clock (Suc i) f ?p2 ?x = Inr (i', p', x')"
        using least True "1.prems"(1) by (simp add: pit_expire_loop.simps[of clock i] Let_def)
      have d: "dom (pit_heap ?p2) = dom (pit_heap p)" using e by auto
      have "pit_valid Q p' \<and> (\<exists>v. x' = Inr v) \<and> cs_heap p' = cs_heap ?p2 \<and> dom (pit_heap p') = dom (pit_heap ?p2)"
        by (rule "1.IH"[OF _ least(2) _ least(3) refl refl refl step RemoveInterest_live(1)[OF ok1] v1 x1 "1.prems"(5,6)])
          (use least(1) True in simp_all)
      then show ?thesis unfolding d by simp
    qed
  qed
qed

lemma finalizeInterest_total:
  assumes "\<And>r. r \<in> set (outRecords e) \<Longrightarrow> is_interest t (out_LatestEncInterest (snd r))"
  shows "\<exists>w. finalizeInterest env now (packets t) e (Inr v) = Inr w"
proof -
  obtain d n where v: "v = (d, n)" by (cases v)
  let ?f = "\<lambda>r d. case packets t (out_LatestEncInterest r) of None \<Rightarrow> Inl NilDereference | Some p \<Rightarrow>
      (case pkt_Interest p of None \<Rightarrow> Inl NilDereference
       | Some i \<Rightarrow> Inr (fst (dnl_Insert (env_enc env) (deadNonceListLifetime env) now d (int_NameV i) (out_LatestEncNonce r))))"
  have "\<exists>d'. rfold ?f rs d = Inr d'" if "\<And>r. r \<in> set rs \<Longrightarrow> is_interest t (out_LatestEncInterest r)" for rs d
    using that
  proof (induction rs arbitrary: d)
    case (Cons r rs)
    have "is_interest t (out_LatestEncInterest r)" by (rule Cons.prems) simp
    then obtain p i k where "packets t (out_LatestEncInterest r) = Some p" "pkt_Interest p = Some i" by (rule is_interestE)
    then show ?case using Cons by simp
  qed simp
  moreover have "is_interest t (out_LatestEncInterest r)" if "r \<in> set (map snd (outRecords e))" for r
    using assms that by auto
  ultimately obtain d' where "rfold ?f (map snd (outRecords e)) d = Inr d'" by blast
  then show ?thesis by (simp add: finalizeInterest_def v)
qed

lemma pit_update_returns:
  assumes good: "good (env_enc env) S t"
  shows "returns (env_enc env) S (fw_step env clock PitUpdate t) t"
proof -
  let ?f = "finalizeInterest env (clock 0) (packets t)" and ?x = "Inr (deadNonceList t, NUnsatisfiedInterests t)"
  let ?Q = "\<lambda>e. \<forall>r\<in>set (outRecords e). is_interest t (out_LatestEncInterest (snd r))"
  note ok = fw_invD(1)[OF goodD(1)[OF good]]
  obtain i p' x' R where l: "pit_expire_loop clock 0 ?f (pitCS t) ?x = Inr (i, p', x')" "pit_ok (env_enc env) p'" "expired clock (pitCS t) p' R"
    using pit_expire_loop_ok[OF ok, where clock = clock and i = 0 and f = ?f and x = ?x] by blast
  have valid: "pit_valid ?Q (pitCS t)" using refs_okD(1,3)[OF goodD(2)[OF good]] unfolding pit_valid_def by blast
  have "pit_valid ?Q p' \<and> (\<exists>v. x' = Inr v) \<and> cs_heap p' = cs_heap (pitCS t) \<and> dom (pit_heap p') = dom (pit_heap (pitCS t))"
  proof (rule pit_expire_loop_valid[OF _ _ l(1) ok valid])
    show "\<exists>w. ?f e (Inr v) = Inr w" if "?Q e" for e v using that by (intro finalizeInterest_total) blast
  qed simp_all
  then obtain v where v: "x' = Inr v" and val: "pit_valid ?Q p'" and heaps: "cs_heap p' = cs_heap (pitCS t)" "dom (pit_heap p') = dom (pit_heap (pitCS t))"
    by blast
  have "\<exists>d. next_update (clock i) p' = Inr d"
    using pq_peek_pop(1)[OF pit_okD(9)[OF l(2)]]
    by (cases "pitExpiryQueue p' = []") (auto simp: next_update_def pq_Len_def Let_def)
  then obtain d where d: "next_update (clock i) p' = Inr d" ..
  obtain dn n where vn: "v = (dn, n)" by (cases v)
  let ?t = "t\<lparr>pitCS := p', deadNonceList := dn, NUnsatisfiedInterests := n\<rparr>"
  have step: "fw_step env clock PitUpdate t = Inr ?t"
    using l(1) v vn d by (simp add: fw_step_def pit_Update_def)
  have f: "frames t ?t" using heaps by (simp add: frames_def)
  have "refs_ok ?t"
  proof (rule refs_ok_step[OF goodD(2)[OF good] f])
    show "is_interest t (out_LatestEncInterest (snd r)) \<or> (\<exists>b e0. pit_heap (pitCS t) b = Some e0 \<and> r \<in> set (outRecords e0))"
      if "pit_heap (pitCS ?t) a = Some e" "r \<in> set (outRecords e)" for a e r
      using val that unfolding pit_valid_def by auto
    show "y \<in># contents (pitExpiryQueue (pitCS t)) \<or> pit_heap (pitCS t) (fst y) \<noteq> None"
      if "y \<in># contents (pitExpiryQueue (pitCS ?t))" for y
      using val that heaps(2) unfolding pit_valid_def by auto
  qed (use heaps in auto)
  with pit_update_inv[OF goodD(1)[OF good] step] have "good (env_enc env) S ?t" by (simp add: good_def)
  with step f show ?thesis by (intro returnsI)
qed

end
