(* ===== verification/Fw_Sends.thy ===== *)
theory Fw_Sends
  imports Fw_Total
begin

text \<open>
  What the pipelines send: \<open>sent_data\<close> follows the Data sent through a run of the Data pipeline, \<open>sent_interests\<close>
  the Interests sent by a strategy.
\<close>

section \<open>Data\<close>

text \<open>
  From \<open>t\<close> to \<open>t'\<close> the packet keeps its Data \<open>d\<close>, no in-record appears, and what was sent is this packet,
  to faces \<open>nh\<close> of \<open>F\<close> that may see it.
\<close>

definition may_send :: "'s fw_env \<Rightarrow> Data \<Rightarrow> u64 \<Rightarrow> u64 \<Rightarrow> bool" where
  "may_send env d nh face =
     (\<exists>f. FaceDispatch env nh = Some f \<and> face = face_FaceID f \<and> \<not> (face_Scope f = NonLocal \<and> is_localhost (data_NameV d)))"

definition in_faces :: "Thread \<Rightarrow> addr \<Rightarrow> u64 set" where
  "in_faces t a = fst ` set (inRecords (pit_entry t a))"

definition sent_data :: "'s fw_env \<Rightarrow> addr \<Rightarrow> Data \<Rightarrow> u64 set \<Rightarrow> Thread \<Rightarrow> Thread \<Rightarrow> bool" where
  "sent_data env pkt d F t t' =
     (pkt_Data (packet t' pkt) = pkt_Data (packet t pkt) \<and> (\<forall>a. in_faces t' a \<subseteq> in_faces t a) \<and>
      (\<exists>evs. sent t' = sent t @ evs \<and> (\<forall>ev\<in>set evs. ev_addr ev = pkt \<and> (\<exists>nh\<in>F. may_send env d nh (ev_face ev)))))"

lemma sent_data_refl [simp]: "sent_data env pkt d F t t"
  by (simp add: sent_data_def)

lemma sent_data_trans:
  assumes "sent_data env pkt d F t t'" "sent_data env pkt d F t' t''"
  shows "sent_data env pkt d F t t''"
proof -
  obtain e1 where e1: "sent t' = sent t @ e1" "\<forall>ev\<in>set e1. ev_addr ev = pkt \<and> (\<exists>nh\<in>F. may_send env d nh (ev_face ev))"
    using assms(1) unfolding sent_data_def by blast
  obtain e2 where e2: "sent t'' = sent t' @ e2" "\<forall>ev\<in>set e2. ev_addr ev = pkt \<and> (\<exists>nh\<in>F. may_send env d nh (ev_face ev))"
    using assms(2) unfolding sent_data_def by blast
  have "\<exists>evs. sent t'' = sent t @ evs \<and> (\<forall>ev\<in>set evs. ev_addr ev = pkt \<and> (\<exists>nh\<in>F. may_send env d nh (ev_face ev)))"
    using e1 e2 by (intro exI[of _ "e1 @ e2"]) auto
  with assms show ?thesis unfolding sent_data_def by (metis subset_trans)
qed

lemma sent_data_mono: "sent_data env pkt d F t t' \<Longrightarrow> F \<subseteq> G \<Longrightarrow> sent_data env pkt d G t t'"
  unfolding sent_data_def by blast

lemma sent_data_rfold:
  assumes "rfold g xs t = Inr t'" "\<And>x s s'. x \<in> set xs \<Longrightarrow> sent_data env pkt d F t s \<Longrightarrow> g x s = Inr s' \<Longrightarrow> sent_data env pkt d F s s'"
  shows "sent_data env pkt d F t t'"
  using assms(1) by (rule rfold_inv) (auto intro: sent_data_trans[OF _ assms(2)])

text \<open>Quiet steps send nothing.\<close>

lemma sent_data_quiet:
  assumes "sent t' = sent t" "packets t' = packets t" "\<And>a. in_faces t' a \<subseteq> in_faces t a"
  shows "sent_data env pkt d F t t'"
  using assms by (auto simp: sent_data_def packet_def)

lemma entry_of_upd_entry: "entry_of (upd_entry a f p) b = (if b = a \<and> pit_heap p a \<noteq> None then f (entry_of p a) else entry_of p b)"
  by (auto simp: entry_of_def)

lemma in_faces_upd_pit: "(\<And>e. fst ` set (inRecords (f e)) \<subseteq> fst ` set (inRecords e)) \<Longrightarrow> in_faces (upd_pit a f t) b \<subseteq> in_faces t b"
  by (simp add: in_faces_def entry_of_upd_entry)

lemma updatePitExpiry_inRecords: "inRecords (entry_of (updatePitExpiry p a) b) = inRecords (entry_of p b)"
  by (simp add: updatePitExpiry_def Let_def split_beta entry_of_upd_entry) (simp add: entry_of_def)

lemma timer_inRecords:
  "inRecords (entry_of (SetExpirationTimerToNow now p a) b) = inRecords (entry_of p b)"
  "inRecords (entry_of (UpdateExpirationTimer now p a) b) = inRecords (entry_of p b)"
  by (simp_all add: SetExpirationTimerToNow_def UpdateExpirationTimer_def updatePitExpiry_inRecords entry_of_upd_entry)

lemma packet_upd: "pkt_Data (packet (upd_packet pkt f t) pkt) = (if packets t pkt = None then pkt_Data (packet t pkt) else pkt_Data (f (packet t pkt)))"
  by (auto simp: packet_def upd_packet_def)

lemma outgoing_data_sent:
  assumes "processOutgoingData env pkt nh tok inFace t = Inr t'" "pkt_Data (packet t pkt) = Some d" "nh \<in> F"
  shows "sent_data env pkt d F t t'"
proof (cases "GetFace (FaceDispatch env) nh")
  case None
  then show ?thesis using assms by (simp add: processOutgoingData_def)
next
  case (Some f)
  show ?thesis
  proof (cases "face_Scope f = NonLocal \<and> is_localhost (data_NameV d)")
    case True
    then show ?thesis using assms Some by (simp add: processOutgoingData_def)
  next
    case False
    let ?g = "\<lambda>p. (if length tok > 0 then p\<lparr>PitToken := tok\<rparr> else p)\<lparr>IncomingFaceID := Some inFace\<rparr>"
    let ?t2 = "upd_packet pkt ?g (t\<lparr>NOutData := NOutData t + 1, NSatisfiedInterests := NSatisfiedInterests t + 1\<rparr>)"
    have t': "t' = SendPacket f pkt ?t2" using assms(1,2) Some False by (auto simp: processOutgoingData_def Let_def)
    have "may_send env d nh (face_FaceID f)" using Some False by (auto simp: may_send_def GetFace_def)
    moreover have "pkt_Data (packet t' pkt) = pkt_Data (packet t pkt)"
      by (cases "packets t pkt") (simp_all add: t' packet_def upd_packet_def)
    moreover have "in_faces t' a = in_faces t a" for a by (simp add: t' in_faces_def)
    moreover have "sent t' = sent t @ [\<lparr>ev_face = face_FaceID f, ev_addr = pkt, ev_packet = packet ?t2 pkt\<rparr>]"
      by (simp add: t' SendPacket_def)
    ultimately show ?thesis using assms(3) unfolding sent_data_def by auto
  qed
qed

lemma sent_data_Data: "sent_data env pkt d F t t' \<Longrightarrow> pkt_Data (packet t pkt) = Some d \<Longrightarrow> pkt_Data (packet t' pkt) = Some d"
  by (simp add: sent_data_def)

lemma SendData_sent:
  assumes "SendData env pkt a nh inFace t = Inr t'" "pkt_Data (packet t pkt) = Some d" "nh \<in> F"
  shows "sent_data env pkt d F t t'"
proof (cases "map_of (inRecords (pit_entry t a)) nh")
  case None
  then show ?thesis using assms outgoing_data_sent by (simp add: SendData_def)
next
  case (Some r)
  let ?t = "upd_pit a (\<lambda>e. e\<lparr>inRecords := AList.delete nh (inRecords e)\<rparr>) t"
  have "set (AList.delete nh al) \<subseteq> set al" for al :: "(u64 \<times> PitInRecord) list" by (auto simp: AList.delete_eq)
  then have q: "sent_data env pkt d F t ?t" by (intro sent_data_quiet in_faces_upd_pit) (simp_all add: image_mono)
  have "sent_data env pkt d F ?t t'"
    by (rule outgoing_data_sent[where tok = "in_PitToken r" and nh = nh and inFace = inFace])
      (use assms Some in \<open>simp_all add: SendData_def packet_def\<close>)
  with q show ?thesis by (rule sent_data_trans)
qed

lemma AfterReceiveData_sent:
  assumes "AfterReceiveData env s pkt a inFace t = Inr t'" "pkt_Data (packet t pkt) = Some d" "in_faces t a \<subseteq> F"
  shows "sent_data env pkt d F t t'"
  using assms(1) unfolding AfterReceiveData_def
proof (rule sent_data_rfold)
  fix nh s s' assume nh: "nh \<in> set (map fst (inRecords (pit_entry t a)))" and s: "sent_data env pkt d F t s" and run: "SendData env pkt a nh inFace s = Inr s'"
  have "nh \<in> F" using nh assms(3) by (auto simp: in_faces_def)
  then show "sent_data env pkt d F s s'" by (rule SendData_sent[OF run sent_data_Data[OF s assms(2)]])
qed

lemma satisfy_single_sent:
  assumes "satisfy_single env now pkt n inFace strategy a t = Inr t'" "pkt_Data (packet t pkt) = Some d" "in_faces t a \<subseteq> F"
  shows "sent_data env pkt d F t t'"
proof -
  let ?t1 = "t\<lparr>pitCS := SetExpirationTimerToNow now (pitCS t) a\<rparr>"
  obtain s t2 where t2: "AfterReceiveData env s pkt a inFace ?t1 = Inr t2"
    and t': "t' = upd_pit a (\<lambda>e. e\<lparr>outRecords := []\<rparr>)
      (insert_dead_nonces env now n (map snd (outRecords (pit_entry (upd_pit a (\<lambda>e. e\<lparr>satisfied := True\<rparr>) t2) a))) (upd_pit a (\<lambda>e. e\<lparr>satisfied := True\<rparr>) t2))"
    using assms(1) by (auto simp: satisfy_single_def rbind_Inr Let_def split: option.splits)
  have q: "in_faces ?t1 b = in_faces t b" for b by (simp add: in_faces_def timer_inRecords)
  then have 1: "sent_data env pkt d F t ?t1" by (intro sent_data_quiet) simp_all
  have 2: "sent_data env pkt d F ?t1 t2"
    by (rule AfterReceiveData_sent[OF t2]) (use assms(2,3) q in \<open>simp_all add: packet_def\<close>)
  have 3: "sent_data env pkt d F t2 t'"
    unfolding t' by (intro sent_data_quiet) (simp_all add: insert_dead_nonces_def in_faces_def entry_of_upd_entry)
  show ?thesis by (rule sent_data_trans[OF sent_data_trans[OF 1 2] 3])
qed

lemma satisfy_one_sent:
  assumes "satisfy_one env now pkt n inFace strategy first a t = Inr t'" "pkt_Data (packet t pkt) = Some d" "in_faces t a - {inFace} \<subseteq> F"
  shows "sent_data env pkt d F t t'"
proof -
  let ?t1 = "t\<lparr>pitCS := SetExpirationTimerToNow now (pitCS t) a\<rparr>"
  let ?t2 = "upd_pit a (\<lambda>e. e\<lparr>satisfied := True\<rparr>) ?t1"
  let ?t4 = "upd_pit a (\<lambda>e. e\<lparr>inRecords := [], outRecords := []\<rparr>) (insert_dead_nonces env now n (GetOutRecords (pit_entry ?t2 first)) ?t2)"
  let ?ds = "map (\<lambda>(f, r). (f, in_PitToken r)) (filter (\<lambda>(f, r). f \<noteq> inFace) (inRecords (pit_entry t a)))"
  have run: "rfold (\<lambda>(f, token). processOutgoingData env pkt f token inFace) ?ds ?t4 = Inr t'"
    using assms(1) by (auto simp: satisfy_one_def Let_def BeforeSatisfyInterest_def split: option.splits)
  have 1: "sent_data env pkt d F t ?t4"
    by (intro sent_data_quiet) (simp_all add: insert_dead_nonces_def in_faces_def entry_of_upd_entry timer_inRecords)
  have "sent_data env pkt d F ?t4 t'"
    using run
  proof (rule sent_data_rfold)
    fix x and s s' assume x: "x \<in> set ?ds" and s: "sent_data env pkt d F ?t4 s" and run: "(case x of (f, token) \<Rightarrow> processOutgoingData env pkt f token inFace) s = Inr s'"
    obtain f tok where fx: "x = (f, tok)" by (cases x)
    then have "f \<in> F" using x assms(3) by (force simp: in_faces_def)
    then show "sent_data env pkt d F s s'"
      using run fx by (auto intro!: outgoing_data_sent[OF _ sent_data_Data[OF s sent_data_Data[OF 1 assms(2)]]])
  qed
  with 1 show ?thesis by (rule sent_data_trans)
qed

text \<open>The faces that wait for Data that matches some pending entries.\<close>

definition waiting :: "'s fw_env \<Rightarrow> name \<Rightarrow> u32 option \<Rightarrow> Thread \<Rightarrow> u64 set" where
  "waiting env n token t = (\<Union>a\<in>set (FindInterestPrefixMatchByDataEnc (env_enc env) (pitCS t) n token). in_faces t a)"

lemma satisfy_all_sent:
  assumes "satisfy_all env now pkt d inFace token t = Inr t'" "pkt_Data (packet t pkt) = Some d"
  shows "sent_data env pkt d (waiting env (data_NameV d) token t) t t'"
proof (cases "FindInterestPrefixMatchByDataEnc (env_enc env) (pitCS t) (data_NameV d) token")
  case Nil
  then show ?thesis using assms by (simp add: satisfy_all_def)
next
  case (Cons first others)
  let ?F = "waiting env (data_NameV d) token t"
  obtain strategy where run: "(if others = [] then satisfy_single env now pkt (data_NameV d) inFace strategy first t
      else rfold (satisfy_one env now pkt (data_NameV d) inFace strategy first) (first # others) t) = Inr t'"
    using assms(1) Cons by (auto simp: satisfy_all_def rbind_Inr simp del: rfold.simps)
  have F: "in_faces t a \<subseteq> ?F" if "a \<in> set (first # others)" for a
    using that Cons unfolding waiting_def by auto
  show ?thesis
  proof (cases "others = []")
    case True
    then have "satisfy_single env now pkt (data_NameV d) inFace strategy first t = Inr t'" using run by simp
    from satisfy_single_sent[OF this assms(2) F] show ?thesis by simp
  next
    case False
    then have "rfold (satisfy_one env now pkt (data_NameV d) inFace strategy first) (first # others) t = Inr t'" using run by (simp del: rfold.simps)
    then show ?thesis
    proof (rule sent_data_rfold)
      fix a s s' assume a: "a \<in> set (first # others)" and s: "sent_data env pkt d ?F t s"
        and r: "satisfy_one env now pkt (data_NameV d) inFace strategy first a s = Inr s'"
      have "in_faces s a \<subseteq> ?F" using s F[OF a] unfolding sent_data_def by blast
      then show "sent_data env pkt d ?F s s'" by (intro satisfy_one_sent[OF r sent_data_Data[OF s assms(2)]]) blast
    qed
  qed
qed

end
