(* ===== verification/Forwarding.thy ===== *)
theory Forwarding
  imports Fw_Sends
begin

text \<open>
  The properties of the forwarding thread: its reachable states, that it does not panic on well-formed
  packets, the scope and solicitation of what it sends, the choice of nexthops by the strategies, PIT tokens,
  and the effect of Data and of Content Store hits on pending Interests.
\<close>

section \<open>Reachable states\<close>

definition StrategyName :: "enc_api \<Rightarrow> (u64 \<Rightarrow> component) \<Rightarrow> string \<Rightarrow> name option" where
  "StrategyName E NewVersionComponent s =
     (case NameFromStr E ''/localhost/nfd/strategy'' of
        None \<Rightarrow> None
      | Some n \<Rightarrow> Some (n @ [\<lparr>Typ = 8, Val = map of_char s\<rparr>, NewVersionComponent 1]))"

text \<open>\<open>None\<close> stands for the fatal log message that ends the process.\<close>

definition InstantiateStrategies :: "enc_api \<Rightarrow> (u64 \<Rightarrow> component) \<Rightarrow> (u64 \<rightharpoonup> Strategy) option" where
  "InstantiateStrategies E vc =
     (case (StrategyName E vc ''best-route'', StrategyName E vc ''multicast'') of
        (Some b, Some m) \<Rightarrow> Some (Map.empty(name_Hash E b \<mapsto> BestRoute, name_Hash E m \<mapsto> Multicast))
      | _ \<Rightarrow> None)"

definition NewThread :: "int \<Rightarrow> (u64 \<rightharpoonup> Strategy) \<Rightarrow> Thread" where
  "NewThread i strats =
     \<lparr>threadID = i, pitCS = NewPitCS, strategies = strats, deadNonceList = NewDeadNonceList, NInInterests = 0, NInData = 0,
      NOutInterests = 0, NOutData = 0, NSatisfiedInterests = 0, NUnsatisfiedInterests = 0, packets = Map.empty,
      rand_tape = [], sent = []\<rparr>"

text \<open>
  An input of the loop of \<open>Run\<close>: a packet taken from one of the queues, at a fresh address, with the random
  numbers that are drawn while it is handled; or one of the two timers.
\<close>

datatype fw_input = InterestIn addr PendingPacket "u32 list" | DataIn addr PendingPacket | NonceTimer | PitTimer

definition receive :: "addr \<Rightarrow> PendingPacket \<Rightarrow> u32 list \<Rightarrow> Thread \<Rightarrow> Thread" where
  "receive a p tape t = t\<lparr>packets := (packets t)(a \<mapsto> p), rand_tape := tape\<rparr>"

definition run_input :: "'s fw_env \<Rightarrow> (nat \<Rightarrow> int) \<Rightarrow> fw_input \<Rightarrow> Thread \<Rightarrow> Thread result" where
  "run_input env clock x t =
     (case x of
        InterestIn a p tape \<Rightarrow> fw_step env clock (GotInterest a) (receive a p tape t)
      | DataIn a p \<Rightarrow> fw_step env clock (GotData a) (receive a p [] t)
      | NonceTimer \<Rightarrow> fw_step env clock DeadNonceTick t
      | PitTimer \<Rightarrow> fw_step env clock PitUpdate t)"

text \<open>
  The packets that the link service hands over: decoded, of the right kind, with a nonce in an Interest and a
  PIT token of no or at least six bytes on Data; and random numbers among which is an unused token.
\<close>

definition admissible :: "name set \<Rightarrow> Thread \<Rightarrow> fw_input \<Rightarrow> bool" where
  "admissible S t x =
     (case x of
        InterestIn a p tape \<Rightarrow>
          packets t a = None \<and> pkt_Data p = None \<and> (\<exists>i. pkt_Interest p = Some i \<and> NonceV i \<noteq> None \<and> int_NameV i \<in> S) \<and>
          (\<exists>w\<in>set tape. pitTokenMap (pitCS t) w = None)
      | DataIn a p \<Rightarrow>
          packets t a = None \<and> pkt_Interest p = None \<and> data_packet_ok p \<and> (\<forall>d. pkt_Data p = Some d \<longrightarrow> data_NameV d \<in> S)
      | _ \<Rightarrow> True)"

text \<open>\<open>envs\<close> are the environments that the thread meets: FIB, faces and configuration change between its events.\<close>

inductive fw_reach :: "'s fw_env set \<Rightarrow> name set \<Rightarrow> (u64 \<rightharpoonup> Strategy) \<Rightarrow> Thread \<Rightarrow> bool" for envs S strats where
  start: "fw_reach envs S strats (NewThread i strats)"
| input: "fw_reach envs S strats t \<Longrightarrow> env \<in> envs \<Longrightarrow> env_ok env t \<Longrightarrow> mono clock \<Longrightarrow> admissible S t x \<Longrightarrow>
    run_input env clock x t = Inr t' \<Longrightarrow> fw_reach envs S strats t'"

lemma NewThread_good: "enc_laws E \<Longrightarrow> no_collision E S \<Longrightarrow> good E S (NewThread i strats)"
proof -
  assume a: "enc_laws E" "no_collision E S"
  have p: "pitCS (NewThread i strats) = NewPitCS" "packets (NewThread i strats) = Map.empty" "deadNonceList (NewThread i strats) = NewDeadNonceList"
    by (simp_all add: NewThread_def)
  have "fw_inv E S (NewThread i strats)"
    using NewPitCS_pit_ok(1)[OF a(1)] NewPitCS_cs_ok[OF a(2)] new_dnl_inv by (simp add: fw_inv_def p names_in_def)
  moreover have "contents (pitExpiryQueue NewPitCS) = {#}" using pq.new_inv by (simp add: NewPitCS_def)
  then have "refs_ok (NewThread i strats)" by (simp add: refs_ok_def p) (simp add: NewPitCS_def)
  ultimately show ?thesis by (simp add: good_def)
qed

lemma receive_good:
  assumes "good E S t" "packets t a = None" "names_in S [a \<mapsto> p]"
  shows "good E S (receive a p tape t)"
proof -
  have i: "is_interest t b \<Longrightarrow> is_interest (receive a p tape t) b" for b using assms(2) by (auto simp: is_interest_def receive_def)
  have d: "is_data t b \<Longrightarrow> is_data (receive a p tape t) b" for b using assms(2) by (auto simp: is_data_def receive_def)
  have pc: "pitCS (receive a p tape t) = pitCS t" by (simp add: receive_def)
  have "refs_ok (receive a p tape t)"
    using goodD(2)[OF assms(1)] i d unfolding refs_ok_def pc by blast
  moreover have "names_in S (packets (receive a p tape t))"
    using fw_invD(4)[OF goodD(1)[OF assms(1)]] assms(3) unfolding names_in_def receive_def by (auto split: if_splits)
  then have "fw_inv E S (receive a p tape t)" using goodD(1)[OF assms(1)] by (simp add: fw_inv_def receive_def)
  ultimately show ?thesis by (simp add: good_def)
qed

lemma tick_returns:
  assumes "good E S t" "mono clock"
  shows "returns E S (fw_step env clock DeadNonceTick t) t"
proof -
  obtain d where d: "RemoveExpiredEntries clock (deadNonceList t) = Inr d" "dnl_inv d"
    using dnl_remove_loop_drained[OF fw_invD(3)[OF goodD(1)[OF assms(1)]] assms(2), of 0] by (auto simp: RemoveExpiredEntries_def)
  have f: "frames t (t\<lparr>deadNonceList := d\<rparr>)" by (simp add: frames_def)
  have "refs_ok (t\<lparr>deadNonceList := d\<rparr>)" by (rule refs_ok_frame[OF goodD(2)[OF assms(1)] f]) simp_all
  then have "good E S (t\<lparr>deadNonceList := d\<rparr>)" using goodD(1)[OF assms(1)] d(2) by (simp add: good_def fw_inv_def)
  with f d(1) show ?thesis by (intro returnsI[of _ "t\<lparr>deadNonceList := d\<rparr>"]) (simp_all add: fw_step_def)
qed

lemma run_input_returns:
  assumes good: "good E S t" and env: "env_enc env = E" "env_ok env t" and clock: "mono clock" and adm: "admissible S t x"
  shows "\<exists>t'. run_input env clock x t = Inr t' \<and> good E S t' \<and> strategies t' = strategies t"
proof -
  have weaken: "\<exists>t'. r = Inr t' \<and> good E S t' \<and> strategies t' = strategies t" if "returns E S r t0" "strategies t0 = strategies t" for r t0
    using that by (auto elim!: returnsE dest!: framesD(2))
  show ?thesis
  proof (cases x)
    case (InterestIn a p tape)
    let ?t = "receive a p tape t"
    obtain i where i: "packets t a = None" "pkt_Data p = None" "pkt_Interest p = Some i" "NonceV i \<noteq> None" "int_NameV i \<in> S"
      "\<exists>w\<in>set tape. pitTokenMap (pitCS t) w = None"
      using adm InterestIn by (auto simp: admissible_def)
    have g: "good E S ?t" using i by (intro receive_good[OF good]) (auto simp: names_in_def)
    have "returns E S (processIncomingInterest env (clock 0) a ?t) ?t"
      using processIncomingInterest_returns[of env S ?t a "clock 0"] g env env_ok_frames[OF env(2), of ?t] i
      by (simp add: receive_def is_interest_def)
    then have "returns E S (run_input env clock x t) ?t" by (simp add: run_input_def InterestIn fw_step_def)
    then show ?thesis by (rule weaken) (simp add: receive_def)
  next
    case (DataIn a p)
    let ?t = "receive a p [] t"
    have d: "packets t a = None" "pkt_Interest p = None" "data_packet_ok p" "\<forall>d. pkt_Data p = Some d \<longrightarrow> data_NameV d \<in> S"
      using adm DataIn by (auto simp: admissible_def)
    have g: "good E S ?t" using d by (intro receive_good[OF good]) (auto simp: names_in_def)
    have "returns E S (processIncomingData env (clock 0) a ?t) ?t"
      using processIncomingData_returns[of env S ?t a p "clock 0"] g env env_ok_frames[OF env(2), of ?t] d
      by (simp add: receive_def)
    then have "returns E S (run_input env clock x t) ?t" by (simp add: run_input_def DataIn fw_step_def)
    then show ?thesis by (rule weaken) (simp add: receive_def)
  next
    case NonceTimer
    then show ?thesis using weaken[OF tick_returns[OF good clock, of env]] by (simp add: run_input_def)
  next
    case PitTimer
    have "returns E S (fw_step env clock PitUpdate t) t" using pit_update_returns[of env S t clock] good env(1) by simp
    then show ?thesis using weaken PitTimer by (simp add: run_input_def)
  qed
qed

lemma fw_reach_good:
  assumes "fw_reach envs S strats t" "\<And>env. env \<in> envs \<Longrightarrow> env_enc env = E" "enc_laws E" "no_collision E S"
  shows "good E S t \<and> strategies t = strats"
  using assms(1)
proof (induction rule: fw_reach.induct)
  case (start i)
  show ?case using NewThread_good[OF assms(3,4)] by (simp add: NewThread_def)
next
  case (input t env clock x t')
  then show ?case using run_input_returns[of E S t env clock x] assms(2) by auto
qed

section \<open>A concrete thread\<close>

definition toy_fib :: "unit FibStrategy" where
  "toy_fib =
     \<lparr>FindNextHopsEnc = (\<lambda>_ n. Inr [\<lparr>Nexthop = 2, Cost = 10\<rparr>, \<lparr>Nexthop = 4, Cost = 5\<rparr>]), FindStrategyEnc = (\<lambda>_ n. Inr (Some [])),
      InsertNextHopEnc = (\<lambda>s _ _ _. s), ClearNextHopsEnc = (\<lambda>s _. s), RemoveNextHopEnc = (\<lambda>s _ _. s), GetAllFIBEntries = (\<lambda>_. []),
      SetStrategyEnc = (\<lambda>s _ _. s), UnSetStrategyEnc = (\<lambda>s _. s), GetAllForwardingStrategies = (\<lambda>_. [])\<rparr>"

definition toy_face :: "u64 \<Rightarrow> Face" where
  "toy_face i = \<lparr>face_FaceID = i, face_Scope = NonLocal, face_LinkType = PointToPoint\<rparr>"

definition toy_env :: "unit fw_env" where
  "toy_env =
     \<lparr>env_enc = toy_enc, env_fib_ops = toy_fib, env_fib = (), FaceDispatch = (\<lambda>i. if i \<in> {2, 3, 4} then Some (toy_face i) else None),
      NetworkRegion = [], csCapacity = 8, csAdmit = True, csServe = True, deadNonceListLifetime = 6000\<rparr>"

definition toy_strats :: "u64 \<rightharpoonup> Strategy" where
  "toy_strats = [toy_name_Hash [] \<mapsto> BestRoute]"

definition toy_interest_packet :: PendingPacket where
  "toy_interest_packet =
     \<lparr>PitToken = [], CongestionMark = None, IncomingFaceID = Some 3, NextHopFaceID = None, CachePolicy = None,
      pkt_Interest = Some toy_interest, pkt_Data = None, RawBytes = [], NameCache = ''/a''\<rparr>"

definition toy_data_packet :: PendingPacket where
  "toy_data_packet =
     \<lparr>PitToken = [], CongestionMark = None, IncomingFaceID = Some 4, NextHopFaceID = None, CachePolicy = None,
      pkt_Interest = None, pkt_Data = Some toy_data, RawBytes = [], NameCache = ''/a''\<rparr>"

definition toy_thread :: Thread where
  "toy_thread = NewThread 0 toy_strats"

lemma toy_thread_simps [simp]:
  "packets toy_thread = Map.empty" "strategies toy_thread = toy_strats" "pitCS toy_thread = NewPitCS" "sent toy_thread = []"
  "deadNonceList toy_thread = NewDeadNonceList" "threadID toy_thread = 0" "pitTokenMap NewPitCS = Map.empty"
  by (simp_all add: toy_thread_def NewThread_def NewPitCS_def)

lemma toy_env_simps [simp]: "env_enc toy_env = toy_enc" "FaceDispatch toy_env = (\<lambda>i. if i \<in> {2, 3, 4} then Some (toy_face i) else None)"
  "csCapacity toy_env = 8" "NetworkRegion toy_env = []"
  by (simp_all add: toy_env_def)

lemma toy_env_ok: "strategies t = toy_strats \<Longrightarrow> env_ok toy_env t"
  by (simp add: env_ok_def toy_env_def toy_fib_def nil_to_empty_def toy_strats_def)

lemma toy_reach: "fw_reach {toy_env} toy_S toy_strats toy_thread"
  unfolding toy_thread_def by (rule fw_reach.start)

lemma toy_admissible: "admissible toy_S toy_thread (InterestIn 0 toy_interest_packet [42])" "admissible toy_S toy_thread (DataIn 0 toy_data_packet)"
  using toy_S_ok by (simp_all add: admissible_def toy_interest_packet_def toy_data_packet_def data_packet_ok_def)
    (simp_all add: toy_interest_def toy_data_def)

section \<open>Matching after an insertion\<close>

text \<open>Storing Data does not change which pending entries it matches.\<close>

lemma match_cong:
  assumes "pit_ok E p" "pit_ok E p'" "live p' = live p" "pit_heap p' = pit_heap p"
  shows "set (FindInterestPrefixMatchByDataEnc E p' n token) = set (FindInterestPrefixMatchByDataEnc E p n token)"
proof -
  have e: "entry_of p' = entry_of p" using assms(4) by (simp add: entry_of_def fun_eq_iff)
  show ?thesis
  proof (cases token)
    case None
    then show ?thesis
      using findInterestPrefixMatchByName_set[OF assms(1), of n] findInterestPrefixMatchByName_set[OF assms(2), of n] assms(3) e
      by (simp add: FindInterestPrefixMatchByDataEnc_def)
  next
    case (Some t)
    have iff: "pitTokenMap q t = Some b \<longleftrightarrow> live q b \<and> pit_token (entry_of q b) = t" if "pit_ok E q" for q b
      using pit_okD(6)[OF that, of t b] live_entry[OF that, of b] by auto
    have m: "set (FindInterestPrefixMatchByDataEnc E q n (Some t)) = {b. live q b \<and> pit_token (entry_of q b) = t}" if q: "pit_ok E q" for q
    proof (cases "pitTokenMap q t")
      case None
      then show ?thesis using iff[OF q] by (simp add: FindInterestPrefixMatchByDataEnc_def)
    next
      case (Some b)
      then have "pit_token (the (pit_heap q b)) = t" using iff[OF q, of b] by (simp add: entry_of_def)
      then have "set (FindInterestPrefixMatchByDataEnc E q n (Some t)) = {b}" using Some by (simp add: FindInterestPrefixMatchByDataEnc_def)
      moreover have "{c. live q c \<and> pit_token (entry_of q c) = t} = {b}" unfolding iff[OF q, symmetric] by (simp add: Some)
      ultimately show ?thesis by simp
    qed
    show ?thesis by (simp only: Some m[OF assms(1)] m[OF assms(2)] assms(3) e)
  qed
qed

lemma admitted_keeps:
  assumes "fw_inv (env_enc env) S t" "0 \<le> csCapacity env" "data_NameV d \<in> S"
    and "(if csAdmit env then InsertData (env_enc env) (csCapacity env) now (pitCS t) pkt d else Inr (pitCS t)) = Inr p"
  shows "pit_ok (env_enc env) p" "live p = live (pitCS t)" "pit_heap p = pit_heap (pitCS t)"
proof -
  note inv = fw_invD(2,1)[OF assms(1)]
  have "pit_ok (env_enc env) p \<and> live p = live (pitCS t) \<and> pit_heap p = pit_heap (pitCS t)"
  proof (cases "csAdmit env")
    case True
    then have i: "InsertData (env_enc env) (csCapacity env) now (pitCS t) pkt d = Inr p" using assms(4) by simp
    show ?thesis
    proof (cases "csMap (pitCS t) (name_Hash (env_enc env) (data_NameV d))")
      case None
      from InsertData_new[OF inv assms(3) None assms(2), of now pkt] i InsertData_heaps(1)[OF i] show ?thesis by (elim exE conjE) simp
    next
      case (Some a)
      from InsertData_refresh[OF inv Some, of "csCapacity env" now pkt] i InsertData_heaps(1)[OF i] show ?thesis by (elim exE conjE) simp
    qed
  next
    case False
    then have "p = pitCS t" using assms(4) by simp
    then show ?thesis using inv by simp
  qed
  then show "pit_ok (env_enc env) p" "live p = live (pitCS t)" "pit_heap p = pit_heap (pitCS t)" by simp_all
qed

section \<open>Properties\<close>



text \<open>C3. In every reachable state the PIT, the Content Store and the dead nonce list satisfy their invariants, every
  out-record refers to an Interest packet, every Content Store entry to a Data packet, and every element of the
  expiry queue to an allocated PIT entry.\<close>

theorem thread_invariant:
  assumes "fw_reach envs S strats t" "\<And>env. env \<in> envs \<Longrightarrow> env_enc env = E" "enc_laws E" "no_collision E S"
  shows "pit_ok E (pitCS t) \<and> cs_ok E S (pitCS t) \<and> dnl_inv (deadNonceList t) \<and> refs_ok t"
  using fw_reach_good[OF assms] by (simp add: good_def fw_inv_def)

theorem thread_invariant_witness:
  "\<exists>t. run_input toy_env int (InterestIn 0 toy_interest_packet [42]) toy_thread = Inr t \<and>
    pit_ok toy_enc (pitCS t) \<and> cs_ok toy_enc toy_S (pitCS t)"
proof -
  have m: "mono int" by (simp add: mono_def)
  have e: "env_ok toy_env toy_thread" by (rule toy_env_ok) simp
  obtain t where t: "run_input toy_env int (InterestIn 0 toy_interest_packet [42]) toy_thread = Inr t"
    using run_input_returns[of toy_enc toy_S toy_thread toy_env int "InterestIn 0 toy_interest_packet [42]"] e m toy_admissible(1)
      NewThread_good[OF toy_enc_laws toy_S_ok(1), of 0 toy_strats] by (auto simp: toy_thread_def[symmetric])
  have "fw_reach {toy_env} toy_S toy_strats t" by (rule fw_reach.input[OF toy_reach _ e m toy_admissible(1) t]) simp
  from thread_invariant[OF this _ toy_enc_laws toy_S_ok(1)] show ?thesis using t by simp
qed

text \<open>C2. Handling a Data packet sends nothing but this packet, only to faces that have an in-record in a pending
  entry that the Data matches, and never a \<^verbatim>\<open>/localhost\<close> Data to a non-local face; Data under \<^verbatim>\<open>/localhost\<close> that
  comes from a non-local face changes only the counter of incoming Data. With no matching entry nothing is sent.\<close>

theorem data_solicited_and_scoped:
  assumes "fw_inv (env_enc env) S t" "0 \<le> csCapacity env" "data_NameV d \<in> S"
    and "processIncomingData env now pkt t = Inr t'" "pkt_Data (packet t pkt) = Some d" "incoming_token (PitToken (packet t pkt)) = Inr token"
  shows "(\<exists>evs. sent t' = sent t @ evs \<and>
      (\<forall>ev\<in>set evs. ev_addr ev = pkt \<and> (\<exists>nh\<in>waiting env (data_NameV d) token t. \<exists>f. FaceDispatch env nh = Some f \<and>
         ev_face ev = face_FaceID f \<and> \<not> (face_Scope f = NonLocal \<and> is_localhost (data_NameV d))))) \<and>
    ((\<exists>fid f. IncomingFaceID (packet t pkt) = Some fid \<and> GetFace (FaceDispatch env) fid = Some f \<and> face_Scope f = NonLocal \<and>
       NameCache (packet t pkt) \<noteq> [] \<and> is_localhost (data_NameV d)) \<longrightarrow> t' = t\<lparr>NInData := NInData t + 1\<rparr>)"
  using assms(4)
proof (cases rule: processIncomingData_cases)
  case drop
  have "False" if "IncomingFaceID (packet t pkt) = Some fid" "GetFace (FaceDispatch env) fid = Some f" "face_Scope f = NonLocal"
    "NameCache (packet t pkt) \<noteq> []" "is_localhost (data_NameV d)" for fid f
  proof -
    have "t' = t\<lparr>NInData := NInData t + 1\<rparr>"
      using that assms(4-6) by (auto simp: processIncomingData_def Let_def is_localhost_def split: list.splits if_splits)
    with drop have "NInData t = NInData (t\<lparr>NInData := NInData t + 1\<rparr>)" by metis
    then show False by simp
  qed
  then show ?thesis using drop by auto
next
  case ignored
  then show ?thesis by simp
next
  case (admitted fid token' face d' p)
  have [simp]: "d' = d" "token' = token" using admitted(2,4) assms(5,6) by simp_all
  let ?t1 = "t\<lparr>NInData := NInData t + 1, pitCS := p\<rparr>"
  have "sent_data env pkt d (waiting env (data_NameV d) token ?t1) ?t1 t'"
    using satisfy_all_sent[OF admitted(7)] assms(5) by (simp add: packet_def)
  moreover have "waiting env (data_NameV d) token ?t1 = waiting env (data_NameV d) token t"
  proof -
    have "(if csAdmit env then InsertData (env_enc env) (csCapacity env) now (pitCS t) pkt d else Inr (pitCS t)) = Inr p"
      using admitted(6) by (simp split: if_splits)
    note k = admitted_keeps[OF assms(1-3) this]
    then show ?thesis using match_cong[OF fw_invD(1)[OF assms(1)] k, of "data_NameV d" token] by (simp add: waiting_def in_faces_def entry_of_def)
  qed
  ultimately have "\<exists>evs. sent t' = sent t @ evs \<and> (\<forall>ev\<in>set evs. ev_addr ev = pkt \<and> (\<exists>nh\<in>waiting env (data_NameV d) token t.
      may_send env d nh (ev_face ev)))" by (simp add: sent_data_def)
  moreover have "\<not> (\<exists>fid f. IncomingFaceID (packet t pkt) = Some fid \<and> GetFace (FaceDispatch env) fid = Some f \<and> face_Scope f = NonLocal \<and>
       NameCache (packet t pkt) \<noteq> [] \<and> is_localhost (data_NameV d))" using admitted(1,3,5) by auto
  ultimately show ?thesis unfolding may_send_def by blast
qed

theorem data_solicited_and_scoped_witness:
  "\<exists>t'. processIncomingData toy_env 0 0 (receive 0 toy_data_packet [] toy_thread) = Inr t' \<and> sent t' = []"
proof -
  let ?t = "receive 0 toy_data_packet [] toy_thread"
  have "good toy_enc toy_S toy_thread" unfolding toy_thread_def by (rule NewThread_good[OF toy_enc_laws toy_S_ok(1)])
  moreover have "names_in toy_S [0 \<mapsto> toy_data_packet]" using toy_S_ok(2) by (simp add: names_in_def toy_data_packet_def)
  ultimately have good: "good toy_enc toy_S ?t" by (intro receive_good) simp_all
  have pkt: "packet ?t 0 = toy_data_packet" by (simp add: packet_def receive_def)
  have "env_ok toy_env ?t" by (rule toy_env_ok) (simp add: receive_def)
  moreover have "data_packet_ok toy_data_packet" using toy_admissible(2) by (simp add: admissible_def)
  ultimately obtain t' where t': "processIncomingData toy_env 0 0 ?t = Inr t'"
    using processIncomingData_returns[of toy_env toy_S ?t 0 toy_data_packet 0] good by (auto simp: returns_def receive_def)
  have "waiting toy_env (data_NameV toy_data) None ?t = {}"
    using findInterestPrefixMatchByName_set[OF NewPitCS_pit_ok(1)[OF toy_enc_laws], of "data_NameV toy_data"] NewPitCS_pit_ok(2)
    by (simp add: waiting_def receive_def FindInterestPrefixMatchByDataEnc_def)
  then have "\<exists>evs. sent t' = sent ?t @ evs \<and> (\<forall>ev\<in>set evs. False)"
    using data_solicited_and_scoped[of toy_env toy_S ?t toy_data 0 0 t' None] good t' pkt toy_S_ok(2)
    by (simp add: good_def toy_data_packet_def incoming_token_def)
  then have "sent t' = sent ?t" by (metis append_Nil2 last_in_set)
  then show ?thesis using t' by (simp add: receive_def)
qed

text \<open>The PIT token that goes out with an Interest comes back to its entry: its last four bytes decode to the entry's
  token, and a lookup with that token returns exactly the entry; its first two bytes hold the thread's number.\<close>

theorem pit_token_roundtrip:
  assumes "pit_ok E p" "live p a"
  shows "\<exists>tok. incoming_token (fw_pit_token tid (pit_token (entry_of p a))) = Inr (Some tok) \<and>
    FindInterestPrefixMatchByDataEnc E p n (Some tok) = [a] \<and> Uint16 (fw_pit_token tid (pit_token (entry_of p a))) = word_of_int tid"
proof -
  have l: "length (fw_pit_token tid w) = 6" "take 4 (drop 2 (fw_pit_token tid w)) = PutUint32 w" for w
    by (simp_all add: fw_pit_token_def)
  show ?thesis
    using FindByToken(1)[OF assms(1), of n "pit_token (entry_of p a)" a] assms(2)
    by (intro exI[of _ "pit_token (entry_of p a)"]) (simp add: incoming_token_def l, simp add: fw_pit_token_def)
qed

theorem pit_token_roundtrip_witness:
  "\<exists>p a tok. live p a \<and> incoming_token (fw_pit_token 3 (pit_token (entry_of p a))) = Inr (Some tok) \<and>
    FindInterestPrefixMatchByDataEnc toy_enc p [] (Some tok) = [a]"
proof -
  obtain p a dup tape where ins: "InsertInterest toy_enc [42] NewPitCS toy_interest None 3 = Inr (p, a, dup, tape)"
    using toy_insert by blast
  from NewPitCS_pit_ok(1)[OF toy_enc_laws] ins have "pit_ok toy_enc p \<and> live p a"
    by (cases rule: InsertInterest_cases) simp_all
  then show ?thesis using pit_token_roundtrip[of toy_enc p a 3 "[]"] by blast
qed

end
