(* ===== verification/Strategies.thy ===== *)
theory Strategies
  imports Forwarding
begin

text \<open>
  What the Interest pipeline and the strategies do with an Interest: which nexthops may get it, what each
  strategy sends, when an Interest is dropped, and what Data or a Content Store hit does to its PIT entry.
\<close>

section \<open>Usable nexthops\<close>

text \<open>A nexthop that \<open>processOutgoingInterest\<close> does not refuse.\<close>

definition usable :: "'s fw_env \<Rightarrow> Interest \<Rightarrow> u64 \<Rightarrow> u64 \<Rightarrow> bool" where
  "usable env i inFace nh =
     (case FaceDispatch env nh of
        None \<Rightarrow> False
      | Some f \<Rightarrow> \<not> (face_FaceID f = inFace \<and> face_LinkType f \<noteq> AdHoc) \<and> \<not> (HopLimitV i = Some 0 \<and> face_Scope f = NonLocal))"

definition carries :: "Thread \<Rightarrow> addr \<Rightarrow> Interest \<Rightarrow> bool" where
  "carries t pkt i = (\<exists>p. packets t pkt = Some p \<and> pkt_Interest p = Some i \<and> NonceV i \<noteq> None)"

text \<open>The state in which a usable nexthop leaves the thread.\<close>

definition sent_to :: "'s fw_env \<Rightarrow> int \<Rightarrow> addr \<Rightarrow> u32 \<Rightarrow> addr \<Rightarrow> u64 \<Rightarrow> u64 \<Rightarrow> Thread \<Rightarrow> Thread" where
  "sent_to env now pkt nonce a nh inFace t =
     SendPacket (the (FaceDispatch env nh)) pkt
       (upd_packet pkt (\<lambda>p. p\<lparr>IncomingFaceID := Some inFace, PitToken := fw_pit_token (threadID t) (pit_token (pit_entry t a))\<rparr>)
         ((upd_pit a (\<lambda>e. InsertOutRecord now e pkt nonce nh) t)\<lparr>NOutInterests := NOutInterests t + 1\<rparr>))"

lemma outgoing_interest_eq:
  assumes "carries t pkt i" "NonceV i = Some nonce"
  shows "processOutgoingInterest env now pkt a nh inFace t =
    Inr (if usable env i inFace nh then (True, sent_to env now pkt nonce a nh inFace t) else (False, t))"
proof -
  obtain p where p: "packets t pkt = Some p" "pkt_Interest p = Some i" using assms(1) by (auto simp: carries_def)
  then have "packet t pkt = p" by (simp add: packet_def)
  moreover have "NOutInterests (upd_pit a (\<lambda>e. InsertOutRecord now e pkt nonce nh) t) = NOutInterests t" by (simp add: upd_pit_def)
  ultimately show ?thesis
    using p assms(2) by (simp add: processOutgoingInterest_def GetFace_def usable_def sent_to_def Let_def split: option.split)
qed

lemma sent_to_carries: "carries t pkt i \<Longrightarrow> carries (sent_to env now pkt nonce a nh inFace t) pkt i"
  by (auto simp: carries_def sent_to_def upd_packet_def upd_pit_def SendPacket_def)

lemma sent_to_event:
  assumes "FaceDispatch env nh = Some f"
  shows "\<exists>p. sent (sent_to env now pkt nonce a nh inFace t) = sent t @ [\<lparr>ev_face = face_FaceID f, ev_addr = pkt, ev_packet = p\<rparr>]"
  by (simp add: sent_to_def SendPacket_def assms)

lemma try_nexthops_eq:
  assumes "carries t pkt i" "NonceV i = Some nonce"
  shows "try_nexthops env now pkt a inFace nhs t =
    Inr (case List.find (\<lambda>nh. usable env i inFace (Nexthop nh)) nhs of None \<Rightarrow> t | Some nh \<Rightarrow> sent_to env now pkt nonce a (Nexthop nh) inFace t)"
  by (induction nhs) (simp_all add: outgoing_interest_eq[OF assms])

lemma find_sort_key:
  assumes "List.find P (sort_key k xs) = Some x"
  shows "x \<in> set xs \<and> P x \<and> (\<forall>y\<in>set xs. P y \<longrightarrow> k x \<le> k y)"
proof -
  let ?ys = "sort_key k xs"
  obtain j where j: "j < length ?ys" "P (?ys ! j)" "x = ?ys ! j" "\<forall>l<j. \<not> P (?ys ! l)"
    using assms unfolding find_Some_iff by blast
  have "k x \<le> k y" if "y \<in> set xs" "P y" for y
  proof -
    have "y \<in> set ?ys" using that(1) by simp
    then obtain l where l: "l < length ?ys" "y = ?ys ! l" by (metis in_set_conv_nth)
    then have "j \<le> l" using j(4) that(2) by (meson not_le)
    then show ?thesis using sorted_nth_mono[OF sorted_sort_key[of k xs], of j l] l j by simp
  qed
  moreover have "x \<in> set ?ys" unfolding j(3) using j(1) by (rule nth_mem)
  ultimately show ?thesis using j by simp
qed

section \<open>Duplicates\<close>

lemma same_entry:
  assumes "pit_ok E p" "live p a" "live p b" "pe_node (entry_of p a) = pe_node (entry_of p b)" "kind (entry_of p a) = kind (entry_of p b)"
  shows "a = b"
proof -
  let ?path = "pe_node (entry_of p a)"
  have "a \<in> set (pitEntries (pc_node p ?path))" "b \<in> set (pitEntries (pc_node p ?path))"
    using assms(2-4) live_node[OF assms(1)] by simp_all
  then show ?thesis using pit_okD(4)[OF assms(1), of ?path] assms(5) by (auto dest: inj_onD)
qed

lemma no_dup_inserted:
  assumes ok: "pit_ok E p" and ins: "InsertInterest E tape p i hint f = Inr (p1, a, False, tape')" and nonce: "NonceV i = Some nonce"
    and b: "live p b" "pe_node (entry_of p b) = pc_key E (int_NameV i)" "kind (entry_of p b) = interest_kind i hint"
    and r: "(g, r) \<in> set (inRecords (entry_of p b))" "g \<noteq> f"
  shows "in_LatestEncNonce r \<noteq> nonce"
  using ok ins
proof (cases rule: InsertInterest_cases)
  case old
  have "b = a" using find_entry_spec(1)[OF ok old(1)] b same_entry[OF ok b(1)] by metis
  then show ?thesis using old(7) r unfolding nonce_loop_iff[OF nonce] by force
next
  case (new token)
  then show ?thesis using find_entry_spec(2)[OF ok new(1) b(1,2)] b(3) by simp
qed

section \<open>Delivering Data\<close>

text \<open>
  The events of sending a Data packet \<open>p\<close> to in-records one after the other: the packet is shared, so the PIT
  token that one downstream gets stays on it for the next one that has none of its own.
\<close>

fun deliveries :: "'s fw_env \<Rightarrow> Data \<Rightarrow> addr \<Rightarrow> u64 \<Rightarrow> PendingPacket \<Rightarrow> (u64 \<times> PitInRecord) list \<Rightarrow> send_event list" where
  "deliveries env d pkt inFace p [] = []"
| "deliveries env d pkt inFace p ((nh, r) # rs) =
     (case FaceDispatch env nh of
        None \<Rightarrow> deliveries env d pkt inFace p rs
      | Some f \<Rightarrow>
          if face_Scope f = NonLocal \<and> is_localhost (data_NameV d) then deliveries env d pkt inFace p rs
          else
            let p' = (if in_PitToken r \<noteq> [] then p\<lparr>PitToken := in_PitToken r\<rparr> else p)\<lparr>IncomingFaceID := Some inFace\<rparr>
            in \<lparr>ev_face = face_FaceID f, ev_addr = pkt, ev_packet = p'\<rparr> # deliveries env d pkt inFace p' rs)"

lemma AfterReceiveData_exact:
  assumes "pit_heap (pitCS t) a = Some e" "distinct (map fst (inRecords e))" "packets t pkt = Some p" "pkt_Data p = Some d"
  shows "\<exists>t'. AfterReceiveData env s pkt a inFace t = Inr t' \<and> sent t' = sent t @ deliveries env d pkt inFace p (inRecords e) \<and>
    pit_heap (pitCS t') a = Some (e\<lparr>inRecords := []\<rparr>) \<and> deadNonceList t' = deadNonceList t"
proof -
  have "\<exists>t'. rfold (\<lambda>nh. SendData env pkt a nh inFace) (map fst rs) t = Inr t' \<and> sent t' = sent t @ deliveries env d pkt inFace p rs \<and>
      pit_heap (pitCS t') a = Some (e\<lparr>inRecords := []\<rparr>) \<and> deadNonceList t' = deadNonceList t"
    if "pit_heap (pitCS t) a = Some (e\<lparr>inRecords := rs\<rparr>)" "distinct (map fst rs)" "packets t pkt = Some p" "pkt_Data p = Some d" for rs t p
    using that
  proof (induction rs arbitrary: t p)
    case (Cons x rs)
    obtain nh r where x: "x = (nh, r)" by (cases x)
    let ?t1 = "upd_pit a (\<lambda>e. e\<lparr>inRecords := AList.delete nh (inRecords e)\<rparr>) t"
    have del: "AList.delete nh (x # rs) = rs" using Cons.prems(2) by (simp add: x AList.delete_eq filter_id_conv) force
    have h1: "pit_heap (pitCS ?t1) a = Some (e\<lparr>inRecords := rs\<rparr>)" using Cons.prems(1) del by simp
    have send: "SendData env pkt a nh inFace t = processOutgoingData env pkt nh (in_PitToken r) inFace ?t1"
      using Cons.prems(1) by (simp add: SendData_def x entry_of_def)
    have pk: "packet ?t1 pkt = p" "packets ?t1 pkt = Some p" using Cons.prems(3) by (simp_all add: packet_def)
    have dist: "distinct (map fst rs)" using Cons.prems(2) by simp
    show ?case
    proof (cases "case FaceDispatch env nh of None \<Rightarrow> True | Some f \<Rightarrow> face_Scope f = NonLocal \<and> is_localhost (data_NameV d)")
      case True
      then have "SendData env pkt a nh inFace t = Inr ?t1" "deliveries env d pkt inFace p (x # rs) = deliveries env d pkt inFace p rs"
        using Cons.prems(4) by (simp_all add: send processOutgoingData_def GetFace_def pk x split: option.splits)
      with Cons.IH[OF h1 dist pk(2) Cons.prems(4)] show ?thesis by (simp add: x)
    next
      case False
      then obtain f where f: "FaceDispatch env nh = Some f" "\<not> (face_Scope f = NonLocal \<and> is_localhost (data_NameV d))"
        by (auto split: option.splits)
      let ?p = "(if in_PitToken r \<noteq> [] then p\<lparr>PitToken := in_PitToken r\<rparr> else p)\<lparr>IncomingFaceID := Some inFace\<rparr>"
      let ?t2 = "upd_packet pkt (\<lambda>p. (if length (in_PitToken r) > 0 then p\<lparr>PitToken := in_PitToken r\<rparr> else p)\<lparr>IncomingFaceID := Some inFace\<rparr>)
        (?t1\<lparr>NOutData := NOutData ?t1 + 1, NSatisfiedInterests := NSatisfiedInterests ?t1 + 1\<rparr>)"
      have run: "SendData env pkt a nh inFace t = Inr (SendPacket f pkt ?t2)"
        using f Cons.prems(4) by (auto simp: send processOutgoingData_def GetFace_def pk Let_def)
      have p2: "packets (SendPacket f pkt ?t2) pkt = Some ?p" using Cons.prems(3) by (simp add: upd_packet_def)
      have h2: "pit_heap (pitCS (SendPacket f pkt ?t2)) a = Some (e\<lparr>inRecords := rs\<rparr>)" using h1 by simp
      have ev: "sent (SendPacket f pkt ?t2) = sent t @ [\<lparr>ev_face = face_FaceID f, ev_addr = pkt, ev_packet = ?p\<rparr>]"
        using Cons.prems(3) by (simp add: SendPacket_def packet_def upd_packet_def upd_pit_def)
      have dn: "deadNonceList (SendPacket f pkt ?t2) = deadNonceList t" by simp
      have "pkt_Data ?p = Some d" using Cons.prems(4) by simp
      from Cons.IH[OF h2 dist p2 this] ev dn f run show ?thesis by (auto simp: x Let_def)
    qed
  qed simp
  from this[of t "inRecords e" p] assms show ?thesis by (simp add: AfterReceiveData_def entry_of_def)
qed

lemma dead_nonces_found:
  assumes "r \<in> set rs \<or> dnl_Find E d n (out_LatestEncNonce r)"
  shows "dnl_Find E (fold (\<lambda>r d. fst (dnl_Insert E l now d n (out_LatestEncNonce r))) rs d) n (out_LatestEncNonce r)"
  using assms
proof (induction rs arbitrary: d)
  case (Cons x rs)
  have "dnl_Find E (fst (dnl_Insert E l now d n (out_LatestEncNonce x))) n (out_LatestEncNonce x)"
    "dnl_Find E d n k \<Longrightarrow> dnl_Find E (fst (dnl_Insert E l now d n (out_LatestEncNonce x))) n k" for k
    by (auto simp: dnl_Insert_def dnl_Find_def Let_def)
  then have "r \<in> set rs \<or> dnl_Find E (fst (dnl_Insert E l now d n (out_LatestEncNonce x))) n (out_LatestEncNonce r)"
    using Cons.prems by auto
  from Cons.IH[OF this] show ?case by simp
qed simp

lemma timer_heap:
  assumes "pit_heap p a = Some e"
  shows "\<exists>i. pit_heap (SetExpirationTimerToNow now p a) a = Some (e\<lparr>expirationTime := now, queueIndex := i\<rparr>)"
proof -
  have e: "e\<lparr>expirationTime := now\<rparr> = e\<lparr>expirationTime := now, queueIndex := queueIndex e\<rparr>" by (cases e) simp
  show ?thesis
    using assms by (auto simp: SetExpirationTimerToNow_def updatePitExpiry_def Let_def split_beta intro: e)
qed

lemma new_entry_addr:
  assumes "pit_ok E p" "InsertInterest E tape p i hint f = Inr (p', a, dup, tape')" "find_entry E p i hint = None"
  shows "a = next_addr p"
proof -
  obtain root1 node where fl: "pc_fillTreeToPrefixEnc E (pc_root p) (int_NameV i) = (root1, node)" by fastforce
  note st = pc_fill_steps[OF pit_okD(2)[OF assms(1)] fl]
  have "List.find (\<lambda>a. same_interest E i hint (the (pit_heap p a))) (pitEntries (node_at root1 node)) = None"
    using assms(3) by (simp add: find_entry_def st(1,2) entry_of_def)
  then show ?thesis
    using assms(2) by (auto simp: InsertInterest_def fl Let_def split: sum.splits dest!: insert_finish_spec(1))
qed

lemma InsertInterest_csMap: "InsertInterest E tape p i hint f = Inr (p', a, dup, tape') \<Longrightarrow> csMap p' = csMap p"
  by (auto simp: InsertInterest_def Let_def split_beta split: option.splits sum.splits dest!: insert_finish_spec(4))

lemma SendData_pit:
  assumes "SendData env pkt a nh inFace t = Inr t'"
  shows "live (pitCS t') = live (pitCS t)" "pitExpiryQueue (pitCS t') = pitExpiryQueue (pitCS t)"
proof -
  have out: "pitCS u' = pitCS u" if "processOutgoingData env pkt nh tok inFace u = Inr u'" for tok u u'
    using that by (auto simp: processOutgoingData_def Let_def split: option.splits if_splits)
  have "pitCS t' = pitCS t \<or> pitCS t' = pitCS (upd_pit a (\<lambda>e. e\<lparr>inRecords := AList.delete nh (inRecords e)\<rparr>) t)"
    using assms out by (auto simp: SendData_def split: option.splits)
  then show "live (pitCS t') = live (pitCS t)" "pitExpiryQueue (pitCS t') = pitExpiryQueue (pitCS t)" by auto
qed

section \<open>A pending Interest\<close>

definition toy_pending :: Thread where
  "toy_pending = receive 0 toy_interest_packet [] toy_thread"

lemma toy_pending_carries: "carries toy_pending 0 toy_interest" "NonceV toy_interest = Some 77"
  by (simp_all add: carries_def toy_pending_def receive_def toy_interest_packet_def) (simp_all add: toy_interest_def)

lemma toy_usable: "usable toy_env toy_interest 3 2" "usable toy_env toy_interest 3 4" "\<not> usable toy_env toy_interest 3 3" "\<not> usable toy_env toy_interest 3 5"
  by (simp_all add: usable_def toy_face_def) (simp_all add: toy_interest_def)

section \<open>Properties\<close>

text \<open>\<open>processOutgoingInterest\<close> sends exactly when the face exists, is not the (non ad-hoc) face the Interest came
  from, and the Interest has not used up its hops towards a non-local face; it then makes the face an out-record of
  the entry with this nonce, and the packet goes out with the entry's PIT token. Otherwise nothing changes.\<close>

theorem outgoing_interest_spec:
  assumes "carries t pkt i" "NonceV i = Some nonce" "pit_heap (pitCS t) a = Some e"
  shows "\<exists>t'. processOutgoingInterest env now pkt a nh inFace t = Inr (usable env i inFace nh, t') \<and>
    (\<not> usable env i inFace nh \<longrightarrow> t' = t) \<and>
    (usable env i inFace nh \<longrightarrow>
      (\<exists>r p. map_of (outRecords (pit_entry t' a)) nh = Some r \<and> out_LatestEncNonce r = nonce \<and> out_ExpirationTime r = now + 4000 * Millisecond \<and>
         sent t' = sent t @ [\<lparr>ev_face = face_FaceID (the (FaceDispatch env nh)), ev_addr = pkt, ev_packet = p\<rparr>] \<and>
         PitToken p = fw_pit_token (threadID t) (pit_token e) \<and> NOutInterests t' = NOutInterests t + 1))"
proof (cases "usable env i inFace nh")
  case False
  then show ?thesis by (simp add: outgoing_interest_eq[OF assms(1,2)])
next
  case True
  let ?t' = "sent_to env now pkt nonce a nh inFace t"
  obtain q where q: "packets t pkt = Some q" using assms(1) by (auto simp: carries_def)
  have u: "map_of (AList.update nh r al) nh = Some r" for r :: PitOutRecord and al by (simp add: update_conv')
  have "\<exists>r. map_of (outRecords (InsertOutRecord now e pkt nonce nh)) nh = Some r \<and> out_LatestEncNonce r = nonce \<and> out_ExpirationTime r = now + 4000 * Millisecond"
    by (auto simp: InsertOutRecord_def u split: option.split)
  moreover have "pit_entry ?t' a = InsertOutRecord now e pkt nonce nh"
    using assms(3) by (simp add: sent_to_def entry_of_def)
  moreover have "\<exists>p. sent ?t' = sent t @ [\<lparr>ev_face = face_FaceID (the (FaceDispatch env nh)), ev_addr = pkt, ev_packet = p\<rparr>] \<and>
      PitToken p = fw_pit_token (threadID t) (pit_token e)"
    using q assms(3) by (simp add: sent_to_def SendPacket_def packet_def upd_packet_def entry_of_def upd_pit_def)
  moreover have "NOutInterests ?t' = NOutInterests t + 1" by (simp add: sent_to_def SendPacket_def upd_packet_def)
  ultimately show ?thesis using True outgoing_interest_eq[OF assms(1,2), of env now a nh inFace] by auto
qed

theorem outgoing_interest_spec_witness:
  "\<exists>t e t'. processOutgoingInterest toy_env 10 0 7 4 3 t = Inr (True, t') \<and> pit_heap (pitCS t) 7 = Some e \<and>
    (\<exists>r. map_of (outRecords (pit_entry t' 7)) 4 = Some r \<and> out_LatestEncNonce r = 77)"
proof -
  let ?e = "new_pit_entry toy_interest None [] 5"
  let ?t = "toy_pending\<lparr>pitCS := NewPitCS\<lparr>pit_heap := [7 \<mapsto> ?e]\<rparr>\<rparr>"
  have c: "carries ?t 0 toy_interest" using toy_pending_carries(1) by (simp add: carries_def)
  have e: "pit_heap (pitCS ?t) 7 = Some ?e" by simp
  from outgoing_interest_spec[OF c toy_pending_carries(2) e, of toy_env 10 4 3] toy_usable(2)
  obtain t' r where "processOutgoingInterest toy_env 10 0 7 4 3 ?t = Inr (True, t')" "map_of (outRecords (pit_entry t' 7)) 4 = Some r"
    "out_LatestEncNonce r = 77" by auto
  with e show ?thesis by blast
qed

text \<open>C11. BestRoute sends an Interest to one nexthop, of least cost among the usable ones, and to none when none is usable.\<close>

theorem bestroute_cheapest_usable:
  assumes "carries t pkt i" "NonceV i = Some nonce"
  shows "(\<forall>nh\<in>set nhs. \<not> usable env i inFace (Nexthop nh)) \<and> AfterReceiveInterest env now BestRoute pkt a inFace nhs t = Inr t \<or>
    (\<exists>nh\<in>set nhs. usable env i inFace (Nexthop nh) \<and> (\<forall>nh'\<in>set nhs. usable env i inFace (Nexthop nh') \<longrightarrow> Cost nh \<le> Cost nh') \<and>
      AfterReceiveInterest env now BestRoute pkt a inFace nhs t = Inr (sent_to env now pkt nonce a (Nexthop nh) inFace t))"
proof -
  have run: "AfterReceiveInterest env now BestRoute pkt a inFace nhs t =
      Inr (case List.find (\<lambda>nh. usable env i inFace (Nexthop nh)) (sort_key Cost nhs) of None \<Rightarrow> t
           | Some nh \<Rightarrow> sent_to env now pkt nonce a (Nexthop nh) inFace t)"
    by (simp add: AfterReceiveInterest_def try_nexthops_eq[OF assms])
  show ?thesis
  proof (cases "List.find (\<lambda>nh. usable env i inFace (Nexthop nh)) (sort_key Cost nhs)")
    case None
    then have "\<forall>nh\<in>set nhs. \<not> usable env i inFace (Nexthop nh)" unfolding find_None_iff by simp
    then show ?thesis using run None by simp
  next
    case (Some nh)
    show ?thesis using find_sort_key[OF Some] run Some by auto
  qed
qed

theorem bestroute_cheapest_usable_witness:
  "AfterReceiveInterest toy_env 10 BestRoute 0 7 3 [\<lparr>Nexthop = 2, Cost = 10\<rparr>, \<lparr>Nexthop = 4, Cost = 5\<rparr>, \<lparr>Nexthop = 3, Cost = 1\<rparr>] toy_pending =
    Inr (sent_to toy_env 10 0 77 7 4 3 toy_pending)"
  using bestroute_cheapest_usable[OF toy_pending_carries, of "[\<lparr>Nexthop = 2, Cost = 10\<rparr>, \<lparr>Nexthop = 4, Cost = 5\<rparr>, \<lparr>Nexthop = 3, Cost = 1\<rparr>]" toy_env 3 10 7]
    toy_usable by auto

text \<open>Multicast sends an Interest to every usable nexthop, in the order of the list, and to no other face.\<close>

theorem multicast_all_usable:
  assumes "carries t pkt i"
  shows "\<exists>t' evs. AfterReceiveInterest env now Multicast pkt a inFace nhs t = Inr t' \<and> sent t' = sent t @ evs \<and>
    map ev_face evs = map (\<lambda>nh. face_FaceID (the (FaceDispatch env (Nexthop nh)))) (filter (\<lambda>nh. usable env i inFace (Nexthop nh)) nhs) \<and>
    (\<forall>ev\<in>set evs. ev_addr ev = pkt)"
proof -
  obtain nonce where nonce: "NonceV i = Some nonce" using assms by (auto simp: carries_def)
  let ?f = "\<lambda>nh t. map_sum id snd (processOutgoingInterest env now pkt a (Nexthop nh) inFace t)"
  have "\<exists>t' evs. rfold ?f nhs t = Inr t' \<and> sent t' = sent t @ evs \<and>
      map ev_face evs = map (\<lambda>nh. face_FaceID (the (FaceDispatch env (Nexthop nh)))) (filter (\<lambda>nh. usable env i inFace (Nexthop nh)) nhs) \<and>
      (\<forall>ev\<in>set evs. ev_addr ev = pkt)" if "carries t pkt i" for t
    using that
  proof (induction nhs arbitrary: t)
    case (Cons nh nhs)
    show ?case
    proof (cases "usable env i inFace (Nexthop nh)")
      case False
      then show ?thesis using Cons.IH[OF Cons.prems] by (simp add: outgoing_interest_eq[OF Cons.prems nonce])
    next
      case True
      let ?t = "sent_to env now pkt nonce a (Nexthop nh) inFace t"
      obtain f where f: "FaceDispatch env (Nexthop nh) = Some f" using True by (auto simp: usable_def split: option.splits)
      obtain p where p: "sent ?t = sent t @ [\<lparr>ev_face = face_FaceID f, ev_addr = pkt, ev_packet = p\<rparr>]" using sent_to_event[OF f] by blast
      obtain t' evs where IH: "rfold ?f nhs ?t = Inr t'" "sent t' = sent ?t @ evs"
        "map ev_face evs = map (\<lambda>nh. face_FaceID (the (FaceDispatch env (Nexthop nh)))) (filter (\<lambda>nh. usable env i inFace (Nexthop nh)) nhs)"
        "\<forall>ev\<in>set evs. ev_addr ev = pkt"
        using Cons.IH[OF sent_to_carries[OF Cons.prems]] by blast
      then show ?thesis
        using True f p
        by (intro exI[of _ t'] exI[of _ "\<lparr>ev_face = face_FaceID f, ev_addr = pkt, ev_packet = p\<rparr> # evs"])
          (simp add: outgoing_interest_eq[OF Cons.prems nonce] id_def)
    qed
  qed simp
  from this[OF assms] show ?thesis by (simp add: AfterReceiveInterest_def)
qed

theorem multicast_all_usable_witness:
  "\<exists>t' evs. AfterReceiveInterest toy_env 10 Multicast 0 7 3 [\<lparr>Nexthop = 2, Cost = 10\<rparr>, \<lparr>Nexthop = 3, Cost = 1\<rparr>, \<lparr>Nexthop = 4, Cost = 5\<rparr>] toy_pending = Inr t' \<and>
    map ev_face evs = [2, 4] \<and> sent t' = sent toy_pending @ evs"
  using multicast_all_usable[OF toy_pending_carries(1), of toy_env 10 7 3 "[\<lparr>Nexthop = 2, Cost = 10\<rparr>, \<lparr>Nexthop = 3, Cost = 1\<rparr>, \<lparr>Nexthop = 4, Cost = 5\<rparr>]"]
    toy_usable by (fastforce simp: toy_face_def)

text \<open>C7. An Interest whose nonce is in the dead nonce list, or is that of another face's in-record of the pending entry it would
  aggregate with, is dropped: nothing is sent, the set of pending entries stays as it is and so do their records.\<close>

theorem duplicate_interest_dropped:
  assumes "pit_ok (env_enc env) (pitCS t)" "processIncomingInterest env now pkt t = Inr t'"
    and "carries t pkt i" "NonceV i = Some nonce" "IncomingFaceID (packet t pkt) = Some fid" "GetFace (FaceDispatch env) fid = Some face"
    and dup: "dnl_Find (env_enc env) (deadNonceList t) (int_NameV i) nonce \<or>
      (\<exists>a f r. live (pitCS t) a \<and> pe_node (pit_entry t a) = pc_key (env_enc env) (int_NameV i) \<and>
         kind (pit_entry t a) = interest_kind i (hint_name (env_enc env) (NetworkRegion env) i) \<and>
         (f, r) \<in> set (inRecords (pit_entry t a)) \<and> f \<noteq> face_FaceID face \<and> in_LatestEncNonce r = nonce)"
  shows "sent t' = sent t \<and> live (pitCS t') = live (pitCS t) \<and> pit_heap (pitCS t') = pit_heap (pitCS t)"
proof -
  let ?E = "env_enc env" and ?hint = "hint_name (env_enc env) (NetworkRegion env) i" and ?i = "dec_hop i"
  have pi: "pkt_Interest (packet t pkt) = Some i" using assms(3) by (auto simp: carries_def packet_def)
  let ?t1 = "upd_packet pkt (\<lambda>p. p\<lparr>pkt_Interest := Some ?i\<rparr>) t"
  let ?t2 = "?t1\<lparr>NInInterests := NInInterests ?t1 + 1\<rparr>"
  have h: "hint_name ?E (NetworkRegion env) ?i = ?hint" by (simp add: hint_name_def)
  have same: "sent u = sent t \<and> live (pitCS u) = live (pitCS t) \<and> pit_heap (pitCS u) = pit_heap (pitCS t)" if "u = t \<or> u = ?t1" for u
    using that by auto
  consider "t' = t \<or> t' = ?t1" | "admit_interest env now pkt ?i (face_FaceID face) (PitToken (packet t pkt)) ?t2 = Inr t'"
    using assms(2,5,6) pi by (auto simp: processIncomingInterest_def Let_def split: if_splits)
  then show ?thesis
  proof cases
    case 1
    then show ?thesis by (rule same)
  next
    case 2
    have go: False if "NonceV ?i = Some n" "\<not> dnl_Find ?E (deadNonceList ?t2) (int_NameV ?i) n"
      "InsertInterest ?E (rand_tape ?t2) (pitCS ?t2) ?i (hint_name ?E (NetworkRegion env) ?i) (face_FaceID face) = Inr (p1, a, False, tape)" for n p1 a tape
    proof -
      have ok: "pit_ok ?E (pitCS ?t2)" using assms(1) by simp
      have "n = nonce" using that(1) assms(4) by simp
      then have "\<not> dnl_Find ?E (deadNonceList t) (int_NameV i) nonce" using that(2) by simp
      with dup obtain b f r where b: "live (pitCS t) b" "pe_node (pit_entry t b) = pc_key ?E (int_NameV i)" "kind (pit_entry t b) = interest_kind i ?hint"
        "(f, r) \<in> set (inRecords (pit_entry t b))" "f \<noteq> face_FaceID face" "in_LatestEncNonce r = nonce" by blast
      have k: "interest_kind ?i ?hint = interest_kind i ?hint" by (simp add: interest_kind_def)
      show False using no_dup_inserted[OF ok that(3,1), of b f r] b k \<open>n = nonce\<close> by (simp add: h)
    qed
    from 2 show ?thesis
    proof (cases rule: admit_interest_cases)
      case dead
      then show ?thesis by simp
    next
      case (loop n p1 a tape)
      have ok: "pit_ok ?E (pitCS ?t2)" using assms(1) by simp
      from ok loop(3) have "live p1 = live (pitCS t) \<and> pit_heap p1 = pit_heap (pitCS t)"
        by (cases rule: InsertInterest_cases) (auto simp: fun_eq_iff)
      then show ?thesis using loop(4) by simp
    next
      case (hit n p1 a tape p3 c s t2)
      then show ?thesis using go[OF hit(1-3)] by blast
    next
      case (forward n p1 a tape p3 strategy t2)
      then show ?thesis using go[OF forward(1-3)] by blast
    qed
  qed
qed

theorem duplicate_interest_dropped_witness:
  "\<exists>t t'. dnl_Find toy_enc (deadNonceList t) (int_NameV toy_interest) 77 \<and> processIncomingInterest toy_env 10 0 t = Inr t' \<and> sent t' = sent t"
proof -
  let ?d = "fst (dnl_Insert toy_enc 6000 0 NewDeadNonceList (int_NameV toy_interest) 77)"
  let ?t = "toy_pending\<lparr>deadNonceList := ?d\<rparr>"
  have pc: "pitCS toy_pending = NewPitCS" by (simp add: toy_pending_def receive_def)
  have f: "dnl_Find toy_enc ?d (int_NameV toy_interest) 77" by (simp add: dnl_Insert_def dnl_Find_def NewDeadNonceList_def Let_def)
  have c: "carries ?t 0 toy_interest" using toy_pending_carries(1) by (simp add: carries_def)
  have p: "packet ?t 0 = toy_interest_packet" by (simp add: packet_def toy_pending_def receive_def)
  have q: "IncomingFaceID toy_interest_packet = Some 3" "pkt_Interest toy_interest_packet = Some toy_interest" by (simp_all add: toy_interest_packet_def)
  have h: "HopLimitV toy_interest = None" "\<not> is_localhost (int_NameV toy_interest)" by (simp_all add: toy_interest_def is_localhost_def LOCALHOST_def)
  have "\<exists>t'. processIncomingInterest toy_env 10 0 ?t = Inr t'"
    using f h by (simp add: processIncomingInterest_def p q GetFace_def admit_interest_def toy_pending_carries(2) Let_def del: toy_enc_simps)
  then obtain t' where "processIncomingInterest toy_env 10 0 ?t = Inr t'" ..
  then show ?thesis
    using duplicate_interest_dropped[of toy_env ?t 10 0 t' toy_interest 77 3 "toy_face 3"] c f p NewPitCS_pit_ok(1)[OF toy_enc_laws]
    by (intro exI[of _ ?t] exI[of _ t']) (simp add: pc toy_pending_carries GetFace_def toy_interest_packet_def)
qed



text \<open>An Interest that makes a new PIT entry and is answered from the Content Store is not forwarded, and its entry is
  left in the PIT without an element in the expiry queue: no later update removes it for its own sake.\<close>

theorem cs_hit_leaves_untimed_entry:
  assumes "good (env_enc env) S t" "int_NameV i \<in> S" "NonceV i = Some nonce" "csServe env" "strategy_for env (int_NameV i) t = Inr (Some s)"
    and "\<not> dnl_Find (env_enc env) (deadNonceList t) (int_NameV i) nonce"
    and ins: "InsertInterest (env_enc env) (rand_tape t) (pitCS t) i (hint_name (env_enc env) (NetworkRegion env) i) inFace = Inr (p1, a, False, tape)"
      "find_entry (env_enc env) (pitCS t) i (hint_name (env_enc env) (NetworkRegion env) i) = None"
    and hit: "FindMatchingDataFromCS (env_enc env) now (pitCS (record_interest now pkt nonce inFace tok a (t\<lparr>pitCS := p1, rand_tape := tape\<rparr>))) i = (p3, Some c)"
  shows "\<exists>t'. admit_interest env now pkt i inFace tok t = Inr t' \<and> live (pitCS t') a \<and>
    (\<forall>y\<in>#contents (pitExpiryQueue (pitCS t')). fst y \<noteq> a) \<and> (\<forall>ev\<in>set (drop (length (sent t)) (sent t')). ev_addr ev = encData (the (cs_heap p3 c)))"
proof -
  let ?E = "env_enc env" and ?t1 = "t\<lparr>pitCS := p1, rand_tape := tape\<rparr>"
  let ?t2 = "record_interest now pkt nonce inFace tok a ?t1"
  let ?t3 = "?t2\<lparr>pitCS := p3\<rparr>" and ?d = "encData (the (cs_heap p3 c))"
  note ok = fw_invD(1)[OF goodD(1)[OF assms(1)]]
  have a: "a = next_addr (pitCS t)" by (rule new_entry_addr[OF ok ins])
  then have fresh: "\<forall>y\<in>#contents (pitExpiryQueue (pitCS t)). fst y \<noteq> a"
    using refs_okD(3)[OF goodD(2)[OF assms(1)]] pit_okD(8)[OF ok, of a] by (metis le_refl)
  have 1: "good ?E S ?t1" using insert_interest_good[OF assms(1) ins(1)] by simp
  have "good ?E S ?t2" unfolding record_interest_def
    by (intro good_upd_pit 1 same_id_records) (simp add: InsertInRecord_def split: option.split)
  note 2 = this
  note inv2 = fw_invD(2,1)[OF goodD(1)[OF 2]]
  note k = FindMatching_keeps[OF inv2 hit assms(2)]
  have 3: "good ?E S ?t3" using find_data_good[OF 2 hit assms(2)] by simp
  have "cs_heap (pitCS ?t2) c \<noteq> None" by (rule hit_allocated[OF inv2 hit assms(2)])
  then obtain ce where ce: "cs_heap p3 c = Some ce" using k(5) by auto
  then have isd: "is_data ?t3 ?d" using refs_okD(2)[OF goodD(2)[OF 3], of c ce] by simp
  then obtain p d where d: "pkt_Data (packet ?t3 ?d) = Some d" by (auto simp: is_data_def packet_def)
  obtain t' where t': "SendData env ?d a inFace 0 ?t3 = Inr t'" using SendData_returns[OF 3 isd] by (rule returnsE) blast
  have "live p1 a" using ok ins(1) by (cases rule: InsertInterest_cases) auto
  then have "live p3 a" using k(3) by (simp add: record_interest_def)
  moreover have "pitExpiryQueue p3 = pitExpiryQueue (pitCS t)"
    using k(7) InsertInterest_rest(2)[OF ok ins(1)] by (simp add: record_interest_def)
  ultimately have pit: "live (pitCS t') a" "\<forall>y\<in>#contents (pitExpiryQueue (pitCS t')). fst y \<noteq> a"
    using SendData_pit[OF t'] fresh by simp_all
  have s3: "sent ?t3 = sent t" by (simp add: record_interest_def)
  have "sent_data env ?d d UNIV ?t3 t'" by (rule SendData_sent[OF t' d]) simp
  then have sent: "\<forall>ev\<in>set (drop (length (sent t)) (sent t')). ev_addr ev = ?d"
    unfolding sent_data_def s3 by auto
  have none: "map_of (inRecords (entry_of p1 a)) inFace = None"
    using ok ins(1)
  proof (cases rule: InsertInterest_cases)
    case old
    then show ?thesis using ins(2) by simp
  next
    case (new token)
    then show ?thesis by (simp add: new_pit_entry_def)
  qed
  have st: "strategy_for env (int_NameV i) ?t1 = Inr (Some s)" using assms(5) by (simp add: strategy_for_def)
  have "admit_interest env now pkt i inFace tok t = Inr t'"
    using assms(3,4,6) ins(1) st none hit t'
    by (simp add: admit_interest_def record_interest_def Let_def AfterContentStoreHit_def InsertInRecord_def)
  with pit sent show ?thesis by blast
qed

theorem cs_hit_leaves_untimed_entry_witness:
  "\<exists>t a t'. admit_interest toy_env 5 1 toy_interest 3 [] t = Inr t' \<and> live (pitCS t') a \<and> (\<forall>y\<in>#contents (pitExpiryQueue (pitCS t')). fst y \<noteq> a)"
proof -
  have ok0: "cs_ok toy_enc toy_S NewPitCS" "pit_ok toy_enc NewPitCS" using NewPitCS_cs_ok[OF toy_S_ok(1)] NewPitCS_pit_ok(1)[OF toy_enc_laws] .
  have "csMap NewPitCS (name_Hash toy_enc (data_NameV toy_data)) = None" by (simp add: NewPitCS_def)
  from InsertData_new[OF ok0 toy_S_ok(2) this, of 8 0 0] obtain q where
    q: "InsertData toy_enc 8 0 NewPitCS 0 toy_data = Inr q" "cs_ok toy_enc toy_S q" "pit_ok toy_enc q" "live q = live NewPitCS" "stored toy_enc q (data_NameV toy_data) \<noteq> None"
    by auto
  obtain b where b: "csMap q (name_Hash toy_enc (int_NameV toy_interest)) = Some b"
    using q(5) by (auto simp: stored_def toy_interest_def toy_data_def split: option.splits)
  let ?t = "toy_thread\<lparr>pitCS := q, packets := [0 \<mapsto> toy_data_packet], rand_tape := [42]\<rparr>"
  have "contents (pitExpiryQueue NewPitCS) = {#}" "pit_heap NewPitCS = Map.empty" "cs_heap NewPitCS = Map.empty"
    using pq.new_inv by (simp_all add: NewPitCS_def)
  note heaps = InsertData_heaps[OF q(1)] this
  have "refs_ok ?t" using heaps by (auto simp: refs_ok_def is_data_def toy_data_packet_def)
  moreover have "names_in toy_S [0 \<mapsto> toy_data_packet]" using toy_S_ok(2) by (simp add: names_in_def toy_data_packet_def)
  ultimately have good: "good (env_enc toy_env) toy_S ?t" using q(2,3) new_dnl_inv by (simp add: good_def fw_inv_def)
  obtain p1 a dup tape where ins: "InsertInterest toy_enc [42] q toy_interest None 3 = Inr (p1, a, dup, tape)"
  proof -
    have "pitTokenMap q w \<noteq> Some c" for w c using pit_okD(6)[OF q(3), of w c] q(4) NewPitCS_pit_ok(2) by auto
    then have "\<exists>w\<in>set [42]. pitTokenMap q w = None" by (cases "pitTokenMap q 42") auto
    then show ?thesis using that InsertInterest_total[of toy_interest "[42]" q toy_enc None 3] toy_pending_carries(2) by (metis option.distinct(1) prod_cases4)
  qed
  have new: "find_entry toy_enc q toy_interest None = None" "dup = False"
    using q(3) ins by (cases rule: InsertInterest_cases; use q(4) NewPitCS_pit_ok(2) in simp)+
  let ?t1 = "?t\<lparr>pitCS := p1, rand_tape := tape\<rparr>" and ?t2 = "record_interest 5 1 77 3 [] a (?t\<lparr>pitCS := p1, rand_tape := tape\<rparr>)"
  have "good toy_enc toy_S ?t1" using insert_interest_good[OF good, of "[42]" toy_interest None 3] ins by simp
  then have "good toy_enc toy_S ?t2" unfolding record_interest_def
    by (intro good_upd_pit same_id_records) (simp_all add: InsertInRecord_def split: option.split)
  then have cs2: "cs_ok toy_enc toy_S (pitCS ?t2)" by (simp add: good_def fw_inv_def)
  obtain p3 r where f: "FindMatchingDataFromCS toy_enc 5 (pitCS ?t2) toy_interest = (p3, r)" by fastforce
  have "r = Some b"
    using FindMatching_exact[OF cs2 f toy_S_ok(3), of b] b InsertInterest_csMap[OF ins]
    by (simp add: record_interest_def cs_usable_def) (simp add: toy_interest_def)
  with f have hit: "FindMatchingDataFromCS (env_enc toy_env) 5 (pitCS ?t2) toy_interest = (p3, Some b)" by simp
  have h: "hint_name toy_enc [] toy_interest = None" by (simp add: hint_name_def toy_interest_def)
  have st: "strategy_for toy_env (int_NameV toy_interest) ?t = Inr (Some BestRoute)"
    by (simp add: strategy_for_def toy_env_def toy_fib_def nil_to_empty_def toy_strats_def)
  have d: "\<not> dnl_Find (env_enc toy_env) (deadNonceList ?t) (int_NameV toy_interest) 77" by (simp add: dnl_Find_def NewDeadNonceList_def)
  show ?thesis
    using cs_hit_leaves_untimed_entry[OF good toy_S_ok(3) toy_pending_carries(2) _ st d, of 3 p1 a tape 5 1 "[]" p3 b] ins new hit h
    by (auto simp: toy_env_def)
qed

text \<open>With at least one thread, the threads chosen for a name and for all prefixes of a name exist in the dispatch table;
  names under \<^verbatim>\<open>/localhost\<close> go to thread 0 and the thread of a name is among those of its prefixes. Asking the
  table for the thread after the last one panics instead of returning nil.\<close>

theorem thread_choice_in_range:
  assumes "0 < length threads" "length threads < 2 ^ 64" "enc_laws E"
  shows "(\<exists>k. HashNameToFwThread E (length threads) n = Inr k \<and> GetFWThread threads (int k) = Inr (Some (threads ! k)) \<and>
      (is_localhost n \<longrightarrow> k = 0) \<and>
      (\<exists>ks. HashNameToAllPrefixFwThreads E (length threads) n = Inr ks \<and> (n \<noteq> [] \<longrightarrow> k \<in> set ks) \<and>
        (\<forall>j\<in>set ks. GetFWThread threads (int j) = Inr (Some (threads ! j))))) \<and>
    GetFWThread threads (int (length threads)) = Inl IndexOutOfRange"
proof -
  let ?N = "length threads"
  have N: "unat (of_nat ?N :: u64) = ?N" using assms(2) by (simp add: unat_of_nat take_bit_nat_eq_self)
  then have lt: "unat (h mod of_nat ?N :: u64) < ?N" for h using assms(1) by (simp add: unat_mod)
  have get: "GetFWThread threads (int k) = Inr (Some (threads ! k))" if "k < ?N" for k using that by (simp add: GetFWThread_def)
  have over: "GetFWThread threads (int ?N) = Inl IndexOutOfRange" by (simp add: GetFWThread_def)
  show ?thesis
  proof (cases "n \<noteq> [] \<and> Val (hd n) = LOCALHOST")
    case True
    then show ?thesis using get[of 0] assms(1) over
      by (intro conjI exI[of _ 0] exI[of _ "[0]"]) (simp_all add: HashNameToFwThread_def HashNameToAllPrefixFwThreads_def)
  next
    case False
    let ?k = "unat (name_Hash E n mod of_nat ?N)" and ?ks = "map (\<lambda>h. unat (h mod of_nat ?N)) (tl (name_PrefixHash E n))"
    have "\<not> is_localhost n" using False by (cases n) (auto simp: is_localhost_def)
    moreover have "?k \<in> set ?ks" if "n \<noteq> []"
    proof -
      have "name_Hash E n \<in> set (tl (name_PrefixHash E n))"
        unfolding enc_lawsD(4)[OF assms(3)] using that by (auto simp: tl_upt image_iff Suc_le_eq simp flip: map_tl simp del: upt_Suc intro!: bexI[of _ "length n"])
      then show ?thesis by (simp add: image_iff) blast
    qed
    moreover have "HashNameToFwThread E ?N n = Inr ?k" "HashNameToAllPrefixFwThreads E ?N n = Inr ?ks"
      unfolding HashNameToFwThread_def HashNameToAllPrefixFwThreads_def if_not_P[OF False] using assms(1) by simp_all
    moreover have "\<forall>j\<in>set ?ks. j < ?N" using lt by auto
    ultimately show ?thesis using get lt over by (intro conjI exI[of _ ?k] exI[of _ ?ks]) blast+
  qed
qed

theorem thread_choice_in_range_witness:
  "\<exists>k. HashNameToFwThread toy_enc (length [10, 20, 30::nat]) [] = Inr k \<and> GetFWThread [10, 20, 30::nat] (int k) = Inr (Some ([10, 20, 30] ! k))"
proof -
  have "0 < length [10, 20, 30::nat]" "length [10, 20, 30::nat] < 2 ^ 64" by simp_all
  from thread_choice_in_range[OF this toy_enc_laws, of "[]"] show ?thesis by blast
qed

end
