(* ===== verification/Tlv_Num.thy ===== *)
theory Tlv_Num
  imports Go_Binary
begin

text \<open>
  The numbers of the TLV encoding (\<^verbatim>\<open>src/ndn/tlv/helpers.go\<close> and the errors of
  \<^verbatim>\<open>src/ndn/util/errors.go\<close>, \<^verbatim>\<open>src/ndn/tlv/errors.go\<close>): variable-length numbers for types and
  lengths, and non-negative integers of one to eight octets for values. A Go function that returns
  a value and an \<^verbatim>\<open>error\<close> returns a sum here, the error on the left. Lengths are below
  \<open>2 ^ 63\<close>, as the length of every Go slice is; where the code computes with \<^verbatim>\<open>uint64\<close> or with a
  64-bit \<^verbatim>\<open>int\<close> that may wrap, the model uses \<open>64 word\<close> and its signed reading.
\<close>

named_theorems tlv_simps \<open>facts on the TLV number and block encodings\<close>

datatype ndn_error =
    ErrDecodeNameComponent | ErrNonExistent | ErrOutOfRange | ErrTooLong | ErrTooShort
  | ErrBufferTooShort | ErrMissingLength | ErrUnexpected | ErrUnrecognizedCritical | ErrText string

definition EncodeVarNum :: "u64 \<Rightarrow> bytes" where
  "EncodeVarNum n =
     (if n \<le> 0xFC then [ucast n]
      else if n \<le> 0xFFFF then 0xFD # PutUint16 (ucast n)
      else if n \<le> 0xFFFFFFFF then 0xFE # PutUint32 (ucast n)
      else 0xFF # PutUint64 n)"

fun DecodeVarNum :: "bytes \<Rightarrow> ndn_error + (u64 \<times> nat)" where
  "DecodeVarNum [] = Inl ErrTooShort"
| "DecodeVarNum (b # bs) =
     (if b \<le> 0xFC then Inr (ucast b, 1)
      else if b = 0xFD then (if length (b # bs) < 3 then Inl ErrTooShort else Inr (ucast (Uint16 (take 2 bs)), 3))
      else if b = 0xFE then (if length (b # bs) < 5 then Inl ErrTooShort else Inr (ucast (Uint32 (take 4 bs)), 5))
      else (if length (b # bs) < 9 then Inl ErrTooShort else Inr (Uint64 (take 8 bs), 9)))"

definition varSize :: "u64 \<Rightarrow> u64" where
  "varSize n = (if n \<le> 0xFC then 1 else if n \<le> 0xFFFF then 3 else if n \<le> 0xFFFFFFFF then 5 else 9)"

definition EncodeNNI :: "u64 \<Rightarrow> bytes" where
  "EncodeNNI v =
     (let val = PutUint64 v
      in if v \<le> 0xFF then drop 7 val
         else if v \<le> 0xFFFF then drop 6 val
         else if v \<le> 0xFFFFFFFF then drop 4 val
         else val)"

text \<open>The buffer of eight zeros with the value copied to its end.\<close>

definition nni_pad :: "bytes \<Rightarrow> bytes" where
  "nni_pad val = replicate (8 - length val) 0 @ val"

definition DecodeNNI :: "bytes \<Rightarrow> ndn_error + u64" where
  "DecodeNNI val =
     (if length val > 8 then Inl ErrTooLong
      else if length val = 0 then Inl ErrTooShort
      else Inr (Uint64 (nni_pad val)))"

definition GetNNIBlockSize :: "u32 \<Rightarrow> u64 \<Rightarrow> nat" where
  "GetNNIBlockSize t v =
     (let typeLen = length (EncodeVarNum (ucast t))
      in if v \<le> 0xFF then typeLen + 1
         else if v \<le> 0xFFFF then typeLen + 2
         else if v \<le> 0xFFFFFFFF then typeLen + 4
         else typeLen + 8)"

text \<open>
  The returned length and total size are Go \<^verbatim>\<open>int\<close>s: the conversion of a length of \<open>2 ^ 63\<close> or more
  is negative, and the sum wraps.
\<close>

definition DecodeTypeLength :: "bytes \<Rightarrow> ndn_error + (u32 \<times> int \<times> int)" where
  "DecodeTypeLength bs =
     (case DecodeVarNum bs of
        Inl e \<Rightarrow> Inl e
      | Inr (tlvType, tlvTypeSize) \<Rightarrow>
          if tlvType > 0xFFFFFFFF then Inl (ErrText ''TLV type out of range'')
          else (case DecodeVarNum (drop tlvTypeSize bs) of
              Inl e \<Rightarrow> Inl e
            | Inr (tlvLength, tlvLengthSize) \<Rightarrow>
                Inr (ucast tlvType, sint tlvLength,
                     sint (of_nat tlvTypeSize + of_nat tlvLengthSize + tlvLength :: u64))))"

section \<open>Variable-length numbers\<close>

text \<open>Casting a number down and back up is the identity when it fits.\<close>

lemma small_bit:
  assumes "unat (v :: 'a::len word) < 2 ^ j" "bit v n"
  shows "n < j"
proof -
  have "bit (take_bit j (unat v)) n"
    using assms by (simp only: take_bit_nat_eq_self) (simp add: bit_unsigned_iff)
  then show ?thesis by (simp add: bit_take_bit_iff)
qed

lemma ucast_down_up: "unat (n :: 'a::len word) < 2 ^ LENGTH('b) \<Longrightarrow> ucast (ucast n :: 'b::len word) = n"
  by (rule bit_word_eqI) (auto simp: bit_simps dest: small_bit)

lemma unat_ucast_down: "unat (n :: 'a::len word) < 2 ^ LENGTH('b) \<Longrightarrow> unat (ucast n :: 'b::len word) = unat n"
  by (simp add: unsigned_ucast_eq take_bit_nat_eq_self)

lemma unat_ucast_up:
  assumes "LENGTH('a) \<le> LENGTH('b)"
  shows "unat (ucast (w :: 'a::len word) :: 'b::len word) = unat w"
proof -
  have "unat w < 2 ^ LENGTH('a)" by (rule unsigned_less)
  also have "\<dots> \<le> 2 ^ LENGTH('b)" using assms by (intro power_increasing) simp_all
  finally show ?thesis by (simp add: unsigned_ucast_eq take_bit_nat_eq_self)
qed

lemma length_EncodeVarNum [tlv_simps]: "length (EncodeVarNum n) = unat (varSize n)"
  by (simp add: EncodeVarNum_def varSize_def)

lemma EncodeVarNum_not_Nil [simp]: "EncodeVarNum n \<noteq> []"
  by (simp add: EncodeVarNum_def)

lemma varSize_bounds: "1 \<le> unat (varSize n)" "unat (varSize n) \<le> 9"
  by (simp_all add: varSize_def)

lemma take_Put [simp]: "take 2 (PutUint16 v @ r) = PutUint16 v" "take 4 (PutUint32 w @ r) = PutUint32 w"
    "take 8 (PutUint64 x @ r) = PutUint64 x"
  by (simp_all add: PutUint16_def PutUint32_def PutUint64_def)

lemma DecodeVarNum_EncodeVarNum [tlv_simps]:
  "DecodeVarNum (EncodeVarNum n @ rest) = Inr (n, length (EncodeVarNum n))"
proof -
  consider "n \<le> 0xFC" | "\<not> n \<le> 0xFC" "n \<le> 0xFFFF" | "\<not> n \<le> 0xFFFF" "n \<le> 0xFFFFFFFF" | "\<not> n \<le> 0xFFFFFFFF"
    by blast
  then show ?thesis
  proof cases
    case 1
    then have l: "unat n \<le> 252" by (simp add: word_le_nat_alt)
    then have "unat (ucast n :: u8) = unat n" "(ucast (ucast n :: u8) :: u64) = n"
      by (auto intro!: unat_ucast_down ucast_down_up)
    then show ?thesis using 1 l by (simp add: EncodeVarNum_def word_le_nat_alt)
  next
    case 2
    then have "(ucast (ucast n :: u16) :: u64) = n" by (intro ucast_down_up) (simp add: word_le_nat_alt)
    then show ?thesis using 2 by (simp add: EncodeVarNum_def)
  next
    case 3
    then have "\<not> n \<le> 0xFC" "(ucast (ucast n :: u32) :: u64) = n"
      by (auto simp: word_le_nat_alt intro!: ucast_down_up)
    then show ?thesis using 3 by (simp add: EncodeVarNum_def)
  next
    case 4
    then have "\<not> n \<le> 0xFC" "\<not> n \<le> 0xFFFF" by (auto simp: word_le_nat_alt)
    then show ?thesis using 4 by (simp add: EncodeVarNum_def)
  qed
qed

text \<open>How many octets the first octet of a number announces.\<close>

definition num_size :: "u8 \<Rightarrow> nat" where
  "num_size b = (if b \<le> 0xFC then 1 else if b = 0xFD then 3 else if b = 0xFE then 5 else 9)"

lemma DecodeVarNum_eq:
  "\<exists>n. DecodeVarNum bs =
     (if bs = [] \<or> length bs < num_size (hd bs) then Inl ErrTooShort else Inr (n, num_size (hd bs)))"
  by (cases bs) (simp_all add: num_size_def)

lemma DecodeVarNum_cases:
  obtains (short) "DecodeVarNum bs = Inl ErrTooShort" "bs = [] \<or> length bs < num_size (hd bs)"
  | (num) n where "DecodeVarNum bs = Inr (n, num_size (hd bs))" "bs \<noteq> []" "num_size (hd bs) \<le> length bs"
  using DecodeVarNum_eq[of bs] by (auto split: if_splits simp: not_less)

lemma DecodeVarNum_size:
  "DecodeVarNum bs = Inr (n, k) \<Longrightarrow> k \<in> {1, 3, 5, 9} \<and> k \<le> length bs"
  by (cases bs) (auto split: if_splits)

lemma DecodeVarNum_error: "DecodeVarNum bs = Inl e \<Longrightarrow> e = ErrTooShort"
  by (cases bs) (auto split: if_splits)

lemma DecodeVarNum_append:
  "DecodeVarNum bs = Inr (n, k) \<Longrightarrow> DecodeVarNum (bs @ r) = Inr (n, k)"
  by (cases bs) (auto split: if_splits simp: not_less)

section \<open>Non-negative integers\<close>

lemma EncodeNNI_length [tlv_simps]:
  "length (EncodeNNI v) = (if v \<le> 0xFF then 1 else if v \<le> 0xFFFF then 2 else if v \<le> 0xFFFFFFFF then 4 else 8)"
  by (simp add: EncodeNNI_def Let_def)

text \<open>The high octets of a small number are zero, so padding undoes the cut.\<close>

lemma drop_bit_small: "unat (v :: 'a::len word) < 2 ^ j \<Longrightarrow> j \<le> k \<Longrightarrow> drop_bit k v = 0"
  by (rule bit_word_eqI) (auto simp: bit_simps dest: small_bit)

lemma replicate_zeros: "replicate 7 x = [x, x, x, x, x, x, x]" "replicate 6 x = [x, x, x, x, x, x]" "replicate 4 x = [x, x, x, x]"
  by (simp_all add: numeral_eq_Suc)

lemma nni_pad_EncodeNNI: "nni_pad (EncodeNNI v) = PutUint64 v"
proof -
  consider "v \<le> 0xFF" | "\<not> v \<le> 0xFF" "v \<le> 0xFFFF" | "\<not> v \<le> 0xFFFF" "v \<le> 0xFFFFFFFF" | "\<not> v \<le> 0xFFFFFFFF"
    by blast
  then show ?thesis
  proof cases
    case 1
    then have "unat v < 2 ^ 8" by (simp add: word_le_nat_alt)
    note drop_bit_small[OF this, simp]
    show ?thesis using 1 by (simp add: EncodeNNI_def nni_pad_def PutUint64_def replicate_zeros)
  next
    case 2
    then have "unat v < 2 ^ 16" by (simp add: word_le_nat_alt)
    note drop_bit_small[OF this, simp]
    show ?thesis using 2 by (simp add: EncodeNNI_def nni_pad_def PutUint64_def replicate_zeros)
  next
    case 3
    then have "unat v < 2 ^ 32" "\<not> v \<le> 0xFF" by (simp_all add: word_le_nat_alt)
    note drop_bit_small[OF this(1), simp]
    show ?thesis using 3 \<open>\<not> v \<le> 0xFF\<close> by (simp add: EncodeNNI_def nni_pad_def PutUint64_def replicate_zeros)
  next
    case 4
    then have "\<not> v \<le> 0xFF" "\<not> v \<le> 0xFFFF" by (auto simp: word_le_nat_alt)
    then show ?thesis using 4 by (simp add: EncodeNNI_def nni_pad_def PutUint64_def replicate_zeros)
  qed
qed

lemma Uint64_nni_pad [tlv_simps]: "Uint64 (nni_pad (EncodeNNI v)) = v"
  by (simp add: nni_pad_EncodeNNI)

lemma DecodeNNI_EncodeNNI [tlv_simps]: "DecodeNNI (EncodeNNI v) = Inr v"
  by (simp add: DecodeNNI_def EncodeNNI_length nni_pad_EncodeNNI del: numeral_le_iff)

lemma DecodeNNI_cases:
  "(\<exists>v. DecodeNNI bs = Inr v) \<longleftrightarrow> 1 \<le> length bs \<and> length bs \<le> 8"
  by (cases bs) (simp_all add: DecodeNNI_def)

section \<open>Properties\<close>

lemma DecodeVarNum_not_shorter:
  assumes "DecodeVarNum bs = Inr (n, k)"
  shows "unat (varSize n) \<le> k"
proof (cases bs)
  case (Cons b r)
  have "(ucast w :: u64) \<le> 0xFFFF" for w :: u16
    using unsigned_less[of w, where ?'a = nat] by (simp add: word_le_nat_alt unat_ucast_up)
  moreover have "(ucast x :: u64) \<le> 0xFFFFFFFF" for x :: u32
    using unsigned_less[of x, where ?'a = nat] by (simp add: word_le_nat_alt unat_ucast_up)
  moreover have "b \<le> 0xFC \<Longrightarrow> (ucast b :: u64) \<le> 0xFC"
    by (simp add: word_le_nat_alt unat_ucast_up)
  ultimately show ?thesis
    using assms varSize_bounds(2)[of n] unfolding Cons
    by (auto simp: varSize_def split: if_splits)
qed (use assms in simp)

text \<open>A number decodes from its encoding, whatever follows it, and the octets used are the announced size; no other byte string that decodes to the number uses fewer octets.\<close>

theorem varnum_roundtrip:
  "DecodeVarNum (EncodeVarNum n @ rest) = Inr (n, length (EncodeVarNum n))
   \<and> length (EncodeVarNum n) = unat (varSize n)
   \<and> (\<forall>bs k. DecodeVarNum bs = Inr (n, k) \<longrightarrow> length (EncodeVarNum n) \<le> k)"
  using DecodeVarNum_not_shorter by (auto simp: tlv_simps)

theorem varnum_roundtrip_witness:
  "DecodeVarNum [0xFD, 0, 1] = Inr (1, 3) \<and> length (EncodeVarNum 1) \<le> 3
   \<and> DecodeVarNum (EncodeVarNum 300 @ [7]) = Inr (300, 3)"
proof -
  have "DecodeVarNum [0xFD, 0, 1] = Inr (1, 3)" by (simp add: Uint16_def)
  moreover have "length (EncodeVarNum 300) = 3" by (simp add: EncodeVarNum_def)
  ultimately show ?thesis
    using varnum_roundtrip[of 1 "[]"] varnum_roundtrip[of 300 "[7]"] by metis
qed

text \<open>Decoding a number fails, always with the same error, exactly when the input is shorter than its first octet announces; it never reads past what it reports as used, which is one, three, five or nine octets.\<close>

theorem DecodeVarNum_errors:
  "(DecodeVarNum bs = Inl e \<longleftrightarrow> e = ErrTooShort \<and> (bs = [] \<or> length bs < num_size (hd bs)))
   \<and> (\<forall>n k. DecodeVarNum bs = Inr (n, k) \<longrightarrow>
        k = num_size (hd bs) \<and> k \<le> length bs \<and> DecodeVarNum (take k bs) = Inr (n, k))"
  by (cases bs) (auto simp: num_size_def take_Cons' split: if_splits)

theorem DecodeVarNum_errors_witness:
  "DecodeVarNum [0xFD, 1, 0] = Inr (256, 3) \<and> DecodeVarNum [0xFD, 1] = Inl ErrTooShort"
proof -
  have "DecodeVarNum [0xFD, 1, 0, 9] = Inr (256, 3)" by (simp add: Uint16_def push_bit_eq_mult)
  then show ?thesis
    using DecodeVarNum_errors[of "[0xFD, 1, 0, 9]"] DecodeVarNum_errors[of "[0xFD, 1]" ErrTooShort]
    by (auto simp: num_size_def)
qed

text \<open>A value decodes from its encoding, which has one, two, four or eight octets; decoding accepts exactly the strings of one to eight octets, and reports the empty and the longer ones with distinct errors.\<close>

theorem nni_roundtrip:
  "DecodeNNI (EncodeNNI v) = Inr v
   \<and> length (EncodeNNI v) \<in> {1, 2, 4, 8}
   \<and> (DecodeNNI bs = Inl e \<longleftrightarrow> (e = ErrTooLong \<and> length bs > 8) \<or> (e = ErrTooShort \<and> bs = []))"
  by (auto simp: tlv_simps DecodeNNI_def)

end
