(* ===== verification/Tlv_Block.thy ===== *)
theory Tlv_Block
  imports Tlv_Num
begin

text \<open>
  TLV blocks (\<^verbatim>\<open>src/ndn/tlv/block.go\<close>): a type, a value, parsed sub-elements and a cached wire
  encoding. A Go block is a heap object with pointers to its sub-elements; the code never shares
  one between two blocks, so a block is a tree here and a method that changes it returns the
  changed tree. Changing a sub-element behind the back of its parent is replacing it in the
  parent's list (\<open>set_sub\<close>). \<^verbatim>\<open>Wire\<close> and \<^verbatim>\<open>Encode\<close> have an error result but no path that returns
  one, so they are total here.

  The lemmas show what the encoding of a block is whatever has been cached before
  (\<open>cached_ok\<close>, kept by every method), that decoding inverts it at both levels, how decoding fails,
  and what the list operations on sub-elements do.
\<close>

datatype Block = Block (b_type: u32) (b_value: bytes) (b_subs: "Block list") (b_wire: bytes)

definition NewEmptyBlock :: "u32 \<Rightarrow> Block" where
  "NewEmptyBlock t = Block t [] [] []"

definition NewBlock :: "u32 \<Rightarrow> bytes \<Rightarrow> Block" where
  "NewBlock t v = Block t v [] []"

definition blk_SetType :: "u32 \<Rightarrow> Block \<Rightarrow> Block" where
  "blk_SetType t b = (if b_type b \<noteq> t then Block t (b_value b) (b_subs b) [] else b)"

definition blk_SetValue :: "bytes \<Rightarrow> Block \<Rightarrow> Block" where
  "blk_SetValue v b = (if b_value b \<noteq> v then Block (b_type b) v (b_subs b) [] else b)"

definition blk_Append :: "Block \<Rightarrow> Block \<Rightarrow> Block" where
  "blk_Append x b = Block (b_type b) (b_value b) (b_subs b @ [x]) []"

definition blk_Clear :: "Block \<Rightarrow> Block" where
  "blk_Clear b = (if b_subs b \<noteq> [] then Block (b_type b) (b_value b) [] [] else b)"

fun blk_DeepCopy :: "Block \<Rightarrow> Block" where
  "blk_DeepCopy (Block t v subs w) = Block t v (map blk_DeepCopy subs) w"

text \<open>The wire encoding, and the block with the caches it leaves behind.\<close>

fun blk_Wire :: "Block \<Rightarrow> bytes \<times> Block" where
  "blk_Wire (Block t v subs w) =
     (if w \<noteq> [] then (w, Block t v subs w)
      else
        let elems = map blk_Wire subs;
            l = (if subs \<noteq> [] then sum_list (map (\<lambda>r. of_nat (length (fst r))) elems) else of_nat (length v)) :: u64;
            w' = EncodeVarNum (ucast t) @ EncodeVarNum l @
                 (if subs \<noteq> [] then concat (map (\<lambda>r. b_wire (snd r)) elems) else v)
        in (w', Block t v (map snd elems) w'))"

definition blk_Encode :: "Block \<Rightarrow> Block" where
  "blk_Encode b =
     (if b_subs b = [] then b
      else Block (b_type b) (concat (map (\<lambda>e. fst (blk_Wire e)) (b_subs b))) [] (b_wire b))"

definition blk_Erase :: "u32 \<Rightarrow> Block \<Rightarrow> bool \<times> Block" where
  "blk_Erase t b =
     (case find_index (\<lambda>e. b_type e = t) (b_subs b) of
        Some i \<Rightarrow> (True, Block (b_type b) (b_value b) (del_at i (b_subs b)) [])
      | None \<Rightarrow> (False, b))"

lemma Erase_shrinks: "blk_Erase t b = (True, b') \<Longrightarrow> length (b_subs b') < length (b_subs b)"
  by (auto simp: blk_Erase_def slice_simps split: option.splits dest!: find_index_SomeD)

function blk_EraseAll :: "u32 \<Rightarrow> Block \<Rightarrow> nat \<times> Block" where
  "blk_EraseAll t b =
     (case blk_Erase t b of
        (True, b') \<Rightarrow> (let (n, b'') = blk_EraseAll t b' in (Suc n, b''))
      | (False, b') \<Rightarrow> (0, b'))"
  by pat_completeness auto
termination
  by (relation "measure (\<lambda>(t, b). length (b_subs b))") (auto dest: Erase_shrinks[OF sym])

declare blk_EraseAll.simps [simp del]

definition blk_Find :: "u32 \<Rightarrow> Block \<Rightarrow> Block option" where
  "blk_Find t b = find (\<lambda>e. b_type e = t) (b_subs b)"

definition blk_Insert :: "Block \<Rightarrow> Block \<Rightarrow> Block" where
  "blk_Insert x b =
     (let subs = b_subs b;
          subs' =
            (if subs = [] then [x]
             else if b_type (hd subs) > b_type x then x # subs
             else if b_type (last subs) \<le> b_type x then subs @ [x]
             else
               let precedingElem = (case find_index (\<lambda>e. b_type e > b_type x) subs of Some i \<Rightarrow> i - 1 | None \<Rightarrow> 0)
               in take (precedingElem + 1) subs @ (x # drop (precedingElem + 1) subs))
      in Block (b_type b) (b_value b) subs' [])"

definition set_sub :: "nat \<Rightarrow> Block \<Rightarrow> Block \<Rightarrow> Block" where
  "set_sub i x b = Block (b_type b) (b_value b) ((b_subs b)[i := x]) (b_wire b)"

definition HasWire :: "Block \<Rightarrow> bool" where
  "HasWire b \<longleftrightarrow> length (b_wire b) > 0"

definition blk_Size :: "Block \<Rightarrow> nat" where
  "blk_Size b = length (b_wire b)"

definition blk_Reset :: "Block \<Rightarrow> Block" where
  "blk_Reset b = Block (b_type b) [] [] []"

text \<open>
  Decoding. The total size is computed in \<^verbatim>\<open>uint64\<close> and may wrap; the value is the slice between
  the end of the header and that total, and Go panics when the first bound is the larger one.
\<close>

definition DecodeBlock :: "bytes \<Rightarrow> (ndn_error + (Block \<times> u64)) result" where
  "DecodeBlock wire =
     (case DecodeVarNum wire of
        Inl e \<Rightarrow> Inr (Inl e)
      | Inr (tlvType, tlvTypeLen) \<Rightarrow>
          if tlvType > 0xFFFFFFFF then Inr (Inl ErrOutOfRange)
          else if tlvTypeLen = length wire then Inr (Inl ErrMissingLength)
          else (case DecodeVarNum (drop tlvTypeLen wire) of
              Inl e \<Rightarrow> Inr (Inl e)
            | Inr (tlvLength, tlvLengthLen) \<Rightarrow>
                let total = of_nat tlvTypeLen + of_nat tlvLengthLen + tlvLength
                in if of_nat (length wire) < total then Inr (Inl ErrBufferTooShort)
                   else if unat total < tlvTypeLen + tlvLengthLen then Inl IndexOutOfRange
                   else Inr (Inr (Block (ucast tlvType)
                                    (take (unat total - (tlvTypeLen + tlvLengthLen)) (drop (tlvTypeLen + tlvLengthLen) wire))
                                    [] (take (unat total) wire), total))))"

definition EncodeNNIBlock :: "u32 \<Rightarrow> u64 \<Rightarrow> Block" where
  "EncodeNNIBlock t v =
     (let val = PutUint64 v; b = blk_SetType t (Block 0 [] [] [])
      in if v \<le> 0xFF then blk_SetValue (drop 7 val) b
         else if v \<le> 0xFFFF then blk_SetValue (drop 6 val) b
         else if v \<le> 0xFFFFFFFF then blk_SetValue (drop 4 val) b
         else blk_SetValue val b)"

definition DecodeNNIBlock :: "Block option \<Rightarrow> ndn_error + u64" where
  "DecodeNNIBlock wire =
     (case wire of
        None \<Rightarrow> Inl ErrNonExistent
      | Some b \<Rightarrow>
          if length (b_value b) < 1 then Inl ErrBufferTooShort
          else if length (b_value b) > 8 then Inl ErrTooLong
          else Inr (Uint64 (nni_pad (b_value b))))"

section \<open>Decoding one block\<close>

lemma DecodeBlock_header:
  assumes "DecodeVarNum wire = Inr (t, tn)" "t \<le> 0xFFFFFFFF" "tn \<noteq> length wire" "DecodeVarNum (drop tn wire) = Inr (l, ln)"
    "sz = of_nat tn + of_nat ln + l"
  shows "DecodeBlock wire =
    (if of_nat (length wire) < sz then Inr (Inl ErrBufferTooShort)
     else if unat sz < tn + ln then Inl IndexOutOfRange
     else Inr (Inr (Block (ucast t) (take (unat sz - (tn + ln)) (drop (tn + ln) wire)) [] (take (unat sz) wire), sz)))"
proof -
  have "\<not> 0xFFFFFFFF < t" using assms(2) by simp
  then show ?thesis using assms(3) by (simp add: DecodeBlock_def Let_def assms(1,4,5))
qed

lemma DecodeBlock_OkE:
  assumes "DecodeBlock wire = Inr (Inr (b, n))"
  obtains t tn l ln where
    "DecodeVarNum wire = Inr (t, tn)" "t \<le> 0xFFFFFFFF" "tn < length wire" "DecodeVarNum (drop tn wire) = Inr (l, ln)"
    "n = of_nat tn + of_nat ln + l" "n \<le> of_nat (length wire)" "tn + ln \<le> unat n"
    "b = Block (ucast t) (take (unat n - (tn + ln)) (drop (tn + ln) wire)) [] (take (unat n) wire)"
  using assms DecodeVarNum_size[of wire]
  by (force simp: DecodeBlock_def Let_def not_less split: sum.splits if_splits)

lemma DecodeBlock_consumes:
  assumes "DecodeBlock wire = Inr (Inr (b, n))"
  shows "2 \<le> unat n" "b_wire b = take (unat n) wire" "b_subs b = []"
proof -
  from assms obtain t tn l ln where
    d: "DecodeVarNum wire = Inr (t, tn)" "DecodeVarNum (drop tn wire) = Inr (l, ln)" "tn + ln \<le> unat n"
    and b: "b = Block (ucast t) (take (unat n - (tn + ln)) (drop (tn + ln) wire)) [] (take (unat n) wire)"
    by (rule DecodeBlock_OkE)
  have "1 \<le> tn" "1 \<le> ln" using DecodeVarNum_size[OF d(1)] DecodeVarNum_size[OF d(2)] by auto
  then show "2 \<le> unat n" using d(3) by linarith
  show "b_wire b = take (unat n) wire" "b_subs b = []" by (simp_all add: b)
qed

text \<open>The loop of \<^verbatim>\<open>Parse\<close>: blocks until the value is used up or one does not decode.\<close>

function parse_loop :: "bytes \<Rightarrow> (Block list \<times> ndn_error option) result" where
  "parse_loop bs =
     (if bs = [] then Inr ([], None)
      else (case DecodeBlock bs of
          Inl p \<Rightarrow> Inl p
        | Inr (Inl e) \<Rightarrow> Inr ([], Some e)
        | Inr (Inr (b, n)) \<Rightarrow> rbind (parse_loop (drop (unat n) bs)) (\<lambda>(rest, e). Inr (b # rest, e))))"
  by pat_completeness auto
termination
proof (relation "measure length", goal_cases)
  case (2 bs ok bn b n)
  then have "2 \<le> unat n" using DecodeBlock_consumes(1) by metis
  moreover have "bs \<noteq> []" by (rule 2)
  ultimately show ?case by (cases bs) auto
qed simp

declare parse_loop.simps [simp del]

definition blk_Parse :: "Block \<Rightarrow> (Block \<times> ndn_error option) result" where
  "blk_Parse b = rbind (parse_loop (b_value b)) (\<lambda>(subs, e). Inr (Block (b_type b) (b_value b) subs (b_wire b), e))"

section \<open>What a block encodes to\<close>

text \<open>
  The encoding without caches, and the condition that every cache holds it. \<open>payload\<close> is the value
  of the encoding: the concatenated sub-elements, or the stored value when there are none.
\<close>

definition tlv_bytes :: "u32 \<Rightarrow> bytes \<Rightarrow> bytes" where
  "tlv_bytes t v = EncodeVarNum (ucast t) @ EncodeVarNum (of_nat (length v)) @ v"

fun canon :: "Block \<Rightarrow> bytes" where
  "canon (Block t v subs w) = tlv_bytes t (if subs \<noteq> [] then concat (map canon subs) else v)"

definition payload :: "Block \<Rightarrow> bytes" where
  "payload b = (if b_subs b \<noteq> [] then concat (map canon (b_subs b)) else b_value b)"

lemma canon_eq: "canon b = tlv_bytes (b_type b) (payload b)"
  by (cases b) (simp add: payload_def)

fun cached_ok :: "Block \<Rightarrow> bool" where
  "cached_ok (Block t v subs w) \<longleftrightarrow> (w = [] \<or> w = canon (Block t v subs w)) \<and> list_all cached_ok subs"

lemma cached_ok_eq: "cached_ok b \<longleftrightarrow> (b_wire b = [] \<or> b_wire b = canon b) \<and> list_all cached_ok (b_subs b)"
  by (cases b) (auto simp: canon_eq payload_def)

lemma cached_ok_sub: "cached_ok b \<Longrightarrow> x \<in> set (b_subs b) \<Longrightarrow> cached_ok x"
  by (cases b) (simp add: list_all_iff)

lemma cached_ok_wire: "cached_ok b \<Longrightarrow> b_wire b = [] \<or> b_wire b = canon b"
  by (cases b) simp

lemma cached_ok_fresh [simp]: "cached_ok (Block t v subs []) \<longleftrightarrow> (\<forall>x\<in>set subs. cached_ok x)"
  by (simp add: list_all_iff)

declare cached_ok.simps [simp del]

lemma tlv_bytes_not_Nil [simp]: "tlv_bytes t v \<noteq> []"
  by (simp add: tlv_bytes_def)

lemma canon_not_Nil [simp]: "canon b \<noteq> []"
  by (simp add: canon_eq)

lemma sum_lengths: "(\<Sum>x\<leftarrow>xs. of_nat (length (f x))) = (of_nat (length (concat (map f xs))) :: 'a::semiring_1)"
  by (induction xs) simp_all

lemma blk_Wire_spec:
  "cached_ok b \<Longrightarrow> fst (blk_Wire b) = canon b \<and> b_wire (snd (blk_Wire b)) = canon b
     \<and> canon (snd (blk_Wire b)) = canon b \<and> cached_ok (snd (blk_Wire b))
     \<and> b_type (snd (blk_Wire b)) = b_type b \<and> b_value (snd (blk_Wire b)) = b_value b
     \<and> length (b_subs (snd (blk_Wire b))) = length (b_subs b)"
proof (induction b rule: blk_Wire.induct)
  case (1 t v subs w)
  show ?case
  proof (cases "w = []")
    case True
    have sub: "fst (blk_Wire e) = canon e" "b_wire (snd (blk_Wire e)) = canon e" "canon (snd (blk_Wire e)) = canon e"
      "cached_ok (snd (blk_Wire e))" if "e \<in> set subs" for e
      using 1(1)[of e] 1(2) that True by (auto simp: list_all_iff)
    have eqs: "map (\<lambda>e. of_nat (length (fst (blk_Wire e)))) subs = (map (\<lambda>e. of_nat (length (canon e))) subs :: u64 list)"
      "map (\<lambda>e. b_wire (snd (blk_Wire e))) subs = map canon subs"
      "map (\<lambda>e. canon (snd (blk_Wire e))) subs = map canon subs"
      "list_all (\<lambda>e. cached_ok (snd (blk_Wire e))) subs"
      using sub by (auto simp: list_all_iff)
    show ?thesis
      using True by (simp add: Let_def comp_def eqs sum_lengths tlv_bytes_def list.pred_map cached_ok.simps)
  next
    case False
    then show ?thesis using 1(2) cached_ok_wire[OF 1(2)] by simp
  qed
qed

lemma canon_wire: "canon (Block t v subs w) = canon (Block t v subs w')"
  by simp

text \<open>Every method keeps the caches right.\<close>

datatype blk_op =
    SetTypeOp u32 | SetValueOp bytes | AppendOp Block | ClearOp | WireOp | EncodeOp | EraseOp u32 | EraseAllOp u32
  | InsertOp Block | ResetOp

fun blk_step :: "blk_op \<Rightarrow> Block \<Rightarrow> Block" where
  "blk_step (SetTypeOp t) b = blk_SetType t b"
| "blk_step (SetValueOp v) b = blk_SetValue v b"
| "blk_step (AppendOp x) b = blk_Append x b"
| "blk_step ClearOp b = blk_Clear b"
| "blk_step WireOp b = snd (blk_Wire b)"
| "blk_step EncodeOp b = blk_Encode b"
| "blk_step (EraseOp t) b = snd (blk_Erase t b)"
| "blk_step (EraseAllOp t) b = snd (blk_EraseAll t b)"
| "blk_step (InsertOp x) b = blk_Insert x b"
| "blk_step ResetOp b = blk_Reset b"

definition op_ok :: "blk_op \<Rightarrow> bool" where
  "op_ok ev = (case ev of AppendOp x \<Rightarrow> cached_ok x | InsertOp x \<Rightarrow> cached_ok x | _ \<Rightarrow> True)"

lemma Erase_cached: "cached_ok b \<Longrightarrow> cached_ok (snd (blk_Erase t b))"
  using set_del_at_subset[of _ "b_subs b"] cached_ok_sub[of b] by (auto simp: blk_Erase_def split: option.splits)

lemma EraseAll_cached: "cached_ok b \<Longrightarrow> cached_ok (snd (blk_EraseAll t b))"
proof (induction t b rule: blk_EraseAll.induct)
  case (1 t b)
  then show ?case
    using Erase_cached[of b t] by (subst blk_EraseAll.simps) (auto split: prod.splits bool.splits)
qed

lemma Encode_canon:
  assumes "cached_ok b"
  shows "canon (blk_Encode b) = canon b" "cached_ok (blk_Encode b)"
proof -
  have "map (\<lambda>e. fst (blk_Wire e)) (b_subs b) = map canon (b_subs b)"
    using assms blk_Wire_spec cached_ok_sub by auto
  then show "canon (blk_Encode b) = canon b"
    by (cases b) (simp add: blk_Encode_def cong: map_cong)
  then show "cached_ok (blk_Encode b)"
    using assms cached_ok_wire[of b] by (cases "b_subs b = []") (auto simp: blk_Encode_def cached_ok.simps)
qed

lemma blk_Insert_cached: "cached_ok b \<Longrightarrow> cached_ok x \<Longrightarrow> cached_ok (blk_Insert x b)"
  using cached_ok_sub[of b] by (auto simp: blk_Insert_def Let_def dest: in_set_takeD in_set_dropD)

lemma blk_step_cached: "cached_ok b \<Longrightarrow> op_ok ev \<Longrightarrow> cached_ok (blk_step ev b)"
  using cached_ok_sub[of b]
  by (cases ev)
     (auto simp: op_ok_def Erase_cached EraseAll_cached Encode_canon blk_Insert_cached blk_Wire_spec
        blk_SetType_def blk_SetValue_def blk_Append_def blk_Clear_def blk_Reset_def)

section \<open>Round trips\<close>

text \<open>The block that decoding yields: the same type, the payload as value, the encoding as wire.\<close>

definition flat :: "Block \<Rightarrow> Block" where
  "flat b = Block (b_type b) (payload b) [] (canon b)"

lemma length_canon: "length (canon b) = length (EncodeVarNum (ucast (b_type b))) + length (EncodeVarNum (of_nat (length (payload b)))) + length (payload b)"
  by (simp add: canon_eq tlv_bytes_def)

lemma unat_of_nat_small: "n < 2 ^ 63 \<Longrightarrow> unat (of_nat n :: u64) = n"
  by (simp add: unat_of_nat take_bit_nat_eq_self)

lemma ucast_type: "(ucast (ucast (t :: u32) :: u64) :: u32) = t" "(ucast t :: u64) \<le> 0xFFFFFFFF"
proof -
  show "(ucast (ucast t :: u64) :: u32) = t"
    by (rule bit_word_eqI) (auto simp: bit_simps dest: bit_imp_le_length)
  show "(ucast t :: u64) \<le> 0xFFFFFFFF"
    using unsigned_less[of t, where ?'a = nat] by (simp add: word_le_nat_alt unat_ucast_up)
qed

lemma DecodeBlock_tlv_bytes:
  assumes "length (tlv_bytes t v @ rest) < 2 ^ 63"
  shows "DecodeBlock (tlv_bytes t v @ rest) = Inr (Inr (Block t v [] (tlv_bytes t v), of_nat (length (tlv_bytes t v))))"
proof -
  let ?T = "EncodeVarNum (ucast t)" and ?n = "of_nat (length v) :: u64"
  let ?L = "EncodeVarNum ?n" and ?w = "tlv_bytes t v @ rest"
  have "length v < 2 ^ 63" using assms by (simp add: tlv_bytes_def)
  have T: "DecodeVarNum ?w = Inr (ucast t, length ?T)" and L: "DecodeVarNum (drop (length ?T) ?w) = Inr (?n, length ?L)"
    by (simp_all add: tlv_bytes_def DecodeVarNum_EncodeVarNum)
  have total: "of_nat (length ?T) + of_nat (length ?L) + ?n = of_nat (length (tlv_bytes t v))"
    by (simp add: tlv_bytes_def)
  have un: "unat (of_nat (length (tlv_bytes t v)) :: u64) = length (tlv_bytes t v)" "unat (of_nat (length ?w) :: u64) = length ?w"
    using assms by (simp_all only: unat_of_nat_small length_append)
  have "\<not> (of_nat (length ?w) :: u64) < of_nat (length (tlv_bytes t v))"
    by (simp only: word_less_nat_alt un) simp
  moreover have "length ?T \<noteq> length ?w" "\<not> length (tlv_bytes t v) < length ?T + length ?L"
    "take (length (tlv_bytes t v) - (length ?T + length ?L)) (drop (length ?T + length ?L) ?w) = v"
    "take (length (tlv_bytes t v)) ?w = tlv_bytes t v"
    by (simp_all add: tlv_bytes_def)
  ultimately show ?thesis
    by (simp only: DecodeBlock_header[OF T ucast_type(2) _ L total[symmetric]] un ucast_type(1) if_False not_False_eq_True)
qed

lemma DecodeBlock_canon:
  "length (canon b @ rest) < 2 ^ 63 \<Longrightarrow> DecodeBlock (canon b @ rest) = Inr (Inr (flat b, of_nat (length (canon b))))"
  by (simp only: canon_eq DecodeBlock_tlv_bytes flat_def)

lemma parse_loop_canon:
  "length (concat (map canon xs)) < 2 ^ 63 \<Longrightarrow> parse_loop (concat (map canon xs)) = Inr (map flat xs, None)"
proof (induction xs)
  case (Cons x xs)
  then have l: "length (canon x @ concat (map canon xs)) < 2 ^ 63" and xs: "parse_loop (concat (map canon xs)) = Inr (map flat xs, None)"
    by simp_all
  from l have "unat (of_nat (length (canon x)) :: u64) = length (canon x)" by (intro unat_of_nat_small) simp
  then show ?case
    by (subst parse_loop.simps) (simp add: DecodeBlock_canon[OF l] xs)
qed (simp add: parse_loop.simps)

section \<open>How decoding ends\<close>

text \<open>The header of a block: type, length, and the octets they take.\<close>

definition header :: "bytes \<Rightarrow> ndn_error + (u64 \<times> nat \<times> u64)" where
  "header wire =
     (case DecodeVarNum wire of
        Inl e \<Rightarrow> Inl e
      | Inr (t, tn) \<Rightarrow>
          if t > 0xFFFFFFFF then Inl ErrOutOfRange
          else if tn = length wire then Inl ErrMissingLength
          else (case DecodeVarNum (drop tn wire) of Inl e \<Rightarrow> Inl e | Inr (l, ln) \<Rightarrow> Inr (t, tn + ln, l)))"

lemma header_size: "header wire = Inr (t, h, l) \<Longrightarrow> h \<le> length wire \<and> h \<le> 18"
  by (auto simp: header_def split: sum.splits if_splits dest!: DecodeVarNum_size)

lemma DecodeBlock_by_header:
  assumes "length wire < 2 ^ 63"
  shows "DecodeBlock wire =
    (case header wire of
       Inl e \<Rightarrow> Inr (Inl e)
     | Inr (t, h, l) \<Rightarrow>
         if h + unat l \<ge> 2 ^ 64 then Inl IndexOutOfRange
         else if length wire < h + unat l then Inr (Inl ErrBufferTooShort)
         else Inr (Inr (Block (ucast t) (take (unat l) (drop h wire)) [] (take (h + unat l) wire), of_nat (h + unat l))))"
proof (cases "header wire")
  case (Inl e)
  then show ?thesis
    by (auto simp: header_def DecodeBlock_def split: sum.splits if_splits)
next
  case (Inr r)
  then obtain t tn l ln where d: "DecodeVarNum wire = Inr (t, tn)" "t \<le> 0xFFFFFFFF" "tn \<noteq> length wire"
      "DecodeVarNum (drop tn wire) = Inr (l, ln)" and r: "header wire = Inr (t, tn + ln, l)"
    by (auto simp: header_def not_less split: sum.splits if_splits)
  let ?h = "tn + ln" and ?sz = "of_nat tn + of_nat ln + l :: u64"
  have h: "?h \<le> length wire" "?h \<le> 18" using header_size[OF r] by simp_all
  have len: "unat (of_nat (length wire) :: u64) = length wire" using assms by (rule unat_of_nat_small)
  have sz: "?sz = of_nat (?h + unat l)" by simp
  show ?thesis
  proof (cases "?h + unat l \<ge> 2 ^ 64")
    case True
    then have "unat ?sz = ?h + unat l - 2 ^ 64"
      unfolding sz using h(2) unsigned_less[of l, where ?'a = nat]
      by (simp only: unat_of_nat take_bit_eq_mod) (simp add: mod_if)
    then have "unat ?sz < ?h" using unsigned_less[of l, where ?'a = nat] True by simp
    then have "\<not> of_nat (length wire) < ?sz" "unat ?sz < ?h" using h(1) by (simp_all add: word_less_nat_alt len)
    then show ?thesis using True by (simp add: DecodeBlock_header[OF d refl] r)
  next
    case False
    then have "unat ?sz = ?h + unat l" unfolding sz by (simp only: unat_of_nat) (simp add: take_bit_nat_eq_self)
    then have "of_nat (length wire) < ?sz \<longleftrightarrow> length wire < ?h + unat l" "\<not> unat ?sz < ?h" "unat ?sz = ?h + unat l"
      by (simp_all add: word_less_nat_alt len)
    then show ?thesis using False by (simp only: DecodeBlock_header[OF d refl] r sum.case prod.case if_False sz) simp
  qed
qed

lemma parse_loop_splits:
  "parse_loop bs = Inr (xs, e) \<Longrightarrow>
     \<exists>rest. bs = concat (map b_wire xs) @ rest \<and> (case e of None \<Rightarrow> rest = [] | Some err \<Rightarrow> DecodeBlock rest = Inr (Inl err))"
proof (induction bs arbitrary: xs rule: parse_loop.induct)
  case (1 bs)
  consider (nil) "bs = []" | (err) e' where "bs \<noteq> []" "DecodeBlock bs = Inr (Inl e')"
    | (ok) b n where "bs \<noteq> []" "DecodeBlock bs = Inr (Inr (b, n))"
    using 1(2) by (subst (asm) parse_loop.simps) (auto split: sum.splits if_splits)
  then show ?case
  proof cases
    case nil
    then show ?thesis using 1(2) by (simp add: parse_loop.simps)
  next
    case err
    then show ?thesis using 1(2) by (subst (asm) parse_loop.simps) auto
  next
    case ok
    then obtain ys where ys: "parse_loop (drop (unat n) bs) = Inr (ys, e)" "xs = b # ys"
      using 1(2) by (subst (asm) parse_loop.simps) (auto simp: rbind_Inr)
    from 1(1)[OF ok(1) ok(2) refl refl ys(1)] obtain rest where
      "drop (unat n) bs = concat (map b_wire ys) @ rest" and rest: "case e of None \<Rightarrow> rest = [] | Some err \<Rightarrow> DecodeBlock rest = Inr (Inl err)"
      by blast
    then have "bs = b_wire b @ concat (map b_wire ys) @ rest"
      using DecodeBlock_consumes(2)[OF ok(2)] by (metis append_take_drop_id)
    then show ?thesis using ys(2) rest by auto
  qed
qed

section \<open>Lists of sub-elements\<close>

lemma find_index_gt_sorted:
  assumes "sorted (map f xs)" "find_index (\<lambda>e. f e > k) xs = Some i"
  shows "take i xs = filter (\<lambda>e. f e \<le> k) xs" "drop i xs = filter (\<lambda>e. f e > (k :: 'b::linorder)) xs"
proof -
  have i: "i < length xs" "k < f (xs ! i)" "\<forall>j<i. f (xs ! j) \<le> k"
    using find_index_SomeD[OF assms(2)] by auto
  have lo: "\<forall>x\<in>set (take i xs). f x \<le> k" using i by (auto simp: in_set_conv_nth)
  have hi: "\<forall>x\<in>set (drop i xs). k < f x"
  proof
    fix x assume "x \<in> set (drop i xs)"
    then obtain j where "j < length xs - i" "x = xs ! (i + j)" using i by (auto simp: in_set_conv_nth)
    then have "f (xs ! i) \<le> f x" using sorted_nth_mono[OF assms(1), of i "i + j"] i(1) by simp
    then show "k < f x" using i(2) by order
  qed
  have "filter (\<lambda>e. f e \<le> k) xs = filter (\<lambda>e. f e \<le> k) (take i xs) @ filter (\<lambda>e. f e \<le> k) (drop i xs)"
    by (metis append_take_drop_id filter_append)
  then show "take i xs = filter (\<lambda>e. f e \<le> k) xs" using lo hi by (simp add: filter_empty_conv not_le)
  have "filter (\<lambda>e. f e > k) xs = filter (\<lambda>e. f e > k) (take i xs) @ filter (\<lambda>e. f e > k) (drop i xs)"
    by (metis append_take_drop_id filter_append)
  then show "drop i xs = filter (\<lambda>e. f e > k) xs" using lo hi by (simp add: filter_empty_conv not_less)
qed

lemma filter_del_at:
  assumes "i < length xs"
  shows "P (xs ! i) \<Longrightarrow> length (filter P xs) = Suc (length (filter P (del_at i xs)))"
    "\<not> P (xs ! i) \<Longrightarrow> filter P (del_at i xs) = filter P xs"
proof -
  have "xs = take i xs @ xs ! i # drop (Suc i) xs" using assms by (rule id_take_nth_drop)
  then have "filter P xs = filter P (take i xs) @ filter P (xs ! i # drop (Suc i) xs)" by (metis filter_append)
  then show "P (xs ! i) \<Longrightarrow> length (filter P xs) = Suc (length (filter P (del_at i xs)))"
    "\<not> P (xs ! i) \<Longrightarrow> filter P (del_at i xs) = filter P xs"
    by (simp_all add: del_at_def)
qed

lemma blk_EraseAll_filter:
  "fst (blk_EraseAll t b) = length (filter (\<lambda>e. b_type e = t) (b_subs b))
   \<and> b_subs (snd (blk_EraseAll t b)) = filter (\<lambda>e. b_type e \<noteq> t) (b_subs b)
   \<and> b_wire (snd (blk_EraseAll t b)) = (if \<exists>e\<in>set (b_subs b). b_type e = t then [] else b_wire b)"
proof (induction t b rule: blk_EraseAll.induct)
  case (1 t b)
  show ?case
  proof (cases "find_index (\<lambda>e. b_type e = t) (b_subs b)")
    case None
    then have "\<forall>e\<in>set (b_subs b). b_type e \<noteq> t" by (simp add: slice_simps)
    then show ?thesis using None by (subst (1 2 3) blk_EraseAll.simps) (simp add: blk_Erase_def filter_empty_conv)
  next
    case (Some i)
    let ?b' = "Block (b_type b) (b_value b) (del_at i (b_subs b)) []"
    have i: "i < length (b_subs b)" "b_type (b_subs b ! i) = t" using find_index_SomeD[OF Some] by auto
    have e: "blk_Erase t b = (True, ?b')" using Some by (simp add: blk_Erase_def)
    have all: "blk_EraseAll t b = (Suc (fst (blk_EraseAll t ?b')), snd (blk_EraseAll t ?b'))"
      by (subst blk_EraseAll.simps) (simp add: e case_prod_unfold Let_def)
    have "\<exists>e\<in>set (b_subs b). b_type e = t" using i nth_mem by blast
    then show ?thesis
      using 1[OF e[symmetric]] filter_del_at[OF i(1), of "\<lambda>e. b_type e = t"] filter_del_at[OF i(1), of "\<lambda>e. b_type e \<noteq> t"] i(2)
      by (simp add: all)
  qed
qed

lemma blk_Insert_sorted:
  assumes "sorted (map b_type (b_subs b))"
  shows "b_subs (blk_Insert x b) = filter (\<lambda>e. b_type e \<le> b_type x) (b_subs b) @ x # filter (\<lambda>e. b_type e > b_type x) (b_subs b)"
proof -
  let ?s = "b_subs b"
  consider (nil) "?s = []" | (front) "?s \<noteq> []" "b_type (hd ?s) > b_type x"
    | (rear) "?s \<noteq> []" "\<not> b_type (hd ?s) > b_type x" "b_type (last ?s) \<le> b_type x"
    | (mid) "?s \<noteq> []" "\<not> b_type (hd ?s) > b_type x" "\<not> b_type (last ?s) \<le> b_type x" by blast
  then show ?thesis
  proof cases
    case nil
    then show ?thesis by (simp add: blk_Insert_def)
  next
    case front
    then have "\<forall>e\<in>set ?s. b_type e > b_type x" using assms by (cases ?s) auto
    then show ?thesis using front by (simp add: blk_Insert_def filter_empty_conv not_le)
  next
    case rear
    have "\<forall>e\<in>set ?s. b_type e \<le> b_type x"
    proof
      fix e assume "e \<in> set ?s"
      then obtain j where "j < length ?s" "e = ?s ! j" by (auto simp: in_set_conv_nth)
      then have "b_type e \<le> b_type (last ?s)"
        using sorted_nth_mono[OF assms, of j "length ?s - 1"] rear(1) by (simp add: last_conv_nth)
      then show "b_type e \<le> b_type x" using rear(3) by order
    qed
    then have "filter (\<lambda>e. b_type e > b_type x) ?s = []" "filter (\<lambda>e. b_type e \<le> b_type x) ?s = ?s"
      by (auto simp: filter_empty_conv not_less)
    then show ?thesis using rear by (simp add: blk_Insert_def Let_def)
  next
    case mid
    have "\<exists>i. find_index (\<lambda>e. b_type e > b_type x) ?s = Some i"
    proof (rule ccontr)
      assume "\<nexists>i. find_index (\<lambda>e. b_type e > b_type x) ?s = Some i"
      then have "find_index (\<lambda>e. b_type e > b_type x) ?s = None" by auto
      then show False using mid(3) last_in_set[OF mid(1)] unfolding find_index_None by (metis not_le)
    qed
    then obtain i where i: "find_index (\<lambda>e. b_type e > b_type x) ?s = Some i" ..
    have "i \<noteq> 0" using find_index_SomeD[OF i] mid(1,2) by (metis hd_conv_nth)
    then show ?thesis
      using mid by (simp add: blk_Insert_def Let_def i find_index_gt_sorted[OF assms i])
  qed
qed

section \<open>Properties\<close>



text \<open>The wire encoding of a block, followed by anything, decodes to its type and payload and to the number of octets of the encoding; parsing the decoded value yields the sub-elements in order, each with its own type, payload and wire.\<close>

theorem block_roundtrip:
  assumes "cached_ok b" "length (fst (blk_Wire b)) + length rest < 2 ^ 63"
  shows "DecodeBlock (fst (blk_Wire b) @ rest) =
      Inr (Inr (Block (b_type b) (payload b) [] (fst (blk_Wire b)), of_nat (length (fst (blk_Wire b)))))
    \<and> (b_subs b \<noteq> [] \<longrightarrow>
        blk_Parse (Block (b_type b) (payload b) [] (fst (blk_Wire b))) =
          Inr (Block (b_type b) (payload b)
                 (map (\<lambda>e. Block (b_type e) (payload e) [] (fst (blk_Wire e))) (b_subs b)) (fst (blk_Wire b)), None))"
proof -
  have w: "fst (blk_Wire b) = canon b" using blk_Wire_spec[OF assms(1)] by simp
  have "map (\<lambda>e. Block (b_type e) (payload e) [] (fst (blk_Wire e))) (b_subs b) = map flat (b_subs b)"
    using blk_Wire_spec cached_ok_sub[OF assms(1)] by (simp add: flat_def)
  moreover have "length (payload b) < 2 ^ 63" using assms(2) by (simp add: w length_canon)
  ultimately show ?thesis
    using assms(2) parse_loop_canon[of "b_subs b"]
    by (auto simp: w DecodeBlock_canon flat_def blk_Parse_def payload_def cong: map_cong)
qed

theorem block_roundtrip_witness:
  "DecodeBlock [7, 3, 8, 1, 97, 5] = Inr (Inr (Block 7 [8, 1, 97] [] [7, 3, 8, 1, 97], 5))
   \<and> blk_Parse (Block 7 [8, 1, 97] [] [7, 3, 8, 1, 97]) =
       Inr (Block 7 [8, 1, 97] [Block 8 [97] [] [8, 1, 97]] [7, 3, 8, 1, 97], None)"
proof -
  let ?b = "blk_Append (NewBlock 8 [97]) (NewEmptyBlock 7)"
  have "cached_ok ?b" by (simp add: blk_Append_def NewBlock_def NewEmptyBlock_def)
  moreover have "fst (blk_Wire ?b) = [7, 3, 8, 1, 97]" "payload ?b = [8, 1, 97]" "b_type ?b = 7" "b_subs ?b = [NewBlock 8 [97]]"
    "fst (blk_Wire (NewBlock 8 [97])) = [8, 1, 97]" "payload (NewBlock 8 [97]) = [97]" "b_type (NewBlock 8 [97]) = 8"
    by (simp_all add: blk_Append_def NewBlock_def NewEmptyBlock_def payload_def tlv_bytes_def EncodeVarNum_def Let_def)
  ultimately show ?thesis using block_roundtrip[of ?b "[5]"] by simp
qed

text \<open>Decoding a block panics exactly when the header decodes and announces a value whose end is at \<open>2 ^ 64\<close> or beyond; it succeeds exactly when the announced value is there, and then the value has the announced length and the wire is the octets used; all else is an error.\<close>

theorem DecodeBlock_outcomes:
  assumes "length wire < 2 ^ 63"
  shows "(DecodeBlock wire = Inl p \<longleftrightarrow>
            p = IndexOutOfRange \<and> (\<exists>t h l. header wire = Inr (t, h, l) \<and> h + unat l \<ge> 2 ^ 64))
    \<and> (DecodeBlock wire = Inr (Inr (b, n)) \<longleftrightarrow>
        (\<exists>t h l. header wire = Inr (t, h, l) \<and> h + unat l \<le> length wire \<and> n = of_nat (h + unat l)
           \<and> b = Block (ucast t) (take (unat l) (drop h wire)) [] (take (h + unat l) wire)))
    \<and> (DecodeBlock wire = Inr (Inl ErrBufferTooShort) \<longleftrightarrow>
        (\<exists>t h l. header wire = Inr (t, h, l) \<and> h + unat l < 2 ^ 64 \<and> length wire < h + unat l))"
proof (cases "header wire")
  case (Inl e)
  then have "e \<noteq> ErrBufferTooShort"
    by (auto simp: header_def split: sum.splits if_splits dest!: DecodeVarNum_error)
  then show ?thesis by (simp add: DecodeBlock_by_header[OF assms] Inl)
next
  case (Inr r)
  then show ?thesis
    using assms by (cases r) (auto simp: DecodeBlock_by_header[OF assms] not_le not_less)
qed

theorem DecodeBlock_outcomes_witness:
  "DecodeBlock [6, 0xFF, 0xFF, 0xFF, 0xFF, 0xFF, 0xFF, 0xFF, 0xFF, 0xFF] = Inl IndexOutOfRange"
proof -
  have "header [6, 0xFF, 0xFF, 0xFF, 0xFF, 0xFF, 0xFF, 0xFF, 0xFF, 0xFF] = Inr (6, 10, 0xFFFFFFFFFFFFFFFF)"
    by (simp add: header_def Uint64_def push_bit_eq_mult)
  then show ?thesis
    using DecodeBlock_outcomes[of "[6, 0xFF, 0xFF, 0xFF, 0xFF, 0xFF, 0xFF, 0xFF, 0xFF, 0xFF]" IndexOutOfRange] by simp
qed

text \<open>Inserting into sub-elements ordered by type puts the new one after those of a smaller or equal type and before the others, leaving their order; erasing all of a type leaves exactly the others in order and reports how many there were.\<close>

theorem blk_Insert_EraseAll_spec:
  assumes "sorted (map b_type (b_subs b))"
  shows "b_subs (blk_Insert x b) = filter (\<lambda>e. b_type e \<le> b_type x) (b_subs b) @ x # filter (\<lambda>e. b_type e > b_type x) (b_subs b)
    \<and> sorted (map b_type (b_subs (blk_Insert x b)))
    \<and> b_subs (snd (blk_EraseAll t b)) = filter (\<lambda>e. b_type e \<noteq> t) (b_subs b)
    \<and> fst (blk_EraseAll t b) + length (b_subs (snd (blk_EraseAll t b))) = length (b_subs b)
    \<and> blk_Find t (snd (blk_EraseAll t b)) = None"
proof -
  have "sorted (map b_type (filter P (b_subs b)))" for P
    using assms by (rule sorted_filter)
  then show ?thesis
    using sum_length_filter_compl[of "\<lambda>e. b_type e = t" "b_subs b"]
    by (auto simp: blk_Insert_sorted[OF assms] sorted_append blk_EraseAll_filter blk_Find_def find_None_iff)
qed

theorem blk_Insert_EraseAll_spec_witness:
  "b_subs (blk_Insert (NewEmptyBlock 5) (Block 7 [] [NewEmptyBlock 3, NewEmptyBlock 5, NewEmptyBlock 9] [])) =
     [NewEmptyBlock 3, NewEmptyBlock 5, NewEmptyBlock 5, NewEmptyBlock 9]"
  using blk_Insert_EraseAll_spec[of "Block 7 [] [NewEmptyBlock 3, NewEmptyBlock 5, NewEmptyBlock 9] []" "NewEmptyBlock 5"]
  by (simp add: NewEmptyBlock_def)

text \<open>A number encoded as a block decodes from it, and the size computed without encoding is one octet short of the encoded block: it leaves out the length.\<close>

theorem nni_block_size:
  "DecodeNNIBlock (Some (EncodeNNIBlock t v)) = Inr v
   \<and> length (fst (blk_Wire (EncodeNNIBlock t v))) = GetNNIBlockSize t v + 1"
proof -
  have b: "EncodeNNIBlock t v = Block t (EncodeNNI v) [] []"
    by (auto simp: EncodeNNIBlock_def EncodeNNI_def blk_SetType_def blk_SetValue_def Let_def PutUint64_def)
  have "length (EncodeNNI v) \<in> {1, 2, 4, 8}" by (simp add: EncodeNNI_length)
  then have "DecodeNNIBlock (Some (EncodeNNIBlock t v)) = Inr v" 
    by (auto simp: DecodeNNIBlock_def b Uint64_nni_pad)
  moreover have "length (EncodeVarNum (of_nat (length (EncodeNNI v)))) = 1"
    by (simp add: EncodeNNI_length EncodeVarNum_def)
  ultimately show ?thesis by (simp add: b GetNNIBlockSize_def Let_def EncodeNNI_length)
qed

end
