(* ===== verification/Go_Strings.thy ===== *)
theory Go_Strings
  imports Tlv_Num
begin

text \<open>
  What the code uses of Go's strings and of the packages \<^verbatim>\<open>strings\<close>, \<^verbatim>\<open>strconv\<close> and
  \<^verbatim>\<open>encoding/hex\<close>. A Go string is a sequence of bytes; \<open>lit\<close> is a literal of ASCII characters.
\<close>

type_synonym gostring = bytes

definition lit :: "string \<Rightarrow> gostring" where
  "lit s = map (\<lambda>c. of_char c) s"

lemma lit_simps [simp]: "lit [] = []" "lit (c # cs) = of_char c # lit cs"
  by (simp_all add: lit_def)

lemma lit_append [simp]: "lit (s @ t) = lit s @ lit t"
  by (simp add: lit_def)

text \<open>\<^verbatim>\<open>strings.Split\<close> with a separator of one byte: never an empty list.\<close>

fun Split :: "u8 \<Rightarrow> gostring \<Rightarrow> gostring list" where
  "Split sep [] = [[]]"
| "Split sep (c # cs) = (if c = sep then [] # Split sep cs else (c # hd (Split sep cs)) # tl (Split sep cs))"

lemma Split_not_Nil [simp]: "Split sep s \<noteq> []"
  by (cases s) auto

lemma Split_none [simp]: "sep \<notin> set s \<Longrightarrow> Split sep s = [s]"
  by (induction s) auto

lemma Split_sep: "sep \<notin> set s \<Longrightarrow> Split sep (s @ sep # r) = s # Split sep r"
  by (induction s) auto

text \<open>Splitting what was joined: every part preceded by the separator.\<close>

lemma Split_joined:
  "\<forall>p\<in>set ps. sep \<notin> set p \<Longrightarrow> Split sep (concat (map (\<lambda>p. sep # p) ps)) = [] # ps"
proof (induction ps rule: induct_list012)
  case (3 p q ps)
  then show ?case by (simp add: Split_sep)
qed simp_all

section \<open>Decimal numbers\<close>

definition digit :: "nat \<Rightarrow> u8" where
  "digit d = of_nat (48 + d)"

function FormatUint :: "nat \<Rightarrow> gostring" where
  "FormatUint n = (if n < 10 then [digit n] else FormatUint (n div 10) @ [digit (n mod 10)])"
  by pat_completeness auto
termination by (relation "measure id") auto

declare FormatUint.simps [simp del]

text \<open>\<^verbatim>\<open>ParseUint(s, 10, bits)\<close>: an error (\<open>None\<close>) for the empty string, for anything but digits and for a value out of range.\<close>

fun parse_digits :: "gostring \<Rightarrow> nat \<Rightarrow> nat option" where
  "parse_digits [] acc = Some acc"
| "parse_digits (c # cs) acc = (if 48 \<le> c \<and> c \<le> 57 then parse_digits cs (10 * acc + (unat c - 48)) else None)"

definition ParseUint :: "gostring \<Rightarrow> nat \<Rightarrow> nat option" where
  "ParseUint s bits =
     (if s = [] then None
      else case parse_digits s 0 of None \<Rightarrow> None | Some n \<Rightarrow> if n < 2 ^ bits then Some n else None)"

lemma unat_digit: "d < 10 \<Longrightarrow> unat (digit d) = 48 + d"
  unfolding digit_def unat_of_nat by (simp add: take_bit_nat_eq_self)

lemma digit_range: "d < 10 \<Longrightarrow> 48 \<le> digit d \<and> digit d \<le> 57"
  by (simp add: word_le_nat_alt unat_digit)

lemma parse_digits_append:
  "parse_digits (s @ t) acc = (case parse_digits s acc of None \<Rightarrow> None | Some m \<Rightarrow> parse_digits t m)"
  by (induction s acc rule: parse_digits.induct) simp_all

lemma parse_FormatUint: "parse_digits (FormatUint n) 0 = Some n"
proof (induction n rule: less_induct)
  case (less n)
  show ?case
  proof (cases "n < 10")
    case True
    then show ?thesis using digit_range[of n] by (subst FormatUint.simps) (simp add: unat_digit)
  next
    case False
    then show ?thesis
      using less[of "n div 10"] digit_range[of "n mod 10"]
      by (subst FormatUint.simps) (simp add: parse_digits_append unat_digit)
  qed
qed

lemma FormatUint_not_Nil [simp]: "FormatUint n \<noteq> []"
  by (subst FormatUint.simps) simp

lemma ParseUint_FormatUint: "n < 2 ^ bits \<Longrightarrow> ParseUint (FormatUint n) bits = Some n"
  by (simp add: ParseUint_def parse_FormatUint)

lemma FormatUint_digits: "c \<in> set (FormatUint n) \<Longrightarrow> 48 \<le> c \<and> c \<le> 57"
proof (induction n rule: less_induct)
  case (less n)
  show ?case
  proof (cases "n < 10")
    case True
    then show ?thesis using less.prems digit_range[of n] by (subst (asm) FormatUint.simps) simp
  next
    case False
    then have "c \<in> set (FormatUint (n div 10)) \<or> c = digit (n mod 10)"
      using less.prems by (subst (asm) FormatUint.simps) auto
    moreover have "n div 10 < n" using False by simp
    ultimately show ?thesis using less.IH digit_range[of "n mod 10"] by auto
  qed
qed

section \<open>Hexadecimal strings\<close>

definition hex_digit :: "nat \<Rightarrow> u8" where
  "hex_digit d = of_nat (if d < 10 then 48 + d else 87 + d)"

definition hex_byte :: "u8 \<Rightarrow> gostring" where
  "hex_byte b = [hex_digit (unat b div 16), hex_digit (unat b mod 16)]"

definition hex_EncodeToString :: "bytes \<Rightarrow> gostring" where
  "hex_EncodeToString bs = concat (map hex_byte bs)"

definition from_hex :: "u8 \<Rightarrow> nat option" where
  "from_hex c =
     (if 48 \<le> c \<and> c \<le> 57 then Some (unat c - 48)
      else if 97 \<le> c \<and> c \<le> 102 then Some (unat c - 87)
      else if 65 \<le> c \<and> c \<le> 70 then Some (unat c - 55)
      else None)"

fun hex_DecodeString :: "gostring \<Rightarrow> bytes option" where
  "hex_DecodeString [] = Some []"
| "hex_DecodeString [c] = None"
| "hex_DecodeString (a # b # cs) =
     (case (from_hex a, from_hex b, hex_DecodeString cs) of
        (Some x, Some y, Some bs) \<Rightarrow> Some (of_nat (16 * x + y) # bs)
      | _ \<Rightarrow> None)"

lemma from_hex_digit: "d < 16 \<Longrightarrow> from_hex (hex_digit d) = Some d"
proof -
  assume "d < 16"
  then have "unat (hex_digit d) = (if d < 10 then 48 + d else 87 + d)"
    by (simp add: hex_digit_def unat_of_nat take_bit_nat_eq_self)
  then show ?thesis using \<open>d < 16\<close> by (auto simp: from_hex_def word_le_nat_alt)
qed

lemma hex_roundtrip_byte: "hex_DecodeString (hex_byte b @ s) = map_option (Cons b) (hex_DecodeString s)"
proof -
  have "unat b < 256" using unsigned_less[of b, where ?'a = nat] by simp
  then have "unat b div 16 < 16" "unat b mod 16 < 16" by simp_all
  then show ?thesis by (simp add: hex_byte_def from_hex_digit split: option.split)
qed

lemma hex_roundtrip: "hex_DecodeString (hex_EncodeToString bs) = Some bs"
  by (induction bs) (simp_all add: hex_EncodeToString_def hex_roundtrip_byte)

lemma hex_digit_range: "d < 16 \<Longrightarrow> (48 \<le> hex_digit d \<and> hex_digit d \<le> 57) \<or> (97 \<le> hex_digit d \<and> hex_digit d \<le> 102)"
proof -
  assume "d < 16"
  then have "unat (hex_digit d) = (if d < 10 then 48 + d else 87 + d)"
    by (simp add: hex_digit_def unat_of_nat take_bit_nat_eq_self)
  then show ?thesis using \<open>d < 16\<close> by (auto simp: word_le_nat_alt)
qed

lemma hex_byte_range: "c \<in> set (hex_byte b) \<Longrightarrow> (48 \<le> c \<and> c \<le> 57) \<or> (97 \<le> c \<and> c \<le> 102)"
proof -
  assume "c \<in> set (hex_byte b)"
  moreover have "unat b div 16 < 16" "unat b mod 16 < 16"
    using unsigned_less[of b, where ?'a = nat] by simp_all
  ultimately show ?thesis using hex_digit_range[of "unat b div 16"] hex_digit_range[of "unat b mod 16"] by (auto simp: hex_byte_def)
qed

end
