(* ===== verification/Ndn_Name.thy ===== *)
theory Ndn_Name
  imports Tlv_Block Go_Strings
begin

text \<open>
  NDN names as the packet library has them (\<^verbatim>\<open>src/ndn/name.go\<close>): the classes of name components, and
  names with their cached wire encoding and cached string. Every class embeds
  \<^verbatim>\<open>BaseNameComponent\<close>, the record \<open>NC\<close> here; the five classes with a number also keep it decoded.

  An interface value of Go is \<open>NilIface\<close>, or \<open>NilPtr\<close> when it holds a nil pointer of a concrete
  class, or a reference to an object. The distinction matters: \<^verbatim>\<open>DecodeNameComponent\<close> compares the
  interface with nil, which the nil pointer of a failed constructor does not equal.
\<close>

datatype 'a iface = NilIface | NilPtr | Ref 'a

datatype BaseNC = NC (nc_type: u16) (nc_value: bytes) (nc_wire: "Block option")

datatype NameComponent =
    BaseNameComponent BaseNC
  | ImplicitSha256DigestComponent BaseNC
  | ParametersSha256DigestComponent BaseNC
  | GenericNameComponent BaseNC
  | KeywordNameComponent BaseNC
  | SegmentNameComponent BaseNC u64
  | ByteOffsetNameComponent BaseNC u64
  | VersionNameComponent BaseNC u64
  | TimestampNameComponent BaseNC u64
  | SequenceNumNameComponent BaseNC u64

fun nc_base :: "NameComponent \<Rightarrow> BaseNC" where
  "nc_base (BaseNameComponent b) = b"
| "nc_base (ImplicitSha256DigestComponent b) = b"
| "nc_base (ParametersSha256DigestComponent b) = b"
| "nc_base (GenericNameComponent b) = b"
| "nc_base (KeywordNameComponent b) = b"
| "nc_base (SegmentNameComponent b r) = b"
| "nc_base (ByteOffsetNameComponent b r) = b"
| "nc_base (VersionNameComponent b r) = b"
| "nc_base (TimestampNameComponent b r) = b"
| "nc_base (SequenceNumNameComponent b r) = b"

fun nc_with :: "(BaseNC \<Rightarrow> BaseNC) \<Rightarrow> NameComponent \<Rightarrow> NameComponent" where
  "nc_with f (BaseNameComponent b) = BaseNameComponent (f b)"
| "nc_with f (ImplicitSha256DigestComponent b) = ImplicitSha256DigestComponent (f b)"
| "nc_with f (ParametersSha256DigestComponent b) = ParametersSha256DigestComponent (f b)"
| "nc_with f (GenericNameComponent b) = GenericNameComponent (f b)"
| "nc_with f (KeywordNameComponent b) = KeywordNameComponent (f b)"
| "nc_with f (SegmentNameComponent b r) = SegmentNameComponent (f b) r"
| "nc_with f (ByteOffsetNameComponent b r) = ByteOffsetNameComponent (f b) r"
| "nc_with f (VersionNameComponent b r) = VersionNameComponent (f b) r"
| "nc_with f (TimestampNameComponent b r) = TimestampNameComponent (f b) r"
| "nc_with f (SequenceNumNameComponent b r) = SequenceNumNameComponent (f b) r"

section \<open>The base class\<close>

definition NewBaseNameComponent :: "u16 \<Rightarrow> bytes \<Rightarrow> NameComponent" where
  "NewBaseNameComponent t v = BaseNameComponent (NC t v None)"

definition nc_Type :: "NameComponent \<Rightarrow> u16" where
  "nc_Type c = nc_type (nc_base c)"

definition nc_Value :: "NameComponent \<Rightarrow> bytes" where
  "nc_Value c = nc_value (nc_base c)"

definition nc_Equals :: "NameComponent \<Rightarrow> NameComponent \<Rightarrow> bool" where
  "nc_Equals c d \<longleftrightarrow> nc_Type c = nc_Type d \<and> nc_Value c = nc_Value d"

definition base_DeepCopy :: "BaseNC \<Rightarrow> BaseNC" where
  "base_DeepCopy b = NC (nc_type b) (nc_value b) None"

definition base_Encode :: "BaseNC \<Rightarrow> Block \<times> BaseNC" where
  "base_Encode b =
     (case nc_wire b of
        None \<Rightarrow> (let w = snd (blk_Wire (NewBlock (ucast (nc_type b)) (nc_value b))) in (w, NC (nc_type b) (nc_value b) (Some w)))
      | Some w \<Rightarrow> (w, b))"

definition nc_Encode :: "NameComponent \<Rightarrow> Block \<times> NameComponent" where
  "nc_Encode c = (fst (base_Encode (nc_base c)), nc_with (\<lambda>b. snd (base_Encode b)) c)"

text \<open>\<^verbatim>\<open>DeepCopy\<close> of every class: a copy of the base, without its cached wire, and of the number.\<close>

definition nc_DeepCopy :: "NameComponent \<Rightarrow> NameComponent" where
  "nc_DeepCopy c = nc_with base_DeepCopy c"

section \<open>Digest components\<close>

text \<open>The constructors return a nil pointer (\<open>None\<close>) when the digest is not 32 octets long.\<close>

definition NewImplicitSha256DigestComponent :: "bytes \<Rightarrow> NameComponent option" where
  "NewImplicitSha256DigestComponent v =
     (if length v \<noteq> 32 then None else Some (ImplicitSha256DigestComponent (NC 0x01 v None)))"

definition NewParametersSha256DigestComponent :: "bytes \<Rightarrow> NameComponent option" where
  "NewParametersSha256DigestComponent v =
     (if length v \<noteq> 32 then None else Some (ParametersSha256DigestComponent (NC 0x02 v None)))"

definition digest_SetValue :: "bytes \<Rightarrow> BaseNC \<Rightarrow> ndn_error option \<times> BaseNC" where
  "digest_SetValue v b = (if length v \<noteq> 32 then (Some ErrOutOfRange, b) else (None, NC (nc_type b) v None))"

section \<open>Generic and keyword components\<close>

definition NewGenericNameComponent :: "bytes \<Rightarrow> NameComponent" where
  "NewGenericNameComponent v = GenericNameComponent (NC 0x08 v None)"

definition NewKeywordNameComponent :: "bytes \<Rightarrow> NameComponent" where
  "NewKeywordNameComponent v = KeywordNameComponent (NC 0x20 v None)"

definition generic_SetValue :: "bytes \<Rightarrow> BaseNC \<Rightarrow> BaseNC" where
  "generic_SetValue v b = NC (nc_type b) v None"

section \<open>Components that hold a number\<close>

text \<open>
  The five classes repeat the same code with another type and constructor; \<open>number_new\<close>,
  \<open>number_decode\<close> and \<open>number_SetValue\<close> are that code.
\<close>

definition number_new :: "(BaseNC \<Rightarrow> u64 \<Rightarrow> NameComponent) \<Rightarrow> u16 \<Rightarrow> u64 \<Rightarrow> NameComponent" where
  "number_new C t v = C (NC t (EncodeNNI v) None) v"

definition number_decode :: "(BaseNC \<Rightarrow> u64 \<Rightarrow> NameComponent) \<Rightarrow> u16 \<Rightarrow> bytes \<Rightarrow> NameComponent option" where
  "number_decode C t v = (case DecodeNNI v of Inl e \<Rightarrow> None | Inr r \<Rightarrow> Some (C (NC t v None) r))"

definition number_SetValue :: "(BaseNC \<Rightarrow> u64 \<Rightarrow> NameComponent) \<Rightarrow> u64 \<Rightarrow> BaseNC \<Rightarrow> NameComponent" where
  "number_SetValue C v b = C (NC (nc_type b) (EncodeNNI v) None) v"

definition NewSegmentNameComponent :: "u64 \<Rightarrow> NameComponent" where
  "NewSegmentNameComponent = number_new SegmentNameComponent 0x32"

definition DecodeSegmentNameComponent :: "bytes \<Rightarrow> NameComponent option" where
  "DecodeSegmentNameComponent = number_decode SegmentNameComponent 0x32"

definition NewByteOffsetNameComponent :: "u64 \<Rightarrow> NameComponent" where
  "NewByteOffsetNameComponent = number_new ByteOffsetNameComponent 0x34"

definition DecodeByteOffsetNameComponent :: "bytes \<Rightarrow> NameComponent option" where
  "DecodeByteOffsetNameComponent = number_decode ByteOffsetNameComponent 0x34"

definition NewVersionNameComponent :: "u64 \<Rightarrow> NameComponent" where
  "NewVersionNameComponent = number_new VersionNameComponent 0x36"

definition DecodeVersionNameComponent :: "bytes \<Rightarrow> NameComponent option" where
  "DecodeVersionNameComponent = number_decode VersionNameComponent 0x36"

definition NewTimestampNameComponent :: "u64 \<Rightarrow> NameComponent" where
  "NewTimestampNameComponent = number_new TimestampNameComponent 0x38"

definition DecodeTimestampNameComponent :: "bytes \<Rightarrow> NameComponent option" where
  "DecodeTimestampNameComponent = number_decode TimestampNameComponent 0x38"

definition NewSequenceNumNameComponent :: "u64 \<Rightarrow> NameComponent" where
  "NewSequenceNumNameComponent = number_new SequenceNumNameComponent 0x3A"

definition DecodeSequenceNumNameComponent :: "bytes \<Rightarrow> NameComponent option" where
  "DecodeSequenceNumNameComponent = number_decode SequenceNumNameComponent 0x3A"

text \<open>The setters of the classes; \<open>None\<close> where a class has no such method.\<close>

fun nc_SetValue :: "bytes \<Rightarrow> NameComponent \<Rightarrow> (ndn_error option \<times> NameComponent) option" where
  "nc_SetValue v (ImplicitSha256DigestComponent b) = (let (e, b') = digest_SetValue v b in Some (e, ImplicitSha256DigestComponent b'))"
| "nc_SetValue v (ParametersSha256DigestComponent b) = (let (e, b') = digest_SetValue v b in Some (e, ParametersSha256DigestComponent b'))"
| "nc_SetValue v (GenericNameComponent b) = Some (None, GenericNameComponent (generic_SetValue v b))"
| "nc_SetValue v (KeywordNameComponent b) = Some (None, KeywordNameComponent (generic_SetValue v b))"
| "nc_SetValue v c = None"

fun nc_SetNumber :: "u64 \<Rightarrow> NameComponent \<Rightarrow> NameComponent option" where
  "nc_SetNumber v (SegmentNameComponent b r) = Some (number_SetValue SegmentNameComponent v b)"
| "nc_SetNumber v (ByteOffsetNameComponent b r) = Some (number_SetValue ByteOffsetNameComponent v b)"
| "nc_SetNumber v (VersionNameComponent b r) = Some (number_SetValue VersionNameComponent v b)"
| "nc_SetNumber v (TimestampNameComponent b r) = Some (number_SetValue TimestampNameComponent v b)"
| "nc_SetNumber v (SequenceNumNameComponent b r) = Some (number_SetValue SequenceNumNameComponent v b)"
| "nc_SetNumber v c = None"

section \<open>Decoding a component\<close>

definition of_ptr :: "'a option \<Rightarrow> 'a iface" where
  "of_ptr p = (case p of None \<Rightarrow> NilPtr | Some x \<Rightarrow> Ref x)"

definition DecodeNameComponent :: "Block option \<Rightarrow> NameComponent iface \<times> ndn_error option" where
  "DecodeNameComponent wire =
     (case wire of
        None \<Rightarrow> (NilIface, Some ErrNonExistent)
      | Some b \<Rightarrow>
          let v = b_value b;
              (n, err) =
                (if b_type b = 0x01 then (of_ptr (NewImplicitSha256DigestComponent v), None)
                 else if b_type b = 0x02 then (of_ptr (NewParametersSha256DigestComponent v), None)
                 else if b_type b = 0x08 then (Ref (NewGenericNameComponent v), None)
                 else if b_type b = 0x20 then (Ref (NewKeywordNameComponent v), None)
                 else if b_type b = 0x32 then (of_ptr (DecodeSegmentNameComponent v), None)
                 else if b_type b = 0x34 then (of_ptr (DecodeByteOffsetNameComponent v), None)
                 else if b_type b = 0x36 then (of_ptr (DecodeVersionNameComponent v), None)
                 else if b_type b = 0x38 then (of_ptr (DecodeTimestampNameComponent v), None)
                 else if b_type b = 0x3A then (of_ptr (DecodeSequenceNumNameComponent v), None)
                 else if b_type b > 0xFFFF then (NilIface, Some ErrOutOfRange)
                 else (Ref (NewBaseNameComponent (ucast (b_type b)) v), None))
          in (n, if n = NilIface then Some ErrDecodeNameComponent else err))"

section \<open>Printing and parsing component values\<close>

definition unreserved :: "u8 \<Rightarrow> bool" where
  "unreserved b \<longleftrightarrow> (65 \<le> b \<and> b \<le> 90) \<or> (97 \<le> b \<and> b \<le> 122) \<or> (48 \<le> b \<and> b \<le> 57) \<or> b = 45 \<or> b = 95 \<or> b = 126"

definition escape_byte :: "u8 \<Rightarrow> gostring" where
  "escape_byte b = (if b = 46 \<or> unreserved b then [b] else 37 # hex_byte b)"

definition escapeComponent :: "bytes \<Rightarrow> gostring" where
  "escapeComponent bs =
     concat (map escape_byte bs) @ (if length (filter (\<lambda>b. b = 46) bs) = length bs then [46, 46, 46] else [])"

fun unescapeComponent :: "gostring \<Rightarrow> ndn_error + gostring" where
  "unescapeComponent [] = Inr []"
| "unescapeComponent (c # cs) =
     (if c = 37 then
        (case cs of
           a # b # r \<Rightarrow>
             (case hex_DecodeString [a, b] of
                None \<Rightarrow> Inl (ErrText ''could not decode escape sequence'')
              | Some u \<Rightarrow> (case unescapeComponent r of Inl e \<Rightarrow> Inl e | Inr s \<Rightarrow> Inr (u @ s)))
         | _ \<Rightarrow> Inl (ErrText ''incomplete escape sequence''))
      else (case unescapeComponent cs of Inl e \<Rightarrow> Inl e | Inr s \<Rightarrow> Inr (c # s)))"

definition uint_string :: "u64 \<Rightarrow> gostring" where
  "uint_string n = FormatUint (unat n)"

fun nc_String :: "NameComponent \<Rightarrow> gostring" where
  "nc_String (BaseNameComponent b) = FormatUint (unat (nc_type b)) @ lit ''='' @ escapeComponent (nc_value b)"
| "nc_String (ImplicitSha256DigestComponent b) = lit ''sha256digest='' @ hex_EncodeToString (nc_value b)"
| "nc_String (ParametersSha256DigestComponent b) = lit ''params-sha256='' @ hex_EncodeToString (nc_value b)"
| "nc_String (GenericNameComponent b) = escapeComponent (nc_value b)"
| "nc_String (KeywordNameComponent b) = escapeComponent (nc_value b)"
| "nc_String (SegmentNameComponent b r) = lit ''seg='' @ uint_string r"
| "nc_String (ByteOffsetNameComponent b r) = lit ''off='' @ uint_string r"
| "nc_String (VersionNameComponent b r) = lit ''v='' @ uint_string r"
| "nc_String (TimestampNameComponent b r) = lit ''t='' @ uint_string r"
| "nc_String (SequenceNumNameComponent b r) = lit ''seq='' @ uint_string r"

section \<open>Names\<close>

text \<open>
  A name: its components, its cached wire block and its cached string. An empty cached string means
  that none is cached.
\<close>

datatype Name = Name (nm_comps: "NameComponent list") (nm_wire: "Block option") (nm_str: gostring)

definition NewName :: Name where
  "NewName = Name [] None []"

definition name_String :: "Name \<Rightarrow> gostring \<times> Name" where
  "name_String n =
     (if length (nm_str n) > 0 then (nm_str n, n)
      else if nm_comps n = [] then (lit ''/'', n)
      else let out = concat (map (\<lambda>c. lit ''/'' @ nc_String c) (nm_comps n))
           in (out, Name (nm_comps n) (nm_wire n) out))"

definition name_Append :: "NameComponent \<Rightarrow> Name \<Rightarrow> Name" where
  "name_Append c n = Name (nm_comps n @ [c]) None (nm_str n @ lit ''/'' @ nc_String c)"

text \<open>\<^verbatim>\<open>Append\<close> of an interface value calls its \<^verbatim>\<open>String\<close> method, which panics on nil.\<close>

definition name_Append_iface :: "NameComponent iface \<Rightarrow> Name \<Rightarrow> Name result" where
  "name_Append_iface c n = (case c of Ref x \<Rightarrow> Inr (name_Append x n) | _ \<Rightarrow> Inl NilDereference)"

definition name_At :: "Name \<Rightarrow> int \<Rightarrow> NameComponent option" where
  "name_At n i =
     (if i < - int (length (nm_comps n)) \<or> i \<ge> int (length (nm_comps n)) then None
      else if i < 0 then Some (nm_comps n ! nat (int (length (nm_comps n)) + i))
      else Some (nm_comps n ! nat i))"

definition name_Clear :: "Name \<Rightarrow> Name" where
  "name_Clear n = (if nm_comps n \<noteq> [] then Name [] None [] else n)"

definition name_DeepCopy :: "Name \<Rightarrow> Name" where
  "name_DeepCopy n = Name (map nc_DeepCopy (nm_comps n)) None []"

definition name_Equals :: "Name \<Rightarrow> Name \<Rightarrow> bool" where
  "name_Equals n other \<longleftrightarrow>
     length (nm_comps n) = length (nm_comps other) \<and>
     list_all2 (\<lambda>c d. \<not> (nc_Type c \<noteq> nc_Type d \<or> nc_Value c \<noteq> nc_Value d)) (nm_comps n) (nm_comps other)"

definition name_PrefixOf :: "Name \<Rightarrow> Name option \<Rightarrow> bool" where
  "name_PrefixOf n other =
     (case other of
        None \<Rightarrow> False
      | Some m \<Rightarrow>
          \<not> length (nm_comps n) > length (nm_comps m) \<and>
          (\<forall>i\<in>{0..<length (nm_comps n)}. \<not> (nc_Type (nm_comps n ! i) \<noteq> nc_Type (nm_comps m ! i)
             \<or> nc_Value (nm_comps n ! i) \<noteq> nc_Value (nm_comps m ! i))))"

text \<open>The byte-by-byte comparison and the loop over the components both names have.\<close>

fun compare_bytes :: "bytes \<Rightarrow> bytes \<Rightarrow> int option" where
  "compare_bytes (x # xs) (y # ys) = (if x < y then Some (-1) else if x > y then Some 1 else compare_bytes xs ys)"
| "compare_bytes xs ys = None"

fun compare_comps :: "NameComponent list \<Rightarrow> NameComponent list \<Rightarrow> int" where
  "compare_comps (c # cs) (d # ds) =
     (if nc_Type c < nc_Type d then -1
      else if nc_Type c > nc_Type d then 1
      else if length (nc_Value c) < length (nc_Value d) then -1
      else if length (nc_Value c) > length (nc_Value d) then 1
      else if nc_Value c \<noteq> nc_Value d then
        (case compare_bytes (nc_Value c) (nc_Value d) of Some r \<Rightarrow> r | None \<Rightarrow> compare_comps cs ds)
      else compare_comps cs ds)"
| "compare_comps cs ds = 0"

definition name_Compare :: "Name \<Rightarrow> Name \<Rightarrow> int" where
  "name_Compare n other =
     (if name_Equals n other then 0
      else if name_PrefixOf n (Some other) then -1
      else if name_PrefixOf other (Some n) then 1
      else compare_comps (nm_comps n) (nm_comps other))"

definition name_Erase :: "int \<Rightarrow> Name \<Rightarrow> ndn_error option \<times> Name" where
  "name_Erase i n =
     (if i < 0 \<or> i \<ge> int (length (nm_comps n)) then (Some ErrOutOfRange, n)
      else (None, Name (del_at (nat i) (nm_comps n)) None []))"

definition name_Find :: "u16 \<Rightarrow> Name \<Rightarrow> int \<times> NameComponent option" where
  "name_Find t n =
     (case find_index (\<lambda>c. nc_Type c = t) (nm_comps n) of
        Some i \<Rightarrow> (int i, Some (nm_comps n ! i))
      | None \<Rightarrow> (-1, None))"

definition name_HasWire :: "Name \<Rightarrow> bool" where
  "name_HasWire n \<longleftrightarrow> nm_wire n \<noteq> None"

definition name_Insert :: "int \<Rightarrow> NameComponent \<Rightarrow> Name \<Rightarrow> ndn_error option \<times> Name" where
  "name_Insert i c n =
     (if i < 0 \<or> i \<ge> int (length (nm_comps n)) then (Some ErrOutOfRange, n)
      else (None, Name (take (nat i) (nm_comps n) @ nc_DeepCopy c # drop (nat i) (nm_comps n)) None []))"

text \<open>The loop of \<^verbatim>\<open>Prefix\<close> indexes the components up to the requested size; its wire is a new, empty block.\<close>

definition name_Prefix :: "int \<Rightarrow> Name \<Rightarrow> Name result" where
  "name_Prefix sz n =
     (if sz > int (length (nm_comps n)) then Inl IndexOutOfRange
      else Inr (Name (map nc_DeepCopy (take (nat sz) (nm_comps n))) (Some (Block 0 [] [] [])) []))"

definition name_Set :: "int \<Rightarrow> NameComponent \<Rightarrow> Name \<Rightarrow> ndn_error option \<times> Name" where
  "name_Set i c n =
     (if i < 0 \<or> i \<ge> int (length (nm_comps n)) then (Some ErrOutOfRange, n)
      else (None, Name ((nm_comps n)[nat i := c]) None []))"

definition name_Encode :: "Name \<Rightarrow> Block \<times> Name" where
  "name_Encode n =
     (case nm_wire n of
        Some w \<Rightarrow> (w, n)
      | None \<Rightarrow>
          let cs = map nc_Encode (nm_comps n);
              w = fold (\<lambda>c b. blk_Append (fst c) b) cs (blk_SetType 0x07 (Block 0 [] [] []));
              w' = snd (blk_Wire w)
          in (w', Name (map snd cs) (Some w') (nm_str n)))"

text \<open>
  The loop of \<^verbatim>\<open>DecodeName\<close> over the sub-elements: an error of a component ends it; a component that
  is a nil pointer is stored and then asked for its string.
\<close>

fun decode_comps :: "Block list \<Rightarrow> NameComponent list \<Rightarrow> gostring \<Rightarrow> (ndn_error + (NameComponent list \<times> gostring)) result" where
  "decode_comps [] cs s = Inr (Inr (cs, s))"
| "decode_comps (b # bs) cs s =
     (case DecodeNameComponent (Some b) of
        (_, Some e) \<Rightarrow> Inr (Inl e)
      | (Ref c, None) \<Rightarrow> decode_comps bs (cs @ [c]) (s @ lit ''/'' @ nc_String c)
      | (_, None) \<Rightarrow> Inl NilDereference)"

definition DecodeName :: "Block option \<Rightarrow> (ndn_error + Name) result" where
  "DecodeName wire =
     (case wire of
        None \<Rightarrow> Inr (Inl ErrNonExistent)
      | Some b0 \<Rightarrow>
          let b = snd (blk_Wire b0)
          in if b_type b \<noteq> 0x07 then Inr (Inl ErrUnexpected)
             else rbind (if b_subs b = [] then rbind (blk_Parse b) (\<lambda>(b', err). Inr b') else Inr b) (\<lambda>b'.
               rbind (decode_comps (b_subs b') [] []) (\<lambda>r.
                 Inr (case r of Inl e \<Rightarrow> Inl e | Inr (cs, s) \<Rightarrow> Inr (Name cs (Some b') s)))))"

text \<open>Parsing a component of a URI, which is split at the equals sign.\<close>

definition parse_number :: "(u64 \<Rightarrow> NameComponent) \<Rightarrow> string \<Rightarrow> gostring \<Rightarrow> ndn_error + NameComponent iface" where
  "parse_number mk err s = (case ParseUint s 64 of None \<Rightarrow> Inl (ErrText err) | Some n \<Rightarrow> Inr (Ref (mk (of_nat n))))"

definition parse_typed :: "gostring \<Rightarrow> gostring \<Rightarrow> ndn_error + NameComponent iface" where
  "parse_typed k v =
     (if k = lit ''sha256digest'' then
        (case hex_DecodeString v of
           None \<Rightarrow> Inl (ErrText ''ImplicitSha256DigestComponent is not a hex string'')
         | Some d \<Rightarrow> Inr (of_ptr (NewImplicitSha256DigestComponent d)))
      else if k = lit ''params-sha256'' then
        (case hex_DecodeString v of
           None \<Rightarrow> Inl (ErrText ''ParametersSha256DigestComponent is not a hex string'')
         | Some d \<Rightarrow> Inr (of_ptr (NewParametersSha256DigestComponent d)))
      else if k = lit ''8'' then Inr (Ref (NewGenericNameComponent v))
      else if k = lit ''seg'' then parse_number NewSegmentNameComponent ''SegmentNameComponent is not a decimal string'' v
      else if k = lit ''off'' then parse_number NewByteOffsetNameComponent ''ByteOffsetNameComponent is not a decimal string'' v
      else if k = lit ''v'' then parse_number NewVersionNameComponent ''VersionNameComponent is not a decimal string'' v
      else if k = lit ''t'' then parse_number NewTimestampNameComponent ''TimestampNameComponent is not a decimal string'' v
      else if k = lit ''seq'' then parse_number NewSequenceNumNameComponent ''SequenceNumNameComponent is not a decimal string'' v
      else (case ParseUint k 16 of
          None \<Rightarrow> Inl (ErrText ''unable to decode component type'')
        | Some t \<Rightarrow> Inr (Ref (NewBaseNameComponent (of_nat t) v))))"

definition parse_component :: "gostring \<Rightarrow> ndn_error + NameComponent iface" where
  "parse_component s =
     (if 61 \<in> set s then
        (case Split 61 s of
           [k, v] \<Rightarrow>
             (case unescapeComponent v of
                Inl e \<Rightarrow> Inl (ErrText ''error unescaping component value'')
              | Inr u \<Rightarrow> parse_typed k u)
         | _ \<Rightarrow> Inl (ErrText ''Name component has extraneous =''))
      else
        (case unescapeComponent s of
           Inl e \<Rightarrow> Inl (ErrText ''error unescaping component value'')
         | Inr u \<Rightarrow> Inr (Ref (NewGenericNameComponent u))))"

fun parse_components :: "gostring list \<Rightarrow> Name \<Rightarrow> (ndn_error + Name) result" where
  "parse_components [] n = Inr (Inr n)"
| "parse_components (s # ss) n =
     (case parse_component s of
        Inl e \<Rightarrow> Inr (Inl e)
      | Inr c \<Rightarrow> rbind (name_Append_iface c n) (parse_components ss))"

definition NameFromString :: "gostring \<Rightarrow> (ndn_error + Name) result" where
  "NameFromString str =
     (if length str = 0 then Inr (Inr NewName)
      else case tl (Split 47 str) of
          [] \<Rightarrow> Inl IndexOutOfRange
        | c # cs \<Rightarrow> if length c = 0 then Inr (Inr NewName) else parse_components (c # cs) NewName)"

end
