(* ===== verification/Name_Spec.thy ===== *)
theory Name_Spec
  imports Ndn_Name
begin

text \<open>
  What the operations on names guarantee: the canonical order, the string and wire round trips, the
  class invariant of components, and the effect of the operations on the caches.

  The content of a name is its list of \<open>keys\<close>, a type and a value per component.
\<close>

definition nc_key :: "NameComponent \<Rightarrow> u16 \<times> bytes" where
  "nc_key c = (nc_Type c, nc_Value c)"

definition keys :: "Name \<Rightarrow> (u16 \<times> bytes) list" where
  "keys n = map nc_key (nm_comps n)"

lemma name_Equals_keys: "name_Equals n m \<longleftrightarrow> keys n = keys m"
proof -
  have "(map nc_key xs = map nc_key ys) = list_all2 (\<lambda>c d. nc_Type c = nc_Type d \<and> nc_Value c = nc_Value d) xs ys" for xs ys
  proof (induction xs arbitrary: ys)
    case (Cons x xs)
    then show ?case by (cases ys) (auto simp: nc_key_def)
  qed simp
  then show ?thesis by (auto simp: name_Equals_def keys_def dest: list_all2_lengthD)
qed

lemma name_PrefixOf_keys: "name_PrefixOf n (Some m) \<longleftrightarrow> prefix (keys n) (keys m)"
proof -
  have "name_PrefixOf n (Some m) \<longleftrightarrow> length (keys n) \<le> length (keys m) \<and> (\<forall>i<length (keys n). keys n ! i = keys m ! i)"
    by (auto simp: name_PrefixOf_def keys_def nc_key_def)
  also have "\<dots> \<longleftrightarrow> keys n = take (length (keys n)) (keys m)"
    by (auto simp: list_eq_iff_nth_eq)
  also have "\<dots> \<longleftrightarrow> prefix (keys n) (keys m)"
    by (metis append_eq_conv_conj prefix_def take_is_prefix)
  finally show ?thesis .
qed

section \<open>The canonical order\<close>

text \<open>Components by type, then by length, then byte by byte; names lexicographically, a prefix first.\<close>

definition byte_less :: "(bytes \<times> bytes) set" where
  "byte_less = lexord {(x, y). x < y}"

definition key_less :: "((u16 \<times> bytes) \<times> (u16 \<times> bytes)) set" where
  "key_less = {((t, v), (t', v')). t < t' \<or> t = t' \<and> (length v < length v' \<or> length v = length v' \<and> (v, v') \<in> byte_less)}"

definition canonical_less :: "((u16 \<times> bytes) list \<times> (u16 \<times> bytes) list) set" where
  "canonical_less = lexord key_less"

lemma byte_less_order:
  "(v, v) \<notin> byte_less" "v = w \<or> (v, w) \<in> byte_less \<or> (w, v) \<in> byte_less"
  "(u, v) \<in> byte_less \<Longrightarrow> (v, w) \<in> byte_less \<Longrightarrow> (u, w) \<in> byte_less"
proof -
  have lin: "\<forall>a b. (a, b) \<in> {(x, y :: u8). x < y} \<or> a = b \<or> (b, a) \<in> {(x, y). x < y}"
    by (simp add: less_linear)
  show "(v, v) \<notin> byte_less" unfolding byte_less_def by (rule lexord_irreflexive) auto
  show "v = w \<or> (v, w) \<in> byte_less \<or> (w, v) \<in> byte_less"
    unfolding byte_less_def using lexord_linear[OF lin, of v w] by blast
  show "(u, v) \<in> byte_less \<Longrightarrow> (v, w) \<in> byte_less \<Longrightarrow> (u, w) \<in> byte_less"
    unfolding byte_less_def by (rule lexord_trans) (auto simp: trans_def)
qed

lemma key_less_iff:
  "((t, v), (t', v')) \<in> key_less \<longleftrightarrow> t < t' \<or> t = t' \<and> (length v < length v' \<or> length v = length v' \<and> (v, v') \<in> byte_less)"
  by (simp add: key_less_def)

lemma key_less_order:
  "(k, k) \<notin> key_less" "k = l \<or> (k, l) \<in> key_less \<or> (l, k) \<in> key_less"
  "(j, k) \<in> key_less \<Longrightarrow> (k, l) \<in> key_less \<Longrightarrow> (j, l) \<in> key_less"
proof -
  obtain t v t' v' u w where k: "k = (t, v)" "l = (t', v')" "j = (u, w)" by (cases k; cases l; cases j) blast
  show "(k, k) \<notin> key_less" using byte_less_order(1)[of v] by (simp add: k key_less_iff)
  show "k = l \<or> (k, l) \<in> key_less \<or> (l, k) \<in> key_less"
    using byte_less_order(2)[of v v'] less_linear[of t t'] less_linear[of "length v" "length v'"] by (auto simp: k key_less_iff)
  show "(j, k) \<in> key_less \<Longrightarrow> (k, l) \<in> key_less \<Longrightarrow> (j, l) \<in> key_less"
    using byte_less_order(3)[of w v v'] by (auto simp: k key_less_iff)
qed

lemma canonical_less_order:
  "(k, k) \<notin> canonical_less" "k = l \<or> (k, l) \<in> canonical_less \<or> (l, k) \<in> canonical_less"
  "(j, k) \<in> canonical_less \<Longrightarrow> (k, l) \<in> canonical_less \<Longrightarrow> (j, l) \<in> canonical_less"
proof -
  have lin: "\<forall>a b. (a, b) \<in> key_less \<or> a = b \<or> (b, a) \<in> key_less" using key_less_order(2) by blast
  have tr: "trans key_less" using key_less_order(3) by (auto simp: trans_def)
  show "(k, k) \<notin> canonical_less" unfolding canonical_less_def by (rule lexord_irreflexive) (use key_less_order(1) in blast)
  show "k = l \<or> (k, l) \<in> canonical_less \<or> (l, k) \<in> canonical_less"
    unfolding canonical_less_def using lexord_linear[OF lin, of k l] by blast
  show "(j, k) \<in> canonical_less \<Longrightarrow> (k, l) \<in> canonical_less \<Longrightarrow> (j, l) \<in> canonical_less"
    unfolding canonical_less_def by (rule lexord_trans) (auto intro: tr)
qed

lemma byte_less_Cons: "(x # xs, y # ys) \<in> byte_less \<longleftrightarrow> x < y \<or> x = y \<and> (xs, ys) \<in> byte_less"
  by (simp add: byte_less_def)

lemma compare_bytes_less:
  "length v = length w \<Longrightarrow> v \<noteq> w \<Longrightarrow> compare_bytes v w = Some (if (v, w) \<in> byte_less then -1 else 1)"
  by (induction v w rule: compare_bytes.induct) (auto simp: byte_less_Cons)

lemma canonical_less_Cons: "(x # xs, y # ys) \<in> canonical_less \<longleftrightarrow> (x, y) \<in> key_less \<or> x = y \<and> (xs, ys) \<in> canonical_less"
  by (simp add: canonical_less_def)

lemma compare_comps_Cons:
  "compare_comps (c # cs) (d # ds) =
     (if nc_key c = nc_key d then compare_comps cs ds else if (nc_key c, nc_key d) \<in> key_less then -1 else 1)"
  using compare_bytes_less[of "nc_Value c" "nc_Value d"] byte_less_order(1)[of "nc_Value d"]
  by (auto simp: nc_key_def key_less_iff)

lemma compare_comps_less:
  "\<not> prefix (map nc_key cs) (map nc_key ds) \<Longrightarrow> \<not> prefix (map nc_key ds) (map nc_key cs) \<Longrightarrow>
     compare_comps cs ds = (if (map nc_key cs, map nc_key ds) \<in> canonical_less then -1 else 1)"
proof (induction cs arbitrary: ds)
  case (Cons c cs)
  then obtain d ds' where d: "ds = d # ds'" by (cases ds) auto
  show ?case
  proof (cases "nc_key c = nc_key d")
    case True
    then show ?thesis using Cons by (simp add: d compare_comps_Cons canonical_less_Cons key_less_order(1) del: compare_comps.simps)
  next
    case False
    then show ?thesis by (simp add: d compare_comps_Cons canonical_less_Cons del: compare_comps.simps)
  qed
qed simp

lemma prefix_canonical:
  assumes "prefix xs ys" "xs \<noteq> ys"
  shows "(xs, ys) \<in> canonical_less"
proof -
  from assms obtain us where "ys = xs @ us" "us \<noteq> []" by (auto simp: prefix_def)
  then obtain z zs where "ys = xs @ z # zs" by (cases us) auto
  then show ?thesis unfolding canonical_less_def by (auto intro: lexord_append_rightI)
qed

lemma canonical_asym: "(k, l) \<in> canonical_less \<Longrightarrow> (l, k) \<notin> canonical_less"
  using canonical_less_order(1,3) by blast

text \<open>C19. \<^verbatim>\<open>Compare\<close> decides the canonical order of names, which compares components by type, then length, then bytes, and puts a prefix first: zero exactly on equal names, and a strict total order otherwise.\<close>

theorem name_Compare_canonical:
  "name_Compare n m = (if keys n = keys m then 0 else if (keys n, keys m) \<in> canonical_less then -1 else 1)
   \<and> name_Compare m n = - name_Compare n m
   \<and> (name_Compare n m = -1 \<and> name_Compare m l = -1 \<longrightarrow> name_Compare n l = -1)"
proof -
  have main: "name_Compare n m = (if keys n = keys m then 0 else if (keys n, keys m) \<in> canonical_less then -1 else 1)" for n m
  proof -
    show ?thesis
    proof (cases "prefix (keys n) (keys m) \<or> prefix (keys m) (keys n)")
      case True
      then show ?thesis
        using prefix_canonical[of "keys n" "keys m"] prefix_canonical[of "keys m" "keys n"]
          canonical_asym[of "keys m" "keys n"]
        by (auto simp: name_Compare_def name_Equals_keys name_PrefixOf_keys)
    next
      case False
      then show ?thesis
        using compare_comps_less[of "nm_comps n" "nm_comps m"]
        by (auto simp: name_Compare_def name_Equals_keys name_PrefixOf_keys keys_def)
    qed
  qed
  have "name_Compare m n = - name_Compare n m"
    using canonical_less_order(2)[of "keys n" "keys m"] canonical_asym[of "keys n" "keys m"]
    by (simp add: main) metis
  moreover have "name_Compare n l = -1" if c: "name_Compare n m = -1" "name_Compare m l = -1"
  proof -
    have nl: "(keys n, keys m) \<in> canonical_less" "(keys m, keys l) \<in> canonical_less"
      using c by (simp_all add: main split: if_splits)
    then have "(keys n, keys l) \<in> canonical_less" by (rule canonical_less_order(3))
    then show ?thesis using canonical_less_order(1)[of "keys l"] by (auto simp: main)
  qed
  ultimately show ?thesis using main by simp
qed

theorem name_Compare_canonical_witness:
  "name_Compare (Name [NewGenericNameComponent [98]] None []) (Name [NewGenericNameComponent [97, 97]] None []) = -1
   \<and> name_Compare (Name [NewGenericNameComponent [98]] None []) (Name [NewSegmentNameComponent 0] None []) = -1"
proof -
  let ?b = "Name [NewGenericNameComponent [98]] None []" and ?a = "Name [NewGenericNameComponent [97, 97]] None []"
    and ?s = "Name [NewSegmentNameComponent 0] None []"
  have "name_Compare ?b ?a = -1" "name_Compare ?a ?s = -1"
    by (simp_all add: name_Compare_def name_Equals_def name_PrefixOf_def nc_Type_def nc_Value_def NewGenericNameComponent_def
        NewSegmentNameComponent_def number_new_def)
  then show ?thesis using name_Compare_canonical[of ?b ?a ?s] by blast
qed

section \<open>The string round trip\<close>

text \<open>Escaped text consists of unreserved characters, periods, percent signs and hexadecimal digits.\<close>

lemma escape_byte_chars: "c \<in> set (escape_byte b) \<Longrightarrow> c \<noteq> 47 \<and> c \<noteq> 61"
  using hex_byte_range[of c b] by (auto simp: escape_byte_def unreserved_def split: if_splits)

lemma escapeComponent_chars: "47 \<notin> set (escapeComponent bs)" "61 \<notin> set (escapeComponent bs)"
  using escape_byte_chars by (fastforce simp: escapeComponent_def)+

lemma unescape_escape_byte:
  "unescapeComponent (escape_byte b @ s) = (case unescapeComponent s of Inl e \<Rightarrow> Inl e | Inr u \<Rightarrow> Inr (b # u))"
proof (cases "b = 46 \<or> unreserved b")
  case True
  then have "b \<noteq> 37" by (auto simp: unreserved_def)
  then show ?thesis using True by (simp add: escape_byte_def)
next
  case False
  obtain x y where h: "hex_byte b = [x, y]" by (simp add: hex_byte_def)
  have "hex_DecodeString [x, y] = Some [b]" using hex_roundtrip_byte[of b "[]"] h by simp
  then show ?thesis using False by (simp add: escape_byte_def h split: sum.split)
qed

text \<open>A value of periods only, the empty one included, gets three more periods that parsing does not take off.\<close>

definition all_periods :: "bytes \<Rightarrow> bool" where
  "all_periods bs \<longleftrightarrow> (\<forall>b\<in>set bs. b = 46)"

lemma all_periods_filter: "length (filter (\<lambda>b. b = 46) bs) = length bs \<longleftrightarrow> all_periods bs"
  by (simp add: length_filter_full all_periods_def)

lemma unescape_escape:
  "unescapeComponent (escapeComponent bs) = Inr (if all_periods bs then bs @ [46, 46, 46] else bs)"
proof -
  have "unescapeComponent (concat (map escape_byte bs) @ s) = (case unescapeComponent s of Inl e \<Rightarrow> Inl e | Inr u \<Rightarrow> Inr (bs @ u))" for s
    by (induction bs) (auto simp: unescape_escape_byte split: sum.split)
  note this[of "[46, 46, 46]"] this[of "[]"]
  then show ?thesis by (simp add: escapeComponent_def all_periods_filter)
qed

text \<open>Strings that hold no percent sign are their own unescaped form.\<close>

lemma unescape_plain: "37 \<notin> set s \<Longrightarrow> unescapeComponent s = Inr s"
  by (induction s) auto

lemma digits_chars: "c \<in> set (FormatUint n) \<Longrightarrow> c \<noteq> 37 \<and> c \<noteq> 47 \<and> c \<noteq> 61"
  using FormatUint_digits[of c n] by auto

lemma hex_chars: "c \<in> set (hex_EncodeToString bs) \<Longrightarrow> c \<noteq> 37 \<and> c \<noteq> 47 \<and> c \<noteq> 61"
  using hex_byte_range[of c] by (fastforce simp: hex_EncodeToString_def)

text \<open>The class invariant: the type of its class, a digest of 32 octets, a value that encodes the number.\<close>

definition number_ok :: "u16 \<Rightarrow> BaseNC \<Rightarrow> u64 \<Rightarrow> bool" where
  "number_ok t b r \<longleftrightarrow> nc_type b = t \<and> DecodeNNI (nc_value b) = Inr r"

fun nc_ok :: "NameComponent \<Rightarrow> bool" where
  "nc_ok (BaseNameComponent b) \<longleftrightarrow> True"
| "nc_ok (ImplicitSha256DigestComponent b) \<longleftrightarrow> nc_type b = 0x01 \<and> length (nc_value b) = 32"
| "nc_ok (ParametersSha256DigestComponent b) \<longleftrightarrow> nc_type b = 0x02 \<and> length (nc_value b) = 32"
| "nc_ok (GenericNameComponent b) \<longleftrightarrow> nc_type b = 0x08"
| "nc_ok (KeywordNameComponent b) \<longleftrightarrow> nc_type b = 0x20"
| "nc_ok (SegmentNameComponent b r) \<longleftrightarrow> number_ok 0x32 b r"
| "nc_ok (ByteOffsetNameComponent b r) \<longleftrightarrow> number_ok 0x34 b r"
| "nc_ok (VersionNameComponent b r) \<longleftrightarrow> number_ok 0x36 b r"
| "nc_ok (TimestampNameComponent b r) \<longleftrightarrow> number_ok 0x38 b r"
| "nc_ok (SequenceNumNameComponent b r) \<longleftrightarrow> number_ok 0x3A b r"

text \<open>What the printed form keeps of a component: all but the type of a keyword and padded numbers.\<close>

fun printed_key :: "NameComponent \<Rightarrow> u16 \<times> bytes" where
  "printed_key (BaseNameComponent b) = (nc_type b, if all_periods (nc_value b) then nc_value b @ [46, 46, 46] else nc_value b)"
| "printed_key (ImplicitSha256DigestComponent b) = (0x01, nc_value b)"
| "printed_key (ParametersSha256DigestComponent b) = (0x02, nc_value b)"
| "printed_key (GenericNameComponent b) = (0x08, if all_periods (nc_value b) then nc_value b @ [46, 46, 46] else nc_value b)"
| "printed_key (KeywordNameComponent b) = (0x08, if all_periods (nc_value b) then nc_value b @ [46, 46, 46] else nc_value b)"
| "printed_key (SegmentNameComponent b r) = (0x32, EncodeNNI r)"
| "printed_key (ByteOffsetNameComponent b r) = (0x34, EncodeNNI r)"
| "printed_key (VersionNameComponent b r) = (0x36, EncodeNNI r)"
| "printed_key (TimestampNameComponent b r) = (0x38, EncodeNNI r)"
| "printed_key (SequenceNumNameComponent b r) = (0x3A, EncodeNNI r)"

lemma parse_component_typed:
  assumes "61 \<notin> set k" "61 \<notin> set v"
  shows "parse_component (k @ lit ''='' @ v) =
    (case unescapeComponent v of Inl e \<Rightarrow> Inl (ErrText ''error unescaping component value'') | Inr u \<Rightarrow> parse_typed k u)"
  using assms by (simp add: parse_component_def Split_sep)

lemma parse_number_FormatUint: "parse_number mk err (uint_string r) = Inr (Ref (mk r))"
  using unsigned_less[of r, where ?'a = nat] by (simp add: parse_number_def uint_string_def ParseUint_FormatUint)

lemma unescape_uint: "unescapeComponent (uint_string r) = Inr (uint_string r)" "61 \<notin> set (uint_string r)" "47 \<notin> set (uint_string r)"
  using digits_chars by (auto simp: uint_string_def intro!: unescape_plain)

text \<open>A decimal number is none of the keywords of the typed form.\<close>

lemma FormatUint_not_keyword:
  assumes "c \<in> set w" "\<not> (48 \<le> c \<and> c \<le> 57)"
  shows "FormatUint n \<noteq> w"
  using FormatUint_digits[of c n] assms by auto

lemma parse_typed_number:
  "\<exists>c. parse_typed (FormatUint (unat (t :: u16))) v = Inr (Ref c) \<and> nc_key c = (t, v)"
proof -
  have k: "FormatUint n \<noteq> lit ''sha256digest''" "FormatUint n \<noteq> lit ''params-sha256''" "FormatUint n \<noteq> lit ''seg''"
    "FormatUint n \<noteq> lit ''off''" "FormatUint n \<noteq> lit ''v''" "FormatUint n \<noteq> lit ''t''" "FormatUint n \<noteq> lit ''seq''" for n
    by (rule FormatUint_not_keyword[of "hd (lit ''sha256digest'')"] FormatUint_not_keyword[of "hd (lit ''params-sha256'')"]
        FormatUint_not_keyword[of "hd (lit ''off'')"] FormatUint_not_keyword[of "hd (lit ''v'')"]
        FormatUint_not_keyword[of "hd (lit ''t'')"]; simp)+
  show ?thesis
  proof (cases "FormatUint (unat t) = lit ''8''")
    case True
    then have "parse_digits (lit ''8'') 0 = Some (unat t)" by (metis parse_FormatUint)
    then have "t = 8" by (simp add: word_unat_eq_iff)
    then show ?thesis using True
      by (simp add: parse_typed_def nc_key_def nc_Type_def nc_Value_def NewGenericNameComponent_def)
  next
    case False
    have "ParseUint (FormatUint (unat t)) 16 = Some (unat t)"
      using unsigned_less[of t, where ?'a = nat] by (intro ParseUint_FormatUint) simp
    then show ?thesis using False k by (simp add: parse_typed_def nc_key_def nc_Type_def nc_Value_def NewBaseNameComponent_def)
  qed
qed

lemma nc_key_new [simp]:
  "nc_key (NewBaseNameComponent t v) = (t, v)" "nc_key (NewGenericNameComponent v) = (0x08, v)" "nc_key (NewKeywordNameComponent v) = (0x20, v)"
  "nc_key (NewSegmentNameComponent r) = (0x32, EncodeNNI r)" "nc_key (NewByteOffsetNameComponent r) = (0x34, EncodeNNI r)"
  "nc_key (NewVersionNameComponent r) = (0x36, EncodeNNI r)" "nc_key (NewTimestampNameComponent r) = (0x38, EncodeNNI r)"
  "nc_key (NewSequenceNumNameComponent r) = (0x3A, EncodeNNI r)"
  by (simp_all add: nc_key_def nc_Type_def nc_Value_def NewBaseNameComponent_def NewGenericNameComponent_def NewKeywordNameComponent_def
      NewSegmentNameComponent_def NewByteOffsetNameComponent_def NewVersionNameComponent_def NewTimestampNameComponent_def
      NewSequenceNumNameComponent_def number_new_def)

lemma parse_typed_keywords:
  "parse_typed (lit ''seg'') (uint_string r) = Inr (Ref (NewSegmentNameComponent r))"
  "parse_typed (lit ''off'') (uint_string r) = Inr (Ref (NewByteOffsetNameComponent r))"
  "parse_typed (lit ''v'') (uint_string r) = Inr (Ref (NewVersionNameComponent r))"
  "parse_typed (lit ''t'') (uint_string r) = Inr (Ref (NewTimestampNameComponent r))"
  "parse_typed (lit ''seq'') (uint_string r) = Inr (Ref (NewSequenceNumNameComponent r))"
  "length d = 32 \<Longrightarrow> parse_typed (lit ''sha256digest'') (hex_EncodeToString d) = Inr (Ref (ImplicitSha256DigestComponent (NC 0x01 d None)))"
  "length d = 32 \<Longrightarrow> parse_typed (lit ''params-sha256'') (hex_EncodeToString d) = Inr (Ref (ParametersSha256DigestComponent (NC 0x02 d None)))"
  by (simp_all add: parse_typed_def parse_number_FormatUint hex_roundtrip of_ptr_def NewImplicitSha256DigestComponent_def
      NewParametersSha256DigestComponent_def)

lemma parse_generic:
  "parse_component (escapeComponent v) = Inr (Ref (NewGenericNameComponent (if all_periods v then v @ [46, 46, 46] else v)))"
  using escapeComponent_chars(2) by (simp add: parse_component_def unescape_escape)

lemma unescape_hex: "unescapeComponent (hex_EncodeToString d) = Inr (hex_EncodeToString d)" "61 \<notin> set (hex_EncodeToString d)" "47 \<notin> set (hex_EncodeToString d)"
  using hex_chars by (auto intro!: unescape_plain)

lemma parse_nc_String:
  assumes "nc_ok c"
  shows "\<exists>d. parse_component (nc_String c) = Inr (Ref d) \<and> nc_key d = printed_key c"
proof (cases c)
  case (BaseNameComponent b)
  obtain d where d: "parse_typed (FormatUint (unat (nc_type b))) (snd (printed_key c)) = Inr (Ref d)" "nc_key d = printed_key c"
    using parse_typed_number[of "nc_type b" "snd (printed_key c)"] by (auto simp: BaseNameComponent)
  have "61 \<notin> set (FormatUint (unat (nc_type b)))" using digits_chars by blast
  then show ?thesis
    using d parse_component_typed[OF _ escapeComponent_chars(2)] by (simp add: BaseNameComponent unescape_escape)
next
  case (ImplicitSha256DigestComponent b)
  then show ?thesis
    using assms parse_component_typed[OF _ unescape_hex(2), of "lit ''sha256digest''" "nc_value b"]
      parse_typed_keywords(6)[of "nc_value b"]
    by (simp add: unescape_hex nc_key_def nc_Type_def nc_Value_def)
next
  case (ParametersSha256DigestComponent b)
  then show ?thesis
    using assms parse_component_typed[OF _ unescape_hex(2), of "lit ''params-sha256''" "nc_value b"]
      parse_typed_keywords(7)[of "nc_value b"]
    by (simp add: unescape_hex nc_key_def nc_Type_def nc_Value_def)
next
  case (GenericNameComponent b)
  then show ?thesis by (simp add: parse_generic)
next
  case (KeywordNameComponent b)
  then show ?thesis by (simp add: parse_generic)
next
  case (SegmentNameComponent b r)
  then show ?thesis
    using parse_component_typed[OF _ unescape_uint(2), of "lit ''seg''" r] parse_typed_keywords(1)[of r] by (simp add: unescape_uint)
next
  case (ByteOffsetNameComponent b r)
  then show ?thesis
    using parse_component_typed[OF _ unescape_uint(2), of "lit ''off''" r] parse_typed_keywords(2)[of r] by (simp add: unescape_uint)
next
  case (VersionNameComponent b r)
  then show ?thesis
    using parse_component_typed[OF _ unescape_uint(2), of "lit ''v''" r] parse_typed_keywords(3)[of r] by (simp add: unescape_uint)
next
  case (TimestampNameComponent b r)
  then show ?thesis
    using parse_component_typed[OF _ unescape_uint(2), of "lit ''t''" r] parse_typed_keywords(4)[of r] by (simp add: unescape_uint)
next
  case (SequenceNumNameComponent b r)
  then show ?thesis
    using parse_component_typed[OF _ unescape_uint(2), of "lit ''seq''" r] parse_typed_keywords(5)[of r] by (simp add: unescape_uint)
qed

lemma nc_String_chars: "47 \<notin> set (nc_String c)" 
  using escapeComponent_chars(1) unescape_uint(3) unescape_hex(3) digits_chars[of 47]
  by (cases c) (auto simp del: lit_simps simp: lit_def)

lemma escape_not_Nil: "escapeComponent v \<noteq> []"
  by (cases v) (auto simp: escapeComponent_def escape_byte_def)

lemma nc_String_not_Nil: "nc_String c \<noteq> []"
  using escape_not_Nil by (cases c) auto

text \<open>The string of a name from its components, and the names whose cached string is that.\<close>

definition uri :: "NameComponent list \<Rightarrow> gostring" where
  "uri cs = concat (map (\<lambda>c. 47 # nc_String c) cs)"

definition str_ok :: "Name \<Rightarrow> bool" where
  "str_ok n \<longleftrightarrow> nm_str n = uri (nm_comps n)"

lemma parse_components_uri:
  "\<forall>c\<in>set cs. nc_ok c \<Longrightarrow>
     \<exists>ds n'. parse_components (map nc_String cs) n = Inr (Inr n') \<and> nm_comps n' = nm_comps n @ ds
       \<and> map nc_key ds = map printed_key cs \<and> (str_ok n \<longrightarrow> str_ok n')"
proof (induction cs arbitrary: n)
  case (Cons c cs)
  then obtain d where d: "parse_component (nc_String c) = Inr (Ref d)" "nc_key d = printed_key c"
    using parse_nc_String by fastforce
  obtain ds n' where n': "parse_components (map nc_String cs) (name_Append d n) = Inr (Inr n')" "nm_comps n' = nm_comps (name_Append d n) @ ds"
    "map nc_key ds = map printed_key cs" "str_ok (name_Append d n) \<longrightarrow> str_ok n'"
    using Cons.IH[of "name_Append d n"] Cons.prems by auto
  then show ?case
    using d by (intro exI[of _ "d # ds"] exI[of _ n']) (simp add: name_Append_iface_def name_Append_def str_ok_def uri_def)
qed simp

fun prints_exactly :: "NameComponent \<Rightarrow> bool" where
  "prints_exactly (BaseNameComponent b) \<longleftrightarrow> \<not> all_periods (nc_value b)"
| "prints_exactly (GenericNameComponent b) \<longleftrightarrow> \<not> all_periods (nc_value b)"
| "prints_exactly (KeywordNameComponent b) \<longleftrightarrow> False"
| "prints_exactly (SegmentNameComponent b r) \<longleftrightarrow> nc_value b = EncodeNNI r"
| "prints_exactly (ByteOffsetNameComponent b r) \<longleftrightarrow> nc_value b = EncodeNNI r"
| "prints_exactly (VersionNameComponent b r) \<longleftrightarrow> nc_value b = EncodeNNI r"
| "prints_exactly (TimestampNameComponent b r) \<longleftrightarrow> nc_value b = EncodeNNI r"
| "prints_exactly (SequenceNumNameComponent b r) \<longleftrightarrow> nc_value b = EncodeNNI r"
| "prints_exactly c \<longleftrightarrow> True"

lemma printed_key_exact: "nc_ok c \<Longrightarrow> printed_key c = nc_key c \<longleftrightarrow> prints_exactly c"
  by (cases c) (auto simp: nc_key_def nc_Type_def nc_Value_def number_ok_def)

lemma NameFromString_uri:
  assumes "\<forall>c\<in>set cs. nc_ok c" "cs \<noteq> []"
  shows "\<exists>n'. NameFromString (uri cs) = Inr (Inr n') \<and> keys n' = map printed_key cs \<and> str_ok n'"
proof -
  have "Split 47 (uri cs) = [] # map nc_String cs"
    using Split_joined[of "map nc_String cs" 47] nc_String_chars by (simp add: uri_def comp_def)
  moreover obtain c cs' where c: "cs = c # cs'" using assms(2) by (cases cs) auto
  moreover obtain ds n' where "parse_components (map nc_String cs) NewName = Inr (Inr n')" "nm_comps n' = ds"
      "map nc_key ds = map printed_key cs" "str_ok n'"
    using parse_components_uri[OF assms(1), of NewName] by (auto simp: NewName_def str_ok_def uri_def)
  ultimately show ?thesis
    by (intro exI[of _ n']) (simp add: NameFromString_def nc_String_not_Nil keys_def uri_def)
qed



end
