(* ===== verification/Name_Codec.thy ===== *)
theory Name_Codec
  imports Name_Spec
begin

text \<open>
  Names on the wire: which components decode, what encoding a name yields whatever has been cached
  before, and how the edits of a name treat its two caches.
\<close>

section \<open>Components\<close>

definition number_types :: "u32 set" where
  "number_types = {0x32, 0x34, 0x36, 0x38, 0x3A}"

text \<open>The blocks that a component decodes from, and those that a constructor answers with a nil pointer.\<close>

definition bad_value :: "u32 \<Rightarrow> bytes \<Rightarrow> bool" where
  "bad_value t v \<longleftrightarrow> (t \<in> {0x01, 0x02} \<and> length v \<noteq> 32) \<or> (t \<in> number_types \<and> \<not> (1 \<le> length v \<and> length v \<le> 8))"

definition decodable :: "u32 \<Rightarrow> bytes \<Rightarrow> bool" where
  "decodable t v \<longleftrightarrow> t \<le> 0xFFFF \<and> \<not> bad_value t v"

lemma number_decode_cases:
  "number_decode C t v = (if 1 \<le> length v \<and> length v \<le> 8 then Some (C (NC t v None) (Uint64 (nni_pad v))) else None)"
  by (cases v) (simp_all add: number_decode_def DecodeNNI_def)

lemmas decode_number_defs =
  DecodeSegmentNameComponent_def DecodeByteOffsetNameComponent_def DecodeVersionNameComponent_def DecodeTimestampNameComponent_def
  DecodeSequenceNumNameComponent_def number_decode_cases

lemmas new_component_defs =
  NewImplicitSha256DigestComponent_def NewParametersSha256DigestComponent_def NewGenericNameComponent_def NewKeywordNameComponent_def
  NewBaseNameComponent_def NewSegmentNameComponent_def NewByteOffsetNameComponent_def NewVersionNameComponent_def
  NewTimestampNameComponent_def NewSequenceNumNameComponent_def number_new_def

lemma number_ok_decoded: "1 \<le> length v \<Longrightarrow> length v \<le> 8 \<Longrightarrow> number_ok t (NC t v None) (Uint64 (nni_pad v))"
  by (auto simp: number_ok_def DecodeNNI_def)

lemma DecodeNameComponent_cases:
  "bad_value (b_type b) (b_value b) \<Longrightarrow> DecodeNameComponent (Some b) = (NilPtr, None)"
  "b_type b > 0xFFFF \<Longrightarrow> DecodeNameComponent (Some b) = (NilIface, Some ErrDecodeNameComponent)"
  "decodable (b_type b) (b_value b) \<Longrightarrow>
     \<exists>c. DecodeNameComponent (Some b) = (Ref c, None) \<and> nc_ok c \<and> nc_key c = (ucast (b_type b), b_value b) \<and> nc_wire (nc_base c) = None"
proof -
  show "bad_value (b_type b) (b_value b) \<Longrightarrow> DecodeNameComponent (Some b) = (NilPtr, None)"
    by (auto simp: bad_value_def number_types_def DecodeNameComponent_def Let_def decode_number_defs of_ptr_def new_component_defs)
  show "b_type b > 0xFFFF \<Longrightarrow> DecodeNameComponent (Some b) = (NilIface, Some ErrDecodeNameComponent)"
    by (auto simp: DecodeNameComponent_def Let_def)
  assume "decodable (b_type b) (b_value b)"
  then have d: "\<not> bad_value (b_type b) (b_value b)" "\<not> b_type b > 0xFFFF" by (simp_all add: decodable_def not_less)
  then show "\<exists>c. DecodeNameComponent (Some b) = (Ref c, None) \<and> nc_ok c \<and> nc_key c = (ucast (b_type b), b_value b) \<and> nc_wire (nc_base c) = None"
    by (auto simp: bad_value_def number_types_def DecodeNameComponent_def Let_def decode_number_defs of_ptr_def new_component_defs
        nc_key_def nc_Type_def nc_Value_def number_ok_decoded not_less_eq_eq)
qed

lemma nc_with_key: "nc_type (f (nc_base c)) = nc_type (nc_base c) \<Longrightarrow> nc_value (f (nc_base c)) = nc_value (nc_base c) \<Longrightarrow>
    nc_key (nc_with f c) = nc_key c \<and> (nc_ok (nc_with f c) \<longleftrightarrow> nc_ok c) \<and> nc_base (nc_with f c) = f (nc_base c)"
  by (cases c) (simp_all add: nc_key_def nc_Type_def nc_Value_def number_ok_def)

lemma base_Encode_keeps: "nc_type (snd (base_Encode b)) = nc_type b" "nc_value (snd (base_Encode b)) = nc_value b"
  by (simp_all add: base_Encode_def Let_def split: option.split)

lemma nc_DeepCopy_ok [simp]: "nc_key (nc_DeepCopy c) = nc_key c" "nc_ok (nc_DeepCopy c) \<longleftrightarrow> nc_ok c"
    "nc_wire (nc_base (nc_DeepCopy c)) = None"
  using nc_with_key[of base_DeepCopy c] by (simp_all add: nc_DeepCopy_def base_DeepCopy_def)

lemma nc_Encode_ok [simp]: "nc_key (snd (nc_Encode c)) = nc_key c" "nc_ok (snd (nc_Encode c)) \<longleftrightarrow> nc_ok c"
  using nc_with_key[of "\<lambda>b. snd (base_Encode b)" c] by (simp_all add: nc_Encode_def base_Encode_keeps)

lemma nc_SetValue_ok:
  "nc_ok c \<Longrightarrow> nc_SetValue v c = Some (e, c') \<Longrightarrow>
     nc_ok c' \<and> (if e = None then nc_key c' = (nc_Type c, v) else c' = c \<and> length v \<noteq> 32)"
  by (cases c) (auto simp: digest_SetValue_def generic_SetValue_def nc_key_def nc_Type_def nc_Value_def split: if_splits)

lemma nc_SetNumber_ok:
  "nc_ok c \<Longrightarrow> nc_SetNumber r c = Some c' \<Longrightarrow> nc_ok c' \<and> nc_key c' = (nc_Type c, EncodeNNI r)"
  by (cases c) (auto simp: number_SetValue_def nc_key_def nc_Type_def nc_Value_def number_ok_def DecodeNNI_EncodeNNI)

lemma DecodeNameComponent_Ref:
  assumes "DecodeNameComponent (Some b) = (Ref d, err)"
  shows "nc_ok d \<and> nc_key d = (ucast (b_type b), b_value b) \<and> err = None"
proof -
  have "\<not> bad_value (b_type b) (b_value b)" "\<not> b_type b > 0xFFFF"
    using assms DecodeNameComponent_cases(1,2)[of b] by auto
  then have "decodable (b_type b) (b_value b)" by (simp add: decodable_def not_less)
  then show ?thesis using DecodeNameComponent_cases(3)[of b] assms by auto
qed

text \<open>
  C18. The class invariant of name components, the type of the class, digests of 32 octets and
  values that encode the number, holds for every component that decoding yields and is kept by
  copying, encoding and every setter; a setter that reports no error stores the value or number it
  was given, and a failing one changes nothing.
\<close>

theorem component_class_invariant:
  shows "(DecodeNameComponent (Some b) = (Ref d, err) \<longrightarrow> nc_ok d \<and> nc_key d = (ucast (b_type b), b_value b) \<and> err = None)
    \<and> (nc_ok c \<longrightarrow>
         nc_ok (nc_DeepCopy c) \<and> nc_key (nc_DeepCopy c) = nc_key c
       \<and> nc_ok (snd (nc_Encode c)) \<and> nc_key (snd (nc_Encode c)) = nc_key c
       \<and> (nc_SetValue v c = Some (e, c') \<longrightarrow> nc_ok c' \<and> (if e = None then nc_key c' = (nc_Type c, v) else c' = c \<and> length v \<noteq> 32))
       \<and> (nc_SetNumber r c = Some c'' \<longrightarrow> nc_ok c'' \<and> nc_key c'' = (nc_Type c, EncodeNNI r)))"
  using DecodeNameComponent_Ref[of b d err] nc_SetValue_ok[of c v e c'] nc_SetNumber_ok[of c r c''] by simp

theorem component_class_invariant_witness:
  "\<exists>d. DecodeNameComponent (Some (NewBlock 0x32 [0, 9])) = (Ref d, None) \<and> nc_ok d \<and> nc_key d = (0x32, [0, 9])"
proof -
  have "decodable (b_type (NewBlock 0x32 [0, 9])) (b_value (NewBlock 0x32 [0, 9]))"
    by (simp add: decodable_def bad_value_def number_types_def NewBlock_def)
  then obtain d where "DecodeNameComponent (Some (NewBlock 0x32 [0, 9])) = (Ref d, None)"
    using DecodeNameComponent_cases(3)[of "NewBlock 0x32 [0, 9]"] by metis
  then show ?thesis using component_class_invariant[of "NewBlock 0x32 [0, 9]" d None, THEN conjunct1] by (simp add: NewBlock_def)
qed

section \<open>Decoding a name\<close>

lemma ucast_16_32: "(ucast (ucast (t :: u16) :: u32) :: u16) = t"
  by (rule bit_word_eqI) (auto simp: bit_simps dest: bit_imp_le_length)

lemma decode_comps_good:
  "\<forall>b\<in>set bs. decodable (b_type b) (b_value b) \<Longrightarrow>
     \<exists>ds. decode_comps bs cs s = Inr (Inr (cs @ ds, s @ uri ds)) \<and> map nc_key ds = map (\<lambda>b. (ucast (b_type b), b_value b)) bs
       \<and> (\<forall>d\<in>set ds. nc_ok d \<and> nc_wire (nc_base d) = None)"
proof (induction bs arbitrary: cs s)
  case Nil
  then show ?case by (simp add: uri_def)
next
  case (Cons b bs)
  then obtain c where c: "DecodeNameComponent (Some b) = (Ref c, None)" "nc_ok c" "nc_key c = (ucast (b_type b), b_value b)"
      "nc_wire (nc_base c) = None"
    using DecodeNameComponent_cases(3)[of b] by auto
  obtain ds where "decode_comps bs (cs @ [c]) (s @ lit ''/'' @ nc_String c) = Inr (Inr ((cs @ [c]) @ ds, (s @ lit ''/'' @ nc_String c) @ uri ds))"
      "map nc_key ds = map (\<lambda>b. (ucast (b_type b), b_value b)) bs" "\<forall>d\<in>set ds. nc_ok d \<and> nc_wire (nc_base d) = None"
    using Cons.IH[of "cs @ [c]" "s @ lit ''/'' @ nc_String c"] Cons.prems by auto
  then show ?case using c by (intro exI[of _ "c # ds"]) (simp add: uri_def)
qed

lemma decode_comps_bad:
  assumes "\<forall>b\<in>set xs. decodable (b_type b) (b_value b)" "\<not> decodable (b_type b) (b_value b)"
  shows "decode_comps (xs @ b # ys) cs s =
    (if b_type b > 0xFFFF then Inr (Inl ErrDecodeNameComponent) else Inl NilDereference)"
  using assms(1)
proof (induction xs arbitrary: cs s)
  case Nil
  show ?case
  proof (cases "b_type b > 0xFFFF")
    case True
    then show ?thesis by (simp add: DecodeNameComponent_cases(2))
  next
    case False
    then have "bad_value (b_type b) (b_value b)" using assms(2) by (auto simp: decodable_def not_less)
    then show ?thesis using False by (simp add: DecodeNameComponent_cases(1))
  qed
next
  case (Cons x xs)
  then obtain c where "DecodeNameComponent (Some x) = (Ref c, None)" using DecodeNameComponent_cases(3)[of x] by auto
  then show ?case using Cons by simp
qed

text \<open>
  Decoding a name block whose value parses into sub-elements yields their types and values as
  components when all of them decode. Otherwise the first one that does not decides: a type above
  16 bits is reported as an error, but a digest or a number of a wrong length panics, since the nil
  pointer its constructor returns passes the check for nil and is then asked for its string.
\<close>

theorem DecodeName_outcomes:
  assumes "parse_loop v = Inr (bs, None)" "w \<noteq> []"
  shows "((\<forall>b\<in>set bs. decodable (b_type b) (b_value b)) \<longrightarrow>
      (\<exists>n. DecodeName (Some (Block 0x07 v [] w)) = Inr (Inr n) \<and> keys n = map (\<lambda>b. (ucast (b_type b), b_value b)) bs
        \<and> (\<forall>c\<in>set (nm_comps n). nc_ok c) \<and> str_ok n))
    \<and> (bs = xs @ b # ys \<and> (\<forall>b\<in>set xs. decodable (b_type b) (b_value b)) \<and> \<not> decodable (b_type b) (b_value b) \<longrightarrow>
      DecodeName (Some (Block 0x07 v [] w)) = (if b_type b > 0xFFFF then Inr (Inl ErrDecodeNameComponent) else Inl NilDereference))"
proof (intro conjI impI)
  have dn: "DecodeName (Some (Block 0x07 v [] w)) = rbind (decode_comps bs [] []) (\<lambda>r.
      Inr (case r of Inl e \<Rightarrow> Inl e | Inr (cs, s) \<Rightarrow> Inr (Name cs (Some (Block 0x07 v bs w)) s)))"
    using assms by (simp add: DecodeName_def blk_Parse_def)
  show "\<exists>n. DecodeName (Some (Block 0x07 v [] w)) = Inr (Inr n) \<and> keys n = map (\<lambda>b. (ucast (b_type b), b_value b)) bs
        \<and> (\<forall>c\<in>set (nm_comps n). nc_ok c) \<and> str_ok n" if good: "\<forall>b\<in>set bs. decodable (b_type b) (b_value b)"
    using decode_comps_good[OF good, of "[]" "[]"] by (auto simp: dn keys_def str_ok_def)
  show "DecodeName (Some (Block 0x07 v [] w)) = (if b_type b > 0xFFFF then Inr (Inl ErrDecodeNameComponent) else Inl NilDereference)"
    if bad: "bs = xs @ b # ys \<and> (\<forall>b\<in>set xs. decodable (b_type b) (b_value b)) \<and> \<not> decodable (b_type b) (b_value b)"
    using decode_comps_bad[of xs b ys "[]" "[]"] bad by (auto simp: dn)
qed

theorem DecodeName_outcomes_witness:
  "DecodeName (Some (Block 0x07 [8, 1, 97, 1, 1, 5] [] [7, 6, 8, 1, 97, 1, 1, 5])) = Inl NilDereference"
proof -
  have "parse_loop (concat (map canon [NewBlock 8 [97], NewBlock 1 [5]])) = Inr (map flat [NewBlock 8 [97], NewBlock 1 [5]], None)"
    by (rule parse_loop_canon) (simp add: NewBlock_def tlv_bytes_def EncodeVarNum_def)
  then have p: "parse_loop [8, 1, 97, 1, 1, 5] = Inr ([Block 8 [97] [] [8, 1, 97]] @ Block 1 [5] [] [1, 1, 5] # [], None)"
    by (simp add: NewBlock_def tlv_bytes_def EncodeVarNum_def flat_def payload_def)
  show ?thesis
    using DecodeName_outcomes[OF p, of "[7, 6, 8, 1, 97, 1, 1, 5]" "[Block 8 [97] [] [8, 1, 97]]" "Block 1 [5] [] [1, 1, 5]" "[]"]
    by (simp add: decodable_def bad_value_def number_types_def)
qed

section \<open>Encoding a name\<close>

text \<open>The caches of a component and of a name that hold the encoding of its keys.\<close>

definition key_bytes :: "u16 \<times> bytes \<Rightarrow> bytes" where
  "key_bytes k = tlv_bytes (ucast (fst k)) (snd k)"

definition nc_cache_ok :: "NameComponent \<Rightarrow> bool" where
  "nc_cache_ok c \<longleftrightarrow>
     (case nc_wire (nc_base c) of
        None \<Rightarrow> True
      | Some w \<Rightarrow> w = Block (ucast (nc_Type c)) (nc_Value c) [] (key_bytes (nc_key c)))"

definition name_bytes :: "(u16 \<times> bytes) list \<Rightarrow> bytes" where
  "name_bytes ks = tlv_bytes 0x07 (concat (map key_bytes ks))"

definition name_ok :: "Name \<Rightarrow> bool" where
  "name_ok n \<longleftrightarrow> (\<forall>c\<in>set (nm_comps n). nc_ok c \<and> nc_cache_ok c)
     \<and> (case nm_wire n of None \<Rightarrow> True | Some w \<Rightarrow> b_type w = 0x07 \<and> b_wire w = name_bytes (keys n))"

lemma nc_Encode_block:
  assumes "nc_cache_ok c"
  shows "fst (nc_Encode c) = Block (ucast (nc_Type c)) (nc_Value c) [] (key_bytes (nc_key c))"
    "nc_cache_ok (snd (nc_Encode c))"
proof -
  have w: "fst (base_Encode (nc_base c)) = Block (ucast (nc_Type c)) (nc_Value c) [] (key_bytes (nc_key c))"
    using assms by (auto simp: base_Encode_def nc_cache_ok_def NewBlock_def nc_Type_def nc_Value_def key_bytes_def nc_key_def
        tlv_bytes_def Let_def split: option.splits)
  then show "fst (nc_Encode c) = Block (ucast (nc_Type c)) (nc_Value c) [] (key_bytes (nc_key c))" by (simp add: nc_Encode_def)
  have "nc_wire (snd (base_Encode (nc_base c))) = Some (fst (base_Encode (nc_base c)))"
    by (simp add: base_Encode_def Let_def split: option.split)
  then have "nc_wire (nc_base (snd (nc_Encode c))) = Some (fst (nc_Encode c))"
    using nc_with_key[of "\<lambda>b. snd (base_Encode b)" c] by (simp add: nc_Encode_def base_Encode_keeps)
  then show "nc_cache_ok (snd (nc_Encode c))"
    using w nc_Encode_ok(1)[of c] by (simp add: nc_cache_ok_def nc_Encode_def nc_key_def)
qed

lemma fold_Append:
  "b_subs (fold (\<lambda>c b. blk_Append (f c) b) cs b) = b_subs b @ map f cs
   \<and> b_type (fold (\<lambda>c b. blk_Append (f c) b) cs b) = b_type b
   \<and> b_value (fold (\<lambda>c b. blk_Append (f c) b) cs b) = b_value b
   \<and> (b_wire b = [] \<longrightarrow> b_wire (fold (\<lambda>c b. blk_Append (f c) b) cs b) = [])"
  by (induction cs arbitrary: b) (simp_all add: blk_Append_def)

lemma name_Encode_wire:
  assumes "name_ok n"
  shows "b_wire (fst (name_Encode n)) = name_bytes (keys n)" "b_type (fst (name_Encode n)) = 0x07"
    "name_ok (snd (name_Encode n))" "keys (snd (name_Encode n)) = keys n" "nm_wire (snd (name_Encode n)) = Some (fst (name_Encode n))"
proof -
  let ?cs = "nm_comps n"
  have c: "nc_ok c \<and> nc_cache_ok c" if "c \<in> set ?cs" for c using assms that by (simp add: name_ok_def)
  show *: "nm_wire (snd (name_Encode n)) = Some (fst (name_Encode n))"
    by (simp add: name_Encode_def Let_def split: option.split)
  show keys: "keys (snd (name_Encode n)) = keys n"
    by (simp add: name_Encode_def Let_def keys_def comp_def split: option.split)
  have wire: "b_wire (fst (name_Encode n)) = name_bytes (keys n) \<and> b_type (fst (name_Encode n)) = 0x07"
  proof (cases "nm_wire n")
    case None
    let ?w = "fold (\<lambda>c b. blk_Append (fst c) b) (map nc_Encode ?cs) (blk_SetType 0x07 (Block 0 [] [] []))"
    have subs: "b_subs ?w = map (\<lambda>c. fst (nc_Encode c)) ?cs" "b_type ?w = 0x07" "b_value ?w = []" "b_wire ?w = []"
      using fold_Append[of fst "map nc_Encode ?cs" "blk_SetType 0x07 (Block 0 [] [] [])"] by (simp_all add: blk_SetType_def)
    have enc: "canon (fst (nc_Encode c)) = key_bytes (nc_key c)" "cached_ok (fst (nc_Encode c))" if "c \<in> set ?cs" for c
      using nc_Encode_block(1)[of c] c[OF that] by (simp_all add: key_bytes_def nc_key_def cached_ok.simps)
    have "cached_ok W \<and> canon W = name_bytes (keys n)"
      if W: "b_subs W = map (\<lambda>c. fst (nc_Encode c)) ?cs" "b_type W = 0x07" "b_value W = []" "b_wire W = []" for W
    proof -
      have "concat (map canon (b_subs W)) = concat (map key_bytes (keys n))"
        using enc(1) by (simp add: W keys_def comp_def del: canon.simps cong: map_cong)
      then have "payload W = concat (map key_bytes (keys n))"
        by (cases "?cs = []") (simp_all add: payload_def W keys_def)
      then show ?thesis using W enc(2) by (cases W) (auto simp: canon_eq name_bytes_def)
    qed
    note this[OF subs]
    then show ?thesis
      using blk_Wire_spec[of ?w] subs(2) by (simp add: name_Encode_def None Let_def del: fold_map)
  next
    case (Some w)
    then show ?thesis using assms by (simp add: name_Encode_def name_ok_def)
  qed
  then show "b_wire (fst (name_Encode n)) = name_bytes (keys n)" "b_type (fst (name_Encode n)) = 0x07" by simp_all
  have "\<forall>d\<in>set (nm_comps (snd (name_Encode n))). nc_ok d \<and> nc_cache_ok d"
    using c nc_Encode_block(2) by (auto simp: name_Encode_def Let_def split: option.split)
  then show "name_ok (snd (name_Encode n))"
    using wire by (simp add: name_ok_def * keys)
qed

lemma keys_DeepCopy [simp]: "keys (name_DeepCopy n) = keys n"
  by (simp add: keys_def name_DeepCopy_def comp_def)

text \<open>
  Encoding a name whose caches are right, and decoding the wire, yields the same types and
  values and a right string, provided every component has the length its type asks for; a second
  encoding returns the same wire.
\<close>

theorem name_wire_roundtrip:
  assumes "name_ok n" "\<forall>(t, v)\<in>set (keys n). decodable (ucast t) v" "length (b_wire (fst (name_Encode n))) < 2 ^ 63"
  shows "\<exists>b n'. DecodeBlock (b_wire (fst (name_Encode n))) = Inr (Inr (b, of_nat (length (b_wire (fst (name_Encode n))))))
    \<and> DecodeName (Some b) = Inr (Inr n') \<and> keys n' = keys n \<and> str_ok n' \<and> b_wire (fst (name_Encode n')) = b_wire (fst (name_Encode n))"
proof -
  let ?ks = "keys n" and ?w = "b_wire (fst (name_Encode n))"
  let ?blk = "\<lambda>k. Block (ucast (fst k)) (snd k) [] []"
  let ?v = "concat (map key_bytes ?ks)"
  have w: "?w = tlv_bytes 0x07 ?v" using name_Encode_wire(1)[OF assms(1)] by (simp add: name_bytes_def)
  have v: "?v = concat (map canon (map ?blk ?ks))" by (simp add: comp_def key_bytes_def[abs_def])
  have "length ?v < 2 ^ 63" using assms(3) by (simp add: w tlv_bytes_def)
  then have "parse_loop ?v = Inr (map flat (map ?blk ?ks), None)" unfolding v by (rule parse_loop_canon)
  then have p: "parse_loop ?v = Inr (map (flat \<circ> ?blk) ?ks, None)" by simp
  have fl: "b_type ((flat \<circ> ?blk) k) = ucast (fst k)" "b_value ((flat \<circ> ?blk) k) = snd k" for k
    by (simp_all add: flat_def payload_def)
  have good: "\<forall>b\<in>set (map (flat \<circ> ?blk) ?ks). decodable (b_type b) (b_value b)"
    using assms(2) unfolding set_map by (auto simp only: fl ball_simps case_prod_unfold fst_conv snd_conv)
  have unblk: "map (\<lambda>b. (ucast (b_type b), b_value b)) (map (flat \<circ> ?blk) ?ks) = ?ks"
    by (simp add: flat_def payload_def ucast_16_32 comp_def map_idI)
  have "?w \<noteq> []" by (simp add: w)
  from decode_comps_good[OF good, of "[]" "[]"] obtain ds where ds: "decode_comps (map (flat \<circ> ?blk) ?ks) [] [] = Inr (Inr (ds, uri ds))"
      "map nc_key ds = ?ks"
    unfolding unblk by auto
  let ?n' = "Name ds (Some (Block 0x07 ?v (map (flat \<circ> ?blk) ?ks) ?w)) (uri ds)"
  have "DecodeName (Some (Block 0x07 ?v [] ?w)) = Inr (Inr ?n')"
    using p ds(1) \<open>?w \<noteq> []\<close> by (simp add: DecodeName_def blk_Parse_def)
  moreover have "DecodeBlock ?w = Inr (Inr (Block 0x07 ?v [] ?w, of_nat (length ?w)))"
    using DecodeBlock_tlv_bytes[of "0x07" ?v "[]"] assms(3) by (simp add: w)
  moreover have "keys ?n' = ?ks" "str_ok ?n'" "b_wire (fst (name_Encode ?n')) = ?w"
    using ds(2) by (simp_all add: keys_def str_ok_def name_Encode_def)
  ultimately show ?thesis by blast
qed

theorem name_wire_roundtrip_witness:
  "\<exists>b n'. DecodeBlock [7, 3, 8, 1, 97] = Inr (Inr (b, 5)) \<and> DecodeName (Some b) = Inr (Inr n') \<and> keys n' = [(8, [97])]"
proof -
  let ?n = "name_Append (NewGenericNameComponent [97]) NewName"
  have n: "name_ok ?n" "keys ?n = [(8, [97])]"
    by (simp_all add: name_ok_def name_Append_def NewName_def NewGenericNameComponent_def nc_cache_ok_def keys_def nc_key_def nc_Type_def nc_Value_def)
  then have w: "b_wire (fst (name_Encode ?n)) = [7, 3, 8, 1, 97]"
    by (simp add: name_Encode_wire name_bytes_def key_bytes_def tlv_bytes_def EncodeVarNum_def)
  then show ?thesis
    using name_wire_roundtrip[OF n(1)] unfolding w n(2) by (auto simp: decodable_def bad_value_def number_types_def)
qed

section \<open>Edits and caches\<close>

lemma name_String_uri: "nm_str n = [] \<or> str_ok n \<Longrightarrow> nm_comps n \<noteq> [] \<Longrightarrow> fst (name_String n) = uri (nm_comps n)"
  by (cases "nm_comps n") (auto simp: name_String_def str_ok_def uri_def Let_def)

text \<open>The edits that reset the cached string.\<close>

definition edits :: "int \<Rightarrow> NameComponent \<Rightarrow> Name \<Rightarrow> Name set" where
  "edits i c n = {name_DeepCopy n, snd (name_Erase i n), snd (name_Insert i c n), snd (name_Set i c n)} \<union>
     {p. name_Prefix i n = Inr p}"

lemma edits_reset: "0 \<le> i \<Longrightarrow> i < int (length (nm_comps n)) \<Longrightarrow> e \<in> edits i c n \<Longrightarrow> nm_str e = []"
  by (auto simp: edits_def name_DeepCopy_def name_Erase_def name_Insert_def name_Set_def name_Prefix_def)

text \<open>
  The string of a name is that of its components after any number of appends to a name whose
  cached string is right, and right after a copy, an erasure, an insertion, a replacement or a
  prefix; but appending to the result of one of these edits yields a string of the appended
  component alone, whatever the components before it.
\<close>

theorem name_string_after_edit:
  assumes "0 \<le> i" "i < int (length (nm_comps n))" "e \<in> edits i c n"
  shows "(str_ok n \<longrightarrow> fst (name_String (name_Append d n)) = uri (nm_comps n @ [d]) \<and> str_ok (name_Append d n))
    \<and> (nm_comps e \<noteq> [] \<longrightarrow> fst (name_String e) = uri (nm_comps e))
    \<and> nm_comps (name_Append d e) = nm_comps e @ [d]
    \<and> fst (name_String (name_Append d e)) = uri [d]"
proof -
  have "nm_str e = []" using assms by (rule edits_reset)
  then show ?thesis
    using name_String_uri[of e] by (simp add: name_Append_def name_String_def str_ok_def uri_def)
qed

theorem name_string_after_edit_witness:
  "\<exists>n. NameFromString (lit ''/a'') = Inr (Inr n) \<and>
     nm_comps (name_Append (NewGenericNameComponent (lit ''b'')) (name_DeepCopy n)) = [NewGenericNameComponent (lit ''a''), NewGenericNameComponent (lit ''b'')] \<and>
     fst (name_String (name_Append (NewGenericNameComponent (lit ''b'')) (name_DeepCopy n))) = lit ''/b''"
proof -
  let ?n = "Name [NewGenericNameComponent [97]] None [47, 97]" and ?b = "NewGenericNameComponent [98]"
  have "NameFromString (lit ''/a'') = Inr (Inr ?n)"
    by (simp add: NameFromString_def parse_component_def name_Append_iface_def name_Append_def NewName_def NewGenericNameComponent_def
        escapeComponent_def escape_byte_def unreserved_def)
  moreover have "name_DeepCopy ?n = Name [NewGenericNameComponent [97]] None []"
    by (simp add: name_DeepCopy_def nc_DeepCopy_def NewGenericNameComponent_def base_DeepCopy_def)
  moreover have "uri [?b] = lit ''/b''"
    by (simp add: uri_def NewGenericNameComponent_def escapeComponent_def escape_byte_def unreserved_def)
  moreover have "fst (name_String (name_Append ?b (name_DeepCopy ?n))) = uri [?b]"
    using name_string_after_edit[of 0 ?n "name_DeepCopy ?n" ?b ?b] by (simp add: edits_def)
  ultimately show ?thesis by (intro exI[of _ ?n]) (simp add: name_Append_def)
qed

text \<open>
  A prefix no longer than the name holds its first components and is a prefix of it, yet it
  encodes to a block without type, value and wire; a size beyond the name's panics, where the
  comment promises a copy.
\<close>

theorem name_Prefix_spec:
  "(0 \<le> k \<and> k \<le> int (length (nm_comps n)) \<longrightarrow>
      (\<exists>p. name_Prefix k n = Inr p \<and> keys p = take (nat k) (keys n) \<and> name_PrefixOf p (Some n)
         \<and> fst (name_Encode p) = NewEmptyBlock 0 \<and> name_HasWire p))
   \<and> (k > int (length (nm_comps n)) \<longrightarrow> name_Prefix k n = Inl IndexOutOfRange)"
  by (auto simp: name_Prefix_def keys_def comp_def take_map[symmetric] name_PrefixOf_keys take_is_prefix name_Encode_def NewEmptyBlock_def
      name_HasWire_def)

theorem name_Prefix_spec_witness:
  "\<exists>p. name_Prefix 1 (Name [NewGenericNameComponent [97], NewGenericNameComponent [98]] None []) = Inr p \<and> keys p = [(8, [97])]
     \<and> fst (name_Encode p) = NewEmptyBlock 0"
  using name_Prefix_spec[of 1 "Name [NewGenericNameComponent [97], NewGenericNameComponent [98]] None []"] by (auto simp: keys_def)

end
