(* ===== verification/Link_Service.thy ===== *)
theory Link_Service
  imports Fw_Thread
begin

text \<open>
  The NDNLPv2 link service (\<^verbatim>\<open>src/face/ndnlp-link-service.go\<close> and the base it embeds,
  \<^verbatim>\<open>src/face/link-service.go\<close>): options, sending with fragmentation and marking, receiving with
  reassembly, and the hand-over of received packets to the forwarding threads.

  The codec of link-layer and network-layer packets and the wires of \<^verbatim>\<open>go-ndn\<close> are not part of the
  repository; they are the record \<open>lp_api\<close>. A wire is the list of its buffers; \<^verbatim>\<open>RawBytes\<close> of a
  pending packet is kept as the bytes of its wire. The transport below is reduced to what the link
  service reads of it, its state, MTU and queue size, and to the list of frames it was given.

  The mutex around \<^verbatim>\<open>sendFrame\<close> is a flag. A goroutine that finds it taken blocks: \<open>Blocked\<close> is the
  outcome of a call that does not return.
\<close>

type_synonym wire = "bytes list"

record LpPacket =
  Sequence :: "u64 option"
  FragIndex :: "u64 option"
  FragCount :: "u64 option"
  lp_PitToken :: bytes
  lp_CongestionMark :: "u64 option"
  lp_IncomingFaceId :: "u64 option"
  lp_NextHopFaceId :: "u64 option"
  lp_CachePolicy :: "u64 option"
  TxSequence :: "u64 option"
  Ack :: "u64 option"
  Fragment :: wire

definition empty_lp :: LpPacket where
  "empty_lp = \<lparr>Sequence = None, FragIndex = None, FragCount = None, lp_PitToken = [], lp_CongestionMark = None,
     lp_IncomingFaceId = None, lp_NextHopFaceId = None, lp_CachePolicy = None, TxSequence = None, Ack = None, Fragment = []\<rparr>"

text \<open>A decoded packet: an Interest, a Data or a link-layer packet.\<close>

record spec_packet =
  sp_Interest :: "Interest option"
  sp_Data :: "Data option"
  sp_LpPacket :: "LpPacket option"

record lp_api =
  ReadPacket :: "wire \<Rightarrow> spec_packet option"
  EncodeLp :: "LpPacket \<Rightarrow> wire option"
  wire_Join :: "wire \<Rightarrow> bytes"
  ReadWire :: "bytes \<Rightarrow> nat \<Rightarrow> nat \<Rightarrow> bytes option"
  name_String :: "name \<Rightarrow> string"

text \<open>
  The documented behaviour of the wires: joining concatenates the buffers, and reading from a
  position returns the requested bytes while there are as many.
\<close>

definition lp_laws :: "lp_api \<Rightarrow> bool" where
  "lp_laws A \<longleftrightarrow> (\<forall>w. wire_Join A w = concat w) \<and>
     (\<forall>w i n. i + n \<le> length w \<longrightarrow> ReadWire A w i n = Some (take n (drop i w)))"

record NDNLPLinkServiceOptions =
  IsFragmentationEnabled :: bool
  IsReassemblyEnabled :: bool
  IsReliabilityEnabled :: bool
  MaxRetransmissions :: int
  ReservedAckSpace :: int
  IsConsumerControlledForwardingEnabled :: bool
  IsIncomingFaceIndicationEnabled :: bool
  IsLocalCachePolicyEnabled :: bool
  IsCongestionMarkingEnabled :: bool
  BaseCongestionMarkingInterval :: int
  DefaultCongestionThresholdBytes :: u64

definition MakeNDNLPLinkServiceOptions :: NDNLPLinkServiceOptions where
  "MakeNDNLPLinkServiceOptions = \<lparr>IsFragmentationEnabled = False, IsReassemblyEnabled = False, IsReliabilityEnabled = False,
     MaxRetransmissions = 0, ReservedAckSpace = 0, IsConsumerControlledForwardingEnabled = False,
     IsIncomingFaceIndicationEnabled = False, IsLocalCachePolicyEnabled = False, IsCongestionMarkingEnabled = False,
     BaseCongestionMarkingInterval = 100 * Millisecond, DefaultCongestionThresholdBytes = 65536\<rparr>"

definition FaceFlagLocalFields :: u64 where "FaceFlagLocalFields = 1"
definition FaceFlagLpReliabilityEnabled :: u64 where "FaceFlagLpReliabilityEnabled = 2"
definition FaceFlagCongestionMarking :: u64 where "FaceFlagCongestionMarking = 4"

definition Flags :: "NDNLPLinkServiceOptions \<Rightarrow> u64" where
  "Flags op =
     (let r = 0;
          r = (if IsConsumerControlledForwardingEnabled op then r OR FaceFlagLocalFields else r);
          r = (if IsReliabilityEnabled op then r OR FaceFlagLpReliabilityEnabled else r)
      in if IsCongestionMarkingEnabled op then r OR FaceFlagCongestionMarking else r)"

datatype State = Up | Down | AdminDown

record UnacknowledgedFrame =
  uf_frame :: LpPacket
  uf_netPacket :: u64
  uf_numRetransmissions :: int
  uf_sentTime :: int

record NDNLPLinkService =
  faceID :: u64
  options :: NDNLPLinkServiceOptions
  headerOverhead :: int
  partialMessageStore :: "u64 \<rightharpoonup> bytes list"
  pendingAcksToSend :: "u64 list"
  nextSequence :: u64
  unacknowledgedFrames :: "(u64 \<times> UnacknowledgedFrame) list"
  unacknowledgedPackets :: "(u64 \<times> u64 list) list"
  retransmitQueue :: "u64 list"
  rto :: int
  nextTxSequence :: u64
  lastTimeCongestionMarked :: int
  sendFrameMutex :: bool
  sendQueue :: "addr list"
  nInInterests :: u64
  nInData :: u64
  nOutInterests :: u64
  nOutData :: u64
  tr_State :: State
  tr_MTU :: int
  tr_QueueSize :: u64
  tr_Scope :: Scope
  tr_sent :: "bytes list"
  implQuit :: bool

definition computeHeaderOverhead :: "NDNLPLinkService \<Rightarrow> NDNLPLinkService" where
  "computeHeaderOverhead l =
     (let op = options l;
          h = 1 + 3;
          h = (if IsFragmentationEnabled op \<or> IsReliabilityEnabled op then h + (1 + 1 + 8) else h);
          h = (if IsFragmentationEnabled op then h + (1 + 1 + 2 + 1 + 1 + 2) else h);
          h = (if IsReliabilityEnabled op then h + (3 + 1 + 8) + (3 + 1 + 8) * ReservedAckSpace op else h);
          h = (if IsIncomingFaceIndicationEnabled op then h + (3 + 1 + 8) else h)
      in l\<lparr>headerOverhead := h\<rparr>)"

definition MakeNDNLPLinkService :: "State \<Rightarrow> int \<Rightarrow> Scope \<Rightarrow> NDNLPLinkServiceOptions \<Rightarrow> NDNLPLinkService" where
  "MakeNDNLPLinkService st mtu scope op =
     computeHeaderOverhead
       \<lparr>faceID = 0, options = op, headerOverhead = 0, partialMessageStore = Map.empty, pendingAcksToSend = [], nextSequence = 0,
        unacknowledgedFrames = [], unacknowledgedPackets = [], retransmitQueue = [], rto = 0, nextTxSequence = 0,
        lastTimeCongestionMarked = 0, sendFrameMutex = False, sendQueue = [], nInInterests = 0, nInData = 0, nOutInterests = 0,
        nOutData = 0, tr_State = st, tr_MTU = mtu, tr_QueueSize = 0, tr_Scope = scope, tr_sent = [], implQuit = False\<rparr>"

definition SetOptions :: "NDNLPLinkServiceOptions \<Rightarrow> NDNLPLinkService \<Rightarrow> NDNLPLinkService" where
  "SetOptions op l = computeHeaderOverhead (l\<lparr>options := op\<rparr>)"

definition SetFaceID :: "u64 \<Rightarrow> NDNLPLinkService \<Rightarrow> NDNLPLinkService" where
  "SetFaceID i l = l\<lparr>faceID := i\<rparr>"

text \<open>The queue in front of the link service has a capacity; a packet that does not fit is dropped.\<close>

definition lnk_SendPacket :: "nat \<Rightarrow> addr \<Rightarrow> NDNLPLinkService \<Rightarrow> NDNLPLinkService" where
  "lnk_SendPacket faceQueueSize pkt l =
     (if length (sendQueue l) < faceQueueSize then l\<lparr>sendQueue := sendQueue l @ [pkt]\<rparr> else l)"

section \<open>Sending\<close>

datatype outcome = Returned | Blocked

text \<open>An assignment to a field of \<^verbatim>\<open>fragments[0]\<close>.\<close>

definition upd_first :: "(LpPacket \<Rightarrow> LpPacket) \<Rightarrow> LpPacket list \<Rightarrow> LpPacket list result" where
  "upd_first f frags = (case frags of [] \<Rightarrow> Inl IndexOutOfRange | x # xs \<Rightarrow> Inr (f x # xs))"

text \<open>
  The fragments of a wire that is longer than the effective MTU: as many as the \<^verbatim>\<open>uint64\<close> division
  says, all but the last of the effective MTU. Division by zero panics; a read beyond the wire ends the
  process.
\<close>

definition nFragments :: "int \<Rightarrow> int \<Rightarrow> int" where
  "nFragments len eff = sint ((of_int len + of_int eff - 1) div of_int eff :: u64)"

fun read_fragments :: "lp_api \<Rightarrow> bytes \<Rightarrow> nat \<Rightarrow> nat list \<Rightarrow> LpPacket list result" where
  "read_fragments A w pos [] = Inr []"
| "read_fragments A w pos (n # ns) =
     (case ReadWire A w pos n of
        None \<Rightarrow> Inl FatalExit
      | Some b \<Rightarrow> rbind (read_fragments A w (pos + n) ns) (\<lambda>fs. Inr (empty_lp\<lparr>Fragment := [b]\<rparr> # fs)))"

definition split_wire :: "lp_api \<Rightarrow> bytes \<Rightarrow> int \<Rightarrow> LpPacket list result" where
  "split_wire A w eff =
     (if eff = 0 then Inl DivideByZero
      else
        let n = nFragments (int (length w)) eff;
            lastFragSize = int (length w) - eff * (n - 1)
        in if n < 0 then Inl MakeSliceLen
           else if n = 0 then Inr []
           else read_fragments A w 0 (replicate (nat (n - 1)) (nat eff) @ [nat lastFragSize]))"

fun number_fragments :: "u64 \<Rightarrow> LpPacket list \<Rightarrow> LpPacket list" where
  "number_fragments s [] = []"
| "number_fragments s (f # fs) = f\<lparr>Sequence := Some s\<rparr> # number_fragments (s + 1) fs"

text \<open>
  The sending loop. The unlocking of the mutex is deferred to the end of the function, so the
  second round finds the mutex locked by the first.
\<close>

fun send_frames :: "lp_api \<Rightarrow> LpPacket list \<Rightarrow> NDNLPLinkService \<Rightarrow> outcome \<times> NDNLPLinkService" where
  "send_frames A [] l = (Returned, l)"
| "send_frames A (f # fs) l =
     (case EncodeLp A f of
        None \<Rightarrow> (Returned, l)
      | Some w \<Rightarrow>
          if sendFrameMutex l then (Blocked, l)
          else send_frames A fs (l\<lparr>sendFrameMutex := True, tr_sent := tr_sent l @ [wire_Join A w]\<rparr>))"

text \<open>A call that returns runs its deferred unlocks, one for each frame it has sent.\<close>

definition transmit :: "lp_api \<Rightarrow> LpPacket list \<Rightarrow> NDNLPLinkService \<Rightarrow> outcome \<times> NDNLPLinkService" where
  "transmit A frags l =
     (case send_frames A frags l of
        (Blocked, l') \<Rightarrow> (Blocked, l')
      | (Returned, l') \<Rightarrow> (Returned, if length (tr_sent l') > length (tr_sent l) then l'\<lparr>sendFrameMutex := False\<rparr> else l'))"

text \<open>The fields that go on the first fragment, in the order of the code.\<close>

definition mark_congestion :: "bool \<Rightarrow> int \<Rightarrow> LpPacket list \<Rightarrow> NDNLPLinkService \<Rightarrow> (LpPacket list \<times> NDNLPLinkService) result" where
  "mark_congestion congestionMarking now frags l =
     (if congestionMarking \<and> tr_QueueSize l > DefaultCongestionThresholdBytes (options l)
         \<and> now > lastTimeCongestionMarked l + BaseCongestionMarkingInterval (options l)
      then rbind (upd_first (\<lambda>f. f\<lparr>lp_CongestionMark := Some 1\<rparr>) frags) (\<lambda>frags'. Inr (frags', l\<lparr>lastTimeCongestionMarked := now\<rparr>))
      else Inr (frags, l))"

text \<open>
  With reliability the fragments are entered into a map that is never made, which panics at the first
  of them.
\<close>

definition track_fragments :: "LpPacket list \<Rightarrow> NDNLPLinkService \<Rightarrow> LpPacket list result" where
  "track_fragments frags l =
     (if IsReliabilityEnabled (options l) then (case frags of [] \<Rightarrow> Inl IndexOutOfRange | f # fs \<Rightarrow> Inl NilMapWrite)
      else Inr frags)"

definition set_first_fields :: "PendingPacket \<Rightarrow> NDNLPLinkService \<Rightarrow> LpPacket list \<Rightarrow> LpPacket list result" where
  "set_first_fields pkt l frags =
     rbind (if length (PitToken pkt) > 0 then upd_first (\<lambda>f. f\<lparr>lp_PitToken := PitToken pkt\<rparr>) frags else Inr frags) (\<lambda>frags.
     rbind (if IsIncomingFaceIndicationEnabled (options l) \<and> IncomingFaceID pkt \<noteq> None
            then upd_first (\<lambda>f. f\<lparr>lp_IncomingFaceId := IncomingFaceID pkt\<rparr>) frags else Inr frags) (\<lambda>frags.
     if CongestionMark pkt \<noteq> None then upd_first (\<lambda>f. f\<lparr>lp_CongestionMark := CongestionMark pkt\<rparr>) frags else Inr frags))"

text \<open>
  The effective MTU takes room for the PIT token whenever its slice is not nil; a pending packet here does
  not tell the nil slice from the empty one, so the caller says which it is.
\<close>

definition effectiveMtu :: "bool \<Rightarrow> PendingPacket \<Rightarrow> NDNLPLinkService \<Rightarrow> int" where
  "effectiveMtu tokenNotNil pkt l =
     tr_MTU l - headerOverhead l - (if tokenNotNil then 1 + 1 + 6 else 0) - (if CongestionMark pkt \<noteq> None then 3 + 1 + 8 else 0)"

definition count_out :: "PendingPacket \<Rightarrow> NDNLPLinkService \<Rightarrow> NDNLPLinkService" where
  "count_out pkt l =
     (if pkt_Interest pkt \<noteq> None then l\<lparr>nOutInterests := nOutInterests l + 1\<rparr>
      else if pkt_Data pkt \<noteq> None then l\<lparr>nOutData := nOutData l + 1\<rparr>
      else l)"

definition sendPacket ::
  "lp_api \<Rightarrow> bool \<Rightarrow> int \<Rightarrow> bool \<Rightarrow> PendingPacket \<Rightarrow> NDNLPLinkService \<Rightarrow> (outcome \<times> NDNLPLinkService) result" where
  "sendPacket A congestionMarking now tokenNotNil pkt l =
     (if tr_State l \<noteq> Up then Inr (Returned, l\<lparr>implQuit := True\<rparr>)
      else
        let w = RawBytes pkt;
            l = count_out pkt l;
            eff = effectiveMtu tokenNotNil pkt l
        in if int (length w) > eff \<and> \<not> IsFragmentationEnabled (options l) then Inr (Returned, l)
           else
             rbind (if int (length w) > eff then split_wire A w eff else Inr [empty_lp\<lparr>Fragment := [w]\<rparr>]) (\<lambda>frags.
             let numbered = length frags > 1 \<or> IsReliabilityEnabled (options l);
                 frags = (if numbered then number_fragments (nextSequence l) frags else frags);
                 l = (if numbered then l\<lparr>nextSequence := nextSequence l + of_nat (length frags)\<rparr> else l)
             in rbind (mark_congestion congestionMarking now frags l) (\<lambda>(frags, l).
                rbind (track_fragments frags l) (\<lambda>frags.
                rbind (set_first_fields pkt l frags) (\<lambda>frags. Inr (transmit A frags l))))))"

section \<open>The other events of the send loop\<close>

text \<open>
  The idle acknowledgements: up to as many as fit the MTU, one frame each. The deferred unlocks
  belong to the loop's own function, which ends with the face, so the mutex stays locked.
\<close>

fun idle_acks :: "lp_api \<Rightarrow> nat \<Rightarrow> NDNLPLinkService \<Rightarrow> outcome \<times> NDNLPLinkService" where
  "idle_acks A 0 l = (Returned, l)"
| "idle_acks A (Suc n) l =
     (case pendingAcksToSend l of
        [] \<Rightarrow> (Returned, l)
      | a # as \<Rightarrow>
          let l' = l\<lparr>pendingAcksToSend := as\<rparr>
          in case EncodeLp A (empty_lp\<lparr>Ack := Some a\<rparr>) of
               None \<Rightarrow> (Returned, l')
             | Some w \<Rightarrow>
                 if sendFrameMutex l' then (Blocked, l')
                 else idle_acks A n (l'\<lparr>sendFrameMutex := True, tr_sent := tr_sent l' @ [wire_Join A w]\<rparr>))"

text \<open>A lookup, storing and deleting in the maps of unacknowledged frames and packets.\<close>

definition removeUnacknowledgedPacket :: "u64 \<Rightarrow> NDNLPLinkService \<Rightarrow> NDNLPLinkService" where
  "removeUnacknowledgedPacket seq l =
     (case map_of (unacknowledgedPackets l) seq of
        None \<Rightarrow> l
      | Some txs \<Rightarrow> l\<lparr>unacknowledgedFrames := filter (\<lambda>(t, f). t \<notin> set txs) (unacknowledgedFrames l),
                     unacknowledgedPackets := filter (\<lambda>(s, ts). s \<noteq> seq) (unacknowledgedPackets l)\<rparr>)"

text \<open>
  One scan of the retransmission timer over the frames that were unacknowledged when it began; those
  removed with their packet meanwhile are passed over.
\<close>

definition retransmit_one :: "int \<Rightarrow> u64 \<times> UnacknowledgedFrame \<Rightarrow> NDNLPLinkService \<Rightarrow> NDNLPLinkService" where
  "retransmit_one curTime tf l =
     (let (tx, f) = tf
      in if map_of (unacknowledgedFrames l) tx \<noteq> None \<and> uf_sentTime f + rto l < curTime then
           (if uf_numRetransmissions f \<ge> MaxRetransmissions (options l) then removeUnacknowledgedPacket (uf_netPacket f) l
            else l\<lparr>retransmitQueue := retransmitQueue l @ [tx]\<rparr>)
         else l)"

definition retransmit_scan :: "int \<Rightarrow> NDNLPLinkService \<Rightarrow> NDNLPLinkService" where
  "retransmit_scan curTime l = fold (retransmit_one curTime) (unacknowledgedFrames l) l"

definition idle_timer :: "lp_api \<Rightarrow> NDNLPLinkService \<Rightarrow> outcome \<times> NDNLPLinkService" where
  "idle_timer A l = idle_acks A (nat ((tr_MTU l - (1 + 3)) div (3 + 1 + 8))) l"

section \<open>Receiving\<close>

text \<open>
  Reassembly: the first fragment of a message makes a slice of as many entries as it announces; every
  fragment is put at its index, which panics beyond that slice; when no entry is empty any more the
  entries are the message.
\<close>

definition reassemblePacket ::
  "lp_api \<Rightarrow> LpPacket \<Rightarrow> u64 \<Rightarrow> u64 \<Rightarrow> u64 \<Rightarrow> NDNLPLinkService \<Rightarrow> (wire option \<times> NDNLPLinkService) result" where
  "reassemblePacket A frame baseSequence fragIndex fragCount l =
     rbind (case partialMessageStore l baseSequence of
              Some slots \<Rightarrow> Inr slots
            | None \<Rightarrow> if fragCount \<ge> 2 ^ 63 then Inl MakeSliceLen else Inr (replicate (unat fragCount) [])) (\<lambda>slots.
     if unat fragIndex \<ge> length slots then Inl IndexOutOfRange
     else
       let slots' = slots[unat fragIndex := wire_Join A (Fragment frame)];
           receivedCount = length (filter (\<lambda>s. length s \<noteq> 0) slots')
       in if receivedCount = length slots' then
            Inr (Some slots', l\<lparr>partialMessageStore := (partialMessageStore l)(baseSequence := None)\<rparr>)
          else Inr (None, l\<lparr>partialMessageStore := (partialMessageStore l)(baseSequence \<mapsto> slots')\<rparr>))"

definition empty_packet :: "u64 \<Rightarrow> PendingPacket" where
  "empty_packet fid = \<lparr>PitToken = [], CongestionMark = None, IncomingFaceID = Some fid, NextHopFaceID = None, CachePolicy = None,
     pkt_Interest = None, pkt_Data = None, RawBytes = [], NameCache = []\<rparr>"

text \<open>
  What becomes of the fragment of a link-layer frame: dropped or kept for later (\<open>None\<close>), or the wire of
  a network-layer packet.
\<close>

definition receive_fragment :: "lp_api \<Rightarrow> LpPacket \<Rightarrow> NDNLPLinkService \<Rightarrow> (wire option \<times> NDNLPLinkService) result" where
  "receive_fragment A lp l =
     (if Fragment lp = [] then Inr (None, l)
      else if IsReassemblyEnabled (options l) then
        (case Sequence lp of
           None \<Rightarrow> Inr (None, l)
         | Some seq \<Rightarrow>
             let fragIndex = (case FragIndex lp of None \<Rightarrow> 0 | Some i \<Rightarrow> i);
                 fragCount = (case FragCount lp of None \<Rightarrow> 1 | Some c \<Rightarrow> c);
                 baseSequence = seq - fragIndex
             in if fragIndex = 0 \<and> fragCount = 1 then Inr (Some (Fragment lp), l)
                else reassemblePacket A lp baseSequence fragIndex fragCount l)
      else if FragCount lp \<noteq> None \<or> FragIndex lp \<noteq> None then Inr (None, l)
      else Inr (Some (Fragment lp), l))"

definition count_in :: "PendingPacket \<Rightarrow> NDNLPLinkService \<Rightarrow> NDNLPLinkService" where
  "count_in pkt l =
     (if pkt_Interest pkt \<noteq> None then l\<lparr>nInInterests := nInInterests l + 1\<rparr>
      else if pkt_Data pkt \<noteq> None then l\<lparr>nInData := nInData l + 1\<rparr>
      else l)"

text \<open>The fields of the link-layer frame that the pending packet takes over.\<close>

definition take_fields :: "NDNLPLinkServiceOptions \<Rightarrow> LpPacket \<Rightarrow> PendingPacket \<Rightarrow> PendingPacket" where
  "take_fields op lp pkt =
     (let pkt = pkt\<lparr>CongestionMark := lp_CongestionMark lp\<rparr>;
          pkt = (if IsConsumerControlledForwardingEnabled op \<and> lp_NextHopFaceId lp \<noteq> None
                 then pkt\<lparr>NextHopFaceID := lp_NextHopFaceId lp\<rparr> else pkt);
          pkt = (if IsLocalCachePolicyEnabled op \<and> lp_CachePolicy lp \<noteq> None then pkt\<lparr>CachePolicy := lp_CachePolicy lp\<rparr> else pkt)
      in if length (lp_PitToken lp) > 0 then pkt\<lparr>PitToken := lp_PitToken lp\<rparr> else pkt)"

text \<open>The frame up to the packet that is handed on, if any.\<close>

definition decode_frame ::
  "lp_api \<Rightarrow> bytes \<Rightarrow> NDNLPLinkService \<Rightarrow> (PendingPacket option \<times> NDNLPLinkService) result" where
  "decode_frame A frame l =
     (case ReadPacket A [frame] of
        None \<Rightarrow> Inr (None, l)
      | Some p \<Rightarrow>
          (case sp_LpPacket p of
             None \<Rightarrow>
               let pkt = (empty_packet (faceID l))\<lparr>RawBytes := frame, pkt_Interest := sp_Interest p, pkt_Data := sp_Data p\<rparr>
               in Inr (Some pkt, count_in pkt l)
           | Some lp \<Rightarrow>
               rbind (receive_fragment A lp l) (\<lambda>(w, l).
               case w of
                 None \<Rightarrow> Inr (None, l)
               | Some fragment \<Rightarrow>
                   (case ReadPacket A fragment of
                      None \<Rightarrow> Inr (None, l)
                    | Some q \<Rightarrow>
                        let pkt = (take_fields (options l) lp (empty_packet (faceID l)))
                                    \<lparr>RawBytes := wire_Join A fragment, pkt_Interest := sp_Interest q, pkt_Data := sp_Data q\<rparr>
                        in Inr (Some pkt, count_in pkt l)))))"

section \<open>Dispatching\<close>

datatype 't queued = QueueInterest 't PendingPacket | QueueData 't PendingPacket

text \<open>A method call on the thread that the dispatch table returns: a nil thread panics.\<close>

definition on_thread :: "'t list \<Rightarrow> nat \<Rightarrow> ('t \<Rightarrow> 't queued) \<Rightarrow> 't queued result" where
  "on_thread FWDispatch i f =
     rbind (GetFWThread FWDispatch (int i)) (\<lambda>t. case t of None \<Rightarrow> Inl NilDereference | Some x \<Rightarrow> Inr (f x))"

definition on_threads :: "'t list \<Rightarrow> nat list \<Rightarrow> ('t \<Rightarrow> 't queued) \<Rightarrow> 't queued list result" where
  "on_threads FWDispatch is f = rfold (\<lambda>i qs. rbind (on_thread FWDispatch i f) (\<lambda>q. Inr (qs @ [q]))) is []"

definition dispatchIncomingPacket ::
  "lp_api \<Rightarrow> enc_api \<Rightarrow> nat \<Rightarrow> 't list \<Rightarrow> NDNLPLinkService \<Rightarrow> PendingPacket \<Rightarrow> 't queued list result" where
  "dispatchIncomingPacket A E nThreads FWDispatch l pkt =
     (case pkt_Interest pkt of
        Some i \<Rightarrow>
          let pkt = pkt\<lparr>NameCache := name_String A (int_NameV i)\<rparr>
          in rbind (HashNameToFwThread E nThreads (int_NameV i)) (\<lambda>thread.
             rbind (on_thread FWDispatch thread (\<lambda>t. QueueInterest t pkt)) (\<lambda>q. Inr [q]))
      | None \<Rightarrow>
          (case pkt_Data pkt of
             Some d \<Rightarrow>
               let pkt = pkt\<lparr>NameCache := name_String A (data_NameV d)\<rparr>
               in if length (PitToken pkt) = 6 then
                    rbind (GetFWThread FWDispatch (uint (Uint16 (PitToken pkt)))) (\<lambda>t.
                      case t of None \<Rightarrow> Inr [] | Some x \<Rightarrow> Inr [QueueData x pkt])
                  else if tr_Scope l = Local then
                    (let pkt = pkt\<lparr>PitToken := []\<rparr>
                     in rbind (HashNameToAllPrefixFwThreads E nThreads (data_NameV d)) (\<lambda>is.
                        on_threads FWDispatch is (\<lambda>t. QueueData t pkt)))
                  else Inr []
           | None \<Rightarrow> Inr []))"

text \<open>The whole handler of a frame: what it queues at the threads, and the link service afterwards.\<close>

definition processIncomingFrame ::
  "lp_api \<Rightarrow> enc_api \<Rightarrow> nat \<Rightarrow> 't list \<Rightarrow> bytes \<Rightarrow> NDNLPLinkService \<Rightarrow> ('t queued list \<times> NDNLPLinkService) result" where
  "processIncomingFrame A E nThreads FWDispatch frame l =
     rbind (decode_frame A frame l) (\<lambda>(pkt, l).
     case pkt of
       None \<Rightarrow> Inr ([], l)
     | Some p \<Rightarrow> rbind (dispatchIncomingPacket A E nThreads FWDispatch l p) (\<lambda>qs. Inr (qs, l)))"

end
