(* ===== verification/Link_Spec.thy ===== *)
theory Link_Spec
  imports Link_Service
begin

text \<open>
  What the link service does with packets: a packet that fits goes out in one frame; a longer one is
  split into fragments that carry all of it, of which only the first is sent before the sender blocks;
  received fragments are put together in any order; and received packets reach the threads that may
  hold a matching Interest.
\<close>

section \<open>Splitting\<close>

lemma read_fragments_spec:
  assumes "lp_laws A" "pos + sum_list ns \<le> length w"
  shows "\<exists>fs. read_fragments A w pos ns = Inr fs \<and> length fs = length ns
    \<and> concat (concat (map Fragment fs)) = take (sum_list ns) (drop pos w)
    \<and> (\<forall>i<length ns. \<exists>b. fs ! i = empty_lp\<lparr>Fragment := [b]\<rparr> \<and> length b = ns ! i)"
  using assms(2)
proof (induction ns arbitrary: pos)
  case (Cons n ns)
  have r: "ReadWire A w pos n = Some (take n (drop pos w))" using assms(1) Cons.prems by (simp add: lp_laws_def)
  obtain fs where fs: "read_fragments A w (pos + n) ns = Inr fs" "length fs = length ns"
      "concat (concat (map Fragment fs)) = take (sum_list ns) (drop (pos + n) w)"
      "\<forall>i<length ns. \<exists>b. fs ! i = empty_lp\<lparr>Fragment := [b]\<rparr> \<and> length b = ns ! i"
    using Cons.IH[of "pos + n"] Cons.prems by auto
  let ?f = "empty_lp\<lparr>Fragment := [take n (drop pos w)]\<rparr>"
  have "take n (drop pos w) @ take (sum_list ns) (drop (pos + n) w) = take (n + sum_list ns) (drop pos w)"
    by (simp add: take_add add.commute)
  moreover have "\<exists>b. (?f # fs) ! i = empty_lp\<lparr>Fragment := [b]\<rparr> \<and> length b = (n # ns) ! i" if "i < length (n # ns)" for i
    using that fs(4) Cons.prems by (cases i) auto
  ultimately show ?case
    using r fs(1,2,3) by (intro exI[of _ "?f # fs"]) simp
qed simp

lemma nFragments_ceil:
  assumes "0 < eff" "eff < len" "len < 2 ^ 62"
  shows "nFragments len eff = (len + eff - 1) div eff" "2 \<le> nFragments len eff" "eff * (nFragments len eff - 1) < len"
    "len \<le> eff * nFragments len eff"
proof -
  let ?n = "(len + eff - 1) div eff"
  have u: "uint (of_int len + of_int eff - 1 :: u64) = len + eff - 1"
  proof -
    have "(of_int len + of_int eff - 1 :: u64) = of_int (len + eff - 1)" by simp
    moreover have "uint (of_int (len + eff - 1) :: u64) = len + eff - 1"
      using assms by (subst unsigned_of_int) (simp add: take_bit_int_eq_self)
    ultimately show ?thesis by simp
  qed
  have e: "uint (of_int eff :: u64) = eff"
    using assms by (simp add: unsigned_of_int take_bit_int_eq_self)
  have uint_n: "uint ((of_int len + of_int eff - 1) div of_int eff :: u64) = ?n"
    by (simp only: uint_div_distrib u e)
  have "?n \<le> (len + eff - 1) div 1" using assms by (intro zdiv_mono2) simp_all
  then have b: "0 \<le> ?n" "?n < 2 ^ 63" using assms by (simp_all add: pos_imp_zdiv_nonneg_iff)
  have "nFragments len eff = signed_take_bit 63 ?n"
    unfolding nFragments_def sint_uint uint_n by simp
  also have "\<dots> = ?n" using b by (intro signed_take_bit_int_eq_self) simp_all
  finally show *: "nFragments len eff = ?n" .
  have d: "eff * ?n \<le> len + eff - 1" "len + eff - 1 < eff * ?n + eff"
    using mult_div_mod_eq[of eff "len + eff - 1"] pos_mod_bound[of eff "len + eff - 1"] pos_mod_sign[of eff "len + eff - 1"] assms(1)
    by linarith+
  then show c: "eff * (nFragments len eff - 1) < len" "len \<le> eff * nFragments len eff"
    unfolding * by (simp_all add: right_diff_distrib)
  have "eff * 1 < eff * nFragments len eff" using c(2) assms(2) by linarith
  then show "2 \<le> nFragments len eff" using assms(1) by (simp add: mult_less_cancel_left_pos)
qed

text \<open>
  C28. A wire longer than the effective MTU is split into the least number of fragments, at least two,
  none empty and none longer than the MTU, whose contents in order are the wire. None of them carries
  an index or a count.
\<close>

theorem split_wire_spec:
  assumes "lp_laws A" "0 < eff" "eff < int (length w)" "int (length w) < 2 ^ 62"
  shows "\<exists>fs. split_wire A w eff = Inr fs \<and> int (length fs) = (int (length w) + eff - 1) div eff \<and> 2 \<le> length fs
    \<and> concat (concat (map Fragment fs)) = w
    \<and> (\<forall>f\<in>set fs. \<exists>b. f = empty_lp\<lparr>Fragment := [b]\<rparr> \<and> 0 < length b \<and> int (length b) \<le> eff \<and> FragIndex f = None \<and> FragCount f = None)"
proof -
  let ?L = "int (length w)" and ?n = "nFragments (int (length w)) eff"
  note n = nFragments_ceil[OF assms(2-4)]
  let ?ns = "replicate (nat (?n - 1)) (nat eff) @ [nat (?L - eff * (?n - 1))]"
  have "int (sum_list ?ns) = (?n - 1) * eff + (?L - eff * (?n - 1))"
    using n(2,3) assms(2) by (simp add: sum_list_replicate)
  also have "\<dots> = ?L" by (simp add: mult.commute)
  finally have sum: "sum_list ?ns = length w" by (simp only: of_nat_eq_iff)
  then obtain fs where fs: "read_fragments A w 0 ?ns = Inr fs" "length fs = length ?ns" "concat (concat (map Fragment fs)) = w"
      "\<forall>i<length ?ns. \<exists>b. fs ! i = empty_lp\<lparr>Fragment := [b]\<rparr> \<and> length b = ?ns ! i"
    using read_fragments_spec[OF assms(1), of 0 ?ns w] by auto
  have len: "int (length fs) = ?n" using fs(2) n(2) by simp
  have sz: "0 < k \<and> int k \<le> eff" if "k \<in> set ?ns" for k
    using that n(3,4) assms(2) by (auto simp: right_diff_distrib split: if_splits)
  have "\<exists>b. f = empty_lp\<lparr>Fragment := [b]\<rparr> \<and> 0 < length b \<and> int (length b) \<le> eff \<and> FragIndex f = None \<and> FragCount f = None"
    if f: "f \<in> set fs" for f
  proof -
    obtain i where i: "i < length fs" "f = fs ! i" using f by (auto simp: in_set_conv_nth)
    then obtain b where b: "f = empty_lp\<lparr>Fragment := [b]\<rparr>" "length b = ?ns ! i" using fs(2,4) by auto
    have "?ns ! i \<in> set ?ns" using i fs(2) by (intro nth_mem) simp
    from sz[OF this] b show ?thesis by (intro exI[of _ b]) (simp add: empty_lp_def)
  qed
  moreover have "split_wire A w eff = Inr fs"
    using fs(1) n(2) assms(2) by (simp add: split_wire_def)
  ultimately show ?thesis using fs(3) len n(1,2) by (intro exI[of _ fs]) auto
qed

section \<open>Sending\<close>

lemma transmit_one:
  "\<not> sendFrameMutex l \<Longrightarrow> EncodeLp A f = Some w \<Longrightarrow>
     transmit A [f] l = (Returned, l\<lparr>sendFrameMutex := False, tr_sent := tr_sent l @ [wire_Join A w]\<rparr>)"
  by (simp add: transmit_def)

lemma transmit_more:
  "\<not> sendFrameMutex l \<Longrightarrow> EncodeLp A f = Some w \<Longrightarrow> EncodeLp A g = Some v \<Longrightarrow>
     transmit A (f # g # fs) l = (Blocked, l\<lparr>sendFrameMutex := True, tr_sent := tr_sent l @ [wire_Join A w]\<rparr>)"
  by (simp add: transmit_def)

lemma transmit_blocked:
  assumes "sendFrameMutex l"
  shows "tr_sent (snd (transmit A fs l)) = tr_sent l" "sendFrameMutex (snd (transmit A fs l))"
  using assms by (cases fs; simp add: transmit_def split: option.split)+

lemma number_fragments_length [simp]: "length (number_fragments s fs) = length fs"
  by (induction fs arbitrary: s) auto

lemma mark_congestion_keeps:
  "mark_congestion c now fs l = Inr (fs', l') \<Longrightarrow>
     length fs' = length fs \<and> map Fragment fs' = map Fragment fs \<and> tr_sent l' = tr_sent l \<and> sendFrameMutex l' = sendFrameMutex l
       \<and> options l' = options l \<and> nextSequence l' = nextSequence l"
  by (auto simp: mark_congestion_def upd_first_def rbind_Inr split: if_splits list.splits)

lemma count_out_keeps [simp]:
  "tr_sent (count_out p l) = tr_sent l" "sendFrameMutex (count_out p l) = sendFrameMutex l" "options (count_out p l) = options l"
  "nextSequence (count_out p l) = nextSequence l" "tr_State (count_out p l) = tr_State l" "effectiveMtu b p (count_out p l) = effectiveMtu b p l"
  by (simp_all add: count_out_def effectiveMtu_def)

text \<open>The part of a send that comes after the fragments are made.\<close>

definition send_fragments :: "lp_api \<Rightarrow> bool \<Rightarrow> int \<Rightarrow> PendingPacket \<Rightarrow> NDNLPLinkService \<Rightarrow> LpPacket list \<Rightarrow> (outcome \<times> NDNLPLinkService) result" where
  "send_fragments A c now pkt l frags =
     (let numbered = length frags > 1 \<or> IsReliabilityEnabled (options l)
      in rbind (mark_congestion c now (if numbered then number_fragments (nextSequence l) frags else frags)
                  (if numbered then l\<lparr>nextSequence := nextSequence l + of_nat (length frags)\<rparr> else l)) (\<lambda>(frags, l).
         rbind (track_fragments frags l) (\<lambda>frags. rbind (set_first_fields pkt l frags) (\<lambda>frags. Inr (transmit A frags l)))))"

lemma sendPacket_eq:
  assumes "tr_State l = Up" "int (length (RawBytes pkt)) \<le> effectiveMtu nn pkt l \<or> IsFragmentationEnabled (options l)"
  shows "sendPacket A c now nn pkt l =
    rbind (if int (length (RawBytes pkt)) > effectiveMtu nn pkt l then split_wire A (RawBytes pkt) (effectiveMtu nn pkt l)
           else Inr [empty_lp\<lparr>Fragment := [RawBytes pkt]\<rparr>]) (send_fragments A c now pkt (count_out pkt l))"
  using assms by (auto simp: sendPacket_def send_fragments_def[abs_def] Let_def not_less cong: if_cong)

lemma send_fragments_sent:
  assumes "send_fragments A c now pkt l frags = Inr (out, l')"
  obtains fs l1 where "transmit A fs l1 = (out, l')" "tr_sent l1 = tr_sent l" "sendFrameMutex l1 = sendFrameMutex l"
    "length fs = length frags"
proof -
  let ?num = "length frags > 1 \<or> IsReliabilityEnabled (options l)"
  from assms obtain fs2 l2 fs3 fs4 where
    m: "mark_congestion c now (if ?num then number_fragments (nextSequence l) frags else frags)
          (if ?num then l\<lparr>nextSequence := nextSequence l + of_nat (length frags)\<rparr> else l) = Inr (fs2, l2)"
    and tr: "track_fragments fs2 l2 = Inr fs3" and st: "set_first_fields pkt l2 fs3 = Inr fs4" and t: "transmit A fs4 l2 = (out, l')"
    by (auto simp: send_fragments_def Let_def rbind_Inr simp del: split_paired_Ex)
  have "length fs4 = length fs3"
    using st by (auto simp: set_first_fields_def upd_first_def rbind_Inr split: if_splits list.splits)
  moreover have "fs3 = fs2" using tr by (auto simp: track_fragments_def split: if_splits list.splits)
  ultimately show ?thesis
    using that[OF t] mark_congestion_keeps[OF m] by (auto split: if_splits)
qed

lemma upd_first_ok: "frags \<noteq> [] \<Longrightarrow> \<exists>fs. upd_first f frags = Inr fs \<and> length fs = length frags"
  by (cases frags) (simp_all add: upd_first_def)

lemma mark_congestion_ok: "frags \<noteq> [] \<Longrightarrow> \<exists>fs l'. mark_congestion c now frags l = Inr (fs, l')"
  by (cases frags) (simp_all add: mark_congestion_def upd_first_def)

lemma set_first_fields_ok:
  assumes "frags \<noteq> []"
  shows "\<exists>fs. set_first_fields pkt l frags = Inr fs \<and> length fs = length frags"
  using assms by (cases frags) (auto simp: set_first_fields_def upd_first_def)

lemma send_fragments_ok:
  assumes "frags \<noteq> []" "\<not> IsReliabilityEnabled (options l)"
  shows "\<exists>fs l1. send_fragments A c now pkt l frags = Inr (transmit A fs l1) \<and> length fs = length frags
    \<and> tr_sent l1 = tr_sent l \<and> sendFrameMutex l1 = sendFrameMutex l"
proof -
  let ?fr = "if length frags > 1 then number_fragments (nextSequence l) frags else frags"
  let ?l = "if length frags > 1 then l\<lparr>nextSequence := nextSequence l + of_nat (length frags)\<rparr> else l"
  have ne: "?fr \<noteq> []" using assms(1) by (metis length_0_conv number_fragments_length)
  obtain fs2 l2 where m: "mark_congestion c now ?fr ?l = Inr (fs2, l2)" using mark_congestion_ok[OF ne] by blast
  note k = mark_congestion_keeps[OF m]
  then have o: "options l2 = options l" "fs2 \<noteq> []" using ne by (auto split: if_splits)
  obtain fs4 where f: "set_first_fields pkt l2 fs2 = Inr fs4" "length fs4 = length fs2" using set_first_fields_ok[OF o(2)] by blast
  have "send_fragments A c now pkt l frags = Inr (transmit A fs4 l2)"
    using m f(1) assms(2) o(1) by (simp add: send_fragments_def Let_def track_fragments_def)
  then show ?thesis using k f(2) by (intro exI[of _ fs4] exI[of _ l2]) (auto split: if_splits)
qed

lemma sendPacket_down:
  assumes "tr_State l \<noteq> Up \<or> int (length (RawBytes pkt)) > effectiveMtu nn pkt l \<and> \<not> IsFragmentationEnabled (options l)"
  shows "\<exists>l'. sendPacket A c now nn pkt l = Inr (Returned, l') \<and> tr_sent l' = tr_sent l \<and> sendFrameMutex l' = sendFrameMutex l"
  using assms by (auto simp: sendPacket_def Let_def)

lemma sendPacket_blocked:
  assumes "sendPacket A c now nn pkt l = Inr (out, l')" "sendFrameMutex l"
  shows "tr_sent l' = tr_sent l \<and> sendFrameMutex l'"
proof (cases "tr_State l \<noteq> Up \<or> int (length (RawBytes pkt)) > effectiveMtu nn pkt l \<and> \<not> IsFragmentationEnabled (options l)")
  case True
  from sendPacket_down[OF this, of A c now] show ?thesis using assms by auto
next
  case False
  then have up: "tr_State l = Up" "int (length (RawBytes pkt)) \<le> effectiveMtu nn pkt l \<or> IsFragmentationEnabled (options l)" by auto
  from assms(1)[unfolded sendPacket_eq[OF up] rbind_Inr] obtain frags where
    "send_fragments A c now pkt (count_out pkt l) frags = Inr (out, l')" by blast
  then obtain fs l1 where t: "transmit A fs l1 = (out, l')" "tr_sent l1 = tr_sent l" "sendFrameMutex l1 = sendFrameMutex l"
    by (rule send_fragments_sent) auto
  show ?thesis using transmit_blocked[of l1 A fs] t assms(2) by simp
qed

text \<open>Sends one after the other, each by a call of its own.\<close>

definition send_all :: "lp_api \<Rightarrow> bool \<Rightarrow> (int \<times> bool \<times> PendingPacket) list \<Rightarrow> NDNLPLinkService \<Rightarrow> NDNLPLinkService result" where
  "send_all A c = rfold (\<lambda>(now, nn, pkt) l. rbind (sendPacket A c now nn pkt l) (\<lambda>(out, l'). Inr l'))"

lemma send_all_blocked:
  assumes "send_all A c pkts l = Inr l'" "sendFrameMutex l"
  shows "tr_sent l' = tr_sent l \<and> sendFrameMutex l'"
proof -
  have "tr_sent l' = tr_sent l \<and> sendFrameMutex l'"
    by (rule rfold_inv[where P = "\<lambda>k. tr_sent k = tr_sent l \<and> sendFrameMutex k", OF assms(1)[unfolded send_all_def]])
       (use assms(2) sendPacket_blocked in \<open>force simp: rbind_Inr\<close>)+
  then show ?thesis .
qed

text \<open>
  A packet that fits the effective MTU goes out as one frame and frees the mutex. A longer one, on a
  link with fragmentation, puts exactly one frame on the wire and then blocks on the mutex that its own
  first frame locked; after that no packet of any later send reaches the transport.
\<close>

theorem fragmented_send_blocks:
  assumes "lp_laws A" "\<forall>f. EncodeLp A f \<noteq> None" "tr_State l = Up" "\<not> sendFrameMutex l" "\<not> IsReliabilityEnabled (options l)"
    "0 < effectiveMtu nn pkt l" "int (length (RawBytes pkt)) < 2 ^ 62"
  shows "(int (length (RawBytes pkt)) \<le> effectiveMtu nn pkt l \<longrightarrow>
      (\<exists>l' frame. sendPacket A c now nn pkt l = Inr (Returned, l') \<and> tr_sent l' = tr_sent l @ [frame] \<and> \<not> sendFrameMutex l'))
    \<and> (int (length (RawBytes pkt)) > effectiveMtu nn pkt l \<and> IsFragmentationEnabled (options l) \<longrightarrow>
      (\<exists>l' frame. sendPacket A c now nn pkt l = Inr (Blocked, l') \<and> tr_sent l' = tr_sent l @ [frame] \<and> sendFrameMutex l'
        \<and> (\<forall>pkts l''. send_all A c pkts l' = Inr l'' \<longrightarrow> tr_sent l'' = tr_sent l')))"
proof (intro conjI impI)
  let ?w = "RawBytes pkt" and ?eff = "effectiveMtu nn pkt l"
  assume fits: "int (length ?w) \<le> ?eff"
  obtain fs l1 where s: "send_fragments A c now pkt (count_out pkt l) [empty_lp\<lparr>Fragment := [?w]\<rparr>] = Inr (transmit A fs l1)"
      "length fs = 1" "tr_sent l1 = tr_sent l" "\<not> sendFrameMutex l1"
    using send_fragments_ok[of "[empty_lp\<lparr>Fragment := [?w]\<rparr>]" "count_out pkt l" A c now pkt] assms(4,5) by auto
  obtain f where f: "fs = [f]" using s(2) by (cases fs) auto
  obtain v where v: "EncodeLp A f = Some v" using assms(2) by blast
  have "sendPacket A c now nn pkt l = Inr (transmit A [f] l1)"
    using fits s(1) f by (subst sendPacket_eq[OF assms(3)]) auto
  then show "\<exists>l' frame. sendPacket A c now nn pkt l = Inr (Returned, l') \<and> tr_sent l' = tr_sent l @ [frame] \<and> \<not> sendFrameMutex l'"
    using transmit_one[OF s(4) v] s(3)
    by (intro exI[of _ "l1\<lparr>sendFrameMutex := False, tr_sent := tr_sent l1 @ [wire_Join A v]\<rparr>"] exI[of _ "wire_Join A v"]) simp
next
  let ?w = "RawBytes pkt" and ?eff = "effectiveMtu nn pkt l"
  assume long: "int (length ?w) > ?eff \<and> IsFragmentationEnabled (options l)"
  obtain frags where fr: "split_wire A ?w ?eff = Inr frags" "2 \<le> length frags"
    using split_wire_spec[OF assms(1) assms(6) _ assms(7)] long by blast
  then have "frags \<noteq> []" by auto
  then obtain fs l1 where s: "send_fragments A c now pkt (count_out pkt l) frags = Inr (transmit A fs l1)"
      "length fs = length frags" "tr_sent l1 = tr_sent l" "\<not> sendFrameMutex l1"
    using send_fragments_ok[of frags "count_out pkt l" A c now pkt] assms(4,5) by auto
  obtain f g rest where f: "fs = f # g # rest" using fr(2) s(2) by (cases fs; cases "tl fs") auto
  obtain v u where v: "EncodeLp A f = Some v" "EncodeLp A g = Some u" using assms(2) by blast
  let ?l' = "l1\<lparr>sendFrameMutex := True, tr_sent := tr_sent l1 @ [wire_Join A v]\<rparr>"
  have "sendPacket A c now nn pkt l = Inr (Blocked, ?l')"
    using long fr(1) s(1) f transmit_more[OF s(4) v, of rest] by (subst sendPacket_eq[OF assms(3)]) auto
  moreover have "tr_sent l'' = tr_sent ?l'" if "send_all A c pkts ?l' = Inr l''" for pkts l''
    using send_all_blocked[OF that] by simp
  ultimately show "\<exists>l' frame. sendPacket A c now nn pkt l = Inr (Blocked, l') \<and> tr_sent l' = tr_sent l @ [frame] \<and> sendFrameMutex l'
        \<and> (\<forall>pkts l''. send_all A c pkts l' = Inr l'' \<longrightarrow> tr_sent l'' = tr_sent l')"
    using s(3) by (intro exI[of _ ?l'] exI[of _ "wire_Join A v"]) simp
qed

text \<open>Concrete packets and a codec to instantiate the theorems: a link-layer packet is written as its fragment.\<close>

definition toy_lp :: lp_api where
  "toy_lp = \<lparr>ReadPacket = (\<lambda>w. None), EncodeLp = (\<lambda>f. Some (Fragment f)), wire_Join = concat,
     ReadWire = (\<lambda>w i n. if i + n \<le> length w then Some (take n (drop i w)) else None), name_String = (\<lambda>n. [])\<rparr>"

lemma toy_lp_laws: "lp_laws toy_lp"
  by (simp add: lp_laws_def toy_lp_def)

lemma toy_lp_encodes: "\<forall>f. EncodeLp toy_lp f \<noteq> None"
  by (simp add: toy_lp_def)

definition toy_link :: "int \<Rightarrow> NDNLPLinkService" where
  "toy_link mtu = MakeNDNLPLinkService Up mtu NonLocal
     (MakeNDNLPLinkServiceOptions\<lparr>IsFragmentationEnabled := True, IsReassemblyEnabled := True\<rparr>)"

definition toy_long :: PendingPacket where
  "toy_long = (empty_packet 1)\<lparr>RawBytes := [1, 2, 3, 4, 5]\<rparr>"

theorem fragmented_send_blocks_witness:
  "\<exists>l' frame. sendPacket toy_lp False 0 False toy_long (toy_link 24) = Inr (Blocked, l') \<and> tr_sent l' = [frame]"
proof -
  have "effectiveMtu False toy_long (toy_link 24) = 2" "tr_State (toy_link 24) = Up" "\<not> sendFrameMutex (toy_link 24)"
    "\<not> IsReliabilityEnabled (options (toy_link 24))" "IsFragmentationEnabled (options (toy_link 24))" "tr_sent (toy_link 24) = []"
    "RawBytes toy_long = [1, 2, 3, 4, 5]"
    by (simp_all add: effectiveMtu_def toy_link_def toy_long_def MakeNDNLPLinkService_def computeHeaderOverhead_def
        MakeNDNLPLinkServiceOptions_def empty_packet_def Let_def)
  then show ?thesis
    using fragmented_send_blocks[OF toy_lp_laws toy_lp_encodes, of "toy_link 24" False toy_long False 0] by auto
qed

theorem split_wire_spec_witness:
  "\<exists>fs. split_wire toy_lp [1, 2, 3, 4, 5] 2 = Inr fs \<and> length fs = 3 \<and> concat (concat (map Fragment fs)) = [1, 2, 3, 4, 5]"
  using split_wire_spec[OF toy_lp_laws, of 2 "[1, 2, 3, 4, 5]"] by auto

text \<open>
  With reliability switched on, sending panics: every packet that is not dropped for its size
  ends the process at the map of unacknowledged fragments, which is never made.
\<close>

theorem reliable_send_panics:
  assumes "lp_laws A" "tr_State l = Up" "IsReliabilityEnabled (options l)" "0 < effectiveMtu nn pkt l"
    "int (length (RawBytes pkt)) < 2 ^ 62"
    "int (length (RawBytes pkt)) \<le> effectiveMtu nn pkt l \<or> IsFragmentationEnabled (options l)"
  shows "sendPacket A c now nn pkt l = Inl NilMapWrite"
proof -
  have panics: "send_fragments A c now pkt (count_out pkt l) frags = Inl NilMapWrite" if ne: "frags \<noteq> []" for frags
  proof -
    have n: "number_fragments (nextSequence l) frags \<noteq> []" using ne by (metis length_0_conv number_fragments_length)
    obtain fs2 l2 where m: "mark_congestion c now (number_fragments (nextSequence l) frags)
        (count_out pkt l\<lparr>nextSequence := nextSequence l + of_nat (length frags)\<rparr>) = Inr (fs2, l2)"
      using mark_congestion_ok[OF n] by blast
    from mark_congestion_keeps[OF m] have "options l2 = options l" "fs2 \<noteq> []" using n by auto
    then show ?thesis
      using m assms(3) by (cases fs2) (simp_all add: send_fragments_def Let_def track_fragments_def)
  qed
  show ?thesis
  proof (cases "int (length (RawBytes pkt)) \<le> effectiveMtu nn pkt l")
    case True
    then show ?thesis by (subst sendPacket_eq[OF assms(2)]) (auto simp: panics)
  next
    case False
    then obtain frags where "split_wire A (RawBytes pkt) (effectiveMtu nn pkt l) = Inr frags" "2 \<le> length frags"
      using split_wire_spec[OF assms(1,4) _ assms(5)] by auto
    moreover from this(2) have "frags \<noteq> []" by auto
    ultimately show ?thesis using False assms(6) panics by (subst sendPacket_eq[OF assms(2)]) auto
  qed
qed

theorem reliable_send_panics_witness:
  "sendPacket toy_lp False 0 False toy_long
     (MakeNDNLPLinkService Up 8800 NonLocal (MakeNDNLPLinkServiceOptions\<lparr>IsReliabilityEnabled := True\<rparr>)) = Inl NilMapWrite"
  by (rule reliable_send_panics[OF toy_lp_laws])
     (simp_all add: effectiveMtu_def toy_long_def MakeNDNLPLinkService_def computeHeaderOverhead_def MakeNDNLPLinkServiceOptions_def
        empty_packet_def Let_def)

section \<open>Reassembly\<close>

text \<open>Fragments of one message, given by their index and content, handed to reassembly one after the other.\<close>

fun feed :: "lp_api \<Rightarrow> u64 \<Rightarrow> nat \<Rightarrow> (nat \<times> bytes) list \<Rightarrow> NDNLPLinkService \<Rightarrow> (wire option list \<times> NDNLPLinkService) result" where
  "feed A base n [] l = Inr ([], l)"
| "feed A base n ((i, b) # xs) l =
     rbind (reassemblePacket A (empty_lp\<lparr>Fragment := [b]\<rparr>) base (of_nat i) (of_nat n) l) (\<lambda>(w, l).
     rbind (feed A base n xs l) (\<lambda>(ws, l). Inr (w # ws, l)))"

text \<open>The slots after some of the fragments have come.\<close>

definition slots_of :: "nat \<Rightarrow> (nat \<times> bytes) list \<Rightarrow> bytes list" where
  "slots_of n got = map (\<lambda>i. case map_of got i of Some b \<Rightarrow> b | None \<Rightarrow> []) [0..<n]"

lemma slots_of_update: "i < n \<Longrightarrow> (slots_of n got)[i := b] = slots_of n ((i, b) # got)"
  by (rule nth_equalityI) (auto simp: slots_of_def nth_list_update)

lemma slots_of_length [simp]: "length (slots_of n got) = n"
  by (simp add: slots_of_def)

lemma slots_full:
  assumes "\<forall>(i, b)\<in>set got. b \<noteq> []"
  shows "length (filter (\<lambda>s. length s \<noteq> 0) (slots_of n got)) = length (slots_of n got) \<longleftrightarrow> {0..<n} \<subseteq> fst ` set got"
proof -
  have "(case map_of got i of Some b \<Rightarrow> b | None \<Rightarrow> []) \<noteq> [] \<longleftrightarrow> i \<in> fst ` set got" for i
  proof (cases "map_of got i")
    case None
    then have "i \<notin> fst ` set got" by (simp add: map_of_eq_None_iff)
    then show ?thesis using None by simp
  next
    case (Some b)
    then have "(i, b) \<in> set got" by (rule map_of_SomeD)
    then show ?thesis using Some assms by force
  qed
  then show ?thesis unfolding length_filter_full slots_of_def by auto
qed

text \<open>The state after the fragments in \<open>got\<close> of an unfinished message.\<close>

definition collecting :: "u64 \<Rightarrow> nat \<Rightarrow> (nat \<times> bytes) list \<Rightarrow> NDNLPLinkService \<Rightarrow> NDNLPLinkService" where
  "collecting base n got l =
     (if got = [] then l else l\<lparr>partialMessageStore := (partialMessageStore l)(base \<mapsto> slots_of n got)\<rparr>)"

lemma reassemblePacket_slots:
  assumes "partialMessageStore l base = Some slots \<or> partialMessageStore l base = None \<and> fragCount < 2 ^ 63 \<and> slots = replicate (unat fragCount) []"
    "unat fragIndex < length slots" "slots' = slots[unat fragIndex := wire_Join A (Fragment f)]"
  shows "reassemblePacket A f base fragIndex fragCount l =
    (if length (filter (\<lambda>s. length s \<noteq> 0) slots') = length slots'
     then Inr (Some slots', l\<lparr>partialMessageStore := (partialMessageStore l)(base := None)\<rparr>)
     else Inr (None, l\<lparr>partialMessageStore := (partialMessageStore l)(base \<mapsto> slots')\<rparr>))"
  using assms by (auto simp: reassemblePacket_def Let_def not_le)

lemma collecting_store:
  assumes "partialMessageStore l base = None"
  shows "(collecting base n got l)\<lparr>partialMessageStore := (partialMessageStore (collecting base n got l))(base := None)\<rparr> = l"
    "(collecting base n got l)\<lparr>partialMessageStore := (partialMessageStore (collecting base n got l))(base \<mapsto> slots_of n (x # got))\<rparr>
       = collecting base n (x # got) l"
  using assms by (simp_all add: collecting_def fun_upd_idem)

lemma reassemble_step:
  assumes "lp_laws A" "partialMessageStore l base = None" "i < n" "n < 2 ^ 63" "\<forall>(i, b)\<in>set ((i, b) # got). b \<noteq> []"
  shows "reassemblePacket A (empty_lp\<lparr>Fragment := [b]\<rparr>) base (of_nat i) (of_nat n) (collecting base n got l) =
    (if {0..<n} \<subseteq> fst ` set ((i, b) # got) then Inr (Some (slots_of n ((i, b) # got)), l)
     else Inr (None, collecting base n ((i, b) # got) l))"
proof -
  let ?l = "collecting base n got l"
  have u: "unat (of_nat i :: u64) = i" "unat (of_nat n :: u64) = n"
    using assms(3,4) by (simp_all add: unat_of_nat take_bit_nat_eq_self)
  have small: "(of_nat n :: u64) < 2 ^ 63" using assms(4) by (simp add: word_less_nat_alt u(2))
  have "slots_of n [] = replicate n []" by (simp add: slots_of_def map_replicate_trivial)
  then have st: "partialMessageStore ?l base = Some (slots_of n got)
      \<or> partialMessageStore ?l base = None \<and> (of_nat n :: u64) < 2 ^ 63 \<and> slots_of n got = replicate (unat (of_nat n :: u64)) []"
    using assms(2) small u(2) by (simp add: collecting_def)
  have idx: "unat (of_nat i :: u64) < length (slots_of n got)" by (simp add: u assms(3))
  have new: "slots_of n ((i, b) # got) = (slots_of n got)[unat (of_nat i :: u64) := wire_Join A (Fragment (empty_lp\<lparr>Fragment := [b]\<rparr>))]"
    using assms(1) by (simp add: lp_laws_def u slots_of_update[OF assms(3)])
  show ?thesis
    unfolding reassemblePacket_slots[OF st idx new] slots_full[OF assms(5)] collecting_store[OF assms(2)] by (rule refl)
qed

lemma feed_spec:
  assumes "lp_laws A" "partialMessageStore l base = None" "n < 2 ^ 63"
  shows "\<forall>(i, b)\<in>set (xs @ got). b \<noteq> [] \<and> i < n \<Longrightarrow> distinct (map fst (xs @ got)) \<Longrightarrow> fst ` set (xs @ got) = {0..<n} \<Longrightarrow> xs \<noteq> [] \<Longrightarrow>
    feed A base n xs (collecting base n got l) =
      Inr (replicate (length xs - 1) None @ [Some (slots_of n (rev xs @ got))], l)"
proof (induction xs arbitrary: got)
  case (Cons x xs)
  obtain i b where x: "x = (i, b)" by (cases x)
  have pre: "i < n" "\<forall>(i, b)\<in>set ((i, b) # got). b \<noteq> []" using Cons.prems(1) by (auto simp: x)
  show ?case
  proof (cases "xs = []")
    case True
    then have "{0..<n} \<subseteq> fst ` set ((i, b) # got)" using Cons.prems(3) by (simp add: x)
    then show ?thesis using True reassemble_step[OF assms(1,2) pre(1) assms(3) pre(2)] by (simp add: x)
  next
    case False
    then obtain j where j: "j \<in> fst ` set xs" by (cases xs) auto
    have "j \<in> fst ` set (x # xs @ got)" using j by (simp add: image_Un)
    then have "j \<in> {0..<n}" unfolding append_Cons[symmetric] Cons.prems(3) .
    moreover have "j \<notin> fst ` set ((i, b) # got)"
      using Cons.prems(2) j by (auto simp: x image_iff)
    ultimately have "\<not> {0..<n} \<subseteq> fst ` set ((i, b) # got)" by blast
    then have step: "reassemblePacket A (empty_lp\<lparr>Fragment := [b]\<rparr>) base (of_nat i) (of_nat n) (collecting base n got l) =
        Inr (None, collecting base n ((i, b) # got) l)"
      using reassemble_step[OF assms(1,2) pre(1) assms(3) pre(2)] by simp
    have ih: "feed A base n xs (collecting base n ((i, b) # got) l) =
        Inr (replicate (length xs - 1) None @ [Some (slots_of n (rev xs @ (i, b) # got))], l)"
      using Cons.prems False by (intro Cons.IH) (auto simp: x)
    have "replicate (length xs) None = None # replicate (length xs - 1) (None :: wire option)"
      using False by (cases xs) auto
    then show ?thesis using step ih by (simp add: x)
  qed
qed simp

text \<open>
  C27. The fragments of a message, none of them empty, come back as the message in the order of their
  indices, whatever the order they arrive in: no fragment before the last yields anything, the last one
  yields all, and nothing of the message is left in the store.
\<close>

theorem reassembly_any_order:
  assumes "lp_laws A" "partialMessageStore l base = None" "n < 2 ^ 63" "xs \<noteq> []"
    "distinct (map fst xs)" "fst ` set xs = {0..<n}" "\<forall>(i, b)\<in>set xs. b \<noteq> []"
  shows "feed A base n xs l =
    Inr (replicate (n - 1) None @ [Some (map (\<lambda>i. the (map_of xs i)) [0..<n])], l)"
proof -
  have len: "length xs = n" using distinct_card[OF assms(5)] assms(6) by (simp flip: image_set)
  have "(case map_of (rev xs) i of Some b \<Rightarrow> b | None \<Rightarrow> []) = the (map_of xs i)" if "i \<in> {0..<n}" for i
  proof -
    from that assms(6) obtain b where b: "(i, b) \<in> set xs" by force
    then have "map_of xs i = Some b" "map_of (rev xs) i = Some b"
      using assms(5) by (auto intro!: map_of_is_SomeI simp: rev_map[symmetric])
    then show ?thesis by simp
  qed
  then have "slots_of n (rev xs) = map (\<lambda>i. the (map_of xs i)) [0..<n]"
    by (simp add: slots_of_def)
  moreover have "feed A base n xs (collecting base n [] l) = Inr (replicate (length xs - 1) None @ [Some (slots_of n (rev xs @ []))], l)"
  proof (intro feed_spec[OF assms(1-3)])
    show "\<forall>(i, b)\<in>set (xs @ []). b \<noteq> [] \<and> i < n"
    proof (intro ballI, clarify)
      fix i b assume ib: "(i, b) \<in> set (xs @ [])"
      then have "i \<in> fst ` set xs" by force
      then show "b \<noteq> [] \<and> i < n" using ib assms(6,7) by auto
    qed
  qed (use assms in simp_all)
  ultimately show ?thesis by (simp add: collecting_def len)
qed

theorem reassembly_any_order_witness:
  "feed toy_lp 7 3 [(2, [5]), (0, [1, 2]), (1, [3, 4])] (toy_link 24) = Inr ([None, None, Some [[1, 2], [3, 4], [5]]], toy_link 24)"
proof -
  have "partialMessageStore (toy_link 24) 7 = None"
    by (simp add: toy_link_def MakeNDNLPLinkService_def computeHeaderOverhead_def Let_def)
  let ?xs = "[(2, [5]), (0, [1, 2]), (1, [3, 4])] :: (nat \<times> bytes) list"
  have "fst ` set ?xs = {0..<3}" by auto
  then have "feed toy_lp 7 3 ?xs (toy_link 24) =
      Inr (replicate (3 - 1) None @ [Some (map (\<lambda>i. the (map_of ?xs i)) [0..<3])], toy_link 24)"
    using \<open>partialMessageStore (toy_link 24) 7 = None\<close> by (intro reassembly_any_order[OF toy_lp_laws]) simp_all
  moreover have "map (\<lambda>i. the (map_of ?xs i)) [0..<3] = [[1, 2], [3, 4], [5]]" by (simp add: upt_rec)
  moreover have "replicate (3 - 1) None = [None, None :: wire option]" by (simp add: numeral_2_eq_2)
  ultimately show ?thesis by (simp only: append.simps)
qed

text \<open>
  Reassembly panics exactly when the message is new and announces \<open>2 ^ 63\<close> fragments or more, or
  when the index of the fragment is not below the count that the first fragment of the message announced;
  so a single frame with an index not below its own count ends the process.
\<close>

theorem reassembly_panics:
  "((\<exists>e. reassemblePacket A f base i n l = Inl e) \<longleftrightarrow>
      (case partialMessageStore l base of
         Some slots \<Rightarrow> length slots \<le> unat i
       | None \<Rightarrow> 2 ^ 63 \<le> n \<or> n \<le> i))
   \<and> (ReadPacket A [frame] = Some \<lparr>sp_Interest = None, sp_Data = None, sp_LpPacket = Some lp\<rparr> \<and> IsReassemblyEnabled (options l)
        \<and> Fragment lp \<noteq> [] \<and> Sequence lp = Some s \<and> FragIndex lp = Some i \<and> FragCount lp = Some n \<and> n \<le> i \<and> (i, n) \<noteq> (0, 1)
        \<and> partialMessageStore l (s - i) = None \<longrightarrow>
      (\<exists>e. processIncomingFrame A E nThreads FWDispatch frame l = Inl e))"
proof (rule conjI)
  have iff: "(\<exists>e. reassemblePacket A f base i n l = Inl e) \<longleftrightarrow>
      (case partialMessageStore l base of Some slots \<Rightarrow> length slots \<le> unat i | None \<Rightarrow> 2 ^ 63 \<le> n \<or> n \<le> i)" for A f base i n l
    by (auto simp: reassemblePacket_def Let_def word_le_nat_alt split: option.split)
  show "(\<exists>e. reassemblePacket A f base i n l = Inl e) \<longleftrightarrow>
      (case partialMessageStore l base of Some slots \<Rightarrow> length slots \<le> unat i | None \<Rightarrow> 2 ^ 63 \<le> n \<or> n \<le> i)" by (rule iff)
  show "ReadPacket A [frame] = Some \<lparr>sp_Interest = None, sp_Data = None, sp_LpPacket = Some lp\<rparr> \<and> IsReassemblyEnabled (options l)
        \<and> Fragment lp \<noteq> [] \<and> Sequence lp = Some s \<and> FragIndex lp = Some i \<and> FragCount lp = Some n \<and> n \<le> i \<and> (i, n) \<noteq> (0, 1)
        \<and> partialMessageStore l (s - i) = None \<longrightarrow> (\<exists>e. processIncomingFrame A E nThreads FWDispatch frame l = Inl e)"
  proof
    assume h: "ReadPacket A [frame] = Some \<lparr>sp_Interest = None, sp_Data = None, sp_LpPacket = Some lp\<rparr> \<and> IsReassemblyEnabled (options l)
        \<and> Fragment lp \<noteq> [] \<and> Sequence lp = Some s \<and> FragIndex lp = Some i \<and> FragCount lp = Some n \<and> n \<le> i \<and> (i, n) \<noteq> (0, 1)
        \<and> partialMessageStore l (s - i) = None"
    then obtain e where "reassemblePacket A lp (s - i) i n l = Inl e"
      using iff[of A lp "s - i" i n l] by auto
    then show "\<exists>e. processIncomingFrame A E nThreads FWDispatch frame l = Inl e"
      using h by (auto simp: processIncomingFrame_def decode_frame_def receive_fragment_def)
  qed
qed

theorem reassembly_panics_witness:
  "\<exists>e. processIncomingFrame (toy_lp\<lparr>ReadPacket := (\<lambda>w. Some \<lparr>sp_Interest = None, sp_Data = None,
      sp_LpPacket = Some (empty_lp\<lparr>Sequence := Some 9, FragIndex := Some 5, FragCount := Some 2, Fragment := [[1]]\<rparr>)\<rparr>)\<rparr>)
     toy_enc 4 [0, 1, 2, 3 :: nat] [100] (toy_link 24) = Inl e"
proof -
  let ?lp = "empty_lp\<lparr>Sequence := Some 9, FragIndex := Some 5, FragCount := Some 2, Fragment := [[1]]\<rparr>"
  let ?A = "toy_lp\<lparr>ReadPacket := (\<lambda>w. Some \<lparr>sp_Interest = None, sp_Data = None, sp_LpPacket = Some ?lp\<rparr>)\<rparr>"
  have "IsReassemblyEnabled (options (toy_link 24))" "partialMessageStore (toy_link 24) (9 - 5) = None"
    by (simp_all add: toy_link_def MakeNDNLPLinkService_def computeHeaderOverhead_def MakeNDNLPLinkServiceOptions_def Let_def)
  then show ?thesis using reassembly_panics[of ?A ?lp 4 5 2 "toy_link 24" "[100]" ?lp 9 toy_enc 4 "[0, 1, 2, 3 :: nat]"] by simp
qed

section \<open>Dispatching\<close>

lemma on_thread_valid: "i < length ts \<Longrightarrow> on_thread ts i f = Inr (f (ts ! i))"
  by (simp add: on_thread_def GetFWThread_def)

lemma on_threads_valid:
  assumes "\<forall>i\<in>set is. i < length ts"
  shows "on_threads ts is f = Inr (map (\<lambda>i. f (ts ! i)) is)"
proof -
  have "rfold (\<lambda>i qs. rbind (on_thread ts i f) (\<lambda>q. Inr (qs @ [q]))) is qs = Inr (qs @ map (\<lambda>i. f (ts ! i)) is)" for qs
    using assms by (induction "is" arbitrary: qs) (simp_all add: on_thread_valid)
  then show ?thesis by (simp add: on_threads_def)
qed

text \<open>The hash thread of a name is one of those that its prefixes hash to.\<close>

lemma prefix_thread_in_list:
  assumes "enc_laws E" "0 < nThreads" "prefix p n" "p \<noteq> []" "HashNameToAllPrefixFwThreads E nThreads n = Inr is"
  shows "\<exists>i\<in>set is. HashNameToFwThread E nThreads p = Inr i"
proof -
  from assms(3,4) have hd: "n \<noteq> []" "hd n = hd p" "take (length p) n = p" "length p \<le> length n"
    by (auto simp: prefix_def)
  show ?thesis
  proof (cases "Val (hd n) = LOCALHOST")
    case True
    then show ?thesis using assms hd by (auto simp: HashNameToAllPrefixFwThreads_def HashNameToFwThread_def)
  next
    case False
    let ?i = "unat (name_Hash E p mod of_nat nThreads)"
    have "name_Hash E p \<in> set (tl (name_PrefixHash E n))"
    proof -
      have "tl (name_PrefixHash E n) = map (\<lambda>i. name_Hash E (take i n)) [1..<Suc (length n)]"
        using assms(1) by (simp add: enc_lawsD(4) map_tl[symmetric] tl_upt del: upt_Suc)
      moreover have "length p \<in> set [1..<Suc (length n)]" using hd(4) assms(4) by (cases p) auto
      ultimately show ?thesis using hd(3) by (metis (no_types, lifting) image_eqI list.set_map)
    qed
    then have "?i \<in> set is"
      using assms(2,5) False hd(1) by (auto simp: HashNameToAllPrefixFwThreads_def split: if_splits)
    moreover have "HashNameToFwThread E nThreads p = Inr ?i"
      using False hd(2) assms(2) by (simp add: HashNameToFwThread_def)
    ultimately show ?thesis by blast
  qed
qed

lemma thread_in_range:
  assumes "0 < N" "N < 2 ^ 63"
  shows "\<exists>k. HashNameToFwThread E N n = Inr k \<and> k < N"
    "\<exists>is. HashNameToAllPrefixFwThreads E N n = Inr is \<and> (\<forall>k\<in>set is. k < N)"
proof -
  have "unat (of_nat N :: u64) = N" using assms(2) by (simp add: unat_of_nat take_bit_nat_eq_self)
  then have lt: "unat (h mod of_nat N :: u64) < N" for h using assms(1) by (simp add: unat_mod)
  show "\<exists>k. HashNameToFwThread E N n = Inr k \<and> k < N"
    using assms(1) lt by (simp add: HashNameToFwThread_def)
  show "\<exists>is. HashNameToAllPrefixFwThreads E N n = Inr is \<and> (\<forall>k\<in>set is. k < N)"
    using assms(1) lt by (simp add: HashNameToAllPrefixFwThreads_def)
qed


definition toy_comp :: "u8 \<Rightarrow> component" where
  "toy_comp b = \<lparr>Typ = 8, Val = [b]\<rparr>"

definition toy_ipkt :: PendingPacket where
  "toy_ipkt = (empty_packet 1)\<lparr>pkt_Interest := Some \<lparr>int_NameV = [toy_comp 97], CanBePrefixV = True, MustBeFreshV = False,
     ForwardingHintV = None, NonceV = Some 1, HopLimitV = None\<rparr>\<rparr>"

definition toy_dpkt :: PendingPacket where
  "toy_dpkt = (empty_packet 2)\<lparr>pkt_Data := Some \<lparr>data_NameV = [toy_comp 97, toy_comp 98], data_MetaInfo = None\<rparr>\<rparr>"


text \<open>
  The PIT token that a thread writes into an Interest is read back by whichever link service
  receives it on Data: it is queued at that thread alone, whatever the face, and the thread decodes the
  entry's token from it. A token that names the thread after the last one panics, and one of a higher
  number drops the Data.
\<close>

theorem pit_token_dispatch:
  assumes "pkt_Interest pkt = None" "pkt_Data pkt = Some d" "PitToken pkt = fw_pit_token tid tok" "0 \<le> tid" "tid < 2 ^ 16"
  shows "incoming_token (PitToken pkt) = Inr (Some tok)
    \<and> dispatchIncomingPacket A E nThreads ts l pkt =
       (if tid < int (length ts) then Inr [QueueData (ts ! nat tid) (pkt\<lparr>NameCache := name_String A (data_NameV d)\<rparr>)]
        else if tid = int (length ts) then Inl IndexOutOfRange
        else Inr [])"
proof -
  have l: "length (fw_pit_token tid tok) = 6" "take 4 (drop 2 (fw_pit_token tid tok)) = PutUint32 tok"
    by (simp_all add: fw_pit_token_def)
  have "uint (Uint16 (fw_pit_token tid tok)) = tid"
    using assms(4,5) by (simp add: fw_pit_token_def unsigned_of_int take_bit_int_eq_self)
  then show ?thesis
    using assms by (auto simp: incoming_token_def l dispatchIncomingPacket_def Let_def GetFWThread_def)
qed

theorem pit_token_dispatch_witness:
  "dispatchIncomingPacket toy_lp toy_enc 2 [10, 20::nat] (toy_link 24)
     ((empty_packet 2)\<lparr>PitToken := fw_pit_token 2 7, pkt_Data := Some \<lparr>data_NameV = [], data_MetaInfo = None\<rparr>\<rparr>) = Inl IndexOutOfRange"
  using pit_token_dispatch[of "(empty_packet 2)\<lparr>PitToken := fw_pit_token 2 7, pkt_Data := Some \<lparr>data_NameV = [], data_MetaInfo = None\<rparr>\<rparr>"
      "\<lparr>data_NameV = [], data_MetaInfo = None\<rparr>" 2 7 toy_lp toy_enc 2 "[10, 20::nat]" "toy_link 24"]
  by (simp add: empty_packet_def)

end
