(* ===== verification/Face_Uri.thy ===== *)
theory Face_Uri
  imports Go_Strings
begin

text \<open>
  The data of a face URI (\<^verbatim>\<open>src/ndn/uri.go\<close>), its printing and its accessors. A URI pointer is an
  option where the code lets it be nil.
\<close>

datatype URIType = unknownURI | devURI | ethernetURI | fdURI | internalURI | nullURI | udpURI | tcpURI | unixURI | wsURI | wsclientURI

record URI =
  uriType :: URIType
  scheme :: gostring
  path :: gostring
  port :: u16

definition MakeInternalFaceURI :: URI where
  "MakeInternalFaceURI = \<lparr>uriType = internalURI, scheme = lit ''internal'', path = [], port = 0\<rparr>"

definition MakeNullFaceURI :: URI where
  "MakeNullFaceURI = \<lparr>uriType = nullURI, scheme = lit ''null'', path = [], port = 0\<rparr>"

definition PathHost :: "URI \<Rightarrow> gostring" where
  "PathHost u = hd (Split (of_char CHR ''%'') (path u))"

definition PathZone :: "URI \<Rightarrow> gostring" where
  "PathZone u = (case Split (of_char CHR ''%'') (path u) of _ # z # _ \<Rightarrow> z | _ \<Rightarrow> [])"

text \<open>\<^verbatim>\<open>net.JoinHostPort\<close> puts a host that contains a colon in brackets.\<close>

definition JoinHostPort :: "gostring \<Rightarrow> gostring \<Rightarrow> gostring" where
  "JoinHostPort host p =
     (if of_char CHR '':'' \<in> set host then lit ''['' @ host @ lit '']:'' @ p else host @ lit '':'' @ p)"

definition uri_String :: "URI \<Rightarrow> gostring" where
  "uri_String u =
     (case uriType u of
        devURI \<Rightarrow> lit ''dev://'' @ path u
      | ethernetURI \<Rightarrow> scheme u @ lit ''://['' @ path u @ lit '']''
      | fdURI \<Rightarrow> lit ''fd://'' @ path u
      | internalURI \<Rightarrow> lit ''internal://''
      | nullURI \<Rightarrow> lit ''null://''
      | unixURI \<Rightarrow> scheme u @ lit ''://'' @ path u
      | unknownURI \<Rightarrow> lit ''unknown://''
      | _ \<Rightarrow> scheme u @ lit ''://'' @ JoinHostPort (path u) (FormatUint (unat (port u))))"

lemma uri_String_simps [simp]:
  "uri_String MakeInternalFaceURI = lit ''internal://''" "uri_String MakeNullFaceURI = lit ''null://''"
  by (simp_all add: uri_String_def MakeInternalFaceURI_def MakeNullFaceURI_def)

end
