(* ===== verification/Go_Net.thy ===== *)
theory Go_Net
  imports Face_Uri
begin

text \<open>
  What the URI code uses of Go's packages \<^verbatim>\<open>net\<close>, \<^verbatim>\<open>net/netip\<close> and \<^verbatim>\<open>strings\<close>: parsing and printing of IP and
  hardware addresses, and trimming and folding of ASCII strings. An \<^verbatim>\<open>net.IP\<close> is its sixteen bytes; an IPv4
  address is the mapped form \<^verbatim>\<open>::ffff:a.b.c.d\<close>. What depends on the host the program runs on, the resolution of
  host names and the file system, and the URL parser are the fields of \<open>host_api\<close>.
\<close>

datatype stat_result = NotExist | StatError | IsDir | IsFile

record url_parts =
  url_User :: bool
  url_Path :: gostring
  url_RawQuery :: gostring
  url_Fragment :: gostring
  url_Scheme :: gostring
  url_Hostname :: gostring
  url_Port :: gostring

record host_api =
  LookupHost :: "gostring \<Rightarrow> gostring list option"
  Stat :: "gostring \<Rightarrow> stat_result"
  ResolveTCPAddr :: "gostring \<Rightarrow> (gostring \<times> u16) option"
  url_Parse :: "gostring \<Rightarrow> url_parts option"

section \<open>Strings\<close>

abbreviation ch :: "char \<Rightarrow> u8" where "ch c \<equiv> of_char c"

definition lower :: "u8 \<Rightarrow> u8" where
  "lower c = (if 65 \<le> c \<and> c \<le> 90 then c + 32 else c)"

definition EqualFold :: "gostring \<Rightarrow> gostring \<Rightarrow> bool" where
  "EqualFold s t = (map lower s = map lower t)"

definition Trim :: "u8 set \<Rightarrow> gostring \<Rightarrow> gostring" where
  "Trim cs s = rev (dropWhile (\<lambda>c. c \<in> cs) (rev (dropWhile (\<lambda>c. c \<in> cs) s)))"

definition TrimLeft :: "u8 set \<Rightarrow> gostring \<Rightarrow> gostring" where
  "TrimLeft cs s = dropWhile (\<lambda>c. c \<in> cs) s"

definition is_digit :: "u8 \<Rightarrow> bool" where "is_digit c \<longleftrightarrow> 48 \<le> c \<and> c \<le> 57"
definition is_alnum :: "u8 \<Rightarrow> bool" where "is_alnum c \<longleftrightarrow> is_digit c \<or> 65 \<le> c \<and> c \<le> 90 \<or> 97 \<le> c \<and> c \<le> 122"
definition is_hex :: "u8 \<Rightarrow> bool" where "is_hex c \<longleftrightarrow> is_digit c \<or> 65 \<le> c \<and> c \<le> 70 \<or> 97 \<le> c \<and> c \<le> 102"

definition hex_val :: "u8 \<Rightarrow> nat" where
  "hex_val c = (if is_digit c then unat c - 48 else unat (lower c) - 87)"

definition hex_number :: "gostring \<Rightarrow> nat" where
  "hex_number s = fold (\<lambda>c n. 16 * n + hex_val c) s 0"

fun hex_string :: "nat \<Rightarrow> gostring" where
  "hex_string n = (if n < 16 then [hex_digit n] else hex_string (n div 16) @ [hex_digit (n mod 16)])"

declare hex_string.simps [simp del]

section \<open>IP addresses\<close>

type_synonym ip = bytes

definition v4_prefix :: bytes where
  "v4_prefix = replicate 10 0 @ [0xFF, 0xFF]"

definition parse_octet :: "gostring \<Rightarrow> u8 option" where
  "parse_octet s =
     (if s = [] \<or> \<not> list_all is_digit s \<or> (length s > 1 \<and> hd s = 48) then None
      else case parse_digits s 0 of Some n \<Rightarrow> if n \<le> 255 then Some (of_nat n) else None | None \<Rightarrow> None)"

definition parseIPv4 :: "gostring \<Rightarrow> bytes option" where
  "parseIPv4 s =
     (case Split (ch CHR ''.'') s of
        [a, b, c, d] \<Rightarrow>
          (case (parse_octet a, parse_octet b, parse_octet c, parse_octet d) of
             (Some w, Some x, Some y, Some z) \<Rightarrow> Some [w, x, y, z]
           | _ \<Rightarrow> None)
      | _ \<Rightarrow> None)"

text \<open>
  The loop of the IPv6 parser: at most eight groups. The state is the bytes so far and the position of the
  \<^verbatim>\<open>::\<close>; the result adds what is left of the input.
\<close>

fun parse_groups :: "nat \<Rightarrow> gostring \<Rightarrow> bytes \<Rightarrow> nat option \<Rightarrow> (bytes \<times> nat option \<times> gostring) option" where
  "parse_groups 0 s ip ellipsis = Some (ip, ellipsis, s)"
| "parse_groups (Suc n) s ip ellipsis =
     (let ds = takeWhile is_hex s; rest = dropWhile is_hex s
      in if ds = [] \<or> length ds > 4 then None
         else if rest \<noteq> [] \<and> hd rest = ch CHR ''.'' then
           (if ellipsis = None \<and> length ip \<noteq> 12 \<or> length ip + 4 > 16 then None
            else case parseIPv4 s of None \<Rightarrow> None | Some q \<Rightarrow> Some (ip @ q, ellipsis, []))
         else
           let ip' = ip @ [of_nat (hex_number ds div 256), of_nat (hex_number ds)]
           in if rest = [] then Some (ip', ellipsis, [])
              else if hd rest \<noteq> ch CHR '':'' \<or> length rest = 1 then None
              else if hd (tl rest) = ch CHR '':'' then
                (if ellipsis \<noteq> None then None
                 else if tl (tl rest) = [] then Some (ip', Some (length ip'), [])
                 else parse_groups n (tl (tl rest)) ip' (Some (length ip')))
              else parse_groups n (tl rest) ip' ellipsis)"

definition parseIPv6 :: "gostring \<Rightarrow> ip option" where
  "parseIPv6 s =
     (let dbl = take 2 s = lit ''::''
      in if s = lit ''::'' then Some (replicate 16 0)
         else case parse_groups 8 (if dbl then drop 2 s else s) [] (if dbl then Some 0 else None) of
           None \<Rightarrow> None
         | Some (ip, ellipsis, rest) \<Rightarrow>
             if rest \<noteq> [] then None
             else if length ip < 16 then
               (case ellipsis of None \<Rightarrow> None | Some e \<Rightarrow> Some (take e ip @ replicate (16 - length ip) 0 @ drop e ip))
             else if ellipsis \<noteq> None then None else Some ip)"

definition ParseIP :: "gostring \<Rightarrow> ip option" where
  "ParseIP s =
     (case find (\<lambda>c. c = ch CHR ''.'' \<or> c = ch CHR '':'' \<or> c = ch CHR ''%'') s of
        Some c \<Rightarrow>
          if c = ch CHR ''.'' then map_option (\<lambda>q. v4_prefix @ q) (parseIPv4 s)
          else if c = ch CHR '':'' then (if ch CHR ''%'' \<in> set s then None else parseIPv6 s)
          else None
      | None \<Rightarrow> None)"

definition To4 :: "ip \<Rightarrow> bytes option" where
  "To4 i = (if take 12 i = v4_prefix then Some (drop 12 i) else None)"

definition v4_String :: "bytes \<Rightarrow> gostring" where
  "v4_String q = (case q of [a, b, c, d] \<Rightarrow> FormatUint (unat a) @ lit ''.'' @ FormatUint (unat b) @ lit ''.'' @ FormatUint (unat c) @ lit ''.'' @ FormatUint (unat d) | _ \<Rightarrow> [])"

fun groups :: "bytes \<Rightarrow> nat list" where
  "groups (a # b # bs) = (unat a * 256 + unat b) # groups bs"
| "groups _ = []"

text \<open>The longest run of zero groups, the first of several, if it has at least two.\<close>

definition zero_run :: "nat list \<Rightarrow> nat \<Rightarrow> nat" where
  "zero_run gs i = length (takeWhile (\<lambda>g. g = 0) (drop i gs))"

definition longest_run :: "nat list \<Rightarrow> (nat \<times> nat) option" where
  "longest_run gs =
     fold (\<lambda>i best. let l = zero_run gs i in
            if 2 \<le> l \<and> (case best of None \<Rightarrow> True | Some (_, l') \<Rightarrow> l' < l) then Some (i, l) else best)
       [0..<length gs] None"

definition join_groups :: "nat list \<Rightarrow> gostring" where
  "join_groups gs = (case map hex_string gs of [] \<Rightarrow> [] | x # xs \<Rightarrow> x @ concat (map (\<lambda>y. ch CHR '':'' # y) xs))"

definition v6_String :: "ip \<Rightarrow> gostring" where
  "v6_String i =
     (let gs = groups i
      in case longest_run gs of
           None \<Rightarrow> join_groups gs
         | Some (s, l) \<Rightarrow> join_groups (take s gs) @ lit ''::'' @ join_groups (drop (s + l) gs))"

definition ip_String :: "ip \<Rightarrow> gostring" where
  "ip_String i = (case To4 i of Some q \<Rightarrow> v4_String q | None \<Rightarrow> v6_String i)"

definition IsLoopback :: "ip \<Rightarrow> bool" where
  "IsLoopback i = (case To4 i of Some q \<Rightarrow> hd q = 127 | None \<Rightarrow> i = replicate 15 0 @ [1])"

definition IsMulticast :: "ip \<Rightarrow> bool" where
  "IsMulticast i = (case To4 i of Some q \<Rightarrow> hd q AND 0xF0 = 0xE0 | None \<Rightarrow> hd i = 0xFF)"

definition IsLinkLocalUnicast :: "ip \<Rightarrow> bool" where
  "IsLinkLocalUnicast i =
     (case To4 i of Some q \<Rightarrow> take 2 q = [169, 254] | None \<Rightarrow> hd i = 0xFE \<and> i ! 1 AND 0xC0 = 0x80)"

definition IsGlobalUnicast :: "ip \<Rightarrow> bool" where
  "IsGlobalUnicast i \<longleftrightarrow>
     To4 i \<noteq> Some [255, 255, 255, 255] \<and> i \<noteq> replicate 16 0 \<and> To4 i \<noteq> Some [0, 0, 0, 0] \<and> \<not> IsLoopback i \<and> \<not> IsMulticast i \<and>
     \<not> IsLinkLocalUnicast i"

section \<open>Hardware addresses\<close>

fun pairs_of :: "u8 \<Rightarrow> gostring \<Rightarrow> bytes option" where
  "pairs_of sep [a, b] = (if is_hex a \<and> is_hex b then Some [of_nat (16 * hex_val a + hex_val b)] else None)"
| "pairs_of sep (a # b # c # s) =
     (if is_hex a \<and> is_hex b \<and> c = sep
      then map_option (\<lambda>bs. of_nat (16 * hex_val a + hex_val b) # bs) (pairs_of sep s) else None)"
| "pairs_of sep _ = None"

fun quads_of :: "gostring \<Rightarrow> bytes option" where
  "quads_of [a, b, c, d] =
     (if list_all is_hex [a, b, c, d] then Some [of_nat (16 * hex_val a + hex_val b), of_nat (16 * hex_val c + hex_val d)] else None)"
| "quads_of (a # b # c # d # e # s) =
     (if list_all is_hex [a, b, c, d] \<and> e = ch CHR ''.''
      then map_option (\<lambda>bs. [of_nat (16 * hex_val a + hex_val b), of_nat (16 * hex_val c + hex_val d)] @ bs) (quads_of s) else None)"
| "quads_of _ = None"

definition ParseMAC :: "gostring \<Rightarrow> bytes option" where
  "ParseMAC s =
     (let r = (if length s < 14 then None
               else if s ! 2 = ch CHR '':'' \<or> s ! 2 = ch CHR ''-'' then pairs_of (s ! 2) s
               else if s ! 4 = ch CHR ''.'' then quads_of s
               else None)
      in case r of Some bs \<Rightarrow> if length bs \<in> {6, 8, 20} then Some bs else None | None \<Rightarrow> None)"

definition mac_String :: "bytes \<Rightarrow> gostring" where
  "mac_String bs = (case map hex_byte bs of [] \<Rightarrow> [] | x # xs \<Rightarrow> x @ concat (map (\<lambda>y. ch CHR '':'' # y) xs))"

end
