(* ===== verification/Uri_Decode.thy ===== *)
theory Uri_Decode
  imports Go_Net
begin

text \<open>
  Construction, parsing, canonization and classification of face URIs (\<^verbatim>\<open>src/ndn/uri.go\<close>). The regular
  expressions of the code are written as the deterministic recognisers they denote: none of them is ambiguous,
  because the characters that delimit a group are not in the class of the group before it, and the port begins
  after the last colon. A URI pointer that may be nil is an option. The host is not Windows.
\<close>

section \<open>Regular expressions\<close>

definition of_class :: "(u8 \<Rightarrow> bool) \<Rightarrow> gostring \<Rightarrow> bool" where
  "of_class P s \<longleftrightarrow> s \<noteq> [] \<and> list_all P s"

definition strip_prefix :: "gostring \<Rightarrow> gostring \<Rightarrow> gostring option" where
  "strip_prefix p s = (if take (length p) s = p then Some (drop (length p) s) else None)"

definition is_dev_char :: "u8 \<Rightarrow> bool" where "is_dev_char c \<longleftrightarrow> is_alnum c \<or> c = ch CHR ''-''"
definition is_host_char :: "u8 \<Rightarrow> bool" where "is_host_char c \<longleftrightarrow> is_alnum c \<or> c = ch CHR '':'' \<or> c = ch CHR ''.'' \<or> c = ch CHR ''-''"
definition is_path_char :: "u8 \<Rightarrow> bool" where
  "is_path_char c \<longleftrightarrow> is_alnum c \<or> c \<in> {ch CHR ''/'', 92, ch CHR '':'', ch CHR ''.'', ch CHR ''-'', ch CHR ''_''}"

text \<open>\<^verbatim>\<open>devPattern\<close>, \<^verbatim>\<open>fdPattern\<close> and \<^verbatim>\<open>unixPattern\<close>: a literal and a class.\<close>

definition match_class :: "string \<Rightarrow> (u8 \<Rightarrow> bool) \<Rightarrow> gostring \<Rightarrow> gostring option" where
  "match_class p P s = (case strip_prefix (lit p) s of Some r \<Rightarrow> if of_class P r then Some r else None | None \<Rightarrow> None)"

text \<open>\<^verbatim>\<open>macPattern\<close>: six pairs of hexadecimal digits between colons.\<close>

fun mac_pairs :: "nat \<Rightarrow> gostring \<Rightarrow> gostring option" where
  "mac_pairs 0 s = None"
| "mac_pairs (Suc n) (a # b # s) =
     (if is_hex a \<and> is_hex b
      then if n = 0 then Some s
           else (case s of c # s' \<Rightarrow> if c = ch CHR '':'' then mac_pairs n s' else None | [] \<Rightarrow> None)
      else None)"
| "mac_pairs _ _ = None"

definition macPattern :: "gostring \<Rightarrow> bool" where
  "macPattern s = (mac_pairs 6 s = Some [])"

fun mac_zones :: "gostring \<Rightarrow> bool" where
  "mac_zones [] = True"
| "mac_zones (p # c # s) = (p = ch CHR ''%'' \<and> is_alnum c \<and> mac_zones s)"
| "mac_zones _ = False"

definition ethernetPattern :: "gostring \<Rightarrow> gostring option" where
  "ethernetPattern s =
     (case strip_prefix (lit ''ether://['') s of
        None \<Rightarrow> None
      | Some r \<Rightarrow>
          if r = [] \<or> last r \<noteq> ch CHR '']'' then None
          else (case mac_pairs 6 (butlast r) of
                  Some z \<Rightarrow> if mac_zones z then Some (butlast r) else None
                | None \<Rightarrow> None))"

text \<open>One part of \<^verbatim>\<open>ipv4Pattern\<close>: one or two digits, or a number from 100 to 254 without a leading zero.\<close>

definition ipv4_part :: "gostring \<Rightarrow> bool" where
  "ipv4_part s =
     (case s of
        [a] \<Rightarrow> is_digit a
      | [a, b] \<Rightarrow> is_digit a \<and> is_digit b
      | [a, b, c] \<Rightarrow> is_digit b \<and> is_digit c \<and>
          (a = ch CHR ''1'' \<or> a = ch CHR ''2'' \<and> (b < ch CHR ''5'' \<or> b = ch CHR ''5'' \<and> c \<le> ch CHR ''4''))
      | _ \<Rightarrow> False)"

definition ipv4Pattern :: "gostring \<Rightarrow> bool" where
  "ipv4Pattern s = (length (Split (ch CHR ''.'') s) = 4 \<and> list_all ipv4_part (Split (ch CHR ''.'') s))"

text \<open>
  \<^verbatim>\<open>udpPattern\<close> and \<^verbatim>\<open>tcpPattern\<close>: the scheme with an optional version, an optional bracket, host, an optional
  zone, an optional bracket and the port. The result is the host, the zone (empty when missing) and the port.
\<close>

definition scheme_rest :: "gostring \<Rightarrow> gostring \<Rightarrow> gostring option" where
  "scheme_rest p s =
     (case strip_prefix p s of
        None \<Rightarrow> None
      | Some r \<Rightarrow> strip_prefix (lit ''://'') (if r \<noteq> [] \<and> (hd r = ch CHR ''4'' \<or> hd r = ch CHR ''6'') then tl r else r))"

definition split_last :: "u8 \<Rightarrow> gostring \<Rightarrow> (gostring \<times> gostring) option" where
  "split_last c s =
     (if c \<in> set s
      then Some (rev (tl (dropWhile (\<lambda>x. x \<noteq> c) (rev s))), rev (takeWhile (\<lambda>x. x \<noteq> c) (rev s))) else None)"

definition strip_brackets :: "gostring \<Rightarrow> gostring" where
  "strip_brackets s =
     (let s1 = (if s \<noteq> [] \<and> hd s = ch CHR ''['' then tl s else s)
      in if s1 \<noteq> [] \<and> last s1 = ch CHR '']'' then butlast s1 else s1)"

definition host_zone :: "gostring \<Rightarrow> (gostring \<times> gostring) option" where
  "host_zone s =
     (let host = takeWhile is_host_char s; rest = dropWhile is_host_char s
      in if host = [] then None
         else if rest = [] then Some (host, [])
         else if hd rest = ch CHR ''%'' \<and> of_class is_dev_char (tl rest) then Some (host, tl rest)
         else None)"

definition hostPattern :: "gostring \<Rightarrow> gostring \<Rightarrow> (gostring \<times> gostring \<times> gostring) option" where
  "hostPattern p s =
     (case scheme_rest p s of
        None \<Rightarrow> None
      | Some r \<Rightarrow>
          (case split_last (ch CHR '':'') r of
             None \<Rightarrow> None
           | Some (h, prt) \<Rightarrow>
               if of_class is_digit prt
               then map_option (\<lambda>(host, zone). (host, zone, prt)) (host_zone (strip_brackets h))
               else None))"

section \<open>Canonical URIs\<close>

text \<open>\<^verbatim>\<open>strconv.Atoi\<close>: an optional sign and decimal digits within the range of \<^verbatim>\<open>int\<close>.\<close>

definition Atoi :: "gostring \<Rightarrow> int option" where
  "Atoi s =
     (let neg = (s \<noteq> [] \<and> hd s = ch CHR ''-'');
          ds = (if s \<noteq> [] \<and> (hd s = ch CHR ''-'' \<or> hd s = ch CHR ''+'') then tl s else s)
      in if ds = [] then None
         else (case parse_digits ds 0 of
                 None \<Rightarrow> None
               | Some n \<Rightarrow> if neg then (if n \<le> 2 ^ 63 then Some (- int n) else None)
                           else (if n < 2 ^ 63 then Some (int n) else None)))"

definition Itoa :: "int \<Rightarrow> gostring" where
  "Itoa i = (if i < 0 then ch CHR ''-'' # FormatUint (nat (- i)) else FormatUint (nat i))"

text \<open>Any address has a sixteen byte form.\<close>

definition ip_canonical :: "string \<Rightarrow> URI \<Rightarrow> bool" where
  "ip_canonical base u =
     (case ParseIP (PathHost u) of
        None \<Rightarrow> False
      | Some i \<Rightarrow> (scheme u = lit (base @ ''4'') \<and> To4 i \<noteq> None \<or> scheme u = lit (base @ ''6'') \<and> \<not> ipv4Pattern (PathHost u)) \<and> port u > 0)"

definition IsCanonical :: "URI \<Rightarrow> bool" where
  "IsCanonical u =
     (case uriType u of
        devURI \<Rightarrow> scheme u = lit ''dev'' \<and> path u \<noteq> [] \<and> port u = 0
      | ethernetURI \<Rightarrow> scheme u = lit ''ether'' \<and> macPattern (path u) \<and> port u = 0
      | fdURI \<Rightarrow> scheme u = lit ''fd'' \<and> (case Atoi (path u) of Some fd \<Rightarrow> fd \<ge> 0 | None \<Rightarrow> False) \<and> port u = 0
      | internalURI \<Rightarrow> scheme u = lit ''internal'' \<and> path u = [] \<and> port u = 0
      | nullURI \<Rightarrow> scheme u = lit ''null'' \<and> path u = [] \<and> port u = 0
      | udpURI \<Rightarrow> ip_canonical ''udp'' u
      | tcpURI \<Rightarrow> ip_canonical ''tcp'' u
      | unixURI \<Rightarrow> scheme u = lit ''unix'' \<and> path u \<noteq> [] \<and> port u = 0
      | _ \<Rightarrow> False)"

text \<open>
  Canonizing in place: the URI afterwards and whether the call returned no error. The address of a host is
  parsed, or else looked up and the first result parsed.
\<close>

abbreviation brackets :: "u8 set" where "brackets \<equiv> {ch CHR ''['', ch CHR '']''}"

definition host_ip :: "host_api \<Rightarrow> gostring \<Rightarrow> ip option" where
  "host_ip H host =
     (case ParseIP (Trim brackets host) of
        Some i \<Rightarrow> Some i
      | None \<Rightarrow> (case LookupHost H host of
                   Some (a # _) \<Rightarrow> ParseIP a
                 | _ \<Rightarrow> None))"

definition Canonize :: "host_api \<Rightarrow> URI \<Rightarrow> URI \<times> bool" where
  "Canonize H u =
     (case uriType u of
        devURI \<Rightarrow> (u, True)
      | fdURI \<Rightarrow> (u, True)
      | ethernetURI \<Rightarrow>
          (case ParseMAC (Trim brackets (path u)) of
             None \<Rightarrow> (u, False)
           | Some mac \<Rightarrow> (u\<lparr>scheme := lit ''ether'', path := mac_String mac, port := 0\<rparr>, True))
      | unixURI \<Rightarrow>
          (let u1 = u\<lparr>scheme := lit ''unix''\<rparr>
           in case Stat H (ch CHR ''/'' # path u) of
                StatError \<Rightarrow> (u1, False)
              | IsDir \<Rightarrow> (u1, False)
              | _ \<Rightarrow> (u1\<lparr>port := 0\<rparr>, True))
      | t \<Rightarrow>
          if t = udpURI \<or> t = tcpURI then
            (let base = (if t = udpURI then ''udp'' else ''tcp'');
                 zoned = ch CHR ''%'' \<in> set (path u);
                 host = (if zoned then PathHost u else path u);
                 zone = (if zoned then ch CHR ''%'' # PathZone u else [])
             in case host_ip H host of
                  None \<Rightarrow> (u, False)
                | Some i \<Rightarrow> (u\<lparr>scheme := lit (base @ (if To4 i \<noteq> None then ''4'' else ''6'')), path := ip_String i @ zone\<rparr>, True))
          else (u, False))"

text \<open>The scope a URI claims. An address with a zone does not parse, so it is not a loopback address.\<close>

datatype uri_scope = ScopeUnknown | ScopeNonLocal | ScopeLocal

definition uri_Scope :: "URI \<Rightarrow> uri_scope" where
  "uri_Scope u =
     (if \<not> IsCanonical u then ScopeUnknown
      else case uriType u of
          devURI \<Rightarrow> ScopeNonLocal
        | ethernetURI \<Rightarrow> ScopeNonLocal
        | fdURI \<Rightarrow> ScopeLocal
        | nullURI \<Rightarrow> ScopeNonLocal
        | udpURI \<Rightarrow> (case ParseIP (path u) of Some i \<Rightarrow> if IsLoopback i then ScopeLocal else ScopeNonLocal | None \<Rightarrow> ScopeNonLocal)
        | _ \<Rightarrow> ScopeLocal)"

section \<open>Constructors\<close>

definition MakeDevFaceURI :: "host_api \<Rightarrow> gostring \<Rightarrow> URI" where
  "MakeDevFaceURI H ifname = fst (Canonize H \<lparr>uriType = devURI, scheme = lit ''dev'', path = ifname, port = 0\<rparr>)"

definition MakeEthernetFaceURI :: "host_api \<Rightarrow> bytes \<Rightarrow> URI" where
  "MakeEthernetFaceURI H mac = fst (Canonize H \<lparr>uriType = ethernetURI, scheme = lit ''ether'', path = mac_String mac, port = 0\<rparr>)"

definition MakeFDFaceURI :: "host_api \<Rightarrow> int \<Rightarrow> URI" where
  "MakeFDFaceURI H fd = fst (Canonize H \<lparr>uriType = fdURI, scheme = lit ''fd'', path = Itoa fd, port = 0\<rparr>)"

definition MakeUDPFaceURI :: "host_api \<Rightarrow> int \<Rightarrow> gostring \<Rightarrow> u16 \<Rightarrow> URI" where
  "MakeUDPFaceURI H ipVersion host prt =
     fst (Canonize H \<lparr>uriType = udpURI, scheme = lit ''udp'' @ Itoa ipVersion, path = host, port = prt\<rparr>)"

definition MakeTCPFaceURI :: "host_api \<Rightarrow> int \<Rightarrow> gostring \<Rightarrow> u16 \<Rightarrow> URI" where
  "MakeTCPFaceURI H ipVersion host prt =
     fst (Canonize H \<lparr>uriType = tcpURI, scheme = lit ''tcp'' @ Itoa ipVersion, path = host, port = prt\<rparr>)"

definition MakeUnixFaceURI :: "host_api \<Rightarrow> gostring \<Rightarrow> URI" where
  "MakeUnixFaceURI H p = fst (Canonize H \<lparr>uriType = unixURI, scheme = lit ''unix'', path = p, port = 0\<rparr>)"

text \<open>The port of a parsed address: \<^verbatim>\<open>ParseUint\<close> gives 0 for what is no number and the largest value for one out of range.\<close>

definition port_value :: "gostring \<Rightarrow> u16" where
  "port_value s = (if s = [] then 0 else case parse_digits s 0 of None \<Rightarrow> 0 | Some n \<Rightarrow> if n < 2 ^ 16 then of_nat n else 0xFFFF)"

definition MakeWebSocketServerFaceURI :: "url_parts \<Rightarrow> URI" where
  "MakeWebSocketServerFaceURI u = \<lparr>uriType = wsURI, scheme = url_Scheme u, path = url_Hostname u, port = port_value (url_Port u)\<rparr>"

text \<open>An address is given by the host and the port that \<^verbatim>\<open>SplitHostPort\<close> gives of its printed form.\<close>

definition MakeWebSocketClientFaceURI :: "gostring \<times> u16 \<Rightarrow> URI" where
  "MakeWebSocketClientFaceURI addr = \<lparr>uriType = wsclientURI, scheme = lit ''wsclient'', path = fst addr, port = snd addr\<rparr>"

section \<open>Parsing\<close>

definition with_match :: "host_api \<Rightarrow> URI \<Rightarrow> gostring option \<Rightarrow> URI" where
  "with_match H u m = (case m of None \<Rightarrow> u | Some p \<Rightarrow> fst (Canonize H (u\<lparr>path := p\<rparr>)))"

definition decode_host :: "host_api \<Rightarrow> string \<Rightarrow> URI \<Rightarrow> gostring \<Rightarrow> URI" where
  "decode_host H base u s =
     (case hostPattern (lit base) s of
        None \<Rightarrow> u
      | Some (host, zone, prt) \<Rightarrow>
          (let u1 = u\<lparr>path := host @ (if zone \<noteq> [] then ch CHR ''%'' # zone else [])\<rparr>
           in case ParseUint prt 16 of
                None \<Rightarrow> u1
              | Some p \<Rightarrow> if p = 0 then u1 else fst (Canonize H (u1\<lparr>port := of_nat p\<rparr>))))"

definition DecodeURIString :: "host_api \<Rightarrow> gostring \<Rightarrow> URI option" where
  "DecodeURIString H str =
     (let u = \<lparr>uriType = unknownURI, scheme = lit ''unknown'', path = [], port = 0\<rparr>
      in if ch CHR '':'' \<notin> set str then Some u
         else
           (let s0 = takeWhile (\<lambda>c. c \<noteq> ch CHR '':'') str; s1 = tl (dropWhile (\<lambda>c. c \<noteq> ch CHR '':'') str)
            in if EqualFold (lit ''dev'') s0 then
                 Some (with_match H (u\<lparr>uriType := devURI, scheme := lit ''dev''\<rparr>) (match_class ''dev://'' is_dev_char str))
               else if EqualFold (lit ''ether'') s0 then
                 Some (with_match H (u\<lparr>uriType := ethernetURI, scheme := lit ''ether''\<rparr>) (ethernetPattern str))
               else if EqualFold (lit ''fd'') s0 then
                 Some (with_match H (u\<lparr>uriType := fdURI, scheme := lit ''fd''\<rparr>) (match_class ''fd://'' is_digit str))
               else if EqualFold (lit ''internal'') s0 then Some (fst (Canonize H (u\<lparr>uriType := internalURI, scheme := lit ''internal''\<rparr>)))
               else if EqualFold (lit ''null'') s0 then Some (fst (Canonize H (u\<lparr>uriType := nullURI, scheme := lit ''null''\<rparr>)))
               else if EqualFold (lit ''udp'') s0 \<or> EqualFold (lit ''udp4'') s0 \<or> EqualFold (lit ''udp6'') s0 then
                 Some (decode_host H ''udp'' (u\<lparr>uriType := udpURI, scheme := lit ''udp''\<rparr>) str)
               else if EqualFold (lit ''tcp'') s0 \<or> EqualFold (lit ''tcp4'') s0 \<or> EqualFold (lit ''tcp6'') s0 then
                 Some (decode_host H ''tcp'' (u\<lparr>uriType := tcpURI, scheme := lit ''tcp''\<rparr>) str)
               else if EqualFold (lit ''unix'') s0 then
                 Some (with_match H (u\<lparr>uriType := unixURI, scheme := lit ''unix''\<rparr>) (match_class ''unix://'' is_path_char str))
               else if EqualFold (lit ''ws'') s0 \<or> EqualFold (lit ''wss'') s0 then
                 (case url_Parse H str of
                    None \<Rightarrow> None
                  | Some p \<Rightarrow>
                      if url_User p \<or> TrimLeft {ch CHR ''/''} (url_Path p) \<noteq> [] \<or> url_RawQuery p \<noteq> [] \<or> url_Fragment p \<noteq> [] then None
                      else Some (MakeWebSocketServerFaceURI p))
               else if EqualFold (lit ''wsclient'') s0 then
                 map_option MakeWebSocketClientFaceURI (ResolveTCPAddr H (Trim {ch CHR ''/''} s1))
               else Some (fst (Canonize H u))))"

end
