(* ===== verification/Face_Table.thy ===== *)
theory Face_Table
  imports Link_Service Rib Face_Uri
begin

text \<open>
  The face table (\<^verbatim>\<open>src/face/table.go\<close>), the cache of face events (\<^verbatim>\<open>src/face/events.go\<close>), what both
  read of a face (\<^verbatim>\<open>src/face/transport.go\<close>, \<^verbatim>\<open>src/face/link-service.go\<close>) and the life cycle of the
  transports (\<^verbatim>\<open>changeState\<close>). The record \<open>forwarder\<close> holds the package-level variables these
  functions share: the face table, the dispatch table of \<^verbatim>\<open>src/dispatch/face.go\<close>, the RIB with the FIB it
  writes, and the event cache. Faces are shared by reference, so they live in a heap.

  \<^verbatim>\<open>FaceEventSendFunc\<close> is a function variable that management sets; it is an argument here.
\<close>

section \<open>Faces\<close>

datatype transport_kind =
  NullTransport | InternalTransport | UnicastUDPTransport | UnicastTCPTransport | MulticastUDPTransport
| MulticastEthernetTransport | UnixStreamTransport | WebSocketTransport

text \<open>\<^verbatim>\<open>Persistency\<close> is an \<^verbatim>\<open>uint64\<close>: management sets values without a name on faces that do not check.\<close>

type_synonym Persistency = u64

definition PersistencyPersistent :: Persistency where "PersistencyPersistent = 0"
definition PersistencyOnDemand :: Persistency where "PersistencyOnDemand = 1"
definition PersistencyPermanent :: Persistency where "PersistencyPermanent = 2"

lemmas persistency_defs [simp] = PersistencyPersistent_def PersistencyOnDemand_def PersistencyPermanent_def

record transportBase =
  tb_kind :: transport_kind
  tb_faceID :: u64
  tb_remoteURI :: URI
  tb_localURI :: URI
  tb_scope :: Scope
  tb_persistency :: Persistency
  tb_linkType :: LinkType
  tb_mtu :: int
  tb_expirationTime :: "int option"
  tb_state :: State
  tb_nInBytes :: u64
  tb_nOutBytes :: u64

definition makeTransportBase :: "transport_kind \<Rightarrow> URI \<Rightarrow> URI \<Rightarrow> Persistency \<Rightarrow> Scope \<Rightarrow> LinkType \<Rightarrow> int \<Rightarrow> transportBase" where
  "makeTransportBase k remoteURI localURI persistency sc lt mtu =
     \<lparr>tb_kind = k, tb_faceID = 0, tb_remoteURI = remoteURI, tb_localURI = localURI, tb_scope = sc, tb_persistency = persistency,
      tb_linkType = lt, tb_mtu = mtu, tb_expirationTime = None, tb_state = Down, tb_nInBytes = 0, tb_nOutBytes = 0\<rparr>"

text \<open>\<^verbatim>\<open>SetPersistency\<close> of each transport.\<close>

definition tb_SetPersistency :: "Persistency \<Rightarrow> transportBase \<Rightarrow> bool \<times> transportBase" where
  "tb_SetPersistency p t =
     (case tb_kind t of
        WebSocketTransport \<Rightarrow> (p = PersistencyOnDemand, t)
      | k \<Rightarrow>
          if p = tb_persistency t then (True, t)
          else if (case k of
                UnicastUDPTransport \<Rightarrow> True
              | UnicastTCPTransport \<Rightarrow> True
              | InternalTransport \<Rightarrow> p = PersistencyPersistent
              | UnixStreamTransport \<Rightarrow> p = PersistencyPersistent
              | _ \<Rightarrow> p = PersistencyPermanent)
          then (True, t\<lparr>tb_persistency := p\<rparr>) else (False, t))"

definition tb_SetMTU :: "int \<Rightarrow> transportBase \<Rightarrow> transportBase" where
  "tb_SetMTU mtu t = t\<lparr>tb_mtu := mtu\<rparr>"

definition tb_ExpirationPeriod :: "int \<Rightarrow> transportBase \<Rightarrow> int" where
  "tb_ExpirationPeriod now t =
     (case tb_expirationTime t of
        None \<Rightarrow> 0
      | Some e \<Rightarrow> if tb_persistency t \<noteq> PersistencyOnDemand then 0 else e - now)"

text \<open>
  A link service as the face table and management see it: \<open>ls_options\<close> is \<open>None\<close> for the null link
  service, which has no options.
\<close>

record LinkService =
  ls_faceID :: u64
  ls_transport :: transportBase
  ls_options :: "NDNLPLinkServiceOptions option"
  ls_NInInterests :: u64
  ls_NInData :: u64
  ls_NOutInterests :: u64
  ls_NOutData :: u64

definition ls_SetFaceID :: "u64 \<Rightarrow> LinkService \<Rightarrow> LinkService" where
  "ls_SetFaceID i l = l\<lparr>ls_faceID := i, ls_transport := (ls_transport l)\<lparr>tb_faceID := i\<rparr>\<rparr>"

definition ls_SetPersistency :: "Persistency \<Rightarrow> LinkService \<Rightarrow> LinkService" where
  "ls_SetPersistency p l = l\<lparr>ls_transport := snd (tb_SetPersistency p (ls_transport l))\<rparr>"

definition ls_SetMTU :: "int \<Rightarrow> LinkService \<Rightarrow> LinkService" where
  "ls_SetMTU mtu l = l\<lparr>ls_transport := tb_SetMTU mtu (ls_transport l)\<rparr>"

abbreviation RemoteURI :: "LinkService \<Rightarrow> URI" where "RemoteURI l \<equiv> tb_remoteURI (ls_transport l)"
abbreviation LocalURI :: "LinkService \<Rightarrow> URI" where "LocalURI l \<equiv> tb_localURI (ls_transport l)"

definition MaxNDNPacketSize :: int where "MaxNDNPacketSize = 8800"

section \<open>Face events\<close>

datatype FaceEventKind = FaceEventCreated | FaceEventDestroyed | FaceEventUp | FaceEventDown

record FaceEvent =
  eventId :: u64
  faceEventKind :: FaceEventKind
  fe_faceId :: u64
  fe_remoteURI :: "URI option"
  fe_localURI :: "URI option"
  fe_scope :: Scope
  fe_persistency :: Persistency
  fe_linkType :: LinkType
  fe_flags :: u64

record 's forwarder =
  Links :: "addr \<rightharpoonup> LinkService"
  Faces :: "(u64 \<times> addr) list"
  nextFaceID :: u64
  Dispatch :: "u64 \<rightharpoonup> addr"
  RibFib :: "rib_node \<times> 's"
  faceEvents :: "FaceEvent list"
  faceEventsIdx :: u64
  faceEventsNextId :: u64

type_synonym ('s, 'z) send_func = "(u64 \<Rightarrow> ('s, 'z) forwarder_scheme \<Rightarrow> ('s, 'z) forwarder_scheme) option"

definition FaceEventsCacheSize :: nat where "FaceEventsCacheSize = 100"

text \<open>The slot of the cache that an event overwrites: without a face only the identifier, the kind and the flags change.\<close>

definition write_event :: "u64 \<Rightarrow> FaceEventKind \<Rightarrow> LinkService option \<Rightarrow> FaceEvent \<Rightarrow> FaceEvent" where
  "write_event i k face e =
     (let e1 = e\<lparr>eventId := i, faceEventKind := k\<rparr>;
          e2 = (case face of
                  None \<Rightarrow> e1
                | Some f \<Rightarrow> e1\<lparr>fe_faceId := ls_faceID f, fe_remoteURI := Some (RemoteURI f), fe_localURI := Some (LocalURI f),
                             fe_scope := tb_scope (ls_transport f), fe_persistency := tb_persistency (ls_transport f),
                             fe_linkType := tb_linkType (ls_transport f)\<rparr>)
      in e2\<lparr>fe_flags := (case face of
                           Some f \<Rightarrow> (case ls_options f of Some op \<Rightarrow> Link_Service.Flags op | None \<Rightarrow> 0)
                         | None \<Rightarrow> 0)\<rparr>)"

definition EmitFaceEvent :: "('s, 'z) send_func \<Rightarrow> FaceEventKind \<Rightarrow> LinkService option \<Rightarrow> ('s, 'z) forwarder_scheme \<Rightarrow> ('s, 'z) forwarder_scheme" where
  "EmitFaceEvent FaceEventSendFunc k face st =
     (let i = unat (faceEventsIdx st);
          oldId = faceEventsNextId st;
          st1 = st\<lparr>faceEvents := (faceEvents st)[i := write_event oldId k face (faceEvents st ! i)],
                   faceEventsNextId := oldId + 1,
                   faceEventsIdx := (faceEventsIdx st + 1) mod of_nat FaceEventsCacheSize\<rparr>
      in case FaceEventSendFunc of None \<Rightarrow> st1 | Some send \<Rightarrow> send oldId st1)"

definition GetFaceEvent :: "('s, 'z) forwarder_scheme \<Rightarrow> u64 \<Rightarrow> FaceEvent option" where
  "GetFaceEvent st i =
     (if i \<ge> faceEventsNextId st \<or> i < faceEventsNextId st - of_nat FaceEventsCacheSize then None
      else let idx = (faceEventsIdx st + (i + of_nat FaceEventsCacheSize - faceEventsNextId st)) mod of_nat FaceEventsCacheSize
           in Some (faceEvents st ! unat idx))"

definition FaceEventLastId :: "('s, 'z) forwarder_scheme \<Rightarrow> u64" where
  "FaceEventLastId st = faceEventsNextId st - 1"

section \<open>The table\<close>

text \<open>The loop that looks for an identifier: it does not end when all of them are in use.\<close>

partial_function (option) next_free :: "(u64 \<times> addr) list \<Rightarrow> u64 \<Rightarrow> (u64 \<times> u64) option" where
  "next_free faces n = (case map_of faces n of None \<Rightarrow> Some (n, n + 1) | Some _ \<Rightarrow> next_free faces (n + 1))"

definition upd_link :: "addr \<Rightarrow> (LinkService \<Rightarrow> LinkService) \<Rightarrow> ('s, 'z) forwarder_scheme \<Rightarrow> ('s, 'z) forwarder_scheme" where
  "upd_link a f st = st\<lparr>Links := (Links st)(a := map_option f (Links st a))\<rparr>"

definition Table_Add :: "('s, 'z) send_func \<Rightarrow> addr \<Rightarrow> ('s, 'z) forwarder_scheme \<Rightarrow> ('s, 'z) forwarder_scheme option" where
  "Table_Add FaceEventSendFunc a st =
     map_option (\<lambda>(faceID, next).
       let st1 = st\<lparr>nextFaceID := next, Faces := AList.update faceID a (Faces st)\<rparr>;
           st2 = upd_link a (ls_SetFaceID faceID) st1;
           st3 = st2\<lparr>Dispatch := (Dispatch st2)(faceID \<mapsto> a)\<rparr>
       in EmitFaceEvent FaceEventSendFunc FaceEventCreated (Links st3 a) st3)
     (next_free (Faces st) (nextFaceID st))"

definition Table_Get :: "('s, 'z) forwarder_scheme \<Rightarrow> u64 \<Rightarrow> addr option" where
  "Table_Get st i = map_of (Faces st) i"

definition link_at :: "('s, 'z) forwarder_scheme \<Rightarrow> addr \<Rightarrow> LinkService" where
  "link_at st a = the (Links st a)"

definition GetByURI :: "('s, 'z) forwarder_scheme \<Rightarrow> URI \<Rightarrow> addr option" where
  "GetByURI st remoteURI =
     map_option snd (find (\<lambda>(i, a). uri_String (RemoteURI (link_at st a)) = uri_String remoteURI) (Faces st))"

definition Table_GetAll :: "('s, 'z) forwarder_scheme \<Rightarrow> addr list" where
  "Table_GetAll st = map snd (Faces st)"

definition Table_Remove :: "'s FibStrategy \<Rightarrow> ('s, 'z) send_func \<Rightarrow> u64 \<Rightarrow> ('s, 'z) forwarder_scheme \<Rightarrow> ('s, 'z) forwarder_scheme" where
  "Table_Remove ops FaceEventSendFunc i st =
     (let st1 = EmitFaceEvent FaceEventSendFunc FaceEventDestroyed (map_option (link_at st) (Table_Get st i)) st;
          st2 = st1\<lparr>Faces := AList.delete i (Faces st1)\<rparr>;
          st3 = st2\<lparr>Dispatch := (Dispatch st2)(i := None)\<rparr>
      in st3\<lparr>RibFib := CleanUpFace ops (RibFib st3) i\<rparr>)"

text \<open>
  A transport that leaves the state \<^verbatim>\<open>Up\<close> removes its face from the table. Closing the socket and telling
  the goroutines to quit are left out.
\<close>

definition changeState :: "'s FibStrategy \<Rightarrow> ('s, 'z) send_func \<Rightarrow> addr \<Rightarrow> State \<Rightarrow> ('s, 'z) forwarder_scheme \<Rightarrow> ('s, 'z) forwarder_scheme" where
  "changeState ops FaceEventSendFunc a new st =
     (if tb_state (ls_transport (link_at st a)) = new then st
      else
        let st1 = upd_link a (\<lambda>l. l\<lparr>ls_transport := (ls_transport l)\<lparr>tb_state := new\<rparr>\<rparr>) st
        in if new \<noteq> Up then Table_Remove ops FaceEventSendFunc (tb_faceID (ls_transport (link_at st a))) st1 else st1)"

section \<open>Identifiers\<close>

lemma next_free_least:
  "(\<And>j. j < k \<Longrightarrow> map_of faces (n + of_nat j) \<noteq> None) \<Longrightarrow> map_of faces (n + of_nat k) = None \<Longrightarrow>
   next_free faces n = Some (n + of_nat k, n + of_nat k + 1)"
proof (induction k arbitrary: n)
  case 0
  then show ?case by (subst next_free.simps) simp
next
  case (Suc k)
  have "map_of faces n \<noteq> None" using Suc.prems(1)[of 0] by simp
  moreover have "map_of faces (n + 1 + of_nat j) \<noteq> None" if "j < k" for j
    using Suc.prems(1)[of "Suc j"] that by (simp add: add.assoc)
  moreover have "map_of faces (n + 1 + of_nat k) = None" using Suc.prems(2) by (simp add: add.assoc)
  ultimately show ?case using Suc.IH[of "n + 1"]
    by (subst next_free.simps) (auto simp: add.assoc split: option.split)
qed

text \<open>Fewer faces than identifiers: the loop ends at the first free one from \<open>n\<close> on.\<close>

lemma next_free_returns:
  fixes faces :: "(u64 \<times> addr) list"
  assumes "length faces < 2 ^ 64"
  obtains k where "next_free faces n = Some (n + of_nat k, n + of_nat k + 1)" "map_of faces (n + of_nat k) = None"
    "\<And>j. j < k \<Longrightarrow> map_of faces (n + of_nat j) \<noteq> None"
proof -
  have "card (dom (map_of faces)) < CARD(u64)"
    using assms card_length[of "map fst faces"] by (simp add: dom_map_of_conv_image_fst card_word)
  then have "dom (map_of faces) \<noteq> UNIV" by auto
  then obtain x where "map_of faces x = None" by auto
  then have ex: "map_of faces (n + of_nat (unat (x - n))) = None" by simp
  define k where "k = (LEAST k. map_of faces (n + of_nat k) = None)"
  have "map_of faces (n + of_nat k) = None" unfolding k_def by (rule LeastI[of "\<lambda>k. map_of faces (n + of_nat k) = None", OF ex])
  moreover have "\<And>j. j < k \<Longrightarrow> map_of faces (n + of_nat j) \<noteq> None" unfolding k_def by (rule not_less_Least)
  ultimately show ?thesis using that next_free_least by blast
qed

section \<open>The invariant of the table\<close>

definition ft_inv :: "('s, 'z) forwarder_scheme \<Rightarrow> bool" where
  "ft_inv st \<longleftrightarrow>
     distinct (map fst (Faces st)) \<and> distinct (map snd (Faces st)) \<and> Dispatch st = map_of (Faces st) \<and>
     (\<forall>(i, a)\<in>set (Faces st). \<exists>l. Links st a = Some l \<and> ls_faceID l = i \<and> tb_faceID (ls_transport l) = i)"

text \<open>A notification function that changes nothing of this state, as that of management.\<close>

definition keeps_tables :: "('s, 'z) send_func \<Rightarrow> bool" where
  "keeps_tables FaceEventSendFunc \<longleftrightarrow>
     (\<forall>send i st. FaceEventSendFunc = Some send \<longrightarrow> forwarder.truncate (send i st) = forwarder.truncate st)"

lemma keeps_tables_None [simp]: "keeps_tables None"
  by (simp add: keeps_tables_def)

lemma truncate_eqD:
  "forwarder.truncate st = forwarder.truncate st' \<Longrightarrow>
     Links st = Links st' \<and> Faces st = Faces st' \<and> nextFaceID st = nextFaceID st' \<and> Dispatch st = Dispatch st' \<and> RibFib st = RibFib st' \<and>
     faceEvents st = faceEvents st' \<and> faceEventsIdx st = faceEventsIdx st' \<and> faceEventsNextId st = faceEventsNextId st'"
  by (cases st; cases st') (simp add: forwarder.truncate_def)

lemma Emit_frame:
  assumes "keeps_tables f"
  shows "Links (EmitFaceEvent f k face st) = Links st" "Faces (EmitFaceEvent f k face st) = Faces st"
    "nextFaceID (EmitFaceEvent f k face st) = nextFaceID st" "Dispatch (EmitFaceEvent f k face st) = Dispatch st"
    "RibFib (EmitFaceEvent f k face st) = RibFib st"
    "faceEvents (EmitFaceEvent f k face st) =
       (faceEvents st)[unat (faceEventsIdx st) := write_event (faceEventsNextId st) k face (faceEvents st ! unat (faceEventsIdx st))]"
    "faceEventsNextId (EmitFaceEvent f k face st) = faceEventsNextId st + 1"
    "faceEventsIdx (EmitFaceEvent f k face st) = (faceEventsIdx st + 1) mod of_nat FaceEventsCacheSize"
  using assms truncate_eqD[of "the f i st'" st' for i st']
  by (cases f; simp add: EmitFaceEvent_def Let_def keeps_tables_def)+

lemma upd_link_simps [simp]:
  "Faces (upd_link a f st) = Faces st" "nextFaceID (upd_link a f st) = nextFaceID st" "Dispatch (upd_link a f st) = Dispatch st"
  "RibFib (upd_link a f st) = RibFib st" "Links (upd_link a f st) = (Links st)(a := map_option f (Links st a))"
  by (simp_all add: upd_link_def)

lemma Table_Add_eq:
  assumes "keeps_tables f" "next_free (Faces st) (nextFaceID st) = Some (i, n)" "Links st a = Some l"
  obtains st' where "Table_Add f a st = Some st'" "Faces st' = AList.update i a (Faces st)" "nextFaceID st' = n"
    "Links st' = (Links st)(a \<mapsto> ls_SetFaceID i l)" "Dispatch st' = (Dispatch st)(i \<mapsto> a)" "RibFib st' = RibFib st"
    "faceEvents st' = (faceEvents st)[unat (faceEventsIdx st) :=
       write_event (faceEventsNextId st) FaceEventCreated (Some (ls_SetFaceID i l)) (faceEvents st ! unat (faceEventsIdx st))]"
  using assms(2,3) Emit_frame[OF assms(1)] by (simp add: Table_Add_def Let_def upd_link_def)

lemma Table_Add_keeps:
  assumes "ft_inv st" "keeps_tables f" "next_free (Faces st) (nextFaceID st) = Some (i, n)" "map_of (Faces st) i = None"
    "Links st a = Some l" "a \<notin> snd ` set (Faces st)" "Table_Add f a st = Some st'"
  shows "ft_inv st'" "Table_Get st' = (Table_Get st)(i \<mapsto> a)" "Dispatch st' = (Dispatch st)(i \<mapsto> a)"
    "ls_faceID (link_at st' a) = i" "Links st' = (Links st)(a \<mapsto> ls_SetFaceID i l)" "RibFib st' = RibFib st" "nextFaceID st' = n"
proof -
  from Table_Add_eq[OF assms(2,3,5)] obtain st'' where st'': "Table_Add f a st = Some st''" "Faces st'' = AList.update i a (Faces st)" "nextFaceID st'' = n"
    "Links st'' = (Links st)(a \<mapsto> ls_SetFaceID i l)" "Dispatch st'' = (Dispatch st)(i \<mapsto> a)" "RibFib st'' = RibFib st" by metis
  note st' = st''(2-)[unfolded st''(1)[unfolded assms(7), THEN option.inject[THEN iffD1], symmetric]]
  have new: "Faces st' = Faces st @ [(i, a)]"
  proof -
    have "AList.update i a xs = xs @ [(i, a)]" if "map_of xs i = None" for xs :: "(u64 \<times> addr) list"
      using that by (induction xs) (auto split: if_splits)
    then show ?thesis using st'(1) assms(4) by simp
  qed
  have old: "i \<notin> fst ` set (Faces st)" using assms(4) by (simp add: map_of_eq_None_iff)
  show "Table_Get st' = (Table_Get st)(i \<mapsto> a)"
    using assms(4) by (auto simp: Table_Get_def new map_add_def fun_eq_iff split: option.split)
  show "Dispatch st' = (Dispatch st)(i \<mapsto> a)" "Links st' = (Links st)(a \<mapsto> ls_SetFaceID i l)" "RibFib st' = RibFib st" "nextFaceID st' = n"
    using st' by auto
  show "ls_faceID (link_at st' a) = i" by (simp add: link_at_def st'(3) ls_SetFaceID_def)
  have disp: "(Dispatch st)(i \<mapsto> a) = map_of (Faces st @ [(i, a)])"
    using assms(1,4) by (auto simp: ft_inv_def map_add_def fun_eq_iff split: option.split)
  show "ft_inv st'"
    unfolding ft_inv_def new
  proof (intro conjI)
    show "distinct (map fst (Faces st @ [(i, a)]))" using assms(1) old by (auto simp: ft_inv_def)
    show "distinct (map snd (Faces st @ [(i, a)]))" using assms(1,6) by (auto simp: ft_inv_def)
    show "Dispatch st' = map_of (Faces st @ [(i, a)])" using disp st'(4) by simp
    have "x \<noteq> a" if "(j, x) \<in> set (Faces st)" for j x using assms(6) that by force
    then show "\<forall>(j, x)\<in>set (Faces st @ [(i, a)]). \<exists>l. Links st' x = Some l \<and> ls_faceID l = j \<and> tb_faceID (ls_transport l) = j"
      using assms(1) by (auto simp: ft_inv_def st'(3) ls_SetFaceID_def)
  qed
qed

lemma Table_Remove_eq:
  assumes "keeps_tables f"
  shows "Faces (Table_Remove ops f i st) = AList.delete i (Faces st)" "Links (Table_Remove ops f i st) = Links st"
    "Dispatch (Table_Remove ops f i st) = (Dispatch st)(i := None)" "RibFib (Table_Remove ops f i st) = CleanUpFace ops (RibFib st) i"
    "nextFaceID (Table_Remove ops f i st) = nextFaceID st"
  using Emit_frame[OF assms] by (simp_all add: Table_Remove_def Let_def)

lemma distinct_map_snd_delete: "distinct (map snd xs) \<Longrightarrow> distinct (map snd (AList.delete i xs))"
  by (simp add: AList.delete_eq distinct_map_filter)

lemma ft_invD: "ft_inv st \<Longrightarrow> (i, a) \<in> set (Faces st) \<Longrightarrow> \<exists>l. Links st a = Some l \<and> ls_faceID l = i \<and> tb_faceID (ls_transport l) = i"
  by (auto simp: ft_inv_def)

lemma set_delete_subset: "set (AList.delete i xs) \<subseteq> set xs"
  by (auto simp: AList.delete_eq)

lemma Table_Remove_keeps:
  assumes "ft_inv st" "keeps_tables f"
  shows "ft_inv (Table_Remove ops f i st)" "Table_Get (Table_Remove ops f i st) = (Table_Get st)(i := None)"
  using assms(1) unfolding ft_inv_def Table_Get_def Table_Remove_eq[OF assms(2)]
  by (auto simp: AList.delete_conv' AList.distinct_delete distinct_map_snd_delete dest!: subsetD[OF set_delete_subset])

lemma upd_link_keeps:
  assumes "ft_inv st" "\<And>l. ls_faceID (g l) = ls_faceID l \<and> tb_faceID (ls_transport (g l)) = tb_faceID (ls_transport l)"
  shows "ft_inv (upd_link a g st)"
  using assms by (fastforce simp: ft_inv_def)

lemma changeState_keeps:
  assumes "ft_inv st" "keeps_tables f"
  shows "ft_inv (changeState ops f a new st)"
  using assms by (auto simp: changeState_def Let_def intro!: Table_Remove_keeps upd_link_keeps)

text \<open>The states that the operations lead to from a table without faces.\<close>

inductive face_reach :: "'s FibStrategy \<Rightarrow> ('s, 'z) send_func \<Rightarrow> ('s, 'z) forwarder_scheme \<Rightarrow> bool" for ops f where
  start: "Faces st = [] \<Longrightarrow> Dispatch st = Map.empty \<Longrightarrow> face_reach ops f st"
| add: "face_reach ops f st \<Longrightarrow> Links st a = None \<Longrightarrow> length (Faces st) < 2 ^ 64 \<Longrightarrow>
    Table_Add f a (st\<lparr>Links := (Links st)(a \<mapsto> l)\<rparr>) = Some st' \<Longrightarrow> face_reach ops f st'"
| remove: "face_reach ops f st \<Longrightarrow> face_reach ops f (Table_Remove ops f i st)"
| state: "face_reach ops f st \<Longrightarrow> face_reach ops f (changeState ops f a new st)"

lemma ft_inv_new_link: "ft_inv st \<Longrightarrow> Links st a = None \<Longrightarrow> ft_inv (st\<lparr>Links := (Links st)(a \<mapsto> l)\<rparr>) \<and> a \<notin> snd ` set (Faces st)"
  by (auto simp: ft_inv_def split_beta)

lemma face_reach_inv:
  assumes "face_reach ops f st" "keeps_tables f"
  shows "ft_inv st"
  using assms(1)
proof induction
  case (start st)
  then show ?case by (simp add: ft_inv_def)
next
  case (add st a l st')
  let ?s = "st\<lparr>Links := (Links st)(a \<mapsto> l)\<rparr>"
  have s: "ft_inv ?s" "a \<notin> snd ` set (Faces ?s)" using ft_inv_new_link[OF add.IH add.hyps(2)] by auto
  obtain k where k: "next_free (Faces ?s) (nextFaceID ?s) = Some (nextFaceID ?s + of_nat k, nextFaceID ?s + of_nat k + 1)"
    "map_of (Faces ?s) (nextFaceID ?s + of_nat k) = None"
    using next_free_returns[of "Faces ?s" "nextFaceID ?s"] add.hyps(3) by auto
  show ?case by (rule Table_Add_keeps(1)[OF s(1) assms(2) k _ s(2) add.hyps(4)]) simp
qed (use assms(2) in \<open>auto intro: Table_Remove_keeps changeState_keeps\<close>)

section \<open>The event cache\<close>

text \<open>All events since the start, oldest first; an event without a face inherits from the one whose slot it takes.\<close>

definition blank_event :: FaceEvent where
  "blank_event = \<lparr>eventId = 0, faceEventKind = FaceEventCreated, fe_faceId = 0, fe_remoteURI = None, fe_localURI = None,
     fe_scope = NonLocal, fe_persistency = 0, fe_linkType = PointToPoint, fe_flags = 0\<rparr>"

fun event_at :: "(FaceEventKind \<times> LinkService option) list \<Rightarrow> nat \<Rightarrow> FaceEvent" where
  "event_at evs n =
     write_event (of_nat n) (fst (evs ! n)) (snd (evs ! n))
       (if n < FaceEventsCacheSize \<or> FaceEventsCacheSize = 0 then blank_event else event_at evs (n - FaceEventsCacheSize))"

declare event_at.simps [simp del]

definition emit_all :: "(FaceEventKind \<times> LinkService option) list \<Rightarrow> ('s, 'z) forwarder_scheme \<Rightarrow> ('s, 'z) forwarder_scheme" where
  "emit_all evs st = fold (\<lambda>(k, face). EmitFaceEvent None k face) evs st"

definition no_events :: "('s, 'z) forwarder_scheme \<Rightarrow> bool" where
  "no_events st \<longleftrightarrow> faceEvents st = replicate FaceEventsCacheSize blank_event \<and> faceEventsIdx st = 0 \<and> faceEventsNextId st = 0"

text \<open>What slot \<open>j\<close> holds after \<open>n\<close> events: the latest of them whose number is \<open>j\<close> modulo the size.\<close>

definition slot :: "(FaceEventKind \<times> LinkService option) list \<Rightarrow> nat \<Rightarrow> nat \<Rightarrow> FaceEvent" where
  "slot evs n j = (if n \<le> j then blank_event else event_at evs (j + ((n - 1 - j) div 100) * 100))"

lemma event_at_append: "n < length evs \<Longrightarrow> event_at (evs @ xs) n = event_at evs n"
proof (induction n rule: less_induct)
  case (less n)
  then show ?case by (subst (1 2) event_at.simps) (auto simp: nth_append FaceEventsCacheSize_def)
qed

lemma unat_word_of_nat: "n < 2 ^ 64 \<Longrightarrow> unat (of_nat n :: u64) = n"
  by (simp add: unat_of_nat take_bit_nat_eq_self)

lemma slot_step:
  assumes "j < 100"
  shows "slot (evs @ [x]) (Suc (length evs)) j =
    (if j = length evs mod 100 then write_event (of_nat (length evs)) (fst x) (snd x) (slot evs (length evs) j)
     else slot evs (length evs) j)"
proof (cases "length evs < j")
  case True
  with assms show ?thesis by (simp add: slot_def)
next
  case False
  let ?n = "length evs"
  let ?m = "j + ((?n - 1 - j) div 100) * 100"
  show ?thesis
  proof (cases "j = ?n mod 100")
    case True
    then obtain q where q: "?n = j + 100 * q" by (metis mod_mult_div_eq)
    have new: "j + ((?n - j) div 100) * 100 = ?n" by (simp add: q)
    have old: "?n - 100 = ?m" "\<not> ?n \<le> j" if "\<not> ?n < 100"
    proof -
      from that assms q obtain p where p: "q = Suc p" by (cases q) auto
      have "?n - 1 - j = 99 + 100 * p" by (simp add: q p)
      then have "(?n - 1 - j) div 100 = p" by simp
      then show "?n - 100 = ?m" "\<not> ?n \<le> j" by (simp_all add: q p)
    qed
    have "slot (evs @ [x]) (Suc ?n) j = event_at (evs @ [x]) ?n" using new False by (simp add: slot_def)
    also have "\<dots> = write_event (of_nat ?n) (fst x) (snd x) (slot evs ?n j)"
    proof (cases "?n < 100")
      case True
      with \<open>j = ?n mod 100\<close> show ?thesis by (subst event_at.simps) (simp add: slot_def FaceEventsCacheSize_def)
    next
      case False
      then have "event_at (evs @ [x]) (?n - 100) = slot evs ?n j"
        using old event_at_append[of "?n - 100" evs "[x]"] by (simp add: slot_def)
      with False show ?thesis by (subst event_at.simps) (simp add: FaceEventsCacheSize_def)
    qed
    finally show ?thesis using True by simp
  next
    case False
    have lt: "j < ?n" using False assms \<open>\<not> ?n < j\<close> by (cases "j = ?n") auto
    then obtain r where r: "?n = j + Suc r" using less_imp_Suc_add by (metis add_Suc_right)
    have "Suc r mod 100 \<noteq> 0"
    proof
      assume "Suc r mod 100 = 0"
      then obtain q where "Suc r = 100 * q" by (metis mod_0_imp_dvd dvdE)
      then show False using False assms r by simp
    qed
    then have "Suc r div 100 = r div 100" by (simp add: div_Suc)
    then have d: "(?n - j) div 100 = (?n - 1 - j) div 100" "\<not> ?n \<le> j" "?m < ?n"
      using lt div_times_less_eq_dividend[of r 100] by (simp_all add: r)
    then show ?thesis using False event_at_append[OF d(3), of "[x]"] by (simp add: slot_def)
  qed
qed

lemma emit_all_ring:
  assumes "no_events st"
  shows "faceEvents (emit_all evs st) = map (slot evs (length evs)) [0..<100] \<and>
    faceEventsIdx (emit_all evs st) = of_nat (length evs mod 100) \<and> faceEventsNextId (emit_all evs st) = of_nat (length evs)"
proof (induction evs rule: rev_induct)
  case Nil
  have "replicate 100 blank_event = map (slot [] 0) [0..<100]" by (auto simp: slot_def map_replicate_const[symmetric] intro!: nth_equalityI)
  then show ?case using assms by (simp add: emit_all_def no_events_def FaceEventsCacheSize_def)
next
  case (snoc x evs)
  let ?st = "emit_all evs st" and ?n = "length evs"
  have st': "emit_all (evs @ [x]) st = EmitFaceEvent None (fst x) (snd x) ?st" by (simp add: emit_all_def split_beta)
  note F = Emit_frame[OF keeps_tables_None, of "fst x" "snd x" ?st]
  have i: "unat (of_nat (?n mod 100) :: u64) = ?n mod 100" by (simp add: unat_of_nat take_bit_nat_eq_self)
  have "faceEvents (emit_all (evs @ [x]) st) =
      (map (slot evs ?n) [0..<100])[?n mod 100 := write_event (of_nat ?n) (fst x) (snd x) (slot evs ?n (?n mod 100))]"
    unfolding st' F using snoc.IH i by simp
  also have "\<dots> = map (slot (evs @ [x]) (Suc ?n)) [0..<100]"
    by (rule nth_equalityI) (simp_all add: slot_step nth_list_update)
  finally have "faceEvents (emit_all (evs @ [x]) st) = map (slot (evs @ [x]) (length (evs @ [x]))) [0..<100]" by simp
  moreover have "faceEventsIdx (emit_all (evs @ [x]) st) = of_nat (length (evs @ [x]) mod 100)"
  proof -
    have "unat (of_nat (?n mod 100) + 1 :: u64) = ?n mod 100 + 1"
    proof -
      have "(of_nat (?n mod 100) + 1 :: u64) = of_nat (?n mod 100 + 1)" by simp
      moreover have "(?n mod 100 + 1) mod 2 ^ LENGTH(64) = ?n mod 100 + 1"
        using mod_less_divisor[of 100 ?n] by (intro mod_less) simp
      ultimately show ?thesis by (simp only: unat_of_nat)
    qed
    then have "unat ((of_nat (?n mod 100) + 1 :: u64) mod of_nat 100) = (?n + 1) mod 100"
      by (simp add: unat_mod_distrib mod_simps)
    then have "(of_nat (?n mod 100) + 1 :: u64) mod of_nat 100 = of_nat ((?n + 1) mod 100)" by (intro unsigned_word_eqI[where ?'a = nat]) (simp add: unat_word_of_nat)
    then show ?thesis unfolding st' F using snoc.IH by (simp add: FaceEventsCacheSize_def)
  qed
  moreover have "faceEventsNextId (emit_all (evs @ [x]) st) = of_nat (length (evs @ [x]))"
    unfolding st' F using snoc.IH by simp
  ultimately show ?case by simp
qed

lemma slot_recent:
  assumes "m < n" "n \<le> m + 100"
  shows "slot evs n (m mod 100) = event_at evs m"
proof -
  obtain q where q: "m = m mod 100 + 100 * q" by (metis mod_mult_div_eq)
  define j where "j = m mod 100"
  have m: "m = j + 100 * q" "j < 100" using q by (simp_all add: j_def)
  obtain r where r: "n = Suc (m + r)" "r < 100" using assms less_imp_Suc_add by (metis add_less_cancel_left less_eq_Suc_le)
  have "(n - 1 - j) div 100 = q" using r(2) by (simp add: r(1) m(1))
  moreover have "\<not> n \<le> j" using r m by simp
  ultimately have "slot evs n j = event_at evs m" by (simp add: slot_def m(1) mult.commute)
  then show ?thesis by (simp add: j_def)
qed

lemma GetFaceEvent_emitted:
  assumes "no_events st" "length evs < 2 ^ 64" "m < 2 ^ 64"
  shows "GetFaceEvent (emit_all evs st) (of_nat m) =
    (if 100 \<le> length evs \<and> length evs \<le> m + 100 \<and> m < length evs then Some (event_at evs m) else None)"
proof -
  let ?n = "length evs" and ?st = "emit_all evs st"
  note R = emit_all_ring[OF assms(1), of evs]
  have ge: "of_nat m \<ge> faceEventsNextId ?st \<longleftrightarrow> ?n \<le> m"
    using R assms(2,3) by (simp add: word_le_nat_alt unat_word_of_nat)
  show ?thesis
  proof (cases "?n < 100")
    case True
    have "(of_nat ?n - 100 :: u64) = of_nat (2 ^ 64 - (100 - ?n))"
      using True by (simp add: of_nat_diff)
    then have "unat (of_nat ?n - 100 :: u64) = 2 ^ 64 - (100 - ?n)" using True by (simp only:) (rule unat_word_of_nat, simp)
    then have "of_nat m < faceEventsNextId ?st - of_nat FaceEventsCacheSize" if "m < ?n"
      using R True that unat_word_of_nat[OF assms(3)] by (simp add: FaceEventsCacheSize_def word_less_nat_alt)
    then show ?thesis using True ge by (auto simp: GetFaceEvent_def)
  next
    case False
    have sub: "(of_nat ?n - 100 :: u64) = of_nat (?n - 100)" using False by (simp add: of_nat_diff)
    have lt: "of_nat m < faceEventsNextId ?st - of_nat FaceEventsCacheSize \<longleftrightarrow> m < ?n - 100"
      using R sub assms(2,3) by (simp add: FaceEventsCacheSize_def word_less_nat_alt unat_word_of_nat)
    show ?thesis
    proof (cases "m < ?n \<and> ?n \<le> m + 100")
      case True
      have "(of_nat m + of_nat FaceEventsCacheSize - faceEventsNextId ?st :: u64) = of_nat (m + 100 - ?n)"
        using R True by (simp add: FaceEventsCacheSize_def of_nat_diff)
      then have "unat ((faceEventsIdx ?st + (of_nat m + of_nat FaceEventsCacheSize - faceEventsNextId ?st)) mod of_nat FaceEventsCacheSize) =
          unat ((of_nat (?n mod 100 + (m + 100 - ?n)) :: u64) mod 100)"
        using R by (simp add: FaceEventsCacheSize_def)
      also have "\<dots> = (?n mod 100 + (m + 100 - ?n)) mod 100"
        proof -
        have k: "unat ((of_nat k :: u64) mod 100) = k mod 100" if "k < 2 ^ 64" for k
          using that by (simp add: unat_mod_distrib unat_word_of_nat)
        have "r + (m + 100 - ?n) < 2 ^ 64" if "r < 100" for r
        proof -
          have "m + 100 - ?n \<le> 100" using True by linarith
          then have "r + (m + 100 - ?n) < 200" using that by linarith
          also have "(200 :: nat) < 2 ^ 64" by simp
          finally show ?thesis .
        qed
        then have "?n mod 100 + (m + 100 - ?n) < 2 ^ 64" using mod_less_divisor[of 100 ?n, OF zero_less_numeral] by blast
        then show ?thesis by (rule k)
      qed
      also have "\<dots> = (m + 100) mod 100" using True mod_add_left_eq[of ?n 100 "m + 100 - ?n"] by simp
      finally have idx: "unat ((faceEventsIdx ?st + (of_nat m + of_nat FaceEventsCacheSize - faceEventsNextId ?st)) mod of_nat FaceEventsCacheSize) = m mod 100"
        by simp
      have "faceEvents ?st ! (m mod 100) = event_at evs m" using R True slot_recent[of m ?n evs] by simp
      moreover have "\<not> m < ?n - 100" using True by linarith
      ultimately show ?thesis using True False ge lt by (simp add: GetFaceEvent_def Let_def idx)
    next
      case F: False
      then show ?thesis using False ge lt by (auto simp: GetFaceEvent_def)
    qed
  qed
qed

section \<open>Properties\<close>

definition toy_transport :: "transport_kind \<Rightarrow> transportBase" where
  "toy_transport k = makeTransportBase k MakeInternalFaceURI MakeInternalFaceURI PersistencyPersistent Local PointToPoint 8800"

definition toy_ls :: LinkService where
  "toy_ls = \<lparr>ls_faceID = 0, ls_transport = toy_transport InternalTransport, ls_options = Some MakeNDNLPLinkServiceOptions,
     ls_NInInterests = 0, ls_NInData = 0, ls_NOutInterests = 0, ls_NOutData = 0\<rparr>"

definition toy_forwarder :: "FibStrategyTree forwarder" where
  "toy_forwarder = \<lparr>Links = [0 \<mapsto> toy_ls], Faces = [], nextFaceID = 1, Dispatch = Map.empty,
     RibFib = (Rib_init, newFibStrategyTableTree toy_enc), faceEvents = replicate 100 blank_event, faceEventsIdx = 0, faceEventsNextId = 0\<rparr>"

text \<open>
  In every state that adding and removing faces and state changes of the transports lead to, a face is
  registered under the identifier it believes to have, under that one only, and the dispatch table that the
  forwarding threads use has exactly the faces of the table.
\<close>

theorem face_table_invariant:
  assumes "face_reach ops f st" "keeps_tables f" "Table_Get st i = Some a"
  shows "(\<exists>l. Links st a = Some l \<and> ls_faceID l = i \<and> tb_faceID (ls_transport l) = i) \<and> Dispatch st i = Some a \<and>
    (\<forall>j. Table_Get st j = Some a \<longrightarrow> j = i) \<and> (\<forall>j. Dispatch st j = Table_Get st j)"
proof -
  have inv: "ft_inv st" by (rule face_reach_inv[OF assms(1,2)])
  then have m: "(i, a) \<in> set (Faces st)" using assms(3) by (simp add: Table_Get_def map_of_SomeD)
  have "j = i" if "Table_Get st j = Some a" for j
    using ft_invD[OF inv m] ft_invD[OF inv, of j a] that by (auto simp: Table_Get_def dest!: map_of_SomeD)
  then have "\<forall>j. Table_Get st j = Some a \<longrightarrow> j = i" by blast
  moreover have d: "Dispatch st j = Table_Get st j" for j using inv by (simp add: ft_inv_def Table_Get_def)
  moreover have "Dispatch st i = Some a" using d assms(3) by simp
  ultimately show ?thesis using ft_invD[OF inv m] by blast
qed

theorem face_table_invariant_witness:
  "\<exists>st. Table_Add None 0 (toy_forwarder\<lparr>Links := [0 \<mapsto> toy_ls]\<rparr>) = Some st \<and> Dispatch st 1 = Some 0 \<and> (\<forall>j. Table_Get st j = Some 0 \<longrightarrow> j = 1)"
proof -
  let ?s = "toy_forwarder\<lparr>Links := Map.empty\<rparr>"
  have n: "next_free (Faces (toy_forwarder\<lparr>Links := [0 \<mapsto> toy_ls]\<rparr>)) (nextFaceID (toy_forwarder\<lparr>Links := [0 \<mapsto> toy_ls]\<rparr>)) = Some (1, 2)"
    by (subst next_free.simps) (simp add: toy_forwarder_def)
  obtain st where st: "Table_Add None 0 (toy_forwarder\<lparr>Links := [0 \<mapsto> toy_ls]\<rparr>) = Some st"
    "Faces st = AList.update 1 0 (Faces (toy_forwarder\<lparr>Links := [0 \<mapsto> toy_ls]\<rparr>))"
    by (rule Table_Add_eq[OF keeps_tables_None n, of 0 toy_ls]) (simp, rule that)
  have "face_reach (tree_ops toy_enc) None ?s" by (rule face_reach.start) (simp_all add: toy_forwarder_def)
  then have "face_reach (tree_ops toy_enc) None st"
    by (rule face_reach.add[where a = 0 and l = toy_ls]) (simp_all add: toy_forwarder_def st(1)[unfolded toy_forwarder_def, simplified])
  moreover have "Table_Get st 1 = Some 0" by (simp add: Table_Get_def st(2) toy_forwarder_def)
  ultimately have "Dispatch st 1 = Some 0 \<and> (\<forall>j. Table_Get st j = Some 0 \<longrightarrow> j = 1)"
    using face_table_invariant[OF _ keeps_tables_None, of "tree_ops toy_enc" st 1 0] by blast
  then show ?thesis using st(1) by blast
qed

text \<open>
  Adding a face returns while fewer than \<open>2 ^ 64\<close> faces exist: the face gets the first unused identifier from
  \<^verbatim>\<open>nextFaceID\<close> on, is found under it in both tables, no other face is touched, and the event of its creation
  is the last in the cache.
\<close>

theorem Table_Add_spec:
  assumes "ft_inv st" "Links st a = Some l" "a \<notin> snd ` set (Faces st)" "length (Faces st) < 2 ^ 64"
  shows "\<exists>i st'. Table_Add None a st = Some st' \<and> Table_Get st i = None \<and>
    (\<forall>k < unat (i - nextFaceID st). Table_Get st (nextFaceID st + of_nat k) \<noteq> None) \<and>
    Table_Get st' = (Table_Get st)(i \<mapsto> a) \<and> Dispatch st' = (Dispatch st)(i \<mapsto> a) \<and>
    Links st' = (Links st)(a \<mapsto> ls_SetFaceID i l) \<and> RibFib st' = RibFib st \<and> nextFaceID st' = i + 1 \<and> ft_inv st' \<and>
    (unat (faceEventsIdx st) < length (faceEvents st) \<longrightarrow>
      fe_faceId (faceEvents st' ! unat (faceEventsIdx st)) = i \<and> eventId (faceEvents st' ! unat (faceEventsIdx st)) = faceEventsNextId st)"
proof -
  obtain k where k: "next_free (Faces st) (nextFaceID st) = Some (nextFaceID st + of_nat k, nextFaceID st + of_nat k + 1)"
    "map_of (Faces st) (nextFaceID st + of_nat k) = None" "\<And>j. j < k \<Longrightarrow> map_of (Faces st) (nextFaceID st + of_nat j) \<noteq> None"
    using next_free_returns[OF assms(4)] by metis
  let ?i = "nextFaceID st + of_nat k"
  from Table_Add_eq[OF keeps_tables_None k(1) assms(2)] obtain st' where st': "Table_Add None a st = Some st'"
    "faceEvents st' = (faceEvents st)[unat (faceEventsIdx st) :=
       write_event (faceEventsNextId st) FaceEventCreated (Some (ls_SetFaceID ?i l)) (faceEvents st ! unat (faceEventsIdx st))]" by metis
  note keeps = Table_Add_keeps[OF assms(1) keeps_tables_None k(1,2) assms(2,3) st'(1)]
  have "unat (of_nat k :: u64) \<le> k" by (simp add: unat_of_nat take_bit_nat_less_eq_self)
  then have "\<forall>j < unat (?i - nextFaceID st). Table_Get st (nextFaceID st + of_nat j) \<noteq> None" using k(3) by (simp add: Table_Get_def)
  with st' keeps k(2) show ?thesis
    by (intro exI[of _ ?i] exI[of _ st']) (simp add: Table_Get_def write_event_def Let_def ls_SetFaceID_def)
qed

theorem Table_Add_spec_witness:
  "\<exists>i st'. Table_Add None 0 toy_forwarder = Some st' \<and> Table_Get st' i = Some 0 \<and> nextFaceID st' = i + 1"
proof -
  have "ft_inv toy_forwarder" "Links toy_forwarder 0 = Some toy_ls" "0 \<notin> snd ` set (Faces toy_forwarder)" "length (Faces toy_forwarder) < 2 ^ 64"
    by (simp_all add: toy_forwarder_def ft_inv_def)
  from Table_Add_spec[OF this] obtain i st' where "Table_Add None 0 toy_forwarder = Some st'" "Table_Get st' = (Table_Get toy_forwarder)(i \<mapsto> 0)"
    "nextFaceID st' = i + 1" by (elim exE conjE) (rule that)
  then show ?thesis by (intro exI[of _ i] exI[of _ st']) simp
qed

text \<open>
  The cache of face events is the history cut to its last hundred: an event is returned exactly when it is
  among the last hundred emitted and at least a hundred were emitted at all (before that the comparison with
  \<^verbatim>\<open>faceEventsNextId - 100\<close> wraps and nothing is found). It carries the identifier of its face; an event that
  was emitted without a face carries that of the event a hundred before.
\<close>

theorem face_event_cache:
  assumes "no_events st" "length evs < 2 ^ 64" "m < 2 ^ 64"
  shows "GetFaceEvent (emit_all evs st) (of_nat m) =
      (if 100 \<le> length evs \<and> length evs \<le> m + 100 \<and> m < length evs then Some (event_at evs m) else None) \<and>
    eventId (event_at evs m) = of_nat m \<and> faceEventKind (event_at evs m) = fst (evs ! m) \<and>
    fe_faceId (event_at evs m) =
      (case snd (evs ! m) of Some face \<Rightarrow> ls_faceID face
       | None \<Rightarrow> if m < 100 then 0 else fe_faceId (event_at evs (m - 100)))"
proof -
  have "event_at evs m = write_event (of_nat m) (fst (evs ! m)) (snd (evs ! m)) (if m < 100 then blank_event else event_at evs (m - 100))"
    by (subst event_at.simps) (simp add: FaceEventsCacheSize_def)
  then have "eventId (event_at evs m) = of_nat m \<and> faceEventKind (event_at evs m) = fst (evs ! m) \<and>
    fe_faceId (event_at evs m) =
      (case snd (evs ! m) of Some face \<Rightarrow> ls_faceID face
       | None \<Rightarrow> if m < 100 then 0 else fe_faceId (event_at evs (m - 100)))"
    by (simp add: write_event_def Let_def blank_event_def split: option.split)
  with GetFaceEvent_emitted[OF assms] show ?thesis by blast
qed

theorem face_event_cache_witness:
  "GetFaceEvent (emit_all (replicate 100 (FaceEventCreated, Some toy_ls) @ [(FaceEventDestroyed, None)]) toy_forwarder) 100 \<noteq> None \<and>
   GetFaceEvent (emit_all [(FaceEventCreated, Some toy_ls)] toy_forwarder) 0 = None"
proof -
  have n: "no_events toy_forwarder" by (simp add: no_events_def toy_forwarder_def FaceEventsCacheSize_def)
  let ?evs = "replicate 100 (FaceEventCreated, Some toy_ls) @ [(FaceEventDestroyed, None)]"
  have "GetFaceEvent (emit_all ?evs toy_forwarder) (of_nat 100) \<noteq> None"
    using face_event_cache[OF n, of ?evs 100] by simp
  moreover have "GetFaceEvent (emit_all [(FaceEventCreated, Some toy_ls)] toy_forwarder) (of_nat 0) = None"
    using face_event_cache[OF n, of "[(FaceEventCreated, Some toy_ls)]" 0] by simp
  ultimately show ?thesis by simp
qed



end
