(* ===== verification/Transports.thy ===== *)
theory Transports
  imports Uri_Decode Face_Table
begin

text \<open>
  The transports (\<^verbatim>\<open>src/face/*-transport.go\<close>) and the listeners that create them (\<^verbatim>\<open>src/face/*-listener.go\<close>):
  their constructors, and as steps on the state of the forwarder what the code does when a frame is to be sent, when a
  read from the socket returns, when the expiration handler wakes up and when a connection comes in. What a socket
  answers is an argument of the step. The address of a new object is an argument too, any that is not in use.
\<close>

section \<open>Constructors\<close>

record tr_env =
  te_host :: host_api
  te_now :: int
  udpLifetime :: int
  tcpLifetime :: int
  Dial :: "URI \<Rightarrow> gostring option"
  InterfaceByIP :: "ip option \<Rightarrow> gostring option"
  ListenMulticast :: "URI \<Rightarrow> bool"
  udp4MulticastAddress :: gostring
  udp6MulticastAddress :: gostring
  UDPMulticastPort :: u16

definition set_up :: "transportBase \<Rightarrow> transportBase" where
  "set_up t = t\<lparr>tb_state := Up\<rparr>"

definition ip_scope :: "ip option \<Rightarrow> Scope" where
  "ip_scope i = (case i of Some x \<Rightarrow> if IsLoopback x then Local else NonLocal | None \<Rightarrow> NonLocal)"

text \<open>The local URI of a connected socket is decoded from its address; \<open>DecodeURIString\<close> gives no nil for this scheme.\<close>

definition decoded :: "host_api \<Rightarrow> string \<Rightarrow> gostring \<Rightarrow> URI" where
  "decoded H pre s = the (DecodeURIString H (lit pre @ s))"

definition MakeUnicastUDPTransport :: "tr_env \<Rightarrow> URI \<Rightarrow> URI option \<Rightarrow> Persistency \<Rightarrow> transportBase option" where
  "MakeUnicastUDPTransport E remoteURI localURI persistency =
     (if \<not> IsCanonical remoteURI \<or> (scheme remoteURI \<noteq> lit ''udp4'' \<and> scheme remoteURI \<noteq> lit ''udp6'') \<or>
         (case localURI of None \<Rightarrow> False | Some l \<Rightarrow> \<not> IsCanonical l \<or> scheme remoteURI \<noteq> scheme l)
      then None
      else (case Dial E remoteURI of
              None \<Rightarrow> None
            | Some addr \<Rightarrow>
                let l = (case localURI of Some l \<Rightarrow> l | None \<Rightarrow> decoded (te_host E) ''udp://'' addr);
                    t = makeTransportBase UnicastUDPTransport remoteURI l persistency NonLocal PointToPoint MaxNDNPacketSize
                in Some (set_up (t\<lparr>tb_expirationTime := Some (te_now E + udpLifetime E), tb_scope := ip_scope (ParseIP (path remoteURI))\<rparr>))))"

definition tcp_transport :: "tr_env \<Rightarrow> URI \<Rightarrow> URI \<Rightarrow> Persistency \<Rightarrow> transportBase" where
  "tcp_transport E remoteURI l persistency =
     set_up ((makeTransportBase UnicastTCPTransport remoteURI l persistency NonLocal PointToPoint MaxNDNPacketSize)
       \<lparr>tb_expirationTime := Some (te_now E + tcpLifetime E), tb_scope := ip_scope (ParseIP (path remoteURI))\<rparr>)"

definition MakeUnicastTCPTransport :: "tr_env \<Rightarrow> URI \<Rightarrow> URI option \<Rightarrow> Persistency \<Rightarrow> transportBase option" where
  "MakeUnicastTCPTransport E remoteURI localURI persistency =
     (if \<not> IsCanonical remoteURI \<or> (scheme remoteURI \<noteq> lit ''tcp4'' \<and> scheme remoteURI \<noteq> lit ''tcp6'') then None
      else if localURI \<noteq> None then None
      else (case Dial E remoteURI of
              None \<Rightarrow> None
            | Some addr \<Rightarrow> Some (tcp_transport E remoteURI (decoded (te_host E) ''tcp://'' addr) persistency)))"

text \<open>
  The transport of an accepted connection with the remote host and port. When the remote URI is not canonical the code
  returns a nil transport with the error of an earlier call, which is nil.
\<close>

definition AcceptUnicastTCPTransport :: "tr_env \<Rightarrow> gostring \<times> gostring \<Rightarrow> URI \<Rightarrow> Persistency \<Rightarrow> transportBase result" where
  "AcceptUnicastTCPTransport E remote localURI persistency =
     (let u = fst (Canonize (te_host E) (MakeTCPFaceURI (te_host E) 4 (fst remote) (port_value (snd remote))))
      in if \<not> IsCanonical u then Inl NilDereference else Inr (tcp_transport E u localURI persistency))"

definition MakeInternalTransport :: transportBase where
  "MakeInternalTransport =
     set_up (makeTransportBase InternalTransport MakeInternalFaceURI MakeInternalFaceURI PersistencyPersistent Local PointToPoint MaxNDNPacketSize)"

definition MakeNullTransport :: transportBase where
  "MakeNullTransport =
     set_up (makeTransportBase NullTransport MakeNullFaceURI MakeNullFaceURI PersistencyPermanent NonLocal PointToPoint MaxNDNPacketSize)"

definition MakeUnixStreamTransport :: "URI \<Rightarrow> URI \<Rightarrow> transportBase option" where
  "MakeUnixStreamTransport remoteURI localURI =
     (if \<not> IsCanonical remoteURI \<or> scheme remoteURI \<noteq> lit ''fd'' \<or> \<not> IsCanonical localURI \<or> scheme localURI \<noteq> lit ''unix'' then None
      else Some (set_up (makeTransportBase UnixStreamTransport remoteURI localURI PersistencyPersistent Local PointToPoint MaxNDNPacketSize)))"

definition NewWebSocketTransport :: "URI \<Rightarrow> gostring \<times> u16 \<Rightarrow> transportBase" where
  "NewWebSocketTransport localURI addr =
     (let remoteURI = MakeWebSocketClientFaceURI addr
      in set_up (makeTransportBase WebSocketTransport remoteURI localURI PersistencyOnDemand (ip_scope (ParseIP (PathHost remoteURI)))
           PointToPoint MaxNDNPacketSize))"

text \<open>
  A multicast transport on the interface with the address of the local URI. A missing interface is only logged: its name is
  then read through nil where the code needs it.
\<close>

definition MakeMulticastUDPTransport :: "tr_env \<Rightarrow> URI \<Rightarrow> transportBase option result" where
  "MakeMulticastUDPTransport E localURI0 =
     (let localURI = fst (Canonize (te_host E) localURI0);
          localIf = InterfaceByIP E (ParseIP (PathHost localURI));
          prt = FormatUint (unat (UDPMulticastPort E))
      in if \<not> IsCanonical localURI \<or> (scheme localURI \<noteq> lit ''udp4'' \<and> scheme localURI \<noteq> lit ''udp6'') then Inr None
         else rbind
           (if scheme localURI = lit ''udp4'' then Inr (decoded (te_host E) ''udp4://'' (udp4MulticastAddress E @ lit '':'' @ prt))
            else (case localIf of
                    None \<Rightarrow> Inl NilDereference
                  | Some name \<Rightarrow> Inr (decoded (te_host E) ''udp6://['' (udp6MulticastAddress E @ lit ''%'' @ name @ lit '']:'' @ prt))))
           (\<lambda>remoteURI.
              if Dial E remoteURI = None then Inr None
              else if \<not> ListenMulticast E remoteURI then (if localIf = None then Inl NilDereference else Inr None)
              else Inr (Some (set_up (makeTransportBase MulticastUDPTransport remoteURI localURI PersistencyPermanent NonLocal MultiAccess
                     MaxNDNPacketSize)))))"

text \<open>The Ethernet transport of a device: its pcap handle can be opened or not.\<close>

definition MakeMulticastEthernetTransport :: "bool \<Rightarrow> URI \<Rightarrow> URI \<Rightarrow> transportBase option" where
  "MakeMulticastEthernetTransport activated remoteURI localURI =
     (if \<not> IsCanonical remoteURI \<or> scheme remoteURI \<noteq> lit ''ether'' \<or> \<not> IsCanonical localURI \<or> scheme localURI \<noteq> lit ''dev'' then None
      else if ParseMAC (path remoteURI) = None \<or> \<not> activated then None
      else Some (set_up (makeTransportBase MulticastEthernetTransport remoteURI localURI PersistencyPermanent NonLocal MultiAccess
             MaxNDNPacketSize)))"

section \<open>Faces\<close>

definition new_link :: "transportBase \<Rightarrow> NDNLPLinkServiceOptions option \<Rightarrow> LinkService" where
  "new_link t op = \<lparr>ls_faceID = 0, ls_transport = t, ls_options = op, ls_NInInterests = 0, ls_NInData = 0, ls_NOutInterests = 0, ls_NOutData = 0\<rparr>"

text \<open>A new link service at the address \<open>a\<close> that is added to the table.\<close>

definition add_face :: "('s, 'z) send_func \<Rightarrow> addr \<Rightarrow> LinkService \<Rightarrow> ('s, 'z) forwarder_scheme \<Rightarrow> ('s, 'z) forwarder_scheme result" where
  "add_face f a l st =
     (case Table_Add f a (st\<lparr>Links := (Links st)(a \<mapsto> l)\<rparr>) of None \<Rightarrow> Inl NoReturn | Some st' \<Rightarrow> Inr st')"

definition RegisterInternalTransport :: "('s, 'z) send_func \<Rightarrow> addr \<Rightarrow> ('s, 'z) forwarder_scheme \<Rightarrow> ('s, 'z) forwarder_scheme result" where
  "RegisterInternalTransport f a =
     add_face f a (new_link MakeInternalTransport
       (Some \<lparr>IsFragmentationEnabled = False, IsReassemblyEnabled = False, IsReliabilityEnabled = False, MaxRetransmissions = 0,
          ReservedAckSpace = 0, IsConsumerControlledForwardingEnabled = True, IsIncomingFaceIndicationEnabled = True,
          IsLocalCachePolicyEnabled = False, IsCongestionMarkingEnabled = False, BaseCongestionMarkingInterval = 0,
          DefaultCongestionThresholdBytes = 0\<rparr>))"

text \<open>What each listener does with a datagram or a connection from a remote host and port.\<close>

definition UDPListener_accept ::
  "tr_env \<Rightarrow> ('s, 'z) send_func \<Rightarrow> addr \<Rightarrow> URI \<Rightarrow> gostring \<times> gostring \<Rightarrow> ('s, 'z) forwarder_scheme \<Rightarrow> ('s, 'z) forwarder_scheme result" where
  "UDPListener_accept E f a localURI remote st =
     (let u = fst (Canonize (te_host E) (MakeUDPFaceURI (te_host E) 4 (fst remote) (port_value (snd remote))))
      in if \<not> IsCanonical u then Inr st
         else (case MakeUnicastUDPTransport E u (Some localURI) PersistencyOnDemand of
                 None \<Rightarrow> Inr st
               | Some t \<Rightarrow> add_face f a (new_link t (Some MakeNDNLPLinkServiceOptions)) st))"

definition TCPListener_accept ::
  "tr_env \<Rightarrow> ('s, 'z) send_func \<Rightarrow> addr \<Rightarrow> URI \<Rightarrow> gostring \<times> gostring \<Rightarrow> ('s, 'z) forwarder_scheme \<Rightarrow> ('s, 'z) forwarder_scheme result" where
  "TCPListener_accept E f a localURI remote st =
     rbind (AcceptUnicastTCPTransport E remote localURI PersistencyPersistent)
       (\<lambda>t. add_face f a (new_link t (Some MakeNDNLPLinkServiceOptions)) st)"

definition UnixStreamListener_accept ::
  "tr_env \<Rightarrow> ('s, 'z) send_func \<Rightarrow> addr \<Rightarrow> URI \<Rightarrow> int \<Rightarrow> ('s, 'z) forwarder_scheme \<Rightarrow> (int \<times> ('s, 'z) forwarder_scheme) result" where
  "UnixStreamListener_accept E f a localURI nextFD st =
     (let remoteURI = MakeFDFaceURI (te_host E) nextFD
      in if \<not> IsCanonical remoteURI then Inr (nextFD + 1, st)
         else (case MakeUnixStreamTransport remoteURI localURI of
                 None \<Rightarrow> Inr (nextFD + 1, st)
               | Some t \<Rightarrow> rbind (add_face f a (new_link t (Some MakeNDNLPLinkServiceOptions)) st) (\<lambda>st'. Inr (nextFD + 1, st'))))"

definition WebSocketListener_handler ::
  "('s, 'z) send_func \<Rightarrow> addr \<Rightarrow> URI \<Rightarrow> gostring \<times> u16 \<Rightarrow> ('s, 'z) forwarder_scheme \<Rightarrow> ('s, 'z) forwarder_scheme result" where
  "WebSocketListener_handler f a localURI remote st =
     add_face f a (new_link (NewWebSocketTransport localURI remote) (Some MakeNDNLPLinkServiceOptions)) st"

section \<open>Sending\<close>

definition tb_upd :: "addr \<Rightarrow> (transportBase \<Rightarrow> transportBase) \<Rightarrow> ('s, 'z) forwarder_scheme \<Rightarrow> ('s, 'z) forwarder_scheme" where
  "tb_upd a g = upd_link a (\<lambda>l. l\<lparr>ls_transport := g (ls_transport l)\<rparr>)"

abbreviation tb_at :: "('s, 'z) forwarder_scheme \<Rightarrow> addr \<Rightarrow> transportBase" where
  "tb_at st a \<equiv> ls_transport (link_at st a)"

definition count_sent :: "bytes \<Rightarrow> transportBase \<Rightarrow> transportBase" where
  "count_sent frame t = t\<lparr>tb_nOutBytes := tb_nOutBytes t + of_nat (length frame)\<rparr>"

definition count_read :: "nat \<Rightarrow> transportBase \<Rightarrow> transportBase" where
  "count_read n t = t\<lparr>tb_nInBytes := tb_nInBytes t + of_nat n\<rparr>"

definition lifetime :: "tr_env \<Rightarrow> transport_kind \<Rightarrow> int" where
  "lifetime E k = (if k = UnicastUDPTransport then udpLifetime E else tcpLifetime E)"

definition refresh :: "tr_env \<Rightarrow> transportBase \<Rightarrow> transportBase" where
  "refresh E t = t\<lparr>tb_expirationTime := Some (te_now E + lifetime E (tb_kind t))\<rparr>"

text \<open>A failed socket of a permanent face is dialled again; the code takes the connection even when that failed.\<close>

definition onTransportFailure ::
  "tr_env \<Rightarrow> 's FibStrategy \<Rightarrow> ('s, 'z) send_func \<Rightarrow> addr \<Rightarrow> ('s, 'z) forwarder_scheme \<Rightarrow> ('s, 'z) forwarder_scheme result" where
  "onTransportFailure E ops f a st =
     (if tb_persistency (tb_at st a) = PersistencyPermanent
      then (if Dial E (tb_remoteURI (tb_at st a)) = None then Inl TypeAssertion else Inr st)
      else Inr (changeState ops f a Down st))"

text \<open>\<^verbatim>\<open>sendFrame\<close> of each transport; \<open>written\<close> is what the write to the socket answers.\<close>

definition within_mtu :: "addr \<Rightarrow> bytes \<Rightarrow> ('s, 'z) forwarder_scheme \<Rightarrow> ('s, 'z) forwarder_scheme result \<Rightarrow> ('s, 'z) forwarder_scheme result" where
  "within_mtu a frame st k = (if int (length frame) > tb_mtu (tb_at st a) then Inr st else k)"

definition null_sendFrame :: "addr \<Rightarrow> bytes \<Rightarrow> ('s, 'z) forwarder_scheme \<Rightarrow> ('s, 'z) forwarder_scheme result" where
  "null_sendFrame a frame st = Inr (tb_upd a (count_sent frame) st)"

definition udp_sendFrame ::
  "tr_env \<Rightarrow> 's FibStrategy \<Rightarrow> ('s, 'z) send_func \<Rightarrow> addr \<Rightarrow> bool \<Rightarrow> bytes \<Rightarrow> ('s, 'z) forwarder_scheme \<Rightarrow> ('s, 'z) forwarder_scheme result" where
  "udp_sendFrame E ops f a written frame st = within_mtu a frame st
     (if \<not> written then onTransportFailure E ops f a st else Inr (tb_upd a (refresh E \<circ> count_sent frame) st))"

definition tcp_sendFrame ::
  "tr_env \<Rightarrow> 's FibStrategy \<Rightarrow> ('s, 'z) send_func \<Rightarrow> addr \<Rightarrow> bool \<Rightarrow> bytes \<Rightarrow> ('s, 'z) forwarder_scheme \<Rightarrow> ('s, 'z) forwarder_scheme result" where
  "tcp_sendFrame E ops f a written frame st = within_mtu a frame st
     (if \<not> written then onTransportFailure E ops f a st else Inr (tb_upd a (refresh E \<circ> count_sent frame) st))"

definition internal_sendFrame :: "addr \<Rightarrow> bytes \<Rightarrow> ('s, 'z) forwarder_scheme \<Rightarrow> ('s, 'z) forwarder_scheme result" where
  "internal_sendFrame a frame st = within_mtu a frame st (Inr (tb_upd a (count_sent frame) st))"

definition multicast_udp_sendFrame :: "tr_env \<Rightarrow> addr \<Rightarrow> bool \<Rightarrow> bytes \<Rightarrow> ('s, 'z) forwarder_scheme \<Rightarrow> ('s, 'z) forwarder_scheme result" where
  "multicast_udp_sendFrame E a written frame st = within_mtu a frame st
     (if \<not> written \<and> Dial E (tb_remoteURI (tb_at st a)) = None then Inl TypeAssertion else Inr (tb_upd a (count_sent frame) st))"

definition multicast_ethernet_sendFrame :: "addr \<Rightarrow> bool \<Rightarrow> bytes \<Rightarrow> ('s, 'z) forwarder_scheme \<Rightarrow> ('s, 'z) forwarder_scheme result" where
  "multicast_ethernet_sendFrame a written frame st = within_mtu a frame st
     (if \<not> written then Inr st else Inr (tb_upd a (count_sent frame) st))"

definition unix_sendFrame ::
  "'s FibStrategy \<Rightarrow> ('s, 'z) send_func \<Rightarrow> addr \<Rightarrow> bool \<Rightarrow> bytes \<Rightarrow> ('s, 'z) forwarder_scheme \<Rightarrow> ('s, 'z) forwarder_scheme result" where
  "unix_sendFrame ops f a written frame st = within_mtu a frame st
     (Inr (tb_upd a (count_sent frame) (if written then st else changeState ops f a Down st)))"

definition web_socket_sendFrame ::
  "'s FibStrategy \<Rightarrow> ('s, 'z) send_func \<Rightarrow> addr \<Rightarrow> bool \<Rightarrow> bytes \<Rightarrow> ('s, 'z) forwarder_scheme \<Rightarrow> ('s, 'z) forwarder_scheme result" where
  "web_socket_sendFrame ops f a written frame st = within_mtu a frame st
     (Inr (tb_upd a (count_sent frame) (if written then st else changeState ops f a Down st)))"

definition sendFrame ::
  "tr_env \<Rightarrow> 's FibStrategy \<Rightarrow> ('s, 'z) send_func \<Rightarrow> addr \<Rightarrow> bool \<Rightarrow> bytes \<Rightarrow> ('s, 'z) forwarder_scheme \<Rightarrow> ('s, 'z) forwarder_scheme result" where
  "sendFrame E ops f a written frame st =
     (case tb_kind (tb_at st a) of
        NullTransport \<Rightarrow> null_sendFrame a frame st
      | InternalTransport \<Rightarrow> internal_sendFrame a frame st
      | UnicastUDPTransport \<Rightarrow> udp_sendFrame E ops f a written frame st
      | UnicastTCPTransport \<Rightarrow> tcp_sendFrame E ops f a written frame st
      | MulticastUDPTransport \<Rightarrow> multicast_udp_sendFrame E a written frame st
      | MulticastEthernetTransport \<Rightarrow> multicast_ethernet_sendFrame a written frame st
      | UnixStreamTransport \<Rightarrow> unix_sendFrame ops f a written frame st
      | WebSocketTransport \<Rightarrow> web_socket_sendFrame ops f a written frame st)"

lemmas sendFrame_defs = sendFrame_def within_mtu_def null_sendFrame_def udp_sendFrame_def tcp_sendFrame_def internal_sendFrame_def
  multicast_udp_sendFrame_def multicast_ethernet_sendFrame_def unix_sendFrame_def web_socket_sendFrame_def

section \<open>Receiving and expiring\<close>

datatype read_event = ReadData bytes | ReadEOF | ReadError

text \<open>
  One round of \<^verbatim>\<open>runReceive\<close> of each transport but the Unix one: the frame that goes up to the link service, if any,
  and whether the loop goes on. A TCP transport hands on what one read returned, whatever part of the stream that is. A
  handle to the pcap library and the internal queue report no errors.
\<close>

type_synonym ('s, 'z) received = "(bytes option \<times> bool \<times> ('s, 'z) forwarder_scheme) result"

definition deliver :: "bytes \<Rightarrow> ('s, 'z) forwarder_scheme \<Rightarrow> ('s, 'z) received" where
  "deliver bs st = (if int (length bs) > MaxNDNPacketSize then Inr (None, True, st) else Inr (Some bs, True, st))"

definition udp_runReceive ::
  "tr_env \<Rightarrow> 's FibStrategy \<Rightarrow> ('s, 'z) send_func \<Rightarrow> addr \<Rightarrow> read_event \<Rightarrow> ('s, 'z) forwarder_scheme \<Rightarrow> ('s, 'z) received" where
  "udp_runReceive E ops f a ev st =
     (case ev of
        ReadEOF \<Rightarrow> Inr (None, False, st)
      | ReadError \<Rightarrow> rbind (onTransportFailure E ops f a st) (\<lambda>st'. Inr (None, False, st'))
      | ReadData bs \<Rightarrow> deliver bs (tb_upd a (refresh E \<circ> count_read (length bs)) st))"

definition tcp_runReceive ::
  "tr_env \<Rightarrow> 's FibStrategy \<Rightarrow> ('s, 'z) send_func \<Rightarrow> addr \<Rightarrow> read_event \<Rightarrow> ('s, 'z) forwarder_scheme \<Rightarrow> ('s, 'z) received" where
  "tcp_runReceive E ops f a ev st =
     (case ev of
        ReadEOF \<Rightarrow> Inr (None, False, changeState ops f a Down st)
      | ReadError \<Rightarrow> rbind (onTransportFailure E ops f a st) (\<lambda>st'. Inr (None, False, changeState ops f a Down st'))
      | ReadData bs \<Rightarrow> deliver bs (tb_upd a (refresh E \<circ> count_read (length bs)) st))"

definition internal_runReceive :: "addr \<Rightarrow> bytes \<Rightarrow> ('s, 'z) forwarder_scheme \<Rightarrow> ('s, 'z) received" where
  "internal_runReceive a bs st =
     (if int (length bs) > MaxNDNPacketSize then Inr (None, True, st) else Inr (Some bs, True, tb_upd a (count_read (length bs)) st))"

definition multicast_udp_runReceive ::
  "'s FibStrategy \<Rightarrow> ('s, 'z) send_func \<Rightarrow> addr \<Rightarrow> read_event \<Rightarrow> ('s, 'z) forwarder_scheme \<Rightarrow> ('s, 'z) received" where
  "multicast_udp_runReceive ops f a ev st =
     (case ev of
        ReadEOF \<Rightarrow> Inr (None, False, changeState ops f a Down st)
      | ReadError \<Rightarrow> Inr (None, True, st)
      | ReadData bs \<Rightarrow>
          let st1 = tb_upd a (count_read (length bs)) st
          in if bs = [] then Inr (None, True, st1)
             else (case DecodeTypeLength bs of
                     Inl e \<Rightarrow> Inr (None, True, st1)
                   | Inr (_, _, n) \<Rightarrow>
                       if int (length bs) \<ge> n then (if n < 0 then Inl IndexOutOfRange else Inr (Some (take (nat n) bs), True, st1))
                       else Inr (None, True, st1)))"

definition multicast_ethernet_runReceive :: "addr \<Rightarrow> bytes \<Rightarrow> ('s, 'z) forwarder_scheme \<Rightarrow> ('s, 'z) received" where
  "multicast_ethernet_runReceive a bs st = deliver bs (tb_upd a (count_read (length bs)) st)"

definition web_socket_runReceive ::
  "'s FibStrategy \<Rightarrow> ('s, 'z) send_func \<Rightarrow> addr \<Rightarrow> bool \<Rightarrow> read_event \<Rightarrow> ('s, 'z) forwarder_scheme \<Rightarrow> ('s, 'z) received" where
  "web_socket_runReceive ops f a binary ev st =
     (case ev of
        ReadData bs \<Rightarrow> if \<not> binary then Inr (None, True, st) else deliver bs (tb_upd a (count_read (length bs)) st)
      | _ \<Rightarrow> Inr (None, False, changeState ops f a Down st))"

definition runReceive ::
  "tr_env \<Rightarrow> 's FibStrategy \<Rightarrow> ('s, 'z) send_func \<Rightarrow> addr \<Rightarrow> bool \<Rightarrow> read_event \<Rightarrow> ('s, 'z) forwarder_scheme \<Rightarrow> ('s, 'z) received" where
  "runReceive E ops f a binary ev st =
     (case tb_kind (tb_at st a) of
        UnicastUDPTransport \<Rightarrow> udp_runReceive E ops f a ev st
      | UnicastTCPTransport \<Rightarrow> tcp_runReceive E ops f a ev st
      | MulticastUDPTransport \<Rightarrow> multicast_udp_runReceive ops f a ev st
      | WebSocketTransport \<Rightarrow> web_socket_runReceive ops f a binary ev st
      | InternalTransport \<Rightarrow> (case ev of ReadData bs \<Rightarrow> internal_runReceive a bs st | _ \<Rightarrow> Inr (None, True, st))
      | MulticastEthernetTransport \<Rightarrow> (case ev of ReadData bs \<Rightarrow> multicast_ethernet_runReceive a bs st | _ \<Rightarrow> Inr (None, True, st))
      | _ \<Rightarrow> Inr (None, False, st))"

lemmas runReceive_defs = runReceive_def udp_runReceive_def tcp_runReceive_def internal_runReceive_def multicast_udp_runReceive_def
  multicast_ethernet_runReceive_def web_socket_runReceive_def deliver_def

text \<open>One round of the expiration handler of a UDP or TCP transport; the second component says whether it goes on.\<close>

definition expirationHandler ::
  "'s FibStrategy \<Rightarrow> ('s, 'z) send_func \<Rightarrow> int \<Rightarrow> addr \<Rightarrow> ('s, 'z) forwarder_scheme \<Rightarrow> ('s, 'z) forwarder_scheme \<times> bool" where
  "expirationHandler ops f now a st =
     (let t = tb_at st a
      in if tb_state t = Down then (st, False)
         else if tb_persistency t = PersistencyOnDemand \<and> (case tb_expirationTime t of Some e \<Rightarrow> e \<le> now | None \<Rightarrow> False)
         then (changeState ops f a Down st, False)
         else (st, True))"

end
