(* ===== verification/Unix_Stream.thy ===== *)
theory Unix_Stream
  imports Transports
begin

text \<open>
  The receive loop of the Unix stream transport (\<^verbatim>\<open>src/face/unix-stream-transport.go\<close>), which cuts the stream
  of bytes into frames: a buffer of the size of the largest packet, of which the first \<open>startPos\<close> bytes wait for the rest of
  their packet. The header of the next packet is decoded from the buffer, not from the part of it that is filled.
\<close>

record unix_reader =
  recvBuf :: bytes
  startPos :: nat

definition BufSize :: nat where "BufSize = 8800"

definition new_reader :: unix_reader where
  "new_reader = \<lparr>recvBuf = replicate BufSize 0, startPos = 0\<rparr>"

text \<open>
  The inner loop from \<open>tlvPos\<close> on: the frames handed up and the reader afterwards. It does not end when a
  header announces a total size of 0, and slicing panics when the end of a packet is before its beginning.
\<close>

partial_function (option) scan :: "bytes \<Rightarrow> nat \<Rightarrow> nat \<Rightarrow> bytes list \<Rightarrow> (bytes list \<times> unix_reader) result option" where
  "scan buf sp tlvPos frames =
     (if tlvPos \<ge> sp then Some (Inr (frames, \<lparr>recvBuf = buf, startPos = 0\<rparr>))
      else (case DecodeTypeLength (drop tlvPos buf) of
              Inl e \<Rightarrow> Some (Inr (frames, \<lparr>recvBuf = buf, startPos = 0\<rparr>))
            | Inr (_, _, tlvSize) \<Rightarrow>
                let end_pos = sint (of_nat tlvPos + of_int tlvSize :: u64)
                in if int sp \<ge> end_pos then
                     (if end_pos < int tlvPos then Some (Inl IndexOutOfRange)
                      else scan buf sp (nat end_pos) (frames @ [take (nat end_pos - tlvPos) (drop tlvPos buf)]))
                   else Some (Inr (frames, \<lparr>recvBuf = take (sp - tlvPos) (drop tlvPos buf) @ drop (sp - tlvPos) buf,
                                           startPos = sp - tlvPos\<rparr>))))"

text \<open>One read from the socket that returns \<open>chunk\<close>, at most the room behind \<open>startPos\<close>.\<close>

definition unix_read :: "bytes \<Rightarrow> unix_reader \<Rightarrow> (bytes list \<times> unix_reader) result option" where
  "unix_read chunk r =
     (let sp = startPos r + length chunk;
          buf = take (startPos r) (recvBuf r) @ chunk @ drop sp (recvBuf r)
      in scan buf sp 0 [])"

text \<open>The whole round of the loop: what was read is counted, and an error takes the face down.\<close>

definition unix_runReceive ::
  "'s FibStrategy \<Rightarrow> ('s, 'z) send_func \<Rightarrow> addr \<Rightarrow> read_event \<Rightarrow> unix_reader \<Rightarrow> ('s, 'z) forwarder_scheme \<Rightarrow>
     (bytes list \<times> bool \<times> unix_reader \<times> ('s, 'z) forwarder_scheme) result option" where
  "unix_runReceive ops f a ev r st =
     (case ev of
        ReadData chunk \<Rightarrow>
          map_option (\<lambda>x. rbind x (\<lambda>(frames, r'). Inr (frames, True, r', tb_upd a (count_read (length chunk)) st))) (unix_read chunk r)
      | _ \<Rightarrow> Some (Inr ([], False, r, changeState ops f a Down st)))"

fun unix_run :: "bytes list \<Rightarrow> unix_reader \<Rightarrow> (bytes list \<times> unix_reader) result option" where
  "unix_run [] r = Some (Inr ([], r))"
| "unix_run (c # cs) r =
     (case unix_read c r of
        None \<Rightarrow> None
      | Some (Inl e) \<Rightarrow> Some (Inl e)
      | Some (Inr (fs, r')) \<Rightarrow>
          (case unix_run cs r' of
             Some (Inr (gs, r'')) \<Rightarrow> Some (Inr (fs @ gs, r''))
           | x \<Rightarrow> x))"

section \<open>The specification\<close>

text \<open>The total size that the header at the front announces, if the header is there and the size is one of a packet that fits.\<close>

definition block_size :: "bytes \<Rightarrow> nat option" where
  "block_size d = (case DecodeTypeLength d of Inl _ \<Rightarrow> None | Inr (_, _, n) \<Rightarrow> if 0 < n \<and> n \<le> int BufSize then Some (nat n) else None)"

text \<open>The complete packets at the front of a stream, and what is left.\<close>

function split_stream :: "bytes \<Rightarrow> bytes list \<times> bytes" where
  "split_stream d =
     (case block_size d of
        None \<Rightarrow> ([], d)
      | Some n \<Rightarrow> if n \<le> length d then (take n d # fst (split_stream (drop n d)), snd (split_stream (drop n d))) else ([], d))"
  by pat_completeness auto
termination
proof (relation "measure length", goal_cases)
  case (2 d n)
  then have "0 < n" by (auto simp: block_size_def split: sum.splits if_splits prod.splits)
  then show ?case using 2 by simp
qed (auto simp: block_size_def split: sum.splits if_splits prod.splits)

declare split_stream.simps [simp del]

text \<open>What is left is nothing, or has its header and is still missing some of its packet.\<close>

definition rest_ok :: "bytes \<Rightarrow> bool" where
  "rest_ok r \<longleftrightarrow> r = [] \<or> block_size r \<noteq> None"

fun reads_ok :: "bytes \<Rightarrow> bytes list \<Rightarrow> bool" where
  "reads_ok r [] = True"
| "reads_ok r (c # cs) =
     (length r + length c \<le> BufSize \<and> rest_ok (snd (split_stream (r @ c))) \<and> reads_ok (snd (split_stream (r @ c))) cs)"

lemma DecodeTypeLength_append: "DecodeTypeLength d = Inr x \<Longrightarrow> DecodeTypeLength (d @ r) = Inr x"
  using DecodeVarNum_append DecodeVarNum_size
  by (fastforce simp: DecodeTypeLength_def split: sum.splits prod.splits if_splits)

lemma block_size_append: "block_size d = Some n \<Longrightarrow> block_size (d @ r) = Some n"
  using DecodeTypeLength_append[of d _ r] by (auto simp: block_size_def split: sum.splits)

lemma block_size_pos: "block_size d = Some n \<Longrightarrow> 0 < n \<and> n \<le> BufSize"
  by (auto simp: block_size_def split: sum.splits if_splits prod.splits)

lemma split_stream_append:
  "split_stream (d @ e) = (fst (split_stream d) @ fst (split_stream (snd (split_stream d) @ e)), snd (split_stream (snd (split_stream d) @ e)))"
proof (induction d rule: split_stream.induct)
  case (1 d)
  show ?case
  proof (cases "block_size d")
    case None
    then show ?thesis by (simp add: split_stream.simps[of d])
  next
    case (Some n)
    show ?thesis
    proof (cases "n \<le> length d")
      case True
      then show ?thesis
        using 1[OF Some True] Some block_size_append[OF Some, of e]
        by (simp add: split_stream.simps[of d] split_stream.simps[of "d @ e"])
    next
      case False
      then show ?thesis using Some by (simp add: split_stream.simps[of d])
    qed
  qed
qed

lemma sint_small: "k < 2 ^ 63 \<Longrightarrow> sint (of_nat k :: u64) = int k"
  by (simp add: signed_of_nat signed_take_bit_int_eq_self_iff)

text \<open>The loop from a position agrees with the specification on what is behind it.\<close>

lemma scan_split:
  assumes "length buf = BufSize" "sp \<le> BufSize" "tlvPos \<le> sp" "rest_ok (snd (split_stream (drop tlvPos (take sp buf))))"
  shows "\<exists>r. scan buf sp tlvPos frames = Some (Inr (frames @ fst (split_stream (drop tlvPos (take sp buf))), r)) \<and>
    length (recvBuf r) = BufSize \<and> take (startPos r) (recvBuf r) = snd (split_stream (drop tlvPos (take sp buf))) \<and>
    startPos r = length (snd (split_stream (drop tlvPos (take sp buf))))"
  using assms
proof (induction "sp - tlvPos" arbitrary: tlvPos frames rule: less_induct)
  case less
  let ?d = "drop tlvPos (take sp buf)"
  show ?case
  proof (cases "tlvPos = sp")
    case True
    have "block_size [] = None" by (simp add: block_size_def DecodeTypeLength_def)
    then have "split_stream [] = ([], [])" by (simp add: split_stream.simps[of "[]"])
    then show ?thesis using True less.prems by (subst scan.simps) simp
  next
    case False
    then have lt: "tlvPos < sp" using less.prems by simp
    have len: "length ?d = sp - tlvPos" using less.prems by simp
    have split: "drop tlvPos buf = ?d @ drop sp buf"
      using lt less.prems by (metis append_take_drop_id drop_append drop_take le_add_diff_inverse2 less_imp_le_nat drop_drop add.commute)
    have "?d \<noteq> []" using lt len by (metis length_greater_0_conv zero_less_diff)
    show ?thesis
    proof (cases "block_size ?d")
      case None
      then have "snd (split_stream ?d) = ?d" by (simp add: split_stream.simps[of ?d])
      then show ?thesis using less.prems(4) None \<open>?d \<noteq> []\<close> by (simp add: rest_ok_def)
    next
      case (Some n)
      note n = block_size_pos[OF Some]
      obtain t l where dec: "DecodeTypeLength (drop tlvPos buf) = Inr (t, l, int n)"
        using Some n block_size_append[OF Some, of "drop sp buf"] split
        by (auto simp: block_size_def split: sum.splits if_splits prod.splits)
      have e: "sint (of_nat tlvPos + of_nat n :: u64) = int tlvPos + int n"
        using n lt less.prems sint_small[of "tlvPos + n"] by (simp add: BufSize_def)
      show ?thesis
      proof (cases "n \<le> length ?d")
        case True
        have d': "drop n ?d = drop (tlvPos + n) (take sp buf)" by (simp add: add.commute)
        have tk: "take n (drop tlvPos buf) = take n ?d" using True split by simp
        have sp: "split_stream ?d = (take n ?d # fst (split_stream (drop n ?d)), snd (split_stream (drop n ?d)))"
          using Some True by (simp add: split_stream.simps[of ?d])
        have "scan buf sp tlvPos frames = scan buf sp (tlvPos + n) (frames @ [take n ?d])"
        proof -
          have c: "int tlvPos + int n \<le> int sp" using True lt unfolding len by linarith
          then have "nat (int tlvPos + int n) = tlvPos + n" by simp
          then show ?thesis using c lt unfolding scan.simps[of buf sp tlvPos] dec by (simp add: e tk Let_def)
        qed
        moreover have "\<exists>r. scan buf sp (tlvPos + n) (frames @ [take n ?d]) =
            Some (Inr ((frames @ [take n ?d]) @ fst (split_stream (drop (tlvPos + n) (take sp buf))), r)) \<and>
            length (recvBuf r) = BufSize \<and> take (startPos r) (recvBuf r) = snd (split_stream (drop (tlvPos + n) (take sp buf))) \<and>
            startPos r = length (snd (split_stream (drop (tlvPos + n) (take sp buf))))"
          using True len lt n less.prems sp d' by (intro less.hyps) auto
        ultimately show ?thesis using sp d' by simp
      next
        case False
        have sp: "split_stream ?d = ([], ?d)" using Some False by (simp add: split_stream.simps[of ?d])
        have "scan buf sp tlvPos frames =
            Some (Inr (frames, \<lparr>recvBuf = take (sp - tlvPos) (drop tlvPos buf) @ drop (sp - tlvPos) buf, startPos = sp - tlvPos\<rparr>))"
        proof -
          have "\<not> int tlvPos + int n \<le> int sp" using False lt unfolding len by linarith
          then show ?thesis using lt unfolding scan.simps[of buf sp tlvPos] dec by (simp add: e Let_def)
        qed
        moreover have "take (sp - tlvPos) (drop tlvPos buf) = ?d" by (rule drop_take[symmetric])
        moreover have "length (?d @ drop (sp - tlvPos) buf) = BufSize"
          using lt less.prems(1,2) by (simp only: length_append len length_drop) simp
        moreover have "take (sp - tlvPos) (?d @ drop (sp - tlvPos) buf) = ?d" by (simp only: take_append len) (simp flip: len)
        ultimately show ?thesis using len by (simp only: sp) simp
      qed
    qed
  qed
qed


section \<open>Properties\<close>

lemma unix_read_split:
  assumes "length (recvBuf r) = BufSize" "startPos r + length c \<le> BufSize" "rest_ok (snd (split_stream (take (startPos r) (recvBuf r) @ c)))"
  shows "\<exists>r'. unix_read c r = Some (Inr (fst (split_stream (take (startPos r) (recvBuf r) @ c)), r')) \<and> length (recvBuf r') = BufSize \<and>
    take (startPos r') (recvBuf r') = snd (split_stream (take (startPos r) (recvBuf r) @ c)) \<and>
    startPos r' = length (snd (split_stream (take (startPos r) (recvBuf r) @ c)))"
proof -
  let ?sp = "startPos r + length c" and ?d = "take (startPos r) (recvBuf r) @ c"
  have "length (take (startPos r) (recvBuf r)) = startPos r" using assms(1,2) by simp
  then have "take ?sp (take (startPos r) (recvBuf r) @ c @ drop ?sp (recvBuf r)) = ?d"
    "length (take (startPos r) (recvBuf r) @ c @ drop ?sp (recvBuf r)) = BufSize" using assms(1,2) by simp_all
  then show ?thesis
    using scan_split[of "take (startPos r) (recvBuf r) @ c @ drop ?sp (recvBuf r)" ?sp 0 "[]"] assms(2,3)
    by (simp add: unix_read_def Let_def)
qed

lemma unix_run_split:
  assumes "length (recvBuf r) = BufSize" "startPos r \<le> BufSize" "reads_ok (take (startPos r) (recvBuf r)) cs"
    "split_stream (take (startPos r) (recvBuf r)) = ([], take (startPos r) (recvBuf r))"
  shows "\<exists>r'. unix_run cs r = Some (Inr (fst (split_stream (take (startPos r) (recvBuf r) @ concat cs)), r')) \<and>
    take (startPos r') (recvBuf r') = snd (split_stream (take (startPos r) (recvBuf r) @ concat cs))"
  using assms
proof (induction cs arbitrary: r)
  case (Cons c cs)
  let ?p = "take (startPos r) (recvBuf r)"
  have len: "length ?p = startPos r" using Cons.prems(1,2) by simp
  have c: "startPos r + length c \<le> BufSize" "rest_ok (snd (split_stream (?p @ c)))" "reads_ok (snd (split_stream (?p @ c))) cs"
    using Cons.prems(3) len by simp_all
  obtain r' where r': "unix_read c r = Some (Inr (fst (split_stream (?p @ c)), r'))" "length (recvBuf r') = BufSize"
    "take (startPos r') (recvBuf r') = snd (split_stream (?p @ c))" "startPos r' = length (snd (split_stream (?p @ c)))"
    using unix_read_split[OF Cons.prems(1) c(1,2)] by blast
  have "length (take (startPos r') (recvBuf r')) = startPos r'" using r'(3,4) by simp
  then have le: "startPos r' \<le> BufSize" using r'(2) by simp
  have idle: "split_stream (snd (split_stream (?p @ c))) = ([], snd (split_stream (?p @ c)))"
    using split_stream_append[of "?p @ c" "[]"] by (intro prod_eqI) (metis append_Nil2 append_self_conv fst_conv, metis append_Nil2 snd_conv)
  obtain r'' where r'': "unix_run cs r' = Some (Inr (fst (split_stream (snd (split_stream (?p @ c)) @ concat cs)), r''))"
    "take (startPos r'') (recvBuf r'') = snd (split_stream (snd (split_stream (?p @ c)) @ concat cs))"
    using Cons.IH[OF r'(2) le] c(3) idle unfolding r'(3) by blast
  have "split_stream (?p @ concat (c # cs)) =
      (fst (split_stream (?p @ c)) @ fst (split_stream (snd (split_stream (?p @ c)) @ concat cs)),
       snd (split_stream (snd (split_stream (?p @ c)) @ concat cs)))"
    using split_stream_append[of "?p @ c" "concat cs"] by simp
  then show ?case using r'(1) r'' by simp
qed simp

lemma split_stream_blocks:
  "\<forall>p\<in>set ps. block_size p = Some (length p) \<Longrightarrow> split_stream (concat ps @ r) = (ps @ fst (split_stream r), snd (split_stream r))"
proof (induction ps)
  case (Cons p ps)
  have "block_size (p @ concat ps @ r) = Some (length p)" using Cons.prems by (intro block_size_append) simp
  then show ?case using Cons by (subst split_stream.simps) simp
qed simp



lemma scan_zero:
  assumes "DecodeTypeLength (drop p buf) = Inr (t, l, 0)" "p < sp" "sp \<le> BufSize"
  shows "scan buf sp p frames = None"
proof (rule ccontr)
  have "sint (of_nat p :: u64) = int p" using assms(2,3) by (intro sint_small) (simp add: BufSize_def)
  moreover assume "scan buf sp p frames \<noteq> None"
  then obtain y where "scan buf sp p frames = Some y" by auto
  then have "\<not> (DecodeTypeLength (drop p buf) = Inr (t, l, 0) \<and> p < sp \<and> sint (of_nat p :: u64) = int p)"
    by (rule scan.raw_induct[rotated]) (auto simp: Let_def split: if_splits)
  ultimately show False using assms by simp
qed

lemma scan_negative:
  assumes "DecodeTypeLength (drop p buf) = Inr (t, l, n)" "p < sp" "sint (of_nat p + of_int n :: u64) < 0"
  shows "scan buf sp p frames = Some (Inl IndexOutOfRange)"
  using assms unfolding scan.simps[of buf sp p] by (simp add: Let_def)

lemma unix_read_new: "unix_read c new_reader = scan (c @ drop (length c) (replicate BufSize 0)) (length c) 0 []"
  by (simp add: unix_read_def new_reader_def Let_def)

lemma unix_read_hostile:
  assumes "DecodeTypeLength c = Inr (t, l, n)" "c \<noteq> []" "length c \<le> BufSize"
  shows "n = 0 \<Longrightarrow> unix_read c new_reader = None"
    "sint (of_int n :: u64) < 0 \<Longrightarrow> unix_read c new_reader = Some (Inl IndexOutOfRange)"
  using scan_zero[of 0 "c @ r" t l "length c" for r] scan_negative[of 0 "c @ r" t l n "length c" for r]
    DecodeTypeLength_append[OF assms(1)] assms(2,3)
  by (simp_all add: unix_read_new)

text \<open>The frames that stop the receive loop: a header whose total size wraps to a negative number panics the forwarder, and one
  whose total size wraps to 0 keeps the loop handing up empty frames for ever; ten bytes from a local application suffice.\<close>

theorem unix_hostile_headers:
  "unix_read [5, 0xFF, 0x80, 0, 0, 0, 0, 0, 0, 0] new_reader = Some (Inl IndexOutOfRange) \<and>
   unix_read [5, 0xFF, 0xFF, 0xFF, 0xFF, 0xFF, 0xFF, 0xFF, 0xFF, 0xF6] new_reader = None"
proof
  have "DecodeTypeLength [5, 0xFF, 0x80, 0, 0, 0, 0, 0, 0, 0] = Inr (5, - 9223372036854775808, - 9223372036854775798)"
    by (simp add: DecodeTypeLength_def Uint64_def)
  from unix_read_hostile(2)[OF this]
  show "unix_read [5, 0xFF, 0x80, 0, 0, 0, 0, 0, 0, 0] new_reader = Some (Inl IndexOutOfRange)"
    by (simp add: BufSize_def)
  have "DecodeTypeLength [5, 0xFF, 0xFF, 0xFF, 0xFF, 0xFF, 0xFF, 0xFF, 0xFF, 0xF6] = Inr (5, - 10, 0)"
    by (simp add: DecodeTypeLength_def Uint64_def)
  from unix_read_hostile(1)[OF this]
  show "unix_read [5, 0xFF, 0xFF, 0xFF, 0xFF, 0xFF, 0xFF, 0xFF, 0xFF, 0xF6] new_reader = None"
    by (simp add: BufSize_def)
qed

end
