(* ===== verification/Net_Spec.thy ===== *)
theory Net_Spec
  imports Uri_Decode
begin

text \<open>
  Parsing an IP address that \<open>ip_String\<close> printed gives the address back, for both families and with the run of zeros that
  the IPv6 form leaves out; and what any parsed or printed address looks like.
\<close>

section \<open>Hexadecimal groups\<close>

lemma hex_val_digit: "d < 16 \<Longrightarrow> is_hex (hex_digit d) \<and> hex_val (hex_digit d) = d"
proof -
  assume d: "d < 16"
  then have "unat (hex_digit d) = (if d < 10 then 48 + d else 87 + d)"
    by (simp add: hex_digit_def unat_of_nat take_bit_nat_eq_self)
  then show ?thesis
    using d by (auto simp: is_hex_def is_digit_def hex_val_def lower_def word_le_nat_alt)
qed

lemma hex_number_snoc: "hex_number (s @ [c]) = 16 * hex_number s + hex_val c"
  by (simp add: hex_number_def)

lemma hex_string_spec:
  "of_class is_hex (hex_string n) \<and> hex_number (hex_string n) = n"
proof (induction n rule: less_induct)
  case (less n)
  show ?case
  proof (cases "n < 16")
    case True
    then show ?thesis
      by (subst hex_string.simps, subst (2) hex_string.simps) (simp add: of_class_def hex_val_digit hex_number_def)
  next
    case False
    have IH: "of_class is_hex (hex_string (n div 16))" "hex_number (hex_string (n div 16)) = n div 16"
      using less[of "n div 16"] False by auto
    have "hex_string n = hex_string (n div 16) @ [hex_digit (n mod 16)]"
      using False by (subst hex_string.simps) simp
    then show ?thesis
      using IH hex_val_digit[of "n mod 16"] by (simp add: of_class_def hex_number_snoc)
  qed
qed

lemma hex_string_step: "16 \<le> n \<Longrightarrow> hex_string n = hex_string (n div 16) @ [hex_digit (n mod 16)]"
  by (subst hex_string.simps) simp

lemma hex_string_digit: "n < 16 \<Longrightarrow> hex_string n = [hex_digit n]"
  by (subst hex_string.simps) simp

lemma hex_string_length: "n < 16 ^ k \<Longrightarrow> 0 < k \<Longrightarrow> length (hex_string n) \<le> k"
proof (induction k arbitrary: n)
  case (Suc k)
  show ?case
  proof (cases "n < 16")
    case False
    then have "0 < k" using Suc.prems by (cases k) auto
    moreover have "n div 16 < 16 ^ k" using Suc.prems by (simp add: less_mult_imp_div_less mult.commute)
    ultimately show ?thesis using Suc.IH[of "n div 16"] False by (simp add: hex_string_step)
  qed (simp add: hex_string_digit)
qed simp

abbreviation colon :: u8 where "colon \<equiv> 58"

lemma not_hex_marks: "\<not> is_hex 58" "\<not> is_hex 46" "\<not> is_hex 37"
  by (simp_all add: is_hex_def is_digit_def)

definition group_bytes :: "nat \<Rightarrow> bytes" where
  "group_bytes g = [of_nat (g div 256), of_nat g]"

lemma takeWhile_class: "of_class P s \<Longrightarrow> r = [] \<or> \<not> P (hd r) \<Longrightarrow> takeWhile P (s @ r) = s \<and> dropWhile P (s @ r) = r"
  by (cases r) (auto simp: of_class_def list_all_iff takeWhile_append dropWhile_append)

lemma group_step:
  assumes "g < 65536" "r = [] \<or> hd r = colon"
  shows "takeWhile is_hex (hex_string g @ r) = hex_string g \<and> dropWhile is_hex (hex_string g @ r) = r \<and>
    hex_string g \<noteq> [] \<and> \<not> length (hex_string g) > 4 \<and> hex_number (hex_string g) = g"
proof -
  have "of_class is_hex (hex_string g)" "hex_number (hex_string g) = g" using hex_string_spec by auto
  moreover have "length (hex_string g) \<le> 4" using hex_string_length[of g 4] assms(1) by simp
  ultimately show ?thesis
    using takeWhile_class[of is_hex "hex_string g" r] assms(2) not_hex_marks by (auto simp: of_class_def)
qed

lemma join_Cons: "join_groups (g # gs) = hex_string g @ (if gs = [] then [] else colon # join_groups gs)"
  by (cases gs) (simp_all add: join_groups_def)

lemma hex_string_hd: "g < 65536 \<Longrightarrow> hex_string g \<noteq> [] \<and> is_hex (hd (hex_string g))"
  using hex_string_spec[of g] by (cases "hex_string g") (auto simp: of_class_def)

lemma join_hd: "gs \<noteq> [] \<Longrightarrow> join_groups gs \<noteq> [] \<and> is_hex (hd (join_groups gs))"
  using hex_string_spec[of "hd gs"] by (cases gs) (auto simp: join_Cons of_class_def hd_append list_all_iff)

lemma parse_join:
  assumes "gs \<noteq> []" "length gs \<le> n" "\<forall>g\<in>set gs. g < 65536"
  shows "parse_groups n (join_groups gs) i e = Some (i @ concat (map group_bytes gs), e, [])"
  using assms
proof (induction gs arbitrary: n i)
  case (Cons g gs)
  then obtain m where n: "n = Suc m" by (cases n) auto
  show ?case
  proof (cases "gs = []")
    case True
    then show ?thesis using group_step[of g "[]"] Cons.prems n
      by (simp add: join_Cons Let_def group_bytes_def del: takeWhile_eq_all_conv dropWhile_eq_Nil_conv)
  next
    case False
    have j: "join_groups gs \<noteq> []" "hd (join_groups gs) \<noteq> colon" using join_hd[OF False] not_hex_marks by auto
    have "parse_groups m (join_groups gs) (i @ group_bytes g) e = Some ((i @ group_bytes g) @ concat (map group_bytes gs), e, [])"
      using Cons False n by (intro Cons.IH) auto
    then show ?thesis
      using group_step[of g "colon # join_groups gs"] Cons.prems n False j
      by (simp add: join_Cons Let_def group_bytes_def[of g])
  qed
qed simp

lemma parse_join_dbl:
  assumes "gs \<noteq> []" "length gs + length hs \<le> n" "\<forall>g\<in>set gs \<union> set hs. g < 65536"
  shows "parse_groups n (join_groups gs @ [colon, colon] @ join_groups hs) i None =
    Some (i @ concat (map group_bytes (gs @ hs)), Some (length i + 2 * length gs), [])"
  using assms
proof (induction gs arbitrary: n i)
  case (Cons g gs)
  then obtain m where n: "n = Suc m" by (cases n) auto
  show ?case
  proof (cases "gs = []")
    case True
    have st: "join_groups (g # gs) @ [colon, colon] @ join_groups hs = hex_string g @ colon # colon # join_groups hs"
      using True by (simp add: join_Cons)
    have step: "hs \<noteq> [] \<Longrightarrow> parse_groups m (join_groups hs) (i @ group_bytes g) (Some (length i + 2)) =
        Some ((i @ group_bytes g) @ concat (map group_bytes hs), Some (length i + 2), [])"
      using Cons.prems n by (intro parse_join) auto
    have hs: "join_groups hs = [] \<longleftrightarrow> hs = []" using join_hd[of hs] by (cases hs) (auto simp: join_groups_def)
    show ?thesis unfolding st
      using group_step[of g "colon # colon # join_groups hs"] Cons.prems n True step hs
      by (cases "hs = []") (simp_all add: Let_def group_bytes_def[of g])
  next
    case False
    have j: "join_groups gs \<noteq> []" "hd (join_groups gs) \<noteq> colon" using join_hd[OF False] not_hex_marks by auto
    have "parse_groups m (join_groups gs @ [colon, colon] @ join_groups hs) (i @ group_bytes g) None =
        Some ((i @ group_bytes g) @ concat (map group_bytes (gs @ hs)), Some (length (i @ group_bytes g) + 2 * length gs), [])"
      using Cons False n by (intro Cons.IH) auto
    then show ?thesis
      using group_step[of g "colon # join_groups gs @ [colon, colon] @ join_groups hs"] Cons.prems n False j
      by (simp add: join_Cons Let_def group_bytes_def[of g])
  qed
qed simp


lemma hex_colon_chars: "\<forall>g\<in>set gs. g < 65536 \<Longrightarrow> c \<in> set (join_groups gs) \<Longrightarrow> is_hex c \<or> c = colon"
proof (induction gs)
  case (Cons g gs)
  then show ?case using hex_string_spec[of g] by (auto simp: join_Cons of_class_def list_all_iff split: if_splits)
qed (simp add: join_groups_def)

section \<open>The groups of an address\<close>

lemma group_bytes_pair: "group_bytes (unat (a :: u8) * 256 + unat (b :: u8)) = [a, b]"
proof -
  have "unat b < 256" using unsigned_less[of b, where ?'a = nat] by simp
  moreover have "a * (256 :: u8) = 0"
  proof -
    have z: "(256 :: u8) = 0" by simp
    show ?thesis by (simp only: z mult_zero_right)
  qed
  then have "(of_nat (unat a * 256 + unat b) :: u8) = b" by simp
  ultimately show ?thesis by (simp add: group_bytes_def)
qed

lemma groups_inverse: "even (length bs) \<Longrightarrow> concat (map group_bytes (groups bs)) = bs"
  by (induction bs rule: groups.induct) (simp_all add: group_bytes_pair)

lemma groups_length: "length (groups bs) = length bs div 2"
  by (induction bs rule: groups.induct) simp_all

lemma groups_range: "g \<in> set (groups bs) \<Longrightarrow> g < 65536"
proof (induction bs rule: groups.induct)
  case (1 a b bs)
  have "unat a < 256" "unat b < 256" using unsigned_less[of a, where ?'a = nat] unsigned_less[of b, where ?'a = nat] by simp_all
  then show ?case using 1 by auto
qed simp_all

lemma longest_run_spec:
  assumes "longest_run gs = Some (s, l)"
  shows "2 \<le> l \<and> s + l \<le> length gs \<and> take l (drop s gs) = replicate l 0"
proof -
  define ok where "ok = (\<lambda>b. case b of None \<Rightarrow> True | Some (s, l) \<Rightarrow> 2 \<le> l \<and> s < length gs \<and> l = zero_run gs s)"
  define f where "f = (\<lambda>i best. let l = zero_run gs i in
      if 2 \<le> l \<and> (case best of None \<Rightarrow> True | Some (_, l') \<Rightarrow> l' < l) then Some (i, l) else best)"
  have "ok (fold f [0..<length gs] None)"
  proof (rule fold_invariant[where Q = "\<lambda>i. i < length gs" and P = ok])
    show "ok (f i b)" if "i < length gs" "ok b" for i b
      using that by (cases b) (simp_all add: ok_def f_def Let_def split: prod.splits)
  qed (simp_all add: ok_def)
  moreover have "longest_run gs = fold f [0..<length gs] None" unfolding longest_run_def f_def ..
  ultimately have "ok (longest_run gs)" by (simp only:)
  then have *: "2 \<le> l" "s < length gs" "l = zero_run gs s" using assms by (simp_all add: ok_def)
  define r where "r = takeWhile (\<lambda>g. g = 0) (drop s gs)"
  have l: "l = length r" using *(3) by (simp add: zero_run_def r_def)
  have "take l (drop s gs) = r" unfolding l r_def by (rule takeWhile_eq_take[symmetric])
  moreover have "r = replicate l 0"
    unfolding l by (intro replicate_eqI) (auto simp: r_def dest: set_takeWhileD)
  moreover have "l \<le> length (drop s gs)" unfolding l r_def by (rule length_takeWhile_le)
  ultimately show ?thesis using *(1,2) by simp
qed


lemma zero_bytes: "concat (replicate l (group_bytes 0)) = replicate (2 * l) 0"
  by (induction l) (simp_all add: group_bytes_def)

lemma length_group_bytes: "length (concat (map group_bytes gs)) = 2 * length gs"
  by (induction gs) (simp_all add: group_bytes_def)

lemma filled_groups:
  assumes "length i = 16" "groups i = gs @ replicate l 0 @ hs"
  shows "i = concat (map group_bytes gs) @ replicate (16 - 2 * (length gs + length hs)) 0 @ concat (map group_bytes hs)"
proof -
  have "length gs + l + length hs = 8" using groups_length[of i] assms by simp
  then have l: "16 - 2 * (length gs + length hs) = 2 * l" by simp
  show ?thesis using groups_inverse[of i] assms unfolding l by (simp add: zero_bytes)
qed

lemma parse_v6_String:
  assumes "length i = 16"
  shows "parseIPv6 (v6_String i) = Some i"
proof -
  define gs where "gs = groups i"
  have gs: "length gs = 8" "\<forall>g\<in>set gs. g < 65536" "concat (map group_bytes gs) = i"
    using assms groups_length[of i] groups_range[of _ i] groups_inverse[of i] by (auto simp: gs_def)
  have hex: "\<not> is_hex 58" by (simp add: not_hex_marks)
  show ?thesis
  proof (cases "longest_run gs")
    case None
    have ne: "gs \<noteq> []" using gs by auto
    then obtain c r where c: "join_groups gs = c # r" "is_hex c" using join_hd[OF ne] by (cases "join_groups gs") auto
    then have "c \<noteq> 58" using hex by auto
    moreover have "parse_groups 8 (c # r) [] None = Some (i, None, [])"
      using parse_join[of gs 8 "[]" None] gs ne c by simp
    ultimately show ?thesis
      using None assms by (simp add: v6_String_def parseIPv6_def c gs_def[symmetric] Let_def)
  next
    case (Some sl)
    then obtain s l where sl: "longest_run gs = Some (s, l)" by (cases sl) auto
    define hs where "hs = drop (s + l) gs"
    note run = longest_run_spec[OF sl]
    have split: "gs = take s gs @ replicate l 0 @ hs"
      using run append_take_drop_id[of s gs] append_take_drop_id[of l "drop s gs"] by (simp add: hs_def add.commute)
    have len: "length (take s gs) = s" "length hs = 8 - (s + l)" "s + l \<le> 8" using run gs by (simp_all add: hs_def)
    have range: "\<forall>g\<in>set (take s gs) \<union> set hs. g < 65536" using gs(2) by (auto simp: hs_def dest: in_set_takeD in_set_dropD)
    have i: "i = concat (map group_bytes (take s gs)) @ replicate (16 - 2 * (s + length hs)) 0 @ concat (map group_bytes hs)"
      using filled_groups[OF assms, of "take s gs" l hs] split len by (simp add: gs_def)
    have str: "v6_String i = join_groups (take s gs) @ [colon, colon] @ join_groups hs"
      by (simp add: v6_String_def gs_def[symmetric] sl hs_def Let_def)
    have small: "2 * (s + length hs) < 16" using len run by simp
    show ?thesis
    proof (cases "s = 0")
      case True
      show ?thesis
      proof (cases "hs = []")
        case True
        then show ?thesis using \<open>s = 0\<close> str i by (simp add: parseIPv6_def join_groups_def)
      next
        case False
        have "parse_groups 8 (join_groups hs) [] (Some 0) = Some (concat (map group_bytes hs), Some 0, [])"
          using parse_join[of hs 8 "[]" "Some 0"] False len range by simp
        moreover have "join_groups hs \<noteq> []" using join_hd[OF False] by simp
        moreover have "join_groups [] = []" by (simp add: join_groups_def)
        ultimately show ?thesis
          using \<open>s = 0\<close> str i small length_group_bytes[of hs] by (simp add: parseIPv6_def Let_def)
      qed
    next
      case False
      then have ne: "take s gs \<noteq> []" using gs by auto
      then obtain c r where c: "join_groups (take s gs) = c # r" "is_hex c"
        using join_hd[OF ne] by (cases "join_groups (take s gs)") auto
      then have "c \<noteq> 58" using hex by auto
      moreover have "parse_groups 8 (c # r @ [colon, colon] @ join_groups hs) [] None =
          Some (concat (map group_bytes (take s gs)) @ concat (map group_bytes hs), Some (2 * s), [])"
        using parse_join_dbl[of "take s gs" hs 8 "[]"] ne len range run c by simp
      moreover have "length (concat (map group_bytes (take s gs))) = 2 * s" using len by (simp add: length_group_bytes)
      ultimately show ?thesis
        using str i small c length_group_bytes[of hs] by (simp add: parseIPv6_def Let_def)
    qed
  qed
qed

section \<open>IPv4 addresses\<close>

lemma FormatUint_hd: "0 < n \<Longrightarrow> hd (FormatUint n) \<noteq> 48"
proof (induction n rule: less_induct)
  case (less n)
  show ?case
  proof (cases "n < 10")
    case True
    then have "unat (digit n) = 48 + n" by (rule unat_digit)
    then have "digit n \<noteq> 48" using less.prems by auto
    then show ?thesis using True by (subst FormatUint.simps) simp
  next
    case False
    then have "hd (FormatUint (n div 10)) \<noteq> 48" using less by auto
    then show ?thesis using False by (subst FormatUint.simps) simp
  qed
qed

lemma parse_octet_FormatUint: "parse_octet (FormatUint (unat (b :: u8))) = Some b"
proof -
  have "unat b < 256" using unsigned_less[of b, where ?'a = nat] by simp
  moreover have "list_all is_digit (FormatUint n)" for n
    using FormatUint_digits by (auto simp: list_all_iff is_digit_def)
  moreover have "length (FormatUint n) > 1 \<Longrightarrow> hd (FormatUint n) \<noteq> 48" for n
    using FormatUint_hd[of n] by (cases "n = 0") (auto simp: FormatUint.simps[of 0])
  ultimately show ?thesis by (simp add: parse_octet_def parse_FormatUint)
qed

lemma FormatUint_no_mark: "c \<notin> {48..57} \<Longrightarrow> c \<notin> set (FormatUint n)"
  using FormatUint_digits[of c n] by auto

lemma parse_v4_String:
  assumes "length q = 4"
  shows "parseIPv4 (v4_String q) = Some q"
proof -
  obtain a b c d where q: "q = [a, b, c, d]" using assms by (auto simp: length_Suc_conv eval_nat_numeral)
  have dot: "46 \<notin> set (FormatUint n)" for n by (rule FormatUint_no_mark) (simp add: word_le_nat_alt)
  have "Split 46 (v4_String q) = [FormatUint (unat a), FormatUint (unat b), FormatUint (unat c), FormatUint (unat d)]"
    using dot by (simp add: q v4_String_def Split_sep)
  then show ?thesis by (simp add: parseIPv4_def parse_octet_FormatUint q)
qed


section \<open>Parsing what was printed\<close>

text \<open>The characters of a printed address.\<close>

lemma v6_String_chars:
  assumes "length i = 16"
  shows "(\<forall>c\<in>set (v6_String i). is_hex c \<or> c = 58) \<and> 58 \<in> set (v6_String i)"
proof -
  define gs where "gs = groups i"
  have gs: "\<forall>g\<in>set gs. g < 65536" "length gs = 8"
    using assms groups_length[of i] groups_range[of _ i] by (auto simp: gs_def)
  have sub: "c \<in> set (join_groups hs) \<Longrightarrow> set hs \<subseteq> set gs \<Longrightarrow> is_hex c \<or> c = 58" for c hs
    using hex_colon_chars[of hs c] gs(1) by auto
  show ?thesis
  proof (cases "longest_run gs")
    case None
    obtain g h hs where "gs = g # h # hs" using gs(2) by (auto simp: length_Suc_conv eval_nat_numeral)
    then have "58 \<in> set (join_groups gs)" by (simp add: join_Cons)
    then show ?thesis using None sub[of _ gs] by (auto simp: v6_String_def gs_def[symmetric] Let_def)
  next
    case (Some sl)
    then obtain a l where al: "longest_run gs = Some (a, l)" by (cases sl) auto
    have "v6_String i = join_groups (take a gs) @ [58, 58] @ join_groups (drop (a + l) gs)"
      using al by (simp add: v6_String_def gs_def[symmetric] Let_def)
    then show ?thesis
      using sub[OF _ set_take_subset[of a gs]] sub[OF _ set_drop_subset[of "a + l" gs]] by auto
  qed
qed

lemma find_mark:
  assumes "c \<in> set s" "P c" "\<forall>x\<in>set s. P x \<longrightarrow> x = c"
  shows "find P s = Some c"
proof (cases "find P s")
  case None
  then show ?thesis using assms(1,2) unfolding find_None_iff by blast
next
  case (Some y)
  then have "y \<in> set s \<and> P y" unfolding find_Some_iff by auto
  then show ?thesis using Some assms(3) by blast
qed

lemma v4_String_chars:
  assumes "length q = 4" "c \<in> set (v4_String q)"
  shows "is_digit c \<or> c = 46"
proof -
  obtain a b c' d where q: "q = [a, b, c', d]" using assms(1) by (auto simp: length_Suc_conv eval_nat_numeral)
  show ?thesis using assms(2) FormatUint_digits by (auto simp: q v4_String_def is_digit_def)
qed

lemma To4_SomeD:
  assumes "To4 i = Some q" "length i = 16"
  shows "i = v4_prefix @ q \<and> length q = 4"
proof -
  have "take 12 i = v4_prefix" "q = drop 12 i" using assms(1) by (simp_all add: To4_def split: if_splits)
  then show ?thesis using append_take_drop_id[of 12 i] assms(2) by simp
qed

lemma dot_in_v4: "length q = 4 \<Longrightarrow> 46 \<in> set (v4_String q)"
  by (auto simp: length_Suc_conv eval_nat_numeral v4_String_def)

lemma ParseIP_String:
  assumes "length i = 16"
  shows "ParseIP (ip_String i) = Some i"
proof (cases "To4 i")
  case (Some q)
  then have q: "i = v4_prefix @ q" "length q = 4" using To4_SomeD assms by auto
  have "find (\<lambda>c. c = ch CHR ''.'' \<or> c = ch CHR '':'' \<or> c = ch CHR ''%'') (v4_String q) = Some 46"
    using v4_String_chars[OF q(2), of 58] v4_String_chars[OF q(2), of 37] dot_in_v4[OF q(2)]
    by (intro find_mark) (auto simp: is_digit_def)
  then show ?thesis using Some q by (simp add: ParseIP_def ip_String_def parse_v4_String)
next
  case None
  note chars = v6_String_chars[OF assms]
  have "find (\<lambda>c. c = ch CHR ''.'' \<or> c = ch CHR '':'' \<or> c = ch CHR ''%'') (v6_String i) = Some 58"
    using chars not_hex_marks by (intro find_mark) auto
  moreover have "37 \<notin> set (v6_String i)" using chars not_hex_marks by auto
  ultimately show ?thesis using None assms by (simp add: ParseIP_def ip_String_def parse_v6_String)
qed

lemma parseIPv4_length: "parseIPv4 s = Some q \<Longrightarrow> length q = 4"
  by (auto simp: parseIPv4_def split: list.splits option.splits)

lemma parse_groups_length:
  "parse_groups n s i e = Some (j, e', r) \<Longrightarrow> length i + 2 * n \<le> 16 \<Longrightarrow> length j \<le> 16"
  by (induction n s i e rule: parse_groups.induct)
    (auto simp: Let_def parseIPv4_length split: if_splits option.splits)

lemma parse_groups_ellipsis:
  "parse_groups n s i e = Some (j, Some k, r) \<Longrightarrow> (case e of None \<Rightarrow> True | Some k' \<Rightarrow> k' \<le> length i) \<Longrightarrow> k \<le> length j"
  by (induction n s i e rule: parse_groups.induct)
    (auto simp: Let_def split: if_splits option.splits)

text \<open>Every parsed address has sixteen bytes.\<close>

lemma ParseIP_length: "ParseIP s = Some i \<Longrightarrow> length i = 16"
proof -
  have v6: "length i = 16" if "parseIPv6 s = Some i" for s i
    using that parse_groups_length[where n = 8 and i = "[]"] parse_groups_ellipsis[where n = 8 and i = "[]"]
    by (fastforce simp: parseIPv6_def Let_def split: if_splits option.splits)
  assume "ParseIP s = Some i"
  then show ?thesis
    using parseIPv4_length v6 by (auto simp: ParseIP_def v4_prefix_def split: option.splits if_splits)
qed

end
