(* ===== verification/Uri_Spec.thy ===== *)
theory Uri_Spec
  imports Net_Spec
begin

text \<open>
  What a canonical face URI is and that printing and parsing it are inverse. An IP URI is in normal form when its
  host is the printed form of an address; that is what \<open>Canonize\<close> establishes.
\<close>

lemma Trim_id: "s = [] \<or> hd s \<notin> cs \<and> last s \<notin> cs \<Longrightarrow> Trim cs s = s"
proof -
  assume *: "s = [] \<or> hd s \<notin> cs \<and> last s \<notin> cs"
  have "dropWhile (\<lambda>c. c \<in> cs) s = s" "dropWhile (\<lambda>c. c \<in> cs) (rev s) = rev s"
    using * by (auto simp: dropWhile_eq_self_iff hd_rev)
  then show ?thesis by (simp add: Trim_def)
qed

lemma Trim_outside: "set s \<inter> cs = {} \<Longrightarrow> Trim cs s = s"
  using last_in_set[of s] hd_in_set[of s] by (intro Trim_id) blast

lemma ip_String_chars:
  assumes "length i = 16" "c \<in> set (ip_String i)"
  shows "is_hex c \<or> c = 58 \<or> c = 46"
  using assms v6_String_chars[of i] To4_SomeD[of i] v4_String_chars[of _ c]
  by (fastforce simp: ip_String_def is_hex_def split: option.splits)

lemma ip_String_not_Nil: "length i = 16 \<Longrightarrow> ip_String i \<noteq> []"
  using v6_String_chars[of i] To4_SomeD[of i] dot_in_v4
  by (fastforce simp: ip_String_def split: option.splits)

lemma host_ip_String: "length i = 16 \<Longrightarrow> host_ip H (ip_String i) = Some i"
proof -
  assume i: "length i = 16"
  have "set (ip_String i) \<inter> brackets = {}"
    using ip_String_chars[OF i, of 91] ip_String_chars[OF i, of 93] by (auto simp: is_hex_def is_digit_def)
  then show ?thesis using Trim_outside[of "ip_String i"] ParseIP_String[OF i] by (simp add: host_ip_def)
qed

text \<open>The forms of a zone: missing, or a percent sign and a name without one.\<close>

definition zone_form :: "gostring \<Rightarrow> bool" where
  "zone_form z \<longleftrightarrow> z = [] \<or> (\<exists>r. z = 37 # r \<and> 37 \<notin> set r)"

lemma path_parts:
  assumes "path u = h @ z" "37 \<notin> set h" "zone_form z"
  shows "PathHost u = h" "37 \<in> set (path u) \<longleftrightarrow> z \<noteq> []" "z \<noteq> [] \<Longrightarrow> 37 # PathZone u = z"
  using assms by (auto simp: PathHost_def PathZone_def zone_form_def Split_sep)

lemma Split_parts: "\<forall>p\<in>set (Split sep s). sep \<notin> set p"
proof (induction s)
  case (Cons c s)
  obtain q qs where "Split sep s = q # qs" using Split_not_Nil[of sep s] by (cases "Split sep s") auto
  then show ?case using Cons by simp
qed simp

lemma PathZone_form: "37 \<notin> set (PathZone u)"
proof (cases "Split 37 (path u)")
  case (Cons q qs)
  then show ?thesis using Split_parts[of 37 "path u"] by (cases qs) (simp_all add: PathZone_def)
qed simp

definition ip_scheme :: "URIType \<Rightarrow> ip \<Rightarrow> gostring" where
  "ip_scheme t i = lit ((if t = udpURI then ''udp'' else ''tcp'') @ (if To4 i \<noteq> None then ''4'' else ''6''))"

text \<open>An IP URI in normal form.\<close>

definition ip_normal :: "URI \<Rightarrow> ip \<Rightarrow> gostring \<Rightarrow> bool" where
  "ip_normal u i z \<longleftrightarrow>
     uriType u \<in> {udpURI, tcpURI} \<and> length i = 16 \<and> zone_form z \<and> path u = ip_String i @ z \<and> scheme u = ip_scheme (uriType u) i"

lemma Canonize_ip:
  assumes "uriType u \<in> {udpURI, tcpURI}" "Canonize H u = (u', True)"
  shows "\<exists>i z. ip_normal u' i z \<and> uriType u' = uriType u \<and> port u' = port u"
proof -
  define zoned where "zoned = (37 \<in> set (path u))"
  define z where "z = (if zoned then 37 # PathZone u else [])"
  obtain i where i: "host_ip H (if zoned then PathHost u else path u) = Some i"
    "u' = u\<lparr>scheme := ip_scheme (uriType u) i, path := ip_String i @ z\<rparr>"
    using assms by (auto simp: Canonize_def Let_def zoned_def z_def ip_scheme_def split: option.splits)
  have "length i = 16" using i(1) ParseIP_length by (auto simp: host_ip_def split: option.splits list.splits)
  moreover have "zone_form z" using PathZone_form[of u] by (simp add: z_def zone_form_def)
  ultimately show ?thesis using i(2) assms(1) by (auto simp: ip_normal_def)
qed

lemma ip_no_percent: "length i = 16 \<Longrightarrow> 37 \<notin> set (ip_String i)"
  using ip_String_chars[of i 37] by (auto simp: is_hex_def is_digit_def)

lemma ip_normal_parts:
  assumes "ip_normal u i z"
  shows "PathHost u = ip_String i" "37 \<in> set (path u) \<longleftrightarrow> z \<noteq> []" "z \<noteq> [] \<Longrightarrow> 37 # PathZone u = z"
  using assms path_parts[of u "ip_String i" z] ip_no_percent[of i] by (auto simp: ip_normal_def)

lemma Canonize_normal:
  assumes "ip_normal u i z"
  shows "Canonize H u = (u, True)"
proof -
  note p = ip_normal_parts[OF assms]
  have h: "host_ip H (ip_String i) = Some i" using assms host_ip_String by (simp add: ip_normal_def)
  have pz: "path u = ip_String i @ z" using assms by (simp add: ip_normal_def)
  have t: "uriType u = udpURI \<or> uriType u = tcpURI" and s: "scheme u = ip_scheme (uriType u) i"
    using assms by (auto simp: ip_normal_def)
  show ?thesis
    using t s p pz h by (cases u; cases "z = []") (auto simp: Canonize_def Let_def ip_scheme_def)
qed

lemma v6_not_ipv4Pattern:
  assumes "length i = 16" "To4 i = None"
  shows "\<not> ipv4Pattern (ip_String i)"
proof
  assume p: "ipv4Pattern (ip_String i)"
  have "46 \<notin> set (ip_String i)" using assms v6_String_chars[of i] by (auto simp: ip_String_def is_hex_def is_digit_def)
  then show False using p by (simp add: ipv4Pattern_def)
qed

lemma IsCanonical_normal:
  assumes "ip_normal u i z" "port u > 0"
  shows "IsCanonical u"
proof -
  have i: "length i = 16" using assms by (simp add: ip_normal_def)
  have "\<not> ipv4Pattern (ip_String i)" if "To4 i = None" using v6_not_ipv4Pattern i that by blast
  then show ?thesis
    using assms ip_normal_parts(1)[OF assms(1)] ParseIP_String[OF i]
    by (auto simp: IsCanonical_def ip_canonical_def ip_normal_def ip_scheme_def split: if_splits)
qed


section \<open>Hardware addresses\<close>

lemma hex_byte_parts:
  "\<exists>x y. hex_byte b = [x, y] \<and> is_hex x \<and> is_hex y \<and> of_nat (16 * hex_val x + hex_val y) = b"
proof -
  have "unat b < 256" using unsigned_less[of b, where ?'a = nat] by simp
  then have r: "unat b div 16 < 16" "unat b mod 16 < 16" by auto
  have "of_nat (16 * (unat b div 16) + unat b mod 16) = b" unfolding mult_div_mod_eq by simp
  then show ?thesis using hex_val_digit[OF r(1)] hex_val_digit[OF r(2)] by (simp add: hex_byte_def del: of_nat_add of_nat_mult)
qed

lemma mac_Cons: "mac_String (b # bs) = hex_byte b @ (if bs = [] then [] else 58 # mac_String bs)"
  by (cases bs) (simp_all add: mac_String_def)

lemma pairs_mac: "bs \<noteq> [] \<Longrightarrow> pairs_of 58 (mac_String bs) = Some bs"
proof (induction bs)
  case (Cons b bs)
  obtain x y where "hex_byte b = [x, y]" "is_hex x" "is_hex y" "of_nat (16 * hex_val x + hex_val y) = b"
    using hex_byte_parts[of b] by auto
  moreover have "bs \<noteq> [] \<Longrightarrow> \<exists>c s. mac_String bs = c # s"
    by (cases bs) (auto simp: mac_Cons hex_byte_def)
  ultimately show ?case using Cons.IH by (cases "bs = []") (auto simp: mac_Cons)
qed simp

lemma mac_pairs_String: "bs \<noteq> [] \<Longrightarrow> mac_pairs (length bs) (mac_String bs) = Some []"
proof (induction bs)
  case (Cons b bs)
  obtain x y where "hex_byte b = [x, y]" "is_hex x" "is_hex y" using hex_byte_parts[of b] by auto
  then show ?case using Cons.IH by (cases "bs = []") (auto simp: mac_Cons)
qed simp

lemma length_mac: "bs \<noteq> [] \<Longrightarrow> length (mac_String bs) = 3 * length bs - 1"
  by (induction bs) (auto simp: mac_Cons hex_byte_def)

lemma mac_chars: "c \<in> set (mac_String bs) \<Longrightarrow> is_hex c \<or> c = 58"
proof (induction bs)
  case (Cons b bs)
  obtain x y where "hex_byte b = [x, y]" "is_hex x" "is_hex y" using hex_byte_parts[of b] by auto
  then show ?case using Cons by (auto simp: mac_Cons split: if_splits)
qed (simp add: mac_String_def)

lemma ParseMAC_String:
  assumes "length bs \<in> {6, 8, 20}"
  shows "ParseMAC (Trim brackets (mac_String bs)) = Some bs"
proof -
  obtain b c r where bs: "bs = b # c # r" using assms by (cases bs; cases "tl bs") auto
  obtain x y where "hex_byte b = [x, y]" using hex_byte_parts[of b] by auto
  then have "mac_String bs ! 2 = 58" by (simp add: bs mac_Cons)
  moreover have "bs \<noteq> []" "14 \<le> length (mac_String bs)" using assms length_mac[of bs] bs by auto
  moreover have "set (mac_String bs) \<inter> brackets = {}"
    using mac_chars[of 91 bs] mac_chars[of 93 bs] by (auto simp: is_hex_def is_digit_def)
  ultimately show ?thesis using assms pairs_mac[of bs] by (simp add: ParseMAC_def Trim_outside)
qed

lemma ParseMAC_length: "ParseMAC s = Some bs \<Longrightarrow> length bs \<in> {6, 8, 20}"
  by (auto simp: ParseMAC_def Let_def split: option.splits if_splits)

section \<open>Printing and parsing\<close>

lemma split_last_app: "58 \<notin> set p \<Longrightarrow> split_last 58 (h @ 58 # p) = Some (h, p)"
proof -
  assume p: "58 \<notin> set p"
  have "takeWhile (\<lambda>x. x \<noteq> 58) (rev p @ 58 # rev h) = rev p" "dropWhile (\<lambda>x. x \<noteq> 58) (rev p @ 58 # rev h) = 58 # rev h"
    using p by (auto simp: takeWhile_append dropWhile_append)
  then show ?thesis by (simp add: split_last_def)
qed

lemma host_zone_normal:
  assumes "length i = 16" "z = [] \<or> (\<exists>r. z = 37 # r \<and> of_class is_dev_char r)"
  shows "host_zone (ip_String i @ z) = Some (ip_String i, tl z)"
proof -
  have "of_class is_host_char (ip_String i)"
    unfolding of_class_def list_all_iff
  proof (intro conjI ballI)
    show "ip_String i \<noteq> []" by (rule ip_String_not_Nil[OF assms(1)])
    show "is_host_char c" if "c \<in> set (ip_String i)" for c
      using ip_String_chars[OF assms(1) that] order_trans[of c 70 90] order_trans[of c 102 122]
      by (auto simp: is_host_char_def is_alnum_def is_hex_def)
  qed
  moreover have "z = [] \<or> \<not> is_host_char (hd z)" using assms(2) by (auto simp: is_host_char_def is_alnum_def is_digit_def)
  ultimately have "takeWhile is_host_char (ip_String i @ z) = ip_String i" "dropWhile is_host_char (ip_String i @ z) = z"
    using takeWhile_class by blast+
  then show ?thesis using assms ip_String_not_Nil[OF assms(1)] by (auto simp: host_zone_def)
qed

lemma strip_brackets_simps:
  assumes "s \<noteq> []" "hd s \<noteq> 91" "last s \<noteq> 93"
  shows "strip_brackets s = s" "strip_brackets (91 # s @ [93]) = s"
  using assms by (simp_all add: strip_brackets_def)

lemma digits_class: "of_class is_digit (FormatUint n)"
  using FormatUint_digits by (auto simp: of_class_def list_all_iff is_digit_def)

lemma split_last_join:
  "split_last 58 (JoinHostPort h (FormatUint n)) = Some (if 58 \<in> set h then 91 # h @ [93] else h, FormatUint n)"
proof -
  have "58 \<notin> set (FormatUint n)" by (rule FormatUint_no_mark) (simp add: word_le_nat_alt)
  then show ?thesis using split_last_app[of "FormatUint n" h] split_last_app[of "FormatUint n" "91 # h @ [93]"] by (simp add: JoinHostPort_def)
qed


text \<open>The characters that the patterns accept, in the part of a URI that they restrict.\<close>

definition uri_chars :: "URI \<Rightarrow> bool" where
  "uri_chars u =
     (case uriType u of
        devURI \<Rightarrow> of_class is_dev_char (path u)
      | fdURI \<Rightarrow> of_class is_digit (path u)
      | unixURI \<Rightarrow> of_class is_path_char (path u)
      | udpURI \<Rightarrow> 37 \<notin> set (path u) \<or> of_class is_dev_char (PathZone u)
      | tcpURI \<Rightarrow> 37 \<notin> set (path u) \<or> of_class is_dev_char (PathZone u)
      | _ \<Rightarrow> True)"

lemma scheme_dispatch [simp]: "EqualFold s t = (map lower s = map lower t)" by (simp add: EqualFold_def)

lemma dev_char_brackets: "\<not> is_dev_char 91" "\<not> is_dev_char 93"
  by (simp_all add: is_dev_char_def is_alnum_def is_digit_def)

lemma decode_host_normal:
  assumes u: "ip_normal u i z" "port u > 0" "uri_chars u"
    and base: "base = (if uriType u = udpURI then ''udp'' else ''tcp'')"
    and v: "uriType v = uriType u"
  shows "decode_host H base v (uri_String u) = fst (Canonize H (v\<lparr>path := path u, port := port u\<rparr>))"
proof -
  note p = ip_normal_parts[OF u(1)]
  have i: "length i = 16" and path: "path u = ip_String i @ z" using u(1) by (auto simp: ip_normal_def)
  have t: "uriType u = udpURI \<or> uriType u = tcpURI" using u(1) by (auto simp: ip_normal_def)
  have z: "z = [] \<or> (\<exists>r. z = 37 # r \<and> of_class is_dev_char r)"
    using u(3) t p by (cases "z = []") (auto simp: uri_chars_def)
  have hz: "host_zone (path u) = Some (ip_String i, tl z)" using host_zone_normal[OF i z] path by simp
  have ends: "path u \<noteq> []" "hd (path u) \<noteq> 91" "last (path u) \<noteq> 93"
  proof -
    have c: "c \<noteq> 91 \<and> c \<noteq> 93" if "c \<in> set (path u)" for c
      using that z ip_String_chars[OF i, of c] dev_char_brackets
      by (auto simp: path of_class_def list_all_iff is_hex_def is_digit_def)
    show "path u \<noteq> []" using ip_String_not_Nil[OF i] path by simp
    then show "hd (path u) \<noteq> 91" "last (path u) \<noteq> 93" using c[of "hd (path u)"] c[of "last (path u)"] by auto
  qed
  have rest: "scheme_rest (lit base) (uri_String u) = Some (JoinHostPort (path u) (FormatUint (unat (port u))))"
    using t u(1) base by (auto simp: uri_String_def scheme_rest_def strip_prefix_def ip_normal_def ip_scheme_def)
  have br: "strip_brackets (if 58 \<in> set (path u) then 91 # path u @ [93] else path u) = path u"
    using strip_brackets_simps[OF ends] by simp
  have hp: "hostPattern (lit base) (uri_String u) = Some (ip_String i, tl z, FormatUint (unat (port u)))"
    using rest br hz by (simp add: hostPattern_def split_last_join digits_class)
  have "unat (port u) < 2 ^ 16" using unsigned_less[of "port u", where ?'a = nat] by simp
  moreover have "unat (port u) \<noteq> 0" using u(2) by (simp add: unat_eq_zero)
  moreover have "ip_String i @ (if tl z \<noteq> [] then 37 # tl z else []) = path u"
    using z path by (auto simp: of_class_def)
  ultimately show ?thesis using hp by (cases "tl z = []") (simp_all add: decode_host_def ParseUint_FormatUint)
qed


lemma strip_prefix_app [simp]: "strip_prefix p (p @ r) = Some r"
  by (simp add: strip_prefix_def)

lemma match_class_app: "of_class P r \<Longrightarrow> match_class p P (lit p @ r) = Some r"
  by (simp add: match_class_def)

lemma URI_eqI: "uriType u = uriType v \<Longrightarrow> scheme u = scheme v \<Longrightarrow> path u = path v \<Longrightarrow> port u = port v \<Longrightarrow> u = (v :: URI)"
  by (cases u; cases v) simp

lemma ethernet_match: "macPattern p \<Longrightarrow> ethernetPattern (lit ''ether://['' @ p @ [93]) = Some p"
  by (simp add: ethernetPattern_def macPattern_def del: lit_simps)

lemma ip_normalI:
  assumes "IsCanonical u" "Canonize H u = (u, True)" "uriType u \<in> {udpURI, tcpURI}"
  shows "(\<exists>i z. ip_normal u i z) \<and> port u > 0"
  using Canonize_ip[OF assms(3,2)] assms(1,3) by (auto simp: IsCanonical_def ip_canonical_def split: option.splits)

text \<open>Which branch the parser takes, by the part of the string before the first colon.\<close>

abbreviation fresh_uri :: "URIType \<Rightarrow> string \<Rightarrow> URI" where
  "fresh_uri t s \<equiv> \<lparr>uriType = t, scheme = lit s, path = [], port = 0\<rparr>"

lemma decode_dispatch:
  assumes "58 \<in> set s" "takeWhile (\<lambda>c. c \<noteq> 58) s = lit p"
  shows
    "p = ''udp4'' \<or> p = ''udp6'' \<Longrightarrow> DecodeURIString H s = Some (decode_host H ''udp'' (fresh_uri udpURI ''udp'') s)"
    "p = ''tcp4'' \<or> p = ''tcp6'' \<Longrightarrow> DecodeURIString H s = Some (decode_host H ''tcp'' (fresh_uri tcpURI ''tcp'') s)"
    "p = ''dev'' \<Longrightarrow> DecodeURIString H s = Some (with_match H (fresh_uri devURI ''dev'') (match_class ''dev://'' is_dev_char s))"
    "p = ''ether'' \<Longrightarrow> DecodeURIString H s = Some (with_match H (fresh_uri ethernetURI ''ether'') (ethernetPattern s))"
    "p = ''fd'' \<Longrightarrow> DecodeURIString H s = Some (with_match H (fresh_uri fdURI ''fd'') (match_class ''fd://'' is_digit s))"
    "p = ''unix'' \<Longrightarrow> DecodeURIString H s = Some (with_match H (fresh_uri unixURI ''unix'') (match_class ''unix://'' is_path_char s))"
    "p = ''internal'' \<Longrightarrow> DecodeURIString H s = Some (fresh_uri internalURI ''internal'')"
    "p = ''null'' \<Longrightarrow> DecodeURIString H s = Some (fresh_uri nullURI ''null'')"
  using assms by (((elim disjE)?; simp add: DecodeURIString_def Let_def lower_def Canonize_def)+)

lemma canonized_IP_decode:
  assumes u: "ip_normal u i z" "port u > 0" "uri_chars u"
  shows "DecodeURIString H (uri_String u) = Some u"
proof -
  let ?n = "\<lparr>uriType = unknownURI, scheme = lit ''unknown'', path = [], port = 0\<rparr>"
  have t: "uriType u = udpURI \<or> uriType u = tcpURI" and sch: "scheme u = ip_scheme (uriType u) i"
    using u(1) by (auto simp: ip_normal_def)
  let ?b = "if uriType u = udpURI then ''udp'' else ''tcp''"
  have str: "uri_String u = scheme u @ 58 # 47 # 47 # JoinHostPort (path u) (FormatUint (unat (port u)))"
    using t by (auto simp: uri_String_def)
  let ?v = "?n\<lparr>uriType := uriType u, scheme := lit ?b\<rparr>"
  have d: "decode_host H ?b ?v (uri_String u) = fst (Canonize H (?v\<lparr>path := path u, port := port u\<rparr>))"
    by (rule decode_host_normal[OF u]) auto
  have c: "Canonize H (?v\<lparr>path := path u, port := port u\<rparr>) = (u, True)"
  proof -
    note p = ip_normal_parts[OF u(1)]
    have h: "host_ip H (ip_String i) = Some i" "path u = ip_String i @ z" using u host_ip_String by (auto simp: ip_normal_def)
    let ?w = "?v\<lparr>path := path u, port := port u\<rparr>"
    have "PathHost ?w = PathHost u" "PathZone ?w = PathZone u" by (simp_all add: PathHost_def PathZone_def)
    then show ?thesis
      using t sch p h by (cases "z = []") (auto simp: Canonize_def Let_def ip_scheme_def intro!: URI_eqI)
  qed
  have s0: "58 \<in> set (uri_String u)" "takeWhile (\<lambda>c. c \<noteq> 58) (uri_String u) = scheme u"
    using t by (auto simp: str sch ip_scheme_def)
  show ?thesis
    using t
  proof
    assume udp: "uriType u = udpURI"
    show ?thesis
      using decode_dispatch(1)[OF s0(1), of "if To4 i \<noteq> None then ''udp4'' else ''udp6''" H] s0(2) d c
      by (simp add: udp sch ip_scheme_def)
  next
    assume tcp: "uriType u = tcpURI"
    show ?thesis
      using decode_dispatch(2)[OF s0(1), of "if To4 i \<noteq> None then ''tcp4'' else ''tcp6''" H] s0(2) d c
      by (simp add: tcp sch ip_scheme_def)
  qed
qed


lemma IsCanonical_fields:
  assumes "IsCanonical u"
  shows "uriType u = devURI \<Longrightarrow> u = \<lparr>uriType = devURI, scheme = lit ''dev'', path = path u, port = 0\<rparr>"
    "uriType u = fdURI \<Longrightarrow> u = \<lparr>uriType = fdURI, scheme = lit ''fd'', path = path u, port = 0\<rparr>"
    "uriType u = unixURI \<Longrightarrow> u = \<lparr>uriType = unixURI, scheme = lit ''unix'', path = path u, port = 0\<rparr>"
    "uriType u = ethernetURI \<Longrightarrow> u = \<lparr>uriType = ethernetURI, scheme = lit ''ether'', path = path u, port = 0\<rparr> \<and> macPattern (path u)"
    "uriType u = internalURI \<Longrightarrow> u = fresh_uri internalURI ''internal''"
    "uriType u = nullURI \<Longrightarrow> u = fresh_uri nullURI ''null''"
    "uriType u \<notin> {unknownURI, wsURI, wsclientURI}"
  using assms by (auto simp: IsCanonical_def intro: URI_eqI)

lemma with_match_fix: "Canonize H (v\<lparr>path := p\<rparr>) = (u, b) \<Longrightarrow> with_match H v (Some p) = u"
  by (simp add: with_match_def)


text \<open>Canonizing is idempotent, and what it accepts is canonical: an IP URI with a port becomes canonical, whatever host
  name, bracketed or uncompressed address it had; so do Unix and device URIs with a path and Ethernet URIs of six
  bytes.\<close>

theorem Canonize_canonical:
  assumes "Canonize H u = (u', True)"
  shows "Canonize H u' = (u', True) \<and>
    (uriType u \<in> {udpURI, tcpURI} \<and> port u > 0 \<longrightarrow> IsCanonical u') \<and>
    (uriType u = unixURI \<and> path u \<noteq> [] \<longrightarrow> IsCanonical u') \<and>
    (uriType u = ethernetURI \<and> length (path u') = 17 \<longrightarrow> IsCanonical u')"
proof (cases "uriType u")
  case ethernetURI
  then obtain mac where mac: "ParseMAC (Trim brackets (path u)) = Some mac" "u' = u\<lparr>scheme := lit ''ether'', path := mac_String mac, port := 0\<rparr>"
    using assms by (auto simp: Canonize_def split: option.splits)
  have n: "length mac \<in> {6, 8, 20}" by (rule ParseMAC_length[OF mac(1)])
  then have "mac \<noteq> []" by auto
  then have "length (mac_String mac) = 17 \<Longrightarrow> length mac = 6" using n length_mac[of mac] by auto
  then show ?thesis
    using mac ethernetURI ParseMAC_String[OF n] mac_pairs_String[OF \<open>mac \<noteq> []\<close>] by (auto simp: Canonize_def IsCanonical_def macPattern_def)
next
  case unixURI
  then show ?thesis using assms by (auto simp: Canonize_def IsCanonical_def Let_def split: stat_result.splits)
next
  case udpURI
  then show ?thesis using Canonize_ip[OF _ assms] Canonize_normal IsCanonical_normal by fastforce
next
  case tcpURI
  then show ?thesis using Canonize_ip[OF _ assms] Canonize_normal IsCanonical_normal by fastforce
qed (use assms in \<open>auto simp: Canonize_def\<close>)

lemma Split_covers: "c \<in> set s \<Longrightarrow> c = sep \<or> (\<exists>p\<in>set (Split sep s). c \<in> set p)"
proof (induction s)
  case (Cons a s)
  obtain q qs where "Split sep s = q # qs" using Split_not_Nil[of sep s] by (cases "Split sep s") auto
  then show ?case using Cons by auto
qed simp

lemma parseIPv4_chars: "parseIPv4 s = Some q \<Longrightarrow> c \<in> set s \<Longrightarrow> is_digit c \<or> c = 46"
proof -
  assume p: "parseIPv4 s = Some q" "c \<in> set s"
  have "list_all is_digit x" if "x \<in> set (Split 46 s)" for x
    using p(1) that by (auto simp: parseIPv4_def parse_octet_def split: list.splits option.splits if_splits)
  then show ?thesis using Split_covers[OF p(2), of 46] by (auto simp: list_all_iff)
qed

text \<open>The scope of a URI: a canonical UDP URI is local exactly for a loopback address without a zone, but every
  canonical TCP URI is local, whatever its address.\<close>

theorem uri_Scope_spec:
  assumes "ip_normal u i z" "port u > 0"
  shows "uri_Scope u = (if uriType u = udpURI \<and> (z \<noteq> [] \<or> \<not> IsLoopback i) then ScopeNonLocal else ScopeLocal)"
proof -
  have c: "IsCanonical u" by (rule IsCanonical_normal[OF assms])
  have p: "path u = ip_String i @ z" "length i = 16" "uriType u \<in> {udpURI, tcpURI}" using assms by (auto simp: ip_normal_def)
  have "ParseIP (path u) = (if z = [] then Some i else None)"
  proof (cases "z = []")
    case False
    then have "37 \<in> set (path u)" using ip_normal_parts(2)[OF assms(1)] by simp
    then show ?thesis using False parseIPv4_chars[of "path u" _ 37] by (fastforce simp: ParseIP_def is_digit_def split: option.splits)
  qed (use p ParseIP_String in simp)
  then show ?thesis using c p by (auto simp: uri_Scope_def)
qed


text \<open>A host without a resolver and an IPv6 URI with a zone, written in a long form.\<close>

definition toy_host :: host_api where
  "toy_host = \<lparr>LookupHost = (\<lambda>s. None), Stat = (\<lambda>s. NotExist), ResolveTCPAddr = (\<lambda>s. None), url_Parse = (\<lambda>s. None)\<rparr>"

definition toy_ip :: ip where "toy_ip = [0, 1, 0, 0, 0, 0, 0, 0, 0, 0, 0, 0, 0, 0, 0, 2]"

definition toy_udp :: URI where
  "toy_udp = \<lparr>uriType = udpURI, scheme = lit ''udp6'', path = lit ''1::2%eth0'', port = 6363\<rparr>"

lemma toy_udp_normal: "ip_normal toy_udp toy_ip (lit ''%eth0'')"
proof -
  have "groups toy_ip = [1, 0, 0, 0, 0, 0, 0, 2]" by (simp add: toy_ip_def)
  moreover have "longest_run [1, 0, 0, 0, 0, 0, 0, 2] = Some (1, 6)" by code_simp
  moreover have "To4 toy_ip = None" by (simp add: toy_ip_def To4_def v4_prefix_def numeral_eq_Suc)
  ultimately have "ip_String toy_ip = lit ''1::2''" "To4 toy_ip = None"
    by (simp_all add: ip_String_def v6_String_def join_groups_def hex_string_digit hex_digit_def)
  then show ?thesis by (simp add: ip_normal_def toy_udp_def toy_ip_def zone_form_def ip_scheme_def)
qed

lemma toy_udp_chars: "uri_chars toy_udp"
  by (simp add: uri_chars_def toy_udp_def PathZone_def of_class_def is_dev_char_def is_alnum_def is_digit_def)


theorem Canonize_canonical_witness:
  "\<exists>u'. Canonize toy_host (toy_udp\<lparr>scheme := lit ''udp''\<rparr>) = (u', True) \<and> IsCanonical u' \<and> Canonize toy_host u' = (u', True)"
proof -
  have n: "Canonize toy_host toy_udp = (toy_udp, True)" by (rule Canonize_normal[OF toy_udp_normal])
  then have "Canonize toy_host (toy_udp\<lparr>scheme := lit ''udp''\<rparr>) = (toy_udp, True)"
    by (auto simp: Canonize_def toy_udp_def PathHost_def PathZone_def Let_def split: option.splits)
  from Canonize_canonical[OF this] this show ?thesis by (auto simp: toy_udp_def)
qed

theorem uri_Scope_spec_witness:
  "uri_Scope toy_udp = ScopeNonLocal \<and> uri_Scope (toy_udp\<lparr>uriType := tcpURI, scheme := lit ''tcp6''\<rparr>) = ScopeLocal"
proof -
  have "ip_normal (toy_udp\<lparr>uriType := tcpURI, scheme := lit ''tcp6''\<rparr>) toy_ip (lit ''%eth0'')"
    using toy_udp_normal by (simp add: ip_normal_def ip_scheme_def toy_udp_def split: if_splits)
  from uri_Scope_spec[OF this] uri_Scope_spec[OF toy_udp_normal] show ?thesis by (simp add: toy_udp_def)
qed

end
