(* ===== verification/Face_Life.thy ===== *)
theory Face_Life
  imports Unix_Stream Uri_Spec
begin

text \<open>
  The life of faces: which scope a transport gets, and the states that the listeners, the transports' events and the removal
  of faces lead to. Every face in the table is up, and the table keeps its invariant.
\<close>

definition faces_up :: "('s, 'z) forwarder_scheme \<Rightarrow> bool" where
  "faces_up st \<longleftrightarrow> (\<forall>(i, a)\<in>set (Faces st). tb_state (tb_at st a) = Up)"

definition life_ok :: "('s, 'z) forwarder_scheme \<Rightarrow> bool" where
  "life_ok st \<longleftrightarrow> ft_inv st \<and> faces_up st"

text \<open>The steps: a new object gets an unused address, and there are fewer faces than identifiers. The last three create the faces of
  the start-up.\<close>

definition can_add :: "addr \<Rightarrow> ('s, 'z) forwarder_scheme \<Rightarrow> bool" where
  "can_add a st \<longleftrightarrow> Links st a = None \<and> length (Faces st) < 2 ^ 64"

inductive net_step :: "tr_env \<Rightarrow> 's FibStrategy \<Rightarrow> ('s, 'z) send_func \<Rightarrow> ('s, 'z) forwarder_scheme \<Rightarrow> ('s, 'z) forwarder_scheme \<Rightarrow> bool"
  for E ops f where
  udp: "can_add a st \<Longrightarrow> UDPListener_accept E f a l remote st = Inr st' \<Longrightarrow> net_step E ops f st st'"
| tcp: "can_add a st \<Longrightarrow> TCPListener_accept E f a l remote st = Inr st' \<Longrightarrow> net_step E ops f st st'"
| unix: "can_add a st \<Longrightarrow> UnixStreamListener_accept E f a l fd st = Inr (fd', st') \<Longrightarrow> net_step E ops f st st'"
| web_socket: "can_add a st \<Longrightarrow> WebSocketListener_handler f a l remote' st = Inr st' \<Longrightarrow> net_step E ops f st st'"
| internal: "can_add a st \<Longrightarrow> RegisterInternalTransport f a st = Inr st' \<Longrightarrow> net_step E ops f st st'"
| sending: "sendFrame E ops f a written frame st = Inr st' \<Longrightarrow> net_step E ops f st st'"
| receiving: "runReceive E ops f a binary ev st = Inr (out, again, st') \<Longrightarrow> net_step E ops f st st'"
| unix_receiving: "unix_runReceive ops f a ev r st = Some (Inr (out', again, r', st')) \<Longrightarrow> net_step E ops f st st'"
| expiring: "expirationHandler ops f now a st = (st', again) \<Longrightarrow> net_step E ops f st st'"
| destroying: "net_step E ops f st (Table_Remove ops f i st)"
| null: "can_add a st \<Longrightarrow> add_face f a (new_link MakeNullTransport None) st = Inr st' \<Longrightarrow> net_step E ops f st st'"
| multicast_udp: "can_add a st \<Longrightarrow> MakeMulticastUDPTransport E u = Inr (Some t) \<Longrightarrow>
    add_face f a (new_link t (Some MakeNDNLPLinkServiceOptions)) st = Inr st' \<Longrightarrow> net_step E ops f st st'"
| multicast_ethernet: "can_add a st \<Longrightarrow> MakeMulticastEthernetTransport activated r u = Some t \<Longrightarrow>
    add_face f a (new_link t (Some MakeNDNLPLinkServiceOptions)) st = Inr st' \<Longrightarrow> net_step E ops f st st'"

inductive net_reach :: "tr_env \<Rightarrow> 's FibStrategy \<Rightarrow> ('s, 'z) send_func \<Rightarrow> ('s, 'z) forwarder_scheme \<Rightarrow> bool" for E ops f where
  start: "Faces st = [] \<Longrightarrow> Dispatch st = Map.empty \<Longrightarrow> net_reach E ops f st"
| step: "net_reach E ops f st \<Longrightarrow> net_step E ops f st st' \<Longrightarrow> net_reach E ops f st'"

lemma set_update_subset: "set (AList.update k v xs) \<subseteq> insert (k, v) (set xs)"
  by (induction xs) auto

lemma add_face_life:
  assumes "life_ok st" "keeps_tables f" "can_add a st" "add_face f a l st = Inr st'" "tb_state (ls_transport l) = Up"
  shows "life_ok st'"
proof -
  let ?s = "st\<lparr>Links := (Links st)(a \<mapsto> l)\<rparr>"
  have s: "ft_inv ?s" "a \<notin> snd ` set (Faces ?s)"
    using assms(1,3) ft_inv_new_link[of st a l] by (auto simp: life_ok_def can_add_def)
  obtain k where k: "next_free (Faces ?s) (nextFaceID ?s) = Some (nextFaceID ?s + of_nat k, nextFaceID ?s + of_nat k + 1)"
    "map_of (Faces ?s) (nextFaceID ?s + of_nat k) = None"
    using next_free_returns[of "Faces ?s" "nextFaceID ?s"] assms(3) by (auto simp: can_add_def)
  have la: "Links ?s a = Some l" by simp
  have st': "Table_Add f a ?s = Some st'" using assms(4) by (simp add: add_face_def split: option.splits)
  from Table_Add_eq[OF assms(2) k(1) la] st' have eq: "Faces st' = AList.update (nextFaceID ?s + of_nat k) a (Faces ?s)"
    "Links st' = (Links ?s)(a \<mapsto> ls_SetFaceID (nextFaceID ?s + of_nat k) l)" by (metis option.inject)+
  have "set (Faces st') \<subseteq> insert (nextFaceID ?s + of_nat k, a) (set (Faces st))"
    unfolding eq(1) using set_update_subset[of "nextFaceID ?s + of_nat k" a "Faces ?s"] by simp
  then have "faces_up st'"
    using assms(1,5) s(2) by (auto simp: life_ok_def faces_up_def link_at_def eq(2) ls_SetFaceID_def)
  then show ?thesis using Table_Add_keeps(1)[OF s(1) assms(2) k la s(2) st'] by (simp add: life_ok_def)
qed

lemma tb_upd_life:
  assumes "life_ok st" "\<And>t. tb_faceID (g t) = tb_faceID t \<and> tb_state (g t) = tb_state t"
  shows "life_ok (tb_upd a g st)"
proof -
  have "ft_inv (tb_upd a g st)" unfolding tb_upd_def using assms by (intro upd_link_keeps) (auto simp: life_ok_def)
  moreover have "faces_up (tb_upd a g st)"
    using assms by (fastforce simp: life_ok_def faces_up_def tb_upd_def link_at_def ft_inv_def)
  ultimately show ?thesis by (simp add: life_ok_def)
qed

lemma Table_Remove_life:
  assumes "life_ok st" "keeps_tables f"
  shows "life_ok (Table_Remove ops f i st)"
  using assms Table_Remove_keeps(1) Table_Remove_eq[OF assms(2), of ops i st] set_delete_subset[of i "Faces st"]
  by (fastforce simp: life_ok_def faces_up_def link_at_def)

lemma changeState_life:
  assumes "life_ok st" "keeps_tables f"
  shows "life_ok (changeState ops f a new st)"
proof -
  define st1 where "st1 = upd_link a (\<lambda>l. l\<lparr>ls_transport := (ls_transport l)\<lparr>tb_state := new\<rparr>\<rparr>) st"
  have inv: "ft_inv st1" using assms(1) by (auto simp: st1_def life_ok_def intro!: upd_link_keeps)
  let ?i = "tb_faceID (tb_at st a)"
  have others: "tb_state (tb_at st1 b) = Up" if "(i, b) \<in> set (Faces st)" "b \<noteq> a" for i b
    using that assms(1) by (auto simp: st1_def life_ok_def faces_up_def link_at_def)
  have mine: "i = ?i" if "(i, a) \<in> set (Faces st)" for i
    using ft_invD[of st i a] that assms(1) by (auto simp: life_ok_def link_at_def)
  have F: "Faces st1 = Faces st" by (simp add: st1_def)
  have "faces_up (Table_Remove ops f ?i st1)"
    using others mine Table_Remove_eq(1,2)[OF assms(2), of ops ?i st1]
    by (auto simp: faces_up_def link_at_def F AList.delete_eq)
  then have "life_ok (Table_Remove ops f ?i st1)" using Table_Remove_keeps(1)[OF inv assms(2)] by (simp add: life_ok_def)
  moreover have "life_ok st1" if "new = Up"
  proof -
    have "tb_state (tb_at st1 a) = Up" if "(i, a) \<in> set (Faces st)" for i
      using ft_invD[of st i a] that assms(1) \<open>new = Up\<close> by (auto simp: life_ok_def st1_def link_at_def)
    then show ?thesis using inv others by (fastforce simp: life_ok_def faces_up_def F)
  qed
  ultimately show ?thesis using assms(1) by (simp add: changeState_def Let_def flip: st1_def)
qed

lemma failure_life: "life_ok st \<Longrightarrow> keeps_tables f \<Longrightarrow> onTransportFailure E ops f a st = Inr st' \<Longrightarrow> life_ok st'"
  by (auto simp: onTransportFailure_def changeState_life split: if_splits)

lemma count_simps [simp]:
  "tb_faceID (count_sent fr t) = tb_faceID t" "tb_state (count_sent fr t) = tb_state t"
  "tb_faceID (count_read n t) = tb_faceID t" "tb_state (count_read n t) = tb_state t"
  "tb_faceID (refresh E t) = tb_faceID t" "tb_state (refresh E t) = tb_state t"
  by (simp_all add: count_sent_def count_read_def refresh_def)

lemma sendFrame_life:
  assumes "life_ok st" "keeps_tables f" "sendFrame E ops f a written frame st = Inr st'"
  shows "life_ok st'"
  using assms by (auto simp: sendFrame_defs tb_upd_life changeState_life failure_life split: if_splits transport_kind.splits)

lemma runReceive_life:
  assumes "life_ok st" "keeps_tables f" "runReceive E ops f a binary ev st = Inr (out, again, st')"
  shows "life_ok st'"
  using assms
  by (cases ev; cases "tb_kind (tb_at st a)")
    (auto simp: runReceive_defs Let_def rbind_Inr tb_upd_life changeState_life failure_life split: if_splits sum.splits)

lemma unix_runReceive_life:
  assumes "life_ok st" "keeps_tables f" "unix_runReceive ops f a ev r st = Some (Inr (out, again, r', st'))"
  shows "life_ok st'"
  using assms by (cases ev) (auto simp: unix_runReceive_def rbind_Inr tb_upd_life changeState_life)

lemma made_up [simp]: "tb_state (set_up t) = Up" "ls_transport (new_link t op) = t"
  by (simp_all add: set_up_def new_link_def)


lemma tcp_up [simp]: "tb_state (tcp_transport E u l p) = Up"
  by (simp add: tcp_transport_def)

lemma MakeUnicastUDPTransport_Some:
  "MakeUnicastUDPTransport E r l p = Some t \<Longrightarrow>
     IsCanonical r \<and> (scheme r = lit ''udp4'' \<or> scheme r = lit ''udp6'') \<and> tb_remoteURI t = r \<and> tb_state t = Up \<and> tb_persistency t = p \<and>
     tb_scope t = ip_scope (ParseIP (path r)) \<and> tb_mtu t = MaxNDNPacketSize"
  by (auto simp: MakeUnicastUDPTransport_def makeTransportBase_def set_up_def Let_def split: if_splits option.splits)

lemma MakeUnicastTCPTransport_Some:
  "MakeUnicastTCPTransport E r l p = Some t \<Longrightarrow>
     IsCanonical r \<and> (scheme r = lit ''tcp4'' \<or> scheme r = lit ''tcp6'') \<and> tb_remoteURI t = r \<and> tb_state t = Up \<and> tb_persistency t = p \<and>
     tb_scope t = ip_scope (ParseIP (path r)) \<and> tb_mtu t = MaxNDNPacketSize"
  by (auto simp: MakeUnicastTCPTransport_def tcp_transport_def makeTransportBase_def set_up_def Let_def split: if_splits option.splits)

lemma multicast_up:
  "MakeMulticastUDPTransport E u = Inr (Some t) \<Longrightarrow> tb_state t = Up \<and> tb_kind t = MulticastUDPTransport"
  "MakeMulticastEthernetTransport activated r u = Some t \<Longrightarrow> tb_state t = Up \<and> tb_kind t = MulticastEthernetTransport"
  "tb_state MakeNullTransport = Up" "tb_kind MakeNullTransport = NullTransport"
  by (auto simp: MakeMulticastUDPTransport_def MakeMulticastEthernetTransport_def MakeNullTransport_def Let_def rbind_Inr
      makeTransportBase_def set_up_def split: if_splits option.splits)

lemma net_step_life:
  assumes "net_step E ops f st st'" "life_ok st" "keeps_tables f"
  shows "life_ok st'"
  using assms(1)
proof cases
  case (udp a l remote)
  then show ?thesis
    using assms(2,3) MakeUnicastUDPTransport_Some
    by (fastforce simp: UDPListener_accept_def Let_def intro: add_face_life split: if_splits option.splits)
next
  case (tcp a l remote)
  then show ?thesis
    using assms(2,3)
    by (fastforce simp: TCPListener_accept_def AcceptUnicastTCPTransport_def Let_def rbind_Inr intro: add_face_life split: if_splits)
next
  case (unix a l fd fd')
  then show ?thesis
    using assms(2,3)
    by (fastforce simp: UnixStreamListener_accept_def MakeUnixStreamTransport_def Let_def rbind_Inr intro: add_face_life split: if_splits option.splits)
next
  case (web_socket a l remote)
  then show ?thesis
    using assms(2,3) by (auto simp: WebSocketListener_handler_def NewWebSocketTransport_def Let_def intro: add_face_life)
next
  case (internal a)
  then show ?thesis using assms(2,3) by (auto simp: RegisterInternalTransport_def MakeInternalTransport_def intro: add_face_life)
next
  case (expiring now a again)
  then show ?thesis using assms(2,3) by (auto simp: expirationHandler_def Let_def changeState_life split: if_splits)
next
  case (null a)
  then show ?thesis using assms(2,3) by (auto simp: multicast_up intro: add_face_life)
next
  case (multicast_udp a u t)
  then show ?thesis using assms(2,3) multicast_up(1) by (auto intro: add_face_life)
next
  case (multicast_ethernet a activated r u t)
  then show ?thesis using assms(2,3) multicast_up(2) by (auto intro: add_face_life)
qed (use assms(2,3) in \<open>auto intro: sendFrame_life runReceive_life unix_runReceive_life Table_Remove_life\<close>)

section \<open>Properties\<close>

text \<open>In every state that incoming connections, frames in both directions, failing sockets, expiring and destroyed faces lead
  to, the face table is intact and all its faces are up: a face whose transport goes down is taken out of the table in the
  same step.\<close>

theorem registered_faces_up:
  assumes "net_reach E ops f st" "keeps_tables f"
  shows "ft_inv st \<and> (\<forall>(i, a)\<in>set (Faces st). tb_state (tb_at st a) = Up)"
  using assms(1)
proof induction
  case (start st)
  then show ?case by (simp add: ft_inv_def)
next
  case (step st st')
  then show ?case using net_step_life[OF step.hyps(2) _ assms(2)] by (simp add: life_ok_def faces_up_def)
qed

text \<open>The scope of a new face: a UDP face is local exactly when its remote URI says so; a TCP face is local exactly for a loopback
  address, although its URI always claims to be local.\<close>

theorem new_face_scope:
  "MakeUnicastUDPTransport E r l p = Some t \<and> uriType r = udpURI \<or> MakeUnicastTCPTransport E r l p = Some t \<and> uriType r = tcpURI \<Longrightarrow>
     (tb_scope t = Local \<longleftrightarrow> (\<exists>i. ParseIP (path r) = Some i \<and> IsLoopback i)) \<and>
     (uriType r = udpURI \<longrightarrow> (tb_scope t = Local \<longleftrightarrow> uri_Scope r = ScopeLocal)) \<and>
     (uriType r = tcpURI \<longrightarrow> uri_Scope r = ScopeLocal)"
  using MakeUnicastUDPTransport_Some[of E r l p t] MakeUnicastTCPTransport_Some[of E r l p t]
  by (auto simp: ip_scope_def uri_Scope_def split: option.splits if_splits)


definition toy_tr :: tr_env where
  "toy_tr = \<lparr>te_host = toy_host, te_now = 0, udpLifetime = 600000 * Millisecond, tcpLifetime = 600000 * Millisecond,
     Dial = (\<lambda>u. Some (lit ''10.0.0.1:6363'')), InterfaceByIP = (\<lambda>i. None), ListenMulticast = (\<lambda>u. True),
     udp4MulticastAddress = lit ''224.0.23.170'', udp6MulticastAddress = lit ''ff02::114'', UDPMulticastPort = 56363\<rparr>"

text \<open>The internal face is registered.\<close>

theorem registered_faces_up_witness:
  "\<exists>st. RegisterInternalTransport None 0 (toy_forwarder\<lparr>Links := Map.empty\<rparr>) = Inr st \<and> Table_Get st 1 = Some 0 \<and> tb_state (tb_at st 0) = Up"
proof -
  let ?s = "toy_forwarder\<lparr>Links := Map.empty\<rparr>"
  obtain l where l: "RegisterInternalTransport None 0 ?s = add_face None 0 l ?s" by (simp add: RegisterInternalTransport_def)
  let ?s1 = "?s\<lparr>Links := (Links ?s)(0 \<mapsto> l)\<rparr>"
  have n: "next_free (Faces ?s1) (nextFaceID ?s1) = Some (1, 2)"
    by (subst next_free.simps) (simp add: toy_forwarder_def)
  obtain st where st: "Table_Add None 0 ?s1 = Some st" "Faces st = AList.update 1 0 (Faces ?s1)"
    by (rule Table_Add_eq[OF keeps_tables_None n, of 0 l]) (simp, rule that)
  have reg: "RegisterInternalTransport None 0 ?s = Inr st" by (simp only: l) (simp add: add_face_def st(1)[simplified])
  have F: "Faces st = [(1, 0)]" by (simp add: st(2) toy_forwarder_def)
  have "net_reach toy_tr (tree_ops toy_enc) None ?s" by (rule net_reach.start) (simp_all add: toy_forwarder_def)
  moreover have "can_add 0 ?s" by (simp add: can_add_def toy_forwarder_def)
  ultimately have "net_reach toy_tr (tree_ops toy_enc) None st" using net_step.internal[OF _ reg] net_reach.step by blast
  from registered_faces_up[OF this keeps_tables_None] show ?thesis using reg F by (auto simp: Table_Get_def)
qed

theorem new_face_scope_witness:
  "\<exists>t. MakeUnicastUDPTransport toy_tr toy_udp None PersistencyPersistent = Some t \<and> tb_scope t \<noteq> Local"
proof -
  have c: "IsCanonical toy_udp" by (rule IsCanonical_normal[OF toy_udp_normal]) (simp add: toy_udp_def)
  have "ParseIP (path toy_udp) = None" by (simp add: toy_udp_def ParseIP_def)
  then have "uri_Scope toy_udp = ScopeNonLocal" using c by (simp add: uri_Scope_def toy_udp_def)
  moreover obtain t where t: "MakeUnicastUDPTransport toy_tr toy_udp None PersistencyPersistent = Some t"
    using c by (simp add: MakeUnicastUDPTransport_def toy_udp_def toy_tr_def Let_def)
  moreover have "uriType toy_udp = udpURI" by (simp add: toy_udp_def)
  moreover have "tb_scope t = Local \<longleftrightarrow> uri_Scope toy_udp = ScopeLocal" using t calculation new_face_scope by blast
  ultimately show ?thesis by simp
qed

end
