(* ===== verification/Mgmt_Core.thy ===== *)
theory Mgmt_Core
  imports Face_Life
begin

text \<open>
  The management thread without its face module: what all modules share (\<^verbatim>\<open>src/mgmt/thread.go\<close>,
  \<^verbatim>\<open>src/mgmt/helpers.go\<close>, the component side of \<^verbatim>\<open>src/face/internal-transport.go\<close>) and the modules for the
  RIB, the FIB, the strategy choice, the Content Store and the forwarder status (\<^verbatim>\<open>src/mgmt/rib.go\<close>, \<^verbatim>\<open>fib.go\<close>,
  \<^verbatim>\<open>strategy-choice.go\<close>, \<^verbatim>\<open>cs.go\<close>, \<^verbatim>\<open>forwarder-status.go\<close>).

  The encodings of control parameters, responses and datasets and the making of Data packets are those of the
  third-party packages \<^verbatim>\<open>mgmt_2022\<close> and \<^verbatim>\<open>spec_2022\<close>; they are the fields of \<open>mg_api\<close>. The state of the
  thread extends the tables that it manages.
\<close>

section \<open>Data of the management protocol\<close>

record ControlArgs =
  ca_Name :: "name option"
  ca_FaceId :: "u64 option"
  ca_Uri :: "gostring option"
  ca_Origin :: "u64 option"
  ca_Cost :: "u64 option"
  ca_Capacity :: "u64 option"
  ca_BaseCongestionMarkInterval :: "u64 option"
  ca_DefaultCongestionThreshold :: "u64 option"
  ca_Mtu :: "u64 option"
  ca_Flags :: "u64 option"
  ca_Mask :: "u64 option"
  ca_Strategy :: "name option"
  ca_ExpirationPeriod :: "u64 option"
  ca_FacePersistency :: "u64 option"

datatype any = AName name | AUint u64 | AInt int | AString gostring | AStrategy name

record ControlResponse =
  StatusCode :: u64
  StatusText :: string
  Params :: ControlArgs

record route_status =
  rs_FaceId :: u64
  rs_Origin :: u64
  rs_Cost :: u64
  rs_Flags :: u64
  rs_ExpirationPeriod :: "u64 option"

record CsInfo =
  ci_Capacity :: u64
  ci_Flags :: u64
  ci_NCsEntries :: u64

record GeneralStatus =
  gs_NFibEntries :: u64
  gs_NPitEntries :: u64
  gs_NCsEntries :: u64
  gs_NInInterests :: u64
  gs_NInData :: u64
  gs_NOutInterests :: u64
  gs_NOutData :: u64
  gs_NSatisfiedInterests :: u64
  gs_NUnsatisfiedInterests :: u64

record FaceStatus =
  fs_FaceId :: u64
  fs_Uri :: gostring
  fs_LocalUri :: gostring
  fs_ExpirationPeriod :: "u64 option"
  fs_FaceScope :: u64
  fs_FacePersistency :: u64
  fs_LinkType :: u64
  fs_BaseCongestionMarkInterval :: "u64 option"
  fs_DefaultCongestionThreshold :: "u64 option"
  fs_Mtu :: u64
  fs_NInInterests :: u64
  fs_NInData :: u64
  fs_NOutInterests :: u64
  fs_NOutData :: u64
  fs_NInBytes :: u64
  fs_NOutBytes :: u64
  fs_Flags :: u64

datatype dataset =
    RibStatus "(name \<times> route_status list) list"
  | FibStatus "(name \<times> (u64 \<times> u64) list) list"
  | StrategyChoiceMsg "(name \<times> name) list"
  | CsInfoMsg CsInfo
  | GeneralStatusMsg GeneralStatus
  | FaceStatusMsg "FaceStatus list"

record DataConfig =
  cfg_ContentType :: u64
  cfg_Freshness :: int
  cfg_FinalBlockID :: "component option"

record mg_interest = Interest +
  int_AppParam :: wire

record FaceQueryFilter =
  fq_FaceId :: "u64 option"
  fq_UriScheme :: "gostring option"
  fq_Uri :: "gostring option"
  fq_LocalUri :: "gostring option"
  fq_FaceScope :: "u64 option"
  fq_FacePersistency :: "u64 option"
  fq_LinkType :: "u64 option"

text \<open>\<open>ReadInterest\<close> reads a packet: \<open>None\<close> for an error, \<open>Some None\<close> for a packet that is not an Interest.\<close>

record mg_api =
  component_String :: "component \<Rightarrow> string"
  NewVersionComponent :: "u64 \<Rightarrow> component"
  NewSegmentComponent :: "u64 \<Rightarrow> component"
  NewSequenceNumComponent :: "u64 \<Rightarrow> component"
  ParseControlParameters :: "bytes \<Rightarrow> ControlArgs option"
  DictToControlArgs :: "(string \<times> any) list \<Rightarrow> ControlArgs option"
  ToDict :: "ControlArgs \<Rightarrow> (string \<times> any) list"
  EncodeResponse :: "ControlResponse \<Rightarrow> wire"
  EncodeDataset :: "dataset \<Rightarrow> wire"
  EncodeEvent :: "FaceEvent \<Rightarrow> wire"
  MakeData :: "name \<Rightarrow> DataConfig \<Rightarrow> wire \<Rightarrow> wire option"
  ParseFaceQueryFilter :: "bytes \<Rightarrow> FaceQueryFilter option"
  PacketIsData :: "wire \<Rightarrow> bool"
  ReadInterest :: "wire \<Rightarrow> mg_interest option option"

text \<open>The state: the tables, the configuration the modules write, the thread's own fields and the frames it sent.\<close>

record 's mgmt = "'s forwarder" +
  csCapacity_var :: int
  localPrefix :: name
  nonLocalPrefix :: name
  transport_set :: bool
  nextRIBDatasetVersion :: u64
  nextFIBDatasetVersion :: u64
  nextStrategyDatasetVersion :: u64
  nextDatasetVersion :: u64
  nextGeneralDatasetVersion :: u64
  nextFaceDatasetVersion :: u64
  sendQueue_frames :: "bytes list"

text \<open>
  What the modules read from outside: the libraries, the FIB in use, the forwarding threads and the sockets;
  \<open>me_alloc\<close> is the address that an object created in the step gets.
\<close>

record 's mg_env =
  me_api :: mg_api
  me_lp :: lp_api
  me_enc :: enc_api
  me_ops :: "'s FibStrategy"
  me_threads :: "Thread list"
  me_NumFwThreads :: nat
  me_tr :: tr_env
  me_alloc :: addr
  enableLocalhopManagement :: bool

text \<open>The configuration of the registered strategies (\<^verbatim>\<open>init\<close> of \<^verbatim>\<open>bestroute.go\<close> and \<^verbatim>\<open>multicast.go\<close>).\<close>

definition StrategyVersions :: "string \<rightharpoonup> u64 list" where
  "StrategyVersions = [''best-route'' \<mapsto> [1], ''multicast'' \<mapsto> [1]]"

section \<open>Sending\<close>

definition InternalTransport_Send :: "'s mg_env \<Rightarrow> wire \<Rightarrow> bytes \<Rightarrow> u64 option \<Rightarrow> 's mgmt \<Rightarrow> 's mgmt" where
  "InternalTransport_Send env netWire pitToken nextHopFaceID st =
     (let lpPkt = empty_lp\<lparr>Fragment := netWire\<rparr>;
          lpPkt = (if length pitToken > 0 then lpPkt\<lparr>lp_PitToken := pitToken\<rparr> else lpPkt);
          lpPkt = lpPkt\<lparr>lp_NextHopFaceId := nextHopFaceID\<rparr>
      in case EncodeLp (me_lp env) lpPkt of
           None \<Rightarrow> st
         | Some w \<Rightarrow> st\<lparr>sendQueue_frames := sendQueue_frames st @ [wire_Join (me_lp env) w]\<rparr>)"

text \<open>A received frame: \<open>None\<close> when the loop ignores it. The code reads the link-layer packet without testing it for nil.\<close>

definition InternalTransport_Receive :: "lp_api \<Rightarrow> bytes \<Rightarrow> (wire \<times> bytes \<times> u64) option result" where
  "InternalTransport_Receive A frame =
     (case ReadPacket A [frame] of
        None \<Rightarrow> Inr None
      | Some p \<Rightarrow>
          (case sp_LpPacket p of
             None \<Rightarrow> Inl NilDereference
           | Some lp \<Rightarrow>
               if length (wire_Join A (Fragment lp)) = 0 then Inr None
               else (case lp_IncomingFaceId lp of
                       None \<Rightarrow> Inl NilDereference
                     | Some inFace \<Rightarrow> Inr (Some (Fragment lp, lp_PitToken lp, inFace)))))"

definition blob_config :: "int \<Rightarrow> component option \<Rightarrow> DataConfig" where
  "blob_config freshness final = \<lparr>cfg_ContentType = 0, cfg_Freshness = freshness, cfg_FinalBlockID = final\<rparr>"

text \<open>The conversion of the dictionary may fail; the response is nil then, and encoding a nil response panics.\<close>

definition makeControlResponse :: "mg_api \<Rightarrow> u64 \<Rightarrow> string \<Rightarrow> (string \<times> any) list \<Rightarrow> ControlResponse option" where
  "makeControlResponse api code txt args =
     map_option (\<lambda>ret. \<lparr>StatusCode = code, StatusText = txt, Params = ret\<rparr>) (DictToControlArgs api args)"

definition sendResponse :: "'s mg_env \<Rightarrow> ControlResponse option \<Rightarrow> mg_interest \<Rightarrow> bytes \<Rightarrow> u64 \<Rightarrow> 's mgmt \<Rightarrow> 's mgmt result" where
  "sendResponse env response interest pitToken inFace st =
     (case response of
        None \<Rightarrow> Inl NilDereference
      | Some r \<Rightarrow>
          (case MakeData (me_api env) (int_NameV interest) (blob_config (1000 * Millisecond) None) (EncodeResponse (me_api env) r) of
             None \<Rightarrow> Inr st
           | Some dataWire \<Rightarrow> Inr (InternalTransport_Send env dataWire pitToken (Some inFace) st)))"

definition respond :: "'s mg_env \<Rightarrow> u64 \<Rightarrow> string \<Rightarrow> (string \<times> any) list \<Rightarrow> mg_interest \<Rightarrow> bytes \<Rightarrow> u64 \<Rightarrow> 's mgmt \<Rightarrow> 's mgmt result" where
  "respond env code txt args = sendResponse env (makeControlResponse (me_api env) code txt args)"

text \<open>The limit of a dataset compares 8000 with the number of buffers of the wire, not with its length.\<close>

definition makeStatusDataset :: "mg_api \<Rightarrow> name \<Rightarrow> u64 \<Rightarrow> wire \<Rightarrow> wire" where
  "makeStatusDataset api name version dataset =
     (if length dataset > 8000 then []
      else (case MakeData api (name @ [NewVersionComponent api version, NewSegmentComponent api 0])
                   (blob_config (1000 * Millisecond) (Some (NewSegmentComponent api 0))) dataset of
              None \<Rightarrow> []
            | Some w \<Rightarrow> w))"

text \<open>A dataset is published under a name that is parsed from a string; an error of the parser is ignored.\<close>

definition publish :: "'s mg_env \<Rightarrow> name \<Rightarrow> u64 \<Rightarrow> dataset \<Rightarrow> bytes \<Rightarrow> 's mgmt \<Rightarrow> 's mgmt" where
  "publish env name version ds pitToken =
     InternalTransport_Send env (makeStatusDataset (me_api env) name version (EncodeDataset (me_api env) ds)) pitToken None"

definition parsed_name :: "'s mg_env \<Rightarrow> name \<Rightarrow> string \<Rightarrow> name" where
  "parsed_name env pre rest = nil_to_empty (NameFromStr (me_enc env) (name_String (me_lp env) pre @ rest))"

section \<open>Commands\<close>

definition prefixLength :: "'s mgmt \<Rightarrow> nat" where
  "prefixLength st = length (localPrefix st)"

definition verb :: "'s mg_env \<Rightarrow> mg_interest \<Rightarrow> 's mgmt \<Rightarrow> string" where
  "verb env interest st = component_String (me_api env) (int_NameV interest ! (prefixLength st + 1))"

definition decodeControlParameters :: "'s mg_env \<Rightarrow> mg_interest \<Rightarrow> 's mgmt \<Rightarrow> ControlArgs option" where
  "decodeControlParameters env interest st = ParseControlParameters (me_api env) (Val (int_NameV interest ! (prefixLength st + 2)))"

text \<open>The opening of every command: a name with parameters that can be decoded, or the answer 400.\<close>

definition with_parameters ::
  "'s mg_env \<Rightarrow> mg_interest \<Rightarrow> bytes \<Rightarrow> u64 \<Rightarrow> 's mgmt \<Rightarrow> (ControlArgs \<Rightarrow> 's mgmt result) \<Rightarrow> 's mgmt result" where
  "with_parameters env interest pitToken inFace st k =
     (if length (int_NameV interest) < prefixLength st + 3 then respond env 400 ''ControlParameters is incorrect'' [] interest pitToken inFace st
      else case decodeControlParameters env interest st of
             None \<Rightarrow> respond env 400 ''ControlParameters is incorrect'' [] interest pitToken inFace st
           | Some params \<Rightarrow> k params)"

text \<open>The face of a command: the one it names unless that is missing or 0, otherwise the face the command came from.\<close>

definition face_of :: "ControlArgs \<Rightarrow> u64 \<Rightarrow> u64" where
  "face_of params inFace = (case ca_FaceId params of Some f \<Rightarrow> if f \<noteq> 0 then f else inFace | None \<Rightarrow> inFace)"

definition names_face :: "ControlArgs \<Rightarrow> bool" where
  "names_face params = (case ca_FaceId params of Some f \<Rightarrow> f \<noteq> 0 | None \<Rightarrow> False)"

section \<open>RIB management\<close>

definition RouteOriginApp :: u64 where "RouteOriginApp = 0"
definition RouteFlagChildInherit :: u64 where "RouteFlagChildInherit = 1"

text \<open>\<^verbatim>\<open>time.Duration(x) * time.Millisecond\<close> wraps; \<^verbatim>\<open>Milliseconds()\<close> divides towards zero.\<close>

definition duration_ms :: "u64 \<Rightarrow> int" where
  "duration_ms x = sint (x * 1000000)"

definition Milliseconds :: "int \<Rightarrow> int" where
  "Milliseconds d = (if d < 0 then - (- d div 1000000) else d div 1000000)"

definition rib_register :: "'s mg_env \<Rightarrow> mg_interest \<Rightarrow> bytes \<Rightarrow> u64 \<Rightarrow> 's mgmt \<Rightarrow> 's mgmt result" where
  "rib_register env interest pitToken inFace st =
     with_parameters env interest pitToken inFace st (\<lambda>params.
       case ca_Name params of
         None \<Rightarrow> respond env 400 ''ControlParameters is incorrect'' [] interest pitToken inFace st
       | Some name \<Rightarrow>
           let faceID = face_of params inFace
           in if names_face params \<and> Table_Get st faceID = None then respond env 410 ''Face does not exist'' [] interest pitToken inFace st
              else
                let origin = (case ca_Origin params of Some x \<Rightarrow> x | None \<Rightarrow> RouteOriginApp);
                    cost = (case ca_Cost params of Some x \<Rightarrow> x | None \<Rightarrow> 0);
                    flags = (case ca_Flags params of Some x \<Rightarrow> x | None \<Rightarrow> RouteFlagChildInherit);
                    expirationPeriod = map_option duration_ms (ca_ExpirationPeriod params);
                    st1 = st\<lparr>RibFib := AddEncRoute (me_enc env) (me_ops env) (RibFib st) name faceID origin cost flags expirationPeriod\<rparr>;
                    responseParams = [(''Name'', AName name), (''FaceId'', AUint faceID), (''Origin'', AUint origin), (''Cost'', AUint cost),
                        (''Flags'', AUint flags)] @
                      (case expirationPeriod of None \<Rightarrow> [] | Some d \<Rightarrow> [(''ExpirationPeriod'', AUint (of_int (Milliseconds d)))])
                in respond env 200 ''OK'' responseParams interest pitToken inFace st1)"

definition rib_unregister :: "'s mg_env \<Rightarrow> mg_interest \<Rightarrow> bytes \<Rightarrow> u64 \<Rightarrow> 's mgmt \<Rightarrow> 's mgmt result" where
  "rib_unregister env interest pitToken inFace st =
     with_parameters env interest pitToken inFace st (\<lambda>params.
       case ca_Name params of
         None \<Rightarrow> respond env 400 ''ControlParameters is incorrect'' [] interest pitToken inFace st
       | Some name \<Rightarrow>
           let faceID = face_of params inFace;
               origin = (case ca_Origin params of Some x \<Rightarrow> x | None \<Rightarrow> RouteOriginApp);
               st1 = st\<lparr>RibFib := RemoveRouteEnc (me_enc env) (me_ops env) (RibFib st) name faceID origin\<rparr>
           in respond env 200 ''OK'' [(''Name'', AName name), (''FaceId'', AUint faceID), (''Origin'', AUint origin)] interest pitToken inFace st1)"

definition rib_announce :: "'s mg_env \<Rightarrow> mg_interest \<Rightarrow> bytes \<Rightarrow> u64 \<Rightarrow> 's mgmt \<Rightarrow> 's mgmt result" where
  "rib_announce env interest pitToken inFace st =
     (if length (int_NameV interest) \<noteq> prefixLength st + 3 \<or> Typ (int_NameV interest ! (prefixLength st + 2)) \<noteq> 2
      then respond env 400 ''Name is incorrect'' [] interest pitToken inFace st
      else if length (wire_Join (me_lp env) (int_AppParam interest)) = 0
      then respond env 400 ''PrefixAnnouncement is missing'' [] interest pitToken inFace st
      else if \<not> PacketIsData (me_api env) (int_AppParam interest)
      then respond env 400 ''PrefixAnnouncement is invalid'' [] interest pitToken inFace st
      else respond env 501 ''YaNFD does not support PrefixAnnouncement'' [] interest pitToken inFace st)"

definition route_entry :: "Route \<Rightarrow> route_status" where
  "route_entry rt = \<lparr>rs_FaceId = FaceID rt, rs_Origin = Origin rt, rs_Cost = route_Cost rt, rs_Flags = Route.Flags rt,
     rs_ExpirationPeriod = map_option (\<lambda>d. of_int (Milliseconds d)) (ExpirationPeriod rt)\<rparr>"

definition rib_list :: "'s mg_env \<Rightarrow> mg_interest \<Rightarrow> bytes \<Rightarrow> 's mgmt \<Rightarrow> 's mgmt result" where
  "rib_list env interest pitToken st =
     (if length (int_NameV interest) > prefixLength st + 2 then Inr st
      else
        let entries = rib_GetAllEntries (fst (RibFib st));
            dataset = RibStatus (map (\<lambda>e. (nil_to_empty (rib_Name e), map route_entry (routes e))) entries);
            name = parsed_name env (take (prefixLength st) (int_NameV interest)) ''/rib/list'';
            st1 = publish env name (nextRIBDatasetVersion st) dataset pitToken st
        in Inr (st1\<lparr>nextRIBDatasetVersion := nextRIBDatasetVersion st1 + 1\<rparr>))"

definition RIBModule_handle :: "'s mg_env \<Rightarrow> mg_interest \<Rightarrow> bytes \<Rightarrow> u64 \<Rightarrow> 's mgmt \<Rightarrow> 's mgmt result" where
  "RIBModule_handle env interest pitToken inFace st =
     (let v = verb env interest st
      in if v = ''register'' then rib_register env interest pitToken inFace st
         else if v = ''unregister'' then rib_unregister env interest pitToken inFace st
         else if v = ''announce'' then rib_announce env interest pitToken inFace st
         else if v = ''list'' then rib_list env interest pitToken st
         else respond env 501 ''Unknown verb'' [] interest pitToken inFace st)"

section \<open>FIB management\<close>

definition set_fib :: "'s \<Rightarrow> 's mgmt \<Rightarrow> 's mgmt" where
  "set_fib f st = st\<lparr>RibFib := (fst (RibFib st), f)\<rparr>"

definition fib_add :: "'s mg_env \<Rightarrow> mg_interest \<Rightarrow> bytes \<Rightarrow> u64 \<Rightarrow> 's mgmt \<Rightarrow> 's mgmt result" where
  "fib_add env interest pitToken inFace st =
     with_parameters env interest pitToken inFace st (\<lambda>params.
       case ca_Name params of
         None \<Rightarrow> respond env 400 ''ControlParameters is incorrect'' [] interest pitToken inFace st
       | Some name \<Rightarrow>
           let faceID = face_of params inFace
           in if names_face params \<and> Table_Get st faceID = None then respond env 410 ''Face does not exist'' [] interest pitToken inFace st
              else
                let cost = (case ca_Cost params of Some x \<Rightarrow> x | None \<Rightarrow> 0);
                    st1 = set_fib (InsertNextHopEnc (me_ops env) (snd (RibFib st)) name faceID cost) st
                in respond env 200 ''OK'' [(''Name'', AName name), (''FaceId'', AUint faceID), (''Cost'', AUint cost)] interest pitToken inFace st1)"

definition fib_remove :: "'s mg_env \<Rightarrow> mg_interest \<Rightarrow> bytes \<Rightarrow> u64 \<Rightarrow> 's mgmt \<Rightarrow> 's mgmt result" where
  "fib_remove env interest pitToken inFace st =
     with_parameters env interest pitToken inFace st (\<lambda>params.
       case ca_Name params of
         None \<Rightarrow> respond env 400 ''ControlParameters is incorrect'' [] interest pitToken inFace st
       | Some name \<Rightarrow>
           let faceID = face_of params inFace;
               st1 = set_fib (RemoveNextHopEnc (me_ops env) (snd (RibFib st)) name faceID) st
           in respond env 200 ''OK'' [(''Name'', AName name), (''FaceId'', AUint faceID)] interest pitToken inFace st1)"

definition fib_list :: "'s mg_env \<Rightarrow> mg_interest \<Rightarrow> bytes \<Rightarrow> 's mgmt \<Rightarrow> 's mgmt result" where
  "fib_list env interest pitToken st =
     (if length (int_NameV interest) > prefixLength st + 2 then Inr st
      else
        let entries = GetAllFIBEntries (me_ops env) (snd (RibFib st));
            dataset = FibStatus (map (\<lambda>e. (nil_to_empty (fse_name e), map (\<lambda>h. (Nexthop h, Cost h)) (fse_nexthops e))) entries);
            name = parsed_name env (localPrefix st) ''/fib/list'';
            st1 = publish env name (nextFIBDatasetVersion st) dataset pitToken st
        in Inr (st1\<lparr>nextFIBDatasetVersion := nextFIBDatasetVersion st1 + 1\<rparr>))"

definition from_localhost :: "'s mg_env \<Rightarrow> mg_interest \<Rightarrow> 's mgmt \<Rightarrow> bool" where
  "from_localhost env interest st = name_IsPrefix (me_enc env) (localPrefix st) (int_NameV interest)"

definition FIBModule_handle :: "'s mg_env \<Rightarrow> mg_interest \<Rightarrow> bytes \<Rightarrow> u64 \<Rightarrow> 's mgmt \<Rightarrow> 's mgmt result" where
  "FIBModule_handle env interest pitToken inFace st =
     (if \<not> from_localhost env interest st then Inr st
      else
        let v = verb env interest st
        in if v = ''add-nexthop'' then fib_add env interest pitToken inFace st
           else if v = ''remove-nexthop'' then fib_remove env interest pitToken inFace st
           else if v = ''list'' then fib_list env interest pitToken st
           else respond env 501 ''Unknown verb'' [] interest pitToken inFace st)"

section \<open>Strategy choice management\<close>

definition strategyPrefix :: "'s mgmt \<Rightarrow> name" where
  "strategyPrefix st = localPrefix st @ [\<lparr>Typ = 8, Val = map of_char ''strategy''\<rparr>]"

definition newest :: "u64 list \<Rightarrow> u64" where
  "newest vs = fold (\<lambda>version v. if version > v then version else v) vs (hd vs)"

text \<open>
  The strategy name to store, or the response that refuses it. The code indexes the name behind the prefix
  without testing its length.
\<close>

definition checked_strategy :: "'s mg_env \<Rightarrow> name \<Rightarrow> 's mgmt \<Rightarrow> ((u64 \<times> string) + name) result" where
  "checked_strategy env sname st =
     (let n = length (strategyPrefix st)
      in if \<not> name_IsPrefix (me_enc env) (strategyPrefix st) sname then Inr (Inl (404, ''Unknown strategy''))
         else if length sname \<le> n then Inl IndexOutOfRange
         else (case StrategyVersions (component_String (me_api env) (sname ! n)) of
           None \<Rightarrow> Inr (Inl (404, ''Unknown strategy''))
         | Some availableVersions \<Rightarrow>
             if length sname > n + 1 then
               (if Typ (sname ! (n + 1)) \<noteq> 0x36 then Inr (Inl (404, ''Unknown strategy version''))
                else (case DecodeNNI (Val (sname ! (n + 1))) of
                    Inl e \<Rightarrow> Inr (Inl (404, ''Unknown strategy version''))
                  | Inr strategyVersion \<Rightarrow>
                      if strategyVersion \<in> set availableVersions then Inr (Inr sname)
                      else Inr (Inl (404, ''Unknown strategy version''))))
             else Inr (Inr (sname @ [NewVersionComponent (me_api env) (newest availableVersions)]))))"

definition strategy_set :: "'s mg_env \<Rightarrow> mg_interest \<Rightarrow> bytes \<Rightarrow> u64 \<Rightarrow> 's mgmt \<Rightarrow> 's mgmt result" where
  "strategy_set env interest pitToken inFace st =
     with_parameters env interest pitToken inFace st (\<lambda>params.
       case (ca_Name params, ca_Strategy params) of
         (Some name, Some sname) \<Rightarrow>
           rbind (checked_strategy env sname st) (\<lambda>r.
             case r of
               Inl (code, txt) \<Rightarrow> respond env code txt [] interest pitToken inFace st
             | Inr sname' \<Rightarrow>
                 respond env 200 ''OK'' [(''Name'', AName name), (''Strategy'', AStrategy sname')] interest pitToken inFace
                   (set_fib (SetStrategyEnc (me_ops env) (snd (RibFib st)) name sname') st))
       | _ \<Rightarrow> respond env 400 ''ControlParameters is incorrect'' [] interest pitToken inFace st)"

definition strategy_unset :: "'s mg_env \<Rightarrow> mg_interest \<Rightarrow> bytes \<Rightarrow> u64 \<Rightarrow> 's mgmt \<Rightarrow> 's mgmt result" where
  "strategy_unset env interest pitToken inFace st =
     with_parameters env interest pitToken inFace st (\<lambda>params.
       case ca_Name params of
         None \<Rightarrow> respond env 400 ''ControlParameters is incorrect'' [] interest pitToken inFace st
       | Some name \<Rightarrow>
           if length name = 0 then respond env 400 ''ControlParameters is incorrect'' [] interest pitToken inFace st
           else respond env 200 ''OK'' [(''Name'', AName name)] interest pitToken inFace
                  (set_fib (UnSetStrategyEnc (me_ops env) (snd (RibFib st)) name) st))"

definition strategy_list :: "'s mg_env \<Rightarrow> mg_interest \<Rightarrow> bytes \<Rightarrow> 's mgmt \<Rightarrow> 's mgmt result" where
  "strategy_list env interest pitToken st =
     (if length (int_NameV interest) > prefixLength st + 2 then Inr st
      else
        let entries = GetAllForwardingStrategies (me_ops env) (snd (RibFib st));
            dataset = StrategyChoiceMsg (map (\<lambda>e. (nil_to_empty (fse_name e), nil_to_empty (fse_strategy e))) entries);
            name = parsed_name env (localPrefix st) ''/strategy-choice/list'';
            st1 = publish env name (nextStrategyDatasetVersion st) dataset pitToken st
        in Inr (st1\<lparr>nextStrategyDatasetVersion := nextStrategyDatasetVersion st1 + 1\<rparr>))"

definition StrategyChoiceModule_handle :: "'s mg_env \<Rightarrow> mg_interest \<Rightarrow> bytes \<Rightarrow> u64 \<Rightarrow> 's mgmt \<Rightarrow> 's mgmt result" where
  "StrategyChoiceModule_handle env interest pitToken inFace st =
     (if \<not> from_localhost env interest st then Inr st
      else
        let v = verb env interest st
        in if v = ''set'' then strategy_set env interest pitToken inFace st
           else if v = ''unset'' then strategy_unset env interest pitToken inFace st
           else if v = ''list'' then strategy_list env interest pitToken st
           else respond env 501 ''Unknown verb'' [] interest pitToken inFace st)"

section \<open>Content Store management and status\<close>

text \<open>The capacity is an unsigned parameter that is converted to a signed \<^verbatim>\<open>int\<close>.\<close>

definition SetCsCapacity :: "int \<Rightarrow> 's mgmt \<Rightarrow> 's mgmt" where
  "SetCsCapacity capacity st = st\<lparr>csCapacity_var := capacity\<rparr>"

definition cs_config :: "'s mg_env \<Rightarrow> mg_interest \<Rightarrow> bytes \<Rightarrow> u64 \<Rightarrow> 's mgmt \<Rightarrow> 's mgmt result" where
  "cs_config env interest pitToken inFace st =
     with_parameters env interest pitToken inFace st (\<lambda>params.
       if (ca_Flags params = None) \<noteq> (ca_Mask params = None)
       then respond env 409 ''ControlParameters are incorrect'' [] interest pitToken inFace st
       else (case ca_Capacity params of
           None \<Rightarrow> respond env 200 ''OK'' [(''Flags'', AUint 0)] interest pitToken inFace st
         | Some c \<Rightarrow> respond env 200 ''OK'' [(''Flags'', AUint 0), (''Capacity'', AUint c)] interest pitToken inFace (SetCsCapacity (sint c) st)))"

text \<open>A sum over the forwarding threads; a nil thread panics.\<close>

definition on_fw_threads :: "'s mg_env \<Rightarrow> Thread list result" where
  "on_fw_threads env =
     rfold (\<lambda>i ts. rbind (GetFWThread (me_threads env) (int i)) (\<lambda>t. case t of None \<Rightarrow> Inl NilDereference | Some x \<Rightarrow> Inr (ts @ [x])))
       [0..<me_NumFwThreads env] []"

definition GetNumPitEntries :: "Thread \<Rightarrow> int" where "GetNumPitEntries t = PitSize (pitCS t)"
definition GetNumCsEntries :: "Thread \<Rightarrow> int" where "GetNumCsEntries t = CsSize (pitCS t)"

definition cs_info :: "'s mg_env \<Rightarrow> mg_interest \<Rightarrow> bytes \<Rightarrow> 's mgmt \<Rightarrow> 's mgmt result" where
  "cs_info env interest pitToken st =
     (if length (int_NameV interest) > prefixLength st + 2 then Inr st
      else rbind (on_fw_threads env) (\<lambda>ts.
        let status = CsInfoMsg \<lparr>ci_Capacity = of_int (csCapacity_var st), ci_Flags = 3,
                       ci_NCsEntries = sum_list (map (\<lambda>t. of_int (GetNumCsEntries t)) ts)\<rparr>;
            name = parsed_name env (localPrefix st) ''/cs/info'';
            st1 = publish env name (nextDatasetVersion st) status pitToken st
        in Inr (st1\<lparr>nextDatasetVersion := nextDatasetVersion st1 + 1\<rparr>)))"

definition ContentStoreModule_handle :: "'s mg_env \<Rightarrow> mg_interest \<Rightarrow> bytes \<Rightarrow> u64 \<Rightarrow> 's mgmt \<Rightarrow> 's mgmt result" where
  "ContentStoreModule_handle env interest pitToken inFace st =
     (if \<not> from_localhost env interest st then Inr st
      else
        let v = verb env interest st
        in if v = ''config'' then cs_config env interest pitToken inFace st
           else if v = ''erase'' then Inr st
           else if v = ''info'' then cs_info env interest pitToken st
           else if v = ''query'' then Inr st
           else respond env 501 ''Unknown verb'' [] interest pitToken inFace st)"

text \<open>The general status without the version string and the timestamps.\<close>

definition status_general :: "'s mg_env \<Rightarrow> mg_interest \<Rightarrow> bytes \<Rightarrow> 's mgmt \<Rightarrow> 's mgmt result" where
  "status_general env interest pitToken st =
     (if length (int_NameV interest) > prefixLength st + 2 then Inr st
      else rbind (on_fw_threads env) (\<lambda>ts.
        let total = (\<lambda>f. sum_list (map f ts));
            status = GeneralStatusMsg
              \<lparr>gs_NFibEntries = of_nat (length (GetAllFIBEntries (me_ops env) (snd (RibFib st)))),
               gs_NPitEntries = total (\<lambda>t. of_int (GetNumPitEntries t)), gs_NCsEntries = total (\<lambda>t. of_int (GetNumCsEntries t)),
               gs_NInInterests = total Thread.NInInterests, gs_NInData = total Thread.NInData,
               gs_NOutInterests = total Thread.NOutInterests, gs_NOutData = total Thread.NOutData,
               gs_NSatisfiedInterests = total Thread.NSatisfiedInterests, gs_NUnsatisfiedInterests = total Thread.NUnsatisfiedInterests\<rparr>;
            name = parsed_name env (localPrefix st) ''/status/general'';
            st1 = publish env name (nextGeneralDatasetVersion st) status pitToken st
        in Inr (st1\<lparr>nextGeneralDatasetVersion := nextGeneralDatasetVersion st1 + 1\<rparr>)))"

definition ForwarderStatusModule_handle :: "'s mg_env \<Rightarrow> mg_interest \<Rightarrow> bytes \<Rightarrow> u64 \<Rightarrow> 's mgmt \<Rightarrow> 's mgmt result" where
  "ForwarderStatusModule_handle env interest pitToken inFace st =
     (if \<not> from_localhost env interest st then Inr st
      else if verb env interest st = ''general'' then status_general env interest pitToken st
      else respond env 501 ''Unknown verb'' [] interest pitToken inFace st)"

end
