(* ===== verification/Mgmt_Face.thy ===== *)
theory Mgmt_Face
  imports Mgmt_Core
begin

text \<open>
  The face module of management (\<^verbatim>\<open>src/mgmt/face.go\<close>): creating, updating and destroying faces, the datasets of
  faces and the notifications of face events, and the management thread (\<^verbatim>\<open>src/mgmt/thread.go\<close>) that dispatches
  commands to the modules.
\<close>

section \<open>Face events\<close>

text \<open>An event without URIs cannot be encoded. The component of the identifier is appended to a name that is parsed each time.\<close>

definition FaceEvent_Encode :: "mg_api \<Rightarrow> FaceEvent \<Rightarrow> wire option" where
  "FaceEvent_Encode api e = (if fe_remoteURI e = None \<or> fe_localURI e = None then None else Some (EncodeEvent api e))"

definition sendFaceEventNotification :: "'s mg_env \<Rightarrow> u64 \<Rightarrow> bytes \<Rightarrow> 's mgmt \<Rightarrow> 's mgmt" where
  "sendFaceEventNotification env i pitToken st =
     (case GetFaceEvent st i of
        None \<Rightarrow> st
      | Some e \<Rightarrow>
          (case FaceEvent_Encode (me_api env) e of
             None \<Rightarrow> st
           | Some eventBlock \<Rightarrow>
               (case NameFromStr (me_enc env) ''/localhost/nfd/faces/events'' of
                  None \<Rightarrow> st
                | Some dataName \<Rightarrow>
                    (case MakeData (me_api env) (dataName @ [NewSequenceNumComponent (me_api env) i]) (blob_config Millisecond None) eventBlock of
                       None \<Rightarrow> st
                     | Some dataWire \<Rightarrow> if transport_set st then InternalTransport_Send env dataWire pitToken None st else st))))"

text \<open>The function that the face module registers with the event cache.\<close>

definition event_func :: "'s mg_env \<Rightarrow> u64 \<Rightarrow> 's mgmt \<Rightarrow> 's mgmt" where
  "event_func env i = sendFaceEventNotification env i []"

definition face_events :: "'s mg_env \<Rightarrow> mg_interest \<Rightarrow> bytes \<Rightarrow> 's mgmt \<Rightarrow> 's mgmt result" where
  "face_events env interest pitToken st =
     (if length (int_NameV interest) < prefixLength st + 3
      then (if \<not> CanBePrefixV interest then Inr st
            else Inr (sendFaceEventNotification env (FaceEventLastId st) pitToken st))
      else
        let seg = int_NameV interest ! (prefixLength st + 2)
        in if Typ seg \<noteq> 0x32 then Inr st
           else (case DecodeNNI (Val seg) of
                   Inl e \<Rightarrow> Inr st
                 | Inr i \<Rightarrow> Inr (sendFaceEventNotification env i pitToken st)))"

section \<open>Properties of a face\<close>

definition fillFaceProperties :: "LinkService \<Rightarrow> (string \<times> any) list" where
  "fillFaceProperties f =
     [(''FaceId'', AUint (ls_faceID f)), (''Uri'', AString (uri_String (RemoteURI f))), (''LocalUri'', AString (uri_String (LocalURI f))),
      (''FacePersistency'', AUint (tb_persistency (ls_transport f))), (''Mtu'', AUint (of_int (tb_mtu (ls_transport f))))] @
     (case ls_options f of
        None \<Rightarrow> [(''Flags'', AInt 0)]
      | Some op \<Rightarrow> [(''BaseCongestionMarkInterval'', AUint (of_int (BaseCongestionMarkingInterval op))),
                    (''DefaultCongestionThreshold'', AUint (DefaultCongestionThresholdBytes op)), (''Flags'', AUint (Link_Service.Flags op))])"

text \<open>The scope and the link type as numbers.\<close>

definition scope_num :: "Scope \<Rightarrow> u64" where
  "scope_num s = (case s of Unknown \<Rightarrow> - 1 | NonLocal \<Rightarrow> 0 | Local \<Rightarrow> 1)"

definition linktype_num :: "LinkType \<Rightarrow> u64" where
  "linktype_num t = (case t of PointToPoint \<Rightarrow> 0 | MultiAccess \<Rightarrow> 1 | AdHoc \<Rightarrow> 2)"

text \<open>The number of bytes sent is taken from the bytes received.\<close>

definition createDataset :: "int \<Rightarrow> LinkService \<Rightarrow> FaceStatus" where
  "createDataset now f =
     (let t = ls_transport f; period = tb_ExpirationPeriod now t
      in \<lparr>fs_FaceId = ls_faceID f, fs_Uri = uri_String (RemoteURI f), fs_LocalUri = uri_String (LocalURI f),
          fs_ExpirationPeriod = (if period \<noteq> 0 then Some (of_int (Milliseconds period)) else None),
          fs_FaceScope = scope_num (tb_scope t), fs_FacePersistency = tb_persistency t, fs_LinkType = linktype_num (tb_linkType t),
          fs_BaseCongestionMarkInterval = map_option (\<lambda>op. of_int (BaseCongestionMarkingInterval op)) (ls_options f),
          fs_DefaultCongestionThreshold = map_option DefaultCongestionThresholdBytes (ls_options f),
          fs_Mtu = of_int (tb_mtu t), fs_NInInterests = ls_NInInterests f, fs_NInData = ls_NInData f,
          fs_NOutInterests = ls_NOutInterests f, fs_NOutData = ls_NOutData f, fs_NInBytes = tb_nInBytes t, fs_NOutBytes = tb_nInBytes t,
          fs_Flags = (case ls_options f of
             None \<Rightarrow> 0
           | Some op \<Rightarrow>
               (let fl = Link_Service.Flags op;
                    fl = (if IsConsumerControlledForwardingEnabled op then fl OR FaceFlagLocalFields else fl);
                    fl = (if IsReliabilityEnabled op then fl OR FaceFlagLpReliabilityEnabled else fl)
                in if IsCongestionMarkingEnabled op then fl OR FaceFlagCongestionMarking else fl))\<rparr>)"

section \<open>Creating a face\<close>

text \<open>Flags without a mask or a mask without flags.\<close>

definition lone_flags :: "ControlArgs \<Rightarrow> bool" where
  "lone_flags params = ((ca_Flags params = None) \<noteq> (ca_Mask params = None))"

text \<open>The three groups of flags, each set as in the parameters where the mask has its bit.\<close>

definition apply_flags :: "u64 \<Rightarrow> u64 \<Rightarrow> NDNLPLinkServiceOptions \<Rightarrow> NDNLPLinkServiceOptions" where
  "apply_flags flags msk op =
     (let op = (if msk AND FaceFlagLocalFields > 0
                then (let b = flags AND FaceFlagLocalFields > 0
                      in op\<lparr>IsConsumerControlledForwardingEnabled := b, IsIncomingFaceIndicationEnabled := b, IsLocalCachePolicyEnabled := b\<rparr>)
                else op);
          op = (if msk AND FaceFlagLpReliabilityEnabled > 0
                then op\<lparr>IsReliabilityEnabled := (flags AND FaceFlagLpReliabilityEnabled > 0)\<rparr> else op)
      in if msk AND FaceFlagCongestionMarking > 0
         then op\<lparr>IsCongestionMarkingEnabled := (flags AND FaceFlagCongestionMarking > 0)\<rparr> else op)"

text \<open>The MTU parameter: at most the largest packet, without a lower bound.\<close>

definition clamp_mtu :: "u64 \<Rightarrow> int" where
  "clamp_mtu m = (if m > of_int MaxNDNPacketSize then MaxNDNPacketSize else sint m)"

text \<open>The options of a new face: the congestion parameters count only when flags are given.\<close>

definition create_options :: "ControlArgs \<Rightarrow> NDNLPLinkServiceOptions" where
  "create_options params =
     (case (ca_Flags params, ca_Mask params) of
        (Some flags, Some msk) \<Rightarrow>
          (apply_flags flags msk MakeNDNLPLinkServiceOptions)
            \<lparr>BaseCongestionMarkingInterval := (case ca_BaseCongestionMarkInterval params of Some x \<Rightarrow> sint x | None \<Rightarrow> 100 * Millisecond),
             DefaultCongestionThresholdBytes := (case ca_DefaultCongestionThreshold params of Some x \<Rightarrow> x | None \<Rightarrow> 65536)\<rparr>
      | _ \<Rightarrow> MakeNDNLPLinkServiceOptions)"

definition create_persistency :: "ControlArgs \<Rightarrow> Persistency option" where
  "create_persistency params =
     (case ca_FacePersistency params of
        None \<Rightarrow> Some PersistencyPersistent
      | Some p \<Rightarrow> if p = PersistencyPersistent \<or> p = PersistencyPermanent then Some p else None)"

text \<open>The part of \<^verbatim>\<open>create\<close> behind the checks, for UDP and for TCP: the status and text, or the new link service.\<close>

definition not_unicast :: "URI \<Rightarrow> bool" where
  "not_unicast u = (case ParseIP (path u) of None \<Rightarrow> False | Some i \<Rightarrow> \<not> IsGlobalUnicast i \<and> \<not> IsLinkLocalUnicast i)"

definition make_link ::
  "(URI \<Rightarrow> URI option \<Rightarrow> Persistency \<Rightarrow> transportBase option) \<Rightarrow> ControlArgs \<Rightarrow> URI \<Rightarrow> (u64 \<times> string) + LinkService" where
  "make_link mk params u =
     (if not_unicast u then Inl (406, ''URI must be unicast'')
      else (case create_persistency params of
              None \<Rightarrow> Inl (406, ''Unacceptable persistency'')
            | Some persistency \<Rightarrow>
                (case mk u None persistency of
                   None \<Rightarrow> Inl (406, ''Transport error'')
                 | Some t \<Rightarrow>
                     (let t = (case ca_Mtu params of None \<Rightarrow> t | Some m \<Rightarrow> tb_SetMTU (clamp_mtu m) t)
                      in Inr (new_link t (Some (create_options params)))))))"

definition string_of :: "gostring \<Rightarrow> string" where
  "string_of s = map (\<lambda>b. char_of (unat b)) s"

definition new_face_link :: "tr_env \<Rightarrow> ControlArgs \<Rightarrow> URI \<Rightarrow> (u64 \<times> string) + LinkService" where
  "new_face_link E params u =
     (if scheme u = lit ''udp4'' \<or> scheme u = lit ''udp6'' then make_link (MakeUnicastUDPTransport E) params u
      else if scheme u = lit ''tcp4'' \<or> scheme u = lit ''tcp6'' then make_link (MakeUnicastTCPTransport E) params u
      else Inl (406, ''Unsupported scheme '' @ string_of (scheme u)))"

definition face_create :: "'s mg_env \<Rightarrow> mg_interest \<Rightarrow> bytes \<Rightarrow> u64 \<Rightarrow> 's mgmt \<Rightarrow> 's mgmt result" where
  "face_create env interest pitToken inFace st =
     with_parameters env interest pitToken inFace st (\<lambda>params.
       case ca_Uri params of
         None \<Rightarrow> respond env 400 ''ControlParameters is incorrect'' [] interest pitToken inFace st
       | Some s \<Rightarrow>
           (case map_option (Canonize (te_host (me_tr env))) (DecodeURIString (te_host (me_tr env)) s) of
              Some (u, True) \<Rightarrow>
                if lone_flags params then respond env 409 ''Incomplete Flags/Mask combination'' [] interest pitToken inFace st
                else (case GetByURI st u of
                    Some a \<Rightarrow>
                      respond env 409 ''Conflicts with existing face'' (fillFaceProperties (link_at st a)) interest pitToken inFace st
                  | None \<Rightarrow>
                      (case new_face_link (me_tr env) params u of
                         Inl (code, txt) \<Rightarrow> respond env code txt [] interest pitToken inFace st
                       | Inr l \<Rightarrow>
                           rbind (add_face (Some (event_func env)) (me_alloc env) l st) (\<lambda>st1.
                             respond env 200 ''OK'' (fillFaceProperties (link_at st1 (me_alloc env))) interest pitToken inFace st1)))
            | _ \<Rightarrow> respond env 406 ''URI could not be canonized'' [] interest pitToken inFace st))"

section \<open>Updating and destroying a face\<close>

text \<open>Whether the persistency in the parameters is one that faces with these URIs can have.\<close>

definition bad_persistency :: "LinkService \<Rightarrow> Persistency \<Rightarrow> bool" where
  "bad_persistency f p =
     (if scheme (RemoteURI f) = lit ''ether'' \<and> p \<noteq> PersistencyPermanent then True
      else if (scheme (RemoteURI f) = lit ''udp4'' \<or> scheme (RemoteURI f) = lit ''udp6'') \<and> p \<noteq> PersistencyPersistent \<and> p \<noteq> PersistencyPermanent
      then True
      else scheme (LocalURI f) = lit ''unix'' \<and> p \<noteq> PersistencyPersistent)"

definition update_options :: "ControlArgs \<Rightarrow> NDNLPLinkServiceOptions \<Rightarrow> NDNLPLinkServiceOptions" where
  "update_options params op =
     (let op = (case ca_BaseCongestionMarkInterval params of None \<Rightarrow> op | Some x \<Rightarrow> op\<lparr>BaseCongestionMarkingInterval := sint x\<rparr>);
          op = (case ca_DefaultCongestionThreshold params of None \<Rightarrow> op | Some x \<Rightarrow> op\<lparr>DefaultCongestionThresholdBytes := x\<rparr>)
      in case (ca_Flags params, ca_Mask params) of
           (Some flags, Some msk) \<Rightarrow> apply_flags flags msk op
         | _ \<Rightarrow> op)"

definition update_link :: "ControlArgs \<Rightarrow> LinkService \<Rightarrow> LinkService" where
  "update_link params l =
     (let l = (case ca_FacePersistency params of None \<Rightarrow> l | Some p \<Rightarrow> ls_SetPersistency p l);
          l = (case ca_Mtu params of None \<Rightarrow> l | Some m \<Rightarrow> ls_SetMTU (clamp_mtu m) l)
      in l\<lparr>ls_options := map_option (update_options params) (ls_options l)\<rparr>)"

text \<open>\<^verbatim>\<open>delete\<close> on the dictionary.\<close>

definition without :: "string \<Rightarrow> (string \<times> any) list \<Rightarrow> (string \<times> any) list" where
  "without k = filter (\<lambda>x. fst x \<noteq> k)"

definition face_update :: "'s mg_env \<Rightarrow> mg_interest \<Rightarrow> bytes \<Rightarrow> u64 \<Rightarrow> 's mgmt \<Rightarrow> 's mgmt result" where
  "face_update env interest pitToken inFace st =
     with_parameters env interest pitToken inFace st (\<lambda>params.
       let faceID = face_of params inFace
       in case Table_Get st faceID of
            None \<Rightarrow> respond env 404 ''Face does not exist'' [(''FaceId'', AUint faceID)] interest pitToken inFace st
          | Some a \<Rightarrow>
              let f = link_at st a
              in if scheme (RemoteURI f) = lit ''null'' \<or> scheme (RemoteURI f) = lit ''internal''
                 then respond env 401 ''Face cannot be updated via management'' [(''FaceId'', AUint faceID)] interest pitToken inFace st
                 else if (case ca_FacePersistency params of None \<Rightarrow> False | Some p \<Rightarrow> bad_persistency f p) \<or> lone_flags params
                 then respond env 409 ''ControlParameters are incorrect'' [] interest pitToken inFace st
                 else if ls_options f = None then Inl TypeAssertion
                 else
                   let st1 = upd_link a (update_link params) st
                   in respond env 200 ''OK'' (without ''LocalUri'' (without ''Uri'' (fillFaceProperties (link_at st1 a)))) interest pitToken inFace st1)"

definition face_destroy :: "'s mg_env \<Rightarrow> mg_interest \<Rightarrow> bytes \<Rightarrow> u64 \<Rightarrow> 's mgmt \<Rightarrow> 's mgmt result" where
  "face_destroy env interest pitToken inFace st =
     with_parameters env interest pitToken inFace st (\<lambda>params.
       case ca_FaceId params of
         None \<Rightarrow> respond env 400 ''ControlParameters is incorrect'' [] interest pitToken inFace st
       | Some i \<Rightarrow>
           respond env 200 ''OK'' (ToDict (me_api env) params) interest pitToken inFace
             (if Table_Get st i \<noteq> None then Table_Remove (me_ops env) (Some (event_func env)) i st else st))"

section \<open>Datasets\<close>

text \<open>The faces in the order of their identifiers.\<close>

definition face_list :: "'s mg_env \<Rightarrow> mg_interest \<Rightarrow> bytes \<Rightarrow> 's mgmt \<Rightarrow> 's mgmt result" where
  "face_list env interest pitToken st =
     (if length (int_NameV interest) > prefixLength st + 2 then Inr st
      else
        let links = map (link_at st) (Table_GetAll st);
            sorted = sort_key ls_faceID links;
            dataset = FaceStatusMsg (map (createDataset (te_now (me_tr env))) sorted);
            name = parsed_name env (localPrefix st) ''/faces/list'';
            st1 = publish env name (nextFaceDatasetVersion st) dataset pitToken st
        in Inr (st1\<lparr>nextFaceDatasetVersion := nextFaceDatasetVersion st1 + 1\<rparr>))"

definition face_matches :: "FaceQueryFilter \<Rightarrow> LinkService \<Rightarrow> bool" where
  "face_matches q f =
     ((case fq_FaceId q of None \<Rightarrow> True | Some i \<Rightarrow> i = ls_faceID f) \<and>
      (case fq_UriScheme q of None \<Rightarrow> True | Some s \<Rightarrow> s = scheme (LocalURI f) \<or> s = scheme (RemoteURI f)) \<and>
      (case fq_Uri q of None \<Rightarrow> True | Some s \<Rightarrow> s = uri_String (RemoteURI f)) \<and>
      (case fq_LocalUri q of None \<Rightarrow> True | Some s \<Rightarrow> s = uri_String (LocalURI f)) \<and>
      (case fq_FaceScope q of None \<Rightarrow> True | Some x \<Rightarrow> x = scope_num (tb_scope (ls_transport f))) \<and>
      (case fq_FacePersistency q of None \<Rightarrow> True | Some x \<Rightarrow> x = tb_persistency (ls_transport f)) \<and>
      (case fq_LinkType q of None \<Rightarrow> True | Some x \<Rightarrow> x = linktype_num (tb_linkType (ls_transport f))))"

definition face_query :: "'s mg_env \<Rightarrow> mg_interest \<Rightarrow> bytes \<Rightarrow> 's mgmt \<Rightarrow> 's mgmt result" where
  "face_query env interest pitToken st =
     (if length (int_NameV interest) < prefixLength st + 3 then Inr st
      else (case ParseFaceQueryFilter (me_api env) (Val (int_NameV interest ! (prefixLength st + 2))) of
              None \<Rightarrow> Inr st
            | Some q \<Rightarrow>
                let dataset = FaceStatusMsg (map (createDataset (te_now (me_tr env))) (filter (face_matches q) (map (link_at st) (Table_GetAll st))));
                    st1 = publish env (int_NameV interest) (nextFaceDatasetVersion st) dataset pitToken st
                in Inr (st1\<lparr>nextFaceDatasetVersion := nextFaceDatasetVersion st1 + 1\<rparr>)))"

definition FaceModule_handle :: "'s mg_env \<Rightarrow> mg_interest \<Rightarrow> bytes \<Rightarrow> u64 \<Rightarrow> 's mgmt \<Rightarrow> 's mgmt result" where
  "FaceModule_handle env interest pitToken inFace st =
     (if \<not> from_localhost env interest st then Inr st
      else
        let v = verb env interest st
        in if v = ''create'' then face_create env interest pitToken inFace st
           else if v = ''update'' then face_update env interest pitToken inFace st
           else if v = ''destroy'' then face_destroy env interest pitToken inFace st
           else if v = ''list'' then face_list env interest pitToken st
           else if v = ''query'' then face_query env interest pitToken st
           else if v = ''events'' then face_events env interest pitToken st
           else respond env 501 ''Unknown verb'' [] interest pitToken inFace st)"

section \<open>The management thread\<close>

text \<open>The thread's fields after \<^verbatim>\<open>MakeMgmtThread\<close>: a prefix that does not parse ends the process.\<close>

definition MakeMgmtThread :: "enc_api \<Rightarrow> 's mgmt \<Rightarrow> 's mgmt result" where
  "MakeMgmtThread E st =
     (case (NameFromStr E ''/localhost/nfd'', NameFromStr E ''/localhop/nfd'') of
        (Some l, Some n) \<Rightarrow> Inr (st\<lparr>localPrefix := l, nonLocalPrefix := n, transport_set := False\<rparr>)
      | _ \<Rightarrow> Inl FatalExit)"

text \<open>The beginning of \<^verbatim>\<open>Run\<close>: the internal face and its routes; the second prefix is not checked for errors.\<close>

definition mgmt_start :: "'s mg_env \<Rightarrow> 's mgmt \<Rightarrow> 's mgmt result" where
  "mgmt_start env st =
     rbind (RegisterInternalTransport (Some (event_func env)) (me_alloc env) st) (\<lambda>st1.
       let st2 = st1\<lparr>transport_set := True\<rparr>; i = ls_faceID (link_at st2 (me_alloc env))
       in case NameFromStr (me_enc env) ''/localhost/nfd'' of
            None \<Rightarrow> Inl FatalExit
          | Some faces \<Rightarrow>
              let st3 = set_fib (InsertNextHopEnc (me_ops env) (snd (RibFib st2)) faces i 0) st2
              in Inr (if enableLocalhopManagement env
                      then set_fib (InsertNextHopEnc (me_ops env) (snd (RibFib st3)) (nil_to_empty (NameFromStr (me_enc env) ''/localhop/nfd'')) i 0) st3
                      else st3))"

definition mgmt_dispatch :: "'s mg_env \<Rightarrow> mg_interest \<Rightarrow> bytes \<Rightarrow> u64 \<Rightarrow> 's mgmt \<Rightarrow> 's mgmt result" where
  "mgmt_dispatch env interest pitToken inFace st =
     (if length (int_NameV interest) < length (localPrefix st) + 2 then Inr st
      else if \<not> name_IsPrefix (me_enc env) (localPrefix st) (int_NameV interest) \<and>
              \<not> name_IsPrefix (me_enc env) (nonLocalPrefix st) (int_NameV interest) then Inr st
      else
        let moduleName = component_String (me_api env) (int_NameV interest ! length (localPrefix st))
        in if moduleName = ''cs'' then ContentStoreModule_handle env interest pitToken inFace st
           else if moduleName = ''faces'' then FaceModule_handle env interest pitToken inFace st
           else if moduleName = ''fib'' then FIBModule_handle env interest pitToken inFace st
           else if moduleName = ''rib'' then RIBModule_handle env interest pitToken inFace st
           else if moduleName = ''status'' then ForwarderStatusModule_handle env interest pitToken inFace st
           else if moduleName = ''strategy-choice'' then StrategyChoiceModule_handle env interest pitToken inFace st
           else (case makeControlResponse (me_api env) 501 ''Unknown module'' [] of
                   None \<Rightarrow> Inr st
                 | r \<Rightarrow> sendResponse env r interest pitToken inFace st))"

text \<open>One round of the loop of \<^verbatim>\<open>Run\<close> on a frame from the internal face.\<close>

definition mgmt_step :: "'s mg_env \<Rightarrow> bytes \<Rightarrow> 's mgmt \<Rightarrow> 's mgmt result" where
  "mgmt_step env frame st =
     rbind (InternalTransport_Receive (me_lp env) frame) (\<lambda>r.
       case r of
         None \<Rightarrow> Inr st
       | Some (fragment, pitToken, inFace) \<Rightarrow>
           (case ReadInterest (me_api env) fragment of
              Some (Some interest) \<Rightarrow> mgmt_dispatch env interest pitToken inFace st
            | _ \<Rightarrow> Inr st))"

end
