(* ===== verification/Mgmt_Spec.thy ===== *)
theory Mgmt_Spec
  imports Mgmt_Face
begin

text \<open>
  What commands do. Every answer and every dataset only appends frames and counts versions (\<open>same_tables\<close>); the relation
  \<open>mgmt_effect\<close> lists the changes that a command can make otherwise, each with the guards of its handler, and
  \<open>dispatch_effect\<close> shows that there are no others. The properties of the management thread follow from it by cases.
\<close>

section \<open>Answers and datasets\<close>

definition outside_frames :: "'s mgmt \<Rightarrow> 's mgmt" where
  "outside_frames st = st\<lparr>nextRIBDatasetVersion := 0, nextFIBDatasetVersion := 0, nextStrategyDatasetVersion := 0, nextDatasetVersion := 0,
     nextGeneralDatasetVersion := 0, nextFaceDatasetVersion := 0, sendQueue_frames := []\<rparr>"

definition same_tables :: "'s mgmt \<Rightarrow> 's mgmt \<Rightarrow> bool" where
  "same_tables st st' \<longleftrightarrow> outside_frames st' = outside_frames st"

lemma same_tables_refl [simp, intro]: "same_tables st st"
  by (simp add: same_tables_def)

lemma same_tables_trans: "same_tables st st' \<Longrightarrow> same_tables st' st'' \<Longrightarrow> same_tables st st''"
  by (simp add: same_tables_def)

lemma same_tables_frames [simp]:
  "same_tables st (st'\<lparr>sendQueue_frames := fs\<rparr>) \<longleftrightarrow> same_tables st st'"
  "same_tables st (st'\<lparr>nextRIBDatasetVersion := v\<rparr>) \<longleftrightarrow> same_tables st st'"
  "same_tables st (st'\<lparr>nextFIBDatasetVersion := v\<rparr>) \<longleftrightarrow> same_tables st st'"
  "same_tables st (st'\<lparr>nextStrategyDatasetVersion := v\<rparr>) \<longleftrightarrow> same_tables st st'"
  "same_tables st (st'\<lparr>nextDatasetVersion := v\<rparr>) \<longleftrightarrow> same_tables st st'"
  "same_tables st (st'\<lparr>nextGeneralDatasetVersion := v\<rparr>) \<longleftrightarrow> same_tables st st'"
  "same_tables st (st'\<lparr>nextFaceDatasetVersion := v\<rparr>) \<longleftrightarrow> same_tables st st'"
  by (simp_all add: same_tables_def outside_frames_def)

lemma same_tablesD:
  assumes "same_tables st st'"
  shows "Links st' = Links st" "Faces st' = Faces st" "Dispatch st' = Dispatch st" "RibFib st' = RibFib st" "csCapacity_var st' = csCapacity_var st"
    "nextFaceID st' = nextFaceID st" "localPrefix st' = localPrefix st" "nonLocalPrefix st' = nonLocalPrefix st" "transport_set st' = transport_set st"
    "forwarder.truncate st' = forwarder.truncate st"
  using assms by (cases st; cases st'; simp add: same_tables_def outside_frames_def forwarder.truncate_def)+

lemma Send_same [simp]: "same_tables st (InternalTransport_Send env w tok nh st') \<longleftrightarrow> same_tables st st'"
  by (simp add: InternalTransport_Send_def Let_def split: option.split)

lemma publish_same [simp]: "same_tables st (publish env n v ds tok st') \<longleftrightarrow> same_tables st st'"
  by (simp add: publish_def)

lemma respond_same: "respond env code txt args interest tok inFace st = Inr st' \<Longrightarrow> same_tables st st'"
  by (auto simp: respond_def sendResponse_def split: option.splits)

lemma event_same [simp]: "same_tables st (sendFaceEventNotification env i tok st') \<longleftrightarrow> same_tables st st'"
  by (simp add: sendFaceEventNotification_def split: option.split)

lemma event_func_keeps: "keeps_tables (Some (event_func env))"
proof -
  have "same_tables st (sendFaceEventNotification env i [] st)" for i and st :: "'a mgmt" by simp
  from same_tablesD(10)[OF this] show ?thesis by (simp add: keeps_tables_def event_func_def)
qed

section \<open>The effects of commands\<close>

text \<open>
  The changes by commands: \<open>route\<close> for registering and unregistering, the others only for commands under the local
  prefix.
\<close>

inductive mgmt_effect :: "'s mg_env \<Rightarrow> mg_interest \<Rightarrow> u64 \<Rightarrow> 's mgmt \<Rightarrow> 's mgmt \<Rightarrow> bool" for env interest inFace st where
  quiet: "same_tables st st' \<Longrightarrow> mgmt_effect env interest inFace st st'"
| route: "decodeControlParameters env interest st = Some params \<Longrightarrow> ca_Name params = Some n \<Longrightarrow>
    op = AddOp n (face_of params inFace) orig c fl ex \<and> (names_face params \<longrightarrow> Table_Get st (face_of params inFace) \<noteq> None) \<or>
      op = RemoveOp n (face_of params inFace) orig \<Longrightarrow>
    same_tables (st\<lparr>RibFib := rib_step (me_enc env) (me_ops env) op (RibFib st)\<rparr>) st' \<Longrightarrow> mgmt_effect env interest inFace st st'"
| nexthop: "from_localhost env interest st \<Longrightarrow> f' = InsertNextHopEnc (me_ops env) (snd (RibFib st)) n i c \<or> f' = RemoveNextHopEnc (me_ops env) (snd (RibFib st)) n i \<Longrightarrow>
    same_tables (set_fib f' st) st' \<Longrightarrow> mgmt_effect env interest inFace st st'"
| strategy: "from_localhost env interest st \<Longrightarrow> decodeControlParameters env interest st = Some params \<Longrightarrow> ca_Strategy params = Some s \<Longrightarrow>
    checked_strategy env s st = Inr (Inr s') \<Longrightarrow> same_tables (set_fib (SetStrategyEnc (me_ops env) (snd (RibFib st)) n s') st) st' \<Longrightarrow>
    mgmt_effect env interest inFace st st'"
| unset: "from_localhost env interest st \<Longrightarrow> n \<noteq> [] \<Longrightarrow> same_tables (set_fib (UnSetStrategyEnc (me_ops env) (snd (RibFib st)) n) st) st' \<Longrightarrow>
    mgmt_effect env interest inFace st st'"
| capacity: "from_localhost env interest st \<Longrightarrow> same_tables (SetCsCapacity (sint (c :: u64)) st) st' \<Longrightarrow> mgmt_effect env interest inFace st st'"
| new_face: "from_localhost env interest st \<Longrightarrow> decodeControlParameters env interest st = Some params \<Longrightarrow> ca_Uri params = Some s \<Longrightarrow>
    map_option (Canonize (te_host (me_tr env))) (DecodeURIString (te_host (me_tr env)) s) = Some (u, True) \<Longrightarrow>
    new_face_link (me_tr env) params u = Inr l \<Longrightarrow> GetByURI st u = None \<Longrightarrow>
    add_face (Some (event_func env)) (me_alloc env) l st = Inr st1 \<Longrightarrow> same_tables st1 st' \<Longrightarrow> mgmt_effect env interest inFace st st'"
| updated: "from_localhost env interest st \<Longrightarrow> decodeControlParameters env interest st = Some params \<Longrightarrow>
    Table_Get st (face_of params inFace) = Some a \<Longrightarrow> \<not> lone_flags params \<Longrightarrow> same_tables (upd_link a (update_link params) st) st' \<Longrightarrow>
    mgmt_effect env interest inFace st st'"
| destroyed: "from_localhost env interest st \<Longrightarrow> same_tables (Table_Remove (me_ops env) (Some (event_func env)) i st) st' \<Longrightarrow>
    mgmt_effect env interest inFace st st'"

lemma respond_quiet: "respond env code txt args interest tok inFace st = Inr st' \<Longrightarrow> mgmt_effect env interest inFace st st'"
  by (intro mgmt_effect.quiet respond_same)

lemma with_parameters_Inr:
  assumes "with_parameters env interest tok inFace st k = Inr st'"
  obtains "same_tables st st'" | params where "decodeControlParameters env interest st = Some params" "k params = Inr st'"
  using assms by (auto simp: with_parameters_def dest: respond_same split: if_splits option.splits)

lemma rib_register_effect:
  assumes "rib_register env interest tok inFace st = Inr st'"
  shows "mgmt_effect env interest inFace st st'"
  using assms unfolding rib_register_def
proof (cases rule: with_parameters_Inr)
  case (2 params)
  show ?thesis
  proof (cases "ca_Name params")
    case None
    then show ?thesis using 2(2) by (simp add: respond_quiet)
  next
    case (Some n)
    show ?thesis
    proof (cases "names_face params \<and> Table_Get st (face_of params inFace) = None")
      case True
      then show ?thesis using 2(2) Some by (simp add: respond_quiet)
    next
      case False
      then show ?thesis using 2(2) Some
        by (intro mgmt_effect.route[OF 2(1) Some disjI1]) (auto simp: Let_def dest: respond_same)
    qed
  qed
qed (rule mgmt_effect.quiet)

lemma rib_unregister_effect:
  assumes "rib_unregister env interest tok inFace st = Inr st'"
  shows "mgmt_effect env interest inFace st st'"
  using assms unfolding rib_unregister_def
proof (cases rule: with_parameters_Inr)
  case (2 params)
  show ?thesis
  proof (cases "ca_Name params")
    case None
    then show ?thesis using 2(2) by (simp add: respond_quiet)
  next
    case (Some n)
    then show ?thesis using 2(2) by (intro mgmt_effect.route[OF 2(1) Some disjI2]) (auto simp: Let_def dest: respond_same)
  qed
qed (rule mgmt_effect.quiet)

lemma rib_effect:
  assumes "RIBModule_handle env interest tok inFace st = Inr st'"
  shows "mgmt_effect env interest inFace st st'"
  using assms rib_register_effect[of env interest tok inFace st st'] rib_unregister_effect[of env interest tok inFace st st']
  by (auto simp: RIBModule_handle_def rib_announce_def rib_list_def Let_def intro: respond_quiet mgmt_effect.quiet split: if_splits)

lemma set_fib_respond:
  "respond env code txt args interest tok inFace (set_fib f st) = Inr st' \<Longrightarrow> same_tables (set_fib f st) st'"
  by (rule respond_same)

lemma fib_effect:
  assumes "FIBModule_handle env interest tok inFace st = Inr st'"
  shows "mgmt_effect env interest inFace st st'"
proof (cases "from_localhost env interest st")
  case True
  have "mgmt_effect env interest inFace st st'" if "fib_add env interest tok inFace st = Inr st'"
    using that unfolding fib_add_def
    by (cases rule: with_parameters_Inr)
      (auto simp: Let_def intro: respond_quiet mgmt_effect.quiet mgmt_effect.nexthop[OF True disjI1[OF refl] set_fib_respond] split: option.splits if_splits)
  moreover have "mgmt_effect env interest inFace st st'" if "fib_remove env interest tok inFace st = Inr st'"
    using that unfolding fib_remove_def
    by (cases rule: with_parameters_Inr)
      (auto simp: Let_def intro: respond_quiet mgmt_effect.quiet mgmt_effect.nexthop[OF True disjI2[OF refl] set_fib_respond] split: option.splits if_splits)
  ultimately show ?thesis using assms True
    by (auto simp: FIBModule_handle_def fib_list_def Let_def intro: respond_quiet mgmt_effect.quiet split: if_splits)
qed (use assms in \<open>auto simp: FIBModule_handle_def intro: mgmt_effect.quiet\<close>)

lemma strategy_set_effect:
  assumes "strategy_set env interest tok inFace st = Inr st'" "from_localhost env interest st"
  shows "mgmt_effect env interest inFace st st'"
  using assms(1) unfolding strategy_set_def
proof (cases rule: with_parameters_Inr)
  case (2 params)
  show ?thesis
  proof (cases "(ca_Name params, ca_Strategy params)")
    case (Pair on os)
    show ?thesis
    proof (cases on)
      case None
      then show ?thesis using 2(2) Pair by (simp add: respond_quiet)
    next
      case n: (Some n)
      show ?thesis
      proof (cases os)
        case None
        then show ?thesis using 2(2) Pair n by (simp add: respond_quiet)
      next
        case (Some s)
        obtain r where r: "checked_strategy env s st = Inr r" using 2(2) Pair n Some by (auto simp: rbind_Inr)
        show ?thesis
        proof (cases r)
          case (Inl e)
          then show ?thesis using 2(2) Pair n Some r by (cases e) (simp add: respond_quiet)
        next
          case (Inr s')
          have "same_tables (set_fib (SetStrategyEnc (me_ops env) (snd (RibFib st)) n s') st) st'"
            using 2(2) Pair n Some r Inr by (auto dest: respond_same)
          then show ?thesis using mgmt_effect.strategy[OF assms(2) 2(1) _ r[unfolded Inr]] Pair Some by simp
        qed
      qed
    qed
  qed
qed (rule mgmt_effect.quiet)

lemma strategy_effect:
  assumes "StrategyChoiceModule_handle env interest tok inFace st = Inr st'"
  shows "mgmt_effect env interest inFace st st'"
proof (cases "from_localhost env interest st")
  case True
  have "mgmt_effect env interest inFace st st'" if "strategy_unset env interest tok inFace st = Inr st'"
    using that unfolding strategy_unset_def
    by (cases rule: with_parameters_Inr)
      (auto simp: Let_def intro: respond_quiet mgmt_effect.quiet mgmt_effect.unset[OF True _ set_fib_respond] split: option.splits if_splits)
  then show ?thesis using assms True strategy_set_effect[OF _ True, of tok inFace st']
    by (auto simp: StrategyChoiceModule_handle_def strategy_list_def Let_def intro: respond_quiet mgmt_effect.quiet split: if_splits)
qed (use assms in \<open>auto simp: StrategyChoiceModule_handle_def intro: mgmt_effect.quiet\<close>)

lemma content_store_effect:
  assumes "ContentStoreModule_handle env interest tok inFace st = Inr st'"
  shows "mgmt_effect env interest inFace st st'"
proof (cases "from_localhost env interest st")
  case True
  have "mgmt_effect env interest inFace st st'" if "cs_config env interest tok inFace st = Inr st'"
    using that unfolding cs_config_def
    by (cases rule: with_parameters_Inr)
      (auto intro: respond_quiet mgmt_effect.quiet mgmt_effect.capacity[OF True respond_same] split: option.splits if_splits)
  then show ?thesis using assms True
    by (auto simp: ContentStoreModule_handle_def cs_info_def Let_def rbind_Inr intro: respond_quiet mgmt_effect.quiet split: if_splits)
qed (use assms in \<open>auto simp: ContentStoreModule_handle_def intro: mgmt_effect.quiet\<close>)

lemma status_effect:
  assumes "ForwarderStatusModule_handle env interest tok inFace st = Inr st'"
  shows "mgmt_effect env interest inFace st st'"
  using assms
  by (auto simp: ForwarderStatusModule_handle_def status_general_def Let_def rbind_Inr intro: respond_quiet mgmt_effect.quiet split: if_splits)

text \<open>How creating a face comes out.\<close>

lemma face_create_cases:
  assumes "face_create env interest tok inFace st = Inr st'"
  obtains (refused) "same_tables st st'"
  | (created) params s u l st1 where "decodeControlParameters env interest st = Some params" "ca_Uri params = Some s"
      "map_option (Canonize (te_host (me_tr env))) (DecodeURIString (te_host (me_tr env)) s) = Some (u, True)"
      "new_face_link (me_tr env) params u = Inr l" "GetByURI st u = None" "add_face (Some (event_func env)) (me_alloc env) l st = Inr st1"
      "respond env 200 ''OK'' (fillFaceProperties (link_at st1 (me_alloc env))) interest tok inFace st1 = Inr st'"
  using assms unfolding face_create_def
proof (cases rule: with_parameters_Inr)
  case (2 params)
  show ?thesis
  proof (cases "ca_Uri params")
    case None
    then show ?thesis using 2(2) by (auto intro: refused respond_same)
  next
    case (Some s)
    show ?thesis
    proof (cases "map_option (Canonize (te_host (me_tr env))) (DecodeURIString (te_host (me_tr env)) s)")
      case None
      then show ?thesis using 2(2) Some by (auto intro: refused respond_same)
    next
      case (Some r)
      obtain u ok where r: "r = (u, ok)" by fastforce
      consider "\<not> ok \<or> lone_flags params" | a where "ok" "\<not> lone_flags params" "GetByURI st u = Some a"
        | e where "ok" "\<not> lone_flags params" "GetByURI st u = None" "new_face_link (me_tr env) params u = Inl e"
        | l where "ok" "\<not> lone_flags params" "GetByURI st u = None" "new_face_link (me_tr env) params u = Inr l"
        by (metis obj_sumE option.exhaust)
      then show ?thesis
      proof cases
        case (4 l)
        then obtain st1 where "add_face (Some (event_func env)) (me_alloc env) l st = Inr st1"
          "respond env 200 ''OK'' (fillFaceProperties (link_at st1 (me_alloc env))) interest tok inFace st1 = Inr st'"
          using 2(2) Some r \<open>ca_Uri params = Some s\<close> by (auto simp: rbind_Inr)
        with created[OF 2(1) \<open>ca_Uri params = Some s\<close> _ 4(4,3)] 4(1) Some r show ?thesis by simp
      next
        case (3 e)
        then show ?thesis using 2(2) Some r \<open>ca_Uri params = Some s\<close> refused respond_same by (cases e) fastforce
      qed (use 2(2) Some r \<open>ca_Uri params = Some s\<close> refused respond_same in \<open>fastforce split: if_splits bool.splits\<close>)+
    qed
  qed
qed (rule refused)

lemma face_update_cases:
  assumes "face_update env interest tok inFace st = Inr st'"
  obtains (refused) "same_tables st st'"
  | (updated) params a where "decodeControlParameters env interest st = Some params" "Table_Get st (face_of params inFace) = Some a"
      "\<not> lone_flags params" "ls_options (link_at st a) \<noteq> None" "same_tables (upd_link a (update_link params) st) st'"
  using assms unfolding face_update_def
proof (cases rule: with_parameters_Inr)
  case (2 params)
  show ?thesis
  proof (cases "Table_Get st (face_of params inFace)")
    case None
    then show ?thesis using 2(2) by (auto simp: Let_def intro: refused respond_same)
  next
    case (Some a)
    show ?thesis
      using 2(2) Some refused updated[OF 2(1) Some] respond_same by (simp add: Let_def split: if_splits) blast+
  qed
qed (rule refused)

lemma face_effect:
  assumes "FaceModule_handle env interest tok inFace st = Inr st'"
  shows "mgmt_effect env interest inFace st st'"
proof (cases "from_localhost env interest st")
  case True
  have "mgmt_effect env interest inFace st st'" if "face_create env interest tok inFace st = Inr st'"
    using that by (cases rule: face_create_cases) (auto intro: mgmt_effect.quiet mgmt_effect.new_face[OF True] dest: respond_same)
  moreover have "mgmt_effect env interest inFace st st'" if "face_update env interest tok inFace st = Inr st'"
    using that by (cases rule: face_update_cases) (auto intro: mgmt_effect.quiet mgmt_effect.updated[OF True])
  moreover have "mgmt_effect env interest inFace st st'" if "face_destroy env interest tok inFace st = Inr st'"
    using that unfolding face_destroy_def
    by (cases rule: with_parameters_Inr)
      (auto intro: respond_quiet mgmt_effect.quiet mgmt_effect.destroyed[OF True respond_same] split: option.splits if_splits)
  ultimately show ?thesis using assms True
    by (auto simp: FaceModule_handle_def face_list_def face_query_def face_events_def Let_def intro: respond_quiet mgmt_effect.quiet
          split: if_splits option.splits sum.splits)
qed (use assms in \<open>auto simp: FaceModule_handle_def intro: mgmt_effect.quiet\<close>)

lemma dispatch_effect:
  assumes "mgmt_dispatch env interest tok inFace st = Inr st'"
  shows "mgmt_effect env interest inFace st st'"
proof -
  have "mgmt_effect env interest inFace st st'" if "sendResponse env (makeControlResponse (me_api env) 501 ''Unknown module'' []) interest tok inFace st = Inr st'"
    using that respond_quiet by (fastforce simp: respond_def)
  then show ?thesis using assms
    by (auto simp: mgmt_dispatch_def Let_def intro: mgmt_effect.quiet content_store_effect face_effect fib_effect rib_effect status_effect strategy_effect
          split: if_splits option.splits)
qed

end
