(* ===== verification/Mgmt_System.thy ===== *)
theory Mgmt_System
  imports Mgmt_Spec Strategies
begin

text \<open>
  Management together with the components it manages: the states that commands and network events lead to, the strategies
  that the forwarding threads find after a command, the routes that a command installs, and the faces it creates and
  changes.
\<close>

section \<open>The tables\<close>

definition tables_ok :: "enc_api \<Rightarrow> (FibStrategyTree, 'z) forwarder_scheme \<Rightarrow> bool" where
  "tables_ok E st \<longleftrightarrow> rib_ok UNIV (fst (RibFib st)) \<and> tree_inv E (snd (RibFib st))"

lemma rib_step_tables:
  assumes "rib_ok UNIV (fst s)" "tree_inv E (snd s)"
  shows "rib_ok UNIV (fst (rib_step E (tree_ops E) op s)) \<and> tree_inv E (snd (rib_step E (tree_ops E) op s)) \<and>
    tree_strat (snd (rib_step E (tree_ops E) op s)) = tree_strat (snd s)"
proof -
  have "case op of AddOp n f orig c fl ex \<Rightarrow> n \<in> UNIV | _ \<Rightarrow> True" by (simp split: rib_op.split)
  from ftn.rib_step_effect_nil[OF tree_inv_laws[OF assms(2)] assms this] show ?thesis by (simp add: rib_effect_def)
qed

lemmas cleanup_tables = rib_step_tables[of _ _ "CleanUpOp i" for i, unfolded rib_step.simps]

lemma add_face_RibFib:
  assumes "add_face f a l st = Inr st'" "keeps_tables f"
  shows "RibFib st' = RibFib st"
proof -
  let ?s = "st\<lparr>Links := (Links st)(a \<mapsto> l)\<rparr>"
  have "Table_Add f a ?s = Some st'" using assms(1) by (simp add: add_face_def split: option.splits)
  then show ?thesis using Emit_frame(5)[OF assms(2)] by (auto simp: Table_Add_def Let_def upd_link_def)
qed

text \<open>What a command does to the tables and to the strategies.\<close>

lemma effect_tables:
  assumes "mgmt_effect env interest inFace st st'" "tables_ok E st" "me_ops env = tree_ops E" "me_enc env = E"
  obtains (keep) "tables_ok E st'" "tree_strat (snd (RibFib st')) = tree_strat (snd (RibFib st))"
  | (set) params s s' n where "tables_ok E st'" "tree_strat (snd (RibFib st')) = (tree_strat (snd (RibFib st)))(n := Some s')"
      "decodeControlParameters env interest st = Some params" "ca_Strategy params = Some s" "checked_strategy env s st = Inr (Inr s')"
  | (unset) n where "tables_ok E st'" "tree_strat (snd (RibFib st')) = (tree_strat (snd (RibFib st)))(n := None)" "n \<noteq> []"
proof -
  have inv: "rib_ok UNIV (fst (RibFib st))" "tree_inv E (snd (RibFib st))" using assms(2) by (simp_all add: tables_ok_def)
  note U = tree_insert_contract[OF inv(2)] tree_remove_contract[OF inv(2)] tree_set_contract[OF inv(2)] tree_unset_contract[OF inv(2)]
  note ops = tree_ops_def FibStrategy.simps
  show ?thesis
    using assms(1)
  proof cases
    case quiet
    then show ?thesis using keep assms(2) same_tablesD(4)[OF quiet] by (simp add: tables_ok_def)
  next
    case (route params n op orig c fl ex)
    then show ?thesis using keep rib_step_tables[OF inv, of op] same_tablesD(4)[OF route(4)] assms(3,4) by (simp add: tables_ok_def)
  next
    case (nexthop f' n i c)
    then show ?thesis using keep inv U same_tablesD(4)[OF nexthop(3)] assms(3,4)
      by (auto simp: tables_ok_def set_fib_def ops)
  next
    case (strategy params s s' n)
    then show ?thesis using set[of n s' params s] inv U same_tablesD(4)[OF strategy(5)] assms(3,4) by (simp add: tables_ok_def set_fib_def ops)
  next
    case (unset n)
    then show ?thesis using that(3)[of n] inv U same_tablesD(4)[OF unset(3)] assms(3,4) by (simp add: tables_ok_def set_fib_def ops)
  next
    case (capacity c)
    then show ?thesis using keep assms(2) same_tablesD(4)[OF capacity(2)] by (simp add: tables_ok_def SetCsCapacity_def)
  next
    case (new_face params s u l st1)
    have "RibFib st1 = RibFib st" by (rule add_face_RibFib[OF new_face(7) event_func_keeps])
    then show ?thesis using keep assms(2) same_tablesD(4)[OF new_face(8)] by (simp add: tables_ok_def)
  next
    case (updated params a)
    then show ?thesis using keep assms(2) same_tablesD(4)[OF updated(5)] by (simp add: tables_ok_def)
  next
    case (destroyed i)
    have "RibFib st' = CleanUpFace (tree_ops E) (RibFib st) i"
      using same_tablesD(4)[OF destroyed(2)] assms(3) by (simp add: Table_Remove_eq(4)[OF event_func_keeps])
    then show ?thesis using keep cleanup_tables[OF inv, of i] by (simp add: tables_ok_def)
  qed
qed

section \<open>Network events and commands\<close>

text \<open>The RIB and the FIB after a network event: they are cleaned of the faces that left the table.\<close>

definition cleaned_tables :: "'s FibStrategy \<Rightarrow> ('s, 'z) forwarder_scheme \<Rightarrow> ('s, 'z) forwarder_scheme \<Rightarrow> bool" where
  "cleaned_tables ops st st' \<longleftrightarrow> (\<exists>faces. RibFib st' = fold (\<lambda>i s. CleanUpFace ops s i) faces (RibFib st))"

lemma cleaned_same: "RibFib st' = RibFib st \<Longrightarrow> cleaned_tables ops st st'"
  unfolding cleaned_tables_def by (intro exI[of _ "[]"]) simp

lemma cleaned_more: "cleaned_tables ops st st1 \<Longrightarrow> RibFib st' = CleanUpFace ops (RibFib st1) i \<Longrightarrow> cleaned_tables ops st st'"
  unfolding cleaned_tables_def by (elim exE, rule_tac x = "faces @ [i]" in exI) simp

lemma tb_upd_RibFib [simp]: "RibFib (tb_upd a g st) = RibFib st"
  by (simp add: tb_upd_def)

lemma cleaned_tb_upd [simp]: "cleaned_tables ops st (tb_upd a g st') \<longleftrightarrow> cleaned_tables ops st st'"
  by (simp add: cleaned_tables_def)

lemma cleaned_upd_link [simp]: "cleaned_tables ops st (upd_link a g st') \<longleftrightarrow> cleaned_tables ops st st'"
  by (simp add: cleaned_tables_def)

lemma changeState_cleaned:
  assumes "keeps_tables f" "cleaned_tables ops st st1"
  shows "cleaned_tables ops st (changeState ops f a new st1)"
proof -
  have "cleaned_tables ops st (Table_Remove ops f i (upd_link a g st1))" for i g
    by (rule cleaned_more[of ops st "upd_link a g st1" _ i]) (use assms in \<open>simp_all add: Table_Remove_eq(4)\<close>)
  then show ?thesis using assms by (simp add: changeState_def Let_def)
qed

lemma changeState_RibFib: "keeps_tables f \<Longrightarrow> RibFib st1 = RibFib st \<Longrightarrow> cleaned_tables ops st (changeState ops f a new st1)"
  by (simp add: changeState_cleaned cleaned_same)

lemma failure_RibFib: "keeps_tables f \<Longrightarrow> RibFib st1 = RibFib st \<Longrightarrow> onTransportFailure E ops f a st1 = Inr st' \<Longrightarrow> cleaned_tables ops st st'"
  by (auto simp: onTransportFailure_def changeState_RibFib cleaned_same split: if_splits)

lemma sendFrame_RibFib:
  assumes "keeps_tables f" "sendFrame E ops f a written frame st = Inr st'"
  shows "cleaned_tables ops st st'"
  using assms
  by (auto simp: sendFrame_defs changeState_RibFib cleaned_same failure_RibFib split: if_splits transport_kind.splits)

lemma runReceive_RibFib:
  assumes "keeps_tables f" "runReceive E ops f a binary ev st = Inr (out, again, st')"
  shows "cleaned_tables ops st st'"
  using assms
  by (cases ev; cases "tb_kind (tb_at st a)")
    (auto simp: runReceive_defs Let_def rbind_Inr changeState_RibFib changeState_cleaned cleaned_same failure_RibFib split: if_splits sum.splits)

lemma net_step_RibFib:
  assumes "net_step E ops f st st'" "keeps_tables f"
  shows "cleaned_tables ops st st'"
  using assms(1)
proof cases
  case (udp a l remote)
  then show ?thesis using assms(2) by (auto simp: UDPListener_accept_def Let_def intro: cleaned_same add_face_RibFib split: if_splits option.splits)
next
  case (tcp a l remote)
  then show ?thesis using assms(2)
    by (auto simp: TCPListener_accept_def AcceptUnicastTCPTransport_def Let_def rbind_Inr intro: cleaned_same add_face_RibFib split: if_splits)
next
  case (unix a l fd fd')
  then show ?thesis using assms(2)
    by (auto simp: UnixStreamListener_accept_def MakeUnixStreamTransport_def Let_def rbind_Inr intro: cleaned_same add_face_RibFib split: if_splits option.splits)
next
  case (web_socket a l remote)
  then show ?thesis using assms(2) by (auto simp: WebSocketListener_handler_def NewWebSocketTransport_def Let_def intro: cleaned_same add_face_RibFib)
next
  case (internal a)
  then show ?thesis using assms(2) by (auto simp: RegisterInternalTransport_def MakeInternalTransport_def intro: cleaned_same add_face_RibFib)
next
  case (expiring now a again)
  then show ?thesis using assms(2) by (auto simp: expirationHandler_def Let_def changeState_RibFib cleaned_same split: if_splits)
next
  case (unix_receiving a ev r out' again r')
  then show ?thesis using assms(2) by (cases ev) (auto simp: unix_runReceive_def rbind_Inr changeState_RibFib cleaned_same)
next
  case (destroying i)
  then show ?thesis using assms(2) by (auto simp: Table_Remove_eq(4) intro: cleaned_more[OF cleaned_same])
next
  case (null a)
  then show ?thesis using assms(2) by (auto intro: cleaned_same add_face_RibFib)
next
  case (multicast_udp a u t)
  then show ?thesis using assms(2) by (auto intro: cleaned_same add_face_RibFib)
next
  case (multicast_ethernet a activated r u t)
  then show ?thesis using assms(2) by (auto intro: cleaned_same add_face_RibFib)
qed (use assms(2) sendFrame_RibFib runReceive_RibFib in blast)+

text \<open>The states of the forwarder that management starts in, that network events lead to, and that commands lead to.\<close>

definition env_for :: "enc_api \<Rightarrow> FibStrategyTree mg_env \<Rightarrow> FibStrategyTree mgmt \<Rightarrow> bool" where
  "env_for E env st \<longleftrightarrow> me_enc env = E \<and> me_ops env = tree_ops E \<and> can_add (me_alloc env) st"

inductive sys_reach :: "enc_api \<Rightarrow> FibStrategyTree mgmt \<Rightarrow> bool" for E where
  start: "Faces st = [] \<Longrightarrow> Dispatch st = Map.empty \<Longrightarrow> RibFib st = (Rib_init, newFibStrategyTableTree E) \<Longrightarrow> sys_reach E st"
| boot: "sys_reach E st \<Longrightarrow> env_for E env st \<Longrightarrow> mgmt_start env st = Inr st' \<Longrightarrow> sys_reach E st'"
| network: "sys_reach E st \<Longrightarrow> env_for E env st \<Longrightarrow> net_step (me_tr env) (me_ops env) (Some (event_func env)) st st' \<Longrightarrow> sys_reach E st'"
| command: "sys_reach E st \<Longrightarrow> env_for E env st \<Longrightarrow> mgmt_step env frame st = Inr st' \<Longrightarrow> sys_reach E st'"

inductive_cases sys_reachE: "sys_reach E st"

lemma life_same: "same_tables st st' \<Longrightarrow> life_ok st' \<longleftrightarrow> life_ok st"
  using same_tablesD[of st st'] by (simp add: life_ok_def ft_inv_def faces_up_def link_at_def)

lemma life_RibFib [simp]: "life_ok (st\<lparr>RibFib := x\<rparr>) \<longleftrightarrow> life_ok st"
  by (simp add: life_ok_def ft_inv_def faces_up_def link_at_def)

lemma life_set_fib: "life_ok (set_fib f st) \<longleftrightarrow> life_ok st"
  by (simp add: set_fib_def)

lemma life_capacity: "life_ok (SetCsCapacity c st) \<longleftrightarrow> life_ok st"
  by (simp add: SetCsCapacity_def life_ok_def ft_inv_def faces_up_def link_at_def)

lemma new_face_link_Inr:
  assumes "new_face_link T params u = Inr l"
  obtains t p where "create_persistency params = Some p" "MakeUnicastUDPTransport T u None p = Some t \<or> MakeUnicastTCPTransport T u None p = Some t"
    "l = new_link (case ca_Mtu params of None \<Rightarrow> t | Some m \<Rightarrow> tb_SetMTU (clamp_mtu m) t) (Some (create_options params))"
  using assms by (auto simp: new_face_link_def make_link_def Let_def split: if_splits option.splits)

lemma new_face_up: "new_face_link T params u = Inr l \<Longrightarrow> tb_state (ls_transport l) = Up \<and> RemoteURI l = u"
  by (erule new_face_link_Inr)
    (auto simp: tb_SetMTU_def dest!: MakeUnicastUDPTransport_Some MakeUnicastTCPTransport_Some split: option.split)

lemma tb_SetPersistency_keeps [simp]:
  "tb_state (snd (tb_SetPersistency p t)) = tb_state t" "tb_faceID (snd (tb_SetPersistency p t)) = tb_faceID t"
  "tb_remoteURI (snd (tb_SetPersistency p t)) = tb_remoteURI t"
  by (simp_all add: tb_SetPersistency_def split: transport_kind.split)

lemma update_link_keeps [simp]:
  "ls_faceID (update_link params l) = ls_faceID l" "tb_faceID (ls_transport (update_link params l)) = tb_faceID (ls_transport l)"
  "tb_state (ls_transport (update_link params l)) = tb_state (ls_transport l)" "RemoteURI (update_link params l) = RemoteURI l"
  by (simp_all add: update_link_def Let_def ls_SetPersistency_def ls_SetMTU_def tb_SetMTU_def split: option.split)

lemma update_life:
  assumes "life_ok st"
  shows "life_ok (upd_link a (update_link params) st)"
proof -
  have "ft_inv (upd_link a (update_link params) st)" using assms by (intro upd_link_keeps) (simp_all add: life_ok_def)
  moreover have "faces_up (upd_link a (update_link params) st)"
    using assms ft_invD[of st] by (fastforce simp: life_ok_def faces_up_def link_at_def)
  ultimately show ?thesis by (simp add: life_ok_def)
qed

lemma effect_life:
  assumes "mgmt_effect env interest inFace st st'" "life_ok st" "can_add (me_alloc env) st"
  shows "life_ok st'"
  using assms(1)
proof cases
  case (new_face params s u l st1)
  then show ?thesis using add_face_life[OF assms(2) event_func_keeps assms(3) new_face(7)] new_face_up life_same by blast
next
  case (updated params a)
  then show ?thesis using update_life[OF assms(2)] life_same by blast
next
  case (destroyed i)
  then show ?thesis using Table_Remove_life[OF assms(2) event_func_keeps] life_same by blast
qed (use assms(2) in \<open>simp_all add: life_same life_set_fib life_capacity\<close>)

lemma tables_set_fib: "tables_ok E st \<Longrightarrow> tree_inv E f \<Longrightarrow> tables_ok E (set_fib f st)"
  by (simp add: tables_ok_def set_fib_def)

lemma cleanups_tables:
  "rib_ok UNIV (fst s) \<Longrightarrow> tree_inv E (snd s) \<Longrightarrow>
     rib_ok UNIV (fst (fold (\<lambda>i s. CleanUpFace (tree_ops E) s i) faces s)) \<and> tree_inv E (snd (fold (\<lambda>i s. CleanUpFace (tree_ops E) s i) faces s))"
  using cleanup_tables[of _ E] by (induction faces arbitrary: s) simp_all

lemma mgmt_start_keeps:
  assumes "mgmt_start env st = Inr st'" "env_for E env st" "life_ok st" "tables_ok E st"
  shows "life_ok st' \<and> tables_ok E st'"
proof -
  obtain st1 where st1: "RegisterInternalTransport (Some (event_func env)) (me_alloc env) st = Inr st1"
    using assms(1) by (auto simp: mgmt_start_def rbind_Inr)
  have "life_ok st1" "RibFib st1 = RibFib st"
    using st1 assms(2,3) add_face_life[OF assms(3) event_func_keeps] add_face_RibFib[OF _ event_func_keeps]
    by (auto simp: RegisterInternalTransport_def MakeInternalTransport_def env_for_def)
  moreover have "life_ok (st1\<lparr>transport_set := True\<rparr>) \<longleftrightarrow> life_ok st1" by (simp add: life_ok_def ft_inv_def faces_up_def link_at_def)
  moreover have "tables_ok E (st1\<lparr>transport_set := True\<rparr>)" using assms(4) calculation(2) by (simp add: tables_ok_def)
  ultimately show ?thesis
    using assms(1,2) st1
    by (auto simp: mgmt_start_def rbind_Inr Let_def env_for_def life_set_fib tree_ops_def tables_ok_def set_fib_def tree_insert_contract split: option.splits if_splits)
qed

lemma mgmt_step_cases:
  assumes "mgmt_step env frame st = Inr st'"
  obtains "st' = st" | interest tok inFace where "mgmt_dispatch env interest tok inFace st = Inr st'"
proof -
  obtain r where r: "InternalTransport_Receive (me_lp env) frame = Inr r" using assms by (auto simp: mgmt_step_def rbind_Inr)
  show ?thesis
  proof (cases "r = None \<or> (\<forall>fragment tok inFace. r = Some (fragment, tok, inFace) \<longrightarrow> (\<nexists>i. ReadInterest (me_api env) fragment = Some (Some i)))")
    case True
    then have "st' = st" using assms r by (auto simp: mgmt_step_def split: option.splits)
    then show ?thesis by (rule that(1))
  next
    case False
    then show ?thesis using assms r that(2) by (auto simp: mgmt_step_def)
  qed
qed

section \<open>Strategy names\<close>

definition strategy_comp :: "string \<Rightarrow> component" where
  "strategy_comp s = \<lparr>Typ = 8, Val = map of_char s\<rparr>"

text \<open>The documented URI format of components: only the generic components with these values print as the names of the strategies.\<close>

definition component_laws :: "mg_api \<Rightarrow> bool" where
  "component_laws api \<longleftrightarrow> (\<forall>k\<in>{''best-route'', ''multicast''}. \<forall>c. component_String api c = k \<longleftrightarrow> c = strategy_comp k)"

lemma StrategyVersions_dom: "StrategyVersions k = Some vs \<longleftrightarrow> k \<in> {''best-route'', ''multicast''} \<and> vs = [1]"
  by (auto simp: StrategyVersions_def split: if_splits)

lemma newest_single [simp]: "newest [v] = v"
  by (simp add: newest_def)

lemma prefix_longer: "prefix p s \<Longrightarrow> length s > length p \<Longrightarrow> \<exists>c rest. s = p @ c # rest"
  by (auto elim!: prefixE simp: neq_Nil_conv)

text \<open>The strategy names that are accepted, and what is stored for them.\<close>

lemma checked_strategy_iff:
  assumes "enc_laws (me_enc env)" "component_laws (me_api env)"
  shows "checked_strategy env s st = Inr (Inr s') \<longleftrightarrow> (\<exists>k\<in>{''best-route'', ''multicast''}.
      s = strategyPrefix st @ [strategy_comp k] \<and> s' = s @ [NewVersionComponent (me_api env) 1] \<or>
      (\<exists>v rest. s = strategyPrefix st @ strategy_comp k # v # rest \<and> Typ v = 0x36 \<and> DecodeNNI (Val v) = Inr 1 \<and> s' = s))"
    (is "?lhs \<longleftrightarrow> ?rhs")
proof
  assume l: ?lhs
  then have p: "prefix (strategyPrefix st) s" "length s > length (strategyPrefix st)"
    using enc_lawsD(3)[OF assms(1)] by (auto simp: checked_strategy_def Let_def split: if_splits)
  obtain c rest where s: "s = strategyPrefix st @ c # rest" using prefix_longer[OF p] by blast
  obtain vs where vs: "StrategyVersions (component_String (me_api env) c) = Some vs"
    using l s p enc_lawsD(3)[OF assms(1)] by (auto simp: checked_strategy_def Let_def split: option.splits if_splits)
  define k where "k = component_String (me_api env) c"
  have k: "k \<in> {''best-route'', ''multicast''}" "vs = [1]" using vs by (simp_all add: StrategyVersions_dom k_def)
  then have c: "c = strategy_comp k" using assms(2) unfolding component_laws_def k_def by blast
  show ?rhs
  proof (cases rest)
    case Nil
    then show ?thesis using l s p(1) vs k c enc_lawsD(3)[OF assms(1)] by (auto simp: checked_strategy_def Let_def)
  next
    case (Cons v rest')
    have "Typ v = 0x36 \<and> DecodeNNI (Val v) = Inr 1 \<and> s' = s"
      using l s Cons p(1) vs k(2) enc_lawsD(3)[OF assms(1)] by (auto simp: checked_strategy_def Let_def nth_append split: if_splits sum.splits)
    then show ?thesis using k(1) c s Cons by blast
  qed
next
  assume ?rhs
  then show ?lhs
  proof (elim bexE)
    fix k assume k: "k \<in> {''best-route'', ''multicast''}" "s = strategyPrefix st @ [strategy_comp k] \<and> s' = s @ [NewVersionComponent (me_api env) 1] \<or>
      (\<exists>v rest. s = strategyPrefix st @ strategy_comp k # v # rest \<and> Typ v = 0x36 \<and> DecodeNNI (Val v) = Inr 1 \<and> s' = s)"
    have "component_String (me_api env) (strategy_comp k) = k" using assms(2) k(1) unfolding component_laws_def by blast
    then have "StrategyVersions (component_String (me_api env) (strategy_comp k)) = Some [1]" using k(1) by (simp add: StrategyVersions_dom)
    then show ?lhs using k(2) enc_lawsD(3)[OF assms(1)] by (auto simp: checked_strategy_def Let_def nth_append)
  qed
qed

text \<open>The strategies that every thread instantiates.\<close>

lemma Instantiate_known:
  assumes "InstantiateStrategies E vc = Some strats" "NameFromStr E ''/localhost/nfd/strategy'' = Some P" "k \<in> {''best-route'', ''multicast''}"
  shows "strats (name_Hash E (P @ [strategy_comp k, vc 1])) \<noteq> None"
  using assms by (auto simp: InstantiateStrategies_def StrategyName_def strategy_comp_def)

definition strategies_known :: "enc_api \<Rightarrow> (u64 \<rightharpoonup> Strategy) \<Rightarrow> FibStrategyTree \<Rightarrow> bool" where
  "strategies_known E strats f \<longleftrightarrow> tree_strat f [] \<noteq> None \<and> (\<forall>n s. tree_strat f n = Some s \<longrightarrow> strats (name_Hash E s) \<noteq> None)"

lemma strategies_known_lookup:
  assumes "strategies_known E strats f" "tree_inv E f"
  shows "\<exists>s. FindStrategyEnc (tree_ops E) f n = Inr s \<and> strats (name_Hash E (nil_to_empty s)) \<noteq> None"
proof -
  have "FindStrategyEnc (tree_ops E) f n = Inr (lpm (tree_strat f) n)" using tree_FindStrategy_lpm[OF tree_inv_laws[OF assms(2)]] by (simp add: tree_ops_def)
  moreover obtain s where s: "lpm (tree_strat f) n = Some s"
    using assms(1) lpm_None[of "tree_strat f" n] by (cases "lpm (tree_strat f) n") (auto simp: strategies_known_def)
  then obtain p where "tree_strat f p = Some s" unfolding lpm_spec by blast
  ultimately show ?thesis using s assms(1) by (auto simp: strategies_known_def nil_to_empty_def)
qed

section \<open>Flags and the MTU\<close>

unbundle bit_operations_syntax

lemma flag_bits:
  "(x :: u64) AND 1 > 0 \<longleftrightarrow> bit x 0" "x AND 2 > 0 \<longleftrightarrow> bit x 1" "x AND 4 > 0 \<longleftrightarrow> bit x 2"
proof -
  have "x AND 2 ^ n \<noteq> 0 \<longleftrightarrow> bit x n" if "n < 64" for n
    by (simp add: and_exp_eq_0_iff_not_bit)
  from this[of 0] this[of 1] this[of 2] show "(x :: u64) AND 1 > 0 \<longleftrightarrow> bit x 0" "x AND 2 > 0 \<longleftrightarrow> bit x 1" "x AND 4 > 0 \<longleftrightarrow> bit x 2"
    by (simp_all add: word_gt_0)
qed

lemma bit_Flags:
  "bit (Link_Service.Flags op) n \<longleftrightarrow> n = 0 \<and> IsConsumerControlledForwardingEnabled op \<or> n = 1 \<and> IsReliabilityEnabled op \<or> n = 2 \<and> IsCongestionMarkingEnabled op"
proof -
  have b: "bit (1 :: u64) n \<longleftrightarrow> n = 0" "bit (2 :: u64) n \<longleftrightarrow> n = 1" "bit (4 :: u64) n \<longleftrightarrow> n = 2"
    using bit_exp_iff[of 0 n] bit_exp_iff[of 1 n] bit_exp_iff[of 2 n] by (auto simp del: bit_numeral_word_iff)
  show ?thesis
    by (auto simp: Link_Service.Flags_def Let_def FaceFlagLocalFields_def FaceFlagLpReliabilityEnabled_def FaceFlagCongestionMarking_def bit_or_iff b simp del: bit_numeral_word_iff)
qed

lemma Flags_apply: "Link_Service.Flags (apply_flags fl m op) = (Link_Service.Flags op AND NOT m) OR (fl AND m AND 7)"
proof (rule bit_word_eqI)
  fix n assume n: "n < LENGTH(64)"
  have 7: "bit (7 :: u64) n \<longleftrightarrow> n = 0 \<or> n = 1 \<or> n = 2" for n
    using bit_mask_iff[of 3 n, where 'a = "64 word"] by (auto simp: mask_numeral simp del: bit_numeral_word_iff)
  show "bit (Link_Service.Flags (apply_flags fl m op)) n = bit ((Link_Service.Flags op AND NOT m) OR (fl AND m AND 7)) n"
    using n
    by (auto simp: bit_Flags bit_and_iff bit_or_iff bit_not_iff 7 apply_flags_def Let_def FaceFlagLocalFields_def FaceFlagLpReliabilityEnabled_def
        FaceFlagCongestionMarking_def flag_bits simp del: bit_numeral_word_iff)
qed

lemma clamp_mtu_min: "clamp_mtu m = min MaxNDNPacketSize (uint m)"
proof -
  have "m > of_int MaxNDNPacketSize \<longleftrightarrow> uint m > 8800" by (simp add: MaxNDNPacketSize_def word_less_def)
  moreover have "sint m = uint m" if "uint m \<le> 8800"
    using that signed_take_bit_int_eq_self_iff[of 63 "uint m"] uint_ge_0[of m] by (simp add: sint_uint)
  ultimately show ?thesis by (auto simp: clamp_mtu_def MaxNDNPacketSize_def)
qed

lemma update_options_flags:
  assumes "ca_Flags params = Some f" "ca_Mask params = Some m"
  shows "Link_Service.Flags (update_options params op) = (Link_Service.Flags op AND NOT m) OR (f AND m AND 7)"
    "IsFragmentationEnabled (update_options params op) = IsFragmentationEnabled op"
    "IsReassemblyEnabled (update_options params op) = IsReassemblyEnabled op"
proof -
  have F: "Link_Service.Flags (op\<lparr>BaseCongestionMarkingInterval := x\<rparr>) = Link_Service.Flags op"
    "Link_Service.Flags (op\<lparr>DefaultCongestionThresholdBytes := y\<rparr>) = Link_Service.Flags op" for x y op
    by (simp_all add: Link_Service.Flags_def)
  show "Link_Service.Flags (update_options params op) = (Link_Service.Flags op AND NOT m) OR (f AND m AND 7)"
    using assms by (auto simp: update_options_def Let_def Flags_apply F split: option.split)
  show "IsFragmentationEnabled (update_options params op) = IsFragmentationEnabled op"
    "IsReassemblyEnabled (update_options params op) = IsReassemblyEnabled op"
    using assms by (auto simp: update_options_def apply_flags_def Let_def split: option.split)
qed

section \<open>Answers\<close>

text \<open>The documented behaviour of the encoders: a dictionary is converted when its values have the types of their keys, and Data
  and link-layer packets can be encoded.\<close>

definition typed_entry :: "string \<times> any \<Rightarrow> bool" where
  "typed_entry kv \<longleftrightarrow>
     (case snd kv of
        AName n \<Rightarrow> fst kv = ''Name''
      | AStrategy n \<Rightarrow> fst kv = ''Strategy''
      | AString u \<Rightarrow> fst kv \<in> {''Uri'', ''LocalUri''}
      | AUint x \<Rightarrow> fst kv \<notin> {''Name'', ''Strategy'', ''Uri'', ''LocalUri''}
      | AInt x \<Rightarrow> False)"

definition encoder_laws :: "'s mg_env \<Rightarrow> bool" where
  "encoder_laws env \<longleftrightarrow>
     (\<forall>d. list_all typed_entry d \<longrightarrow> DictToControlArgs (me_api env) d \<noteq> None) \<and>
     (\<forall>n c w. MakeData (me_api env) n c w \<noteq> None) \<and> (\<forall>p. EncodeLp (me_lp env) p \<noteq> None)"

text \<open>The frame that carries a response back to the face of the command.\<close>

definition answer_frame :: "'s mg_env \<Rightarrow> mg_interest \<Rightarrow> bytes \<Rightarrow> u64 \<Rightarrow> ControlResponse \<Rightarrow> bytes" where
  "answer_frame env interest tok inFace r =
     wire_Join (me_lp env) (the (EncodeLp (me_lp env)
       (empty_lp\<lparr>Fragment := the (MakeData (me_api env) (int_NameV interest) (blob_config (1000 * Millisecond) None) (EncodeResponse (me_api env) r)),
         lp_PitToken := tok, lp_NextHopFaceId := Some inFace\<rparr>)))"

lemma respond_answers:
  assumes "encoder_laws env" "list_all typed_entry args"
  shows "\<exists>r. StatusCode r = code \<and>
    respond env code txt args interest tok inFace st = Inr (st\<lparr>sendQueue_frames := sendQueue_frames st @ [answer_frame env interest tok inFace r]\<rparr>)"
proof -
  obtain ps where ps: "DictToControlArgs (me_api env) args = Some ps" using assms unfolding encoder_laws_def by blast
  let ?r = "\<lparr>StatusCode = code, StatusText = txt, Params = ps\<rparr>"
  obtain d where d: "MakeData (me_api env) (int_NameV interest) (blob_config (1000 * Millisecond) None) (EncodeResponse (me_api env) ?r) = Some d"
    using assms(1) unfolding encoder_laws_def by blast
  have e: "empty_lp\<lparr>Fragment := d, lp_NextHopFaceId := Some inFace\<rparr> = empty_lp\<lparr>Fragment := d, lp_PitToken := [], lp_NextHopFaceId := Some inFace\<rparr>"
    by (simp add: empty_lp_def)
  obtain w where w: "EncodeLp (me_lp env) (empty_lp\<lparr>Fragment := d, lp_PitToken := tok, lp_NextHopFaceId := Some inFace\<rparr>) = Some w"
    using assms(1) unfolding encoder_laws_def by blast
  show ?thesis
    using w by (intro exI[of _ ?r])
      (cases tok; simp add: respond_def sendResponse_def makeControlResponse_def ps d InternalTransport_Send_def answer_frame_def e)
qed

end
