(* ===== verification/Mgmt_Props.thy ===== *)
theory Mgmt_Props
  imports Mgmt_System
begin

text \<open>
  The properties of management: the invariant of the whole system, the strategies and routes that commands leave behind, the
  faces they create and change, the commands that are open to remote applications, and that commands are answered. The
  concrete instance at the end is the one on which the properties are applied.
\<close>

section \<open>Properties\<close>

text \<open>C33. The whole system: whatever commands management carries out and whatever happens to the sockets, in any order, the face
  table is intact, every face in it is up, the RIB is well formed and the FIB satisfies its invariant.\<close>

theorem system_invariant:
  assumes "sys_reach E st" "enc_laws E"
  shows "ft_inv st \<and> (\<forall>(i, a)\<in>set (Faces st). tb_state (tb_at st a) = Up) \<and> rib_ok UNIV (fst (RibFib st)) \<and> tree_inv E (snd (RibFib st))"
proof -
  have "life_ok st \<and> tables_ok E st"
    using assms(1)
  proof induction
    case (start st)
    then show ?case
      using newFibStrategyTableTree_inv[OF assms(2)] by (simp add: life_ok_def ft_inv_def faces_up_def tables_ok_def Rib_init_ok)
  next
    case (boot st env st')
    then show ?case using mgmt_start_keeps by blast
  next
    case (network st env st')
    have "life_ok st'" using net_step_life[OF network(3) _ event_func_keeps] network.IH by blast
    moreover have "tables_ok E st'"
      using net_step_RibFib[OF network(3) event_func_keeps] network.IH network.hyps(2) cleanups_tables[of "RibFib st" E]
      by (auto simp: tables_ok_def cleaned_tables_def env_for_def)
    ultimately show ?case by simp
  next
    case (command st env frame st')
    from command.hyps(3) show ?case
    proof (cases rule: mgmt_step_cases)
      case 1
      then show ?thesis using command.IH by simp
    next
      case (2 interest tok inFace)
      have eff: "mgmt_effect env interest inFace st st'" by (rule dispatch_effect[OF 2])
      have env: "me_ops env = tree_ops E" "me_enc env = E" "can_add (me_alloc env) st" using command.hyps(2) by (simp_all add: env_for_def)
      have "life_ok st'" using effect_life[OF eff _ env(3)] command.IH by blast
      moreover have "tables_ok E st'" by (rule effect_tables[OF eff _ env(1,2)]) (use command.IH in simp_all)
      ultimately show ?thesis by simp
    qed
  qed
  then show ?thesis by (simp add: life_ok_def faces_up_def tables_ok_def)
qed

text \<open>C34. While commands name strategies exactly (the prefix, the strategy, and no version or the version 1 as the code encodes it), every
  lookup in the FIB keeps finding a strategy that the forwarding threads have instantiated, as they need in order not to
  panic; the root never loses its strategy.\<close>

theorem commands_keep_strategies:
  assumes "mgmt_dispatch env interest tok inFace st = Inr st'" "tables_ok E st" "me_ops env = tree_ops E" "me_enc env = E"
    and laws: "component_laws (me_api env)" "InstantiateStrategies E (NewVersionComponent (me_api env)) = Some strats"
      "NameFromStr E ''/localhost/nfd/strategy'' = Some (strategyPrefix st)"
    and known: "strategies_known E strats (snd (RibFib st))"
    and exact: "\<forall>params s. decodeControlParameters env interest st = Some params \<longrightarrow> ca_Strategy params = Some s \<longrightarrow>
      length s \<le> length (strategyPrefix st) + 1 \<or> s = butlast s @ [NewVersionComponent (me_api env) 1] \<and> length s = length (strategyPrefix st) + 2"
  shows "strategies_known E strats (snd (RibFib st')) \<and>
    (\<forall>n. \<exists>s. FindStrategyEnc (tree_ops E) (snd (RibFib st')) n = Inr s \<and> strats (name_Hash E (nil_to_empty s)) \<noteq> None)"
proof -
  have E: "enc_laws E" using assms(2) tree_inv_laws by (auto simp: tables_ok_def)
  have "tables_ok E st' \<and> strategies_known E strats (snd (RibFib st'))"
    using dispatch_effect[OF assms(1)] assms(2-4)
  proof (cases rule: effect_tables)
    case keep
    then show ?thesis using known by (simp add: strategies_known_def)
  next
    case (set params s s' n)
    obtain k where k: "k \<in> {''best-route'', ''multicast''}" and
      s: "s = strategyPrefix st @ [strategy_comp k] \<and> s' = s @ [NewVersionComponent (me_api env) 1] \<or>
          (\<exists>v rest. s = strategyPrefix st @ strategy_comp k # v # rest \<and> s' = s)"
      using set(5) checked_strategy_iff[of env s st s'] E laws(1) assms(4) by blast
    have "length s \<le> length (strategyPrefix st) + 1 \<or> s = butlast s @ [NewVersionComponent (me_api env) 1] \<and> length s = length (strategyPrefix st) + 2"
      using exact set(3,4) by blast
    with s have "s' = strategyPrefix st @ [strategy_comp k, NewVersionComponent (me_api env) 1]"
      by (auto simp: butlast_append)
    then have "strats (name_Hash E s') \<noteq> None" using Instantiate_known[OF laws(2,3) k] by simp
    then show ?thesis using set(1,2) known by (auto simp: strategies_known_def)
  next
    case (unset n)
    then show ?thesis using known by (auto simp: strategies_known_def)
  qed
  then show ?thesis using strategies_known_lookup[of E strats "snd (RibFib st')"] by (simp add: tables_ok_def)
qed

text \<open>C35. A strategy name with components behind the version is accepted as well, but no thread knows it: the next Interest
  with the name that starts a new PIT entry ends its forwarding thread.\<close>

theorem trailing_strategy_crash:
  assumes "strategy_set env interest tok inFace st = Inr st'" "decodeControlParameters env interest st = Some params"
      "length (int_NameV interest) \<ge> prefixLength st + 3"
    and p: "ca_Name params = Some n" "ca_Strategy params = Some s"
      "s = strategyPrefix st @ strategy_comp ''best-route'' # NewVersionComponent (me_api env) 1 # extra"
    and laws: "enc_laws E" "component_laws (me_api env)" "tree_inv E (snd (RibFib st))" "me_ops env = tree_ops E" "me_enc env = E"
      "Typ (NewVersionComponent (me_api env) 1) = 0x36" "DecodeNNI (Val (NewVersionComponent (me_api env) 1)) = Inr 1"
    and t: "strategies t (name_Hash E s) = None" "env_enc fe = E" "env_fib_ops fe = tree_ops E" "env_fib fe = snd (RibFib st')"
    and i: "int_NameV i = n" "NonceV i = Some nonce" "\<not> dnl_Find E (deadNonceList t) n nonce" "NextHopFaceID (packet t pkt) = None"
      "InsertInterest E (rand_tape t) (pitCS t) i (hint_name E (NetworkRegion fe) i) inFace' = Inr (pit1, a, False, tape)"
  shows "admit_interest fe now pkt i inFace' pitToken t = Inl NilDereference"
proof -
  have "checked_strategy env s st = Inr (Inr s)"
    using checked_strategy_iff[of env s st s] laws p(3) by auto
  then have "same_tables (set_fib (SetStrategyEnc (tree_ops E) (snd (RibFib st)) n s) st) st'"
    using assms(1-3) p(1,2) laws(4) by (auto simp: strategy_set_def with_parameters_def dest: respond_same)
  then have fib: "snd (RibFib st') = tree_SetStrategyEnc E (snd (RibFib st)) n s"
    using same_tablesD(4) by (fastforce simp: set_fib_def tree_ops_def)
  have "FindStrategyEnc (tree_ops E) (snd (RibFib st')) n = Inr (lpm (tree_strat (snd (RibFib st'))) n)"
    using tree_FindStrategy_lpm[OF laws(1)] by (simp add: tree_ops_def)
  moreover have "lpm (tree_strat (snd (RibFib st'))) n = Some s"
    unfolding lpm_spec fib using tree_set_contract[OF laws(3)] by (intro exI[of _ n]) (auto simp: prefix_length_le)
  ultimately have none: "strategy_for fe n t' = Inr None" if "strategies t' = strategies t" for t'
    using t that by (simp add: strategy_for_def nil_to_empty_def)
  have "FindNextHopsEnc (tree_ops E) f m = Inr (tree_FindNextHopsEnc E f m)" for f m by (simp add: tree_ops_def)
  then have fwd: "forward_interest fe now pkt j h None e inFace' t' = Inl NilDereference" if "packet t' pkt = packet t pkt" for t' e h j
    using that i(4) t(3,4) by (auto simp: forward_interest_def Let_def packet_def split: option.split)
  show ?thesis
    using i none fwd t(2)
    by (auto simp: admit_interest_def Let_def upd_pit_def packet_def split: option.split prod.split)
qed

text \<open>C36. A command that did not come under the local prefix can only register and unregister routes, and only of a name whose
  Interest has the other management prefix: nothing else of the forwarder's state changes.\<close>

theorem remote_commands_only_routes:
  assumes "mgmt_dispatch env interest tok inFace st = Inr st'" "\<not> from_localhost env interest st"
  shows "Links st' = Links st \<and> Faces st' = Faces st \<and> Dispatch st' = Dispatch st \<and> nextFaceID st' = nextFaceID st \<and> csCapacity_var st' = csCapacity_var st \<and>
    (RibFib st' = RibFib st \<or> name_IsPrefix (me_enc env) (nonLocalPrefix st) (int_NameV interest) \<and>
       (\<exists>params n orig c fl ex. decodeControlParameters env interest st = Some params \<and> ca_Name params = Some n \<and>
          (RibFib st' = rib_step (me_enc env) (me_ops env) (AddOp n (face_of params inFace) orig c fl ex) (RibFib st) \<or>
           RibFib st' = rib_step (me_enc env) (me_ops env) (RemoveOp n (face_of params inFace) orig) (RibFib st))))"
proof -
  have nl: "name_IsPrefix (me_enc env) (nonLocalPrefix st) (int_NameV interest)" if "st' \<noteq> st"
    using assms that by (auto simp: mgmt_dispatch_def from_localhost_def split: if_splits)
  from dispatch_effect[OF assms(1)] show ?thesis
  proof cases
    case quiet
    then show ?thesis by (simp add: same_tablesD[OF quiet])
  next
    case (route params n op orig c fl ex)
    have "RibFib st' = rib_step (me_enc env) (me_ops env) op (RibFib st)" by (simp add: same_tablesD[OF route(4)])
    moreover have "op = AddOp n (face_of params inFace) orig c fl ex \<or> op = RemoveOp n (face_of params inFace) orig" using route(3) by blast
    ultimately have "RibFib st' = rib_step (me_enc env) (me_ops env) (AddOp n (face_of params inFace) orig c fl ex) (RibFib st) \<or>
        RibFib st' = rib_step (me_enc env) (me_ops env) (RemoveOp n (face_of params inFace) orig) (RibFib st)" by blast
    moreover have "Links st' = Links st \<and> Faces st' = Faces st \<and> Dispatch st' = Dispatch st \<and> nextFaceID st' = nextFaceID st \<and> csCapacity_var st' = csCapacity_var st"
      by (simp add: same_tablesD[OF route(4)])
    ultimately show ?thesis using route(1,2) nl by blast
  qed (use assms(2) in simp_all)
qed

lemma has_upserted: "\<exists>rt\<in>set (upsert_route new rts). FaceID rt = FaceID new \<and> route_Cost rt = route_Cost new"
  by (induction rts) (auto simp: same_route_def)


text \<open>C38. Updating a face: the command is refused or changes this face alone; of its flags exactly those in the mask take the value
  given, the rest of the mask is ignored, and a given MTU is cut to the largest packet but not bounded from below.\<close>

theorem face_update_spec:
  assumes "face_update env interest tok inFace st = Inr st'" "decodeControlParameters env interest st = Some params"
    and "Table_Get st (face_of params inFace) = Some a" "Links st a = Some l" "ca_Flags params = Some f" "ca_Mask params = Some m"
  shows "same_tables st st' \<or>
    (\<exists>op l' op'. Links st' = (Links st)(a \<mapsto> l') \<and> Faces st' = Faces st \<and> Dispatch st' = Dispatch st \<and> RibFib st' = RibFib st \<and>
      ls_options l = Some op \<and> ls_options l' = Some op' \<and>
      Link_Service.Flags op' = (Link_Service.Flags op AND NOT m) OR (f AND m AND 7) \<and> IsFragmentationEnabled op' = IsFragmentationEnabled op \<and>
      IsReassemblyEnabled op' = IsReassemblyEnabled op \<and> ls_faceID l' = ls_faceID l \<and> RemoteURI l' = RemoteURI l \<and>
      tb_state (ls_transport l') = tb_state (ls_transport l) \<and>
      tb_mtu (ls_transport l') = (case ca_Mtu params of None \<Rightarrow> tb_mtu (ls_transport l) | Some x \<Rightarrow> min 8800 (uint x)))"
  using assms(1)
proof (cases rule: face_update_cases)
  case (updated params' a')
  have eq: "params' = params" "a' = a" using updated(1,2) assms(2,3) by auto
  obtain op where op: "ls_options l = Some op" using updated(4) assms(4) by (auto simp: eq link_at_def)
  have "tb_mtu (ls_transport (update_link params l)) = (case ca_Mtu params of None \<Rightarrow> tb_mtu (ls_transport l) | Some x \<Rightarrow> min 8800 (uint x))"
    by (simp add: update_link_def Let_def ls_SetMTU_def ls_SetPersistency_def tb_SetMTU_def tb_SetPersistency_def clamp_mtu_min MaxNDNPacketSize_def
        split: option.split transport_kind.split)
  moreover have "ls_options (update_link params l) = Some (update_options params op)"
    using op by (simp add: update_link_def Let_def ls_SetMTU_def ls_SetPersistency_def split: option.split)
  ultimately show ?thesis
    using same_tablesD(1-4)[OF updated(5)] assms(4) op update_options_flags[OF assms(5,6), of op]
    by (intro disjI2 exI[of _ op] exI[of _ "update_link params l"] exI[of _ "update_options params op"]) (simp add: eq fun_upd_def)
qed simp

text \<open>C39. Creating a face: the command is refused, or exactly one face is added, under an unused identifier, with the canonical URI of
  the command, which no other face had, of one of four schemes, up, and with an MTU of at most the largest packet.\<close>

theorem face_create_spec:
  assumes "face_create env interest tok inFace st = Inr st'" "life_ok st" "can_add (me_alloc env) st"
  shows "same_tables st st' \<or>
    (\<exists>i u l. Table_Get st i = None \<and> Table_Get st' = (Table_Get st)(i \<mapsto> me_alloc env) \<and> Dispatch st' = (Dispatch st)(i \<mapsto> me_alloc env) \<and>
      Links st' = (Links st)(me_alloc env \<mapsto> l) \<and> RibFib st' = RibFib st \<and> ls_faceID l = i \<and>
      RemoteURI l = u \<and> IsCanonical u \<and> scheme u \<in> {lit ''udp4'', lit ''udp6'', lit ''tcp4'', lit ''tcp6''} \<and>
      (\<forall>(j, b)\<in>set (Faces st). uri_String (RemoteURI (link_at st b)) \<noteq> uri_String u) \<and> tb_state (ls_transport l) = Up \<and>
      tb_persistency (ls_transport l) \<in> {PersistencyPersistent, PersistencyPermanent} \<and> 0 \<le> tb_mtu (ls_transport l) \<and> tb_mtu (ls_transport l) \<le> 8800)"
  using assms(1)
proof (cases rule: face_create_cases)
  case (created params s u l st1)
  let ?a = "me_alloc env" and ?s = "st\<lparr>Links := (Links st)(me_alloc env \<mapsto> l)\<rparr>"
  have s: "ft_inv ?s" "?a \<notin> snd ` set (Faces ?s)"
    using assms(2,3) ft_inv_new_link[of st ?a l] by (auto simp: life_ok_def can_add_def)
  obtain k where k: "next_free (Faces ?s) (nextFaceID ?s) = Some (nextFaceID ?s + of_nat k, nextFaceID ?s + of_nat k + 1)"
    "map_of (Faces ?s) (nextFaceID ?s + of_nat k) = None"
    using next_free_returns[of "Faces ?s" "nextFaceID ?s"] assms(3) by (auto simp: can_add_def)
  let ?i = "nextFaceID ?s + of_nat k"
  have add: "Table_Add (Some (event_func env)) ?a ?s = Some st1" using created(6) by (simp add: add_face_def split: option.splits)
  have "Links ?s ?a = Some l" by simp
  note A = Table_Add_keeps[OF s(1) event_func_keeps k this s(2) add]
  note D = same_tablesD[OF respond_same[OF created(7)]]
  obtain t p where t: "create_persistency params = Some p" "MakeUnicastUDPTransport (me_tr env) u None p = Some t \<or> MakeUnicastTCPTransport (me_tr env) u None p = Some t"
    "l = new_link (case ca_Mtu params of None \<Rightarrow> t | Some m \<Rightarrow> tb_SetMTU (clamp_mtu m) t) (Some (create_options params))"
    using created(4) by (rule new_face_link_Inr)
  have T: "IsCanonical u" "scheme u \<in> {lit ''udp4'', lit ''udp6'', lit ''tcp4'', lit ''tcp6''}" "tb_remoteURI t = u" "tb_state t = Up"
      "tb_persistency t = p" "tb_mtu t = MaxNDNPacketSize"
    using t(2) MakeUnicastUDPTransport_Some MakeUnicastTCPTransport_Some by blast+
  have p: "p \<in> {PersistencyPersistent, PersistencyPermanent}" using t(1) by (auto simp: create_persistency_def split: option.splits if_splits)
  let ?l = "ls_SetFaceID ?i l"
  have l: "RemoteURI ?l = u" "tb_state (ls_transport ?l) = Up" "tb_persistency (ls_transport ?l) = p" "ls_faceID ?l = ?i"
    "0 \<le> tb_mtu (ls_transport ?l)" "tb_mtu (ls_transport ?l) \<le> 8800"
    using T by (auto simp: t(3) ls_SetFaceID_def tb_SetMTU_def clamp_mtu_min MaxNDNPacketSize_def split: option.split)
  have "\<forall>(j, b)\<in>set (Faces st). uri_String (RemoteURI (link_at st b)) \<noteq> uri_String u"
    using created(5) by (auto simp: GetByURI_def find_None_iff)
  moreover have "Table_Get st' = (Table_Get st)(?i \<mapsto> ?a)" using A(2) D(2) by (simp add: Table_Get_def fun_eq_iff)
  ultimately show ?thesis
    using A(3,5,6) D(1,3,4) k(2) T(1,2) p l
    by (intro disjI2 exI[of _ ?i] exI[of _ u] exI[of _ ?l]) (simp add: Table_Get_def)
qed simp

text \<open>C40. Every command to the RIB is answered: one frame with a response to its name goes to its face, and unless the status of the
  response is 200 nothing else changes.\<close>

theorem rib_commands_answered:
  fixes st :: "'s mgmt"
  assumes "encoder_laws env" "verb env interest st \<noteq> ''list''"
  shows "\<exists>st' r. RIBModule_handle env interest tok inFace st = Inr st' \<and>
    sendQueue_frames st' = sendQueue_frames st @ [answer_frame env interest tok inFace r] \<and>
    StatusCode r \<in> {200, 400, 410, 501} \<and> (StatusCode r \<noteq> 200 \<longrightarrow> same_tables st st')"
proof -
  define A where "A m \<longleftrightarrow> (\<exists>st' r. m = Inr st' \<and> sendQueue_frames st' = sendQueue_frames st @ [answer_frame env interest tok inFace r] \<and>
    StatusCode r \<in> {200, 400, 410, 501} \<and> (StatusCode r \<noteq> 200 \<longrightarrow> same_tables st st'))" for m :: "'s mgmt result"
  have bad: "A (respond env code msg [] interest tok inFace st)" if "code \<in> {400, 410, 501}" for code msg
    using respond_answers[OF assms(1), of "[]" code msg interest tok inFace st] that by (auto simp: A_def)
  have good: "A (respond env 200 msg args interest tok inFace (st\<lparr>RibFib := x\<rparr>))" if "list_all typed_entry args" for msg args x
    using respond_answers[OF assms(1) that, of 200 msg interest tok inFace "st\<lparr>RibFib := x\<rparr>"] by (auto simp: A_def)
  have "A (rib_register env interest tok inFace st)"
    by (auto simp: rib_register_def with_parameters_def Let_def typed_entry_def intro: bad good split: option.split)
  moreover have "A (rib_unregister env interest tok inFace st)"
    by (auto simp: rib_unregister_def with_parameters_def Let_def typed_entry_def intro: bad good split: option.split)
  moreover have "A (rib_announce env interest tok inFace st)"
    by (auto simp: rib_announce_def intro: bad)
  ultimately have "A (RIBModule_handle env interest tok inFace st)"
    using assms(2) bad[of 501 "''Unknown verb''"] by (simp add: RIBModule_handle_def Let_def)
  then show ?thesis by (simp add: A_def)
qed

section \<open>A concrete instance\<close>

definition mgt_name :: "string list \<Rightarrow> name" where
  "mgt_name = map strategy_comp"

definition toy_version :: "u64 \<Rightarrow> component" where
  "toy_version v = \<lparr>Typ = 0x36, Val = EncodeNNI v\<rparr>"

definition toy_menc :: enc_api where
  "toy_menc = toy_enc\<lparr>name_Hash := \<lambda>n. of_nat (length n), name_PrefixHash := \<lambda>n. map of_nat [0..<Suc (length n)],
     NameFromStr := \<lambda>s. Some (if s = ''/localhost/nfd/strategy'' then mgt_name [''localhost'', ''nfd'', ''strategy'']
       else if s = best_route_v1 then mgt_name [''localhost'', ''nfd'', ''strategy'', ''best-route''] @ [toy_version 1]
       else mgt_name [''localhost'', ''nfd''])\<rparr>"

definition toy_params :: ControlArgs where
  "toy_params = \<lparr>ca_Name = Some [], ca_FaceId = None, ca_Uri = Some (uri_String toy_udp), ca_Origin = None, ca_Cost = Some 7,
     ca_Capacity = None, ca_BaseCongestionMarkInterval = None, ca_DefaultCongestionThreshold = None, ca_Mtu = Some 9000, ca_Flags = Some 6,
     ca_Mask = Some 3, ca_Strategy = Some (mgt_name [''localhost'', ''nfd'', ''strategy'', ''multicast'']), ca_ExpirationPeriod = None,
     ca_FacePersistency = None\<rparr>"

definition toy_mapi :: "ControlArgs \<Rightarrow> mg_api" where
  "toy_mapi ps =
     \<lparr>component_String = (\<lambda>c. if Typ c = 8 then string_of (Val c) else []), NewVersionComponent = toy_version,
      NewSegmentComponent = (\<lambda>v. \<lparr>Typ = 0x32, Val = EncodeNNI v\<rparr>), NewSequenceNumComponent = (\<lambda>v. \<lparr>Typ = 0x3a, Val = EncodeNNI v\<rparr>),
      ParseControlParameters = (\<lambda>b. if b = [] then None else Some ps), DictToControlArgs = (\<lambda>d. Some toy_params), ToDict = (\<lambda>a. []),
      EncodeResponse = (\<lambda>r. [EncodeNNI (StatusCode r)]), EncodeDataset = (\<lambda>d. [[0]]), EncodeEvent = (\<lambda>e. [[1]]),
      MakeData = (\<lambda>n c w. Some w), ParseFaceQueryFilter = (\<lambda>b. None), PacketIsData = (\<lambda>w. False), ReadInterest = (\<lambda>w. None)\<rparr>"

definition toy_mlp :: lp_api where
  "toy_mlp = \<lparr>ReadPacket = (\<lambda>w. None), EncodeLp = (\<lambda>p. Some (Fragment p)), wire_Join = concat, ReadWire = (\<lambda>w i n. Some (take n (drop i w))),
     name_String = (\<lambda>n. [])\<rparr>"

definition toy_menv :: "ControlArgs \<Rightarrow> FibStrategyTree mg_env" where
  "toy_menv ps = \<lparr>me_api = toy_mapi ps, me_lp = toy_mlp, me_enc = toy_menc, me_ops = tree_ops toy_menc, me_threads = [], me_NumFwThreads = 0,
     me_tr = toy_tr, me_alloc = 5, enableLocalhopManagement = False\<rparr>"

definition toy_mgmt :: "FibStrategyTree mgmt" where
  "toy_mgmt = \<lparr>Links = Map.empty, Faces = [], nextFaceID = 1, Dispatch = Map.empty, RibFib = (Rib_init, newFibStrategyTableTree toy_menc),
     faceEvents = replicate 100 blank_event, faceEventsIdx = 0, faceEventsNextId = 0, csCapacity_var = 1024,
     localPrefix = mgt_name [''localhost'', ''nfd''], nonLocalPrefix = mgt_name [''localhop'', ''nfd''], transport_set = False,
     nextRIBDatasetVersion = 0, nextFIBDatasetVersion = 0, nextStrategyDatasetVersion = 0, nextDatasetVersion = 0,
     nextGeneralDatasetVersion = 0, nextFaceDatasetVersion = 0, sendQueue_frames = []\<rparr>"

definition toy_command :: "string \<Rightarrow> string \<Rightarrow> string \<Rightarrow> mg_interest" where
  "toy_command p m v =
     \<lparr>int_NameV = mgt_name [p, ''nfd'', m, v, ''x''], CanBePrefixV = False, MustBeFreshV = False, ForwardingHintV = None, NonceV = Some 1,
      HopLimitV = None, int_AppParam = []\<rparr>"

lemma toy_params_simps [simp]:
  "ca_Name toy_params = Some []" "ca_FaceId toy_params = None" "ca_Uri toy_params = Some (uri_String toy_udp)" "ca_Cost toy_params = Some 7"
  "ca_Mtu toy_params = Some 9000" "ca_Flags toy_params = Some 6" "ca_Mask toy_params = Some 3" "ca_FacePersistency toy_params = None"
  "ca_Strategy toy_params = Some (mgt_name [''localhost'', ''nfd'', ''strategy'', ''multicast''])"
  by (simp_all add: toy_params_def)

lemma toy_menc_laws: "enc_laws toy_menc"
  by (simp add: enc_laws_def toy_menc_def toy_enc_def del: upt_Suc)

lemma char_byte: "of_char (char_of (unat (b :: u8))) = b"
proof -
  have "of_char (char_of (unat b)) = (of_nat (of_char (char_of (unat b))) :: u8)" by (simp only: of_nat_of_char)
  also have "\<dots> = of_nat (unat b mod 256)" by simp
  also have "unat b mod 256 = unat b"
  proof -
    have "unat b < 2 ^ LENGTH(8)" by (rule unsigned_less)
    then show ?thesis by simp
  qed
  finally show ?thesis by simp
qed

lemma string_of_inject: "string_of v = k \<longleftrightarrow> v = map of_char k"
proof
  show "string_of v = k \<Longrightarrow> v = map of_char k" by (auto simp: string_of_def char_byte intro!: map_idI[symmetric])
  have "char_of (unat (of_char c :: u8)) = c" for c
  proof -
    have "unat (of_char c :: u8) = of_char c" by (subst of_nat_of_char[symmetric]) (simp add: unat_of_nat)
    then show ?thesis by simp
  qed
  then show "v = map of_char k \<Longrightarrow> string_of v = k" by (auto simp: string_of_def intro!: map_idI)
qed

lemma strategy_comp_inject [simp]: "strategy_comp a = strategy_comp b \<longleftrightarrow> a = b"
  using string_of_inject[of "map of_char a" a] string_of_inject[of "map of_char a" b] by (auto simp: strategy_comp_def)

lemma toy_component_laws: "component_laws (toy_mapi ps)"
proof -
  have "c = strategy_comp k \<longleftrightarrow> Typ c = 8 \<and> Val c = map of_char k" for c k
    by (cases c) (simp add: strategy_comp_def)
  then show ?thesis by (auto simp: component_laws_def toy_mapi_def string_of_inject)
qed

lemma toy_strings [simp]: "component_String (toy_mapi ps) (strategy_comp k) = k"
  using string_of_inject[of "map of_char k" k] by (simp add: toy_mapi_def strategy_comp_def)

lemma toy_encoder_laws: "encoder_laws (toy_menv ps)"
  by (simp add: encoder_laws_def toy_menv_def toy_mapi_def toy_mlp_def)

lemma toy_menv_simps [simp]:
  "me_api (toy_menv ps) = toy_mapi ps" "me_lp (toy_menv ps) = toy_mlp" "me_enc (toy_menv ps) = toy_menc" "me_ops (toy_menv ps) = tree_ops toy_menc"
  "me_tr (toy_menv ps) = toy_tr" "me_alloc (toy_menv ps) = 5"
  by (simp_all add: toy_menv_def)

lemma toy_mgmt_ok: "life_ok toy_mgmt" "tables_ok toy_menc toy_mgmt" "can_add 5 toy_mgmt"
  using newFibStrategyTableTree_inv[OF toy_menc_laws]
  by (simp_all add: life_ok_def ft_inv_def faces_up_def toy_mgmt_def tables_ok_def Rib_init_ok can_add_def)

text \<open>The names of the concrete commands.\<close>

lemma toy_command_simps [simp]:
  "prefixLength toy_mgmt = 2" "length (int_NameV (toy_command p m v)) = 5" "verb (toy_menv ps) (toy_command p m v) toy_mgmt = v"
  "decodeControlParameters (toy_menv ps) (toy_command p m v) toy_mgmt = Some ps"
  "from_localhost (toy_menv ps) (toy_command p m v) toy_mgmt \<longleftrightarrow> p = ''localhost''"
  by (simp_all add: prefixLength_def toy_mgmt_def mgt_name_def toy_command_def verb_def decodeControlParameters_def from_localhost_def toy_menc_def toy_enc_def)
    (auto simp: toy_mapi_def strategy_comp_def)

lemma toy_answer:
  "\<exists>fs. respond (toy_menv ps) code msg args interest tok inFace st = Inr (st\<lparr>sendQueue_frames := fs\<rparr>)"
  by (auto simp: respond_def sendResponse_def makeControlResponse_def toy_mapi_def InternalTransport_Send_def toy_mlp_def Let_def)

text \<open>The state after the start: the internal face is registered.\<close>

theorem system_invariant_witness:
  "\<exists>st. mgmt_start (toy_menv toy_params) toy_mgmt = Inr st \<and> Table_Get st 1 = Some 5 \<and> tb_state (tb_at st 5) = Up \<and> tree_inv toy_menc (snd (RibFib st))"
proof -
  let ?f = "Some (event_func (toy_menv toy_params))"
  obtain l where l: "RegisterInternalTransport ?f 5 toy_mgmt = add_face ?f 5 l toy_mgmt" by (simp add: RegisterInternalTransport_def)
  let ?s = "toy_mgmt\<lparr>Links := (Links toy_mgmt)(5 \<mapsto> l)\<rparr>"
  have n: "next_free (Faces ?s) (nextFaceID ?s) = Some (1, 2)" by (subst next_free.simps) (simp add: toy_mgmt_def)
  obtain st1 where st1: "Table_Add ?f 5 ?s = Some st1" "Faces st1 = AList.update 1 5 (Faces ?s)"
    by (rule Table_Add_eq[OF event_func_keeps n, of 5 l]) (simp, rule that)
  have "RegisterInternalTransport ?f 5 toy_mgmt = Inr st1" by (simp only: l) (simp add: add_face_def st1(1)[simplified])
  then obtain st where st: "mgmt_start (toy_menv toy_params) toy_mgmt = Inr st" "Faces st = [(1, 5)]"
    using st1(2) by (auto simp: mgmt_start_def Let_def set_fib_def toy_menc_def toy_mgmt_def split: if_splits)
  have "sys_reach toy_menc toy_mgmt" by (rule sys_reach.start) (simp_all add: toy_mgmt_def)
  then have "sys_reach toy_menc st" using sys_reach.boot[OF _ _ st(1)] toy_mgmt_ok(3) by (simp add: env_for_def)
  from system_invariant[OF this toy_menc_laws] show ?thesis using st by (auto simp: Table_Get_def)
qed

lemma toy_prefix:
  "strategyPrefix toy_mgmt = mgt_name [''localhost'', ''nfd'', ''strategy'']" "NameFromStr toy_menc ''/localhost/nfd/strategy'' = Some (strategyPrefix toy_mgmt)"
  by (simp_all add: strategyPrefix_def toy_mgmt_def mgt_name_def toy_menc_def) (simp_all add: strategy_comp_def)

lemma toy_checked:
  "checked_strategy (toy_menv ps) (mgt_name [''localhost'', ''nfd'', ''strategy'', ''multicast'']) toy_mgmt =
     Inr (Inr (mgt_name [''localhost'', ''nfd'', ''strategy'', ''multicast''] @ [toy_version 1]))"
  by (subst checked_strategy_iff) (simp_all add: toy_menc_laws toy_component_laws toy_prefix mgt_name_def, simp add: toy_mapi_def)

lemma toy_instantiated:
  "InstantiateStrategies toy_menc (NewVersionComponent (toy_mapi ps)) = Some [5 \<mapsto> Multicast]"
  by (simp add: InstantiateStrategies_def StrategyName_def toy_menc_def toy_mapi_def mgt_name_def)

lemma toy_known: "strategies_known toy_menc [5 \<mapsto> Multicast] (snd (RibFib toy_mgmt))"
proof -
  have s: "NameFromStr toy_menc best_route_v1 = Some (mgt_name [''localhost'', ''nfd'', ''strategy'', ''best-route''] @ [toy_version 1])"
    by (simp add: toy_menc_def best_route_v1_def)
  have "tree_strat (snd (RibFib toy_mgmt)) n =
      (if n = [] then Some (mgt_name [''localhost'', ''nfd'', ''strategy'', ''best-route''] @ [toy_version 1]) else None)" for n
    by (cases n) (simp_all add: tree_strat_def entry_at_def toy_mgmt_def newFibStrategyTableTree_def s new_entry_def)
  then show ?thesis by (simp add: strategies_known_def toy_menc_def mgt_name_def)
qed

theorem commands_keep_strategies_witness:
  "\<exists>st'. mgmt_dispatch (toy_menv toy_params) (toy_command ''localhost'' ''strategy-choice'' ''set'') [] 1 toy_mgmt = Inr st' \<and>
    (\<exists>s. FindStrategyEnc (tree_ops toy_menc) (snd (RibFib st')) [] = Inr s)"
proof -
  let ?i = "toy_command ''localhost'' ''strategy-choice'' ''set''"
  have m: "int_NameV ?i ! length (localPrefix toy_mgmt) = strategy_comp ''strategy-choice''" "length (localPrefix toy_mgmt) = 2"
    by (simp_all add: toy_command_def toy_mgmt_def mgt_name_def)
  have under: "name_IsPrefix toy_menc (localPrefix toy_mgmt) (int_NameV ?i)" using toy_command_simps(5)[of toy_params "''localhost''"] by (simp add: from_localhost_def)
  have "mgmt_dispatch (toy_menv toy_params) ?i [] 1 toy_mgmt = strategy_set (toy_menv toy_params) ?i [] 1 toy_mgmt"
    using m under by (simp add: mgmt_dispatch_def StrategyChoiceModule_handle_def Let_def)
  moreover obtain st' where "strategy_set (toy_menv toy_params) ?i [] 1 toy_mgmt = Inr st'"
  proof -
    let ?s' = "mgt_name [''localhost'', ''nfd'', ''strategy'', ''multicast''] @ [toy_version 1]"
    have "strategy_set (toy_menv toy_params) ?i [] 1 toy_mgmt =
       respond (toy_menv toy_params) 200 ''OK'' [(''Name'', AName []), (''Strategy'', AStrategy ?s')] ?i [] 1
         (set_fib (SetStrategyEnc (tree_ops toy_menc) (snd (RibFib toy_mgmt)) [] ?s') toy_mgmt)"
      using toy_checked by (simp add: strategy_set_def with_parameters_def toy_params_def)
    then show ?thesis using toy_answer that by metis
  qed
  ultimately have st': "mgmt_dispatch (toy_menv toy_params) ?i [] 1 toy_mgmt = Inr st'" by simp
  have "\<forall>params s. decodeControlParameters (toy_menv toy_params) ?i toy_mgmt = Some params \<longrightarrow> ca_Strategy params = Some s \<longrightarrow>
      length s \<le> length (strategyPrefix toy_mgmt) + 1 \<or> s = butlast s @ [NewVersionComponent (me_api (toy_menv toy_params)) 1] \<and> length s = length (strategyPrefix toy_mgmt) + 2"
    by (auto simp: toy_params_def toy_prefix mgt_name_def)
  from commands_keep_strategies[OF st' toy_mgmt_ok(2) _ _ _ _ _ toy_known this] st' show ?thesis
    using toy_component_laws toy_instantiated[of toy_params] toy_prefix(2) by auto
qed

theorem remote_commands_only_routes_witness:
  "\<exists>st'. mgmt_dispatch (toy_menv toy_params) (toy_command ''localhop'' ''rib'' ''register'') [] 1 toy_mgmt = Inr st' \<and> Faces st' = Faces toy_mgmt \<and>
    csCapacity_var st' = csCapacity_var toy_mgmt"
proof -
  let ?i = "toy_command ''localhop'' ''rib'' ''register''"
  have m: "int_NameV ?i ! length (localPrefix toy_mgmt) = strategy_comp ''rib''" "length (localPrefix toy_mgmt) = 2"
    by (simp_all add: toy_command_def toy_mgmt_def mgt_name_def)
  have under: "name_IsPrefix toy_menc (nonLocalPrefix toy_mgmt) (int_NameV ?i)"
    by (simp add: toy_command_def toy_mgmt_def mgt_name_def toy_menc_def toy_enc_def)
  have "mgmt_dispatch (toy_menv toy_params) ?i [] 1 toy_mgmt = rib_register (toy_menv toy_params) ?i [] 1 toy_mgmt"
    using m under by (simp add: mgmt_dispatch_def RIBModule_handle_def Let_def)
  moreover obtain st' where "rib_register (toy_menv toy_params) ?i [] 1 toy_mgmt = Inr st'"
    using toy_answer by (force simp: rib_register_def with_parameters_def toy_params_def names_face_def Let_def)
  ultimately have "mgmt_dispatch (toy_menv toy_params) ?i [] 1 toy_mgmt = Inr st'" by simp
  from remote_commands_only_routes[OF this] this show ?thesis by simp
qed

definition toy_trailing :: ControlArgs where
  "toy_trailing = toy_params\<lparr>ca_Name := Some (int_NameV toy_interest),
     ca_Strategy := Some (strategyPrefix toy_mgmt @ strategy_comp ''best-route'' # toy_version 1 # [strategy_comp ''x''])\<rparr>"

theorem trailing_strategy_crash_witness:
  "\<exists>st'. strategy_set (toy_menv toy_trailing) (toy_command ''localhost'' ''strategy-choice'' ''set'') [] 1 toy_mgmt = Inr st' \<and>
    admit_interest \<lparr>env_enc = toy_menc, env_fib_ops = tree_ops toy_menc, env_fib = snd (RibFib st'), FaceDispatch = Map.empty, NetworkRegion = [],
        csCapacity = 8, csAdmit = True, csServe = True, deadNonceListLifetime = 6\<rparr> 0 0 toy_interest 3 []
      ((NewThread 0 [5 \<mapsto> Multicast])\<lparr>packets := [0 \<mapsto> empty_packet 1], rand_tape := [42]\<rparr>) = Inl NilDereference"
proof -
  let ?i = "toy_command ''localhost'' ''strategy-choice'' ''set''" and ?env = "toy_menv toy_trailing"
  let ?s = "strategyPrefix toy_mgmt @ strategy_comp ''best-route'' # toy_version 1 # [strategy_comp ''x'']"
  let ?t = "(NewThread 0 [5 \<mapsto> Multicast])\<lparr>packets := [0 \<mapsto> empty_packet 1], rand_tape := [42]\<rparr>"
  have v: "Typ (toy_version 1) = 0x36" "DecodeNNI (Val (toy_version 1)) = Inr 1"
    using DecodeNNI_EncodeNNI[of 1] by (simp_all add: toy_version_def)
  have vc: "NewVersionComponent (toy_mapi ps) = toy_version" for ps by (simp add: toy_mapi_def)
  have "checked_strategy ?env ?s toy_mgmt = Inr (Inr ?s)"
    using v by (subst checked_strategy_iff) (simp_all add: toy_menc_laws toy_component_laws vc)
  then have "strategy_set ?env ?i [] 1 toy_mgmt =
     respond ?env 200 ''OK'' [(''Name'', AName (int_NameV toy_interest)), (''Strategy'', AStrategy ?s)] ?i [] 1
       (set_fib (SetStrategyEnc (tree_ops toy_menc) (snd (RibFib toy_mgmt)) (int_NameV toy_interest) ?s) toy_mgmt)"
    by (simp add: strategy_set_def with_parameters_def toy_trailing_def)
  then obtain st' where st': "strategy_set ?env ?i [] 1 toy_mgmt = Inr st'" using toy_answer by metis
  have hash: "name_Hash toy_menc ?s = 6" by (simp add: toy_menc_def toy_prefix(1) mgt_name_def)
  obtain pit1 a dup tape where ins: "InsertInterest toy_menc [42] NewPitCS toy_interest None 3 = Inr (pit1, a, dup, tape)"
    using InsertInterest_total[of toy_interest "[42]" NewPitCS toy_menc None 3] by (auto simp: toy_interest_def NewPitCS_def)
  have "\<not> dup" using NewPitCS_pit_ok(1)[OF toy_menc_laws] ins
    by (cases rule: InsertInterest_cases) (simp_all add: NewPitCS_pit_ok(2))
  then have ins: "InsertInterest toy_menc (rand_tape ?t) (pitCS ?t) toy_interest (hint_name toy_menc [] toy_interest) 3 = Inr (pit1, a, False, tape)"
    using ins by (simp add: NewThread_def hint_name_def toy_interest_def)
  have p: "ca_Name toy_trailing = Some (int_NameV toy_interest)" "ca_Strategy toy_trailing = Some ?s" by (simp_all add: toy_trailing_def)
  have d: "\<not> dnl_Find toy_menc (deadNonceList ?t) (int_NameV toy_interest) 77"
    by (simp add: NewThread_def dnl_Find_def NewDeadNonceList_def)
  have n: "NonceV toy_interest = Some 77" "NextHopFaceID (packet ?t 0) = None" "strategies ?t (name_Hash toy_menc ?s) = None"
    by (simp_all add: toy_interest_def packet_def empty_packet_def hash NewThread_def)
  have inv: "tree_inv toy_menc (snd (RibFib toy_mgmt))" using toy_mgmt_ok(2) by (simp add: tables_ok_def)
  show ?thesis
    using st' ins v inv
    by (intro exI[of _ st'] conjI trailing_strategy_crash[OF st' toy_command_simps(4) _ p, where extra = "[strategy_comp ''x'']" and E = toy_menc and nonce = 77])
      (simp_all add: toy_menc_laws toy_component_laws vc d[simplified] n[simplified])
qed


definition toy_link_5 :: LinkService where
  "toy_link_5 = toy_ls\<lparr>ls_faceID := 1, ls_transport := (ls_transport toy_ls)\<lparr>tb_faceID := 1, tb_remoteURI := toy_udp, tb_localURI := toy_udp\<rparr>\<rparr>"

definition toy_mgmt_5 :: "FibStrategyTree mgmt" where
  "toy_mgmt_5 = toy_mgmt\<lparr>Links := [5 \<mapsto> toy_link_5], Faces := [(1, 5)], Dispatch := [1 \<mapsto> 5]\<rparr>"

theorem face_update_spec_witness:
  "\<exists>st' l' op'. face_update (toy_menv toy_params) (toy_command ''localhost'' ''faces'' ''update'') [] 1 toy_mgmt_5 = Inr st' \<and>
    Links st' 5 = Some l' \<and> ls_options l' = Some op' \<and> Link_Service.Flags op' = 2 \<and> tb_mtu (ls_transport l') = 8800"
proof -
  let ?i = "toy_command ''localhost'' ''faces'' ''update''" and ?env = "toy_menv toy_params"
  have s: "prefixLength toy_mgmt_5 = prefixLength toy_mgmt" "decodeControlParameters ?env ?i toy_mgmt_5 = decodeControlParameters ?env ?i toy_mgmt"
    by (simp_all add: toy_mgmt_5_def prefixLength_def decodeControlParameters_def)
  have l: "Links toy_mgmt_5 5 = Some toy_link_5" "Table_Get toy_mgmt_5 1 = Some 5" by (simp_all add: toy_mgmt_5_def Table_Get_def)
  have op: "ls_options toy_link_5 = Some MakeNDNLPLinkServiceOptions" by (simp add: toy_link_5_def toy_ls_def)
  have nullish: "scheme (RemoteURI toy_link_5) \<noteq> lit ''null''" "scheme (RemoteURI toy_link_5) \<noteq> lit ''internal''"
    by (simp_all add: toy_link_5_def toy_udp_def)
  have "face_update ?env ?i [] 1 toy_mgmt_5 =
     respond ?env 200 ''OK'' (without ''LocalUri'' (without ''Uri'' (fillFaceProperties (link_at (upd_link 5 (update_link toy_params) toy_mgmt_5) 5)))) ?i [] 1
       (upd_link 5 (update_link toy_params) toy_mgmt_5)"
    using l op by (simp add: face_update_def with_parameters_def s face_of_def link_at_def lone_flags_def Let_def nullish[simplified])
  then obtain fs where st': "face_update ?env ?i [] 1 toy_mgmt_5 = Inr ((upd_link 5 (update_link toy_params) toy_mgmt_5)\<lparr>sendQueue_frames := fs\<rparr>)"
    using toy_answer by metis
  have "\<not> same_tables toy_mgmt_5 ((upd_link 5 (update_link toy_params) toy_mgmt_5)\<lparr>sendQueue_frames := fs\<rparr>)"
  proof
    assume "same_tables toy_mgmt_5 ((upd_link 5 (update_link toy_params) toy_mgmt_5)\<lparr>sendQueue_frames := fs\<rparr>)"
    from same_tablesD(1)[OF this] have eq: "update_link toy_params toy_link_5 = toy_link_5" using l(1) by (auto simp: fun_eq_iff split: if_splits)
    have "ls_options (update_link toy_params toy_link_5) = Some (update_options toy_params MakeNDNLPLinkServiceOptions)"
      using op by (simp add: update_link_def ls_SetMTU_def ls_SetPersistency_def)
    then have "update_options toy_params MakeNDNLPLinkServiceOptions = MakeNDNLPLinkServiceOptions" using op unfolding eq by simp
    then show False
      using update_options_flags(1)[of toy_params 6 3 MakeNDNLPLinkServiceOptions] by (simp add: MakeNDNLPLinkServiceOptions_def Link_Service.Flags_def)
  qed
  moreover have "decodeControlParameters ?env ?i toy_mgmt_5 = Some toy_params" using s by simp
  moreover have "Link_Service.Flags MakeNDNLPLinkServiceOptions = 0" by (simp add: MakeNDNLPLinkServiceOptions_def Link_Service.Flags_def)
  moreover define st' where "st' = (upd_link 5 (update_link toy_params) toy_mgmt_5)\<lparr>sendQueue_frames := fs\<rparr>"
  moreover have "face_of toy_params 1 = 1" by (simp add: face_of_def)
  ultimately have "\<exists>l' op'. Links st' 5 = Some l' \<and> ls_options l' = Some op' \<and> Link_Service.Flags op' = 2 \<and> tb_mtu (ls_transport l') = 8800"
    using face_update_spec[OF st', of toy_params 5 toy_link_5 6 3] l op by (fastforce simp: fun_upd_same)
  then show ?thesis using st' by (auto simp: st'_def)
qed

theorem face_create_spec_witness:
  "\<exists>st'. face_create (toy_menv toy_params) (toy_command ''localhost'' ''faces'' ''create'') [] 1 toy_mgmt = Inr st' \<and> Table_Get st' \<noteq> Table_Get toy_mgmt"
proof -
  let ?i = "toy_command ''localhost'' ''faces'' ''create''" and ?env = "toy_menv toy_params" and ?f = "Some (event_func (toy_menv toy_params))"
  have port: "port toy_udp > 0" by (simp add: toy_udp_def)
  have c: "IsCanonical toy_udp" by (rule IsCanonical_normal[OF toy_udp_normal port])
  have h: "te_host toy_tr = toy_host" by (simp add: toy_tr_def)
  have uri: "DecodeURIString toy_host (uri_String toy_udp) = Some toy_udp" "Canonize toy_host toy_udp = (toy_udp, True)" "GetByURI toy_mgmt toy_udp = None"
    using canonized_IP_decode[OF toy_udp_normal port toy_udp_chars] Canonize_normal[OF toy_udp_normal] by (simp_all add: GetByURI_def toy_mgmt_def)
  obtain t where t: "MakeUnicastUDPTransport toy_tr toy_udp None PersistencyPersistent = Some t"
    using c by (simp add: MakeUnicastUDPTransport_def toy_udp_def toy_tr_def Let_def)
  have "ParseIP (path toy_udp) = None" by (simp add: toy_udp_def ParseIP_def)
  moreover have sch: "scheme toy_udp = lit ''udp6''" by (simp add: toy_udp_def)
  ultimately obtain l where l: "new_face_link toy_tr toy_params toy_udp = Inr l"
    using t sch by (simp add: new_face_link_def make_link_def not_unicast_def create_persistency_def lit_simps)
  let ?s = "toy_mgmt\<lparr>Links := (Links toy_mgmt)(5 \<mapsto> l)\<rparr>"
  have n: "next_free (Faces ?s) (nextFaceID ?s) = Some (1, 2)" by (subst next_free.simps) (simp add: toy_mgmt_def)
  obtain st1 where st1: "Table_Add ?f 5 ?s = Some st1" "Faces st1 = AList.update 1 5 (Faces ?s)"
    by (rule Table_Add_eq[OF event_func_keeps n, of 5 l]) (simp, rule that)
  have add: "add_face ?f 5 l toy_mgmt = Inr st1" by (simp add: add_face_def st1(1)[simplified])
  have eq: "face_create ?env ?i [] 1 toy_mgmt = respond ?env 200 ''OK'' (fillFaceProperties (link_at st1 5)) ?i [] 1 st1"
    using uri l add by (simp add: face_create_def with_parameters_def h lone_flags_def)
  then obtain st' where st': "face_create ?env ?i [] 1 toy_mgmt = Inr st'" using toy_answer by metis
  have "same_tables st1 st'" using st' unfolding eq by (rule respond_same)
  then have F: "Faces st' = [(1, 5)]" using same_tablesD(2) st1(2) by (fastforce simp: toy_mgmt_def)
  then have "\<not> same_tables toy_mgmt st'" using same_tablesD(2)[of toy_mgmt st'] by (auto simp: toy_mgmt_def)
  with face_create_spec[OF st' toy_mgmt_ok(1)] toy_mgmt_ok(3) st' show ?thesis by (auto simp: fun_eq_iff)
qed

theorem rib_commands_answered_witness:
  "\<exists>st' r. RIBModule_handle (toy_menv toy_params) (toy_command ''localhop'' ''rib'' ''announce'') [] 1 toy_mgmt = Inr st' \<and>
    sendQueue_frames st' = [answer_frame (toy_menv toy_params) (toy_command ''localhop'' ''rib'' ''announce'') [] 1 r]"
proof -
  have "sendQueue_frames toy_mgmt = []" by (simp add: toy_mgmt_def)
  then show ?thesis
    using rib_commands_answered[OF toy_encoder_laws, of toy_params "toy_command ''localhop'' ''rib'' ''announce''" toy_mgmt "[]" 1] by fastforce
qed

end
