(* ===== verification/Ndn_Elems.thy ===== *)
theory Ndn_Elems
  imports Name_Codec
begin

text \<open>
  What the packet classes of \<^verbatim>\<open>src/ndn\<close> have in common: the TLV types of \<^verbatim>\<open>src/ndn/tlv/types.go\<close>, the loop
  of a decoder over the sub-elements of a block, and the two facts that relate it to an encoder:
  what the wire of a block with sub-elements is, and what \<^verbatim>\<open>Parse\<close> reads back from it.

  A decoder returns an object, or an error, or panics (\<open>'a fallible\<close>). It may parse its
  sub-elements further, so a step returns the element as it leaves it; on an error only the error is
  returned, as the code returns a nil object. An error text that the code composes from a
  constant and another error is kept as the constant. Of the value of a block the model does not
  distinguish the nil slice from an empty one; the values of elements that \<^verbatim>\<open>Parse\<close> creates are
  never nil.
\<close>

type_synonym 'a fallible = "(ndn_error + 'a) result"

definition fail :: "ndn_error \<Rightarrow> 'a fallible" where
  "fail e = Inr (Inl e)"

definition ret :: "'a \<Rightarrow> 'a fallible" where
  "ret x = Inr (Inr x)"

definition ebind :: "'a fallible \<Rightarrow> ('a \<Rightarrow> 'b fallible) \<Rightarrow> 'b fallible" where
  "ebind x f = rbind x (\<lambda>r. case r of Inl e \<Rightarrow> fail e | Inr v \<Rightarrow> f v)"

text \<open>Running a part whose error is replaced by one of the caller.\<close>

definition with_error :: "ndn_error \<Rightarrow> 'a fallible \<Rightarrow> 'a fallible" where
  "with_error e x = rbind x (\<lambda>r. case r of Inl _ \<Rightarrow> fail e | Inr v \<Rightarrow> ret v)"

definition expect :: "ndn_error \<Rightarrow> ndn_error + 'a \<Rightarrow> 'a fallible" where
  "expect e x = (case x of Inl _ \<Rightarrow> fail e | Inr v \<Rightarrow> ret v)"

definition guard :: "bool \<Rightarrow> ndn_error \<Rightarrow> 'a fallible \<Rightarrow> 'a fallible" where
  "guard bad e x = (if bad then fail e else x)"

lemma fallible_simps [simp]:
  "ebind (fail e) f = fail e" "ebind (ret x) f = f x" "ebind (Inl p) f = Inl p"
  "with_error e' (ret x) = ret x" "with_error e' (fail e) = fail e'" "with_error e' (Inl p) = Inl p"
  "expect e' (Inr x) = ret x" "expect e' (Inl e) = fail e'"
  "guard False e' y = y" "guard True e' y = fail e'"
  by (simp_all add: ebind_def fail_def ret_def with_error_def expect_def guard_def)

lemma fallible_eq [simp]: "ret x = ret y \<longleftrightarrow> x = y" "ret x \<noteq> fail e" "fail e \<noteq> ret x" "fail e = fail e' \<longleftrightarrow> e = e'"
  "Inl p \<noteq> ret x" "ret x \<noteq> Inl p" "Inl p \<noteq> fail e" "fail e \<noteq> Inl p"
  by (simp_all add: ret_def fail_def)

lemma ebind_ret: "ebind x f = ret w \<longleftrightarrow> (\<exists>v. x = ret v \<and> f v = ret w)"
  by (auto simp: ebind_def rbind_Inr ret_def fail_def rbind_def split: sum.splits)

lemma fallible_cases:
  obtains (panic) p where "x = Inl p" | (error) e where "x = fail e" | (value_) v where "x = ret v"
  by (cases x; auto simp: fail_def ret_def) (metis sum.exhaust)

text \<open>The loop over the sub-elements.\<close>

fun each_elem :: "(Block \<Rightarrow> 's \<Rightarrow> (Block \<times> 's) fallible) \<Rightarrow> Block list \<Rightarrow> 's \<Rightarrow> (Block list \<times> 's) fallible" where
  "each_elem f [] s = ret ([], s)"
| "each_elem f (b # bs) s = ebind (f b s) (\<lambda>(b', s'). ebind (each_elem f bs s') (\<lambda>(bs', s''). ret (b' # bs', s'')))"

definition set_subs :: "Block list \<Rightarrow> Block \<Rightarrow> Block" where
  "set_subs bs b = Block (b_type b) (b_value b) bs (b_wire b)"

text \<open>\<^verbatim>\<open>if len(wire.Subelements()) == 0 { wire.Parse() }\<close>, and \<^verbatim>\<open>wire.Parse()\<close>: the error is dropped.\<close>

definition parse_always :: "Block \<Rightarrow> Block result" where
  "parse_always b = rbind (blk_Parse b) (\<lambda>(b', err). Inr b')"

definition parse_if_bare :: "Block \<Rightarrow> Block result" where
  "parse_if_bare b = (if length (b_subs b) = 0 then parse_always b else Inr b)"

text \<open>\<open>append_opt\<close> appends the block of a field that is set.\<close>

definition append_opt :: "('a \<Rightarrow> Block) \<Rightarrow> 'a option \<Rightarrow> Block \<Rightarrow> Block" where
  "append_opt f x b = (case x of None \<Rightarrow> b | Some v \<Rightarrow> blk_Append (f v) b)"

text \<open>\<^verbatim>\<open>DecodeName\<close> of an element: the name keeps a pointer to it, parsed.\<close>

definition decode_name_elem :: "Block \<Rightarrow> (Block \<times> Name) fallible" where
  "decode_name_elem b = ebind (DecodeName (Some b)) (\<lambda>n. ret (case nm_wire n of Some b' \<Rightarrow> b' | None \<Rightarrow> b, n))"

definition nni_elem :: "ndn_error \<Rightarrow> Block \<Rightarrow> u64 fallible" where
  "nni_elem e b = expect e (DecodeNNIBlock (Some b))"

abbreviation "T_Interest \<equiv> 0x05 :: u32"
abbreviation "T_Data \<equiv> 0x06 :: u32"
abbreviation "T_Name \<equiv> 0x07 :: u32"
abbreviation "T_ParametersSha256DigestComponent \<equiv> 0x02 :: u16"
abbreviation "T_GenericNameComponent \<equiv> 0x08 :: u16"
abbreviation "T_CanBePrefix \<equiv> 0x21 :: u32"
abbreviation "T_MustBeFresh \<equiv> 0x12 :: u32"
abbreviation "T_ForwardingHint \<equiv> 0x1e :: u32"
abbreviation "T_Nonce \<equiv> 0x0a :: u32"
abbreviation "T_InterestLifetime \<equiv> 0x0c :: u32"
abbreviation "T_HopLimit \<equiv> 0x22 :: u32"
abbreviation "T_ApplicationParameters \<equiv> 0x24 :: u32"
abbreviation "T_InterestSignatureInfo \<equiv> 0x2c :: u32"
abbreviation "T_MetaInfo \<equiv> 0x14 :: u32"
abbreviation "T_Content \<equiv> 0x15 :: u32"
abbreviation "T_SignatureInfo \<equiv> 0x16 :: u32"
abbreviation "T_SignatureValue \<equiv> 0x17 :: u32"
abbreviation "T_ContentType \<equiv> 0x18 :: u32"
abbreviation "T_FreshnessPeriod \<equiv> 0x19 :: u32"
abbreviation "T_FinalBlockID \<equiv> 0x1a :: u32"
abbreviation "T_SignatureType \<equiv> 0x1b :: u32"
abbreviation "T_KeyLocator \<equiv> 0x1c :: u32"
abbreviation "T_SignatureNonce \<equiv> 0x26 :: u32"
abbreviation "T_SignatureTime \<equiv> 0x28 :: u32"
abbreviation "T_SignatureSeqNum \<equiv> 0x2a :: u32"
abbreviation "T_Delegation \<equiv> 0x1f :: u32"
abbreviation "T_Preference \<equiv> 0x1e :: u32"
abbreviation "T_ValidityPeriod \<equiv> 0xfd :: u32"
abbreviation "T_ExpirationPeriod \<equiv> 0x6d :: u32"

definition IsCritical :: "u32 \<Rightarrow> bool" where
  "IsCritical tlvType = (if tlvType < 0x20 then True else tlvType AND 1 = 1)"

text \<open>
  \<^verbatim>\<open>time.Duration\<close> and \<^verbatim>\<open>time.Time\<close>: nanoseconds, of a duration as a signed 64-bit number. \<open>trunc_div\<close>
  is the division of Go's signed integers.
\<close>

definition int64 :: "int \<Rightarrow> int" where
  "int64 i = sint (of_int i :: u64)"

definition trunc_div :: "int \<Rightarrow> int \<Rightarrow> int" where
  "trunc_div a b = (if 0 \<le> a then a div b else - ((- a) div b))"

definition dur_of_ms :: "u64 \<Rightarrow> int" where
  "dur_of_ms v = int64 (sint v * 1000000)"

definition dur_Milliseconds :: "int \<Rightarrow> int" where
  "dur_Milliseconds d = trunc_div d 1000000"

definition FormatInt :: "int \<Rightarrow> gostring" where
  "FormatInt i = (if i < 0 then 45 # FormatUint (nat (- i)) else FormatUint (nat i))"

section \<open>What \<open>Parse\<close> reads back\<close>

text \<open>
  An item is a type with a value; \<open>tlv\<close> is its encoding and \<open>parsed\<close> the block that \<^verbatim>\<open>Parse\<close> creates
  for it.
\<close>

type_synonym tlv_item = "u32 \<times> bytes"

definition tlv :: "tlv_item \<Rightarrow> bytes" where
  "tlv x = tlv_bytes (fst x) (snd x)"

definition tlvs :: "tlv_item list \<Rightarrow> bytes" where
  "tlvs xs = concat (map tlv xs)"

definition parsed :: "tlv_item \<Rightarrow> Block" where
  "parsed x = Block (fst x) (snd x) [] (tlv x)"

lemma tlvs_simps [simp]: "tlvs [] = []" "tlvs (x # xs) = tlv x @ tlvs xs" "tlvs (xs @ ys) = tlvs xs @ tlvs ys"
  by (simp_all add: tlvs_def)

lemma parsed_simps [simp]: "b_type (parsed x) = fst x" "b_value (parsed x) = snd x" "b_subs (parsed x) = []" "b_wire (parsed x) = tlv x"
  by (simp_all add: parsed_def)

lemma tlv_not_Nil [simp]: "tlv x \<noteq> []"
  by (simp add: tlv_def)

lemma parse_loop_tlvs: "length (tlvs xs) < 2 ^ 63 \<Longrightarrow> parse_loop (tlvs xs) = Inr (map parsed xs, None)"
proof -
  have t: "canon (Block (fst x) (snd x) [] []) = tlv x" "flat (Block (fst x) (snd x) [] []) = parsed x" for x
    by (simp_all add: tlv_def flat_def payload_def parsed_def)
  then have m: "concat (map canon (map (\<lambda>x. Block (fst x) (snd x) [] []) xs)) = tlvs xs"
    "map flat (map (\<lambda>x. Block (fst x) (snd x) [] []) xs) = map parsed xs"
    by (simp_all add: tlvs_def comp_def)
  assume "length (tlvs xs) < 2 ^ 63"
  then show ?thesis using parse_loop_canon[of "map (\<lambda>x. Block (fst x) (snd x) [] []) xs"] by (simp only: m)
qed

lemma tlv_length: "length (tlvs xs) \<le> length (tlv (t, tlvs xs))"
  by (simp add: tlv_def tlv_bytes_def)

lemma parse_parsed:
  assumes "length (tlvs xs) < 2 ^ 63"
  shows "parse_always (parsed (t, tlvs xs)) = Inr (set_subs (map parsed xs) (parsed (t, tlvs xs)))"
    "parse_if_bare (parsed (t, tlvs xs)) = Inr (set_subs (map parsed xs) (parsed (t, tlvs xs)))"
    "blk_Parse (parsed (t, tlvs xs)) = Inr (set_subs (map parsed xs) (parsed (t, tlvs xs)), None)"
  using parse_loop_tlvs[OF assms] by (simp_all add: parse_always_def parse_if_bare_def blk_Parse_def set_subs_def parsed_def)

lemma DecodeBlock_tlv:
  assumes "length (tlv x) < 2 ^ 63"
  shows "DecodeBlock (tlv x) = Inr (Inr (parsed x, of_nat (length (tlv x))))"
  using DecodeBlock_tlv_bytes[of "fst x" "snd x" "[]"] assms by (simp add: tlv_def parsed_def)

section \<open>What is written\<close>

text \<open>
  \<open>writes b x\<close>: the block has the type of the item, and its wire is the encoding of the item, whatever
  is cached in it.
\<close>

definition writes :: "Block \<Rightarrow> tlv_item \<Rightarrow> bool" where
  "writes b x \<longleftrightarrow> fst (blk_Wire b) = tlv x \<and> b_type b = fst x"

lemma snd_blk_Wire: "b_wire (snd (blk_Wire b)) = fst (blk_Wire b)" "b_type (snd (blk_Wire b)) = b_type b"
  by (cases b, simp add: Let_def)+

lemma Wire_again: "fst (blk_Wire (snd (blk_Wire b))) = fst (blk_Wire b)" "snd (blk_Wire (snd (blk_Wire b))) = snd (blk_Wire b)"
proof -
  have "fst (blk_Wire b) \<noteq> []" by (cases b) (simp add: Let_def)
  then show "fst (blk_Wire (snd (blk_Wire b))) = fst (blk_Wire b)" "snd (blk_Wire (snd (blk_Wire b))) = snd (blk_Wire b)"
    using snd_blk_Wire(1)[of b] by (cases "snd (blk_Wire b)", simp add: Let_def)+
qed

lemma writes_wired [simp]: "writes (snd (blk_Wire b)) x \<longleftrightarrow> writes b x"
  by (simp add: writes_def Wire_again snd_blk_Wire)

lemma Wire_fresh: "fst (blk_Wire (Block t v bs [])) = tlv (t, if bs \<noteq> [] then concat (map (\<lambda>b. fst (blk_Wire b)) bs) else v)"
  by (simp add: tlv_def tlv_bytes_def Let_def comp_def snd_blk_Wire sum_lengths)

lemma Wire_fresh_subs: "b_subs (snd (blk_Wire (Block t v bs []))) = map (\<lambda>b. snd (blk_Wire b)) bs"
    "b_value (snd (blk_Wire b)) = b_value b"
  by (simp add: Let_def, cases b, simp add: Let_def)

lemma Wire_cached: "b_wire b \<noteq> [] \<Longrightarrow> blk_Wire b = (b_wire b, b)"
  by (cases b) simp

declare blk_Wire.simps [simp del]

lemma Wire_parsed [simp]: "blk_Wire (parsed x) = (tlv x, parsed x)"
  by (simp add: Wire_cached)

lemma writes_parsed [simp]: "writes (parsed x) x"
  by (simp add: writes_def)

lemma writes_value: "writes (NewBlock t v) (t, v)" "writes (NewEmptyBlock t) (t, [])"
  by (simp_all add: writes_def NewBlock_def NewEmptyBlock_def Wire_fresh)

lemma writes_wire: "writes b x \<Longrightarrow> b_wire (snd (blk_Wire b)) = tlv x"
  by (simp add: writes_def snd_blk_Wire)

lemma map_writes: "list_all2 writes bs xs \<Longrightarrow> map (\<lambda>b. fst (blk_Wire b)) bs = map tlv xs"
  by (induction rule: list_all2_induct) (simp_all add: writes_def)

text \<open>\<open>builds b t xs\<close>: an encoder has appended blocks that write the items \<open>xs\<close> to an empty block of type \<open>t\<close>.\<close>

definition builds :: "Block \<Rightarrow> u32 \<Rightarrow> tlv_item list \<Rightarrow> bool" where
  "builds b t xs \<longleftrightarrow> b_type b = t \<and> b_value b = [] \<and> b_wire b = [] \<and> list_all2 writes (b_subs b) xs"

lemma builds_empty: "builds (NewEmptyBlock t) t []" "builds (blk_SetType t (NewEmptyBlock 0)) t []"
  by (simp_all add: builds_def NewEmptyBlock_def blk_SetType_def)

lemma builds_append: "builds b t xs \<Longrightarrow> writes e x \<Longrightarrow> builds (blk_Append e b) t (xs @ [x])"
  by (simp add: builds_def blk_Append_def list_all2_appendI)

lemma builds_done: "builds b t xs \<Longrightarrow> writes b (t, tlvs xs)"
proof -
  assume b: "builds b t xs"
  then have "map (\<lambda>b. fst (blk_Wire b)) (b_subs b) = map tlv xs" by (simp add: builds_def map_writes)
  moreover have "b_subs b = [] \<longleftrightarrow> xs = []" using b list_all2_lengthD unfolding builds_def by fastforce
  moreover have "b = Block t [] (b_subs b) []" using b by (cases b) (simp add: builds_def)
  ultimately show ?thesis using Wire_fresh[of t "[]" "b_subs b"] by (simp add: writes_def tlvs_def) (metis Block.sel(1))
qed

lemma builds_fold: "builds b t xs \<Longrightarrow> list_all2 (\<lambda>a. writes (f a)) as ys \<Longrightarrow> builds (fold (\<lambda>a b. blk_Append (f a) b) as b) t (xs @ ys)"
proof (induction as arbitrary: b xs ys)
  case (Cons a as)
  then obtain y zs where "ys = y # zs" "writes (f a) y" "list_all2 (\<lambda>a. writes (f a)) as zs" by (auto simp: list_all2_Cons1)
  then show ?case using Cons.IH[OF builds_append[OF Cons.prems(1)]] by simp
qed simp

lemma builds_if: "builds b t xs \<Longrightarrow> (c \<Longrightarrow> writes e x) \<Longrightarrow> builds (if c then blk_Append e b else b) t (xs @ (if c then [x] else []))"
  by (simp add: builds_append)

lemma EncodeNNIBlock_eq: "EncodeNNIBlock t v = NewBlock t (EncodeNNI v)"
proof -
  have ne: "EncodeNNI v \<noteq> []" using EncodeNNI_length[of v] by (auto split: if_splits)
  then show ?thesis
    by (auto simp: EncodeNNIBlock_def EncodeNNI_def NewBlock_def Let_def blk_SetType_def blk_SetValue_def PutUint64_def)
qed

lemma writes_nni: "writes (EncodeNNIBlock t v) (t, EncodeNNI v)"
  by (simp add: EncodeNNIBlock_eq writes_value)

lemma nni_parsed [simp]: "nni_elem e (parsed (t, EncodeNNI v)) = ret v"
proof -
  have "1 \<le> length (EncodeNNI v)" "length (EncodeNNI v) \<le> 8" by (simp_all add: EncodeNNI_length)
  moreover from this have "EncodeNNI v \<noteq> []" by auto
  ultimately show ?thesis
    by (simp add: nni_elem_def DecodeNNIBlock_def not_less Uint64_nni_pad del: One_nat_def)
qed

text \<open>Items that are there or not, and the loop over a list of optional ones.\<close>

definition opt_item :: "u32 \<Rightarrow> ('a \<Rightarrow> bytes) \<Rightarrow> 'a option \<Rightarrow> tlv_item list" where
  "opt_item t f x = (case x of None \<Rightarrow> [] | Some v \<Rightarrow> [(t, f v)])"

lemma opt_item_simps [simp]: "opt_item t f None = []" "opt_item t f (Some v) = [(t, f v)]"
  by (simp_all add: opt_item_def)

lemma each_elem_append: "each_elem f (xs @ ys) s = ebind (each_elem f xs s) (\<lambda>(xs', s'). ebind (each_elem f ys s') (\<lambda>(ys', s''). ret (xs' @ ys', s'')))"
proof (induction xs arbitrary: s)
  case Nil
  show ?case by (cases "each_elem f ys s" rule: fallible_cases) auto
next
  case (Cons x xs)
  show ?case
  proof (cases "f x s" rule: fallible_cases)
    case (value_ r)
    obtain x' s' where r: "r = (x', s')" by fastforce
    show ?thesis
    proof (cases "each_elem f xs s'" rule: fallible_cases)
      case (value_ q)
      obtain xs' s'' where q: "q = (xs', s'')" by fastforce
      show ?thesis
        using \<open>f x s = ret r\<close> value_ Cons by (cases "each_elem f ys s''" rule: fallible_cases) (auto simp: r q)
    qed (use value_ Cons r in auto)
  qed auto
qed

lemma builds_opt: "builds b t xs \<Longrightarrow> (\<And>v. x = Some v \<Longrightarrow> writes (f v) (t', g v)) \<Longrightarrow> builds (append_opt f x b) t (xs @ opt_item t' g x)"
  by (cases x) (simp_all add: append_opt_def builds_append)

text \<open>The loop over optional items whose steps leave the elements alone.\<close>

definition reads :: "(Block \<Rightarrow> 's \<Rightarrow> (Block \<times> 's) fallible) \<Rightarrow> tlv_item list \<Rightarrow> 's \<Rightarrow> 's \<Rightarrow> bool" where
  "reads f xs s t \<longleftrightarrow> (\<exists>bs. each_elem f (map parsed xs) s = ret (bs, t) \<and> list_all2 (\<lambda>b x. b_type b = fst x \<and> b_value b = snd x \<and> b_wire b = tlv x) bs xs)"

lemma reads_Nil: "reads f [] s s"
  by (simp add: reads_def)

lemma reads_one: "f (parsed x) s = ret (b, t) \<Longrightarrow> b_type b = fst x \<Longrightarrow> b_value b = snd x \<Longrightarrow> b_wire b = tlv x \<Longrightarrow> reads f [x] s t"
  by (simp add: reads_def)

lemma reads_append: "reads f xs s t \<Longrightarrow> reads f ys t u \<Longrightarrow> reads f (xs @ ys) s u"
  unfolding reads_def map_append each_elem_append by (auto intro: list_all2_appendI)

lemma reads_opt: "(\<And>v. x = Some v \<Longrightarrow> reads f [(t, g v)] s s') \<Longrightarrow> (x = None \<Longrightarrow> s' = s) \<Longrightarrow> reads f (opt_item t g x) s s'"
  by (cases x) (auto intro: reads_Nil)

end
