(* ===== verification/Go_Sha256.thy ===== *)
theory Go_Sha256
  imports Go_Binary
begin

text \<open>
  \<^verbatim>\<open>crypto/sha256\<close> and \<^verbatim>\<open>crypto/subtle\<close> of the Go standard library: the SHA-256 digest of a byte
  string, and the comparison of two byte strings. The constants of the digest are computed from
  their description, the first 32 bits of the fractional parts of the cube and square roots of the
  first primes. The development relies on nothing but the length of a digest.
\<close>

text \<open>The largest \<open>r'\<close> with \<open>r' ^ k \<le> x\<close> that differs from \<open>r\<close> in the lowest \<open>n\<close> bits.\<close>

fun root_bits :: "nat \<Rightarrow> nat \<Rightarrow> nat \<Rightarrow> nat \<Rightarrow> nat" where
  "root_bits k x 0 r = r"
| "root_bits k x (Suc n) r = (if (r + 2 ^ n) ^ k \<le> x then root_bits k x n (r + 2 ^ n) else root_bits k x n r)"

definition first_primes :: "nat list" where
  "first_primes = filter (\<lambda>n. list_all (\<lambda>d. n mod d \<noteq> 0) [2..<n]) [2..<312]"

definition round_constants :: "u32 list" where
  "round_constants = map (\<lambda>p. of_nat (root_bits 3 (p * 2 ^ 96) 35 0)) first_primes"

definition initial_hash :: "u32 list" where
  "initial_hash = map (\<lambda>p. of_nat (root_bits 2 (p * 2 ^ 64) 35 0)) [2, 3, 5, 7, 11, 13, 17, 19]"

fun schedule :: "nat \<Rightarrow> u32 list \<Rightarrow> u32 list" where
  "schedule 0 w = w"
| "schedule (Suc n) w =
     (let i = length w; x = w ! (i - 15); y = w ! (i - 2);
          s0 = word_rotr 7 x XOR word_rotr 18 x XOR drop_bit 3 x;
          s1 = word_rotr 17 y XOR word_rotr 19 y XOR drop_bit 10 y
      in schedule n (w @ [w ! (i - 16) + s0 + w ! (i - 7) + s1]))"

fun sha_round :: "u32 list \<Rightarrow> u32 \<times> u32 \<Rightarrow> u32 list" where
  "sha_round [a, b, c, d, e, f, g, h] (k, w) =
     (let s1 = word_rotr 6 e XOR word_rotr 11 e XOR word_rotr 25 e;
          ch = (e AND f) XOR (NOT e AND g);
          t1 = h + s1 + ch + k + w;
          s0 = word_rotr 2 a XOR word_rotr 13 a XOR word_rotr 22 a;
          maj = (a AND b) XOR (a AND c) XOR (b AND c)
      in [t1 + (s0 + maj), a, b, c, d + t1, e, f, g])"
| "sha_round hs kw = hs"

fun be_words :: "bytes \<Rightarrow> u32 list" where
  "be_words (a # b # c # d # r) = Uint32 [a, b, c, d] # be_words r"
| "be_words r = []"

definition compress :: "u32 list \<Rightarrow> bytes \<Rightarrow> u32 list" where
  "compress hs block = map2 (+) hs (foldl sha_round hs (zip round_constants (schedule 48 (be_words block))))"

function compress_all :: "u32 list \<Rightarrow> bytes \<Rightarrow> u32 list" where
  "compress_all hs bs = (if length bs < 64 then hs else compress_all (compress hs (take 64 bs)) (drop 64 bs))"
  by pat_completeness auto
termination by (relation "measure (\<lambda>(hs, bs). length bs)") auto

declare compress_all.simps [simp del]

definition sha_pad :: "bytes \<Rightarrow> bytes" where
  "sha_pad bs = bs @ 0x80 # replicate ((119 - length bs mod 64) mod 64) 0 @ PutUint64 (of_nat (8 * length bs))"

definition Sum256 :: "bytes \<Rightarrow> bytes" where
  "Sum256 bs = concat (map PutUint32 (compress_all initial_hash (sha_pad bs)))"

text \<open>\<^verbatim>\<open>subtle.ConstantTimeCompare\<close>: 1 when the contents are equal, 0 otherwise, also when the lengths differ.\<close>

definition ConstantTimeCompare :: "bytes \<Rightarrow> bytes \<Rightarrow> int" where
  "ConstantTimeCompare x y = (if x = y then 1 else 0)"

section \<open>The length of a digest\<close>

lemma length_sha_round: "length (sha_round hs kw) = length hs"
  by (cases "(hs, kw)" rule: sha_round.cases) (simp_all add: Let_def)

lemma length_compress: "length (compress hs block) = length hs"
proof -
  have "length (foldl sha_round hs xs) = length hs" for xs
    by (induction xs arbitrary: hs) (simp_all add: length_sha_round)
  then show ?thesis by (simp add: compress_def)
qed

lemma length_compress_all: "length (compress_all hs bs) = length hs"
proof (induction hs bs rule: compress_all.induct)
  case (1 hs bs)
  then show ?case by (subst compress_all.simps) (simp add: length_compress)
qed

lemma length_initial_hash: "length initial_hash = 8"
  by (simp add: initial_hash_def)

lemma Sum256_length [simp]: "length (Sum256 bs) = 32"
proof -
  have "length (concat (map PutUint32 ws)) = 4 * length ws" for ws by (induction ws) simp_all
  then show ?thesis by (simp add: Sum256_def length_compress_all length_initial_hash)
qed

lemma ConstantTimeCompare_eq [simp]: "ConstantTimeCompare x y = 1 \<longleftrightarrow> x = y"
  by (simp add: ConstantTimeCompare_def)

end
