(* ===== verification/Ndn_Meta.thy ===== *)
theory Ndn_Meta
  imports Ndn_Elems Go_Sha256
begin

text \<open>
  The parts of packets: \<^verbatim>\<open>src/ndn/metainfo.go\<close>, \<^verbatim>\<open>src/ndn/signature-info.go\<close> with
  \<^verbatim>\<open>src/ndn/security\<close>, and \<^verbatim>\<open>src/ndn/delegation.go\<close>. An object holds its fields and the block it was
  decoded from or encoded to; a setter drops that block. A pointer field is an option, and so is
  the nonce of a signature, whose nil slice the code tells from an empty one. The errors that the
  code forwards from \<^verbatim>\<open>Wire\<close> cannot occur and are no branch here.
\<close>

section \<open>MetaInfo\<close>

record ndn_MetaInfo =
  mi_contentType :: "u64 option"
  mi_freshnessPeriod :: "int option"
  mi_finalBlockID :: "NameComponent iface"
  mi_wire :: "Block option"

definition NewMetaInfo :: ndn_MetaInfo where
  "NewMetaInfo = \<lparr>mi_contentType = None, mi_freshnessPeriod = None, mi_finalBlockID = NilIface, mi_wire = None\<rparr>"

definition metainfo_elem :: "Block \<Rightarrow> nat \<times> ndn_MetaInfo \<Rightarrow> (Block \<times> nat \<times> ndn_MetaInfo) fallible" where
  "metainfo_elem elem st =
     (case st of (mostRecentElem, m) \<Rightarrow>
        if b_type elem = T_ContentType then
          guard (mostRecentElem \<ge> 1) (ErrText ''ContentType is duplicate or out-of-order'')
           (ebind (nni_elem (ErrText ''error decoding ContentType'') elem) (\<lambda>v.
              ret (elem, 1, m\<lparr>mi_contentType := Some v\<rparr>)))
        else if b_type elem = T_FreshnessPeriod then
          guard (mostRecentElem \<ge> 2) (ErrText ''FreshnessPeriod is duplicate or out-of-order'')
           (ebind (nni_elem (ErrText ''error decoding FreshnessPeriod'') elem) (\<lambda>v.
              ret (elem, 2, m\<lparr>mi_freshnessPeriod := Some (dur_of_ms v)\<rparr>)))
        else if b_type elem = T_FinalBlockID then
          guard (mostRecentElem = 3) (ErrText ''FinalBlockId is duplicate or out-or-order'')
           (rbind (parse_if_bare elem) (\<lambda>elem'.
              guard (length (b_subs elem') \<noteq> 1) (ErrText ''FinalBlockId must contain exactly one name component'')
               (case DecodeNameComponent (Some (b_subs elem' ! 0)) of
                  (c, Some e) \<Rightarrow> fail (ErrText ''error decoding FinalBlockId'')
                | (c, None) \<Rightarrow> ret (elem', 3, m\<lparr>mi_finalBlockID := c\<rparr>))))
        else guard (IsCritical (b_type elem)) ErrUnrecognizedCritical (ret (elem, mostRecentElem, m)))"

definition DecodeMetaInfo :: "Block option \<Rightarrow> ndn_MetaInfo fallible" where
  "DecodeMetaInfo wire =
     (case wire of
        None \<Rightarrow> fail ErrNonExistent
      | Some b \<Rightarrow> rbind (parse_if_bare b) (\<lambda>b'.
          ebind (each_elem metainfo_elem (b_subs b') (0, NewMetaInfo)) (\<lambda>(subs, _, m).
            ret (m\<lparr>mi_wire := Some (set_subs subs b')\<rparr>))))"

text \<open>\<^verbatim>\<open>String\<close>: the flag for the comma is only cleared behind the content type.\<close>

definition metainfo_String :: "ndn_MetaInfo \<Rightarrow> gostring result" where
  "metainfo_String m =
     (let (str, isFirst) =
            (case mi_contentType m of
               None \<Rightarrow> (lit ''MetaInfo('', True)
             | Some c \<Rightarrow> (lit ''MetaInfo('' @ lit ''ContentType='' @ FormatUint (unat c), False));
          str = (case mi_freshnessPeriod m of
               None \<Rightarrow> str
             | Some d \<Rightarrow> str @ (if \<not> isFirst then lit '', '' else []) @ lit ''FreshnessPeriod='' @ FormatInt (dur_Milliseconds d) @ lit ''ms'')
      in case mi_finalBlockID m of
           NilIface \<Rightarrow> Inr (str @ lit '')'')
         | NilPtr \<Rightarrow> Inl NilDereference
         | Ref c \<Rightarrow> Inr (str @ (if \<not> isFirst then lit '', '' else []) @ lit ''FinalBlockId='' @ nc_String c @ lit '')''))"

definition metainfo_SetContentType :: "u64 \<Rightarrow> ndn_MetaInfo \<Rightarrow> ndn_MetaInfo" where
  "metainfo_SetContentType c m = m\<lparr>mi_contentType := Some c, mi_wire := None\<rparr>"

definition metainfo_UnsetContentType :: "ndn_MetaInfo \<Rightarrow> ndn_MetaInfo" where
  "metainfo_UnsetContentType m = m\<lparr>mi_contentType := None, mi_wire := None\<rparr>"

definition metainfo_SetFreshnessPeriod :: "int \<Rightarrow> ndn_MetaInfo \<Rightarrow> ndn_MetaInfo" where
  "metainfo_SetFreshnessPeriod d m = m\<lparr>mi_freshnessPeriod := Some d, mi_wire := None\<rparr>"

definition metainfo_UnsetFreshnessPeriod :: "ndn_MetaInfo \<Rightarrow> ndn_MetaInfo" where
  "metainfo_UnsetFreshnessPeriod m = m\<lparr>mi_freshnessPeriod := None, mi_wire := None\<rparr>"

definition metainfo_SetFinalBlockID :: "NameComponent iface \<Rightarrow> ndn_MetaInfo \<Rightarrow> ndn_MetaInfo" where
  "metainfo_SetFinalBlockID c m = m\<lparr>mi_finalBlockID := c, mi_wire := None\<rparr>"

definition metainfo_UnsetFinalBlockID :: "ndn_MetaInfo \<Rightarrow> ndn_MetaInfo" where
  "metainfo_UnsetFinalBlockID m = m\<lparr>mi_finalBlockID := NilIface, mi_wire := None\<rparr>"

definition metainfo_Encode :: "ndn_MetaInfo \<Rightarrow> (Block \<times> ndn_MetaInfo) result" where
  "metainfo_Encode m =
     (case mi_wire m of
        Some w \<Rightarrow> Inr (w, m)
      | None \<Rightarrow>
          let w = blk_SetType T_MetaInfo (NewEmptyBlock 0);
              w = append_opt (EncodeNNIBlock T_ContentType) (mi_contentType m) w;
              w = append_opt (\<lambda>d. EncodeNNIBlock T_FreshnessPeriod (of_int (dur_Milliseconds d))) (mi_freshnessPeriod m) w
          in rbind
              (case mi_finalBlockID m of
                 NilIface \<Rightarrow> Inr (w, NilIface)
               | NilPtr \<Rightarrow> Inl NilDereference
               | Ref c \<Rightarrow> let (cb, c') = nc_Encode c in Inr (blk_Append (NewBlock T_FinalBlockID (fst (blk_Wire cb))) w, Ref c'))
              (\<lambda>(w, fb). let w = snd (blk_Wire w) in Inr (w, m\<lparr>mi_finalBlockID := fb, mi_wire := Some w\<rparr>)))"

section \<open>Signing\<close>

abbreviation "DigestSha256Type \<equiv> 0 :: u64"
abbreviation "SignatureSha256WithRsaType \<equiv> 1 :: u64"
abbreviation "SignatureSha256WithEcdsaType \<equiv> 3 :: u64"
abbreviation "SignatureHmacWithSha256Type \<equiv> 4 :: u64"
abbreviation "SignatureNullType \<equiv> 200 :: u64"

definition DigestSha256_Sign :: "bytes \<Rightarrow> ndn_error + bytes" where
  "DigestSha256_Sign buf = Inr (Sum256 buf)"

definition DigestSha256_Validate :: "bytes \<Rightarrow> bytes \<Rightarrow> bool" where
  "DigestSha256_Validate buf signature \<longleftrightarrow> ConstantTimeCompare (Sum256 buf) signature = 1"

definition Sign :: "u64 \<Rightarrow> bytes \<Rightarrow> ndn_error + bytes" where
  "Sign signatureType buffer =
     (if signatureType = DigestSha256Type then DigestSha256_Sign buffer
      else if signatureType = SignatureSha256WithRsaType then Inl (ErrText ''cannot sign SignatureSha256WithRsa'')
      else if signatureType = SignatureSha256WithEcdsaType then Inl (ErrText ''cannot sign SignatureSha256WithEcdsaType'')
      else if signatureType = SignatureHmacWithSha256Type then Inl (ErrText ''cannot sign SignatureHmacWithSha256Type'')
      else if signatureType = SignatureNullType then Inr []
      else Inl (ErrText ''unknown SignatureType''))"

definition Verify :: "u64 \<Rightarrow> bytes \<Rightarrow> bytes \<Rightarrow> ndn_error + bool" where
  "Verify signatureType buffer signature =
     (if signatureType = DigestSha256Type then Inr (DigestSha256_Validate buffer signature)
      else if signatureType = SignatureSha256WithRsaType then Inl (ErrText ''cannot validate SignatureSha256WithRsa'')
      else if signatureType = SignatureSha256WithEcdsaType then Inl (ErrText ''cannot validate SignatureSha256WithEcdsaType'')
      else if signatureType = SignatureHmacWithSha256Type then Inl (ErrText ''cannot validate SignatureHmacWithSha256Type'')
      else if signatureType = SignatureNullType then Inr True
      else Inl (ErrText ''unknown SignatureType''))"

text \<open>
  The interface \<^verbatim>\<open>Signer\<close>: whatever signs a buffer yields a signature that validates for it. The
  functions that dispatch on the type of a signature provide it for every type.
\<close>

locale signer =
  fixes sign :: "bytes \<Rightarrow> ndn_error + bytes" and validate :: "bytes \<Rightarrow> bytes \<Rightarrow> ndn_error + bool"
  assumes sign_validates: "sign buf = Inr s \<Longrightarrow> validate buf s = Inr True"
begin

lemma validate_fails_unsigned: "validate buf s = Inl e \<Longrightarrow> sign buf \<noteq> Inr s"
  using sign_validates by fastforce

end

interpretation digest: signer DigestSha256_Sign "\<lambda>buf s. Inr (DigestSha256_Validate buf s)"
  by unfold_locales (auto simp: DigestSha256_Sign_def DigestSha256_Validate_def)

interpretation sig: signer "Sign t" "Verify t" for t
  by unfold_locales (auto simp: Sign_def Verify_def digest.sign_validates[simplified] split: if_splits)

section \<open>SignatureInfo\<close>

record ndn_SignatureInfo =
  si_signatureType :: u64
  si_keyLocator :: "Block option"
  si_nonce :: "bytes option"
  si_time :: "int option"
  si_seqNum :: "u64 option"
  si_isInterest :: bool
  si_wire :: "Block option"

definition NewSignatureInfo :: "u64 \<Rightarrow> ndn_SignatureInfo" where
  "NewSignatureInfo t = \<lparr>si_signatureType = t, si_keyLocator = None, si_nonce = None, si_time = None, si_seqNum = None,
     si_isInterest = False, si_wire = None\<rparr>"

definition NewInterestSignatureInfo :: "u64 \<Rightarrow> ndn_SignatureInfo" where
  "NewInterestSignatureInfo t = (NewSignatureInfo t)\<lparr>si_isInterest := True\<rparr>"

text \<open>\<^verbatim>\<open>time.Unix(sec, nsec)\<close> accepts any number of nanoseconds; \<^verbatim>\<open>Unix\<close> and \<^verbatim>\<open>UnixNano\<close> read a time.\<close>

definition time_Unix :: "int \<Rightarrow> int \<Rightarrow> int" where
  "time_Unix sec nsec = sec * 1000000000 + nsec"

definition t_Unix :: "int \<Rightarrow> int" where
  "t_Unix t = t div 1000000000"

definition t_UnixNano :: "int \<Rightarrow> int" where
  "t_UnixNano t = int64 t"

definition siginfo_elem :: "Block \<Rightarrow> nat \<times> ndn_SignatureInfo \<Rightarrow> (Block \<times> nat \<times> ndn_SignatureInfo) fallible" where
  "siginfo_elem elem st =
     (case st of (mostRecentElem, s) \<Rightarrow>
        if b_type elem = T_SignatureType then
          guard (mostRecentElem \<ge> 1) (ErrText ''SignatureType is duplicate or out-of-order'')
           (ebind (nni_elem (ErrText ''error decoding SignatureType'') elem) (\<lambda>v. ret (elem, 1, s\<lparr>si_signatureType := v\<rparr>)))
        else if b_type elem = T_KeyLocator then
          guard (mostRecentElem \<ge> 2) (ErrText ''KeyLocator is duplicate or out-of-order'')
           (ret (elem, 2, s\<lparr>si_keyLocator := Some elem\<rparr>))
        else if b_type elem = T_SignatureNonce then
          guard (mostRecentElem \<ge> 3) (ErrText ''SignatureNonce is duplicate or out-or-order'')
           (guard (\<not> si_isInterest s) (ErrText ''SignatureNonce cannot be present in SignatureInfo for Data'')
             (ret (elem, 3, s\<lparr>si_nonce := Some (b_value elem)\<rparr>)))
        else if b_type elem = T_SignatureTime then
          guard (mostRecentElem \<ge> 4) (ErrText ''SignatureTime is duplicate or out-or-order'')
           (guard (\<not> si_isInterest s) (ErrText ''SignatureTime cannot be present in SignatureInfo for Data'')
             (ebind (nni_elem (ErrText ''error decoding SignatureTime'') elem) (\<lambda>v.
                ret (elem, 4, s\<lparr>si_time := Some (time_Unix (sint (v div 1000)) (sint (v * 1000000)))\<rparr>))))
        else if b_type elem = T_SignatureSeqNum then
          guard (mostRecentElem \<ge> 5) (ErrText ''SignatureSeqNum is duplicate or out-or-order'')
           (guard (\<not> si_isInterest s) (ErrText ''SignatureSeqNum cannot be present in SignatureInfo for Data'')
             (ebind (nni_elem (ErrText ''error decoding SignatureSeqNum'') elem) (\<lambda>v. ret (elem, 5, s\<lparr>si_seqNum := Some v\<rparr>))))
        else if b_type elem = T_ValidityPeriod then ret (elem, mostRecentElem, s)
        else guard (IsCritical (b_type elem)) ErrUnrecognizedCritical (ret (elem, mostRecentElem, s)))"

definition DecodeSignatureInfo :: "Block option \<Rightarrow> ndn_SignatureInfo fallible" where
  "DecodeSignatureInfo wire =
     (case wire of
        None \<Rightarrow> fail ErrNonExistent
      | Some b \<Rightarrow>
          guard (b_type b \<noteq> T_SignatureInfo \<and> b_type b \<noteq> T_InterestSignatureInfo)
            (ErrText ''block must be SignatureInfo or InterestSignatureInfo'')
           (rbind (parse_if_bare b) (\<lambda>b'.
              ebind (each_elem siginfo_elem (b_subs b')
                (0, (NewSignatureInfo 0)\<lparr>si_isInterest := b_type b = T_InterestSignatureInfo\<rparr>)) (\<lambda>(subs, _, s).
                  ret (s\<lparr>si_wire := Some (set_subs subs b')\<rparr>)))))"

definition siginfo_SetType :: "u64 \<Rightarrow> ndn_SignatureInfo \<Rightarrow> ndn_SignatureInfo" where
  "siginfo_SetType t s = s\<lparr>si_signatureType := t, si_wire := None\<rparr>"

definition siginfo_SetKeyLocator :: "Block option \<Rightarrow> ndn_SignatureInfo \<Rightarrow> ndn_SignatureInfo" where
  "siginfo_SetKeyLocator k s = s\<lparr>si_keyLocator := k, si_wire := None\<rparr>"

definition siginfo_UnsetKeyLocator :: "ndn_SignatureInfo \<Rightarrow> ndn_SignatureInfo" where
  "siginfo_UnsetKeyLocator s = s\<lparr>si_keyLocator := None, si_wire := None\<rparr>"

definition siginfo_Nonce :: "ndn_SignatureInfo \<Rightarrow> bytes" where
  "siginfo_Nonce s = (case si_nonce s of None \<Rightarrow> [] | Some n \<Rightarrow> n)"

definition siginfo_SetNonce :: "bytes option \<Rightarrow> ndn_SignatureInfo \<Rightarrow> ndn_SignatureInfo" where
  "siginfo_SetNonce n s = s\<lparr>si_nonce := n, si_wire := None\<rparr>"

definition siginfo_UnsetNonce :: "ndn_SignatureInfo \<Rightarrow> ndn_SignatureInfo" where
  "siginfo_UnsetNonce s = s\<lparr>si_nonce := Some [], si_wire := None\<rparr>"

definition siginfo_Time :: "ndn_SignatureInfo \<Rightarrow> int option result" where
  "siginfo_Time s =
     (if si_keyLocator s = None then Inr None
      else case si_time s of None \<Rightarrow> Inl NilDereference | Some t \<Rightarrow> Inr (Some (time_Unix (t_Unix t) (t_UnixNano t))))"

definition siginfo_SetTime :: "int option \<Rightarrow> ndn_SignatureInfo \<Rightarrow> ndn_SignatureInfo" where
  "siginfo_SetTime newTime s =
     (case newTime of
        None \<Rightarrow> s\<lparr>si_wire := None, si_time := None\<rparr>
      | Some t \<Rightarrow> s\<lparr>si_wire := None, si_time := Some (time_Unix (t_Unix t) (t_UnixNano t))\<rparr>)"

definition siginfo_UnsetTime :: "ndn_SignatureInfo \<Rightarrow> ndn_SignatureInfo" where
  "siginfo_UnsetTime s = s\<lparr>si_time := None, si_wire := None\<rparr>"

definition siginfo_SetSeqNum :: "u64 \<Rightarrow> ndn_SignatureInfo \<Rightarrow> ndn_SignatureInfo" where
  "siginfo_SetSeqNum n s = s\<lparr>si_seqNum := Some n, si_wire := None\<rparr>"

definition siginfo_UnsetSeqNum :: "ndn_SignatureInfo \<Rightarrow> ndn_SignatureInfo" where
  "siginfo_UnsetSeqNum s = s\<lparr>si_seqNum := None, si_wire := None\<rparr>"

definition siginfo_Encode :: "ndn_SignatureInfo \<Rightarrow> Block \<times> ndn_SignatureInfo" where
  "siginfo_Encode s =
     (let (w, s) =
        (case si_wire s of
           Some w \<Rightarrow> (w, s)
         | None \<Rightarrow>
             let w = NewEmptyBlock (if si_isInterest s then T_InterestSignatureInfo else T_SignatureInfo);
                 w = blk_Append (EncodeNNIBlock T_SignatureType (si_signatureType s)) w;
                 (w, s) = (case si_keyLocator s of
                     None \<Rightarrow> (w, s)
                   | Some k \<Rightarrow> (blk_Append (NewBlock T_KeyLocator (fst (blk_Wire k))) w, s\<lparr>si_keyLocator := Some (snd (blk_Wire k))\<rparr>));
                 w = (if si_isInterest s
                      then append_opt (EncodeNNIBlock T_SignatureSeqNum) (si_seqNum s)
                            (append_opt (\<lambda>t. EncodeNNIBlock T_SignatureTime (of_int (trunc_div (t_UnixNano t) 1000000))) (si_time s)
                              (append_opt (NewBlock T_SignatureNonce) (si_nonce s) w))
                      else w)
             in (w, s));
          w = snd (blk_Wire w)
      in (w, s\<lparr>si_wire := Some w\<rparr>))"

section \<open>Delegations\<close>

record ndn_Delegation =
  dl_preference :: u64
  dl_name :: Name
  dl_wire :: "Block option"

definition delegation_SetPreference :: "u64 \<Rightarrow> ndn_Delegation \<Rightarrow> ndn_Delegation" where
  "delegation_SetPreference p d = d\<lparr>dl_preference := p, dl_wire := None\<rparr>"

definition delegation_SetName :: "Name \<Rightarrow> ndn_Delegation \<Rightarrow> ndn_Delegation" where
  "delegation_SetName n d = d\<lparr>dl_name := n, dl_wire := None\<rparr>"

definition NewDelegation :: "u64 \<Rightarrow> Name \<Rightarrow> ndn_Delegation" where
  "NewDelegation p n = delegation_SetName n (delegation_SetPreference p \<lparr>dl_preference = 0, dl_name = NewName, dl_wire = None\<rparr>)"

text \<open>The name is decoded in place, so the block that is kept holds it parsed.\<close>

definition DecodeDelegation :: "Block option \<Rightarrow> ndn_Delegation fallible" where
  "DecodeDelegation wire =
     (case wire of
        None \<Rightarrow> fail ErrNonExistent
      | Some b \<Rightarrow> rbind (parse_always b) (\<lambda>b'.
          case (blk_Find T_Preference b', find_index (\<lambda>e. b_type e = T_Name) (b_subs b')) of
            (Some p, Some i) \<Rightarrow>
              (case DecodeNNIBlock (Some p) of
                 Inl e \<Rightarrow> fail e
               | Inr pref \<Rightarrow> ebind (decode_name_elem (b_subs b' ! i)) (\<lambda>(nb, n).
                   ret \<lparr>dl_preference = pref, dl_name = n, dl_wire = Some (set_sub i nb b')\<rparr>))
          | _ \<Rightarrow> fail ErrNonExistent))"

definition delegation_String :: "ndn_Delegation \<Rightarrow> gostring" where
  "delegation_String d = lit ''Delegation('' @ FormatUint (unat (dl_preference d)) @ lit '', '' @ fst (name_String (dl_name d)) @ lit '')''"

text \<open>\<^verbatim>\<open>Encode\<close> without a wire calls \<^verbatim>\<open>SetType\<close> on the nil block, which reads its type.\<close>

definition delegation_Encode :: "ndn_Delegation \<Rightarrow> Block result" where
  "delegation_Encode d = (case dl_wire d of None \<Rightarrow> Inl NilDereference | Some w \<Rightarrow> Inr w)"

end
