(* ===== verification/Ndn_Spec.thy ===== *)
theory Ndn_Spec
  imports Ndn_Meta
begin

text \<open>
  What names, MetaInfo and SignatureInfo objects encode to, as lists of items, and what the decoders
  read from these items. An object whose wire is not set is encoded from its fields; one that has a
  wire returns it, so the predicates below ask that this wire is the encoding of the fields.
\<close>

section \<open>Names\<close>

definition name_item :: "(u16 \<times> bytes) list \<Rightarrow> tlv_item" where
  "name_item ks = (T_Name, tlvs (map (\<lambda>(t, v). (ucast t, v)) ks))"

definition good_keys :: "(u16 \<times> bytes) list \<Rightarrow> bool" where
  "good_keys ks \<longleftrightarrow> (\<forall>(t, v)\<in>set ks. decodable (ucast t) v)"

definition good_name :: "Name \<Rightarrow> bool" where
  "good_name n \<longleftrightarrow> good_keys (keys n) \<and> (\<forall>c\<in>set (nm_comps n). nc_cache_ok c)
     \<and> (\<forall>w. nm_wire n = Some w \<longrightarrow> writes w (name_item (keys n)))"

lemma nc_Encode_writes:
  assumes "nc_cache_ok c"
  shows "writes (fst (nc_Encode c)) (ucast (nc_Type c), nc_Value c)"
  using nc_Encode_block(1)[OF assms]
  by (simp add: writes_def Wire_cached key_bytes_def nc_key_def tlv_def)

lemma name_Encode_writes:
  assumes "good_name n"
  shows "writes (fst (name_Encode n)) (name_item (keys n))" "keys (snd (name_Encode n)) = keys n" "good_name (snd (name_Encode n))"
proof -
  have c: "\<forall>c\<in>set (nm_comps n). nc_cache_ok c" using assms by (simp add: good_name_def)
  have enc: "builds (fold (\<lambda>c b. blk_Append (fst c) b) (map nc_Encode (nm_comps n)) (blk_SetType T_Name (NewEmptyBlock 0)))
      T_Name ([] @ map (\<lambda>(t, v). (ucast t, v)) (keys n))"
    by (intro builds_fold builds_empty) (auto simp: list_all2_conv_all_nth keys_def nc_key_def nc_Encode_writes c)
  have k: "keys (snd (name_Encode n)) = keys n"
    by (cases "nm_wire n") (simp_all add: name_Encode_def Let_def keys_def)
  moreover show w: "writes (fst (name_Encode n)) (name_item (keys n))"
    using assms builds_done[OF enc] by (cases "nm_wire n") (auto simp: name_Encode_def Let_def good_name_def NewEmptyBlock_def name_item_def)
  moreover have "nm_wire (snd (name_Encode n)) = Some (fst (name_Encode n))"
    by (cases "nm_wire n") (simp_all add: name_Encode_def Let_def)
  moreover have "\<forall>c\<in>set (nm_comps (snd (name_Encode n))). nc_cache_ok c"
    using c nc_Encode_block(2) by (cases "nm_wire n") (auto simp: name_Encode_def Let_def)
  ultimately show "keys (snd (name_Encode n)) = keys n" "good_name (snd (name_Encode n))"
    using assms by (simp_all add: good_name_def)
qed

lemma decode_name_parsed:
  assumes "good_keys ks" "length (tlv (name_item ks)) < 2 ^ 63"
  shows "\<exists>b n. decode_name_elem (parsed (name_item ks)) = ret (b, n) \<and> keys n = ks \<and> good_name n \<and> (\<forall>c\<in>set (nm_comps n). nc_ok c)
    \<and> b_type b = T_Name \<and> b_value b = snd (name_item ks) \<and> b_wire b = tlv (name_item ks)"
proof -
  let ?xs = "map (\<lambda>(t, v). (ucast t, v)) ks :: tlv_item list"
  have "length (tlvs ?xs) < 2 ^ 63" using assms(2) tlv_length[of ?xs T_Name] by (simp add: name_item_def)
  note p = parse_loop_tlvs[OF this]
  have good: "\<forall>b\<in>set (map parsed ?xs). decodable (b_type b) (b_value b)"
    using assms(1) by (auto simp: good_keys_def)
  have un: "map (\<lambda>b. (ucast (b_type b), b_value b)) (map parsed ?xs) = ks"
    by (simp add: comp_def case_prod_unfold ucast_16_32 map_idI)
  from decode_comps_good[OF good, of "[]" "[]"] obtain ds where ds: "decode_comps (map parsed ?xs) [] [] = Inr (Inr (ds, uri ds))"
      "map nc_key ds = ks" "\<forall>d\<in>set ds. nc_ok d \<and> nc_wire (nc_base d) = None"
    unfolding un by auto
  let ?b = "set_subs (map parsed ?xs) (parsed (name_item ks))"
  have pi: "parse_if_bare (parsed (name_item ks)) = Inr ?b"
    using parse_parsed(2)[OF \<open>length (tlvs ?xs) < 2 ^ 63\<close>, of T_Name] by (simp add: name_item_def)
  have e: "DecodeName (Some (parsed (name_item ks))) = Inr (Inr (Name ds (Some ?b) (uri ds)))"
    using pi ds(1) by (simp add: DecodeName_def parse_if_bare_def parse_always_def set_subs_def name_item_def rbind_def split: sum.splits)
  have w: "writes ?b (name_item ks)"
    by (simp add: writes_def Wire_cached set_subs_def)
  have cache: "nc_cache_ok d" if "d \<in> set ds" for d using ds(3) that by (simp add: nc_cache_ok_def)
  have "keys (Name ds (Some ?b) (uri ds)) = ks" using ds(2) by (simp add: keys_def)
  then have "good_name (Name ds (Some ?b) (uri ds))" "\<forall>c\<in>set (nm_comps (Name ds (Some ?b) (uri ds))). nc_ok c"
    using assms(1) w cache ds(3) by (auto simp: good_name_def)
  moreover have "decode_name_elem (parsed (name_item ks)) = ret (?b, Name ds (Some ?b) (uri ds))"
    using e by (simp add: decode_name_elem_def ret_def ebind_def)
  ultimately show ?thesis
    using \<open>keys (Name ds (Some ?b) (uri ds)) = ks\<close> by (intro exI[of _ ?b] exI[of _ "Name ds (Some ?b) (uri ds)"]) (simp add: set_subs_def name_item_def)
qed

section \<open>Durations\<close>

text \<open>The durations that an encoding in milliseconds keeps.\<close>

definition whole_ms :: "int \<Rightarrow> bool" where
  "whole_ms d \<longleftrightarrow> 0 \<le> d \<and> d < 2 ^ 63 \<and> 1000000 dvd d"

lemma int64_id: "- (2 ^ 63) \<le> i \<Longrightarrow> i < 2 ^ 63 \<Longrightarrow> int64 i = i"
  by (simp add: int64_def signed_of_int signed_take_bit_int_eq_self)

lemma dur_of_ms_Milliseconds:
  assumes "whole_ms d"
  shows "dur_of_ms (of_int (dur_Milliseconds d)) = d"
proof -
  obtain k where k: "d = 1000000 * k" using assms by (auto simp: whole_ms_def)
  then have b: "0 \<le> k" "k < 2 ^ 63" using assms by (simp_all add: whole_ms_def)
  have "dur_Milliseconds d = k" using b k by (simp add: dur_Milliseconds_def trunc_div_def)
  moreover have "sint (of_int k :: u64) = k" using int64_id[of k] b by (simp add: int64_def)
  ultimately show ?thesis using assms int64_id[of d] by (simp add: dur_of_ms_def k whole_ms_def mult.commute)
qed

section \<open>MetaInfo\<close>

definition iface_key :: "NameComponent iface \<Rightarrow> (u16 \<times> bytes) option" where
  "iface_key c = (case c of Ref x \<Rightarrow> Some (nc_key x) | _ \<Rightarrow> None)"

definition mi_view :: "ndn_MetaInfo \<Rightarrow> u64 option \<times> int option \<times> (u16 \<times> bytes) option" where
  "mi_view m = (mi_contentType m, mi_freshnessPeriod m, iface_key (mi_finalBlockID m))"

definition mi_items :: "u64 option \<times> int option \<times> (u16 \<times> bytes) option \<Rightarrow> tlv_item list" where
  "mi_items v = opt_item T_ContentType EncodeNNI (fst v)
     @ opt_item T_FreshnessPeriod (\<lambda>d. EncodeNNI (of_int (dur_Milliseconds d))) (fst (snd v))
     @ opt_item T_FinalBlockID (\<lambda>(t, x). tlv (ucast t, x)) (snd (snd v))"

definition good_metainfo :: "ndn_MetaInfo \<Rightarrow> bool" where
  "good_metainfo m \<longleftrightarrow> mi_finalBlockID m \<noteq> NilPtr
     \<and> (\<forall>c. mi_finalBlockID m = Ref c \<longrightarrow> nc_cache_ok c \<and> decodable (ucast (nc_Type c)) (nc_Value c))
     \<and> (\<forall>d. mi_freshnessPeriod m = Some d \<longrightarrow> whole_ms d)
     \<and> (\<forall>w. mi_wire m = Some w \<longrightarrow> writes w (T_MetaInfo, tlvs (mi_items (mi_view m))))"

lemma metainfo_Encode_writes:
  assumes "good_metainfo m"
  shows "\<exists>w m'. metainfo_Encode m = Inr (w, m') \<and> writes w (T_MetaInfo, tlvs (mi_items (mi_view m))) \<and> mi_view m' = mi_view m \<and> mi_wire m' = Some w \<and> good_metainfo m'"
proof (cases "mi_wire m")
  case (Some w)
  then show ?thesis using assms by (simp add: metainfo_Encode_def good_metainfo_def)
next
  case None
  let ?w = "append_opt (\<lambda>d. EncodeNNIBlock T_FreshnessPeriod (of_int (dur_Milliseconds d))) (mi_freshnessPeriod m)
      (append_opt (EncodeNNIBlock T_ContentType) (mi_contentType m) (blk_SetType T_MetaInfo (NewEmptyBlock 0)))"
  let ?xs = "([] @ opt_item T_ContentType EncodeNNI (mi_contentType m))
     @ opt_item T_FreshnessPeriod (\<lambda>d. EncodeNNI (of_int (dur_Milliseconds d))) (mi_freshnessPeriod m)"
  have w: "builds ?w T_MetaInfo ?xs" by (intro builds_opt builds_empty writes_nni)
  show ?thesis
  proof (cases "mi_finalBlockID m")
    case NilIface
    let ?m' = "m\<lparr>mi_finalBlockID := NilIface, mi_wire := Some (snd (blk_Wire ?w))\<rparr>"
    have "metainfo_Encode m = Inr (snd (blk_Wire ?w), ?m')"
      by (simp add: metainfo_Encode_def None NilIface Let_def)
    moreover have "mi_view ?m' = mi_view m" "writes (snd (blk_Wire ?w)) (T_MetaInfo, tlvs (mi_items (mi_view m)))"
      using builds_done[OF w] by (simp_all add: mi_view_def mi_items_def NilIface iface_key_def)
    moreover from this have "good_metainfo ?m'" "mi_wire ?m' = Some (snd (blk_Wire ?w))"
      using assms by (simp_all add: good_metainfo_def)
    ultimately show ?thesis by blast
  next
    case NilPtr
    then show ?thesis using assms by (simp add: good_metainfo_def)
  next
    case (Ref c)
    obtain cb c' where c: "nc_Encode c = (cb, c')" by fastforce
    have cache: "nc_cache_ok c" using assms Ref by (simp add: good_metainfo_def)
    have cb: "fst (blk_Wire cb) = tlv (ucast (nc_Type c), nc_Value c)"
      using nc_Encode_writes[OF cache] c by (simp add: writes_def)
    let ?e = "NewBlock T_FinalBlockID (fst (blk_Wire cb))"
    have w2: "builds (blk_Append ?e ?w) T_MetaInfo (?xs @ [(T_FinalBlockID, fst (blk_Wire cb))])"
      by (intro builds_append w writes_value)
    let ?m' = "m\<lparr>mi_finalBlockID := Ref c', mi_wire := Some (snd (blk_Wire (blk_Append ?e ?w)))\<rparr>"
    have c': "nc_key c' = nc_key c" "nc_cache_ok c'" using nc_Encode_ok(1)[of c] nc_Encode_block(2)[OF cache] c by simp_all
    then have ty: "nc_Type c' = nc_Type c" "nc_Value c' = nc_Value c" by (simp_all add: nc_key_def)
    have "metainfo_Encode m = Inr (snd (blk_Wire (blk_Append ?e ?w)), ?m')"
      by (simp add: metainfo_Encode_def None Ref c Let_def)
    moreover have "mi_view ?m' = mi_view m" "writes (snd (blk_Wire (blk_Append ?e ?w))) (T_MetaInfo, tlvs (mi_items (mi_view m)))"
      using builds_done[OF w2] c' by (simp_all add: mi_view_def mi_items_def Ref iface_key_def nc_key_def cb)
    moreover from this have "good_metainfo ?m'" "mi_wire ?m' = Some (snd (blk_Wire (blk_Append ?e ?w)))"
      using assms c' ty by (simp_all add: good_metainfo_def Ref)
    ultimately show ?thesis by blast
  qed
qed

text \<open>The key of a final block that the encoder accepts.\<close>

definition good_mi_view :: "u64 option \<times> int option \<times> (u16 \<times> bytes) option \<Rightarrow> bool" where
  "good_mi_view v \<longleftrightarrow> (\<forall>d. fst (snd v) = Some d \<longrightarrow> whole_ms d) \<and> (\<forall>t x. snd (snd v) = Some (t, x) \<longrightarrow> decodable (ucast t) x)"

lemma good_metainfo_view: "good_metainfo m \<Longrightarrow> good_mi_view (mi_view m)"
  by (auto simp: good_metainfo_def good_mi_view_def mi_view_def iface_key_def nc_key_def split: iface.splits)

lemma metainfo_reads:
  assumes "good_mi_view (ct, fp, fb)" "length (tlvs (mi_items (ct, fp, fb))) < 2 ^ 63"
  shows "\<exists>k m. reads metainfo_elem (mi_items (ct, fp, fb)) (0, NewMetaInfo) (k, m) \<and> mi_view m = (ct, fp, fb)
    \<and> (\<forall>c. mi_finalBlockID m = Ref c \<longrightarrow> nc_cache_ok c) \<and> mi_finalBlockID m \<noteq> NilPtr"
proof -
  let ?m1 = "NewMetaInfo\<lparr>mi_contentType := ct\<rparr>" and ?k1 = "if ct = None then 0 else 1 :: nat"
  have 1: "reads metainfo_elem (opt_item T_ContentType EncodeNNI ct) (0, NewMetaInfo) (?k1, ?m1)"
    by (rule reads_opt) (auto intro!: reads_one simp: metainfo_elem_def NewMetaInfo_def)
  let ?m2 = "?m1\<lparr>mi_freshnessPeriod := fp\<rparr>" and ?k2 = "if fp = None then ?k1 else 2 :: nat"
  have 2: "reads metainfo_elem (opt_item T_FreshnessPeriod (\<lambda>d. EncodeNNI (of_int (dur_Milliseconds d))) fp) (?k1, ?m1) (?k2, ?m2)"
    using assms(1) by (intro reads_opt) (auto intro!: reads_one simp: metainfo_elem_def good_mi_view_def dur_of_ms_Milliseconds NewMetaInfo_def)
  obtain k3 m3 where 3: "reads metainfo_elem (opt_item T_FinalBlockID (\<lambda>(t, x). tlv (ucast t, x)) fb) (?k2, ?m2) (k3, m3)"
      and v: "mi_contentType m3 = ct" "mi_freshnessPeriod m3 = fp" "iface_key (mi_finalBlockID m3) = fb"
         "\<forall>c. mi_finalBlockID m3 = Ref c \<longrightarrow> nc_cache_ok c" "mi_finalBlockID m3 \<noteq> NilPtr"
  proof (cases fb)
    case None
    then show thesis using that[of ?k2 ?m2] by (simp add: reads_Nil iface_key_def NewMetaInfo_def)
  next
    case (Some q)
    obtain t x where q: "q = (t, x)" by fastforce
    let ?it = "(ucast t, x) :: tlv_item"
    have "length (tlvs [?it]) \<le> length (tlvs (mi_items (ct, fp, fb)))"
      using tlv_length[of "[?it]" T_FinalBlockID] by (simp add: mi_items_def Some q)
    then have len: "length (tlvs [?it]) < 2 ^ 63" using assms(2) by simp
    have "decodable (b_type (parsed ?it)) (b_value (parsed ?it))" using assms(1) by (simp add: good_mi_view_def Some q)
    from DecodeNameComponent_cases(3)[OF this] obtain c where
      c: "DecodeNameComponent (Some (parsed ?it)) = (Ref c, None)" "nc_key c = (t, x)" "nc_wire (nc_base c) = None"
      by (auto simp: ucast_16_32)
    have "metainfo_elem (parsed (T_FinalBlockID, tlvs [?it])) (?k2, ?m2)
        = ret (set_subs (map parsed [?it]) (parsed (T_FinalBlockID, tlvs [?it])), 3, ?m2\<lparr>mi_finalBlockID := Ref c\<rparr>)"
      by (simp add: metainfo_elem_def parse_parsed(2)[OF len] del: tlvs_simps) (simp add: set_subs_def c(1))
    then have "reads metainfo_elem (opt_item T_FinalBlockID (\<lambda>(t, x). tlv (ucast t, x)) fb) (?k2, ?m2) (3, ?m2\<lparr>mi_finalBlockID := Ref c\<rparr>)"
      by (auto simp: Some q set_subs_def intro!: reads_one)
    then show thesis by (rule that) (use c in \<open>simp_all add: iface_key_def Some q nc_cache_ok_def NewMetaInfo_def\<close>)
  qed
  have "reads metainfo_elem (mi_items (ct, fp, fb)) (0, NewMetaInfo) (k3, m3)"
    using reads_append[OF 1 reads_append[OF 2 3]] by (simp add: mi_items_def)
  then show ?thesis using v by (intro exI[of _ k3] exI[of _ m3]) (simp add: mi_view_def)
qed

lemma reads_decode:
  assumes "reads f xs s (t :: 's)" "length (tlvs xs) < 2 ^ 63"
  shows "\<exists>subs. rbind (parse_if_bare (parsed (ty, tlvs xs))) (\<lambda>b'. ebind (each_elem f (b_subs b') s) (\<lambda>(subs, u). g subs b' u))
      = g subs (set_subs (map parsed xs) (parsed (ty, tlvs xs))) t
    \<and> list_all2 (\<lambda>b x. b_type b = fst x \<and> b_value b = snd x \<and> b_wire b = tlv x) subs xs"
  using assms(1) unfolding reads_def by (auto simp: parse_parsed(2)[OF assms(2)] set_subs_def)

lemma DecodeMetaInfo_items:
  assumes "good_mi_view v" "length (tlvs (mi_items v)) < 2 ^ 63"
  shows "\<exists>m b. DecodeMetaInfo (Some (parsed (T_MetaInfo, tlvs (mi_items v)))) = ret m \<and> mi_view m = v \<and> mi_wire m = Some b
    \<and> b_type b = T_MetaInfo \<and> b_value b = tlvs (mi_items v) \<and> b_wire b = tlv (T_MetaInfo, tlvs (mi_items v)) \<and> good_metainfo m"
proof -
  obtain ct fp fb where v: "v = (ct, fp, fb)" using prod_cases3 by blast
  obtain k m where r: "reads metainfo_elem (mi_items v) (0, NewMetaInfo) (k, m)" "mi_view m = v"
      "\<forall>c. mi_finalBlockID m = Ref c \<longrightarrow> nc_cache_ok c" "mi_finalBlockID m \<noteq> NilPtr"
    using metainfo_reads[of ct fp fb] assms by (auto simp: v)
  from reads_decode[OF r(1) assms(2), of T_MetaInfo "\<lambda>subs b' (_, m). ret (m\<lparr>mi_wire := Some (set_subs subs b')\<rparr>)"]
  obtain subs where s: "DecodeMetaInfo (Some (parsed (T_MetaInfo, tlvs (mi_items v))))
      = ret (m\<lparr>mi_wire := Some (set_subs subs (set_subs (map parsed (mi_items v)) (parsed (T_MetaInfo, tlvs (mi_items v)))))\<rparr>)"
    by (auto simp: DecodeMetaInfo_def case_prod_unfold)
  let ?b = "set_subs subs (set_subs (map parsed (mi_items v)) (parsed (T_MetaInfo, tlvs (mi_items v))))"
  have "mi_view (m\<lparr>mi_wire := Some ?b\<rparr>) = v" using r(2) by (simp add: mi_view_def)
  moreover from this have "good_metainfo (m\<lparr>mi_wire := Some ?b\<rparr>)"
    using r(2-4) assms(1)
    by (auto simp: good_metainfo_def good_mi_view_def mi_view_def iface_key_def nc_key_def writes_def Wire_cached set_subs_def)
  moreover have "b_type ?b = T_MetaInfo \<and> b_value ?b = tlvs (mi_items v) \<and> b_wire ?b = tlv (T_MetaInfo, tlvs (mi_items v))"
    by (simp add: set_subs_def)
  ultimately show ?thesis
    unfolding s by (intro exI[of _ "m\<lparr>mi_wire := Some ?b\<rparr>"] exI[of _ ?b]) simp
qed

section \<open>SignatureInfo\<close>

definition si_type :: "ndn_SignatureInfo \<Rightarrow> u32" where
  "si_type s = (if si_isInterest s then T_InterestSignatureInfo else T_SignatureInfo)"

definition time_ms :: "int \<Rightarrow> u64" where
  "time_ms t = of_int (trunc_div (t_UnixNano t) 1000000)"

definition si_items :: "ndn_SignatureInfo \<Rightarrow> tlv_item list" where
  "si_items s = ((([] @ [(T_SignatureType, EncodeNNI (si_signatureType s))])
     @ opt_item T_KeyLocator (\<lambda>k. fst (blk_Wire k)) (si_keyLocator s))
     @ (if si_isInterest s then opt_item T_SignatureNonce id (si_nonce s) else []))
     @ (if si_isInterest s then opt_item T_SignatureTime (\<lambda>t. EncodeNNI (time_ms t)) (si_time s) else [])
     @ (if si_isInterest s then opt_item T_SignatureSeqNum EncodeNNI (si_seqNum s) else [])"

definition good_siginfo :: "ndn_SignatureInfo \<Rightarrow> bool" where
  "good_siginfo s \<longleftrightarrow> (\<forall>w. si_wire s = Some w \<longrightarrow> writes w (si_type s, tlvs (si_items s)))"

lemma siginfo_Encode_writes:
  assumes "good_siginfo s"
  shows "\<exists>w s'. siginfo_Encode s = (w, s') \<and> writes w (si_type s, tlvs (si_items s)) \<and> si_wire s' = Some w
    \<and> si_signatureType s' = si_signatureType s \<and> si_type s' = si_type s \<and> si_items s' = si_items s \<and> good_siginfo s'"
proof (cases "si_wire s")
  case (Some w)
  have "siginfo_Encode s = (snd (blk_Wire w), s\<lparr>si_wire := Some (snd (blk_Wire w))\<rparr>)"
    by (simp add: siginfo_Encode_def Some Let_def)
  moreover let ?s' = "s\<lparr>si_wire := Some (snd (blk_Wire w))\<rparr>"
  have "si_items ?s' = si_items s" "si_type ?s' = si_type s" "si_signatureType ?s' = si_signatureType s"
      "si_wire ?s' = Some (snd (blk_Wire w))"
    by (simp_all add: si_items_def si_type_def)
  moreover have "writes (snd (blk_Wire w)) (si_type s, tlvs (si_items s))" using assms Some by (simp only: good_siginfo_def writes_wired)
  ultimately show ?thesis by (metis good_siginfo_def option.inject)
next
  case None
  let ?w1 = "blk_Append (EncodeNNIBlock T_SignatureType (si_signatureType s)) (NewEmptyBlock (si_type s))"
  let ?w2 = "append_opt (\<lambda>k. NewBlock T_KeyLocator (fst (blk_Wire k))) (si_keyLocator s) ?w1"
  let ?w3 = "append_opt (NewBlock T_SignatureNonce) (si_nonce s) ?w2"
  let ?w4 = "append_opt (\<lambda>t. EncodeNNIBlock T_SignatureTime (of_int (trunc_div (t_UnixNano t) 1000000))) (si_time s) ?w3"
  let ?w5 = "append_opt (EncodeNNIBlock T_SignatureSeqNum) (si_seqNum s) ?w4"
  let ?w = "if si_isInterest s then ?w5 else ?w2"
  let ?x2 = "([] @ [(T_SignatureType, EncodeNNI (si_signatureType s))]) @ opt_item T_KeyLocator (\<lambda>k. fst (blk_Wire k)) (si_keyLocator s)"
  let ?s' = "s\<lparr>si_keyLocator := map_option (\<lambda>k. snd (blk_Wire k)) (si_keyLocator s), si_wire := Some (snd (blk_Wire ?w))\<rparr>"
  have w2: "builds ?w2 (si_type s) ?x2"
    by (intro builds_opt builds_append builds_empty writes_nni writes_value)
  have w5: "builds ?w5 (si_type s) (((?x2 @ opt_item T_SignatureNonce id (si_nonce s))
      @ opt_item T_SignatureTime (\<lambda>t. EncodeNNI (time_ms t)) (si_time s)) @ opt_item T_SignatureSeqNum EncodeNNI (si_seqNum s))"
    by (intro builds_opt w2) (simp_all add: writes_nni writes_value time_ms_def)
  have "builds ?w (si_type s) (si_items s)" using w2 w5 by (simp add: si_items_def)
  then have w: "writes (snd (blk_Wire ?w)) (si_type s, tlvs (si_items s))" by (simp add: builds_done)
  have "siginfo_Encode s = (snd (blk_Wire ?w), ?s')"
    by (cases "si_keyLocator s") (simp_all add: siginfo_Encode_def None Let_def si_type_def append_opt_def)
  moreover have "si_items ?s' = si_items s"
    by (cases "si_keyLocator s") (simp_all add: si_items_def Wire_again)
  moreover have "si_type ?s' = si_type s" "si_signatureType ?s' = si_signatureType s" "si_wire ?s' = Some (snd (blk_Wire ?w))"
    by (simp_all add: si_type_def)
  ultimately show ?thesis using w by (metis good_siginfo_def option.inject)
qed

text \<open>What the decoder makes of a SignatureInfo.\<close>

definition read_time :: "u64 \<Rightarrow> int" where
  "read_time v = time_Unix (sint (v div 1000)) (sint (v * 1000000))"

definition si_decoded :: "ndn_SignatureInfo \<Rightarrow> ndn_SignatureInfo" where
  "si_decoded s = (NewSignatureInfo (si_signatureType s))
     \<lparr>si_isInterest := si_isInterest s,
      si_keyLocator := map_option (\<lambda>k. parsed (T_KeyLocator, fst (blk_Wire k))) (si_keyLocator s),
      si_nonce := (if si_isInterest s then si_nonce s else None),
      si_time := (if si_isInterest s then map_option (\<lambda>t. read_time (time_ms t)) (si_time s) else None),
      si_seqNum := (if si_isInterest s then si_seqNum s else None)\<rparr>"

lemma siginfo_reads:
  "\<exists>k. reads siginfo_elem (si_items s) (0, (NewSignatureInfo 0)\<lparr>si_isInterest := si_isInterest s\<rparr>) (k, si_decoded s)"
proof -
  let ?s1 = "(NewSignatureInfo (si_signatureType s))\<lparr>si_isInterest := si_isInterest s\<rparr>"
  have 1: "reads siginfo_elem ([] @ [(T_SignatureType, EncodeNNI (si_signatureType s))])
      (0, (NewSignatureInfo 0)\<lparr>si_isInterest := si_isInterest s\<rparr>) (1, ?s1)"
    by (auto intro!: reads_one simp: siginfo_elem_def NewSignatureInfo_def)
  let ?s2 = "?s1\<lparr>si_keyLocator := map_option (\<lambda>k. parsed (T_KeyLocator, fst (blk_Wire k))) (si_keyLocator s)\<rparr>"
  let ?k2 = "if si_keyLocator s = None then 1 else 2 :: nat"
  have 2: "reads siginfo_elem (opt_item T_KeyLocator (\<lambda>k. fst (blk_Wire k)) (si_keyLocator s)) (1, ?s1) (?k2, ?s2)"
    by (rule reads_opt) (auto intro!: reads_one simp: siginfo_elem_def NewSignatureInfo_def)
  let ?i = "si_isInterest s"
  let ?s3 = "?s2\<lparr>si_nonce := (if ?i then si_nonce s else None)\<rparr>" and ?k3 = "if ?i \<and> si_nonce s \<noteq> None then 3 else ?k2"
  have 3: "reads siginfo_elem (if ?i then opt_item T_SignatureNonce id (si_nonce s) else []) (?k2, ?s2) (?k3, ?s3)"
    by (cases ?i; cases "si_nonce s") (auto intro!: reads_one reads_Nil simp: siginfo_elem_def NewSignatureInfo_def)
  let ?s4 = "?s3\<lparr>si_time := (if ?i then map_option (\<lambda>t. read_time (time_ms t)) (si_time s) else None)\<rparr>"
  let ?k4 = "if ?i \<and> si_time s \<noteq> None then 4 else ?k3"
  have 4: "reads siginfo_elem (if ?i then opt_item T_SignatureTime (\<lambda>t. EncodeNNI (time_ms t)) (si_time s) else []) (?k3, ?s3) (?k4, ?s4)"
    by (cases ?i; cases "si_time s") (auto intro!: reads_one reads_Nil simp: siginfo_elem_def NewSignatureInfo_def read_time_def)
  let ?k5 = "if ?i \<and> si_seqNum s \<noteq> None then 5 else ?k4"
  have 5: "reads siginfo_elem (if ?i then opt_item T_SignatureSeqNum EncodeNNI (si_seqNum s) else []) (?k4, ?s4) (?k5, si_decoded s)"
    by (cases ?i; cases "si_seqNum s") (auto intro!: reads_one reads_Nil simp: siginfo_elem_def NewSignatureInfo_def si_decoded_def)
  show ?thesis
    using reads_append[OF reads_append[OF reads_append[OF 1 2] 3] reads_append[OF 4 5]] by (auto simp: si_items_def)
qed

lemma DecodeSignatureInfo_items:
  assumes "length (tlvs (si_items s)) < 2 ^ 63"
  shows "\<exists>b. DecodeSignatureInfo (Some (parsed (si_type s, tlvs (si_items s)))) = ret ((si_decoded s)\<lparr>si_wire := Some b\<rparr>)
    \<and> b_type b = si_type s \<and> b_value b = tlvs (si_items s) \<and> b_wire b = tlv (si_type s, tlvs (si_items s))"
proof -
  obtain k where r: "reads siginfo_elem (si_items s) (0, (NewSignatureInfo 0)\<lparr>si_isInterest := si_isInterest s\<rparr>) (k, si_decoded s)"
    using siginfo_reads by blast
  from reads_decode[OF r assms, of "si_type s" "\<lambda>subs b' (_, s). ret (s\<lparr>si_wire := Some (set_subs subs b')\<rparr>)"]
  obtain subs where "DecodeSignatureInfo (Some (parsed (si_type s, tlvs (si_items s))))
      = ret ((si_decoded s)\<lparr>si_wire := Some (set_subs subs (set_subs (map parsed (si_items s)) (parsed (si_type s, tlvs (si_items s)))))\<rparr>)"
    by (auto simp: DecodeSignatureInfo_def case_prod_unfold si_type_def split: if_splits)
  then show ?thesis by (intro exI conjI, assumption) (simp_all add: set_subs_def)
qed

text \<open>A time that is encoded and decoded comes back as the sum of its seconds and its milliseconds.\<close>

lemma read_time_doubles:
  assumes "0 \<le> t" "t < 2 ^ 63"
  shows "read_time (time_ms t) = (t div 1000000000) * 1000000000 + (t div 1000000) * 1000000"
proof -
  let ?m = "t div 1000000"
  have m: "0 \<le> ?m" "?m < 2 ^ 63" "?m * 1000000 < 2 ^ 63" using assms by auto
  have tm: "time_ms t = of_int ?m" using assms int64_id[of t] by (simp add: time_ms_def t_UnixNano_def trunc_div_def)
  have "uint (of_int ?m :: u64) = ?m" using m by (simp add: uint_word_of_int)
  then have "uint ((of_int ?m :: u64) div 1000) = ?m div 1000" by (simp add: uint_div)
  then have "(of_int ?m :: u64) div 1000 = of_int (?m div 1000)" by (metis word_of_int_uint)
  moreover have "sint (of_int (?m div 1000) :: u64) = ?m div 1000" using m int64_id[of "?m div 1000"] by (simp add: int64_def)
  ultimately have 1: "sint (time_ms t div 1000) = t div 1000000000" by (simp add: tm zdiv_zmult2_eq[symmetric])
  have "sint ((of_int ?m :: u64) * 1000000) = int64 (?m * 1000000)" by (simp add: int64_def)
  then have 2: "sint (time_ms t * 1000000) = ?m * 1000000" using m by (simp add: tm int64_id)
  show ?thesis unfolding read_time_def time_Unix_def 1 2 ..
qed

end
