(* ===== verification/Ndn_Data.thy ===== *)
theory Ndn_Data
  imports Ndn_Meta
begin

text \<open>
  Data packets (\<^verbatim>\<open>src/ndn/data.go\<close>) and the prefix announcements they carry
  (\<^verbatim>\<open>src/ndn/prefix-announcement.go\<close>). The name, the MetaInfo and the SignatureInfo are pointers that
  may be nil, and so is the slice of the signature value; calling a method of a nil pointer that
  reads a field panics. \<^verbatim>\<open>Encode\<close> and the computation of the signature change the packet also when
  they return an error, so they return the packet in either case.
\<close>

record ndn_Data =
  d_name :: "Name option"
  d_metaInfo :: "ndn_MetaInfo option"
  d_content :: bytes
  d_sigInfo :: "ndn_SignatureInfo option"
  d_sigValue :: "bytes option"
  d_shouldValidateSignature :: bool
  d_wire :: "Block option"
  d_pitToken :: int

definition empty_data :: ndn_Data where
  "empty_data = \<lparr>d_name = None, d_metaInfo = None, d_content = [], d_sigInfo = None, d_sigValue = None,
     d_shouldValidateSignature = False, d_wire = None, d_pitToken = 0\<rparr>"

definition NewData :: "Name option \<Rightarrow> bytes \<Rightarrow> ndn_Data option" where
  "NewData name content =
     (case name of
        None \<Rightarrow> None
      | Some n \<Rightarrow> Some (empty_data\<lparr>d_name := Some n, d_metaInfo := Some NewMetaInfo, d_content := content,
          d_sigInfo := Some (NewSignatureInfo DigestSha256Type)\<rparr>))"

definition sig_bytes :: "bytes option \<Rightarrow> bytes" where
  "sig_bytes v = (case v of None \<Rightarrow> [] | Some s \<Rightarrow> s)"

text \<open>
  The elements in front of the first SignatureValue, and their wires: what is signed and what is
  validated. Asking for the wires fills the caches of these elements.
\<close>

definition signed_elems :: "Block list \<Rightarrow> Block list" where
  "signed_elems bs = takeWhile (\<lambda>e. b_type e \<noteq> T_SignatureValue) bs"

definition signed_buffer :: "Block \<Rightarrow> bytes" where
  "signed_buffer w = concat (map (\<lambda>e. fst (blk_Wire e)) (signed_elems (b_subs w)))"

definition wire_signed :: "Block \<Rightarrow> Block" where
  "wire_signed w = set_subs (map (\<lambda>e. snd (blk_Wire e)) (signed_elems (b_subs w))
     @ dropWhile (\<lambda>e. b_type e \<noteq> T_SignatureValue) (b_subs w)) w"

text \<open>\<open>sign_wire\<close> is \<^verbatim>\<open>computeSignatureValue\<close> of a packet that has a wire, given this wire.\<close>

definition sign_wire :: "Block \<Rightarrow> ndn_Data \<Rightarrow> (ndn_error option \<times> ndn_Data) result" where
  "sign_wire w d =
     (if blk_Find T_SignatureInfo w = None then Inr (Some (ErrText ''SignatureInfo missing''), d\<lparr>d_wire := Some w\<rparr>)
      else
        let w = snd (blk_Wire w); buffer = signed_buffer w; d = d\<lparr>d_wire := Some (wire_signed w)\<rparr>
        in case d_sigInfo d of
             None \<Rightarrow> Inl NilDereference
           | Some si \<Rightarrow>
               (case Sign (si_signatureType si) buffer of
                  Inl e \<Rightarrow> Inr (Some e, d)
                | Inr signature \<Rightarrow> Inr (None, d\<lparr>d_sigValue := Some signature\<rparr>)))"

definition data_Encode :: "ndn_Data \<Rightarrow> ((ndn_error + Block) \<times> ndn_Data) result" where
  "data_Encode d =
     (case d_wire d of
        Some w \<Rightarrow> (let w = snd (blk_Wire w) in Inr (Inr w, d\<lparr>d_wire := Some w\<rparr>))
      | None \<Rightarrow>
          (case d_name d of
             None \<Rightarrow> Inl NilDereference
           | Some n \<Rightarrow>
          let (nb, n) = name_Encode n; w = blk_Append nb (NewEmptyBlock T_Data); d = d\<lparr>d_name := Some n\<rparr>
          in case d_metaInfo d of
             None \<Rightarrow> Inl NilDereference
           | Some m \<Rightarrow>
          rbind (if mi_contentType m \<noteq> None \<or> mi_freshnessPeriod m \<noteq> None \<or> mi_finalBlockID m \<noteq> NilIface
                 then rbind (metainfo_Encode m) (\<lambda>(mb, m). Inr (blk_Append mb w, d\<lparr>d_metaInfo := Some m\<rparr>))
                 else Inr (w, d)) (\<lambda>(w, d).
          let w = blk_Append (NewBlock T_Content (d_content d)) w
          in case d_sigInfo d of
             None \<Rightarrow> Inl NilDereference
           | Some si \<Rightarrow>
          let (sb, si) = siginfo_Encode si; w = blk_Append sb w
          in rbind (sign_wire w (d\<lparr>d_sigInfo := Some si\<rparr>)) (\<lambda>(err, d).
               case (err, d_wire d) of
                 (None, Some w) \<Rightarrow>
                    (let w = snd (blk_Wire (blk_Append (NewBlock T_SignatureValue (sig_bytes (d_sigValue d))) w))
                     in Inr (Inr w, d\<lparr>d_wire := Some w\<rparr>))
               | _ \<Rightarrow> Inr (Inl (ErrText ''unable to encode SignatureValue''), d\<lparr>d_wire := None\<rparr>)))))"

definition computeSignatureValue :: "ndn_Data \<Rightarrow> (ndn_error option \<times> ndn_Data) result" where
  "computeSignatureValue d =
     rbind (if d_wire d = None then data_Encode d else Inr (Inr (NewEmptyBlock 0), d)) (\<lambda>(r, d).
       case (r, d_wire d) of
         (Inl e, _) \<Rightarrow> Inr (Some e, d)
       | (_, None) \<Rightarrow> Inl NilDereference
       | (Inr _, Some w) \<Rightarrow> sign_wire w d)"

definition data_SignatureValue :: "ndn_Data \<Rightarrow> (bytes \<times> ndn_Data) result" where
  "data_SignatureValue d =
     (if length (sig_bytes (d_sigValue d)) = 0
      then rbind (computeSignatureValue d) (\<lambda>(err, d). Inr (if err \<noteq> None then [] else sig_bytes (d_sigValue d), d))
      else Inr (sig_bytes (d_sigValue d), d))"

definition validateSignature :: "ndn_Data \<Rightarrow> (bool \<times> ndn_Data) fallible" where
  "validateSignature d =
     rbind (if d_wire d = None then data_Encode d else Inr (Inr (NewEmptyBlock 0), d)) (\<lambda>(r, d).
       case (r, d_wire d) of
         (Inl e, _) \<Rightarrow> fail (ErrText ''cannot encode packet'')
       | (_, None) \<Rightarrow> Inl NilDereference
       | (Inr _, Some w) \<Rightarrow>
           guard (blk_Find T_SignatureInfo w = None) (ErrText ''SignatureInfo not present'')
            (rbind (parse_always w) (\<lambda>w.
              let w = snd (blk_Wire w); buffer = signed_buffer w; d = d\<lparr>d_wire := Some (wire_signed w)\<rparr>
              in case d_sigInfo d of
                   None \<Rightarrow> Inl NilDereference
                 | Some si \<Rightarrow> rbind (data_SignatureValue d) (\<lambda>(signature, d).
                     case Verify (si_signatureType si) buffer signature of
                       Inl e \<Rightarrow> fail e
                     | Inr ok \<Rightarrow> ret (ok, d)))))"

definition data_elem :: "Block \<Rightarrow> nat \<times> ndn_Data \<Rightarrow> (Block \<times> nat \<times> ndn_Data) fallible" where
  "data_elem elem st =
     (case st of (mostRecentElem, d) \<Rightarrow>
        if b_type elem = T_Name then
          guard (mostRecentElem \<ge> 1) (ErrText ''Name is duplicate or out-of-order'')
           (ebind (with_error (ErrText ''error decoding Name'') (decode_name_elem elem)) (\<lambda>(elem, n).
              ret (elem, 1, d\<lparr>d_name := Some n\<rparr>)))
        else if b_type elem = T_MetaInfo then
          guard (mostRecentElem \<ge> 2) (ErrText ''MetaInfo is duplicate or out-of-order'')
           (ebind (DecodeMetaInfo (Some elem)) (\<lambda>m.
              ret (case mi_wire m of Some b \<Rightarrow> b | None \<Rightarrow> elem, 2, d\<lparr>d_metaInfo := Some m\<rparr>)))
        else if b_type elem = T_Content then
          guard (mostRecentElem \<ge> 3) (ErrText ''Content is duplicate or out-or-order'')
           (ret (elem, 3, d\<lparr>d_content := b_value elem\<rparr>))
        else if b_type elem = T_SignatureInfo then
          guard (mostRecentElem \<ge> 4) (ErrText ''SignatureInfo is duplicate or out-of-order'')
           (ebind (with_error (ErrText ''error decoding SignatureInfo'') (DecodeSignatureInfo (Some elem))) (\<lambda>s.
              ret (case si_wire s of Some b \<Rightarrow> b | None \<Rightarrow> elem, 4, d\<lparr>d_sigInfo := Some s\<rparr>)))
        else if b_type elem = T_SignatureValue then
          guard (mostRecentElem \<ge> 5) (ErrText ''SignatureValue is duplicate or out-of-order'')
           (ret (elem, 5, d\<lparr>d_sigValue := Some (b_value elem)\<rparr>))
        else guard (IsCritical (b_type elem)) ErrUnrecognizedCritical (ret (elem, mostRecentElem, d)))"

definition DecodeData :: "Block option \<Rightarrow> bool \<Rightarrow> ndn_Data fallible" where
  "DecodeData wire shouldValidateSignature =
     (case wire of
        None \<Rightarrow> fail ErrNonExistent
      | Some b \<Rightarrow> rbind (parse_if_bare b) (\<lambda>b'.
          ebind (each_elem data_elem (b_subs b') (0, empty_data\<lparr>d_shouldValidateSignature := shouldValidateSignature\<rparr>))
           (\<lambda>(subs, _, d).
             let d = d\<lparr>d_wire := Some (set_subs subs b')\<rparr>
             in guard (d_name d = None \<or> d_sigInfo d = None \<or> d_sigValue d = None) (ErrText ''Data missing required field'')
                 (if shouldValidateSignature
                  then ebind (validateSignature d) (\<lambda>(isSignatureValid, d).
                         guard (\<not> isSignatureValid) (ErrText ''unable to validate signature in decoded Data'') (ret d))
                  else ret d))))"

definition data_String :: "ndn_Data \<Rightarrow> gostring result" where
  "data_String d =
     (case d_name d of
        None \<Rightarrow> Inl NilDereference
      | Some n \<Rightarrow>
          rbind (case d_metaInfo d of None \<Rightarrow> Inr [] | Some m \<Rightarrow> rbind (metainfo_String m) (\<lambda>s. Inr (lit '', '' @ s))) (\<lambda>ms.
            Inr (lit ''Data('' @ fst (name_String n) @ ms @ lit '', ContentLen='' @ FormatUint (length (d_content d)) @ lit '')'')))"

definition data_SetName :: "Name option \<Rightarrow> ndn_Data \<Rightarrow> ndn_Data" where
  "data_SetName n d = d\<lparr>d_name := n, d_wire := None, d_sigValue := Some []\<rparr>"

definition data_SetMetaInfo :: "ndn_MetaInfo option \<Rightarrow> ndn_Data \<Rightarrow> ndn_Data" where
  "data_SetMetaInfo m d = d\<lparr>d_metaInfo := m, d_wire := None, d_sigValue := Some []\<rparr>"

definition data_SetContent :: "bytes \<Rightarrow> ndn_Data \<Rightarrow> ndn_Data" where
  "data_SetContent c d = d\<lparr>d_content := c, d_wire := None, d_sigValue := Some []\<rparr>"

definition data_SetSignatureInfo :: "ndn_SignatureInfo option \<Rightarrow> ndn_Data \<Rightarrow> ndn_Data" where
  "data_SetSignatureInfo s d = d\<lparr>d_sigInfo := s, d_wire := None, d_sigValue := Some []\<rparr>"

definition data_SetPitToken :: "int \<Rightarrow> ndn_Data \<Rightarrow> ndn_Data" where
  "data_SetPitToken t d = d\<lparr>d_pitToken := t\<rparr>"

section \<open>Prefix announcements\<close>

text \<open>A prefix announcement is a Data packet of a certain form; the type has no other field.\<close>

definition is_keyword_PA :: "NameComponent option \<Rightarrow> bool" where
  "is_keyword_PA c = (case c of Some (KeywordNameComponent b) \<Rightarrow> nc_value b = lit ''PA'' | _ \<Rightarrow> False)"

definition is_version :: "NameComponent option \<Rightarrow> bool" where
  "is_version c = (case c of Some (VersionNameComponent b r) \<Rightarrow> True | _ \<Rightarrow> False)"

definition is_segment_0 :: "NameComponent option \<Rightarrow> bool" where
  "is_segment_0 c = (case c of Some (SegmentNameComponent b r) \<Rightarrow> r = 0 | _ \<Rightarrow> False)"

definition pa_content :: "ndn_Data \<Rightarrow> (Block \<times> ndn_error option) result" where
  "pa_content d = blk_Parse (NewBlock T_Content (d_content d))"

definition pa_Valid :: "ndn_Data \<Rightarrow> (bool \<times> ndn_Data) result" where
  "pa_Valid d =
     (case d_name d of
        None \<Rightarrow> Inl NilDereference
      | Some n \<Rightarrow>
          if length (nm_comps n) < 4 \<or> \<not> is_keyword_PA (name_At n (-3)) \<or> \<not> is_version (name_At n (-2)) \<or> \<not> is_segment_0 (name_At n (-1))
          then Inr (False, d)
          else
            (case d_metaInfo d of
               None \<Rightarrow> Inr (False, d)
             | Some m \<Rightarrow>
                 if mi_contentType m \<noteq> Some 5 \<or> d_sigInfo d = None then Inr (False, d)
                 else rbind (data_SignatureValue d) (\<lambda>(s, d).
                   rbind (pa_content d) (\<lambda>(content, err).
                     Inr (err = None \<and> blk_Find T_ExpirationPeriod content \<noteq> None, d)))))"

definition NewPrefixAnnouncement :: "ndn_Data \<Rightarrow> ndn_Data fallible" where
  "NewPrefixAnnouncement d =
     rbind (pa_Valid d) (\<lambda>(ok, d). guard (\<not> ok) (ErrText ''PrefixAnnouncement name does not meet requirements'') (ret d))"

definition DecodePrefixAnnouncement :: "Block option \<Rightarrow> ndn_Data fallible" where
  "DecodePrefixAnnouncement wire = ebind (DecodeData wire False) NewPrefixAnnouncement"

definition pa_Prefix :: "ndn_Data \<Rightarrow> Name result" where
  "pa_Prefix d = (case d_name d of None \<Rightarrow> Inl NilDereference | Some n \<Rightarrow> name_Prefix (int (length (nm_comps n)) - 3) n)"

definition pa_ExpirationPeriod :: "ndn_Data \<Rightarrow> u64 result" where
  "pa_ExpirationPeriod d =
     rbind (pa_Valid d) (\<lambda>(ok, d).
       if \<not> ok then Inr 0
       else rbind (pa_content d) (\<lambda>(content, err).
         if err \<noteq> None then Inr 0
         else Inr (case DecodeNNIBlock (blk_Find T_ExpirationPeriod content) of Inl e \<Rightarrow> 0 | Inr v \<Rightarrow> v)))"

text \<open>
  The test for a missing validity period is inverted: the announcement that has one gets the zero
  times, and without one \<^verbatim>\<open>Parse\<close> is called on the nil block. What follows is never reached.
\<close>

definition pa_ValidityPeriod :: "ndn_Data \<Rightarrow> (int \<times> int) result" where
  "pa_ValidityPeriod d =
     rbind (pa_Valid d) (\<lambda>(ok, d).
       if \<not> ok then Inr (0, 0)
       else rbind (pa_content d) (\<lambda>(content, err).
         if err \<noteq> None then Inr (0, 0)
         else case blk_Find T_ValidityPeriod content of Some v \<Rightarrow> Inr (0, 0) | None \<Rightarrow> Inl NilDereference))"

end
