(* ===== verification/Data_Spec.thy ===== *)
theory Data_Spec
  imports Ndn_Spec Ndn_Data
begin

text \<open>
  What Data packets encode to and how they are decoded and validated: the round trip of a packet
  with its signature, and which signature values a validated decoding accepts.
\<close>

definition signed_items :: "Name \<Rightarrow> ndn_MetaInfo \<Rightarrow> bytes \<Rightarrow> ndn_SignatureInfo \<Rightarrow> tlv_item list" where
  "signed_items n m c si =
     (([] @ [name_item (keys n)]) @ (if mi_view m \<noteq> (None, None, None) then [(T_MetaInfo, tlvs (mi_items (mi_view m)))] else []))
     @ [(T_Content, c)] @ [(T_SignatureInfo, tlvs (si_items si))]"

text \<open>A packet that can be encoded: every field is set and good, and its type of signature is one the library computes.\<close>

definition good_data :: "Name \<Rightarrow> ndn_MetaInfo \<Rightarrow> ndn_SignatureInfo \<Rightarrow> ndn_Data \<Rightarrow> bool" where
  "good_data n m si d \<longleftrightarrow> d_name d = Some n \<and> d_metaInfo d = Some m \<and> d_sigInfo d = Some si \<and> d_wire d = None
     \<and> good_name n \<and> good_metainfo m \<and> good_siginfo si \<and> \<not> si_isInterest si
     \<and> si_signatureType si \<in> {DigestSha256Type, SignatureNullType}"

lemma find_types: "list_all2 writes bs xs \<Longrightarrow> blk_Find t (Block u v bs w) = None \<longleftrightarrow> (\<forall>x\<in>set xs. fst x \<noteq> t)"
proof (induction rule: list_all2_induct)
  case (Cons b bs x xs)
  then show ?case by (auto simp: blk_Find_def writes_def)
qed (simp add: blk_Find_def)

lemma signed_all: "list_all2 writes bs xs \<Longrightarrow> \<forall>x\<in>set xs. fst x \<noteq> T_SignatureValue \<Longrightarrow> signed_elems bs = bs"
  by (induction rule: list_all2_induct) (simp_all add: signed_elems_def writes_def)

lemma sign_wire_builds:
  assumes "builds w T_Data xs" "\<forall>x\<in>set xs. fst x \<noteq> T_SignatureValue" "\<exists>x\<in>set xs. fst x = T_SignatureInfo" "d_sigInfo d = Some si"
  shows "\<exists>w'. sign_wire w d = Inr (case Sign (si_signatureType si) (tlvs xs) of
        Inl e \<Rightarrow> (Some e, d\<lparr>d_wire := Some w'\<rparr>) | Inr s \<Rightarrow> (None, d\<lparr>d_wire := Some w', d_sigValue := Some s\<rparr>))
    \<and> (\<forall>e x. writes e x \<longrightarrow> builds (blk_Append e w') T_Data (xs @ [x]))"
proof -
  let ?w = "snd (blk_Wire w)"
  have w: "w = Block T_Data [] (b_subs w) []" using assms(1) by (cases w) (simp add: builds_def)
  have subs: "b_subs ?w = map (\<lambda>b. snd (blk_Wire b)) (b_subs w)" by (subst (1) w) (rule Wire_fresh_subs(1))
  have all: "list_all2 writes (b_subs w) xs" using assms(1) by (simp add: builds_def)
  then have all': "list_all2 writes (b_subs ?w) xs" by (simp add: subs list_all2_conv_all_nth)
  have all'': "list_all2 writes (map (\<lambda>b. snd (blk_Wire b)) (b_subs ?w)) xs" using all' by (simp add: list_all2_conv_all_nth)
  have "blk_Find T_SignatureInfo w \<noteq> None" using find_types[OF all] assms(3) by (subst w) auto
  then obtain f where found: "blk_Find T_SignatureInfo w = Some f" by blast
  have sg: "signed_elems (b_subs ?w) = b_subs ?w" using signed_all[OF all' assms(2)] .
  then have buf: "signed_buffer ?w = tlvs xs" using map_writes[OF all'] by (simp add: signed_buffer_def tlvs_def)
  have "dropWhile (\<lambda>e. b_type e \<noteq> T_SignatureValue) (b_subs ?w) = []"
    using sg by (metis append_eq_conv_conj drop_all order_refl same_append_eq signed_elems_def takeWhile_dropWhile_id append_Nil2)
  then have ws: "wire_signed ?w = Block (b_type ?w) (b_value ?w) (map (\<lambda>b. snd (blk_Wire b)) (b_subs ?w)) (b_wire ?w)"
    by (simp add: wire_signed_def sg set_subs_def)
  have "b_value ?w = []" using w by (metis Block.sel(2) Wire_fresh_subs(2))
  moreover have "b_type ?w = T_Data" using w by (metis Block.sel(1) snd_blk_Wire(2))
  ultimately have b: "builds (blk_Append e (wire_signed ?w)) T_Data (xs @ [x])" if "writes e x" for e x
    using that all'' by (simp add: builds_def blk_Append_def ws list_all2_appendI)
  have "sign_wire w d = Inr (case Sign (si_signatureType si) (tlvs xs) of
        Inl e \<Rightarrow> (Some e, d\<lparr>d_wire := Some (wire_signed ?w)\<rparr>) | Inr s \<Rightarrow> (None, d\<lparr>d_wire := Some (wire_signed ?w), d_sigValue := Some s\<rparr>))"
    using found assms(4) by (simp add: sign_wire_def Let_def buf split: sum.split)
  then show ?thesis using b by blast
qed

lemma signed_items_types:
  "\<forall>x\<in>set (signed_items n m c si). fst x \<noteq> T_SignatureValue" "\<exists>x\<in>set (signed_items n m c si). fst x = T_SignatureInfo"
  by (auto simp: signed_items_def name_item_def)

lemma data_Encode_writes:
  assumes "good_data n m si d"
  shows "\<exists>w s d'. data_Encode d = Inr (Inr w, d') \<and> Sign (si_signatureType si) (tlvs (signed_items n m (d_content d) si)) = Inr s
    \<and> writes w (T_Data, tlvs (signed_items n m (d_content d) si @ [(T_SignatureValue, s)]))
    \<and> d_wire d' = Some w \<and> d_sigValue d' = Some s \<and> b_wire w \<noteq> []"
proof -
  have d: "d_name d = Some n" "d_metaInfo d = Some m" "d_sigInfo d = Some si" "d_wire d = None"
    and g: "good_name n" "good_metainfo m" "good_siginfo si" "si_type si = T_SignatureInfo"
    using assms by (simp_all add: good_data_def si_type_def)
  let ?xs = "signed_items n m (d_content d) si"
  obtain nb n' where n: "name_Encode n = (nb, n')" by fastforce
  have nw: "writes nb (name_item (keys n))" using name_Encode_writes(1)[OF g(1)] n by simp
  obtain mb m' where m: "metainfo_Encode m = Inr (mb, m')" "writes mb (T_MetaInfo, tlvs (mi_items (mi_view m)))"
    using metainfo_Encode_writes[OF g(2)] by blast
  obtain sb si' where s: "siginfo_Encode si = (sb, si')" "writes sb (T_SignatureInfo, tlvs (si_items si))" "si_signatureType si' = si_signatureType si"
    using siginfo_Encode_writes[OF g(3)] g(4) by auto
  have set: "(mi_contentType m \<noteq> None \<or> mi_freshnessPeriod m \<noteq> None \<or> mi_finalBlockID m \<noteq> NilIface) \<longleftrightarrow> mi_view m \<noteq> (None, None, None)"
    using g(2) by (auto simp: mi_view_def iface_key_def good_metainfo_def split: iface.splits)
  let ?w1 = "blk_Append nb (NewEmptyBlock T_Data)"
  let ?w2 = "if mi_view m \<noteq> (None, None, None) then blk_Append mb ?w1 else ?w1"
  let ?w = "blk_Append sb (blk_Append (NewBlock T_Content (d_content d)) ?w2)"
  have "builds ?w2 T_Data (([] @ [name_item (keys n)]) @ (if mi_view m \<noteq> (None, None, None) then [(T_MetaInfo, tlvs (mi_items (mi_view m)))] else []))"
    by (intro builds_if builds_append builds_empty nw m(2))
  then have w: "builds ?w T_Data ?xs"
    unfolding signed_items_def by (simp only: append_assoc[symmetric]) (intro builds_append writes_value s(2), simp only: append_assoc[symmetric])
  let ?d = "(if mi_view m \<noteq> (None, None, None) then d\<lparr>d_name := Some n', d_metaInfo := Some m'\<rparr> else d\<lparr>d_name := Some n'\<rparr>)
      \<lparr>d_sigInfo := Some si'\<rparr>"
  obtain s where sig: "Sign (si_signatureType si) (tlvs ?xs) = Inr s"
    using assms by (auto simp: good_data_def Sign_def DigestSha256_Sign_def)
  obtain w' where w': "sign_wire ?w ?d = Inr (None, ?d\<lparr>d_wire := Some w', d_sigValue := Some s\<rparr>)"
      "\<And>e x. writes e x \<Longrightarrow> builds (blk_Append e w') T_Data (?xs @ [x])"
    using sign_wire_builds[OF w signed_items_types, of ?d si'] sig s(3) by auto
  let ?f = "snd (blk_Wire (blk_Append (NewBlock T_SignatureValue s) w'))"
  have eq: "data_Encode d = Inr (Inr ?f, ?d\<lparr>d_wire := Some ?f, d_sigValue := Some s\<rparr>)"
  proof (cases "mi_view m = (None, None, None)")
    case True
    then show ?thesis using w'(1) d set \<open>siginfo_Encode si = (sb, si')\<close>
      by (simp add: data_Encode_def n Let_def sig_bytes_def)
  next
    case False
    then show ?thesis using w'(1) d set \<open>siginfo_Encode si = (sb, si')\<close> m(1)
      by (simp add: data_Encode_def n Let_def sig_bytes_def)
  qed
  have "writes ?f (T_Data, tlvs (?xs @ [(T_SignatureValue, s)]))"
    using builds_done[OF w'(2)[OF writes_value(1)]] by simp
  moreover from this have "b_wire ?f \<noteq> []" by (simp add: writes_wire)
  ultimately show ?thesis unfolding eq using sig by simp
qed

section \<open>Decoding\<close>

text \<open>The decoded packet, up to the blocks it points to.\<close>

definition data_view :: "ndn_Data \<Rightarrow> (u16 \<times> bytes) list option \<times> (u64 option \<times> int option \<times> (u16 \<times> bytes) option) \<times> bytes \<times> u64 option" where
  "data_view d = (map_option keys (d_name d), (case d_metaInfo d of None \<Rightarrow> (None, None, None) | Some m \<Rightarrow> mi_view m),
     d_content d, map_option si_signatureType (d_sigInfo d))"

lemma data_reads:
  assumes "good_name n" "good_metainfo m" "si_type si = T_SignatureInfo" "length (tlvs (signed_items n m c si)) < 2 ^ 63"
  shows "\<exists>d. reads data_elem (signed_items n m c si @ [(T_SignatureValue, s)]) (0, empty_data\<lparr>d_shouldValidateSignature := v\<rparr>) (5, d)
    \<and> data_view d = (Some (keys n), mi_view m, c, Some (si_signatureType si)) \<and> d_sigValue d = Some s
    \<and> d_name d \<noteq> None \<and> d_sigInfo d \<noteq> None"
proof -
  let ?d0 = "empty_data\<lparr>d_shouldValidateSignature := v\<rparr>"
  let ?M = "(T_MetaInfo, tlvs (mi_items (mi_view m))) :: tlv_item" and ?S = "(T_SignatureInfo, tlvs (si_items si)) :: tlv_item"
  have len: "length (tlv x) < 2 ^ 63" if "x \<in> set (signed_items n m c si)" for x
  proof -
    have "length (tlv x) \<le> length (tlvs xs)" if "x \<in> set xs" for xs using that by (induction xs) auto
    then show ?thesis using assms(4) that le_less_trans by blast
  qed
  have k: "good_keys (keys n)" using assms(1) by (simp add: good_name_def)
  have "length (tlv (name_item (keys n))) < 2 ^ 63" by (rule len) (simp add: signed_items_def)
  from decode_name_parsed[OF k this] obtain nb n' where n': "decode_name_elem (parsed (name_item (keys n))) = ret (nb, n')" "keys n' = keys n"
      "b_type nb = T_Name" "b_value nb = snd (name_item (keys n))" "b_wire nb = tlv (name_item (keys n))"
    by blast
  have ni: "fst (name_item (keys n)) = T_Name" by (simp add: name_item_def)
  have 1: "reads data_elem [name_item (keys n)] (0, ?d0) (1, ?d0\<lparr>d_name := Some n'\<rparr>)"
    by (rule reads_one[where b = nb]) (simp_all add: data_elem_def ni n')
  have "\<exists>k1 mo. reads data_elem (if mi_view m \<noteq> (None, None, None) then [?M] else []) (1, ?d0\<lparr>d_name := Some n'\<rparr>)
      (k1, ?d0\<lparr>d_name := Some n', d_metaInfo := mo\<rparr>) \<and> k1 \<le> 2 \<and> (case mo of None \<Rightarrow> (None, None, None) | Some m \<Rightarrow> mi_view m) = mi_view m"
  proof (cases "mi_view m = (None, None, None)")
    case True
    then show ?thesis by (intro exI[of _ 1] exI[of _ None]) (simp add: reads_Nil empty_data_def)
  next
    case False
    then have "length (tlv ?M) < 2 ^ 63" by (intro len) (simp add: signed_items_def)
    then have "length (tlvs (mi_items (mi_view m))) < 2 ^ 63" using tlv_length[of "mi_items (mi_view m)" T_MetaInfo] by linarith
    from DecodeMetaInfo_items[OF good_metainfo_view[OF assms(2)] this] obtain m' b where
      m': "DecodeMetaInfo (Some (parsed ?M)) = ret m'" "mi_view m' = mi_view m" "mi_wire m' = Some b" "b_type b = T_MetaInfo"
        "b_value b = tlvs (mi_items (mi_view m))" "b_wire b = tlv ?M"
      by blast
    have "reads data_elem [?M] (1, ?d0\<lparr>d_name := Some n'\<rparr>) (2, ?d0\<lparr>d_name := Some n', d_metaInfo := Some m'\<rparr>)"
      by (rule reads_one[where b = b]) (simp_all add: data_elem_def m')
    then show ?thesis using False m'(2) by (intro exI[of _ 2] exI[of _ "Some m'"]) simp
  qed
  then obtain k1 mo where 2: "reads data_elem (if mi_view m \<noteq> (None, None, None) then [?M] else []) (1, ?d0\<lparr>d_name := Some n'\<rparr>)
      (k1, ?d0\<lparr>d_name := Some n', d_metaInfo := mo\<rparr>)" "k1 \<le> 2" "(case mo of None \<Rightarrow> (None, None, None) | Some m \<Rightarrow> mi_view m) = mi_view m"
    by blast
  have 3: "reads data_elem [(T_Content, c)] (k1, ?d0\<lparr>d_name := Some n', d_metaInfo := mo\<rparr>)
      (3, ?d0\<lparr>d_name := Some n', d_metaInfo := mo, d_content := c\<rparr>)"
    using 2(2) by (intro reads_one[where b = "parsed (T_Content, c)"]) (simp_all add: data_elem_def)
  have "length (tlv ?S) < 2 ^ 63" by (intro len) (simp add: signed_items_def)
  then have "length (tlvs (si_items si)) < 2 ^ 63" using tlv_length[of "si_items si" T_SignatureInfo] by linarith
  from DecodeSignatureInfo_items[OF this] obtain b where
    b: "DecodeSignatureInfo (Some (parsed ?S)) = ret ((si_decoded si)\<lparr>si_wire := Some b\<rparr>)" "b_type b = T_SignatureInfo"
      "b_value b = tlvs (si_items si)" "b_wire b = tlv ?S"
    unfolding assms(3) by blast
  let ?d4 = "?d0\<lparr>d_name := Some n', d_metaInfo := mo, d_content := c, d_sigInfo := Some ((si_decoded si)\<lparr>si_wire := Some b\<rparr>)\<rparr>"
  have 4: "reads data_elem [?S] (3, ?d0\<lparr>d_name := Some n', d_metaInfo := mo, d_content := c\<rparr>) (4, ?d4)"
    by (rule reads_one[where b = b]) (simp_all add: data_elem_def b)
  have 5: "reads data_elem [(T_SignatureValue, s)] (4, ?d4) (5, ?d4\<lparr>d_sigValue := Some s\<rparr>)"
    by (rule reads_one[where b = "parsed (T_SignatureValue, s)"]) (simp_all add: data_elem_def)
  have "reads data_elem (signed_items n m c si @ [(T_SignatureValue, s)]) (0, ?d0) (5, ?d4\<lparr>d_sigValue := Some s\<rparr>)"
    using reads_append[OF reads_append[OF reads_append[OF 1 2(1)] reads_append[OF 3 4]] 5] by (simp add: signed_items_def)
  then show ?thesis using n'(2) 2(3)
    by (intro exI[of _ "?d4\<lparr>d_sigValue := Some s\<rparr>"]) (simp add: data_view_def si_decoded_def NewSignatureInfo_def)
qed

text \<open>Validation of a packet whose wire holds the items \<open>xs\<close>.\<close>

definition signed_part :: "tlv_item list \<Rightarrow> bytes" where
  "signed_part xs = tlvs (takeWhile (\<lambda>x. fst x \<noteq> T_SignatureValue) xs)"

lemma signed_parsed: "signed_buffer (set_subs (map parsed xs) b) = signed_part xs" "wire_signed (set_subs (map parsed xs) b) = set_subs (map parsed xs) b"
proof -
  have t: "signed_elems (map parsed xs) = map parsed (takeWhile (\<lambda>x. fst x \<noteq> T_SignatureValue) xs)"
    by (simp add: signed_elems_def takeWhile_map comp_def)
  then show "signed_buffer (set_subs (map parsed xs) b) = signed_part xs"
    by (simp add: signed_buffer_def set_subs_def signed_part_def tlvs_def comp_def)
  have "map (\<lambda>e. snd (blk_Wire e)) (signed_elems (map parsed xs)) = signed_elems (map parsed xs)" by (simp add: t)
  then show "wire_signed (set_subs (map parsed xs) b) = set_subs (map parsed xs) b"
    by (simp add: wire_signed_def set_subs_def signed_elems_def)
qed

lemma validate_parsed:
  assumes "length (tlvs xs) < 2 ^ 63" "list_all2 (\<lambda>b x. b_type b = fst x) subs xs" "\<exists>x\<in>set xs. fst x = T_SignatureInfo"
    "d_wire d = Some (set_subs subs (parsed (T_Data, tlvs xs)))" "d_sigInfo d = Some si" "d_sigValue d = Some s"
  defines "t \<equiv> si_signatureType si"
  shows "\<exists>d'. validateSignature d =
      (case Verify t (signed_part xs) (if s = [] then (case Sign t (signed_part xs) of Inl e \<Rightarrow> [] | Inr g \<Rightarrow> g) else s) of
         Inl e \<Rightarrow> fail e | Inr ok \<Rightarrow> ret (ok, d'))
    \<and> data_view d' = data_view d"
proof -
  have ft: "blk_Find ty (Block u v bs w) \<noteq> None" if "list_all2 (\<lambda>b x. b_type b = fst x) bs xs" "\<exists>x\<in>set xs. fst x = ty" for ty u v bs w
    using that by (induction rule: list_all2_induct) (auto simp: blk_Find_def)
  let ?w = "set_subs (map parsed xs) (parsed (T_Data, tlvs xs))"
  obtain f where f: "blk_Find T_SignatureInfo (set_subs subs (parsed (T_Data, tlvs xs))) = Some f"
    using ft[OF assms(2,3)] unfolding set_subs_def by blast
  have "list_all2 (\<lambda>b x. b_type b = fst x) (map parsed xs) xs" by (simp add: list_all2_conv_all_nth)
  then obtain g where g: "blk_Find T_SignatureInfo ?w = Some g"
    using ft[OF _ assms(3)] unfolding set_subs_def by blast
  have p: "parse_always (set_subs subs (parsed (T_Data, tlvs xs))) = Inr ?w"
    using parse_loop_tlvs[OF assms(1)] by (simp add: parse_always_def blk_Parse_def set_subs_def parsed_def)
  have wire: "snd (blk_Wire ?w) = ?w" by (simp add: Wire_cached set_subs_def)
  let ?d = "d\<lparr>d_wire := Some ?w\<rparr>"
  have sv: "data_SignatureValue ?d = Inr (if s = [] then (case Sign t (signed_part xs) of Inl e \<Rightarrow> ([], ?d) | Inr g \<Rightarrow> (g, ?d\<lparr>d_sigValue := Some g\<rparr>)) else (s, ?d))"
    using g assms(5,6) by (auto simp: data_SignatureValue_def sig_bytes_def computeSignatureValue_def sign_wire_def wire signed_parsed t_def Let_def split: sum.split)
  obtain sg d' where d': "data_SignatureValue ?d = Inr (sg, d')" "sg = (if s = [] then (case Sign t (signed_part xs) of Inl e \<Rightarrow> [] | Inr g \<Rightarrow> g) else s)"
      "data_view d' = data_view d"
    unfolding sv by (cases "s = []"; cases "Sign t (signed_part xs)") (auto simp: data_view_def)
  have "validateSignature d = rbind (data_SignatureValue ?d) (\<lambda>(signature, d).
      case Verify t (signed_part xs) signature of Inl e \<Rightarrow> fail e | Inr ok \<Rightarrow> ret (ok, d))"
    using f assms(4,5) by (simp add: validateSignature_def p wire signed_parsed Let_def t_def)
  then show ?thesis using d' by (intro exI[of _ d']) simp
qed

section \<open>What the decoder keeps\<close>

lemma parse_keeps:
  "parse_always b = Inr b' \<Longrightarrow> b_type b' = b_type b \<and> b_value b' = b_value b \<and> b_wire b' = b_wire b"
  "parse_if_bare b = Inr b' \<Longrightarrow> b_type b' = b_type b \<and> b_value b' = b_value b \<and> b_wire b' = b_wire b"
  by (auto simp: parse_always_def parse_if_bare_def blk_Parse_def rbind_Inr split: if_splits)

lemma decode_name_elem_type: "decode_name_elem b = ret (b', n) \<Longrightarrow> b_type b' = b_type b"
proof -
  assume a: "decode_name_elem b = ret (b', n)"
  have c: "(case r of Inl e \<Rightarrow> Inl e | Inr (cs, s) \<Rightarrow> Inr (f cs s)) = (Inr x :: ndn_error + Name) \<longleftrightarrow> (\<exists>cs s. r = Inr (cs, s) \<and> f cs s = x)"
    for r :: "ndn_error + (NameComponent list \<times> gostring)" and f x
    by (cases r) auto
  from a obtain m where m: "DecodeName (Some b) = ret m" "(case nm_wire m of Some b' \<Rightarrow> b' | None \<Rightarrow> b) = b'"
    by (auto simp: decode_name_elem_def ebind_ret)
  then have "b_type (snd (blk_Wire b)) = T_Name"
    by (auto simp: DecodeName_def Let_def ret_def split: if_splits)
  moreover have "\<exists>c. nm_wire m = Some c \<and> b_type c = b_type (snd (blk_Wire b))"
    using m(1) by (auto simp: DecodeName_def Let_def ret_def rbind_Inr blk_Parse_def c split: if_splits)
  ultimately show ?thesis using m(2) by (auto simp: snd_blk_Wire)
qed

lemma data_elem_keeps:
  assumes "data_elem b (k, d) = ret (b', k', d')"
  shows "b_type b' = b_type b \<and> (d_sigInfo d' \<noteq> None \<longrightarrow> d_sigInfo d \<noteq> None \<or> b_type b = T_SignatureInfo)"
proof -
  have mi: "\<exists>c. mi_wire m = Some c \<and> b_type c = b_type b" if "DecodeMetaInfo (Some b) = ret m" for m
    using that by (auto simp: DecodeMetaInfo_def rbind_def ebind_ret set_subs_def parse_keeps split: sum.splits)
  have si: "\<exists>c. si_wire s = Some c \<and> b_type c = b_type b" if "DecodeSignatureInfo (Some b) = ret s" for s
    using that by (auto simp: DecodeSignatureInfo_def guard_def rbind_def ebind_ret set_subs_def parse_keeps split: sum.splits if_splits)
  have we: "with_error e x = ret y \<longleftrightarrow> x = ret y" for e and x :: "'a fallible" and y
    by (cases x rule: fallible_cases) auto
  have we': "with_error e x = ret y \<longleftrightarrow> x = ret y" for e and x :: "'b fallible" and y
    by (cases x rule: fallible_cases) auto
  note g = guard_def
  show ?thesis
    using assms
    by (auto simp: data_elem_def g ebind_ret we we' split: if_splits dest!: mi si decode_name_elem_type)
qed

lemma each_data_keeps:
  assumes "each_elem data_elem bs (k, d) = ret (subs, k', d')"
  shows "list_all2 (\<lambda>b' b. b_type b' = b_type b) subs bs
    \<and> (d_sigInfo d' \<noteq> None \<longrightarrow> d_sigInfo d \<noteq> None \<or> (\<exists>b\<in>set bs. b_type b = T_SignatureInfo))"
  using assms
proof (induction bs arbitrary: k d subs)
  case (Cons b bs)
  then obtain b' k1 d1 bs' where s: "data_elem b (k, d) = ret (b', k1, d1)" "each_elem data_elem bs (k1, d1) = ret (bs', k', d')" "subs = b' # bs'"
    by (auto simp: ebind_ret)
  then show ?case using Cons.IH[OF s(2)] data_elem_keeps[OF s(1)] by auto
qed simp

text \<open>The flag for the validation does not influence the loop.\<close>

definition set_flag :: "bool \<Rightarrow> ndn_Data \<Rightarrow> ndn_Data" where
  "set_flag v d = d\<lparr>d_shouldValidateSignature := v\<rparr>"

lemma set_flag_upd:
  "(set_flag v d)\<lparr>d_name := n\<rparr> = set_flag v (d\<lparr>d_name := n\<rparr>)" "(set_flag v d)\<lparr>d_metaInfo := m\<rparr> = set_flag v (d\<lparr>d_metaInfo := m\<rparr>)"
  "(set_flag v d)\<lparr>d_content := c\<rparr> = set_flag v (d\<lparr>d_content := c\<rparr>)" "(set_flag v d)\<lparr>d_sigInfo := si\<rparr> = set_flag v (d\<lparr>d_sigInfo := si\<rparr>)"
  "(set_flag v d)\<lparr>d_sigValue := s\<rparr> = set_flag v (d\<lparr>d_sigValue := s\<rparr>)" "(set_flag v d)\<lparr>d_wire := w\<rparr> = set_flag v (d\<lparr>d_wire := w\<rparr>)"
  by (cases d, simp add: set_flag_def)+

lemma set_flag_sel [simp]:
  "d_name (set_flag v d) = d_name d" "d_sigInfo (set_flag v d) = d_sigInfo d" "d_sigValue (set_flag v d) = d_sigValue d"
  "set_flag v (set_flag u d) = set_flag v d" "d_wire (set_flag v d) = d_wire d" "data_view (set_flag v d) = data_view d"
  by (simp_all add: set_flag_def data_view_def)

lemma data_elem_flag:
  "data_elem b (k, set_flag v d) = ebind (data_elem b (k, d)) (\<lambda>(b', k', d'). ret (b', k', set_flag v d'))"
proof -
  have e: "ebind (ebind x f) h = ebind x (\<lambda>y. ebind (f y) h)" for x :: "'a fallible" and f :: "'a \<Rightarrow> 'b fallible" and h :: "'b \<Rightarrow> 'c fallible"
    by (cases x rule: fallible_cases) auto
  have g: "ebind (guard c er x) h = guard c er (ebind x h)" for c er and x :: "'a fallible" and h :: "'a \<Rightarrow> 'b fallible"
    by (simp add: guard_def)
  have i: "ebind (if c then x else y) h = (if c then ebind x h else ebind y h)" for c and x y :: "'a fallible" and h :: "'a \<Rightarrow> 'b fallible"
    by simp
  show ?thesis
    by (simp add: data_elem_def set_flag_upd g i e case_prod_unfold)
qed

lemma each_data_flag:
  "each_elem data_elem bs (k, set_flag v d) = ebind (each_elem data_elem bs (k, d)) (\<lambda>(bs', k', d'). ret (bs', k', set_flag v d'))"
proof (induction bs arbitrary: k d)
  case (Cons b bs)
  show ?case
  proof (cases "data_elem b (k, d)" rule: fallible_cases)
    case (value_ r)
    obtain b' k' d' where r: "r = (b', k', d')" by (cases r)
    show ?thesis
      using value_ Cons[of k' d'] by (cases "each_elem data_elem bs (k', d')" rule: fallible_cases) (auto simp: data_elem_flag r)
  qed (simp_all add: data_elem_flag)
qed simp

text \<open>Decoding with validation is decoding without, followed by the validation.\<close>

lemma DecodeData_validated:
  assumes "length (tlvs xs) < 2 ^ 63" "DecodeData (Some (parsed (T_Data, tlvs xs))) False = ret d"
  shows "DecodeData (Some (parsed (T_Data, tlvs xs))) True
    = ebind (validateSignature (set_flag True d)) (\<lambda>(ok, d'). guard (\<not> ok) (ErrText ''unable to validate signature in decoded Data'') (ret d'))"
    "\<exists>subs. d_wire d = Some (set_subs subs (parsed (T_Data, tlvs xs))) \<and> list_all2 (\<lambda>b x. b_type b = fst x) subs xs"
    "\<exists>x\<in>set xs. fst x = T_SignatureInfo" "d_sigInfo d \<noteq> None" "d_sigValue d \<noteq> None"
proof -
  let ?p = "parsed (T_Data, tlvs xs)"
  have e0: "empty_data\<lparr>d_shouldValidateSignature := v\<rparr> = set_flag v empty_data" for v by (simp add: set_flag_def)
  obtain subs k d0 where r: "each_elem data_elem (map parsed xs) (0, set_flag False empty_data) = ret (subs, k, d0)"
      and d: "d = d0\<lparr>d_wire := Some (set_subs subs (set_subs (map parsed xs) ?p))\<rparr>"
      and fields: "d_name d \<noteq> None" "d_sigInfo d \<noteq> None" "d_sigValue d \<noteq> None"
    using assms(2)
    by (auto simp: DecodeData_def parse_parsed(2)[OF assms(1)] e0 ebind_ret guard_def Let_def split: if_splits) (auto simp: set_subs_def)
  have keeps: "list_all2 (\<lambda>b' b. b_type b' = b_type b) subs (map parsed xs)" "\<exists>b\<in>set (map parsed xs). b_type b = T_SignatureInfo"
    using each_data_keeps[OF r] fields(2) by (auto simp: d empty_data_def set_flag_def)
  then have "list_all2 (\<lambda>b x. b_type b = fst x) subs xs" "\<exists>x\<in>set xs. fst x = T_SignatureInfo" by (auto simp: list_all2_map2)
  then show "\<exists>subs. d_wire d = Some (set_subs subs ?p) \<and> list_all2 (\<lambda>b x. b_type b = fst x) subs xs"
    "\<exists>x\<in>set xs. fst x = T_SignatureInfo" "d_sigInfo d \<noteq> None" "d_sigValue d \<noteq> None"
    using fields by (auto simp: d set_subs_def)
  have "each_elem data_elem (map parsed xs) (0, set_flag True empty_data) = ret (subs, k, set_flag True d0)"
    using each_data_flag[of "map parsed xs" 0 True "set_flag False empty_data"] r by simp
  moreover have none: "\<not> (d_name d0 = None \<or> d_sigInfo d0 = None \<or> d_sigValue d0 = None)" using fields by (simp add: d)
  ultimately show "DecodeData (Some ?p) True
    = ebind (validateSignature (set_flag True d)) (\<lambda>(ok, d'). guard (\<not> ok) (ErrText ''unable to validate signature in decoded Data'') (ret d'))"
    by (simp add: none DecodeData_def parse_parsed(2)[OF assms(1)] e0 Let_def set_subs_def set_flag_upd d)
qed

lemma DecodeData_reads:
  assumes "reads data_elem xs (0, empty_data\<lparr>d_shouldValidateSignature := False\<rparr>) (k, d)" "length (tlvs xs) < 2 ^ 63"
    "d_name d \<noteq> None" "d_sigInfo d \<noteq> None" "d_sigValue d \<noteq> None"
  shows "\<exists>b. DecodeData (Some (parsed (T_Data, tlvs xs))) False = ret (d\<lparr>d_wire := Some b\<rparr>)
    \<and> b_type b = T_Data \<and> b_value b = tlvs xs \<and> b_wire b = tlv (T_Data, tlvs xs)"
proof -
  let ?p = "parsed (T_Data, tlvs xs)"
  obtain bs where bs: "each_elem data_elem (map parsed xs) (0, empty_data\<lparr>d_shouldValidateSignature := False\<rparr>) = ret (bs, k, d)"
    using assms(1) unfolding reads_def by blast
  have none: "\<not> (d_name d = None \<or> d_sigInfo d = None \<or> d_sigValue d = None)" using assms(3-5) by simp
  have "DecodeData (Some ?p) False = ret (d\<lparr>d_wire := Some (set_subs bs ?p)\<rparr>)"
    by (simp add: none DecodeData_def Let_def parse_parsed(2)[OF assms(2)] set_subs_def bs)
  then show ?thesis by (intro exI[of _ "set_subs bs ?p"]) (simp add: set_subs_def)
qed

text \<open>How long things get.\<close>

lemma Sign_length: "Sign t buf = Inr s \<Longrightarrow> length s \<le> 32"
  by (auto simp: Sign_def DigestSha256_Sign_def split: if_splits)

lemma tlv_length_le: "length (tlv (t, v)) \<le> 18 + length v"
proof -
  have "length (EncodeVarNum n) \<le> 9" for n by (simp add: length_EncodeVarNum varSize_bounds)
  from this[of "ucast t"] this[of "of_nat (length v)"] show ?thesis by (simp add: tlv_def tlv_bytes_def)
qed

section \<open>Properties\<close>

text \<open>
  C21. Encoding a Data packet whose fields are good signs it, and decoding the wire with validation
  of the signature succeeds and yields the same name, MetaInfo, content and type of signature.
\<close>

theorem data_roundtrip:
  assumes "good_data n m si d" "length (tlvs (signed_items n m (d_content d) si)) < 2 ^ 62"
  shows "\<exists>w d1 b d2. data_Encode d = Inr (Inr w, d1) \<and> DecodeBlock (b_wire w) = Inr (Inr (b, of_nat (length (b_wire w))))
    \<and> DecodeData (Some b) True = ret d2 \<and> data_view d2 = data_view d"
proof -
  let ?xs = "signed_items n m (d_content d) si" and ?t = "si_signatureType si"
  obtain w s d1 where w: "data_Encode d = Inr (Inr w, d1)" "Sign ?t (tlvs ?xs) = Inr s"
      "writes w (T_Data, tlvs (?xs @ [(T_SignatureValue, s)]))" "b_wire w \<noteq> []"
    using data_Encode_writes[OF assms(1)] by blast
  let ?ys = "?xs @ [(T_SignatureValue, s)]" and ?p = "parsed (T_Data, tlvs (?xs @ [(T_SignatureValue, s)]))"
  have wire: "b_wire w = tlv (T_Data, tlvs ?ys)" using w(3,4) by (simp add: writes_def Wire_cached)
  have len: "length (b_wire w) < 2 ^ 63"
    using assms(2) Sign_length[OF w(2)] tlv_length_le[of T_Data "tlvs ?ys"] tlv_length_le[of T_SignatureValue s] by (simp add: wire)
  then have l: "length (tlvs ?ys) < 2 ^ 63" using tlv_length[of ?ys T_Data] unfolding wire by linarith
  have g: "good_name n" "good_metainfo m" "si_type si = T_SignatureInfo" "data_view d = (Some (keys n), mi_view m, d_content d, Some ?t)"
    using assms(1) by (simp_all add: good_data_def si_type_def data_view_def)
  have lx: "length (tlvs ?xs) < 2 ^ 63" using l by simp
  obtain d0 where r: "reads data_elem ?ys (0, empty_data\<lparr>d_shouldValidateSignature := False\<rparr>) (5, d0)"
      and v: "data_view d0 = data_view d" "d_sigValue d0 = Some s" "d_name d0 \<noteq> None" "d_sigInfo d0 \<noteq> None"
    using data_reads[OF g(1-3) lx] g(4) by metis
  obtain d2 where d2: "DecodeData (Some ?p) False = ret d2" "data_view d2 = data_view d" "d_sigValue d2 = Some s"
    using DecodeData_reads[OF r l] v by (auto simp: data_view_def)
  obtain subs where subs: "d_wire d2 = Some (set_subs subs ?p)" "list_all2 (\<lambda>b x. b_type b = fst x) subs ?ys"
    using DecodeData_validated(2)[OF l d2(1)] by blast
  obtain si2 where si2: "d_sigInfo d2 = Some si2" "si_signatureType si2 = ?t"
    using d2(2) g(4) by (auto simp: data_view_def)
  have sp: "signed_part ?ys = tlvs ?xs" using signed_items_types(1)[of n m "d_content d" si] by (simp add: signed_part_def takeWhile_append)
  obtain d3 where "validateSignature (set_flag True d2) = (case Verify ?t (tlvs ?xs) (if s = [] then (case Sign ?t (tlvs ?xs) of Inl e \<Rightarrow> [] | Inr g \<Rightarrow> g) else s) of
       Inl e \<Rightarrow> fail e | Inr ok \<Rightarrow> ret (ok, d3))" "data_view d3 = data_view d"
    using validate_parsed[OF l subs(2) DecodeData_validated(3)[OF l d2(1)], of "set_flag True d2" si2 s] subs(1) si2(1) d2(2,3)
    unfolding sp si2(2) by auto
  moreover have "(if s = [] then (case Sign ?t (tlvs ?xs) of Inl e \<Rightarrow> [] | Inr g \<Rightarrow> g) else s) = s" using w(2) by simp
  ultimately have "DecodeData (Some ?p) True = ret d3"
    unfolding DecodeData_validated(1)[OF l d2(1)] by (simp add: sig.sign_validates[OF w(2)])
  moreover have "DecodeBlock (b_wire w) = Inr (Inr (?p, of_nat (length (b_wire w))))"
    using DecodeBlock_tlv[of "(T_Data, tlvs ?ys)"] len unfolding wire by blast
  ultimately show ?thesis using w(1) \<open>data_view d3 = data_view d\<close> by blast
qed

definition toy_name :: Name where
  "toy_name = Name [NewGenericNameComponent [97]] None []"

definition toy_ndn_data :: ndn_Data where
  "toy_ndn_data = empty_data\<lparr>d_name := Some toy_name, d_metaInfo := Some (metainfo_SetFreshnessPeriod 2000000 NewMetaInfo), d_content := [1, 2],
     d_sigInfo := Some (NewSignatureInfo DigestSha256Type)\<rparr>"

lemma toy_name_good: "good_name toy_name" "keys toy_name = [(8, [97])]"
  by (simp_all add: toy_name_def good_name_def good_keys_def keys_def nc_key_def nc_Type_def nc_Value_def NewGenericNameComponent_def
      nc_cache_ok_def decodable_def bad_value_def number_types_def)

lemma toy_parts_good:
  "good_metainfo (metainfo_SetFreshnessPeriod 2000000 NewMetaInfo)" "good_siginfo (NewSignatureInfo t)" "si_type (NewSignatureInfo t) = T_SignatureInfo"
  by (simp_all add: good_metainfo_def metainfo_SetFreshnessPeriod_def NewMetaInfo_def whole_ms_def good_siginfo_def NewSignatureInfo_def si_type_def)

lemma toy_items_short: "length (tlvs (signed_items toy_name (metainfo_SetFreshnessPeriod 2000000 NewMetaInfo) [1, 2] (NewSignatureInfo t))) < 2 ^ 62"
proof -
  let ?m = "metainfo_SetFreshnessPeriod 2000000 NewMetaInfo"
  have e: "length (EncodeNNI v) \<le> 8" for v by (simp add: EncodeNNI_length)
  have n: "length (snd (name_item (keys toy_name))) \<le> 20" using tlv_length_le[of 8 "[97]"] by (simp add: name_item_def toy_name_good)
  have m: "length (tlvs (mi_items (mi_view ?m))) \<le> 30"
    using tlv_length_le[of T_FreshnessPeriod "EncodeNNI (of_int (dur_Milliseconds 2000000))"] e[of "of_int (dur_Milliseconds 2000000)"]
    by (simp add: mi_view_def mi_items_def metainfo_SetFreshnessPeriod_def NewMetaInfo_def iface_key_def)
  have s: "length (tlvs (si_items (NewSignatureInfo t))) \<le> 30"
    using tlv_length_le[of T_SignatureType "EncodeNNI t"] e[of t] by (simp add: si_items_def NewSignatureInfo_def)
  have "mi_view ?m \<noteq> (None, None, None)" by (simp add: mi_view_def metainfo_SetFreshnessPeriod_def)
  then show ?thesis
    using n m s tlv_length_le[of T_Name "snd (name_item (keys toy_name))"] tlv_length_le[of T_MetaInfo "tlvs (mi_items (mi_view ?m))"]
      tlv_length_le[of T_Content "[1, 2]"] tlv_length_le[of T_SignatureInfo "tlvs (si_items (NewSignatureInfo t))"]
    by (simp add: signed_items_def name_item_def)
qed

theorem data_roundtrip_witness:
  "\<exists>w d1 b d2. data_Encode toy_ndn_data = Inr (Inr w, d1) \<and> DecodeBlock (b_wire w) = Inr (Inr (b, of_nat (length (b_wire w))))
     \<and> DecodeData (Some b) True = ret d2 \<and> d_content d2 = [1, 2]"
proof -
  have "good_data toy_name (metainfo_SetFreshnessPeriod 2000000 NewMetaInfo) (NewSignatureInfo DigestSha256Type) toy_ndn_data"
    using toy_name_good toy_parts_good by (simp add: good_data_def toy_ndn_data_def empty_data_def NewSignatureInfo_def)
  moreover have "d_content toy_ndn_data = [1, 2]" by (simp add: toy_ndn_data_def)
  ultimately show ?thesis
    using data_roundtrip[of toy_name "metainfo_SetFreshnessPeriod 2000000 NewMetaInfo" "NewSignatureInfo DigestSha256Type" toy_ndn_data]
      toy_items_short by (fastforce simp: data_view_def)
qed

text \<open>
  C22. Of the packets with a SHA-256 digest that decode, a validated decoding accepts exactly those whose
  signature value is the digest of the signed part or is empty: an empty value is recomputed from
  the packet before it is compared, so it protects nothing.
\<close>

theorem validated_decoding:
  assumes "length (tlvs xs) < 2 ^ 63" "DecodeData (Some (parsed (T_Data, tlvs xs))) False = ret d"
    "d_sigInfo d = Some si" "si_signatureType si = DigestSha256Type" "d_sigValue d = Some s"
  shows "(\<exists>d'. DecodeData (Some (parsed (T_Data, tlvs xs))) True = ret d') \<longleftrightarrow> s = [] \<or> s = Sum256 (signed_part xs)"
proof -
  obtain subs where subs: "d_wire d = Some (set_subs subs (parsed (T_Data, tlvs xs)))" "list_all2 (\<lambda>b x. b_type b = fst x) subs xs"
    using DecodeData_validated(2)[OF assms(1,2)] by blast
  obtain d' where "validateSignature (set_flag True d) = (case Verify 0 (signed_part xs)
      (if s = [] then (case Sign 0 (signed_part xs) of Inl e \<Rightarrow> [] | Inr g \<Rightarrow> g) else s) of Inl e \<Rightarrow> fail e | Inr ok \<Rightarrow> ret (ok, d'))"
    using validate_parsed[OF assms(1) subs(2) DecodeData_validated(3)[OF assms(1,2)], of "set_flag True d" si s] subs(1) assms(3,5)
    unfolding assms(4) by auto
  then show ?thesis
    unfolding DecodeData_validated(1)[OF assms(1,2)]
    by (auto simp: Verify_def Sign_def DigestSha256_Sign_def DigestSha256_Validate_def guard_def ebind_ret)
qed

theorem validated_decoding_witness:
  "\<exists>d'. DecodeData (Some (parsed (T_Data, tlvs (signed_items toy_name (metainfo_SetFreshnessPeriod 2000000 NewMetaInfo) [1, 2]
     (NewSignatureInfo DigestSha256Type) @ [(T_SignatureValue, [])])))) True = ret d'"
proof -
  let ?m = "metainfo_SetFreshnessPeriod 2000000 NewMetaInfo" and ?s = "NewSignatureInfo DigestSha256Type"
  let ?ys = "signed_items toy_name ?m [1, 2] ?s @ [(T_SignatureValue, [])]"
  have short: "length (tlvs ?ys) < 2 ^ 63"
    using toy_items_short[of DigestSha256Type] tlv_length_le[of T_SignatureValue "[]"] by simp
  obtain d0 where "reads data_elem ?ys (0, empty_data\<lparr>d_shouldValidateSignature := False\<rparr>) (5, d0)"
      "data_view d0 = (Some (keys toy_name), mi_view ?m, [1, 2], Some (si_signatureType ?s))" "d_sigValue d0 = Some []"
      "d_name d0 \<noteq> None" "d_sigInfo d0 \<noteq> None"
    using data_reads[OF toy_name_good(1) toy_parts_good(1,3), of "[1, 2]" DigestSha256Type "[]" False] toy_items_short[of DigestSha256Type]
    by auto
  moreover from this obtain b where "DecodeData (Some (parsed (T_Data, tlvs ?ys))) False = ret (d0\<lparr>d_wire := Some b\<rparr>)"
    using DecodeData_reads[OF _ short] by blast
  ultimately show ?thesis
    using validated_decoding[OF short] by (auto simp: data_view_def NewSignatureInfo_def)
qed

end
