(* ===== verification/Siginfo_Spec.thy ===== *)
theory Siginfo_Spec
  imports Data_Spec
begin

text \<open>
  What survives the encoding of the SignatureInfo of an Interest: the type, the nonce and the sequence
  number do, the key locator and the time do not.
\<close>

text \<open>
  The SignatureInfo of an Interest encodes, and decoding the wire gives the same type, nonce and
  sequence number. The key locator that was set becomes the value of a new KeyLocator block, so a
  decoded one is wrapped once more whenever it is encoded again; the time comes back as
  the sum of its whole seconds and its milliseconds, about twice what it was.
\<close>

theorem siginfo_roundtrip:
  assumes "good_siginfo s" "si_isInterest s" "length (tlvs (si_items s)) < 2 ^ 61" "siginfo_Encode s = (w, s')"
    and "si_time s = Some t" "0 \<le> t" "t < 2 ^ 63"
  shows "\<exists>b q. DecodeBlock (fst (blk_Wire w)) = Inr (Inr (b, of_nat (length (fst (blk_Wire w))))) \<and> DecodeSignatureInfo (Some b) = ret q
    \<and> (si_signatureType q, si_nonce q, si_seqNum q, si_isInterest q) = (si_signatureType s, si_nonce s, si_seqNum s, True)
    \<and> map_option (\<lambda>k. (b_type k, b_value k)) (si_keyLocator q) = map_option (\<lambda>k. (T_KeyLocator, fst (blk_Wire k))) (si_keyLocator s)
    \<and> si_time q = Some ((t div 1000000000) * 1000000000 + (t div 1000000) * 1000000)"
proof -
  let ?x = "(si_type s, tlvs (si_items s))"
  have w: "fst (blk_Wire w) = tlv ?x" using siginfo_Encode_writes[OF assms(1)] assms(4) by (auto simp: writes_def)
  have l: "length (tlvs (si_items s)) < 2 ^ 63" using assms(3) by simp
  have "length (tlv ?x) < 2 ^ 63" using assms(3) tlv_length_le[of "si_type s" "tlvs (si_items s)"] by simp
  from DecodeBlock_tlv[OF this] have d: "DecodeBlock (fst (blk_Wire w)) = Inr (Inr (parsed ?x, of_nat (length (fst (blk_Wire w)))))"
    unfolding w .
  obtain b where "DecodeSignatureInfo (Some (parsed ?x)) = ret ((si_decoded s)\<lparr>si_wire := Some b\<rparr>)"
    using DecodeSignatureInfo_items[OF l] by blast
  then show ?thesis
    using d assms(2,5) read_time_doubles[OF assms(6,7)]
    by (intro exI[of _ "parsed ?x"] exI[of _ "(si_decoded s)\<lparr>si_wire := Some b\<rparr>"])
      (cases "si_keyLocator s"; simp add: si_decoded_def NewSignatureInfo_def)
qed

definition toy_siginfo :: ndn_SignatureInfo where
  "toy_siginfo = (NewInterestSignatureInfo DigestSha256Type)\<lparr>si_time := Some 1500000000, si_keyLocator := Some (parsed (T_KeyLocator, [7]))\<rparr>"

theorem siginfo_roundtrip_witness:
  "\<exists>b q. DecodeSignatureInfo (Some b) = ret q \<and> si_signatureType q = 0 \<and> si_time q = Some 2500000000
    \<and> map_option (\<lambda>k. (b_type k, b_value k)) (si_keyLocator q) = Some (T_KeyLocator, tlv (T_KeyLocator, [7]))"
proof -
  have f: "si_time toy_siginfo = Some 1500000000" "si_isInterest toy_siginfo" "good_siginfo toy_siginfo" "si_signatureType toy_siginfo = 0"
      "si_keyLocator toy_siginfo = Some (parsed (T_KeyLocator, [7]))"
    by (simp_all add: toy_siginfo_def good_siginfo_def NewInterestSignatureInfo_def NewSignatureInfo_def)
  have nn: "length (EncodeNNI v) < 100" for v using EncodeNNI_length[of v] by (simp split: if_splits)
  have len: "length (tlv (t, v)) < 2 ^ 50" if "length v < 100" for t v using tlv_length_le[of t v] that by simp
  have "length (tlv (T_KeyLocator, [7])) < 100" using tlv_length_le[of T_KeyLocator "[7]"] by simp
  from len[OF this, of T_KeyLocator] have l: "length (tlvs (si_items toy_siginfo)) < 2 ^ 61"
    using len[OF nn, of T_SignatureType 0] len[OF nn, of T_SignatureTime "time_ms 1500000000"]
    by (simp add: si_items_def toy_siginfo_def NewInterestSignatureInfo_def NewSignatureInfo_def)
  obtain w s' where "siginfo_Encode toy_siginfo = (w, s')" by fastforce
  from siginfo_roundtrip[OF f(3,2) l this f(1)] show ?thesis unfolding f by auto
qed

end
