(* ===== verification/Ndn_Interest.thy ===== *)
theory Ndn_Interest
  imports Ndn_Meta
begin

text \<open>
  Interest packets (\<^verbatim>\<open>src/ndn/interest.go\<close>). A random nonce is an argument. The application parameters are
  blocks of their own; the digest of their wires is a component of the name.
\<close>

record ndn_Interest =
  i_name :: Name
  i_canBePrefix :: bool
  i_mustBeFresh :: bool
  i_forwardingHint :: "Name list"
  i_nonce :: bytes
  i_lifetime :: int
  i_hopLimit :: "u8 option"
  i_parameters :: "Block list"
  i_wire :: "Block option"

definition empty_interest :: ndn_Interest where
  "empty_interest = \<lparr>i_name = NewName, i_canBePrefix = False, i_mustBeFresh = False, i_forwardingHint = [], i_nonce = [],
     i_lifetime = 4000 * 1000000, i_hopLimit = None, i_parameters = [], i_wire = None\<rparr>"

definition rand_nonce :: "u32 \<Rightarrow> bytes" where
  "rand_nonce r = rev (PutUint32 r)"

definition interest_ResetNonce :: "u32 \<Rightarrow> ndn_Interest \<Rightarrow> ndn_Interest" where
  "interest_ResetNonce r i = i\<lparr>i_nonce := rand_nonce r, i_wire := None\<rparr>"

definition NewInterest :: "u32 \<Rightarrow> Name \<Rightarrow> ndn_Interest" where
  "NewInterest r name = interest_ResetNonce r (empty_interest\<lparr>i_name := name\<rparr>)"

section \<open>Decoding\<close>

definition hint_elem :: "Block \<Rightarrow> Name list \<Rightarrow> (Block \<times> Name list) fallible" where
  "hint_elem del names =
     (if b_type del = T_Name then
        ebind (with_error (ErrText ''error decoding ForwardingHint.Name'') (decode_name_elem del)) (\<lambda>(del, n). ret (del, names @ [n]))
      else if b_type del = T_Delegation then
        ebind (with_error (ErrText ''error decoding ForwardingHint.Delegation'') (DecodeDelegation (Some del))) (\<lambda>d.
          ret (case dl_wire d of Some b \<Rightarrow> b | None \<Rightarrow> del, names @ [dl_name d]))
      else guard (IsCritical (b_type del)) ErrUnrecognizedCritical (ret (del, names)))"

text \<open>The state of the loop: the last element, whether there are parameters, and the Interest.\<close>

definition interest_elem :: "Block \<Rightarrow> nat \<times> bool \<times> ndn_Interest \<Rightarrow> (Block \<times> nat \<times> bool \<times> ndn_Interest) fallible" where
  "interest_elem elem st =
     (case st of (mostRecentElem, hasApplicationParameters, i) \<Rightarrow>
        if b_type elem = T_Name then
          guard (mostRecentElem \<ge> 1) (ErrText ''Name is duplicate or out-of-order'')
           (ebind (decode_name_elem elem) (\<lambda>(elem, n). ret (elem, 1, hasApplicationParameters, i\<lparr>i_name := n\<rparr>)))
        else if b_type elem = T_CanBePrefix then
          guard (mostRecentElem \<ge> 2) (ErrText ''CanBePrefix is duplicate or out-of-order'')
           (ret (elem, 2, hasApplicationParameters, i\<lparr>i_canBePrefix := True\<rparr>))
        else if b_type elem = T_MustBeFresh then
          guard (mostRecentElem \<ge> 3) (ErrText ''MustBeFresh is duplicate or out-of-order'')
           (ret (elem, 3, hasApplicationParameters, i\<lparr>i_mustBeFresh := True\<rparr>))
        else if b_type elem = T_ForwardingHint then
          guard (mostRecentElem \<ge> 4) (ErrText ''ForwardingHint is duplicate or out-of-order'')
           (rbind (parse_always elem) (\<lambda>elem.
              ebind (each_elem hint_elem (b_subs elem) (i_forwardingHint i)) (\<lambda>(dels, names).
                ret (set_subs dels elem, 4, hasApplicationParameters, i\<lparr>i_forwardingHint := names\<rparr>))))
        else if b_type elem = T_Nonce then
          guard (mostRecentElem \<ge> 5) (ErrText ''Nonce is duplicate or out-of-order'')
           (guard (length (b_value elem) \<noteq> 4) (ErrText ''error decoding Nonce'')
             (ret (elem, 5, hasApplicationParameters, i\<lparr>i_nonce := b_value elem\<rparr>)))
        else if b_type elem = T_InterestLifetime then
          guard (mostRecentElem \<ge> 6) (ErrText ''InterestLifetime is duplicate or out-of-order'')
           (ebind (nni_elem (ErrText ''error decoding InterestLifetime'') elem) (\<lambda>v.
              ret (elem, 6, hasApplicationParameters, i\<lparr>i_lifetime := dur_of_ms v\<rparr>)))
        else if b_type elem = T_HopLimit then
          guard (mostRecentElem \<ge> 7) (ErrText ''HopLimit is duplicate or out-of-order'')
           (guard (length (b_value elem) \<noteq> 1) (ErrText ''error decoding HopLimit'')
             (ret (elem, 7, hasApplicationParameters, i\<lparr>i_hopLimit := Some (b_value elem ! 0)\<rparr>)))
        else if b_type elem = T_ApplicationParameters then
          guard (mostRecentElem \<ge> 8) (ErrText ''ApplicationParameters is duplicate or out-of-order'')
           (ret (elem, 8, True, i\<lparr>i_parameters := i_parameters i @ [elem]\<rparr>))
        else guard (\<not> hasApplicationParameters \<and> IsCritical (b_type elem)) ErrUnrecognizedCritical
           (ret (elem, mostRecentElem, hasApplicationParameters,
              if hasApplicationParameters then i\<lparr>i_parameters := i_parameters i @ [elem]\<rparr> else i)))"

definition params_digest :: "Block list \<Rightarrow> bytes" where
  "params_digest ps = Sum256 (concat (map (\<lambda>p. fst (blk_Wire p)) ps))"

definition DecodeInterest :: "u32 \<Rightarrow> Block option \<Rightarrow> ndn_Interest fallible" where
  "DecodeInterest r wire =
     (case wire of
        None \<Rightarrow> fail ErrNonExistent
      | Some b \<Rightarrow> rbind (parse_if_bare b) (\<lambda>b'.
          ebind (each_elem interest_elem (b_subs b') (0, False, empty_interest)) (\<lambda>(subs, _, hasApplicationParameters, i).
            let i = i\<lparr>i_wire := Some (set_subs subs b')\<rparr>;
                i = (if length (i_nonce i) = 0 then i\<lparr>i_nonce := rand_nonce r\<rparr> else i)
            in if hasApplicationParameters then
                 (case snd (name_Find T_ParametersSha256DigestComponent (i_name i)) of
                    None \<Rightarrow> fail (ErrText ''has ApplicationParameters but missing ParametersSha256DigestComponent'')
                  | Some paramsDigest \<Rightarrow>
                      guard (ConstantTimeCompare (nc_Value paramsDigest) (params_digest (i_parameters i)) \<noteq> 1)
                        (ErrText ''ParametersSha256DigestComponent did not match hash of application parameters'')
                        (ret (i\<lparr>i_parameters := map (\<lambda>p. snd (blk_Wire p)) (i_parameters i)\<rparr>)))
               else ret i)))"

section \<open>Fields\<close>

definition interest_SetName :: "Name \<Rightarrow> ndn_Interest \<Rightarrow> ndn_Interest" where
  "interest_SetName n i = i\<lparr>i_name := n, i_wire := None\<rparr>"

definition interest_SetCanBePrefix :: "bool \<Rightarrow> ndn_Interest \<Rightarrow> ndn_Interest" where
  "interest_SetCanBePrefix c i = i\<lparr>i_canBePrefix := c, i_wire := None\<rparr>"

definition interest_SetMustBeFresh :: "bool \<Rightarrow> ndn_Interest \<Rightarrow> ndn_Interest" where
  "interest_SetMustBeFresh c i = i\<lparr>i_mustBeFresh := c, i_wire := None\<rparr>"

definition interest_SetForwardingHint :: "Name list \<Rightarrow> ndn_Interest \<Rightarrow> ndn_Interest" where
  "interest_SetForwardingHint fh i = i\<lparr>i_forwardingHint := fh, i_wire := None\<rparr>"

definition interest_SetNonce :: "bytes \<Rightarrow> ndn_Interest \<Rightarrow> ndn_error option \<times> ndn_Interest" where
  "interest_SetNonce nonce i =
     (if length nonce \<noteq> 4 then (Some ErrTooShort, i) else (None, i\<lparr>i_nonce := nonce, i_wire := None\<rparr>))"

definition interest_SetLifetime :: "int \<Rightarrow> ndn_Interest \<Rightarrow> ndn_Interest" where
  "interest_SetLifetime d i = i\<lparr>i_lifetime := d, i_wire := None\<rparr>"

definition interest_SetHopLimit :: "u8 \<Rightarrow> ndn_Interest \<Rightarrow> ndn_Interest" where
  "interest_SetHopLimit h i = i\<lparr>i_hopLimit := Some h, i_wire := None\<rparr>"

definition interest_UnsetHopLimit :: "ndn_Interest \<Rightarrow> ndn_Interest" where
  "interest_UnsetHopLimit i = (if i_hopLimit i = None then i else i\<lparr>i_hopLimit := None, i_wire := None\<rparr>)"

section \<open>Application parameters\<close>

text \<open>
  \<open>generic_loop\<close> is the loop that looks for the last generic component: it starts at \<open>- 1\<close>, asks for the type
  of the component behind the current one, and panics when there is none.
\<close>

function generic_loop :: "Name \<Rightarrow> int \<Rightarrow> int result" where
  "generic_loop n last_generic =
     (if last_generic < int (length (nm_comps n)) then
        (case name_At n (last_generic + 1) of
           None \<Rightarrow> Inl NilDereference
         | Some c \<Rightarrow> if nc_Type c \<noteq> T_GenericNameComponent then Inr last_generic else generic_loop n (last_generic + 1))
      else Inr last_generic)"
  by pat_completeness auto
termination by (relation "measure (\<lambda>(n, k). nat (int (length (nm_comps n)) - k))") auto

declare generic_loop.simps [simp del]

definition digest_component :: "bytes \<Rightarrow> NameComponent result" where
  "digest_component h =
     (case NewParametersSha256DigestComponent h of None \<Rightarrow> Inl NilDereference | Some c \<Rightarrow> Inr c)"

definition recomputeParametersDigestComponent :: "ndn_Interest \<Rightarrow> ndn_Interest result" where
  "recomputeParametersDigestComponent i =
     (let generatedHash = params_digest (i_parameters i);
          i = i\<lparr>i_parameters := map (\<lambda>p. snd (blk_Wire p)) (i_parameters i)\<rparr>;
          n = i_name i;
          digestIndex = fst (name_Find T_ParametersSha256DigestComponent n)
      in rbind (digest_component generatedHash) (\<lambda>c.
           rbind
             (if digestIndex \<noteq> -1 then Inr (snd (name_Set digestIndex c n))
              else rbind (generic_loop n (-1)) (\<lambda>last_generic.
                if last_generic = -1 then Inr (snd (name_Insert 0 c n))
                else if last_generic = int (length (nm_comps n)) - 1 then Inr (name_Append c n)
                else Inr (snd (name_Insert (last_generic + 1) c n))))
             (\<lambda>n. Inr (i\<lparr>i_name := n, i_wire := None\<rparr>))))"

definition AppendApplicationParameter :: "Block \<Rightarrow> ndn_Interest \<Rightarrow> ndn_Interest result" where
  "AppendApplicationParameter block i =
     (let ps = (if b_type block \<noteq> T_ApplicationParameters \<and> length (i_parameters i) = 0
                then i_parameters i @ [NewEmptyBlock T_ApplicationParameters] else i_parameters i)
      in rbind (recomputeParametersDigestComponent (i\<lparr>i_parameters := ps @ [block]\<rparr>)) (\<lambda>i. Inr (i\<lparr>i_wire := None\<rparr>)))"

definition ClearApplicationParameters :: "ndn_Interest \<Rightarrow> ndn_Interest" where
  "ClearApplicationParameters i = i\<lparr>i_parameters := [], i_wire := None\<rparr>"

section \<open>Encoding\<close>

text \<open>The checks come after the wire has been set to an empty block, which they leave behind.\<close>

definition interest_Encode :: "ndn_Interest \<Rightarrow> (ndn_error + Block) \<times> ndn_Interest" where
  "interest_Encode i =
     (case i_wire i of
        Some w \<Rightarrow> (let w = snd (blk_Wire w) in (Inr w, i\<lparr>i_wire := Some w\<rparr>))
      | None \<Rightarrow>
          let w = blk_SetType T_Interest (NewEmptyBlock 0) in
          if length (nm_comps (i_name i)) = 0 then (Inl (ErrText ''Name cannot be empty''), i\<lparr>i_wire := Some w\<rparr>)
          else if length (i_nonce i) \<noteq> 4 then (Inl (ErrText ''Nonce must be set to encode''), i\<lparr>i_wire := Some w\<rparr>)
          else
            let (nb, n) = name_Encode (i_name i);
                w = blk_Append nb w;
                w = (if i_canBePrefix i then blk_Append (NewEmptyBlock T_CanBePrefix) w else w);
                w = (if i_mustBeFresh i then blk_Append (NewEmptyBlock T_MustBeFresh) w else w);
                hints = map name_Encode (i_forwardingHint i);
                w = (if length (i_forwardingHint i) > 0
                     then blk_Append (fold (\<lambda>h b. blk_Append (fst h) b) hints (NewEmptyBlock T_ForwardingHint)) w else w);
                w = blk_Append (NewBlock T_Nonce (i_nonce i)) w;
                w = blk_Append (EncodeNNIBlock T_InterestLifetime (of_int (dur_Milliseconds (i_lifetime i)))) w;
                w = append_opt (\<lambda>h. NewBlock T_HopLimit [h]) (i_hopLimit i) w;
                w = fold (\<lambda>p b. blk_Append p b) (i_parameters i) w;
                w = snd (blk_Wire w)
            in (Inr w, i\<lparr>i_name := n, i_forwardingHint := map snd hints, i_wire := Some w\<rparr>))"

definition interest_String :: "ndn_Interest \<Rightarrow> gostring" where
  "interest_String i =
     lit ''Interest(Name='' @ fst (name_String (i_name i))
     @ (if i_canBePrefix i then lit '', CanBePrefix'' else [])
     @ (if i_mustBeFresh i then lit '', MustBeFresh'' else [])
     @ (case map (\<lambda>n. fst (name_String n)) (i_forwardingHint i) of
          [] \<Rightarrow> []
        | s # ss \<Rightarrow> lit '', ForwardingHint('' @ s @ concat (map (\<lambda>t. lit '', '' @ t) ss) @ lit '')'')
     @ lit '', Nonce=0x'' @ hex_EncodeToString (i_nonce i)
     @ lit '', Lifetime='' @ FormatInt (dur_Milliseconds (i_lifetime i)) @ lit ''ms''
     @ (case i_hopLimit i of None \<Rightarrow> [] | Some h \<Rightarrow> lit '', HopLimit='' @ FormatUint (unat h))
     @ (if length (i_parameters i) > 0 then lit '', ApplicationParameters'' else [])
     @ lit '')''"

end
