(* ===== verification/Interest_Spec.thy ===== *)
theory Interest_Spec
  imports Data_Spec Ndn_Interest
begin

text \<open>
  What Interests encode to and how they are decoded, and where the digest of the application
  parameters goes.
\<close>

section \<open>The items of an Interest\<close>

definition hint_items :: "Name list \<Rightarrow> tlv_item list" where
  "hint_items ns = map (\<lambda>n. name_item (keys n)) ns"

definition interest_items :: "ndn_Interest \<Rightarrow> tlv_item list \<Rightarrow> tlv_item list" where
  "interest_items i ps =
     ((((((([] @ [name_item (keys (i_name i))]) @ (if i_canBePrefix i then [(T_CanBePrefix, [])] else []))
       @ (if i_mustBeFresh i then [(T_MustBeFresh, [])] else []))
       @ (if i_forwardingHint i \<noteq> [] then [(T_ForwardingHint, tlvs (hint_items (i_forwardingHint i)))] else []))
       @ [(T_Nonce, i_nonce i)]) @ [(T_InterestLifetime, EncodeNNI (of_int (dur_Milliseconds (i_lifetime i))))])
       @ opt_item T_HopLimit (\<lambda>h. [h]) (i_hopLimit i)) @ ps"

text \<open>The types that a decoder does not take for a further parameter.\<close>

definition interest_types :: "u32 set" where
  "interest_types = {T_Name, T_CanBePrefix, T_MustBeFresh, T_ForwardingHint, T_Nonce, T_InterestLifetime, T_HopLimit, T_ApplicationParameters}"

definition params_shape :: "tlv_item list \<Rightarrow> bool" where
  "params_shape ps \<longleftrightarrow> (case ps of [] \<Rightarrow> True | x # xs \<Rightarrow> fst x = T_ApplicationParameters \<and> (\<forall>y\<in>set xs. fst y \<notin> interest_types))"

text \<open>The digest in the name is that of the parameters, when there are any.\<close>

definition digest_ok :: "Name \<Rightarrow> tlv_item list \<Rightarrow> bool" where
  "digest_ok n ps \<longleftrightarrow> (ps \<noteq> [] \<longrightarrow>
     (\<exists>c. snd (name_Find T_ParametersSha256DigestComponent n) = Some c \<and> nc_Value c = Sum256 (tlvs ps)))"

definition good_interest :: "ndn_Interest \<Rightarrow> tlv_item list \<Rightarrow> bool" where
  "good_interest i ps \<longleftrightarrow> i_wire i = None \<and> good_name (i_name i) \<and> nm_comps (i_name i) \<noteq> [] \<and> (\<forall>h\<in>set (i_forwardingHint i). good_name h)
     \<and> length (i_nonce i) = 4 \<and> whole_ms (i_lifetime i) \<and> list_all2 writes (i_parameters i) ps \<and> params_shape ps \<and> digest_ok (i_name i) ps"

lemma name_Encode_list:
  assumes "\<forall>h\<in>set hs. good_name h"
  shows "list_all2 (\<lambda>h. writes (fst h)) (map name_Encode hs) (hint_items hs)"
  using assms by (induction hs) (simp_all add: hint_items_def name_Encode_writes(1))

lemma interest_Encode_writes:
  assumes "good_interest i ps"
  shows "\<exists>w i'. interest_Encode i = (Inr w, i') \<and> writes w (T_Interest, tlvs (interest_items i ps)) \<and> b_wire w \<noteq> []"
proof -
  have g: "i_wire i = None" "good_name (i_name i)" "nm_comps (i_name i) \<noteq> []" "length (i_nonce i) = 4"
      "\<forall>h\<in>set (i_forwardingHint i). good_name h" "list_all2 writes (i_parameters i) ps"
    using assms by (simp_all add: good_interest_def)
  obtain nb n' where n: "name_Encode (i_name i) = (nb, n')" by fastforce
  let ?w0 = "blk_Append nb (blk_SetType T_Interest (NewEmptyBlock 0))"
  let ?w1 = "if i_canBePrefix i then blk_Append (NewEmptyBlock T_CanBePrefix) ?w0 else ?w0"
  let ?w2 = "if i_mustBeFresh i then blk_Append (NewEmptyBlock T_MustBeFresh) ?w1 else ?w1"
  let ?h = "fold (\<lambda>h b. blk_Append (fst h) b) (map name_Encode (i_forwardingHint i)) (NewEmptyBlock T_ForwardingHint)"
  let ?w3 = "if i_forwardingHint i \<noteq> [] then blk_Append ?h ?w2 else ?w2"
  let ?w4 = "blk_Append (EncodeNNIBlock T_InterestLifetime (of_int (dur_Milliseconds (i_lifetime i)))) (blk_Append (NewBlock T_Nonce (i_nonce i)) ?w3)"
  let ?w5 = "append_opt (\<lambda>h. NewBlock T_HopLimit [h]) (i_hopLimit i) ?w4"
  let ?w = "fold (\<lambda>p b. blk_Append p b) (i_parameters i) ?w5"
  have nw: "writes nb (name_item (keys (i_name i)))" using name_Encode_writes(1)[OF g(2)] n by simp
  have "builds ?h T_ForwardingHint ([] @ hint_items (i_forwardingHint i))"
    by (intro builds_fold builds_empty name_Encode_list g(5))
  then have hw: "writes ?h (T_ForwardingHint, tlvs (hint_items (i_forwardingHint i)))" using builds_done by fastforce
  have "builds ?w T_Interest (interest_items i ps)"
    unfolding interest_items_def
    by (intro builds_fold builds_opt builds_append builds_if builds_empty writes_nni writes_value nw hw) (simp_all add: g(6))
  then have w: "writes (snd (blk_Wire ?w)) (T_Interest, tlvs (interest_items i ps))" by (simp add: builds_done)
  have "fst (interest_Encode i) = Inr (snd (blk_Wire ?w))"
    using g by (simp add: interest_Encode_def n Let_def comp_def)
  then obtain i' where "interest_Encode i = (Inr (snd (blk_Wire ?w)), i')" by (metis prod.collapse)
  moreover have "b_wire (snd (blk_Wire ?w)) \<noteq> []" using w by (simp add: writes_wire)
  ultimately show ?thesis using w by blast
qed

section \<open>Decoding\<close>

lemma tlv_in_tlvs: "x \<in> set xs \<Longrightarrow> length (tlv x) \<le> length (tlvs xs)"
  by (induction xs) auto

lemma hints_read:
  assumes "\<forall>h\<in>set hs. good_name h" "length (tlvs (hint_items hs)) < 2 ^ 63"
  shows "\<exists>ns. reads hint_elem (hint_items hs) acc (acc @ ns) \<and> map keys ns = map keys hs"
  using assms
proof (induction hs arbitrary: acc)
  case Nil
  then show ?case by (simp add: hint_items_def reads_Nil)
next
  case (Cons h hs)
  have k: "good_keys (keys h)" "length (tlv (name_item (keys h))) < 2 ^ 63" "length (tlvs (hint_items hs)) < 2 ^ 63"
    using Cons.prems by (simp_all add: good_name_def hint_items_def)
  from decode_name_parsed[OF k(1,2)] obtain b n where n: "decode_name_elem (parsed (name_item (keys h))) = ret (b, n)" "keys n = keys h"
      "b_type b = T_Name" "b_value b = snd (name_item (keys h))" "b_wire b = tlv (name_item (keys h))"
    by blast
  have "fst (name_item (keys h)) = T_Name" by (simp add: name_item_def)
  then have 1: "reads hint_elem [name_item (keys h)] acc (acc @ [n])"
    by (intro reads_one[where b = b]) (simp_all add: hint_elem_def n)
  obtain ns where 2: "reads hint_elem (hint_items hs) (acc @ [n]) ((acc @ [n]) @ ns)" "map keys ns = map keys hs"
    using Cons.IH[of "acc @ [n]"] Cons.prems k(3) by auto
  have "reads hint_elem (hint_items (h # hs)) acc (acc @ n # ns)" using reads_append[OF 1 2(1)] by (simp add: hint_items_def)
  then show ?case using 2(2) n(2) by (intro exI[of _ "n # ns"]) simp
qed

definition interest_view :: "ndn_Interest \<Rightarrow> (u16 \<times> bytes) list \<times> bool \<times> bool \<times> (u16 \<times> bytes) list list \<times> bytes \<times> int \<times> u8 option \<times> bytes list" where
  "interest_view i = (keys (i_name i), i_canBePrefix i, i_mustBeFresh i, map keys (i_forwardingHint i), i_nonce i, i_lifetime i, i_hopLimit i,
     map (\<lambda>p. fst (blk_Wire p)) (i_parameters i))"

lemma params_read:
  assumes "params_shape ps" "k < 8" "i_parameters i = []"
  shows "\<exists>k'. reads interest_elem ps (k, False, i) (k', ps \<noteq> [], i\<lparr>i_parameters := map parsed ps\<rparr>)"
proof (cases ps)
  case Nil
  have "i\<lparr>i_parameters := []\<rparr> = i" using assms(3) by (cases i) simp
  then show ?thesis using Nil by (intro exI[of _ k]) (simp add: reads_Nil)
next
  case (Cons x xs)
  have more: "reads interest_elem ys (8, True, i\<lparr>i_parameters := qs\<rparr>) (8, True, i\<lparr>i_parameters := qs @ map parsed ys\<rparr>)"
    if "\<forall>y\<in>set ys. fst y \<notin> interest_types" for ys qs
    using that
  proof (induction ys arbitrary: qs)
    case (Cons y ys)
    have 1: "reads interest_elem [y] (8, True, i\<lparr>i_parameters := qs\<rparr>) (8, True, i\<lparr>i_parameters := qs @ [parsed y]\<rparr>)"
      using Cons.prems by (intro reads_one[where b = "parsed y"]) (auto simp: interest_elem_def interest_types_def)
    have 2: "reads interest_elem ys (8, True, i\<lparr>i_parameters := qs @ [parsed y]\<rparr>) (8, True, i\<lparr>i_parameters := qs @ parsed y # map parsed ys\<rparr>)"
      using Cons.IH[of "qs @ [parsed y]"] Cons.prems by simp
    show ?case using reads_append[OF 1 2] by simp
  qed (simp add: reads_Nil)
  have "reads interest_elem [x] (k, False, i) (8, True, i\<lparr>i_parameters := [parsed x]\<rparr>)"
    using assms Cons by (intro reads_one[where b = "parsed x"]) (simp_all add: interest_elem_def params_shape_def)
  from reads_append[OF this more[of xs "[parsed x]"]] show ?thesis
    using assms(1) by (intro exI[of _ 8]) (simp add: Cons params_shape_def)
qed

lemma interest_reads:
  assumes "good_interest i ps" "length (tlvs (interest_items i ps)) < 2 ^ 63"
  shows "\<exists>k j. reads interest_elem (interest_items i ps) (0, False, empty_interest) (k, ps \<noteq> [], j) \<and> interest_view j = interest_view i
    \<and> i_parameters j = map parsed ps"
proof -
  have g: "good_name (i_name i)" "length (i_nonce i) = 4" "whole_ms (i_lifetime i)" "\<forall>h\<in>set (i_forwardingHint i). good_name h"
      "list_all2 writes (i_parameters i) ps" "params_shape ps"
    using assms(1) by (simp_all add: good_interest_def)
  have len: "length (tlv x) < 2 ^ 63" if "x \<in> set (interest_items i ps)" for x
    using tlv_in_tlvs[OF that] assms(2) by linarith
  have k: "good_keys (keys (i_name i))" using g(1) by (simp add: good_name_def)
  have "length (tlv (name_item (keys (i_name i)))) < 2 ^ 63" by (rule len) (simp add: interest_items_def)
  from decode_name_parsed[OF k this] obtain nb n where n: "decode_name_elem (parsed (name_item (keys (i_name i)))) = ret (nb, n)" "keys n = keys (i_name i)"
      "b_type nb = T_Name" "b_value nb = snd (name_item (keys (i_name i)))" "b_wire nb = tlv (name_item (keys (i_name i)))"
    by blast
  have ni: "fst (name_item (keys (i_name i))) = T_Name" by (simp add: name_item_def)
  let ?j1 = "empty_interest\<lparr>i_name := n\<rparr>"
  have 1: "reads interest_elem ([] @ [name_item (keys (i_name i))]) (0, False, empty_interest) (1, False, ?j1)"
    by (simp, rule reads_one[where b = nb]) (simp_all add: interest_elem_def ni n)
  let ?j2 = "?j1\<lparr>i_canBePrefix := i_canBePrefix i\<rparr>" and ?k2 = "if i_canBePrefix i then 2 else 1"
  have 2: "reads interest_elem (if i_canBePrefix i then [(T_CanBePrefix, [])] else []) (1, False, ?j1) (?k2, False, ?j2)"
    by (auto intro!: reads_one reads_Nil simp: interest_elem_def empty_interest_def)
  let ?j3 = "?j2\<lparr>i_mustBeFresh := i_mustBeFresh i\<rparr>" and ?k3 = "if i_mustBeFresh i then 3 else ?k2"
  have 3: "reads interest_elem (if i_mustBeFresh i then [(T_MustBeFresh, [])] else []) (?k2, False, ?j2) (?k3, False, ?j3)"
    by (auto intro!: reads_one reads_Nil simp: interest_elem_def empty_interest_def)
  let ?H = "(T_ForwardingHint, tlvs (hint_items (i_forwardingHint i))) :: tlv_item" and ?k4 = "if i_forwardingHint i \<noteq> [] then 4 else ?k3"
  obtain ns where 4: "reads interest_elem (if i_forwardingHint i \<noteq> [] then [?H] else []) (?k3, False, ?j3) (?k4, False, ?j3\<lparr>i_forwardingHint := ns\<rparr>)"
      "map keys ns = map keys (i_forwardingHint i)"
  proof (cases "i_forwardingHint i = []")
    case True
    then show thesis by (intro that[of "[]"]) (simp_all add: reads_Nil empty_interest_def)
  next
    case False
    then have "length (tlv ?H) < 2 ^ 63" by (intro len) (simp add: interest_items_def)
    then have l: "length (tlvs (hint_items (i_forwardingHint i))) < 2 ^ 63" using tlv_length[of "hint_items (i_forwardingHint i)" T_ForwardingHint] by linarith
    obtain ns where ns: "reads hint_elem (hint_items (i_forwardingHint i)) [] ns" "map keys ns = map keys (i_forwardingHint i)"
      using hints_read[OF g(4) l, of "[]"] by auto
    obtain dels where d: "each_elem hint_elem (map parsed (hint_items (i_forwardingHint i))) [] = ret (dels, ns)" using ns(1) unfolding reads_def by blast
    let ?b = "set_subs dels (set_subs (map parsed (hint_items (i_forwardingHint i))) (parsed ?H))"
    have "reads interest_elem [?H] (?k3, False, ?j3) (4, False, ?j3\<lparr>i_forwardingHint := ns\<rparr>)"
      by (rule reads_one[where b = ?b]) (auto simp: interest_elem_def parse_parsed(1)[OF l] set_subs_def d empty_interest_def)
    then show thesis using False ns(2) by (intro that[of ns]) simp_all
  qed
  let ?j5 = "?j3\<lparr>i_forwardingHint := ns, i_nonce := i_nonce i\<rparr>"
  have 5: "reads interest_elem [(T_Nonce, i_nonce i)] (?k4, False, ?j3\<lparr>i_forwardingHint := ns\<rparr>) (5, False, ?j5)"
    by (rule reads_one[where b = "parsed (T_Nonce, i_nonce i)"]) (simp_all add: interest_elem_def g(2))
  let ?L = "(T_InterestLifetime, EncodeNNI (of_int (dur_Milliseconds (i_lifetime i)))) :: tlv_item"
  let ?j6 = "?j5\<lparr>i_lifetime := i_lifetime i\<rparr>"
  have 6: "reads interest_elem [?L] (5, False, ?j5) (6, False, ?j6)"
    by (rule reads_one[where b = "parsed ?L"]) (simp_all add: interest_elem_def dur_of_ms_Milliseconds[OF g(3)])
  let ?j7 = "?j6\<lparr>i_hopLimit := i_hopLimit i\<rparr>" and ?k7 = "if i_hopLimit i = None then 6 else 7"
  have 7: "reads interest_elem (opt_item T_HopLimit (\<lambda>h. [h]) (i_hopLimit i)) (6, False, ?j6) (?k7, False, ?j7)"
    by (rule reads_opt) (auto intro!: reads_one simp: interest_elem_def empty_interest_def)
  obtain k8 where 8: "reads interest_elem ps (?k7, False, ?j7) (k8, ps \<noteq> [], ?j7\<lparr>i_parameters := map parsed ps\<rparr>)"
  proof -
    have "?k7 < (8 :: nat)" "i_parameters ?j7 = []" by (simp_all add: empty_interest_def)
    then show thesis using params_read[OF g(6)] that by blast
  qed
  have v: "interest_view (?j7\<lparr>i_parameters := map parsed ps\<rparr>) = interest_view i"
    using n(2) 4(2) map_writes[OF g(5)] by (simp add: interest_view_def empty_interest_def comp_def)
  have "reads interest_elem (interest_items i ps) (0, False, empty_interest) (k8, ps \<noteq> [], ?j7\<lparr>i_parameters := map parsed ps\<rparr>)"
    unfolding interest_items_def
    by (rule reads_append[OF reads_append[OF reads_append[OF reads_append[OF reads_append[OF reads_append[OF reads_append[OF 1 2] 3] 4(1)] 5] 6] 7] 8])
  then show ?thesis using v by (intro exI[of _ k8] exI[of _ "?j7\<lparr>i_parameters := map parsed ps\<rparr>"]) simp
qed

text \<open>Names with the same keys have the same digest component.\<close>

lemma name_Find_keys: "snd (name_Find t n) = (case find_index (\<lambda>k. fst k = t) (keys n) of None \<Rightarrow> None | Some j \<Rightarrow> Some (nm_comps n ! j))"
  "fst (name_Find t n) = (case find_index (\<lambda>k. fst k = t) (keys n) of None \<Rightarrow> -1 | Some j \<Rightarrow> int j)"
proof -
  have "find_index (\<lambda>c. nc_Type c = t) cs = find_index (\<lambda>k. fst k = t) (map nc_key cs)" for cs
    by (induction cs) (simp_all add: nc_key_def)
  then show "snd (name_Find t n) = (case find_index (\<lambda>k. fst k = t) (keys n) of None \<Rightarrow> None | Some j \<Rightarrow> Some (nm_comps n ! j))"
    "fst (name_Find t n) = (case find_index (\<lambda>k. fst k = t) (keys n) of None \<Rightarrow> -1 | Some j \<Rightarrow> int j)"
    by (simp_all add: name_Find_def keys_def split: option.split)
qed

lemma Find_value:
  "(\<exists>c. snd (name_Find t n) = Some c \<and> nc_Value c = v) \<longleftrightarrow> (\<exists>j. find_index (\<lambda>k. fst k = t) (keys n) = Some j \<and> snd (keys n ! j) = v)"
proof (cases "find_index (\<lambda>k. fst k = t) (keys n)")
  case (Some j)
  then have "j < length (nm_comps n)" using find_index_SomeD by (fastforce simp: keys_def)
  then show ?thesis using Some by (simp add: name_Find_keys) (simp add: keys_def nc_key_def)
qed (simp add: name_Find_keys)

lemma digest_ok_keys: "keys n = keys n' \<Longrightarrow> digest_ok n ps \<longleftrightarrow> digest_ok n' ps"
  by (simp add: digest_ok_def Find_value)

text \<open>
  C23. An Interest with good fields encodes, and decoding the wire yields the same name, selectors,
  forwarding hint, nonce, lifetime, hop limit and application parameters; the decoder checks
  the digest of the parameters on the way.
\<close>

theorem interest_roundtrip:
  assumes "good_interest i ps" "length (tlvs (interest_items i ps)) < 2 ^ 62"
  shows "\<exists>w i' b j. interest_Encode i = (Inr w, i') \<and> DecodeBlock (b_wire w) = Inr (Inr (b, of_nat (length (b_wire w))))
    \<and> DecodeInterest r (Some b) = ret j \<and> interest_view j = interest_view i"
proof -
  let ?xs = "interest_items i ps"
  obtain w i' where w: "interest_Encode i = (Inr w, i')" "writes w (T_Interest, tlvs ?xs)" "b_wire w \<noteq> []"
    using interest_Encode_writes[OF assms(1)] by blast
  let ?p = "parsed (T_Interest, tlvs ?xs)"
  have wire: "b_wire w = tlv (T_Interest, tlvs ?xs)" using w(2,3) by (simp add: writes_def Wire_cached)
  have len: "length (b_wire w) < 2 ^ 63" using assms(2) tlv_length_le[of T_Interest "tlvs ?xs"] by (simp add: wire)
  have l: "length (tlvs ?xs) < 2 ^ 63" using assms(2) by simp
  obtain k j bs where j: "each_elem interest_elem (map parsed ?xs) (0, False, empty_interest) = ret (bs, k, ps \<noteq> [], j)"
      "interest_view j = interest_view i" "i_parameters j = map parsed ps"
    using interest_reads[OF assms(1) l] unfolding reads_def by blast
  have nonce: "length (i_nonce j) = 4" using assms(1) j(2) by (simp add: good_interest_def interest_view_def)
  then have nn: "i_nonce j \<noteq> []" by auto
  have "digest_ok (i_name j) ps"
    using assms(1) j(2) digest_ok_keys[of "i_name j" "i_name i" ps] by (simp add: good_interest_def interest_view_def)
  then have dg: "\<exists>c. snd (name_Find T_ParametersSha256DigestComponent (i_name j)) = Some c \<and> nc_Value c = params_digest (map parsed ps)" if "ps \<noteq> []"
    using that by (simp add: digest_ok_def params_digest_def tlvs_def comp_def)
  have "\<exists>j'. DecodeInterest r (Some ?p) = ret j' \<and> interest_view j' = interest_view j"
  proof (cases "ps = []")
    case True
    then have e: "each_elem interest_elem (map parsed ?xs) (0, False, empty_interest) = ret (bs, k, False, j)" using j(1) by simp
    have "DecodeInterest r (Some ?p) = ret (j\<lparr>i_wire := Some (set_subs bs (set_subs (map parsed ?xs) ?p))\<rparr>)"
      by (simp add: DecodeInterest_def parse_parsed(2)[OF l] nn Let_def) (simp add: set_subs_def e nn)
    then show ?thesis by (intro exI conjI, assumption) (simp add: interest_view_def)
  next
    case False
    then have e: "each_elem interest_elem (map parsed ?xs) (0, False, empty_interest) = ret (bs, k, True, j)" using j(1) by simp
    obtain c where c: "snd (name_Find T_ParametersSha256DigestComponent (i_name j)) = Some c" "nc_Value c = params_digest (map parsed ps)"
      using dg False by blast
    have "DecodeInterest r (Some ?p) = ret (j\<lparr>i_wire := Some (set_subs bs (set_subs (map parsed ?xs) ?p)), i_parameters := map parsed ps\<rparr>)"
      by (simp add: DecodeInterest_def parse_parsed(2)[OF l] Let_def) (simp add: set_subs_def e nn c j(3) comp_def)
    then show ?thesis by (intro exI conjI, assumption) (simp add: interest_view_def j(3) comp_def)
  qed
  moreover have "DecodeBlock (b_wire w) = Inr (Inr (?p, of_nat (length (b_wire w))))"
    using DecodeBlock_tlv[of "(T_Interest, tlvs ?xs)"] len unfolding wire by blast
  ultimately show ?thesis using w(1) j(2) by (metis (no_types))
qed

section \<open>Application parameters\<close>

lemma name_At_keys: "0 \<le> j \<Longrightarrow> j < int (length (nm_comps n)) \<Longrightarrow> name_At n j = Some (nm_comps n ! nat j)"
  by (simp add: name_At_def)

lemma find_index_drop:
  "j \<le> length xs \<Longrightarrow> find_index P (drop j xs) =
     (if j < length xs then (if P (xs ! j) then Some 0 else map_option Suc (find_index P (drop (Suc j) xs))) else None)"
  by (cases "j < length xs") (simp_all add: Cons_nth_drop_Suc[symmetric])

lemma generic_loop_eq:
  assumes "-1 \<le> k" "k < int (length (nm_comps n))"
  shows "generic_loop n k = (case find_index (\<lambda>q. fst q \<noteq> T_GenericNameComponent) (drop (nat (k + 1)) (keys n)) of
      None \<Rightarrow> Inl NilDereference | Some j \<Rightarrow> Inr (k + int j))"
  using assms
proof (induction n k rule: generic_loop.induct)
  case (1 n k)
  let ?j = "nat (k + 1)"
  have len: "length (keys n) = length (nm_comps n)" by (simp add: keys_def)
  show ?case
  proof (cases "k + 1 < int (length (nm_comps n))")
    case True
    then have j: "?j < length (nm_comps n)" "name_At n (k + 1) = Some (nm_comps n ! ?j)" using 1(2) by (simp_all add: name_At_keys)
    have key: "fst (keys n ! ?j) = nc_Type (nm_comps n ! ?j)" using j(1) by (simp add: keys_def nc_key_def)
    have s: "nat (k + 1 + 1) = Suc ?j" using 1(2) by simp
    show ?thesis
    proof (cases "nc_Type (nm_comps n ! ?j) = T_GenericNameComponent")
      case g: True
      have "generic_loop n k = generic_loop n (k + 1)" using 1(3) j g by (subst generic_loop.simps) simp
      also have "\<dots> = (case find_index (\<lambda>q. fst q \<noteq> T_GenericNameComponent) (drop (Suc ?j) (keys n)) of
          None \<Rightarrow> Inl NilDereference | Some i \<Rightarrow> Inr (k + 1 + int i))"
        using 1(1)[OF 1(3) j(2)] g True 1(2) s by simp
      finally show ?thesis
        using j(1) g by (simp add: find_index_drop[of ?j] len key split: option.split)
    next
      case False
      then have "generic_loop n k = Inr k" using 1(3) j by (subst generic_loop.simps) simp
      then show ?thesis using False j(1) by (simp add: find_index_drop[of ?j] len key)
    qed
  next
    case False
    then have "name_At n (k + 1) = None" "?j = length (nm_comps n)" using 1(2,3) by (auto simp: name_At_def)
    then show ?thesis using 1(3) by (subst generic_loop.simps) (simp add: len)
  qed
qed

text \<open>The name with the digest in its place.\<close>

definition with_digest :: "bytes \<Rightarrow> (u16 \<times> bytes) list \<Rightarrow> (u16 \<times> bytes) list option" where
  "with_digest h ks =
     (case find_index (\<lambda>q. fst q = T_ParametersSha256DigestComponent) ks of
        Some j \<Rightarrow> Some (ks[j := (T_ParametersSha256DigestComponent, h)])
      | None \<Rightarrow> map_option (\<lambda>j. take j ks @ (T_ParametersSha256DigestComponent, h) # drop j ks)
                 (find_index (\<lambda>q. fst q \<noteq> T_GenericNameComponent) ks))"

lemma find_index_update:
  "find_index P xs = Some j \<Longrightarrow> P y \<Longrightarrow> find_index P (xs[j := y]) = Some j"
  by (induction xs arbitrary: j) (auto split: if_splits nat.split)

lemma find_index_take_drop:
  "find_index P xs = None \<Longrightarrow> j \<le> length xs \<Longrightarrow> P y \<Longrightarrow> find_index P (take j xs @ y # drop j xs) = Some j"
proof (induction j arbitrary: xs)
  case (Suc j)
  then obtain x ys where "xs = x # ys" by (cases xs) auto
  then show ?case using Suc by (auto split: if_splits)
qed simp

lemma with_digest_found:
  assumes "with_digest h ks = Some ks'"
  shows "\<exists>j. find_index (\<lambda>q. fst q = T_ParametersSha256DigestComponent) ks' = Some j \<and> snd (ks' ! j) = h"
proof (cases "find_index (\<lambda>q. fst q = T_ParametersSha256DigestComponent) ks")
  case (Some j)
  then have "ks' = ks[j := (T_ParametersSha256DigestComponent, h)]" "j < length ks"
    using assms find_index_SomeD[OF Some] by (simp_all add: with_digest_def)
  then show ?thesis using find_index_update[OF Some] by simp
next
  case None
  then obtain j where j: "find_index (\<lambda>q. fst q \<noteq> T_GenericNameComponent) ks = Some j"
      "ks' = take j ks @ (T_ParametersSha256DigestComponent, h) # drop j ks"
    using assms by (auto simp: with_digest_def)
  then have "j \<le> length ks" using find_index_SomeD by fastforce
  then show ?thesis using find_index_take_drop[OF None] j(2) by (simp add: nth_append)
qed

lemma recompute_spec:
  defines "h \<equiv> \<lambda>i. params_digest (i_parameters i)"
  shows "case with_digest (h i) (keys (i_name i)) of
      None \<Rightarrow> recomputeParametersDigestComponent i = Inl NilDereference
    | Some ks \<Rightarrow> \<exists>n. recomputeParametersDigestComponent i
          = Inr (i\<lparr>i_name := n, i_parameters := map (\<lambda>p. snd (blk_Wire p)) (i_parameters i), i_wire := None\<rparr>) \<and> keys n = ks"
proof -
  let ?h = "h i" and ?n = "i_name i" and ?ks = "keys (i_name i)"
  let ?c = "ParametersSha256DigestComponent (NC 0x02 ?h None)"
  have c: "digest_component ?h = Inr ?c" "nc_key ?c = (T_ParametersSha256DigestComponent, ?h)"
    by (simp_all add: digest_component_def NewParametersSha256DigestComponent_def h_def params_digest_def nc_key_def nc_Type_def nc_Value_def)
  have len: "length ?ks = length (nm_comps ?n)" by (simp add: keys_def)
  have rec: "recomputeParametersDigestComponent i = rbind
      (if fst (name_Find T_ParametersSha256DigestComponent ?n) \<noteq> -1 then Inr (snd (name_Set (fst (name_Find T_ParametersSha256DigestComponent ?n)) ?c ?n))
       else rbind (generic_loop ?n (-1)) (\<lambda>last_generic.
         if last_generic = -1 then Inr (snd (name_Insert 0 ?c ?n))
         else if last_generic = int (length (nm_comps ?n)) - 1 then Inr (name_Append ?c ?n)
         else Inr (snd (name_Insert (last_generic + 1) ?c ?n))))
      (\<lambda>n. Inr (i\<lparr>i_name := n, i_parameters := map (\<lambda>p. snd (blk_Wire p)) (i_parameters i), i_wire := None\<rparr>))"
  proof -
    have swap: "i\<lparr>i_parameters := ps, i_name := n, i_wire := None\<rparr> = i\<lparr>i_name := n, i_parameters := ps, i_wire := None\<rparr>" for ps n
      by (cases i) simp
    then show ?thesis using c(1) by (simp add: recomputeParametersDigestComponent_def Let_def h_def swap cong: if_cong)
  qed
  show ?thesis
  proof (cases "find_index (\<lambda>q. fst q = T_ParametersSha256DigestComponent) ?ks")
    case (Some j)
    then have j: "j < length (nm_comps ?n)" using find_index_SomeD[OF Some] len by simp
    have "keys (snd (name_Set (int j) ?c ?n)) = ?ks[j := (T_ParametersSha256DigestComponent, ?h)]"
      using j c(2) by (simp add: name_Set_def keys_def map_update)
    moreover have "recomputeParametersDigestComponent i = Inr (i\<lparr>i_name := snd (name_Set (int j) ?c ?n),
        i_parameters := map (\<lambda>p. snd (blk_Wire p)) (i_parameters i), i_wire := None\<rparr>)"
      using Some by (simp add: rec name_Find_keys)
    ultimately show ?thesis using Some by (auto simp: with_digest_def)
  next
    case None
    have gl: "generic_loop ?n (-1) = (case find_index (\<lambda>q. fst q \<noteq> T_GenericNameComponent) ?ks of None \<Rightarrow> Inl NilDereference | Some j \<Rightarrow> Inr (int j - 1))"
      if "nm_comps ?n \<noteq> [] \<or> True"
    proof (cases "nm_comps ?n = []")
      case True
      then show ?thesis by (subst generic_loop.simps) (simp add: keys_def name_At_def)
    next
      case False
      then show ?thesis using generic_loop_eq[of "-1" ?n] by (simp split: option.splits)
    qed
    show ?thesis
    proof (cases "find_index (\<lambda>q. fst q \<noteq> T_GenericNameComponent) ?ks")
      case g: None
      then show ?thesis using None gl by (simp add: with_digest_def rec name_Find_keys)
    next
      case (Some j)
      then have j: "j < length (nm_comps ?n)" using find_index_SomeD[OF Some] len by simp
      have ins: "keys (snd (name_Insert (int j) ?c ?n)) = take j ?ks @ (T_ParametersSha256DigestComponent, ?h) # drop j ?ks"
        using j c(2) by (simp add: name_Insert_def keys_def take_map drop_map)
      have "recomputeParametersDigestComponent i
          = Inr (i\<lparr>i_name := snd (name_Insert (int j) ?c ?n), i_parameters := map (\<lambda>p. snd (blk_Wire p)) (i_parameters i), i_wire := None\<rparr>)"
        using None Some gl j by (cases "j = 0") (simp_all add: rec name_Find_keys)
      then show ?thesis using None Some ins by (auto simp: with_digest_def)
    qed
  qed
qed

text \<open>
  C24. Appending an application parameter sets the digest in the name to that of all parameters, so that
  the Interest passes the check of the decoder; but for a name without a digest whose components
  are all generic it panics, as the search for the last generic component runs past the end of the name.
\<close>

theorem AppendApplicationParameter_spec:
  assumes "list_all2 writes (i_parameters i) ps" "writes blk x"
  defines "qs \<equiv> (if fst x \<noteq> T_ApplicationParameters \<and> ps = [] then [(T_ApplicationParameters, [])] else ps) @ [x]"
  shows "(with_digest (Sum256 (tlvs qs)) (keys (i_name i)) = None \<longleftrightarrow>
        (\<forall>k\<in>set (keys (i_name i)). fst k = T_GenericNameComponent))
    \<and> (case with_digest (Sum256 (tlvs qs)) (keys (i_name i)) of
        None \<Rightarrow> AppendApplicationParameter blk i = Inl NilDereference
      | Some ks \<Rightarrow> \<exists>i'. AppendApplicationParameter blk i = Inr i' \<and> keys (i_name i') = ks \<and> list_all2 writes (i_parameters i') qs
          \<and> digest_ok (i_name i') qs \<and> i_wire i' = None)"
proof
  let ?h = "Sum256 (tlvs qs)" and ?ks = "keys (i_name i)"
  have "find_index (\<lambda>q. fst q = T_ParametersSha256DigestComponent) ?ks = None \<and> find_index (\<lambda>q. fst q \<noteq> T_GenericNameComponent) ?ks = None
      \<longleftrightarrow> (\<forall>k\<in>set ?ks. fst k = T_GenericNameComponent)"
    by (auto simp: find_index_None)
  moreover have "with_digest ?h ?ks = None \<longleftrightarrow> find_index (\<lambda>q. fst q = T_ParametersSha256DigestComponent) ?ks = None
      \<and> find_index (\<lambda>q. fst q \<noteq> T_GenericNameComponent) ?ks = None"
    unfolding with_digest_def by (cases "find_index (\<lambda>q. fst q = T_ParametersSha256DigestComponent) ?ks") auto
  ultimately show "with_digest ?h ?ks = None \<longleftrightarrow> (\<forall>k\<in>set ?ks. fst k = T_GenericNameComponent)" by blast
  let ?bs = "(if b_type blk \<noteq> T_ApplicationParameters \<and> length (i_parameters i) = 0
      then i_parameters i @ [NewEmptyBlock T_ApplicationParameters] else i_parameters i) @ [blk]"
  let ?i = "i\<lparr>i_parameters := ?bs\<rparr>"
  have "length (i_parameters i) = length ps" using assms(1) by (rule list_all2_lengthD)
  then have bs: "list_all2 writes ?bs qs"
    using assms(1,2) by (auto simp: qs_def writes_value list_all2_appendI) (auto simp: writes_def)
  have h: "params_digest ?bs = ?h" using map_writes[OF bs] by (simp only: params_digest_def tlvs_def)
  have wired: "list_all2 writes (map (\<lambda>p. snd (blk_Wire p)) ?bs) qs" using bs by (simp only: list_all2_map1 writes_wired)
  have app: "AppendApplicationParameter blk i = rbind (recomputeParametersDigestComponent ?i) (\<lambda>i. Inr (i\<lparr>i_wire := None\<rparr>))"
    by (simp add: AppendApplicationParameter_def Let_def)
  have sel: "i_parameters ?i = ?bs" "i_name ?i = i_name i" by simp_all
  note rs = recompute_spec[of ?i, unfolded sel h]
  show "case with_digest ?h ?ks of
        None \<Rightarrow> AppendApplicationParameter blk i = Inl NilDereference
      | Some ks \<Rightarrow> \<exists>i'. AppendApplicationParameter blk i = Inr i' \<and> keys (i_name i') = ks \<and> list_all2 writes (i_parameters i') qs
          \<and> digest_ok (i_name i') qs \<and> i_wire i' = None"
  proof (cases "with_digest ?h ?ks")
    case None
    then show ?thesis using rs by (simp only: app option.case rbind_simps)
  next
    case (Some ks)
    then obtain n where n: "recomputeParametersDigestComponent ?i = Inr (?i\<lparr>i_name := n, i_parameters := map (\<lambda>p. snd (blk_Wire p)) ?bs, i_wire := None\<rparr>)"
        "keys n = ks"
      using rs by (simp only: option.case) blast
    have "digest_ok n qs" using with_digest_found[OF Some] n(2) by (simp add: digest_ok_def Find_value)
    let ?j = "?i\<lparr>i_name := n, i_parameters := map (\<lambda>p. snd (blk_Wire p)) ?bs, i_wire := None, i_wire := None\<rparr>"
    have "AppendApplicationParameter blk i = Inr ?j" unfolding app n(1) rbind_simps by (rule refl)
    moreover have "i_name ?j = n" "i_parameters ?j = map (\<lambda>p. snd (blk_Wire p)) ?bs" "i_wire ?j = None" by simp_all
    ultimately show ?thesis unfolding Some option.case using n(2) wired \<open>digest_ok n qs\<close> by metis
  qed
qed

theorem AppendApplicationParameter_spec_witness:
  "AppendApplicationParameter (NewBlock T_ApplicationParameters [1]) (NewInterest 0 toy_name) = Inl NilDereference"
proof -
  have "i_parameters (NewInterest 0 toy_name) = []" "i_name (NewInterest 0 toy_name) = toy_name"
    by (simp_all add: NewInterest_def interest_ResetNonce_def empty_interest_def)
  moreover have "with_digest h (keys toy_name) = None" for h by (simp add: with_digest_def toy_name_good)
  ultimately show ?thesis
    using AppendApplicationParameter_spec[of "NewInterest 0 toy_name" "[]" "NewBlock T_ApplicationParameters [1]" "(T_ApplicationParameters, [1])"]
    by (simp add: writes_value)
qed

text \<open>An Interest with a parameter and the digest of it in its name.\<close>

definition toy_param_items :: "tlv_item list" where
  "toy_param_items = [(T_ApplicationParameters, [1, 2])]"

definition toy_ndn_interest :: ndn_Interest where
  "toy_ndn_interest = empty_interest\<lparr>i_name := Name [ParametersSha256DigestComponent (NC 0x02 (Sum256 (tlvs toy_param_items)) None)] None [],
     i_forwardingHint := [toy_name], i_nonce := [1, 2, 3, 4], i_hopLimit := Some 9, i_parameters := [NewBlock T_ApplicationParameters [1, 2]]\<rparr>"

lemma toy_interest_good: "good_interest toy_ndn_interest toy_param_items"
proof -
  let ?n = "Name [ParametersSha256DigestComponent (NC 0x02 (Sum256 (tlvs toy_param_items)) None)] None []"
  have "good_name ?n"
    by (simp add: good_name_def good_keys_def keys_def nc_key_def nc_Type_def nc_Value_def nc_cache_ok_def decodable_def bad_value_def number_types_def)
  moreover have "digest_ok ?n toy_param_items"
    by (simp add: digest_ok_def name_Find_def nc_Type_def nc_Value_def)
  ultimately show ?thesis
    using toy_name_good(1)
    by (simp add: good_interest_def toy_ndn_interest_def empty_interest_def whole_ms_def params_shape_def writes_value toy_param_items_def)
qed

theorem interest_roundtrip_witness:
  "\<exists>w i' b j. interest_Encode toy_ndn_interest = (Inr w, i') \<and> DecodeBlock (b_wire w) = Inr (Inr (b, of_nat (length (b_wire w))))
     \<and> DecodeInterest 0 (Some b) = ret j \<and> i_hopLimit j = Some 9"
proof -
  let ?d = "Sum256 (tlvs toy_param_items)"
  have len: "length (tlv (t, v)) < 2 ^ 50" if "length v < 1000" for t v
    using tlv_length_le[of t v] that by simp
  have nn: "length (EncodeNNI v) \<le> 8" for v by (simp add: EncodeNNI_length)
  have n: "length (snd (name_item (keys (i_name toy_ndn_interest)))) < 1000"
    using tlv_length_le[of "0x02" ?d] by (simp add: toy_ndn_interest_def name_item_def keys_def nc_key_def nc_Type_def nc_Value_def)
  have "length (tlv (name_item (keys toy_name))) < 100"
    using tlv_length_le[of T_Name "tlv (8, [97])"] tlv_length_le[of 8 "[97]"] by (simp add: name_item_def toy_name_good)
  then have h: "length (tlvs (hint_items (i_forwardingHint toy_ndn_interest))) < 1000" by (simp add: toy_ndn_interest_def hint_items_def)
  have "length (tlvs (interest_items toy_ndn_interest toy_param_items)) < 2 ^ 62"
    using len[OF n, of T_Name] len[OF h, of T_ForwardingHint] len[of "[1, 2, 3, 4]" T_Nonce] len[of "[9]" T_HopLimit] len[of "[1, 2]" T_ApplicationParameters]
      len[of "EncodeNNI (of_int (dur_Milliseconds (i_lifetime toy_ndn_interest)))" T_InterestLifetime] nn[of "of_int (dur_Milliseconds (i_lifetime toy_ndn_interest))"]
    by (simp add: interest_items_def toy_param_items_def) (simp add: toy_ndn_interest_def empty_interest_def name_item_def)
  from interest_roundtrip[OF toy_interest_good this, of 0] obtain w i' b j where
    "interest_Encode toy_ndn_interest = (Inr w, i')" "DecodeBlock (b_wire w) = Inr (Inr (b, of_nat (length (b_wire w))))"
    "DecodeInterest 0 (Some b) = ret j" "interest_view j = interest_view toy_ndn_interest" by blast
  then show ?thesis by (auto simp: interest_view_def toy_ndn_interest_def)
qed

end
