(* ===== verification/Lp_Codec.thy ===== *)
theory Lp_Codec
  imports Ndn_Data
begin

text \<open>
  The link-layer packet class of the repository (\<^verbatim>\<open>src/ndn/lpv2\<close>). \<^verbatim>\<open>DecodePacket\<close> and
  \<^verbatim>\<open>DecodePacketNoCopy\<close> have the same text. The elements may come in any order; a repeated element
  replaces the one before, but acknowledgements are collected. Copying a slice, or a number behind
  a pointer, is the identity on values.
\<close>

abbreviation "T_Fragment \<equiv> 0x50 :: u32"
abbreviation "T_Sequence \<equiv> 0x51 :: u32"
abbreviation "T_FragIndex \<equiv> 0x52 :: u32"
abbreviation "T_FragCount \<equiv> 0x53 :: u32"
abbreviation "T_PitToken \<equiv> 0x62 :: u32"
abbreviation "T_LpPacket \<equiv> 0x64 :: u32"
abbreviation "T_Nack \<equiv> 0x0320 :: u32"
abbreviation "T_IncomingFaceID \<equiv> 0x032C :: u32"
abbreviation "T_NextHopFaceID \<equiv> 0x0330 :: u32"
abbreviation "T_CachePolicy \<equiv> 0x0334 :: u32"
abbreviation "T_CachePolicyType \<equiv> 0x0335 :: u32"
abbreviation "T_CongestionMark \<equiv> 0x0340 :: u32"
abbreviation "T_Ack \<equiv> 0x0344 :: u32"
abbreviation "T_TxSequence \<equiv> 0x0348 :: u32"
abbreviation "T_NonDiscovery \<equiv> 0x034c :: u32"
abbreviation "T_PrefixAnnouncement \<equiv> 0x0350 :: u32"

definition lp_IsCritical :: "u32 \<Rightarrow> bool" where
  "lp_IsCritical tlvType = (if tlvType \<ge> 800 \<and> tlvType \<le> 959 then tlvType AND 3 = 0 else True)"

record lpv2_Packet =
  lp_sequence :: "u64 option"
  lp_fragIndex :: "u64 option"
  lp_fragCount :: "u64 option"
  lp_pitToken :: bytes
  lp_nextHopFaceID :: "u64 option"
  lp_incomingFaceID :: "u64 option"
  lp_cachePolicyType :: "u64 option"
  lp_congestionMark :: "u64 option"
  lp_txSequence :: "u64 option"
  lp_acks :: "u64 list"
  lp_nonDiscovery :: bool
  lp_prefixAnnouncement :: "ndn_Data option"
  lp_fragment :: bytes
  lp_wire :: "Block option"

definition NewIDLEPacket :: lpv2_Packet where
  "NewIDLEPacket = \<lparr>lp_sequence = None, lp_fragIndex = None, lp_fragCount = None, lp_pitToken = [], lp_nextHopFaceID = None,
     lp_incomingFaceID = None, lp_cachePolicyType = None, lp_congestionMark = None, lp_txSequence = None, lp_acks = [],
     lp_nonDiscovery = False, lp_prefixAnnouncement = None, lp_fragment = [], lp_wire = None\<rparr>"

definition NewPacket :: "bytes \<Rightarrow> lpv2_Packet" where
  "NewPacket fragment = NewIDLEPacket\<lparr>lp_fragment := fragment\<rparr>"

definition lp_elem :: "Block \<Rightarrow> lpv2_Packet \<Rightarrow> (Block \<times> lpv2_Packet) fallible" where
  "lp_elem elem p =
     (if b_type elem = T_Fragment then ret (elem, p\<lparr>lp_fragment := b_value elem\<rparr>)
      else if b_type elem = T_Sequence then
        ebind (nni_elem (ErrText ''unable to decode Sequence'') elem) (\<lambda>v. ret (elem, p\<lparr>lp_sequence := Some v\<rparr>))
      else if b_type elem = T_FragIndex then
        ebind (nni_elem (ErrText ''unable to decode FragIndex'') elem) (\<lambda>v. ret (elem, p\<lparr>lp_fragIndex := Some v\<rparr>))
      else if b_type elem = T_FragCount then
        ebind (nni_elem (ErrText ''unable to decode FragCount'') elem) (\<lambda>v. ret (elem, p\<lparr>lp_fragCount := Some v\<rparr>))
      else if b_type elem = T_PitToken then ret (elem, p\<lparr>lp_pitToken := b_value elem\<rparr>)
      else if b_type elem = T_IncomingFaceID then
        ebind (nni_elem (ErrText ''unable to decode IncomingFaceID'') elem) (\<lambda>v. ret (elem, p\<lparr>lp_incomingFaceID := Some v\<rparr>))
      else if b_type elem = T_NextHopFaceID then
        ebind (nni_elem (ErrText ''unable to decode NextHopFaceID'') elem) (\<lambda>v. ret (elem, p\<lparr>lp_nextHopFaceID := Some v\<rparr>))
      else if b_type elem = T_CachePolicy then
        rbind (blk_Parse elem) (\<lambda>(elem, e).
          guard (e \<noteq> None) (ErrText ''unable to decode CachePolicy'')
           (case blk_Find T_CachePolicyType elem of
              None \<Rightarrow> fail (ErrText ''CachePolicy element does not contain CachePolicyType'')
            | Some c \<Rightarrow> ebind (nni_elem (ErrText ''unable to decode CachePolicyType'') c) (\<lambda>v.
                ret (elem, p\<lparr>lp_cachePolicyType := Some v\<rparr>))))
      else if b_type elem = T_CongestionMark then
        ebind (nni_elem (ErrText ''unable to decode CongestionMark'') elem) (\<lambda>v. ret (elem, p\<lparr>lp_congestionMark := Some v\<rparr>))
      else if b_type elem = T_Ack then
        ebind (nni_elem (ErrText ''unable to decode Ack'') elem) (\<lambda>v. ret (elem, p\<lparr>lp_acks := lp_acks p @ [v]\<rparr>))
      else if b_type elem = T_TxSequence then
        ebind (nni_elem (ErrText ''unable to decode TxSequence'') elem) (\<lambda>v. ret (elem, p\<lparr>lp_txSequence := Some v\<rparr>))
      else if b_type elem = T_NonDiscovery then ret (elem, p\<lparr>lp_nonDiscovery := True\<rparr>)
      else if b_type elem = T_PrefixAnnouncement then
        rbind (blk_Parse elem) (\<lambda>(elem, e).
          guard (e \<noteq> None) (ErrText ''unable to parse PrefixAnnouncement'')
           (case find_index (\<lambda>b. b_type b = T_Data) (b_subs elem) of
              None \<Rightarrow> fail (ErrText ''PrefixAnnouncement does not contain Data'')
            | Some k \<Rightarrow>
                ebind (with_error (ErrText ''unable to decode PrefixAnnouncement'') (DecodeData (Some (b_subs elem ! k)) False)) (\<lambda>pa.
                  ret (case d_wire pa of Some b \<Rightarrow> set_sub k b elem | None \<Rightarrow> elem, p\<lparr>lp_prefixAnnouncement := Some pa\<rparr>))))
      else if b_type elem = T_Nack then ret (elem, p)
      else guard (lp_IsCritical (b_type elem)) ErrUnrecognizedCritical (ret (elem, p)))"

definition DecodePacket :: "Block option \<Rightarrow> lpv2_Packet fallible" where
  "DecodePacket wire =
     (case wire of
        None \<Rightarrow> fail (ErrText ''wire is unset'')
      | Some b \<Rightarrow>
          if b_type b \<noteq> T_LpPacket then ret (NewIDLEPacket\<lparr>lp_fragment := fst (blk_Wire b)\<rparr>)
          else rbind (blk_Parse b) (\<lambda>(b, e).
            guard (e \<noteq> None) (ErrText ''unable to decode LpPacket'')
             (ebind (each_elem lp_elem (b_subs b) NewIDLEPacket) (\<lambda>(subs, p). ret (p\<lparr>lp_wire := Some (set_subs subs b)\<rparr>)))))"

text \<open>The two variants without copying: on values they are the same functions.\<close>

definition NewPacketNoCopy :: "bytes \<Rightarrow> lpv2_Packet" where
  "NewPacketNoCopy fragment = NewIDLEPacket\<lparr>lp_fragment := fragment\<rparr>"

definition DecodePacketNoCopy :: "Block option \<Rightarrow> lpv2_Packet fallible" where
  "DecodePacketNoCopy wire = DecodePacket wire"

definition IsBare :: "lpv2_Packet \<Rightarrow> bool" where
  "IsBare p \<longleftrightarrow> lp_sequence p = None \<and> lp_fragIndex p = None \<and> lp_fragCount p = None \<and>
     length (lp_pitToken p) = 0 \<and> lp_nextHopFaceID p = None \<and> lp_incomingFaceID p = None \<and>
     lp_cachePolicyType p = None \<and> lp_congestionMark p = None \<and> lp_txSequence p = None \<and>
     length (lp_acks p) = 0 \<and> \<not> lp_nonDiscovery p \<and> lp_prefixAnnouncement p = None \<and> lp_prefixAnnouncement p \<noteq> None"

definition IsIdle :: "lpv2_Packet \<Rightarrow> bool" where
  "IsIdle p \<longleftrightarrow> length (lp_fragment p) = 0"

definition lp_SetSequence :: "u64 \<Rightarrow> lpv2_Packet \<Rightarrow> lpv2_Packet" where
  "lp_SetSequence v p = p\<lparr>lp_sequence := Some v, lp_wire := None\<rparr>"

definition lp_SetFragIndex :: "u64 \<Rightarrow> lpv2_Packet \<Rightarrow> lpv2_Packet" where
  "lp_SetFragIndex v p = p\<lparr>lp_fragIndex := Some v, lp_wire := None\<rparr>"

definition lp_SetFragCount :: "u64 \<Rightarrow> lpv2_Packet \<Rightarrow> lpv2_Packet" where
  "lp_SetFragCount v p = p\<lparr>lp_fragCount := Some v, lp_wire := None\<rparr>"

definition lp_SetPitToken :: "bytes \<Rightarrow> lpv2_Packet \<Rightarrow> lpv2_Packet" where
  "lp_SetPitToken v p = p\<lparr>lp_pitToken := v, lp_wire := None\<rparr>"

definition lp_SetNextHopFaceID :: "u64 \<Rightarrow> lpv2_Packet \<Rightarrow> lpv2_Packet" where
  "lp_SetNextHopFaceID v p = p\<lparr>lp_nextHopFaceID := Some v, lp_wire := None\<rparr>"

definition lp_SetIncomingFaceID :: "u64 \<Rightarrow> lpv2_Packet \<Rightarrow> lpv2_Packet" where
  "lp_SetIncomingFaceID v p = p\<lparr>lp_incomingFaceID := Some v, lp_wire := None\<rparr>"

definition lp_SetCachePolicytype :: "u64 \<Rightarrow> lpv2_Packet \<Rightarrow> lpv2_Packet" where
  "lp_SetCachePolicytype v p = p\<lparr>lp_cachePolicyType := Some v, lp_wire := None\<rparr>"

definition lp_SetCongestionMark :: "u64 \<Rightarrow> lpv2_Packet \<Rightarrow> lpv2_Packet" where
  "lp_SetCongestionMark v p = p\<lparr>lp_congestionMark := Some v, lp_wire := None\<rparr>"

definition lp_SetTxSequence :: "u64 \<Rightarrow> lpv2_Packet \<Rightarrow> lpv2_Packet" where
  "lp_SetTxSequence v p = p\<lparr>lp_txSequence := Some v, lp_wire := None\<rparr>"

definition lp_AppendAck :: "u64 \<Rightarrow> lpv2_Packet \<Rightarrow> lpv2_Packet" where
  "lp_AppendAck a p = p\<lparr>lp_acks := lp_acks p @ [a], lp_wire := None\<rparr>"

definition lp_ClearAcks :: "lpv2_Packet \<Rightarrow> lpv2_Packet" where
  "lp_ClearAcks p = p\<lparr>lp_acks := [], lp_wire := None\<rparr>"

definition lp_SetNonDiscovery :: "bool \<Rightarrow> lpv2_Packet \<Rightarrow> lpv2_Packet" where
  "lp_SetNonDiscovery v p = p\<lparr>lp_nonDiscovery := v, lp_wire := None\<rparr>"

definition lp_SetPrefixAnnouncement :: "ndn_Data option \<Rightarrow> lpv2_Packet \<Rightarrow> lpv2_Packet" where
  "lp_SetPrefixAnnouncement v p = p\<lparr>lp_prefixAnnouncement := v, lp_wire := None\<rparr>"

definition lp_SetFragment :: "bytes \<Rightarrow> lpv2_Packet \<Rightarrow> lpv2_Packet" where
  "lp_SetFragment v p = p\<lparr>lp_fragment := v, lp_wire := None\<rparr>"

text \<open>
  When the prefix announcement does not encode, the packet keeps the elements written before it as
  its wire.
\<close>

definition lp_Encode :: "lpv2_Packet \<Rightarrow> ((ndn_error + Block) \<times> lpv2_Packet) result" where
  "lp_Encode p =
     (case lp_wire p of
        Some w \<Rightarrow> (let w = snd (blk_Wire w) in Inr (Inr w, p\<lparr>lp_wire := Some w\<rparr>))
      | None \<Rightarrow>
          let w = NewEmptyBlock T_LpPacket;
              w = append_opt (EncodeNNIBlock T_Sequence) (lp_sequence p) w;
              w = append_opt (EncodeNNIBlock T_FragIndex) (lp_fragIndex p) w;
              w = append_opt (EncodeNNIBlock T_FragCount) (lp_fragCount p) w;
              w = (if length (lp_pitToken p) > 0 then blk_Append (NewBlock T_PitToken (lp_pitToken p)) w else w);
              w = append_opt (EncodeNNIBlock T_IncomingFaceID) (lp_incomingFaceID p) w;
              w = append_opt (EncodeNNIBlock T_NextHopFaceID) (lp_nextHopFaceID p) w;
              w = append_opt (\<lambda>c. NewBlock T_CachePolicy (fst (blk_Wire (EncodeNNIBlock T_CachePolicyType c)))) (lp_cachePolicyType p) w;
              w = append_opt (EncodeNNIBlock T_CongestionMark) (lp_congestionMark p) w;
              w = append_opt (EncodeNNIBlock T_TxSequence) (lp_txSequence p) w;
              w = fold (\<lambda>a b. blk_Append (EncodeNNIBlock T_Ack a) b) (lp_acks p) w;
              w = (if lp_nonDiscovery p then blk_Append (NewEmptyBlock T_NonDiscovery) w else w)
          in rbind
              (case lp_prefixAnnouncement p of
                 None \<Rightarrow> Inr (None, w, p)
               | Some d \<Rightarrow> rbind (data_Encode d) (\<lambda>(r, d).
                   case r of
                     Inl e \<Rightarrow> Inr (Some (ErrText ''unable to encode PrefixAnnouncement''), w, p\<lparr>lp_prefixAnnouncement := Some d\<rparr>)
                   | Inr b \<Rightarrow> Inr (None, blk_Append (NewBlock T_PrefixAnnouncement (fst (blk_Wire b))) w,
                       p\<lparr>lp_prefixAnnouncement := Some d\<rparr>)))
              (\<lambda>(err, w, p).
                case err of
                  Some e \<Rightarrow> Inr (Inl e, p\<lparr>lp_wire := Some w\<rparr>)
                | None \<Rightarrow>
                    let w = (if length (lp_fragment p) > 0 then blk_Append (NewBlock T_Fragment (lp_fragment p)) w else w);
                        w = snd (blk_Wire w)
                    in Inr (Inr w, p\<lparr>lp_wire := Some w\<rparr>)))"

end
