(* ===== verification/Lp_Codec_Spec.thy ===== *)
theory Lp_Codec_Spec
  imports Data_Spec Lp_Codec
begin

text \<open>
  What link-layer packets encode to and how they are decoded, the prefix announcement they may
  carry included.
\<close>

text \<open>The items of the prefix announcement: those of its Data packet, with the signature.\<close>

definition announcement :: "lpv2_Packet \<Rightarrow> tlv_item list option \<Rightarrow> bool" where
  "announcement p xs \<longleftrightarrow>
     (case lp_prefixAnnouncement p of
        None \<Rightarrow> xs = None
      | Some d \<Rightarrow> \<exists>n m si s. good_data n m si d \<and> Sign (si_signatureType si) (tlvs (signed_items n m (d_content d) si)) = Inr s
          \<and> xs = Some (signed_items n m (d_content d) si @ [(T_SignatureValue, s)]))"

definition lp_items :: "lpv2_Packet \<Rightarrow> tlv_item list option \<Rightarrow> tlv_item list" where
  "lp_items p xs =
     (((((((((((([] @ opt_item T_Sequence EncodeNNI (lp_sequence p))
       @ opt_item T_FragIndex EncodeNNI (lp_fragIndex p))
       @ opt_item T_FragCount EncodeNNI (lp_fragCount p))
       @ (if length (lp_pitToken p) > 0 then [(T_PitToken, lp_pitToken p)] else []))
       @ opt_item T_IncomingFaceID EncodeNNI (lp_incomingFaceID p))
       @ opt_item T_NextHopFaceID EncodeNNI (lp_nextHopFaceID p))
       @ opt_item T_CachePolicy (\<lambda>c. tlvs [(T_CachePolicyType, EncodeNNI c)]) (lp_cachePolicyType p))
       @ opt_item T_CongestionMark EncodeNNI (lp_congestionMark p))
       @ opt_item T_TxSequence EncodeNNI (lp_txSequence p))
       @ map (\<lambda>a. (T_Ack, EncodeNNI a)) (lp_acks p))
       @ (if lp_nonDiscovery p then [(T_NonDiscovery, [])] else []))
       @ opt_item T_PrefixAnnouncement (\<lambda>ys. tlvs [(T_Data, tlvs ys)]) xs)
       @ (if length (lp_fragment p) > 0 then [(T_Fragment, lp_fragment p)] else [])"

definition lp_view :: "lpv2_Packet \<Rightarrow> lpv2_Packet \<times> ((u16 \<times> bytes) list option \<times> (u64 option \<times> int option \<times> (u16 \<times> bytes) option) \<times> bytes \<times> u64 option) option" where
  "lp_view p = (p\<lparr>lp_prefixAnnouncement := None, lp_wire := None\<rparr>, map_option data_view (lp_prefixAnnouncement p))"

lemma lp_Encode_writes:
  assumes "lp_wire p = None" "announcement p xs"
  shows "\<exists>w p'. lp_Encode p = Inr (Inr w, p') \<and> writes w (T_LpPacket, tlvs (lp_items p xs)) \<and> b_wire w \<noteq> []"
proof -
  let ?w1 = "append_opt (EncodeNNIBlock T_FragCount) (lp_fragCount p) (append_opt (EncodeNNIBlock T_FragIndex) (lp_fragIndex p)
      (append_opt (EncodeNNIBlock T_Sequence) (lp_sequence p) (NewEmptyBlock T_LpPacket)))"
  let ?w2 = "if length (lp_pitToken p) > 0 then blk_Append (NewBlock T_PitToken (lp_pitToken p)) ?w1 else ?w1"
  let ?w3 = "append_opt (EncodeNNIBlock T_NextHopFaceID) (lp_nextHopFaceID p) (append_opt (EncodeNNIBlock T_IncomingFaceID) (lp_incomingFaceID p) ?w2)"
  let ?w4 = "append_opt (\<lambda>c. NewBlock T_CachePolicy (fst (blk_Wire (EncodeNNIBlock T_CachePolicyType c)))) (lp_cachePolicyType p) ?w3"
  let ?w5 = "append_opt (EncodeNNIBlock T_TxSequence) (lp_txSequence p) (append_opt (EncodeNNIBlock T_CongestionMark) (lp_congestionMark p) ?w4)"
  let ?w6 = "fold (\<lambda>a b. blk_Append (EncodeNNIBlock T_Ack a) b) (lp_acks p) ?w5"
  let ?w7 = "if lp_nonDiscovery p then blk_Append (NewEmptyBlock T_NonDiscovery) ?w6 else ?w6"
  have cp: "writes (NewBlock T_CachePolicy (fst (blk_Wire (EncodeNNIBlock T_CachePolicyType c)))) (T_CachePolicy, tlvs [(T_CachePolicyType, EncodeNNI c)])" for c
    using writes_nni[of T_CachePolicyType c] writes_value(1)[of T_CachePolicy] by (simp add: writes_def)
  have acks: "list_all2 (\<lambda>a. writes (EncodeNNIBlock T_Ack a)) as (map (\<lambda>a. (T_Ack, EncodeNNI a)) as)" for as
    by (induction as) (simp_all add: writes_nni)
  let ?zs = "lp_items (p\<lparr>lp_fragment := []\<rparr>) None"
  have w7: "builds ?w7 T_LpPacket ?zs"
  proof -
    have eq: "(((((((((((([] @ opt_item T_Sequence EncodeNNI (lp_sequence p))
       @ opt_item T_FragIndex EncodeNNI (lp_fragIndex p)) @ opt_item T_FragCount EncodeNNI (lp_fragCount p))
       @ (if length (lp_pitToken p) > 0 then [(T_PitToken, lp_pitToken p)] else []))
       @ opt_item T_IncomingFaceID EncodeNNI (lp_incomingFaceID p)) @ opt_item T_NextHopFaceID EncodeNNI (lp_nextHopFaceID p))
       @ opt_item T_CachePolicy (\<lambda>c. tlvs [(T_CachePolicyType, EncodeNNI c)]) (lp_cachePolicyType p))
       @ opt_item T_CongestionMark EncodeNNI (lp_congestionMark p)) @ opt_item T_TxSequence EncodeNNI (lp_txSequence p))
       @ map (\<lambda>a. (T_Ack, EncodeNNI a)) (lp_acks p)) @ (if lp_nonDiscovery p then [(T_NonDiscovery, [])] else []))) = ?zs"
      by (simp add: lp_items_def)
    have "builds ?w7 T_LpPacket (((((((((((([] @ opt_item T_Sequence EncodeNNI (lp_sequence p))
       @ opt_item T_FragIndex EncodeNNI (lp_fragIndex p)) @ opt_item T_FragCount EncodeNNI (lp_fragCount p))
       @ (if length (lp_pitToken p) > 0 then [(T_PitToken, lp_pitToken p)] else []))
       @ opt_item T_IncomingFaceID EncodeNNI (lp_incomingFaceID p)) @ opt_item T_NextHopFaceID EncodeNNI (lp_nextHopFaceID p))
       @ opt_item T_CachePolicy (\<lambda>c. tlvs [(T_CachePolicyType, EncodeNNI c)]) (lp_cachePolicyType p))
       @ opt_item T_CongestionMark EncodeNNI (lp_congestionMark p)) @ opt_item T_TxSequence EncodeNNI (lp_txSequence p))
       @ map (\<lambda>a. (T_Ack, EncodeNNI a)) (lp_acks p)) @ (if lp_nonDiscovery p then [(T_NonDiscovery, [])] else [])))"
      by (intro builds_fold builds_opt builds_if builds_empty writes_nni writes_value cp acks)
    then show ?thesis unfolding eq .
  qed
  let ?rest = "\<lambda>w. if length (lp_fragment p) > 0 then blk_Append (NewBlock T_Fragment (lp_fragment p)) w else w"
  obtain w8 q where w8: "builds w8 T_LpPacket (?zs @ opt_item T_PrefixAnnouncement (\<lambda>ys. tlvs [(T_Data, tlvs ys)]) xs)"
    and eq: "lp_Encode p = Inr (Inr (snd (blk_Wire (?rest w8))), q\<lparr>lp_wire := Some (snd (blk_Wire (?rest w8)))\<rparr>)"
  proof (cases "lp_prefixAnnouncement p")
    case None
    then have "xs = None" using assms(2) by (simp add: announcement_def)
    moreover have "lp_Encode p = Inr (Inr (snd (blk_Wire (?rest ?w7))), p\<lparr>lp_wire := Some (snd (blk_Wire (?rest ?w7)))\<rparr>)"
      by (simp add: lp_Encode_def assms(1) None Let_def)
    ultimately show thesis using that w7 by auto
  next
    case (Some d)
    then obtain n m si s where g: "good_data n m si d" and s: "Sign (si_signatureType si) (tlvs (signed_items n m (d_content d) si)) = Inr s"
      and xs: "xs = Some (signed_items n m (d_content d) si @ [(T_SignatureValue, s)])"
      using assms(2) by (auto simp: announcement_def)
    obtain b d' where b: "data_Encode d = Inr (Inr b, d')" "writes b (T_Data, tlvs (signed_items n m (d_content d) si @ [(T_SignatureValue, s)]))"
      using data_Encode_writes[OF g] s by auto
    let ?w8 = "blk_Append (NewBlock T_PrefixAnnouncement (fst (blk_Wire b))) ?w7"
    have "writes (NewBlock T_PrefixAnnouncement (fst (blk_Wire b))) (T_PrefixAnnouncement, tlvs [(T_Data, tlvs (signed_items n m (d_content d) si @ [(T_SignatureValue, s)]))])"
      using b(2) writes_value(1)[of T_PrefixAnnouncement "fst (blk_Wire b)"] by (simp add: writes_def)
    then have "builds ?w8 T_LpPacket (?zs @ opt_item T_PrefixAnnouncement (\<lambda>ys. tlvs [(T_Data, tlvs ys)]) xs)"
      unfolding xs opt_item_simps by (rule builds_append[OF w7])
    moreover have "lp_Encode p = Inr (Inr (snd (blk_Wire (?rest ?w8))), (p\<lparr>lp_prefixAnnouncement := Some d'\<rparr>)\<lparr>lp_wire := Some (snd (blk_Wire (?rest ?w8)))\<rparr>)"
      by (simp add: lp_Encode_def assms(1) Some b(1) Let_def)
    ultimately show thesis using that by blast
  qed
  have items: "(?zs @ opt_item T_PrefixAnnouncement (\<lambda>ys. tlvs [(T_Data, tlvs ys)]) xs)
      @ (if length (lp_fragment p) > 0 then [(T_Fragment, lp_fragment p)] else []) = lp_items p xs"
    by (simp add: lp_items_def opt_item_simps)
  have "builds (?rest w8) T_LpPacket (lp_items p xs)"
    unfolding items[symmetric] by (intro builds_if w8 writes_value)
  then have "writes (snd (blk_Wire (?rest w8))) (T_LpPacket, tlvs (lp_items p xs))" by (simp add: builds_done)
  moreover from this have "b_wire (snd (blk_Wire (?rest w8))) \<noteq> []" by (simp add: writes_wire)
  ultimately show ?thesis using eq by blast
qed

lemma announcement_read:
  assumes "announcement p (Some ys)" "length (tlvs [(T_Data, tlvs ys)]) < 2 ^ 63"
  shows "\<exists>d. reads lp_elem [(T_PrefixAnnouncement, tlvs [(T_Data, tlvs ys)])] q (q\<lparr>lp_prefixAnnouncement := Some d\<rparr>)
    \<and> Some (data_view d) = map_option data_view (lp_prefixAnnouncement p)"
proof -
  obtain d0 n m si s where p: "lp_prefixAnnouncement p = Some d0" "good_data n m si d0" "ys = signed_items n m (d_content d0) si @ [(T_SignatureValue, s)]"
    using assms(1) by (auto simp: announcement_def split: option.splits)
  have g: "good_name n" "good_metainfo m" "si_type si = T_SignatureInfo" "data_view d0 = (Some (keys n), mi_view m, d_content d0, Some (si_signatureType si))"
    using p(2) by (simp_all add: good_data_def si_type_def data_view_def)
  have ly: "length (tlvs ys) < 2 ^ 63" using assms(2) tlv_length[of ys T_Data] by simp
  then have "length (tlvs (signed_items n m (d_content d0) si)) < 2 ^ 63" using p(3) by simp
  from data_reads[OF g(1-3) this, of s False] obtain d where d: "reads data_elem ys (0, empty_data\<lparr>d_shouldValidateSignature := False\<rparr>) (5, d)"
      "data_view d = data_view d0" "d_sigValue d = Some s" "d_name d \<noteq> None" "d_sigInfo d \<noteq> None"
    unfolding p(3) g(4) by blast
  from DecodeData_reads[OF d(1) ly d(4,5)] d(3) obtain b where b: "DecodeData (Some (parsed (T_Data, tlvs ys))) False = ret (d\<lparr>d_wire := Some b\<rparr>)"
    by auto
  let ?it = "(T_PrefixAnnouncement, tlvs [(T_Data, tlvs ys)]) :: tlv_item"
  let ?e = "set_sub 0 b (set_subs (map parsed [(T_Data, tlvs ys)]) (parsed ?it))"
  have "reads lp_elem [?it] q (q\<lparr>lp_prefixAnnouncement := Some (d\<lparr>d_wire := Some b\<rparr>)\<rparr>)"
  proof (rule reads_one[where b = ?e])
    show "lp_elem (parsed ?it) q = ret (?e, q\<lparr>lp_prefixAnnouncement := Some (d\<lparr>d_wire := Some b\<rparr>)\<rparr>)"
      by (simp add: lp_elem_def parse_parsed(3)[OF assms(2)] del: tlvs_simps) (simp add: set_subs_def b)
  qed (simp_all add: set_sub_def set_subs_def)
  moreover have "data_view (d\<lparr>d_wire := Some b\<rparr>) = data_view d0" using d(2) by (simp add: data_view_def)
  ultimately show ?thesis using p(1) by (intro exI[of _ "d\<lparr>d_wire := Some b\<rparr>"]) simp
qed

lemma acks_read: "reads lp_elem (map (\<lambda>a. (T_Ack, EncodeNNI a)) as) p (p\<lparr>lp_acks := lp_acks p @ as\<rparr>)"
proof (induction as arbitrary: p)
  case Nil
  have "p\<lparr>lp_acks := lp_acks p\<rparr> = p" by (cases p) simp
  then show ?case by (simp add: reads_Nil)
next
  case (Cons a as)
  have 1: "reads lp_elem [(T_Ack, EncodeNNI a)] p (p\<lparr>lp_acks := lp_acks p @ [a]\<rparr>)"
    by (rule reads_one[where b = "parsed (T_Ack, EncodeNNI a)"]) (simp_all add: lp_elem_def)
  show ?case using reads_append[OF 1 Cons.IH] by simp
qed

lemma lp_reads:
  assumes "announcement p xs" "length (tlvs (lp_items p xs)) < 2 ^ 63"
  shows "\<exists>q. reads lp_elem (lp_items p xs) NewIDLEPacket q \<and> lp_view q = lp_view p"
proof -
  let ?p1 = "NewIDLEPacket\<lparr>lp_sequence := lp_sequence p\<rparr>"
  have 1: "reads lp_elem ([] @ opt_item T_Sequence EncodeNNI (lp_sequence p)) NewIDLEPacket ?p1"
    by (simp, rule reads_opt) (auto intro!: reads_one simp: lp_elem_def NewIDLEPacket_def)
  let ?p2 = "?p1\<lparr>lp_fragIndex := lp_fragIndex p\<rparr>"
  have 2: "reads lp_elem (opt_item T_FragIndex EncodeNNI (lp_fragIndex p)) ?p1 ?p2"
    by (rule reads_opt) (auto intro!: reads_one simp: lp_elem_def NewIDLEPacket_def)
  let ?p3 = "?p2\<lparr>lp_fragCount := lp_fragCount p\<rparr>"
  have 3: "reads lp_elem (opt_item T_FragCount EncodeNNI (lp_fragCount p)) ?p2 ?p3"
    by (rule reads_opt) (auto intro!: reads_one simp: lp_elem_def NewIDLEPacket_def)
  let ?p4 = "?p3\<lparr>lp_pitToken := lp_pitToken p\<rparr>"
  have 4: "reads lp_elem (if length (lp_pitToken p) > 0 then [(T_PitToken, lp_pitToken p)] else []) ?p3 ?p4"
    by (auto intro!: reads_one reads_Nil simp: lp_elem_def NewIDLEPacket_def)
  let ?p5 = "?p4\<lparr>lp_incomingFaceID := lp_incomingFaceID p\<rparr>"
  have 5: "reads lp_elem (opt_item T_IncomingFaceID EncodeNNI (lp_incomingFaceID p)) ?p4 ?p5"
    by (rule reads_opt) (auto intro!: reads_one simp: lp_elem_def NewIDLEPacket_def)
  let ?p6 = "?p5\<lparr>lp_nextHopFaceID := lp_nextHopFaceID p\<rparr>"
  have 6: "reads lp_elem (opt_item T_NextHopFaceID EncodeNNI (lp_nextHopFaceID p)) ?p5 ?p6"
    by (rule reads_opt) (auto intro!: reads_one simp: lp_elem_def NewIDLEPacket_def)
  let ?p7 = "?p6\<lparr>lp_cachePolicyType := lp_cachePolicyType p\<rparr>"
  have 7: "reads lp_elem (opt_item T_CachePolicy (\<lambda>c. tlvs [(T_CachePolicyType, EncodeNNI c)]) (lp_cachePolicyType p)) ?p6 ?p7"
  proof (rule reads_opt)
    fix v assume v: "lp_cachePolicyType p = Some v"
    let ?C = "(T_CachePolicyType, EncodeNNI v) :: tlv_item"
    have "length (tlvs [?C]) < 2 ^ 63" using tlv_length_le[of T_CachePolicyType "EncodeNNI v"] EncodeNNI_length[of v] by (simp split: if_splits)
    note pp = parse_parsed(3)[OF this, of T_CachePolicy]
    show "reads lp_elem [(T_CachePolicy, tlvs [?C])] ?p6 ?p7"
      by (rule reads_one[where b = "set_subs (map parsed [?C]) (parsed (T_CachePolicy, tlvs [?C]))"])
        (simp_all add: lp_elem_def pp v NewIDLEPacket_def set_subs_def blk_Find_def del: tlvs_simps)
  qed (simp add: NewIDLEPacket_def)
  let ?p8 = "?p7\<lparr>lp_congestionMark := lp_congestionMark p\<rparr>"
  have 8: "reads lp_elem (opt_item T_CongestionMark EncodeNNI (lp_congestionMark p)) ?p7 ?p8"
    by (rule reads_opt) (auto intro!: reads_one simp: lp_elem_def NewIDLEPacket_def)
  let ?p9 = "?p8\<lparr>lp_txSequence := lp_txSequence p\<rparr>"
  have 9: "reads lp_elem (opt_item T_TxSequence EncodeNNI (lp_txSequence p)) ?p8 ?p9"
    by (rule reads_opt) (auto intro!: reads_one simp: lp_elem_def NewIDLEPacket_def)
  let ?p10 = "?p9\<lparr>lp_acks := lp_acks p\<rparr>"
  have 10: "reads lp_elem (map (\<lambda>a. (T_Ack, EncodeNNI a)) (lp_acks p)) ?p9 ?p10"
    using acks_read[of "lp_acks p" ?p9] by (simp add: NewIDLEPacket_def)
  let ?p11 = "?p10\<lparr>lp_nonDiscovery := lp_nonDiscovery p\<rparr>"
  have 11: "reads lp_elem (if lp_nonDiscovery p then [(T_NonDiscovery, [])] else []) ?p10 ?p11"
    by (auto intro!: reads_one reads_Nil simp: lp_elem_def NewIDLEPacket_def)
  obtain pa where 12: "reads lp_elem (opt_item T_PrefixAnnouncement (\<lambda>ys. tlvs [(T_Data, tlvs ys)]) xs) ?p11 (?p11\<lparr>lp_prefixAnnouncement := pa\<rparr>)"
      "map_option data_view pa = map_option data_view (lp_prefixAnnouncement p)"
  proof (cases xs)
    case None
    then have "lp_prefixAnnouncement p = None" using assms(1) by (auto simp: announcement_def split: option.splits)
    then show thesis using None that[of None] by (simp add: reads_Nil NewIDLEPacket_def)
  next
    case (Some ys)
    have "length (tlv (T_PrefixAnnouncement, tlvs [(T_Data, tlvs ys)])) \<le> length (tlvs (lp_items p xs))"
      by (simp add: lp_items_def Some)
    then have "length (tlvs [(T_Data, tlvs ys)]) < 2 ^ 63" using assms(2) tlv_length[of "[(T_Data, tlvs ys)]" T_PrefixAnnouncement] by linarith
    from announcement_read[OF assms(1)[unfolded Some] this, of ?p11] obtain d where
      "reads lp_elem [(T_PrefixAnnouncement, tlvs [(T_Data, tlvs ys)])] ?p11 (?p11\<lparr>lp_prefixAnnouncement := Some d\<rparr>)"
      "Some (data_view d) = map_option data_view (lp_prefixAnnouncement p)" by blast
    then show thesis by (intro that[of "Some d"]) (simp_all only: Some opt_item_simps option.map)
  qed
  let ?q = "?p11\<lparr>lp_prefixAnnouncement := pa, lp_fragment := lp_fragment p\<rparr>"
  have 13: "reads lp_elem (if length (lp_fragment p) > 0 then [(T_Fragment, lp_fragment p)] else []) (?p11\<lparr>lp_prefixAnnouncement := pa\<rparr>) ?q"
    by (auto intro!: reads_one reads_Nil simp: lp_elem_def NewIDLEPacket_def)
  have "reads lp_elem (lp_items p xs) NewIDLEPacket ?q"
    unfolding lp_items_def
    by (rule reads_append[OF reads_append[OF reads_append[OF reads_append[OF reads_append[OF reads_append[OF reads_append[OF reads_append[OF
        reads_append[OF reads_append[OF reads_append[OF reads_append[OF 1 2] 3] 4] 5] 6] 7] 8] 9] 10] 11] 12(1)] 13])
  moreover have "lp_view ?q = lp_view p" using 12(2) by (cases p) (simp add: lp_view_def NewIDLEPacket_def)
  ultimately show ?thesis by blast
qed

text \<open>
  C25. A link-layer packet encodes, and decoding the wire yields the same fields, acknowledgements and
  fragment, and a prefix announcement with the same name, MetaInfo and content.
\<close>

theorem lp_packet_roundtrip:
  assumes "lp_wire p = None" "announcement p xs" "length (tlvs (lp_items p xs)) < 2 ^ 62"
  shows "\<exists>w p' b q. lp_Encode p = Inr (Inr w, p') \<and> DecodeBlock (b_wire w) = Inr (Inr (b, of_nat (length (b_wire w))))
    \<and> DecodePacket (Some b) = ret q \<and> lp_view q = lp_view p"
proof -
  let ?ys = "lp_items p xs"
  obtain w p' where w: "lp_Encode p = Inr (Inr w, p')" "writes w (T_LpPacket, tlvs ?ys)" "b_wire w \<noteq> []"
    using lp_Encode_writes[OF assms(1,2)] by blast
  let ?p = "parsed (T_LpPacket, tlvs ?ys)"
  have wire: "b_wire w = tlv (T_LpPacket, tlvs ?ys)" using w(2,3) by (simp add: writes_def Wire_cached)
  have len: "length (b_wire w) < 2 ^ 63" using assms(3) tlv_length_le[of T_LpPacket "tlvs ?ys"] by (simp add: wire)
  have l: "length (tlvs ?ys) < 2 ^ 63" using assms(3) by simp
  obtain q bs where q: "each_elem lp_elem (map parsed ?ys) NewIDLEPacket = ret (bs, q)" "lp_view q = lp_view p"
    using lp_reads[OF assms(2) l] unfolding reads_def by blast
  have "DecodePacket (Some ?p) = ret (q\<lparr>lp_wire := Some (set_subs bs (set_subs (map parsed ?ys) ?p))\<rparr>)"
    using q(1) by (simp add: DecodePacket_def parse_parsed(3)[OF l]) (simp add: set_subs_def)
  moreover have "lp_view (q\<lparr>lp_wire := v\<rparr>) = lp_view p" for v using q(2) by (simp add: lp_view_def)
  moreover have "DecodeBlock (b_wire w) = Inr (Inr (?p, of_nat (length (b_wire w))))"
    using DecodeBlock_tlv[of "(T_LpPacket, tlvs ?ys)"] len unfolding wire by blast
  ultimately show ?thesis using w(1) by blast
qed

definition toy_lp2 :: lpv2_Packet where
  "toy_lp2 = NewIDLEPacket\<lparr>lp_fragIndex := Some 300, lp_pitToken := [1, 2], lp_cachePolicyType := Some 1, lp_acks := [7, 8],
     lp_fragment := [5, 6]\<rparr>"

theorem lp_packet_roundtrip_witness:
  "\<exists>w p' b q. lp_Encode toy_lp2 = Inr (Inr w, p') \<and> DecodeBlock (b_wire w) = Inr (Inr (b, of_nat (length (b_wire w))))
    \<and> DecodePacket (Some b) = ret q \<and> lp_acks q = [7, 8] \<and> lp_fragment q = [5, 6] \<and> lp_cachePolicyType q = Some 1"
proof -
  have len: "length (tlv (t, v)) < 2 ^ 50" if "length v < 100" for t v
    using tlv_length_le[of t v] that by simp
  have nn: "length (EncodeNNI v) < 100" for v using EncodeNNI_length[of v] by simp
  have "length (tlvs [(T_CachePolicyType, EncodeNNI 1)]) < 100" using tlv_length_le[of T_CachePolicyType "EncodeNNI 1"] EncodeNNI_length[of 1] by simp
  from len[OF this, of T_CachePolicy] have "length (tlvs (lp_items toy_lp2 None)) < 2 ^ 62"
    using len[OF nn, of T_FragIndex 300] len[OF nn, of T_Ack 7] len[OF nn, of T_Ack 8] len[of "[1, 2]" T_PitToken] len[of "[5, 6]" T_Fragment]
    by (simp add: lp_items_def toy_lp2_def NewIDLEPacket_def)
  moreover have "lp_wire toy_lp2 = None" "announcement toy_lp2 None" by (simp_all add: toy_lp2_def NewIDLEPacket_def announcement_def)
  ultimately obtain w p' b q where
    "lp_Encode toy_lp2 = Inr (Inr w, p')" "DecodeBlock (b_wire w) = Inr (Inr (b, of_nat (length (b_wire w))))"
    "DecodePacket (Some b) = ret q" and v: "lp_view q = lp_view toy_lp2"
    using lp_packet_roundtrip[of toy_lp2 None] by blast
  moreover have "lp_acks q = [7, 8] \<and> lp_fragment q = [5, 6] \<and> lp_cachePolicyType q = Some 1"
    using v by (cases q) (simp add: lp_view_def toy_lp2_def NewIDLEPacket_def)
  ultimately show ?thesis by blast
qed

end
