(* ===== verification/Ndn_Mgmt.thy ===== *)
theory Ndn_Mgmt
  imports Ndn_Data Uri_Decode
begin

text \<open>
  The objects of the management protocol in \<^verbatim>\<open>src/ndn/mgmt\<close>: the parameters of commands and their
  responses, the filter of face queries, the entries of the status datasets and the segmentation of
  a dataset into Data packets. The TLV types are those of \<^verbatim>\<open>src/ndn/tlv/types_mgmt.go\<close>.

  An encoder never returns an error unless the code has a branch for it. Encoding a name or a
  block fills its cache, so the encoders return the object as they leave it.
\<close>

abbreviation "T_ControlParameters \<equiv> 0x68 :: u32"
abbreviation "T_FaceID \<equiv> 0x69 :: u32"
abbreviation "T_URI \<equiv> 0x72 :: u32"
abbreviation "T_LocalURI \<equiv> 0x81 :: u32"
abbreviation "T_Origin \<equiv> 0x6F :: u32"
abbreviation "T_Cost \<equiv> 0x6A :: u32"
abbreviation "T_Capacity \<equiv> 0x83 :: u32"
abbreviation "T_Count \<equiv> 0x84 :: u32"
abbreviation "T_BaseCongestionMarkingInterval \<equiv> 0x87 :: u32"
abbreviation "T_DefaultCongestionThreshold \<equiv> 0x88 :: u32"
abbreviation "T_MTU \<equiv> 0x89 :: u32"
abbreviation "T_Flags \<equiv> 0x6C :: u32"
abbreviation "T_Mask \<equiv> 0x70 :: u32"
abbreviation "T_Strategy \<equiv> 0x6B :: u32"
abbreviation "T_ControlResponse \<equiv> 0x65 :: u32"
abbreviation "T_StatusCode \<equiv> 0x66 :: u32"
abbreviation "T_StatusText \<equiv> 0x67 :: u32"
abbreviation "T_NfdVersion \<equiv> 0x80 :: u32"
abbreviation "T_StartTimestamp \<equiv> 0x81 :: u32"
abbreviation "T_CurrentTimestamp \<equiv> 0x82 :: u32"
abbreviation "T_NNameTreeEntries \<equiv> 0x83 :: u32"
abbreviation "T_NFibEntries \<equiv> 0x84 :: u32"
abbreviation "T_NPitEntries \<equiv> 0x85 :: u32"
abbreviation "T_NMeasurementEntries \<equiv> 0x86 :: u32"
abbreviation "T_NCsEntries \<equiv> 0x87 :: u32"
abbreviation "T_NInInterests \<equiv> 0x90 :: u32"
abbreviation "T_NInData \<equiv> 0x91 :: u32"
abbreviation "T_NInNacks \<equiv> 0x97 :: u32"
abbreviation "T_NOutInterests \<equiv> 0x92 :: u32"
abbreviation "T_NOutData \<equiv> 0x93 :: u32"
abbreviation "T_NOutNacks \<equiv> 0x98 :: u32"
abbreviation "T_NSatisfiedInterests \<equiv> 0x99 :: u32"
abbreviation "T_NUnsatisfiedInterests \<equiv> 0x9A :: u32"
abbreviation "T_FaceStatus \<equiv> 0x80 :: u32"
abbreviation "T_ChannelStatus \<equiv> 0x82 :: u32"
abbreviation "T_URIScheme \<equiv> 0x83 :: u32"
abbreviation "T_FaceScope \<equiv> 0x84 :: u32"
abbreviation "T_FacePersistency \<equiv> 0x85 :: u32"
abbreviation "T_LinkType \<equiv> 0x86 :: u32"
abbreviation "T_NInBytes \<equiv> 0x94 :: u32"
abbreviation "T_NOutBytes \<equiv> 0x95 :: u32"
abbreviation "T_FaceQueryFilter \<equiv> 0x96 :: u32"
abbreviation "T_FibEntry \<equiv> 0x80 :: u32"
abbreviation "T_NextHopRecord \<equiv> 0x81 :: u32"
abbreviation "T_CsInfo \<equiv> 0x80 :: u32"
abbreviation "T_NHits \<equiv> 0x81 :: u32"
abbreviation "T_NMisses \<equiv> 0x82 :: u32"
abbreviation "T_StrategyChoice \<equiv> 0x80 :: u32"
abbreviation "T_RibEntry \<equiv> 0x80 :: u32"
abbreviation "T_Route \<equiv> 0x81 :: u32"

text \<open>A number that may occur once: the decoders test that its field is not set, then decode it.\<close>

definition once_nni :: "'a option \<Rightarrow> string \<Rightarrow> string \<Rightarrow> Block \<Rightarrow> (u64 \<Rightarrow> 'c) \<Rightarrow> (Block \<times> 'c) fallible" where
  "once_nni field dup bad elem k =
     guard (field \<noteq> None) (ErrText dup) (ebind (nni_elem (ErrText bad) elem) (\<lambda>v. ret (elem, k v)))"

section \<open>ControlParameters\<close>

record ControlParameters =
  cp_Name :: "Name option"
  cp_FaceID :: "u64 option"
  cp_URI :: "URI option"
  cp_LocalURI :: "URI option"
  cp_Origin :: "u64 option"
  cp_Cost :: "u64 option"
  cp_Capacity :: "u64 option"
  cp_Count :: "u64 option"
  cp_BaseCongestionMarkingInterval :: "u64 option"
  cp_DefaultCongestionThreshold :: "u64 option"
  cp_MTU :: "u64 option"
  cp_Flags :: "u64 option"
  cp_Mask :: "u64 option"
  cp_Strategy :: "Name option"
  cp_ExpirationPeriod :: "u64 option"
  cp_FacePersistency :: "u64 option"

definition MakeControlParameters :: ControlParameters where
  "MakeControlParameters = \<lparr>cp_Name = None, cp_FaceID = None, cp_URI = None, cp_LocalURI = None, cp_Origin = None, cp_Cost = None,
     cp_Capacity = None, cp_Count = None, cp_BaseCongestionMarkingInterval = None, cp_DefaultCongestionThreshold = None,
     cp_MTU = None, cp_Flags = None, cp_Mask = None, cp_Strategy = None, cp_ExpirationPeriod = None, cp_FacePersistency = None\<rparr>"

text \<open>
  A URI that does not parse is the nil pointer and no error. Whether a DefaultCongestionThreshold is a
  duplicate is decided by the field of the face.
\<close>

definition cp_elem :: "host_api \<Rightarrow> Block \<Rightarrow> ControlParameters \<Rightarrow> (Block \<times> ControlParameters) fallible" where
  "cp_elem H elem c =
     (if b_type elem = T_Name then
        guard (cp_Name c \<noteq> None) (ErrText ''duplicate Name'')
         (ebind (with_error (ErrText ''unable to decode Name'') (decode_name_elem elem)) (\<lambda>(elem, n). ret (elem, c\<lparr>cp_Name := Some n\<rparr>)))
      else if b_type elem = T_FaceID then
        once_nni (cp_FaceID c) ''duplicate FaceId'' ''unable to decode FaceId'' elem (\<lambda>v. c\<lparr>cp_FaceID := Some v\<rparr>)
      else if b_type elem = T_URI then
        guard (cp_URI c \<noteq> None) (ErrText ''duplicate Uri'') (ret (elem, c\<lparr>cp_URI := DecodeURIString H (b_value elem)\<rparr>))
      else if b_type elem = T_LocalURI then
        guard (cp_LocalURI c \<noteq> None) (ErrText ''duplicate LocalUri'') (ret (elem, c\<lparr>cp_LocalURI := DecodeURIString H (b_value elem)\<rparr>))
      else if b_type elem = T_Origin then
        once_nni (cp_Origin c) ''duplicate Origin'' ''unable to decode Origin'' elem (\<lambda>v. c\<lparr>cp_Origin := Some v\<rparr>)
      else if b_type elem = T_Cost then
        once_nni (cp_Cost c) ''duplicate Cost'' ''unable to decode Cost'' elem (\<lambda>v. c\<lparr>cp_Cost := Some v\<rparr>)
      else if b_type elem = T_Capacity then
        once_nni (cp_Capacity c) ''duplicate FaceId'' ''unable to decode Capacity'' elem (\<lambda>v. c\<lparr>cp_Capacity := Some v\<rparr>)
      else if b_type elem = T_Count then
        once_nni (cp_Count c) ''duplicate Count'' ''unable to decode Count'' elem (\<lambda>v. c\<lparr>cp_Count := Some v\<rparr>)
      else if b_type elem = T_BaseCongestionMarkingInterval then
        once_nni (cp_BaseCongestionMarkingInterval c) ''duplicate BaseCongestionMarkingInterval''
          ''unable to decode BaseCongestionMarkingInterval'' elem (\<lambda>v. c\<lparr>cp_BaseCongestionMarkingInterval := Some v\<rparr>)
      else if b_type elem = T_DefaultCongestionThreshold then
        once_nni (cp_FaceID c) ''duplicate DefaultCongestionThreshold''
          ''unable to decode DefaultCongestionThreshold'' elem (\<lambda>v. c\<lparr>cp_DefaultCongestionThreshold := Some v\<rparr>)
      else if b_type elem = T_MTU then
        once_nni (cp_MTU c) ''duplicate Mtu'' ''Unable to decode Mtu'' elem (\<lambda>v. c\<lparr>cp_MTU := Some v\<rparr>)
      else if b_type elem = T_Flags then
        once_nni (cp_Flags c) ''duplicate Flags'' ''unable to decode Flags'' elem (\<lambda>v. c\<lparr>cp_Flags := Some v\<rparr>)
      else if b_type elem = T_Mask then
        once_nni (cp_Mask c) ''duplicate Mask'' ''unable to decode Mask'' elem (\<lambda>v. c\<lparr>cp_Mask := Some v\<rparr>)
      else if b_type elem = T_Strategy then
        guard (cp_Strategy c \<noteq> None) (ErrText ''duplicate Strategy'')
         (rbind (parse_always elem) (\<lambda>elem.
            guard (length (b_subs elem) \<noteq> 1) (ErrText ''unable to decode Strategy: Expecting one subelement'')
             (ebind (with_error (ErrText ''unable to decode Strategy'') (decode_name_elem (b_subs elem ! 0))) (\<lambda>(nb, n).
                ret (set_sub 0 nb elem, c\<lparr>cp_Strategy := Some n\<rparr>)))))
      else if b_type elem = T_ExpirationPeriod then
        once_nni (cp_ExpirationPeriod c) ''duplicate ExpirationPeriod'' ''unable to decode ExpirationPeriod'' elem
          (\<lambda>v. c\<lparr>cp_ExpirationPeriod := Some v\<rparr>)
      else if b_type elem = T_FacePersistency then
        once_nni (cp_FacePersistency c) ''duplicate FacePersistency'' ''unable to decode FacePersistency'' elem
          (\<lambda>v. c\<lparr>cp_FacePersistency := Some v\<rparr>)
      else guard (IsCritical (b_type elem)) ErrUnrecognizedCritical (ret (elem, c)))"

definition DecodeControlParameters :: "host_api \<Rightarrow> Block option \<Rightarrow> ControlParameters fallible" where
  "DecodeControlParameters H wire =
     (case wire of
        None \<Rightarrow> fail (ErrText ''wire is unset'')
      | Some b \<Rightarrow>
          guard (b_type b \<noteq> T_ControlParameters) ErrUnexpected
           (rbind (parse_always b) (\<lambda>b. ebind (each_elem (cp_elem H) (b_subs b) MakeControlParameters) (\<lambda>(_, c). ret c))))"

definition cp_Encode :: "ControlParameters \<Rightarrow> Block \<times> ControlParameters" where
  "cp_Encode c =
     (let w = NewEmptyBlock T_ControlParameters;
          w = append_opt (\<lambda>n. fst (name_Encode n)) (cp_Name c) w;
          w = append_opt (EncodeNNIBlock T_FaceID) (cp_FaceID c) w;
          w = append_opt (\<lambda>u. NewBlock T_URI (uri_String u)) (cp_URI c) w;
          w = append_opt (\<lambda>u. NewBlock T_LocalURI (uri_String u)) (cp_LocalURI c) w;
          w = append_opt (EncodeNNIBlock T_Origin) (cp_Origin c) w;
          w = append_opt (EncodeNNIBlock T_Cost) (cp_Cost c) w;
          w = append_opt (EncodeNNIBlock T_Capacity) (cp_Capacity c) w;
          w = append_opt (EncodeNNIBlock T_Count) (cp_Count c) w;
          w = append_opt (EncodeNNIBlock T_BaseCongestionMarkingInterval) (cp_BaseCongestionMarkingInterval c) w;
          w = append_opt (EncodeNNIBlock T_DefaultCongestionThreshold) (cp_DefaultCongestionThreshold c) w;
          w = append_opt (EncodeNNIBlock T_MTU) (cp_MTU c) w;
          w = append_opt (EncodeNNIBlock T_Flags) (cp_Flags c) w;
          w = append_opt (EncodeNNIBlock T_Mask) (cp_Mask c) w;
          w = append_opt (\<lambda>n. blk_Append (fst (name_Encode n)) (NewEmptyBlock T_Strategy)) (cp_Strategy c) w;
          w = append_opt (EncodeNNIBlock T_ExpirationPeriod) (cp_ExpirationPeriod c) w;
          w = append_opt (EncodeNNIBlock T_FacePersistency) (cp_FacePersistency c) w
      in (blk_Encode w, c\<lparr>cp_Name := map_option (\<lambda>n. snd (name_Encode n)) (cp_Name c),
            cp_Strategy := map_option (\<lambda>n. snd (name_Encode n)) (cp_Strategy c)\<rparr>))"

section \<open>ControlResponse\<close>

record ndn_ControlResponse =
  cr_StatusCode :: u64
  cr_StatusText :: gostring
  cr_Body :: "Block option"

definition MakeControlResponse :: "u64 \<Rightarrow> gostring \<Rightarrow> Block option \<Rightarrow> ndn_ControlResponse" where
  "MakeControlResponse statusCode statusText body = \<lparr>cr_StatusCode = statusCode, cr_StatusText = statusText, cr_Body = body\<rparr>"

text \<open>
  The loop stops at the first element that is neither a StatusCode nor a StatusText; the type of the
  response itself is not looked at. The flags say which of the two have been seen.
\<close>

fun cr_elems :: "Block list \<Rightarrow> bool \<times> bool \<times> ndn_ControlResponse \<Rightarrow> (bool \<times> bool \<times> ndn_ControlResponse) fallible" where
  "cr_elems [] st = ret st"
| "cr_elems (elem # elems) (hasStatusCode, hasStatusText, c) =
     (if b_type elem = T_StatusCode then
        guard hasStatusCode (ErrText ''duplicate StatusCode'')
         (ebind (nni_elem (ErrText ''unable to decode StatusCode'') elem) (\<lambda>v.
            cr_elems elems (True, hasStatusText, c\<lparr>cr_StatusCode := v\<rparr>)))
      else if b_type elem = T_StatusText then
        guard hasStatusText (ErrText ''duplicate StatusText'')
         (cr_elems elems (hasStatusCode, True, c\<lparr>cr_StatusText := b_value elem\<rparr>))
      else ret (hasStatusCode, hasStatusText, c\<lparr>cr_Body := Some elem\<rparr>))"

definition DecodeControlResponse :: "Block option \<Rightarrow> ndn_ControlResponse fallible" where
  "DecodeControlResponse wire =
     (case wire of
        None \<Rightarrow> Inl NilDereference
      | Some b \<Rightarrow> rbind (parse_always b) (\<lambda>b.
          ebind (cr_elems (b_subs b) (False, False, MakeControlResponse 0 [] None)) (\<lambda>(hasStatusCode, hasStatusText, c).
            guard (\<not> hasStatusCode) (ErrText ''missing StatusCode'')
             (guard (\<not> hasStatusText) (ErrText ''missing StatusText'') (ret c)))))"

definition cr_Encode :: "ndn_ControlResponse \<Rightarrow> Block \<times> ndn_ControlResponse" where
  "cr_Encode c =
     (let w = NewEmptyBlock T_ControlResponse;
          w = blk_Append (EncodeNNIBlock T_StatusCode (cr_StatusCode c)) w;
          w = blk_Append (NewBlock T_StatusText (cr_StatusText c)) w;
          w = append_opt id (cr_Body c) w
      in (blk_Encode w, c\<lparr>cr_Body := map_option (\<lambda>b. snd (blk_Wire b)) (cr_Body c)\<rparr>))"

section \<open>FaceQueryFilter\<close>

record ndn_FaceQueryFilter =
  nfq_FaceID :: "u64 option"
  nfq_URIScheme :: "gostring option"
  nfq_URI :: "URI option"
  nfq_LocalURI :: "URI option"
  nfq_FaceScope :: "u64 option"
  nfq_FacePersistency :: "u64 option"
  nfq_LinkType :: "u64 option"

definition MakeFaceQueryFilter :: ndn_FaceQueryFilter where
  "MakeFaceQueryFilter = \<lparr>nfq_FaceID = None, nfq_URIScheme = None, nfq_URI = None, nfq_LocalURI = None, nfq_FaceScope = None,
     nfq_FacePersistency = None, nfq_LinkType = None\<rparr>"

definition fq_elem :: "host_api \<Rightarrow> Block \<Rightarrow> ndn_FaceQueryFilter \<Rightarrow> (Block \<times> ndn_FaceQueryFilter) fallible" where
  "fq_elem H elem c =
     (if b_type elem = T_FaceID then
        once_nni (nfq_FaceID c) ''duplicate FaceId'' ''unable to decode FaceId'' elem (\<lambda>v. c\<lparr>nfq_FaceID := Some v\<rparr>)
      else if b_type elem = T_URIScheme then
        guard (nfq_URIScheme c \<noteq> None) (ErrText ''duplicate UriScheme'') (ret (elem, c\<lparr>nfq_URIScheme := Some (b_value elem)\<rparr>))
      else if b_type elem = T_URI then
        guard (nfq_URI c \<noteq> None) (ErrText ''duplicate Uri'') (ret (elem, c\<lparr>nfq_URI := DecodeURIString H (b_value elem)\<rparr>))
      else if b_type elem = T_LocalURI then
        guard (nfq_LocalURI c \<noteq> None) (ErrText ''duplicate LocalUri'') (ret (elem, c\<lparr>nfq_LocalURI := DecodeURIString H (b_value elem)\<rparr>))
      else if b_type elem = T_FaceScope then
        once_nni (nfq_FaceScope c) ''duplicate FaceScope'' ''unable to decode FaceScope'' elem (\<lambda>v. c\<lparr>nfq_FaceScope := Some v\<rparr>)
      else if b_type elem = T_FacePersistency then
        once_nni (nfq_FacePersistency c) ''duplicate FacePersistency'' ''unable to decode FacePersistency'' elem
          (\<lambda>v. c\<lparr>nfq_FacePersistency := Some v\<rparr>)
      else if b_type elem = T_LinkType then
        once_nni (nfq_LinkType c) ''duplicate LinkType'' ''unable to decode LinkType'' elem (\<lambda>v. c\<lparr>nfq_LinkType := Some v\<rparr>)
      else guard (IsCritical (b_type elem)) ErrUnrecognizedCritical (ret (elem, c)))"

definition DecodeFaceQueryFilter :: "host_api \<Rightarrow> Block option \<Rightarrow> ndn_FaceQueryFilter fallible" where
  "DecodeFaceQueryFilter H wire =
     (case wire of
        None \<Rightarrow> fail (ErrText ''wire is unset'')
      | Some b \<Rightarrow>
          guard (b_type b \<noteq> T_FaceQueryFilter) ErrUnexpected
           (rbind (parse_always b) (\<lambda>b. ebind (each_elem (fq_elem H) (b_subs b) MakeFaceQueryFilter) (\<lambda>(_, c). ret c))))"

definition DecodeFaceQueryFilterFromEncoded :: "host_api \<Rightarrow> bytes \<Rightarrow> ndn_FaceQueryFilter fallible" where
  "DecodeFaceQueryFilterFromEncoded H wire = ebind (DecodeBlock wire) (\<lambda>(b, _). DecodeFaceQueryFilter H (Some b))"

definition fq_Encode :: "ndn_FaceQueryFilter \<Rightarrow> Block" where
  "fq_Encode f =
     (let w = NewEmptyBlock T_FaceQueryFilter;
          w = append_opt (EncodeNNIBlock T_FaceID) (nfq_FaceID f) w;
          w = append_opt (NewBlock T_URIScheme) (nfq_URIScheme f) w;
          w = append_opt (\<lambda>u. NewBlock T_URI (uri_String u)) (nfq_URI f) w;
          w = append_opt (\<lambda>u. NewBlock T_LocalURI (uri_String u)) (nfq_LocalURI f) w;
          w = append_opt (EncodeNNIBlock T_FaceScope) (nfq_FaceScope f) w;
          w = append_opt (EncodeNNIBlock T_FacePersistency) (nfq_FacePersistency f) w;
          w = append_opt (EncodeNNIBlock T_LinkType) (nfq_LinkType f) w
      in blk_Encode w)"

section \<open>Status datasets\<close>

definition ChannelStatus_Encode :: "URI \<Rightarrow> Block" where
  "ChannelStatus_Encode localURI = blk_Encode (blk_Append (NewBlock T_LocalURI (uri_String localURI)) (NewEmptyBlock T_ChannelStatus))"

record CsStatus =
  cst_Capacity :: u64
  cst_Flags :: int
  cst_NCsEntries :: u64
  cst_NHits :: u64
  cst_NMisses :: u64

text \<open>Appending a sequence of numbers.\<close>

definition append_nnis :: "(u32 \<times> u64) list \<Rightarrow> Block \<Rightarrow> Block" where
  "append_nnis xs b = fold (\<lambda>x. blk_Append (EncodeNNIBlock (fst x) (snd x))) xs b"

definition CsStatus_Encode :: "CsStatus \<Rightarrow> Block" where
  "CsStatus_Encode s = blk_Encode (append_nnis
     [(T_Capacity, cst_Capacity s), (T_Flags, of_int (cst_Flags s)), (T_NCsEntries, cst_NCsEntries s), (T_NHits, cst_NHits s),
      (T_NMisses, cst_NMisses s)] (NewEmptyBlock T_CsInfo))"

record ndn_FaceStatus =
  nfs_FaceID :: u64
  nfs_URI :: "URI option"
  nfs_LocalURI :: "URI option"
  nfs_ExpirationPeriod :: "u64 option"
  nfs_FaceScope :: u64
  nfs_FacePersistency :: u64
  nfs_LinkType :: u64
  nfs_BaseCongestionMarkingInterval :: "u64 option"
  nfs_DefaultCongestionThreshold :: "u64 option"
  nfs_MTU :: "u64 option"
  nfs_NInInterests :: u64
  nfs_NInData :: u64
  nfs_NInNacks :: u64
  nfs_NOutInterests :: u64
  nfs_NOutData :: u64
  nfs_NOutNacks :: u64
  nfs_NInBytes :: u64
  nfs_NOutBytes :: u64
  nfs_Flags :: u64

definition FaceStatus_Encode :: "ndn_FaceStatus \<Rightarrow> ndn_error + Block" where
  "FaceStatus_Encode f =
     (let w = blk_Append (EncodeNNIBlock T_FaceID (nfs_FaceID f)) (NewEmptyBlock T_FaceStatus)
      in case nfs_URI f of
           None \<Rightarrow> Inl (ErrText ''URI is required, but unset'')
         | Some u \<Rightarrow>
             let w = blk_Append (NewBlock T_URI (uri_String u)) w
             in case nfs_LocalURI f of
                  None \<Rightarrow> Inl (ErrText ''LocalUri is required, but unset'')
                | Some l \<Rightarrow>
                    let w = blk_Append (NewBlock T_LocalURI (uri_String l)) w;
                        w = append_opt (EncodeNNIBlock T_ExpirationPeriod) (nfs_ExpirationPeriod f) w;
                        w = append_nnis [(T_FaceScope, nfs_FaceScope f), (T_FacePersistency, nfs_FacePersistency f), (T_LinkType, nfs_LinkType f)] w;
                        w = append_opt (EncodeNNIBlock T_BaseCongestionMarkingInterval) (nfs_BaseCongestionMarkingInterval f) w;
                        w = append_opt (EncodeNNIBlock T_DefaultCongestionThreshold) (nfs_DefaultCongestionThreshold f) w;
                        w = append_opt (EncodeNNIBlock T_MTU) (nfs_MTU f) w;
                        w = append_nnis [(T_NInInterests, nfs_NInInterests f), (T_NInData, nfs_NInData f), (T_NInNacks, nfs_NInNacks f),
                              (T_NOutInterests, nfs_NOutInterests f), (T_NOutData, nfs_NOutData f), (T_NOutNacks, nfs_NOutNacks f),
                              (T_NInBytes, nfs_NInBytes f), (T_NOutBytes, nfs_NOutBytes f), (T_Flags, nfs_Flags f)] w
                    in Inr (blk_Encode w))"

record ndn_GeneralStatus =
  ngs_NfdVersion :: gostring
  ngs_StartTimestamp :: u64
  ngs_CurrentTimestamp :: u64
  ngs_NNameTreeEntries :: u64
  ngs_NFibEntries :: u64
  ngs_NPitEntries :: u64
  ngs_NMeasurementEntries :: u64
  ngs_NCsEntries :: u64
  ngs_NInInterests :: u64
  ngs_NInData :: u64
  ngs_NInNacks :: u64
  ngs_NOutInterests :: u64
  ngs_NOutData :: u64
  ngs_NOutNacks :: u64
  ngs_NSatisfiedInterests :: u64
  ngs_NUnsatisfiedInterests :: u64

definition GeneralStatus_Encode :: "ndn_GeneralStatus \<Rightarrow> Block" where
  "GeneralStatus_Encode g = blk_Encode (append_nnis
     [(T_StartTimestamp, ngs_StartTimestamp g), (T_CurrentTimestamp, ngs_CurrentTimestamp g), (T_NNameTreeEntries, ngs_NNameTreeEntries g),
      (T_NFibEntries, ngs_NFibEntries g), (T_NPitEntries, ngs_NPitEntries g), (T_NMeasurementEntries, ngs_NMeasurementEntries g),
      (T_NCsEntries, ngs_NCsEntries g), (T_NInInterests, ngs_NInInterests g), (T_NInData, ngs_NInData g), (T_NInNacks, ngs_NInNacks g),
      (T_NOutInterests, ngs_NOutInterests g), (T_NOutData, ngs_NOutData g), (T_NOutNacks, ngs_NOutNacks g),
      (T_NSatisfiedInterests, ngs_NSatisfiedInterests g), (T_NUnsatisfiedInterests, ngs_NUnsatisfiedInterests g)]
     (blk_Append (NewBlock T_NfdVersion (ngs_NfdVersion g)) (NewEmptyBlock T_Content)))"

text \<open>The entries of the FIB, the RIB and the strategy table: a name, then a record per nexthop, route or strategy.\<close>

record FibEntry =
  fe_Name :: Name
  fe_Nexthops :: "(u64 \<times> u64) list"

definition MakeFibEntry :: "Name \<Rightarrow> FibEntry" where
  "MakeFibEntry name = \<lparr>fe_Name = name, fe_Nexthops = []\<rparr>"

definition FibEntry_Encode :: "FibEntry \<Rightarrow> Block \<times> FibEntry" where
  "FibEntry_Encode f =
     (let w = blk_Append (fst (name_Encode (fe_Name f))) (NewEmptyBlock T_FibEntry);
          w = fold (\<lambda>(faceID, cost). blk_Append (append_nnis [(T_FaceID, faceID), (T_Cost, cost)] (NewEmptyBlock T_NextHopRecord)))
                (fe_Nexthops f) w
      in (blk_Encode w, f\<lparr>fe_Name := snd (name_Encode (fe_Name f))\<rparr>))"

record mgmt_Route =
  rt_FaceID :: u64
  rt_Origin :: u64
  rt_Cost :: u64
  rt_Flags :: u64
  rt_ExpirationPeriod :: "int option"

record mgmt_RibEntry =
  re_Name :: Name
  re_Routes :: "mgmt_Route list"

definition MakeRibEntry :: "Name \<Rightarrow> mgmt_RibEntry" where
  "MakeRibEntry name = \<lparr>re_Name = name, re_Routes = []\<rparr>"

text \<open>The expiration period of a route is written with the type of a face.\<close>

definition route_block :: "mgmt_Route \<Rightarrow> Block" where
  "route_block r =
     append_opt (\<lambda>d. EncodeNNIBlock T_FaceID (of_int (dur_Milliseconds d))) (rt_ExpirationPeriod r)
       (append_nnis [(T_FaceID, rt_FaceID r), (T_Origin, rt_Origin r), (T_Cost, rt_Cost r), (T_Flags, rt_Flags r)] (NewEmptyBlock T_Route))"

definition RibEntry_Encode :: "mgmt_RibEntry \<Rightarrow> Block \<times> mgmt_RibEntry" where
  "RibEntry_Encode f =
     (let w = blk_Append (fst (name_Encode (re_Name f))) (NewEmptyBlock T_RibEntry);
          w = fold (\<lambda>r. blk_Append (route_block r)) (re_Routes f) w
      in (blk_Encode w, f\<lparr>re_Name := snd (name_Encode (re_Name f))\<rparr>))"

record StrategyChoice =
  sc_Name :: Name
  sc_Strategy :: Name

definition StrategyChoice_block :: "StrategyChoice \<Rightarrow> Block" where
  "StrategyChoice_block s = blk_Encode
     (blk_Append (blk_Append (fst (name_Encode (sc_Strategy s))) (NewEmptyBlock T_Strategy))
       (blk_Append (fst (name_Encode (sc_Name s))) (NewEmptyBlock T_StrategyChoice)))"

definition StrategyChoiceList_Encode :: "StrategyChoice list \<Rightarrow> Block list" where
  "StrategyChoiceList_Encode ss = map StrategyChoice_block ss"

section \<open>MakeStatusDataset\<close>

text \<open>
  The quotient in floating point, rounded up, is exact for lengths below \<open>2 ^ 53\<close>. The condition
  \<^verbatim>\<open>segment < segment-1\<close> is kept as it is. A segment slices the dataset, from an offset that lies within it.
\<close>

definition status_segment :: "Name \<Rightarrow> u64 \<Rightarrow> u64 \<Rightarrow> u64 \<Rightarrow> bytes \<Rightarrow> ndn_Data" where
  "status_segment name version segment lastSegment content =
     (let segmentName = name_Append (NewSegmentNameComponent segment) (name_Append (NewVersionNameComponent version) (name_DeepCopy name));
          metaInfo = metainfo_SetFinalBlockID (Ref (NewSegmentNameComponent lastSegment)) (metainfo_SetFreshnessPeriod 1000000000 NewMetaInfo)
      in data_SetMetaInfo (Some metaInfo) (the (NewData (Some segmentName) content)))"

definition MakeStatusDataset :: "Name \<Rightarrow> u64 \<Rightarrow> bytes \<Rightarrow> ndn_Data list" where
  "MakeStatusDataset name version dataset =
     (let nSegments = (length dataset + 7999) div 8000
      in if nSegments = 0 then [status_segment name version 0 0 []]
         else map (\<lambda>segment.
                let content = (if int segment < int segment - 1 then take 8000 (drop (8000 * segment) dataset) else drop (8000 * segment) dataset)
                in status_segment name version (of_nat segment) (of_nat (nSegments - 1)) content) [0..<nSegments])"

end
