(* ===== verification/Ndn_Mgmt_Spec.thy ===== *)
theory Ndn_Mgmt_Spec
  imports Data_Spec Ndn_Mgmt
begin

text \<open>
  What the objects of the management protocol encode to and what is decoded from it: the round trip
  of the parameters of a command, of a face query and of a response, and the segments of a dataset.
\<close>

lemma writes_encoded: "builds b t xs \<Longrightarrow> writes (blk_Encode b) (t, tlvs xs)"
proof -
  assume b: "builds b t xs"
  then have w: "b_wire b = []" "b_type b = t" "map (\<lambda>b. fst (blk_Wire b)) (b_subs b) = map tlv xs" by (simp_all add: builds_def map_writes)
  show ?thesis
  proof (cases "b_subs b = []")
    case True
    then show ?thesis using builds_done[OF b] by (simp add: blk_Encode_def)
  next
    case False
    then show ?thesis using w by (simp add: blk_Encode_def writes_def Wire_fresh tlvs_def)
  qed
qed

lemma tlvs_opt: "x = Some v \<Longrightarrow> length (f v) \<le> length (tlvs (opt_item t f x))"
  by (simp add: tlv_def tlv_bytes_def)

section \<open>ControlParameters\<close>

text \<open>URIs that survive being printed; by \<open>uri_string_roundtrip\<close> every canonical one does.\<close>

definition printable :: "host_api \<Rightarrow> URI option \<Rightarrow> bool" where
  "printable H u \<longleftrightarrow> (\<forall>v. u = Some v \<longrightarrow> DecodeURIString H (uri_String v) = Some v)"

definition good_params :: "host_api \<Rightarrow> ControlParameters \<Rightarrow> bool" where
  "good_params H c \<longleftrightarrow> (\<forall>n. cp_Name c = Some n \<longrightarrow> good_name n) \<and> (\<forall>n. cp_Strategy c = Some n \<longrightarrow> good_name n)
     \<and> printable H (cp_URI c) \<and> printable H (cp_LocalURI c)"

definition cp_view :: "ControlParameters \<Rightarrow> ControlParameters \<times> (u16 \<times> bytes) list option \<times> (u16 \<times> bytes) list option" where
  "cp_view c = (c\<lparr>cp_Name := None, cp_Strategy := None\<rparr>, map_option keys (cp_Name c), map_option keys (cp_Strategy c))"

definition cp_items1 :: "ControlParameters \<Rightarrow> tlv_item list" where
  "cp_items1 c = ((((((((([] @ opt_item T_Name (\<lambda>n. snd (name_item (keys n))) (cp_Name c))
       @ opt_item T_FaceID EncodeNNI (cp_FaceID c))
       @ opt_item T_URI uri_String (cp_URI c))
       @ opt_item T_LocalURI uri_String (cp_LocalURI c))
       @ opt_item T_Origin EncodeNNI (cp_Origin c))
       @ opt_item T_Cost EncodeNNI (cp_Cost c))
       @ opt_item T_Capacity EncodeNNI (cp_Capacity c))
       @ opt_item T_Count EncodeNNI (cp_Count c))
       @ opt_item T_BaseCongestionMarkingInterval EncodeNNI (cp_BaseCongestionMarkingInterval c))"

definition cp_items2 :: "ControlParameters \<Rightarrow> tlv_item list" where
  "cp_items2 c = (((((([] @ opt_item T_MTU EncodeNNI (cp_MTU c))
       @ opt_item T_Flags EncodeNNI (cp_Flags c))
       @ opt_item T_Mask EncodeNNI (cp_Mask c))
       @ opt_item T_Strategy (\<lambda>n. tlvs [name_item (keys n)]) (cp_Strategy c))
       @ opt_item T_ExpirationPeriod EncodeNNI (cp_ExpirationPeriod c))
       @ opt_item T_FacePersistency EncodeNNI (cp_FacePersistency c))"

definition cp_items :: "ControlParameters \<Rightarrow> tlv_item list" where
  "cp_items c = cp_items1 c @ opt_item T_DefaultCongestionThreshold EncodeNNI (cp_DefaultCongestionThreshold c) @ cp_items2 c"

lemma cp_Encode_writes:
  assumes "good_params H c"
  shows "writes (fst (cp_Encode c)) (T_ControlParameters, tlvs (cp_items c))"
proof -
  have n: "writes (fst (name_Encode n)) (T_Name, snd (name_item (keys n)))" if "cp_Name c = Some n" for n
    using name_Encode_writes(1)[of n] assms that by (simp add: good_params_def name_item_def)
  have s: "writes (blk_Append (fst (name_Encode n)) (NewEmptyBlock T_Strategy)) (T_Strategy, tlvs [name_item (keys n)])" if "cp_Strategy c = Some n" for n
    using builds_done[OF builds_append[OF builds_empty(1) name_Encode_writes(1)]] assms that by (simp add: good_params_def)
  note rules = builds_opt builds_empty writes_nni writes_value n s
  let ?w1 = "append_opt (EncodeNNIBlock T_DefaultCongestionThreshold) (cp_DefaultCongestionThreshold c) (append_opt (EncodeNNIBlock T_BaseCongestionMarkingInterval) (cp_BaseCongestionMarkingInterval c) (append_opt (EncodeNNIBlock T_Count) (cp_Count c) (append_opt (EncodeNNIBlock T_Capacity) (cp_Capacity c) (append_opt (EncodeNNIBlock T_Cost) (cp_Cost c) (append_opt (EncodeNNIBlock T_Origin) (cp_Origin c) (append_opt (\<lambda>u. NewBlock T_LocalURI (uri_String u)) (cp_LocalURI c) (append_opt (\<lambda>u. NewBlock T_URI (uri_String u)) (cp_URI c) (append_opt (EncodeNNIBlock T_FaceID) (cp_FaceID c) (append_opt (\<lambda>n. fst (name_Encode n)) (cp_Name c) (NewEmptyBlock T_ControlParameters))))))))))"
  have 1: "builds ?w1 T_ControlParameters (cp_items1 c @ opt_item T_DefaultCongestionThreshold EncodeNNI (cp_DefaultCongestionThreshold c))"
    unfolding cp_items1_def by (intro rules)
  have "builds (append_opt (EncodeNNIBlock T_FacePersistency) (cp_FacePersistency c) (append_opt (EncodeNNIBlock T_ExpirationPeriod) (cp_ExpirationPeriod c) (append_opt (\<lambda>n. blk_Append (fst (name_Encode n)) (NewEmptyBlock T_Strategy)) (cp_Strategy c) (append_opt (EncodeNNIBlock T_Mask) (cp_Mask c) (append_opt (EncodeNNIBlock T_Flags) (cp_Flags c) (append_opt (EncodeNNIBlock T_MTU) (cp_MTU c) (?w1))))))) T_ControlParameters (((((((cp_items1 c @ opt_item T_DefaultCongestionThreshold EncodeNNI (cp_DefaultCongestionThreshold c)) @ opt_item T_MTU EncodeNNI (cp_MTU c)) @ opt_item T_Flags EncodeNNI (cp_Flags c)) @ opt_item T_Mask EncodeNNI (cp_Mask c)) @ opt_item T_Strategy (\<lambda>n. tlvs [name_item (keys n)]) (cp_Strategy c)) @ opt_item T_ExpirationPeriod EncodeNNI (cp_ExpirationPeriod c)) @ opt_item T_FacePersistency EncodeNNI (cp_FacePersistency c))"
    by (intro rules 1)
  then have "builds (append_opt (EncodeNNIBlock T_FacePersistency) (cp_FacePersistency c) (append_opt (EncodeNNIBlock T_ExpirationPeriod) (cp_ExpirationPeriod c) (append_opt (\<lambda>n. blk_Append (fst (name_Encode n)) (NewEmptyBlock T_Strategy)) (cp_Strategy c) (append_opt (EncodeNNIBlock T_Mask) (cp_Mask c) (append_opt (EncodeNNIBlock T_Flags) (cp_Flags c) (append_opt (EncodeNNIBlock T_MTU) (cp_MTU c) (?w1))))))) T_ControlParameters (cp_items c)"
    by (simp only: cp_items_def cp_items2_def append_assoc append_Nil)
  from writes_encoded[OF this] show ?thesis by (simp only: cp_Encode_def Let_def fst_conv)
qed

lemma once_nni_parsed [simp]: "once_nni None dup bad (parsed (t, EncodeNNI v)) k = ret (parsed (t, EncodeNNI v), k v)"
  "once_nni (Some x) dup bad b k = fail (ErrText dup)"
  by (simp_all add: once_nni_def)

lemma decode_name_reads:
  assumes "good_name n" "length (tlvs [name_item (keys n)]) < 2 ^ 62"
  shows "\<exists>b m. decode_name_elem (parsed (name_item (keys n))) = ret (b, m) \<and> keys m = keys n
    \<and> b_type b = T_Name \<and> b_value b = snd (name_item (keys n)) \<and> b_wire b = tlv (name_item (keys n))"
proof -
  have "good_keys (keys n)" "length (tlv (name_item (keys n))) < 2 ^ 63" using assms by (simp_all add: good_name_def)
  from decode_name_parsed[OF this] show ?thesis by blast
qed

lemma cp_reads1:
  assumes "good_params H c" "length (tlvs (cp_items1 c)) < 2 ^ 62"
  shows "\<exists>q. reads (cp_elem H) (cp_items1 c) MakeControlParameters q \<and> cp_view q = cp_view (MakeControlParameters\<lparr>cp_Name := cp_Name c,
    cp_FaceID := cp_FaceID c, cp_URI := cp_URI c, cp_LocalURI := cp_LocalURI c, cp_Origin := cp_Origin c, cp_Cost := cp_Cost c,
    cp_Capacity := cp_Capacity c, cp_Count := cp_Count c, cp_BaseCongestionMarkingInterval := cp_BaseCongestionMarkingInterval c\<rparr>)"
proof -
  let ?p0 = "MakeControlParameters"
  obtain nm where 1: "reads (cp_elem H) ([] @ opt_item T_Name (\<lambda>n. snd (name_item (keys n))) (cp_Name c)) ?p0 (?p0\<lparr>cp_Name := nm\<rparr>)"
      and nm: "map_option keys nm = map_option keys (cp_Name c)"
  proof (cases "cp_Name c")
    case None
    then show thesis using that[of None] by (simp add: reads_Nil MakeControlParameters_def)
  next
    case (Some n)
    have "length (tlvs [name_item (keys n)]) \<le> length (tlvs (cp_items1 c))" by (simp add: cp_items1_def Some name_item_def)
    then have l: "length (tlvs [name_item (keys n)]) < 2 ^ 62" using assms by simp
    have "good_name n" using assms Some by (simp add: good_params_def)
    from decode_name_reads[OF this l] obtain b m where d: "decode_name_elem (parsed (T_Name, snd (name_item (keys n)))) = ret (b, m)" "keys m = keys n"
        "b_type b = T_Name" "b_value b = snd (name_item (keys n))" "b_wire b = tlv (T_Name, snd (name_item (keys n)))"
      by (auto simp: name_item_def)
    then have "reads (cp_elem H) [(T_Name, snd (name_item (keys n)))] ?p0 (?p0\<lparr>cp_Name := Some m\<rparr>)"
      by (intro reads_one[where b = b]) (simp_all add: cp_elem_def MakeControlParameters_def)
    then show thesis using that[of "Some m"] d(2) Some by simp
  qed
  let ?p1 = "?p0\<lparr>cp_Name := nm\<rparr>"
  let ?p2 = "?p1\<lparr>cp_FaceID := cp_FaceID c\<rparr>"
  have 2: "reads (cp_elem H) (opt_item T_FaceID EncodeNNI (cp_FaceID c)) ?p1 ?p2"
    by (rule reads_opt) (auto intro!: reads_one simp: cp_elem_def MakeControlParameters_def)
  let ?p3 = "?p2\<lparr>cp_URI := cp_URI c\<rparr>"
  have 3: "reads (cp_elem H) (opt_item T_URI uri_String (cp_URI c)) ?p2 ?p3"
    using assms by (intro reads_opt) (auto intro!: reads_one simp: cp_elem_def printable_def good_params_def MakeControlParameters_def)
  let ?p4 = "?p3\<lparr>cp_LocalURI := cp_LocalURI c\<rparr>"
  have 4: "reads (cp_elem H) (opt_item T_LocalURI uri_String (cp_LocalURI c)) ?p3 ?p4"
    using assms by (intro reads_opt) (auto intro!: reads_one simp: cp_elem_def printable_def good_params_def MakeControlParameters_def)
  let ?p5 = "?p4\<lparr>cp_Origin := cp_Origin c\<rparr>"
  have 5: "reads (cp_elem H) (opt_item T_Origin EncodeNNI (cp_Origin c)) ?p4 ?p5"
    by (rule reads_opt) (auto intro!: reads_one simp: cp_elem_def MakeControlParameters_def)
  let ?p6 = "?p5\<lparr>cp_Cost := cp_Cost c\<rparr>"
  have 6: "reads (cp_elem H) (opt_item T_Cost EncodeNNI (cp_Cost c)) ?p5 ?p6"
    by (rule reads_opt) (auto intro!: reads_one simp: cp_elem_def MakeControlParameters_def)
  let ?p7 = "?p6\<lparr>cp_Capacity := cp_Capacity c\<rparr>"
  have 7: "reads (cp_elem H) (opt_item T_Capacity EncodeNNI (cp_Capacity c)) ?p6 ?p7"
    by (rule reads_opt) (auto intro!: reads_one simp: cp_elem_def MakeControlParameters_def)
  let ?p8 = "?p7\<lparr>cp_Count := cp_Count c\<rparr>"
  have 8: "reads (cp_elem H) (opt_item T_Count EncodeNNI (cp_Count c)) ?p7 ?p8"
    by (rule reads_opt) (auto intro!: reads_one simp: cp_elem_def MakeControlParameters_def)
  let ?p9 = "?p8\<lparr>cp_BaseCongestionMarkingInterval := cp_BaseCongestionMarkingInterval c\<rparr>"
  have 9: "reads (cp_elem H) (opt_item T_BaseCongestionMarkingInterval EncodeNNI (cp_BaseCongestionMarkingInterval c)) ?p8 ?p9"
    by (rule reads_opt) (auto intro!: reads_one simp: cp_elem_def MakeControlParameters_def)
  have "reads (cp_elem H) (cp_items1 c) MakeControlParameters ?p9"
    unfolding cp_items1_def by (rule reads_append[OF reads_append[OF reads_append[OF reads_append[OF reads_append[OF reads_append[OF reads_append[OF reads_append[OF 1 2] 3] 4] 5] 6] 7] 8] 9])
  then show ?thesis using nm by (intro exI[of _ ?p9]) (simp add: cp_view_def MakeControlParameters_def)
qed

lemma cp_reads2:
  assumes "good_params H c" "length (tlvs (cp_items2 c)) < 2 ^ 62"
    and "cp_MTU s = None" "cp_Flags s = None" "cp_Mask s = None" "cp_Strategy s = None" "cp_ExpirationPeriod s = None" "cp_FacePersistency s = None"
  shows "\<exists>nm. reads (cp_elem H) (cp_items2 c) s (s\<lparr>cp_MTU := cp_MTU c, cp_Flags := cp_Flags c, cp_Mask := cp_Mask c, cp_Strategy := nm,
    cp_ExpirationPeriod := cp_ExpirationPeriod c, cp_FacePersistency := cp_FacePersistency c\<rparr>) \<and> map_option keys nm = map_option keys (cp_Strategy c)"
proof -
  let ?p0 = "s"
  let ?p1 = "?p0\<lparr>cp_MTU := cp_MTU c\<rparr>"
  have 1: "reads (cp_elem H) ([] @ opt_item T_MTU EncodeNNI (cp_MTU c)) ?p0 ?p1"
    by (simp, rule reads_opt) (auto intro!: reads_one simp: cp_elem_def assms)
  let ?p2 = "?p1\<lparr>cp_Flags := cp_Flags c\<rparr>"
  have 2: "reads (cp_elem H) (opt_item T_Flags EncodeNNI (cp_Flags c)) ?p1 ?p2"
    by (rule reads_opt) (auto intro!: reads_one simp: cp_elem_def assms)
  let ?p3 = "?p2\<lparr>cp_Mask := cp_Mask c\<rparr>"
  have 3: "reads (cp_elem H) (opt_item T_Mask EncodeNNI (cp_Mask c)) ?p2 ?p3"
    by (rule reads_opt) (auto intro!: reads_one simp: cp_elem_def assms)
  obtain nm where 4: "reads (cp_elem H) (opt_item T_Strategy (\<lambda>n. tlvs [name_item (keys n)]) (cp_Strategy c)) ?p3 (?p3\<lparr>cp_Strategy := nm\<rparr>)"
      and nm: "map_option keys nm = map_option keys (cp_Strategy c)"
  proof (cases "cp_Strategy c")
    case None
    then show thesis using that[of None] assms by (cases s) (simp add: reads_Nil)
  next
    case (Some n)
    have "length (tlvs [name_item (keys n)]) \<le> length (tlvs (cp_items2 c))"
      using tlv_length[of "[name_item (keys n)]" T_Strategy] by (simp add: cp_items2_def Some)
    then have l: "length (tlvs [name_item (keys n)]) < 2 ^ 62" using assms by simp
    have "good_name n" using assms Some by (simp add: good_params_def)
    from decode_name_reads[OF this l] obtain b m where d: "decode_name_elem (parsed (name_item (keys n))) = ret (b, m)" "keys m = keys n"
      by blast
    have l3: "length (tlvs [name_item (keys n)]) < 2 ^ 63" using l by simp
    let ?it = "(T_Strategy, tlvs [name_item (keys n)]) :: tlv_item"
    let ?b = "set_sub 0 b (set_subs (map parsed [name_item (keys n)]) (parsed ?it))"
    have "cp_elem H (parsed ?it) ?p3 = ret (?b, ?p3\<lparr>cp_Strategy := Some m\<rparr>)"
      using assms by (simp add: cp_elem_def parse_parsed(1)[OF l3] del: tlvs_simps) (simp add: set_subs_def d)
    then have "reads (cp_elem H) [?it] ?p3 (?p3\<lparr>cp_Strategy := Some m\<rparr>)"
      by (rule reads_one) (simp_all add: set_sub_def set_subs_def)
    then show thesis using that[of "Some m"] d(2) Some by (simp del: tlvs_simps)
  qed
  let ?p4 = "?p3\<lparr>cp_Strategy := nm\<rparr>"
  let ?p5 = "?p4\<lparr>cp_ExpirationPeriod := cp_ExpirationPeriod c\<rparr>"
  have 5: "reads (cp_elem H) (opt_item T_ExpirationPeriod EncodeNNI (cp_ExpirationPeriod c)) ?p4 ?p5"
    by (rule reads_opt) (auto intro!: reads_one simp: cp_elem_def assms)
  let ?p6 = "?p5\<lparr>cp_FacePersistency := cp_FacePersistency c\<rparr>"
  have 6: "reads (cp_elem H) (opt_item T_FacePersistency EncodeNNI (cp_FacePersistency c)) ?p5 ?p6"
    by (rule reads_opt) (auto intro!: reads_one simp: cp_elem_def assms)
  have "reads (cp_elem H) (cp_items2 c) s ?p6"
    unfolding cp_items2_def by (rule reads_append[OF reads_append[OF reads_append[OF reads_append[OF reads_append[OF 1 2] 3] 4] 5] 6])
  then show ?thesis using nm by blast
qed

lemma reads_fail:
  assumes "reads f xs s t" "\<And>q. f (parsed x) t = fail e"
  shows "each_elem f (map parsed (xs @ x # ys)) s = fail e"
  using assms by (auto simp: reads_def each_elem_append)

text \<open>
  C26. The parameters of a command encode, and decoding the wire gives the same parameters with the same
  names, unless they hold both a face and a default congestion threshold: the threshold is then
  rejected as a duplicate, so an update of a face with a threshold cannot be decoded.
\<close>

theorem control_parameters_roundtrip:
  assumes "good_params H c" "length (tlvs (cp_items c)) < 2 ^ 61" "w = fst (blk_Wire (fst (cp_Encode c)))"
  shows "\<exists>b q. DecodeBlock w = Inr (Inr (b, of_nat (length w))) \<and>
    (if cp_FaceID c \<noteq> None \<and> cp_DefaultCongestionThreshold c \<noteq> None
     then DecodeControlParameters H (Some b) = fail (ErrText ''duplicate DefaultCongestionThreshold'')
     else DecodeControlParameters H (Some b) = ret q \<and> cp_view q = cp_view c)"
proof -
  have w: "w = tlv (T_ControlParameters, tlvs (cp_items c))" using cp_Encode_writes[OF assms(1)] assms(3) by (simp add: writes_def)
  have l: "length (tlvs (cp_items1 c)) < 2 ^ 62" "length (tlvs (cp_items2 c)) < 2 ^ 62" "length (tlvs (cp_items c)) < 2 ^ 63"
    using assms(2) by (simp_all add: cp_items_def)
  let ?b = "parsed (T_ControlParameters, tlvs (cp_items c))"
  have "length w < 2 ^ 63" using assms(2) tlv_length_le[of T_ControlParameters "tlvs (cp_items c)"] by (simp add: w)
  then have db: "DecodeBlock w = Inr (Inr (?b, of_nat (length w)))"
    using DecodeBlock_tlv[of "(T_ControlParameters, tlvs (cp_items c))"] unfolding w by blast
  have dec: "DecodeControlParameters H (Some ?b) = ebind (each_elem (cp_elem H) (map parsed (cp_items c)) MakeControlParameters) (\<lambda>(_, c). ret c)"
    by (simp add: DecodeControlParameters_def parse_parsed(1)[OF l(3)]) (simp add: set_subs_def)
  obtain q where q: "reads (cp_elem H) (cp_items1 c) MakeControlParameters q" and v: "cp_view q = cp_view (MakeControlParameters\<lparr>cp_Name := cp_Name c,
    cp_FaceID := cp_FaceID c, cp_URI := cp_URI c, cp_LocalURI := cp_LocalURI c, cp_Origin := cp_Origin c, cp_Cost := cp_Cost c,
    cp_Capacity := cp_Capacity c, cp_Count := cp_Count c, cp_BaseCongestionMarkingInterval := cp_BaseCongestionMarkingInterval c\<rparr>)"
    using cp_reads1[OF assms(1) l(1)] by blast
  have qf: "cp_FaceID q = cp_FaceID c" using v by (cases q) (simp add: cp_view_def MakeControlParameters_def)
  show ?thesis
  proof (cases "cp_FaceID c \<noteq> None \<and> cp_DefaultCongestionThreshold c \<noteq> None")
    case True
    then obtain v t where t: "cp_FaceID q = Some v" "cp_DefaultCongestionThreshold c = Some t" using qf by auto
    have "each_elem (cp_elem H) (map parsed (cp_items c)) MakeControlParameters = fail (ErrText ''duplicate DefaultCongestionThreshold'')"
      unfolding cp_items_def t(2) opt_item_simps append.simps
      by (rule reads_fail[OF q]) (simp add: cp_elem_def t(1))
    then show ?thesis using db dec True by auto
  next
    case False
    let ?d = "cp_DefaultCongestionThreshold c"
    have m: "reads (cp_elem H) (opt_item T_DefaultCongestionThreshold EncodeNNI ?d) q (q\<lparr>cp_DefaultCongestionThreshold := ?d\<rparr>)"
      using False qf v by (intro reads_opt; cases q) (auto intro!: reads_one simp: cp_elem_def cp_view_def MakeControlParameters_def)
    obtain nm where e: "reads (cp_elem H) (cp_items2 c) (q\<lparr>cp_DefaultCongestionThreshold := ?d\<rparr>)
        ((q\<lparr>cp_DefaultCongestionThreshold := ?d\<rparr>)\<lparr>cp_MTU := cp_MTU c, cp_Flags := cp_Flags c, cp_Mask := cp_Mask c, cp_Strategy := nm,
        cp_ExpirationPeriod := cp_ExpirationPeriod c, cp_FacePersistency := cp_FacePersistency c\<rparr>)" (is "reads _ _ _ ?r")
      and nm: "map_option keys nm = map_option keys (cp_Strategy c)"
      using cp_reads2[OF assms(1) l(2), of "q\<lparr>cp_DefaultCongestionThreshold := ?d\<rparr>"] v
      by (cases q) (auto simp: cp_view_def MakeControlParameters_def)
    have "DecodeControlParameters H (Some ?b) = ret ?r"
      using reads_append[OF q reads_append[OF m e]] by (auto simp: dec cp_items_def[symmetric] reads_def)
    moreover have "cp_view ?r = cp_view c" using v nm by (cases q; cases c) (simp add: cp_view_def MakeControlParameters_def)
    ultimately show ?thesis using db False by auto
  qed
qed

definition toy_params1 :: "u64 option \<Rightarrow> ControlParameters" where
  "toy_params1 t = MakeControlParameters\<lparr>cp_Name := Some toy_name, cp_FaceID := Some 300, cp_Cost := Some 1, cp_DefaultCongestionThreshold := t\<rparr>"

lemma toy_params1_facts: "good_params H (toy_params1 t)" "length (tlvs (cp_items (toy_params1 t))) < 2 ^ 61"
proof -
  show "good_params H (toy_params1 t)"
    using toy_name_good by (simp add: good_params_def toy_params1_def MakeControlParameters_def printable_def)
  have nn: "length (EncodeNNI v) < 100" for v using EncodeNNI_length[of v] by (simp split: if_splits)
  have len: "length (tlv (t, v)) < 2 ^ 50" if "length v < 100" for t v using tlv_length_le[of t v] that by simp
  have "length (snd (name_item (keys toy_name))) < 100" using tlv_length_le[of 8 "[97]"] by (simp add: name_item_def toy_name_good)
  note ls = len[OF nn, of T_FaceID 300] len[OF nn, of T_Cost 1] len[OF nn, of T_DefaultCongestionThreshold "the t"] len[OF this, of T_Name]
  show "length (tlvs (cp_items (toy_params1 t))) < 2 ^ 61"
    using ls by (cases t) (simp_all add: cp_items_def cp_items1_def cp_items2_def toy_params1_def MakeControlParameters_def)
qed

theorem control_parameters_roundtrip_witness:
  "\<forall>H. (\<exists>b q. DecodeControlParameters H (Some b) = ret q \<and> cp_view q = cp_view (toy_params1 None))
    \<and> (\<exists>b. DecodeControlParameters H (Some b) = fail (ErrText ''duplicate DefaultCongestionThreshold''))"
proof
  fix H
  have f: "cp_FaceID (toy_params1 t) = Some 300" "cp_DefaultCongestionThreshold (toy_params1 t) = t" for t
    by (simp_all add: toy_params1_def MakeControlParameters_def)
  show "(\<exists>b q. DecodeControlParameters H (Some b) = ret q \<and> cp_view q = cp_view (toy_params1 None))
    \<and> (\<exists>b. DecodeControlParameters H (Some b) = fail (ErrText ''duplicate DefaultCongestionThreshold''))"
    using control_parameters_roundtrip[OF toy_params1_facts(1)[of H None] toy_params1_facts(2) refl]
      control_parameters_roundtrip[OF toy_params1_facts(1)[of H "Some 5"] toy_params1_facts(2) refl]
    unfolding f by auto
qed

lemma tlv_bound: "length v < 2 ^ 61 \<Longrightarrow> length (tlv (t, v)) < 2 ^ 63"
  using tlv_length_le[of t v] by simp

section \<open>FaceQueryFilter\<close>

definition fq_items :: "ndn_FaceQueryFilter \<Rightarrow> tlv_item list" where
  "fq_items c = ((((((([] @ opt_item T_FaceID EncodeNNI (nfq_FaceID c)) @ opt_item T_URIScheme id (nfq_URIScheme c))
     @ opt_item T_URI uri_String (nfq_URI c)) @ opt_item T_LocalURI uri_String (nfq_LocalURI c))
     @ opt_item T_FaceScope EncodeNNI (nfq_FaceScope c)) @ opt_item T_FacePersistency EncodeNNI (nfq_FacePersistency c))
     @ opt_item T_LinkType EncodeNNI (nfq_LinkType c))"

lemma fq_Encode_writes: "writes (fq_Encode c) (T_FaceQueryFilter, tlvs (fq_items c))"
  unfolding fq_Encode_def fq_items_def Let_def
  by (intro writes_encoded builds_opt builds_empty writes_nni writes_value) (simp add: writes_value)

lemma fq_reads:
  assumes "printable H (nfq_URI c)" "printable H (nfq_LocalURI c)"
  shows "reads (fq_elem H) (fq_items c) MakeFaceQueryFilter c"
proof -
  let ?p0 = "MakeFaceQueryFilter"
  let ?p1 = "?p0\<lparr>nfq_FaceID := nfq_FaceID c\<rparr>"
  have 1: "reads (fq_elem H) ([] @ opt_item T_FaceID EncodeNNI (nfq_FaceID c)) ?p0 ?p1"
    using assms by (simp, intro reads_opt) (auto intro!: reads_one simp: fq_elem_def MakeFaceQueryFilter_def printable_def)
  let ?p2 = "?p1\<lparr>nfq_URIScheme := nfq_URIScheme c\<rparr>"
  have 2: "reads (fq_elem H) (opt_item T_URIScheme id (nfq_URIScheme c)) ?p1 ?p2"
    using assms by (intro reads_opt) (auto intro!: reads_one simp: fq_elem_def MakeFaceQueryFilter_def printable_def)
  let ?p3 = "?p2\<lparr>nfq_URI := nfq_URI c\<rparr>"
  have 3: "reads (fq_elem H) (opt_item T_URI uri_String (nfq_URI c)) ?p2 ?p3"
    using assms by (intro reads_opt) (auto intro!: reads_one simp: fq_elem_def MakeFaceQueryFilter_def printable_def)
  let ?p4 = "?p3\<lparr>nfq_LocalURI := nfq_LocalURI c\<rparr>"
  have 4: "reads (fq_elem H) (opt_item T_LocalURI uri_String (nfq_LocalURI c)) ?p3 ?p4"
    using assms by (intro reads_opt) (auto intro!: reads_one simp: fq_elem_def MakeFaceQueryFilter_def printable_def)
  let ?p5 = "?p4\<lparr>nfq_FaceScope := nfq_FaceScope c\<rparr>"
  have 5: "reads (fq_elem H) (opt_item T_FaceScope EncodeNNI (nfq_FaceScope c)) ?p4 ?p5"
    using assms by (intro reads_opt) (auto intro!: reads_one simp: fq_elem_def MakeFaceQueryFilter_def printable_def)
  let ?p6 = "?p5\<lparr>nfq_FacePersistency := nfq_FacePersistency c\<rparr>"
  have 6: "reads (fq_elem H) (opt_item T_FacePersistency EncodeNNI (nfq_FacePersistency c)) ?p5 ?p6"
    using assms by (intro reads_opt) (auto intro!: reads_one simp: fq_elem_def MakeFaceQueryFilter_def printable_def)
  let ?p7 = "?p6\<lparr>nfq_LinkType := nfq_LinkType c\<rparr>"
  have 7: "reads (fq_elem H) (opt_item T_LinkType EncodeNNI (nfq_LinkType c)) ?p6 ?p7"
    using assms by (intro reads_opt) (auto intro!: reads_one simp: fq_elem_def MakeFaceQueryFilter_def printable_def)
  have "reads (fq_elem H) (fq_items c) MakeFaceQueryFilter ?p7"
    unfolding fq_items_def by (rule reads_append[OF reads_append[OF reads_append[OF reads_append[OF reads_append[OF reads_append[OF 1 2] 3] 4] 5] 6] 7])
  moreover have "?p7 = c" by (cases c) (simp add: MakeFaceQueryFilter_def)
  ultimately show ?thesis by simp
qed

text \<open>A filter of faces is decoded from its encoding as it was.\<close>

theorem face_query_roundtrip:
  assumes "printable H (nfq_URI c)" "printable H (nfq_LocalURI c)" "length (tlvs (fq_items c)) < 2 ^ 61"
  shows "DecodeFaceQueryFilterFromEncoded H (fst (blk_Wire (fq_Encode c))) = ret c"
proof -
  have w: "fst (blk_Wire (fq_Encode c)) = tlv (T_FaceQueryFilter, tlvs (fq_items c))" using fq_Encode_writes by (simp add: writes_def)
  have l: "length (tlvs (fq_items c)) < 2 ^ 63" using assms(3) by simp
  have "length (tlv (T_FaceQueryFilter, tlvs (fq_items c))) < 2 ^ 63"
    using assms(3) tlv_length_le[of T_FaceQueryFilter "tlvs (fq_items c)"] by simp
  from DecodeBlock_tlv[OF this] have "DecodeBlock (fst (blk_Wire (fq_Encode c)))
      = ret (parsed (T_FaceQueryFilter, tlvs (fq_items c)), of_nat (length (fst (blk_Wire (fq_Encode c)))))"
    unfolding w ret_def by blast
  moreover have "DecodeFaceQueryFilter H (Some (parsed (T_FaceQueryFilter, tlvs (fq_items c)))) = ret c"
    using fq_reads[OF assms(1,2)] unfolding reads_def
    by (auto simp: DecodeFaceQueryFilter_def parse_parsed(1)[OF l]) (simp add: set_subs_def)
  ultimately show ?thesis by (simp add: DecodeFaceQueryFilterFromEncoded_def)
qed

section \<open>ControlResponse\<close>

text \<open>
  A response whose body has another type than a status code and a status text is decoded as it was
  encoded: the body comes back as the block it was written from.
\<close>

theorem control_response_roundtrip:
  assumes "cr_Body c = None \<or> (\<exists>b. cr_Body c = Some b \<and> writes b x \<and> fst x \<notin> {T_StatusCode, T_StatusText})"
    and "length (tlvs ([(T_StatusCode, EncodeNNI (cr_StatusCode c)), (T_StatusText, cr_StatusText c)] @ (if cr_Body c = None then [] else [x]))) < 2 ^ 61"
    and "w = fst (blk_Wire (fst (cr_Encode c)))"
  shows "\<exists>b. DecodeBlock w = Inr (Inr (b, of_nat (length w)))
    \<and> DecodeControlResponse (Some b) = ret (c\<lparr>cr_Body := if cr_Body c = None then None else Some (parsed x)\<rparr>)"
proof -
  let ?ys = "([] @ [(T_StatusCode, EncodeNNI (cr_StatusCode c))]) @ [(T_StatusText, cr_StatusText c)]"
  let ?xs = "?ys @ (if cr_Body c = None then [] else [x])"
  let ?b = "blk_Append (NewBlock T_StatusText (cr_StatusText c)) (blk_Append (EncodeNNIBlock T_StatusCode (cr_StatusCode c)) (NewEmptyBlock T_ControlResponse))"
  have y: "builds ?b T_ControlResponse ?ys" by (intro builds_append builds_empty writes_nni writes_value)
  have "builds (append_opt id (cr_Body c) ?b) T_ControlResponse ?xs"
  proof (cases "cr_Body c")
    case None
    then show ?thesis using y by (simp add: append_opt_def)
  next
    case (Some b)
    then have "writes b x" using assms(1) by auto
    then show ?thesis using builds_append[OF y] Some by (simp add: append_opt_def)
  qed
  from writes_encoded[OF this] have w: "w = tlv (T_ControlResponse, tlvs ?xs)"
    unfolding assms(3) cr_Encode_def Let_def fst_conv by (simp only: writes_def fst_conv)
  have l: "length (tlvs ?xs) < 2 ^ 61" using assms(2) by simp
  then have "length (tlv (T_ControlResponse, tlvs ?xs)) < 2 ^ 63" by (rule tlv_bound)
  from DecodeBlock_tlv[OF this] have "DecodeBlock w = Inr (Inr (parsed (T_ControlResponse, tlvs ?xs), of_nat (length w)))"
    unfolding w by blast
  moreover have "DecodeControlResponse (Some (parsed (T_ControlResponse, tlvs ?xs))) = ret (c\<lparr>cr_Body := if cr_Body c = None then None else Some (parsed x)\<rparr>)"
  proof -
    have "length (tlvs ?xs) < 2 ^ 63" by (rule order.strict_trans[OF l]) simp
    then have "DecodeControlResponse (Some (parsed (T_ControlResponse, tlvs ?xs)))
        = ebind (cr_elems (map parsed ?xs) (False, False, MakeControlResponse 0 [] None)) (\<lambda>(hasStatusCode, hasStatusText, c).
            guard (\<not> hasStatusCode) (ErrText ''missing StatusCode'') (guard (\<not> hasStatusText) (ErrText ''missing StatusText'') (ret c)))"
      by (simp add: DecodeControlResponse_def parse_parsed(1) del: tlvs_simps) (simp add: set_subs_def)
    also have "\<dots> = ret (c\<lparr>cr_Body := if cr_Body c = None then None else Some (parsed x)\<rparr>)"
      using assms(1) by (cases c) (auto simp: MakeControlResponse_def)
    finally show ?thesis .
  qed
  ultimately show ?thesis by blast
qed

section \<open>Segments of a dataset\<close>

lemma number_keys: "nc_key (NewSegmentNameComponent v) = (0x32, EncodeNNI v)" "nc_key (NewVersionNameComponent v) = (0x36, EncodeNNI v)"
  by (simp_all add: NewSegmentNameComponent_def NewVersionNameComponent_def number_new_def nc_key_def nc_Type_def nc_Value_def)

lemma status_segment_simps:
  "map_option keys (d_name (status_segment n v i l c)) = Some (keys n @ [(0x36, EncodeNNI v), (0x32, EncodeNNI i)])"
  "map_option mi_view (d_metaInfo (status_segment n v i l c)) = Some (None, Some 1000000000, Some (0x32, EncodeNNI l))"
  "d_content (status_segment n v i l c) = c"
  by (simp_all add: status_segment_def Let_def NewData_def data_SetMetaInfo_def empty_data_def name_Append_def keys_def name_DeepCopy_def comp_def
      number_keys mi_view_def iface_key_def
      metainfo_SetFinalBlockID_def metainfo_SetFreshnessPeriod_def NewMetaInfo_def)

text \<open>
  The dataset of a status is published under its name with a version and the number of the segment,
  fresh for a second and with the last segment as final block. Every segment holds the dataset from its
  offset to the end instead of 8000 bytes of it, so the segments together are the dataset only when
  there is one of them.
\<close>

theorem MakeStatusDataset_spec:
  fixes name :: Name and version :: u64 and dataset :: bytes
  defines "ds \<equiv> MakeStatusDataset name version dataset" and "k \<equiv> max 1 ((length dataset + 7999) div 8000)"
  shows "map (\<lambda>d. map_option keys (d_name d)) ds
      = map (\<lambda>i. Some (keys name @ [(0x36, EncodeNNI version), (0x32, EncodeNNI (of_nat i))])) [0..<k]
    \<and> map (\<lambda>d. map_option mi_view (d_metaInfo d)) ds = replicate k (Some (None, Some 1000000000, Some (0x32, EncodeNNI (of_nat (k - 1)))))
    \<and> map d_content ds = map (\<lambda>i. drop (8000 * i) dataset) [0..<k]
    \<and> (concat (map d_content ds) = dataset \<longleftrightarrow> length dataset \<le> 8000)"
proof -
  have k: "(length dataset + 7999) div 8000 = 0 \<longleftrightarrow> dataset = []" by (cases dataset) simp_all
  have c: "map d_content ds = map (\<lambda>i. drop (8000 * i) dataset) [0..<k]"
    unfolding ds_def k_def using k by (auto simp: MakeStatusDataset_def Let_def status_segment_simps comp_def)
  moreover have "map (\<lambda>d. map_option keys (d_name d)) ds
      = map (\<lambda>i. Some (keys name @ [(0x36, EncodeNNI version), (0x32, EncodeNNI (of_nat i))])) [0..<k]"
    unfolding ds_def k_def using k by (auto simp: MakeStatusDataset_def Let_def status_segment_simps comp_def max_def)
  moreover have "map (\<lambda>d. map_option mi_view (d_metaInfo d)) ds = replicate k (Some (None, Some 1000000000, Some (0x32, EncodeNNI (of_nat (k - 1)))))"
    unfolding ds_def k_def using k by (auto simp: MakeStatusDataset_def Let_def status_segment_simps comp_def map_replicate_const max_def)
  moreover have "concat (map d_content ds) = dataset \<longleftrightarrow> length dataset \<le> 8000"
  proof (cases "length dataset \<le> 8000")
    case True
    then have "k = 1" unfolding k_def by (cases "length dataset = 0") auto
    then show ?thesis using True by (simp add: c)
  next
    case False
    then have "2 \<le> k" unfolding k_def by auto
    then have "[0..<k] = 0 # 1 # [2..<k]" by (simp add: upt_conv_Cons numeral_2_eq_2)
    then have "length (concat (map d_content ds)) > length dataset" using False by (simp add: c)
    then show ?thesis using False by auto
  qed
  ultimately show ?thesis by blast
qed

end
