(* ===== verification/Config.thy ===== *)
theory Config
  imports Forwarding Transports
begin

text \<open>
  The configuration (\<^verbatim>\<open>src/core/config.go\<close>) and what the packages read from it (\<^verbatim>\<open>Configure\<close> in
  \<^verbatim>\<open>src/table/init.go\<close>, \<^verbatim>\<open>src/face/init.go\<close>, \<^verbatim>\<open>src/fw/init.go\<close> and
  \<^verbatim>\<open>src/mgmt/init.go\<close>). The tree of values that the TOML library makes of the file and the expansion of environment variables
  are arguments.
\<close>

section \<open>Values\<close>

datatype toml_value = TomlBool bool | TomlInt "64 word" | TomlString gostring | TomlStrings "string list" | TomlOther

type_synonym config_tree = "string \<Rightarrow> toml_value option"

definition GetConfigBoolDefault :: "config_tree \<Rightarrow> string \<Rightarrow> bool \<Rightarrow> bool" where
  "GetConfigBoolDefault config key def = (case config key of Some (TomlBool val) \<Rightarrow> val | _ \<Rightarrow> def)"

definition GetConfigIntDefault :: "config_tree \<Rightarrow> string \<Rightarrow> int \<Rightarrow> int" where
  "GetConfigIntDefault config key def =
     (case config key of
        Some (TomlInt val) \<Rightarrow> if sint val \<ge> - (2 ^ 31) \<and> sint val \<le> 2 ^ 31 - 1 then sint val else def
      | _ \<Rightarrow> def)"

definition GetConfigStringDefault :: "config_tree \<Rightarrow> string \<Rightarrow> gostring \<Rightarrow> gostring" where
  "GetConfigStringDefault config key def = (case config key of Some (TomlString val) \<Rightarrow> val | _ \<Rightarrow> def)"

definition GetConfigUint16Default :: "config_tree \<Rightarrow> string \<Rightarrow> u16 \<Rightarrow> u16" where
  "GetConfigUint16Default config key def =
     (case config key of
        Some (TomlInt val) \<Rightarrow> if sint val > 0 \<and> sint val \<le> 65535 then ucast val else def
      | _ \<Rightarrow> def)"

definition GetConfigArrayString :: "config_tree \<Rightarrow> string \<Rightarrow> string list option" where
  "GetConfigArrayString config key = (case config key of Some (TomlStrings val) \<Rightarrow> Some val | _ \<Rightarrow> None)"

section \<open>Tables\<close>

definition Second :: int where "Second = 1000000000"

text \<open>A name that does not parse ends the process.\<close>

definition add_region :: "enc_api \<Rightarrow> string \<Rightarrow> name list \<Rightarrow> name list result" where
  "add_region E region table =
     (case NameFromStr E region of None \<Rightarrow> Inl FatalExit | Some nm \<Rightarrow> Inr (NetworkRegion_Add E table nm))"

definition table_Configure :: "config_tree \<Rightarrow> 's fw_env \<Rightarrow> 's fw_env result" where
  "table_Configure config env =
     (let env = env\<lparr>
            csCapacity := int (unat (GetConfigUint16Default config ''tables.content_store.capacity'' 1024)),
            csAdmit := GetConfigBoolDefault config ''tables.content_store.admit'' True,
            csServe := GetConfigBoolDefault config ''tables.content_store.serve'' True,
            deadNonceListLifetime := GetConfigIntDefault config ''tables.dead_nonce_list.lifetime'' 6000 * Millisecond\<rparr>;
          producerRegions = (case GetConfigArrayString config ''tables.network_region.regions'' of None \<Rightarrow> [] | Some rs \<Rightarrow> rs)
      in rbind (rfold (add_region (env_enc env)) producerRegions (NetworkRegion env))
           (\<lambda>table. Inr (env\<lparr>NetworkRegion := table\<rparr>)))"

section \<open>Faces, forwarding and management\<close>

record face_config =
  faceQueueSize :: int
  congestionMarking :: bool
  ndnEtherType :: int
  EthernetMulticastAddress :: gostring
  UDPUnicastPort :: u16
  TCPUnicastPort :: u16
  UnixSocketPath :: gostring

definition face_Configure :: "config_tree \<Rightarrow> (gostring \<Rightarrow> gostring) \<Rightarrow> face_config" where
  "face_Configure config ExpandEnv =
     \<lparr>faceQueueSize = GetConfigIntDefault config ''faces.queue_size'' 1024,
      congestionMarking = GetConfigBoolDefault config ''faces.congestion_marking'' True,
      ndnEtherType = GetConfigIntDefault config ''faces.ethernet.ethertype'' 0x8624,
      EthernetMulticastAddress = GetConfigStringDefault config ''faces.ethernet.multicast_address'' (lit ''01:00:5e:00:17:aa''),
      UDPUnicastPort = GetConfigUint16Default config ''faces.udp.port_unicast'' 6363,
      TCPUnicastPort = GetConfigUint16Default config ''faces.tcp.port_unicast'' 6363,
      UnixSocketPath = ExpandEnv (GetConfigStringDefault config ''faces.unix.socket_path'' (lit ''/run/nfd/nfd.sock''))\<rparr>"

text \<open>The part of it that the transports read.\<close>

definition transport_Configure :: "config_tree \<Rightarrow> tr_env \<Rightarrow> tr_env" where
  "transport_Configure config E = E\<lparr>
     UDPMulticastPort := GetConfigUint16Default config ''faces.udp.port_multicast'' 56363,
     udp4MulticastAddress := GetConfigStringDefault config ''faces.udp.multicast_address_ipv4'' (lit ''224.0.23.170''),
     udp6MulticastAddress := GetConfigStringDefault config ''faces.udp.multicast_address_ipv6'' (lit ''ff02::114''),
     udpLifetime := int (unat (GetConfigUint16Default config ''faces.udp.lifetime'' 600)) * Second,
     tcpLifetime := int (unat (GetConfigUint16Default config ''faces.tcp.lifetime'' 600)) * Second\<rparr>"

definition fw_Configure :: "config_tree \<Rightarrow> int \<times> int" where
  "fw_Configure config = (GetConfigIntDefault config ''fw.queue_size'' 1024, GetConfigIntDefault config ''fw.threads'' 8)"

definition mgmt_Configure :: "config_tree \<Rightarrow> bool" where
  "mgmt_Configure config = GetConfigBoolDefault config ''mgmt.allow_localhop'' False"

section \<open>What every configuration gives\<close>

lemma Uint16_pos: "0 < def \<Longrightarrow> 0 < GetConfigUint16Default config key def"
proof -
  assume d: "0 < def"
  have "0 < (ucast v :: u16)" if "0 < sint v" "sint v \<le> 65535" for v :: "64 word"
  proof -
    have v: "uint v = sint v" using that by (simp add: uint_sint take_bit_int_eq_self)
    have "uint (ucast v :: u16) = take_bit 16 (uint v)" by (simp add: unsigned_ucast_eq)
    then have "0 < uint (ucast v :: u16)" using that by (simp add: v take_bit_int_eq_self)
    then show ?thesis by (simp add: word_less_def)
  qed
  then show ?thesis using d by (simp add: GetConfigUint16Default_def split: option.splits toml_value.splits)
qed

lemma Uint16_bounds:
  assumes "0 < def"
  shows "1 \<le> int (unat (GetConfigUint16Default config key def))" "int (unat (GetConfigUint16Default config key def)) \<le> 65535"
proof -
  let ?g = "GetConfigUint16Default config key def"
  have "0 < unat ?g" using Uint16_pos[OF assms, of config key] by (simp add: word_less_nat_alt)
  then show "1 \<le> int (unat ?g)" by linarith
  have "unat ?g < 2 ^ LENGTH(16)" by (rule unsigned_less)
  then have "unat ?g < 65536" by simp
  then show "int (unat ?g) \<le> 65535" by linarith
qed

lemma Int_bounds:
  assumes "- (2 ^ 31) \<le> def" "def \<le> 2 ^ 31 - 1"
  shows "- (2 ^ 31) \<le> GetConfigIntDefault config key def" "GetConfigIntDefault config key def \<le> 2 ^ 31 - 1"
  using assms by (auto simp: GetConfigIntDefault_def split: option.splits toml_value.splits)

text \<open>The regions of the table, in order: none equals an earlier one.\<close>

abbreviation regions_distinct :: "enc_api \<Rightarrow> name list \<Rightarrow> bool" where
  "regions_distinct E \<equiv> sorted_wrt (\<lambda>a b. \<not> name_Equal E a b)"

lemma add_regions:
  assumes "rfold (add_region E) rs table = Inr table'" "regions_distinct E table"
  shows "regions_distinct E table' \<and> set table' \<subseteq> set table \<union> {nm. \<exists>r\<in>set rs. NameFromStr E r = Some nm} \<and> set table \<subseteq> set table'"
  using assms
proof (induction rs arbitrary: table)
  case (Cons r rs)
  obtain nm where nm: "NameFromStr E r = Some nm" and rest: "rfold (add_region E) rs (NetworkRegion_Add E table nm) = Inr table'"
    using Cons.prems(1) by (auto simp: rbind_Inr) (auto simp: add_region_def[of E r] split: option.splits)
  have "regions_distinct E (NetworkRegion_Add E table nm)" "set (NetworkRegion_Add E table nm) \<subseteq> insert nm (set table)"
    "set table \<subseteq> set (NetworkRegion_Add E table nm)"
    using Cons.prems(2) by (auto simp: NetworkRegion_Add_def sorted_wrt_append)
  with Cons.IH[OF rest] nm show ?case by auto
qed simp

section \<open>Properties\<close>

text \<open>Whatever the configuration file holds, a table configuration that succeeds gives the Content Store a capacity between 1 and
  65535 and a number of milliseconds in the 32-bit range, possibly negative, to the dead nonce list; the regions are the names of
  the file, none of them twice. The lifetimes of faces are between 1 and 65535 seconds, and no port is 0.\<close>

theorem configured_bounds:
  assumes "table_Configure config env = Inr env'" "NetworkRegion env = []"
  shows "1 \<le> csCapacity env' \<and> csCapacity env' \<le> 65535
    \<and> - (2 ^ 31) * Millisecond \<le> deadNonceListLifetime env' \<and> deadNonceListLifetime env' \<le> (2 ^ 31 - 1) * Millisecond
    \<and> regions_distinct (env_enc env) (NetworkRegion env')
    \<and> (\<forall>nm\<in>set (NetworkRegion env').
         \<exists>rs r. config ''tables.network_region.regions'' = Some (TomlStrings rs) \<and> r \<in> set rs \<and> NameFromStr (env_enc env) r = Some nm)
    \<and> env_fib env' = env_fib env \<and> FaceDispatch env' = FaceDispatch env
    \<and> Second \<le> udpLifetime (transport_Configure config E) \<and> udpLifetime (transport_Configure config E) \<le> 65535 * Second
    \<and> Second \<le> tcpLifetime (transport_Configure config E) \<and> tcpLifetime (transport_Configure config E) \<le> 65535 * Second
    \<and> 0 < UDPMulticastPort (transport_Configure config E)
    \<and> 0 < UDPUnicastPort (face_Configure config x) \<and> 0 < TCPUnicastPort (face_Configure config x)"
proof -
  define rs where "rs = (case GetConfigArrayString config ''tables.network_region.regions'' of None \<Rightarrow> [] | Some rs \<Rightarrow> rs)"
  obtain table where table: "rfold (add_region (env_enc env)) rs [] = Inr table"
    and env': "csCapacity env' = int (unat (GetConfigUint16Default config ''tables.content_store.capacity'' 1024))"
      "deadNonceListLifetime env' = GetConfigIntDefault config ''tables.dead_nonce_list.lifetime'' 6000 * Millisecond"
      "NetworkRegion env' = table" "env_fib env' = env_fib env" "FaceDispatch env' = FaceDispatch env"
    using assms by (auto simp: table_Configure_def Let_def rbind_Inr simp flip: rs_def)
  have mem: "\<exists>rs. config ''tables.network_region.regions'' = Some (TomlStrings rs) \<and> r \<in> set rs" if "r \<in> set rs" for r
    using that by (auto simp: rs_def GetConfigArrayString_def split: option.splits toml_value.splits)
  have regions: "regions_distinct (env_enc env) table" "set table \<subseteq> {nm. \<exists>r\<in>set rs. NameFromStr (env_enc env) r = Some nm}"
    using add_regions[OF table] by simp_all
  have names: "\<exists>rs r. config ''tables.network_region.regions'' = Some (TomlStrings rs) \<and> r \<in> set rs \<and> NameFromStr (env_enc env) r = Some nm"
    if "nm \<in> set table" for nm
    using regions(2) that mem by blast
  have "Millisecond > 0" by (simp add: Millisecond_def)
  then have dnl: "- (2 ^ 31) * Millisecond \<le> deadNonceListLifetime env'" "deadNonceListLifetime env' \<le> (2 ^ 31 - 1) * Millisecond"
    unfolding env'(2) by (intro mult_right_mono Int_bounds; simp)+
  show ?thesis
    using dnl regions(1) names Uint16_bounds[of 1024 config "''tables.content_store.capacity''"]
      Uint16_bounds[of 600 config "''faces.udp.lifetime''"] Uint16_bounds[of 600 config "''faces.tcp.lifetime''"]
    by (auto simp: env' transport_Configure_def face_Configure_def Second_def Uint16_pos)
qed

text \<open>A file whose values are all -1: the capacity is the default, the lifetime of dead nonces is negative.\<close>

theorem configured_bounds_witness:
  "\<exists>env'. table_Configure (\<lambda>key. Some (TomlInt (- 1))) toy_env = Inr env' \<and> csCapacity env' = 1024
     \<and> deadNonceListLifetime env' = - 1000000 \<and> 1 \<le> csCapacity env'"
proof -
  let ?c = "\<lambda>key. Some (TomlInt (- 1))"
  obtain env' where e: "table_Configure ?c toy_env = Inr env'" "csCapacity env' = 1024" "deadNonceListLifetime env' = - 1000000"
    by (simp add: table_Configure_def GetConfigArrayString_def GetConfigUint16Default_def GetConfigIntDefault_def Millisecond_def toy_env_simps)
  from configured_bounds[OF e(1)] e show ?thesis by (simp add: toy_env_simps)
qed

end
