(* ===== verification/Startup.thy ===== *)
theory Startup
  imports Face_Life Config
begin

text \<open>
  The start of the forwarder (\<^verbatim>\<open>src/executor/yanfd.go\<close>), with the constructors of the listeners
  (\<^verbatim>\<open>src/face/*-listener.go\<close>), the null link service (\<^verbatim>\<open>src/face/null-link-service.go\<close>) and the choice
  of the FIB (\<^verbatim>\<open>src/table/init.go\<close>). The values of the configuration, the network interfaces, whether a
  packet capture or a certificate can be opened, and the addresses of new objects are arguments. The goroutines that
  \<^verbatim>\<open>Start\<close> launches run beside it; their steps are those of \<open>net_step\<close> and of management.
\<close>

section \<open>Listeners\<close>

datatype listener = UDPListener URI | TCPListener URI | UnixStreamListener URI int | WebSocketListener URI

definition MakeUDPListener :: "host_api \<Rightarrow> URI \<Rightarrow> listener option" where
  "MakeUDPListener H localURI0 =
     (let localURI = fst (Canonize H localURI0)
      in if \<not> IsCanonical localURI \<or> (scheme localURI \<noteq> lit ''udp4'' \<and> scheme localURI \<noteq> lit ''udp6'') then None
         else Some (UDPListener localURI))"

definition MakeTCPListener :: "host_api \<Rightarrow> URI \<Rightarrow> listener option" where
  "MakeTCPListener H localURI0 =
     (let localURI = fst (Canonize H localURI0)
      in if \<not> IsCanonical localURI \<or> (scheme localURI \<noteq> lit ''tcp4'' \<and> scheme localURI \<noteq> lit ''tcp6'') then None
         else Some (TCPListener localURI))"

definition MakeUnixStreamListener :: "host_api \<Rightarrow> URI \<Rightarrow> listener option" where
  "MakeUnixStreamListener H localURI0 =
     (let localURI = fst (Canonize H localURI0)
      in if \<not> IsCanonical localURI \<or> scheme localURI \<noteq> lit ''unix'' then None else Some (UnixStreamListener localURI 1))"

text \<open>The address on which \<^verbatim>\<open>Run\<close> listens, for UDP and for TCP.\<close>

definition UDPListener_addr :: "URI \<Rightarrow> gostring" where
  "UDPListener_addr u =
     (if scheme u = lit ''udp4'' then PathHost u @ lit '':'' @ FormatUint (unat (port u))
      else lit ''['' @ path u @ lit '']:'' @ FormatUint (unat (port u)))"

definition TCPListener_addr :: "URI \<Rightarrow> gostring" where
  "TCPListener_addr u =
     (if scheme u = lit ''tcp4'' then PathHost u @ lit '':'' @ FormatUint (unat (port u))
      else lit ''['' @ path u @ lit '']:'' @ FormatUint (unat (port u)))"

text \<open>
  \<^verbatim>\<open>URL\<close> joins the host and the port, and the face URI takes them apart again: for a host name or an address
  without brackets these are the fields of the configuration. Whether the certificate loads is an argument.
\<close>

record WebSocketListenerConfig =
  ws_Bind :: gostring
  ws_Port :: u16
  ws_TLSEnabled :: bool

definition ws_URL :: "WebSocketListenerConfig \<Rightarrow> url_parts" where
  "ws_URL cfg = \<lparr>url_User = False, url_Path = [], url_RawQuery = [], url_Fragment = [],
     url_Scheme = (if ws_TLSEnabled cfg then lit ''wss'' else lit ''ws''), url_Hostname = ws_Bind cfg,
     url_Port = FormatUint (unat (ws_Port cfg))\<rparr>"

definition NewWebSocketListener :: "bool \<Rightarrow> WebSocketListenerConfig \<Rightarrow> listener option" where
  "NewWebSocketListener loadable cfg =
     (if ws_TLSEnabled cfg \<and> \<not> loadable then None else Some (WebSocketListener (MakeWebSocketServerFaceURI (ws_URL cfg))))"

section \<open>Tables and threads\<close>

datatype fib_kind = FibNameTree | FibHashTable u16

definition CreateFIBTable :: "config_tree \<Rightarrow> gostring \<Rightarrow> fib_kind result" where
  "CreateFIBTable config fibTableAlgorithm =
     (if fibTableAlgorithm = lit ''hashtable'' then Inr (FibHashTable (GetConfigUint16Default config ''tables.fib.hashtable.m'' 5))
      else if fibTableAlgorithm = lit ''nametree'' then Inr FibNameTree
      else Inl FatalExit)"

definition MaxFwThreads :: int where "MaxFwThreads = 32"

text \<open>A channel of a negative size cannot be made.\<close>

definition start_thread :: "enc_api \<Rightarrow> (u64 \<Rightarrow> component) \<Rightarrow> int \<Rightarrow> nat \<Rightarrow> Thread list \<Rightarrow> Thread list result" where
  "start_thread E vc fwQueueSize i threads =
     (if fwQueueSize < 0 then Inl MakeSliceLen
      else case InstantiateStrategies E vc of
        None \<Rightarrow> Inl FatalExit
      | Some strats \<Rightarrow> Inr (threads @ [NewThread (int i) strats]))"

definition start_threads :: "enc_api \<Rightarrow> (u64 \<Rightarrow> component) \<Rightarrow> int \<times> int \<Rightarrow> Thread list result" where
  "start_threads E vc fwc =
     (case fwc of (fwQueueSize, NumFwThreads) \<Rightarrow>
        if NumFwThreads < 1 \<or> NumFwThreads > MaxFwThreads then Inl FatalExit
        else rfold (start_thread E vc fwQueueSize) [0..<nat NumFwThreads] [])"

section \<open>Interfaces\<close>

record net_iface =
  if_Name :: gostring
  if_Up :: bool
  if_Multicast :: bool
  if_capture :: bool
  if_Addrs :: "ip list option"

text \<open>
  What \<^verbatim>\<open>Start\<close> depends on: the configuration file, the flags of the command line, the environment, and whether the certificate
  of the WebSocket listener can be loaded.
\<close>

record start_config =
  toml :: config_tree
  DisableEthernet :: bool
  DisableUnix :: bool
  ExpandEnv :: "gostring \<Rightarrow> gostring"
  certLoads :: bool

abbreviation faces_of :: "start_config \<Rightarrow> face_config" where
  "faces_of cfg \<equiv> face_Configure (toml cfg) (ExpandEnv cfg)"

definition webSocketConfig :: "config_tree \<Rightarrow> WebSocketListenerConfig" where
  "webSocketConfig config =
     \<lparr>ws_Bind = GetConfigStringDefault config ''faces.websocket.bind'' [],
      ws_Port = GetConfigUint16Default config ''faces.websocket.port'' 9696,
      ws_TLSEnabled = GetConfigBoolDefault config ''faces.websocket.tls_enabled'' False\<rparr>"

text \<open>The null link service and the other new faces, at an address that \<open>alloc\<close> finds unused.\<close>

definition MakeNullLinkService :: "transportBase \<Rightarrow> LinkService" where
  "MakeNullLinkService t = new_link t None"

definition new_face :: "('s, 'z) send_func \<Rightarrow> (('s, 'z) forwarder_scheme \<Rightarrow> addr) \<Rightarrow> LinkService \<Rightarrow> ('s, 'z) forwarder_scheme \<Rightarrow> ('s, 'z) forwarder_scheme result" where
  "new_face f alloc l st = add_face f (alloc st) l st"

text \<open>The variables of \<^verbatim>\<open>Start\<close>: the forwarder, \<^verbatim>\<open>faceCnt\<close>, and the listeners that have been started.\<close>

type_synonym ('s, 'z) starting = "('s, 'z) forwarder_scheme \<times> nat \<times> listener list"

definition link_face :: "('s, 'z) send_func \<Rightarrow> (('s, 'z) forwarder_scheme \<Rightarrow> addr) \<Rightarrow> transportBase \<Rightarrow> ('s, 'z) starting \<Rightarrow> ('s, 'z) starting result" where
  "link_face f alloc t s =
     (case s of (st, faceCnt, ls) \<Rightarrow>
        rbind (new_face f alloc (new_link t (Some MakeNDNLPLinkServiceOptions)) st) (\<lambda>st. Inr (st, faceCnt + 1, ls)))"

definition add_listener :: "listener option \<Rightarrow> ('s, 'z) starting \<Rightarrow> ('s, 'z) starting" where
  "add_listener l s = (case (l, s) of (None, _) \<Rightarrow> s | (Some l, (st, faceCnt, ls)) \<Rightarrow> (st, faceCnt + 1, ls @ [l]))"

text \<open>One address of an interface: its multicast face (\<open>False\<close> when the loop goes on with the next address), and its listeners.\<close>

definition addr_multicast ::
  "tr_env \<Rightarrow> ('s, 'z) send_func \<Rightarrow> (('s, 'z) forwarder_scheme \<Rightarrow> addr) \<Rightarrow> ip \<Rightarrow> URI \<Rightarrow> ('s, 'z) starting \<Rightarrow> (('s, 'z) starting \<times> bool) result" where
  "addr_multicast E f alloc addr u s =
     (if \<not> IsLoopback addr
      then rbind (MakeMulticastUDPTransport E u)
             (\<lambda>t. case t of None \<Rightarrow> Inr (s, False) | Some t \<Rightarrow> rbind (link_face f alloc t s) (\<lambda>s. Inr (s, True)))
      else Inr (s, True))"

definition addr_listeners :: "host_api \<Rightarrow> start_config \<Rightarrow> URI \<Rightarrow> URI \<Rightarrow> ('s, 'z) starting \<Rightarrow> ('s, 'z) starting" where
  "addr_listeners H cfg udp tcp s =
     (case MakeUDPListener H udp of
        None \<Rightarrow> s
      | Some l \<Rightarrow>
          let s = add_listener (Some l) s
          in if GetConfigBoolDefault (toml cfg) ''faces.tcp.enabled'' True then add_listener (MakeTCPListener H tcp) s else s)"

definition start_addr ::
  "tr_env \<Rightarrow> start_config \<Rightarrow> ('s, 'z) send_func \<Rightarrow> (('s, 'z) forwarder_scheme \<Rightarrow> addr) \<Rightarrow> gostring \<Rightarrow> ip \<Rightarrow> ('s, 'z) starting \<Rightarrow> ('s, 'z) starting result" where
  "start_addr E cfg f alloc ifname addr s =
     (let H = te_host E;
          ipVersion = (if To4 addr = None then 6 else 4);
          path = ip_String addr @ (if To4 addr = None then lit ''%'' @ ifname else [])
      in rbind (addr_multicast E f alloc addr (MakeUDPFaceURI H ipVersion path (UDPMulticastPort E)) s)
           (\<lambda>(s, go_on).
              if \<not> go_on then Inr s
              else Inr (addr_listeners H cfg (MakeUDPFaceURI H ipVersion path (UDPUnicastPort (faces_of cfg)))
                          (MakeTCPFaceURI H ipVersion path (TCPUnicastPort (faces_of cfg))) s)))"

definition iface_ethernet ::
  "tr_env \<Rightarrow> start_config \<Rightarrow> ('s, 'z) send_func \<Rightarrow> (('s, 'z) forwarder_scheme \<Rightarrow> addr) \<Rightarrow> net_iface \<Rightarrow> ('s, 'z) starting \<Rightarrow> ('s, 'z) starting result" where
  "iface_ethernet E cfg f alloc ifc s =
     (let multicastEthURI = DecodeURIString (te_host E) (lit ''ether://['' @ EthernetMulticastAddress (faces_of cfg) @ lit '']'')
      in if (GetConfigBoolDefault (toml cfg) ''faces.ethernet.enabled'' True \<and> \<not> DisableEthernet cfg) \<and> if_Multicast ifc
         then (case multicastEthURI of
                 None \<Rightarrow> Inl NilDereference
               | Some u \<Rightarrow>
                   (case MakeMulticastEthernetTransport (if_capture ifc) u (MakeDevFaceURI (te_host E) (if_Name ifc)) of
                      None \<Rightarrow> Inr s
                    | Some t \<Rightarrow> link_face f alloc t s))
         else Inr s)"

definition start_iface ::
  "tr_env \<Rightarrow> start_config \<Rightarrow> ('s, 'z) send_func \<Rightarrow> (('s, 'z) forwarder_scheme \<Rightarrow> addr) \<Rightarrow> net_iface \<Rightarrow> ('s, 'z) starting \<Rightarrow> ('s, 'z) starting result" where
  "start_iface E cfg f alloc ifc s =
     (if \<not> if_Up ifc then Inr s
      else rbind (iface_ethernet E cfg f alloc ifc s)
             (\<lambda>s. case if_Addrs ifc of
                    None \<Rightarrow> Inl FatalExit
                  | Some addrs \<Rightarrow> rfold (start_addr E cfg f alloc (if_Name ifc)) addrs s))"

section \<open>Start\<close>

definition start_local :: "host_api \<Rightarrow> start_config \<Rightarrow> ('s, 'z) starting \<Rightarrow> ('s, 'z) starting" where
  "start_local H cfg s =
     (let s = (if GetConfigBoolDefault (toml cfg) ''faces.unix.enabled'' True \<and> \<not> DisableUnix cfg
               then add_listener (MakeUnixStreamListener H (MakeUnixFaceURI H (UnixSocketPath (faces_of cfg)))) s else s)
      in if GetConfigBoolDefault (toml cfg) ''faces.websocket.enabled'' True
         then add_listener (NewWebSocketListener (certLoads cfg) (webSocketConfig (toml cfg))) s else s)"

definition Start ::
  "tr_env \<Rightarrow> enc_api \<Rightarrow> (u64 \<Rightarrow> component) \<Rightarrow> start_config \<Rightarrow> ('s, 'z) send_func \<Rightarrow> (('s, 'z) forwarder_scheme \<Rightarrow> addr) \<Rightarrow>
   net_iface list option \<Rightarrow> ('s, 'z) forwarder_scheme \<Rightarrow> (fib_kind \<times> Thread list \<times> ('s, 'z) starting) result" where
  "Start E enc vc cfg f alloc ifaces st =
     rbind (CreateFIBTable (toml cfg) (GetConfigStringDefault (toml cfg) ''tables.fib.algorithm'' (lit ''nametree''))) (\<lambda>fib.
     if faceQueueSize (faces_of cfg) < 0 then Inl MakeSliceLen
     else rbind (new_face f alloc (MakeNullLinkService MakeNullTransport) st) (\<lambda>st.
     rbind (start_threads enc vc (fw_Configure (toml cfg))) (\<lambda>threads.
     case ifaces of
       None \<Rightarrow> Inl FatalExit
     | Some ifaces \<Rightarrow>
         rbind (rfold (start_iface E cfg f alloc) ifaces (st, 0, [])) (\<lambda>s.
           let s = start_local (te_host E) cfg s
           in if fst (snd s) \<le> 0 then Inl FatalExit else Inr (fib, threads, s)))))"

section \<open>Stop\<close>

text \<open>
  \<^verbatim>\<open>Stop\<close> closes the faces of the table in the order in which the range over the map yields their identifiers; a face
  that is gone by then is not yielded. It then waits for the faces of the table: the first component is the list of them.
\<close>

definition LinkService_Close :: "'s FibStrategy \<Rightarrow> ('s, 'z) send_func \<Rightarrow> addr \<Rightarrow> ('s, 'z) forwarder_scheme \<Rightarrow> ('s, 'z) forwarder_scheme" where
  "LinkService_Close ops f a st = changeState ops f a Down st"

definition close_face :: "'s FibStrategy \<Rightarrow> ('s, 'z) send_func \<Rightarrow> u64 \<Rightarrow> ('s, 'z) forwarder_scheme \<Rightarrow> ('s, 'z) forwarder_scheme" where
  "close_face ops f i st = (case map_of (Faces st) i of None \<Rightarrow> st | Some a \<Rightarrow> LinkService_Close ops f a st)"

definition Stop_faces :: "'s FibStrategy \<Rightarrow> ('s, 'z) send_func \<Rightarrow> u64 list \<Rightarrow> ('s, 'z) forwarder_scheme \<Rightarrow> addr list \<times> ('s, 'z) forwarder_scheme" where
  "Stop_faces ops f order st = (let st = fold (close_face ops f) order st in (map snd (Faces st), st))"

section \<open>The invariant of the start\<close>

definition fresh_alloc :: "(('s, 'z) forwarder_scheme \<Rightarrow> addr) \<Rightarrow> bool" where
  "fresh_alloc alloc \<longleftrightarrow> (\<forall>st. finite (dom (Links st)) \<longrightarrow> Links st (alloc st) = None)"

abbreviation kind_at :: "('s, 'z) forwarder_scheme \<Rightarrow> addr \<Rightarrow> transport_kind" where
  "kind_at st a \<equiv> tb_kind (tb_at st a)"

text \<open>
  \<open>started\<close>: the faces have the identifiers from 1 on in the order of their creation, the first is the null face and the others are
  multicast faces; \<^verbatim>\<open>faceCnt\<close> counts all of them but the null face, and the listeners; a listener has a canonical URI of its kind.
\<close>

fun listener_ok :: "listener \<Rightarrow> bool" where
  "listener_ok (UDPListener u) \<longleftrightarrow> IsCanonical u \<and> scheme u \<in> {lit ''udp4'', lit ''udp6''}"
| "listener_ok (TCPListener u) \<longleftrightarrow> IsCanonical u \<and> scheme u \<in> {lit ''tcp4'', lit ''tcp6''}"
| "listener_ok (UnixStreamListener u n) \<longleftrightarrow> IsCanonical u \<and> scheme u = lit ''unix'' \<and> n = 1"
| "listener_ok (WebSocketListener u) \<longleftrightarrow> True"

definition started :: "('s, 'z) starting \<Rightarrow> bool" where
  "started s \<longleftrightarrow> (case s of (st, faceCnt, ls) \<Rightarrow>
     life_ok st \<and> finite (dom (Links st)) \<and> nextFaceID st = of_nat (Suc (length (Faces st)))
     \<and> map fst (Faces st) = map of_nat [1..<Suc (length (Faces st))]
     \<and> map (kind_at st) (map snd (take 1 (Faces st))) = [NullTransport]
     \<and> set (map (kind_at st) (map snd (tl (Faces st)))) \<subseteq> {MulticastUDPTransport, MulticastEthernetTransport}
     \<and> Suc faceCnt = length (Faces st) + length ls \<and> list_all listener_ok ls)"

lemma update_new: "map_of xs i = None \<Longrightarrow> AList.update i a xs = xs @ [(i, a)]"
  by (induction xs) (auto split: if_splits)

lemma new_face_eq:
  assumes "keeps_tables f" "fresh_alloc alloc" "life_ok st" "finite (dom (Links st))" "nextFaceID st = of_nat (Suc (length (Faces st)))"
    "map fst (Faces st) = map of_nat [1..<Suc (length (Faces st))]" "Suc (length (Faces st)) < 2 ^ 64" "tb_state (ls_transport l) = Up"
  obtains st' a where "new_face f alloc l st = Inr st'" "can_add (alloc st) st" "life_ok st'" "finite (dom (Links st'))"
    "Faces st' = Faces st @ [(of_nat (Suc (length (Faces st))), a)]" "nextFaceID st' = of_nat (Suc (length (Faces st')))"
    "kind_at st' a = tb_kind (ls_transport l)" "\<And>i b. (i, b) \<in> set (Faces st) \<Longrightarrow> kind_at st' b = kind_at st b" "RibFib st' = RibFib st"
proof -
  let ?a = "alloc st" and ?n = "Suc (length (Faces st))"
  have ca: "can_add ?a st" using assms(2,4,7) by (simp add: fresh_alloc_def can_add_def)
  let ?s = "st\<lparr>Links := (Links st)(?a \<mapsto> l)\<rparr>"
  have "of_nat ?n \<notin> fst ` set (Faces st)"
  proof
    assume "of_nat ?n \<in> fst ` set (Faces st)"
    then have "(of_nat ?n :: u64) \<in> set (map fst (Faces st))" by (simp only: list.set_map)
    then have "(of_nat ?n :: u64) \<in> of_nat ` set [1..<?n]" by (simp only: assms(6) list.set_map)
    then obtain j where j: "(of_nat ?n :: u64) = of_nat j" "j < ?n" by auto
    have "unat (of_nat ?n :: u64) = ?n" using assms(7) by (simp add: unat_of_nat take_bit_nat_eq_self del: of_nat_Suc)
    moreover have "unat (of_nat j :: u64) = j" using assms(7) j(2) by (simp add: unat_of_nat take_bit_nat_eq_self del: of_nat_Suc)
    ultimately show False using j by simp
  qed
  then have new: "map_of (Faces st) (of_nat ?n) = None" by (simp add: map_of_eq_None_iff)
  then have nf: "next_free (Faces ?s) (nextFaceID ?s) = Some (of_nat ?n, of_nat ?n + 1)"
    by (subst next_free.simps) (simp add: assms(5))
  have la: "Links ?s ?a = Some l" by simp
  obtain st' where st': "Table_Add f ?a ?s = Some st'" "Faces st' = AList.update (of_nat ?n) ?a (Faces ?s)" "nextFaceID st' = of_nat ?n + 1"
      "Links st' = (Links ?s)(?a \<mapsto> ls_SetFaceID (of_nat ?n) l)" "RibFib st' = RibFib ?s"
    by (rule Table_Add_eq[OF assms(1) nf la]) (rule that)
  have add: "add_face f ?a l st = Inr st'" by (simp add: add_face_def st'(1))
  have F: "Faces st' = Faces st @ [(of_nat ?n, ?a)]" using st'(2) update_new[OF new] by simp
  have "(i, ?a) \<notin> set (Faces st)" for i using ca assms(3) by (auto simp: can_add_def life_ok_def dest: ft_invD)
  then have old: "\<And>i b. (i, b) \<in> set (Faces st) \<Longrightarrow> kind_at st' b = kind_at st b" by (auto simp: link_at_def st'(4))
  show thesis
  proof (rule that[of st' ?a])
    show "new_face f alloc l st = Inr st'" by (simp add: new_face_def add)
    show "life_ok st'" by (rule add_face_life[OF assms(3,1) ca add assms(8)])
    show "finite (dom (Links st'))" using assms(4) by (simp add: st'(4))
    show "nextFaceID st' = of_nat (Suc (length (Faces st')))" using st'(3) by (simp add: F)
    show "kind_at st' ?a = tb_kind (ls_transport l)" by (simp add: link_at_def st'(4) ls_SetFaceID_def)
  qed (use ca F old st'(5) in simp_all)
qed

text \<open>\<open>goes n s s'\<close>: if there is room for \<open>n\<close> more faces, the invariant holds on, by steps of \<open>net_step\<close>.\<close>

definition goes :: "tr_env \<Rightarrow> 's FibStrategy \<Rightarrow> ('s, 'z) send_func \<Rightarrow> nat \<Rightarrow> ('s, 'z) starting \<Rightarrow> ('s, 'z) starting \<Rightarrow> bool" where
  "goes E ops f n s s' \<longleftrightarrow>
     (started s \<and> length (Faces (fst s)) + n < 2 ^ 64 \<longrightarrow>
      started s' \<and> length (Faces (fst s')) \<le> length (Faces (fst s)) + n
      \<and> (net_step E ops f)\<^sup>*\<^sup>* (fst s) (fst s') \<and> RibFib (fst s') = RibFib (fst s))"

lemma goes_refl [simp]: "goes E ops f n s s"
  by (simp add: goes_def)

lemma goes_trans: "goes E ops f n s s' \<Longrightarrow> goes E ops f m s' s'' \<Longrightarrow> goes E ops f (n + m) s s''"
  unfolding goes_def by (auto intro: rtranclp_trans)

lemma goes_mono: "goes E ops f n s s' \<Longrightarrow> n \<le> m \<Longrightarrow> goes E ops f m s s'"
  unfolding goes_def by auto

lemma goes_rfold:
  assumes "\<And>x s s'. x \<in> set xs \<Longrightarrow> g x s = Inr s' \<Longrightarrow> goes E ops f (w x) s s'" "rfold g xs s = Inr s'"
  shows "goes E ops f (sum_list (map w xs)) s s'"
  using assms by (induction xs arbitrary: s) (fastforce simp: rbind_Inr intro: goes_trans)+

lemma add_listener_goes: "(\<And>x. l = Some x \<Longrightarrow> listener_ok x) \<Longrightarrow> goes E ops f n s (add_listener l s)"
  by (cases s; cases l) (auto simp: goes_def add_listener_def started_def)

lemma listeners_ok:
  "MakeUDPListener H u = Some l \<Longrightarrow> listener_ok l" "MakeTCPListener H u = Some l \<Longrightarrow> listener_ok l"
  "MakeUnixStreamListener H u = Some l \<Longrightarrow> listener_ok l" "NewWebSocketListener c w = Some l \<Longrightarrow> listener_ok l"
  by (auto simp: MakeUDPListener_def MakeTCPListener_def MakeUnixStreamListener_def NewWebSocketListener_def Let_def split: if_splits)

lemma link_face_goes:
  assumes "keeps_tables f" "fresh_alloc alloc" "link_face f alloc t s = Inr s'" "tb_state t = Up"
    "tb_kind t = MulticastUDPTransport \<or> tb_kind t = MulticastEthernetTransport"
    "\<And>a st st'. can_add a st \<Longrightarrow> add_face f a (new_link t (Some MakeNDNLPLinkServiceOptions)) st = Inr st' \<Longrightarrow> net_step E ops f st st'"
  shows "goes E ops f 1 s s'"
  unfolding goes_def
proof (rule impI, elim conjE)
  obtain st c ls where s: "s = (st, c, ls)" by (cases s)
  assume st: "started s" and room: "length (Faces (fst s)) + 1 < 2 ^ 64"
  let ?l = "new_link t (Some MakeNDNLPLinkServiceOptions)"
  have inv: "life_ok st" "finite (dom (Links st))" "nextFaceID st = of_nat (Suc (length (Faces st)))"
    "map fst (Faces st) = map of_nat [1..<Suc (length (Faces st))]" and room': "Suc (length (Faces st)) < 2 ^ 64"
    using st room by (simp_all add: s started_def)
  obtain st' a where st': "new_face f alloc ?l st = Inr st'" "can_add (alloc st) st" "life_ok st'" "finite (dom (Links st'))"
    "Faces st' = Faces st @ [(of_nat (Suc (length (Faces st))), a)]" "nextFaceID st' = of_nat (Suc (length (Faces st')))"
    "kind_at st' a = tb_kind (ls_transport ?l)" "\<And>i b. (i, b) \<in> set (Faces st) \<Longrightarrow> kind_at st' b = kind_at st b" "RibFib st' = RibFib st"
    by (rule new_face_eq[OF assms(1,2) inv room', of ?l]) (simp add: assms(4), rule that)
  have s': "s' = (st', c + 1, ls)" using assms(3) st'(1) by (simp add: s link_face_def)
  obtain i b rest where F: "Faces st = (i, b) # rest" using st by (cases "Faces st") (auto simp: s started_def)
  have ids: "map fst (Faces st') = map of_nat [1..<Suc (length (Faces st'))]"
    using inv(4) by (simp add: st'(5) upt_Suc_append del: of_nat_Suc upt_Suc)
  have "kind_at st' b = NullTransport" using st st'(8)[of i b] by (simp add: s started_def F)
  moreover have "set (map (kind_at st') (map snd rest)) = set (map (kind_at st) (map snd rest))"
    using st'(8) by (auto simp: F image_iff) force+
  ultimately have "started s'"
    using st st'(3,4,6,7) ids assms(5) by (auto simp: s s' started_def st'(5) F)
  moreover have "net_step E ops f st st'" using assms(6) st'(1,2) by (simp add: new_face_def)
  ultimately show "started s' \<and> length (Faces (fst s')) \<le> length (Faces (fst s)) + 1
      \<and> (net_step E ops f)\<^sup>*\<^sup>* (fst s) (fst s') \<and> RibFib (fst s') = RibFib (fst s)"
    using st'(9) by (simp add: s s' st'(5) r_into_rtranclp)
qed

lemma addr_multicast_goes:
  assumes "keeps_tables f" "fresh_alloc alloc" "addr_multicast E f alloc addr u s = Inr (s', b)"
  shows "goes E ops f 1 s s'"
proof -
  have mc: "goes E ops f 1 s s1"
    if "MakeMulticastUDPTransport E u = Inr (Some t)" "link_face f alloc t s = Inr s1" for t s1
    by (rule link_face_goes[OF assms(1,2) that(2)])
      (use multicast_up(1)[OF that(1)] net_step.multicast_udp[OF _ that(1)] in simp_all)
  show ?thesis using assms(3) mc by (auto simp: addr_multicast_def rbind_Inr split: if_splits option.splits)
qed

lemma addr_listeners_goes: "goes E ops f 0 s (addr_listeners H cfg u v s)"
proof (cases "MakeUDPListener H u")
  case (Some l)
  let ?k = "if GetConfigBoolDefault (toml cfg) ''faces.tcp.enabled'' True then MakeTCPListener H v else None"
  have eq: "addr_listeners H cfg u v s = add_listener ?k (add_listener (Some l) s)"
    by (cases s) (simp add: addr_listeners_def Some add_listener_def Let_def)
  have "goes E ops f (0 + 0) s (addr_listeners H cfg u v s)"
    unfolding eq using listeners_ok(1)[OF Some] listeners_ok(2)[of H v]
    by (intro goes_trans[OF add_listener_goes add_listener_goes]) (auto split: if_splits)
  then show ?thesis by simp
qed (simp add: addr_listeners_def)

lemma start_addr_goes:
  assumes "keeps_tables f" "fresh_alloc alloc" "start_addr E cfg f alloc ifname addr s = Inr s'"
  shows "goes E ops f 1 s s'"
proof -
  obtain u v w s1 b where 1: "addr_multicast E f alloc addr u s = Inr (s1, b)"
    and 2: "s' = s1 \<or> s' = addr_listeners (te_host E) cfg v w s1"
    using assms(3) unfolding start_addr_def Let_def rbind_Inr by (elim exE conjE) (simp split: prod.splits if_splits; metis)
  have "goes E ops f 0 s1 s'" using 2 addr_listeners_goes[of E ops f s1 "te_host E" cfg v w] by (elim disjE) simp_all
  from goes_trans[OF addr_multicast_goes[OF assms(1,2) 1] this] show ?thesis by simp
qed

definition iface_faces :: "net_iface \<Rightarrow> nat" where
  "iface_faces ifc = 1 + (case if_Addrs ifc of None \<Rightarrow> 0 | Some addrs \<Rightarrow> length addrs)"

lemma iface_ethernet_goes:
  assumes "keeps_tables f" "fresh_alloc alloc" "iface_ethernet E cfg f alloc ifc s = Inr s'"
  shows "goes E ops f 1 s s'"
proof -
  have mc: "goes E ops f 1 s s1"
    if "MakeMulticastEthernetTransport act u v = Some t" "link_face f alloc t s = Inr s1" for t s1 act u v
    by (rule link_face_goes[OF assms(1,2) that(2)])
      (use multicast_up(2)[OF that(1)] net_step.multicast_ethernet[OF _ that(1)] in simp_all)
  show ?thesis using assms(3) mc unfolding iface_ethernet_def Let_def by (auto split: if_splits option.splits)
qed

lemma start_iface_goes:
  assumes "keeps_tables f" "fresh_alloc alloc" "start_iface E cfg f alloc ifc s = Inr s'"
  shows "goes E ops f (iface_faces ifc) s s'"
proof (cases "if_Up ifc")
  case True
  obtain addrs s1 where 1: "iface_ethernet E cfg f alloc ifc s = Inr s1" and A: "if_Addrs ifc = Some addrs"
    and 2: "rfold (start_addr E cfg f alloc (if_Name ifc)) addrs s1 = Inr s'"
    using assms(3) True unfolding start_iface_def by (simp add: rbind_Inr) (metis (no_types, lifting) Inl_Inr_False option.case_eq_if option.collapse)
  have "goes E ops f (sum_list (map (\<lambda>_. 1) addrs)) s1 s'"
    by (rule goes_rfold[OF start_addr_goes[OF assms(1,2)] 2])
  from goes_trans[OF iface_ethernet_goes[OF assms(1,2) 1] this] show ?thesis by (simp add: iface_faces_def A sum_list_triv)
qed (use assms(3) in \<open>simp add: start_iface_def\<close>)

text \<open>The null face, the first one of the table.\<close>

lemma null_face_started:
  assumes "keeps_tables f" "fresh_alloc alloc" "Faces st = []" "Dispatch st = Map.empty" "nextFaceID st = 1" "finite (dom (Links st))"
    "new_face f alloc (MakeNullLinkService MakeNullTransport) st = Inr st'"
  shows "started (st', 0, [])" "net_step E ops f st st'" "RibFib st' = RibFib st" "length (Faces st') = 1"
proof -
  let ?l = "MakeNullLinkService MakeNullTransport"
  have inv: "life_ok st" "nextFaceID st = of_nat (Suc (length (Faces st)))"
    "map fst (Faces st) = map of_nat [1..<Suc (length (Faces st))]" "Suc (length (Faces st)) < 2 ^ 64"
    using assms(3-5) by (simp_all add: life_ok_def ft_inv_def faces_up_def)
  obtain st1 a where st1: "new_face f alloc ?l st = Inr st1" "can_add (alloc st) st" "life_ok st1" "finite (dom (Links st1))"
    "Faces st1 = Faces st @ [(of_nat (Suc (length (Faces st))), a)]" "nextFaceID st1 = of_nat (Suc (length (Faces st1)))"
    "kind_at st1 a = tb_kind (ls_transport ?l)" "\<And>i b. (i, b) \<in> set (Faces st) \<Longrightarrow> kind_at st1 b = kind_at st b" "RibFib st1 = RibFib st"
    by (rule new_face_eq[OF assms(1,2) inv(1) assms(6) inv(2-4), of ?l]) (simp add: MakeNullLinkService_def multicast_up, rule that)
  have [simp]: "st1 = st'" using st1(1) assms(7) by simp
  show "started (st', 0, [])" using st1(3-7) by (simp add: started_def assms(3) MakeNullLinkService_def multicast_up)
  show "net_step E ops f st st'"
    using net_step.null[OF st1(2), of f st' E ops] assms(7) by (simp add: new_face_def MakeNullLinkService_def)
  show "RibFib st' = RibFib st" "length (Faces st') = 1" using st1(5,9) by (simp_all add: assms(3))
qed

lemma start_local_goes: "goes E ops f 0 s (start_local H cfg s)"
proof -
  have "goes E ops f (0 + 0) s (start_local H cfg s)"
    unfolding start_local_def Let_def using listeners_ok(3,4)
    by (intro goes_trans[where s' = "if GetConfigBoolDefault (toml cfg) ''faces.unix.enabled'' True \<and> \<not> DisableUnix cfg
          then add_listener (MakeUnixStreamListener H (MakeUnixFaceURI H (UnixSocketPath (faces_of cfg)))) s else s"])
      (auto intro!: add_listener_goes)
  then show ?thesis by simp
qed

lemma start_threads_Inr:
  assumes "start_threads E vc fwc = Inr threads"
  obtains strats where "InstantiateStrategies E vc = Some strats" "1 \<le> snd fwc" "snd fwc \<le> 32" "0 \<le> fst fwc"
    "threads = map (\<lambda>i. NewThread (int i) strats) [0..<nat (snd fwc)]"
proof -
  obtain q n where fwc: "fwc = (q, n)" by (cases fwc)
  have n: "1 \<le> n" "n \<le> 32" and run: "rfold (start_thread E vc q) [0..<nat n] [] = Inr threads"
    using assms by (auto simp: start_threads_def fwc MaxFwThreads_def split: if_splits)
  obtain strats where strats: "InstantiateStrategies E vc = Some strats" and q: "0 \<le> q"
    using run n(1) by (auto simp: upt_rec[of 0] rbind_Inr start_thread_def not_less split: if_splits option.splits)
  have "rfold (start_thread E vc q) is xs = Inr (xs @ map (\<lambda>i. NewThread (int i) strats) is)" for "is" xs
    using q by (induction "is" arbitrary: xs) (simp_all add: start_thread_def strats)
  with run have "threads = map (\<lambda>i. NewThread (int i) strats) [0..<nat n]" by simp
  then show thesis using n q by (intro that[OF strats]) (simp_all only: fwc fst_conv snd_conv)
qed

lemma close_face_eq:
  assumes "life_ok st" "keeps_tables f"
  shows "Faces (close_face ops f i st) = AList.delete i (Faces st)" "life_ok (close_face ops f i st)"
proof -
  show "life_ok (close_face ops f i st)"
    using changeState_life[OF assms] assms(1) by (simp add: close_face_def LinkService_Close_def split: option.split)
  show "Faces (close_face ops f i st) = AList.delete i (Faces st)"
  proof (cases "map_of (Faces st) i")
    case None
    then have "i \<notin> fst ` set (Faces st)" by (simp add: map_of_eq_None_iff)
    then show ?thesis by (simp add: close_face_def None AList.delete_idem)
  next
    case (Some a)
    then have m: "(i, a) \<in> set (Faces st)" by (rule map_of_SomeD)
    then have "tb_state (tb_at st a) = Up" "tb_faceID (tb_at st a) = i"
      using assms(1) ft_invD[of st i a] by (auto simp: life_ok_def faces_up_def link_at_def)
    then show ?thesis
      using Table_Remove_eq(1)[OF assms(2)] by (simp add: close_face_def Some LinkService_Close_def changeState_def Let_def upd_link_def)
  qed
qed

lemma close_faces_eq:
  assumes "life_ok st" "keeps_tables f"
  shows "Faces (fold (close_face ops f) is st) = filter (\<lambda>(i, a). i \<notin> set is) (Faces st) \<and> life_ok (fold (close_face ops f) is st)"
  using assms(1)
proof (induction "is" arbitrary: st)
  case (Cons i "is")
  from close_face_eq[OF Cons.prems assms(2)] Cons.IH show ?case
    by (auto simp: AList.delete_eq filter_filter intro: filter_cong)
qed simp

section \<open>Properties\<close>

text \<open>The loop of \<^verbatim>\<open>Stop\<close> that waits for the faces to quit waits for none: closing a face takes it out of the table that the
  loop ranges over.\<close>

theorem Stop_waits_for_none:
  assumes "life_ok st" "keeps_tables f" "fst ` set (Faces st) \<subseteq> set order"
  shows "fst (Stop_faces ops f order st) = [] \<and> Faces (snd (Stop_faces ops f order st)) = [] \<and> Dispatch (snd (Stop_faces ops f order st)) = Map.empty"
proof -
  have "Faces (fold (close_face ops f) order st) = []"
    using close_faces_eq[OF assms(1,2)] assms(3) by (force simp: filter_empty_conv)
  moreover have "ft_inv (fold (close_face ops f) order st)" using close_faces_eq[OF assms(1,2)] by (simp add: life_ok_def)
  ultimately show ?thesis by (auto simp: Stop_faces_def Let_def ft_inv_def)
qed


definition toy_start :: start_config where
  "toy_start = \<lparr>toml = [''fw.threads'' \<mapsto> TomlInt 2, ''faces.unix.enabled'' \<mapsto> TomlBool False], DisableEthernet = False,
     DisableUnix = False, ExpandEnv = id, certLoads = False\<rparr>"

definition toy_lo :: net_iface where
  "toy_lo = \<lparr>if_Name = lit ''lo'', if_Up = True, if_Multicast = False, if_capture = False, if_Addrs = Some [v4_prefix @ [127, 0, 0, 1]]\<rparr>"

definition toy_alloc :: "('s, 'z) forwarder_scheme \<Rightarrow> addr" where
  "toy_alloc st = Suc (Max (insert 0 (dom (Links st))))"

lemma toy_alloc_fresh: "fresh_alloc toy_alloc"
  unfolding fresh_alloc_def toy_alloc_def
proof (intro allI impI)
  fix st :: "('s, 'z) forwarder_scheme"
  assume fin: "finite (dom (Links st))"
  have "Suc (Max (insert 0 (dom (Links st)))) \<notin> dom (Links st)"
  proof
    assume "Suc (Max (insert 0 (dom (Links st)))) \<in> dom (Links st)"
    then have "Suc (Max (insert 0 (dom (Links st)))) \<le> Max (insert 0 (dom (Links st)))" using fin by (intro Max_ge) simp_all
    then show False by simp
  qed
  then show "Links st (Suc (Max (insert 0 (dom (Links st))))) = None" by blast
qed

lemma toy_lo_starts: "\<exists>s'. rfold (start_iface toy_tr toy_start f alloc) [toy_lo] s = Inr s'"
proof -
  have "IsLoopback (v4_prefix @ [127, 0, 0, 1])" by (simp add: IsLoopback_def To4_def v4_prefix_def)
  then show ?thesis
    by (simp add: start_iface_def iface_ethernet_def toy_lo_def start_addr_def addr_multicast_def Let_def del: split_paired_Ex)
qed

lemma toy_start_values:
  "CreateFIBTable (toml toy_start) (GetConfigStringDefault (toml toy_start) ''tables.fib.algorithm'' (lit ''nametree'')) = Inr FibNameTree"
  "faceQueueSize (faces_of toy_start) = 1024" "fw_Configure (toml toy_start) = (1024, 2)"
  by (simp_all add: toy_start_def CreateFIBTable_def GetConfigStringDefault_def face_Configure_def fw_Configure_def GetConfigIntDefault_def)


text \<open>A forwarder that has only created its null face.\<close>

theorem Stop_waits_for_none_witness:
  "\<exists>st. new_face None toy_alloc (MakeNullLinkService MakeNullTransport) (toy_forwarder\<lparr>Links := Map.empty\<rparr>) = Inr st
     \<and> map fst (Faces st) = [1] \<and> fst (Stop_faces (tree_ops toy_enc) None [1] st) = []"
proof -
  let ?s = "toy_forwarder\<lparr>Links := Map.empty\<rparr>" and ?l = "MakeNullLinkService MakeNullTransport"
  have s: "Faces ?s = []" "nextFaceID ?s = 1" "finite (dom (Links ?s))" "life_ok ?s"
    by (simp_all add: toy_forwarder_def life_ok_def ft_inv_def faces_up_def)
  obtain st a where st: "new_face None toy_alloc ?l ?s = Inr st" "life_ok st" "Faces st = Faces ?s @ [(of_nat (Suc (length (Faces ?s))), a)]"
    by (rule new_face_eq[OF keeps_tables_None toy_alloc_fresh s(4,3), of ?l])
      (use s(1,2) in \<open>simp_all add: MakeNullLinkService_def multicast_up\<close>)
  have F: "Faces st = [(1, a)]" using st(3) by (simp add: s(1))
  then have "fst ` set (Faces st) \<subseteq> set [1]" by simp
  from Stop_waits_for_none[OF st(2) keeps_tables_None this, of "tree_ops toy_enc"] st(1) F show ?thesis by auto
qed

end
