(* ===== verification/Dashboard.thy ===== *)
theory Dashboard
  imports Mgmt_Props Config
begin

text \<open>
  The web user interface (\<^verbatim>\<open>src/cmd/yanfdui/server/server.go\<close>), which runs in the process of the forwarder. A handler is a function
  from the request and the forwarder's state to what it does to the response: redirections, and the rendering of a
  template with its input. The templates, the version and the times of the status page, and the writing of the configuration file are
  left out. \<^verbatim>\<open>sort.Slice\<close> leaves the order of equal elements open; here it is that of the input.
\<close>

section \<open>Numbers and sorting\<close>

text \<open>\<^verbatim>\<open>strconv.ParseUint\<close> in base 10 with its value on errors, and \<^verbatim>\<open>strconv.Atoi\<close>: the value, and whether there is an error.\<close>

fun parse_uint_loop :: "gostring \<Rightarrow> nat \<Rightarrow> nat \<Rightarrow> nat \<times> bool" where
  "parse_uint_loop [] n maxVal = (n, False)"
| "parse_uint_loop (c # cs) n maxVal =
     (if 48 \<le> c \<and> c \<le> 57
      then let n1 = 10 * n + (unat c - 48) in if n1 > maxVal then (maxVal, True) else parse_uint_loop cs n1 maxVal
      else (0, True))"

definition ParseUint_err :: "gostring \<Rightarrow> nat \<Rightarrow> nat \<times> bool" where
  "ParseUint_err s bits = (if s = [] then (0, True) else parse_uint_loop s 0 (2 ^ bits - 1))"

definition Atoi_err :: "gostring \<Rightarrow> int \<times> bool" where
  "Atoi_err s =
     (if s = [] then (0, True)
      else
        let neg = (hd s = 45);
            (un, e) = ParseUint_err (if hd s = 43 \<or> hd s = 45 then tl s else s) 64
        in if e \<and> un = 0 then (0, True)
           else if \<not> neg \<and> un \<ge> 2 ^ 63 then (2 ^ 63 - 1, True)
           else if neg \<and> un > 2 ^ 63 then (- (2 ^ 63), True)
           else (if neg then - int un else int un, False))"

fun string_less :: "gostring \<Rightarrow> gostring \<Rightarrow> bool" where
  "string_less _ [] = False"
| "string_less [] (_ # _) = True"
| "string_less (a # as) (b # bs) = (a < b \<or> a = b \<and> string_less as bs)"

primrec insert_by :: "('a \<Rightarrow> 'a \<Rightarrow> bool) \<Rightarrow> 'a \<Rightarrow> 'a list \<Rightarrow> 'a list" where
  "insert_by lt x [] = [x]"
| "insert_by lt x (y # ys) = (if lt x y then x # y # ys else y # insert_by lt x ys)"

definition sort_Slice :: "('a \<Rightarrow> 'a \<Rightarrow> bool) \<Rightarrow> 'a list \<Rightarrow> 'a list" where
  "sort_Slice lt xs = fold (insert_by lt) xs []"

section \<open>The data of the pages\<close>

record faceListEntry =
  fle_FaceID :: u64
  fle_Uri :: gostring
  fle_LocalUri :: gostring

record faceData =
  fd_FaceID :: u64
  fd_Uri :: gostring
  fd_LocalUri :: gostring
  fd_Mtu :: u64
  fd_NInInterests :: u64
  fd_NInData :: u64
  fd_NOutInterests :: u64
  fd_NOutData :: u64

record faceRouteData =
  frd_Route :: gostring
  frd_Cost :: u64

record routeBrief =
  rb_Prefix :: gostring
  rb_RouteCount :: int

record routeHops =
  rh_FaceID :: u64
  rh_Uri :: gostring
  rh_Cost :: u64
  rh_Origin :: u64
  rh_Flags :: u64

record ui_strategy =
  us_Name :: gostring
  us_Strategy :: gostring

datatype setting_kind = KString | KUint16 | KInt | KBool

datatype setting_value = VString gostring | VUint16 u16 | VInt u64 | VBool bool

record renderInput =
  ReferName :: string
  MenuList :: "(string \<times> string) list"
  Status :: "(string \<times> gostring) list"
  FaceList :: "faceListEntry list"
  FaceData :: "faceData option"
  RouteData :: "faceRouteData list"
  ui_StatusCode :: int
  ui_StatusMsg :: gostring
  FibList :: "routeBrief list"
  RibList :: "routeBrief list"
  RequestName :: gostring
  FibHops :: "routeHops list"
  RibHops :: "routeHops list"
  Strategies :: "ui_strategy list"
  Setting :: "(string \<times> setting_value) list"

definition menus :: "(string \<times> string) list" where
  "menus = [(''/forwarder-status'', ''Forwarder Status''), (''/faces'', ''Faces''), (''/routing'', ''Routing''),
            (''/strategies'', ''Strategies''), (''/config'', ''Configuration'')]"

definition new_input :: "string \<Rightarrow> renderInput" where
  "new_input refer = \<lparr>ReferName = refer, MenuList = menus, Status = [], FaceList = [], FaceData = None, RouteData = [], ui_StatusCode = 0,
     ui_StatusMsg = [], FibList = [], RibList = [], RequestName = [], FibHops = [], RibHops = [], Strategies = [], Setting = []\<rparr>"

text \<open>A request: the path behind the name of the page, and the form.\<close>

record http_request =
  action :: string
  Form :: "string \<Rightarrow> gostring"

datatype http_event = Redirect string | ExecuteTemplate string renderInput

definition notImplemented :: "string \<Rightarrow> http_event" where
  "notImplemented url = Redirect (url @ ''?status_code=-1&status_text=Not%20Implemented'')"

definition with_status :: "http_request \<Rightarrow> renderInput \<Rightarrow> renderInput" where
  "with_status req input =
     (let stCodeStr = Form req ''status_code''
      in if stCodeStr = [] then input
         else case Atoi_err stCodeStr of
                (stCode, False) \<Rightarrow> input\<lparr>ui_StatusCode := stCode, ui_StatusMsg := Form req ''status_text''\<rparr>
              | (_, True) \<Rightarrow> input)"

section \<open>Status\<close>

definition forwarderStatus :: "'s mg_env \<Rightarrow> ('s, 'z) forwarder_scheme \<Rightarrow> http_event list result" where
  "forwarderStatus env st = rbind (on_fw_threads env) (\<lambda>ts.
     let total = (\<lambda>f. sum_list (map f ts) :: u64);
         num = (\<lambda>n :: u64. FormatUint (unat n));
         nFibEntries = of_nat (length (GetAllFIBEntries (me_ops env) (snd (RibFib st))))
     in Inr [ExecuteTemplate ''forwarder-status.go.tmpl'' ((new_input ''/forwarder-status'')\<lparr>Status :=
          [(''Entries FIB PIT CS'', lit ''fib='' @ num nFibEntries @ lit '' pit='' @ num (total (\<lambda>t. of_int (GetNumPitEntries t)))
              @ lit '' cs='' @ num (total (\<lambda>t. of_int (GetNumCsEntries t)))),
           (''Counter IN'', num (total Thread.NInInterests) @ lit ''i '' @ num (total Thread.NInData) @ lit ''d''),
           (''Counter OUT'', num (total Thread.NOutInterests) @ lit ''i '' @ num (total Thread.NOutData) @ lit ''d''),
           (''INT Sat/Unsat'', num (total Thread.NSatisfiedInterests) @ lit '' / '' @ num (total Thread.NUnsatisfiedInterests))]\<rparr>)])"

section \<open>Faces\<close>

definition name_text :: "'s mg_env \<Rightarrow> name option \<Rightarrow> gostring" where
  "name_text env n = lit (name_String (me_lp env) (nil_to_empty n))"

definition face_data :: "LinkService \<Rightarrow> faceData" where
  "face_data f = \<lparr>fd_FaceID = ls_faceID f, fd_Uri = uri_String (RemoteURI f), fd_LocalUri = uri_String (LocalURI f),
     fd_Mtu = of_int (tb_mtu (ls_transport f)), fd_NInInterests = ls_NInInterests f, fd_NInData = ls_NInData f,
     fd_NOutInterests = ls_NOutInterests f, fd_NOutData = ls_NOutData f\<rparr>"

definition face_routes :: "'s mg_env \<Rightarrow> u64 \<Rightarrow> ('s, 'z) forwarder_scheme \<Rightarrow> faceRouteData list" where
  "face_routes env fid st =
     concat (map (\<lambda>entry. map (\<lambda>nh. \<lparr>frd_Route = name_text env (fse_name entry), frd_Cost = Cost nh\<rparr>)
                            (filter (\<lambda>nh. Nexthop nh = fid) (fse_nexthops entry)))
               (GetAllFIBEntries (me_ops env) (snd (RibFib st))))"

definition face_detail :: "'s mg_env \<Rightarrow> gostring \<Rightarrow> LinkService list \<Rightarrow> ('s, 'z) forwarder_scheme \<Rightarrow> renderInput \<Rightarrow> renderInput" where
  "face_detail env faceIdStr faces st input =
     (if faceIdStr = [] then input
      else case ParseUint faceIdStr 64 of
        None \<Rightarrow> input
      | Some n \<Rightarrow>
          (let fid = of_nat n
           in case List.find (\<lambda>f. ls_faceID f = fid) faces of
                None \<Rightarrow> input
              | Some f \<Rightarrow> input\<lparr>FaceData := Some (face_data f),
                    RouteData := sort_Slice (\<lambda>a b. string_less (frd_Route a) (frd_Route b)) (face_routes env fid st)\<rparr>))"

definition faces :: "'s mg_env \<Rightarrow> http_request \<Rightarrow> ('s, 'z) forwarder_scheme \<Rightarrow> http_event list" where
  "faces env req st =
     (let events = (if action req = ''add'' \<or> action req = ''remove'' then [notImplemented ''/faces/''] else []);
          links = sort_key ls_faceID (map (link_at st) (Table_GetAll st));
          input = (with_status req (new_input ''/faces''))\<lparr>FaceList :=
            map (\<lambda>f. \<lparr>fle_FaceID = ls_faceID f, fle_Uri = uri_String (RemoteURI f), fle_LocalUri = uri_String (LocalURI f)\<rparr>) links\<rparr>
      in events @ [ExecuteTemplate ''faces.go.tmpl'' (face_detail env (Form req ''face_id'') links st input)])"

section \<open>Routing\<close>

definition brief_less :: "routeBrief \<Rightarrow> routeBrief \<Rightarrow> bool" where
  "brief_less a b = string_less (rb_Prefix a) (rb_Prefix b)"

definition fib_hop :: "(u64 \<Rightarrow> gostring) \<Rightarrow> FibNextHopEntry \<Rightarrow> routeHops" where
  "fib_hop faceMap nh = \<lparr>rh_FaceID = Nexthop nh, rh_Uri = faceMap (Nexthop nh), rh_Cost = Cost nh, rh_Origin = 0, rh_Flags = 0\<rparr>"

definition rib_hop :: "(u64 \<Rightarrow> gostring) \<Rightarrow> Route \<Rightarrow> routeHops" where
  "rib_hop faceMap nh = \<lparr>rh_FaceID = FaceID nh, rh_Uri = faceMap (FaceID nh), rh_Cost = route_Cost nh, rh_Origin = Origin nh,
     rh_Flags = Route.Flags nh\<rparr>"

definition face_map :: "('s, 'z) forwarder_scheme \<Rightarrow> u64 \<Rightarrow> gostring" where
  "face_map st =
     fold (\<lambda>a m. m(ls_faceID (link_at st a) := uri_String (RemoteURI (link_at st a)))) (Table_GetAll st) (\<lambda>_. [])"

definition routing_detail ::
  "'s mg_env \<Rightarrow> gostring \<Rightarrow> baseFibStrategyEntry list \<Rightarrow> RibEntry list \<Rightarrow> ('s, 'z) forwarder_scheme \<Rightarrow> renderInput \<Rightarrow> renderInput" where
  "routing_detail env pfx fib rib st input =
     (if pfx = [] then input
      else
        let input = input\<lparr>RequestName := pfx\<rparr>;
            faceMap = face_map st;
            input = (case List.find (\<lambda>e. name_text env (fse_name e) = pfx) fib of
                None \<Rightarrow> input
              | Some entry \<Rightarrow> fold (\<lambda>nh input. input\<lparr>FibHops := FibHops input @ [fib_hop faceMap nh]\<rparr>) (fse_nexthops entry) (input\<lparr>FibHops := []\<rparr>))
        in case List.find (\<lambda>e. name_text env (rib_Name e) = pfx) rib of
             None \<Rightarrow> input
           | Some entry \<Rightarrow> fold (\<lambda>nh input. input\<lparr>RibHops := FibHops input @ [rib_hop faceMap nh]\<rparr>) (routes entry) (input\<lparr>RibHops := []\<rparr>))"

definition routing :: "'s mg_env \<Rightarrow> http_request \<Rightarrow> ('s, 'z) forwarder_scheme \<Rightarrow> http_event list" where
  "routing env req st =
     (let events = (if action req = ''add'' \<or> action req = ''remove'' then [notImplemented ''/routing/''] else []);
          fib = GetAllFIBEntries (me_ops env) (snd (RibFib st));
          rib = rib_GetAllEntries (fst (RibFib st));
          input = (with_status req (new_input ''/routing''))\<lparr>
            FibList := sort_Slice brief_less
              (map (\<lambda>e. \<lparr>rb_Prefix = name_text env (fse_name e), rb_RouteCount = int (length (fse_nexthops e))\<rparr>) fib),
            RibList := sort_Slice brief_less
              (map (\<lambda>e. \<lparr>rb_Prefix = name_text env (rib_Name e), rb_RouteCount = int (length (routes e))\<rparr>) rib)\<rparr>
      in events @ [ExecuteTemplate ''routing.go.tmpl'' (routing_detail env (Form req ''name'') fib rib st input)])"

section \<open>Strategies and the other pages\<close>

definition ui_strategies :: "'s mg_env \<Rightarrow> http_request \<Rightarrow> ('s, 'z) forwarder_scheme \<Rightarrow> http_event list" where
  "ui_strategies env req st =
     (let events = (if action req = ''set'' \<or> action req = ''unset'' then [notImplemented ''/strategies/''] else []);
          input = (with_status req (new_input ''/strategies''))\<lparr>Strategies :=
            map (\<lambda>e. \<lparr>us_Name = name_text env (fse_name e), us_Strategy = name_text env (fse_strategy e)\<rparr>)
              (GetAllForwardingStrategies (me_ops env) (snd (RibFib st)))\<rparr>
      in events @ [ExecuteTemplate ''strategies.go.tmpl'' input])"

definition autoconf :: "http_request \<Rightarrow> http_event list" where
  "autoconf req =
     (if action req = ''perform'' then [notImplemented ''/autoconf/''] else []) @
     [ExecuteTemplate ''autoconf.go.tmpl'' (with_status req (new_input ''/autoconf''))]"

definition ui_index :: "http_event list" where
  "ui_index = [ExecuteTemplate ''index.go.tmpl'' (new_input ''/'')]"

section \<open>Configuration\<close>

text \<open>The fields of the struct \<^verbatim>\<open>setting\<close>: name, key of the configuration and knd. Reflection ranges over them in this order.\<close>

definition setting_fields :: "(string \<times> string \<times> setting_kind) list" where
  "setting_fields =
     [(''LogLevel'', ''core.log_level'', KString),
      (''FacesQueueSize'', ''faces.queue_size'', KInt),
      (''FacesCongestionMarking'', ''faces.congestion_marking'', KBool),
      (''FacesLockThreadsToCores'', ''faces.lock_threads_to_cores'', KBool),
      (''EtherEnabled'', ''faces.ethernet.enabled'', KBool),
      (''EtherType'', ''faces.ethernet.ethertype'', KInt),
      (''EtherAddr'', ''faces.ethernet.multicast_address'', KString),
      (''UdpPortUnicast'', ''faces.udp.port_unicast'', KUint16),
      (''UdpPortMulticast'', ''faces.udp.port_multicast'', KUint16),
      (''UdpMulticastIpv4'', ''faces.udp.multicast_address_ipv4'', KString),
      (''UdpMulticastIpv6'', ''faces.udp.multicast_address_ipv6'', KString),
      (''UdpLifetime'', ''faces.udp.lifetime'', KUint16),
      (''TcpEnabled'', ''faces.tcp.enabled'', KBool),
      (''TcpPort'', ''faces.tcp.port_unicast'', KUint16),
      (''TcpLifetime'', ''faces.tcp.lifetime'', KUint16),
      (''UnixEnabled'', ''faces.unix.enabled'', KBool),
      (''UnixSocketPath'', ''faces.unix.socket_path'', KString),
      (''WsEnabled'', ''faces.websocket.enabled'', KBool),
      (''WsBind'', ''faces.websocket.bind'', KString),
      (''WsPort'', ''faces.websocket.port'', KUint16),
      (''WsTlsEnabled'', ''faces.websocket.tls_enabled'', KBool),
      (''WsTlsCert'', ''faces.websocket.tls_cert'', KString),
      (''WsTlsKey'', ''faces.websocket.tls_key'', KString),
      (''FwThreads'', ''fw.threads'', KInt),
      (''FwQueueSize'', ''fw.queue_size'', KInt),
      (''FwLockThreadsToCores'', ''fw.lock_threads_to_cores'', KBool),
      (''AllowLocalhop'', ''mgmt.allow_localhop'', KBool),
      (''TablesQueueSize'', ''tables.queue_size'', KInt),
      (''CsCapacity'', ''tables.content_store.capacity'', KUint16),
      (''CsAdmit'', ''tables.content_store.admit'', KBool),
      (''CsServe'', ''tables.content_store.serve'', KBool),
      (''CsReplacementPolicy'', ''tables.content_store.replacement_policy'', KString),
      (''DnlLifetime'', ''tables.dead_nonce_list.lifetime'', KInt),
      (''RibAutoPrefixPropagation'', ''tables.rib.auto_prefix_propagation'', KBool),
      (''FibTableAlgorithm'', ''tables.fib.algorithm'', KString),
      (''FibTableHashTableM'', ''tables.fib.hashtable.m'', KUint16)]"

definition field_value :: "config_tree \<Rightarrow> string \<Rightarrow> setting_kind \<Rightarrow> setting_value" where
  "field_value tree key knd =
     (case knd of
        KString \<Rightarrow> VString (case tree key of Some (TomlString v) \<Rightarrow> v | _ \<Rightarrow> [])
      | KUint16 \<Rightarrow> VUint16 (case tree key of Some (TomlInt v) \<Rightarrow> ucast v | _ \<Rightarrow> 0)
      | KInt \<Rightarrow> VInt (case tree key of Some (TomlInt v) \<Rightarrow> v | _ \<Rightarrow> 0)
      | KBool \<Rightarrow> VBool (case tree key of Some (TomlBool v) \<Rightarrow> v | _ \<Rightarrow> False))"

definition tomlTreeToSetting :: "config_tree \<Rightarrow> (string \<times> setting_value) list" where
  "tomlTreeToSetting tree = map (\<lambda>(fname, key, knd). (fname, field_value tree key knd)) setting_fields"

definition ToUpper :: "gostring \<Rightarrow> gostring" where
  "ToUpper s = map (\<lambda>c. if 97 \<le> c \<and> c \<le> 122 then c - 32 else c) s"

definition form_value :: "setting_kind \<Rightarrow> gostring \<Rightarrow> toml_value option" where
  "form_value knd val =
     (case knd of
        KString \<Rightarrow> Some (TomlString val)
      | KUint16 \<Rightarrow> (case ParseUint_err val 16 of (v, err) \<Rightarrow> if err then Some (TomlInt (of_nat v)) else None)
      | KInt \<Rightarrow> (case Atoi_err val of (v, err) \<Rightarrow> if err then Some (TomlInt (of_int v)) else None)
      | KBool \<Rightarrow> Some (TomlBool (ToUpper val = lit ''TRUE'')))"

definition set_field :: "(string \<Rightarrow> gostring) \<Rightarrow> string \<times> string \<times> setting_kind \<Rightarrow> config_tree \<Rightarrow> config_tree" where
  "set_field form f tree =
     (case f of (fname, key, knd) \<Rightarrow>
        let val = form fname
        in if val = [] then tree
           else case form_value knd val of None \<Rightarrow> tree | Some v \<Rightarrow> tree(key \<mapsto> v))"

definition tomlFormToTree :: "config_tree \<Rightarrow> (string \<Rightarrow> gostring) \<Rightarrow> config_tree" where
  "tomlFormToTree tree form = fold (set_field form) setting_fields tree"

text \<open>
  The configuration page, with the file as it is read (\<open>None\<close>: it cannot be) and whether it can be written; the first component is
  the file that is left.
\<close>

definition config :: "bool \<Rightarrow> config_tree option \<Rightarrow> http_request \<Rightarrow> config_tree option \<times> http_event list" where
  "config writable file req =
     (case file of
        None \<Rightarrow> (None, [Redirect ''/''])
      | Some tree \<Rightarrow>
          if action req = ''save''
          then (if writable then Some (tomlFormToTree tree (Form req)) else Some tree, [Redirect ''/config/''])
          else (Some tree, [ExecuteTemplate ''config.go.tmpl'' ((new_input ''/'')\<lparr>Setting := tomlTreeToSetting tree\<rparr>)]))"

section \<open>Lemmas\<close>

lemma set_insert_by [simp]: "set (insert_by lt x xs) = insert x (set xs)" "length (insert_by lt x xs) = Suc (length xs)"
  by (induction xs) auto

lemma mset_insert_by [simp]: "mset (insert_by lt x xs) = add_mset x (mset xs)"
  by (induction xs) auto

lemma mset_fold_insert: "mset (fold (insert_by lt) xs ys) = mset xs + mset ys"
  by (induction xs arbitrary: ys) auto

lemma mset_sort_Slice: "mset (sort_Slice lt xs) = mset xs"
  by (simp add: sort_Slice_def mset_fold_insert)

lemma string_less_trans: "string_less a b \<Longrightarrow> string_less b c \<Longrightarrow> string_less a c"
proof (induction a c arbitrary: b rule: string_less.induct)
  case (3 x xs z zs)
  then show ?case by (cases b) (auto intro: less_trans)
qed (use string_less.elims(2) in \<open>fastforce+\<close>)

lemma string_less_irrefl: "\<not> string_less a a"
  by (induction a) auto

text \<open>Sorting by a string: every element is followed by elements that are not less.\<close>

lemma sorted_insert_by:
  assumes "sorted_wrt (\<lambda>a b. \<not> string_less (k b) (k a)) xs"
  shows "sorted_wrt (\<lambda>a b. \<not> string_less (k b) (k a)) (insert_by (\<lambda>a b. string_less (k a) (k b)) x xs)"
  using assms
proof (induction xs)
  case (Cons y ys)
  have "\<not> string_less (k z) (k x)" if "string_less (k x) (k y)" "\<not> string_less (k z) (k y)" for z
    using that string_less_trans[of "k z" "k x" "k y"] by blast
  moreover have "\<not> string_less (k y) (k x)" if "string_less (k x) (k y)"
    using that string_less_trans string_less_irrefl by blast
  ultimately show ?case using Cons by auto
qed simp

lemma sorted_sort_Slice: "sorted_wrt (\<lambda>a b. \<not> string_less (k b) (k a)) (sort_Slice (\<lambda>a b. string_less (k a) (k b)) xs)"
proof -
  have "sorted_wrt (\<lambda>a b. \<not> string_less (k b) (k a)) ys \<Longrightarrow>
      sorted_wrt (\<lambda>a b. \<not> string_less (k b) (k a)) (fold (insert_by (\<lambda>a b. string_less (k a) (k b))) xs ys)" for ys
    by (induction xs arbitrary: ys) (auto intro: sorted_insert_by)
  then show ?thesis by (simp add: sort_Slice_def)
qed

lemma parse_uint_loop_digits:
  assumes "n \<le> m"
  shows "parse_uint_loop s n m = (v, False) \<longleftrightarrow> parse_digits s n = Some v \<and> v \<le> m"
  using assms
proof (induction s arbitrary: n)
  case (Cons c cs)
  have mono: "parse_digits cs a = Some v \<Longrightarrow> a \<le> v" for a
    by (induction cs arbitrary: a) (force split: if_splits)+
  show ?case using Cons mono[of "10 * n + (unat c - 48)"] by (auto simp: Let_def)
qed auto

lemma ParseUint_err_iff: "ParseUint_err s bits = (v, False) \<longleftrightarrow> ParseUint s bits = Some v"
proof -
  have "v \<le> 2 ^ bits - 1 \<longleftrightarrow> v < 2 ^ bits" for v :: nat by (metis Suc_pred' less_Suc_eq_le zero_less_numeral zero_less_power)
  then show ?thesis
    using parse_uint_loop_digits[of 0 "2 ^ bits - 1" s v] by (auto simp: ParseUint_err_def ParseUint_def split: option.splits)
qed

lemma parse_uint_loop_error: "parse_uint_loop s n m = (v, True) \<Longrightarrow> v = 0 \<or> v = m"
  by (induction s n m rule: parse_uint_loop.induct) (auto simp: Let_def split: if_splits)

lemma Atoi_err_iff: "Atoi_err s = (v, False) \<longleftrightarrow> Atoi s = Some v"
proof (cases "s = []")
  case False
  define ds where "ds = (if hd s = 43 \<or> hd s = 45 then tl s else s)"
  obtain un e where pu: "ParseUint_err ds 64 = (un, e)" by (cases "ParseUint_err ds 64")
  have c: "ch CHR ''-'' = 45" "ch CHR ''+'' = 43" by simp_all
  have A: "Atoi s = (if ds = [] then None else case parse_digits ds 0 of None \<Rightarrow> None
      | Some n \<Rightarrow> if hd s = 45 then (if n \<le> 2 ^ 63 then Some (- int n) else None) else (if n < 2 ^ 63 then Some (int n) else None))"
    using False by (simp add: Atoi_def Let_def ds_def c disj_commute)
  show ?thesis
  proof (cases e)
    case False
    then have "ds \<noteq> []" "parse_digits ds 0 = Some un"
      using pu ParseUint_err_iff[of ds 64 un] by (auto simp: ParseUint_def split: if_splits option.splits)
    then show ?thesis using \<open>s \<noteq> []\<close> pu False unfolding A by (auto simp: Atoi_err_def Let_def simp flip: ds_def)
  next
    case True
    have "ParseUint ds 64 = None" using ParseUint_err_iff[of ds 64] pu True by (cases "ParseUint ds 64") auto
    then have "ds = [] \<or> parse_digits ds 0 = None \<or> (\<exists>n. parse_digits ds 0 = Some n \<and> 2 ^ 64 \<le> n)"
      by (auto simp: ParseUint_def not_less split: if_splits option.splits)
    then have "Atoi s = None" unfolding A by auto
    moreover have "un = 0 \<or> un = 2 ^ 64 - 1"
      using pu True parse_uint_loop_error[of ds 0 "2 ^ 64 - 1" un] by (auto simp: ParseUint_err_def split: if_splits)
    ultimately show ?thesis using \<open>s \<noteq> []\<close> pu True by (auto simp: Atoi_err_def Let_def simp flip: ds_def)
  qed
qed (simp add: Atoi_err_def Atoi_def)

lemma set_field_apply:
  "set_field form (fname, key, knd) tree k =
     (if k = key \<and> form fname \<noteq> [] \<and> form_value knd (form fname) \<noteq> None then form_value knd (form fname) else tree k)"
  by (auto simp: set_field_def Let_def split: option.splits)

lemma fold_set_field_other: "key \<notin> (fst \<circ> snd) ` set fs \<Longrightarrow> fold (set_field form) fs tree key = tree key"
proof (induction fs arbitrary: tree)
  case (Cons f fs)
  then show ?case by (cases f) (auto simp: set_field_apply)
qed simp

lemma fold_set_field:
  assumes "distinct (map (fst \<circ> snd) fs)" "(fname, key, knd) \<in> set fs"
  shows "fold (set_field form) fs tree key =
    (if form fname = [] then tree key else case form_value knd (form fname) of None \<Rightarrow> tree key | Some v \<Rightarrow> Some v)"
  using assms
proof (induction fs arbitrary: tree)
  case (Cons f fs)
  show ?case
  proof (cases "(fname, key, knd) \<in> set fs")
    case True
    then have "set_field form f tree key = tree key"
      using Cons.prems(1) by (cases f) (auto simp: set_field_apply image_iff)
    then show ?thesis using Cons.IH[OF _ True, of "set_field form f tree"] Cons.prems(1) by (simp split: option.split)
  next
    case False
    then have f: "f = (fname, key, knd)" using Cons.prems(2) by simp
    have "key \<notin> (fst \<circ> snd) ` set fs" using Cons.prems(1) by (simp add: f)
    from fold_set_field_other[OF this, of form "set_field form f tree"] show ?thesis
      by (auto simp: f set_field_apply split: option.splits)
  qed
qed simp

lemma setting_keys_distinct: "distinct (map (fst \<circ> snd) setting_fields)"
  by (simp add: setting_fields_def)

lemma routing_detail_fib:
  "fold (\<lambda>nh input. input\<lparr>FibHops := FibHops input @ [g nh]\<rparr>) nhs input = input\<lparr>FibHops := FibHops input @ map g nhs\<rparr>"
  by (induction nhs arbitrary: input) simp_all

lemma routing_detail_rib:
  "fold (\<lambda>nh input. input\<lparr>RibHops := FibHops input @ [g nh]\<rparr>) rts input =
     (if rts = [] then input else input\<lparr>RibHops := FibHops input @ [g (last rts)]\<rparr>)"
  by (induction rts arbitrary: input) simp_all

lemma face_map_at:
  assumes "ft_inv st" "(i, a) \<in> set (Faces st)"
  shows "face_map st i = uri_String (RemoteURI (link_at st a))"
proof -
  have ids: "ls_faceID (link_at st b) = j" if "(j, b) \<in> set (Faces st)" for j b
    using ft_invD[OF assms(1) that] by (auto simp: link_at_def)
  have "fold (\<lambda>a m. m(ls_faceID (link_at st a) := uri_String (RemoteURI (link_at st a)))) (map snd xs) m i =
      uri_String (RemoteURI (link_at st a))"
    if "set xs \<subseteq> set (Faces st)" "distinct (map fst xs)" "(i, a) \<in> set xs \<or> i \<notin> fst ` set xs \<and> m i = uri_String (RemoteURI (link_at st a))" for xs m
    using that
  proof (induction xs arbitrary: m)
    case (Cons x xs)
    obtain j b where x: "x = (j, b)" by (cases x)
    have "ls_faceID (link_at st b) = j" using Cons.prems(1) ids by (simp add: x)
    then show ?case using Cons by (auto simp: x image_iff)
  qed simp
  moreover have "distinct (map fst (Faces st))" using assms(1) by (simp add: ft_inv_def)
  ultimately show ?thesis using assms(2) by (simp add: face_map_def Table_GetAll_def)
qed

lemma find_unique: "x \<in> set xs \<Longrightarrow> P x \<Longrightarrow> (\<And>y. y \<in> set xs \<Longrightarrow> P y \<Longrightarrow> y = x) \<Longrightarrow> List.find P xs = Some x"
  by (metis find_None_iff find_Some_iff not_None_eq nth_mem)

lemma link_ids:
  assumes "ft_inv st"
  shows "map ls_faceID (map (link_at st) (Table_GetAll st)) = map fst (Faces st)"
  using ft_invD[OF assms] by (fastforce simp: Table_GetAll_def link_at_def)

lemma find_face:
  assumes "ft_inv st"
  shows "List.find (\<lambda>f. ls_faceID f = i) (sort_key ls_faceID (map (link_at st) (Table_GetAll st))) = map_option (link_at st) (Table_Get st i)"
proof (cases "Table_Get st i")
  case None
  then have "i \<notin> set (map ls_faceID (map (link_at st) (Table_GetAll st)))"
    unfolding link_ids[OF assms] by (auto simp: Table_Get_def map_of_eq_None_iff)
  then show ?thesis by (auto simp: None find_None_iff)
next
  case (Some a)
  have id: "ls_faceID (link_at st b) = j" if "(j, b) \<in> set (Faces st)" for j b
    using ft_invD[OF assms that] by (auto simp: link_at_def)
  have a: "(i, a) \<in> set (Faces st)" using Some by (simp add: Table_Get_def map_of_SomeD)
  have uniq: "b = a" if "(j, b) \<in> set (Faces st)" "j = i" for j b
    using that a assms by (auto simp: ft_inv_def dest: eq_key_imp_eq_value)
  have "List.find (\<lambda>f. ls_faceID f = i) (sort_key ls_faceID (map (link_at st) (Table_GetAll st))) = Some (link_at st a)"
  proof (rule find_unique)
    show "link_at st a \<in> set (sort_key ls_faceID (map (link_at st) (Table_GetAll st)))"
      using a by (auto simp: Table_GetAll_def intro!: imageI) (metis image_eqI snd_conv)
    show "ls_faceID (link_at st a) = i" by (rule id[OF a])
  next
    fix f
    assume "f \<in> set (sort_key ls_faceID (map (link_at st) (Table_GetAll st)))" "ls_faceID f = i"
    then obtain j b where "(j, b) \<in> set (Faces st)" "f = link_at st b" "ls_faceID (link_at st b) = i" by (auto simp: Table_GetAll_def)
    then show "f = link_at st a" using id uniq by metis
  qed
  then show ?thesis by (simp add: Some)
qed

section \<open>Properties\<close>

text \<open>The page of the faces lists the faces of the table in the order of their identifiers. The face that is asked for is shown with
  exactly the nexthops of the FIB that lead to it, sorted by name; of a face that does not exist there is nothing. After the
  answer that adding and removing are not implemented, the page is sent all the same.\<close>

theorem faces_page_spec:
  assumes "ft_inv st"
  shows "\<exists>input. faces env req st =
      (if action req \<in> {''add'', ''remove''} then [notImplemented ''/faces/''] else []) @ [ExecuteTemplate ''faces.go.tmpl'' input]
    \<and> map fle_FaceID (FaceList input) = sorted_list_of_set (fst ` set (Faces st))
    \<and> (\<forall>i. ParseUint (Form req ''face_id'') 64 = Some (unat i) \<longrightarrow>
         (case Table_Get st i of
            None \<Rightarrow> FaceData input = None \<and> RouteData input = []
          | Some a \<Rightarrow> FaceData input = Some (face_data (link_at st a)) \<and> mset (RouteData input) = mset (face_routes env i st)
              \<and> sorted_wrt (\<lambda>r r'. \<not> string_less (frd_Route r') (frd_Route r)) (RouteData input)))"
proof -
  let ?links = "sort_key ls_faceID (map (link_at st) (Table_GetAll st))"
  define inp where "inp = (with_status req (new_input ''/faces''))\<lparr>FaceList :=
            map (\<lambda>f. \<lparr>fle_FaceID = ls_faceID f, fle_Uri = uri_String (RemoteURI f), fle_LocalUri = uri_String (LocalURI f)\<rparr>) ?links\<rparr>"
  let ?input = "face_detail env (Form req ''face_id'') ?links st inp"
  have blank: "FaceData inp = None" "RouteData inp = []"
    by (simp_all add: inp_def with_status_def new_input_def Let_def split: prod.split bool.split)
  have L: "FaceList ?input = FaceList inp" by (simp add: face_detail_def Let_def split: option.split)
  have m: "mset (map ls_faceID ?links) = mset (map fst (Faces st))" 
    unfolding link_ids[OF assms, symmetric] by (simp only: mset_map mset_sort)
  have "distinct (map ls_faceID ?links)" using mset_eq_imp_distinct_iff[OF m] assms by (simp add: ft_inv_def)
  moreover have "set (map ls_faceID ?links) = fst ` set (Faces st)" using mset_eq_setD[OF m] by (simp only: list.set_map)
  ultimately have "map ls_faceID ?links = sorted_list_of_set (fst ` set (Faces st))"
    by (intro sorted_distinct_set_unique) (simp_all only: sorted_sort_key sorted_list_of_set(2) distinct_sorted_list_of_set
        set_sorted_list_of_set finite_imageI List.finite_set sorted_sorted_list_of_set)
  then have ids: "map fle_FaceID (FaceList ?input) = sorted_list_of_set (fst ` set (Faces st))"
    unfolding L by (simp add: inp_def comp_def)
  have detail: "case Table_Get st i of
            None \<Rightarrow> FaceData ?input = None \<and> RouteData ?input = []
          | Some a \<Rightarrow> FaceData ?input = Some (face_data (link_at st a)) \<and> mset (RouteData ?input) = mset (face_routes env i st)
              \<and> sorted_wrt (\<lambda>r r'. \<not> string_less (frd_Route r') (frd_Route r)) (RouteData ?input)"
    if "ParseUint (Form req ''face_id'') 64 = Some (unat i)" for i
  proof -
    have "Form req ''face_id'' \<noteq> []" using that by (auto simp: ParseUint_def)
    then have "?input = (case Table_Get st i of None \<Rightarrow> inp
        | Some a \<Rightarrow> inp\<lparr>FaceData := Some (face_data (link_at st a)),
            RouteData := sort_Slice (\<lambda>a b. string_less (frd_Route a) (frd_Route b)) (face_routes env i st)\<rparr>)"
      using that by (cases "Table_Get st i") (simp_all add: face_detail_def find_face[OF assms])
    then show ?thesis by (simp add: blank mset_sort_Slice sorted_sort_Slice split: option.split)
  qed
  show ?thesis
    by (rule exI[of _ ?input]) (use ids detail in \<open>simp add: faces_def Let_def flip: inp_def\<close>)
qed

text \<open>The page of the routes lists all entries of FIB and RIB with the numbers of their nexthops and routes, sorted by name. For the
  name that is asked for it shows the nexthops of the FIB; of the routes of the RIB it shows only the last one, behind the
  nexthops of the FIB.\<close>

theorem routing_page_spec:
  "\<exists>input. routing env req st =
      (if action req \<in> {''add'', ''remove''} then [notImplemented ''/routing/''] else []) @ [ExecuteTemplate ''routing.go.tmpl'' input]
    \<and> mset (FibList input) = mset (map (\<lambda>e. \<lparr>rb_Prefix = name_text env (fse_name e), rb_RouteCount = int (length (fse_nexthops e))\<rparr>)
        (GetAllFIBEntries (me_ops env) (snd (RibFib st))))
    \<and> mset (RibList input) = mset (map (\<lambda>e. \<lparr>rb_Prefix = name_text env (rib_Name e), rb_RouteCount = int (length (routes e))\<rparr>)
        (rib_GetAllEntries (fst (RibFib st))))
    \<and> sorted_wrt (\<lambda>r r'. \<not> string_less (rb_Prefix r') (rb_Prefix r)) (FibList input)
    \<and> sorted_wrt (\<lambda>r r'. \<not> string_less (rb_Prefix r') (rb_Prefix r)) (RibList input)
    \<and> (if Form req ''name'' = [] then FibHops input = [] \<and> RibHops input = []
       else FibHops input =
              (case List.find (\<lambda>e. name_text env (fse_name e) = Form req ''name'') (GetAllFIBEntries (me_ops env) (snd (RibFib st))) of
                 None \<Rightarrow> [] | Some e \<Rightarrow> map (fib_hop (face_map st)) (fse_nexthops e))
          \<and> RibHops input =
              (case List.find (\<lambda>e. name_text env (rib_Name e) = Form req ''name'') (rib_GetAllEntries (fst (RibFib st))) of
                 None \<Rightarrow> [] | Some e \<Rightarrow> FibHops input @ [rib_hop (face_map st) (last (routes e))]))"
proof -
  let ?fib = "GetAllFIBEntries (me_ops env) (snd (RibFib st))" and ?rib = "rib_GetAllEntries (fst (RibFib st))"
  let ?F = "map (\<lambda>e. \<lparr>rb_Prefix = name_text env (fse_name e), rb_RouteCount = int (length (fse_nexthops e))\<rparr>) ?fib"
  let ?R = "map (\<lambda>e. \<lparr>rb_Prefix = name_text env (rib_Name e), rb_RouteCount = int (length (routes e))\<rparr>) ?rib"
  define inp where "inp = (with_status req (new_input ''/routing''))\<lparr>FibList := sort_Slice brief_less ?F, RibList := sort_Slice brief_less ?R\<rparr>"
  let ?input = "routing_detail env (Form req ''name'') ?fib ?rib st inp"
  have blank: "FibHops inp = []" "RibHops inp = []"
    by (simp_all add: inp_def with_status_def new_input_def Let_def split: prod.split bool.split)
  have L: "FibList ?input = sort_Slice brief_less ?F" "RibList ?input = sort_Slice brief_less ?R"
    by (simp_all add: routing_detail_def routing_detail_fib routing_detail_rib Let_def inp_def split: option.split)
  have nonempty: "routes e \<noteq> []" if "List.find P ?rib = Some e" for P e
    using that by (auto simp: find_Some_iff rib_GetAllEntries_def set_nt_walk dest!: nth_mem)
  have less: "brief_less = (\<lambda>a b. string_less (rb_Prefix a) (rb_Prefix b))" by (intro ext) (simp add: brief_less_def)
  have hops: "if Form req ''name'' = [] then FibHops ?input = [] \<and> RibHops ?input = []
       else FibHops ?input = (case List.find (\<lambda>e. name_text env (fse_name e) = Form req ''name'') ?fib of
                 None \<Rightarrow> [] | Some e \<Rightarrow> map (fib_hop (face_map st)) (fse_nexthops e))
          \<and> RibHops ?input = (case List.find (\<lambda>e. name_text env (rib_Name e) = Form req ''name'') ?rib of
                 None \<Rightarrow> [] | Some e \<Rightarrow> FibHops ?input @ [rib_hop (face_map st) (last (routes e))])"
    using nonempty
    by (auto simp: routing_detail_def routing_detail_fib routing_detail_rib Let_def blank split: option.split)
  show ?thesis
    by (rule exI[of _ ?input], intro conjI; (rule hops)?)
      (simp_all only: L mset_sort_Slice less sorted_sort_Slice, simp add: routing_def Let_def flip: inp_def less)
qed

text \<open>Saving the form sets strings and switches to what the form holds. A number is saved only when it does not parse, and then
  what is saved is the value that the parser returns along with the error: a valid number changes nothing.\<close>

theorem config_save_spec:
  assumes "(fname, key, knd) \<in> set setting_fields" "Form req fname \<noteq> []" "action req = ''save''"
  shows "\<exists>tree'. config True (Some tree) req = (Some tree', [Redirect ''/config/'']) \<and> tree' key = (case knd of
      KString \<Rightarrow> Some (TomlString (Form req fname))
    | KBool \<Rightarrow> Some (TomlBool (ToUpper (Form req fname) = lit ''TRUE''))
    | KUint16 \<Rightarrow> if ParseUint (Form req fname) 16 \<noteq> None then tree key else Some (TomlInt (of_nat (fst (ParseUint_err (Form req fname) 16))))
    | KInt \<Rightarrow> if Atoi (Form req fname) \<noteq> None then tree key else Some (TomlInt (of_int (fst (Atoi_err (Form req fname))))))"
proof -
  let ?val = "Form req fname"
  have u: "ParseUint ?val 16 \<noteq> None \<longleftrightarrow> \<not> snd (ParseUint_err ?val 16)"
    using ParseUint_err_iff[of ?val 16] by (cases "ParseUint_err ?val 16") auto
  have a: "Atoi ?val \<noteq> None \<longleftrightarrow> \<not> snd (Atoi_err ?val)"
    using Atoi_err_iff[of ?val] by (cases "Atoi_err ?val") auto
  have "tomlFormToTree tree (Form req) key = (case form_value knd ?val of None \<Rightarrow> tree key | Some v \<Rightarrow> Some v)"
    unfolding tomlFormToTree_def fold_set_field[OF setting_keys_distinct assms(1)] using assms(2) by simp
  then show ?thesis
    using u a assms(3) by (cases knd) (auto simp: config_def form_value_def split: prod.splits)
qed

text \<open>The details of face 1, asked for together with an action that is not implemented.\<close>

theorem faces_page_spec_witness:
  "\<exists>st :: FibStrategyTree forwarder. \<exists>input. Table_Get st 1 = Some 0
     \<and> faces (toy_menv toy_params) \<lparr>action = ''add'', Form = (\<lambda>s. if s = ''face_id'' then lit ''1'' else [])\<rparr> st
         = [notImplemented ''/faces/'', ExecuteTemplate ''faces.go.tmpl'' input]
     \<and> map fle_FaceID (FaceList input) = [1] \<and> FaceData input = Some (face_data (link_at st 0))"
proof -
  define st where "st = toy_forwarder\<lparr>Faces := [(1, 0)], Links := [0 \<mapsto> ls_SetFaceID 1 toy_ls], Dispatch := [1 \<mapsto> 0]\<rparr>"
  define req where "req = \<lparr>action = ''add'', Form = (\<lambda>s. if s = ''face_id'' then lit ''1'' else [])\<rparr>"
  have inv: "ft_inv st" by (simp add: ft_inv_def ls_SetFaceID_def st_def)
  have get: "Table_Get st 1 = Some 0" and F: "Faces st = [(1, 0)]" by (simp_all add: Table_Get_def st_def)
  have num: "ParseUint (Form req ''face_id'') 64 = Some (unat (1 :: u64))" by (simp add: ParseUint_def req_def)
  obtain input where i: "faces (toy_menv toy_params) req st = [notImplemented ''/faces/'', ExecuteTemplate ''faces.go.tmpl'' input]"
    "map fle_FaceID (FaceList input) = [1]"
    "\<forall>i. ParseUint (Form req ''face_id'') 64 = Some (unat i) \<longrightarrow>
         (case Table_Get st i of
            None \<Rightarrow> FaceData input = None \<and> RouteData input = []
          | Some a \<Rightarrow> FaceData input = Some (face_data (link_at st a)) \<and> mset (RouteData input) = mset (face_routes (toy_menv toy_params) i st)
              \<and> sorted_wrt (\<lambda>r r'. \<not> string_less (frd_Route r') (frd_Route r)) (RouteData input))"
    using faces_page_spec[OF inv, of "toy_menv toy_params" req] by (elim exE conjE) (simp add: F req_def)
  from i(3)[rule_format, OF num] have "FaceData input = Some (face_data (link_at st 0))" by (simp add: get)
  then show ?thesis using get i(1,2) unfolding req_def by (intro exI[of _ st] exI[of _ input]) simp
qed

text \<open>Setting the number of threads to 4 leaves it at 8.\<close>

theorem config_save_spec_witness:
  "\<exists>tree'. config True (Some [''fw.threads'' \<mapsto> TomlInt 8]) \<lparr>action = ''save'', Form = (\<lambda>s. if s = ''FwThreads'' then lit ''4'' else [])\<rparr>
     = (Some tree', [Redirect ''/config/'']) \<and> tree' ''fw.threads'' = Some (TomlInt 8)"
proof -
  let ?req = "\<lparr>action = ''save'', Form = (\<lambda>s. if s = ''FwThreads'' then lit ''4'' else [])\<rparr>"
  have "(''FwThreads'', ''fw.threads'', KInt) \<in> set setting_fields" by (simp add: setting_fields_def)
  moreover have "Atoi (lit ''4'') = Some 4" by (simp add: Atoi_def Let_def)
  ultimately show ?thesis using config_save_spec[of "''FwThreads''" "''fw.threads''" KInt ?req "[''fw.threads'' \<mapsto> TomlInt 8]"] by simp
qed

end
