(* ===== verification/Spec2Isabelle.thy ===== *)
theory Spec2Isabelle
  imports Dead_Nonce Fib_Tree Fib_Hash Rib Strategies Name_Codec Link_Spec Mgmt_Props Siginfo_Spec Interest_Spec Lp_Codec_Spec Ndn_Mgmt_Spec Startup Dashboard
begin

text \<open>
  A verification development of YaNFD, a forwarding daemon for Named Data Networking written in Go.

  The program. A \<^emph>\<open>face\<close> (\<^verbatim>\<open>src/face\<close>) is a transport with a link service on top. Frames that a
  transport receives are decoded, put together and dispatched to forwarding threads by the link service; packets
  that the threads send are cut into frames. A \<^emph>\<open>forwarding thread\<close> (\<^verbatim>\<open>src/fw\<close>) owns a Pending
  Interest Table with a Content Store (\<^verbatim>\<open>src/table/pit-cs*.go\<close>) and a dead nonce list, and reads the FIB
  (\<^verbatim>\<open>src/table/fib-strategy*.go\<close>) that all threads share. The FIB has two implementations and is written by
  the RIB (\<^verbatim>\<open>src/table/rib.go\<close>). \<^emph>\<open>Management\<close> (\<^verbatim>\<open>src/mgmt\<close>) changes the tables on
  request. \<^verbatim>\<open>src/ndn\<close> holds names, TLV blocks and face URIs, \<^verbatim>\<open>src/utils\<close> the priority queue.

  Conventions. A slice is a list, a map that is only looked up is a HOL map, a map that is also ranged over is an
  association list with distinct keys (so the arbitrary order of Go's iteration is the order of that list, and the
  theorems that do not speak about the order hold for every order). Machine integers are words of their width;
  \<^verbatim>\<open>int\<close> is kept as an integer where the code cannot leave its range. A pointer that may be nil is an option.
  Objects shared by pointer live in a heap, a map from addresses (PIT entries, pending packets, faces). A step that may
  panic returns a sum, \<open>Inl\<close> the panic; a loop that may not end is a partial function or is shown to end. Package-level
  variables and interfaces that the code gets from elsewhere are arguments. Third-party packages (\<^verbatim>\<open>go-ndn\<close>
  with its encodings, names and hashes) are records of functions, \<open>enc_api\<close>, \<open>lp_api\<close>, whose documented
  laws are named hypotheses (\<open>enc_laws\<close>, \<open>lp_laws\<close>) with an instance that satisfies them.

  Theories, in the order in which they build on each other:

  \<^item> \<open>Prelude\<close>: panics, loops that may panic, slices and association lists. \<open>Go_Ndn\<close>: the names and hashes
    of the third-party package. \<open>Go_Binary\<close>, \<open>Go_Strings\<close>, \<open>Go_Net\<close>: what is used of Go's library.

  \<^item> \<open>Heap_Queue\<close> (\<^verbatim>\<open>utils/heap\<close>, \<^verbatim>\<open>utils/priority_queue\<close>): the sift loops and the
    queue; the heap invariant, and that \<open>Pop\<close>, \<open>Push\<close> and \<open>Update\<close> act on the multiset of items.
    Its interface is a locale that \<open>Dead_Nonce\<close> (\<^verbatim>\<open>table/dead-nonce-list.go\<close>) and \<open>Pit_Cs\<close> use.

  \<^item> \<open>Name_Tree\<close>: trees indexed by names, shared by the tree FIB, the RIB and the PIT. \<open>Fib_Spec\<close>: the abstract
    FIB, its longest prefix match and the locale of the FIB interface; \<open>Fib_Tree\<close>
    (\<^verbatim>\<open>fib-strategy-tree.go\<close>) and \<open>Fib_Hash\<close> (\<^verbatim>\<open>fib-strategy-hashtable.go\<close>) interpret it:
    every update changes the abstract table at one name, every lookup is the longest prefix match; the hash table needs
    that no two names in use collide.

  \<^item> \<open>Rib\<close> (\<^verbatim>\<open>rib.go\<close>): routes and their flattening; proved once for the FIB interface, that the FIB holds the
    cheapest cost per face of each entry's routes after any sequence of operations, and interpreted for both FIBs.

  \<^item> \<open>Packets\<close>, \<open>Cs_Lru\<close> (\<^verbatim>\<open>cs-lru.go\<close>, behind the locale of replacement policies), \<open>Pit_Cs\<close>,
    \<open>Content_Store\<close> (\<^verbatim>\<open>pit-cs-tree.go\<close>, \<^verbatim>\<open>pit-cs.go\<close>): aggregation of Interests, tokens, matching,
    expiry, lookup in and capacity of the store.

  \<^item> \<open>Fw_Thread\<close> (\<^verbatim>\<open>fw/thread.go\<close>, \<^verbatim>\<open>bestroute.go\<close>, \<^verbatim>\<open>multicast.go\<close>): the pipelines;
    \<open>Fw_Invariant\<close> that they keep the invariants of all tables, \<open>Fw_Total\<close> that they return, \<open>Fw_Sends\<close> what
    they send; \<open>Forwarding\<close> the reachable states of a thread and the theorems on every run; \<open>Strategies\<close> what
    each strategy forwards to.

  \<^item> \<open>Tlv_Num\<close>, \<open>Tlv_Block\<close> (\<^verbatim>\<open>ndn/tlv\<close>): variable-length numbers and blocks with cached encodings;
    \<open>Ndn_Name\<close>, \<open>Name_Spec\<close>, \<open>Name_Codec\<close> (\<^verbatim>\<open>ndn/name.go\<close>): components, order, printing and
    parsing, encoding and decoding.

  \<^item> \<open>Link_Service\<close>, \<open>Link_Spec\<close> (\<^verbatim>\<open>face/ndnlp-link-service.go\<close>, \<^verbatim>\<open>link-service.go\<close>):
    fragmentation, reassembly, acknowledgements, dispatching.

  \<^item> \<open>Face_Uri\<close>, \<open>Uri_Decode\<close>, \<open>Net_Spec\<close>, \<open>Uri_Spec\<close> (\<^verbatim>\<open>ndn/uri.go\<close>): face URIs, their canonical form,
    parsing and printing. \<open>Face_Table\<close> (\<^verbatim>\<open>face/table.go\<close>, \<^verbatim>\<open>events.go\<close>, \<^verbatim>\<open>transport.go\<close>): the table, the
    cache of events and the life cycle of faces.

  \<^item> \<open>Transports\<close>, \<open>Unix_Stream\<close>, \<open>Face_Life\<close> (\<^verbatim>\<open>face/*-transport.go\<close>, \<^verbatim>\<open>*-listener.go\<close>): what every
    transport does when it sends, receives, fails or expires, how the Unix transport cuts its stream into packets, and that
    every face in the table is up and has the scope its transport gave it.

  \<^item> \<open>Mgmt_Core\<close>, \<open>Mgmt_Face\<close> (\<^verbatim>\<open>src/mgmt\<close>): the modules with their commands, datasets and notifications;
    \<open>Mgmt_Spec\<close> the relation of all changes a command can make, \<open>Mgmt_System\<close> management together with the tables, the
    threads and the faces, \<open>Mgmt_Props\<close> the theorems on all commands.

  \<^item> \<open>Go_Sha256\<close>: the digest that signatures and parameters use, written out. \<open>Ndn_Elems\<close>: what the packet classes share,
    the loop of a decoder over its elements, and the relations \<open>writes\<close>, \<open>builds\<close> and \<open>reads\<close> that say which items an encoder
    writes and what the decoder makes of items. \<open>Ndn_Meta\<close> (\<^verbatim>\<open>metainfo.go\<close>, \<^verbatim>\<open>signature-info.go\<close>,
    \<^verbatim>\<open>delegation.go\<close>, \<^verbatim>\<open>security\<close>), \<open>Ndn_Data\<close> (\<^verbatim>\<open>data.go\<close>, \<^verbatim>\<open>prefix-announcement.go\<close>),
    \<open>Ndn_Interest\<close> (\<^verbatim>\<open>interest.go\<close>), \<open>Lp_Codec\<close> (\<^verbatim>\<open>lpv2\<close>) and \<open>Ndn_Mgmt\<close> (\<^verbatim>\<open>ndn/mgmt\<close>) hold the
    objects with their setters, encoders and decoders. \<open>Ndn_Spec\<close>, \<open>Data_Spec\<close>, \<open>Siginfo_Spec\<close>, \<open>Interest_Spec\<close>,
    \<open>Lp_Codec_Spec\<close> and \<open>Ndn_Mgmt_Spec\<close> show the round trips from an object over its wire back to the object, which parts do not
    survive them, what a validated decoding accepts, and where the digest of application parameters goes.

  \<^item> \<open>Config\<close> (\<^verbatim>\<open>core/config.go\<close> and \<^verbatim>\<open>Configure\<close> of the packages): the typed access to the configuration; every
    file gives capacities, lifetimes and ports in range. \<open>Startup\<close> (\<^verbatim>\<open>executor/yanfd.go\<close>, the constructors of the listeners):
    what a start creates, as steps of \<open>Face_Life\<close>, and what \<^verbatim>\<open>Stop\<close> waits for. \<open>Dashboard\<close>
    (\<^verbatim>\<open>cmd/yanfdui/server\<close>): the pages of the web interface as functions of the request and the forwarder, and which
    settings a form saves.

  Bounds. The loop that draws a PIT token reads a finite tape of random numbers; \<open>RandExhausted\<close> marks a tape that was
  too short, and the theorems on a thread ask for a tape with an unused number for every draw. The removal of dead nonces
  is bounded by 100 as in the code. Identifiers of faces and positions in slices are assumed to fit their types only
  where a hypothesis says so.

  An encoding is assumed to be shorter than \<open>2 ^ 61\<close> or \<open>2 ^ 62\<close> bytes where a decoder adds lengths in 64 bits.

  Not modelled: goroutines, channels and mutexes as such (operations are steps whose order is a sequence; a send that
  would block for ever is an outcome), so \<^verbatim>\<open>Start\<close> is a function that the goroutines it launches do not interrupt,
  although each of its steps is one of \<open>net_step\<close>, whose invariants hold in every order; logging, sockets, signals, profiling, the HTTP
  server with its templates, and system calls, which are input and output; the TOML library, whose tree of values is an argument; the
  measurements table, a wrapper of a third-party concurrent map that nothing calls, with an average in floating point;
  the command lines in \<^verbatim>\<open>cmd\<close>; tests. The version string and
  the timestamps of the general status are left out, and so is the printing of a SignatureInfo, which prints a time of
  Go's library. An error text that is composed of a constant and another error is kept as the constant. The encoders of the
  third-party package that the management thread uses are parameters; the classes of \<^verbatim>\<open>src/ndn\<close>, which the forwarder
  itself no longer calls, are modelled on their own.
\<close>

end
